(* ===== verification/K5_Prelude.thy ===== *)
theory K5_Prelude
  imports Complex_Main "HOL-Library.Word" "HOL-Library.Sublist" "HOL-Library.Multiset"
begin

text \<open>
  Shared vocabulary of the development.

  \<^item> \<open>'a dyn\<close>: an argument whose class the Python code checks with \<open>isinstance\<close>.
  \<^item> \<open>'a awaited\<close>: what \<open>await asyncio.wait_for(operation, timeout)\<close> does in its caller.
  \<^item> \<open>('a, 's, 'e) gen\<close>: a Python generator, as the tree of its suspension points.
  \<^item> big-endian integers, as \<open>int.from_bytes\<close> and \<open>struct\<close> read and write them.

  Every error is a value of a sum type: \<open>Inl\<close> carries what the code raises. Error messages
  are constants of the raise site and are left out; error codes are kept.
\<close>

section \<open>Collections of facts\<close>

named_theorems k5_inv \<open>inversion facts of operations that can raise\<close>
named_theorems k5_wf \<open>preservation of the well-formedness invariants\<close>

section \<open>Collecting the elements of a comprehension that can raise\<close>

fun collect :: "('e + 'a) list \<Rightarrow> 'e + 'a list" where
  "collect [] = Inr []"
| "collect (Inl e # rs) = Inl e"
| "collect (Inr x # rs) = (case collect rs of Inl e \<Rightarrow> Inl e | Inr xs \<Rightarrow> Inr (x # xs))"

lemma collect_map_Inr [simp]: "collect (map Inr xs) = Inr xs"
  by (induction xs) auto

lemma collect_Inr [k5_inv]: "collect rs = Inr xs \<longleftrightarrow> rs = map Inr xs"
proof
  show "collect rs = Inr xs \<Longrightarrow> rs = map Inr xs"
    by (induction rs arbitrary: xs rule: collect.induct) (auto split: sum.splits)
qed simp

lemma collect_map_cong:
  "(\<And>x. x \<in> set xs \<Longrightarrow> f x = Inr (g x)) \<Longrightarrow> collect (map f xs) = Inr (map g xs)"
  by (induction xs) auto

section \<open>Sequencing computations that can raise\<close>

fun andThen :: "'e + 'a \<Rightarrow> ('a \<Rightarrow> 'e + 'b) \<Rightarrow> 'e + 'b" where
  "andThen (Inl e) f = Inl e"
| "andThen (Inr x) f = f x"

lemma andThen_Inr [k5_inv]: "andThen m f = Inr y \<longleftrightarrow> (\<exists>x. m = Inr x \<and> f x = Inr y)"
  by (cases m) auto

text \<open>\<open>except E as e: raise F\<close> around a computation.\<close>

fun map_err :: "('e \<Rightarrow> 'f) \<Rightarrow> 'e + 'a \<Rightarrow> 'f + 'a" where
  "map_err f (Inl e) = Inl (f e)"
| "map_err f (Inr x) = Inr x"

lemma map_err_Inr [k5_inv]: "map_err f m = Inr x \<longleftrightarrow> m = Inr x"
  by (cases m) auto

text \<open>What the constructor of a pydantic model raises.\<close>

datatype validation_error = ValidationError

section \<open>Dynamically typed arguments\<close>

datatype 'a dyn = Inst 'a | NotInst

text \<open>\<open>all(isinstance(x, C) for x in xs)\<close>: the instances, when all of them are.\<close>

fun dyn_insts :: "'a dyn list \<Rightarrow> 'a list option" where
  "dyn_insts [] = Some []"
| "dyn_insts (NotInst # xs) = None"
| "dyn_insts (Inst x # xs) = map_option (Cons x) (dyn_insts xs)"

lemma dyn_insts_map [simp]: "dyn_insts (map Inst xs) = Some xs"
  by (induction xs) auto

lemma dyn_insts_Some [k5_inv]: "dyn_insts ds = Some xs \<longleftrightarrow> ds = map Inst xs"
proof
  show "dyn_insts ds = Some xs \<Longrightarrow> ds = map Inst xs"
    by (induction ds arbitrary: xs rule: dyn_insts.induct) auto
qed simp

section \<open>Awaited operations\<close>

text \<open>
  \<open>wait_for\<close> returns the operation's value, raises what the operation raised, raises
  \<open>TimeoutError\<close>, or is itself cancelled (\<open>CancelledError\<close>, which \<open>except Exception\<close> does
  not catch).
\<close>

datatype 'a awaited = Returned 'a | Raised | TimedOut | Cancelled

section \<open>Generators\<close>

text \<open>
  A generator function's body runs up to a \<open>yield\<close>, and goes on when the caller asks for the
  next item. \<open>GYield x s c g\<close>: the body is suspended at a yield of \<open>x\<close>, its object is in
  state \<open>s\<close>, \<open>close()\<close> here runs the \<open>finally\<close> blocks and leaves the object in state \<open>c\<close>,
  and \<open>next()\<close> continues as \<open>g\<close>. \<open>GReturn s\<close> and \<open>GRaise e s\<close> end the body.
\<close>

datatype ('a, 's, 'e) gen =
    GReturn 's
  | GRaise 'e 's
  | GYield 'a 's 's "('a, 's, 'e) gen"

fun gen_items :: "('a, 's, 'e) gen \<Rightarrow> 'a list" where
  "gen_items (GReturn s) = []"
| "gen_items (GRaise e s) = []"
| "gen_items (GYield x s c g) = x # gen_items g"

fun gen_end :: "('a, 's, 'e) gen \<Rightarrow> ('e + unit) \<times> 's" where
  "gen_end (GReturn s) = (Inr (), s)"
| "gen_end (GRaise e s) = (Inl e, s)"
| "gen_end (GYield x s c g) = gen_end g"

text \<open>
  A caller that takes at most \<open>n\<close> items and then closes the generator: the items it got, how
  the generator ended (\<open>None\<close> when it was closed while suspended) and the object's state.
  Closing a generator whose body never started runs nothing, so \<open>n = 0\<close> leaves \<open>s0\<close>.
\<close>

fun gen_take_close :: "nat \<Rightarrow> 's \<Rightarrow> ('a, 's, 'e) gen \<Rightarrow> 'a list \<times> ('e + unit) option \<times> 's" where
  "gen_take_close 0 s0 g = ([], None, s0)"
| "gen_take_close (Suc n) s0 (GReturn s) = ([], Some (Inr ()), s)"
| "gen_take_close (Suc n) s0 (GRaise e s) = ([], Some (Inl e), s)"
| "gen_take_close (Suc n) s0 (GYield x s c g) =
     (let (xs, r, s') = gen_take_close n c g in (x # xs, r, s'))"

text \<open>Every state the object can be left in: at the end, or by a close at some yield.\<close>

fun gen_finals :: "('a, 's, 'e) gen \<Rightarrow> 's set" where
  "gen_finals (GReturn s) = {s}"
| "gen_finals (GRaise e s) = {s}"
| "gen_finals (GYield x s c g) = insert c (gen_finals g)"

lemma gen_take_close_items: "fst (gen_take_close n s0 g) = take n (gen_items g)"
proof (induction g arbitrary: n s0)
  case (GYield x s c g)
  then show ?case by (cases n) (simp_all add: case_prod_beta)
qed (case_tac n; simp)+

lemma gen_take_close_state:
  "n \<noteq> 0 \<Longrightarrow> snd (snd (gen_take_close n s0 g)) \<in> gen_finals g"
proof (induction g arbitrary: n s0)
  case (GYield x s c g)
  then obtain m where n: "n = Suc m" by (cases n) auto
  with GYield.IH [of m c] show ?case by (cases m) (simp_all add: case_prod_beta)
qed (case_tac n; simp)+

lemma gen_end_in_finals: "snd (gen_end g) \<in> gen_finals g"
  by (induction g) simp_all

text \<open>
  A specification of a generator: \<open>Y\<close> holds of the items so far and the state at every yield, \<open>C\<close>
  of the state a close at that yield leaves, and \<open>E\<close> of all items, the outcome and the state at
  the end.
\<close>

fun gen_spec :: "('a list \<Rightarrow> 's \<Rightarrow> bool) \<Rightarrow> ('a list \<Rightarrow> 's \<Rightarrow> bool) \<Rightarrow> ('a list \<Rightarrow> 'e + unit \<Rightarrow> 's \<Rightarrow> bool) \<Rightarrow>
    'a list \<Rightarrow> ('a, 's, 'e) gen \<Rightarrow> bool" where
  "gen_spec Y C E xs (GReturn s) = E xs (Inr ()) s"
| "gen_spec Y C E xs (GRaise e s) = E xs (Inl e) s"
| "gen_spec Y C E xs (GYield x s c g) \<longleftrightarrow>
     Y (xs @ [x]) s \<and> C (xs @ [x]) c \<and> gen_spec Y C E (xs @ [x]) g"

lemma gen_spec_end: "gen_spec Y C E xs g \<Longrightarrow> E (xs @ gen_items g) (fst (gen_end g)) (snd (gen_end g))"
  by (induction g arbitrary: xs) fastforce+

lemma gen_spec_take_close:
  "gen_spec Y C E xs g \<Longrightarrow> gen_take_close n s0 g = (ys, oc, s) \<Longrightarrow>
   (oc = None \<and> n = 0 \<and> ys = [] \<and> s = s0) \<or> (oc = None \<and> ys \<noteq> [] \<and> C (xs @ ys) s) \<or>
   (\<exists>r. oc = Some r \<and> E (xs @ ys) r s \<and> ys = gen_items g \<and> gen_end g = (r, s))"
proof (induction g arbitrary: n s0 xs ys)
  case (GYield x s1 c g)
  show ?case
  proof (cases n)
    case 0
    with GYield.prems show ?thesis by simp
  next
    case (Suc m)
    with GYield.prems(2) obtain zs where ys: "ys = x # zs" and t: "gen_take_close m c g = (zs, oc, s)"
      by (auto split: prod.splits)
    from GYield.prems(1) have "gen_spec Y C E (xs @ [x]) g" and c: "C (xs @ [x]) c" by simp_all
    from GYield.IH [OF this(1) t] c ys show ?thesis by auto
  qed
qed (case_tac n; simp)+

lemma gen_spec_mono:
  "gen_spec Y C E xs g \<Longrightarrow> (\<And>ys s. Y ys s \<Longrightarrow> Y' ys s) \<Longrightarrow> (\<And>ys s. C ys s \<Longrightarrow> C' ys s) \<Longrightarrow>
   (\<And>ys r s. E ys r s \<Longrightarrow> E' ys r s) \<Longrightarrow> gen_spec Y' C' E' xs g"
  by (induction g arbitrary: xs) auto

section \<open>Loops that may not end\<close>

text \<open>One turn of a loop gives its result or the state to go on with; \<open>None\<close> is a loop that never ends.\<close>

partial_function (option) repeat_until :: "('s \<Rightarrow> 'r + 's) \<Rightarrow> 's \<Rightarrow> 'r option" where
  "repeat_until turn s = (case turn s of Inl r \<Rightarrow> Some r | Inr s' \<Rightarrow> repeat_until turn s')"

lemma repeat_until_result:
  assumes "repeat_until turn s = Some r" and "I s"
    and "\<And>s s'. I s \<Longrightarrow> turn s = Inr s' \<Longrightarrow> I s'" and "\<And>s r. I s \<Longrightarrow> turn s = Inl r \<Longrightarrow> Q r"
  shows "Q r"
proof -
  let ?P = "\<lambda>turn s r. (\<forall>s s'. I s \<longrightarrow> turn s = Inr s' \<longrightarrow> I s') \<longrightarrow> (\<forall>s r. I s \<longrightarrow> turn s = Inl r \<longrightarrow> Q r) \<longrightarrow> I s \<longrightarrow> Q r"
  have "?P turn s r"
  proof (rule repeat_until.raw_induct [of ?P, OF _ assms(1)])
    fix rep turn s r
    assume IH: "\<And>turn s r. rep turn s = Some r \<Longrightarrow> ?P turn s r"
      and step: "(case turn s of Inl r \<Rightarrow> Some r | Inr s' \<Rightarrow> rep turn s') = Some r"
    show "?P turn s r"
    proof (cases "turn s")
      case (Inr s')
      with step IH [of turn s' r] show ?thesis by auto
    qed (use step in auto)
  qed
  with assms(2-) show ?thesis by blast
qed

lemma repeat_until_ends:
  assumes "I s" and "\<And>s s'. I s \<Longrightarrow> turn s = Inr s' \<Longrightarrow> I s' \<and> m s' < (m s :: nat)"
  shows "\<exists>r. repeat_until turn s = Some r"
  using assms(1)
proof (induction "m s" arbitrary: s rule: less_induct)
  case less
  show ?case
  proof (cases "turn s")
    case (Inr s')
    with assms(2) [OF less.prems Inr] less.hyps [of s'] show ?thesis by (simp add: repeat_until.simps)
  qed (simp add: repeat_until.simps)
qed

section \<open>Big-endian integers\<close>

type_synonym byte = "8 word"

fun from_bytes_big :: "byte list \<Rightarrow> int" where
  "from_bytes_big bs = foldl (\<lambda>acc b. acc * 256 + uint b) 0 bs"

definition to_bytes_u32 :: "int \<Rightarrow> byte list" where
  "to_bytes_u32 n =
     [word_of_int (n div 16777216), word_of_int (n div 65536), word_of_int (n div 256), word_of_int n]"

lemma length_to_bytes_u32 [simp]: "length (to_bytes_u32 n) = 4"
  by (simp add: to_bytes_u32_def)

lemma from_to_bytes_u32 [simp]:
  assumes "0 \<le> n" and "n < 4294967296"
  shows "from_bytes_big (to_bytes_u32 n) = n"
proof -
  have "from_bytes_big (to_bytes_u32 n) =
      ((n div 16777216 mod 256 * 256 + n div 65536 mod 256) * 256 + n div 256 mod 256) * 256 + n mod 256"
    by (simp add: to_bytes_u32_def uint_word_of_int)
  also have "n div 65536 = n div 256 div 256" by (simp add: zdiv_zmult2_eq [symmetric])
  also have "n div 16777216 = n div 256 div 256 div 256" by (simp add: zdiv_zmult2_eq [symmetric])
  also have "n div 256 div 256 div 256 mod 256 = n div 256 div 256 div 256"
    using assms by (simp add: zdiv_zmult2_eq [symmetric])
  also have "((n div 256 div 256 div 256 * 256 + n div 256 div 256 mod 256) * 256
      + n div 256 mod 256) * 256 + n mod 256 = n"
    by (simp add: div_mult_mod_eq)
  finally show ?thesis .
qed

lemma from_bytes_big_bounds:
  "0 \<le> from_bytes_big bs" "from_bytes_big bs < 256 ^ length bs"
proof -
  have "0 \<le> from_bytes_big bs \<and> from_bytes_big bs < 256 ^ length bs"
  proof (induction bs rule: rev_induct)
    case (snoc b bs)
    have "0 \<le> uint b" "uint b < 256" using uint_bounded [of b] by simp_all
    with snoc show ?case by simp
  qed simp
  then show "0 \<le> from_bytes_big bs" "from_bytes_big bs < 256 ^ length bs" by auto
qed

lemma from_bytes_big_snoc: "from_bytes_big (bs @ [b]) = from_bytes_big bs * 256 + uint b"
  by simp

lemma base_256_unique:
  assumes "a * 256 + b = c * 256 + (d :: int)" and "0 \<le> b" "b < 256" "0 \<le> d" "d < 256"
  shows "a = c \<and> b = d"
proof -
  have "(a * 256 + b) div 256 = a" "(c * 256 + d) div 256 = c" using assms(2-5) by simp_all
  with assms(1) show ?thesis by auto
qed

lemma from_bytes_big_inj:
  "length xs = length ys \<Longrightarrow> from_bytes_big xs = from_bytes_big ys \<Longrightarrow> xs = ys"
proof (induction xs arbitrary: ys rule: rev_induct)
  case (snoc x xs)
  then obtain y zs where ys: "ys = zs @ [y]" by (cases ys rule: rev_exhaust) auto
  have "0 \<le> uint x" "uint x < 256" "0 \<le> uint y" "uint y < 256"
    using uint_bounded [of x] uint_bounded [of y] by simp_all
  moreover have "from_bytes_big xs * 256 + uint x = from_bytes_big zs * 256 + uint y"
    using snoc.prems(2) unfolding ys from_bytes_big_snoc .
  ultimately have "from_bytes_big xs = from_bytes_big zs" "uint x = uint y"
    using base_256_unique by metis+
  from snoc.IH [OF _ this(1)] snoc.prems(1) ys have "xs = zs" by simp
  moreover from \<open>uint x = uint y\<close> have "x = y" by (rule word_uint_eqI)
  ultimately show ?case by (simp add: ys)
qed simp

lemma to_from_bytes_u32:
  assumes "length bs = 4"
  shows "to_bytes_u32 (from_bytes_big bs) = bs"
proof (rule from_bytes_big_inj)
  have "from_bytes_big bs < 4294967296" using from_bytes_big_bounds(2) [of bs] assms by simp
  then show "from_bytes_big (to_bytes_u32 (from_bytes_big bs)) = from_bytes_big bs"
    by (intro from_to_bytes_u32 from_bytes_big_bounds) 
qed (simp add: assms)

declare from_bytes_big.simps [simp del]

section \<open>Lists\<close>

text \<open>\<open>len(xs)\<close> as a Python integer.\<close>

abbreviation len :: "'a list \<Rightarrow> int" where
  "len xs \<equiv> int (length xs)"

lemma length_card_distinct: "length xs = card (set xs) \<longleftrightarrow> distinct xs"
  by (metis card_distinct distinct_card)

lemma filter_dropWhile_sorted:
  assumes "sorted (map f xs)"
  shows "dropWhile (\<lambda>x. f x < a) xs = filter (\<lambda>x. a \<le> f x) xs"
  using assms
proof (induction xs)
  case (Cons x xs)
  show ?case
  proof (cases "f x < a")
    case False
    with Cons.prems have "\<forall>y\<in>set xs. a \<le> f y" by force
    with False show ?thesis by simp
  qed (use Cons in auto)
qed simp

lemma map_of_map_key:
  assumes "distinct (map f xs)" and "x \<in> set xs"
  shows "map_of (map (\<lambda>y. (f y, g y)) xs) (f x) = Some (g x)"
  by (rule map_of_is_SomeI) (use assms in \<open>auto simp: comp_def\<close>)

lemma foldl_upd_notin:
  "k \<notin> f ` set xs \<Longrightarrow> foldl (\<lambda>m y. m(f y \<mapsto> g y)) start xs k = start k"
  by (induction xs arbitrary: start) auto

lemma foldl_upd_in:
  "distinct (map f xs) \<Longrightarrow> x \<in> set xs \<Longrightarrow>
   foldl (\<lambda>m y. m(f y \<mapsto> g y)) start xs (f x) = Some (g x)"
  by (induction xs arbitrary: start) (auto simp: foldl_upd_notin)

end
