(* ===== verification/Viewport_Geometry.thy ===== *)
theory Viewport_Geometry
  imports K5_Prelude
begin

text \<open>
  \<open>src/src/k5vision/media/viewport_geometry.py\<close>: the source-free geometry of a viewport, its
  placement under a logical slot, and a layout of up to 64 placements.

  The three classes are frozen pydantic models. Calling the class runs the field bounds and the
  \<open>model_validator\<close>; it gives the object or raises \<open>ValidationError\<close>. A nested argument that
  already is an instance is taken as it is. \<open>schema_version\<close> has the one value \<open>"1"\<close> and is left
  out. \<open>viewport_layout_wf\<close> is the invariant of a layout whose parts all passed their checks.
\<close>

section \<open>Geometry\<close>

abbreviation max_coordinate :: int where "max_coordinate \<equiv> 1000000"
abbreviation max_dimension :: int where "max_dimension \<equiv> 1000000"
abbreviation max_z_index :: int where "max_z_index \<equiv> 65535"

record viewport_geometry =
  vg_x :: int
  vg_y :: int
  vg_width :: int
  vg_height :: int
  vg_z_index :: int

definition viewport_geometry_wf :: "viewport_geometry \<Rightarrow> bool" where
  "viewport_geometry_wf g \<longleftrightarrow>
     0 \<le> vg_x g \<and> vg_x g \<le> max_coordinate \<and>
     0 \<le> vg_y g \<and> vg_y g \<le> max_coordinate \<and>
     1 \<le> vg_width g \<and> vg_width g \<le> max_dimension \<and>
     1 \<le> vg_height g \<and> vg_height g \<le> max_dimension \<and>
     0 \<le> vg_z_index g \<and> vg_z_index g \<le> max_z_index \<and>
     \<not> max_coordinate + max_dimension < vg_x g + vg_width g \<and>
     \<not> max_coordinate + max_dimension < vg_y g + vg_height g"

definition mk_viewport_geometry ::
  "int \<Rightarrow> int \<Rightarrow> int \<Rightarrow> int \<Rightarrow> int \<Rightarrow> validation_error + viewport_geometry" where
  "mk_viewport_geometry x y width height z_index =
     (let g = \<lparr>vg_x = x, vg_y = y, vg_width = width, vg_height = height, vg_z_index = z_index\<rparr>
      in if viewport_geometry_wf g then Inr g else Inl ValidationError)"

section \<open>Placement\<close>

record viewport_placement =
  vp_logical_slot :: int
  vp_geometry :: viewport_geometry

definition slot_ok :: "int \<Rightarrow> bool" where
  "slot_ok slot \<longleftrightarrow> 0 \<le> slot \<and> slot \<le> 4095"

definition mk_viewport_placement ::
  "int \<Rightarrow> viewport_geometry \<Rightarrow> validation_error + viewport_placement" where
  "mk_viewport_placement slot g =
     (if slot_ok slot then Inr \<lparr>vp_logical_slot = slot, vp_geometry = g\<rparr> else Inl ValidationError)"

definition viewport_placement_wf :: "viewport_placement \<Rightarrow> bool" where
  "viewport_placement_wf p \<longleftrightarrow> slot_ok (vp_logical_slot p) \<and> viewport_geometry_wf (vp_geometry p)"

section \<open>Layout\<close>

record viewport_layout =
  vl_placements :: "viewport_placement list"

abbreviation layout_slots :: "viewport_layout \<Rightarrow> int list" where
  "layout_slots l \<equiv> map vp_logical_slot (vl_placements l)"

definition mk_viewport_layout :: "viewport_placement list \<Rightarrow> validation_error + viewport_layout" where
  "mk_viewport_layout ps =
     (if 1 \<le> length ps \<and> length ps \<le> 64 \<and>
         length (map vp_logical_slot ps) = card (set (map vp_logical_slot ps))
      then Inr \<lparr>vl_placements = ps\<rparr> else Inl ValidationError)"

definition viewport_layout_wf :: "viewport_layout \<Rightarrow> bool" where
  "viewport_layout_wf l \<longleftrightarrow>
     1 \<le> length (vl_placements l) \<and> length (vl_placements l) \<le> 64 \<and>
     distinct (layout_slots l) \<and> list_all viewport_placement_wf (vl_placements l)"

definition by_slot :: "viewport_layout \<Rightarrow> int \<rightharpoonup> viewport_geometry" where
  "by_slot l = foldl (\<lambda>m p. m(vp_logical_slot p \<mapsto> vp_geometry p)) Map.empty (vl_placements l)"

section \<open>Facts\<close>

lemma mk_viewport_geometry_Inr [k5_inv]:
  "mk_viewport_geometry x y w h z = Inr g \<longleftrightarrow>
     g = \<lparr>vg_x = x, vg_y = y, vg_width = w, vg_height = h, vg_z_index = z\<rparr> \<and> viewport_geometry_wf g"
  by (auto simp: mk_viewport_geometry_def Let_def split: if_splits)

lemma mk_viewport_placement_Inr [k5_inv]:
  "mk_viewport_placement slot g = Inr p \<longleftrightarrow>
     p = \<lparr>vp_logical_slot = slot, vp_geometry = g\<rparr> \<and> slot_ok slot"
  by (auto simp: mk_viewport_placement_def)

lemma mk_viewport_layout_Inr [k5_inv]:
  "mk_viewport_layout ps = Inr l \<longleftrightarrow>
     l = \<lparr>vl_placements = ps\<rparr> \<and> 1 \<le> length ps \<and> length ps \<le> 64 \<and> distinct (map vp_logical_slot ps)"
  unfolding mk_viewport_layout_def length_card_distinct by (simp only: length_card_distinct split: if_split) blast

lemma mk_viewport_layout_wf [k5_wf]:
  "mk_viewport_layout ps = Inr l \<Longrightarrow> list_all viewport_placement_wf ps \<Longrightarrow> viewport_layout_wf l"
  by (auto simp: k5_inv viewport_layout_wf_def)

lemma mk_viewport_layout_same_slots:
  "viewport_layout_wf l \<Longrightarrow> map vp_logical_slot ps = layout_slots l \<Longrightarrow>
   mk_viewport_layout ps = Inr \<lparr>vl_placements = ps\<rparr>"
  by (auto simp: k5_inv viewport_layout_wf_def dest: arg_cong [where f = length])

lemma viewport_layout_wf_nth:
  "viewport_layout_wf l \<Longrightarrow> i < length (vl_placements l) \<Longrightarrow> viewport_placement_wf (vl_placements l ! i)"
  by (simp add: viewport_layout_wf_def list_all_length)

lemma by_slot_placement:
  "viewport_layout_wf l \<Longrightarrow> p \<in> set (vl_placements l) \<Longrightarrow>
   by_slot l (vp_logical_slot p) = Some (vp_geometry p)"
  unfolding by_slot_def viewport_layout_wf_def by (simp add: foldl_upd_in)

lemma by_slot_None:
  "s \<notin> set (layout_slots l) \<Longrightarrow> by_slot l s = None"
  unfolding by_slot_def by (simp add: foldl_upd_notin)

lemma by_slot_Some:
  assumes "viewport_layout_wf l"
  shows "by_slot l s = Some g \<longleftrightarrow>
    (\<exists>p\<in>set (vl_placements l). vp_logical_slot p = s \<and> vp_geometry p = g)"
proof (cases "s \<in> set (layout_slots l)")
  case True
  then obtain p where "p \<in> set (vl_placements l)" "vp_logical_slot p = s" by auto
  with by_slot_placement [OF assms] show ?thesis by fastforce
next
  case False
  with by_slot_None [OF False] show ?thesis by auto
qed

text \<open>The geometry a layout shows in pixels, for two layouts that share a slot only up to depth.\<close>

definition same_rectangle :: "viewport_geometry \<Rightarrow> viewport_geometry \<Rightarrow> bool" where
  "same_rectangle g h \<longleftrightarrow>
     vg_x g = vg_x h \<and> vg_y g = vg_y h \<and> vg_width g = vg_width h \<and> vg_height g = vg_height h"

section \<open>The contract of a layout operation\<close>

text \<open>
  Every edit of a layout is an operation that may raise and that, on a well-formed layout,
  gives a well-formed layout of the same logical slots in the same order. The facts about runs
  of operations rest on this contract only; the editor and the stack order provide it.
\<close>

fun run_layout_ops ::
  "(viewport_layout \<Rightarrow> 'op \<Rightarrow> 'e + viewport_layout) \<Rightarrow> viewport_layout \<Rightarrow> 'op list \<Rightarrow> 'e + viewport_layout" where
  "run_layout_ops f l [] = Inr l"
| "run_layout_ops f l (x # xs) = (case f l x of Inl e \<Rightarrow> Inl e | Inr l' \<Rightarrow> run_layout_ops f l' xs)"

locale layout_operation =
  fixes step :: "viewport_layout \<Rightarrow> 'op \<Rightarrow> 'e + viewport_layout"
  assumes step_wf: "viewport_layout_wf l \<Longrightarrow> step l x = Inr l' \<Longrightarrow> viewport_layout_wf l'"
    and step_slots: "viewport_layout_wf l \<Longrightarrow> step l x = Inr l' \<Longrightarrow> layout_slots l' = layout_slots l"
begin

lemma run_preserves:
  "viewport_layout_wf l \<Longrightarrow> run_layout_ops step l xs = Inr l' \<Longrightarrow>
   viewport_layout_wf l' \<and> layout_slots l' = layout_slots l"
proof (induction xs arbitrary: l)
  case (Cons x xs)
  from Cons.prems(2) obtain m where m: "step l x = Inr m" "run_layout_ops step m xs = Inr l'"
    by (auto split: sum.splits)
  then show ?case
    using Cons.IH [OF step_wf [OF Cons.prems(1) m(1)] m(2)] step_slots [OF Cons.prems(1) m(1)]
    by simp
qed simp

lemma run_by_slot_dom:
  assumes "viewport_layout_wf l" and "run_layout_ops step l xs = Inr l'"
  shows "dom (by_slot l') = dom (by_slot l)"
proof -
  have dom: "dom (by_slot m) = set (layout_slots m)" if "viewport_layout_wf m" for m
    using by_slot_None by_slot_placement [OF that] by (fastforce simp: dom_def)
  from run_preserves [OF assms] dom assms(1) show ?thesis by metis
qed

end

end
