(* ===== verification/Viewport_Stack.thy ===== *)
theory Viewport_Stack
  imports Viewport_Geometry "HOL-Library.Product_Lexorder"
begin

text \<open>
  \<open>src/src/k5vision/media/viewport_stack.py\<close>: bring one logical viewport to the front of the
  paint order, or send it to the back. The paint order of a layout is its placement indices
  sorted by z-index, equal z-indices in placement order.
\<close>

datatype viewport_stack_action = BRING_TO_FRONT | SEND_TO_BACK

datatype viewport_stack_error_code = Stack_INVALID_CONFIGURATION | Stack_SLOT_NOT_FOUND

text \<open>What the function can raise: its own error, or a \<open>ValidationError\<close> of a model class.\<close>

datatype viewport_stack_exn =
    ViewportStackError viewport_stack_error_code
  | Stack_ValidationError

record viewport_stack_edit =
  vse_logical_slot :: int
  vse_action :: viewport_stack_action

definition stack_order :: "viewport_layout \<Rightarrow> nat list" where
  "stack_order l =
     sort_key (\<lambda>i. (vg_z_index (vp_geometry (vl_placements l ! i)), i)) [0..<length (vl_placements l)]"

text \<open>\<open>next((index for index, p in enumerate(ps) if ...), None)\<close> and \<open>list.index\<close>.\<close>

fun find_index :: "('a \<Rightarrow> bool) \<Rightarrow> 'a list \<Rightarrow> nat option" where
  "find_index P [] = None"
| "find_index P (x # xs) = (if P x then Some 0 else map_option Suc (find_index P xs))"

fun list_index :: "'a \<Rightarrow> 'a list \<Rightarrow> nat" where
  "list_index x [] = 0"
| "list_index x (y # ys) = (if y = x then 0 else Suc (list_index x ys))"

definition restacked_geometry :: "nat list \<Rightarrow> nat \<Rightarrow> viewport_placement \<Rightarrow> viewport_geometry" where
  "restacked_geometry order i p = (vp_geometry p)\<lparr>vg_z_index := int (list_index i order)\<rparr>"

fun apply_viewport_stack ::
  "viewport_layout dyn \<Rightarrow> viewport_stack_edit dyn \<Rightarrow> viewport_stack_exn + viewport_layout" where
  "apply_viewport_stack (Inst l) (Inst edit) =
     (case find_index (\<lambda>p. vp_logical_slot p = vse_logical_slot edit) (vl_placements l) of
        None \<Rightarrow> Inl (ViewportStackError Stack_SLOT_NOT_FOUND)
      | Some target \<Rightarrow>
          (let order = stack_order l;
               position = list_index target order
           in if (vse_action edit = BRING_TO_FRONT \<and> position = length order - 1) \<or>
                 (vse_action edit = SEND_TO_BACK \<and> position = 0)
              then Inr l
              else
                (let rest = remove1 target order;
                     order' = (if vse_action edit = BRING_TO_FRONT then rest @ [target] else target # rest)
                 in case collect (map (\<lambda>(i, p). mk_viewport_placement (vp_logical_slot p)
                                                   (restacked_geometry order' i p))
                                      (enumerate 0 (vl_placements l))) of
                      Inl ValidationError \<Rightarrow> Inl Stack_ValidationError
                    | Inr placements \<Rightarrow>
                        (case mk_viewport_layout placements of
                           Inl ValidationError \<Rightarrow> Inl Stack_ValidationError
                         | Inr l' \<Rightarrow> Inr l'))))"
| "apply_viewport_stack _ _ = Inl (ViewportStackError Stack_INVALID_CONFIGURATION)"

text \<open>The placements of a restacked layout, with no check.\<close>

definition restack :: "viewport_layout \<Rightarrow> nat list \<Rightarrow> viewport_placement list" where
  "restack l order =
     map (\<lambda>(i, p). \<lparr>vp_logical_slot = vp_logical_slot p,
                    vp_geometry = restacked_geometry order i p\<rparr>)
       (enumerate 0 (vl_placements l))"

lemma collect_restack:
  assumes "viewport_layout_wf l"
  shows "collect (map (\<lambda>(i, p). mk_viewport_placement (vp_logical_slot p) (restacked_geometry order i p))
           (enumerate 0 (vl_placements l))) = Inr (restack l order)"
  unfolding restack_def
  by (rule collect_map_cong)
    (use assms in \<open>auto simp: mk_viewport_placement_def viewport_layout_wf_def list_all_iff
       viewport_placement_wf_def in_set_enumerate_eq\<close>)

section \<open>Facts on indices and orders\<close>

lemma find_index_Some:
  "find_index P xs = Some i \<Longrightarrow> i < length xs \<and> P (xs ! i)"
  by (induction xs arbitrary: i) (auto split: if_splits)

lemma find_index_None: "find_index P xs = None \<longleftrightarrow> (\<forall>x\<in>set xs. \<not> P x)"
  by (induction xs) auto

lemma list_index_less: "x \<in> set xs \<Longrightarrow> list_index x xs < length xs"
  by (induction xs) auto

lemma nth_list_index: "x \<in> set xs \<Longrightarrow> xs ! list_index x xs = x"
  by (induction xs) auto

lemma list_index_nth: "distinct xs \<Longrightarrow> i < length xs \<Longrightarrow> list_index (xs ! i) xs = i"
  by (induction xs arbitrary: i) (auto simp: nth_Cons split: nat.splits)

lemma stack_order_set [simp]: "set (stack_order l) = {0..<length (vl_placements l)}"
  by (simp add: stack_order_def)

lemma stack_order_distinct [simp]: "distinct (stack_order l)"
  by (simp add: stack_order_def)

lemma length_stack_order [simp]: "length (stack_order l) = length (vl_placements l)"
  by (simp add: stack_order_def)

lemma stack_order_unique:
  assumes "set xs = {0..<length (vl_placements l)}" and "distinct xs"
    and "sorted (map (\<lambda>i. (vg_z_index (vp_geometry (vl_placements l ! i)), i)) xs)"
  shows "stack_order l = xs"
proof -
  let ?f = "\<lambda>i. (vg_z_index (vp_geometry (vl_placements l ! i)), i)"
  have mset: "mset xs = mset [0..<length (vl_placements l)]"
    using set_eq_iff_mset_eq_distinct [OF assms(2) distinct_upt] assms(1) by (metis set_upt)
  have "sort_key ?f [0..<length (vl_placements l)] = xs"
  proof (rule properties_for_sort_key)
    show "mset xs = mset [0..<length (vl_placements l)]" by (rule mset)
    show "sorted (map ?f xs)" by (rule assms)
    fix k
    have "filter (\<lambda>x. ?f k = ?f x) ys = (if k \<in> set ys then [k] else [])" if "distinct ys" for ys
      using that by (induction ys) auto
    with assms(1,2) show "filter (\<lambda>x. ?f k = ?f x) xs = filter (\<lambda>x. ?f k = ?f x) [0..<length (vl_placements l)]"
      by simp
  qed
  then show ?thesis by (simp add: stack_order_def)
qed

section \<open>Restacking along a given order\<close>

lemma length_restack [simp]: "length (restack l order) = length (vl_placements l)"
  by (simp add: restack_def)

lemma restack_nth:
  "i < length (vl_placements l) \<Longrightarrow> restack l order ! i =
     \<lparr>vp_logical_slot = vp_logical_slot (vl_placements l ! i),
      vp_geometry = (vp_geometry (vl_placements l ! i))\<lparr>vg_z_index := int (list_index i order)\<rparr>\<rparr>"
  by (simp add: restack_def restacked_geometry_def nth_enumerate_eq)

lemma restack_slots [simp]: "map vp_logical_slot (restack l order) = layout_slots l"
  by (rule nth_equalityI) (simp_all add: restack_nth)

lemma restack_order:
  assumes "set order = {0..<length (vl_placements l)}" and "distinct order"
  shows "stack_order \<lparr>vl_placements = restack l order\<rparr> = order"
proof (rule stack_order_unique)
  have len: "length order = length (vl_placements l)"
    using assms distinct_card by fastforce
  have z: "vg_z_index (vp_geometry (restack l order ! (order ! i))) = int i" if "i < length order" for i
  proof -
    have "order ! i < length (vl_placements l)" using that assms(1) nth_mem by fastforce
    then show ?thesis using that by (simp add: restack_nth list_index_nth [OF assms(2)])
  qed
  show "sorted (map (\<lambda>i. (vg_z_index (vp_geometry (vl_placements \<lparr>vl_placements = restack l order\<rparr> ! i)), i)) order)"
    by (rule sorted_iff_nth_mono [THEN iffD2])
      (use z in \<open>auto simp: less_eq_prod_simp le_less\<close>)
qed (use assms in simp_all)

lemma restack_wf:
  assumes "viewport_layout_wf l" and "set order = {0..<length (vl_placements l)}" and "distinct order"
  shows "list_all viewport_placement_wf (restack l order)"
proof -
  have len: "length order = length (vl_placements l)" "length (vl_placements l) \<le> 64"
    using assms distinct_card by (fastforce simp: viewport_layout_wf_def)+
  have "viewport_placement_wf (restack l order ! i)" if i: "i < length (vl_placements l)" for i
  proof -
    have "list_index i order < 64"
      using list_index_less [of i order] i assms(2) len by simp
    with viewport_layout_wf_nth [OF assms(1) i] i show ?thesis
      by (simp add: restack_nth viewport_placement_wf_def viewport_geometry_wf_def)
  qed
  then show ?thesis by (simp add: list_all_length)
qed

definition moved_order :: "viewport_stack_action \<Rightarrow> nat \<Rightarrow> nat list \<Rightarrow> nat list" where
  "moved_order act t order =
     (if act = BRING_TO_FRONT then remove1 t order @ [t] else t # remove1 t order)"

lemma moved_order_perm:
  assumes "set order = A" and "distinct order" and "t \<in> A"
  shows "set (moved_order act t order) = A" and "distinct (moved_order act t order)"
proof -
  have "set (remove1 t order) = A - {t}" "distinct (remove1 t order)"
    using assms by (simp_all add: set_remove1_eq)
  with assms(3) show "set (moved_order act t order) = A" "distinct (moved_order act t order)"
    by (auto simp: moved_order_def)
qed

lemma moved_order_fixed:
  assumes "distinct order" and "t \<in> set order"
    and "(act = BRING_TO_FRONT \<and> list_index t order = length order - 1) \<or>
         (act = SEND_TO_BACK \<and> list_index t order = 0)"
  shows "moved_order act t order = order"
  using assms(3)
proof
  assume a: "act = BRING_TO_FRONT \<and> list_index t order = length order - 1"
  then have last: "last order = t" "order \<noteq> []"
    using nth_list_index [OF assms(2)] assms(2) by (cases "order = []"; simp add: last_conv_nth)+
  then have "order = butlast order @ [t]" by (metis append_butlast_last_id)
  moreover from this assms(1) have "t \<notin> set (butlast order)"
    by (metis distinct_append disjoint_insert(1) inf_sup_aci(1) list.set(2))
  ultimately have "remove1 t order = butlast order"
    by (metis append_Nil2 remove1.simps(2) remove1_append)
  with a \<open>order = butlast order @ [t]\<close> show ?thesis by (simp add: moved_order_def)
next
  assume a: "act = SEND_TO_BACK \<and> list_index t order = 0"
  then show ?thesis using assms(2)
    by (cases order) (auto simp: moved_order_def split: if_splits)
qed

text \<open>The result of an edit whose slot exists, in terms of the paint order alone.\<close>

lemma apply_viewport_stack_found:
  assumes wf: "viewport_layout_wf l"
    and t: "find_index (\<lambda>p. vp_logical_slot p = vse_logical_slot edit) (vl_placements l) = Some t"
  obtains l' where "apply_viewport_stack (Inst l) (Inst edit) = Inr l'"
    and "stack_order l' = moved_order (vse_action edit) t (stack_order l)"
    and "l' = l \<or> l' = \<lparr>vl_placements = restack l (moved_order (vse_action edit) t (stack_order l))\<rparr>"
proof -
  let ?order = "stack_order l" and ?act = "vse_action edit"
  let ?new = "moved_order ?act t ?order"
  from t have tl: "t < length (vl_placements l)" by (auto dest: find_index_Some)
  note perm = moved_order_perm [OF stack_order_set stack_order_distinct, of t l ?act]
  show ?thesis
  proof (cases "(?act = BRING_TO_FRONT \<and> list_index t ?order = length ?order - 1) \<or>
                (?act = SEND_TO_BACK \<and> list_index t ?order = 0)")
    case True
    have "?new = ?order" by (rule moved_order_fixed [OF _ _ True]) (use tl in simp_all)
    then show ?thesis using that [of l] t True by simp
  next
    case False
    have mk: "mk_viewport_layout (restack l ?new) = Inr \<lparr>vl_placements = restack l ?new\<rparr>"
      by (rule mk_viewport_layout_same_slots [OF wf]) simp
    have "apply_viewport_stack (Inst l) (Inst edit) = Inr \<lparr>vl_placements = restack l ?new\<rparr>"
      using t False mk by (cases ?act) (simp_all add: Let_def moved_order_def collect_restack [OF wf])
    then show ?thesis using that restack_order [OF perm] tl by simp
  qed
qed

lemma apply_viewport_stack_Inr:
  assumes wf: "viewport_layout_wf l" and r: "apply_viewport_stack (Inst l) (Inst edit) = Inr l'"
  shows "viewport_layout_wf l'" and "layout_slots l' = layout_slots l"
    and "\<And>i. i < length (vl_placements l) \<Longrightarrow>
      same_rectangle (vp_geometry (vl_placements l' ! i)) (vp_geometry (vl_placements l ! i))"
proof -
  from r obtain t
    where t: "find_index (\<lambda>p. vp_logical_slot p = vse_logical_slot edit) (vl_placements l) = Some t"
    by (auto split: option.splits)
  then have tl: "t < length (vl_placements l)" by (auto dest: find_index_Some)
  let ?new = "moved_order (vse_action edit) t (stack_order l)"
  have perm: "set ?new = {0..<length (vl_placements l)}" "distinct ?new"
    using moved_order_perm [OF stack_order_set stack_order_distinct, of t l] tl by simp_all
  obtain m where m: "apply_viewport_stack (Inst l) (Inst edit) = Inr m"
    and cases: "m = l \<or> m = \<lparr>vl_placements = restack l ?new\<rparr>"
    by (rule apply_viewport_stack_found [OF wf t])
  from m r have "m = l'" by simp
  from cases [unfolded this] have shape: "l' = l \<or> l' = \<lparr>vl_placements = restack l ?new\<rparr>" .
  have wf': "viewport_layout_wf \<lparr>vl_placements = restack l ?new\<rparr>"
    by (rule mk_viewport_layout_wf [OF mk_viewport_layout_same_slots [OF wf]])
      (use restack_wf [OF wf perm] in simp_all)
  from shape wf wf' show "viewport_layout_wf l'" by blast
  from shape show "layout_slots l' = layout_slots l" by auto
  show "same_rectangle (vp_geometry (vl_placements l' ! i)) (vp_geometry (vl_placements l ! i))"
    if "i < length (vl_placements l)" for i
    using shape that by (auto simp: same_rectangle_def restack_nth)
qed

interpretation stack_op: layout_operation "\<lambda>l edit. apply_viewport_stack (Inst l) (Inst edit)"
  by unfold_locales (rule apply_viewport_stack_Inr; assumption)+

section \<open>Correctness\<close>

lemma find_slot_index:
  assumes "viewport_layout_wf l" and "t < length (vl_placements l)"
  shows "find_index (\<lambda>p. vp_logical_slot p = vp_logical_slot (vl_placements l ! t)) (vl_placements l) = Some t"
proof (cases "find_index (\<lambda>p. vp_logical_slot p = vp_logical_slot (vl_placements l ! t)) (vl_placements l)")
  case None
  with assms(2) show ?thesis by (auto simp: find_index_None)
next
  case (Some i)
  with find_index_Some [OF Some] assms show ?thesis
    by (auto simp: viewport_layout_wf_def distinct_conv_nth)
qed

lemma remove1_distinct: "distinct xs \<Longrightarrow> remove1 x xs = filter (\<lambda>y. y \<noteq> x) xs"
  by (induction xs) (auto intro: filter_True [symmetric])

text \<open>
  An edit of a slot of the layout always succeeds; it moves exactly that slot's placement to
  the end (front) or the start (back) of the paint order, the others keep their relative order,
  and no slot and no rectangle changes.
\<close>

lemma stack_edit_paint_order:
  assumes "viewport_layout_wf l" and "t < length (vl_placements l)"
    and "vse_logical_slot edit = vp_logical_slot (vl_placements l ! t)"
  shows "\<exists>l'. apply_viewport_stack (Inst l) (Inst edit) = Inr l' \<and>
    (let others = filter (\<lambda>i. i \<noteq> t) (stack_order l)
     in stack_order l' = (case vse_action edit of BRING_TO_FRONT \<Rightarrow> others @ [t] | SEND_TO_BACK \<Rightarrow> t # others)) \<and>
    viewport_layout_wf l' \<and> layout_slots l' = layout_slots l \<and>
    list_all2 (\<lambda>p q. same_rectangle (vp_geometry p) (vp_geometry q)) (vl_placements l') (vl_placements l)"
proof -
  have t: "find_index (\<lambda>p. vp_logical_slot p = vse_logical_slot edit) (vl_placements l) = Some t"
    unfolding assms(3) by (rule find_slot_index [OF assms(1,2)])
  obtain l' where l': "apply_viewport_stack (Inst l) (Inst edit) = Inr l'"
    "stack_order l' = moved_order (vse_action edit) t (stack_order l)"
    by (rule apply_viewport_stack_found [OF assms(1) t])
  note facts = apply_viewport_stack_Inr [OF assms(1) l'(1)]
  have "length (vl_placements l') = length (vl_placements l)"
    using arg_cong [OF facts(2), of length] by simp
  with facts(3) have "list_all2 (\<lambda>p q. same_rectangle (vp_geometry p) (vp_geometry q)) (vl_placements l') (vl_placements l)"
    by (simp add: list_all2_conv_all_nth)
  with l' facts(1,2) show ?thesis
    by (intro exI [of _ l'])
      (simp add: moved_order_def remove1_distinct Let_def split: viewport_stack_action.split)
qed

definition two_views :: viewport_layout where
  "two_views = \<lparr>vl_placements =
     [\<lparr>vp_logical_slot = 7, vp_geometry = \<lparr>vg_x = 0, vg_y = 0, vg_width = 640, vg_height = 480, vg_z_index = 5\<rparr>\<rparr>,
      \<lparr>vp_logical_slot = 3, vp_geometry = \<lparr>vg_x = 320, vg_y = 240, vg_width = 640, vg_height = 480, vg_z_index = 5\<rparr>\<rparr>]\<rparr>"

lemma two_views_wf: "viewport_layout_wf two_views"
  by (simp add: two_views_def viewport_layout_wf_def viewport_placement_wf_def viewport_geometry_wf_def slot_ok_def)

lemma stack_edit_paint_order_witness:
  "\<exists>l'. apply_viewport_stack (Inst two_views) (Inst \<lparr>vse_logical_slot = 7, vse_action = BRING_TO_FRONT\<rparr>) = Inr l' \<and>
     stack_order l' = [1, 0]"
proof -
  have "stack_order two_views = [0, 1]" by (simp add: stack_order_def two_views_def upt_rec)
  with stack_edit_paint_order [of two_views 0 "\<lparr>vse_logical_slot = 7, vse_action = BRING_TO_FRONT\<rparr>"] two_views_wf
  show ?thesis by (auto simp: two_views_def)
qed

end
