(* ===== verification/Viewport_Editor.thy ===== *)
theory Viewport_Editor
  imports Viewport_Geometry
begin

text \<open>
  \<open>src/src/k5vision/media/viewport_editor.py\<close>: relative moves and resizes of one logical slot,
  and \<open>BoundedViewportEditor\<close>, which applies at most \<open>max_operations\<close> of them.
\<close>

section \<open>Edits\<close>

abbreviation max_edit_delta :: int where "max_edit_delta \<equiv> 1000000"
abbreviation max_edit_operations :: int where "max_edit_operations \<equiv> 1000000"

datatype viewport_editor_error_code =
    Editor_INVALID_CONFIGURATION
  | Editor_INVALID_EDIT
  | Editor_SLOT_NOT_FOUND
  | Editor_OPERATION_LIMIT

datatype viewport_editor_exn =
    ViewportEditorError viewport_editor_error_code
  | Editor_ValidationError

datatype viewport_edit =
    ViewportMove (edit_slot: int) (edit_dx: int) (edit_dy: int)
  | ViewportResize (edit_slot: int) (edit_dwidth: int) (edit_dheight: int)

fun viewport_edit_wf :: "viewport_edit \<Rightarrow> bool" where
  "viewport_edit_wf (ViewportMove slot dx dy) \<longleftrightarrow>
     slot_ok slot \<and> - max_edit_delta \<le> dx \<and> dx \<le> max_edit_delta \<and>
     - max_edit_delta \<le> dy \<and> dy \<le> max_edit_delta"
| "viewport_edit_wf (ViewportResize slot dw dh) \<longleftrightarrow>
     slot_ok slot \<and> - max_edit_delta \<le> dw \<and> dw \<le> max_edit_delta \<and>
     - max_edit_delta \<le> dh \<and> dh \<le> max_edit_delta"

definition mk_viewport_edit :: "viewport_edit \<Rightarrow> validation_error + viewport_edit" where
  "mk_viewport_edit e = (if viewport_edit_wf e then Inr e else Inl ValidationError)"

section \<open>Applying one edit\<close>

fun edited_geometry :: "viewport_geometry \<Rightarrow> viewport_edit \<Rightarrow> validation_error + viewport_geometry" where
  "edited_geometry g (ViewportMove slot dx dy) =
     mk_viewport_geometry (vg_x g + dx) (vg_y g + dy) (vg_width g) (vg_height g) (vg_z_index g)"
| "edited_geometry g (ViewportResize slot dw dh) =
     mk_viewport_geometry (vg_x g) (vg_y g) (vg_width g + dw) (vg_height g + dh) (vg_z_index g)"

fun apply_viewport_edit ::
  "viewport_layout dyn \<Rightarrow> viewport_edit dyn \<Rightarrow> viewport_editor_exn + viewport_layout" where
  "apply_viewport_edit (Inst l) (Inst edit) =
     (case find (\<lambda>p. vp_logical_slot p = edit_slot edit) (vl_placements l) of
        None \<Rightarrow> Inl (ViewportEditorError Editor_SLOT_NOT_FOUND)
      | Some selected \<Rightarrow>
          (case edited_geometry (vp_geometry selected) edit of
             Inl ValidationError \<Rightarrow> Inl (ViewportEditorError Editor_INVALID_EDIT)
           | Inr geometry \<Rightarrow>
               (case collect (map (\<lambda>item.
                         if vp_logical_slot item = edit_slot edit
                         then mk_viewport_placement (vp_logical_slot item) geometry
                         else Inr item) (vl_placements l)) of
                  Inl ValidationError \<Rightarrow> Inl Editor_ValidationError
                | Inr placements \<Rightarrow>
                    (case mk_viewport_layout placements of
                       Inl ValidationError \<Rightarrow> Inl Editor_ValidationError
                     | Inr l' \<Rightarrow> Inr l'))))"
| "apply_viewport_edit _ _ = Inl (ViewportEditorError Editor_INVALID_CONFIGURATION)"

section \<open>The bounded editor\<close>

record viewport_editor =
  ve_layout :: viewport_layout
  ve_operations :: int
  ve_max_operations :: int

record viewport_editor_snapshot =
  ves_layout :: viewport_layout
  ves_operations :: int

fun editor_init :: "viewport_layout dyn \<Rightarrow> int \<Rightarrow> viewport_editor_exn + viewport_editor" where
  "editor_init (Inst l) max_operations =
     (if 1 \<le> max_operations \<and> max_operations \<le> max_edit_operations
      then Inr \<lparr>ve_layout = l, ve_operations = 0, ve_max_operations = max_operations\<rparr>
      else Inl (ViewportEditorError Editor_INVALID_CONFIGURATION))"
| "editor_init NotInst _ = Inl (ViewportEditorError Editor_INVALID_CONFIGURATION)"

definition editor_snapshot :: "viewport_editor \<Rightarrow> viewport_editor_exn + viewport_editor_snapshot" where
  "editor_snapshot ed =
     (if 0 \<le> ve_operations ed \<and> ve_operations ed \<le> max_edit_operations
      then Inr \<lparr>ves_layout = ve_layout ed, ves_operations = ve_operations ed\<rparr>
      else Inl Editor_ValidationError)"

definition editor_apply ::
  "viewport_editor \<Rightarrow> viewport_edit dyn \<Rightarrow>
   (viewport_editor_exn + viewport_editor_snapshot) \<times> viewport_editor" where
  "editor_apply ed edit =
     (if ve_max_operations ed \<le> ve_operations ed
      then (Inl (ViewportEditorError Editor_OPERATION_LIMIT), ed)
      else case apply_viewport_edit (Inst (ve_layout ed)) edit of
             Inl e \<Rightarrow> (Inl e, ed)
           | Inr candidate \<Rightarrow>
               (let ed' = ed\<lparr>ve_layout := candidate, ve_operations := ve_operations ed + 1\<rparr>
                in (editor_snapshot ed', ed')))"

fun editor_run :: "viewport_editor \<Rightarrow> viewport_edit dyn list \<Rightarrow> viewport_editor" where
  "editor_run ed [] = ed"
| "editor_run ed (x # xs) = editor_run (snd (editor_apply ed x)) xs"

section \<open>Facts on one edit\<close>

definition set_slot_geometry :: "int \<Rightarrow> viewport_geometry \<Rightarrow> viewport_layout \<Rightarrow> viewport_layout" where
  "set_slot_geometry slot g l =
     \<lparr>vl_placements = map (\<lambda>p. if vp_logical_slot p = slot then p\<lparr>vp_geometry := g\<rparr> else p) (vl_placements l)\<rparr>"

lemma set_slot_geometry_slots [simp]: "layout_slots (set_slot_geometry slot g l) = layout_slots l"
  by (simp add: set_slot_geometry_def)

lemma set_slot_geometry_wf:
  "viewport_layout_wf l \<Longrightarrow> viewport_geometry_wf g \<Longrightarrow> viewport_layout_wf (set_slot_geometry slot g l)"
  unfolding viewport_layout_wf_def set_slot_geometry_slots
  by (auto simp: set_slot_geometry_def list_all_iff viewport_placement_wf_def)

lemma set_slot_geometry_twice:
  "set_slot_geometry slot g (set_slot_geometry slot h l) = set_slot_geometry slot g l"
  by (simp add: set_slot_geometry_def)

lemma set_slot_geometry_same:
  assumes "viewport_layout_wf l" and "by_slot l slot = Some g"
  shows "set_slot_geometry slot g l = l"
proof -
  have "(if vp_logical_slot p = slot then p\<lparr>vp_geometry := g\<rparr> else p) = p"
    if "p \<in> set (vl_placements l)" for p
    using by_slot_placement [OF assms(1) that] assms(2) by auto
  then have "map (\<lambda>p. if vp_logical_slot p = slot then p\<lparr>vp_geometry := g\<rparr> else p) (vl_placements l)
      = vl_placements l"
    by (simp add: map_idI)
  then show ?thesis by (simp add: set_slot_geometry_def)
qed

lemma by_slot_set_slot_geometry:
  assumes "viewport_layout_wf l" and "viewport_geometry_wf g" and "slot \<in> set (layout_slots l)"
  shows "by_slot (set_slot_geometry slot g l) = (by_slot l)(slot \<mapsto> g)"
proof (rule ext)
  fix s
  note wf' = set_slot_geometry_wf [OF assms(1,2), of slot]
  show "by_slot (set_slot_geometry slot g l) s = ((by_slot l)(slot \<mapsto> g)) s"
  proof (cases "s \<in> set (layout_slots l)")
    case True
    then obtain p where p: "p \<in> set (vl_placements l)" "vp_logical_slot p = s" by auto
    let ?q = "if s = slot then p\<lparr>vp_geometry := g\<rparr> else p"
    have "?q \<in> set (vl_placements (set_slot_geometry slot g l))" "vp_logical_slot ?q = s"
      using p by (auto simp: set_slot_geometry_def)
    with by_slot_placement [OF wf'] have "by_slot (set_slot_geometry slot g l) s = Some (vp_geometry ?q)"
      by metis
    then show ?thesis using by_slot_placement [OF assms(1) p(1)] p(2) by auto
  next
    case False
    with assms(3) have "s \<noteq> slot" by auto
    moreover from False have "by_slot (set_slot_geometry slot g l) s = None"
      by (intro by_slot_None) (simp add: set_slot_geometry_slots del: set_map)
    ultimately show ?thesis using by_slot_None [OF False] by simp
  qed
qed

lemma find_slot:
  assumes "viewport_layout_wf l"
  shows "find (\<lambda>p. vp_logical_slot p = slot) (vl_placements l) =
     map_option (\<lambda>g. \<lparr>vp_logical_slot = slot, vp_geometry = g\<rparr>) (by_slot l slot)"
proof (cases "find (\<lambda>p. vp_logical_slot p = slot) (vl_placements l)")
  case None
  then have "slot \<notin> set (layout_slots l)" by (auto simp: find_None_iff)
  with None show ?thesis by (simp add: by_slot_None del: set_map)
next
  case (Some p)
  then have p: "p \<in> set (vl_placements l)" "vp_logical_slot p = slot"
    by (auto simp: find_Some_iff)
  with Some by_slot_placement [OF assms p(1)] show ?thesis by (auto simp: viewport_placement.equality)
qed

text \<open>One equation for the operation on a well-formed layout.\<close>

lemma apply_viewport_edit_eq:
  assumes wf: "viewport_layout_wf l"
  shows "apply_viewport_edit (Inst l) (Inst edit) =
     (case by_slot l (edit_slot edit) of
        None \<Rightarrow> Inl (ViewportEditorError Editor_SLOT_NOT_FOUND)
      | Some g \<Rightarrow> (case edited_geometry g edit of
                    Inl _ \<Rightarrow> Inl (ViewportEditorError Editor_INVALID_EDIT)
                  | Inr g' \<Rightarrow> Inr (set_slot_geometry (edit_slot edit) g' l)))"
proof -
  have slots: "slot_ok (vp_logical_slot p)" if "p \<in> set (vl_placements l)" for p
    using wf that by (auto simp: viewport_layout_wf_def list_all_iff viewport_placement_wf_def)
  have coll: "collect (map (\<lambda>item. if vp_logical_slot item = edit_slot edit
        then mk_viewport_placement (vp_logical_slot item) g else Inr item) (vl_placements l))
      = Inr (vl_placements (set_slot_geometry (edit_slot edit) g l))" for g
    unfolding set_slot_geometry_def viewport_layout.simps
    by (rule collect_map_cong) (auto simp: mk_viewport_placement_def dest: slots)
  have mk: "mk_viewport_layout (vl_placements (set_slot_geometry (edit_slot edit) g l))
      = Inr (set_slot_geometry (edit_slot edit) g l)" for g
    using mk_viewport_layout_same_slots [OF wf set_slot_geometry_slots] by simp
  show ?thesis
    by (auto simp: find_slot [OF wf] coll mk split: option.split sum.split validation_error.split)
qed

lemma edited_geometry_wf: "edited_geometry g e = Inr g' \<Longrightarrow> viewport_geometry_wf g'"
  by (cases e) (auto simp: k5_inv)

lemma apply_viewport_edit_Inr:
  assumes "viewport_layout_wf l" and "apply_viewport_edit (Inst l) (Inst e) = Inr l'"
  obtains g g' where "by_slot l (edit_slot e) = Some g" "edited_geometry g e = Inr g'"
    "viewport_geometry_wf g'" "l' = set_slot_geometry (edit_slot e) g' l"
  using assms(2) edited_geometry_wf
  by (auto simp: apply_viewport_edit_eq [OF assms(1)] simp del: apply_viewport_edit.simps
      split: option.splits sum.splits)

lemma apply_viewport_edit_wf [k5_wf]:
  assumes "viewport_layout_wf l" and "apply_viewport_edit (Inst l) (Inst e) = Inr l'"
  shows "viewport_layout_wf l'"
  by (rule apply_viewport_edit_Inr [OF assms]) (simp add: set_slot_geometry_wf assms(1))

lemma apply_viewport_edit_slots:
  assumes "viewport_layout_wf l" and "apply_viewport_edit (Inst l) (Inst e) = Inr l'"
  shows "layout_slots l' = layout_slots l"
  by (rule apply_viewport_edit_Inr [OF assms]) simp

interpretation edit_op: layout_operation "\<lambda>l e. apply_viewport_edit (Inst l) (Inst e)"
  by unfold_locales (rule apply_viewport_edit_wf apply_viewport_edit_slots; assumption)+

text \<open>The edit that takes another one back.\<close>

fun inverse_edit :: "viewport_edit \<Rightarrow> viewport_edit" where
  "inverse_edit (ViewportMove slot dx dy) = ViewportMove slot (- dx) (- dy)"
| "inverse_edit (ViewportResize slot dw dh) = ViewportResize slot (- dw) (- dh)"

lemma edit_slot_inverse [simp]: "edit_slot (inverse_edit e) = edit_slot e"
  by (cases e) simp_all

lemma edited_geometry_inverse:
  "viewport_geometry_wf g \<Longrightarrow> edited_geometry g e = Inr g' \<Longrightarrow> edited_geometry g' (inverse_edit e) = Inr g"
  by (cases e) (auto simp: k5_inv)

section \<open>The editor's invariant\<close>

definition editor_inv :: "viewport_editor \<Rightarrow> bool" where
  "editor_inv ed \<longleftrightarrow>
     viewport_layout_wf (ve_layout ed) \<and> 0 \<le> ve_operations ed \<and>
     ve_operations ed \<le> ve_max_operations ed \<and> ve_max_operations ed \<le> max_edit_operations"

lemma editor_init_inv:
  "editor_init (Inst l) n = Inr ed \<Longrightarrow> viewport_layout_wf l \<Longrightarrow> editor_inv ed"
  by (auto simp: editor_inv_def split: if_splits)

lemma editor_apply_inv [k5_wf]:
  assumes "editor_inv ed"
  shows "editor_inv (snd (editor_apply ed x))"
proof (cases x)
  case (Inst e)
  show ?thesis
  proof (cases "apply_viewport_edit (Inst (ve_layout ed)) x")
    case (Inr l')
    with Inst apply_viewport_edit_wf [of "ve_layout ed" e l'] assms show ?thesis
      by (auto simp: editor_apply_def editor_inv_def Let_def)
  qed (use assms in \<open>auto simp: editor_apply_def\<close>)
next
  case NotInst
  with assms show ?thesis by (simp add: editor_apply_def)
qed

lemma editor_run_inv: "editor_inv ed \<Longrightarrow> editor_inv (editor_run ed xs)"
  by (induction xs arbitrary: ed) (auto intro: editor_apply_inv)

section \<open>Correctness\<close>

text \<open>
  A successful edit of a well-formed layout changes the geometry of its slot and of no other,
  keeps the order of the slots, and gives a well-formed layout; the opposite edit then succeeds
  and gives the first layout back.
\<close>

lemma edit_changes_one_slot:
  assumes "viewport_layout_wf l" and "apply_viewport_edit (Inst l) (Inst e) = Inr l'"
  shows "viewport_layout_wf l' \<and> layout_slots l' = layout_slots l \<and>
    (\<exists>g. by_slot l' = (by_slot l)(edit_slot e \<mapsto> g)) \<and>
    apply_viewport_edit (Inst l') (Inst (inverse_edit e)) = Inr l"
proof (rule apply_viewport_edit_Inr [OF assms])
  fix g g'
  assume g: "by_slot l (edit_slot e) = Some g" and g': "edited_geometry g e = Inr g'"
    and wf': "viewport_geometry_wf g'" and l': "l' = set_slot_geometry (edit_slot e) g' l"
  obtain p where p: "p \<in> set (vl_placements l)" "vp_logical_slot p = edit_slot e" "vp_geometry p = g"
    using g by_slot_Some [OF assms(1)] by auto
  then have slot: "edit_slot e \<in> set (layout_slots l)" by (metis image_eqI list.set_map)
  have gwf: "viewport_geometry_wf g"
    using assms(1) p by (auto simp: viewport_layout_wf_def list_all_iff viewport_placement_wf_def)
  note upd = by_slot_set_slot_geometry [OF assms(1) wf' slot]
  have wfl': "viewport_layout_wf l'" unfolding l' by (rule set_slot_geometry_wf [OF assms(1) wf'])
  have "apply_viewport_edit (Inst l') (Inst (inverse_edit e)) = Inr (set_slot_geometry (edit_slot e) g l')"
    unfolding apply_viewport_edit_eq [OF wfl'] using upd edited_geometry_inverse [OF gwf g'] by (simp add: l')
  also have "set_slot_geometry (edit_slot e) g l' = l"
    unfolding l' set_slot_geometry_twice by (rule set_slot_geometry_same [OF assms(1) g])
  finally show ?thesis using wfl' upd l' by auto
qed

definition one_view :: viewport_layout where
  "one_view = \<lparr>vl_placements =
     [\<lparr>vp_logical_slot = 7, vp_geometry = \<lparr>vg_x = 10, vg_y = 0, vg_width = 640, vg_height = 480, vg_z_index = 0\<rparr>\<rparr>]\<rparr>"

lemma one_view_wf: "viewport_layout_wf one_view"
  by (simp add: one_view_def viewport_layout_wf_def viewport_placement_wf_def viewport_geometry_wf_def slot_ok_def)

definition one_view_moved :: viewport_layout where
  "one_view_moved = \<lparr>vl_placements =
     [\<lparr>vp_logical_slot = 7, vp_geometry = \<lparr>vg_x = 5, vg_y = 3, vg_width = 640, vg_height = 480, vg_z_index = 0\<rparr>\<rparr>]\<rparr>"

lemma one_view_move: "apply_viewport_edit (Inst one_view) (Inst (ViewportMove 7 (- 5) 3)) = Inr one_view_moved"
  by (simp add: one_view_def one_view_moved_def mk_viewport_geometry_def viewport_geometry_wf_def
      mk_viewport_placement_def slot_ok_def mk_viewport_layout_def)

lemma edit_changes_one_slot_witness:
  "apply_viewport_edit (Inst one_view_moved) (Inst (ViewportMove 7 5 (- 3))) = Inr one_view"
  using edit_changes_one_slot [OF one_view_wf one_view_move] by simp

text \<open>
  Whatever edits are thrown at an editor, valid or not, it never applies more than its
  budget, its layout stays well-formed, and its snapshot never raises.
\<close>

lemma editor_run_bounded:
  assumes "viewport_layout_wf l" and "editor_init (Inst l) limit = Inr ed"
  shows "let ed' = editor_run ed edits in
    viewport_layout_wf (ve_layout ed') \<and> 0 \<le> ve_operations ed' \<and> ve_operations ed' \<le> limit \<and>
    editor_snapshot ed' = Inr \<lparr>ves_layout = ve_layout ed', ves_operations = ve_operations ed'\<rparr>"
proof -
  have inv: "editor_inv (editor_run ed edits)"
    by (rule editor_run_inv [OF editor_init_inv [OF assms(2,1)]])
  have "ve_max_operations (editor_run ed' edits) = ve_max_operations ed'" for ed'
    by (induction edits arbitrary: ed') (auto simp: editor_apply_def Let_def split: sum.split)
  moreover from assms(2) have "ve_max_operations ed = limit" by (auto split: if_splits)
  ultimately show ?thesis using inv by (simp add: editor_inv_def editor_snapshot_def Let_def)
qed

lemma editor_run_bounded_witness:
  "\<exists>ed. editor_init (Inst one_view) 1 = Inr ed \<and>
     ve_operations (editor_run ed [Inst (ViewportMove 7 1 1), NotInst, Inst (ViewportMove 7 1 1)]) \<le> 1"
  using editor_run_bounded [OF one_view_wf, of 1 _ "[Inst (ViewportMove 7 1 1), NotInst, Inst (ViewportMove 7 1 1)]"]
  by (simp add: Let_def)

end
