(* ===== verification/Viewport_History.thy ===== *)
theory Viewport_History
  imports Viewport_Editor
begin

text \<open>
  \<open>src/src/k5vision/media/viewport_editor_history.py\<close>: bounded undo/redo over layouts. The two
  Python lists keep their order here: \<open>append\<close> adds at the end, \<open>pop\<close> takes the last element.
  The abstract view is a tape of layouts with a cursor: \<open>history_tape\<close> lists the undoable
  layouts, the current one and the redoable ones.
\<close>

abbreviation max_history_depth :: int where "max_history_depth \<equiv> 1024"

datatype viewport_history_error_code =
    History_INVALID_CONFIGURATION
  | History_NOTHING_TO_UNDO
  | History_NOTHING_TO_REDO
  | History_OPERATION_LIMIT

datatype viewport_history_exn =
    ViewportEditorHistoryError viewport_history_error_code
  | History_EditorExn viewport_editor_exn
  | History_ValidationError

record viewport_history =
  vh_layout :: viewport_layout
  vh_max_history :: int
  vh_max_operations :: int
  vh_operations :: int
  vh_undo :: "viewport_layout list"
  vh_redo :: "viewport_layout list"

record viewport_history_snapshot =
  vhs_layout :: viewport_layout
  vhs_undo_depth :: int
  vhs_redo_depth :: int
  vhs_operations :: int

section \<open>Operations\<close>

fun history_init :: "viewport_layout dyn \<Rightarrow> int \<Rightarrow> int \<Rightarrow> viewport_history_exn + viewport_history" where
  "history_init (Inst l) max_history max_operations =
     (if \<not> (1 \<le> max_history \<and> max_history \<le> max_history_depth) \<or>
         \<not> (1 \<le> max_operations \<and> max_operations \<le> max_edit_operations)
      then Inl (ViewportEditorHistoryError History_INVALID_CONFIGURATION)
      else Inr \<lparr>vh_layout = l, vh_max_history = max_history, vh_max_operations = max_operations,
                vh_operations = 0, vh_undo = [], vh_redo = []\<rparr>)"
| "history_init NotInst _ _ = Inl (ViewportEditorHistoryError History_INVALID_CONFIGURATION)"

definition history_snapshot :: "viewport_history \<Rightarrow> viewport_history_exn + viewport_history_snapshot" where
  "history_snapshot h =
     (if len (vh_undo h) \<le> max_history_depth \<and> len (vh_redo h) \<le> max_history_depth \<and>
         0 \<le> vh_operations h \<and> vh_operations h \<le> max_edit_operations
      then Inr \<lparr>vhs_layout = vh_layout h, vhs_undo_depth = len (vh_undo h),
                vhs_redo_depth = len (vh_redo h), vhs_operations = vh_operations h\<rparr>
      else Inl History_ValidationError)"

definition undo_candidate :: "viewport_history \<Rightarrow> viewport_history_exn + viewport_layout" where
  "undo_candidate h =
     (if vh_undo h = [] then Inl (ViewportEditorHistoryError History_NOTHING_TO_UNDO)
      else Inr (last (vh_undo h)))"

definition redo_candidate :: "viewport_history \<Rightarrow> viewport_history_exn + viewport_layout" where
  "redo_candidate h =
     (if vh_redo h = [] then Inl (ViewportEditorHistoryError History_NOTHING_TO_REDO)
      else Inr (last (vh_redo h)))"

definition ensure_operation_available :: "viewport_history \<Rightarrow> viewport_history_exn + unit" where
  "ensure_operation_available h =
     (if vh_max_operations h \<le> vh_operations h
      then Inl (ViewportEditorHistoryError History_OPERATION_LIMIT) else Inr ())"

definition history_consume :: "viewport_history \<Rightarrow> viewport_history_exn + viewport_history" where
  "history_consume h =
     (case ensure_operation_available h of
        Inl e \<Rightarrow> Inl e
      | Inr _ \<Rightarrow> Inr (h\<lparr>vh_operations := vh_operations h + 1\<rparr>))"

type_synonym history_result = "(viewport_history_exn + viewport_history_snapshot) \<times> viewport_history"

fun history_rebase :: "viewport_history \<Rightarrow> viewport_layout dyn \<Rightarrow> history_result" where
  "history_rebase h NotInst = (Inl (ViewportEditorHistoryError History_INVALID_CONFIGURATION), h)"
| "history_rebase h (Inst l) =
     (let h' = h\<lparr>vh_layout := l, vh_undo := [], vh_redo := []\<rparr> in (history_snapshot h', h'))"

definition history_apply :: "viewport_history \<Rightarrow> viewport_edit dyn \<Rightarrow> history_result" where
  "history_apply h edit =
     (case apply_viewport_edit (Inst (vh_layout h)) edit of
        Inl e \<Rightarrow> (Inl (History_EditorExn e), h)
      | Inr candidate \<Rightarrow>
          (case history_consume h of
             Inl e \<Rightarrow> (Inl e, h)
           | Inr h1 \<Rightarrow>
               (let pushed = vh_undo h1 @ [vh_layout h1];
                    undo' = (if vh_max_history h1 < len pushed then tl pushed else pushed);
                    h2 = h1\<lparr>vh_undo := undo', vh_layout := candidate, vh_redo := []\<rparr>
                in (history_snapshot h2, h2))))"

definition history_undo :: "viewport_history \<Rightarrow> history_result" where
  "history_undo h =
     (case undo_candidate h of
        Inl e \<Rightarrow> (Inl e, h)
      | Inr previous \<Rightarrow>
          (case history_consume h of
             Inl e \<Rightarrow> (Inl e, h)
           | Inr h1 \<Rightarrow>
               (let h2 = h1\<lparr>vh_undo := butlast (vh_undo h1), vh_redo := vh_redo h1 @ [vh_layout h1],
                            vh_layout := previous\<rparr>
                in (history_snapshot h2, h2))))"

definition history_redo :: "viewport_history \<Rightarrow> history_result" where
  "history_redo h =
     (case redo_candidate h of
        Inl e \<Rightarrow> (Inl e, h)
      | Inr following \<Rightarrow>
          (case history_consume h of
             Inl e \<Rightarrow> (Inl e, h)
           | Inr h1 \<Rightarrow>
               (let h2 = h1\<lparr>vh_redo := butlast (vh_redo h1), vh_undo := vh_undo h1 @ [vh_layout h1],
                            vh_layout := following\<rparr>
                in (history_snapshot h2, h2))))"

text \<open>Every public operation as one event, and a run of them; errors leave the run going.\<close>

datatype history_event = HApply "viewport_edit dyn" | HUndo | HRedo | HRebase "viewport_layout dyn"

fun history_step :: "viewport_history \<Rightarrow> history_event \<Rightarrow> history_result" where
  "history_step h (HApply e) = history_apply h e"
| "history_step h HUndo = history_undo h"
| "history_step h HRedo = history_redo h"
| "history_step h (HRebase l) = history_rebase h l"

fun history_run :: "viewport_history \<Rightarrow> history_event list \<Rightarrow> viewport_history" where
  "history_run h [] = h"
| "history_run h (x # xs) = history_run (snd (history_step h x)) xs"

section \<open>Invariant\<close>

definition history_inv :: "viewport_history \<Rightarrow> bool" where
  "history_inv h \<longleftrightarrow>
     1 \<le> vh_max_history h \<and> vh_max_history h \<le> max_history_depth \<and>
     len (vh_undo h) + len (vh_redo h) \<le> vh_max_history h \<and>
     0 \<le> vh_operations h \<and> vh_operations h \<le> vh_max_operations h \<and>
     vh_max_operations h \<le> max_edit_operations \<and>
     viewport_layout_wf (vh_layout h) \<and>
     list_all viewport_layout_wf (vh_undo h) \<and> list_all viewport_layout_wf (vh_redo h)"

lemma history_inv_depths:
  "history_inv h \<Longrightarrow> len (vh_undo h) \<le> max_history_depth \<and> len (vh_redo h) \<le> max_history_depth"
  by (simp add: history_inv_def)

lemma history_snapshot_total:
  assumes "history_inv h"
  shows "history_snapshot h = Inr \<lparr>vhs_layout = vh_layout h, vhs_undo_depth = len (vh_undo h),
     vhs_redo_depth = len (vh_redo h), vhs_operations = vh_operations h\<rparr>"
  using assms by (simp add: history_inv_def history_snapshot_def)

lemma history_init_inv:
  "history_init (Inst l) mh mo = Inr h \<Longrightarrow> viewport_layout_wf l \<Longrightarrow> history_inv h"
  by (auto simp: history_inv_def split: if_splits)

lemma history_consume_Inr [k5_inv]:
  "history_consume h = Inr h' \<longleftrightarrow>
     vh_operations h < vh_max_operations h \<and> h' = h\<lparr>vh_operations := vh_operations h + 1\<rparr>"
  by (auto simp: history_consume_def ensure_operation_available_def)

text \<open>The move each operation makes once its checks passed, and its checks in the code's order.\<close>

definition undone :: "viewport_history \<Rightarrow> viewport_history" where
  "undone h = h\<lparr>vh_operations := vh_operations h + 1, vh_undo := butlast (vh_undo h),
               vh_redo := vh_redo h @ [vh_layout h], vh_layout := last (vh_undo h)\<rparr>"

definition redone :: "viewport_history \<Rightarrow> viewport_history" where
  "redone h = h\<lparr>vh_operations := vh_operations h + 1, vh_redo := butlast (vh_redo h),
               vh_undo := vh_undo h @ [vh_layout h], vh_layout := last (vh_redo h)\<rparr>"

definition pushed :: "viewport_history \<Rightarrow> viewport_layout \<Rightarrow> viewport_history" where
  "pushed h l = h\<lparr>vh_operations := vh_operations h + 1,
     vh_undo := (if vh_max_history h < len (vh_undo h) + 1
                 then tl (vh_undo h @ [vh_layout h]) else vh_undo h @ [vh_layout h]),
     vh_layout := l, vh_redo := []\<rparr>"

lemma history_undo_eq:
  "history_undo h =
     (if vh_undo h = [] then (Inl (ViewportEditorHistoryError History_NOTHING_TO_UNDO), h)
      else if vh_max_operations h \<le> vh_operations h
      then (Inl (ViewportEditorHistoryError History_OPERATION_LIMIT), h)
      else (history_snapshot (undone h), undone h))"
  by (simp add: history_undo_def undo_candidate_def history_consume_def
      ensure_operation_available_def undone_def Let_def)

lemma history_redo_eq:
  "history_redo h =
     (if vh_redo h = [] then (Inl (ViewportEditorHistoryError History_NOTHING_TO_REDO), h)
      else if vh_max_operations h \<le> vh_operations h
      then (Inl (ViewportEditorHistoryError History_OPERATION_LIMIT), h)
      else (history_snapshot (redone h), redone h))"
  by (simp add: history_redo_def redo_candidate_def history_consume_def
      ensure_operation_available_def redone_def Let_def)

lemma history_apply_eq:
  "history_apply h x =
     (case apply_viewport_edit (Inst (vh_layout h)) x of
        Inl e \<Rightarrow> (Inl (History_EditorExn e), h)
      | Inr l \<Rightarrow>
          if vh_max_operations h \<le> vh_operations h
          then (Inl (ViewportEditorHistoryError History_OPERATION_LIMIT), h)
          else (history_snapshot (pushed h l), pushed h l))"
  by (simp add: history_apply_def history_consume_def ensure_operation_available_def
      pushed_def Let_def split: sum.split)

lemma history_rebase_eq:
  "history_rebase h x =
     (case x of
        NotInst \<Rightarrow> (Inl (ViewportEditorHistoryError History_INVALID_CONFIGURATION), h)
      | Inst l \<Rightarrow> (history_snapshot (h\<lparr>vh_layout := l, vh_undo := [], vh_redo := []\<rparr>),
                   h\<lparr>vh_layout := l, vh_undo := [], vh_redo := []\<rparr>))"
  by (cases x) (simp_all add: Let_def)

lemma list_all_butlast_last:
  "list_all P xs \<Longrightarrow> xs \<noteq> [] \<Longrightarrow> list_all P (butlast xs) \<and> P (last xs)"
  by (auto simp: list_all_iff dest: in_set_butlastD)

lemma list_all_tl: "list_all P xs \<Longrightarrow> list_all P (tl xs)"
  by (cases xs) auto

lemma undone_inv:
  "history_inv h \<Longrightarrow> vh_undo h \<noteq> [] \<Longrightarrow> vh_operations h < vh_max_operations h \<Longrightarrow> history_inv (undone h)"
  by (auto simp: history_inv_def undone_def list_all_butlast_last Suc_le_eq of_nat_diff)

lemma redone_inv:
  "history_inv h \<Longrightarrow> vh_redo h \<noteq> [] \<Longrightarrow> vh_operations h < vh_max_operations h \<Longrightarrow> history_inv (redone h)"
  by (auto simp: history_inv_def redone_def list_all_butlast_last Suc_le_eq of_nat_diff)

lemma pushed_inv:
  assumes inv: "history_inv h" and wf: "viewport_layout_wf l"
    and ops: "vh_operations h < vh_max_operations h"
  shows "history_inv (pushed h l)"
proof -
  have "list_all viewport_layout_wf (tl (vh_undo h @ [vh_layout h]))"
    by (rule list_all_tl) (use inv in \<open>simp add: history_inv_def\<close>)
  with assms show ?thesis by (auto simp: pushed_def history_inv_def)
qed

lemma history_undo_inv [k5_wf]: "history_inv h \<Longrightarrow> history_inv (snd (history_undo h))"
  by (simp add: history_undo_eq undone_inv)

lemma history_redo_inv [k5_wf]: "history_inv h \<Longrightarrow> history_inv (snd (history_redo h))"
  by (simp add: history_redo_eq redone_inv)

lemma history_apply_inv [k5_wf]:
  assumes inv: "history_inv h"
  shows "history_inv (snd (history_apply h x))"
proof (cases x)
  case (Inst e)
  have "viewport_layout_wf l" if "apply_viewport_edit (Inst (vh_layout h)) (Inst e) = Inr l" for l
    using apply_viewport_edit_wf [OF _ that] inv by (simp add: history_inv_def)
  with inv Inst show ?thesis
    by (simp add: history_apply_eq pushed_inv del: apply_viewport_edit.simps split: sum.split)
qed (simp add: history_apply_eq inv)

lemma history_rebase_inv [k5_wf]:
  "history_inv h \<Longrightarrow> (\<And>m. l = Inst m \<Longrightarrow> viewport_layout_wf m) \<Longrightarrow> history_inv (snd (history_rebase h l))"
  by (cases l) (auto simp: history_inv_def Let_def)

text \<open>A rebase takes any layout object; the runs below rebase to well-formed ones.\<close>

fun event_ok :: "history_event \<Rightarrow> bool" where
  "event_ok (HRebase (Inst l)) = viewport_layout_wf l"
| "event_ok _ = True"

lemma history_step_inv:
  assumes "history_inv h" and "event_ok x"
  shows "history_inv (snd (history_step h x))"
proof (cases x)
  case (HRebase l)
  show ?thesis unfolding HRebase history_step.simps
    by (rule history_rebase_inv [OF assms(1)]) (use assms(2) HRebase in simp)
qed (simp_all only: history_step.simps history_apply_inv history_undo_inv history_redo_inv assms(1))

lemma history_run_inv: "history_inv h \<Longrightarrow> list_all event_ok xs \<Longrightarrow> history_inv (history_run h xs)"
  by (induction xs arbitrary: h) (auto intro: history_step_inv)

section \<open>The tape\<close>

definition history_tape :: "viewport_history \<Rightarrow> viewport_layout list" where
  "history_tape h = vh_undo h @ [vh_layout h] @ rev (vh_redo h)"

definition history_cursor :: "viewport_history \<Rightarrow> nat" where
  "history_cursor h = length (vh_undo h)"

lemma history_cursor_layout: "history_tape h ! history_cursor h = vh_layout h"
  by (simp add: history_tape_def history_cursor_def)

lemma rev_butlast_last: "xs \<noteq> [] \<Longrightarrow> rev xs = last xs # rev (butlast xs)"
  by (induction xs rule: rev_induct) auto

lemma butlast_last_Cons: "xs \<noteq> [] \<Longrightarrow> butlast xs @ last xs # ys = xs @ ys"
  by (induction xs rule: rev_induct) auto

lemma undone_tape:
  assumes "vh_undo h \<noteq> []"
  shows "history_tape (undone h) = history_tape h" and "Suc (history_cursor (undone h)) = history_cursor h"
  using assms by (simp_all add: undone_def history_tape_def history_cursor_def butlast_last_Cons)

lemma redone_tape:
  assumes "vh_redo h \<noteq> []"
  shows "history_tape (redone h) = history_tape h" and "history_cursor (redone h) = Suc (history_cursor h)"
  using assms by (simp_all add: redone_def history_tape_def history_cursor_def rev_butlast_last)

lemma pushed_tape:
  "history_tape (pushed h l) =
     (if vh_max_history h < len (vh_undo h) + 1 then tl (vh_undo h @ [vh_layout h]) else vh_undo h @ [vh_layout h]) @ [l]"
  by (simp add: pushed_def history_tape_def)

lemma redone_undone:
  "vh_undo h \<noteq> [] \<Longrightarrow> redone (undone h) = h\<lparr>vh_operations := vh_operations h + 2\<rparr>"
  by (simp add: redone_def undone_def)

lemma undone_pushed:
  assumes "0 \<le> vh_max_history h - 1"
  shows "vh_layout (undone (pushed h l)) = vh_layout h"
  using assms by (cases "vh_undo h") (auto simp: undone_def pushed_def)

section \<open>Correctness\<close>

text \<open>
  The abstract machine: a tape of layouts and a cursor. An edit cuts the tape after the cursor
  and appends the new layout, dropping the oldest one when the undo part is full.
\<close>

datatype tape_move = TapePush viewport_layout | TapeBack | TapeForward | TapeReset viewport_layout

fun tape_step :: "int \<Rightarrow> tape_move \<Rightarrow> viewport_layout list \<times> nat \<Rightarrow> viewport_layout list \<times> nat" where
  "tape_step limit TapeBack (ts, c) = (ts, c - 1)"
| "tape_step limit TapeForward (ts, c) = (ts, c + 1)"
| "tape_step limit (TapeReset l) (ts, c) = ([l], 0)"
| "tape_step limit (TapePush l) (ts, c) =
     (let kept = take (c + 1) ts
      in if limit < int (c + 1) then (tl kept @ [l], c) else (kept @ [l], c + 1))"

fun tape_move_of :: "viewport_history \<Rightarrow> history_event \<Rightarrow> tape_move" where
  "tape_move_of h HUndo = TapeBack"
| "tape_move_of h HRedo = TapeForward"
| "tape_move_of h (HRebase (Inst l)) = TapeReset l"
| "tape_move_of h (HApply e) =
     (case apply_viewport_edit (Inst (vh_layout h)) e of Inr l \<Rightarrow> TapePush l | Inl _ \<Rightarrow> TapeBack)"
| "tape_move_of h (HRebase NotInst) = TapeBack"

definition tape_of :: "viewport_history \<Rightarrow> viewport_layout list \<times> nat" where
  "tape_of h = (history_tape h, history_cursor h)"

lemma tape_of_undone: "vh_undo h \<noteq> [] \<Longrightarrow> tape_of (undone h) = tape_step n TapeBack (tape_of h)"
  using undone_tape [of h] by (simp add: tape_of_def)

lemma tape_of_redone: "vh_redo h \<noteq> [] \<Longrightarrow> tape_of (redone h) = tape_step n TapeForward (tape_of h)"
  using redone_tape [of h] by (simp add: tape_of_def)

lemma tape_of_pushed:
  assumes "history_inv h"
  shows "tape_of (pushed h l) = tape_step (vh_max_history h) (TapePush l) (tape_of h)"
proof -
  have "take (Suc (length (vh_undo h))) (history_tape h) = vh_undo h @ [vh_layout h]"
    by (simp add: history_tape_def)
  then show ?thesis
    by (auto simp: tape_of_def history_cursor_def history_tape_def pushed_def Let_def)
qed

lemma history_step_tape:
  assumes "history_inv h" and "history_step h ev = (Inr s, h')"
  shows "tape_of h' = tape_step (vh_max_history h) (tape_move_of h ev) (tape_of h)"
proof (cases ev)
  case (HApply e)
  with assms(2) obtain l where "apply_viewport_edit (Inst (vh_layout h)) e = Inr l" "h' = pushed h l"
    by (auto simp: history_apply_eq simp del: apply_viewport_edit.simps split: sum.splits if_splits)
  with HApply tape_of_pushed [OF assms(1)] show ?thesis by (simp del: apply_viewport_edit.simps)
next
  case HUndo
  with assms(2) have "vh_undo h \<noteq> []" "h' = undone h" by (auto simp: history_undo_eq split: if_splits)
  with HUndo tape_of_undone show ?thesis by simp
next
  case HRedo
  with assms(2) have "vh_redo h \<noteq> []" "h' = redone h" by (auto simp: history_redo_eq split: if_splits)
  with HRedo tape_of_redone show ?thesis by simp
next
  case (HRebase l)
  with assms(2) show ?thesis
    by (cases l) (auto simp: Let_def tape_of_def history_tape_def history_cursor_def)
qed

lemma history_step_error:
  assumes "history_inv h" and "event_ok ev" and "history_step h ev = (Inl e, h')"
  shows "h' = h"
proof -
  have total: "history_snapshot k \<noteq> Inl x" if "history_inv k" for k x
    using history_snapshot_total [OF that] by simp
  note inv = history_step_inv [OF assms(1,2)]
  show ?thesis
  proof (cases ev)
    case (HRebase l)
    with assms(3) inv total [of h'] show ?thesis by (cases l) (auto simp: Let_def)
  qed (use assms(3) inv total [of h'] in
      \<open>auto simp: history_undo_eq history_redo_eq history_apply_eq simp del: apply_viewport_edit.simps
        split: if_splits sum.splits\<close>)
qed

text \<open>
  C36: every operation of the history refines the abstract tape: one that raises leaves the
  history as it was, one that returns moves the tape and its cursor as \<open>tape_step\<close> says, and
  the layout it reports is the one under the cursor.
\<close>

theorem history_refines_tape:
  assumes "history_inv h" and "event_ok ev"
  shows "case history_step h ev of
      (Inl e, h') \<Rightarrow> h' = h
    | (Inr s, h') \<Rightarrow>
        tape_of h' = tape_step (vh_max_history h) (tape_move_of h ev) (tape_of h) \<and>
        vhs_layout s = history_tape h' ! history_cursor h' \<and> history_inv h'"
proof (cases "history_step h ev")
  case (Pair r h')
  show ?thesis
  proof (cases r)
    case (Inl e)
    with Pair history_step_error [OF assms] show ?thesis by simp
  next
    case (Inr s)
    from history_step_inv [OF assms] Pair have inv: "history_inv h'" by simp
    have "history_snapshot h' = Inr s"
      using Pair Inr
      by (cases ev) (auto simp: history_undo_eq history_redo_eq history_apply_eq history_rebase_eq
          simp del: apply_viewport_edit.simps split: if_splits sum.splits dyn.splits)
    then have "vhs_layout s = vh_layout h'" by (auto simp: history_snapshot_def split: if_splits)
    with Pair Inr history_step_tape [OF assms(1)] inv history_cursor_layout show ?thesis by simp
  qed
qed

definition one_history :: viewport_history where
  "one_history = \<lparr>vh_layout = one_view, vh_max_history = 1, vh_max_operations = 9, vh_operations = 0,
     vh_undo = [], vh_redo = []\<rparr>"

lemma one_history_inv: "history_inv one_history"
  by (simp add: one_history_def history_inv_def one_view_wf)

theorem history_refines_tape_witness:
  "tape_of (snd (history_step one_history (HApply (Inst (ViewportMove 7 (- 5) 3))))) =
     ([one_view, one_view_moved], 1)"
  using history_refines_tape [OF one_history_inv, of "HApply (Inst (ViewportMove 7 (- 5) 3))"]
  by (simp add: one_history_def history_apply_eq one_view_move history_snapshot_def pushed_def tape_of_def
      history_tape_def history_cursor_def del: apply_viewport_edit.simps)

text \<open>
  Over any run of operations the undo and redo stacks together never hold more layouts than
  the configured history, the budget is respected, every layout held is well-formed, and a
  snapshot can always be taken.
\<close>

lemma history_run_bounded:
  assumes "history_init (Inst l) depth budget = Inr h" and "viewport_layout_wf l" and "list_all event_ok evs"
  shows "let h' = history_run h evs in
    len (vh_undo h') + len (vh_redo h') \<le> depth \<and> vh_operations h' \<le> budget \<and>
    list_all viewport_layout_wf (history_tape h') \<and> (\<exists>s. history_snapshot h' = Inr s)"
proof -
  have inv: "history_inv (history_run h evs)"
    by (rule history_run_inv [OF history_init_inv [OF assms(1,2)] assms(3)])
  have keep: "vh_max_history (snd (history_step k ev)) = vh_max_history k \<and>
      vh_max_operations (snd (history_step k ev)) = vh_max_operations k" for k ev
    by (cases ev)
      (auto simp: history_undo_eq history_redo_eq history_apply_eq history_rebase_eq undone_def redone_def
        pushed_def simp del: apply_viewport_edit.simps split: sum.split dyn.split)
  then have "vh_max_history (history_run k evs) = vh_max_history k \<and>
      vh_max_operations (history_run k evs) = vh_max_operations k" for k
    by (induction evs arbitrary: k) simp_all
  moreover from assms(1) have "vh_max_history h = depth" "vh_max_operations h = budget"
    by (auto split: if_splits)
  ultimately show ?thesis
    using inv history_snapshot_total [OF inv] by (simp add: history_inv_def history_tape_def Let_def)
qed

lemma history_run_bounded_witness:
  "len (vh_undo (history_run one_history [HUndo, HApply (Inst (ViewportMove 7 1 1)), HRebase NotInst])) \<le> 1"
  using history_run_bounded [of one_view 1 9 one_history "[HUndo, HApply (Inst (ViewportMove 7 1 1)), HRebase NotInst]"]
    one_view_wf
  by (simp add: one_history_def Let_def)

text \<open>
  While the budget lasts, redo takes back an undo exactly: the layout and both stacks are
  the ones from before, only the operation counter has moved on by two.
\<close>

lemma redo_restores_undo:
  assumes "history_inv h" and "vh_undo h \<noteq> []" and "vh_operations h + 2 \<le> vh_max_operations h"
  shows "\<exists>h1 s1 s2. history_undo h = (Inr s1, h1) \<and> vhs_layout s1 = last (vh_undo h) \<and>
    history_redo h1 = (Inr s2, h\<lparr>vh_operations := vh_operations h + 2\<rparr>) \<and> vhs_layout s2 = vh_layout h"
proof -
  have ops: "vh_operations h < vh_max_operations h" using assms(3) by simp
  have i1: "history_inv (undone h)" by (rule undone_inv [OF assms(1,2) ops])
  have r: "vh_redo (undone h) \<noteq> []" "\<not> vh_max_operations (undone h) \<le> vh_operations (undone h)"
    using assms(3) by (simp_all add: undone_def)
  have i2: "history_inv (redone (undone h))" by (rule redone_inv [OF i1 r(1)]) (use r(2) in simp)
  show ?thesis
    using assms(2) ops r history_snapshot_total [OF i1] history_snapshot_total [OF i2]
    by (simp add: history_undo_eq history_redo_eq redone_undone) (simp add: undone_def)
qed

lemma redo_restores_undo_witness:
  "\<exists>h1 s1 s2. history_undo (pushed one_history one_view_moved) = (Inr s1, h1) \<and> vhs_layout s1 = one_view \<and>
     history_redo h1 = (Inr s2, (pushed one_history one_view_moved)\<lparr>vh_operations := 3\<rparr>) \<and>
     vhs_layout s2 = one_view_moved"
proof -
  have "viewport_layout_wf one_view_moved" by (rule apply_viewport_edit_wf [OF one_view_wf one_view_move])
  then have "history_inv (pushed one_history one_view_moved)"
    by (intro pushed_inv one_history_inv) (simp_all add: one_history_def)
  from redo_restores_undo [OF this] show ?thesis by (simp add: pushed_def one_history_def)
qed

end
