(* ===== verification/Viewport_History_Control.thy ===== *)
theory Viewport_History_Control
  imports Viewport_History
begin

text \<open>
  \<open>src/src/k5vision/media/viewport_history_control.py\<close>: \<open>TransactionalViewportHistoryControl\<close>
  asks the application to show a candidate layout and commits the history move only when the
  application accepted it.

  The application is a parameter: its \<open>relayout\<close> takes the candidate and its own state, and
  gives what the awaited call did together with its next state. The control holds no lock while
  it waits, so other tasks may use the same history in between; \<open>interfere\<close> is what they did
  to it (the identity when nobody else ran).
\<close>

datatype history_control_error_code =
    Control_INVALID_CONFIGURATION
  | Control_HISTORY_FAILURE
  | Control_RELAYOUT_FAILURE

datatype history_control_exn =
    ViewportHistoryControlError history_control_error_code
  | Control_HistoryExn viewport_history_exn
  | Control_CancelledError

type_synonym 'app relayout = "viewport_layout \<Rightarrow> 'app \<Rightarrow> unit awaited \<times> 'app"

type_synonym 'app control_result =
  "(history_control_exn + viewport_history_snapshot) \<times> viewport_history \<times> 'app"

section \<open>Operations\<close>

definition control_init :: "viewport_layout dyn \<Rightarrow> int \<Rightarrow> int \<Rightarrow> history_control_exn + viewport_history" where
  "control_init l max_history max_operations =
     (case history_init l max_history max_operations of
        Inl (ViewportEditorHistoryError _) \<Rightarrow>
          Inl (ViewportHistoryControlError Control_INVALID_CONFIGURATION)
      | Inl e \<Rightarrow> Inl (Control_HistoryExn e)
      | Inr h \<Rightarrow> Inr h)"

definition control_snapshot :: "viewport_history \<Rightarrow> history_control_exn + viewport_history_snapshot" where
  "control_snapshot h = (case history_snapshot h of Inl e \<Rightarrow> Inl (Control_HistoryExn e) | Inr s \<Rightarrow> Inr s)"

text \<open>\<open>except ViewportEditorHistoryError\<close> catches that class only; anything else passes through.\<close>

fun sanitize_history_exn :: "viewport_history_exn \<Rightarrow> history_control_exn" where
  "sanitize_history_exn (ViewportEditorHistoryError _) = ViewportHistoryControlError Control_HISTORY_FAILURE"
| "sanitize_history_exn e = Control_HistoryExn e"

definition control_ensure_operation :: "viewport_history \<Rightarrow> history_control_exn + unit" where
  "control_ensure_operation h =
     (case ensure_operation_available h of Inl e \<Rightarrow> Inl (sanitize_history_exn e) | Inr _ \<Rightarrow> Inr ())"

fun control_relayout ::
  "'app relayout dyn \<Rightarrow> viewport_layout \<Rightarrow> 'app \<Rightarrow> (history_control_exn + unit) \<times> 'app" where
  "control_relayout NotInst candidate app =
     (Inl (ViewportHistoryControlError Control_INVALID_CONFIGURATION), app)"
| "control_relayout (Inst relayout) candidate app =
     (case relayout candidate app of
        (Returned _, app') \<Rightarrow> (Inr (), app')
      | (Cancelled, app') \<Rightarrow> (Inl Control_CancelledError, app')
      | (_, app') \<Rightarrow> (Inl (ViewportHistoryControlError Control_RELAYOUT_FAILURE), app'))"

definition control_rebase ::
  "viewport_history \<Rightarrow> viewport_layout dyn \<Rightarrow>
   (history_control_exn + viewport_history_snapshot) \<times> viewport_history" where
  "control_rebase h l =
     (case history_rebase h l of
        (Inl e, h') \<Rightarrow> (Inl (sanitize_history_exn e), h')
      | (Inr _, h') \<Rightarrow> (control_snapshot h', h'))"

text \<open>
  The part the three operations share, after the candidate is known: budget, relayout, the
  history move \<open>commit\<close>, and the comparison of the accepted layout with the candidate.
\<close>

definition control_commit ::
  "(viewport_history \<Rightarrow> history_result) \<Rightarrow> 'app relayout dyn \<Rightarrow> (viewport_history \<Rightarrow> viewport_history) \<Rightarrow>
   viewport_layout \<Rightarrow> viewport_history \<Rightarrow> 'app \<Rightarrow> 'app control_result" where
  "control_commit commit application interfere candidate h app =
     (case control_ensure_operation h of
        Inl e \<Rightarrow> (Inl e, h, app)
      | Inr _ \<Rightarrow>
          (case control_relayout application candidate app of
             (Inl e, app') \<Rightarrow>
               (Inl e, case application of NotInst \<Rightarrow> h | Inst _ \<Rightarrow> interfere h, app')
           | (Inr _, app') \<Rightarrow>
               (case commit (interfere h) of
                  (Inl e, h') \<Rightarrow> (Inl (sanitize_history_exn e), h', app')
                | (Inr accepted, h') \<Rightarrow>
                    (if vhs_layout accepted \<noteq> candidate
                     then (Inl (ViewportHistoryControlError Control_HISTORY_FAILURE), h', app')
                     else (control_snapshot h', h', app')))))"

definition control_apply ::
  "'app relayout dyn \<Rightarrow> (viewport_history \<Rightarrow> viewport_history) \<Rightarrow> viewport_history \<Rightarrow> 'app \<Rightarrow>
   viewport_edit dyn \<Rightarrow> 'app control_result" where
  "control_apply application interfere h app edit =
     (case history_snapshot h of
        Inl _ \<Rightarrow> (Inl (ViewportHistoryControlError Control_HISTORY_FAILURE), h, app)
      | Inr s \<Rightarrow>
          (case apply_viewport_edit (Inst (vhs_layout s)) edit of
             Inl _ \<Rightarrow> (Inl (ViewportHistoryControlError Control_HISTORY_FAILURE), h, app)
           | Inr candidate \<Rightarrow>
               control_commit (\<lambda>h. history_apply h edit) application interfere candidate h app))"

definition control_undo ::
  "'app relayout dyn \<Rightarrow> (viewport_history \<Rightarrow> viewport_history) \<Rightarrow> viewport_history \<Rightarrow> 'app \<Rightarrow>
   'app control_result" where
  "control_undo application interfere h app =
     (case undo_candidate h of
        Inl e \<Rightarrow> (Inl (sanitize_history_exn e), h, app)
      | Inr candidate \<Rightarrow> control_commit history_undo application interfere candidate h app)"

definition control_redo ::
  "'app relayout dyn \<Rightarrow> (viewport_history \<Rightarrow> viewport_history) \<Rightarrow> viewport_history \<Rightarrow> 'app \<Rightarrow>
   'app control_result" where
  "control_redo application interfere h app =
     (case redo_candidate h of
        Inl e \<Rightarrow> (Inl (sanitize_history_exn e), h, app)
      | Inr candidate \<Rightarrow> control_commit history_redo application interfere candidate h app)"

section \<open>Facts\<close>

text \<open>What a successful commit went through.\<close>

lemma control_commit_Inr:
  assumes "control_commit commit application interfere candidate h app = (Inr s, h', app')"
  obtains relayout accepted where
    "application = Inst relayout" "relayout candidate app = (Returned (), app')"
    "ensure_operation_available h = Inr ()"
    "commit (interfere h) = (Inr accepted, h')" "vhs_layout accepted = candidate"
    "control_snapshot h' = Inr s"
proof -
  from assms have en: "control_ensure_operation h = Inr ()"
    by (auto simp: control_commit_def split: sum.splits)
  from assms en obtain relayout where r: "application = Inst relayout"
    by (cases application) (auto simp: control_commit_def)
  from assms en r have "control_relayout application candidate app = (Inr (), app')"
    by (auto simp: control_commit_def split: sum.splits prod.splits if_splits)
  with r have rel: "relayout candidate app = (Returned (), app')"
    by (auto split: prod.splits awaited.splits)
  from assms en r rel obtain accepted where
    "commit (interfere h) = (Inr accepted, h')" "vhs_layout accepted = candidate"
    "control_snapshot h' = Inr s"
    by (auto simp: control_commit_def split: sum.splits prod.splits if_splits)
  moreover from en have "ensure_operation_available h = Inr ()"
    by (auto simp: control_ensure_operation_def split: sum.splits)
  ultimately show ?thesis using that r rel by blast
qed

text \<open>
  When the history move is sure to succeed once the budget allows it and nobody interferes, a
  commit that raises has not touched the history.
\<close>

lemma control_relayout_Inl:
  "control_relayout application candidate app = (Inl e, app') \<Longrightarrow>
   control_commit commit application (\<lambda>h. h) candidate h app =
     (case control_ensure_operation h of Inl e' \<Rightarrow> (Inl e', h, app) | Inr _ \<Rightarrow> (Inl e, h, app'))"
  by (cases application) (auto simp: control_commit_def split: sum.split)

lemma control_commit_atomic:
  assumes res: "control_commit commit application (\<lambda>h. h) candidate h app = (Inl e, h', app')"
    and sure: "ensure_operation_available h = Inr () \<Longrightarrow>
      \<exists>a k. commit h = (Inr a, k) \<and> vhs_layout a = candidate \<and> control_snapshot k = Inr a"
  shows "h' = h"
proof (cases "ensure_operation_available h")
  case (Inl x)
  with res show ?thesis by (simp add: control_commit_def control_ensure_operation_def)
next
  case (Inr u)
  then have en: "control_ensure_operation h = Inr ()" by (simp add: control_ensure_operation_def)
  from Inr sure obtain a k where c: "commit h = (Inr a, k)" "vhs_layout a = candidate"
    "control_snapshot k = Inr a" by auto
  show ?thesis
  proof (cases "control_relayout application candidate app")
    case (Pair r app1)
    show ?thesis
    proof (cases r)
      case (Inl x)
      with Pair control_relayout_Inl [of application candidate app x app1 commit h] en res
      show ?thesis by simp
    next
      case (Inr v)
      with Pair en c res show ?thesis by (simp add: control_commit_def)
    qed
  qed
qed

lemma control_snapshot_layout: "control_snapshot h = Inr s \<Longrightarrow> vhs_layout s = vh_layout h"
  by (auto simp: control_snapshot_def history_snapshot_def split: if_splits)

lemma history_snapshot_layout: "history_snapshot h = Inr s \<Longrightarrow> vhs_layout s = vh_layout h"
  by (auto simp: history_snapshot_def split: if_splits)

lemma history_undo_snapshot: "history_undo h = (Inr s, h') \<Longrightarrow> history_snapshot h' = Inr s"
  by (auto simp: history_undo_eq split: if_splits)

lemma history_redo_snapshot: "history_redo h = (Inr s, h') \<Longrightarrow> history_snapshot h' = Inr s"
  by (auto simp: history_redo_eq split: if_splits)

lemma history_apply_snapshot: "history_apply h x = (Inr s, h') \<Longrightarrow> history_snapshot h' = Inr s"
  by (auto simp: history_apply_eq simp del: apply_viewport_edit.simps split: if_splits sum.splits)

lemma commit_sure:
  assumes inv: "history_inv h" and en: "ensure_operation_available h = Inr ()"
  shows "undo_candidate h = Inr l \<Longrightarrow> \<exists>a k. history_undo h = (Inr a, k) \<and> vhs_layout a = l \<and> control_snapshot k = Inr a"
    and "redo_candidate h = Inr l \<Longrightarrow> \<exists>a k. history_redo h = (Inr a, k) \<and> vhs_layout a = l \<and> control_snapshot k = Inr a"
    and "apply_viewport_edit (Inst (vh_layout h)) (Inst x) = Inr l \<Longrightarrow>
      \<exists>a k. history_apply h (Inst x) = (Inr a, k) \<and> vhs_layout a = l \<and> control_snapshot k = Inr a"
proof -
  from en have ops: "vh_operations h < vh_max_operations h"
    by (auto simp: ensure_operation_available_def split: if_splits)
  show "\<exists>a k. history_undo h = (Inr a, k) \<and> vhs_layout a = l \<and> control_snapshot k = Inr a"
    if "undo_candidate h = Inr l"
  proof -
    from that have ne: "vh_undo h \<noteq> []" "l = last (vh_undo h)"
      by (auto simp: undo_candidate_def split: if_splits)
    with ops history_snapshot_total [OF undone_inv [OF inv ne(1) ops]] show ?thesis
      by (simp add: history_undo_eq control_snapshot_def) (simp add: undone_def)
  qed
  show "\<exists>a k. history_redo h = (Inr a, k) \<and> vhs_layout a = l \<and> control_snapshot k = Inr a"
    if "redo_candidate h = Inr l"
  proof -
    from that have ne: "vh_redo h \<noteq> []" "l = last (vh_redo h)"
      by (auto simp: redo_candidate_def split: if_splits)
    with ops history_snapshot_total [OF redone_inv [OF inv ne(1) ops]] show ?thesis
      by (simp add: history_redo_eq control_snapshot_def) (simp add: redone_def)
  qed
  show "\<exists>a k. history_apply h (Inst x) = (Inr a, k) \<and> vhs_layout a = l \<and> control_snapshot k = Inr a"
    if ap: "apply_viewport_edit (Inst (vh_layout h)) (Inst x) = Inr l"
  proof -
    have wf: "viewport_layout_wf l"
      using apply_viewport_edit_wf [OF _ ap] inv by (simp add: history_inv_def)
    with ap ops history_snapshot_total [OF pushed_inv [OF inv wf ops]] show ?thesis
      by (simp add: history_apply_eq control_snapshot_def del: apply_viewport_edit.simps)
        (simp add: pushed_def)
  qed
qed

text \<open>The layout that is committed is the layout the application accepted last.\<close>

lemma control_commit_shown:
  assumes "control_commit commit application interfere candidate h app = (Inr s, h', app')"
    and "\<And>a k. commit (interfere h) = (Inr a, k) \<Longrightarrow> history_snapshot k = Inr a"
  shows "vh_layout h' = candidate" and "vhs_layout s = candidate"
  using assms(2) control_commit_Inr [OF assms(1)] history_snapshot_layout control_snapshot_layout
  by metis+

section \<open>Correctness\<close>

datatype control_event = CApply viewport_edit | CUndo | CRedo

fun control_step ::
  "'app relayout dyn \<Rightarrow> (viewport_history \<Rightarrow> viewport_history) \<Rightarrow> viewport_history \<Rightarrow> 'app \<Rightarrow>
   control_event \<Rightarrow> 'app control_result" where
  "control_step application interfere h app (CApply e) = control_apply application interfere h app (Inst e)"
| "control_step application interfere h app CUndo = control_undo application interfere h app"
| "control_step application interfere h app CRedo = control_redo application interfere h app"

text \<open>
  Nobody interfering, a transactional operation that raises, for whatever reason (no such
  candidate, budget, relayout failed, timed out or was cancelled), leaves the history unchanged.
\<close>

lemma control_step_atomic:
  assumes inv: "history_inv h" and res: "control_step application (\<lambda>h. h) h app ev = (Inl e, h', app')"
  shows "h' = h"
proof (cases ev)
  case (CApply x)
  show ?thesis
  proof (cases "apply_viewport_edit (Inst (vh_layout h)) (Inst x)")
    case (Inl a)
    with CApply res history_snapshot_total [OF inv] show ?thesis
      by (simp add: control_apply_def del: apply_viewport_edit.simps)
  next
    case (Inr l)
    with CApply res history_snapshot_total [OF inv]
    have "control_commit (\<lambda>h. history_apply h (Inst x)) application (\<lambda>h. h) l h app = (Inl e, h', app')"
      by (simp add: control_apply_def del: apply_viewport_edit.simps)
    then show ?thesis by (rule control_commit_atomic) (rule commit_sure(3) [OF inv _ Inr])
  qed
next
  case CUndo
  show ?thesis
  proof (cases "undo_candidate h")
    case (Inr l)
    with CUndo res have "control_commit history_undo application (\<lambda>h. h) l h app = (Inl e, h', app')"
      by (simp add: control_undo_def)
    then show ?thesis by (rule control_commit_atomic) (rule commit_sure(1) [OF inv _ Inr])
  qed (use CUndo res in \<open>simp add: control_undo_def\<close>)
next
  case CRedo
  show ?thesis
  proof (cases "redo_candidate h")
    case (Inr l)
    with CRedo res have "control_commit history_redo application (\<lambda>h. h) l h app = (Inl e, h', app')"
      by (simp add: control_redo_def)
    then show ?thesis by (rule control_commit_atomic) (rule commit_sure(2) [OF inv _ Inr])
  qed (use CRedo res in \<open>simp add: control_redo_def\<close>)
qed

lemma control_step_atomic_witness:
  "fst (snd (control_step (Inst (\<lambda>l n. (TimedOut, n + 1))) (\<lambda>h. h) one_history (0 :: nat)
      (CApply (ViewportMove 7 (- 5) 3)))) = one_history"
proof -
  let ?r = "control_step (Inst (\<lambda>l n. (TimedOut, n + 1))) (\<lambda>h. h) one_history (0 :: nat) (CApply (ViewportMove 7 (- 5) 3))"
  have "fst ?r = Inl (ViewportHistoryControlError Control_RELAYOUT_FAILURE)"
    by (simp add: one_history_def control_apply_def history_snapshot_def one_view_move control_commit_def
        control_ensure_operation_def ensure_operation_available_def del: apply_viewport_edit.simps)
  then have "?r = (Inl (ViewportHistoryControlError Control_RELAYOUT_FAILURE), fst (snd ?r), snd (snd ?r))"
    by (metis prod.collapse)
  from control_step_atomic [OF one_history_inv this] show ?thesis .
qed

text \<open>
  An operation that returns has committed exactly the layout that the application was shown
  and accepted, even when other tasks changed the history while the application was relayouting.
\<close>

lemma control_commits_what_was_shown:
  assumes "control_step application interfere h app ev = (Inr s, h', app')"
  shows "\<exists>relayout l. application = Inst relayout \<and> relayout l app = (Returned (), app') \<and>
    vh_layout h' = l \<and> vhs_layout s = l"
proof -
  have key: "\<exists>relayout l. application = Inst relayout \<and> relayout l app = (Returned (), app') \<and>
      vh_layout h' = l \<and> vhs_layout s = l"
    if "control_commit commit application interfere l h app = (Inr s, h', app')"
      and "\<And>a k. commit (interfere h) = (Inr a, k) \<Longrightarrow> history_snapshot k = Inr a" for commit l
    using control_commit_shown [OF that] control_commit_Inr [OF that(1)] by metis
  show ?thesis
  proof (cases ev)
    case (CApply x)
    with assms obtain l where
      "control_commit (\<lambda>h. history_apply h (Inst x)) application interfere l h app = (Inr s, h', app')"
      by (auto simp: control_apply_def simp del: apply_viewport_edit.simps split: sum.splits)
    then show ?thesis by (rule key) (rule history_apply_snapshot)
  next
    case CUndo
    with assms obtain l where "control_commit history_undo application interfere l h app = (Inr s, h', app')"
      by (auto simp: control_undo_def split: sum.splits)
    then show ?thesis by (rule key) (rule history_undo_snapshot)
  next
    case CRedo
    with assms obtain l where "control_commit history_redo application interfere l h app = (Inr s, h', app')"
      by (auto simp: control_redo_def split: sum.splits)
    then show ?thesis by (rule key) (rule history_redo_snapshot)
  qed
qed

lemma control_commits_what_was_shown_witness:
  "\<exists>s h' app'. control_step (Inst (\<lambda>l n. (Returned (), n + 1))) (\<lambda>h. h) one_history (0 :: nat)
      (CApply (ViewportMove 7 (- 5) 3)) = (Inr s, h', app') \<and> vh_layout h' = vhs_layout s"
proof -
  let ?r = "control_step (Inst (\<lambda>l n. (Returned (), n + 1))) (\<lambda>h. h) one_history (0 :: nat) (CApply (ViewportMove 7 (- 5) 3))"
  have "\<exists>s. fst ?r = Inr s"
    by (simp add: one_history_def control_apply_def history_snapshot_def one_view_move control_commit_def
        control_ensure_operation_def ensure_operation_available_def control_snapshot_def history_apply_eq
        pushed_def del: apply_viewport_edit.simps)
  then obtain s where "?r = (Inr s, fst (snd ?r), snd (snd ?r))" by (metis prod.collapse)
  with control_commits_what_was_shown [OF this] show ?thesis by metis
qed

end
