(* ===== verification/Utf8.thy ===== *)
theory Utf8
  imports K5_Prelude
begin

text \<open>
  UTF-8, as \<open>str.encode("utf-8")\<close> and \<open>bytes.decode("utf-8")\<close> of the standard library do it
  in strict mode. A Python string is its list of code points; \<open>encode\<close> fails on a lone
  surrogate (\<open>UnicodeEncodeError\<close>), \<open>decode\<close> on anything that is not the shortest encoding of
  a scalar value (\<open>UnicodeDecodeError\<close>).
\<close>

type_synonym pystr = "nat list"

definition is_surrogate :: "nat \<Rightarrow> bool" where
  "is_surrogate c \<longleftrightarrow> 55296 \<le> c \<and> c \<le> 57343"

definition is_scalar :: "nat \<Rightarrow> bool" where
  "is_scalar c \<longleftrightarrow> c < 1114112 \<and> \<not> is_surrogate c"

definition utf8_char :: "nat \<Rightarrow> nat list option" where
  "utf8_char c =
     (if c < 128 then Some [c]
      else if c < 2048 then Some [192 + c div 64, 128 + c mod 64]
      else if is_surrogate c then None
      else if c < 65536 then Some [224 + c div 4096, 128 + c div 64 mod 64, 128 + c mod 64]
      else if c < 1114112
      then Some [240 + c div 262144, 128 + c div 4096 mod 64, 128 + c div 64 mod 64, 128 + c mod 64]
      else None)"

fun utf8_encode_nat :: "pystr \<Rightarrow> nat list option" where
  "utf8_encode_nat [] = Some []"
| "utf8_encode_nat (c # cs) =
     (case utf8_char c of None \<Rightarrow> None
      | Some bs \<Rightarrow> map_option (append bs) (utf8_encode_nat cs))"

definition is_cont :: "nat \<Rightarrow> bool" where
  "is_cont b \<longleftrightarrow> 128 \<le> b \<and> b < 192"

fun utf8_decode_nat :: "nat list \<Rightarrow> pystr option" where
  "utf8_decode_nat [] = Some []"
| "utf8_decode_nat (b0 # r) =
     (if b0 < 128 then map_option (Cons b0) (utf8_decode_nat r)
      else if 194 \<le> b0 \<and> b0 \<le> 223 then
        (case r of b1 # r' \<Rightarrow>
           if is_cont b1 then map_option (Cons ((b0 - 192) * 64 + (b1 - 128))) (utf8_decode_nat r')
           else None
         | _ \<Rightarrow> None)
      else if 224 \<le> b0 \<and> b0 \<le> 239 then
        (case r of b1 # b2 # r' \<Rightarrow>
           (let c = (b0 - 224) * 4096 + (b1 - 128) * 64 + (b2 - 128) in
            if is_cont b1 \<and> is_cont b2 \<and> 2048 \<le> c \<and> \<not> is_surrogate c
            then map_option (Cons c) (utf8_decode_nat r') else None)
         | _ \<Rightarrow> None)
      else if 240 \<le> b0 \<and> b0 \<le> 244 then
        (case r of b1 # b2 # b3 # r' \<Rightarrow>
           (let c = (b0 - 240) * 262144 + (b1 - 128) * 4096 + (b2 - 128) * 64 + (b3 - 128) in
            if is_cont b1 \<and> is_cont b2 \<and> is_cont b3 \<and> 65536 \<le> c \<and> c < 1114112
            then map_option (Cons c) (utf8_decode_nat r') else None)
         | _ \<Rightarrow> None)
      else None)"

definition utf8_encode :: "pystr \<Rightarrow> byte list option" where
  "utf8_encode s = map_option (map of_nat) (utf8_encode_nat s)"

definition utf8_decode :: "byte list \<Rightarrow> pystr option" where
  "utf8_decode bs = utf8_decode_nat (map unat bs)"

lemma utf8_char_bytes: "utf8_char c = Some bs \<Longrightarrow> list_all (\<lambda>b. b < 256) bs"
  by (auto simp: utf8_char_def less_mult_imp_div_less split: if_splits)

lemma utf8_encode_nat_bytes: "utf8_encode_nat s = Some bs \<Longrightarrow> list_all (\<lambda>b. b < 256) bs"
  by (induction s arbitrary: bs) (auto dest: utf8_char_bytes split: option.splits)

lemma utf8_encode_nat_total: "list_all is_scalar s \<Longrightarrow> \<exists>bs. utf8_encode_nat s = Some bs"
  by (induction s) (auto simp: utf8_char_def is_scalar_def split: if_splits)

lemma utf8_char_decode:
  assumes "utf8_char c = Some bs"
  shows "utf8_decode_nat (bs @ r) = map_option (Cons c) (utf8_decode_nat r)"
proof -
  have m64: "x mod 64 < 64" for x :: nat by simp
  have two: "x div 4096 * 4096 + x div 64 mod 64 * 64 + x mod 64 = x" for x :: nat
  proof -
    have "x div 4096 = x div 64 div 64" by (simp add: div_mult2_eq [symmetric])
    with div_mult_mod_eq [of "x div 64" 64] div_mult_mod_eq [of x 64] show ?thesis by linarith
  qed
  consider "c < 128" | "128 \<le> c" "c < 2048" | "2048 \<le> c" "c < 65536" "\<not> is_surrogate c"
    | "65536 \<le> c" "c < 1114112"
    using assms by (force simp: utf8_char_def split: if_splits)
  then show ?thesis
  proof cases
    case 1
    with assms show ?thesis by (auto simp: utf8_char_def)
  next
    case 2
    then have bs: "bs = [192 + c div 64, 128 + c mod 64]" using assms by (simp add: utf8_char_def)
    have "2 \<le> c div 64" "c div 64 < 32" "c div 64 * 64 + c mod 64 = c" using 2 by auto
    then show ?thesis using bs m64 by (simp add: is_cont_def)
  next
    case 3
    then have bs: "bs = [224 + c div 4096, 128 + c div 64 mod 64, 128 + c mod 64]"
      using assms by (simp add: utf8_char_def)
    have q: "c div 4096 < 16" using 3 by simp
    show ?thesis using bs m64 3 q two [of c] by (simp add: is_cont_def Let_def)
  next
    case 4
    then have bs: "bs = [240 + c div 262144, 128 + c div 4096 mod 64, 128 + c div 64 mod 64, 128 + c mod 64]"
      using assms by (auto simp: utf8_char_def is_surrogate_def)
    have q: "c div 262144 \<le> 4" using 4 by simp
    have "c div 262144 = c div 4096 div 64" by (simp add: div_mult2_eq [symmetric])
    then have "c div 262144 * 262144 + c div 4096 mod 64 * 4096 = c div 4096 * 4096"
      using div_mult_mod_eq [of "c div 4096" 64] by linarith
    then have c: "c div 262144 * 262144 + c div 4096 mod 64 * 4096 + c div 64 mod 64 * 64 + c mod 64 = c"
      using two [of c] by linarith
    show ?thesis using bs m64 4 q c by (simp add: is_cont_def Let_def)
  qed
qed

lemma utf8_decode_encode_nat: "utf8_encode_nat s = Some bs \<Longrightarrow> utf8_decode_nat bs = Some s"
  by (induction s arbitrary: bs) (auto simp: utf8_char_decode split: option.splits)

lemma utf8_decode_encode: "utf8_encode s = Some bs \<Longrightarrow> utf8_decode bs = Some s"
proof -
  assume "utf8_encode s = Some bs"
  then obtain ns where ns: "utf8_encode_nat s = Some ns" "bs = map of_nat ns"
    by (auto simp: utf8_encode_def)
  have "map unat bs = ns"
    unfolding ns(2) using utf8_encode_nat_bytes [OF ns(1)]
    by (auto simp: list_all_iff unat_of_nat take_bit_eq_mod intro!: map_idI)
  with utf8_decode_encode_nat [OF ns(1)] show ?thesis by (simp add: utf8_decode_def)
qed

lemma utf8_encode_total: "list_all is_scalar s \<Longrightarrow> \<exists>bs. utf8_encode s = Some bs"
  using utf8_encode_nat_total by (auto simp: utf8_encode_def)

end
