(* ===== verification/Viewport_Catalog.thy ===== *)
theory Viewport_Catalog
  imports Viewport_Geometry Utf8
begin

text \<open>
  \<open>src/src/k5vision/media/viewport_catalog.py\<close>: up to 64 reusable layouts under unique view
  ids, kept in view-id order, with a bounded byte form.

  pydantic's JSON codec is a parameter: \<open>model_dump_json\<close> gives the text of a catalog,
  \<open>model_validate_json\<close> gives the catalog of a text or fails.
\<close>

abbreviation max_catalog_views :: int where "max_catalog_views \<equiv> 64"
abbreviation max_catalog_bytes :: int where "max_catalog_bytes \<equiv> 262144"

datatype viewport_catalog_error_code =
    Catalog_INVALID_CONFIGURATION
  | Catalog_INVALID_PAYLOAD
  | Catalog_PAYLOAD_LIMIT
  | Catalog_VIEW_NOT_FOUND
  | Catalog_INCOMPATIBLE_LAYOUT

datatype viewport_catalog_exn =
    ViewportCatalogError viewport_catalog_error_code
  | Catalog_UnicodeEncodeError

record viewport_catalog_entry =
  vce_view_id :: int
  vce_layout :: viewport_layout

record viewport_catalog =
  vc_views :: "viewport_catalog_entry list"

definition mk_catalog_entry :: "int \<Rightarrow> viewport_layout \<Rightarrow> validation_error + viewport_catalog_entry" where
  "mk_catalog_entry view_id l =
     (if 0 \<le> view_id \<and> view_id \<le> max_catalog_views - 1
      then Inr \<lparr>vce_view_id = view_id, vce_layout = l\<rparr> else Inl ValidationError)"

definition mk_viewport_catalog :: "viewport_catalog_entry list \<Rightarrow> validation_error + viewport_catalog" where
  "mk_viewport_catalog views =
     (if len views \<le> max_catalog_views \<and>
         length (map vce_view_id views) = card (set (map vce_view_id views))
      then Inr \<lparr>vc_views = views\<rparr> else Inl ValidationError)"

definition catalog_by_id :: "viewport_catalog \<Rightarrow> int \<rightharpoonup> viewport_layout" where
  "catalog_by_id c = foldl (\<lambda>m e. m(vce_view_id e \<mapsto> vce_layout e)) Map.empty (vc_views c)"

section \<open>Operations\<close>

text \<open>The entries come from any iterable; \<open>None\<close> stands for an iteration that raised.\<close>

fun build_viewport_catalog ::
  "viewport_catalog_entry dyn list option \<Rightarrow> viewport_catalog_exn + viewport_catalog" where
  "build_viewport_catalog None = Inl (ViewportCatalogError Catalog_INVALID_CONFIGURATION)"
| "build_viewport_catalog (Some materialized) =
     (if max_catalog_views < len materialized
      then Inl (ViewportCatalogError Catalog_INVALID_CONFIGURATION)
      else case dyn_insts materialized of
        None \<Rightarrow> Inl (ViewportCatalogError Catalog_INVALID_CONFIGURATION)
      | Some entries \<Rightarrow>
          (case mk_viewport_catalog (sort_key vce_view_id entries) of
             Inl ValidationError \<Rightarrow> Inl (ViewportCatalogError Catalog_INVALID_CONFIGURATION)
           | Inr c \<Rightarrow> Inr c))"

fun serialize_viewport_catalog ::
  "(viewport_catalog \<Rightarrow> pystr) \<Rightarrow> viewport_catalog dyn \<Rightarrow> viewport_catalog_exn + byte list" where
  "serialize_viewport_catalog model_dump_json NotInst =
     Inl (ViewportCatalogError Catalog_INVALID_CONFIGURATION)"
| "serialize_viewport_catalog model_dump_json (Inst c) =
     (case build_viewport_catalog (Some (map Inst (vc_views c))) of
        Inl e \<Rightarrow> Inl e
      | Inr canonical \<Rightarrow>
          (case utf8_encode (model_dump_json canonical) of
             None \<Rightarrow> Inl Catalog_UnicodeEncodeError
           | Some payload \<Rightarrow>
               (if max_catalog_bytes < len payload
                then Inl (ViewportCatalogError Catalog_PAYLOAD_LIMIT)
                else Inr payload)))"

datatype py_payload = PyStr pystr | PyBytes "byte list" | PyOther

text \<open>The text is encoded before any \<open>try\<close>, so a lone surrogate leaves as \<open>UnicodeEncodeError\<close>.\<close>

fun payload_bytes :: "py_payload \<Rightarrow> viewport_catalog_exn + byte list" where
  "payload_bytes (PyStr s) =
     (case utf8_encode s of None \<Rightarrow> Inl Catalog_UnicodeEncodeError | Some bs \<Rightarrow> Inr bs)"
| "payload_bytes (PyBytes bs) = Inr bs"
| "payload_bytes PyOther = Inl (ViewportCatalogError Catalog_INVALID_PAYLOAD)"

definition parse_viewport_catalog ::
  "(pystr \<Rightarrow> viewport_catalog option) \<Rightarrow> py_payload \<Rightarrow> viewport_catalog_exn + viewport_catalog" where
  "parse_viewport_catalog model_validate_json payload =
     (case payload_bytes payload of
        Inl e \<Rightarrow> Inl e
      | Inr encoded \<Rightarrow>
          (if max_catalog_bytes < len encoded
           then Inl (ViewportCatalogError Catalog_PAYLOAD_LIMIT)
           else case utf8_decode encoded of
             None \<Rightarrow> Inl (ViewportCatalogError Catalog_INVALID_PAYLOAD)
           | Some decoded \<Rightarrow>
               (case model_validate_json decoded of
                  None \<Rightarrow> Inl (ViewportCatalogError Catalog_INVALID_PAYLOAD)
                | Some c \<Rightarrow> build_viewport_catalog (Some (map Inst (vc_views c))))))"

fun catalog_view_for_active_layout ::
  "viewport_catalog dyn \<Rightarrow> int dyn \<Rightarrow> viewport_layout dyn \<Rightarrow> viewport_catalog_exn + viewport_layout" where
  "catalog_view_for_active_layout (Inst c) (Inst view_id) (Inst active) =
     (case catalog_by_id c view_id of
        None \<Rightarrow> Inl (ViewportCatalogError Catalog_VIEW_NOT_FOUND)
      | Some candidate \<Rightarrow>
          (if set (layout_slots candidate) \<noteq> set (layout_slots active)
           then Inl (ViewportCatalogError Catalog_INCOMPATIBLE_LAYOUT)
           else Inr candidate))"
| "catalog_view_for_active_layout _ _ _ = Inl (ViewportCatalogError Catalog_INVALID_CONFIGURATION)"

section \<open>Facts\<close>

definition viewport_catalog_wf :: "viewport_catalog \<Rightarrow> bool" where
  "viewport_catalog_wf c \<longleftrightarrow>
     length (vc_views c) \<le> 64 \<and> distinct (map vce_view_id (vc_views c)) \<and>
     list_all (\<lambda>e. 0 \<le> vce_view_id e \<and> vce_view_id e \<le> 63 \<and> viewport_layout_wf (vce_layout e)) (vc_views c)"

definition catalog_canonical :: "viewport_catalog \<Rightarrow> viewport_catalog" where
  "catalog_canonical c = \<lparr>vc_views = sort_key vce_view_id (vc_views c)\<rparr>"

lemma distinct_map_sort_key: "distinct (map f (sort_key g xs)) = distinct (map f xs)"
  by (simp add: distinct_map)

lemma mk_viewport_catalog_Inr [k5_inv]:
  "mk_viewport_catalog views = Inr c \<longleftrightarrow>
     c = \<lparr>vc_views = views\<rparr> \<and> length views \<le> 64 \<and> distinct (map vce_view_id views)"
  unfolding mk_viewport_catalog_def length_card_distinct by (simp split: if_split) blast

lemma mk_viewport_catalog_sorted [simp]:
  "mk_viewport_catalog (sort_key vce_view_id es) =
     (if length es \<le> 64 \<and> distinct (map vce_view_id es)
      then Inr \<lparr>vc_views = sort_key vce_view_id es\<rparr> else Inl ValidationError)"
proof -
  have "(length (map vce_view_id (sort_key vce_view_id es)) = card (set (map vce_view_id (sort_key vce_view_id es))))
      = distinct (map vce_view_id es)"
    unfolding length_card_distinct distinct_map_sort_key ..
  then show ?thesis unfolding mk_viewport_catalog_def by simp
qed

lemma build_viewport_catalog_Inr [k5_inv]:
  "build_viewport_catalog ms = Inr c \<longleftrightarrow>
     (\<exists>entries. ms = Some (map Inst entries) \<and> length entries \<le> 64 \<and>
        distinct (map vce_view_id entries) \<and> c = \<lparr>vc_views = sort_key vce_view_id entries\<rparr>)"
proof (cases ms)
  case (Some m)
  show ?thesis
  proof (cases "dyn_insts m")
    case None
    then have "\<nexists>xs. m = map Inst xs" using dyn_insts_map by fastforce
    with None Some show ?thesis by simp
  next
    case (Some xs)
    then have "m = map Inst xs" by (simp add: dyn_insts_Some)
    then show ?thesis using \<open>ms = Some m\<close>
      by (auto simp: inj_map_eq_map inj_def)
  qed
qed simp

lemma build_wf:
  "viewport_catalog_wf c \<Longrightarrow>
   build_viewport_catalog (Some (map Inst (vc_views c))) = Inr (catalog_canonical c)"
  by (simp add: viewport_catalog_wf_def catalog_canonical_def)

lemma catalog_canonical_wf: "viewport_catalog_wf c \<Longrightarrow> viewport_catalog_wf (catalog_canonical c)"
  by (auto simp: viewport_catalog_wf_def catalog_canonical_def distinct_map_sort_key list_all_iff)

lemma catalog_canonical_idem: "catalog_canonical (catalog_canonical c) = catalog_canonical c"
  by (simp add: catalog_canonical_def sort_key_id_if_sorted)

lemma catalog_by_id_Some:
  assumes "distinct (map vce_view_id (vc_views c))"
  shows "catalog_by_id c i = Some l \<longleftrightarrow> (\<exists>e\<in>set (vc_views c). vce_view_id e = i \<and> vce_layout e = l)"
proof (cases "i \<in> vce_view_id ` set (vc_views c)")
  case True
  then obtain e where e: "e \<in> set (vc_views c)" "vce_view_id e = i" by auto
  have eq: "x = e" if "x \<in> set (vc_views c)" "vce_view_id x = i" for x
    using that e assms by (auto simp: distinct_map inj_on_def)
  have "catalog_by_id c i = Some (vce_layout e)"
    using foldl_upd_in [OF assms e(1), where start = Map.empty] e(2) unfolding catalog_by_id_def by simp
  with e eq show ?thesis by (metis option.inject)
next
  case False
  then show ?thesis by (auto simp: catalog_by_id_def foldl_upd_notin)
qed

lemma catalog_by_id_canonical:
  "viewport_catalog_wf c \<Longrightarrow> catalog_by_id (catalog_canonical c) = catalog_by_id c"
proof (rule ext)
  fix i
  assume wf: "viewport_catalog_wf c"
  show "catalog_by_id (catalog_canonical c) i = catalog_by_id c i"
  proof (rule option.expand)
    have d: "distinct (map vce_view_id (vc_views c))" "distinct (map vce_view_id (vc_views (catalog_canonical c)))"
      using wf catalog_canonical_wf [OF wf] by (simp_all add: viewport_catalog_wf_def)
    have s: "set (vc_views (catalog_canonical c)) = set (vc_views c)" by (simp add: catalog_canonical_def)
    have iff: "catalog_by_id (catalog_canonical c) i = Some l \<longleftrightarrow> catalog_by_id c i = Some l" for l
      using catalog_by_id_Some [OF d(1)] catalog_by_id_Some [OF d(2)] s by auto
    then show "(catalog_by_id (catalog_canonical c) i = None) = (catalog_by_id c i = None)"
      by (metis not_Some_eq)
    show "the (catalog_by_id (catalog_canonical c) i) = the (catalog_by_id c i)"
      if "catalog_by_id (catalog_canonical c) i \<noteq> None"
      using that iff by (metis option.collapse option.sel)
  qed
qed

section \<open>Correctness\<close>

text \<open>
  Given a JSON codec that reads back what it wrote, whatever \<open>serialize_viewport_catalog\<close>
  returns for a well-formed catalog is read back by \<open>parse_viewport_catalog\<close> as the catalog in
  view-id order, which shows the same layout under every view id.
\<close>

lemma catalog_roundtrip:
  assumes wf: "viewport_catalog_wf c"
    and codec: "model_validate_json (model_dump_json (catalog_canonical c)) = Some (catalog_canonical c)"
    and ser: "serialize_viewport_catalog model_dump_json (Inst c) = Inr payload"
  shows "len payload \<le> max_catalog_bytes \<and>
    parse_viewport_catalog model_validate_json (PyBytes payload) = Inr (catalog_canonical c) \<and>
    catalog_by_id (catalog_canonical c) = catalog_by_id c"
proof -
  from ser build_wf [OF wf] have enc: "utf8_encode (model_dump_json (catalog_canonical c)) = Some payload"
    and le: "len payload \<le> max_catalog_bytes"
    by (auto simp del: build_viewport_catalog.simps split: option.splits if_splits)
  note canon = catalog_canonical_wf [OF wf]
  have "parse_viewport_catalog model_validate_json (PyBytes payload) = Inr (catalog_canonical (catalog_canonical c))"
    using le build_wf [OF canon]
    by (simp add: parse_viewport_catalog_def utf8_decode_encode [OF enc] codec
        del: build_viewport_catalog.simps)
  with le catalog_by_id_canonical [OF wf] show ?thesis by (simp add: catalog_canonical_idem)
qed

text \<open>A codec for the catalogs that show the same layout under every view id: one character per id.\<close>

definition sample_layout :: viewport_layout where
  "sample_layout = \<lparr>vl_placements =
     [\<lparr>vp_logical_slot = 0, vp_geometry = \<lparr>vg_x = 0, vg_y = 0, vg_width = 640, vg_height = 480, vg_z_index = 0\<rparr>\<rparr>]\<rparr>"

definition sample_dump :: "viewport_catalog \<Rightarrow> pystr" where
  "sample_dump c = map (\<lambda>e. nat (vce_view_id e)) (vc_views c)"

definition sample_validate :: "pystr \<Rightarrow> viewport_catalog option" where
  "sample_validate s = Some \<lparr>vc_views = map (\<lambda>i. \<lparr>vce_view_id = int i, vce_layout = sample_layout\<rparr>) s\<rparr>"

definition sample_catalog :: viewport_catalog where
  "sample_catalog = \<lparr>vc_views = [\<lparr>vce_view_id = 5, vce_layout = sample_layout\<rparr>,
                               \<lparr>vce_view_id = 2, vce_layout = sample_layout\<rparr>]\<rparr>"

lemma sample_catalog_canonical:
  "catalog_canonical sample_catalog = \<lparr>vc_views = [\<lparr>vce_view_id = 2, vce_layout = sample_layout\<rparr>,
     \<lparr>vce_view_id = 5, vce_layout = sample_layout\<rparr>]\<rparr>"
  by (simp add: catalog_canonical_def sample_catalog_def)

lemma sample_catalog_wf: "viewport_catalog_wf sample_catalog"
  by (simp add: viewport_catalog_wf_def sample_catalog_def sample_layout_def viewport_layout_wf_def
      viewport_placement_wf_def viewport_geometry_wf_def slot_ok_def)

lemma catalog_roundtrip_witness:
  "parse_viewport_catalog sample_validate (PyBytes [2, 5]) =
     Inr \<lparr>vc_views = [\<lparr>vce_view_id = 2, vce_layout = sample_layout\<rparr>,
                    \<lparr>vce_view_id = 5, vce_layout = sample_layout\<rparr>]\<rparr>"
proof -
  have codec: "sample_validate (sample_dump (catalog_canonical sample_catalog)) = Some (catalog_canonical sample_catalog)"
    by (simp add: sample_catalog_canonical sample_validate_def sample_dump_def)
  have ser: "serialize_viewport_catalog sample_dump (Inst sample_catalog) = Inr [2, 5]"
    unfolding serialize_viewport_catalog.simps build_wf [OF sample_catalog_wf] sample_catalog_canonical
    by (simp add: sample_dump_def utf8_encode_def utf8_char_def is_surrogate_def is_scalar_def)
  from catalog_roundtrip [where model_validate_json = sample_validate and model_dump_json = sample_dump,
      OF sample_catalog_wf codec ser] sample_catalog_canonical
  show ?thesis by simp
qed

text \<open>
  A catalog view is handed out for the active layout exactly when the view exists and has the
  active layout's logical slots, so that applying it never adds or drops a viewport.
\<close>

lemma catalog_view_keeps_slots:
  assumes "viewport_catalog_wf c"
  shows "catalog_view_for_active_layout (Inst c) (Inst i) (Inst active) = Inr l \<longleftrightarrow>
    (\<exists>e\<in>set (vc_views c). vce_view_id e = i \<and> vce_layout e = l) \<and> set (layout_slots l) = set (layout_slots active)"
  using catalog_by_id_Some [of c i l] assms
  by (auto simp: viewport_catalog_wf_def split: option.split)

lemma catalog_view_keeps_slots_witness:
  "catalog_view_for_active_layout (Inst sample_catalog) (Inst 2) (Inst sample_layout) = Inr sample_layout"
  using catalog_view_keeps_slots [OF sample_catalog_wf, of 2 sample_layout sample_layout]
  by (simp add: sample_catalog_def)

end
