(* ===== verification/Viewport_Projection.thy ===== *)
theory Viewport_Projection
  imports Viewport_Geometry
begin

text \<open>
  \<open>src/src/k5vision/media/viewport_client_projection.py\<close>: the projection of a logical layout
  into the pixels of a client window. Each axis keeps the sorted logical edges and the strictly
  increasing client edges they are drawn at; the inverse maps a pixel back to a logical
  coordinate, so that a pointer hits the placement that is drawn under it.
\<close>

abbreviation max_client :: int where "max_client \<equiv> 16384"
abbreviation max_logical :: int where "max_logical \<equiv> 2000000"
abbreviation min_content :: int where "min_content \<equiv> 192"

datatype projection_exn =
    Insufficient_Intervals
  | Edge_Not_Part
  | Point_Outside
  | Pointer_Not_Int
  | Layout_Invalid
  | Geometry_Invalid
  | Extent_Exceeds_Bound
  | Max_Of_Empty
  | Projection_ValidationError

section \<open>Binary search of the standard library\<close>

text \<open>\<open>bisect.bisect_right(a, x)\<close>: the loop of the standard library.\<close>

function bisect_loop :: "int list \<Rightarrow> int \<Rightarrow> nat \<Rightarrow> nat \<Rightarrow> nat" where
  "bisect_loop a x lo hi =
     (if lo < hi
      then (let mid = (lo + hi) div 2
            in if x < a ! mid then bisect_loop a x lo mid else bisect_loop a x (mid + 1) hi)
      else lo)"
  by pat_completeness auto
termination
  by (relation "measure (\<lambda>(a, x, lo, hi). hi - lo)") auto

declare bisect_loop.simps [simp del]

definition bisect_right :: "int list \<Rightarrow> int \<Rightarrow> nat" where
  "bisect_right a x = bisect_loop a x 0 (length a)"

text \<open>The insertion point: everything before it is at most \<open>x\<close>, everything from it on is greater.\<close>

definition splits_at :: "int list \<Rightarrow> int \<Rightarrow> nat \<Rightarrow> bool" where
  "splits_at a x r \<longleftrightarrow> r \<le> length a \<and> (\<forall>i<r. a ! i \<le> x) \<and> (\<forall>i. r \<le> i \<longrightarrow> i < length a \<longrightarrow> x < a ! i)"

lemma bisect_loop_spec:
  assumes "sorted a" and "lo \<le> hi" and "hi \<le> length a"
    and "\<forall>i<lo. a ! i \<le> x" and "\<forall>i. hi \<le> i \<longrightarrow> i < length a \<longrightarrow> x < a ! i"
  shows "splits_at a x (bisect_loop a x lo hi)"
  using assms
proof (induction a x lo hi rule: bisect_loop.induct)
  case (1 a x lo hi)
  let ?m = "(lo + hi) div 2"
  show ?case
  proof (cases "lo < hi")
    case False
    then have "bisect_loop a x lo hi = lo" by (simp add: bisect_loop.simps [of a x lo hi])
    moreover have "lo = hi" using False "1.prems"(2) by simp
    ultimately show ?thesis using "1.prems" unfolding splits_at_def by simp
  next
    case True
    then have m: "lo \<le> ?m" "?m < hi" "?m + 1 \<le> hi" by auto
    show ?thesis
    proof (cases "x < a ! ?m")
      case less: True
      have eq: "bisect_loop a x lo hi = bisect_loop a x lo ?m"
        using True less by (simp add: bisect_loop.simps [of a x lo hi])
      have high: "\<forall>i. ?m \<le> i \<longrightarrow> i < length a \<longrightarrow> x < a ! i"
        using less sorted_nth_mono [OF "1.prems"(1)] by (meson less_le_trans)
      have ml: "?m \<le> length a" using m(2) "1.prems"(3) by linarith
      show ?thesis unfolding eq
        by (rule "1.IH"(1) [OF True refl less "1.prems"(1) m(1) ml "1.prems"(4) high])
    next
      case ge: False
      have eq: "bisect_loop a x lo hi = bisect_loop a x (?m + 1) hi"
        using True ge by (simp add: bisect_loop.simps [of a x lo hi])
      have low: "\<forall>i<?m + 1. a ! i \<le> x"
      proof (intro allI impI)
        fix i assume "i < ?m + 1"
        then have "a ! i \<le> a ! ?m"
          using m "1.prems"(3) by (intro sorted_nth_mono [OF "1.prems"(1)]) auto
        with ge show "a ! i \<le> x" by simp
      qed
      show ?thesis unfolding eq
        by (rule "1.IH"(2) [OF True refl ge "1.prems"(1) m(3) "1.prems"(3) low "1.prems"(5)])
    qed
  qed
qed

lemma bisect_right_at:
  assumes "sorted_wrt (<) a" and "i < length a" and "a ! i \<le> x"
    and "i + 1 < length a \<Longrightarrow> x < a ! (i + 1)"
  shows "bisect_right a x = i + 1"
proof -
  have "sorted a" using assms(1) by (rule strict_sorted_imp_sorted)
  then have "splits_at a x (bisect_right a x)"
    unfolding bisect_right_def by (rule bisect_loop_spec) simp_all
  then have le: "bisect_right a x \<le> length a" and low: "\<forall>j<bisect_right a x. a ! j \<le> x"
    and high: "\<forall>j. bisect_right a x \<le> j \<longrightarrow> j < length a \<longrightarrow> x < a ! j"
    by (simp_all add: splits_at_def)
  have "\<not> bisect_right a x \<le> i" using high assms(2,3) by force
  moreover have "\<not> i + 1 < bisect_right a x" using low le assms(4) by fastforce
  ultimately show ?thesis by simp
qed

section \<open>One axis\<close>

record axis_projection =
  ap_logical :: "int list"
  ap_physical :: "int list"

fun axis_place :: "int \<Rightarrow> int \<Rightarrow> int \<Rightarrow> int \<Rightarrow> int \<Rightarrow> int \<Rightarrow> int list \<Rightarrow> int list" where
  "axis_place offset pixels extent n index prev [] = []"
| "axis_place offset pixels extent n index prev (edge # edges) =
     (let remaining = n - index - 1;
          selected = offset + edge * pixels div extent;
          p = min (offset + pixels - remaining) (max (prev + 1) selected)
      in p # axis_place offset pixels extent n (index + 1) p edges)"

definition axis_build :: "int list \<Rightarrow> int \<Rightarrow> int \<Rightarrow> int \<Rightarrow> projection_exn + axis_projection" where
  "axis_build edges extent pixels offset =
     (let logical = sort (remdups (0 # extent # edges))
      in if pixels < len logical - 1 then Inl Insufficient_Intervals
         else Inr \<lparr>ap_logical = logical,
                   ap_physical = offset #
                     axis_place offset pixels extent (len logical) 1 offset (butlast (tl logical)) @
                     [offset + pixels]\<rparr>)"

definition axis_edge :: "axis_projection \<Rightarrow> int \<Rightarrow> projection_exn + int" where
  "axis_edge ap value =
     (let index = int (bisect_right (ap_logical ap) value) - 1
      in if index < 0 \<or> ap_logical ap ! nat index \<noteq> value then Inl Edge_Not_Part
         else Inr (ap_physical ap ! nat index))"

definition axis_inverse :: "axis_projection \<Rightarrow> int \<Rightarrow> projection_exn + int" where
  "axis_inverse ap pixel =
     (let index = int (bisect_right (ap_physical ap) pixel) - 1
      in if index < 0 \<or> len (ap_physical ap) - 1 \<le> index then Inl Point_Outside
         else (let i = nat index;
                   logical_start = ap_logical ap ! i; logical_end = ap_logical ap ! (i + 1);
                   physical_start = ap_physical ap ! i; physical_end = ap_physical ap ! (i + 1);
                   numerator = (pixel - physical_start + 1) * (logical_end - logical_start);
                   denominator = physical_end - physical_start
               in Inr (logical_start + (numerator + denominator - 1) div denominator - 1)))"

section \<open>The projection of a layout\<close>

record client_projection =
  cp_physical_layout :: viewport_layout
  cp_horizontal :: axis_projection
  cp_vertical :: axis_projection
  cp_client_width :: int
  cp_client_height :: int
  cp_content_top :: int

fun logical_point :: "client_projection \<Rightarrow> int dyn \<Rightarrow> int dyn \<Rightarrow> projection_exn + (int \<times> int) option" where
  "logical_point cp (Inst x) (Inst y) =
     (if \<not> (0 \<le> x \<and> x < cp_client_width cp \<and> cp_content_top cp \<le> y \<and> y < cp_client_height cp)
      then Inr None
      else andThen (axis_inverse (cp_horizontal cp) x) (\<lambda>lx.
           andThen (axis_inverse (cp_vertical cp) y) (\<lambda>ly. Inr (Some (lx, ly)))))"
| "logical_point cp _ _ = Inl Pointer_Not_Int"

fun py_max :: "int list \<Rightarrow> projection_exn + int" where
  "py_max [] = Inl Max_Of_Empty"
| "py_max [x] = Inr x"
| "py_max (x # xs) = andThen (py_max xs) (\<lambda>m. Inr (max x m))"

definition project_placement ::
  "axis_projection \<Rightarrow> axis_projection \<Rightarrow> viewport_placement \<Rightarrow> projection_exn + viewport_placement" where
  "project_placement horizontal vertical p =
     (let g = vp_geometry p in
      andThen (axis_edge horizontal (vg_x g)) (\<lambda>x.
      andThen (axis_edge vertical (vg_y g)) (\<lambda>y.
      andThen (axis_edge horizontal (vg_x g + vg_width g)) (\<lambda>x2.
      andThen (axis_edge vertical (vg_y g + vg_height g)) (\<lambda>y2.
      andThen (map_err (\<lambda>_. Projection_ValidationError)
                 (mk_viewport_geometry x y (x2 - x) (y2 - y) (vg_z_index g))) (\<lambda>g'.
      map_err (\<lambda>_. Projection_ValidationError) (mk_viewport_placement (vp_logical_slot p) g')))))))"

definition client_bounds_ok :: "int \<Rightarrow> int \<Rightarrow> int \<Rightarrow> int \<Rightarrow> int \<Rightarrow> bool" where
  "client_bounds_ok reference_width reference_height client_width client_height content_top \<longleftrightarrow>
     1 \<le> reference_width \<and> reference_width \<le> max_client \<and>
     1 \<le> reference_height \<and> reference_height \<le> max_client \<and>
     min_content \<le> client_width \<and> client_width \<le> max_client \<and>
     0 \<le> content_top \<and> content_top \<le> max_client - min_content \<and>
     min_content \<le> client_height - content_top \<and> client_height - content_top \<le> max_client \<and>
     client_height \<le> max_client"

definition edges_of :: "(viewport_geometry \<Rightarrow> int) \<Rightarrow> (viewport_geometry \<Rightarrow> int) \<Rightarrow> viewport_layout \<Rightarrow> int list" where
  "edges_of start extent l =
     concat (map (\<lambda>p. [start (vp_geometry p), start (vp_geometry p) + extent (vp_geometry p)]) (vl_placements l))"

fun project_viewport_layout ::
  "viewport_layout dyn \<Rightarrow> int dyn \<Rightarrow> int dyn \<Rightarrow> int dyn \<Rightarrow> int dyn \<Rightarrow> int dyn \<Rightarrow>
   projection_exn + client_projection" where
  "project_viewport_layout NotInst _ _ _ _ _ = Inl Layout_Invalid"
| "project_viewport_layout (Inst l) (Inst reference_width) (Inst reference_height)
     (Inst client_width) (Inst client_height) (Inst content_top) =
     (if \<not> client_bounds_ok reference_width reference_height client_width client_height content_top
      then Inl Geometry_Invalid
      else
        andThen (py_max (map (\<lambda>p. vg_x (vp_geometry p) + vg_width (vp_geometry p)) (vl_placements l))) (\<lambda>right.
        andThen (py_max (map (\<lambda>p. vg_y (vp_geometry p) + vg_height (vp_geometry p)) (vl_placements l))) (\<lambda>bottom.
        let width = max reference_width right; height = max reference_height bottom in
        if max_logical < max width height then Inl Extent_Exceeds_Bound
        else
          andThen (axis_build (edges_of vg_x vg_width l) width client_width 0) (\<lambda>horizontal.
          andThen (axis_build (edges_of vg_y vg_height l) height (client_height - content_top) content_top) (\<lambda>vertical.
          andThen (collect (map (project_placement horizontal vertical) (vl_placements l))) (\<lambda>projected.
          andThen (map_err (\<lambda>_. Projection_ValidationError) (mk_viewport_layout projected)) (\<lambda>physical_layout.
          Inr \<lparr>cp_physical_layout = physical_layout, cp_horizontal = horizontal, cp_vertical = vertical,
               cp_client_width = client_width, cp_client_height = client_height,
               cp_content_top = content_top\<rparr>)))))))"
| "project_viewport_layout _ _ _ _ _ _ = Inl Geometry_Invalid"

section \<open>Facts on one axis\<close>

definition axis_wf :: "axis_projection \<Rightarrow> bool" where
  "axis_wf ap \<longleftrightarrow>
     sorted_wrt (<) (ap_logical ap) \<and> sorted_wrt (<) (ap_physical ap) \<and>
     length (ap_physical ap) = length (ap_logical ap) \<and> 2 \<le> length (ap_logical ap)"

lemma length_axis_place [simp]: "length (axis_place off px ext n i prev es) = length es"
  by (induction es arbitrary: i prev) (simp_all add: Let_def)

lemma axis_place_increasing:
  assumes "prev \<le> off + px - len es - 1" and "n - i = len es + 1"
  shows "sorted_wrt (<) (prev # axis_place off px ext n i prev es @ [off + px])"
  using assms
proof (induction es arbitrary: i prev)
  case (Cons e es)
  define p where "p = min (off + px - (n - i - 1)) (max (prev + 1) (off + e * px div ext))"
  have rem: "n - i - 1 = len es + 1" "n - (i + 1) = len es + 1" using Cons.prems(2) by simp_all
  have "prev + 1 \<le> off + px - (len es + 1)" using Cons.prems(1) by simp
  then have p: "prev < p" "p \<le> off + px - len es - 1" unfolding p_def rem by linarith+
  from Cons.IH [OF p(2) rem(2)]
  have IH: "sorted_wrt (<) (p # axis_place off px ext n (i + 1) p es @ [off + px])" .
  have "axis_place off px ext n i prev (e # es) = p # axis_place off px ext n (i + 1) p es"
    by (simp add: Let_def p_def)
  with IH p(1) show ?case by (auto intro: less_trans)
qed simp

lemma sorted_wrt_less_nth_iff:
  fixes xs :: "int list"
  assumes "sorted_wrt (<) xs" and "i < length xs" and "j < length xs"
  shows "xs ! i < xs ! j \<longleftrightarrow> i < j" and "xs ! i \<le> xs ! j \<longleftrightarrow> i \<le> j"
proof -
  have mono: "xs ! a < xs ! b" if "a < b" "b < length xs" for a b
    using sorted_wrt_nth_less [OF assms(1) that] .
  consider "i < j" "xs ! i < xs ! j" | "i = j" | "j < i" "xs ! j < xs ! i"
    using mono assms(2,3) by (meson linorder_neqE_nat)
  then show "xs ! i < xs ! j \<longleftrightarrow> i < j" "xs ! i \<le> xs ! j \<longleftrightarrow> i \<le> j"
    by (cases; simp)+
qed

lemma sorted_remdups_ends:
  fixes xs :: "int list"
  assumes "\<forall>x\<in>set xs. 0 \<le> x \<and> x \<le> m" and "1 \<le> m"
  defines "ys \<equiv> sort (remdups (0 # m # xs))"
  shows "ys = 0 # butlast (tl ys) @ [m]" and "sorted_wrt (<) ys" and "set ys = insert 0 (insert m (set xs))"
proof -
  show srt: "sorted_wrt (<) ys" and st: "set ys = insert 0 (insert m (set xs))"
    by (auto simp: ys_def strict_sorted_iff)
  then have s: "sorted ys" by (simp add: strict_sorted_imp_sorted)
  from st have "ys \<noteq> []" by auto
  then obtain y zs where ys: "ys = y # zs" by (cases ys) auto
  have "y = 0"
  proof (rule antisym)
    have "0 \<in> set ys" using st by simp
    with ys s show "y \<le> 0" by auto
    have "y \<in> insert 0 (insert m (set xs))" using st ys by auto
    with assms(1,2) show "0 \<le> y" by auto
  qed
  have "m \<in> set ys" using st by simp
  with ys \<open>y = 0\<close> assms(2) have "m \<in> set zs" by simp
  then have "zs \<noteq> []" by auto
  have "last zs = m"
  proof (rule antisym)
    have "last zs \<in> set ys" using ys \<open>zs \<noteq> []\<close> by simp
    with st assms(1,2) show "last zs \<le> m" by force
    have "sorted zs" using s ys by simp
    then have "x \<le> last zs" if "x \<in> set zs" for x
      using that by (induction zs) auto
    with \<open>m \<in> set zs\<close> show "m \<le> last zs" by blast
  qed
  with append_butlast_last_id [OF \<open>zs \<noteq> []\<close>] \<open>y = 0\<close> ys
  show "ys = 0 # butlast (tl ys) @ [m]" by simp
qed

lemma axis_build_wf:
  assumes edges: "\<forall>x\<in>set edges. 0 \<le> x \<and> x \<le> extent" and ext: "1 \<le> extent"
    and px: "len edges + 1 \<le> pixels"
  obtains ap where "axis_build edges extent pixels offset = Inr ap" "axis_wf ap"
    "set (ap_logical ap) = insert 0 (insert extent (set edges))"
    "ap_physical ap ! 0 = offset" "last (ap_physical ap) = offset + pixels"
proof -
  define logical where "logical = sort (remdups (0 # extent # edges))"
  note ends = sorted_remdups_ends [OF edges ext, folded logical_def]
  define inner where "inner = butlast (tl logical)"
  have ll: "length logical = length inner + 2"
    using arg_cong [OF ends(1), of length] by (simp add: inner_def)
  have "length logical \<le> length edges + 2"
    unfolding logical_def by (simp add: le_SucI le_trans [OF length_remdups_leq])
  then have enough: "len inner + 1 \<le> pixels" using px ll by linarith
  define ap where "ap = \<lparr>ap_logical = logical,
      ap_physical = offset # axis_place offset pixels extent (len logical) 1 offset inner @ [offset + pixels]\<rparr>"
  have build: "axis_build edges extent pixels offset = Inr ap"
    unfolding axis_build_def Let_def logical_def [symmetric] inner_def [symmetric] ap_def
    using enough ll by simp
  have "sorted_wrt (<) (ap_physical ap)"
    unfolding ap_def axis_projection.simps
    by (rule axis_place_increasing) (use enough ll in linarith)+
  then have wf: "axis_wf ap" using ends(2) ll by (simp add: axis_wf_def ap_def)
  show ?thesis by (rule that [OF build wf]) (simp_all add: ap_def ends(3))
qed

lemma axis_edge_nth:
  assumes "axis_wf ap" and "i < length (ap_logical ap)"
  shows "axis_edge ap (ap_logical ap ! i) = Inr (ap_physical ap ! i)"
proof -
  have "bisect_right (ap_logical ap) (ap_logical ap ! i) = i + 1"
    by (rule bisect_right_at) (use assms in \<open>auto simp: axis_wf_def sorted_wrt_less_nth_iff\<close>)
  then show ?thesis by (simp add: axis_edge_def)
qed

lemma strict_sorted_interval:
  fixes xs :: "int list"
  assumes "sorted_wrt (<) xs" and "xs \<noteq> []" and "xs ! 0 \<le> p" and "p < last xs"
  obtains i where "i + 1 < length xs" "xs ! i \<le> p" "p < xs ! (i + 1)"
proof -
  define S where "S = {i. i < length xs \<and> xs ! i \<le> p}"
  have fin: "finite S" "0 \<in> S" using assms(2,3) by (auto simp: S_def)
  then have m: "Max S \<in> S" by (auto intro: Max_in)
  have "Max S \<noteq> length xs - 1" using m assms(2,4) by (auto simp: S_def last_conv_nth)
  with m have lt: "Max S + 1 < length xs" by (auto simp: S_def)
  moreover have "Max S + 1 \<notin> S" using Max_ge [OF fin(1), of "Max S + 1"] by auto
  ultimately show ?thesis using that [of "Max S"] m by (auto simp: S_def not_le)
qed

lemma ceil_div_bounds:
  fixes k den d :: int
  assumes "1 \<le> k" and "k \<le> den" and "1 \<le> d"
  shows "1 \<le> (k * d + den - 1) div den" and "(k * d + den - 1) div den \<le> d"
proof -
  have "1 * 1 \<le> k * d" using assms by (intro mult_mono) auto
  then show "1 \<le> (k * d + den - 1) div den"
    using assms zdiv_mono1 [of den "k * d + den - 1" den] by simp
  have "k * d \<le> den * d" using assms by (intro mult_right_mono) auto
  then have "(k * d + den - 1) div den \<le> (den * d + (den - 1)) div den"
    using assms by (intro zdiv_mono1) linarith+
  also have "\<dots> = d + (den - 1) div den" using assms by (simp add: div_mult_self4)
  also have "\<dots> = d" using assms by (simp add: div_pos_pos_trivial)
  finally show "(k * d + den - 1) div den \<le> d" .
qed

text \<open>A pixel's logical coordinate lies between the logical edges around it.\<close>

lemma axis_inverse_between:
  assumes wf: "axis_wf ap" and "ap_physical ap ! 0 \<le> p" and "p < last (ap_physical ap)"
  obtains i v where "axis_inverse ap p = Inr v" "i + 1 < length (ap_logical ap)"
    "ap_physical ap ! i \<le> p" "p < ap_physical ap ! (i + 1)"
    "ap_logical ap ! i \<le> v" "v < ap_logical ap ! (i + 1)"
proof -
  have ne: "ap_physical ap \<noteq> []" and len: "length (ap_physical ap) = length (ap_logical ap)"
    and sp: "sorted_wrt (<) (ap_physical ap)" and sl: "sorted_wrt (<) (ap_logical ap)"
    using wf by (auto simp: axis_wf_def)
  obtain i where i: "i + 1 < length (ap_physical ap)" "ap_physical ap ! i \<le> p" "p < ap_physical ap ! (i + 1)"
    by (rule strict_sorted_interval [OF sp ne assms(2,3)])
  have b: "bisect_right (ap_physical ap) p = i + 1"
    by (rule bisect_right_at [OF sp]) (use i in auto)
  let ?d = "ap_logical ap ! (i + 1) - ap_logical ap ! i"
  let ?den = "ap_physical ap ! (i + 1) - ap_physical ap ! i"
  let ?q = "((p - ap_physical ap ! i + 1) * ?d + ?den - 1) div ?den"
  have "1 \<le> ?d" using sorted_wrt_less_nth_iff(1) [OF sl, of i "i + 1"] i(1) len by simp
  with i have q: "1 \<le> ?q" "?q \<le> ?d" by (intro ceil_div_bounds; simp)+
  have "axis_inverse ap p = Inr (ap_logical ap ! i + ?q - 1)"
    using b i(1) by (simp add: axis_inverse_def Let_def)
  then show ?thesis using that [of "ap_logical ap ! i + ?q - 1" i] i len q by simp
qed

text \<open>Half-open ownership: which side of an edge a pixel is on agrees in both coordinates.\<close>

lemma axis_inverse_edge:
  assumes wf: "axis_wf ap" and range: "ap_physical ap ! 0 \<le> p" "p < last (ap_physical ap)"
    and inv: "axis_inverse ap p = Inr v" and edge: "axis_edge ap e = Inr pe" and e: "e \<in> set (ap_logical ap)"
  shows "e \<le> v \<longleftrightarrow> pe \<le> p"
proof -
  have sp: "sorted_wrt (<) (ap_physical ap)" and sl: "sorted_wrt (<) (ap_logical ap)"
    and len: "length (ap_physical ap) = length (ap_logical ap)"
    using wf by (auto simp: axis_wf_def)
  from e obtain k where k: "k < length (ap_logical ap)" "e = ap_logical ap ! k"
    by (auto simp: in_set_conv_nth)
  with edge axis_edge_nth [OF wf k(1)] have pe: "pe = ap_physical ap ! k" by simp
  obtain i v' where i: "axis_inverse ap p = Inr v'" "i + 1 < length (ap_logical ap)"
    "ap_physical ap ! i \<le> p" "p < ap_physical ap ! (i + 1)"
    "ap_logical ap ! i \<le> v'" "v' < ap_logical ap ! (i + 1)"
    by (rule axis_inverse_between [OF wf range])
  with inv have v: "v' = v" by simp
  show ?thesis
  proof (cases "k \<le> i")
    case True
    then have "ap_logical ap ! k \<le> ap_logical ap ! i" "ap_physical ap ! k \<le> ap_physical ap ! i"
      using sorted_wrt_less_nth_iff(2) [OF sl, of k i] sorted_wrt_less_nth_iff(2) [OF sp, of k i]
        i(2) k(1) len by simp_all
    with i v k pe show ?thesis by linarith
  next
    case False
    then have "ap_logical ap ! (i + 1) \<le> ap_logical ap ! k" "ap_physical ap ! (i + 1) \<le> ap_physical ap ! k"
      using sorted_wrt_less_nth_iff(2) [OF sl, of "i + 1" k] sorted_wrt_less_nth_iff(2) [OF sp, of "i + 1" k]
        i(2) k(1) len by simp_all
    with i v k pe show ?thesis by linarith
  qed
qed

section \<open>Facts on the projection of a layout\<close>

lemma py_max_total:
  "xs \<noteq> [] \<Longrightarrow> \<exists>m. py_max xs = Inr m \<and> m \<in> set xs \<and> (\<forall>x\<in>set xs. x \<le> m)"
proof (induction xs rule: py_max.induct)
  case (3 x y ys)
  then obtain m where m: "py_max (y # ys) = Inr m" "m \<in> set (y # ys)" "\<forall>z\<in>set (y # ys). z \<le> m" by auto
  then have "py_max (x # y # ys) = Inr (max x m)" by simp
  with m(2,3) show ?case by (intro exI [of _ "max x m"]) (auto simp: max_def)
qed auto

text \<open>One axis of a layout: every placement's two edges are drawn, in order, inside the content.\<close>

definition axis_covers ::
  "(viewport_geometry \<Rightarrow> int) \<Rightarrow> (viewport_geometry \<Rightarrow> int) \<Rightarrow> viewport_layout \<Rightarrow> axis_projection \<Rightarrow> int \<Rightarrow> int \<Rightarrow> bool" where
  "axis_covers start extent l ap lo hi \<longleftrightarrow>
     axis_wf ap \<and> ap_physical ap ! 0 = lo \<and> last (ap_physical ap) = hi \<and>
     (\<forall>p\<in>set (vl_placements l).
        start (vp_geometry p) \<in> set (ap_logical ap) \<and>
        start (vp_geometry p) + extent (vp_geometry p) \<in> set (ap_logical ap) \<and>
        (\<exists>a b. axis_edge ap (start (vp_geometry p)) = Inr a \<and>
               axis_edge ap (start (vp_geometry p) + extent (vp_geometry p)) = Inr b \<and>
               lo \<le> a \<and> a < b \<and> b \<le> hi))"

lemma axis_edges_ordered:
  assumes wf: "axis_wf ap" and e: "e \<in> set (ap_logical ap)" and f: "f \<in> set (ap_logical ap)" and "e < f"
  obtains a b where "axis_edge ap e = Inr a" "axis_edge ap f = Inr b"
    "ap_physical ap ! 0 \<le> a" "a < b" "b \<le> last (ap_physical ap)"
proof -
  from e f obtain i j where i: "i < length (ap_logical ap)" "e = ap_logical ap ! i"
    and j: "j < length (ap_logical ap)" "f = ap_logical ap ! j"
    by (auto simp: in_set_conv_nth)
  have sl: "sorted_wrt (<) (ap_logical ap)" and sp: "sorted_wrt (<) (ap_physical ap)"
    and len: "length (ap_physical ap) = length (ap_logical ap)" and two: "2 \<le> length (ap_logical ap)"
    using wf by (auto simp: axis_wf_def)
  have ij: "i < j" using \<open>e < f\<close> i j sorted_wrt_less_nth_iff(1) [OF sl i(1) j(1)] by simp
  let ?n = "length (ap_physical ap) - 1"
  have "ap_physical ap ! 0 \<le> ap_physical ap ! i" "ap_physical ap ! j \<le> ap_physical ap ! ?n"
    using sorted_wrt_less_nth_iff(2) [OF sp, of 0 i] sorted_wrt_less_nth_iff(2) [OF sp, of j ?n] i(1) j(1) len two
    by (auto simp del: length_greater_0_conv)
  moreover have "last (ap_physical ap) = ap_physical ap ! ?n"
    using len two by (intro last_conv_nth) auto
  moreover have "ap_physical ap ! i < ap_physical ap ! j"
    using sorted_wrt_less_nth_iff(1) [OF sp, of i j] ij i(1) j(1) len by simp
  ultimately show ?thesis
    using that axis_edge_nth [OF wf i(1)] axis_edge_nth [OF wf j(1)] i(2) j(2) by simp
qed

lemma edges_of_set:
  "set (edges_of start extent l) = (\<Union>p\<in>set (vl_placements l).
     {start (vp_geometry p), start (vp_geometry p) + extent (vp_geometry p)})"
  by (auto simp: edges_of_def)

lemma length_edges_of: "length (edges_of start extent l) = 2 * length (vl_placements l)"
proof -
  have "length (concat (map (\<lambda>p. [f p, g p]) ps)) = 2 * length ps"
    for f g :: "viewport_placement \<Rightarrow> int" and ps by (induction ps) auto
  then show ?thesis by (simp add: edges_of_def)
qed

lemma axis_of_layout:
  assumes small: "length (vl_placements l) \<le> 64" and px: "192 \<le> pixels" and ext: "1 \<le> extent"
    and inside: "\<And>p. p \<in> set (vl_placements l) \<Longrightarrow>
      0 \<le> st (vp_geometry p) \<and> 1 \<le> wd (vp_geometry p) \<and> st (vp_geometry p) + wd (vp_geometry p) \<le> extent"
  obtains ap where "axis_build (edges_of st wd l) extent pixels offset = Inr ap"
    "axis_covers st wd l ap offset (offset + pixels)"
proof -
  have "\<forall>x\<in>set (edges_of st wd l). 0 \<le> x \<and> x \<le> extent"
    unfolding edges_of_set using inside by fastforce
  moreover have "len (edges_of st wd l) + 1 \<le> pixels" unfolding length_edges_of using small px by linarith
  ultimately obtain ap where ap: "axis_build (edges_of st wd l) extent pixels offset = Inr ap" "axis_wf ap"
    "set (ap_logical ap) = insert 0 (insert extent (set (edges_of st wd l)))"
    "ap_physical ap ! 0 = offset" "last (ap_physical ap) = offset + pixels"
    using axis_build_wf ext by blast
  have "axis_covers st wd l ap offset (offset + pixels)"
    unfolding axis_covers_def
  proof (intro conjI ballI ap)
    fix p assume p: "p \<in> set (vl_placements l)"
    show e: "st (vp_geometry p) \<in> set (ap_logical ap)"
      and f: "st (vp_geometry p) + wd (vp_geometry p) \<in> set (ap_logical ap)"
      unfolding ap(3) edges_of_set using p by auto
    have "st (vp_geometry p) < st (vp_geometry p) + wd (vp_geometry p)" using inside [OF p] by linarith
    from axis_edges_ordered [OF ap(2) e f this]
    show "\<exists>a b. axis_edge ap (st (vp_geometry p)) = Inr a \<and>
      axis_edge ap (st (vp_geometry p) + wd (vp_geometry p)) = Inr b \<and> offset \<le> a \<and> a < b \<and> b \<le> offset + pixels"
      unfolding ap(4,5) by metis
  qed
  with ap(1) show ?thesis by (rule that)
qed

text \<open>The rectangle a placement is drawn in.\<close>

definition drawn ::
  "axis_projection \<Rightarrow> axis_projection \<Rightarrow> viewport_placement \<Rightarrow> viewport_placement \<Rightarrow> bool" where
  "drawn h v p q \<longleftrightarrow>
     vp_logical_slot q = vp_logical_slot p \<and>
     vg_z_index (vp_geometry q) = vg_z_index (vp_geometry p) \<and>
     axis_edge h (vg_x (vp_geometry p)) = Inr (vg_x (vp_geometry q)) \<and>
     axis_edge h (vg_x (vp_geometry p) + vg_width (vp_geometry p)) = Inr (vg_x (vp_geometry q) + vg_width (vp_geometry q)) \<and>
     axis_edge v (vg_y (vp_geometry p)) = Inr (vg_y (vp_geometry q)) \<and>
     axis_edge v (vg_y (vp_geometry p) + vg_height (vp_geometry p)) = Inr (vg_y (vp_geometry q) + vg_height (vp_geometry q))"

lemma project_placement_Inr:
  "project_placement h v p = Inr q \<Longrightarrow> drawn h v p q \<and> viewport_placement_wf q"
  by (auto simp: project_placement_def drawn_def k5_inv Let_def viewport_placement_wf_def)

lemma project_placement_total:
  assumes p: "p \<in> set (vl_placements l)" "viewport_placement_wf p"
    and h: "axis_covers vg_x vg_width l h 0 cw" "cw \<le> max_client"
    and v: "axis_covers vg_y vg_height l v ct ch" "0 \<le> ct" "ch \<le> max_client"
  obtains q where "project_placement h v p = Inr q"
proof -
  from h(1) p(1) obtain a b where ab: "axis_edge h (vg_x (vp_geometry p)) = Inr a"
    "axis_edge h (vg_x (vp_geometry p) + vg_width (vp_geometry p)) = Inr b" "0 \<le> a" "a < b" "b \<le> cw"
    unfolding axis_covers_def by blast
  from v(1) p(1) obtain c d where cd: "axis_edge v (vg_y (vp_geometry p)) = Inr c"
    "axis_edge v (vg_y (vp_geometry p) + vg_height (vp_geometry p)) = Inr d" "ct \<le> c" "c < d" "d \<le> ch"
    unfolding axis_covers_def by blast
  from p(2) ab(3-5) cd(3-5) h(2) v(2,3)
  have "viewport_geometry_wf \<lparr>vg_x = a, vg_y = c, vg_width = b - a, vg_height = d - c,
      vg_z_index = vg_z_index (vp_geometry p)\<rparr>"
    by (simp add: viewport_placement_wf_def viewport_geometry_wf_def)
  with p(2) ab(1,2) cd(1,2) show ?thesis
    using that by (simp add: project_placement_def mk_viewport_geometry_def mk_viewport_placement_def
        viewport_placement_wf_def)
qed

text \<open>What a successful projection is made of.\<close>

definition projection_of :: "viewport_layout \<Rightarrow> int \<Rightarrow> int \<Rightarrow> int \<Rightarrow> client_projection \<Rightarrow> bool" where
  "projection_of l cw ch ct cp \<longleftrightarrow>
     axis_covers vg_x vg_width l (cp_horizontal cp) 0 cw \<and>
     axis_covers vg_y vg_height l (cp_vertical cp) ct ch \<and>
     cp_client_width cp = cw \<and> cp_client_height cp = ch \<and> cp_content_top cp = ct \<and>
     viewport_layout_wf (cp_physical_layout cp) \<and>
     list_all2 (drawn (cp_horizontal cp) (cp_vertical cp)) (vl_placements l)
       (vl_placements (cp_physical_layout cp))"

lemma project_viewport_layout_ok:
  assumes wf: "viewport_layout_wf l" and ok: "client_bounds_ok rw rh cw ch ct"
  obtains cp where
    "project_viewport_layout (Inst l) (Inst rw) (Inst rh) (Inst cw) (Inst ch) (Inst ct) = Inr cp"
    "projection_of l cw ch ct cp"
proof -
  have ne: "vl_placements l \<noteq> []" and small: "length (vl_placements l) \<le> 64"
    and pwf: "\<And>p. p \<in> set (vl_placements l) \<Longrightarrow> viewport_placement_wf p"
    using wf by (auto simp: viewport_layout_wf_def list_all_iff)
  from pwf have g: "0 \<le> vg_x (vp_geometry p) \<and> 1 \<le> vg_width (vp_geometry p) \<and>
      0 \<le> vg_y (vp_geometry p) \<and> 1 \<le> vg_height (vp_geometry p) \<and>
      vg_x (vp_geometry p) + vg_width (vp_geometry p) \<le> 2000000 \<and>
      vg_y (vp_geometry p) + vg_height (vp_geometry p) \<le> 2000000"
    if "p \<in> set (vl_placements l)" for p
    using that by (fastforce simp: viewport_placement_wf_def viewport_geometry_wf_def)
  define xs where "xs = map (\<lambda>p. vg_x (vp_geometry p) + vg_width (vp_geometry p)) (vl_placements l)"
  define ys where "ys = map (\<lambda>p. vg_y (vp_geometry p) + vg_height (vp_geometry p)) (vl_placements l)"
  from py_max_total [of xs] ne obtain right where right: "py_max xs = Inr right" "right \<in> set xs" "\<forall>x\<in>set xs. x \<le> right"
    by (auto simp: xs_def)
  from py_max_total [of ys] ne obtain bottom where bottom: "py_max ys = Inr bottom" "bottom \<in> set ys" "\<forall>y\<in>set ys. y \<le> bottom"
    by (auto simp: ys_def)
  have ok': "1 \<le> rw" "rw \<le> 16384" "1 \<le> rh" "rh \<le> 16384" "192 \<le> cw" "cw \<le> 16384" "0 \<le> ct"
    "192 \<le> ch - ct" "ch \<le> 16384"
    using ok by (simp_all add: client_bounds_ok_def)
  have le: "right \<le> 2000000" "bottom \<le> 2000000" using right(2) bottom(2) g by (auto simp: xs_def ys_def)
  define width where "width = max rw right"
  define height where "height = max rh bottom"
  have bound: "\<not> 2000000 < max width height" using le ok' by (simp add: width_def height_def)
  have "vg_x (vp_geometry p) + vg_width (vp_geometry p) \<le> width"
    "vg_y (vp_geometry p) + vg_height (vp_geometry p) \<le> height" if "p \<in> set (vl_placements l)" for p
    using right(3) bottom(3) that by (auto simp: xs_def ys_def width_def height_def max_def)
  note in_wh = this
  obtain h where h: "axis_build (edges_of vg_x vg_width l) width cw 0 = Inr h"
    "axis_covers vg_x vg_width l h 0 (0 + cw)"
    by (rule axis_of_layout [OF small ok'(5), of width vg_x vg_width 0]) (use g in_wh ok' in \<open>auto simp: width_def\<close>)
  obtain v where v: "axis_build (edges_of vg_y vg_height l) height (ch - ct) ct = Inr v"
    "axis_covers vg_y vg_height l v ct (ct + (ch - ct))"
    by (rule axis_of_layout [OF small ok'(8), of height vg_y vg_height ct]) (use g in_wh ok' in \<open>auto simp: height_def\<close>)
  have "\<forall>p\<in>set (vl_placements l). \<exists>q. project_placement h v p = Inr q"
  proof
    fix p assume p: "p \<in> set (vl_placements l)"
    have h': "axis_covers vg_x vg_width l h 0 cw" and v': "axis_covers vg_y vg_height l v ct ch"
      using h(2) v(2) by simp_all
    from project_placement_total [OF p pwf [OF p] h' ok'(6) v' ok'(7) ok'(9)]
    show "\<exists>q. project_placement h v p = Inr q" by blast
  qed
  then obtain f where f: "\<And>p. p \<in> set (vl_placements l) \<Longrightarrow> project_placement h v p = Inr (f p)" by metis
  then have coll: "collect (map (project_placement h v) (vl_placements l)) = Inr (map f (vl_placements l))"
    by (rule collect_map_cong)
  have drawn: "drawn h v p (f p)" "viewport_placement_wf (f p)" if "p \<in> set (vl_placements l)" for p
    using project_placement_Inr [OF f [OF that]] by simp_all
  have slots: "map vp_logical_slot (map f (vl_placements l)) = layout_slots l"
    using drawn(1) by (simp add: drawn_def)
  note mk = mk_viewport_layout_same_slots [OF wf slots]
  let ?cp = "\<lparr>cp_physical_layout = \<lparr>vl_placements = map f (vl_placements l)\<rparr>, cp_horizontal = h,
    cp_vertical = v, cp_client_width = cw, cp_client_height = ch, cp_content_top = ct\<rparr>"
  have "project_viewport_layout (Inst l) (Inst rw) (Inst rh) (Inst cw) (Inst ch) (Inst ct) = Inr ?cp"
    using ok right(1) bottom(1) bound h(1) v(1) coll mk
    by (simp add: Let_def flip: xs_def ys_def width_def height_def)
  moreover have "projection_of l cw ch ct ?cp"
    unfolding projection_of_def client_projection.simps viewport_layout.simps
    using h(2) v(2) mk_viewport_layout_wf [OF mk] drawn
    by (auto simp: list_all_iff list.rel_map intro!: list.rel_refl_strong)
  ultimately show ?thesis by (rule that)
qed

text \<open>Which logical rectangles a point lies in, and which rectangles a pixel lies in.\<close>

definition rect_contains :: "viewport_geometry \<Rightarrow> int \<Rightarrow> int \<Rightarrow> bool" where
  "rect_contains g x y \<longleftrightarrow>
     vg_x g \<le> x \<and> x < vg_x g + vg_width g \<and> vg_y g \<le> y \<and> y < vg_y g + vg_height g"

lemma logical_point_total:
  assumes cp: "projection_of l cw ch ct cp"
    and px: "0 \<le> px" "px < cw" "ct \<le> py" "py < ch"
  obtains lx ly where "logical_point cp (Inst px) (Inst py) = Inr (Some (lx, ly))"
    "axis_inverse (cp_horizontal cp) px = Inr lx" "axis_inverse (cp_vertical cp) py = Inr ly"
proof -
  from cp have h: "axis_wf (cp_horizontal cp)" "ap_physical (cp_horizontal cp) ! 0 = 0" "last (ap_physical (cp_horizontal cp)) = cw"
    and v: "axis_wf (cp_vertical cp)" "ap_physical (cp_vertical cp) ! 0 = ct" "last (ap_physical (cp_vertical cp)) = ch"
    and cw: "cp_client_width cp = cw" "cp_client_height cp = ch" "cp_content_top cp = ct"
    by (simp_all add: projection_of_def axis_covers_def)
  obtain lx where lx: "axis_inverse (cp_horizontal cp) px = Inr lx"
    using axis_inverse_between [OF h(1), of px] h(2,3) px by metis
  obtain ly where ly: "axis_inverse (cp_vertical cp) py = Inr ly"
    using axis_inverse_between [OF v(1), of py] v(2,3) px by metis
  show ?thesis by (rule that [OF _ lx ly]) (use lx ly px cw in simp)
qed

lemma projection_hit:
  assumes cp: "projection_of l cw ch ct cp" and i: "i < length (vl_placements l)"
    and px: "0 \<le> px" "px < cw" "ct \<le> py" "py < ch"
    and lx: "axis_inverse (cp_horizontal cp) px = Inr lx" and ly: "axis_inverse (cp_vertical cp) py = Inr ly"
  shows "rect_contains (vp_geometry (vl_placements l ! i)) lx ly \<longleftrightarrow>
    rect_contains (vp_geometry (vl_placements (cp_physical_layout cp) ! i)) px py"
proof -
  let ?p = "vl_placements l ! i" and ?q = "vl_placements (cp_physical_layout cp) ! i"
  have d: "drawn (cp_horizontal cp) (cp_vertical cp) ?p ?q"
    using cp i by (auto simp: projection_of_def list_all2_conv_all_nth)
  have p: "?p \<in> set (vl_placements l)" using i by simp
  from cp have h: "axis_covers vg_x vg_width l (cp_horizontal cp) 0 cw"
    and v: "axis_covers vg_y vg_height l (cp_vertical cp) ct ch"
    by (simp_all add: projection_of_def)
  have hin: "axis_wf (cp_horizontal cp)" "ap_physical (cp_horizontal cp) ! 0 \<le> px" "px < last (ap_physical (cp_horizontal cp))"
    "vg_x (vp_geometry ?p) \<in> set (ap_logical (cp_horizontal cp))"
    "vg_x (vp_geometry ?p) + vg_width (vp_geometry ?p) \<in> set (ap_logical (cp_horizontal cp))"
    using h p px unfolding axis_covers_def by simp_all
  have vin: "axis_wf (cp_vertical cp)" "ap_physical (cp_vertical cp) ! 0 \<le> py" "py < last (ap_physical (cp_vertical cp))"
    "vg_y (vp_geometry ?p) \<in> set (ap_logical (cp_vertical cp))"
    "vg_y (vp_geometry ?p) + vg_height (vp_geometry ?p) \<in> set (ap_logical (cp_vertical cp))"
    using v p px unfolding axis_covers_def by simp_all
  note ex = axis_inverse_edge [OF hin(1-3) lx]
  note ey = axis_inverse_edge [OF vin(1-3) ly]
  have "vg_x (vp_geometry ?p) \<le> lx \<longleftrightarrow> vg_x (vp_geometry ?q) \<le> px"
    "vg_x (vp_geometry ?p) + vg_width (vp_geometry ?p) \<le> lx \<longleftrightarrow> vg_x (vp_geometry ?q) + vg_width (vp_geometry ?q) \<le> px"
    "vg_y (vp_geometry ?p) \<le> ly \<longleftrightarrow> vg_y (vp_geometry ?q) \<le> py"
    "vg_y (vp_geometry ?p) + vg_height (vp_geometry ?p) \<le> ly \<longleftrightarrow> vg_y (vp_geometry ?q) + vg_height (vp_geometry ?q) \<le> py"
    using d ex [OF _ hin(4)] ex [OF _ hin(5)] ey [OF _ vin(4)] ey [OF _ vin(5)]
    unfolding drawn_def by blast+
  then show ?thesis unfolding rect_contains_def by linarith
qed

section \<open>Correctness\<close>

text \<open>
  C37: a well-formed layout always fits a client window of at least 192 by 192 pixels of content:
  the projection succeeds, and every pixel of the content maps to a logical point that lies in
  exactly the viewports whose drawn rectangles contain that pixel.
\<close>

theorem projection_hits_what_is_drawn:
  assumes "viewport_layout_wf l" and "client_bounds_ok rw rh cw ch ct"
  shows "\<exists>cp. project_viewport_layout (Inst l) (Inst rw) (Inst rh) (Inst cw) (Inst ch) (Inst ct) = Inr cp \<and>
    viewport_layout_wf (cp_physical_layout cp) \<and> layout_slots (cp_physical_layout cp) = layout_slots l \<and>
    (\<forall>px\<in>{0..<cw}. \<forall>py\<in>{ct..<ch}. \<exists>lx ly.
       logical_point cp (Inst px) (Inst py) = Inr (Some (lx, ly)) \<and>
       (\<forall>i<length (vl_placements l).
          rect_contains (vp_geometry (vl_placements l ! i)) lx ly \<longleftrightarrow>
          rect_contains (vp_geometry (vl_placements (cp_physical_layout cp) ! i)) px py))"
proof -
  obtain cp where r: "project_viewport_layout (Inst l) (Inst rw) (Inst rh) (Inst cw) (Inst ch) (Inst ct) = Inr cp"
    and cp: "projection_of l cw ch ct cp"
    by (rule project_viewport_layout_ok [OF assms])
  have "\<exists>lx ly. logical_point cp (Inst px) (Inst py) = Inr (Some (lx, ly)) \<and>
       (\<forall>i<length (vl_placements l).
          rect_contains (vp_geometry (vl_placements l ! i)) lx ly \<longleftrightarrow>
          rect_contains (vp_geometry (vl_placements (cp_physical_layout cp) ! i)) px py)"
    if "px \<in> {0..<cw}" "py \<in> {ct..<ch}" for px py
  proof -
    from that have b: "0 \<le> px" "px < cw" "ct \<le> py" "py < ch" by simp_all
    obtain lx ly where lp: "logical_point cp (Inst px) (Inst py) = Inr (Some (lx, ly))"
      "axis_inverse (cp_horizontal cp) px = Inr lx" "axis_inverse (cp_vertical cp) py = Inr ly"
      by (rule logical_point_total [OF cp b])
    with projection_hit [OF cp _ b lp(2,3)] show ?thesis by blast
  qed
  moreover have "layout_slots (cp_physical_layout cp) = layout_slots l"
    using cp by (auto simp: projection_of_def drawn_def list_all2_conv_all_nth intro: nth_equalityI)
  moreover have "viewport_layout_wf (cp_physical_layout cp)" using cp by (simp add: projection_of_def)
  ultimately show ?thesis using r by blast
qed

theorem projection_hits_what_is_drawn_witness:
  "\<exists>cp. project_viewport_layout
      (Inst \<lparr>vl_placements = [\<lparr>vp_logical_slot = 1, vp_geometry =
        \<lparr>vg_x = 0, vg_y = 0, vg_width = 1000, vg_height = 1000, vg_z_index = 0\<rparr>\<rparr>]\<rparr>)
      (Inst 1920) (Inst 1080) (Inst 640) (Inst 480) (Inst 40) = Inr cp \<and>
      layout_slots (cp_physical_layout cp) = [1]"
proof -
  let ?l = "\<lparr>vl_placements = [\<lparr>vp_logical_slot = 1, vp_geometry =
        \<lparr>vg_x = 0, vg_y = 0, vg_width = 1000, vg_height = 1000, vg_z_index = 0\<rparr>\<rparr>]\<rparr>"
  have "viewport_layout_wf ?l" "client_bounds_ok 1920 1080 640 480 40"
    by (simp_all add: viewport_layout_wf_def viewport_placement_wf_def viewport_geometry_wf_def slot_ok_def
        client_bounds_ok_def)
  from projection_hits_what_is_drawn [OF this] show ?thesis by force
qed

end
