(* ===== verification/Presentation_Frame.thy ===== *)
theory Presentation_Frame
  imports Viewport_Geometry
begin

text \<open>
  \<open>src/src/k5vision/media/presentation_frame.py\<close>: the validated transient frame that crosses
  into a renderer. \<open>PixelFormat\<close> has the one member \<open>BGRx\<close>.
\<close>

abbreviation max_frame_dimension :: int where "max_frame_dimension \<equiv> 16384"
abbreviation max_frame_payload :: int where "max_frame_payload \<equiv> 134217728"
abbreviation max_source_elapsed_ms :: int where "max_source_elapsed_ms \<equiv> 2147483647"

datatype pixel_format = BGRX

datatype presentation_frame_error =
    Frame_INVALID_TIMING
  | Frame_INVALID_GEOMETRY
  | Frame_INVALID_STRIDE
  | Frame_INVALID_PAYLOAD
  | Frame_UNSUPPORTED_FORMAT

record presentation_frame =
  pf_payload :: "byte list"
  pf_width :: int
  pf_height :: int
  pf_stride_bytes :: int
  pf_pixel_format :: pixel_format
  pf_source_elapsed_ms :: int

record presentation_frame_metadata =
  pm_width :: int
  pm_height :: int
  pm_stride_bytes :: int
  pm_pixel_format :: pixel_format
  pm_source_elapsed_ms :: int
  pm_byte_length :: int

fun mk_presentation_frame ::
  "byte list dyn \<Rightarrow> int \<Rightarrow> int \<Rightarrow> int \<Rightarrow> pixel_format dyn \<Rightarrow> int \<Rightarrow>
   presentation_frame_error + presentation_frame" where
  "mk_presentation_frame NotInst _ _ _ _ _ = Inl Frame_INVALID_PAYLOAD"
| "mk_presentation_frame (Inst payload) _ _ _ NotInst _ = Inl Frame_UNSUPPORTED_FORMAT"
| "mk_presentation_frame (Inst payload) width height stride_bytes (Inst fmt) source_elapsed_ms =
     (if \<not> (0 \<le> source_elapsed_ms \<and> source_elapsed_ms \<le> max_source_elapsed_ms)
      then Inl Frame_INVALID_TIMING
      else if \<not> (1 \<le> width \<and> width \<le> max_frame_dimension) \<or>
              \<not> (1 \<le> height \<and> height \<le> max_frame_dimension)
      then Inl Frame_INVALID_GEOMETRY
      else if \<not> (width * 4 \<le> stride_bytes \<and> stride_bytes \<le> max_frame_payload)
      then Inl Frame_INVALID_STRIDE
      else if \<not> (1 \<le> stride_bytes * height \<and> stride_bytes * height \<le> max_frame_payload) \<or>
              len payload \<noteq> stride_bytes * height
      then Inl Frame_INVALID_PAYLOAD
      else Inr \<lparr>pf_payload = payload, pf_width = width, pf_height = height,
                pf_stride_bytes = stride_bytes, pf_pixel_format = fmt,
                pf_source_elapsed_ms = source_elapsed_ms\<rparr>)"

definition frame_metadata :: "presentation_frame \<Rightarrow> validation_error + presentation_frame_metadata" where
  "frame_metadata f =
     (if 1 \<le> pf_width f \<and> pf_width f \<le> max_frame_dimension \<and>
         1 \<le> pf_height f \<and> pf_height f \<le> max_frame_dimension \<and>
         4 \<le> pf_stride_bytes f \<and> pf_stride_bytes f \<le> max_frame_payload \<and>
         0 \<le> pf_source_elapsed_ms f \<and> pf_source_elapsed_ms f \<le> max_source_elapsed_ms \<and>
         1 \<le> len (pf_payload f) \<and> len (pf_payload f) \<le> max_frame_payload
      then Inr \<lparr>pm_width = pf_width f, pm_height = pf_height f, pm_stride_bytes = pf_stride_bytes f,
                pm_pixel_format = pf_pixel_format f, pm_source_elapsed_ms = pf_source_elapsed_ms f,
                pm_byte_length = len (pf_payload f)\<rparr>
      else Inl ValidationError)"

definition presentation_frame_wf :: "presentation_frame \<Rightarrow> bool" where
  "presentation_frame_wf f \<longleftrightarrow>
     0 \<le> pf_source_elapsed_ms f \<and> pf_source_elapsed_ms f \<le> max_source_elapsed_ms \<and>
     1 \<le> pf_width f \<and> pf_width f \<le> max_frame_dimension \<and>
     1 \<le> pf_height f \<and> pf_height f \<le> max_frame_dimension \<and>
     pf_width f * 4 \<le> pf_stride_bytes f \<and> pf_stride_bytes f \<le> max_frame_payload \<and>
     len (pf_payload f) = pf_stride_bytes f * pf_height f \<and>
     1 \<le> len (pf_payload f) \<and> len (pf_payload f) \<le> max_frame_payload"

lemma mk_presentation_frame_wf:
  "mk_presentation_frame pl w h s fmt t = Inr f \<Longrightarrow> presentation_frame_wf f"
  by (cases pl; cases fmt) (auto simp: presentation_frame_wf_def split: if_splits)

text \<open>Every pixel of a row lies inside the payload: the last byte a renderer reads is in range.\<close>

lemma frame_pixel_in_payload:
  assumes wf: "presentation_frame_wf f" and x: "0 \<le> x" "x < pf_width f" and y: "0 \<le> y" "y < pf_height f"
  shows "0 \<le> y * pf_stride_bytes f + x * 4" and "y * pf_stride_bytes f + x * 4 + 3 < len (pf_payload f)"
proof -
  have s: "pf_width f * 4 \<le> pf_stride_bytes f" "len (pf_payload f) = pf_stride_bytes f * pf_height f"
    using wf by (simp_all add: presentation_frame_wf_def)
  have s0: "0 \<le> pf_stride_bytes f" using s(1) x by linarith
  have "0 \<le> y * pf_stride_bytes f" using y s0 by simp
  then show "0 \<le> y * pf_stride_bytes f + x * 4" using x by linarith
  have "(y + 1) * pf_stride_bytes f \<le> pf_height f * pf_stride_bytes f"
    using y s0 by (intro mult_right_mono) auto
  then show "y * pf_stride_bytes f + x * 4 + 3 < len (pf_payload f)"
    using x s by (simp add: algebra_simps)
qed

section \<open>Correctness\<close>

text \<open>
  A frame that passed the constructor's checks can be painted without reading outside its
  payload: the four bytes of every pixel of every row are inside it, and its metadata is valid.
\<close>

lemma frame_reads_in_bounds:
  assumes "mk_presentation_frame payload w h stride fmt t = Inr f"
  shows "(\<forall>x\<in>{0..<w}. \<forall>y\<in>{0..<h}. 0 \<le> y * stride + x * 4 \<and> y * stride + x * 4 + 3 < len (pf_payload f)) \<and>
    (\<exists>m. frame_metadata f = Inr m \<and> pm_byte_length m = stride * h)"
proof -
  have wf: "presentation_frame_wf f" using assms by (rule mk_presentation_frame_wf)
  from assms have eq: "pf_width f = w" "pf_height f = h" "pf_stride_bytes f = stride"
    by (cases payload; cases fmt; auto split: if_splits)+
  from wf have "\<exists>m. frame_metadata f = Inr m \<and> pm_byte_length m = stride * h"
    by (auto simp: frame_metadata_def presentation_frame_wf_def eq)
  with frame_pixel_in_payload [OF wf] show ?thesis by (auto simp: eq)
qed

lemma frame_reads_in_bounds_witness:
  "\<exists>f. mk_presentation_frame (Inst (replicate 16 0)) 1 2 8 (Inst BGRX) 40 = Inr f \<and>
     1 * 8 + 0 * 4 + 3 < len (pf_payload f)"
proof -
  obtain f where f: "mk_presentation_frame (Inst (replicate 16 0)) 1 2 8 (Inst BGRX) 40 = Inr f" by simp
  from frame_reads_in_bounds [OF f]
  have "\<forall>x\<in>{0..<1}. \<forall>y\<in>{0..<2}. 0 \<le> y * 8 + x * 4 \<and> y * 8 + x * 4 + 3 < len (pf_payload f)" by blast
  from bspec [OF bspec [OF this, of 0], of 1] have "1 * 8 + 0 * 4 + 3 < len (pf_payload f)" by simp
  with f show ?thesis by blast
qed

end
