(* ===== verification/Viewport_Dispatch.thy ===== *)
theory Viewport_Dispatch
  imports Presentation_Frame
begin

text \<open>
  \<open>src/src/k5vision/media/viewport_dispatch.py\<close>: \<open>BoundedViewportDispatcher\<close> hands each frame to
  the consumer registered for its slot and keeps aggregate counters only.

  A consumer is a parameter: it takes the frame and the state \<open>'w\<close> of the world outside the
  dispatcher, and gives what the awaited call did. Every method runs under the dispatcher's
  lock, so methods are sequential. A timeout is a rational number of seconds.
\<close>

abbreviation max_viewports :: int where "max_viewports \<equiv> 64"
abbreviation max_dispatch_frames :: int where "max_dispatch_frames \<equiv> 1000000"
abbreviation max_dispatch_frame_bytes :: int where "max_dispatch_frame_bytes \<equiv> 268435456"
abbreviation max_dispatch_total_bytes :: int where "max_dispatch_total_bytes \<equiv> 17179869184"
abbreviation max_source_span_ms :: int where "max_source_span_ms \<equiv> 2147483647"

type_synonym 'w viewport_consumer = "presentation_frame \<Rightarrow> 'w \<Rightarrow> unit awaited \<times> 'w"

datatype dispatch_state = Dispatch_OPEN | Dispatch_FAILED | Dispatch_CLOSED

datatype dispatch_error_code =
    Dispatch_INVALID_STATE
  | Dispatch_INVALID_BINDINGS
  | Dispatch_UNKNOWN_SLOT
  | Dispatch_INVALID_FRAME
  | Dispatch_FRAME_LIMIT
  | Dispatch_FRAME_BYTES_LIMIT
  | Dispatch_TOTAL_BYTES_LIMIT
  | Dispatch_CONSUMER_TIMEOUT
  | Dispatch_CONSUMER_FAILURE

datatype dispatch_exn =
    ViewportDispatchError dispatch_error_code
  | Dispatch_ValueError
  | Dispatch_TypeError
  | Dispatch_CancelledError
  | Dispatch_ValidationError

record 'w viewport_binding =
  vb_slot :: int
  vb_consumer :: "'w viewport_consumer"

fun mk_viewport_binding :: "int \<Rightarrow> 'w viewport_consumer dyn \<Rightarrow> dispatch_exn + 'w viewport_binding" where
  "mk_viewport_binding slot consumer =
     (if \<not> (0 \<le> slot \<and> slot \<le> 4095) then Inl Dispatch_ValueError
      else case consumer of
        NotInst \<Rightarrow> Inl Dispatch_TypeError
      | Inst c \<Rightarrow> Inr \<lparr>vb_slot = slot, vb_consumer = c\<rparr>)"

record 'w dispatcher =
  vd_consumers :: "int \<rightharpoonup> 'w viewport_consumer"
  vd_viewport_count :: int
  vd_max_total_frames :: int
  vd_max_frame_bytes :: int
  vd_max_total_frame_bytes :: int
  vd_consumer_timeout :: rat
  vd_state :: dispatch_state
  vd_delivered_frames :: int
  vd_delivered_frame_bytes :: int
  vd_max_source_span_ms :: int

record dispatch_snapshot =
  ds_state :: dispatch_state
  ds_viewport_count :: int
  ds_delivered_frames :: int
  ds_delivered_frame_bytes :: int
  ds_max_source_span_ms :: int

section \<open>Operations\<close>

definition dispatcher_init ::
  "'w viewport_binding dyn list \<Rightarrow> int \<Rightarrow> int \<Rightarrow> int \<Rightarrow> int \<Rightarrow> rat \<Rightarrow> dispatch_exn + 'w dispatcher" where
  "dispatcher_init bindings limit_viewports limit_frames limit_frame_bytes limit_total_bytes timeout =
     (if \<not> (1 \<le> limit_viewports \<and> limit_viewports \<le> max_viewports) then Inl Dispatch_ValueError
      else if \<not> (1 \<le> limit_frames \<and> limit_frames \<le> max_dispatch_frames) then Inl Dispatch_ValueError
      else if \<not> (1 \<le> limit_frame_bytes \<and> limit_frame_bytes \<le> max_dispatch_frame_bytes) then Inl Dispatch_ValueError
      else if \<not> (1 \<le> limit_total_bytes \<and> limit_total_bytes \<le> max_dispatch_total_bytes) then Inl Dispatch_ValueError
      else if \<not> (0 < timeout \<and> timeout \<le> 10) then Inl Dispatch_ValueError
      else if \<not> (1 \<le> len bindings \<and> len bindings \<le> limit_viewports)
      then Inl (ViewportDispatchError Dispatch_INVALID_BINDINGS)
      else case dyn_insts bindings of
        None \<Rightarrow> Inl (ViewportDispatchError Dispatch_INVALID_BINDINGS)
      | Some selected \<Rightarrow>
          (if card (set (map vb_slot selected)) \<noteq> length (map vb_slot selected)
           then Inl (ViewportDispatchError Dispatch_INVALID_BINDINGS)
           else Inr \<lparr>vd_consumers = foldl (\<lambda>m b. m(vb_slot b \<mapsto> vb_consumer b)) Map.empty selected,
                     vd_viewport_count = len (remdups (map vb_slot selected)),
                     vd_max_total_frames = limit_frames, vd_max_frame_bytes = limit_frame_bytes,
                     vd_max_total_frame_bytes = limit_total_bytes, vd_consumer_timeout = timeout,
                     vd_state = Dispatch_OPEN, vd_delivered_frames = 0, vd_delivered_frame_bytes = 0,
                     vd_max_source_span_ms = 0\<rparr>))"

definition dispatcher_snapshot :: "'w dispatcher \<Rightarrow> dispatch_exn + dispatch_snapshot" where
  "dispatcher_snapshot d =
     (if 0 \<le> vd_viewport_count d \<and> vd_viewport_count d \<le> max_viewports \<and>
         0 \<le> vd_delivered_frames d \<and> vd_delivered_frames d \<le> max_dispatch_frames \<and>
         0 \<le> vd_delivered_frame_bytes d \<and> vd_delivered_frame_bytes d \<le> max_dispatch_total_bytes \<and>
         0 \<le> vd_max_source_span_ms d \<and> vd_max_source_span_ms d \<le> max_source_span_ms
      then Inr \<lparr>ds_state = vd_state d, ds_viewport_count = vd_viewport_count d,
                ds_delivered_frames = vd_delivered_frames d,
                ds_delivered_frame_bytes = vd_delivered_frame_bytes d,
                ds_max_source_span_ms = vd_max_source_span_ms d\<rparr>
      else Inl Dispatch_ValidationError)"

definition dispatcher_fail :: "'w dispatcher \<Rightarrow> 'w dispatcher" where
  "dispatcher_fail d = d\<lparr>vd_state := Dispatch_FAILED, vd_consumers := Map.empty\<rparr>"

definition dispatch ::
  "'w dispatcher \<Rightarrow> int \<Rightarrow> presentation_frame dyn \<Rightarrow> 'w \<Rightarrow> (dispatch_exn + unit) \<times> 'w dispatcher \<times> 'w" where
  "dispatch d slot frame w =
     (if vd_state d \<noteq> Dispatch_OPEN then (Inl (ViewportDispatchError Dispatch_INVALID_STATE), d, w)
      else case vd_consumers d slot of
        None \<Rightarrow> (Inl (ViewportDispatchError Dispatch_UNKNOWN_SLOT), d, w)
      | Some consumer \<Rightarrow>
          (case frame of
             NotInst \<Rightarrow> (Inl (ViewportDispatchError Dispatch_INVALID_FRAME), d, w)
           | Inst f \<Rightarrow>
               (let frame_bytes = len (pf_payload f) in
                if vd_max_total_frames d \<le> vd_delivered_frames d
                then (Inl (ViewportDispatchError Dispatch_FRAME_LIMIT), dispatcher_fail d, w)
                else if vd_max_frame_bytes d < frame_bytes
                then (Inl (ViewportDispatchError Dispatch_FRAME_BYTES_LIMIT), dispatcher_fail d, w)
                else if vd_max_total_frame_bytes d < vd_delivered_frame_bytes d + frame_bytes
                then (Inl (ViewportDispatchError Dispatch_TOTAL_BYTES_LIMIT), dispatcher_fail d, w)
                else case consumer f w of
                  (Cancelled, w') \<Rightarrow> (Inl Dispatch_CancelledError, d, w')
                | (TimedOut, w') \<Rightarrow>
                    (Inl (ViewportDispatchError Dispatch_CONSUMER_TIMEOUT), dispatcher_fail d, w')
                | (Raised, w') \<Rightarrow>
                    (Inl (ViewportDispatchError Dispatch_CONSUMER_FAILURE), dispatcher_fail d, w')
                | (Returned _, w') \<Rightarrow>
                    (Inr (),
                     d\<lparr>vd_delivered_frames := vd_delivered_frames d + 1,
                       vd_delivered_frame_bytes := vd_delivered_frame_bytes d + frame_bytes,
                       vd_max_source_span_ms := max (vd_max_source_span_ms d) (pf_source_elapsed_ms f)\<rparr>,
                     w'))))"

definition dispatcher_close :: "'w dispatcher \<Rightarrow> (dispatch_exn + dispatch_snapshot) \<times> 'w dispatcher" where
  "dispatcher_close d =
     (let d1 = d\<lparr>vd_consumers := Map.empty\<rparr>;
          d2 = (if vd_state d1 = Dispatch_OPEN then d1\<lparr>vd_state := Dispatch_CLOSED\<rparr> else d1)
      in (dispatcher_snapshot d2, d2))"

datatype dispatch_event = DDispatch int "presentation_frame dyn" | DClose

fun dispatcher_step :: "'w dispatcher \<times> 'w \<Rightarrow> dispatch_event \<Rightarrow> 'w dispatcher \<times> 'w" where
  "dispatcher_step (d, w) (DDispatch slot frame) = snd (dispatch d slot frame w)"
| "dispatcher_step (d, w) DClose = (snd (dispatcher_close d), w)"

definition dispatcher_run :: "'w dispatcher \<times> 'w \<Rightarrow> dispatch_event list \<Rightarrow> 'w dispatcher \<times> 'w" where
  "dispatcher_run = foldl dispatcher_step"

section \<open>Invariant\<close>

text \<open>
  The counters stay inside the limits the dispatcher was built with, and only an open
  dispatcher holds consumers.
\<close>

definition dispatcher_inv :: "'w dispatcher \<Rightarrow> bool" where
  "dispatcher_inv d \<longleftrightarrow>
     0 \<le> vd_viewport_count d \<and> vd_viewport_count d \<le> max_viewports \<and>
     vd_max_total_frames d \<le> max_dispatch_frames \<and>
     vd_max_total_frame_bytes d \<le> max_dispatch_total_bytes \<and>
     0 \<le> vd_delivered_frames d \<and> vd_delivered_frames d \<le> vd_max_total_frames d \<and>
     0 \<le> vd_delivered_frame_bytes d \<and> vd_delivered_frame_bytes d \<le> vd_max_total_frame_bytes d \<and>
     0 \<le> vd_max_source_span_ms d \<and> vd_max_source_span_ms d \<le> max_source_span_ms \<and>
     (vd_state d \<noteq> Dispatch_OPEN \<longrightarrow> vd_consumers d = Map.empty)"

lemma dispatcher_init_inv:
  assumes "dispatcher_init bs mv mf mb mt t = Inr d"
  shows "dispatcher_inv d" and "vd_state d = Dispatch_OPEN"
proof -
  from assms obtain sel where sel: "dyn_insts bs = Some sel" "len bs \<le> mv" "mv \<le> max_viewports"
    "1 \<le> mf" "mf \<le> max_dispatch_frames" "1 \<le> mt" "mt \<le> max_dispatch_total_bytes"
    and d: "vd_viewport_count d = len (remdups (map vb_slot sel))" "vd_max_total_frames d = mf"
      "vd_max_total_frame_bytes d = mt" "vd_state d = Dispatch_OPEN" "vd_delivered_frames d = 0"
      "vd_delivered_frame_bytes d = 0" "vd_max_source_span_ms d = 0"
    by (auto simp: dispatcher_init_def split: if_splits option.splits)
  from sel(1) have "length sel = length bs" by (simp add: dyn_insts_Some)
  with length_remdups_leq [of "map vb_slot sel"] have "len (remdups (map vb_slot sel)) \<le> len bs" by simp
  with sel d show "dispatcher_inv d" "vd_state d = Dispatch_OPEN"
    by (simp_all add: dispatcher_inv_def)
qed

lemma dispatcher_snapshot_total: "dispatcher_inv d \<Longrightarrow> \<exists>s. dispatcher_snapshot d = Inr s \<and> ds_state s = vd_state d"
  by (auto simp: dispatcher_snapshot_def dispatcher_inv_def)

lemma dispatcher_fail_inv: "dispatcher_inv d \<Longrightarrow> dispatcher_inv (dispatcher_fail d)"
  by (simp add: dispatcher_inv_def dispatcher_fail_def)

text \<open>A dispatch refuses, fails the dispatcher, is cancelled, or delivers the one frame.\<close>

lemma dispatch_cases:
  obtains (refused) "snd (dispatch d slot frame w) = (d, w)"
  | (failed) w' where "snd (dispatch d slot frame w) = (dispatcher_fail d, w')"
  | (cancelled) c f w' where "vd_consumers d slot = Some c" "frame = Inst f" "c f w = (Cancelled, w')"
      "snd (dispatch d slot frame w) = (d, w')"
  | (delivered) c f w' where "vd_state d = Dispatch_OPEN" "vd_consumers d slot = Some c" "frame = Inst f"
      "c f w = (Returned (), w')"
      "vd_delivered_frames d < vd_max_total_frames d" "len (pf_payload f) \<le> vd_max_frame_bytes d"
      "vd_delivered_frame_bytes d + len (pf_payload f) \<le> vd_max_total_frame_bytes d"
      "dispatch d slot frame w =
         (Inr (), d\<lparr>vd_delivered_frames := vd_delivered_frames d + 1,
            vd_delivered_frame_bytes := vd_delivered_frame_bytes d + len (pf_payload f),
            vd_max_source_span_ms := max (vd_max_source_span_ms d) (pf_source_elapsed_ms f)\<rparr>, w')"
proof (cases "vd_state d = Dispatch_OPEN")
  case False
  then show ?thesis using refused by (simp add: dispatch_def)
next
  case op: True
  show ?thesis
  proof (cases "vd_consumers d slot")
    case None
    then show ?thesis using op refused by (simp add: dispatch_def)
  next
    case c: (Some c)
    show ?thesis
    proof (cases frame)
      case NotInst
      then show ?thesis using op c refused by (simp add: dispatch_def)
    next
      case f: (Inst f)
      show ?thesis
      proof (cases "vd_max_total_frames d \<le> vd_delivered_frames d \<or> vd_max_frame_bytes d < len (pf_payload f) \<or>
          vd_max_total_frame_bytes d < vd_delivered_frame_bytes d + len (pf_payload f)")
        case True
        then show ?thesis using op c f failed by (auto simp: dispatch_def Let_def)
      next
        case False
        obtain r w' where r: "c f w = (r, w')" by (cases "c f w")
        have eq: "dispatch d slot frame w = (case r of
            Cancelled \<Rightarrow> (Inl Dispatch_CancelledError, d, w')
          | TimedOut \<Rightarrow> (Inl (ViewportDispatchError Dispatch_CONSUMER_TIMEOUT), dispatcher_fail d, w')
          | Raised \<Rightarrow> (Inl (ViewportDispatchError Dispatch_CONSUMER_FAILURE), dispatcher_fail d, w')
          | Returned _ \<Rightarrow> (Inr (), d\<lparr>vd_delivered_frames := vd_delivered_frames d + 1,
              vd_delivered_frame_bytes := vd_delivered_frame_bytes d + len (pf_payload f),
              vd_max_source_span_ms := max (vd_max_source_span_ms d) (pf_source_elapsed_ms f)\<rparr>, w'))"
          using op c f r False by (cases r) (simp_all add: dispatch_def Let_def)
        show ?thesis
        proof (cases r)
          case (Returned u)
          with r have rw: "c f w = (Returned (), w')" by simp
          from eq Returned False show ?thesis
            by (intro delivered [OF op c f rw]) auto
        qed (use eq r c f failed cancelled in auto)
      qed
    qed
  qed
qed

text \<open>Frames come from the validating constructor, so their timing is in range.\<close>

fun frame_ok :: "presentation_frame dyn \<Rightarrow> bool" where
  "frame_ok (Inst f) = presentation_frame_wf f"
| "frame_ok NotInst = True"

lemma dispatch_inv [k5_wf]:
  assumes inv: "dispatcher_inv d" and ok: "frame_ok frame"
  shows "dispatcher_inv (fst (snd (dispatch d slot frame w)))"
proof (cases rule: dispatch_cases [where d = d and slot = slot and frame = frame and w = w])
  case (delivered c f w')
  with inv ok show ?thesis
    by (auto simp: dispatcher_inv_def presentation_frame_wf_def max_def)
qed (simp_all add: inv dispatcher_fail_inv)

lemma dispatcher_close_inv [k5_wf]: "dispatcher_inv d \<Longrightarrow> dispatcher_inv (snd (dispatcher_close d))"
  by (auto simp: dispatcher_close_def dispatcher_inv_def Let_def)

fun dispatch_event_ok :: "dispatch_event \<Rightarrow> bool" where
  "dispatch_event_ok (DDispatch slot frame) = frame_ok frame"
| "dispatch_event_ok DClose = True"

lemma dispatcher_step_inv:
  "dispatcher_inv (fst s) \<Longrightarrow> dispatch_event_ok e \<Longrightarrow> dispatcher_inv (fst (dispatcher_step s e))"
  by (cases s; cases e) (auto intro: dispatch_inv dispatcher_close_inv)

lemma dispatcher_run_inv:
  "dispatcher_inv (fst s) \<Longrightarrow> list_all dispatch_event_ok es \<Longrightarrow> dispatcher_inv (fst (dispatcher_run s es))"
  unfolding dispatcher_run_def
  by (induction es arbitrary: s) (simp_all add: dispatcher_step_inv)

text \<open>Once it is not open, a dispatcher calls no consumer and keeps its counters.\<close>

lemma dispatcher_not_open_step:
  assumes "vd_state d \<noteq> Dispatch_OPEN" and "vd_consumers d = Map.empty"
  shows "dispatcher_step (d, w) e = (d, w)"
proof (cases e)
  case DClose
  with assms show ?thesis by (simp add: dispatcher_close_def Let_def)
qed (use assms in \<open>simp add: dispatch_def\<close>)

section \<open>Correctness\<close>

lemma dispatcher_step_keeps:
  "vd_max_total_frames (fst (dispatcher_step s e)) = vd_max_total_frames (fst s) \<and>
   vd_max_total_frame_bytes (fst (dispatcher_step s e)) = vd_max_total_frame_bytes (fst s)"
proof (cases s; cases e)
  fix d w slot frame
  assume s: "s = (d, w)" and e: "e = DDispatch slot frame"
  show ?thesis
    by (cases rule: dispatch_cases [where d = d and slot = slot and frame = frame and w = w])
      (simp_all add: s e dispatcher_fail_def)
qed (simp add: dispatcher_close_def Let_def)

text \<open>
  Over any run of dispatches and closes, with consumers that may return, raise, time out or
  be cancelled, the counters never exceed the configured limits, only an open dispatcher holds
  consumers, and the snapshot never raises.
\<close>

lemma dispatcher_run_bounded:
  assumes "dispatcher_init bindings limit_viewports limit_frames limit_frame_bytes limit_total_bytes timeout = Inr d"
    and "list_all dispatch_event_ok es"
  shows "let d' = fst (dispatcher_run (d, w) es) in
    0 \<le> vd_delivered_frames d' \<and> vd_delivered_frames d' \<le> limit_frames \<and>
    0 \<le> vd_delivered_frame_bytes d' \<and> vd_delivered_frame_bytes d' \<le> limit_total_bytes \<and>
    (vd_state d' = Dispatch_OPEN \<or> vd_consumers d' = Map.empty) \<and> (\<exists>s. dispatcher_snapshot d' = Inr s)"
proof -
  have inv: "dispatcher_inv (fst (dispatcher_run (d, w) es))"
    by (rule dispatcher_run_inv) (use dispatcher_init_inv(1) [OF assms(1)] assms(2) in simp_all)
  have keep: "vd_max_total_frames (fst (dispatcher_run s es)) = vd_max_total_frames (fst s) \<and>
      vd_max_total_frame_bytes (fst (dispatcher_run s es)) = vd_max_total_frame_bytes (fst s)" for s
    unfolding dispatcher_run_def by (induction es arbitrary: s) (simp_all add: dispatcher_step_keeps)
  from assms(1) have "vd_max_total_frames d = limit_frames" "vd_max_total_frame_bytes d = limit_total_bytes"
    by (auto simp: dispatcher_init_def split: if_splits option.splits)
  with keep [of "(d, w)"] inv dispatcher_snapshot_total [OF inv] show ?thesis
    by (auto simp: dispatcher_inv_def Let_def)
qed

definition sample_frame :: presentation_frame where
  "sample_frame = \<lparr>pf_payload = [0, 0, 0, 0], pf_width = 1, pf_height = 1, pf_stride_bytes = 4,
     pf_pixel_format = BGRX, pf_source_elapsed_ms = 40\<rparr>"

definition sample_bindings :: "nat viewport_binding dyn list" where
  "sample_bindings = [Inst \<lparr>vb_slot = 7, vb_consumer = (\<lambda>f n. (Returned (), n + 1))\<rparr>]"

lemma dispatcher_run_bounded_witness:
  "\<exists>d. dispatcher_init sample_bindings 1 1 4 4 (1 / 2) = Inr d \<and>
     vd_delivered_frames (fst (dispatcher_run (d, 0) [DDispatch 7 (Inst sample_frame), DDispatch 7 (Inst sample_frame)])) \<le> 1"
proof -
  obtain d where d: "dispatcher_init sample_bindings 1 1 4 4 (1 / 2) = Inr d"
    by (simp add: dispatcher_init_def sample_bindings_def)
  have "list_all dispatch_event_ok [DDispatch 7 (Inst sample_frame), DDispatch 7 (Inst sample_frame)]"
    by (simp add: presentation_frame_wf_def sample_frame_def)
  from dispatcher_run_bounded [OF d this, of 0] d show ?thesis by (simp add: Let_def)
qed

text \<open>
  Once a dispatcher has failed or was closed, no later event calls a consumer, changes a
  counter or changes the state: the outside world sees nothing any more.
\<close>

lemma dispatcher_stopped_is_silent:
  assumes "dispatcher_inv d" and "vd_state d \<noteq> Dispatch_OPEN"
  shows "dispatcher_run (d, w) es = (d, w)"
proof -
  have "dispatcher_step (d, w) e = (d, w)" for e
    by (rule dispatcher_not_open_step) (use assms in \<open>simp_all add: dispatcher_inv_def\<close>)
  then show ?thesis unfolding dispatcher_run_def by (induction es) simp_all
qed

lemma dispatcher_stopped_is_silent_witness:
  "\<exists>d. dispatcher_init sample_bindings 1 1 4 4 (1 / 2) = Inr d \<and>
     snd (dispatcher_run (snd (dispatcher_close d), 5) [DDispatch 7 (Inst sample_frame), DClose]) = 5"
proof -
  obtain d where d: "dispatcher_init sample_bindings 1 1 4 4 (1 / 2) = Inr d"
    by (simp add: dispatcher_init_def sample_bindings_def)
  from dispatcher_init_inv [OF d] have "dispatcher_inv (snd (dispatcher_close d))"
    "vd_state (snd (dispatcher_close d)) \<noteq> Dispatch_OPEN"
    by (simp_all add: dispatcher_close_inv) (simp add: dispatcher_close_def Let_def)
  from dispatcher_stopped_is_silent [OF this, of 5] d show ?thesis by simp
qed

end
