(* ===== verification/Py_Float.thy ===== *)
theory Py_Float
  imports Complex_Main
begin

text \<open>
  The Python float arithmetic that the recording descriptor uses, exactly: an IEEE binary64
  number is a mantissa and a binary exponent, every operation rounds the exact rational result
  to 53 bits, ties to even. Only positive numbers in the normal range occur.
\<close>

section \<open>Rounding a positive rational to 53 bits\<close>

text \<open>Scale \<open>p / q\<close> by powers of two until \<open>2 ^ 52 \<le> p / q < 2 ^ 53\<close>; \<open>e\<close> counts the scale back.\<close>

function f64_norm :: "int \<Rightarrow> int \<Rightarrow> int \<Rightarrow> int \<times> int \<times> int" where
  "f64_norm p q e =
     (if p < 1 \<or> q < 1 then (p, q, e)
      else if p < 4503599627370496 * q then f64_norm (2 * p) q (e - 1)
      else if 9007199254740992 * q \<le> p then f64_norm p (2 * q) (e + 1)
      else (p, q, e))"
  by pat_completeness auto
termination
  by (relation "measure (\<lambda>(p, q, e). nat (4503599627370496 * q - p) + nat (p - 9007199254740992 * q + 1))") auto

declare f64_norm.simps [simp del]

definition round_half_even :: "int \<Rightarrow> int \<Rightarrow> int" where
  "round_half_even p q =
     (let f = p div q; r = p mod q
      in if 2 * r < q then f else if q < 2 * r then f + 1 else if even f then f else f + 1)"

definition f64_round :: "int \<Rightarrow> int \<Rightarrow> int \<times> int" where
  "f64_round p q = (let (p', q', e) = f64_norm p q 0 in (round_half_even p' q', e))"

text \<open>A float as an exact fraction, and \<open>int(x)\<close>, which cuts off the fraction.\<close>

definition f64_fraction :: "int \<times> int \<Rightarrow> int \<times> int" where
  "f64_fraction x = (let (m, e) = x in if 0 \<le> e then (m * 2 ^ nat e, 1) else (m, 2 ^ nat (- e)))"

definition f64_trunc :: "int \<times> int \<Rightarrow> int" where
  "f64_trunc x = (let (p, q) = f64_fraction x in p div q)"

definition f64_mult_int :: "int \<times> int \<Rightarrow> int \<Rightarrow> int \<times> int" where
  "f64_mult_int x k = (let (p, q) = f64_fraction x in f64_round (p * k) q)"

section \<open>Rounding error\<close>

definition f64_val :: "int \<times> int \<Rightarrow> real" where
  "f64_val x = of_int (fst x) * 2 powi (snd x)"

lemma f64_norm_spec:
  assumes "1 \<le> p" and "1 \<le> q"
  shows "case f64_norm p q e of (p', q', e') \<Rightarrow>
    1 \<le> q' \<and> 4503599627370496 * q' \<le> p' \<and> p' < 9007199254740992 * q' \<and>
    of_int p' / of_int q' * 2 powi e' = (of_int p / of_int q * 2 powi e :: real)"
  using assms
proof (induction p q e rule: f64_norm.induct)
  case (1 p q e)
  have half: "(2::real) powi (e - 1) = 2 powi e / 2" by (simp add: power_int_diff)
  have twice: "(2::real) powi (e + 1) = 2 powi e * 2" by (simp add: power_int_add)
  consider "p < 4503599627370496 * q" | "9007199254740992 * q \<le> p"
    | "4503599627370496 * q \<le> p" "p < 9007199254740992 * q" by linarith
  then show ?case
  proof cases
    case 1
    then have "f64_norm p q e = f64_norm (2 * p) q (e - 1)"
      using "1.prems" by (simp add: f64_norm.simps [of p q e])
    with "1.IH"(1) 1 "1.prems" half show ?thesis by (auto split: prod.splits)
  next
    case 2
    then have "f64_norm p q e = f64_norm p (2 * q) (e + 1)"
      using "1.prems" by (simp add: f64_norm.simps [of p q e])
    with "1.IH"(2) 2 "1.prems" twice show ?thesis by (auto split: prod.splits)
  next
    case 3
    with "1.prems" show ?thesis by (simp add: f64_norm.simps [of p q e])
  qed
qed

lemma round_half_even_error:
  assumes "1 \<le> q"
  shows "\<bar>of_int (round_half_even p q) - of_int p / of_int q\<bar> \<le> (1 / 2 :: real)"
proof -
  have q: "0 < (of_int q :: real)" using assms by simp
  have split: "of_int p / of_int q = (of_int (p div q) + of_int (p mod q) / of_int q :: real)"
    using q by (simp add: field_simps flip: of_int_mult of_int_add)
  have r: "0 \<le> p mod q" "p mod q < q" using assms by simp_all
  have below: "of_int (p mod q) / of_int q \<le> (1 / 2 :: real)" if "2 * (p mod q) \<le> q"
    using that q by (simp add: field_simps flip: of_int_mult) 
  have above: "(1 / 2 :: real) \<le> of_int (p mod q) / of_int q" if "q \<le> 2 * (p mod q)"
    using that q by (simp add: field_simps flip: of_int_mult)
  have bnd: "0 \<le> of_int (p mod q) / (of_int q :: real)" "of_int (p mod q) / of_int q < (1 :: real)"
    using r q by simp_all
  show ?thesis
    unfolding split round_half_even_def Let_def
    using below above bnd by (auto simp: abs_real_def)
qed

lemma f64_round_error:
  assumes "1 \<le> p" and "1 \<le> q"
  shows "\<bar>f64_val (f64_round p q) - of_int p / of_int q\<bar> \<le> of_int p / of_int q / 9007199254740992"
proof -
  obtain p' q' e where n: "f64_norm p q 0 = (p', q', e)" by (cases "f64_norm p q 0") auto
  from f64_norm_spec [OF assms, of 0] n have q': "1 \<le> q'" and lo: "4503599627370496 * q' \<le> p'"
    and val: "of_int p' / of_int q' * 2 powi e = (of_int p / of_int q :: real)" by simp_all
  have "(of_int (4503599627370496 * q') :: real) \<le> of_int p'" using lo by (simp only: of_int_le_iff)
  then have "4503599627370496 \<le> (of_int p' / of_int q' :: real)"
    using q' by (simp add: pos_le_divide_eq)
  then have half: "1 / 2 \<le> of_int p' / of_int q' / (9007199254740992 :: real)" by simp
  have pos: "0 \<le> (2 :: real) powi e" by simp
  define x where "x = (of_int p' / of_int q' :: real)"
  define w where "w = (2 :: real) powi e"
  have w: "0 \<le> w" by (simp add: w_def)
  have xw: "of_int p / of_int q = x * w" unfolding x_def w_def by (rule val [symmetric])
  have "f64_val (f64_round p q) = of_int (round_half_even p' q') * w"
    by (simp add: f64_round_def n f64_val_def w_def)
  then have "\<bar>f64_val (f64_round p q) - x * w\<bar> = \<bar>of_int (round_half_even p' q') - x\<bar> * w"
    using w by (simp add: abs_mult flip: left_diff_distrib)
  also have "\<dots> \<le> (x / 9007199254740992) * w"
    using order_trans [OF round_half_even_error [OF q', of p'] half] w
    by (intro mult_right_mono) (simp_all add: x_def)
  finally show ?thesis unfolding xw by simp
qed

lemma f64_fraction_val:
  assumes "f64_fraction x = (p, q)"
  shows "f64_val x = of_int p / of_int q" and "1 \<le> q"
proof -
  obtain m e where x: "x = (m, e)" by (cases x)
  have "f64_val x = of_int p / of_int q \<and> 1 \<le> q"
  proof (cases "0 \<le> e")
    case True
    with assms have "p = m * 2 ^ nat e" "q = 1" by (simp_all add: x f64_fraction_def)
    with True show ?thesis by (simp add: x f64_val_def power_int_def)
  next
    case False
    with assms have "p = m" "q = 2 ^ nat (- e)" by (simp_all add: x f64_fraction_def)
    with False show ?thesis by (simp add: x f64_val_def power_int_def field_simps)
  qed
  then show "f64_val x = of_int p / of_int q" "1 \<le> q" by simp_all
qed

lemma f64_trunc_floor: "f64_trunc x = \<lfloor>f64_val x\<rfloor>"
proof -
  obtain p q where pq: "f64_fraction x = (p, q)" by (cases "f64_fraction x")
  from f64_fraction_val [OF pq] show ?thesis
    by (simp add: f64_trunc_def pq floor_divide_of_int_eq)
qed

lemma f64_mult_int_error:
  assumes "0 < f64_val x" and "1 \<le> k"
  shows "\<bar>f64_val (f64_mult_int x k) - f64_val x * of_int k\<bar> \<le> f64_val x * of_int k / 9007199254740992"
proof -
  obtain p q where pq: "f64_fraction x = (p, q)" by (cases "f64_fraction x")
  note v = f64_fraction_val [OF pq]
  have "1 \<le> p" using assms(1) v by (simp add: zero_less_divide_iff)
  then have "1 * 1 \<le> p * k" using assms(2) by (intro mult_mono) auto
  from f64_round_error [of "p * k" q] this v(2) show ?thesis
    by (simp add: f64_mult_int_def pq v(1))
qed

section \<open>Rounding rational numbers\<close>

text \<open>
  What a computation on clock readings relies on: the relative error of a rounding is at most
  \<open>2 ^ -53\<close>. \<open>f64_rat\<close> is the rounding of binary64, with exponents that have no bounds.
\<close>

definition rounds_f64 :: "(rat \<Rightarrow> rat) \<Rightarrow> bool" where
  "rounds_f64 fl \<longleftrightarrow> (\<forall>x. \<bar>fl x - x\<bar> \<le> \<bar>x\<bar> / 9007199254740992)"

definition f64_rat :: "rat \<Rightarrow> rat" where
  "f64_rat x =
     (if x = 0 then 0
      else let (p, q) = quotient_of \<bar>x\<bar>; (m, r) = f64_fraction (f64_round p q) in sgn x * (of_int m / of_int r))"

lemma of_rat_abs: "(of_rat \<bar>a\<bar> :: real) = \<bar>of_rat a\<bar>"
  by (cases "0 \<le> a") (simp_all add: of_rat_minus zero_le_of_rat_iff)

lemma f64_rat_rounds: "rounds_f64 f64_rat"
  unfolding rounds_f64_def
proof
  fix x :: rat
  show "\<bar>f64_rat x - x\<bar> \<le> \<bar>x\<bar> / 9007199254740992"
  proof (cases "x = 0")
    case False
    obtain p q where pq: "quotient_of \<bar>x\<bar> = (p, q)" by fastforce
    obtain m r where mr: "f64_fraction (f64_round p q) = (m, r)" by fastforce
    let ?y = "of_int m / of_int r :: rat"
    have q: "1 \<le> q" using quotient_of_denom_pos [OF pq] by simp
    have x: "\<bar>x\<bar> = of_int p / of_int q" by (rule quotient_of_div [OF pq])
    with False q have "0 < (of_int p / of_int q :: rat)" by (metis zero_less_abs_iff)
    with q have p: "1 \<le> p" by (simp add: zero_less_divide_iff)
    have y: "of_rat ?y = f64_val (f64_round p q)" and px: "of_rat \<bar>x\<bar> = (of_int p / of_int q :: real)"
      using f64_fraction_val(1) [OF mr] by (simp_all add: x of_rat_divide )
    have "(of_rat \<bar>?y - \<bar>x\<bar>\<bar> :: real) \<le> of_rat \<bar>x\<bar> / 9007199254740992"
      unfolding of_rat_abs [of "?y - \<bar>x\<bar>"] of_rat_diff y px by (rule f64_round_error [OF p q])
    also have "\<dots> = of_rat (\<bar>x\<bar> / 9007199254740992)" by (simp only: of_rat_divide of_rat_numeral_eq)
    finally have "(of_rat \<bar>?y - \<bar>x\<bar>\<bar> :: real) \<le> of_rat (\<bar>x\<bar> / 9007199254740992)" .
    then have "\<bar>?y - \<bar>x\<bar>\<bar> \<le> \<bar>x\<bar> / 9007199254740992" by (simp only: of_rat_less_eq)
    moreover have "f64_rat x - x = sgn x * (?y - \<bar>x\<bar>)"
      using False by (simp add: f64_rat_def pq mr right_diff_distrib sgn_mult_abs)
    ultimately show ?thesis using False by (simp add: abs_mult abs_sgn_eq)
  qed (simp add: f64_rat_def)
qed

end
