(* ===== verification/Recording_Descriptor.thy ===== *)
theory Recording_Descriptor
  imports Viewport_Geometry Utf8 Py_Float
begin

text \<open>
  \<open>src/src/k5vision/media/recording_descriptor.py\<close>: the metadata contract between a finalized
  recording and its playback.

  A \<open>datetime\<close> is its wall clock, in microseconds since the start of year 1, and its UTC offset,
  \<open>None\<close> when it is naive. The four fields whose type is a one-value \<open>Literal\<close> are not in the
  record: they hold that value in every descriptor. The text of a descriptor and its parser are in
  \<open>Descriptor_Text\<close>.
\<close>

abbreviation format_magic_bytes :: int where "format_magic_bytes \<equiv> 8"
abbreviation record_overhead_bytes :: int where "record_overhead_bytes \<equiv> 8"
abbreviation max_recording_packets :: int where "max_recording_packets \<equiv> 1000000"
abbreviation max_payload_bytes :: int where "max_payload_bytes \<equiv> 8589934592"
abbreviation max_file_bytes :: int where
  "max_file_bytes \<equiv> format_magic_bytes + max_recording_packets * record_overhead_bytes + max_payload_bytes"
abbreviation max_descriptor_bytes :: int where "max_descriptor_bytes \<equiv> 4096"
abbreviation max_duration_ms :: int where "max_duration_ms \<equiv> 604800000"

datatype video_codec = H264 | H265 | JPEG

type_synonym uuid = "128 word"

record py_datetime =
  dt_microseconds :: int
  dt_utcoffset :: "int option"

record recording_descriptor =
  rd_recording_id :: uuid
  rd_source_id :: uuid
  rd_codec :: video_codec
  rd_payload_type :: int
  rd_clock_rate_hz :: int
  rd_started_at_utc :: py_datetime
  rd_ended_at_utc :: py_datetime
  rd_duration_ms :: int
  rd_rtp_timestamp_origin :: int
  rd_packet_count :: int
  rd_payload_bytes :: int
  rd_file_bytes :: int

section \<open>The validating constructor\<close>

definition descriptor_fields_ok :: "recording_descriptor \<Rightarrow> bool" where
  "descriptor_fields_ok d \<longleftrightarrow>
     0 \<le> rd_payload_type d \<and> rd_payload_type d \<le> 127 \<and>
     1 \<le> rd_clock_rate_hz d \<and> rd_clock_rate_hz d \<le> 192000 \<and>
     0 \<le> rd_duration_ms d \<and> rd_duration_ms d \<le> max_duration_ms \<and>
     0 \<le> rd_rtp_timestamp_origin d \<and> rd_rtp_timestamp_origin d \<le> 4294967295 \<and>
     0 \<le> rd_packet_count d \<and> rd_packet_count d \<le> max_recording_packets \<and>
     0 \<le> rd_payload_bytes d \<and> rd_payload_bytes d \<le> max_payload_bytes \<and>
     format_magic_bytes \<le> rd_file_bytes d \<and> rd_file_bytes d \<le> max_file_bytes"

definition utc_millisecond :: "py_datetime \<Rightarrow> bool" where
  "utc_millisecond t \<longleftrightarrow> dt_utcoffset t = Some 0 \<and> dt_microseconds t mod 1000000 mod 1000 = 0"

text \<open>
  \<open>int((end - start).total_seconds() * 1000)\<close> of a difference of \<open>us\<close> microseconds:
  \<open>total_seconds\<close> is the true division by \<open>10 ** 6\<close>, rounded to a float once, and the product
  is rounded again before it is cut to an integer.
\<close>

definition float_duration_ms :: "int \<Rightarrow> int" where
  "float_duration_ms us =
     (if us = 0 then 0 else f64_trunc (f64_mult_int (f64_round us 1000000) 1000))"

definition payload_type_ok :: "video_codec \<Rightarrow> int \<Rightarrow> bool" where
  "payload_type_ok codec pt \<longleftrightarrow>
     (if codec \<in> {H264, H265} then 96 \<le> pt \<and> pt \<le> 127
      else \<not> (codec = JPEG \<and> \<not> (pt = 26 \<or> 96 \<le> pt \<and> pt \<le> 127)))"

definition validate_contract :: "recording_descriptor \<Rightarrow> validation_error + recording_descriptor" where
  "validate_contract d =
     (let started = rd_started_at_utc d; ended = rd_ended_at_utc d in
      if \<not> utc_millisecond started \<or> \<not> utc_millisecond ended then Inl ValidationError
      else if dt_microseconds ended < dt_microseconds started then Inl ValidationError
      else if rd_duration_ms d \<noteq> float_duration_ms (dt_microseconds ended - dt_microseconds started)
      then Inl ValidationError
      else if \<not> payload_type_ok (rd_codec d) (rd_payload_type d) then Inl ValidationError
      else if rd_clock_rate_hz d \<noteq> 90000 then Inl ValidationError
      else if rd_file_bytes d \<noteq>
              format_magic_bytes + rd_packet_count d * record_overhead_bytes + rd_payload_bytes d
      then Inl ValidationError
      else if rd_packet_count d = 0
      then (if rd_payload_bytes d \<noteq> 0 \<or> rd_duration_ms d \<noteq> 0 then Inl ValidationError else Inr d)
      else if rd_payload_bytes d < rd_packet_count d * 12 then Inl ValidationError
      else Inr d)"

definition mk_recording_descriptor :: "recording_descriptor \<Rightarrow> validation_error + recording_descriptor" where
  "mk_recording_descriptor d =
     (if descriptor_fields_ok d then validate_contract d else Inl ValidationError)"

section \<open>Facts\<close>

definition recording_descriptor_wf :: "recording_descriptor \<Rightarrow> bool" where
  "recording_descriptor_wf d \<longleftrightarrow> mk_recording_descriptor d = Inr d"

lemma mk_recording_descriptor_Inr [k5_inv]:
  "mk_recording_descriptor d = Inr d' \<longleftrightarrow> d' = d \<and> recording_descriptor_wf d"
  unfolding recording_descriptor_wf_def
  by (auto simp: mk_recording_descriptor_def validate_contract_def Let_def split: if_splits)

lemma f64_round_pos:
  assumes "1 \<le> p" and "1 \<le> q"
  shows "0 < f64_val (f64_round p q)"
proof -
  have pos: "0 < v" if "\<bar>v - a\<bar> \<le> a / 9007199254740992" and "0 < a" for v a :: real
    using that by linarith
  show ?thesis by (rule pos [OF f64_round_error [OF assms]]) (use assms in simp)
qed

text \<open>
  The two roundings lose less than one millisecond, so the float computation gives the exact
  number of milliseconds or one less.
\<close>

lemma float_duration_ms_bounds:
  assumes "0 \<le> ms" and "ms \<le> max_duration_ms"
  shows "float_duration_ms (1000 * ms) = ms \<or> float_duration_ms (1000 * ms) = ms - 1"
proof (cases "ms = 0")
  case False
  define x where "x = f64_val (f64_round (1000 * ms) 1000000)"
  define y where "y = f64_val (f64_mult_int (f64_round (1000 * ms) 1000000) 1000)"
  define s where "s = (of_int ms / 1000 :: real)"
  have ms: "1 \<le> ms" "1 \<le> 1000 * ms" using assms False by simp_all
  have eps: "0 < s" "s \<le> 604800" using ms assms(2) by (simp_all add: s_def)
  have "\<bar>x - s\<bar> \<le> s / 9007199254740992"
    using f64_round_error [OF ms(2), of 1000000] by (simp add: x_def s_def)
  moreover have "s / 9007199254740992 \<le> 1 / 1000000000" using eps by simp
  ultimately have x: "\<bar>x - s\<bar> \<le> 1 / 1000000000" by linarith
  have "0 < x" unfolding x_def by (rule f64_round_pos) (use ms in simp_all)
  then have "\<bar>y - x * 1000\<bar> \<le> x * 1000 / 9007199254740992"
    unfolding x_def y_def using f64_mult_int_error [of "f64_round (1000 * ms) 1000000" 1000] by simp
  moreover have "x \<le> 604801" using x eps by linarith
  then have "x * 1000 / 9007199254740992 \<le> 1 / 1000" by simp
  ultimately have "\<bar>y - s * 1000\<bar> < 1" using x by linarith
  then have "of_int (ms - 1) < y" "y < of_int (ms + 1)" by (simp_all add: s_def)
  then have "ms - 1 \<le> \<lfloor>y\<rfloor>" "\<lfloor>y\<rfloor> < ms + 1" by (simp_all only: le_floor_iff floor_less_iff less_imp_le)
  then show ?thesis using False by (auto simp: float_duration_ms_def f64_trunc_floor y_def)
qed (simp add: float_duration_ms_def)

section \<open>Correctness\<close>


definition sample_descriptor :: "int \<Rightarrow> int \<Rightarrow> recording_descriptor" where
  "sample_descriptor us duration = \<lparr>rd_recording_id = 1, rd_source_id = 2, rd_codec = H264, rd_payload_type = 96,
     rd_clock_rate_hz = 90000, rd_started_at_utc = \<lparr>dt_microseconds = 0, dt_utcoffset = Some 0\<rparr>,
     rd_ended_at_utc = \<lparr>dt_microseconds = us, dt_utcoffset = Some 0\<rparr>, rd_duration_ms = duration,
     rd_rtp_timestamp_origin = 7, rd_packet_count = 2, rd_payload_bytes = 30, rd_file_bytes = 54\<rparr>"

lemma float_duration_1000: "float_duration_ms 1000000 = 1000"
  by code_simp

lemma float_duration_1001: "float_duration_ms 1001000 = 1000"
  by code_simp

lemma sample_descriptor_accepted:
  "mk_recording_descriptor (sample_descriptor 1000000 1000) = Inr (sample_descriptor 1000000 1000)"
  by (simp add: mk_recording_descriptor_def descriptor_fields_ok_def validate_contract_def sample_descriptor_def
      utc_millisecond_def float_duration_1000 payload_type_ok_def)


text \<open>
  The float arithmetic refuses the true duration of some recordings: one of 1.001 seconds is
  rejected with \<open>duration_ms = 1001\<close> and accepted with \<open>duration_ms = 1000\<close>, everything else equal.
\<close>

lemma descriptor_rejects_true_duration:
  "mk_recording_descriptor (sample_descriptor 1001000 1001) = Inl ValidationError \<and>
   mk_recording_descriptor (sample_descriptor 1001000 1000) = Inr (sample_descriptor 1001000 1000)"
  by (simp add: mk_recording_descriptor_def descriptor_fields_ok_def validate_contract_def sample_descriptor_def
      utc_millisecond_def float_duration_1001 payload_type_ok_def)

end
