(* ===== verification/Json.thy ===== *)
theory Json
  imports Utf8 "HOL-Library.AList" "HOL-Library.List_Lexorder"
begin

text \<open>
  Values of \<open>json.loads\<close> and \<open>json.dumps\<close>, as the state files of the operator services use them. Their
  text is not modelled: a stored file is the value that its text denotes, or no value. An object
  keeps its pairs in order, with repeated keys, because the readers refuse those with an
  \<open>object_pairs_hook\<close>. Strings are lists of code points, ordered as Python orders them.
\<close>

datatype json =
    JNull
  | JBool bool
  | JInt int
  | JFloat
  | JStr pystr
  | JList "json list"
  | JDict "(pystr \<times> json) list"

text \<open>The text of a literal.\<close>

definition py :: "string \<Rightarrow> pystr" where
  "py s = map of_char s"

lemma py_eq: "py a = py b \<longleftrightarrow> a = b"
proof -
  have "inj (of_char :: char \<Rightarrow> nat)" by (rule inj_of_char)
  then show ?thesis by (simp add: py_def inj_map_eq_map)
qed

text \<open>\<open>unique\<close>, applied to every object of the text.\<close>

primrec json_unique :: "json \<Rightarrow> bool" and json_unique_list :: "json list \<Rightarrow> bool"
  and json_unique_pairs :: "(pystr \<times> json) list \<Rightarrow> bool" and json_unique_pair :: "pystr \<times> json \<Rightarrow> bool" where
  "json_unique JNull = True"
| "json_unique (JBool b) = True"
| "json_unique (JInt i) = True"
| "json_unique JFloat = True"
| "json_unique (JStr s) = True"
| "json_unique (JList js) = json_unique_list js"
| "json_unique (JDict kvs) = (distinct (map fst kvs) \<and> json_unique_pairs kvs)"
| "json_unique_list [] = True"
| "json_unique_list (j # js) = (json_unique j \<and> json_unique_list js)"
| "json_unique_pairs [] = True"
| "json_unique_pairs (kv # kvs) = (json_unique_pair kv \<and> json_unique_pairs kvs)"
| "json_unique_pair (k, j) = json_unique j"

lemma json_unique_list_all [simp]: "json_unique_list js = list_all json_unique js"
  by (induction js) simp_all

lemma json_unique_pairs_all [simp]: "json_unique_pairs kvs = list_all (json_unique \<circ> snd) kvs"
  by (induction kvs) auto

text \<open>\<open>d[k]\<close> of an object without repeated keys, and \<open>set(d) == ks\<close>.\<close>

definition json_get :: "json \<Rightarrow> pystr \<Rightarrow> json option" where
  "json_get j k = (case j of JDict kvs \<Rightarrow> map_of kvs k | _ \<Rightarrow> None)"

definition has_keys :: "(pystr \<times> 'a) list \<Rightarrow> pystr list \<Rightarrow> bool" where
  "has_keys kvs ks \<longleftrightarrow> set (map fst kvs) = set ks"

text \<open>\<open>sort_keys=True\<close>.\<close>

definition sort_pairs :: "(pystr \<times> 'a) list \<Rightarrow> (pystr \<times> 'a) list" where
  "sort_pairs = sort_key fst"

lemma sort_pairs_simps [simp]:
  "set (sort_pairs kvs) = set kvs" "length (sort_pairs kvs) = length kvs"
  "distinct (map fst (sort_pairs kvs)) = distinct (map fst kvs)"
proof -
  have "mset (map fst (sort_pairs kvs)) = mset (map fst kvs)" by (simp add: sort_pairs_def)
  then show "distinct (map fst (sort_pairs kvs)) = distinct (map fst kvs)" by (rule mset_eq_imp_distinct_iff)
qed (simp_all add: sort_pairs_def)

lemma map_of_set_eq:
  assumes "distinct (map fst xs)" and "distinct (map fst ys)" and "set xs = set ys"
  shows "map_of xs = map_of ys"
proof
  fix k
  have "map_of xs k = Some v \<longleftrightarrow> map_of ys k = Some v" for v using assms by simp
  then show "map_of xs k = map_of ys k" by (metis not_None_eq)
qed

lemma map_of_sort_pairs [simp]: "distinct (map fst kvs) \<Longrightarrow> map_of (sort_pairs kvs) = map_of kvs"
  by (rule map_of_set_eq) simp_all

end
