(* ===== verification/Json_Text.thy ===== *)
theory Json_Text
  imports Json
begin

text \<open>
  The text of JSON, as \<open>json.loads\<close> of the standard library reads it (the scanner of \<open>_json.c\<close>) and
  \<open>json.dumps\<close> with \<open>ensure_ascii\<close>, \<open>sort_keys\<close> and the separators \<open>,\<close> and \<open>:\<close> writes an object of
  strings and integers.

  A number with a fraction or an exponent, and the three constants Python adds, is its text. An
  object keeps its pairs as they were read; \<open>dict_get\<close> is the entry of the dictionary, where a later
  pair replaces an earlier one. \<open>d\<close> is the number of nested calls the interpreter still allows. An
  integer may have any number of digits (Python refuses more than 4300, and a descriptor has at most
  4096 bytes).
\<close>

datatype json_value =
    VNull
  | VBool bool
  | VInt int
  | VFloat pystr
  | VStr pystr
  | VList "json_value list"
  | VDict "(pystr \<times> json_value) list"

datatype json_exn = JSONDecodeError | JSONRecursionError

type_synonym 'a reads = "json_exn + ('a \<times> pystr)"

definition dict_get :: "(pystr \<times> json_value) list \<Rightarrow> pystr \<Rightarrow> json_value option" where
  "dict_get kvs k = map_of (rev kvs) k"

section \<open>The reader\<close>

fun skip_ws :: "pystr \<Rightarrow> pystr" where
  "skip_ws [] = []"
| "skip_ws (c # t) = (if c \<in> {32, 9, 10, 13} then skip_ws t else c # t)"

lemma skip_ws_shorter: "length (skip_ws t) \<le> length t"
  by (induction t) auto

subsection \<open>Strings\<close>

definition hex_code :: "nat \<Rightarrow> nat option" where
  "hex_code c =
     (if 48 \<le> c \<and> c \<le> 57 then Some (c - 48)
      else if 97 \<le> c \<and> c \<le> 102 then Some (c - 87)
      else if 65 \<le> c \<and> c \<le> 70 then Some (c - 55)
      else None)"

definition read_hex4 :: "pystr \<Rightarrow> (nat \<times> pystr) option" where
  "read_hex4 t =
     (case t of
        a # b # c # e # r \<Rightarrow>
          (case (hex_code a, hex_code b, hex_code c, hex_code e) of
             (Some h3, Some h2, Some h1, Some h0) \<Rightarrow> Some (((h3 * 16 + h2) * 16 + h1) * 16 + h0, r)
           | _ \<Rightarrow> None)
      | _ \<Rightarrow> None)"

text \<open>
  What follows a backslash. A high surrogate takes the low surrogate that is escaped after it; any
  other escape after it is read again, for itself.
\<close>

definition read_unicode :: "pystr \<Rightarrow> (nat \<times> pystr) option" where
  "read_unicode t =
     (case read_hex4 t of
        None \<Rightarrow> None
      | Some (u, r) \<Rightarrow>
          if 55296 \<le> u \<and> u \<le> 56319
          then (case r of
                  b # v # r' \<Rightarrow>
                    if b = 92 \<and> v = 117
                    then (case read_hex4 r' of
                            None \<Rightarrow> None
                          | Some (l, r'') \<Rightarrow>
                              if 56320 \<le> l \<and> l \<le> 57343
                              then Some (65536 + (u - 55296) * 1024 + (l - 56320), r'')
                              else Some (u, r))
                    else Some (u, r)
                | _ \<Rightarrow> Some (u, r))
          else Some (u, r))"

definition read_escape :: "pystr \<Rightarrow> (nat \<times> pystr) option" where
  "read_escape t =
     (case t of
        [] \<Rightarrow> None
      | c # r \<Rightarrow>
          if c = 117 then read_unicode r
          else if c \<in> {34, 92, 47} then Some (c, r)
          else if c = 98 then Some (8, r)
          else if c = 102 then Some (12, r)
          else if c = 110 then Some (10, r)
          else if c = 114 then Some (13, r)
          else if c = 116 then Some (9, r)
          else None)"

lemma read_hex4_shorter: "read_hex4 t = Some (u, r) \<Longrightarrow> length r < length t"
  by (auto simp: read_hex4_def split: list.splits option.splits)

lemma read_unicode_shorter: "read_unicode t = Some (u, r) \<Longrightarrow> length r < length t"
  by (auto simp: read_unicode_def split: list.splits option.splits if_splits dest!: read_hex4_shorter)

lemma read_escape_shorter: "read_escape t = Some (u, r) \<Longrightarrow> length r < length t"
  by (auto simp: read_escape_def split: list.splits if_splits dest!: read_unicode_shorter)

text \<open>\<open>scanstring\<close> after the opening quote, in strict mode: a control character is an error.\<close>

function scan_string :: "pystr \<Rightarrow> (pystr \<times> pystr) option" where
  "scan_string [] = None"
| "scan_string (c # r) =
     (if c = 34 then Some ([], r)
      else if c = 92
      then (case read_escape r of
              None \<Rightarrow> None
            | Some (u, r') \<Rightarrow> map_option (apfst (Cons u)) (scan_string r'))
      else if c < 32 then None
      else map_option (apfst (Cons c)) (scan_string r))"
  by pat_completeness auto
termination by (relation "measure length") (auto dest!: read_escape_shorter)

subsection \<open>Numbers\<close>

definition is_digit :: "nat \<Rightarrow> bool" where
  "is_digit c \<longleftrightarrow> 48 \<le> c \<and> c \<le> 57"

definition digits_value :: "pystr \<Rightarrow> int" where
  "digits_value = foldl (\<lambda>v c. 10 * v + (int c - 48)) 0"

definition scan_sign :: "pystr \<Rightarrow> pystr \<times> pystr" where
  "scan_sign t = (case t of c # r \<Rightarrow> if c = 45 then ([c], r) else ([], t) | [] \<Rightarrow> ([], t))"

definition scan_fraction :: "pystr \<Rightarrow> pystr \<times> pystr" where
  "scan_fraction t =
     (case t of
        p # e # r \<Rightarrow>
          if p = 46 \<and> is_digit e then (p # e # takeWhile is_digit r, dropWhile is_digit r) else ([], t)
      | _ \<Rightarrow> ([], t))"

definition scan_exponent :: "pystr \<Rightarrow> pystr \<times> pystr" where
  "scan_exponent t =
     (case t of
        [] \<Rightarrow> ([], t)
      | e # r \<Rightarrow>
          if e \<in> {101, 69}
          then (let (s, r') = (case r of c # q \<Rightarrow> if c \<in> {43, 45} then ([c], q) else ([], r) | [] \<Rightarrow> ([], r)) in
                if takeWhile is_digit r' = [] then ([], t)
                else (e # s @ takeWhile is_digit r', dropWhile is_digit r'))
          else ([], t))"

definition scan_number :: "pystr \<Rightarrow> (json_value \<times> pystr) option" where
  "scan_number t =
     (let (sign, t0) = scan_sign t in
      case t0 of
        [] \<Rightarrow> None
      | c # r \<Rightarrow>
          if \<not> is_digit c then None
          else
            let (digits, r1) = (if c = 48 then ([c], r) else (c # takeWhile is_digit r, dropWhile is_digit r));
                (fraction, r2) = scan_fraction r1;
                (expo, r3) = scan_exponent r2
            in Some (if fraction = [] \<and> expo = []
                     then VInt (if sign = [] then digits_value digits else - digits_value digits)
                     else VFloat (sign @ digits @ fraction @ expo), r3))"

subsection \<open>Values\<close>

definition scan_literal :: "pystr \<Rightarrow> json_value \<Rightarrow> pystr \<Rightarrow> (json_value \<times> pystr) option" where
  "scan_literal lit v t = (if take (length lit) t = lit then Some (v, drop (length lit) t) else None)"

definition scan_atom :: "pystr \<Rightarrow> (json_value \<times> pystr) option" where
  "scan_atom t =
     (case scan_literal (py ''null'') VNull t of
        Some x \<Rightarrow> Some x
      | None \<Rightarrow>
     (case scan_literal (py ''true'') (VBool True) t of
        Some x \<Rightarrow> Some x
      | None \<Rightarrow>
     (case scan_literal (py ''false'') (VBool False) t of
        Some x \<Rightarrow> Some x
      | None \<Rightarrow>
     (case scan_literal (py ''NaN'') (VFloat (py ''NaN'')) t of
        Some x \<Rightarrow> Some x
      | None \<Rightarrow>
     (case scan_literal (py ''Infinity'') (VFloat (py ''Infinity'')) t of
        Some x \<Rightarrow> Some x
      | None \<Rightarrow>
     (case scan_literal (py ''-Infinity'') (VFloat (py ''-Infinity'')) t of
        Some x \<Rightarrow> Some x
      | None \<Rightarrow> scan_number t))))))"

text \<open>
  The loops over the members of an object and the elements of an array, with \<open>P\<close> for the nested
  call of the scanner. The test that the nested call consumed something makes them total; it never
  fails (\<open>parse_value_shorter\<close>).
\<close>

function parse_elements :: "(pystr \<Rightarrow> json_value reads) \<Rightarrow> pystr \<Rightarrow> json_value list reads" where
  "parse_elements P t =
     (case P t of
        Inl e \<Rightarrow> Inl e
      | Inr (v, r) \<Rightarrow>
          (case skip_ws r of
             [] \<Rightarrow> Inl JSONDecodeError
           | c # r1 \<Rightarrow>
               if c = 93 then Inr ([v], r1)
               else if c \<noteq> 44 then Inl JSONDecodeError
               else if length t \<le> length r then Inl JSONDecodeError
               else map_sum id (apfst (Cons v)) (parse_elements P (skip_ws r1))))"
  by pat_completeness auto
termination
proof (relation "measure (length \<circ> snd)"; clarsimp)
  fix t r r1 :: pystr and c :: nat
  assume "skip_ws r = c # r1" and "\<not> length t \<le> length r"
  with skip_ws_shorter [of r] skip_ws_shorter [of r1] show "length (skip_ws r1) < length t" by simp
qed

function parse_members :: "(pystr \<Rightarrow> json_value reads) \<Rightarrow> pystr \<Rightarrow> (pystr \<times> json_value) list reads" where
  "parse_members P [] = Inl JSONDecodeError"
| "parse_members P (q # t) =
     (if q \<noteq> 34 then Inl JSONDecodeError
      else case scan_string t of
        None \<Rightarrow> Inl JSONDecodeError
      | Some (k, r) \<Rightarrow>
          (case skip_ws r of
             [] \<Rightarrow> Inl JSONDecodeError
           | c # r1 \<Rightarrow>
               if c \<noteq> 58 then Inl JSONDecodeError
               else case P (skip_ws r1) of
                 Inl e \<Rightarrow> Inl e
               | Inr (v, r2) \<Rightarrow>
                   (case skip_ws r2 of
                      [] \<Rightarrow> Inl JSONDecodeError
                    | c2 # r3 \<Rightarrow>
                        if c2 = 125 then Inr ([(k, v)], r3)
                        else if c2 \<noteq> 44 then Inl JSONDecodeError
                        else if length t \<le> length r2 then Inl JSONDecodeError
                        else map_sum id (apfst (Cons (k, v))) (parse_members P (skip_ws r3)))))"
  by pat_completeness auto
termination
proof (relation "measure (length \<circ> snd)"; clarsimp)
  fix t r2 r3 :: pystr and c :: nat
  assume "skip_ws r2 = c # r3" and "\<not> length t \<le> length r2"
  with skip_ws_shorter [of r2] skip_ws_shorter [of r3] show "length (skip_ws r3) < Suc (length t)" by simp
qed

definition parse_array :: "(pystr \<Rightarrow> json_value reads) \<Rightarrow> pystr \<Rightarrow> json_value reads" where
  "parse_array P r =
     (case skip_ws r of
        [] \<Rightarrow> Inl JSONDecodeError
      | c # r1 \<Rightarrow> if c = 93 then Inr (VList [], r1) else map_sum id (apfst VList) (parse_elements P (c # r1)))"

definition parse_object :: "(pystr \<Rightarrow> json_value reads) \<Rightarrow> pystr \<Rightarrow> json_value reads" where
  "parse_object P r =
     (case skip_ws r of
        [] \<Rightarrow> Inl JSONDecodeError
      | c # r1 \<Rightarrow> if c = 125 then Inr (VDict [], r1) else map_sum id (apfst VDict) (parse_members P (c # r1)))"

definition scan_once ::
  "(pystr \<Rightarrow> json_value reads) \<Rightarrow> (pystr \<Rightarrow> json_value reads) \<Rightarrow> pystr \<Rightarrow> json_value reads" where
  "scan_once object array t =
     (case t of
        [] \<Rightarrow> Inl JSONDecodeError
      | c # r \<Rightarrow>
          if c = 34
          then (case scan_string r of None \<Rightarrow> Inl JSONDecodeError | Some (s, r') \<Rightarrow> Inr (VStr s, r'))
          else if c = 123 then object r
          else if c = 91 then array r
          else case scan_atom t of None \<Rightarrow> Inl JSONDecodeError | Some x \<Rightarrow> Inr x)"

primrec parse_value :: "nat \<Rightarrow> pystr \<Rightarrow> json_value reads" where
  "parse_value 0 = scan_once (\<lambda>_. Inl JSONRecursionError) (\<lambda>_. Inl JSONRecursionError)"
| "parse_value (Suc d) = scan_once (parse_object (parse_value d)) (parse_array (parse_value d))"

definition json_loads :: "nat \<Rightarrow> pystr \<Rightarrow> json_exn + json_value" where
  "json_loads d s =
     (if take 1 s = [65279] then Inl JSONDecodeError
      else case parse_value d (skip_ws s) of
        Inl e \<Rightarrow> Inl e
      | Inr (v, r) \<Rightarrow> if skip_ws r = [] then Inr v else Inl JSONDecodeError)"

section \<open>The reader always consumes\<close>

lemma scan_string_shorter: "scan_string t = Some (s, r) \<Longrightarrow> length r < length t"
  by (induction t arbitrary: s r rule: scan_string.induct)
    (force split: if_splits option.splits dest!: read_escape_shorter)+

lemma scan_sign_shorter: "scan_sign t = (s, r) \<Longrightarrow> length r \<le> length t"
  by (auto simp: scan_sign_def split: list.splits if_splits)

lemma scan_fraction_shorter: "scan_fraction t = (s, r) \<Longrightarrow> length r \<le> length t"
  by (auto simp: scan_fraction_def le_SucI length_dropWhile_le split: list.splits if_splits)

lemma scan_exponent_shorter: "scan_exponent t = (s, r) \<Longrightarrow> length r \<le> length t"
  by (auto simp: scan_exponent_def Let_def le_SucI length_dropWhile_le split: list.splits if_splits prod.splits)

lemma scan_number_shorter:
  assumes "scan_number t = Some (v, r)"
  shows "length r < length t"
proof -
  obtain sg t0 where t0: "scan_sign t = (sg, t0)" by fastforce
  with assms obtain c q where c: "t0 = c # q" "is_digit c"
    by (auto simp: scan_number_def split: list.splits if_splits)
  define r1 where "r1 = (if c = 48 then q else dropWhile is_digit q)"
  obtain f r2 where f: "scan_fraction r1 = (f, r2)" by fastforce
  obtain e r3 where e: "scan_exponent r2 = (e, r3)" by fastforce
  from assms t0 c f e have "r = r3"
    by (cases "c = 48") (auto simp: scan_number_def r1_def Let_def)
  moreover have "length r1 \<le> length q" by (simp add: r1_def length_dropWhile_le)
  ultimately show ?thesis
    using scan_sign_shorter [OF t0] scan_fraction_shorter [OF f] scan_exponent_shorter [OF e] c(1) by simp
qed

lemma scan_literal_shorter: "scan_literal lit v t = Some (w, r) \<Longrightarrow> lit \<noteq> [] \<Longrightarrow> length r < length t"
  by (auto simp: scan_literal_def split: if_splits) (metis take_all_iff length_greater_0_conv diff_less take_eq_Nil not_le)

lemma scan_atom_shorter: "scan_atom t = Some (v, r) \<Longrightarrow> length r < length t"
  by (auto simp: scan_atom_def py_def split: option.splits dest!: scan_literal_shorter scan_number_shorter)

text \<open>\<open>P\<close> reads a value from the front of a text.\<close>

definition consumes :: "(pystr \<Rightarrow> 'a reads) \<Rightarrow> bool" where
  "consumes P \<longleftrightarrow> (\<forall>t v r. P t = Inr (v, r) \<longrightarrow> length r < length t)"

lemma consumesD: "consumes P \<Longrightarrow> P t = Inr (v, r) \<Longrightarrow> length r < length t"
  by (auto simp: consumes_def)

declare parse_elements.simps [simp del] parse_members.simps [simp del]

text \<open>The two loops without the test.\<close>

lemma parse_elements_loop:
  assumes "consumes P"
  shows "parse_elements P t =
     (case P t of
        Inl e \<Rightarrow> Inl e
      | Inr (v, r) \<Rightarrow>
          (case skip_ws r of
             [] \<Rightarrow> Inl JSONDecodeError
           | c # r1 \<Rightarrow>
               if c = 93 then Inr ([v], r1)
               else if c \<noteq> 44 then Inl JSONDecodeError
               else map_sum id (apfst (Cons v)) (parse_elements P (skip_ws r1))))"
  by (subst parse_elements.simps) (auto split: sum.split list.split dest: consumesD [OF assms])

lemma parse_members_loop:
  assumes "consumes P"
  shows "parse_members P (34 # t) =
     (case scan_string t of
        None \<Rightarrow> Inl JSONDecodeError
      | Some (k, r) \<Rightarrow>
          (case skip_ws r of
             [] \<Rightarrow> Inl JSONDecodeError
           | c # r1 \<Rightarrow>
               if c \<noteq> 58 then Inl JSONDecodeError
               else case P (skip_ws r1) of
                 Inl e \<Rightarrow> Inl e
               | Inr (v, r2) \<Rightarrow>
                   (case skip_ws r2 of
                      [] \<Rightarrow> Inl JSONDecodeError
                    | c2 # r3 \<Rightarrow>
                        if c2 = 125 then Inr ([(k, v)], r3)
                        else if c2 \<noteq> 44 then Inl JSONDecodeError
                        else map_sum id (apfst (Cons (k, v))) (parse_members P (skip_ws r3)))))"
proof -
  have shorter: "length r2 < length t" if "scan_string t = Some (k, r)" "skip_ws r = c # r1" "P (skip_ws r1) = Inr (v, r2)"
    for k r c r1 v r2
    using scan_string_shorter [OF that(1)] skip_ws_shorter [of r] skip_ws_shorter [of r1] that(2)
      consumesD [OF assms that(3)] by simp
  then show ?thesis
    by (subst parse_members.simps) (fastforce split: sum.split list.split option.split dest: shorter)
qed

lemma parse_elements_shorter:
  assumes "consumes P"
  shows "parse_elements P t = Inr (vs, r) \<Longrightarrow> length r < length t"
proof (induction "length t" arbitrary: t vs r rule: less_induct)
  case less
  from less.prems obtain v r0 c r1 where p: "P t = Inr (v, r0)" "skip_ws r0 = c # r1"
    by (subst (asm) parse_elements_loop [OF assms]) (auto split: sum.splits list.splits)
  note le = skip_ws_shorter [of r0] skip_ws_shorter [of r1] p(2) consumesD [OF assms p(1)]
  show ?case
  proof (cases "c = 93")
    case True
    with less.prems p have "r = r1" by (subst (asm) parse_elements_loop [OF assms]) simp
    with le show ?thesis by simp
  next
    case False
    with less.prems p obtain vs' where "parse_elements P (skip_ws r1) = Inr (vs', r)"
      by (subst (asm) parse_elements_loop [OF assms])
        (cases "parse_elements P (skip_ws r1)"; auto split: if_splits)
    from less.hyps [OF _ this] le show ?thesis by simp
  qed
qed

lemma parse_members_shorter:
  assumes "consumes P"
  shows "parse_members P t = Inr (vs, r) \<Longrightarrow> length r < length t"
proof (induction "length t" arbitrary: t vs r rule: less_induct)
  case less
  then obtain t0 where t: "t = 34 # t0" by (cases t) (auto simp: parse_members.simps split: if_splits)
  from less.prems obtain k r0 c r1 where k: "scan_string t0 = Some (k, r0)" "skip_ws r0 = c # r1" "c = 58"
    unfolding t parse_members_loop [OF assms] by (auto split: option.splits list.splits if_splits)
  from less.prems k obtain v r2 c2 r3 where p: "P (skip_ws r1) = Inr (v, r2)" "skip_ws r2 = c2 # r3"
    unfolding t parse_members_loop [OF assms] by (auto split: sum.splits list.splits)
  note le = scan_string_shorter [OF k(1)] skip_ws_shorter [of r0] skip_ws_shorter [of r1] skip_ws_shorter [of r2]
    skip_ws_shorter [of r3] k(2) p(2) t consumesD [OF assms p(1)]
  show ?case
  proof (cases "c2 = 125")
    case True
    with less.prems k p have "r = r3" unfolding t parse_members_loop [OF assms] by simp
    with le show ?thesis by simp
  next
    case False
    with less.prems k p obtain vs' where "parse_members P (skip_ws r3) = Inr (vs', r)"
      unfolding t parse_members_loop [OF assms]
      by (cases "parse_members P (skip_ws r3)"; auto split: if_splits)
    from less.hyps [OF _ this] le show ?thesis by simp
  qed
qed

lemma parse_array_consumes: "consumes P \<Longrightarrow> parse_array P t = Inr (v, r) \<Longrightarrow> length r < length t"
  using skip_ws_shorter [of t]
  by (auto simp: parse_array_def map_sum_def split: list.splits if_splits sum.splits dest!: parse_elements_shorter)

lemma parse_object_consumes: "consumes P \<Longrightarrow> parse_object P t = Inr (v, r) \<Longrightarrow> length r < length t"
  using skip_ws_shorter [of t]
  by (auto simp: parse_object_def map_sum_def split: list.splits if_splits sum.splits dest!: parse_members_shorter)

lemma scan_once_consumes:
  assumes "\<And>t v r. obj t = Inr (v, r) \<Longrightarrow> length r < length t" and "\<And>t v r. arr t = Inr (v, r) \<Longrightarrow> length r < length t"
  shows "consumes (scan_once obj arr)"
  unfolding consumes_def scan_once_def
  by (auto split: list.splits if_splits option.splits dest!: assms scan_string_shorter scan_atom_shorter)

lemma parse_value_shorter: "consumes (parse_value d)"
  by (induction d) (auto intro!: scan_once_consumes dest: parse_array_consumes parse_object_consumes)

section \<open>The writer\<close>

text \<open>\<open>py_encode_basestring_ascii\<close>, \<open>int.__repr__\<close>, and the encoder of one object.\<close>

definition hex_char :: "nat \<Rightarrow> nat" where
  "hex_char k = (if k < 10 then 48 + k else 87 + k)"

definition u_escape :: "nat \<Rightarrow> pystr" where
  "u_escape n =
     [92, 117, hex_char (n div 4096), hex_char (n div 256 mod 16), hex_char (n div 16 mod 16), hex_char (n mod 16)]"

definition json_escape :: "nat \<Rightarrow> pystr" where
  "json_escape c =
     (if c = 34 \<or> c = 92 then [92, c]
      else if c = 8 then [92, 98]
      else if c = 12 then [92, 102]
      else if c = 10 then [92, 110]
      else if c = 13 then [92, 114]
      else if c = 9 then [92, 116]
      else if 32 \<le> c \<and> c \<le> 126 then [c]
      else if c < 65536 then u_escape c
      else u_escape (55296 + (c - 65536) div 1024) @ u_escape (56320 + (c - 65536) mod 1024))"

definition dumps_string :: "pystr \<Rightarrow> pystr" where
  "dumps_string s = 34 # concat (map json_escape s) @ [34]"

fun nat_text :: "nat \<Rightarrow> pystr" where
  "nat_text n = (if n < 10 then [48 + n] else nat_text (n div 10) @ [48 + n mod 10])"

definition int_text :: "int \<Rightarrow> pystr" where
  "int_text i = (if i < 0 then 45 # nat_text (nat (- i)) else nat_text (nat i))"

datatype json_scalar = SStr pystr | SInt int

primrec dumps_scalar :: "json_scalar \<Rightarrow> pystr" where
  "dumps_scalar (SStr s) = dumps_string s"
| "dumps_scalar (SInt i) = int_text i"

fun json_join :: "pystr list \<Rightarrow> pystr" where
  "json_join [] = []"
| "json_join [x] = x"
| "json_join (x # y # xs) = x @ 44 # json_join (y # xs)"

definition dumps_member :: "pystr \<times> json_scalar \<Rightarrow> pystr" where
  "dumps_member kv = dumps_string (fst kv) @ 58 # dumps_scalar (snd kv)"

definition json_dumps :: "(pystr \<times> json_scalar) list \<Rightarrow> pystr" where
  "json_dumps kvs = 123 # json_join (map dumps_member (sort_pairs kvs)) @ [125]"

section \<open>What is written is read back\<close>

lemma hex_code_char: "k < 16 \<Longrightarrow> hex_code (hex_char k) = Some k"
  by (simp add: hex_code_def hex_char_def)

lemma read_hex4_escape:
  assumes "n < 65536"
  shows "read_hex4 (hex_char (n div 4096) # hex_char (n div 256 mod 16) # hex_char (n div 16 mod 16) #
    hex_char (n mod 16) # r) = Some (n, r)"
proof -
  have "((n div 4096 * 16 + n div 256 mod 16) * 16 + n div 16 mod 16) * 16 + n mod 16 = n"
  proof -
    have "n div 4096 = n div 256 div 16" "n div 256 = n div 16 div 16" by (simp_all add: div_mult2_eq [symmetric])
    then show ?thesis by (simp only: div_mult_mod_eq)
  qed
  with assms show ?thesis by (simp add: read_hex4_def hex_code_char)
qed

lemma scan_string_escape:
  assumes "is_scalar c"
  shows "scan_string (json_escape c @ t) = map_option (apfst (Cons c)) (scan_string t)"
proof -
  consider "c < 32 \<or> 126 < c" "c < 65536" "c \<notin> {8, 9, 10, 12, 13}" | "65536 \<le> c"
    | "32 \<le> c" "c \<le> 126" | "c \<in> {8, 9, 10, 12, 13}"
    by fastforce
  then show ?thesis
  proof cases
    case 1
    then have "json_escape c = u_escape c" by (auto simp: json_escape_def)
    with 1 assms show ?thesis
      by (auto simp: u_escape_def read_escape_def read_unicode_def read_hex4_escape is_scalar_def is_surrogate_def)
  next
    case 2
    define h where "h = 55296 + (c - 65536) div 1024"
    define l where "l = 56320 + (c - 65536) mod 1024"
    have q: "(c - 65536) div 1024 < 1024" using assms 2 by (auto simp: is_scalar_def intro!: less_mult_imp_div_less)
    have c: "65536 + (h - 55296) * 1024 + (l - 56320) = c" using 2 by (simp add: h_def l_def)
    have h: "55296 \<le> h" "h \<le> 56319" "h < 65536" and l: "56320 \<le> l" "l \<le> 57343" "l < 65536"
      using q mod_less_divisor [of 1024 "c - 65536"] by (simp_all add: h_def l_def)
    have "json_escape c = u_escape h @ u_escape l" using 2 by (simp add: json_escape_def h_def l_def)
    with h l c show ?thesis
      by (simp add: u_escape_def read_escape_def read_unicode_def read_hex4_escape)
  next
    case 3
    then show ?thesis by (cases "c = 34 \<or> c = 92") (auto simp: json_escape_def read_escape_def)
  next
    case 4
    then show ?thesis by (auto simp: json_escape_def read_escape_def)
  qed
qed

lemma scan_string_written:
  "list_all is_scalar s \<Longrightarrow> scan_string (concat (map json_escape s) @ 34 # r) = Some (s, r)"
  by (induction s) (simp_all add: scan_string_escape)

declare nat_text.simps [simp del]

lemma nat_text_digits: "nat_text n \<noteq> [] \<and> list_all is_digit (nat_text n) \<and> (hd (nat_text n) = 48 \<longrightarrow> n = 0)"
proof (induction n rule: nat_text.induct)
  case (1 n)
  show ?case
  proof (cases "n < 10")
    case False
    with 1 have "nat_text (n div 10) \<noteq> []" "list_all is_digit (nat_text (n div 10))" "hd (nat_text (n div 10)) \<noteq> 48"
      by auto
    moreover have "nat_text n = nat_text (n div 10) @ [48 + n mod 10]" using False by (simp add: nat_text.simps)
    moreover have "is_digit (48 + n mod 10)" by (simp add: is_digit_def)
    ultimately show ?thesis by simp
  qed (simp add: nat_text.simps is_digit_def)
qed

lemma digits_value_nat_text: "digits_value (nat_text n) = int n"
proof (induction n rule: nat_text.induct)
  case (1 n)
  show ?case
  proof (cases "n < 10")
    case False
    with 1 have "digits_value (nat_text (n div 10)) = int (n div 10)" by simp
    moreover have "nat_text n = nat_text (n div 10) @ [48 + n mod 10]" using False by (simp add: nat_text.simps)
    ultimately have "digits_value (nat_text n) = 10 * int (n div 10) + int (n mod 10)"
      by (simp add: digits_value_def)
    also have "\<dots> = int (10 * (n div 10) + n mod 10)" by (simp only: of_nat_add of_nat_mult of_nat_numeral)
    also have "10 * (n div 10) + n mod 10 = n" by (rule mult_div_mod_eq)
    finally show ?thesis .
  qed (simp add: nat_text.simps digits_value_def)
qed

text \<open>What follows a value inside an object.\<close>

definition after_value :: "pystr \<Rightarrow> bool" where
  "after_value r \<longleftrightarrow> (\<exists>r'. r = 44 # r' \<or> r = 125 # r')"

lemma take_digits:
  assumes "list_all is_digit ds" and "after_value r"
  shows "takeWhile is_digit (ds @ r) = ds \<and> dropWhile is_digit (ds @ r) = r"
proof -
  have "r = [] \<or> \<not> is_digit (hd r)" using assms(2) by (auto simp: after_value_def is_digit_def)
  with assms(1) show ?thesis by (cases r) (auto simp: list_all_iff)
qed

lemma scan_number_nat_text:
  assumes "after_value r"
  shows "scan_number (nat_text n @ r) = Some (VInt (int n), r)"
    and "scan_number (45 # nat_text n @ r) = Some (VInt (- int n), r)"
proof -
  obtain c ds where t: "nat_text n = c # ds" "is_digit c" "list_all is_digit ds" "c = 48 \<longrightarrow> n = 0"
    using nat_text_digits [of n] by (cases "nat_text n") auto
  have zero: "ds = []" if "c = 48" using that t by (simp add: nat_text.simps)
  have c: "c \<noteq> 45" using t(2) by (auto simp: is_digit_def)
  have "scan_fraction r = ([], r)" "scan_exponent r = ([], r)"
    using assms by (auto simp: after_value_def scan_fraction_def scan_exponent_def split: list.split)
  with take_digits [OF t(3) assms] t zero c digits_value_nat_text [of n]
  show "scan_number (nat_text n @ r) = Some (VInt (int n), r)"
    and "scan_number (45 # nat_text n @ r) = Some (VInt (- int n), r)"
    by (auto simp: scan_number_def scan_sign_def Let_def)
qed

primrec scalar_value :: "json_scalar \<Rightarrow> json_value" where
  "scalar_value (SStr s) = VStr s"
| "scalar_value (SInt i) = VInt i"

primrec scalar_ok :: "json_scalar \<Rightarrow> bool" where
  "scalar_ok (SStr s) = list_all is_scalar s"
| "scalar_ok (SInt i) = True"

lemma scan_once_int:
  assumes "after_value r"
  shows "scan_once obj arr (int_text i @ r) = Inr (VInt i, r)"
proof -
  have atom: "scan_atom t = scan_number t" "t \<noteq> [] \<and> hd t \<notin> {34, 123, 91}"
    if "t = c # q" "is_digit c \<or> c = 45 \<and> q \<noteq> [] \<and> is_digit (hd q)" for t c q
    using that by (auto simp: scan_atom_def scan_literal_def py_def is_digit_def take_Cons' neq_Nil_conv)
  obtain c ds where t: "nat_text (nat \<bar>i\<bar>) = c # ds" "is_digit c"
    using nat_text_digits [of "nat \<bar>i\<bar>"] by (cases "nat_text (nat \<bar>i\<bar>)") auto
  show ?thesis
  proof (cases "i < 0")
    case True
    with t atom [of "45 # c # ds @ r" 45 "c # ds @ r"] scan_number_nat_text(2) [OF assms, of "nat \<bar>i\<bar>"]
    show ?thesis by (simp add: scan_once_def int_text_def)
  next
    case False
    with t atom [of "c # ds @ r" c "ds @ r"] scan_number_nat_text(1) [OF assms, of "nat \<bar>i\<bar>"]
    show ?thesis by (simp add: scan_once_def int_text_def)
  qed
qed

lemma parse_value_scalar:
  assumes "scalar_ok v" and "after_value r"
  shows "parse_value d (dumps_scalar v @ r) = Inr (scalar_value v, r)"
proof -
  have "scan_once obj arr (dumps_scalar v @ r) = Inr (scalar_value v, r)" for obj arr
    using assms scan_once_int [OF assms(2)]
    by (cases v) (simp_all add: scan_once_def dumps_string_def scan_string_written)
  then show ?thesis by (cases d) simp_all
qed

lemma skip_ws_scalar: "skip_ws (dumps_scalar v @ r) = dumps_scalar v @ r"
proof (cases v)
  case (SInt i)
  obtain c ds where "nat_text (nat \<bar>i\<bar>) = c # ds" "is_digit c"
    using nat_text_digits [of "nat \<bar>i\<bar>"] by (cases "nat_text (nat \<bar>i\<bar>)") auto
  with SInt show ?thesis by (auto simp: int_text_def is_digit_def)
qed (simp add: dumps_string_def)

definition member_ok :: "pystr \<times> json_scalar \<Rightarrow> bool" where
  "member_ok kv \<longleftrightarrow> list_all is_scalar (fst kv) \<and> scalar_ok (snd kv)"

lemma parse_members_written:
  assumes "member_ok kv"
  shows "parse_members (parse_value d) (dumps_member kv @ 125 # r) = Inr ([apsnd scalar_value kv], r)"
    and "parse_members (parse_value d) (dumps_member kv @ 44 # 34 # r) =
      map_sum id (apfst (Cons (apsnd scalar_value kv))) (parse_members (parse_value d) (34 # r))"
proof -
  obtain k v where kv: "kv = (k, v)" "list_all is_scalar k" "scalar_ok v"
    using assms by (cases kv) (simp add: member_ok_def)
  have after: "after_value (125 # r)" "after_value (44 # 34 # r)" by (simp_all add: after_value_def)
  have step: "dumps_member (k, v) @ t = 34 # concat (map json_escape k) @ 34 # 58 # dumps_scalar v @ t" for t
    by (simp add: dumps_member_def dumps_string_def)
  note [simp] = step parse_members_loop [OF parse_value_shorter, of _ "concat x @ y" for x y] scan_string_written [OF kv(2)] skip_ws_scalar
    parse_value_scalar [OF kv(3) after(1)] parse_value_scalar [OF kv(3) after(2)]
  show "parse_members (parse_value d) (dumps_member kv @ 125 # r) = Inr ([apsnd scalar_value kv], r)"
    by (simp add: kv(1))
  show "parse_members (parse_value d) (dumps_member kv @ 44 # 34 # r) =
      map_sum id (apfst (Cons (apsnd scalar_value kv))) (parse_members (parse_value d) (34 # r))"
    by (simp add: kv(1))
qed

lemma json_join_members:
  "kvs \<noteq> [] \<Longrightarrow> \<exists>t. json_join (map dumps_member kvs) @ r = 34 # t"
  by (cases kvs rule: list.exhaust; cases "tl kvs") (auto simp: dumps_member_def dumps_string_def)

lemma parse_members_join:
  assumes "kvs \<noteq> []" and "list_all member_ok kvs"
  shows "parse_members (parse_value d) (json_join (map dumps_member kvs) @ 125 # r) =
    Inr (map (apsnd scalar_value) kvs, r)"
  using assms
proof (induction kvs rule: list_nonempty_induct)
  case (single kv)
  then show ?case by (simp add: parse_members_written)
next
  case (cons kv kvs)
  from json_join_members [OF cons.hyps, of "125 # r"]
  obtain t where t: "json_join (map dumps_member kvs) @ 125 # r = 34 # t" by blast
  from cons.hyps have "json_join (map dumps_member (kv # kvs)) @ 125 # r = dumps_member kv @ 44 # 34 # t"
    using t by (cases kvs) simp_all
  with cons t show ?case by (simp add: parse_members_written)
qed

text \<open>The object that was written comes back, with its keys in order.\<close>

lemma json_loads_dumps:
  assumes "list_all member_ok kvs"
  shows "json_loads (Suc d) (json_dumps kvs) = Inr (VDict (map (apsnd scalar_value) (sort_pairs kvs)))"
proof (cases "sort_pairs kvs = []")
  case True
  then show ?thesis
    by (simp add: json_loads_def json_dumps_def scan_once_def parse_object_def)
next
  case False
  have ok: "list_all member_ok (sort_pairs kvs)" using assms by (simp add: list_all_iff)
  obtain t where t: "json_join (map dumps_member (sort_pairs kvs)) @ [125] = 34 # t"
    using json_join_members [OF False, of "[125]"] by blast
  have "parse_members (parse_value d) (34 # t) = Inr (map (apsnd scalar_value) (sort_pairs kvs), [])"
    using parse_members_join [OF False ok, of d "[]"] t by simp
  then show ?thesis
    by (simp add: json_loads_def json_dumps_def t scan_once_def parse_object_def)
qed

section \<open>The written text is ASCII, and bounded\<close>

definition ascii :: "pystr \<Rightarrow> bool" where
  "ascii s \<longleftrightarrow> list_all (\<lambda>c. c < 128) s"

lemma ascii_simps [simp]:
  "ascii []" "ascii (c # s) \<longleftrightarrow> c < 128 \<and> ascii s" "ascii (s @ t) \<longleftrightarrow> ascii s \<and> ascii t"
  by (simp_all add: ascii_def)

lemma utf8_encode_ascii:
  assumes "ascii s"
  shows "utf8_encode s = Some (map of_nat s)"
proof -
  from assms have "utf8_encode_nat s = Some s" by (induction s) (simp_all add: utf8_char_def)
  then show ?thesis by (simp add: utf8_encode_def)
qed

lemma u_escape_bounds: "n < 65536 \<Longrightarrow> ascii (u_escape n) \<and> length (u_escape n) = 6"
proof -
  have hex: "hex_char k < 128" if "k < 16" for k using that by (simp add: hex_char_def)
  assume "n < 65536"
  then show ?thesis by (simp add: u_escape_def hex less_mult_imp_div_less)
qed

lemma json_escape_bounds:
  assumes "is_scalar c"
  shows "ascii (json_escape c) \<and> length (json_escape c) \<le> 12"
proof -
  have q: "(c - 65536) div 1024 < 1024" if "65536 \<le> c"
    using assms that by (auto simp: is_scalar_def intro!: less_mult_imp_div_less)
  have m: "(c - 65536) mod 1024 < 1024" by simp
  consider "c < 65536" | "65536 \<le> c" by linarith
  then show ?thesis
  proof cases
    case 1
    then show ?thesis using u_escape_bounds [of c] by (auto simp: json_escape_def)
  next
    case 2
    then have "json_escape c = u_escape (55296 + (c - 65536) div 1024) @ u_escape (56320 + (c - 65536) mod 1024)"
      by (simp add: json_escape_def)
    moreover have "55296 + (c - 65536) div 1024 < 65536" "56320 + (c - 65536) mod 1024 < 65536"
      using q [OF 2] m by linarith+
    ultimately show ?thesis using u_escape_bounds by simp
  qed
qed

lemma dumps_string_bounds:
  "list_all is_scalar s \<Longrightarrow> ascii (dumps_string s) \<and> length (dumps_string s) \<le> 2 + 12 * length s"
proof -
  assume "list_all is_scalar s"
  then have "ascii (concat (map json_escape s)) \<and> length (concat (map json_escape s)) \<le> 12 * length s"
  proof (induction s)
    case (Cons c s)
    with json_escape_bounds [of c] show ?case by simp
  qed simp
  then show ?thesis by (simp add: dumps_string_def)
qed

lemma dumps_string_plain:
  "list_all (\<lambda>c. 32 \<le> c \<and> c \<le> 126 \<and> c \<noteq> 34 \<and> c \<noteq> 92) s \<Longrightarrow> dumps_string s = 34 # s @ [34]"
  by (induction s) (simp_all add: dumps_string_def json_escape_def)

lemma nat_text_ascii: "ascii (nat_text n)"
  using nat_text_digits [of n] by (auto simp: ascii_def is_digit_def list_all_iff)

lemma nat_text_length: "n < 10 ^ Suc k \<Longrightarrow> length (nat_text n) \<le> Suc k"
proof (induction k arbitrary: n)
  case (Suc k)
  show ?case
  proof (cases "n < 10")
    case False
    from Suc.prems have "n div 10 < 10 ^ Suc k" by (intro less_mult_imp_div_less) simp
    from Suc.IH [OF this] False show ?thesis by (simp add: nat_text.simps [of n])
  qed (simp add: nat_text.simps)
qed (simp add: nat_text.simps)

lemma int_text_bounds:
  assumes "0 \<le> i" and "i < 10 ^ Suc k"
  shows "length (int_text i) \<le> Suc k"
proof -
  have "nat i < 10 ^ Suc k" using assms by (simp add: nat_less_iff)
  from nat_text_length [OF this] assms(1) show ?thesis by (simp add: int_text_def)
qed

lemma dumps_member_ascii: "member_ok kv \<Longrightarrow> ascii (dumps_member kv)"
  using nat_text_ascii dumps_string_bounds
  by (cases "snd kv") (auto simp: dumps_member_def member_ok_def int_text_def)

lemma json_join_ascii: "list_all ascii xs \<Longrightarrow> ascii (json_join xs)"
  by (induction xs rule: json_join.induct) simp_all

lemma json_dumps_ascii: "list_all member_ok kvs \<Longrightarrow> ascii (json_dumps kvs)"
  using json_join_ascii [of "map dumps_member (sort_pairs kvs)"]
  by (simp add: json_dumps_def list_all_iff dumps_member_ascii)

lemma json_join_length: "length (json_join xs) \<le> sum_list (map (Suc \<circ> length) xs)"
  by (induction xs rule: json_join.induct) simp_all

lemma json_dumps_length: "length (json_dumps kvs) \<le> 2 + sum_list (map (\<lambda>kv. Suc (length (dumps_member kv))) kvs)"
proof -
  have "sum_list (map f (sort_pairs kvs)) = sum_list (map f kvs)" for f :: "_ \<Rightarrow> nat"
  proof -
    have "mset (map f (sort_pairs kvs)) = mset (map f kvs)" by (simp add: sort_pairs_def)
    then show ?thesis by (metis sum_mset_sum_list)
  qed
  with json_join_length [of "map dumps_member (sort_pairs kvs)"] show ?thesis
    by (simp add: json_dumps_def comp_def)
qed

end
