(* ===== verification/Descriptor_Text.thy ===== *)
theory Descriptor_Text
  imports Recording_Descriptor Json_Text "HOL-Library.Monad_Syntax"
begin

text \<open>
  \<open>RecordingStreamDescriptor.to_json_bytes\<close> and \<open>parse_recording_descriptor\<close> of
  \<open>src/src/k5vision/media/recording_descriptor.py\<close>, on the text of JSON.

  What pydantic makes of one field is a parameter (\<open>pydantic\<close>): the text it gives a UUID and a
  datetime in \<open>model_dump(mode="json")\<close>, and how \<open>model_validate\<close> reads a UUID, an integer and a
  datetime out of a JSON value. The names of the fields, which of them may be left out, the refusal
  of any other name, the one-value literals and the codec are modelled. \<open>d\<close> is the depth of nested
  calls that the interpreter still allows the JSON reader.
\<close>

datatype descriptor_error_code =
    Descriptor_TOO_LARGE
  | Descriptor_MALFORMED
  | Descriptor_UNSUPPORTED_VERSION
  | Descriptor_INVALID_DESCRIPTOR

datatype descriptor_exn =
    RecordingDescriptorError descriptor_error_code
  | Descriptor_UnicodeEncodeError
  | Descriptor_RecursionError

record pydantic =
  pd_uuid_text :: "uuid \<Rightarrow> pystr"
  pd_time_text :: "py_datetime \<Rightarrow> pystr"
  pd_uuid :: "json_value \<Rightarrow> uuid option"
  pd_int :: "json_value \<Rightarrow> int option"
  pd_time :: "json_value \<Rightarrow> py_datetime option"

section \<open>Writing\<close>

primrec codec_text :: "video_codec \<Rightarrow> pystr" where
  "codec_text H264 = py ''h264''"
| "codec_text H265 = py ''h265''"
| "codec_text JPEG = py ''jpeg''"

text \<open>\<open>model_dump(mode="json")\<close>, in the order of the fields.\<close>

definition descriptor_dump :: "pydantic \<Rightarrow> recording_descriptor \<Rightarrow> (pystr \<times> json_scalar) list" where
  "descriptor_dump pd r =
     [(py ''schema_version'', SStr (py ''1'')),
      (py ''recording_format_version'', SStr (py ''1'')),
      (py ''recording_id'', SStr (pd_uuid_text pd (rd_recording_id r))),
      (py ''source_id'', SStr (pd_uuid_text pd (rd_source_id r))),
      (py ''media_kind'', SStr (py ''video'')),
      (py ''codec'', SStr (codec_text (rd_codec r))),
      (py ''payload_type'', SInt (rd_payload_type r)),
      (py ''clock_rate_hz'', SInt (rd_clock_rate_hz r)),
      (py ''started_at_utc'', SStr (pd_time_text pd (rd_started_at_utc r))),
      (py ''ended_at_utc'', SStr (pd_time_text pd (rd_ended_at_utc r))),
      (py ''duration_ms'', SInt (rd_duration_ms r)),
      (py ''rtp_timestamp_origin'', SInt (rd_rtp_timestamp_origin r)),
      (py ''packet_count'', SInt (rd_packet_count r)),
      (py ''payload_bytes'', SInt (rd_payload_bytes r)),
      (py ''file_bytes'', SInt (rd_file_bytes r)),
      (py ''integrity'', SStr (py ''crc32-per-record''))]"

definition descriptor_json :: "pydantic \<Rightarrow> recording_descriptor \<Rightarrow> pystr" where
  "descriptor_json pd r = json_dumps (descriptor_dump pd r)"

definition descriptor_to_json_bytes :: "pydantic \<Rightarrow> recording_descriptor \<Rightarrow> descriptor_exn + byte list" where
  "descriptor_to_json_bytes pd r =
     (case utf8_encode (descriptor_json pd r) of
        None \<Rightarrow> Inl Descriptor_UnicodeEncodeError | Some bs \<Rightarrow> Inr bs)"

section \<open>Reading\<close>

definition descriptor_keys :: "pystr list" where
  "descriptor_keys = map py
     [''schema_version'', ''recording_format_version'', ''recording_id'', ''source_id'', ''media_kind'', ''codec'',
      ''payload_type'', ''clock_rate_hz'', ''started_at_utc'', ''ended_at_utc'', ''duration_ms'',
      ''rtp_timestamp_origin'', ''packet_count'', ''payload_bytes'', ''file_bytes'', ''integrity'']"

text \<open>A required field, and a one-value literal that has a default.\<close>

definition required :: "(pystr \<times> json_value) list \<Rightarrow> string \<Rightarrow> (json_value \<Rightarrow> 'a option) \<Rightarrow> 'a option" where
  "required m name read = Option.bind (dict_get m (py name)) read"

definition literal_ok :: "(pystr \<times> json_value) list \<Rightarrow> string \<Rightarrow> string \<Rightarrow> bool" where
  "literal_ok m name value = (case dict_get m (py name) of None \<Rightarrow> True | Some v \<Rightarrow> v = VStr (py value))"

definition read_codec :: "json_value \<Rightarrow> video_codec option" where
  "read_codec v =
     (if v = VStr (py ''h264'') then Some H264
      else if v = VStr (py ''h265'') then Some H265
      else if v = VStr (py ''jpeg'') then Some JPEG
      else None)"

definition descriptor_fields :: "pydantic \<Rightarrow> (pystr \<times> json_value) list \<Rightarrow> recording_descriptor option" where
  "descriptor_fields pd m =
     (if \<not> list_all (\<lambda>kv. fst kv \<in> set descriptor_keys) m then None
      else if \<not> (literal_ok m ''schema_version'' ''1'' \<and> literal_ok m ''recording_format_version'' ''1'' \<and>
                 literal_ok m ''media_kind'' ''video'' \<and> literal_ok m ''integrity'' ''crc32-per-record'') then None
      else do {
        recording_id \<leftarrow> required m ''recording_id'' (pd_uuid pd);
        source_id \<leftarrow> required m ''source_id'' (pd_uuid pd);
        codec \<leftarrow> required m ''codec'' read_codec;
        payload_type \<leftarrow> required m ''payload_type'' (pd_int pd);
        clock_rate \<leftarrow> required m ''clock_rate_hz'' (pd_int pd);
        started \<leftarrow> required m ''started_at_utc'' (pd_time pd);
        ended \<leftarrow> required m ''ended_at_utc'' (pd_time pd);
        duration \<leftarrow> required m ''duration_ms'' (pd_int pd);
        origin \<leftarrow> required m ''rtp_timestamp_origin'' (pd_int pd);
        packets \<leftarrow> required m ''packet_count'' (pd_int pd);
        payload \<leftarrow> required m ''payload_bytes'' (pd_int pd);
        file_size \<leftarrow> required m ''file_bytes'' (pd_int pd);
        Some \<lparr>rd_recording_id = recording_id, rd_source_id = source_id, rd_codec = codec,
          rd_payload_type = payload_type, rd_clock_rate_hz = clock_rate, rd_started_at_utc = started,
          rd_ended_at_utc = ended, rd_duration_ms = duration, rd_rtp_timestamp_origin = origin,
          rd_packet_count = packets, rd_payload_bytes = payload, rd_file_bytes = file_size\<rparr>
      })"

text \<open>\<open>model_validate\<close>: the fields, their bounds, then the validator.\<close>

definition model_validate :: "pydantic \<Rightarrow> (pystr \<times> json_value) list \<Rightarrow> validation_error + recording_descriptor" where
  "model_validate pd m =
     (case descriptor_fields pd m of None \<Rightarrow> Inl ValidationError | Some r \<Rightarrow> mk_recording_descriptor r)"

datatype descriptor_payload = DescriptorStr pystr | DescriptorBytes "byte list"

definition parse_recording_descriptor ::
  "pydantic \<Rightarrow> nat \<Rightarrow> descriptor_payload \<Rightarrow> descriptor_exn + recording_descriptor" where
  "parse_recording_descriptor pd d payload =
     (case (case payload of
              DescriptorStr s \<Rightarrow> (case utf8_encode s of
                 None \<Rightarrow> Inl Descriptor_UnicodeEncodeError | Some bs \<Rightarrow> Inr bs)
            | DescriptorBytes bs \<Rightarrow> Inr bs) of
        Inl e \<Rightarrow> Inl e
      | Inr encoded \<Rightarrow>
          (if max_descriptor_bytes < len encoded
           then Inl (RecordingDescriptorError Descriptor_TOO_LARGE)
           else case utf8_decode encoded of
             None \<Rightarrow> Inl (RecordingDescriptorError Descriptor_MALFORMED)
           | Some decoded \<Rightarrow>
               (case json_loads d decoded of
                  Inl JSONDecodeError \<Rightarrow> Inl (RecordingDescriptorError Descriptor_MALFORMED)
                | Inl JSONRecursionError \<Rightarrow> Inl Descriptor_RecursionError
                | Inr (VDict raw) \<Rightarrow>
                    (if dict_get raw (py ''schema_version'') \<noteq> Some (VStr (py ''1''))
                     then Inl (RecordingDescriptorError Descriptor_UNSUPPORTED_VERSION)
                     else case model_validate pd raw of
                       Inl ValidationError \<Rightarrow> Inl (RecordingDescriptorError Descriptor_INVALID_DESCRIPTOR)
                     | Inr r \<Rightarrow> Inr r)
                | Inr _ \<Rightarrow> Inl (RecordingDescriptorError Descriptor_MALFORMED))))"

section \<open>Correctness\<close>

text \<open>
  The parser only ever returns descriptors that satisfy the contract, and every failure
  that is not a lone surrogate in a text argument or a recursion error of the JSON reader is one
  of its own four codes.
\<close>

lemma parse_descriptor_safe:
  "case parse_recording_descriptor pd d payload of
     Inr r \<Rightarrow> mk_recording_descriptor r = Inr r
   | Inl (RecordingDescriptorError c) \<Rightarrow> True
   | Inl Descriptor_UnicodeEncodeError \<Rightarrow> (\<exists>s. payload = DescriptorStr s \<and> utf8_encode s = None)
   | Inl Descriptor_RecursionError \<Rightarrow> (\<exists>s. json_loads d s = Inl JSONRecursionError)"
  unfolding parse_recording_descriptor_def model_validate_def
  by (auto split: descriptor_payload.split option.split sum.split json_value.split json_exn.split
      validation_error.split simp: recording_descriptor_wf_def dest!: mk_recording_descriptor_Inr [THEN iffD1])

text \<open>
  What is relied on of pydantic: a UUID and an aware datetime in UTC are read back from their own
  text, an integer of JSON is itself, and such a text is a short one. Microseconds of a datetime
  end with the year 9999.
\<close>

definition real_datetime :: "py_datetime \<Rightarrow> bool" where
  "real_datetime t \<longleftrightarrow> 0 \<le> dt_microseconds t \<and> dt_microseconds t < 315537897600000000"

definition short_text :: "pystr \<Rightarrow> bool" where
  "short_text s \<longleftrightarrow> list_all is_scalar s \<and> length s \<le> 64"

definition reads_its_texts :: "pydantic \<Rightarrow> bool" where
  "reads_its_texts pd \<longleftrightarrow>
     (\<forall>u. pd_uuid pd (VStr (pd_uuid_text pd u)) = Some u \<and> short_text (pd_uuid_text pd u)) \<and>
     (\<forall>t. real_datetime t \<and> dt_utcoffset t = Some 0 \<longrightarrow>
        pd_time pd (VStr (pd_time_text pd t)) = Some t \<and> short_text (pd_time_text pd t)) \<and>
     (\<forall>i. pd_int pd (VInt i) = Some i)"

lemma py_scalars [simp]: "list_all is_scalar (py s)"
proof -
  have small: "of_char c < (256 :: nat)" for c
    using mod_less_divisor [of 256 "of_char c :: nat"] by (simp del: mod_less_divisor)
  have "is_scalar n" if "n < 256" for n using that by (simp add: is_scalar_def is_surrogate_def)
  then have "is_scalar (of_char c)" for c using small by blast
  then show ?thesis by (simp add: py_def list_all_iff)
qed

lemma length_py [simp]: "length (py s) = length s"
  by (simp add: py_def)

text \<open>A member takes a bounded number of characters.\<close>

definition plain_name :: "pystr \<Rightarrow> bool" where
  "plain_name k \<longleftrightarrow> list_all (\<lambda>c. 32 \<le> c \<and> c \<le> 126 \<and> c \<noteq> 34 \<and> c \<noteq> 92) k"

definition int_small :: "json_scalar \<Rightarrow> bool" where
  "int_small v \<longleftrightarrow> (case v of SInt i \<Rightarrow> 0 \<le> i \<and> i < 100000000000 | SStr _ \<Rightarrow> True)"

definition member_bound :: "pystr \<times> json_scalar \<Rightarrow> nat" where
  "member_bound kv = length (fst kv) + (case snd kv of SStr s \<Rightarrow> 6 + 12 * length s | SInt _ \<Rightarrow> 15)"

lemma dumps_member_length:
  assumes "member_ok kv" and "plain_name (fst kv)" and "int_small (snd kv)"
  shows "Suc (length (dumps_member kv)) \<le> member_bound kv"
proof -
  have "length (dumps_string (fst kv)) = 2 + length (fst kv)"
    using assms(2) by (simp add: plain_name_def dumps_string_plain)
  with assms(1,3) dumps_string_bounds int_text_bounds [of _ 10] show ?thesis
    by (cases "snd kv") (auto simp: member_ok_def int_small_def member_bound_def dumps_member_def)
qed

lemma json_dumps_bounded:
  assumes "list_all member_ok kvs" and "list_all (plain_name \<circ> fst) kvs" and "list_all (int_small \<circ> snd) kvs"
  shows "length (json_dumps kvs) \<le> 2 + sum_list (map member_bound kvs)"
proof -
  have "sum_list (map (\<lambda>kv. Suc (length (dumps_member kv))) kvs) \<le> sum_list (map member_bound kvs)"
    using assms by (intro sum_list_mono dumps_member_length) (auto simp: list_all_iff)
  with json_dumps_length [of kvs] show ?thesis by simp
qed

lemma descriptor_dump_ok:
  assumes "reads_its_texts pd" and "recording_descriptor_wf r"
    and "real_datetime (rd_started_at_utc r)" and "real_datetime (rd_ended_at_utc r)"
  shows "list_all member_ok (descriptor_dump pd r)"
    and "length (descriptor_json pd r) \<le> 4096"
proof -
  have r: "descriptor_fields_ok r" "dt_utcoffset (rd_started_at_utc r) = Some 0" "dt_utcoffset (rd_ended_at_utc r) = Some 0"
    using assms(2) by (auto simp: recording_descriptor_wf_def mk_recording_descriptor_def validate_contract_def
        utc_millisecond_def Let_def split: if_splits)
  have short: "short_text (pd_uuid_text pd u)" for u using assms(1) by (simp add: reads_its_texts_def)
  have times: "short_text (pd_time_text pd (rd_started_at_utc r))" "short_text (pd_time_text pd (rd_ended_at_utc r))"
    using assms(1,3,4) r(2,3) by (simp_all add: reads_its_texts_def)
  have codec: "list_all is_scalar (codec_text c)" "length (codec_text c) = 4" for c by (cases c; simp)+
  show ok: "list_all member_ok (descriptor_dump pd r)"
    using short times codec by (simp add: descriptor_dump_def member_ok_def short_text_def)
  have plain: "list_all (plain_name \<circ> fst) (descriptor_dump pd r)"
    by (simp add: descriptor_dump_def plain_name_def py_def)
  have small: "list_all (int_small \<circ> snd) (descriptor_dump pd r)"
    using r(1) by (simp add: descriptor_dump_def int_small_def descriptor_fields_ok_def)
  have "sum_list (map member_bound (descriptor_dump pd r)) \<le> 4000"
    using short [of "rd_recording_id r"] short [of "rd_source_id r"] times
    by (simp add: descriptor_dump_def member_bound_def short_text_def codec)
  with json_dumps_bounded [OF ok plain small] show "length (descriptor_json pd r) \<le> 4096"
    by (simp add: descriptor_json_def)
qed

lemma map_of_apsnd: "map_of (map (apsnd f) kvs) k = map_option f (map_of kvs k)"
  by (induction kvs) auto

lemma dict_get_written:
  assumes "distinct (map fst kvs)"
  shows "dict_get (map (apsnd scalar_value) (sort_pairs kvs)) k = map_option scalar_value (map_of kvs k)"
proof -
  let ?m = "map (apsnd scalar_value) (sort_pairs kvs)"
  have "map fst ?m = map fst (sort_pairs kvs)" by simp
  then have d: "distinct (map fst ?m)" using assms by (simp only: sort_pairs_simps)
  have "dict_get ?m k = map_of ?m k"
    unfolding dict_get_def by (rule map_of_set_eq [THEN fun_cong]) (use d in \<open>simp_all add: rev_map [symmetric]\<close>)
  also have "\<dots> = map_option scalar_value (map_of (sort_pairs kvs) k)" by (rule map_of_apsnd)
  finally show ?thesis using assms by simp
qed

text \<open>
  C40: the JSON text written for a valid descriptor encodes to at most 4096 bytes, and the parser
  reads the descriptor back from these bytes and from the text, whenever the interpreter allows the
  JSON reader one nested call. Of pydantic it is assumed that a UUID, a UTC datetime and an integer
  are read back from what is written for them alone, and that such a text is a short one.
\<close>

theorem descriptor_roundtrip:
  assumes "mk_recording_descriptor r = Inr r" and "reads_its_texts pd"
    and "real_datetime (rd_started_at_utc r)" and "real_datetime (rd_ended_at_utc r)"
  shows "\<exists>bs. descriptor_to_json_bytes pd r = Inr bs \<and> len bs \<le> max_descriptor_bytes \<and>
    parse_recording_descriptor pd (Suc d) (DescriptorBytes bs) = Inr r \<and>
    parse_recording_descriptor pd (Suc d) (DescriptorStr (descriptor_json pd r)) = Inr r"
proof -
  have wf: "recording_descriptor_wf r" using assms(1) by (simp add: recording_descriptor_wf_def)
  note dump = descriptor_dump_ok [OF assms(2) wf assms(3,4)]
  let ?bs = "map of_nat (descriptor_json pd r) :: byte list"
  have enc: "utf8_encode (descriptor_json pd r) = Some ?bs"
    unfolding descriptor_json_def by (rule utf8_encode_ascii [OF json_dumps_ascii [OF dump(1)]])
  let ?m = "map (apsnd scalar_value) (sort_pairs (descriptor_dump pd r))"
  have loads: "json_loads (Suc d) (descriptor_json pd r) = Inr (VDict ?m)"
    unfolding descriptor_json_def by (rule json_loads_dumps [OF dump(1)])
  have "distinct (map fst (descriptor_dump pd r))" by (simp add: descriptor_dump_def py_eq)
  note get = dict_get_written [OF this]
  have field: "dict_get ?m (py name) = map_option scalar_value (map_of (descriptor_dump pd r) (py name))" for name
    by (rule get)
  have keys: "list_all (\<lambda>kv. fst kv \<in> set descriptor_keys) ?m"
  proof -
    have "list_all (\<lambda>kv. fst kv \<in> set descriptor_keys) (descriptor_dump pd r)"
      by (simp add: descriptor_dump_def descriptor_keys_def)
    then show ?thesis by (auto simp: list_all_iff)
  qed
  have lits: "literal_ok ?m ''schema_version'' ''1'' \<and> literal_ok ?m ''recording_format_version'' ''1'' \<and>
      literal_ok ?m ''media_kind'' ''video'' \<and> literal_ok ?m ''integrity'' ''crc32-per-record''"
    unfolding literal_ok_def field by (simp add: descriptor_dump_def py_eq)
  have version: "dict_get ?m (py ''schema_version'') = Some (VStr (py ''1''))"
    unfolding field by (simp add: descriptor_dump_def)
  have utc: "dt_utcoffset (rd_started_at_utc r) = Some 0" "dt_utcoffset (rd_ended_at_utc r) = Some 0"
    using wf by (auto simp: recording_descriptor_wf_def mk_recording_descriptor_def validate_contract_def
        utc_millisecond_def Let_def split: if_splits)
  have reads: "pd_uuid pd (VStr (pd_uuid_text pd u)) = Some u" "pd_int pd (VInt i) = Some i"
    "pd_time pd (VStr (pd_time_text pd (rd_started_at_utc r))) = Some (rd_started_at_utc r)"
    "pd_time pd (VStr (pd_time_text pd (rd_ended_at_utc r))) = Some (rd_ended_at_utc r)" for u i
    using assms(2-4) utc by (simp_all add: reads_its_texts_def)
  have codec: "read_codec (VStr (codec_text c)) = Some c" for c by (cases c) (simp_all add: read_codec_def py_eq)
  have "descriptor_fields pd ?m = Some r"
    unfolding descriptor_fields_def required_def field using keys lits
    by (simp add: descriptor_dump_def py_eq reads codec)
  then have "model_validate pd ?m = Inr r" using assms(1) by (simp add: model_validate_def)
  with enc dump(2) loads version utf8_decode_encode [OF enc] show ?thesis
    by (simp add: descriptor_to_json_bytes_def parse_recording_descriptor_def)
qed

text \<open>Converters that satisfy the assumption: decimal texts.\<close>

definition sample_pydantic :: pydantic where
  "sample_pydantic =
     \<lparr>pd_uuid_text = (\<lambda>u. int_text (uint u)),
      pd_time_text = (\<lambda>t. int_text (dt_microseconds t)),
      pd_uuid = (\<lambda>v. case v of VStr s \<Rightarrow> Some (word_of_int (digits_value s)) | _ \<Rightarrow> None),
      pd_int = (\<lambda>v. case v of VInt i \<Rightarrow> Some i | _ \<Rightarrow> None),
      pd_time = (\<lambda>v. case v of VStr s \<Rightarrow> Some \<lparr>dt_microseconds = digits_value s, dt_utcoffset = Some 0\<rparr>
                           | _ \<Rightarrow> None)\<rparr>"

lemma sample_pydantic_reads: "reads_its_texts sample_pydantic"
proof -
  have val: "digits_value (int_text i) = i" if "0 \<le> i" for i
    using that by (simp add: int_text_def digits_value_nat_text)
  have short: "short_text (int_text i)" if "0 \<le> i" "i < 10 ^ Suc 40" for i
  proof -
    have "list_all is_scalar (nat_text n)" for n
      using nat_text_digits [of n] by (auto simp: list_all_iff is_digit_def is_scalar_def is_surrogate_def)
    with int_text_bounds [OF that] that(1) show ?thesis by (simp add: short_text_def int_text_def)
  qed
  have "uint u < 10 ^ Suc 40" for u :: uuid
    by (rule less_trans [OF uint_lt2p]) simp
  moreover have "pd_time sample_pydantic (VStr (pd_time_text sample_pydantic t)) = Some t"
    if "real_datetime t" "dt_utcoffset t = Some 0" for t
    using that val by (simp add: sample_pydantic_def real_datetime_def)
  ultimately show ?thesis
    using short val by (simp add: reads_its_texts_def sample_pydantic_def real_datetime_def)
qed

theorem descriptor_roundtrip_witness:
  "\<exists>bs. descriptor_to_json_bytes sample_pydantic (sample_descriptor 1000000 1000) = Inr bs \<and>
    parse_recording_descriptor sample_pydantic 1 (DescriptorBytes bs) = Inr (sample_descriptor 1000000 1000)"
proof -
  have "real_datetime (rd_started_at_utc (sample_descriptor 1000000 1000))"
    "real_datetime (rd_ended_at_utc (sample_descriptor 1000000 1000))"
    by (simp_all add: real_datetime_def sample_descriptor_def)
  from descriptor_roundtrip [OF sample_descriptor_accepted sample_pydantic_reads this, of 0] show ?thesis by auto
qed

end
