(* ===== verification/File_System.thy ===== *)
theory File_System
  imports K5_Prelude
begin

text \<open>
  The part of the operating system that the recording sinks use: one directory that maps names
  to inodes, the bytes of every inode, and the system calls on them. \<open>fs_faults\<close> says what goes
  wrong: every call takes the next element, \<open>FFail\<close> makes it raise \<open>OSError\<close> with no effect,
  \<open>FShort n\<close> makes a write stop after \<open>n\<close> bytes, an empty list means no more faults. A theorem
  for all states therefore holds for every pattern of failing calls.

  A computation takes the state of the world and gives its result or the \<open>OSError\<close> it raises,
  together with the next state, because the objects and the directory keep what was done before
  the exception. \<open>wp\<close> is its weakest precondition.
\<close>

section \<open>Computations\<close>

datatype os_error = FileExistsErr | FileNotFoundErr | OtherOSErr

type_synonym ('s, 'a) io = "'s \<Rightarrow> (os_error + 'a) \<times> 's"

definition io_return :: "'a \<Rightarrow> ('s, 'a) io" where
  "io_return x s = (Inr x, s)"

definition io_raise :: "os_error \<Rightarrow> ('s, 'a) io" where
  "io_raise e s = (Inl e, s)"

definition io_bind :: "('s, 'a) io \<Rightarrow> ('a \<Rightarrow> ('s, 'b) io) \<Rightarrow> ('s, 'b) io" where
  "io_bind m f s = (case m s of (Inl e, s') \<Rightarrow> (Inl e, s') | (Inr x, s') \<Rightarrow> f x s')"

definition io_seq :: "('s, 'a) io \<Rightarrow> ('s, 'b) io \<Rightarrow> ('s, 'b) io" where
  "io_seq m n = io_bind m (\<lambda>_. n)"

text \<open>\<open>try: m except: h\<close>, and \<open>try: m finally: f\<close>.\<close>

definition io_catch :: "('s, 'a) io \<Rightarrow> (os_error \<Rightarrow> ('s, 'a) io) \<Rightarrow> ('s, 'a) io" where
  "io_catch m h s = (case m s of (Inl e, s') \<Rightarrow> h e s' | (Inr x, s') \<Rightarrow> (Inr x, s'))"

definition io_finally :: "('s, 'a) io \<Rightarrow> ('s, unit) io \<Rightarrow> ('s, 'a) io" where
  "io_finally m f s =
     (case m s of (r, s') \<Rightarrow> (case f s' of (Inl e, s'') \<Rightarrow> (Inl e, s'') | (Inr _, s'') \<Rightarrow> (r, s'')))"

definition io_ignore :: "('s, unit) io \<Rightarrow> ('s, unit) io" where
  "io_ignore m = io_catch m (\<lambda>_. io_return ())"

definition io_update :: "('s \<Rightarrow> 's) \<Rightarrow> ('s, unit) io" where
  "io_update f s = (Inr (), f s)"

definition io_when :: "bool \<Rightarrow> ('s, unit) io \<Rightarrow> ('s, unit) io" where
  "io_when b m = (if b then m else io_return ())"

section \<open>The directory and its calls\<close>

datatype fault = FOk | FFail | FShort nat

record fs =
  fs_dir :: "string \<rightharpoonup> nat"
  fs_data :: "nat \<Rightarrow> byte list"
  fs_next :: nat
  fs_faults :: "fault list"

definition eat :: "fs \<Rightarrow> fs" where
  "eat f = f\<lparr>fs_faults := tl (fs_faults f)\<rparr>"

definition fault_now :: "fs \<Rightarrow> fault" where
  "fault_now f = (case fs_faults f of [] \<Rightarrow> FOk | x # _ \<Rightarrow> x)"

definition syscall :: "(fs, 'a) io \<Rightarrow> (fs, 'a) io" where
  "syscall m f = (if fault_now f = FFail then (Inl OtherOSErr, eat f) else m (eat f))"

text \<open>Calls that only succeed or fail: \<open>mkdir(exist_ok=True)\<close>, \<open>fsync\<close>, \<open>close\<close>, \<open>flush\<close>, \<open>fdopen\<close>.\<close>

definition sys_simple :: "(fs, unit) io" where
  "sys_simple = syscall (io_return ())"

definition sys_exists :: "string \<Rightarrow> (fs, bool) io" where
  "sys_exists n = syscall (\<lambda>f. (Inr (fs_dir f n \<noteq> None), f))"

text \<open>\<open>os.open\<close> with \<open>O_CREAT | O_EXCL\<close>; the descriptor of a new file is its inode.\<close>

definition sys_open_excl :: "string \<Rightarrow> (fs, nat) io" where
  "sys_open_excl n = syscall (\<lambda>f.
     if fs_dir f n \<noteq> None then (Inl FileExistsErr, f)
     else (Inr (fs_next f), f\<lparr>fs_dir := (fs_dir f)(n \<mapsto> fs_next f), fs_data := (fs_data f)(fs_next f := []),
                             fs_next := Suc (fs_next f)\<rparr>))"

definition sys_write :: "nat \<Rightarrow> byte list \<Rightarrow> (fs, nat) io" where
  "sys_write fd bs f =
     (case fault_now f of
        FFail \<Rightarrow> (Inl OtherOSErr, eat f)
      | FOk \<Rightarrow> (Inr (length bs), (eat f)\<lparr>fs_data := (fs_data f)(fd := fs_data f fd @ bs)\<rparr>)
      | FShort n \<Rightarrow> (Inr (length (take n bs)), (eat f)\<lparr>fs_data := (fs_data f)(fd := fs_data f fd @ take n bs)\<rparr>))"

definition sys_read_bytes :: "string \<Rightarrow> (fs, byte list) io" where
  "sys_read_bytes n = syscall (\<lambda>f.
     case fs_dir f n of None \<Rightarrow> (Inl FileNotFoundErr, f) | Some i \<Rightarrow> (Inr (fs_data f i), f))"

definition sys_stat :: "string \<Rightarrow> (fs, nat) io" where
  "sys_stat n = syscall (\<lambda>f.
     case fs_dir f n of None \<Rightarrow> (Inl FileNotFoundErr, f) | Some i \<Rightarrow> (Inr i, f))"

definition sys_unlink :: "string \<Rightarrow> (fs, unit) io" where
  "sys_unlink n = syscall (\<lambda>f.
     case fs_dir f n of None \<Rightarrow> (Inl FileNotFoundErr, f)
     | Some i \<Rightarrow> (Inr (), f\<lparr>fs_dir := (fs_dir f)(n := None)\<rparr>))"

definition sys_link :: "string \<Rightarrow> string \<Rightarrow> (fs, unit) io" where
  "sys_link src dst = syscall (\<lambda>f.
     case fs_dir f src of None \<Rightarrow> (Inl FileNotFoundErr, f)
     | Some i \<Rightarrow> (if fs_dir f dst \<noteq> None then (Inl FileExistsErr, f)
                 else (Inr (), f\<lparr>fs_dir := (fs_dir f)(dst \<mapsto> i)\<rparr>)))"

text \<open>A call made by a method, whose state is the world and the object.\<close>

definition on_fs :: "(fs, 'a) io \<Rightarrow> (fs \<times> 'o, 'a) io" where
  "on_fs m s = (case m (fst s) of (r, f) \<Rightarrow> (r, (f, snd s)))"

definition on_self :: "('o \<Rightarrow> 'o) \<Rightarrow> (fs \<times> 'o, unit) io" where
  "on_self g = io_update (\<lambda>(f, ob). (f, g ob))"

definition with_self :: "('o \<Rightarrow> (fs \<times> 'o, 'a) io) \<Rightarrow> (fs \<times> 'o, 'a) io" where
  "with_self k s = k (snd s) s"

text \<open>The write loop: \<open>while view: written = write(view); if written <= 0: raise OSError; ...\<close>.\<close>

function write_all :: "nat \<Rightarrow> byte list \<Rightarrow> (fs, unit) io" where
  "write_all fd view f =
     (if view = [] then (Inr (), f)
      else case sys_write fd view f of
        (Inl e, f') \<Rightarrow> (Inl e, f')
      | (Inr written, f') \<Rightarrow>
          (if written = 0 then (Inl OtherOSErr, f') else write_all fd (drop written view) f'))"
  by pat_completeness auto
termination
  by (relation "measure (\<lambda>(fd, view, f). length view)") auto

declare write_all.simps [simp del]

section \<open>Weakest preconditions\<close>

definition wp :: "('s, 'a) io \<Rightarrow> ('a \<Rightarrow> 's \<Rightarrow> bool) \<Rightarrow> (os_error \<Rightarrow> 's \<Rightarrow> bool) \<Rightarrow> 's \<Rightarrow> bool" where
  "wp m Q E s = (case m s of (Inl e, s') \<Rightarrow> E e s' | (Inr x, s') \<Rightarrow> Q x s')"

lemma wp_return [simp]: "wp (io_return x) Q E = Q x"
  and wp_raise [simp]: "wp (io_raise e) Q E = E e"
  by (rule ext, simp add: wp_def io_return_def io_raise_def)+

lemma wp_update [simp]: "wp (io_update g) Q E s = Q () (g s)"
  by (simp add: wp_def io_update_def)

lemma wp_bind [simp]: "wp (io_bind m f) Q E = wp m (\<lambda>x. wp (f x) Q E) E"
  by (rule ext) (auto simp: wp_def io_bind_def split: prod.split sum.split)

lemma wp_seq [simp]: "wp (io_seq m n) Q E = wp m (\<lambda>_. wp n Q E) E"
  by (simp add: io_seq_def)

lemma wp_catch [simp]: "wp (io_catch m h) Q E = wp m Q (\<lambda>e. wp (h e) Q E)"
  by (rule ext) (auto simp: wp_def io_catch_def split: prod.split sum.split)

lemma wp_finally [simp]:
  "wp (io_finally m f) Q E = wp m (\<lambda>x. wp f (\<lambda>_. Q x) E) (\<lambda>e. wp f (\<lambda>_. E e) E)"
  by (rule ext) (auto simp: wp_def io_finally_def split: prod.split sum.split)

lemma wp_ignore [simp]: "wp (io_ignore m) Q E = wp m Q (\<lambda>_. Q ())"
  by (simp add: io_ignore_def)

lemma wp_when [simp]: "wp (io_when b m) Q E s = (if b then wp m Q E s else Q () s)"
  by (simp add: io_when_def)

lemma wp_if [simp]: "wp (if b then m else n) Q E = (if b then wp m Q E else wp n Q E)"
  by simp

lemma wp_case_option [simp]:
  "wp (case x of None \<Rightarrow> m | Some y \<Rightarrow> n y) Q E = (case x of None \<Rightarrow> wp m Q E | Some y \<Rightarrow> wp (n y) Q E)"
  by (simp split: option.split)

lemma wp_with_self [simp]: "wp (with_self k) Q E (f, ob) = wp (k ob) Q E (f, ob)"
  by (simp add: wp_def with_self_def)

lemma wp_on_fs [simp]:
  "wp (on_fs m) Q E (f, ob) = wp m (\<lambda>x f'. Q x (f', ob)) (\<lambda>e f'. E e (f', ob)) f"
  by (simp add: wp_def on_fs_def split: prod.split sum.split)

lemma wp_on_self [simp]: "wp (on_self g) Q E (f, ob) = Q () (f, g ob)"
  by (simp add: on_self_def)

lemma wp_mono:
  "wp m Q E s \<Longrightarrow> (\<And>x s'. Q x s' \<Longrightarrow> Q' x s') \<Longrightarrow> (\<And>e s'. E e s' \<Longrightarrow> E' e s') \<Longrightarrow> wp m Q' E' s"
  by (auto simp: wp_def split: prod.splits sum.splits)

lemma wpD_Inr: "wp m Q E s \<Longrightarrow> m s = (Inr x, s') \<Longrightarrow> Q x s'"
  and wpD_Inl: "wp m Q E s \<Longrightarrow> m s = (Inl e, s') \<Longrightarrow> E e s'"
  by (simp_all add: wp_def)

lemma eat_simps [simp]:
  "fs_dir (eat f) = fs_dir f" "fs_data (eat f) = fs_data f" "fs_next (eat f) = fs_next f"
  by (simp_all add: eat_def)

lemma wp_syscallI: "E OtherOSErr (eat f) \<Longrightarrow> wp m Q E (eat f) \<Longrightarrow> wp (syscall m) Q E f"
  by (simp add: wp_def syscall_def)

lemma wp_simpleI: "E OtherOSErr (eat f) \<Longrightarrow> Q () (eat f) \<Longrightarrow> wp sys_simple Q E f"
  unfolding sys_simple_def by (rule wp_syscallI) simp_all

lemma wp_existsI:
  "E OtherOSErr (eat f) \<Longrightarrow> Q (fs_dir f n \<noteq> None) (eat f) \<Longrightarrow> wp (sys_exists n) Q E f"
  unfolding sys_exists_def by (rule wp_syscallI) (simp_all add: wp_def)

lemma wp_open_exclI:
  "E OtherOSErr (eat f) \<Longrightarrow> (fs_dir f n \<noteq> None \<Longrightarrow> E FileExistsErr (eat f)) \<Longrightarrow>
   (fs_dir f n = None \<Longrightarrow>
     Q (fs_next f) ((eat f)\<lparr>fs_dir := (fs_dir f)(n \<mapsto> fs_next f), fs_data := (fs_data f)(fs_next f := []),
                           fs_next := Suc (fs_next f)\<rparr>)) \<Longrightarrow>
   wp (sys_open_excl n) Q E f"
  unfolding sys_open_excl_def by (rule wp_syscallI) (simp_all add: wp_def)

lemma wp_read_bytesI:
  "E OtherOSErr (eat f) \<Longrightarrow> (fs_dir f n = None \<Longrightarrow> E FileNotFoundErr (eat f)) \<Longrightarrow>
   (\<And>i. fs_dir f n = Some i \<Longrightarrow> Q (fs_data f i) (eat f)) \<Longrightarrow> wp (sys_read_bytes n) Q E f"
  unfolding sys_read_bytes_def by (rule wp_syscallI) (simp_all add: wp_def split: option.split)

lemma wp_statI:
  "E OtherOSErr (eat f) \<Longrightarrow> (fs_dir f n = None \<Longrightarrow> E FileNotFoundErr (eat f)) \<Longrightarrow>
   (\<And>i. fs_dir f n = Some i \<Longrightarrow> Q i (eat f)) \<Longrightarrow> wp (sys_stat n) Q E f"
  unfolding sys_stat_def by (rule wp_syscallI) (simp_all add: wp_def split: option.split)

lemma wp_unlinkI:
  "E OtherOSErr (eat f) \<Longrightarrow> (fs_dir f n = None \<Longrightarrow> E FileNotFoundErr (eat f)) \<Longrightarrow>
   (\<And>i. fs_dir f n = Some i \<Longrightarrow> Q () ((eat f)\<lparr>fs_dir := (fs_dir f)(n := None)\<rparr>)) \<Longrightarrow> wp (sys_unlink n) Q E f"
  unfolding sys_unlink_def by (rule wp_syscallI) (simp_all add: wp_def split: option.split)

lemma wp_linkI:
  "E OtherOSErr (eat f) \<Longrightarrow> (fs_dir f src = None \<Longrightarrow> E FileNotFoundErr (eat f)) \<Longrightarrow>
   (\<And>i. fs_dir f src = Some i \<Longrightarrow> fs_dir f dst \<noteq> None \<Longrightarrow> E FileExistsErr (eat f)) \<Longrightarrow>
   (\<And>i. fs_dir f src = Some i \<Longrightarrow> fs_dir f dst = None \<Longrightarrow>
      Q () ((eat f)\<lparr>fs_dir := (fs_dir f)(dst \<mapsto> i)\<rparr>)) \<Longrightarrow> wp (sys_link src dst) Q E f"
  unfolding sys_link_def by (rule wp_syscallI) (simp_all add: wp_def split: option.split)

lemma sys_write_cases:
  obtains (fail) "sys_write fd bs f = (Inl OtherOSErr, eat f)"
  | (wrote) k where "k \<le> length bs"
      "sys_write fd bs f = (Inr k, (eat f)\<lparr>fs_data := (fs_data f)(fd := fs_data f fd @ take k bs)\<rparr>)"
proof (cases "fault_now f")
  case FOk
  then show ?thesis using wrote [of "length bs"] by (simp add: sys_write_def)
next
  case FFail
  then show ?thesis using fail by (simp add: sys_write_def)
next
  case (FShort n)
  have "take (min (length bs) n) bs = take n bs" by (simp add: min_def)
  with FShort show ?thesis using wrote [of "min (length bs) n"] by (simp add: sys_write_def)
qed

lemma wp_writeI:
  "E OtherOSErr (eat f) \<Longrightarrow>
   (\<And>k. k \<le> length bs \<Longrightarrow> Q k ((eat f)\<lparr>fs_data := (fs_data f)(fd := fs_data f fd @ take k bs)\<rparr>)) \<Longrightarrow>
   wp (sys_write fd bs) Q E f"
  by (rule sys_write_cases [of fd bs f]) (simp_all add: wp_def)

text \<open>The loop writes everything, or a part of it and raises.\<close>

lemma wp_write_allI:
  assumes "\<And>f' k. fs_dir f' = fs_dir f \<Longrightarrow> fs_next f' = fs_next f \<Longrightarrow>
      fs_data f' = (fs_data f)(fd := fs_data f fd @ take k bs) \<Longrightarrow> E OtherOSErr f'"
    and "\<And>f'. fs_dir f' = fs_dir f \<Longrightarrow> fs_next f' = fs_next f \<Longrightarrow>
      fs_data f' = (fs_data f)(fd := fs_data f fd @ bs) \<Longrightarrow> Q () f'"
  shows "wp (write_all fd bs) Q E f"
  using assms
proof (induction fd bs f rule: write_all.induct)
  case (1 fd bs f)
  note eq = write_all.simps [of fd bs f]
  show ?case
  proof (cases "bs = []")
    case True
    with "1.prems"(2) [of f] show ?thesis by (simp add: wp_def write_all.simps [of fd "[]" f])
  next
    case False
    show ?thesis
    proof (cases rule: sys_write_cases [of fd bs f])
      case fail
      with False "1.prems"(1) [of "eat f" 0] show ?thesis by (simp add: wp_def eq)
    next
      case (wrote k)
      let ?f = "(eat f)\<lparr>fs_data := (fs_data f)(fd := fs_data f fd @ take k bs)\<rparr>"
      show ?thesis
      proof (cases "k = 0")
        case True
        with wrote False "1.prems"(1) [of ?f 0] show ?thesis by (simp add: wp_def eq)
      next
        case k: False
        have "wp (write_all fd (drop k bs)) Q E ?f"
        proof (rule "1.IH" [OF False wrote(2) [symmetric] refl k])
          fix f' :: fs and j
          assume "fs_dir f' = fs_dir ?f" "fs_next f' = fs_next ?f"
            "fs_data f' = (fs_data ?f)(fd := fs_data ?f fd @ take j (drop k bs))"
          then show "E OtherOSErr f'" by (intro "1.prems"(1) [of f' "k + j"]) (simp_all add: take_add)
        next
          fix f' :: fs
          assume "fs_dir f' = fs_dir ?f" "fs_next f' = fs_next ?f"
            "fs_data f' = (fs_data ?f)(fd := fs_data ?f fd @ drop k bs)"
          then show "Q () f'" by (intro "1.prems"(2) [of f']) simp_all
        qed
        with wrote(2) False k show ?thesis by (simp add: wp_def eq)
      qed
    qed
  qed
qed

lemmas io_rules = wp_simpleI wp_existsI wp_open_exclI wp_read_bytesI wp_statI wp_unlinkI wp_linkI
  wp_writeI wp_write_allI

text \<open>An empty directory on a disk that does not fail.\<close>

definition empty_fs :: fs where
  "empty_fs = \<lparr>fs_dir = Map.empty, fs_data = (\<lambda>_. []), fs_next = 0, fs_faults = []\<rparr>"

end
