(* ===== verification/Recording_Attempt.thy ===== *)
theory Recording_Attempt
  imports File_System
begin

text \<open>
  \<open>src/src/k5vision/media/recording_attempt.py\<close>: one attempt to record under a logical id. The
  marker file makes attempts for the same id exclusive, the payload goes to a staging file with
  a random token in its name, and \<open>publish\<close> links it under the final name. The token of
  \<open>secrets.token_hex\<close> is a parameter. Paths are names in the root directory.

  The sinks extend the record by their own fields, so the methods work on every extension.
\<close>

section \<open>Methods\<close>

record attempt =
  at_lock_path :: string
  at_staging_path :: string
  at_token :: string
  at_owns_lock :: bool
  at_owns_staging :: bool

definition encode_ascii :: "string \<Rightarrow> byte list" where
  "encode_ascii s = map of_char s"

definition attempt_lock_path :: "string \<Rightarrow> string \<Rightarrow> string" where
  "attempt_lock_path recording_id lock_suffix = ''.'' @ recording_id @ lock_suffix"

definition attempt_staging_path :: "string \<Rightarrow> string \<Rightarrow> string \<Rightarrow> string" where
  "attempt_staging_path recording_id token staging_suffix =
     ''.'' @ recording_id @ ''.'' @ token @ staging_suffix"

definition attempt_init :: "string \<Rightarrow> string \<Rightarrow> string \<Rightarrow> string \<Rightarrow> attempt" where
  "attempt_init recording_id lock_suffix staging_suffix token =
     \<lparr>at_lock_path = attempt_lock_path recording_id lock_suffix,
      at_staging_path = attempt_staging_path recording_id token staging_suffix,
      at_token = token, at_owns_lock = False, at_owns_staging = False\<rparr>"

definition release_lock :: "(fs \<times> 'o attempt_scheme, unit) io" where
  "release_lock = with_self (\<lambda>a.
     if \<not> at_owns_lock a then io_return ()
     else io_bind
       (io_catch (io_bind (on_fs (sys_read_bytes (at_lock_path a))) (\<lambda>marker. io_return (Some marker)))
         (\<lambda>e. if e = FileNotFoundErr
              then io_seq (on_self (at_owns_lock_update (\<lambda>_. False))) (io_return None)
              else io_raise e))
       (\<lambda>marker. case marker of
          None \<Rightarrow> io_return ()
        | Some m \<Rightarrow>
            (if m \<noteq> encode_ascii (at_token a) then io_raise OtherOSErr
             else io_seq (on_fs (sys_unlink (at_lock_path a)))
                    (on_self (at_owns_lock_update (\<lambda>_. False))))))"

definition remove_staging :: "(fs \<times> 'o attempt_scheme, unit) io" where
  "remove_staging = with_self (\<lambda>a.
     if \<not> at_owns_staging a then io_return ()
     else io_seq
       (io_catch (on_fs (sys_unlink (at_staging_path a)))
         (\<lambda>e. if e = FileNotFoundErr then io_return () else io_raise e))
       (on_self (at_owns_staging_update (\<lambda>_. False))))"

text \<open>Both removals are tried; the first error is raised at the end.\<close>

definition first_error :: "('s, unit) io \<Rightarrow> ('s, os_error option) io" where
  "first_error m = io_catch (io_seq m (io_return None)) (\<lambda>e. io_return (Some e))"

definition cleanup :: "(fs \<times> 'o attempt_scheme, unit) io" where
  "cleanup =
     io_bind (first_error remove_staging) (\<lambda>e1.
     io_bind (first_error release_lock) (\<lambda>e2.
     case (case e1 of Some e \<Rightarrow> Some e | None \<Rightarrow> e2) of
       None \<Rightarrow> io_return () | Some e \<Rightarrow> io_raise e))"

text \<open>\<open>acquire_staging\<close>: first the marker, then the private staging file.\<close>

definition acquire_marker :: "(fs \<times> 'o attempt_scheme, unit) io" where
  "acquire_marker = with_self (\<lambda>a.
     io_seq (on_fs sys_simple)
     (io_bind (on_fs (sys_open_excl (at_lock_path a))) (\<lambda>lock_fd.
      io_seq (on_self (at_owns_lock_update (\<lambda>_. True)))
     (io_seq
        (io_catch (io_seq (on_fs (write_all lock_fd (encode_ascii (at_token a)))) (on_fs sys_simple))
          (\<lambda>e. io_seq (io_finally (on_fs sys_simple) (io_ignore release_lock)) (io_raise e)))
        (on_fs sys_simple)))))"

definition open_staging :: "(fs \<times> 'o attempt_scheme, nat) io" where
  "open_staging = with_self (\<lambda>a.
     io_bind
       (io_catch (on_fs (sys_open_excl (at_staging_path a)))
         (\<lambda>e. io_seq release_lock (io_raise e))) (\<lambda>staging_fd.
     io_seq (on_self (at_owns_staging_update (\<lambda>_. True)))
       (io_catch (io_seq (on_fs sys_simple) (io_return staging_fd))
         (\<lambda>e. io_seq (on_fs sys_simple) (io_seq (io_ignore cleanup) (io_raise e))))))"

definition acquire_staging :: "(fs \<times> 'o attempt_scheme, nat) io" where
  "acquire_staging = io_seq acquire_marker open_staging"

definition rollback_published :: "string \<Rightarrow> nat \<Rightarrow> (fs \<times> 'o, unit) io" where
  "rollback_published final_path identity =
     io_bind
       (io_catch (io_bind (on_fs (sys_stat final_path)) (\<lambda>i. io_return (Some i)))
         (\<lambda>e. if e = FileNotFoundErr then io_return None else io_raise e))
       (\<lambda>current. case current of
          None \<Rightarrow> io_return ()
        | Some i \<Rightarrow> if i \<noteq> identity then io_raise OtherOSErr else on_fs (sys_unlink final_path))"

definition publish :: "string \<Rightarrow> (fs \<times> 'o attempt_scheme, nat) io" where
  "publish final_path = with_self (\<lambda>a.
     if \<not> at_owns_lock a \<or> \<not> at_owns_staging a then io_raise OtherOSErr
     else io_bind (on_fs (sys_stat (at_staging_path a))) (\<lambda>identity.
       io_seq (on_fs (sys_link (at_staging_path a) final_path))
      (io_seq
        (io_catch
          (io_seq (on_fs (sys_unlink (at_staging_path a)))
          (io_seq (on_self (at_owns_staging_update (\<lambda>_. False))) release_lock))
          (\<lambda>e. io_seq (io_ignore (rollback_published final_path identity))
              (io_seq (io_ignore cleanup) (io_raise e))))
        (io_return identity))))"

section \<open>Rules\<close>

text \<open>What an operation may change: \<open>same_files f f'\<close> keeps everything but the directory.\<close>

definition same_files :: "fs \<Rightarrow> fs \<Rightarrow> bool" where
  "same_files f f' \<longleftrightarrow> fs_data f' = fs_data f \<and> fs_next f' = fs_next f"

lemma same_files_simps [simp]: "same_files f f" "same_files f (eat f)" "same_files f (f\<lparr>fs_dir := d\<rparr>)"
  "same_files f ((eat f)\<lparr>fs_dir := d\<rparr>)"
  by (simp_all add: same_files_def)

lemma same_files_trans: "same_files f g \<Longrightarrow> same_files g h \<Longrightarrow> same_files f h"
  by (simp add: same_files_def)

lemma wp_release_lockI:
  assumes "\<not> at_owns_lock a \<Longrightarrow> Q () (f, a)"
    and "\<And>f'. at_owns_lock a \<Longrightarrow> fs_dir f' = (fs_dir f)(at_lock_path a := None) \<Longrightarrow> same_files f f' \<Longrightarrow>
      Q () (f', a\<lparr>at_owns_lock := False\<rparr>)"
    and "\<And>f' e. at_owns_lock a \<Longrightarrow> fs_dir f' = fs_dir f \<Longrightarrow> same_files f f' \<Longrightarrow> E e (f', a)"
  shows "wp release_lock Q E (f, a)"
proof (cases "at_owns_lock a")
  case False
  with assms(1) show ?thesis by (simp add: release_lock_def)
next
  case True
  then show ?thesis unfolding release_lock_def
    by (auto intro!: io_rules assms(2,3) simp: same_files_def fun_upd_idem)
qed

lemma wp_remove_stagingI:
  assumes "\<not> at_owns_staging a \<Longrightarrow> Q () (f, a)"
    and "\<And>f'. at_owns_staging a \<Longrightarrow> fs_dir f' = (fs_dir f)(at_staging_path a := None) \<Longrightarrow> same_files f f' \<Longrightarrow>
      Q () (f', a\<lparr>at_owns_staging := False\<rparr>)"
    and "\<And>f' e. at_owns_staging a \<Longrightarrow> fs_dir f' = fs_dir f \<Longrightarrow> same_files f f' \<Longrightarrow> E e (f', a)"
  shows "wp remove_staging Q E (f, a)"
proof (cases "at_owns_staging a")
  case False
  with assms(1) show ?thesis by (simp add: remove_staging_def)
next
  case True
  then show ?thesis unfolding remove_staging_def
    by (auto intro!: io_rules assms(2,3) simp: same_files_def fun_upd_idem)
qed

section \<open>What a step of an attempt may do\<close>

text \<open>
  The names an attempt owns. A step may create a name that was free and own it, or remove a name
  it owned; every other name keeps its inode. Names in \<open>F\<close> may be created without being owned
  (the final path, as a second link to the staging inode), new names otherwise get new inodes,
  and only the inodes in \<open>W\<close> may be written.
\<close>

definition owned :: "('o attempt_scheme) \<Rightarrow> string set" where
  "owned a = (if at_owns_lock a then {at_lock_path a} else {}) \<union>
             (if at_owns_staging a then {at_staging_path a} else {})"

definition fs_wf :: "fs \<Rightarrow> bool" where
  "fs_wf f \<longleftrightarrow> (\<forall>n i. fs_dir f n = Some i \<longrightarrow> i < fs_next f)"

definition attempt_inv :: "fs \<Rightarrow> 'o attempt_scheme \<Rightarrow> bool" where
  "attempt_inv f a \<longleftrightarrow> fs_wf f \<and> at_lock_path a \<noteq> at_staging_path a \<and> (\<forall>n\<in>owned a. fs_dir f n \<noteq> None)"

definition same_paths :: "'o attempt_scheme \<Rightarrow> 'o attempt_scheme \<Rightarrow> bool" where
  "same_paths a a' \<longleftrightarrow> at_lock_path a' = at_lock_path a \<and> at_staging_path a' = at_staging_path a \<and>
     at_token a' = at_token a"

definition attempt_step ::
  "string set \<Rightarrow> nat set \<Rightarrow> fs \<Rightarrow> 'o attempt_scheme \<Rightarrow> fs \<Rightarrow> 'o attempt_scheme \<Rightarrow> bool" where
  "attempt_step F W f a f' a' \<longleftrightarrow>
     same_paths a a' \<and> attempt_inv f' a' \<and> fs_next f \<le> fs_next f' \<and>
     (\<forall>i<fs_next f. i \<notin> W \<longrightarrow> fs_data f' i = fs_data f i) \<and>
     (\<forall>n. n \<notin> owned a \<longrightarrow> n \<notin> owned a' \<longrightarrow> n \<notin> F \<or> fs_dir f n \<noteq> None \<longrightarrow> fs_dir f' n = fs_dir f n) \<and>
     (\<forall>n \<in> owned a' - owned a. fs_dir f n = None) \<and>
     (\<forall>n \<in> owned a - owned a'. fs_dir f' n = None) \<and>
     (\<forall>n i. fs_dir f' n = Some i \<longrightarrow>
        fs_dir f n = Some i \<or> fs_next f \<le> i \<or> n \<in> F \<and> fs_dir f (at_staging_path a) = Some i)"

lemma attempt_step_refl: "attempt_inv f a \<Longrightarrow> attempt_step F W f a f a"
  by (simp add: attempt_step_def same_paths_def)

lemma owned_paths: "owned a \<subseteq> {at_lock_path a, at_staging_path a}"
  by (auto simp: owned_def)

lemma attempt_step_trans:
  assumes "attempt_step F W f a f1 a1" and "attempt_step F W f1 a1 f2 a2"
    and S: "F \<inter> {at_lock_path a, at_staging_path a} = {}"
  shows "attempt_step F W f a f2 a2"
proof -
  have "owned b \<inter> F = {}" if "same_paths a b" for b
    using that S owned_paths [of b] by (auto simp: same_paths_def)
  moreover have "same_paths a a" "same_paths a a1" "same_paths a a2"
    using assms(1,2) by (auto simp: attempt_step_def same_paths_def)
  ultimately have F: "owned a \<inter> F = {}" "owned a1 \<inter> F = {}" "owned a2 \<inter> F = {}" by blast+
  have "fs_dir f2 n = fs_dir f n" if n: "n \<notin> owned a" "n \<notin> owned a2" "n \<notin> F \<or> fs_dir f n \<noteq> None" for n
    using n F assms(1,2) by (cases "n \<in> owned a1") (auto simp: attempt_step_def)
  moreover have "fs_dir f n = None" if n: "n \<in> owned a2" "n \<notin> owned a" for n
  proof (cases "n \<in> owned a1")
    case False
    moreover have "n \<notin> F" using F n by blast
    ultimately show ?thesis using n assms(1,2) by (auto simp: attempt_step_def)
  qed (use n assms(1) in \<open>auto simp: attempt_step_def\<close>)
  moreover have "fs_dir f2 n = None" if n: "n \<in> owned a" "n \<notin> owned a2" for n
  proof (cases "n \<in> owned a1")
    case False
    moreover have "n \<notin> F" using F n by blast
    ultimately show ?thesis using n assms(1,2) by (auto simp: attempt_step_def)
  qed (use n assms(2) in \<open>auto simp: attempt_step_def\<close>)
  moreover have "fs_dir f n = Some i \<or> fs_next f \<le> i \<or> n \<in> F \<and> fs_dir f (at_staging_path a) = Some i"
    if n: "fs_dir f2 n = Some i" for n i
  proof -
    have one: "fs_dir f m = Some i \<or> fs_next f \<le> i \<or> m \<in> F \<and> fs_dir f (at_staging_path a) = Some i"
      if "fs_dir f1 m = Some i" for m
      using assms(1) that by (auto simp: attempt_step_def)
    have "fs_dir f1 n = Some i \<or> fs_next f1 \<le> i \<or> n \<in> F \<and> fs_dir f1 (at_staging_path a1) = Some i"
      using assms(2) n by (auto simp: attempt_step_def)
    moreover have "fs_next f \<le> fs_next f1" "at_staging_path a1 = at_staging_path a"
      using assms(1) by (simp_all add: attempt_step_def same_paths_def)
    ultimately show ?thesis using one [of n] one [of "at_staging_path a"] S by auto
  qed
  ultimately show ?thesis
    using assms(1,2) by (auto simp: attempt_step_def same_paths_def)
qed

text \<open>Releasing names: the directory without those that are not owned any more.\<close>

definition released :: "fs \<Rightarrow> 'o attempt_scheme \<Rightarrow> fs \<Rightarrow> 'o attempt_scheme \<Rightarrow> bool" where
  "released f a f' a' \<longleftrightarrow>
     same_paths a a' \<and> attempt.more a' = attempt.more a \<and> owned a' \<subseteq> owned a \<and>
     fs_dir f' = (\<lambda>n. if n \<in> owned a - owned a' then None else fs_dir f n) \<and> same_files f f'"

lemma released_refl: "released f a f a"
  by (simp add: released_def same_paths_def)

lemma released_trans: "released f a f1 a1 \<Longrightarrow> released f1 a1 f2 a2 \<Longrightarrow> released f a f2 a2"
  unfolding released_def by (auto simp: same_files_def same_paths_def fun_eq_iff)

lemma released_step: "attempt_inv f a \<Longrightarrow> released f a f' a' \<Longrightarrow> attempt_step F W f a f' a'"
  by (auto simp: released_def attempt_step_def attempt_inv_def fs_wf_def same_files_def same_paths_def
      split: if_splits)

lemma released_lock:
  assumes "at_lock_path a \<noteq> at_staging_path a" and "at_owns_lock a"
    and "fs_dir f' = (fs_dir f)(at_lock_path a := None)" and "same_files f f'"
  shows "released f a f' (a\<lparr>at_owns_lock := False\<rparr>)"
  using assms by (auto simp: released_def same_paths_def owned_def fun_eq_iff)

lemma released_staging:
  assumes "at_lock_path a \<noteq> at_staging_path a" and "at_owns_staging a"
    and "fs_dir f' = (fs_dir f)(at_staging_path a := None)" and "same_files f f'"
  shows "released f a f' (a\<lparr>at_owns_staging := False\<rparr>)"
  using assms by (auto simp: released_def same_paths_def owned_def fun_eq_iff)

lemma released_same: "fs_dir f' = fs_dir f \<Longrightarrow> same_files f f' \<Longrightarrow> released f a f' a"
  using released_refl [of f a] by (simp add: released_def)

lemma wp_release_lock_released:
  assumes neq: "at_lock_path a \<noteq> at_staging_path a"
    and "\<And>f' a'. released f a f' a' \<Longrightarrow> \<not> at_owns_lock a' \<Longrightarrow> at_owns_staging a' = at_owns_staging a \<Longrightarrow> Q () (f', a')"
    and "\<And>f' e. released f a f' a \<Longrightarrow> E e (f', a)"
  shows "wp release_lock Q E (f, a)"
proof (rule wp_release_lockI)
  show "Q () (f, a)" if "\<not> at_owns_lock a" using that assms(2) [of f a] released_refl by blast
  show "Q () (f', a\<lparr>at_owns_lock := False\<rparr>)"
    if "at_owns_lock a" "fs_dir f' = (fs_dir f)(at_lock_path a := None)" "same_files f f'" for f'
    by (rule assms(2) [OF released_lock [OF neq that]]) simp_all
  show "E e (f', a)" if "fs_dir f' = fs_dir f" "same_files f f'" for f' e
    by (rule assms(3) [OF released_same [OF that]])
qed

lemma wp_remove_staging_released:
  assumes neq: "at_lock_path a \<noteq> at_staging_path a"
    and "\<And>f' a'. released f a f' a' \<Longrightarrow> \<not> at_owns_staging a' \<Longrightarrow> at_owns_lock a' = at_owns_lock a \<Longrightarrow> Q () (f', a')"
    and "\<And>f' e. released f a f' a \<Longrightarrow> E e (f', a)"
  shows "wp remove_staging Q E (f, a)"
proof (rule wp_remove_stagingI)
  show "Q () (f, a)" if "\<not> at_owns_staging a" using that assms(2) [of f a] released_refl by blast
  show "Q () (f', a\<lparr>at_owns_staging := False\<rparr>)"
    if "at_owns_staging a" "fs_dir f' = (fs_dir f)(at_staging_path a := None)" "same_files f f'" for f'
    by (rule assms(2) [OF released_staging [OF neq that]]) simp_all
  show "E e (f', a)" if "fs_dir f' = fs_dir f" "same_files f f'" for f' e
    by (rule assms(3) [OF released_same [OF that]])
qed

lemma wp_first_error [simp]: "wp (first_error m) Q E = wp m (\<lambda>_. Q None) (\<lambda>e. Q (Some e))"
  by (simp add: first_error_def)

lemma released_paths:
  "released f a f' a' \<Longrightarrow> at_lock_path a' = at_lock_path a \<and> at_staging_path a' = at_staging_path a"
  by (auto simp: released_def same_paths_def)

lemma wp_cleanupI:
  assumes neq: "at_lock_path a \<noteq> at_staging_path a"
    and ok: "\<And>f' a'. released f a f' a' \<Longrightarrow> owned a' = {} \<Longrightarrow> Q () (f', a')"
    and err: "\<And>f' a' e. released f a f' a' \<Longrightarrow> E e (f', a')"
  shows "wp cleanup Q E (f, a)"
proof -
  have second: "wp release_lock
      (\<lambda>_. wp (case (case e1 of Some e \<Rightarrow> Some e | None \<Rightarrow> None) of None \<Rightarrow> io_return () | Some e \<Rightarrow> io_raise e) Q E)
      (\<lambda>e2. wp (case (case e1 of Some e \<Rightarrow> Some e | None \<Rightarrow> Some e2) of None \<Rightarrow> io_return () | Some e \<Rightarrow> io_raise e) Q E)
      (f1, a1)"
    if r: "released f a f1 a1" and e1: "e1 = None \<Longrightarrow> \<not> at_owns_staging a1" for e1 f1 a1
  proof (rule wp_release_lock_released)
    show "at_lock_path a1 \<noteq> at_staging_path a1" using released_paths [OF r] neq by simp
    fix f2 a2
    assume s: "released f1 a1 f2 a2" "\<not> at_owns_lock a2" "at_owns_staging a2 = at_owns_staging a1"
    note t = released_trans [OF r s(1)]
    have "owned a2 = {}" if "e1 = None" using e1 [OF that] s(2,3) by (simp add: owned_def)
    with ok [OF t] err [OF t]
    show "wp (case (case e1 of Some e \<Rightarrow> Some e | None \<Rightarrow> None) of None \<Rightarrow> io_return () | Some e \<Rightarrow> io_raise e) Q E (f2, a2)"
      by (cases e1) simp_all
  next
    fix f2 e2
    assume "released f1 a1 f2 a1"
    from err [OF released_trans [OF r this]]
    show "wp (case (case e1 of Some e \<Rightarrow> Some e | None \<Rightarrow> Some e2) of None \<Rightarrow> io_return () | Some e \<Rightarrow> io_raise e) Q E (f2, a1)"
      by (cases e1) simp_all
  qed
  show ?thesis
    unfolding cleanup_def wp_bind wp_first_error
    by (rule wp_remove_staging_released [OF neq]; rule second; simp)
qed

lemma attempt_step_trans0:
  "attempt_step {} W f a f1 a1 \<Longrightarrow> attempt_step {} W f1 a1 f2 a2 \<Longrightarrow> attempt_step {} W f a f2 a2"
  by (rule attempt_step_trans) simp_all

lemma attempt_step_released:
  "attempt_step {} W f a f1 a1 \<Longrightarrow> released f1 a1 f2 a2 \<Longrightarrow> attempt_step {} W f a f2 a2"
  by (rule attempt_step_trans0, assumption, rule released_step) (simp_all add: attempt_step_def)

lemma step_creates_lock:
  assumes "attempt_inv f a" and "\<not> at_owns_lock a" and "fs_dir f (at_lock_path a) = None"
    and "fs_dir f' = (fs_dir f)(at_lock_path a \<mapsto> fs_next f)" and "fs_next f' = Suc (fs_next f)"
    and "\<And>i. i < fs_next f \<Longrightarrow> fs_data f' i = fs_data f i"
  shows "attempt_step {} W f a f' (a\<lparr>at_owns_lock := True\<rparr>)"
  using assms by (auto simp: attempt_step_def attempt_inv_def same_paths_def fs_wf_def owned_def less_Suc_eq
      split: if_splits)

lemma step_creates_staging:
  assumes "attempt_inv f a" and "\<not> at_owns_staging a" and "fs_dir f (at_staging_path a) = None"
    and "fs_dir f' = (fs_dir f)(at_staging_path a \<mapsto> fs_next f)" and "fs_next f' = Suc (fs_next f)"
    and "\<And>i. i < fs_next f \<Longrightarrow> fs_data f' i = fs_data f i"
  shows "attempt_step {} W f a f' (a\<lparr>at_owns_staging := True\<rparr>)"
  using assms by (auto simp: attempt_step_def attempt_inv_def same_paths_def fs_wf_def owned_def less_Suc_eq
      split: if_splits)

lemma step_faults: "attempt_inv f a \<Longrightarrow> fs_dir f' = fs_dir f \<Longrightarrow> same_files f f' \<Longrightarrow> attempt_step F W f a f' a"
  by (auto simp: attempt_step_def attempt_inv_def same_paths_def fs_wf_def same_files_def)

lemma attempt_inv_neq: "attempt_inv f a \<Longrightarrow> at_lock_path a \<noteq> at_staging_path a"
  by (simp add: attempt_inv_def)

lemma attempt_step_inv: "attempt_step F W f a f' a' \<Longrightarrow> attempt_inv f' a'"
  by (simp add: attempt_step_def)

lemma attempt_step_eat [simp]: "attempt_step F W f a (eat f') a' = attempt_step F W f a f' a'"
  by (simp add: attempt_step_def attempt_inv_def fs_wf_def)

lemma released_eat [simp]: "released (eat f) a f' a' = released f a f' a'"
  by (simp add: released_def same_files_def cong: if_cong)

text \<open>
  Acquisition: on success both names are new and owned, after an error the attempt owns what it
  could not remove.
\<close>

lemma wp_acquire_markerI:
  assumes inv: "attempt_inv f a" and new: "\<not> at_owns_lock a"
    and ok: "\<And>f' a'. attempt_step {} W f a f' a' \<Longrightarrow> a' = a\<lparr>at_owns_lock := True\<rparr> \<Longrightarrow> Q () (f', a')"
    and err: "\<And>f' a' e. attempt_step {} W f a f' a' \<Longrightarrow> attempt.more a' = attempt.more a \<Longrightarrow> E e (f', a')"
  shows "wp acquire_marker Q E (f, a)"
proof -
  let ?a1 = "a\<lparr>at_owns_lock := True\<rparr>"
  have none: "E e (f', a)" if "fs_dir f' = fs_dir f" "same_files f f'" for f' e
    by (rule err [OF step_faults [OF inv that]]) simp
  have rel: "E e (f'', a'')" if st: "attempt_step {} W f a f' ?a1" and r: "released f' ?a1 f'' a''" for f' f'' a'' e
    by (rule err [OF attempt_step_released [OF st r]]) (use r in \<open>auto simp: released_def\<close>)
  have neq: "at_lock_path ?a1 \<noteq> at_staging_path ?a1" using inv by (simp add: attempt_inv_def)
  have handler: "wp release_lock (\<lambda>_. E e) (\<lambda>_. E e) (f', ?a1)"
    if "attempt_step {} W f a f' ?a1" for f' e
    by (rule wp_release_lock_released [OF neq]) (use rel [OF that] in simp_all)
  have err1: "E e (f', ?a1)" if "attempt_step {} W f a f' ?a1" for f' e
    by (rule err [OF that]) simp
  show ?thesis
    unfolding acquire_marker_def
  proof (simp, rule wp_simpleI, rule none, simp, simp, rule wp_open_exclI)
    let ?f = "eat f"
    let ?f2 = "(eat (eat f))\<lparr>fs_dir := (fs_dir (eat f))(at_lock_path a \<mapsto> fs_next (eat f)),
      fs_data := (fs_data (eat f))(fs_next (eat f) := []), fs_next := Suc (fs_next (eat f))\<rparr>"
    show "E OtherOSErr (eat ?f, a)" "E FileExistsErr (eat ?f, a)" by (rule none; simp add: same_files_def)+
    assume free: "fs_dir (eat f) (at_lock_path a) = None"
    have st: "attempt_step {} W f a f' ?a1"
      if "fs_dir f' = fs_dir ?f2" "fs_next f' = fs_next ?f2"
        "fs_data f' = (fs_data ?f2)(fs_next f := fs_data ?f2 (fs_next f) @ bs)" for f' bs
      by (rule step_creates_lock [OF inv new]) (use free that in simp_all)
    show "wp (write_all (fs_next (eat f)) (encode_ascii (at_token a)))
       (\<lambda>x. wp sys_simple (\<lambda>x. wp sys_simple (\<lambda>x f'. Q () (f', ?a1)) (\<lambda>e f'. E e (f', ?a1)))
          (\<lambda>e. wp sys_simple (\<lambda>x f'. wp release_lock (\<lambda>_. E e) (\<lambda>_. E e) (f', ?a1))
                 (\<lambda>e f'. wp release_lock (\<lambda>_. E e) (\<lambda>_. E e) (f', ?a1))))
       (\<lambda>e. wp sys_simple (\<lambda>x f'. wp release_lock (\<lambda>_. E e) (\<lambda>_. E e) (f', ?a1))
              (\<lambda>e f'. wp release_lock (\<lambda>_. E e) (\<lambda>_. E e) (f', ?a1))) ?f2"
      by (rule wp_write_allI; (intro wp_simpleI)?; (rule handler ok err1)?; (simp add: st)?)
  qed
qed

lemma wp_open_stagingI:
  assumes inv: "attempt_inv f a" and new: "\<not> at_owns_staging a"
    and ok: "\<And>f'. attempt_step {} W f a f' (a\<lparr>at_owns_staging := True\<rparr>) \<Longrightarrow>
      fs_dir f' = (fs_dir f)(at_staging_path a \<mapsto> fs_next f) \<Longrightarrow> fs_data f' (fs_next f) = [] \<Longrightarrow>
      Q (fs_next f) (f', a\<lparr>at_owns_staging := True\<rparr>)"
    and err: "\<And>f' a' e. attempt_step {} W f a f' a' \<Longrightarrow> attempt.more a' = attempt.more a \<Longrightarrow> E e (f', a')"
  shows "wp open_staging Q E (f, a)"
proof -
  let ?a1 = "a\<lparr>at_owns_staging := True\<rparr>"
  note neq = attempt_inv_neq [OF inv]
  have rel: "E e (f', a')" if "released f a f' a'" for f' a' e
    by (rule err [OF released_step [OF inv that]]) (use that in \<open>auto simp: released_def\<close>)
  have neq1: "at_lock_path ?a1 \<noteq> at_staging_path ?a1" using neq by simp
  have rel1: "E e (f'', a'')" if st: "attempt_step {} W f a f' ?a1" and r: "released f' ?a1 f'' a''" for f' f'' a'' e
    by (rule err [OF attempt_step_released [OF st r]]) (use r in \<open>auto simp: released_def\<close>)
  have err1: "E e (f', ?a1)" if "attempt_step {} W f a f' ?a1" for f' e
    by (rule err [OF that]) simp
  have cl: "wp cleanup (\<lambda>_. E e) (\<lambda>_. E e) (f', ?a1)" if "attempt_step {} W f a f' ?a1" for f' e
    by (rule wp_cleanupI [OF neq1]) (use rel1 [OF that] in simp_all)
  have lk: "wp release_lock (\<lambda>_. E e) E (eat f, a)" for e
    by (rule wp_release_lock_released [OF neq]) (use rel in simp_all)
  show ?thesis
    unfolding open_staging_def
  proof (simp, rule wp_open_exclI; (rule lk)?)
    let ?f2 = "(eat f)\<lparr>fs_dir := (fs_dir f)(at_staging_path a \<mapsto> fs_next f),
      fs_data := (fs_data f)(fs_next f := []), fs_next := Suc (fs_next f)\<rparr>"
    assume free: "fs_dir f (at_staging_path a) = None"
    have st: "attempt_step {} W f a ?f2 ?a1"
      by (rule step_creates_staging [OF inv new free]) simp_all
    show "wp sys_simple (\<lambda>x f'. Q (fs_next f) (f', ?a1))
       (\<lambda>e. wp sys_simple (\<lambda>x f'. wp cleanup (\<lambda>_. E e) (\<lambda>_. E e) (f', ?a1)) (\<lambda>e f'. E e (f', ?a1))) ?f2"
      by (intro wp_simpleI) (use st in \<open>simp_all add: cl err1 ok\<close>)
  qed
qed

lemma wp_acquire_stagingI:
  assumes inv: "attempt_inv f a" and new: "owned a = {}"
    and ok: "\<And>f' a' fd. attempt_step {} W f a f' a' \<Longrightarrow> attempt.more a' = attempt.more a \<Longrightarrow>
      at_owns_lock a' \<Longrightarrow> at_owns_staging a' \<Longrightarrow> fs_dir f' (at_staging_path a') = Some fd \<Longrightarrow>
      fs_next f \<le> fd \<Longrightarrow> fs_data f' fd = [] \<Longrightarrow> (\<And>n. fs_dir f' n = Some fd \<Longrightarrow> n = at_staging_path a') \<Longrightarrow>
      Q fd (f', a')"
    and err: "\<And>f' a' e. attempt_step {} W f a f' a' \<Longrightarrow> attempt.more a' = attempt.more a \<Longrightarrow> E e (f', a')"
  shows "wp acquire_staging Q E (f, a)"
proof -
  from new have nl: "\<not> at_owns_lock a" and ns: "\<not> at_owns_staging a" by (auto simp: owned_def split: if_splits)
  show ?thesis
    unfolding acquire_staging_def
  proof (simp, rule wp_acquire_markerI [OF inv nl, where W = W])
    fix f1 a1
    assume st: "attempt_step {} W f a f1 a1" and a1: "a1 = a\<lparr>at_owns_lock := True\<rparr>"
    note trans = attempt_step_trans0 [OF st]
    show "wp open_staging Q E (f1, a1)"
    proof (rule wp_open_stagingI [OF attempt_step_inv [OF st], where W = W])
      show "\<not> at_owns_staging a1" using ns a1 by simp
      show "Q (fs_next f1) (f', a1\<lparr>at_owns_staging := True\<rparr>)"
        if "attempt_step {} W f1 a1 f' (a1\<lparr>at_owns_staging := True\<rparr>)"
          "fs_dir f' = (fs_dir f1)(at_staging_path a1 \<mapsto> fs_next f1)" "fs_data f' (fs_next f1) = []" for f'
        by (rule ok [OF trans [OF that(1)]])
          (use that(2,3) a1 st in \<open>auto simp: attempt_step_def attempt_inv_def fs_wf_def split: if_splits\<close>)
      show "E e (f', a')" if "attempt_step {} W f1 a1 f' a'" "attempt.more a' = attempt.more a1" for f' a' e
        by (rule err [OF trans [OF that(1)]]) (use that(2) a1 in simp)
    qed
  qed (rule err)
qed

lemma wp_rollbackI:
  assumes "\<And>f'. fs_dir f' = fs_dir f \<Longrightarrow> same_files f f' \<Longrightarrow> fs_dir f p \<noteq> Some i \<Longrightarrow> Q () (f', ob)"
    and "\<And>f'. fs_dir f p = Some i \<Longrightarrow> fs_dir f' = (fs_dir f)(p := None) \<Longrightarrow> same_files f f' \<Longrightarrow> Q () (f', ob)"
    and "\<And>f' e. fs_dir f' = fs_dir f \<Longrightarrow> same_files f f' \<Longrightarrow> E e (f', ob)"
  shows "wp (rollback_published p i) Q E (f, ob)"
proof (cases "fs_dir f p = Some i")
  case True
  then show ?thesis unfolding rollback_published_def
    by (auto intro!: wp_statI wp_unlinkI assms(2,3) simp: same_files_def)
next
  case False
  then show ?thesis unfolding rollback_published_def
    by (auto intro!: wp_statI assms(1,3) simp: same_files_def)
qed

text \<open>
  Publication: the final name was free and now has the staging inode, the two private names are
  gone. After an error the final name is as before, or the link could not be taken back.
\<close>

lemma released_stepF:
  assumes "attempt_step {p} W f a f1 a1" and "released f1 a1 f2 a2" and "p \<notin> {at_lock_path a, at_staging_path a}"
  shows "attempt_step {p} W f a f2 a2"
  by (rule attempt_step_trans [OF assms(1) released_step [OF attempt_step_inv [OF assms(1)] assms(2)]])
    (use assms(3) in simp)

lemma wp_publishI:
  assumes inv: "attempt_inv f a" and p: "p \<notin> {at_lock_path a, at_staging_path a}"
    and ok: "\<And>f' a' g. attempt_step {p} W f a f' a' \<Longrightarrow> attempt.more a' = attempt.more a \<Longrightarrow> owned a' = {} \<Longrightarrow>
      fs_dir f (at_staging_path a) = Some g \<Longrightarrow> fs_dir f p = None \<Longrightarrow> fs_dir f' p = Some g \<Longrightarrow> Q g (f', a')"
    and err: "\<And>f' a' e. attempt_step {p} W f a f' a' \<Longrightarrow> attempt.more a' = attempt.more a \<Longrightarrow>
      fs_dir f' p = fs_dir f p \<or> (fs_dir f p = None \<and> fs_dir f' p = fs_dir f (at_staging_path a)) \<Longrightarrow> E e (f', a')"
  shows "wp (publish p) Q E (f, a)"
proof (cases "at_owns_lock a \<and> at_owns_staging a")
  case False
  then show ?thesis unfolding publish_def using err [OF attempt_step_refl [OF inv]] by simp
next
  case True
  then obtain g where g: "fs_dir f (at_staging_path a) = Some g"
    using inv by (fastforce simp: attempt_inv_def owned_def)
  have same: "E e (f', a)" if "fs_dir f' = fs_dir f" "same_files f f'" for f' e
    by (rule err [OF step_faults [OF inv that]]) (use that in simp_all)
  have at_p: "fs_dir f2 p = fs_dir f1 p" if "released f1 a1 f2 a2" "same_paths a a1" for f1 a1 f2 a2
    using that p owned_paths [of a1] by (auto simp: released_def same_paths_def)
  have clean: "wp cleanup (\<lambda>_. E e) (\<lambda>_. E e) (f1, a1)"
    if st: "attempt_step {p} W f a f1 a1" and m: "attempt.more a1 = attempt.more a"
      and d: "fs_dir f1 p = fs_dir f p \<or> (fs_dir f p = None \<and> fs_dir f1 p = Some g)" for f1 a1 e
  proof (rule wp_cleanupI [OF attempt_inv_neq [OF attempt_step_inv [OF st]]])
    fix f2 a2
    assume r: "released f1 a1 f2 a2"
    from st have "same_paths a a1" by (simp add: attempt_step_def)
    with at_p [OF r] d m r g have "attempt.more a2 = attempt.more a"
      "fs_dir f2 p = fs_dir f p \<or> (fs_dir f p = None \<and> fs_dir f2 p = fs_dir f (at_staging_path a))"
      by (simp_all add: released_def)
    then show "E e (f2, a2)" "E e (f2, a2)" by (rule err [OF released_stepF [OF st r p]])+
  qed
  have tail: "wp (rollback_published p g) (\<lambda>_. wp cleanup (\<lambda>_. E e) (\<lambda>_. E e)) (\<lambda>_. wp cleanup (\<lambda>_. E e) (\<lambda>_. E e)) (f1, a1)"
    if st: "attempt_step {p} W f a f1 a1" and m: "attempt.more a1 = attempt.more a"
      and d: "fs_dir f p = None" "fs_dir f1 p = Some g" for f1 a1 e
  proof (rule wp_rollbackI)
    fix f2
    assume "fs_dir f2 = fs_dir f1" "same_files f1 f2"
    then have "attempt_step {p} W f a f2 a1" "fs_dir f2 p = Some g"
      using st d by (simp_all add: attempt_step_def attempt_inv_def fs_wf_def same_files_def)
    from clean [OF this(1) m] this(2) d(1)
    show "wp cleanup (\<lambda>_. E e) (\<lambda>_. E e) (f2, a1)" "wp cleanup (\<lambda>_. E e) (\<lambda>_. E e) (f2, a1)" by simp_all
  next
    fix f2
    assume f2: "fs_dir f2 = (fs_dir f1)(p := None)" "same_files f1 f2"
    have "p \<notin> owned a1" using st p owned_paths [of a1] by (auto simp: attempt_step_def same_paths_def)
    with f2 st d have "attempt_step {p} W f a f2 a1" "fs_dir f2 p = None"
      by (auto simp: attempt_step_def attempt_inv_def fs_wf_def same_files_def)
    from clean [OF this(1) m] this(2) d(1) show "wp cleanup (\<lambda>_. E e) (\<lambda>_. E e) (f2, a1)" by simp
  qed
  have linked: "wp (sys_unlink (at_staging_path a))
       (\<lambda>_ f'. wp release_lock (\<lambda>_. Q g)
          (\<lambda>e. wp (rollback_published p g) (\<lambda>_. wp cleanup (\<lambda>_. E e) (\<lambda>_. E e)) (\<lambda>_. wp cleanup (\<lambda>_. E e) (\<lambda>_. E e)))
          (f', a\<lparr>at_owns_staging := False\<rparr>))
       (\<lambda>e f'. wp (rollback_published p g) (\<lambda>_. wp cleanup (\<lambda>_. E e) (\<lambda>_. E e)) (\<lambda>_. wp cleanup (\<lambda>_. E e) (\<lambda>_. E e)) (f', a)) f1"
    if free: "fs_dir f p = None" and f1: "fs_dir f1 = (fs_dir f)(p \<mapsto> g)" "same_files f f1" for f1
  proof -
    have gn: "g < fs_next f" using inv g by (auto simp: attempt_inv_def fs_wf_def)
    have st: "attempt_step {p} W f a f1 a"
      using inv free f1 gn g owned_paths [of a]
      by (auto simp: attempt_step_def attempt_inv_def fs_wf_def same_files_def same_paths_def)
    have st1: "attempt_step {p} W f a (eat f1) a" "fs_dir (eat f1) p = Some g" using st f1 by simp_all
    let ?a2 = "a\<lparr>at_owns_staging := False\<rparr>"
    have neq2: "at_lock_path ?a2 \<noteq> at_staging_path ?a2" using inv by (simp add: attempt_inv_def)
    show ?thesis
    proof (rule wp_unlinkI)
      fix i
      let ?f2 = "(eat f1)\<lparr>fs_dir := (fs_dir f1)(at_staging_path a := None)\<rparr>"
      have r: "released f1 a ?f2 ?a2" by (rule released_staging) (use True inv in \<open>simp_all add: attempt_inv_def\<close>)
      note st2 = released_stepF [OF st r p]
      have p2: "fs_dir ?f2 p = Some g" using f1 p by simp
      show "wp release_lock (\<lambda>_. Q g)
          (\<lambda>e. wp (rollback_published p g) (\<lambda>_. wp cleanup (\<lambda>_. E e) (\<lambda>_. E e)) (\<lambda>_. wp cleanup (\<lambda>_. E e) (\<lambda>_. E e)))
          (?f2, ?a2)"
      proof (rule wp_release_lock_released [OF neq2])
        fix f3 a3
        assume s: "released ?f2 ?a2 f3 a3" "\<not> at_owns_lock a3" "at_owns_staging a3 = at_owns_staging ?a2"
        have "fs_dir f3 p = Some g" using at_p [OF s(1)] p2 by (simp add: same_paths_def)
        with s show "Q g (f3, a3)"
          by (intro ok [OF released_stepF [OF st2 s(1) p]]) (simp_all add: released_def owned_def g free)
      next
        fix f3 e
        assume s: "released ?f2 ?a2 f3 ?a2"
        have "fs_dir f3 p = Some g" using at_p [OF s] p2 by (simp add: same_paths_def)
        with tail [OF released_stepF [OF st2 s p] _ free]
        show "wp (rollback_published p g) (\<lambda>_. wp cleanup (\<lambda>_. E e) (\<lambda>_. E e)) (\<lambda>_. wp cleanup (\<lambda>_. E e) (\<lambda>_. E e)) (f3, ?a2)"
          by simp
      qed
    qed (use tail [OF st1(1) refl free st1(2)] in simp_all)
  qed
  show ?thesis
    unfolding publish_def using True
    by (simp, intro wp_statI wp_linkI)
      (use g same linked in \<open>simp_all add: same_files_def\<close>)
qed

end
