(* ===== verification/Sink_Base.thy ===== *)
theory Sink_Base
  imports Recording_Attempt
begin

text \<open>
  The code that \<open>src/src/k5vision/media/file_sink.py\<close> and \<open>framed_recording.py\<close> share: the
  blocking methods over the attempt and the open file, and the way their asynchronous methods
  run them in a worker thread.

  The worker runs behind \<open>asyncio.shield\<close>, so a cancellation that arrives during the await
  does not stop it: it runs to its end, and the handler then undoes what it did. \<open>cancel\<close> says
  whether a cancellation is delivered at the first await of the call; the second await, which
  waits for the worker to settle, is not cancelled again.
\<close>

section \<open>What both sinks share\<close>

record sink = attempt +
  sk_final_path :: string
  sk_file :: "nat option"

type_synonym ('o, 'a) sink_io = "(fs \<times> 'o sink_scheme, 'a) io"

definition cleanup_open_result_sync :: "nat option \<Rightarrow> ('o, unit) sink_io" where
  "cleanup_open_result_sync opened =
     io_seq
       (case opened of
          None \<Rightarrow> io_return ()
        | Some file \<Rightarrow>
            io_finally (on_fs sys_simple)
              (with_self (\<lambda>s. io_when (sk_file s = Some file) (on_self (sk_file_update (\<lambda>_. None))))))
       cleanup"

definition abort_sync :: "('o, unit) sink_io" where
  "abort_sync = with_self (\<lambda>s.
     io_seq
       (case sk_file s of
          None \<Rightarrow> io_return ()
        | Some file \<Rightarrow> io_finally (on_fs sys_simple) (on_self (sk_file_update (\<lambda>_. None))))
       cleanup)"

definition finalize_sync :: "('o, nat) sink_io" where
  "finalize_sync = with_self (\<lambda>s.
     case sk_file s of
       None \<Rightarrow> io_raise OtherOSErr
     | Some file \<Rightarrow>
         io_seq (on_fs sys_simple)
         (io_seq (on_fs sys_simple)
         (io_seq (on_fs sys_simple)
         (io_seq (on_self (sk_file_update (\<lambda>_. None)))
            (publish (sk_final_path s))))))"

text \<open>The recording identifier: \<open>[A-Za-z0-9][A-Za-z0-9._-]{0,127}\<close>.\<close>

definition ascii_alnum :: "char \<Rightarrow> bool" where
  "ascii_alnum c \<longleftrightarrow> (let n = (of_char c :: nat) in
     48 \<le> n \<and> n \<le> 57 \<or> 65 \<le> n \<and> n \<le> 90 \<or> 97 \<le> n \<and> n \<le> 122)"

fun recording_id_ok :: "string \<Rightarrow> bool" where
  "recording_id_ok [] = False"
| "recording_id_ok (c # cs) \<longleftrightarrow>
     ascii_alnum c \<and> length cs \<le> 127 \<and>
     list_all (\<lambda>d. ascii_alnum d \<or> d = CHR ''.'' \<or> d = CHR ''_'' \<or> d = CHR ''-'') cs"

section \<open>Invariant and steps of a sink\<close>

text \<open>
  While a file is open, it is the staging file, both private names are owned, and no other name
  refers to its inode.
\<close>

definition sink_inv :: "fs \<Rightarrow> 'o sink_scheme \<Rightarrow> bool" where
  "sink_inv f s \<longleftrightarrow>
     attempt_inv f s \<and> sk_final_path s \<notin> {at_lock_path s, at_staging_path s} \<and>
     (\<forall>g. sk_file s = Some g \<longrightarrow> at_owns_lock s \<and> at_owns_staging s \<and>
        fs_dir f (at_staging_path s) = Some g \<and> (\<forall>n. fs_dir f n = Some g \<longrightarrow> n = at_staging_path s))"

definition sink_step :: "string set \<Rightarrow> fs \<Rightarrow> 'o sink_scheme \<Rightarrow> fs \<Rightarrow> 'o sink_scheme \<Rightarrow> bool" where
  "sink_step F f s f' s' \<longleftrightarrow>
     attempt_step F (set_option (sk_file s)) f s f' s' \<and> sink_inv f' s' \<and>
     sk_final_path s' = sk_final_path s \<and>
     (\<forall>g. sk_file s' = Some g \<longrightarrow> sk_file s = Some g \<or> fs_next f \<le> g)"

lemma sink_step_refl: "sink_inv f s \<Longrightarrow> sink_step F f s f s"
  by (simp add: sink_step_def sink_inv_def attempt_step_refl)

lemma attempt_step_mono:
  "attempt_step F W f a f' a' \<Longrightarrow> F \<subseteq> F' \<Longrightarrow> W \<inter> {..<fs_next f} \<subseteq> W' \<Longrightarrow> attempt_step F' W' f a f' a'"
  unfolding attempt_step_def by blast

lemma sink_step_mono: "sink_step F f s f' s' \<Longrightarrow> F \<subseteq> F' \<Longrightarrow> sink_step F' f s f' s'"
  unfolding sink_step_def by (blast intro: attempt_step_mono)

lemma sink_step_trans:
  assumes "sink_step F f s f1 s1" and "sink_step F f1 s1 f2 s2" and F: "F \<subseteq> {sk_final_path s}"
    and inv: "sink_inv f s"
  shows "sink_step F f s f2 s2"
proof -
  let ?W = "set_option (sk_file s)"
  have le: "fs_next f \<le> fs_next f1" using assms(1) by (simp add: sink_step_def attempt_step_def)
  have S: "F \<inter> {at_lock_path s, at_staging_path s} = {}" using F inv by (auto simp: sink_inv_def)
  have opened: "sk_file s1 = Some g \<Longrightarrow> sk_file s = Some g \<or> fs_next f \<le> g" for g
    using assms(1) by (simp add: sink_step_def)
  have sub: "\<And>i. i \<in> set_option (sk_file s1) \<Longrightarrow> i \<in> ?W \<or> fs_next f \<le> i"
    using opened by (auto simp: elem_set)
  have st1: "attempt_step F ?W f s f1 s1" using assms(1) by (simp add: sink_step_def)
  have st2: "attempt_step F (set_option (sk_file s1) \<union> ?W) f1 s1 f2 s2"
    using assms(2) by (auto simp: sink_step_def intro: attempt_step_mono)
  have "attempt_step F (set_option (sk_file s1) \<union> ?W) f s f2 s2"
    by (rule attempt_step_trans [OF attempt_step_mono [OF st1] st2 S]) auto
  then have "attempt_step F ?W f s f2 s2"
    by (rule attempt_step_mono) (use sub in auto)
  with assms(1,2) opened le show ?thesis unfolding sink_step_def by (metis order_trans)
qed

lemma attempt_more_sink:
  fixes s s' :: "'o sink_scheme"
  shows "attempt.more s' = attempt.more s \<Longrightarrow>
    sk_file s' = sk_file s \<and> sk_final_path s' = sk_final_path s \<and> sink.more s' = sink.more s"
  by (cases s; cases s') simp

text \<open>A sink that holds no file: every step of its attempt is a step of the sink.\<close>

lemma sink_step_attempt:
  fixes s s' :: "'o sink_scheme"
  assumes "sink_inv f s" and "sk_file s = None" and "attempt_step F {} f s f' s'"
    and "attempt.more s' = attempt.more s"
  shows "sink_step F f s f' s'"
  using attempt_more_sink [OF assms(4)] assms(1-3)
  by (auto simp: sink_step_def sink_inv_def attempt_step_def same_paths_def)

lemma sink_inv_close:
  assumes "sink_inv f s" and "fs_dir f' = fs_dir f" and "same_files f f'"
  shows "sink_step F f s f' (s\<lparr>sk_file := None\<rparr>)"
  using assms by (auto simp: sink_step_def sink_inv_def attempt_step_def attempt_inv_def same_paths_def owned_def
      fs_wf_def same_files_def)

section \<open>Rules for the shared methods\<close>

text \<open>
  \<open>quiet F f s f' s'\<close>: a step that writes to no file, after which no file is held and the fields
  of the subclass are the same.
\<close>

definition keeps_data :: "fs \<Rightarrow> fs \<Rightarrow> bool" where
  "keeps_data f f' \<longleftrightarrow> fs_next f \<le> fs_next f' \<and> (\<forall>i<fs_next f. fs_data f' i = fs_data f i)"

lemma keeps_data_trans: "keeps_data f g \<Longrightarrow> keeps_data g h \<Longrightarrow> keeps_data f h"
  by (auto simp: keeps_data_def)

lemma keeps_data_simps [simp]: "keeps_data f f" "keeps_data (eat f) g = keeps_data f g" "keeps_data f (eat g) = keeps_data f g"
  by (simp_all add: keeps_data_def)

lemma keeps_data_same: "same_files f g \<Longrightarrow> keeps_data f g"
  by (simp add: keeps_data_def same_files_def)

definition quiet :: "string set \<Rightarrow> fs \<Rightarrow> 'o sink_scheme \<Rightarrow> fs \<Rightarrow> 'o sink_scheme \<Rightarrow> bool" where
  "quiet F f s f' s' \<longleftrightarrow>
     sink_step F f s f' s' \<and> keeps_data f f' \<and> sk_file s' = None \<and> sink.more s' = sink.more s"

lemma quiet_trans:
  "quiet F f s f1 s1 \<Longrightarrow> quiet F f1 s1 f2 s2 \<Longrightarrow> F \<subseteq> {sk_final_path s} \<Longrightarrow> sink_inv f s \<Longrightarrow> quiet F f s f2 s2"
  unfolding quiet_def using sink_step_trans keeps_data_trans by (metis (no_types, lifting))

lemma quiet_close: "sink_inv f s \<Longrightarrow> fs_dir f' = fs_dir f \<Longrightarrow> same_files f f' \<Longrightarrow> quiet F f s f' (s\<lparr>sk_file := None\<rparr>)"
  by (simp add: quiet_def sink_inv_close keeps_data_same)

lemma quiet_attempt:
  fixes s s' :: "'o sink_scheme"
  assumes "sink_inv f s" and "sk_file s = None" and "attempt_step F {} f s f' s'"
    and "attempt.more s' = attempt.more s"
  shows "quiet F f s f' s'"
  using sink_step_attempt [OF assms] attempt_more_sink [OF assms(4)] assms(2,3)
  by (simp add: quiet_def keeps_data_def attempt_step_def)

lemma quiet_inv: "quiet F f s f' s' \<Longrightarrow> sink_inv f' s'"
  and quiet_final: "quiet F f s f' s' \<Longrightarrow> sk_final_path s' = sk_final_path s"
  and quiet_file: "quiet F f s f' s' \<Longrightarrow> sk_file s' = None"
  by (simp_all add: quiet_def sink_step_def)

lemma sink_inv_neq: "sink_inv f s \<Longrightarrow> at_lock_path s \<noteq> at_staging_path s"
  by (simp add: sink_inv_def attempt_inv_def)

lemma wp_sink_cleanupI:
  fixes s :: "'o sink_scheme"
  assumes inv: "sink_inv f s" and nofile: "sk_file s = None"
    and ok: "\<And>f' s'. quiet {} f s f' s' \<Longrightarrow> owned s' = {} \<Longrightarrow> Q () (f', s')"
    and err: "\<And>f' s' e. quiet {} f s f' s' \<Longrightarrow> E e (f', s')"
  shows "wp cleanup Q E (f, s)"
proof (rule wp_cleanupI [OF sink_inv_neq [OF inv]])
  fix f' s' e
  assume r: "released f s f' s'"
  have inv': "attempt_inv f s" using inv by (simp add: sink_inv_def)
  have q: "quiet {} f s f' s'"
    by (rule quiet_attempt [OF inv nofile released_step [OF inv' r]]) (use r in \<open>simp add: released_def\<close>)
  show "Q () (f', s')" if "owned s' = {}" by (rule ok [OF q that])
  show "E e (f', s')" by (rule err [OF q])
qed

lemma wp_abort_syncI:
  fixes s :: "'o sink_scheme"
  assumes inv: "sink_inv f s"
    and ok: "\<And>f' s'. quiet {} f s f' s' \<Longrightarrow> owned s' = {} \<Longrightarrow> Q () (f', s')"
    and err: "\<And>f' s' e. quiet {} f s f' s' \<Longrightarrow> E e (f', s')"
  shows "wp abort_sync Q E (f, s)"
proof (cases "sk_file s")
  case None
  then show ?thesis unfolding abort_sync_def
    by simp (rule wp_sink_cleanupI [OF inv None]; (rule ok err; assumption))
next
  case (Some g)
  have q: "quiet {} f s (eat f) (s\<lparr>sk_file := None\<rparr>)" by (rule quiet_close [OF inv]) simp_all
  have c: "wp cleanup Q E (eat f, s\<lparr>sk_file := None\<rparr>)"
    by (rule wp_sink_cleanupI [OF quiet_inv [OF q]])
      (use quiet_trans [OF q _ _ inv] ok err in auto)
  show ?thesis unfolding abort_sync_def
    by (simp add: Some) (intro wp_simpleI c err [OF q])
qed

lemma wp_cleanup_open_resultI:
  fixes s :: "'o sink_scheme"
  assumes inv: "sink_inv f s" and nofile: "sk_file s = None"
    and ok: "\<And>f' s'. quiet {} f s f' s' \<Longrightarrow> owned s' = {} \<Longrightarrow> Q () (f', s')"
    and err: "\<And>f' s' e. quiet {} f s f' s' \<Longrightarrow> E e (f', s')"
  shows "wp (cleanup_open_result_sync opened) Q E (f, s)"
proof (cases opened)
  case None
  then show ?thesis unfolding cleanup_open_result_sync_def
    by simp (rule wp_sink_cleanupI [OF inv nofile]; (rule ok err; assumption))
next
  case (Some g)
  have "s\<lparr>sk_file := None\<rparr> = s" using nofile by (cases s) simp
  then have q: "quiet {} f s (eat f) s" using quiet_close [OF inv, of "eat f" "{}"] by simp
  have c: "wp cleanup Q E (eat f, s)"
    by (rule wp_sink_cleanupI [OF quiet_inv [OF q] nofile])
      (use quiet_trans [OF q _ _ inv] ok err in auto)
  show ?thesis unfolding cleanup_open_result_sync_def
    by (simp add: Some nofile) (intro wp_simpleI c err [OF q])
qed

text \<open>
  Finalization: the final name was free and now has the inode of the file, or the step raised
  and the final name is as before unless the link could not be taken back.
\<close>

lemma wp_finalize_syncI:
  fixes s :: "'o sink_scheme"
  assumes inv: "sink_inv f s"
    and ok: "\<And>f' s' g. quiet {sk_final_path s} f s f' s' \<Longrightarrow> owned s' = {} \<Longrightarrow> sk_file s = Some g \<Longrightarrow>
      fs_dir f (sk_final_path s) = None \<Longrightarrow> fs_dir f' (sk_final_path s) = Some g \<Longrightarrow> Q g (f', s')"
    and err: "\<And>f' s' e. sink_step {sk_final_path s} f s f' s' \<Longrightarrow> sink.more s' = sink.more s \<Longrightarrow> keeps_data f f' \<Longrightarrow>
      fs_dir f' (sk_final_path s) = fs_dir f (sk_final_path s) \<or>
      (fs_dir f (sk_final_path s) = None \<and> fs_dir f' (sk_final_path s) = sk_file s \<and> sk_file s \<noteq> None) \<Longrightarrow> E e (f', s')"
  shows "wp finalize_sync Q E (f, s)"
proof (cases "sk_file s")
  case None
  then show ?thesis unfolding finalize_sync_def using err [OF sink_step_refl [OF inv]] by simp
next
  case (Some g)
  let ?p = "sk_final_path s"
  have same: "sink_step {?p} f s f' s" if "fs_dir f' = fs_dir f" "same_files f f'" for f'
    using inv that by (auto simp: sink_step_def sink_inv_def attempt_step_def attempt_inv_def same_paths_def
        fs_wf_def same_files_def)
  have g: "fs_dir f (at_staging_path s) = Some g" using inv Some by (simp add: sink_inv_def)
  let ?s = "s\<lparr>sk_file := None\<rparr>"
  have closed: "quiet {?p} f s f' ?s" if "fs_dir f' = fs_dir f" "same_files f f'" for f'
    by (rule quiet_close [OF inv that])
  have pub: "wp (publish ?p) Q E (f1, ?s)" if f1: "fs_dir f1 = fs_dir f" "same_files f f1" for f1
  proof -
    note q = closed [OF f1]
    have inv1: "sink_inv f1 ?s" by (rule quiet_inv [OF q])
    then have "attempt_inv f1 ?s" "?p \<notin> {at_lock_path ?s, at_staging_path ?s}" by (simp_all add: sink_inv_def)
    then show ?thesis
    proof (rule wp_publishI [where W = "{}"])
      fix f2 s2 e
      assume st: "attempt_step {?p} {} f1 ?s f2 s2" and m: "attempt.more s2 = attempt.more ?s"
      have q2: "quiet {?p} f s f2 s2"
        by (rule quiet_trans [OF q quiet_attempt [OF inv1 _ st m] _ inv]) simp_all
      show "Q h (f2, s2)"
        if "owned s2 = {}" "fs_dir f1 (at_staging_path ?s) = Some h" "fs_dir f1 ?p = None" "fs_dir f2 ?p = Some h" for h
        by (rule ok [OF q2 that(1)]) (use that f1 g Some in simp_all)
      show "E e (f2, s2)"
        if "fs_dir f2 ?p = fs_dir f1 ?p \<or> (fs_dir f1 ?p = None \<and> fs_dir f2 ?p = fs_dir f1 (at_staging_path ?s))"
        by (rule err) (use q2 that f1 g Some in \<open>auto simp: quiet_def\<close>)
    qed
  qed
  show ?thesis unfolding finalize_sync_def
    by (simp add: Some) (intro wp_simpleI pub err [OF same]; simp add: same_files_def keeps_data_def)
qed

section \<open>Shielded workers\<close>

text \<open>
  How a shielded call ends: the worker's value, the worker's \<open>OSError\<close>, or a cancellation after
  which the work was undone, or could not be undone.
\<close>

datatype 'a shielded = Done 'a | Failed os_error | Undone | Undo_Failed

fun undone_by :: "(os_error + unit) \<times> 's \<Rightarrow> 'a shielded \<times> 's" where
  "undone_by (Inr _, w) = (Undone, w)"
| "undone_by (Inl _, w) = (Undo_Failed, w)"

fun settled :: "(os_error + 'a) \<times> 's \<Rightarrow> 'a shielded \<times> 's" where
  "settled (Inr x, w) = (Done x, w)"
| "settled (Inl e, w) = (Failed e, w)"

definition shielded_open :: "bool \<Rightarrow> ('o, nat) sink_io \<Rightarrow> fs \<times> 'o sink_scheme \<Rightarrow> nat shielded \<times> fs \<times> 'o sink_scheme" where
  "shielded_open cancel open_sync w =
     (case open_sync w of (r, w1) \<Rightarrow>
        (if cancel
         then undone_by (cleanup_open_result_sync (case r of Inr file \<Rightarrow> Some file | Inl _ \<Rightarrow> None) w1)
         else settled (r, w1)))"

definition shielded_write :: "bool \<Rightarrow> ('o, unit) sink_io \<Rightarrow> fs \<times> 'o sink_scheme \<Rightarrow> unit shielded \<times> fs \<times> 'o sink_scheme" where
  "shielded_write cancel write_sync w =
     (case write_sync w of (r, w1) \<Rightarrow> (if cancel then undone_by (abort_sync w1) else settled (r, w1)))"

text \<open>A failed finalization deletes the staging file, whatever that raises.\<close>

definition shielded_finalize :: "bool \<Rightarrow> fs \<times> 'o sink_scheme \<Rightarrow> unit shielded \<times> fs \<times> 'o sink_scheme" where
  "shielded_finalize cancel w =
     (case finalize_sync w of (r, w1) \<Rightarrow>
        (if cancel
         then undone_by (case r of
                Inr identity \<Rightarrow> io_seq (rollback_published (sk_final_path (snd w)) identity) abort_sync w1
              | Inl _ \<Rightarrow> abort_sync w1)
         else case r of
                Inr identity \<Rightarrow> (Done (), w1)
              | Inl e \<Rightarrow> (Failed e, snd (abort_sync w1))))"

definition shielded_abort :: "bool \<Rightarrow> fs \<times> 'o sink_scheme \<Rightarrow> unit shielded \<times> fs \<times> 'o sink_scheme" where
  "shielded_abort cancel w =
     (if cancel then undone_by (abort_sync w) else settled (abort_sync w))"

section \<open>Further facts\<close>

lemma owned_sk_file [simp]: "owned (s\<lparr>sk_file := x\<rparr>) = owned s"
  by (simp add: owned_def)

lemma attempt_step_sk_file [simp]:
  "attempt_inv f (s\<lparr>sk_file := x\<rparr>) = attempt_inv f s"
  "attempt_step F W f a f' (s'\<lparr>sk_file := x\<rparr>) = attempt_step F W f a f' s'"
  by (simp_all add: attempt_step_def attempt_inv_def same_paths_def)

lemma sink_inv_acquired:
  fixes s s' :: "'o sink_scheme"
  assumes inv: "sink_inv f s" and none: "sk_file s = None"
    and st: "attempt_step {} {} f s f' s'" and m: "attempt.more s' = attempt.more s"
    and o: "at_owns_lock s'" "at_owns_staging s'" and d: "fs_dir f' (at_staging_path s') = Some g" "fs_next f \<le> g"
      "\<And>n. fs_dir f' n = Some g \<Longrightarrow> n = at_staging_path s'"
  shows "sink_step {} f s f' (s'\<lparr>sk_file := Some g\<rparr>)"
proof -
  have step: "sink_step {} f s f' s'" by (rule sink_step_attempt [OF inv none st m])
  then have "attempt_inv f' s'" "sk_final_path s' \<notin> {at_lock_path s', at_staging_path s'}"
    by (auto simp: sink_step_def sink_inv_def)
  then have "attempt_inv f' (s'\<lparr>sk_file := Some g\<rparr>)" "sk_final_path s' \<notin> {at_lock_path s', at_staging_path s'}"
    by simp_all
  then have "sink_inv f' (s'\<lparr>sk_file := Some g\<rparr>)"
    unfolding sink_inv_def using o d(1) by (auto dest: d(3))
  moreover have "attempt_step {} {} f s f' (s'\<lparr>sk_file := Some g\<rparr>)"
    using st by simp
  ultimately show ?thesis using step d(2) none by (simp add: sink_step_def)
qed

lemma wp_cases:
  assumes "wp m Q E w"
  obtains (ok) x w1 where "m w = (Inr x, w1)" "Q x w1" | (err) e w1 where "m w = (Inl e, w1)" "E e w1"
  using assms by (cases "m w"; cases "fst (m w)") (auto simp: wp_def)

lemma sink_step_inv: "sink_step F f s f' s' \<Longrightarrow> sink_inv f' s'"
  by (simp add: sink_step_def)

lemma sink_inv_eat [simp]: "sink_inv (eat f) s = sink_inv f s"
  by (simp add: sink_inv_def attempt_inv_def fs_wf_def)

lemma sink_step_eat [simp]: "sink_step F (eat f) s f' s' = sink_step F f s f' s'"
  by (simp add: sink_step_def attempt_step_def)

text \<open>The existence check and the acquisition, as both sinks open their file.\<close>

lemma wp_open_acquireI:
  fixes s :: "'o sink_scheme"
  assumes inv: "sink_inv f s" and new: "sk_file s = None" "owned s = {}"
    and ok: "\<And>f' s' g. sink_step {} f s f' (s'\<lparr>sk_file := Some g\<rparr>) \<Longrightarrow> quiet {} f s f' s' \<Longrightarrow>
      fs_next f \<le> g \<Longrightarrow> fs_data f' g = [] \<Longrightarrow> fs_dir f (sk_final_path s) = None \<Longrightarrow> Q g (f', s')"
    and err: "\<And>f' s' e. quiet {} f s f' s' \<Longrightarrow> E e (f', s')"
  shows "wp (io_bind (on_fs (sys_exists (sk_final_path s)))
    (\<lambda>ex. if ex then io_raise FileExistsErr else acquire_staging)) Q E (f, s)"
proof -
  have a: "attempt_inv (eat f) s" using inv by (simp add: sink_inv_def attempt_inv_def fs_wf_def)
  have inv': "sink_inv (eat f) s" using inv by simp
  have q: "quiet {} f s f' s'" if "attempt_step {} {} (eat f) s f' s'" "attempt.more s' = attempt.more s" for f' s'
    using quiet_attempt [OF inv' new(1) that] by (simp add: quiet_def)
  have "s\<lparr>sk_file := None\<rparr> = s" using new(1) by (cases s) simp
  then have q0: "quiet {} f s (eat f) s" using quiet_close [OF inv, of "eat f" "{}"] by simp
  have acq: "wp acquire_staging Q E (eat f, s)" if free: "fs_dir f (sk_final_path s) = None"
  proof (rule wp_acquire_stagingI [OF a new(2), where W = "{}"])
    fix f' s' g
    assume st: "attempt_step {} {} (eat f) s f' s'" "attempt.more s' = attempt.more s"
      and o: "at_owns_lock s'" "at_owns_staging s'" "fs_dir f' (at_staging_path s') = Some g"
        "fs_next (eat f) \<le> g" "fs_data f' g = []" and u: "\<And>n. fs_dir f' n = Some g \<Longrightarrow> n = at_staging_path s'"
    have "sink_step {} (eat f) s f' (s'\<lparr>sk_file := Some g\<rparr>)"
      by (rule sink_inv_acquired [OF inv' new(1) st o(1,2,3,4)]) (rule u)
    then show "Q g (f', s')"
      by (intro ok [OF _ q [OF st]]) (use o free in simp_all)
  qed (rule err [OF q])
  show ?thesis
    by simp (intro wp_existsI; (rule err [OF q0])?; use acq err [OF q0] in auto)
qed

lemma quiet_step: "quiet F f s f' s' \<Longrightarrow> sink_step F f s f' s'"
  by (simp add: quiet_def)

lemma quiet_more: "quiet F f s f' s' \<Longrightarrow> sink.more s' = sink.more s"
  by (simp add: quiet_def)

lemma sink_step_keeps_final:
  "sink_inv f s \<Longrightarrow> sink_step {} f s f' s' \<Longrightarrow> fs_dir f' (sk_final_path s) = fs_dir f (sk_final_path s)"
  using owned_paths [of s] owned_paths [of s']
  by (auto simp: sink_step_def sink_inv_def attempt_step_def same_paths_def)

lemma sink_step_write:
  assumes "sink_inv f s" and "sk_file s = Some g" and "fs_dir f' = fs_dir f" and "fs_next f' = fs_next f"
    and "fs_data f' = (fs_data f)(g := bs)"
  shows "sink_step F f s f' s"
  using assms by (simp add: sink_step_def sink_inv_def attempt_step_def attempt_inv_def same_paths_def fs_wf_def)

text \<open>Where the final name can point after a finalization: nowhere new, or at the file.\<close>

definition final_cond :: "fs \<Rightarrow> 'o sink_scheme \<Rightarrow> fs \<Rightarrow> bool" where
  "final_cond f s f' \<longleftrightarrow>
     fs_dir f' (sk_final_path s) = fs_dir f (sk_final_path s) \<or>
     (fs_dir f (sk_final_path s) = None \<and> fs_dir f' (sk_final_path s) = sk_file s \<and> sk_file s \<noteq> None)"

definition finalize_step :: "fs \<Rightarrow> 'o sink_scheme \<Rightarrow> fs \<Rightarrow> 'o sink_scheme \<Rightarrow> bool" where
  "finalize_step f s f' s' \<longleftrightarrow>
     sink_step {sk_final_path s} f s f' s' \<and> sink.more s' = sink.more s \<and> keeps_data f f' \<and> final_cond f s f'"

lemma sink_inv_final: "sink_inv f s \<Longrightarrow> sk_final_path s \<notin> owned s"
  using owned_paths [of s] by (auto simp: sink_inv_def)

lemma finalize_step_quiet:
  fixes s :: "'o sink_scheme"
  assumes st: "finalize_step f s f1 s1" and q: "quiet {} f1 s1 f2 s2" and inv: "sink_inv f s"
  shows "finalize_step f s f2 s2"
proof -
  have p: "sk_final_path s1 = sk_final_path s" using st by (simp add: finalize_step_def sink_step_def)
  have st1: "sink_step {sk_final_path s} f s f1 s1" using st by (simp add: finalize_step_def)
  note i1 = sink_step_inv [OF st1]
  have "sink_step {sk_final_path s} f s f2 s2"
    by (rule sink_step_trans [OF st1 sink_step_mono [OF quiet_step [OF q]] _ inv]) simp_all
  moreover have "fs_dir f2 (sk_final_path s) = fs_dir f1 (sk_final_path s)"
    using sink_step_keeps_final [OF i1 quiet_step [OF q]] p by simp
  ultimately show ?thesis
    using st q by (auto simp: finalize_step_def final_cond_def quiet_def intro: keeps_data_trans)
qed

lemma finalize_then_abort:
  fixes s :: "'o sink_scheme"
  assumes st: "finalize_step f s f1 s1" and inv: "sink_inv f s"
  shows "wp abort_sync (\<lambda>_ w. case w of (f2, s2) \<Rightarrow> finalize_step f s f2 s2 \<and> sk_file s2 = None \<and> owned s2 = {})
    (\<lambda>_ w. case w of (f2, s2) \<Rightarrow> finalize_step f s f2 s2) (f1, s1)"
proof (rule wp_abort_syncI)
  show "sink_inv f1 s1" using st by (simp add: finalize_step_def sink_step_def)
qed (use finalize_step_quiet [OF st _ inv] in \<open>auto simp: quiet_file\<close>)

lemma finalize_step_fs:
  "finalize_step f s f1 s1 \<Longrightarrow> fs_dir f2 = fs_dir f1 \<Longrightarrow> same_files f1 f2 \<Longrightarrow> finalize_step f s f2 s1"
proof -
  assume f2: "fs_dir f2 = fs_dir f1" "same_files f1 f2"
  have "sink_step F f s f2 s1 = sink_step F f s f1 s1" "final_cond f s f2 = final_cond f s f1"
    "keeps_data f f2 = keeps_data f f1" for F
    using f2 by (simp_all add: sink_step_def sink_inv_def attempt_step_def attempt_inv_def fs_wf_def same_files_def
        keeps_data_def final_cond_def)
  then show "finalize_step f s f1 s1 \<Longrightarrow> finalize_step f s f2 s1" by (simp add: finalize_step_def)
qed

lemma finalize_step_rollback:
  fixes s :: "'o sink_scheme"
  assumes st: "finalize_step f s f1 s1" and own: "owned s1 = {}" "sk_file s1 = None"
    and g: "fs_dir f (sk_final_path s) = None"
    and f2: "fs_dir f2 = (fs_dir f1)(sk_final_path s := None)" "same_files f1 f2"
  shows "finalize_step f s f2 s1"
proof -
  have a: "attempt_step {sk_final_path s} (set_option (sk_file s)) f s f1 s1" and i: "sink_inv f1 s1"
    using st by (simp_all add: finalize_step_def sink_step_def)
  have i2: "attempt_inv f2 s1" "sink_inv f2 s1"
    using i own f2 by (auto simp: sink_inv_def attempt_inv_def fs_wf_def same_files_def)
  have "attempt_step {sk_final_path s} (set_option (sk_file s)) f s f2 s1"
    using a i2(1) f2 g own(1) by (auto simp: attempt_step_def same_files_def)
  with st i2(2) f2 g show ?thesis
    by (simp add: finalize_step_def sink_step_def final_cond_def keeps_data_def same_files_def)
qed

text \<open>Taking a publication back: the final name is free again, unless a call failed.\<close>

lemma rollback_then_abort:
  fixes s :: "'o sink_scheme"
  assumes st: "finalize_step f s f1 s1" and inv: "sink_inv f s" and own: "owned s1 = {}" "sk_file s1 = None"
    and g: "fs_dir f (sk_final_path s) = None" "fs_dir f1 (sk_final_path s) = Some g" 
  shows "wp (io_seq (rollback_published (sk_final_path s) g) abort_sync)
    (\<lambda>_ w. case w of (f2, s2) \<Rightarrow> finalize_step f s f2 s2 \<and> sk_file s2 = None \<and> owned s2 = {} \<and>
       fs_dir f2 (sk_final_path s) = None)
    (\<lambda>_ w. case w of (f2, s2) \<Rightarrow> finalize_step f s f2 s2) (f1, s1)"
proof (simp, rule wp_rollbackI)
  fix f2 :: fs and e :: os_error
  assume same: "fs_dir f2 = fs_dir f1" "same_files f1 f2"
  show "case (f2, s1) of (f2, s2) \<Rightarrow> finalize_step f s f2 s2"
    using finalize_step_fs [OF st same] by simp
next
  fix f2
  assume f2: "fs_dir f2 = (fs_dir f1)(sk_final_path s := None)" "same_files f1 f2"
  have p: "sk_final_path s1 = sk_final_path s" using st by (simp add: finalize_step_def sink_step_def)
  have st2: "finalize_step f s f2 s1" by (rule finalize_step_rollback [OF st own g(1) f2])
  have i2: "sink_inv f2 s1" using st2 by (simp add: finalize_step_def sink_step_def)
  show "wp abort_sync (\<lambda>_ w. case w of (f2, s2) \<Rightarrow> finalize_step f s f2 s2 \<and> sk_file s2 = None \<and> owned s2 = {} \<and>
       fs_dir f2 (sk_final_path s) = None) (\<lambda>_ w. case w of (f2, s2) \<Rightarrow> finalize_step f s f2 s2) (f2, s1)"
  proof (rule wp_abort_syncI [OF i2])
    fix f3 s3
    assume q: "quiet {} f2 s1 f3 s3" "owned s3 = {}"
    have "fs_dir f3 (sk_final_path s) = None"
      using sink_step_keeps_final [OF i2 quiet_step [OF q(1)]] p f2(1) by simp
    with finalize_step_quiet [OF st2 q(1) inv] quiet_file [OF q(1)] q(2)
    show "case (f3, s3) of (f2, s2) \<Rightarrow> finalize_step f s f2 s2 \<and> sk_file s2 = None \<and> owned s2 = {} \<and>
       fs_dir f2 (sk_final_path s) = None" by simp
  qed (use finalize_step_quiet [OF st2 _ inv] in simp)
qed (use g in simp)

lemma wp_finalize_stepI:
  fixes s :: "'o sink_scheme"
  assumes inv: "sink_inv f s"
  shows "wp finalize_sync
    (\<lambda>g w. case w of (f1, s1) \<Rightarrow> finalize_step f s f1 s1 \<and> sk_file s1 = None \<and> owned s1 = {} \<and>
       sk_file s = Some g \<and> fs_dir f (sk_final_path s) = None \<and> fs_dir f1 (sk_final_path s) = Some g)
    (\<lambda>_ w. case w of (f1, s1) \<Rightarrow> finalize_step f s f1 s1) (f, s)"
  by (rule wp_finalize_syncI [OF inv]) (auto simp: finalize_step_def final_cond_def quiet_def)


section \<open>What a shielded call guarantees\<close>

lemma shielded_open_cases:
  fixes s :: "'o sink_scheme"
  assumes inv: "sink_inv f s"
    and sync: "wp open_sync (\<lambda>g w. quiet {} f s (fst w) (snd w) \<and> Q g w) (\<lambda>_ w. quiet {} f s (fst w) (snd w)) (f, s)"
    and r: "shielded_open cancel open_sync (f, s) = (r, f', s')"
  obtains (opened) g where "r = Done g" "quiet {} f s f' s'" "Q g (f', s')"
  | (undone) "r = Undone" "quiet {} f s f' s'" "owned s' = {}"
  | (failed) "r = Undo_Failed \<or> (\<exists>e. r = Failed e)" "quiet {} f s f' s'"
proof (cases cancel)
  case True
  obtain res f1 s1 where m: "open_sync (f, s) = (res, f1, s1)" by (metis prod.collapse)
  from sync m have q: "quiet {} f s f1 s1" by (auto simp: wp_def split: sum.splits)
  have "wp (cleanup_open_result_sync opened) (\<lambda>_ w. quiet {} f s (fst w) (snd w) \<and> owned (snd w) = {})
      (\<lambda>_ w. quiet {} f s (fst w) (snd w)) (f1, s1)" for opened
    by (rule wp_cleanup_open_resultI [OF quiet_inv [OF q] quiet_file [OF q]])
      (use quiet_trans [OF q _ _ inv] in auto)
  from this [of "case res of Inr file \<Rightarrow> Some file | Inl _ \<Rightarrow> None"] show ?thesis
  proof (cases rule: wp_cases)
    case (ok x w1)
    with r m True show ?thesis by (intro undone) (auto simp: shielded_open_def)
  next
    case (err e w1)
    with r m True show ?thesis by (intro failed) (auto simp: shielded_open_def)
  qed
next
  case False
  from sync show ?thesis
  proof (cases rule: wp_cases)
    case (ok g w1)
    with r False show ?thesis by (intro opened [of g]) (auto simp: shielded_open_def)
  next
    case (err e w1)
    with r False show ?thesis by (intro failed) (auto simp: shielded_open_def)
  qed
qed

lemma shielded_write_cases:
  fixes s :: "'o sink_scheme"
  assumes inv: "sink_inv f s"
    and sync: "wp write_sync (\<lambda>x w. P w \<and> Q w) (\<lambda>_ w. P w) (f, s)"
    and P: "P = (\<lambda>w. sink_step {} f s (fst w) (snd w) \<and> sink.more (snd w) = sink.more s)"
    and r: "shielded_write cancel write_sync (f, s) = (r, f', s')"
  obtains (wrote) "r = Done ()" "P (f', s')" "Q (f', s')"
  | (undone) "r = Undone" "P (f', s')" "owned s' = {}" "sk_file s' = None"
  | (failed) "r = Undo_Failed \<or> (\<exists>e. r = Failed e)" "P (f', s')"
proof (cases cancel)
  case True
  obtain res f1 s1 where m: "write_sync (f, s) = (res, f1, s1)" by (metis prod.collapse)
  from sync m have st: "P (f1, s1)" by (auto simp: wp_def split: sum.splits)
  then have st1: "sink_step {} f s f1 s1" "sink.more s1 = sink.more s" by (simp_all add: P)
  have q: "P (f2, s2) \<and> sk_file s2 = None" if "quiet {} f1 s1 f2 s2" for f2 s2
    using sink_step_trans [OF st1(1) quiet_step [OF that] _ inv] that st1(2) by (simp add: P quiet_def)
  have "wp abort_sync (\<lambda>_ w. P w \<and> owned (snd w) = {} \<and> sk_file (snd w) = None) (\<lambda>_ w. P w) (f1, s1)"
    by (rule wp_abort_syncI [OF sink_step_inv [OF st1(1)]]) (use q in auto)
  from this show ?thesis
  proof (cases rule: wp_cases)
    case (ok x w1)
    with r m True show ?thesis by (intro undone) (auto simp: shielded_write_def)
  next
    case (err e w1)
    with r m True show ?thesis by (intro failed) (auto simp: shielded_write_def)
  qed
next
  case False
  from sync show ?thesis
  proof (cases rule: wp_cases)
    case (ok g w1)
    with r False show ?thesis by (intro wrote) (auto simp: shielded_write_def)
  next
    case (err e w1)
    with r False show ?thesis by (intro failed) (auto simp: shielded_write_def)
  qed
qed

lemma shielded_finalize_cases:
  fixes s :: "'o sink_scheme"
  assumes inv: "sink_inv f s" and r: "shielded_finalize cancel (f, s) = (r, f', s')"
  obtains (published) "r = Done ()" "finalize_step f s f' s'" "owned s' = {}" "sk_file s' = None"
      "sk_file s \<noteq> None" "fs_dir f (sk_final_path s) = None" "fs_dir f' (sk_final_path s) = sk_file s"
  | (undone) "r = Undone" "finalize_step f s f' s'" "owned s' = {}" "sk_file s' = None"
  | (failed) "r = Undo_Failed \<or> (\<exists>e. r = Failed e)" "finalize_step f s f' s'"
proof -
  obtain res f1 s1 where m: "finalize_sync (f, s) = (res, f1, s1)" by (metis prod.collapse)
  note fin = wp_finalize_stepI [OF inv]
  from fin m have st: "finalize_step f s f1 s1" by (auto simp: wp_def split: sum.splits)
  show ?thesis
  proof (cases res)
    case (Inl e)
    from finalize_then_abort [OF st inv] show ?thesis
    proof (cases rule: wp_cases)
      case (ok x w1)
      show ?thesis
      proof (cases cancel)
        case True
        with ok r m Inl show ?thesis by (intro undone) (auto simp: shielded_finalize_def)
      next
        case False
        with ok r m Inl show ?thesis by (intro failed) (auto simp: shielded_finalize_def)
      qed
    next
      case (err e' w1)
      with r m Inl show ?thesis by (intro failed) (auto simp: shielded_finalize_def split: if_splits)
    qed
  next
    case (Inr g)
    with fin m have o: "owned s1 = {}" "sk_file s1 = None" "sk_file s = Some g"
      "fs_dir f (sk_final_path s) = None" "fs_dir f1 (sk_final_path s) = Some g" by (simp_all add: wp_def)
    show ?thesis
    proof (cases cancel)
      case True
      from rollback_then_abort [OF st inv o(1,2,4,5)] show ?thesis
      proof (cases rule: wp_cases)
        case (ok x w1)
        with r m Inr True show ?thesis by (intro undone) (auto simp: shielded_finalize_def)
      next
        case (err e w1)
        with r m Inr True show ?thesis by (intro failed) (auto simp: shielded_finalize_def)
      qed
    next
      case False
      with r m Inr published st o show ?thesis by (auto simp: shielded_finalize_def)
    qed
  qed
qed

lemma shielded_abort_cases:
  fixes s :: "'o sink_scheme"
  assumes inv: "sink_inv f s" and r: "shielded_abort cancel (f, s) = (r, f', s')"
  obtains (aborted) "r = (if cancel then Undone else Done ())" "quiet {} f s f' s'" "owned s' = {}"
  | (failed) "r = Undo_Failed \<or> (\<exists>e. r = Failed e)" "quiet {} f s f' s'"
proof -
  have "wp abort_sync (\<lambda>_ w. quiet {} f s (fst w) (snd w) \<and> owned (snd w) = {})
      (\<lambda>_ w. quiet {} f s (fst w) (snd w)) (f, s)"
    by (rule wp_abort_syncI [OF inv]) simp_all
  then show ?thesis
  proof (cases rule: wp_cases)
    case (ok x w1)
    with r show ?thesis by (intro aborted) (auto simp: shielded_abort_def split: if_splits)
  next
    case (err e w1)
    with r show ?thesis by (intro failed) (auto simp: shielded_abort_def split: if_splits)
  qed
qed

text \<open>The names a sink is built with are distinct: the final name does not start with a dot.\<close>

lemma sink_names:
  assumes "recording_id_ok recording_id" and "length lock_suffix \<le> length staging_suffix"
  shows "attempt_lock_path recording_id lock_suffix \<noteq> attempt_staging_path recording_id token staging_suffix"
    and "recording_id @ final_suffix \<notin> {attempt_lock_path recording_id lock_suffix,
           attempt_staging_path recording_id token staging_suffix}"
proof -
  have "length (attempt_lock_path recording_id lock_suffix) < length (attempt_staging_path recording_id token staging_suffix)"
    using assms(2) by (simp add: attempt_lock_path_def attempt_staging_path_def)
  then show "attempt_lock_path recording_id lock_suffix \<noteq> attempt_staging_path recording_id token staging_suffix"
    by auto
  obtain c cs where c: "recording_id = c # cs" "ascii_alnum c"
    using assms(1) by (cases recording_id) auto
  have "\<not> ascii_alnum (CHR ''.'')" by code_simp
  with c(2) have "c \<noteq> CHR ''.''" by auto
  with c(1) show "recording_id @ final_suffix \<notin> {attempt_lock_path recording_id lock_suffix,
      attempt_staging_path recording_id token staging_suffix}"
    by (simp add: attempt_lock_path_def attempt_staging_path_def)
qed

text \<open>A sink that owns nothing leaves every existing file alone, name and bytes.\<close>

lemma sink_step_isolated:
  assumes step: "sink_step F f s f' s'" and inv: "sink_inv f s"
    and n: "n \<notin> owned s" "fs_dir f n = Some i"
  shows "fs_dir f' n = Some i" and "fs_data f' i = fs_data f i"
proof -
  from step have a: "attempt_step F (set_option (sk_file s)) f s f' s'" by (simp add: sink_step_def)
  have "n \<notin> owned s'" using a n by (auto simp: attempt_step_def)
  with a n show "fs_dir f' n = Some i" by (auto simp: attempt_step_def)
  have "i < fs_next f" using inv n by (auto simp: sink_inv_def attempt_inv_def fs_wf_def)
  moreover have "i \<notin> set_option (sk_file s)"
    using inv n by (auto simp: sink_inv_def owned_def split: if_splits)
  ultimately show "fs_data f' i = fs_data f i" using a by (auto simp: attempt_step_def)
qed

lemma sink_step_residue:
  assumes "sink_step {sk_final_path s} f s f' s'" and "owned s = {}" and "owned s' = {}"
    and "n \<noteq> sk_final_path s"
  shows "fs_dir f' n = fs_dir f n"
  using assms by (auto simp: sink_step_def attempt_step_def)

end
