(* ===== verification/Rtp_Packet.thy ===== *)
theory Rtp_Packet
  imports K5_Prelude
begin

unbundle bit_operations_syntax

text \<open>
  The wire facts the recording and playback code relies on: \<open>is_rtp_v2\<close> of
  \<open>src/src/k5vision/media/rtp_delivery.py\<close>, the header fields that playback reads, and
  \<open>zlib.crc32\<close> of the standard library.
\<close>

section \<open>RTP\<close>

definition is_rtp_v2 :: "byte list \<Rightarrow> bool" where
  "is_rtp_v2 packet =
     (if len packet < 12 \<or> drop_bit 6 (packet ! 0) \<noteq> 2 then False
      else
        (let csrc_count = uint (packet ! 0 AND 15);
             header_length = 12 + csrc_count * 4
         in if len packet < header_length then False
            else if packet ! 0 AND 16 = 0 then True
            else if len packet < header_length + 4 then False
            else
              (let h = nat header_length;
                   extension_words = from_bytes_big (take 2 (drop (h + 2) packet))
               in header_length + 4 + extension_words * 4 \<le> len packet)))"

lemma is_rtp_v2_length: "is_rtp_v2 p \<Longrightarrow> 12 \<le> length p"
  by (auto simp: is_rtp_v2_def split: if_splits)

lemma is_rtp_v2_version: "is_rtp_v2 p \<Longrightarrow> drop_bit 6 (p ! 0) = 2"
  by (auto simp: is_rtp_v2_def split: if_splits)

text \<open>
  The offset at which the payload of a valid packet starts: after the fixed header, the CSRC
  list and the header extension when there is one.
\<close>

definition rtp_header_bytes :: "byte list \<Rightarrow> int" where
  "rtp_header_bytes p =
     (let base = 12 + uint (p ! 0 AND 15) * 4
      in if p ! 0 AND 16 = 0 then base
         else base + 4 + from_bytes_big (take 2 (drop (nat base + 2) p)) * 4)"

lemma uint_and_15: "0 \<le> uint (b AND (15 :: byte))" "uint (b AND (15 :: byte)) \<le> 15"
proof -
  have "b AND 15 \<le> (15 :: byte)" by (rule word_and_le1)
  then have "uint (b AND 15) \<le> uint (15 :: byte)" by (simp only: word_le_def)
  then show "uint (b AND (15 :: byte)) \<le> 15" by simp
qed simp

lemma is_rtp_v2_header: "is_rtp_v2 p \<Longrightarrow> 12 \<le> rtp_header_bytes p \<and> rtp_header_bytes p \<le> len p"
proof -
  assume v: "is_rtp_v2 p"
  have "0 \<le> from_bytes_big (take 2 (drop (nat (12 + uint (p ! 0 AND 15) * 4) + 2) p))"
    by (rule from_bytes_big_bounds)
  with v uint_and_15 [of "p ! 0"] show ?thesis
    by (auto simp: is_rtp_v2_def rtp_header_bytes_def Let_def split: if_splits)
qed

text \<open>The fields a player reads: payload type (second byte, seven bits) and timestamp (bytes 4 to 7).\<close>

definition rtp_payload_type :: "byte list \<Rightarrow> int" where
  "rtp_payload_type packet = uint (packet ! 1 AND 127)"

definition rtp_timestamp :: "byte list \<Rightarrow> int" where
  "rtp_timestamp packet = from_bytes_big (take 4 (drop 4 packet))"

lemma rtp_timestamp_bounds: "0 \<le> rtp_timestamp p" "rtp_timestamp p < 4294967296"
proof -
  have "length (take 4 (drop 4 p)) \<le> 4" by simp
  then have "(256::int) ^ length (take 4 (drop 4 p)) \<le> 256 ^ 4" by (intro power_increasing) simp_all
  then show "0 \<le> rtp_timestamp p" "rtp_timestamp p < 4294967296"
    using from_bytes_big_bounds [of "take 4 (drop 4 p)"] unfolding rtp_timestamp_def by simp_all
qed

section \<open>CRC-32\<close>

text \<open>
  \<open>zlib.crc32\<close>: the reflected CRC-32 with polynomial \<open>0xEDB88320\<close>, start value and final
  complement \<open>0xFFFFFFFF\<close>, one bit at a time.
\<close>

definition crc_bit :: "32 word \<Rightarrow> 32 word" where
  "crc_bit c = (if c AND 1 = 1 then drop_bit 1 c XOR 3988292384 else drop_bit 1 c)"

definition crc_byte :: "32 word \<Rightarrow> byte \<Rightarrow> 32 word" where
  "crc_byte c b = (crc_bit ^^ 8) (c XOR ucast b)"

definition crc32 :: "byte list \<Rightarrow> int" where
  "crc32 bs = uint (foldl crc_byte 4294967295 bs XOR 4294967295)"

lemma crc32_bounds: "0 \<le> crc32 bs" "crc32 bs < 4294967296"
proof -
  show "0 \<le> crc32 bs" by (simp add: crc32_def)
  have "uint w < 2 ^ LENGTH(32)" for w :: "32 word" by (rule uint_bounded)
  then show "crc32 bs < 4294967296" by (simp add: crc32_def)
qed

text \<open>Unrolled, so that the simplifier evaluates a checksum bit by bit.\<close>

lemma crc_byte_unroll:
  "crc_byte c b =
     crc_bit (crc_bit (crc_bit (crc_bit (crc_bit (crc_bit (crc_bit (crc_bit (c XOR ucast b))))))))"
  by (simp add: crc_byte_def eval_nat_numeral)

declare crc_byte_unroll [code]

lemmas crc32_eval = crc32_def crc_byte_unroll crc_bit_def

text \<open>The check value every CRC-32 table lists: the digits 1 to 9 give \<open>0xCBF43926\<close>.\<close>

lemma crc32_check_value: "crc32 [49, 50, 51, 52, 53, 54, 55, 56, 57] = 3421780262"
  by (simp add: crc32_eval)

end
