(* ===== verification/Recording_Sink.thy ===== *)
theory Recording_Sink
  imports Rtp_Packet
begin

text \<open>
  The interface \<open>RecordingSink\<close> of \<open>src/src/k5vision/media/recording.py\<close>: the four operations a
  recorder calls, as functions of a world \<open>'w\<close> that holds the sink and what it works on, and the
  contract the recorder's guarantees rest on. The two sinks of the repository meet it
  (\<open>File_Sink\<close>, \<open>Framed_Sink\<close>).

  The boolean argument of an operation says whether a cancellation is delivered at the await the
  operation is suspended in.
\<close>

record ('w, 'e) recording_sink_ops =
  rs_open :: "bool \<Rightarrow> 'w \<Rightarrow> ('e + unit) \<times> 'w"
  rs_write :: "byte list \<Rightarrow> bool \<Rightarrow> 'w \<Rightarrow> ('e + unit) \<times> 'w"
  rs_finalize :: "bool \<Rightarrow> 'w \<Rightarrow> ('e + unit) \<times> 'w"
  rs_abort :: "bool \<Rightarrow> 'w \<Rightarrow> ('e + unit) \<times> 'w"
  rs_is_cancelled :: "'e \<Rightarrow> bool"

text \<open>
  \<open>holds ps w\<close>: the sink of \<open>w\<close> has accepted exactly the packets \<open>ps\<close>; \<open>published ps w\<close>: they
  are on record for good. A write that returns has taken the packet, and one that raises has
  not; a \<open>finalize\<close> that returns has published what was accepted.
\<close>

locale recording_sink =
  fixes ops :: "('w, 'e) recording_sink_ops"
    and holds :: "byte list list \<Rightarrow> 'w \<Rightarrow> bool"
    and published :: "byte list list \<Rightarrow> 'w \<Rightarrow> bool"
  assumes open_keeps: "holds ps w \<Longrightarrow> rs_open ops c w = (r, w') \<Longrightarrow> holds ps w'"
    and write_takes: "holds ps w \<Longrightarrow> rs_write ops p c w = (Inr u, w') \<Longrightarrow> holds (ps @ [p]) w'"
    and write_fails: "holds ps w \<Longrightarrow> rs_write ops p c w = (Inl e, w') \<Longrightarrow> holds ps w'"
    and finalize_keeps: "holds ps w \<Longrightarrow> rs_finalize ops c w = (r, w') \<Longrightarrow> holds ps w'"
    and finalize_publishes: "holds ps w \<Longrightarrow> rs_finalize ops c w = (Inr u, w') \<Longrightarrow> published ps w'"
    and abort_keeps: "holds ps w \<Longrightarrow> rs_abort ops c w = (r, w') \<Longrightarrow> holds ps w'"

end
