(* ===== verification/File_Sink.thy ===== *)
theory File_Sink
  imports Sink_Base Recording_Sink
begin

text \<open>
  \<open>src/src/k5vision/media/file_sink.py\<close>: \<open>AtomicLocalRecordingSink\<close> stores opaque packets in a
  staging file and publishes it on \<open>finalize\<close>. Each method is its state check, its shielded
  work, and the state and error it maps the outcome to.
\<close>

section \<open>State\<close>

datatype file_sink_state = FileSink_CREATED | FileSink_OPEN | FileSink_FINALIZED | FileSink_ABORTED | FileSink_FAILED

datatype file_sink_error_code =
    FileSink_INVALID_RECORDING_ID
  | FileSink_INVALID_STATE
  | FileSink_CONFLICT
  | FileSink_LIMIT_EXCEEDED
  | FileSink_IO_FAILURE

datatype file_sink_exn =
    FileSinkError file_sink_error_code
  | FileSink_CancelledError
  | FileSink_ValueError

record file_sink = sink +
  ls_max_bytes :: int
  ls_state :: file_sink_state
  ls_bytes_written :: int

record file_sink_snapshot =
  lss_state :: file_sink_state
  lss_bytes_written :: int

definition file_sink_init :: "string \<Rightarrow> string \<Rightarrow> int \<Rightarrow> file_sink_exn + file_sink" where
  "file_sink_init token recording_id max_bytes =
     (if \<not> recording_id_ok recording_id \<or> recording_id = ''.'' \<or> recording_id = ''..''
      then Inl (FileSinkError FileSink_INVALID_RECORDING_ID)
      else if \<not> (1 \<le> max_bytes \<and> max_bytes \<le> 8589934592) then Inl FileSink_ValueError
      else Inr \<lparr>at_lock_path = attempt_lock_path recording_id ''.part'',
                at_staging_path = attempt_staging_path recording_id token ''.rtp.part'',
                at_token = token, at_owns_lock = False, at_owns_staging = False,
                sk_final_path = recording_id @ ''.rtp'', sk_file = None,
                ls_max_bytes = max_bytes, ls_state = FileSink_CREATED, ls_bytes_written = 0\<rparr>)"

definition file_sink_snapshot :: "file_sink \<Rightarrow> validation_error + file_sink_snapshot" where
  "file_sink_snapshot s =
     (if 0 \<le> ls_bytes_written s
      then Inr \<lparr>lss_state = ls_state s, lss_bytes_written = ls_bytes_written s\<rparr> else Inl ValidationError)"

section \<open>Methods\<close>

type_synonym file_sink_op = "fs \<times> file_sink \<Rightarrow> (file_sink_exn + unit) \<times> fs \<times> file_sink"

fun file_sink_leave :: "file_sink_state \<Rightarrow> file_sink_exn + unit \<Rightarrow> file_sink_op" where
  "file_sink_leave st r (f, s) = (r, f, s\<lparr>ls_state := st\<rparr>)"

definition file_open_sync :: "(fs \<times> file_sink, nat) io" where
  "file_open_sync = with_self (\<lambda>s.
     io_bind (on_fs (sys_exists (sk_final_path s))) (\<lambda>ex.
     if ex then io_raise FileExistsErr else acquire_staging))"

definition file_sink_open :: "bool \<Rightarrow> file_sink_op" where
  "file_sink_open cancel w =
     (let s = snd w in
      if ls_state s = FileSink_OPEN then (Inr (), w)
      else if ls_state s \<noteq> FileSink_CREATED then (Inl (FileSinkError FileSink_INVALID_STATE), w)
      else case shielded_open cancel file_open_sync w of
        (Done file, w1) \<Rightarrow> file_sink_leave FileSink_OPEN (Inr ()) (fst w1, (snd w1)\<lparr>sk_file := Some file\<rparr>)
      | (Undone, w1) \<Rightarrow> file_sink_leave FileSink_ABORTED (Inl FileSink_CancelledError) w1
      | (Undo_Failed, w1) \<Rightarrow> file_sink_leave FileSink_FAILED (Inl (FileSinkError FileSink_IO_FAILURE)) w1
      | (Failed FileExistsErr, w1) \<Rightarrow> file_sink_leave FileSink_FAILED (Inl (FileSinkError FileSink_CONFLICT)) w1
      | (Failed _, w1) \<Rightarrow> file_sink_leave FileSink_FAILED (Inl (FileSinkError FileSink_IO_FAILURE)) w1)"

definition file_write_sync :: "byte list \<Rightarrow> (fs \<times> file_sink, unit) io" where
  "file_write_sync packet = with_self (\<lambda>s.
     case sk_file s of
       None \<Rightarrow> io_raise OtherOSErr
     | Some file \<Rightarrow>
         io_bind (on_fs (sys_write file packet)) (\<lambda>written.
         if written \<noteq> length packet then io_raise OtherOSErr else io_return ()))"

definition file_sink_write :: "byte list \<Rightarrow> bool \<Rightarrow> file_sink_op" where
  "file_sink_write packet cancel w =
     (let s = snd w in
      if ls_state s \<noteq> FileSink_OPEN then (Inl (FileSinkError FileSink_INVALID_STATE), w)
      else if ls_max_bytes s < ls_bytes_written s + len packet
      then (Inl (FileSinkError FileSink_LIMIT_EXCEEDED), w)
      else case shielded_write cancel (file_write_sync packet) w of
        (Done _, w1) \<Rightarrow>
          (Inr (), fst w1, (snd w1)\<lparr>ls_bytes_written := ls_bytes_written (snd w1) + len packet\<rparr>)
      | (Undone, w1) \<Rightarrow> file_sink_leave FileSink_ABORTED (Inl FileSink_CancelledError) w1
      | (_, w1) \<Rightarrow> file_sink_leave FileSink_FAILED (Inl (FileSinkError FileSink_IO_FAILURE)) w1)"

definition file_sink_finalize :: "bool \<Rightarrow> file_sink_op" where
  "file_sink_finalize cancel w =
     (let s = snd w in
      if ls_state s = FileSink_FINALIZED then (Inr (), w)
      else if ls_state s \<noteq> FileSink_OPEN then (Inl (FileSinkError FileSink_INVALID_STATE), w)
      else case shielded_finalize cancel w of
        (Done _, w1) \<Rightarrow> file_sink_leave FileSink_FINALIZED (Inr ()) w1
      | (Undone, w1) \<Rightarrow> file_sink_leave FileSink_ABORTED (Inl FileSink_CancelledError) w1
      | (Undo_Failed, w1) \<Rightarrow> file_sink_leave FileSink_FAILED (Inl (FileSinkError FileSink_IO_FAILURE)) w1
      | (Failed FileExistsErr, w1) \<Rightarrow> file_sink_leave FileSink_FAILED (Inl (FileSinkError FileSink_CONFLICT)) w1
      | (Failed _, w1) \<Rightarrow> file_sink_leave FileSink_FAILED (Inl (FileSinkError FileSink_IO_FAILURE)) w1)"

definition file_sink_abort :: "bool \<Rightarrow> file_sink_op" where
  "file_sink_abort cancel w =
     (let s = snd w in
      if ls_state s = FileSink_ABORTED then (Inr (), w)
      else if ls_state s = FileSink_FINALIZED then (Inl (FileSinkError FileSink_INVALID_STATE), w)
      else case shielded_abort cancel w of
        (Done _, w1) \<Rightarrow> file_sink_leave FileSink_ABORTED (Inr ()) w1
      | (Undone, w1) \<Rightarrow> file_sink_leave FileSink_ABORTED (Inl FileSink_CancelledError) w1
      | (_, w1) \<Rightarrow> file_sink_leave FileSink_FAILED (Inl (FileSinkError FileSink_IO_FAILURE)) w1)"

text \<open>Every public operation as one event, and a run that collects the packets \<open>write\<close> accepted.\<close>

datatype sink_event = SinkOpen bool | SinkWrite "byte list" bool | SinkFinalize bool | SinkAbort bool

fun file_sink_step :: "sink_event \<Rightarrow> file_sink_op" where
  "file_sink_step (SinkOpen c) = file_sink_open c"
| "file_sink_step (SinkWrite p c) = file_sink_write p c"
| "file_sink_step (SinkFinalize c) = file_sink_finalize c"
| "file_sink_step (SinkAbort c) = file_sink_abort c"

fun accepted :: "sink_event \<Rightarrow> 'e + unit \<Rightarrow> byte list list" where
  "accepted (SinkWrite p c) (Inr _) = [p]"
| "accepted _ _ = []"

fun file_sink_run :: "sink_event list \<Rightarrow> byte list list \<times> fs \<times> file_sink \<Rightarrow> byte list list \<times> fs \<times> file_sink" where
  "file_sink_run [] w = w"
| "file_sink_run (e # es) (ps, w) =
     (case file_sink_step e w of (r, w') \<Rightarrow> file_sink_run es (ps @ accepted e r, w'))"

section \<open>Invariant\<close>

text \<open>
  \<open>ps\<close> are the packets accepted so far: an open sink has them in its file, a finalized one under
  its final name. A sink that is not open, failed or finalized owns nothing.
\<close>

definition file_sink_inv :: "byte list list \<Rightarrow> fs \<Rightarrow> file_sink \<Rightarrow> bool" where
  "file_sink_inv ps f s \<longleftrightarrow>
     sink_inv f s \<and> 0 \<le> ls_bytes_written s \<and> ls_bytes_written s \<le> ls_max_bytes s \<and>
     ls_bytes_written s = len (concat ps) \<and>
     (ls_state s \<in> {FileSink_CREATED, FileSink_FINALIZED, FileSink_ABORTED} \<longrightarrow> sk_file s = None \<and> owned s = {}) \<and>
     (ls_state s = FileSink_CREATED \<longrightarrow> ps = []) \<and>
     (ls_state s = FileSink_OPEN \<longrightarrow> (\<exists>g. sk_file s = Some g \<and> fs_data f g = concat ps)) \<and>
     (ls_state s = FileSink_FINALIZED \<longrightarrow> (\<exists>g. fs_dir f (sk_final_path s) = Some g \<and> fs_data f g = concat ps))"

lemma file_sink_upd [simp]:
  "sink_step F f s f' (s'\<lparr>ls_state := x\<rparr>) = sink_step F f s f' s'"
  "sink_step F f s f' (s'\<lparr>ls_bytes_written := y\<rparr>) = sink_step F f s f' s'"
  "sink_inv f (s\<lparr>ls_state := x\<rparr>) = sink_inv f s"
  "sink_inv f (s\<lparr>ls_bytes_written := y\<rparr>) = sink_inv f s"
  "owned (s\<lparr>ls_state := x\<rparr>) = owned s" "owned (s\<lparr>ls_bytes_written := y\<rparr>) = owned s"
  by (simp_all add: sink_step_def sink_inv_def attempt_step_def attempt_inv_def same_paths_def owned_def)

lemma file_sink_more:
  fixes s s' :: file_sink
  shows "sink.more s' = sink.more s \<Longrightarrow>
    ls_max_bytes s' = ls_max_bytes s \<and> ls_state s' = ls_state s \<and> ls_bytes_written s' = ls_bytes_written s"
  by (cases s; cases s') simp

text \<open>What every operation guarantees, for the packets before and after it.\<close>

definition file_sink_post :: "byte list list \<Rightarrow> fs \<Rightarrow> file_sink \<Rightarrow> byte list list \<Rightarrow> fs \<Rightarrow> file_sink \<Rightarrow> bool" where
  "file_sink_post ps f s ps' f' s' \<longleftrightarrow>
     sink_step {sk_final_path s} f s f' s' \<and> file_sink_inv ps' f' s' \<and> ls_max_bytes s' = ls_max_bytes s"

lemma file_sink_post_refl: "file_sink_inv ps f s \<Longrightarrow> file_sink_post ps f s ps f s"
  by (simp add: file_sink_post_def sink_step_refl file_sink_inv_def)

text \<open>Leaving for a state in which nothing is promised about the bytes.\<close>

lemma file_sink_leave_post:
  assumes inv: "file_sink_inv ps f s" and st: "sink_step F f s f' s'" and F: "F \<subseteq> {sk_final_path s}"
    and m: "sink.more s' = sink.more s"
    and ok: "x = FileSink_FAILED \<or> x = FileSink_ABORTED \<and> owned s' = {} \<and> sk_file s' = None"
  shows "file_sink_post ps f s ps f' (s'\<lparr>ls_state := x\<rparr>)"
  using inv ok file_sink_more [OF m] sink_step_mono [OF st F] sink_step_inv [OF st]
  by (auto simp: file_sink_post_def file_sink_inv_def)

lemma file_sink_open_post:
  assumes inv: "file_sink_inv ps f s" and r: "file_sink_open cancel (f, s) = (r, f', s')"
  shows "file_sink_post ps f s ps f' s'"
proof (cases "ls_state s = FileSink_CREATED")
  case False
  with r inv show ?thesis by (auto simp: file_sink_open_def file_sink_post_refl split: if_splits)
next
  case True
  then have new: "sk_file s = None" "owned s = {}" "sink_inv f s" "ps = []" and b: "ls_bytes_written s = 0" "0 \<le> ls_max_bytes s"
    using inv by (auto simp: file_sink_inv_def)
  have sync: "wp file_open_sync
      (\<lambda>g w. quiet {} f s (fst w) (snd w) \<and> (sink_step {} f s (fst w) ((snd w)\<lparr>sk_file := Some g\<rparr>) \<and> fs_data (fst w) g = []))
      (\<lambda>_ w. quiet {} f s (fst w) (snd w)) (f, s)"
    unfolding file_open_sync_def wp_with_self by (rule wp_open_acquireI [OF new(3,1,2)]) simp_all
  obtain o1 f1 s1 where sh: "shielded_open cancel file_open_sync (f, s) = (o1, f1, s1)" by (metis prod.collapse)
  have leave: "file_sink_post ps f s ps f2 (s2\<lparr>ls_state := x\<rparr>)"
    if "quiet {} f s f2 s2" "x = FileSink_FAILED \<or> x = FileSink_ABORTED \<and> owned s2 = {}" for f2 s2 x
    using file_sink_leave_post [OF inv quiet_step [OF that(1)] _ quiet_more [OF that(1)]] that quiet_file [OF that(1)]
    by blast
  from new(3) sync sh show ?thesis
  proof (cases rule: shielded_open_cases)
    case (opened g)
    with r sh True have "f' = f1" "s' = s1\<lparr>sk_file := Some g, ls_state := FileSink_OPEN\<rparr>"
      by (auto simp: file_sink_open_def)
    with opened b new(4) file_sink_more [OF quiet_more [OF opened(2)]] show ?thesis
      using sink_step_mono [of "{}" f s f1 "s1\<lparr>sk_file := Some g\<rparr>" "{sk_final_path s}"]
      by (auto simp: file_sink_post_def file_sink_inv_def dest: sink_step_inv)
  next
    case undone
    with r sh True leave [of f1 s1 FileSink_ABORTED] show ?thesis
      by (auto simp: file_sink_open_def)
  next
    case failed
    then have p: "file_sink_post ps f s ps f1 (s1\<lparr>ls_state := FileSink_FAILED\<rparr>)"
      by (intro leave) auto
    from failed(1) r sh True have "f' = f1 \<and> s' = s1\<lparr>ls_state := FileSink_FAILED\<rparr>"
      by (auto simp: file_sink_open_def split: os_error.splits)
    with p show ?thesis by simp
  qed
qed

lemma wp_file_write_syncI:
  assumes inv: "sink_inv f s" and g: "sk_file s = Some g"
  shows "wp (file_write_sync packet)
    (\<lambda>_ w. (sink_step {} f s (fst w) (snd w) \<and> sink.more (snd w) = sink.more s) \<and>
       (snd w = s \<and> fs_data (fst w) = (fs_data f)(g := fs_data f g @ packet)))
    (\<lambda>_ w. sink_step {} f s (fst w) (snd w) \<and> sink.more (snd w) = sink.more s) (f, s)"
proof -
  have step: "sink_step {} f s ((eat f)\<lparr>fs_data := (fs_data f)(g := bs)\<rparr>) s" for bs
    by (rule sink_step_write [OF inv g]) simp_all
  have "sink_step {} f s (eat f) s" by (rule sink_step_write [OF inv g, of _ "fs_data f g"]) simp_all
  then show ?thesis unfolding file_write_sync_def
    by (simp add: g) (intro wp_writeI; auto intro: step)
qed

lemma file_sink_write_post:
  assumes inv: "file_sink_inv ps f s" and r: "file_sink_write packet cancel (f, s) = (r, f', s')"
  shows "file_sink_post ps f s (case r of Inr _ \<Rightarrow> ps @ [packet] | Inl _ \<Rightarrow> ps) f' s'"
proof (cases "ls_state s = FileSink_OPEN \<and> ls_bytes_written s + len packet \<le> ls_max_bytes s")
  case False
  with r inv show ?thesis by (auto simp: file_sink_write_def Let_def file_sink_post_refl split: if_splits)
next
  case True
  then obtain g where g: "sk_file s = Some g" "fs_data f g = concat ps" and si: "sink_inv f s"
    and b: "ls_bytes_written s = len (concat ps)"
    using inv by (auto simp: file_sink_inv_def)
  obtain o1 f1 s1 where sh: "shielded_write cancel (file_write_sync packet) (f, s) = (o1, f1, s1)" by (metis prod.collapse)
  from si wp_file_write_syncI [OF si g(1), of packet] refl sh show ?thesis
  proof (cases rule: shielded_write_cases)
    case wrote
    then have w: "s1 = s" "sink_step {} f s f1 s" "fs_data f1 g = concat ps @ packet" using g by simp_all
    from r sh True wrote(1) w(1) have out: "r = Inr ()" "f' = f1" "s' = s\<lparr>ls_bytes_written := ls_bytes_written s + len packet\<rparr>"
      by (auto simp: file_sink_write_def)
    have "file_sink_inv (ps @ [packet]) f1 (s\<lparr>ls_bytes_written := ls_bytes_written s + len packet\<rparr>)"
      using sink_step_inv [OF w(2)] True g w(3) b by (simp add: file_sink_inv_def)
    with sink_step_mono [OF w(2), of "{sk_final_path s}"] out show ?thesis by (simp add: file_sink_post_def)
  next
    case undone
    then have p: "file_sink_post ps f s ps f1 (s1\<lparr>ls_state := FileSink_ABORTED\<rparr>)"
      by (intro file_sink_leave_post [OF inv, of "{}"]) simp_all
    from undone(1) r sh True have "r = Inl FileSink_CancelledError \<and> f' = f1 \<and> s' = s1\<lparr>ls_state := FileSink_ABORTED\<rparr>"
      by (auto simp: file_sink_write_def)
    with p show ?thesis by simp
  next
    case failed
    then have p: "file_sink_post ps f s ps f1 (s1\<lparr>ls_state := FileSink_FAILED\<rparr>)"
      by (intro file_sink_leave_post [OF inv, of "{}"]) simp_all
    from failed(1) r sh True have "r = Inl (FileSinkError FileSink_IO_FAILURE) \<and> f' = f1 \<and> s' = s1\<lparr>ls_state := FileSink_FAILED\<rparr>"
      by (auto simp: file_sink_write_def)
    with p show ?thesis by simp
  qed
qed

lemma file_sink_finalize_post:
  assumes inv: "file_sink_inv ps f s" and r: "file_sink_finalize cancel (f, s) = (r, f', s')"
  shows "file_sink_post ps f s ps f' s'"
proof (cases "ls_state s = FileSink_OPEN")
  case False
  with r inv show ?thesis by (auto simp: file_sink_finalize_def file_sink_post_refl split: if_splits)
next
  case True
  then obtain g where g: "sk_file s = Some g" "fs_data f g = concat ps" and si: "sink_inv f s"
    using inv by (auto simp: file_sink_inv_def)
  obtain o1 f1 s1 where sh: "shielded_finalize cancel (f, s) = (o1, f1, s1)" by (metis prod.collapse)
  have leave: "file_sink_post ps f s ps f2 (s2\<lparr>ls_state := x\<rparr>)"
    if "finalize_step f s f2 s2" "x = FileSink_FAILED \<or> x = FileSink_ABORTED \<and> owned s2 = {} \<and> sk_file s2 = None" for f2 s2 x
    using file_sink_leave_post [OF inv _ order_refl] that by (auto simp: finalize_step_def)
  from si sh show ?thesis
  proof (cases rule: shielded_finalize_cases)
    case published
    have "g < fs_next f" using si g by (auto simp: sink_inv_def attempt_inv_def fs_wf_def)
    then have d: "fs_data f1 g = concat ps" using published(2) g by (auto simp: finalize_step_def keeps_data_def)
    have "sk_final_path s1 = sk_final_path s" "sink_inv f1 s1" "sink.more s1 = sink.more s"
      using published(2) by (auto simp: finalize_step_def sink_step_def)
    then have "file_sink_inv ps f1 (s1\<lparr>ls_state := FileSink_FINALIZED\<rparr>)"
      using inv published g d file_sink_more [of s1 s] by (simp add: file_sink_inv_def)
    moreover from published(1) r sh True have "f' = f1 \<and> s' = s1\<lparr>ls_state := FileSink_FINALIZED\<rparr>"
      by (auto simp: file_sink_finalize_def)
    ultimately show ?thesis
      using published(2) file_sink_more [of s1 s] by (simp add: file_sink_post_def finalize_step_def)
  next
    case undone
    with r sh True leave [of f1 s1 FileSink_ABORTED] show ?thesis
      by (auto simp: file_sink_finalize_def)
  next
    case failed
    from failed(1) r sh True have "f' = f1 \<and> s' = s1\<lparr>ls_state := FileSink_FAILED\<rparr>"
      by (auto simp: file_sink_finalize_def split: os_error.splits)
    with leave [OF failed(2), of FileSink_FAILED] show ?thesis by simp
  qed
qed

lemma file_sink_abort_post:
  assumes inv: "file_sink_inv ps f s" and r: "file_sink_abort cancel (f, s) = (r, f', s')"
  shows "file_sink_post ps f s ps f' s'"
proof (cases "ls_state s \<in> {FileSink_ABORTED, FileSink_FINALIZED}")
  case True
  with r inv show ?thesis by (auto simp: file_sink_abort_def Let_def file_sink_post_refl)
next
  case False
  have si: "sink_inv f s" using inv by (simp add: file_sink_inv_def)
  obtain o1 f1 s1 where sh: "shielded_abort cancel (f, s) = (o1, f1, s1)" by (metis prod.collapse)
  have leave: "file_sink_post ps f s ps f2 (s2\<lparr>ls_state := x\<rparr>)"
    if "quiet {} f s f2 s2" "x = FileSink_FAILED \<or> x = FileSink_ABORTED \<and> owned s2 = {}" for f2 s2 x
    using file_sink_leave_post [OF inv quiet_step [OF that(1)] _ quiet_more [OF that(1)]] that quiet_file [OF that(1)]
    by blast
  from si sh show ?thesis
  proof (cases rule: shielded_abort_cases)
    case aborted
    with r sh False leave [of f1 s1 FileSink_ABORTED] show ?thesis
      by (auto simp: file_sink_abort_def split: if_splits)
  next
    case failed
    from failed(1) r sh False have "f' = f1 \<and> s' = s1\<lparr>ls_state := FileSink_FAILED\<rparr>"
      by (auto simp: file_sink_abort_def)
    with leave [OF failed(2), of FileSink_FAILED] show ?thesis by simp
  qed
qed

lemma file_sink_step_post:
  assumes "file_sink_inv ps f s" and "file_sink_step e (f, s) = (r, f', s')"
  shows "file_sink_post ps f s (ps @ accepted e r) f' s'"
proof (cases e)
  case (SinkWrite p c)
  with assms file_sink_write_post [of ps f s p c r f' s'] show ?thesis by (cases r) simp_all
qed (use assms file_sink_open_post file_sink_finalize_post file_sink_abort_post in simp_all)

lemma file_sink_post_trans:
  assumes p1: "file_sink_post ps f s qs f1 s1" and p2: "file_sink_post qs f1 s1 rs f' s'" and si: "sink_inv f s"
  shows "file_sink_post ps f s rs f' s'"
proof -
  from p1 have s1: "sink_step {sk_final_path s} f s f1 s1" "sk_final_path s1 = sk_final_path s"
    by (simp_all add: file_sink_post_def sink_step_def)
  with p2 have "sink_step {sk_final_path s} f1 s1 f' s'" by (simp add: file_sink_post_def)
  with sink_step_trans [OF s1(1) this order_refl si] p1 p2 show ?thesis by (simp add: file_sink_post_def)
qed

lemma file_sink_run_post:
  "file_sink_inv ps f s \<Longrightarrow> file_sink_run es (ps, f, s) = (ps', f', s') \<Longrightarrow> file_sink_post ps f s ps' f' s'"
proof (induction es arbitrary: ps f s)
  case Nil
  then show ?case by (simp add: file_sink_post_refl)
next
  case (Cons e es)
  obtain r f1 s1 where st: "file_sink_step e (f, s) = (r, f1, s1)" by (metis prod.collapse)
  note p1 = file_sink_step_post [OF Cons.prems(1) st]
  from Cons.prems(2) st have run: "file_sink_run es (ps @ accepted e r, f1, s1) = (ps', f', s')" by simp
  from p1 Cons.prems(1) have "file_sink_inv (ps @ accepted e r) f1 s1" "sink_inv f s"
    by (simp_all add: file_sink_post_def file_sink_inv_def)
  with file_sink_post_trans [OF p1 Cons.IH] run show ?case by blast
qed

lemma file_sink_init_inv:
  assumes "file_sink_init token recording_id max_bytes = Inr s" and "fs_wf f"
  shows "file_sink_inv [] f s"
  using assms sink_names(1) [of recording_id "''.part''" "''.rtp.part''" token]
    sink_names(2) [of recording_id "''.part''" "''.rtp.part''" "''.rtp''" token]
  by (auto simp: file_sink_init_def file_sink_inv_def sink_inv_def attempt_inv_def owned_def split: if_splits)

section \<open>The recording-sink contract\<close>

definition file_sink_ops :: "(fs \<times> file_sink, file_sink_exn) recording_sink_ops" where
  "file_sink_ops =
     \<lparr>rs_open = file_sink_open, rs_write = file_sink_write, rs_finalize = file_sink_finalize,
      rs_abort = file_sink_abort, rs_is_cancelled = (\<lambda>e. e = FileSink_CancelledError)\<rparr>"

text \<open>A sink that started as \<open>s0\<close> in the file system \<open>f0\<close> and has accepted \<open>ps\<close> since.\<close>

fun file_sink_since :: "fs \<Rightarrow> file_sink \<Rightarrow> byte list list \<Rightarrow> fs \<times> file_sink \<Rightarrow> bool" where
  "file_sink_since f0 s0 ps (f, s) \<longleftrightarrow> sink_inv f0 s0 \<and> file_sink_post [] f0 s0 ps f s"

lemma file_sink_since_step:
  "file_sink_since f0 s0 ps (f, s) \<Longrightarrow> file_sink_step e (f, s) = (r, f', s') \<Longrightarrow>
   file_sink_since f0 s0 (ps @ accepted e r) (f', s')"
  using file_sink_step_post [of ps f s e r f' s'] file_sink_post_trans [of "[]" f0 s0 ps f s "ps @ accepted e r" f' s']
  by (simp add: file_sink_post_def)

fun file_sink_published :: "byte list list \<Rightarrow> fs \<times> file_sink \<Rightarrow> bool" where
  "file_sink_published ps (f, s) \<longleftrightarrow>
     (\<exists>g. fs_dir f (sk_final_path s) = Some g \<and> fs_data f g = concat ps) \<and> ls_state s = FileSink_FINALIZED"

lemma file_sink_finalize_state: "file_sink_finalize c w = (Inr u, f', s') \<Longrightarrow> ls_state s' = FileSink_FINALIZED"
  by (auto simp: file_sink_finalize_def Let_def split: if_splits prod.splits shielded.splits os_error.splits)

interpretation file_recording: recording_sink file_sink_ops "file_sink_since f0 s0" file_sink_published for f0 s0
proof unfold_locales
  fix ps p c r and w w' :: "fs \<times> file_sink" and u :: unit and e
  obtain f s f' s' where w: "w = (f, s)" "w' = (f', s')" by (metis prod.collapse)
  note step = file_sink_since_step [of f0 s0 ps f s _ _ f' s']
  assume inv: "file_sink_since f0 s0 ps w"
  show "rs_open file_sink_ops c w = (r, w') \<Longrightarrow> file_sink_since f0 s0 ps w'"
    using inv w step [of "SinkOpen c" r] by (simp add: file_sink_ops_def)
  show "rs_write file_sink_ops p c w = (Inr u, w') \<Longrightarrow> file_sink_since f0 s0 (ps @ [p]) w'"
    using inv w step [of "SinkWrite p c" "Inr u"] by (simp add: file_sink_ops_def)
  show "rs_write file_sink_ops p c w = (Inl e, w') \<Longrightarrow> file_sink_since f0 s0 ps w'"
    using inv w step [of "SinkWrite p c" "Inl e"] by (simp add: file_sink_ops_def)
  show fin: "rs_finalize file_sink_ops c w = (r, w') \<Longrightarrow> file_sink_since f0 s0 ps w'" for r
    using inv w step [of "SinkFinalize c" r] by (simp add: file_sink_ops_def)
  show "rs_abort file_sink_ops c w = (r, w') \<Longrightarrow> file_sink_since f0 s0 ps w'"
    using inv w step [of "SinkAbort c" r] by (simp add: file_sink_ops_def)
  show "file_sink_published ps w'" if out: "rs_finalize file_sink_ops c w = (Inr u, w')"
    using fin [OF out] w out file_sink_finalize_state [of c w u f' s']
    by (auto simp: file_sink_ops_def file_sink_post_def file_sink_inv_def)
qed

section \<open>Correctness\<close>

text \<open>
  From its construction on, through any calls in any order, any failing system calls and any
  cancellations, a sink never removes, replaces or writes a file that existed before it, and
  once it is aborted or finalized it has left nothing behind but its final name.
\<close>

lemma file_sink_touches_only_its_own:
  assumes "file_sink_init token recording_id max_bytes = Inr s" and "fs_wf f"
    and "file_sink_run es ([], f, s) = (ps, f', s')"
  shows "(\<forall>n i. fs_dir f n = Some i \<longrightarrow> fs_dir f' n = Some i \<and> fs_data f' i = fs_data f i) \<and>
    (ls_state s' \<in> {FileSink_ABORTED, FileSink_FINALIZED} \<longrightarrow>
       (\<forall>n. n \<noteq> recording_id @ ''.rtp'' \<longrightarrow> fs_dir f' n = fs_dir f n))"
proof -
  note inv = file_sink_init_inv [OF assms(1,2)]
  from file_sink_run_post [OF inv assms(3)] have step: "sink_step {sk_final_path s} f s f' s'"
    and inv': "file_sink_inv ps f' s'" by (simp_all add: file_sink_post_def)
  from assms(1) have s: "owned s = {}" "sk_final_path s = recording_id @ ''.rtp''"
    by (auto simp: file_sink_init_def owned_def split: if_splits)
  have si: "sink_inv f s" using inv by (simp add: file_sink_inv_def)
  have "fs_dir f' n = Some i \<and> fs_data f' i = fs_data f i" if "fs_dir f n = Some i" for n i
    using sink_step_isolated [OF step si _ that] s(1) by simp
  moreover have "fs_dir f' n = fs_dir f n"
    if "ls_state s' \<in> {FileSink_ABORTED, FileSink_FINALIZED}" "n \<noteq> recording_id @ ''.rtp''" for n
    using sink_step_residue [OF step s(1)] inv' that s(2) by (auto simp: file_sink_inv_def)
  ultimately show ?thesis by blast
qed

definition sample_file_sink :: file_sink where
  "sample_file_sink = \<lparr>at_lock_path = ''.cam.part'', at_staging_path = ''.cam.7f.rtp.part'', at_token = ''7f'',
     at_owns_lock = False, at_owns_staging = False, sk_final_path = ''cam.rtp'', sk_file = None,
     ls_max_bytes = 10, ls_state = FileSink_CREATED, ls_bytes_written = 0\<rparr>"

lemma sample_file_sink_init: "file_sink_init ''7f'' ''cam'' 10 = Inr sample_file_sink"
  by code_simp

lemma empty_fs_wf: "fs_wf (empty_fs\<lparr>fs_faults := xs\<rparr>)" "fs_wf empty_fs"
  by (simp_all add: fs_wf_def empty_fs_def)

lemma file_sink_touches_only_its_own_witness:
  "\<exists>ps f' s'. file_sink_run [SinkOpen False, SinkWrite [1, 2] False, SinkAbort False] ([], empty_fs, sample_file_sink) = (ps, f', s') \<and>
     fs_dir f' ''.cam.part'' = None"
proof -
  let ?es = "[SinkOpen False, SinkWrite [1, 2] False, SinkAbort False]"
  obtain ps f' s' where run: "file_sink_run ?es ([], empty_fs, sample_file_sink) = (ps, f', s')" by (metis prod.collapse)
  have "ls_state (snd (snd (file_sink_run ?es ([], empty_fs, sample_file_sink)))) = FileSink_ABORTED" by code_simp
  with run have "ls_state s' = FileSink_ABORTED" by simp
  with file_sink_touches_only_its_own [OF sample_file_sink_init empty_fs_wf(2) run]
  have "fs_dir f' ''.cam.part'' = fs_dir empty_fs ''.cam.part''" using \<open>ls_state s' = FileSink_ABORTED\<close> by simp
  then show ?thesis using run by (simp add: empty_fs_def)
qed

text \<open>
  Whatever happened before, when a sink is finalized its final name holds exactly the packets
  whose \<open>write\<close> returned, in order, and no more bytes than the configured maximum.
\<close>

lemma file_sink_publishes_what_it_accepted:
  assumes "file_sink_init token recording_id max_bytes = Inr s" and "fs_wf f"
    and "file_sink_run es ([], f, s) = (ps, f', s')" and "ls_state s' = FileSink_FINALIZED"
  shows "\<exists>i. fs_dir f' (recording_id @ ''.rtp'') = Some i \<and> fs_data f' i = concat ps \<and>
    len (concat ps) \<le> max_bytes \<and> file_sink_snapshot s' = Inr \<lparr>lss_state = FileSink_FINALIZED, lss_bytes_written = len (concat ps)\<rparr>"
proof -
  from assms(1) have s: "sk_final_path s = recording_id @ ''.rtp''" "ls_max_bytes s = max_bytes"
    by (auto simp: file_sink_init_def split: if_splits)
  from file_sink_run_post [OF file_sink_init_inv [OF assms(1,2)] assms(3)]
  have inv: "file_sink_inv ps f' s'" and eq: "sk_final_path s' = sk_final_path s" "ls_max_bytes s' = ls_max_bytes s"
    by (simp_all add: file_sink_post_def sink_step_def)
  from inv assms(4) obtain i where "fs_dir f' (sk_final_path s') = Some i" "fs_data f' i = concat ps"
    by (auto simp: file_sink_inv_def)
  with inv eq s assms(4) show ?thesis
    by (intro exI [of _ i]) (simp add: file_sink_inv_def file_sink_snapshot_def)
qed

lemma file_sink_publishes_what_it_accepted_witness:
  "\<exists>f' s' i. file_sink_run [SinkOpen False, SinkWrite [1, 2] False, SinkWrite [3] False, SinkFinalize False]
      ([], empty_fs, sample_file_sink) = ([[1, 2], [3]], f', s') \<and>
     fs_dir f' ''cam.rtp'' = Some i \<and> fs_data f' i = [1, 2, 3]"
proof -
  let ?run = "file_sink_run [SinkOpen False, SinkWrite [1, 2] False, SinkWrite [3] False, SinkFinalize False]
      ([], empty_fs, sample_file_sink)"
  have "fst ?run = [[1, 2], [3]] \<and> ls_state (snd (snd ?run)) = FileSink_FINALIZED" by code_simp
  then obtain f' s' where run: "?run = ([[1, 2], [3]], f', s')" and st: "ls_state s' = FileSink_FINALIZED"
    by (metis prod.collapse)
  from file_sink_publishes_what_it_accepted [OF sample_file_sink_init empty_fs_wf(2) run st]
  show ?thesis unfolding run by auto
qed

text \<open>
  A marker that could not be written completely is never removed. When the disk fills up
  while the token is written, the acquisition finds a marker that is not its token, keeps it,
  and a later \<open>abort\<close> on a healthy disk fails as well; every further attempt to record under the
  id, by whatever sink, then reports a conflict although nothing was ever recorded.
\<close>

definition other_file_sink :: file_sink where
  "other_file_sink = sample_file_sink\<lparr>at_staging_path := ''.cam.5b.rtp.part'', at_token := ''5b''\<rparr>"

lemma partial_marker_blocks_the_id:
  "let (r1, w1) = file_sink_open False (empty_fs\<lparr>fs_faults := [FOk, FOk, FOk, FShort 1, FFail]\<rparr>, sample_file_sink);
       (r2, f2, s2) = file_sink_abort False w1;
       (r3, f3, s3) = file_sink_open False (f2, other_file_sink)
   in r1 = Inl (FileSinkError FileSink_IO_FAILURE) \<and> fs_faults f2 = [] \<and>
      r2 = Inl (FileSinkError FileSink_IO_FAILURE) \<and>
      fs_dir f2 ''.cam.part'' = Some 0 \<and> fs_dir f2 ''cam.rtp'' = None \<and>
      r3 = Inl (FileSinkError FileSink_CONFLICT)"
  by code_simp

end
