(* ===== verification/Framed_Sink.thy ===== *)
theory Framed_Sink
  imports File_Sink
begin

text \<open>
  The writing half of \<open>src/src/k5vision/media/framed_recording.py\<close>: \<open>FramedAtomicRecordingSink\<close>
  stores RTP packets as records of length, CRC-32 and payload behind an eight-byte magic. The
  methods that are literally those of the opaque sink (\<open>_abort_sync\<close>, \<open>_finalize_sync\<close>,
  \<open>_cleanup_open_result_sync\<close>, the shielded awaits) are the ones of \<open>Sink_Base\<close>.
\<close>

section \<open>The format\<close>

definition framed_magic :: "byte list" where
  "framed_magic = [75, 53, 82, 84, 80, 70, 0, 1]"

definition record_header :: "byte list \<Rightarrow> byte list" where
  "record_header packet = to_bytes_u32 (len packet) @ to_bytes_u32 (crc32 packet)"

definition frame_record :: "byte list \<Rightarrow> byte list" where
  "frame_record packet = record_header packet @ packet"

definition framed_file :: "byte list list \<Rightarrow> byte list" where
  "framed_file ps = framed_magic @ concat (map frame_record ps)"

lemma length_framed_magic [simp]: "length framed_magic = 8"
  by (simp add: framed_magic_def)

lemma length_record_header [simp]: "length (record_header p) = 8"
  by (simp add: record_header_def)

lemma framed_file_snoc [simp]: "framed_file (ps @ [p]) = framed_file ps @ record_header p @ p"
  by (simp add: framed_file_def frame_record_def)

lemma length_framed_file: "len (framed_file ps) = 8 + 8 * len ps + len (concat ps)"
  by (induction ps rule: rev_induct) (simp_all add: framed_file_def frame_record_def)

section \<open>State\<close>

datatype framed_state =
    Framed_CREATED | Framed_OPEN | Framed_FINALIZED | Framed_COMPLETE | Framed_ABORTED | Framed_FAILED

datatype framed_error_code =
    Framed_INVALID_RECORDING_ID
  | Framed_INVALID_STATE
  | Framed_CONFLICT
  | Framed_LIMIT_EXCEEDED
  | Framed_IO_FAILURE
  | Framed_INVALID_HEADER
  | Framed_INVALID_RECORD
  | Framed_TRUNCATED_RECORD
  | Framed_INTEGRITY_FAILURE

datatype framed_exn =
    FramedRecordingError framed_error_code
  | Framed_CancelledError
  | Framed_ValueError

record framed_sink = sink +
  fw_max_packets :: int
  fw_max_payload_bytes :: int
  fw_max_packet_bytes :: int
  fw_state :: framed_state
  fw_packets :: int
  fw_payload_bytes :: int
  fw_file_bytes :: int

record framed_snapshot =
  fws_state :: framed_state
  fws_packets :: int
  fws_payload_bytes :: int
  fws_file_bytes :: int

definition framed_limits_ok :: "int \<Rightarrow> int \<Rightarrow> int \<Rightarrow> bool" where
  "framed_limits_ok mp mb mk \<longleftrightarrow>
     1 \<le> mp \<and> mp \<le> 1000000 \<and> 1 \<le> mb \<and> mb \<le> 8589934592 \<and> 12 \<le> mk \<and> mk \<le> 65535"

definition framed_sink_init :: "string \<Rightarrow> string \<Rightarrow> int \<Rightarrow> int \<Rightarrow> int \<Rightarrow> framed_exn + framed_sink" where
  "framed_sink_init token recording_id mp mb mk =
     (if \<not> recording_id_ok recording_id \<or> recording_id = ''.'' \<or> recording_id = ''..''
      then Inl (FramedRecordingError Framed_INVALID_RECORDING_ID)
      else if \<not> framed_limits_ok mp mb mk then Inl Framed_ValueError
      else Inr \<lparr>at_lock_path = attempt_lock_path recording_id ''.k5r.part'',
                at_staging_path = attempt_staging_path recording_id token ''.k5r.stage'',
                at_token = token, at_owns_lock = False, at_owns_staging = False,
                sk_final_path = recording_id @ ''.k5r'', sk_file = None,
                fw_max_packets = mp, fw_max_payload_bytes = mb, fw_max_packet_bytes = mk,
                fw_state = Framed_CREATED, fw_packets = 0, fw_payload_bytes = 0, fw_file_bytes = 0\<rparr>)"

definition framed_sink_snapshot :: "framed_sink \<Rightarrow> validation_error + framed_snapshot" where
  "framed_sink_snapshot s =
     (if 0 \<le> fw_packets s \<and> 0 \<le> fw_payload_bytes s \<and> 0 \<le> fw_file_bytes s
      then Inr \<lparr>fws_state = fw_state s, fws_packets = fw_packets s,
                fws_payload_bytes = fw_payload_bytes s, fws_file_bytes = fw_file_bytes s\<rparr>
      else Inl ValidationError)"

section \<open>Methods\<close>

type_synonym framed_sink_op = "fs \<times> framed_sink \<Rightarrow> (framed_exn + unit) \<times> fs \<times> framed_sink"

fun framed_leave :: "framed_state \<Rightarrow> framed_exn + unit \<Rightarrow> framed_sink_op" where
  "framed_leave st r (f, s) = (r, f, s\<lparr>fw_state := st\<rparr>)"

definition framed_open_sync :: "(fs \<times> framed_sink, nat) io" where
  "framed_open_sync = with_self (\<lambda>s.
     io_bind
       (io_bind (on_fs (sys_exists (sk_final_path s))) (\<lambda>ex.
        if ex then io_raise FileExistsErr else acquire_staging)) (\<lambda>file.
     io_seq
       (io_catch (on_fs (write_all file framed_magic))
         (\<lambda>e. io_seq (io_finally (on_fs sys_simple) (io_ignore cleanup)) (io_raise e)))
       (io_return file)))"

definition framed_sink_open :: "bool \<Rightarrow> framed_sink_op" where
  "framed_sink_open cancel w =
     (let s = snd w in
      if fw_state s = Framed_OPEN then (Inr (), w)
      else if fw_state s \<noteq> Framed_CREATED then (Inl (FramedRecordingError Framed_INVALID_STATE), w)
      else case shielded_open cancel framed_open_sync w of
        (Done file, w1) \<Rightarrow>
          framed_leave Framed_OPEN (Inr ())
            (fst w1, (snd w1)\<lparr>sk_file := Some file, fw_file_bytes := len framed_magic\<rparr>)
      | (Undone, w1) \<Rightarrow> framed_leave Framed_ABORTED (Inl Framed_CancelledError) w1
      | (Undo_Failed, w1) \<Rightarrow> framed_leave Framed_FAILED (Inl (FramedRecordingError Framed_IO_FAILURE)) w1
      | (Failed FileExistsErr, w1) \<Rightarrow> framed_leave Framed_FAILED (Inl (FramedRecordingError Framed_CONFLICT)) w1
      | (Failed _, w1) \<Rightarrow> framed_leave Framed_FAILED (Inl (FramedRecordingError Framed_IO_FAILURE)) w1)"

definition write_all_sync :: "byte list \<Rightarrow> (fs \<times> framed_sink, unit) io" where
  "write_all_sync bs = with_self (\<lambda>s.
     case sk_file s of None \<Rightarrow> io_raise OtherOSErr | Some file \<Rightarrow> on_fs (write_all file bs))"

definition write_record_sync :: "byte list \<Rightarrow> (fs \<times> framed_sink, unit) io" where
  "write_record_sync packet = io_seq (write_all_sync (record_header packet)) (write_all_sync packet)"

definition framed_sink_write :: "byte list \<Rightarrow> bool \<Rightarrow> framed_sink_op" where
  "framed_sink_write packet cancel w =
     (let s = snd w in
      if fw_state s \<noteq> Framed_OPEN then (Inl (FramedRecordingError Framed_INVALID_STATE), w)
      else if fw_max_packet_bytes s < len packet \<or> \<not> is_rtp_v2 packet
      then framed_leave Framed_FAILED (Inl (FramedRecordingError Framed_INVALID_RECORD)) w
      else if fw_max_packets s < fw_packets s + 1 \<or> fw_max_payload_bytes s < fw_payload_bytes s + len packet
      then framed_leave Framed_FAILED (Inl (FramedRecordingError Framed_LIMIT_EXCEEDED)) w
      else case shielded_write cancel (write_record_sync packet) w of
        (Done _, w1) \<Rightarrow>
          (Inr (), fst w1, (snd w1)\<lparr>fw_packets := fw_packets (snd w1) + 1,
                                    fw_payload_bytes := fw_payload_bytes (snd w1) + len packet,
                                    fw_file_bytes := fw_file_bytes (snd w1) + 8 + len packet\<rparr>)
      | (Undone, w1) \<Rightarrow> framed_leave Framed_ABORTED (Inl Framed_CancelledError) w1
      | (_, w1) \<Rightarrow> framed_leave Framed_FAILED (Inl (FramedRecordingError Framed_IO_FAILURE)) w1)"

definition framed_sink_finalize :: "bool \<Rightarrow> framed_sink_op" where
  "framed_sink_finalize cancel w =
     (let s = snd w in
      if fw_state s = Framed_FINALIZED then (Inr (), w)
      else if fw_state s \<noteq> Framed_OPEN then (Inl (FramedRecordingError Framed_INVALID_STATE), w)
      else case shielded_finalize cancel w of
        (Done _, w1) \<Rightarrow> framed_leave Framed_FINALIZED (Inr ()) w1
      | (Undone, w1) \<Rightarrow> framed_leave Framed_ABORTED (Inl Framed_CancelledError) w1
      | (Undo_Failed, w1) \<Rightarrow> framed_leave Framed_FAILED (Inl (FramedRecordingError Framed_IO_FAILURE)) w1
      | (Failed FileExistsErr, w1) \<Rightarrow> framed_leave Framed_FAILED (Inl (FramedRecordingError Framed_CONFLICT)) w1
      | (Failed _, w1) \<Rightarrow> framed_leave Framed_FAILED (Inl (FramedRecordingError Framed_IO_FAILURE)) w1)"

definition framed_sink_abort :: "bool \<Rightarrow> framed_sink_op" where
  "framed_sink_abort cancel w =
     (let s = snd w in
      if fw_state s = Framed_ABORTED then (Inr (), w)
      else if fw_state s = Framed_FINALIZED then (Inl (FramedRecordingError Framed_INVALID_STATE), w)
      else case shielded_abort cancel w of
        (Done _, w1) \<Rightarrow> framed_leave Framed_ABORTED (Inr ()) w1
      | (Undone, w1) \<Rightarrow> framed_leave Framed_ABORTED (Inl Framed_CancelledError) w1
      | (_, w1) \<Rightarrow> framed_leave Framed_FAILED (Inl (FramedRecordingError Framed_IO_FAILURE)) w1)"

fun framed_sink_step :: "sink_event \<Rightarrow> framed_sink_op" where
  "framed_sink_step (SinkOpen c) = framed_sink_open c"
| "framed_sink_step (SinkWrite p c) = framed_sink_write p c"
| "framed_sink_step (SinkFinalize c) = framed_sink_finalize c"
| "framed_sink_step (SinkAbort c) = framed_sink_abort c"

section \<open>Invariant\<close>

definition framed_sink_inv :: "byte list list \<Rightarrow> fs \<Rightarrow> framed_sink \<Rightarrow> bool" where
  "framed_sink_inv ps f s \<longleftrightarrow>
     sink_inv f s \<and> framed_limits_ok (fw_max_packets s) (fw_max_payload_bytes s) (fw_max_packet_bytes s) \<and>
     fw_packets s = len ps \<and> len ps \<le> fw_max_packets s \<and>
     fw_payload_bytes s = len (concat ps) \<and> len (concat ps) \<le> fw_max_payload_bytes s \<and>
     (fw_file_bytes s = 0 \<or> fw_file_bytes s = len (framed_file ps)) \<and>
     list_all (\<lambda>p. is_rtp_v2 p \<and> len p \<le> fw_max_packet_bytes s) ps \<and>
     (fw_state s \<in> {Framed_CREATED, Framed_FINALIZED, Framed_ABORTED} \<longrightarrow> sk_file s = None \<and> owned s = {}) \<and>
     (fw_state s = Framed_CREATED \<longrightarrow> ps = []) \<and>
     (fw_state s = Framed_OPEN \<longrightarrow> fw_file_bytes s \<noteq> 0 \<and> (\<exists>g. sk_file s = Some g \<and> fs_data f g = framed_file ps)) \<and>
     (fw_state s = Framed_FINALIZED \<longrightarrow> fw_file_bytes s \<noteq> 0 \<and>
        (\<exists>g. fs_dir f (sk_final_path s) = Some g \<and> fs_data f g = framed_file ps))"

lemma framed_sink_upd [simp]:
  "sink_step F f s f' (s'\<lparr>fw_state := x\<rparr>) = sink_step F f s f' s'"
  "sink_step F f s f' (s'\<lparr>fw_packets := n\<rparr>) = sink_step F f s f' s'"
  "sink_step F f s f' (s'\<lparr>fw_payload_bytes := n\<rparr>) = sink_step F f s f' s'"
  "sink_step F f s f' (s'\<lparr>fw_file_bytes := n\<rparr>) = sink_step F f s f' s'"
  "sink_inv f (s\<lparr>fw_state := x\<rparr>) = sink_inv f s"
  "sink_inv f (s\<lparr>fw_packets := n\<rparr>) = sink_inv f s"
  "sink_inv f (s\<lparr>fw_payload_bytes := n\<rparr>) = sink_inv f s"
  "sink_inv f (s\<lparr>fw_file_bytes := n\<rparr>) = sink_inv f s"
  "owned (s\<lparr>fw_state := x\<rparr>) = owned s" "owned (s\<lparr>fw_packets := n\<rparr>) = owned s"
  "owned (s\<lparr>fw_payload_bytes := n\<rparr>) = owned s" "owned (s\<lparr>fw_file_bytes := n\<rparr>) = owned s"
  by (simp_all add: sink_step_def sink_inv_def attempt_step_def attempt_inv_def same_paths_def owned_def)

text \<open>The fields of the class are those of another state.\<close>

definition same_counters :: "framed_sink \<Rightarrow> framed_sink \<Rightarrow> bool" where
  "same_counters s s' \<longleftrightarrow>
     fw_max_packets s' = fw_max_packets s \<and> fw_max_payload_bytes s' = fw_max_payload_bytes s \<and>
     fw_max_packet_bytes s' = fw_max_packet_bytes s \<and> fw_state s' = fw_state s \<and>
     fw_packets s' = fw_packets s \<and> fw_payload_bytes s' = fw_payload_bytes s \<and> fw_file_bytes s' = fw_file_bytes s"

lemma framed_sink_more:
  fixes s s' :: framed_sink
  shows "sink.more s' = sink.more s \<Longrightarrow> same_counters s s'"
  by (cases s; cases s') (simp add: same_counters_def)

definition framed_sink_post :: "byte list list \<Rightarrow> fs \<Rightarrow> framed_sink \<Rightarrow> byte list list \<Rightarrow> fs \<Rightarrow> framed_sink \<Rightarrow> bool" where
  "framed_sink_post ps f s ps' f' s' \<longleftrightarrow>
     sink_step {sk_final_path s} f s f' s' \<and> framed_sink_inv ps' f' s' \<and>
     fw_max_packets s' = fw_max_packets s \<and> fw_max_payload_bytes s' = fw_max_payload_bytes s \<and>
     fw_max_packet_bytes s' = fw_max_packet_bytes s"

lemma framed_sink_post_refl: "framed_sink_inv ps f s \<Longrightarrow> framed_sink_post ps f s ps f s"
  by (simp add: framed_sink_post_def sink_step_refl framed_sink_inv_def)

lemma framed_leave_post:
  assumes inv: "framed_sink_inv ps f s" and st: "sink_step F f s f' s'" and F: "F \<subseteq> {sk_final_path s}"
    and m: "sink.more s' = sink.more s"
    and ok: "x = Framed_FAILED \<or> x = Framed_ABORTED \<and> owned s' = {} \<and> sk_file s' = None"
  shows "framed_sink_post ps f s ps f' (s'\<lparr>fw_state := x\<rparr>)"
  using inv ok framed_sink_more [OF m] sink_step_mono [OF st F] sink_step_inv [OF st]
  by (auto simp: framed_sink_post_def framed_sink_inv_def same_counters_def)

text \<open>A write to a file that was created during the step itself.\<close>

lemma step_fresh_write:
  fixes s :: "'o sink_scheme"
  assumes st: "sink_step F f s f1 s1" and g: "fs_next f \<le> g"
    and f2: "fs_dir f2 = fs_dir f1" "fs_next f2 = fs_next f1" "fs_data f2 = (fs_data f1)(g := bs)"
  shows "sink_step F f s f2 s1" and "keeps_data f f1 \<Longrightarrow> keeps_data f f2"
proof -
  have "attempt_inv f2 s1 = attempt_inv f1 s1" "sink_inv f2 s1 = sink_inv f1 s1"
    using f2 by (simp_all add: sink_inv_def attempt_inv_def fs_wf_def)
  with st g f2 show "sink_step F f s f2 s1" by (simp add: sink_step_def attempt_step_def)
  show "keeps_data f f1 \<Longrightarrow> keeps_data f f2" using g f2 by (simp add: keeps_data_def)
qed

lemma quiet_fresh_write:
  "quiet F f s f1 s1 \<Longrightarrow> fs_next f \<le> g \<Longrightarrow> fs_dir f2 = fs_dir f1 \<Longrightarrow> fs_next f2 = fs_next f1 \<Longrightarrow>
   fs_data f2 = (fs_data f1)(g := bs) \<Longrightarrow> quiet F f s f2 s1"
  using step_fresh_write [of F f s f1 s1 g f2 bs] by (simp add: quiet_def)

lemma quiet_eat [simp]: "quiet F f s (eat f') s' = quiet F f s f' s'"
  by (simp add: quiet_def sink_step_def attempt_step_def sink_inv_def attempt_inv_def fs_wf_def)

lemma wp_framed_open_syncI:
  assumes inv: "sink_inv f s" and new: "sk_file s = None" "owned s = {}"
  shows "wp framed_open_sync
    (\<lambda>g w. quiet {} f s (fst w) (snd w) \<and>
       (sink_step {} f s (fst w) ((snd w)\<lparr>sk_file := Some g\<rparr>) \<and> fs_data (fst w) g = framed_magic))
    (\<lambda>_ w. quiet {} f s (fst w) (snd w)) (f, s)"
  unfolding framed_open_sync_def wp_with_self wp_bind [of "io_bind x y" for x y]
proof (rule wp_open_acquireI [OF inv new])
  fix f1 s1 g
  assume st: "sink_step {} f s f1 (s1\<lparr>sk_file := Some g\<rparr>)" and q: "quiet {} f s f1 s1"
    and g: "fs_next f \<le> g" "fs_data f1 g = []"
  have q2: "quiet {} f s f2 s1" if "fs_dir f2 = fs_dir f1" "fs_next f2 = fs_next f1" "fs_data f2 = (fs_data f1)(g := bs)" for f2 bs
    by (rule quiet_fresh_write [OF q g(1) that])
  have cl: "wp cleanup (\<lambda>_ w. quiet {} f s (fst w) (snd w)) (\<lambda>_ w. quiet {} f s (fst w) (snd w)) (f2, s1)"
    if "quiet {} f s f2 s1" for f2
    by (rule wp_sink_cleanupI [OF quiet_inv [OF that] quiet_file [OF that]])
      (use quiet_trans [OF that _ _ inv] in auto)
  show "wp (io_seq (io_catch (on_fs (write_all g framed_magic))
           (\<lambda>e. io_seq (io_finally (on_fs sys_simple) (io_ignore cleanup)) (io_raise e))) (io_return g))
     (\<lambda>g w. quiet {} f s (fst w) (snd w) \<and>
       (sink_step {} f s (fst w) ((snd w)\<lparr>sk_file := Some g\<rparr>) \<and> fs_data (fst w) g = framed_magic))
     (\<lambda>_ w. quiet {} f s (fst w) (snd w)) (f1, s1)"
  proof (simp, rule wp_write_allI)
    fix f2 :: fs and k
    assume "fs_dir f2 = fs_dir f1" "fs_next f2 = fs_next f1"
      "fs_data f2 = (fs_data f1)(g := fs_data f1 g @ take k framed_magic)"
    from q2 [OF this]
    show "wp sys_simple (\<lambda>x f'. wp cleanup (\<lambda>_ w. quiet {} f s (fst w) (snd w)) (\<lambda>_ w. quiet {} f s (fst w) (snd w)) (f', s1))
       (\<lambda>e f'. wp cleanup (\<lambda>_ w. quiet {} f s (fst w) (snd w)) (\<lambda>_ w. quiet {} f s (fst w) (snd w)) (f', s1)) f2"
      by (intro wp_simpleI cl) simp_all
  next
    fix f2 :: fs
    assume f2: "fs_dir f2 = fs_dir f1" "fs_next f2 = fs_next f1"
      "fs_data f2 = (fs_data f1)(g := fs_data f1 g @ framed_magic)"
    with q2 [OF f2] step_fresh_write(1) [OF st g(1) f2] g(2)
    show "quiet {} f s f2 s1 \<and> sink_step {} f s f2 (s1\<lparr>sk_file := Some g\<rparr>) \<and> fs_data f2 g = framed_magic" by simp
  qed
qed simp

lemma framed_sink_open_post:
  assumes inv: "framed_sink_inv ps f s" and r: "framed_sink_open cancel (f, s) = (r, f', s')"
  shows "framed_sink_post ps f s ps f' s'"
proof (cases "fw_state s = Framed_CREATED")
  case False
  with r inv show ?thesis by (auto simp: framed_sink_open_def framed_sink_post_refl split: if_splits)
next
  case True
  then have new: "sk_file s = None" "owned s = {}" "sink_inv f s" "ps = []" 
    using inv by (auto simp: framed_sink_inv_def)
  obtain o1 f1 s1 where sh: "shielded_open cancel framed_open_sync (f, s) = (o1, f1, s1)" by (metis prod.collapse)
  have leave: "framed_sink_post ps f s ps f2 (s2\<lparr>fw_state := x\<rparr>)"
    if "quiet {} f s f2 s2" "x = Framed_FAILED \<or> x = Framed_ABORTED \<and> owned s2 = {}" for f2 s2 x
    using framed_leave_post [OF inv quiet_step [OF that(1)] _ quiet_more [OF that(1)]] that quiet_file [OF that(1)]
    by blast
  from new(3) wp_framed_open_syncI [OF new(3,1,2)] sh show ?thesis
  proof (cases rule: shielded_open_cases)
    case (opened g)
    with r sh True have out: "f' = f1" "s' = s1\<lparr>sk_file := Some g, fw_file_bytes := 8, fw_state := Framed_OPEN\<rparr>"
      by (auto simp: framed_sink_open_def)
    note m = framed_sink_more [OF quiet_more [OF opened(2)]]
    have st: "sink_step {} f s f1 (s1\<lparr>sk_file := Some g\<rparr>)" "fs_data f1 g = framed_magic" using opened(3) by simp_all
    have "framed_sink_inv [] f1 (s1\<lparr>sk_file := Some g, fw_file_bytes := 8, fw_state := Framed_OPEN\<rparr>)"
      using sink_step_inv [OF st(1)] st(2) inv m new(4) by (simp add: framed_sink_inv_def same_counters_def framed_file_def)
    with sink_step_mono [OF st(1), of "{sk_final_path s}"] m out new(4) show ?thesis
      by (simp add: framed_sink_post_def same_counters_def)
  next
    case undone
    with r sh True leave [of f1 s1 Framed_ABORTED] show ?thesis
      by (auto simp: framed_sink_open_def)
  next
    case failed
    then have p: "framed_sink_post ps f s ps f1 (s1\<lparr>fw_state := Framed_FAILED\<rparr>)"
      by (intro leave) auto
    from failed(1) r sh True have "f' = f1 \<and> s' = s1\<lparr>fw_state := Framed_FAILED\<rparr>"
      by (auto simp: framed_sink_open_def split: os_error.splits)
    with p show ?thesis by simp
  qed
qed

lemma wp_write_all_syncI:
  assumes inv: "sink_inv f s" and g: "sk_file s = Some g"
    and ok: "\<And>f'. sink_step {} f s f' s \<Longrightarrow> fs_data f' = (fs_data f)(g := fs_data f g @ bs) \<Longrightarrow> Q () (f', s)"
    and err: "\<And>f' e. sink_step {} f s f' s \<Longrightarrow> E e (f', s)"
  shows "wp (write_all_sync bs) Q E (f, s)"
  unfolding write_all_sync_def
  by (simp add: g, rule wp_write_allI) (auto intro!: ok err sink_step_write [OF inv g])

lemma wp_write_record_syncI:
  assumes inv: "sink_inv f s" and g: "sk_file s = Some g"
  shows "wp (write_record_sync packet)
    (\<lambda>_ w. (sink_step {} f s (fst w) (snd w) \<and> sink.more (snd w) = sink.more s) \<and>
       (snd w = s \<and> fs_data (fst w) g = fs_data f g @ record_header packet @ packet))
    (\<lambda>_ w. sink_step {} f s (fst w) (snd w) \<and> sink.more (snd w) = sink.more s) (f, s)"
  unfolding write_record_sync_def wp_seq
proof (rule wp_write_all_syncI [OF inv g])
  fix f1
  assume s1: "sink_step {} f s f1 s" and d1: "fs_data f1 = (fs_data f)(g := fs_data f g @ record_header packet)"
  have tr: "sink_step {} f s f2 s" if "sink_step {} f1 s f2 s" for f2
    by (rule sink_step_trans [OF s1 that _ inv]) simp
  show "wp (write_all_sync packet)
    (\<lambda>_ w. (sink_step {} f s (fst w) (snd w) \<and> sink.more (snd w) = sink.more s) \<and>
       (snd w = s \<and> fs_data (fst w) g = fs_data f g @ record_header packet @ packet))
    (\<lambda>_ w. sink_step {} f s (fst w) (snd w) \<and> sink.more (snd w) = sink.more s) (f1, s)"
    by (rule wp_write_all_syncI [OF sink_step_inv [OF s1] g]) (use tr d1 in simp_all)
qed simp

lemma framed_sink_write_post:
  assumes inv: "framed_sink_inv ps f s" and r: "framed_sink_write packet cancel (f, s) = (r, f', s')"
  shows "framed_sink_post ps f s (case r of Inr _ \<Rightarrow> ps @ [packet] | Inl _ \<Rightarrow> ps) f' s'"
proof -
  have si: "sink_inv f s" using inv by (simp add: framed_sink_inv_def)
  note refused = framed_leave_post [OF inv sink_step_refl [OF si] empty_subsetI refl, of Framed_FAILED]
  consider (closed) "fw_state s \<noteq> Framed_OPEN"
    | (bad) "fw_state s = Framed_OPEN" "fw_max_packet_bytes s < len packet \<or> \<not> is_rtp_v2 packet \<or>
        fw_max_packets s < fw_packets s + 1 \<or> fw_max_payload_bytes s < fw_payload_bytes s + len packet"
    | (work) "fw_state s = Framed_OPEN" "len packet \<le> fw_max_packet_bytes s" "is_rtp_v2 packet"
        "fw_packets s + 1 \<le> fw_max_packets s" "fw_payload_bytes s + len packet \<le> fw_max_payload_bytes s"
    by linarith
  then show ?thesis
  proof cases
    case closed
    with r inv show ?thesis by (auto simp: framed_sink_write_def Let_def framed_sink_post_refl)
  next
    case bad
    with r have "f' = f \<and> s' = s\<lparr>fw_state := Framed_FAILED\<rparr> \<and> (\<exists>e. r = Inl e)"
      by (auto simp: framed_sink_write_def Let_def split: if_splits)
    with refused show ?thesis by auto
  next
    case work
    then obtain g where g: "sk_file s = Some g" "fs_data f g = framed_file ps"
      and b: "fw_packets s = len ps" "fw_payload_bytes s = len (concat ps)" "fw_file_bytes s = len (framed_file ps)"
      using inv by (auto simp: framed_sink_inv_def split: if_splits)
    obtain o1 f1 s1 where sh: "shielded_write cancel (write_record_sync packet) (f, s) = (o1, f1, s1)" by (metis prod.collapse)
    from si wp_write_record_syncI [OF si g(1), of packet] refl sh show ?thesis
    proof (cases rule: shielded_write_cases)
      case wrote
      then have w: "s1 = s" "sink_step {} f s f1 s" "fs_data f1 g = framed_file (ps @ [packet])" using g by simp_all
      let ?s = "s\<lparr>fw_packets := fw_packets s + 1, fw_payload_bytes := fw_payload_bytes s + len packet,
        fw_file_bytes := fw_file_bytes s + 8 + len packet\<rparr>"
      from r sh work wrote(1) w(1) have out: "r = Inr ()" "f' = f1" "s' = ?s"
        by (auto simp: framed_sink_write_def Let_def)
      have "framed_sink_inv (ps @ [packet]) f1 ?s"
        using sink_step_inv [OF w(2)] work g w(3) b inv by (simp add: framed_sink_inv_def)
      with sink_step_mono [OF w(2), of "{sk_final_path s}"] out show ?thesis by (simp add: framed_sink_post_def)
    next
      case undone
      then have p: "framed_sink_post ps f s ps f1 (s1\<lparr>fw_state := Framed_ABORTED\<rparr>)"
        by (intro framed_leave_post [OF inv, of "{}"]) simp_all
      from undone(1) r sh work have "r = Inl Framed_CancelledError \<and> f' = f1 \<and> s' = s1\<lparr>fw_state := Framed_ABORTED\<rparr>"
        by (auto simp: framed_sink_write_def Let_def)
      with p show ?thesis by simp
    next
      case failed
      then have p: "framed_sink_post ps f s ps f1 (s1\<lparr>fw_state := Framed_FAILED\<rparr>)"
        by (intro framed_leave_post [OF inv, of "{}"]) simp_all
      from failed(1) r sh work have "r = Inl (FramedRecordingError Framed_IO_FAILURE) \<and> f' = f1 \<and> s' = s1\<lparr>fw_state := Framed_FAILED\<rparr>"
        by (auto simp: framed_sink_write_def Let_def)
      with p show ?thesis by simp
    qed
  qed
qed

lemma framed_sink_finalize_post:
  assumes inv: "framed_sink_inv ps f s" and r: "framed_sink_finalize cancel (f, s) = (r, f', s')"
  shows "framed_sink_post ps f s ps f' s'"
proof (cases "fw_state s = Framed_OPEN")
  case False
  with r inv show ?thesis by (auto simp: framed_sink_finalize_def framed_sink_post_refl split: if_splits)
next
  case True
  then obtain g where g: "sk_file s = Some g" "fs_data f g = framed_file ps" and si: "sink_inv f s"
    using inv by (auto simp: framed_sink_inv_def)
  obtain o1 f1 s1 where sh: "shielded_finalize cancel (f, s) = (o1, f1, s1)" by (metis prod.collapse)
  have leave: "framed_sink_post ps f s ps f2 (s2\<lparr>fw_state := x\<rparr>)"
    if "finalize_step f s f2 s2" "x = Framed_FAILED \<or> x = Framed_ABORTED \<and> owned s2 = {} \<and> sk_file s2 = None" for f2 s2 x
    using framed_leave_post [OF inv _ order_refl] that by (auto simp: finalize_step_def)
  from si sh show ?thesis
  proof (cases rule: shielded_finalize_cases)
    case published
    have "g < fs_next f" using si g by (auto simp: sink_inv_def attempt_inv_def fs_wf_def)
    then have d: "fs_data f1 g = framed_file ps" using published(2) g by (auto simp: finalize_step_def keeps_data_def)
    have fin: "sk_final_path s1 = sk_final_path s" "sink_inv f1 s1" "same_counters s s1"
      using published(2) framed_sink_more by (auto simp: finalize_step_def sink_step_def)
    then have "framed_sink_inv ps f1 (s1\<lparr>fw_state := Framed_FINALIZED\<rparr>)"
      using inv published g d True by (auto simp: framed_sink_inv_def same_counters_def)
    moreover from published(1) r sh True have "f' = f1 \<and> s' = s1\<lparr>fw_state := Framed_FINALIZED\<rparr>"
      by (auto simp: framed_sink_finalize_def)
    ultimately show ?thesis
      using published(2) fin by (simp add: framed_sink_post_def finalize_step_def same_counters_def)
  next
    case undone
    with r sh True leave [of f1 s1 Framed_ABORTED] show ?thesis
      by (auto simp: framed_sink_finalize_def)
  next
    case failed
    from failed(1) r sh True have "f' = f1 \<and> s' = s1\<lparr>fw_state := Framed_FAILED\<rparr>"
      by (auto simp: framed_sink_finalize_def split: os_error.splits)
    with leave [OF failed(2), of Framed_FAILED] show ?thesis by simp
  qed
qed

lemma framed_sink_abort_post:
  assumes inv: "framed_sink_inv ps f s" and r: "framed_sink_abort cancel (f, s) = (r, f', s')"
  shows "framed_sink_post ps f s ps f' s'"
proof (cases "fw_state s \<in> {Framed_ABORTED, Framed_FINALIZED}")
  case True
  with r inv show ?thesis by (auto simp: framed_sink_abort_def Let_def framed_sink_post_refl)
next
  case False
  have si: "sink_inv f s" using inv by (simp add: framed_sink_inv_def)
  obtain o1 f1 s1 where sh: "shielded_abort cancel (f, s) = (o1, f1, s1)" by (metis prod.collapse)
  have leave: "framed_sink_post ps f s ps f2 (s2\<lparr>fw_state := x\<rparr>)"
    if "quiet {} f s f2 s2" "x = Framed_FAILED \<or> x = Framed_ABORTED \<and> owned s2 = {}" for f2 s2 x
    using framed_leave_post [OF inv quiet_step [OF that(1)] _ quiet_more [OF that(1)]] that quiet_file [OF that(1)]
    by blast
  from si sh show ?thesis
  proof (cases rule: shielded_abort_cases)
    case aborted
    with r sh False leave [of f1 s1 Framed_ABORTED] show ?thesis
      by (auto simp: framed_sink_abort_def split: if_splits)
  next
    case failed
    from failed(1) r sh False have "f' = f1 \<and> s' = s1\<lparr>fw_state := Framed_FAILED\<rparr>"
      by (auto simp: framed_sink_abort_def)
    with leave [OF failed(2), of Framed_FAILED] show ?thesis by simp
  qed
qed

lemma framed_sink_step_post:
  assumes "framed_sink_inv ps f s" and "framed_sink_step e (f, s) = (r, f', s')"
  shows "framed_sink_post ps f s (ps @ accepted e r) f' s'"
proof (cases e)
  case (SinkWrite p c)
  with assms framed_sink_write_post [of ps f s p c r f' s'] show ?thesis by (cases r) simp_all
qed (use assms framed_sink_open_post framed_sink_finalize_post framed_sink_abort_post in simp_all)

lemma framed_sink_post_trans:
  assumes p1: "framed_sink_post ps f s qs f1 s1" and p2: "framed_sink_post qs f1 s1 rs f' s'" and si: "sink_inv f s"
  shows "framed_sink_post ps f s rs f' s'"
proof -
  from p1 have s1: "sink_step {sk_final_path s} f s f1 s1" "sk_final_path s1 = sk_final_path s"
    by (simp_all add: framed_sink_post_def sink_step_def)
  with p2 have "sink_step {sk_final_path s} f1 s1 f' s'" by (simp add: framed_sink_post_def)
  with sink_step_trans [OF s1(1) this order_refl si] p1 p2 show ?thesis by (simp add: framed_sink_post_def)
qed

lemma framed_sink_init_inv:
  assumes "framed_sink_init token recording_id mp mb mk = Inr s" and "fs_wf f"
  shows "framed_sink_inv [] f s"
  using assms sink_names(1) [of recording_id "''.k5r.part''" "''.k5r.stage''" token]
    sink_names(2) [of recording_id "''.k5r.part''" "''.k5r.stage''" "''.k5r''" token]
  by (auto simp: framed_sink_init_def framed_sink_inv_def sink_inv_def attempt_inv_def owned_def framed_limits_ok_def split: if_splits)

section \<open>The recording-sink contract\<close>

definition framed_sink_ops :: "(fs \<times> framed_sink, framed_exn) recording_sink_ops" where
  "framed_sink_ops =
     \<lparr>rs_open = framed_sink_open, rs_write = framed_sink_write, rs_finalize = framed_sink_finalize,
      rs_abort = framed_sink_abort, rs_is_cancelled = (\<lambda>e. e = Framed_CancelledError)\<rparr>"

text \<open>A sink that started as \<open>s0\<close> in the file system \<open>f0\<close> and has accepted \<open>ps\<close> since.\<close>

fun framed_sink_since :: "fs \<Rightarrow> framed_sink \<Rightarrow> byte list list \<Rightarrow> fs \<times> framed_sink \<Rightarrow> bool" where
  "framed_sink_since f0 s0 ps (f, s) \<longleftrightarrow> sink_inv f0 s0 \<and> framed_sink_post [] f0 s0 ps f s"

lemma framed_sink_since_step:
  "framed_sink_since f0 s0 ps (f, s) \<Longrightarrow> framed_sink_step e (f, s) = (r, f', s') \<Longrightarrow>
   framed_sink_since f0 s0 (ps @ accepted e r) (f', s')"
  using framed_sink_step_post [of ps f s e r f' s'] framed_sink_post_trans [of "[]" f0 s0 ps f s "ps @ accepted e r" f' s']
  by (simp add: framed_sink_post_def)

fun framed_sink_published :: "byte list list \<Rightarrow> fs \<times> framed_sink \<Rightarrow> bool" where
  "framed_sink_published ps (f, s) \<longleftrightarrow>
     (\<exists>g. fs_dir f (sk_final_path s) = Some g \<and> fs_data f g = framed_file ps) \<and> fw_state s = Framed_FINALIZED"

lemma framed_sink_finalize_state: "framed_sink_finalize c w = (Inr u, f', s') \<Longrightarrow> fw_state s' = Framed_FINALIZED"
  by (auto simp: framed_sink_finalize_def Let_def split: if_splits prod.splits shielded.splits os_error.splits)

interpretation framed_recording: recording_sink framed_sink_ops "framed_sink_since f0 s0" framed_sink_published for f0 s0
proof unfold_locales
  fix ps p c r and w w' :: "fs \<times> framed_sink" and u :: unit and e
  obtain f s f' s' where w: "w = (f, s)" "w' = (f', s')" by (metis prod.collapse)
  note step = framed_sink_since_step [of f0 s0 ps f s _ _ f' s']
  assume inv: "framed_sink_since f0 s0 ps w"
  show "rs_open framed_sink_ops c w = (r, w') \<Longrightarrow> framed_sink_since f0 s0 ps w'"
    using inv w step [of "SinkOpen c" r] by (simp add: framed_sink_ops_def)
  show "rs_write framed_sink_ops p c w = (Inr u, w') \<Longrightarrow> framed_sink_since f0 s0 (ps @ [p]) w'"
    using inv w step [of "SinkWrite p c" "Inr u"] by (simp add: framed_sink_ops_def)
  show "rs_write framed_sink_ops p c w = (Inl e, w') \<Longrightarrow> framed_sink_since f0 s0 ps w'"
    using inv w step [of "SinkWrite p c" "Inl e"] by (simp add: framed_sink_ops_def)
  show fin: "rs_finalize framed_sink_ops c w = (r, w') \<Longrightarrow> framed_sink_since f0 s0 ps w'" for r
    using inv w step [of "SinkFinalize c" r] by (simp add: framed_sink_ops_def)
  show "rs_abort framed_sink_ops c w = (r, w') \<Longrightarrow> framed_sink_since f0 s0 ps w'"
    using inv w step [of "SinkAbort c" r] by (simp add: framed_sink_ops_def)
  show "framed_sink_published ps w'" if out: "rs_finalize framed_sink_ops c w = (Inr u, w')"
    using fin [OF out] w out framed_sink_finalize_state [of c w u f' s']
    by (auto simp: framed_sink_ops_def framed_sink_post_def framed_sink_inv_def)
qed

end
