(* ===== verification/Framed_Reader.thy ===== *)
theory Framed_Reader
  imports Framed_Sink
begin

text \<open>
  The reading half of \<open>src/src/k5vision/media/framed_recording.py\<close>: \<open>FramedRecordingReader\<close> reads
  a framed file once, front to back, as a generator of packets.

  The open file is the bytes that are left, and the number of reads that still work before one
  raises \<open>OSError\<close> (\<open>None\<close>: all of them). A read of a buffered file returns all the bytes asked
  for, or those up to the end of the file.
\<close>

section \<open>Reading a file\<close>

record read_file =
  rf_rest :: "byte list"
  rf_reads :: "nat option"

definition file_read :: "nat \<Rightarrow> read_file \<Rightarrow> unit + byte list \<times> read_file" where
  "file_read n rf =
     (if rf_reads rf = Some 0 then Inl ()
      else Inr (take n (rf_rest rf),
                \<lparr>rf_rest = drop n (rf_rest rf), rf_reads = map_option (\<lambda>k. k - 1) (rf_reads rf)\<rparr>))"

datatype read_error = ReadOSError | ReadTruncated

text \<open>The loop of \<open>_read_exact\<close>.\<close>

function read_exact :: "nat \<Rightarrow> read_file \<Rightarrow> read_error + byte list \<times> read_file" where
  "read_exact remaining rf =
     (if remaining = 0 then Inr ([], rf)
      else case file_read remaining rf of
        Inl _ \<Rightarrow> Inl ReadOSError
      | Inr (chunk, rf') \<Rightarrow>
          (if chunk = [] then Inl ReadTruncated
           else case read_exact (remaining - length chunk) rf' of
             Inl e \<Rightarrow> Inl e
           | Inr (chunks, rf'') \<Rightarrow> Inr (chunk @ chunks, rf'')))"
  by pat_completeness auto
termination
  by (relation "measure (\<lambda>(n, rf). n)") (auto simp: file_read_def split: if_splits)

declare read_exact.simps [simp del]

lemma read_exact_Inr:
  "read_exact n rf = Inr (bs, rf') \<Longrightarrow>
   bs = take n (rf_rest rf) \<and> n \<le> length (rf_rest rf) \<and> rf_rest rf' = drop n (rf_rest rf)"
proof (induction n rf arbitrary: bs rf' rule: read_exact.induct)
  case (1 n rf)
  show ?case
  proof (cases "n = 0")
    case True
    with "1.prems" show ?thesis by (simp add: read_exact.simps [of 0 rf])
  next
    case False
    let ?chunk = "take n (rf_rest rf)"
    let ?file1 = "\<lparr>rf_rest = drop n (rf_rest rf), rf_reads = map_option (\<lambda>k. k - 1) (rf_reads rf)\<rparr>"
    have fr: "file_read n rf = Inr (?chunk, ?file1)" and ne: "?chunk \<noteq> []"
      using "1.prems" False by (auto simp: read_exact.simps [of n rf] file_read_def split: if_splits)
    with "1.prems" False obtain cs where rec: "read_exact (n - length ?chunk) ?file1 = Inr (cs, rf')"
      and bs: "bs = ?chunk @ cs"
      by (auto simp: read_exact.simps [of n rf] split: sum.splits prod.splits)
    from "1.IH" [OF False fr refl ne rec] have "cs = take (n - length ?chunk) (drop n (rf_rest rf))"
      "n - length ?chunk \<le> length (drop n (rf_rest rf))"
      "rf_rest rf' = drop (n - length ?chunk) (drop n (rf_rest rf))" by simp_all
    with bs show ?thesis by (cases "n \<le> length (rf_rest rf)") (auto simp: min_def)
  qed
qed

section \<open>The reader\<close>

record framed_reader =
  fr_max_packets :: int
  fr_max_payload_bytes :: int
  fr_max_packet_bytes :: int
  fr_state :: framed_state
  fr_packets :: int
  fr_payload_bytes :: int
  fr_file_bytes :: int

definition framed_reader_init :: "int \<Rightarrow> int \<Rightarrow> int \<Rightarrow> framed_exn + framed_reader" where
  "framed_reader_init mp mb mk =
     (if \<not> framed_limits_ok mp mb mk then Inl Framed_ValueError
      else Inr \<lparr>fr_max_packets = mp, fr_max_payload_bytes = mb, fr_max_packet_bytes = mk,
                fr_state = Framed_CREATED, fr_packets = 0, fr_payload_bytes = 0, fr_file_bytes = 0\<rparr>)"

definition framed_reader_snapshot :: "framed_reader \<Rightarrow> validation_error + framed_snapshot" where
  "framed_reader_snapshot r =
     (if 0 \<le> fr_packets r \<and> 0 \<le> fr_payload_bytes r \<and> 0 \<le> fr_file_bytes r
      then Inr \<lparr>fws_state = fr_state r, fws_packets = fr_packets r,
                fws_payload_bytes = fr_payload_bytes r, fws_file_bytes = fr_file_bytes r\<rparr>
      else Inl ValidationError)"

text \<open>
  The \<open>finally\<close> block of \<open>iter_packets\<close>: \<open>close_fails\<close> says whether closing the file raises
  \<open>OSError\<close>. It only changes a state that is still \<open>OPEN\<close>.
\<close>

definition reader_finally :: "bool \<Rightarrow> framed_reader \<Rightarrow> framed_reader" where
  "reader_finally close_fails r =
     (let r1 = (if close_fails \<and> fr_state r = Framed_OPEN then r\<lparr>fr_state := Framed_FAILED\<rparr> else r)
      in if fr_state r1 = Framed_OPEN then r1\<lparr>fr_state := Framed_ABORTED\<rparr> else r1)"

type_synonym reader_gen = "(byte list, framed_reader, framed_exn) gen"

definition reader_fail :: "bool \<Rightarrow> framed_error_code \<Rightarrow> framed_reader \<Rightarrow> reader_gen" where
  "reader_fail close_fails code r =
     GRaise (FramedRecordingError code) (reader_finally close_fails (r\<lparr>fr_state := Framed_FAILED\<rparr>))"

text \<open>One turn of the record loop, up to the \<open>yield\<close>, and the rest of the generator.\<close>

function reader_loop :: "bool \<Rightarrow> read_file \<Rightarrow> framed_reader \<Rightarrow> reader_gen" where
  "reader_loop close_fails rf r =
     (case file_read 8 rf of
        Inl _ \<Rightarrow> reader_fail close_fails Framed_IO_FAILURE r
      | Inr (header, file1) \<Rightarrow>
          (let r1 = r\<lparr>fr_file_bytes := fr_file_bytes r + len header\<rparr>;
               packet_bytes = from_bytes_big (take 4 header);
               expected_crc = from_bytes_big (drop 4 header)
           in if header = [] then GReturn (reader_finally close_fails (r1\<lparr>fr_state := Framed_COMPLETE\<rparr>))
              else if length header \<noteq> 8 then reader_fail close_fails Framed_TRUNCATED_RECORD r1
              else if \<not> (12 \<le> packet_bytes \<and> packet_bytes \<le> fr_max_packet_bytes r1)
              then reader_fail close_fails Framed_INVALID_RECORD r1
              else if fr_max_packets r1 < fr_packets r1 + 1 \<or>
                      fr_max_payload_bytes r1 < fr_payload_bytes r1 + packet_bytes
              then reader_fail close_fails Framed_LIMIT_EXCEEDED r1
              else case read_exact (nat packet_bytes) file1 of
                Inl ReadOSError \<Rightarrow> reader_fail close_fails Framed_IO_FAILURE r1
              | Inl ReadTruncated \<Rightarrow> reader_fail close_fails Framed_TRUNCATED_RECORD r1
              | Inr (payload, file2) \<Rightarrow>
                  (let r2 = r1\<lparr>fr_file_bytes := fr_file_bytes r1 + packet_bytes\<rparr>;
                       r3 = r2\<lparr>fr_packets := fr_packets r2 + 1,
                               fr_payload_bytes := fr_payload_bytes r2 + packet_bytes\<rparr>
                   in if crc32 payload \<noteq> expected_crc
                      then reader_fail close_fails Framed_INTEGRITY_FAILURE r2
                      else if \<not> is_rtp_v2 payload
                      then reader_fail close_fails Framed_INVALID_RECORD r2
                      else GYield payload r3 (reader_finally close_fails r3)
                             (reader_loop close_fails file2 r3))))"
  by pat_completeness auto

termination
proof (relation "measure (\<lambda>(c, rf, r). length (rf_rest rf))", goal_cases)
  case (2 close_fails rf r x header file1 r1 packet_bytes expected_crc y payload file2 r2 r3)
  then show ?case by (auto simp: file_read_def dest!: read_exact_Inr split: if_splits)
qed simp

declare reader_loop.simps [simp del]

text \<open>\<open>content\<close> is what the path names, \<open>None\<close> when it cannot be opened.\<close>

definition iter_packets :: "(byte list \<times> nat option) option \<Rightarrow> bool \<Rightarrow> framed_reader \<Rightarrow> reader_gen" where
  "iter_packets content close_fails r =
     (if fr_state r \<noteq> Framed_CREATED then GRaise (FramedRecordingError Framed_INVALID_STATE) r
      else case content of
        None \<Rightarrow> GRaise (FramedRecordingError Framed_IO_FAILURE) (r\<lparr>fr_state := Framed_FAILED\<rparr>)
      | Some (bytes, reads) \<Rightarrow>
          (let r0 = r\<lparr>fr_state := Framed_OPEN\<rparr> in
           case file_read 8 \<lparr>rf_rest = bytes, rf_reads = reads\<rparr> of
             Inl _ \<Rightarrow> reader_fail close_fails Framed_IO_FAILURE r0
           | Inr (magic, file1) \<Rightarrow>
               (let r1 = r0\<lparr>fr_file_bytes := fr_file_bytes r0 + len magic\<rparr> in
                if magic \<noteq> framed_magic then reader_fail close_fails Framed_INVALID_HEADER r1
                else reader_loop close_fails file1 r1)))"

section \<open>One turn of the loop\<close>

text \<open>The packets a reader with the limits of \<open>r\<close> accepts, and the state after one more of them.\<close>

definition packet_ok :: "framed_reader \<Rightarrow> byte list \<Rightarrow> bool" where
  "packet_ok r p \<longleftrightarrow> is_rtp_v2 p \<and> len p \<le> fr_max_packet_bytes r"

definition reader_took :: "byte list \<Rightarrow> framed_reader \<Rightarrow> framed_reader" where
  "reader_took p r = r\<lparr>fr_file_bytes := fr_file_bytes r + 8 + len p, fr_packets := fr_packets r + 1,
                      fr_payload_bytes := fr_payload_bytes r + len p\<rparr>"

definition within_limits :: "framed_reader \<Rightarrow> bool" where
  "within_limits r \<longleftrightarrow> fr_packets r \<le> fr_max_packets r \<and> fr_payload_bytes r \<le> fr_max_payload_bytes r"

lemma file_read_Inr [k5_inv]:
  "file_read n rf = Inr (c, rf') \<longleftrightarrow>
   rf_reads rf \<noteq> Some 0 \<and> c = take n (rf_rest rf) \<and>
   rf' = \<lparr>rf_rest = drop n (rf_rest rf), rf_reads = map_option (\<lambda>k. k - 1) (rf_reads rf)\<rparr>"
  by (auto simp: file_read_def)

lemma header_is_record_header:
  assumes "length header = 8" and "from_bytes_big (take 4 header) = len p" and "crc32 p = from_bytes_big (drop 4 header)"
  shows "record_header p = header"
proof -
  have "to_bytes_u32 (from_bytes_big (take 4 header)) = take 4 header"
    "to_bytes_u32 (from_bytes_big (drop 4 header)) = drop 4 header"
    using assms(1) by (simp_all add: to_from_bytes_u32)
  with assms(2,3) show ?thesis by (simp add: record_header_def)
qed

lemma reader_loop_cases:
  obtains (complete) "rf_rest rf = []" "reader_loop cf rf r = GReturn (r\<lparr>fr_state := Framed_COMPLETE\<rparr>)"
    | (failed) code n where "reader_loop cf rf r =
        GRaise (FramedRecordingError code) (r\<lparr>fr_file_bytes := fr_file_bytes r + int n, fr_state := Framed_FAILED\<rparr>)"
    | (packet) p rf1 where "rf_rest rf = frame_record p @ rf_rest rf1" "packet_ok r p" "within_limits (reader_took p r)"
        "reader_loop cf rf r =
           GYield p (reader_took p r) (reader_finally cf (reader_took p r)) (reader_loop cf rf1 (reader_took p r))"
proof -
  have fail: thesis if "reader_loop cf rf r = reader_fail cf code (r\<lparr>fr_file_bytes := fr_file_bytes r + int n\<rparr>)" for code n
    using failed [of code n] that by (simp add: reader_fail_def reader_finally_def)
  have fail0: thesis if "reader_loop cf rf r = reader_fail cf code r" for code
    using fail [of code 0] that by simp
  show thesis
  proof (cases "file_read 8 rf")
    case (Inl u)
    with fail0 show thesis by (simp add: reader_loop.simps [of cf rf r])
  next
    case (Inr x)
    obtain h rf1 where fr: "file_read 8 rf = Inr (h, rf1)" and h: "h = take 8 (rf_rest rf)"
      and rf1: "rf_rest rf1 = drop 8 (rf_rest rf)"
      using Inr by (cases x) (auto simp: k5_inv)
    let ?r1 = "r\<lparr>fr_file_bytes := fr_file_bytes r + len h\<rparr>"
    let ?n = "from_bytes_big (take 4 h)"
    note step = reader_loop.simps [of cf rf r] fr Let_def
    consider (empty) "h = []" | (short) "h \<noteq> []" "length h \<noteq> 8"
      | (size) "length h = 8" "\<not> (12 \<le> ?n \<and> ?n \<le> fr_max_packet_bytes r)"
      | (limit) "length h = 8" "12 \<le> ?n \<and> ?n \<le> fr_max_packet_bytes r"
          "fr_max_packets r < fr_packets r + 1 \<or> fr_max_payload_bytes r < fr_payload_bytes r + ?n"
      | (body) "length h = 8" "12 \<le> ?n \<and> ?n \<le> fr_max_packet_bytes r"
          "fr_packets r + 1 \<le> fr_max_packets r" "fr_payload_bytes r + ?n \<le> fr_max_payload_bytes r"
      by linarith
    then show thesis
    proof cases
      case empty
      with h have "rf_rest rf = []" by simp
      with empty complete show thesis by (simp add: step reader_finally_def)
    next
      case short
      then have "reader_loop cf rf r = reader_fail cf Framed_TRUNCATED_RECORD ?r1"
        by (subst reader_loop.simps) (simp add: fr Let_def)
      then show thesis by (rule fail)
    next
      case size
      then have "reader_loop cf rf r = reader_fail cf Framed_INVALID_RECORD ?r1" by (subst reader_loop.simps) (auto simp: fr Let_def)
      then show thesis by (rule fail)
    next
      case limit
      then have "reader_loop cf rf r = reader_fail cf Framed_LIMIT_EXCEEDED ?r1" by (subst reader_loop.simps) (auto simp: fr Let_def)
      then show thesis by (rule fail)
    next
      case body
      then have ne: "h \<noteq> []" by auto
      
      have now: "reader_loop cf rf r =
        (case read_exact (nat ?n) rf1 of
           Inl ReadOSError \<Rightarrow> reader_fail cf Framed_IO_FAILURE ?r1
         | Inl ReadTruncated \<Rightarrow> reader_fail cf Framed_TRUNCATED_RECORD ?r1
         | Inr (payload, rf2) \<Rightarrow>
             (let r2 = ?r1\<lparr>fr_file_bytes := fr_file_bytes ?r1 + ?n\<rparr>;
                  r3 = r2\<lparr>fr_packets := fr_packets r2 + 1, fr_payload_bytes := fr_payload_bytes r2 + ?n\<rparr>
              in if crc32 payload \<noteq> from_bytes_big (drop 4 h) then reader_fail cf Framed_INTEGRITY_FAILURE r2
                 else if \<not> is_rtp_v2 payload then reader_fail cf Framed_INVALID_RECORD r2
                 else GYield payload r3 (reader_finally cf r3) (reader_loop cf rf2 r3)))"
        using body ne by (subst reader_loop.simps) (simp add: fr Let_def)
      show thesis
      proof (cases "read_exact (nat ?n) rf1")
        case (Inl e)
        with fail show thesis by (cases e) (simp_all add: now)
      next
        case (Inr y)
        then obtain p rf2 where re: "read_exact (nat ?n) rf1 = Inr (p, rf2)" by (cases y) auto
        from read_exact_Inr [OF re] have p: "len p = ?n" "rf_rest rf1 = p @ rf_rest rf2"
          using body(2) by (auto simp: min_def)
        show thesis
        proof (cases "crc32 p = from_bytes_big (drop 4 h) \<and> is_rtp_v2 p")
          case False
          let ?r2 = "r\<lparr>fr_file_bytes := fr_file_bytes r + int (length h + length p)\<rparr>"
          from False p(1) have "reader_loop cf rf r = reader_fail cf Framed_INTEGRITY_FAILURE ?r2 \<or>
              reader_loop cf rf r = reader_fail cf Framed_INVALID_RECORD ?r2"
            by (cases "crc32 p = from_bytes_big (drop 4 h)") (simp_all add: now re Let_def add.assoc)
          with fail show thesis by blast
        next
          case True
          with header_is_record_header [OF body(1)] p(1) have "record_header p = h" by simp
          with p(2) rf1 h have "rf_rest rf = frame_record p @ rf_rest rf2"
            by (metis append_take_drop_id append_assoc frame_record_def)
          moreover have "reader_loop cf rf r =
            GYield p (reader_took p r) (reader_finally cf (reader_took p r)) (reader_loop cf rf2 (reader_took p r))"
            using True p(1) body(1) by (simp add: now re Let_def reader_took_def)
          moreover have "packet_ok r p" "within_limits (reader_took p r)"
            using body p True by (simp_all add: packet_ok_def within_limits_def reader_took_def)
          ultimately show thesis by (intro packet)
        qed
      qed
    qed
  qed
qed

section \<open>Any file\<close>

lemma reader_took_simps [simp]:
  "fr_max_packets (reader_took p r) = fr_max_packets r"
  "fr_max_payload_bytes (reader_took p r) = fr_max_payload_bytes r"
  "fr_max_packet_bytes (reader_took p r) = fr_max_packet_bytes r"
  "fr_state (reader_took p r) = fr_state r"
  by (simp_all add: reader_took_def)

text \<open>What a reader has done after it yielded \<open>ps\<close>, of a file that starts with them.\<close>

definition reader_did :: "byte list list \<Rightarrow> framed_reader \<Rightarrow> bool" where
  "reader_did ps r \<longleftrightarrow>
     fr_packets r = len ps \<and> fr_payload_bytes r = len (concat ps) \<and> fr_file_bytes r = len (framed_file ps) \<and>
     list_all (packet_ok r) ps \<and> within_limits r"

lemma reader_did_took:
  "reader_did ps r \<Longrightarrow> packet_ok r p \<Longrightarrow> within_limits (reader_took p r) \<Longrightarrow> reader_did (ps @ [p]) (reader_took p r)"
  by (auto simp: reader_did_def reader_took_def packet_ok_def list_all_iff)

lemma reader_did_state [simp]: "reader_did ps (r\<lparr>fr_state := x\<rparr>) = reader_did ps r"
  by (simp add: reader_did_def packet_ok_def [abs_def] within_limits_def)

lemma reader_finally_open:
  "fr_state r = Framed_OPEN \<Longrightarrow> fr_state (reader_finally cf r) \<in> {Framed_ABORTED, Framed_FAILED}"
  by (simp add: reader_finally_def Let_def)

lemma length_frame_record [simp]: "length (frame_record p) = 8 + length p"
  by (simp add: frame_record_def)

text \<open>
  The specification of the reader for a file with the bytes \<open>content\<close>: what it yielded is the
  start of the file, its counters are those of what it yielded, and it returns only at the end.
\<close>

definition starts_with :: "byte list \<Rightarrow> byte list list \<Rightarrow> bool" where
  "starts_with content xs \<longleftrightarrow> xs = [] \<or> (\<exists>rest. content = framed_file xs @ rest)"

definition reader_at_yield :: "byte list \<Rightarrow> byte list list \<Rightarrow> framed_reader \<Rightarrow> bool" where
  "reader_at_yield content xs s \<longleftrightarrow> starts_with content xs \<and> reader_did xs s \<and> fr_state s = Framed_OPEN"

definition reader_at_close :: "byte list \<Rightarrow> byte list list \<Rightarrow> framed_reader \<Rightarrow> bool" where
  "reader_at_close content xs s \<longleftrightarrow>
     starts_with content xs \<and> reader_did xs s \<and> fr_state s \<in> {Framed_ABORTED, Framed_FAILED}"

definition reader_at_end :: "byte list \<Rightarrow> byte list list \<Rightarrow> framed_exn + unit \<Rightarrow> framed_reader \<Rightarrow> bool" where
  "reader_at_end content xs res s \<longleftrightarrow>
     starts_with content xs \<and>
     (case res of
        Inr _ \<Rightarrow> content = framed_file xs \<and> reader_did xs s \<and> fr_state s = Framed_COMPLETE
      | Inl e \<Rightarrow> (\<exists>code. e = FramedRecordingError code) \<and> fr_state s = Framed_FAILED \<and>
          (\<exists>sn. framed_reader_snapshot s = Inr sn) \<and>
          list_all (\<lambda>p. is_rtp_v2 p \<and> len p \<le> fr_max_packet_bytes s) xs)"

lemma reader_did_file_bytes: "reader_did xs r \<Longrightarrow> 0 \<le> fr_packets r \<and> 0 \<le> fr_payload_bytes r \<and> 0 \<le> fr_file_bytes r"
  by (simp add: reader_did_def)

lemma reader_finally_did [simp]: "reader_did xs (reader_finally cf r) = reader_did xs r"
  by (simp add: reader_finally_def Let_def)

lemma reader_loop_spec:
  assumes "fr_state r = Framed_OPEN" and "reader_did ps r" and "content = framed_file ps @ rf_rest rf"
  shows "gen_spec (reader_at_yield content) (reader_at_close content) (reader_at_end content) ps (reader_loop cf rf r)"
  using assms
proof (induction "length (rf_rest rf)" arbitrary: rf r ps rule: less_induct)
  case less
  have start: "starts_with content ps" using less.prems(3) by (auto simp: starts_with_def)
  show ?case
  proof (cases rule: reader_loop_cases [of rf cf r])
    case complete
    with less.prems start show ?thesis by (simp add: reader_at_end_def)
  next
    case (failed code n)
    with less.prems(2) start reader_did_file_bytes [OF less.prems(2)] show ?thesis
      by (simp add: reader_at_end_def framed_reader_snapshot_def reader_did_def packet_ok_def [abs_def])
  next
    case (packet p rf1)
    let ?r = "reader_took p r"
    have did: "reader_did (ps @ [p]) ?r" using reader_did_took less.prems(2) packet(2,3) .
    have "length (rf_rest rf1) < length (rf_rest rf)" using packet(1) by simp
    moreover have c: "content = framed_file (ps @ [p]) @ rf_rest rf1"
      using less.prems(3) packet(1) by (simp add: frame_record_def)
    ultimately have "gen_spec (reader_at_yield content) (reader_at_close content) (reader_at_end content)
        (ps @ [p]) (reader_loop cf rf1 ?r)"
      using did less.prems(1) by (intro less.hyps) simp_all
    moreover have "starts_with content (ps @ [p])" using c unfolding starts_with_def by blast
    ultimately show ?thesis
      using did less.prems(1) reader_finally_open [of ?r cf] packet(4) by (simp add: reader_at_yield_def reader_at_close_def)
  qed
qed

section \<open>A file the sink wrote\<close>

lemma framed_limits_packet: "framed_limits_ok mp mb mk \<Longrightarrow> mk \<le> 65535"
  by (simp add: framed_limits_ok_def)

lemma read_exact_good:
  assumes "length p = n"
  shows "read_exact n \<lparr>rf_rest = p @ rest, rf_reads = None\<rparr> = Inr (p, \<lparr>rf_rest = rest, rf_reads = None\<rparr>)"
proof (cases "n = 0")
  case True
  with assms show ?thesis by (simp add: read_exact.simps [of 0])
next
  case False
  with assms show ?thesis
    by (subst read_exact.simps) (auto simp: file_read_def read_exact.simps [of 0])
qed

lemma record_header_fields:
  assumes "len p \<le> 65535"
  shows "from_bytes_big (take 4 (record_header p)) = len p" "from_bytes_big (drop 4 (record_header p)) = crc32 p"
  using assms crc32_bounds [of p] by (simp_all add: record_header_def)

lemma reader_loop_packet:
  assumes ok: "packet_ok r p" "within_limits (reader_took p r)" and lim: "fr_max_packet_bytes r \<le> 65535"
  shows "reader_loop cf \<lparr>rf_rest = frame_record p @ rest, rf_reads = None\<rparr> r =
    GYield p (reader_took p r) (reader_finally cf (reader_took p r))
      (reader_loop cf \<lparr>rf_rest = rest, rf_reads = None\<rparr> (reader_took p r))"
proof -
  have fr: "file_read 8 \<lparr>rf_rest = frame_record p @ rest, rf_reads = None\<rparr>
      = Inr (record_header p, \<lparr>rf_rest = p @ rest, rf_reads = None\<rparr>)"
    by (simp add: file_read_def frame_record_def)
  have "record_header p \<noteq> []" by (metis length_record_header list.size(3) zero_neq_numeral)
  moreover have "len p \<le> 65535" using ok(1) lim by (simp add: packet_ok_def)
  moreover have "12 \<le> len p" using ok(1) is_rtp_v2_length [of p] by (simp add: packet_ok_def)
  moreover have "len p \<le> fr_max_packet_bytes r" "is_rtp_v2 p" using ok(1) by (simp_all add: packet_ok_def)
  moreover have "\<not> fr_max_packets r < fr_packets r + 1" "\<not> fr_max_payload_bytes r < fr_payload_bytes r + len p"
    using ok(2) by (simp_all add: within_limits_def reader_took_def)
  ultimately show ?thesis
    by (subst reader_loop.simps) (simp add: fr Let_def record_header_fields read_exact_good reader_took_def)
qed

lemma reader_loop_complete:
  assumes "list_all (packet_ok r) qs" and "reader_did ps r" and "fr_max_packet_bytes r \<le> 65535"
    and "len (ps @ qs) \<le> fr_max_packets r" and "len (concat (ps @ qs)) \<le> fr_max_payload_bytes r"
  shows "\<exists>s. gen_items (reader_loop cf \<lparr>rf_rest = concat (map frame_record qs), rf_reads = None\<rparr> r) = qs \<and>
    gen_end (reader_loop cf \<lparr>rf_rest = concat (map frame_record qs), rf_reads = None\<rparr> r) = (Inr (), s) \<and>
    fr_state s = Framed_COMPLETE \<and> reader_did (ps @ qs) s"
  using assms
proof (induction qs arbitrary: ps r)
  case Nil
  then show ?case
    by (simp add: reader_loop.simps [of cf "\<lparr>rf_rest = [], rf_reads = None\<rparr>"] file_read_def reader_finally_def)
next
  case (Cons q qs)
  have w: "within_limits (reader_took q r)"
    using Cons.prems by (simp add: within_limits_def reader_took_def reader_did_def)
  note step = reader_loop_packet [OF _ w Cons.prems(3), of cf "concat (map frame_record qs)"]
  have "list_all (packet_ok (reader_took q r)) qs" using Cons.prems(1) by (simp add: packet_ok_def [abs_def])
  from Cons.IH [OF this reader_did_took [OF Cons.prems(2) _ w]] Cons.prems step show ?case
    by (simp add: packet_ok_def)
qed

section \<open>Properties\<close>

lemma framed_reader_initE:
  assumes "framed_reader_init mp mb mk = Inr r"
  obtains "framed_limits_ok mp mb mk" "fr_state r = Framed_CREATED" "fr_packets r = 0" "fr_payload_bytes r = 0"
    "fr_file_bytes r = 0" "fr_max_packets r = mp" "fr_max_payload_bytes r = mb" "fr_max_packet_bytes r = mk"
  using assms by (auto simp: framed_reader_init_def split: if_splits)

text \<open>After the magic the loop starts, on the rest of the file.\<close>

lemma iter_packets_spec:
  assumes "framed_reader_init mp mb mk = Inr r"
  shows "gen_spec (reader_at_yield content) (reader_at_close content) (reader_at_end content) []
    (iter_packets (Some (content, reads)) cf r)"
  using assms
proof (rule framed_reader_initE)
  assume *: "framed_limits_ok mp mb mk" "fr_state r = Framed_CREATED" "fr_packets r = 0" "fr_payload_bytes r = 0"
    "fr_file_bytes r = 0" "fr_max_packets r = mp" "fr_max_payload_bytes r = mb" "fr_max_packet_bytes r = mk"
  show ?thesis
  proof (cases "file_read 8 \<lparr>rf_rest = content, rf_reads = reads\<rparr>")
    case (Inl u)
    with * show ?thesis
      by (simp add: iter_packets_def reader_fail_def reader_finally_def reader_at_end_def starts_with_def
        framed_reader_snapshot_def)
  next
    case (Inr x)
    then obtain h rf1 where fr: "file_read 8 \<lparr>rf_rest = content, rf_reads = reads\<rparr> = Inr (h, rf1)" by (cases x) auto
    show ?thesis
    proof (cases "h = framed_magic")
      case False
      with * fr show ?thesis
        by (simp add: iter_packets_def reader_fail_def reader_finally_def reader_at_end_def starts_with_def Let_def
          framed_reader_snapshot_def)
    next
      case True
      with fr have rest: "content = framed_file [] @ rf_rest rf1"
        by (metis append_Nil2 append_take_drop_id concat.simps(1) file_read_Inr framed_file_def list.map(1)
          read_file.select_convs(1))
      have "reader_did [] (r\<lparr>fr_state := Framed_OPEN, fr_file_bytes := 8\<rparr>)"
        using * by (simp add: framed_file_def reader_did_def within_limits_def framed_limits_ok_def)
      from reader_loop_spec [OF _ this rest, of cf] True fr * show ?thesis
        by (simp add: iter_packets_def)
    qed
  qed
qed

lemma framed_reader_snapshot_did:
  "reader_did ps s \<Longrightarrow> framed_reader_snapshot s = Inr \<lparr>fws_state = fr_state s, fws_packets = len ps,
     fws_payload_bytes = len (concat ps), fws_file_bytes = len (framed_file ps)\<rparr>"
  by (simp add: reader_did_def framed_reader_snapshot_def)

text \<open>What a file that starts with the magic and holds the frames of \<open>ps\<close> gives.\<close>

lemma iter_packets_framed_file:
  assumes r: "framed_reader_init mp mb mk = Inr r"
    and ps: "list_all (\<lambda>p. is_rtp_v2 p \<and> len p \<le> mk) ps" "len ps \<le> mp" "len (concat ps) \<le> mb"
  shows "\<exists>s. gen_items (iter_packets (Some (framed_file ps, None)) cf r) = ps \<and>
    gen_end (iter_packets (Some (framed_file ps, None)) cf r) = (Inr (), s) \<and>
    framed_reader_snapshot s = Inr \<lparr>fws_state = Framed_COMPLETE, fws_packets = len ps,
      fws_payload_bytes = len (concat ps), fws_file_bytes = len (framed_file ps)\<rparr>"
  using r
proof (rule framed_reader_initE)
  assume *: "framed_limits_ok mp mb mk" "fr_state r = Framed_CREATED" "fr_packets r = 0" "fr_payload_bytes r = 0"
    "fr_file_bytes r = 0" "fr_max_packets r = mp" "fr_max_payload_bytes r = mb" "fr_max_packet_bytes r = mk"
  let ?r = "r\<lparr>fr_state := Framed_OPEN, fr_file_bytes := 8\<rparr>"
  have "iter_packets (Some (framed_file ps, None)) cf r =
      reader_loop cf \<lparr>rf_rest = concat (map frame_record ps), rf_reads = None\<rparr> ?r"
    using * by (simp add: iter_packets_def file_read_def framed_file_def Let_def)
  moreover have "list_all (packet_ok ?r) ps" using ps(1) * by (simp add: packet_ok_def [abs_def])
  moreover have "reader_did [] ?r"
    using * by (simp add: reader_did_def framed_file_def within_limits_def framed_limits_ok_def)
  moreover have "fr_max_packet_bytes ?r \<le> 65535" using * framed_limits_packet by auto
  ultimately show ?thesis
    using reader_loop_complete [of ?r ps "[]" cf] ps * by (auto simp: framed_reader_snapshot_did)
qed

text \<open>
  C25: a reader of any bytes, with any read that fails and wherever its caller stops, never
  yields a packet that is not well formed or longer than its limit, never reads the file other
  than as the frames of the packets it yielded, and reports \<open>COMPLETE\<close> only if the caller exhausted it and
  the file is, to the last byte, what the sink writes for these packets.
\<close>

theorem framed_reader_trusts_no_bytes:
  assumes "framed_reader_init mp mb mk = Inr r"
    and "gen_take_close n r (iter_packets (Some (content, reads)) cf r) = (xs, outcome, s)"
  shows "list_all (\<lambda>p. is_rtp_v2 p \<and> len p \<le> fr_max_packet_bytes s) xs \<and> starts_with content xs \<and>
    (outcome = Some (Inr ()) \<longleftrightarrow> fr_state s = Framed_COMPLETE) \<and>
    (fr_state s = Framed_COMPLETE \<longrightarrow> content = framed_file xs \<and>
       framed_reader_snapshot s = Inr \<lparr>fws_state = Framed_COMPLETE, fws_packets = len xs,
         fws_payload_bytes = len (concat xs), fws_file_bytes = len content\<rparr>)"
proof -
  from assms(1) have r: "fr_state r \<noteq> Framed_COMPLETE" by (auto elim: framed_reader_initE)
  have ok: "list_all (\<lambda>p. is_rtp_v2 p \<and> len p \<le> fr_max_packet_bytes s) xs" if "reader_did xs s"
    using that by (simp add: reader_did_def packet_ok_def [abs_def])
  from gen_spec_take_close [OF iter_packets_spec [OF assms(1)] assms(2)] show ?thesis
  proof (elim disjE exE conjE)
    assume "xs = []" "s = r" "outcome = None"
    with r show ?thesis by (simp add: starts_with_def)
  next
    assume "outcome = None" "reader_at_close content ([] @ xs) s"
    with ok show ?thesis by (auto simp: reader_at_close_def)
  next
    fix res
    assume "outcome = Some res" "reader_at_end content ([] @ xs) res s"
    with ok show ?thesis by (cases res) (auto simp: reader_at_end_def framed_reader_snapshot_did)
  qed
qed

definition sample_packet :: "byte list" where
  "sample_packet = [128, 96, 0, 1, 0, 0, 0, 9, 0, 0, 0, 7]"

definition sample_reader :: framed_reader where
  "sample_reader = \<lparr>fr_max_packets = 4, fr_max_payload_bytes = 100, fr_max_packet_bytes = 50,
     fr_state = Framed_CREATED, fr_packets = 0, fr_payload_bytes = 0, fr_file_bytes = 0\<rparr>"

lemma sample_reader_init: "framed_reader_init 4 100 50 = Inr sample_reader"
  by code_simp

lemma sample_packet_ok: "is_rtp_v2 sample_packet" "length sample_packet = 12"
  by code_simp+

theorem framed_reader_trusts_no_bytes_witness:
  "fr_state (snd (snd (gen_take_close 2 sample_reader
     (iter_packets (Some (framed_magic @ [0], None)) False sample_reader)))) \<noteq> Framed_COMPLETE"
proof -
  obtain xs outcome s where run: "gen_take_close 2 sample_reader
      (iter_packets (Some (framed_magic @ [0], None)) False sample_reader) = (xs, outcome, s)"
    by (metis prod.collapse)
  have "framed_magic @ [0] \<noteq> framed_file xs"
  proof
    assume "framed_magic @ [0] = framed_file xs"
    then have "len (framed_magic @ [0]) = len (framed_file xs)" by simp
    then show False by (cases xs) (simp_all add: length_framed_file)
  qed
  with framed_reader_trusts_no_bytes [OF sample_reader_init run] run show ?thesis by simp
qed

end
