(* ===== verification/Recorder.thy ===== *)
theory Recorder
  imports Framed_Reader
begin

text \<open>
  \<open>BoundedRtpRecorder\<close> of \<open>src/src/k5vision/media/recording.py\<close>, over any sink with the operations of
  \<open>Recording_Sink\<close>. Each method holds the recorder's lock from its first to its last step, so a
  run is a sequence of whole calls. Every call of a sink operation goes through
  \<open>asyncio.wait_for\<close>, which delivers a cancellation into it when the time is up, and turns the
  \<open>CancelledError\<close> that comes back into \<open>TimeoutError\<close> when the time-out was what caused it.
\<close>

section \<open>State\<close>

datatype recording_state =
    Recording_CREATED | Recording_RECORDING | Recording_FINALIZED | Recording_ABORTED | Recording_FAILED

datatype recording_error_code =
    Recording_INVALID_STATE
  | Recording_INVALID_PACKET
  | Recording_LIMIT_EXCEEDED
  | Recording_SINK_FAILURE
  | Recording_TIMEOUT

datatype recording_exn =
    RecordingError recording_error_code
  | Recording_CancelledError
  | Recording_ValueError
  | Recording_ValidationError

record recording_snapshot =
  rcs_state :: recording_state
  rcs_packets_written :: int
  rcs_bytes_written :: int

record recorder =
  rc_max_packets :: int
  rc_max_bytes :: int
  rc_timeout :: rat
  rc_state :: recording_state
  rc_packets_written :: int
  rc_bytes_written :: int

definition recorder_init :: "int \<Rightarrow> int \<Rightarrow> rat \<Rightarrow> recording_exn + recorder" where
  "recorder_init max_packets max_bytes operation_timeout_seconds =
     (if \<not> (1 \<le> max_packets \<and> max_packets \<le> 1000000) then Inl Recording_ValueError
      else if \<not> (1 \<le> max_bytes \<and> max_bytes \<le> 8589934592) then Inl Recording_ValueError
      else if \<not> (0 < operation_timeout_seconds \<and> operation_timeout_seconds \<le> 30) then Inl Recording_ValueError
      else Inr \<lparr>rc_max_packets = max_packets, rc_max_bytes = max_bytes, rc_timeout = operation_timeout_seconds,
                rc_state = Recording_CREATED, rc_packets_written = 0, rc_bytes_written = 0\<rparr>)"

definition recorder_snapshot :: "recorder \<Rightarrow> recording_exn + recording_snapshot" where
  "recorder_snapshot rc =
     (if 0 \<le> rc_packets_written rc \<and> 0 \<le> rc_bytes_written rc
      then Inr \<lparr>rcs_state = rc_state rc, rcs_packets_written = rc_packets_written rc,
                rcs_bytes_written = rc_bytes_written rc\<rparr>
      else Inl Recording_ValidationError)"

section \<open>Methods\<close>

text \<open>What happens to a call while it is suspended.\<close>

datatype interrupt = Undisturbed | Times_Out | Is_Cancelled

type_synonym 'w recorder_world = "recorder \<times> 'w"

definition call_sink :: "('w, 'e) recording_sink_ops \<Rightarrow> (bool \<Rightarrow> 'w \<Rightarrow> ('e + unit) \<times> 'w) \<Rightarrow> interrupt \<Rightarrow> 'w \<Rightarrow>
    (recording_exn + unit) \<times> 'w" where
  "call_sink ops operation i w =
     (case operation (i \<noteq> Undisturbed) w of
        (Inr u, w') \<Rightarrow> (Inr u, w')
      | (Inl e, w') \<Rightarrow>
          (Inl (if rs_is_cancelled ops e
                then (if i = Times_Out then RecordingError Recording_TIMEOUT else Recording_CancelledError)
                else RecordingError Recording_SINK_FAILURE), w'))"

definition abort_sink_best_effort :: "('w, 'e) recording_sink_ops \<Rightarrow> interrupt \<Rightarrow> 'w \<Rightarrow> 'w" where
  "abort_sink_best_effort ops i w = snd (rs_abort ops (i \<noteq> Undisturbed) w)"

text \<open>The two \<open>except\<close> branches every method ends with.\<close>

definition recorder_give_up ::
  "('w, 'e) recording_sink_ops \<Rightarrow> interrupt \<Rightarrow> recording_exn \<Rightarrow> recorder \<Rightarrow> 'w \<Rightarrow>
    (recording_exn + recording_snapshot) \<times> 'w recorder_world" where
  "recorder_give_up ops i e rc w =
     (Inl e, rc\<lparr>rc_state := (if e = Recording_CancelledError then Recording_ABORTED else Recording_FAILED)\<rparr>,
      abort_sink_best_effort ops i w)"

type_synonym 'w recorder_op = "'w recorder_world \<Rightarrow> (recording_exn + recording_snapshot) \<times> 'w recorder_world"

fun recorder_start :: "('w, 'e) recording_sink_ops \<Rightarrow> interrupt \<Rightarrow> interrupt \<Rightarrow> 'w recorder_op" where
  "recorder_start ops i j (rc, w) =
     (if rc_state rc = Recording_RECORDING then (recorder_snapshot rc, rc, w)
      else if rc_state rc \<noteq> Recording_CREATED then (Inl (RecordingError Recording_INVALID_STATE), rc, w)
      else case call_sink ops (rs_open ops) i w of
        (Inl e, w1) \<Rightarrow> recorder_give_up ops j e rc w1
      | (Inr _, w1) \<Rightarrow>
          (let rc1 = rc\<lparr>rc_state := Recording_RECORDING\<rparr> in (recorder_snapshot rc1, rc1, w1)))"

fun recorder_consume ::
  "('w, 'e) recording_sink_ops \<Rightarrow> byte list \<Rightarrow> interrupt \<Rightarrow> interrupt \<Rightarrow> 'w recorder_op" where
  "recorder_consume ops packet i j (rc, w) =
     (if rc_state rc \<noteq> Recording_RECORDING then (Inl (RecordingError Recording_INVALID_STATE), rc, w)
      else if \<not> is_rtp_v2 packet then (Inl (RecordingError Recording_INVALID_PACKET), rc, w)
      else if rc_max_packets rc < rc_packets_written rc + 1 \<or>
              rc_max_bytes rc < rc_bytes_written rc + len packet
      then (Inl (RecordingError Recording_LIMIT_EXCEEDED), rc\<lparr>rc_state := Recording_ABORTED\<rparr>,
            abort_sink_best_effort ops j w)
      else case call_sink ops (rs_write ops packet) i w of
        (Inl e, w1) \<Rightarrow> recorder_give_up ops j e rc w1
      | (Inr _, w1) \<Rightarrow>
          (let rc1 = rc\<lparr>rc_packets_written := rc_packets_written rc + 1,
                        rc_bytes_written := rc_bytes_written rc + len packet\<rparr>
           in (recorder_snapshot rc1, rc1, w1)))"

fun recorder_finalize :: "('w, 'e) recording_sink_ops \<Rightarrow> interrupt \<Rightarrow> interrupt \<Rightarrow> 'w recorder_op" where
  "recorder_finalize ops i j (rc, w) =
     (if rc_state rc = Recording_FINALIZED then (recorder_snapshot rc, rc, w)
      else if rc_state rc \<noteq> Recording_RECORDING then (Inl (RecordingError Recording_INVALID_STATE), rc, w)
      else case call_sink ops (rs_finalize ops) i w of
        (Inl e, w1) \<Rightarrow> recorder_give_up ops j e rc w1
      | (Inr _, w1) \<Rightarrow>
          (let rc1 = rc\<lparr>rc_state := Recording_FINALIZED\<rparr> in (recorder_snapshot rc1, rc1, w1)))"

fun recorder_abort :: "('w, 'e) recording_sink_ops \<Rightarrow> interrupt \<Rightarrow> 'w recorder_op" where
  "recorder_abort ops j (rc, w) =
     (if rc_state rc = Recording_ABORTED then (recorder_snapshot rc, rc, w)
      else if rc_state rc = Recording_FINALIZED then (Inl (RecordingError Recording_INVALID_STATE), rc, w)
      else
        (let w1 = abort_sink_best_effort ops j w;
             rc1 = rc\<lparr>rc_state := Recording_ABORTED\<rparr>
         in (recorder_snapshot rc1, rc1, w1)))"

text \<open>The calls of a recorder's owner, each with what disturbs the operation and the abort after it.\<close>

datatype recorder_event =
    RecStart interrupt interrupt
  | RecConsume "byte list" interrupt interrupt
  | RecFinalize interrupt interrupt
  | RecAbort interrupt

fun recorder_step :: "('w, 'e) recording_sink_ops \<Rightarrow> recorder_event \<Rightarrow> 'w recorder_op" where
  "recorder_step ops (RecStart i j) = recorder_start ops i j"
| "recorder_step ops (RecConsume p i j) = recorder_consume ops p i j"
| "recorder_step ops (RecFinalize i j) = recorder_finalize ops i j"
| "recorder_step ops (RecAbort j) = recorder_abort ops j"

fun consumed :: "recorder_event \<Rightarrow> recording_exn + recording_snapshot \<Rightarrow> byte list list" where
  "consumed (RecConsume p i j) (Inr _) = [p]"
| "consumed _ _ = []"

fun recorder_run :: "('w, 'e) recording_sink_ops \<Rightarrow> recorder_event list \<Rightarrow>
    byte list list \<times> 'w recorder_world \<Rightarrow> byte list list \<times> 'w recorder_world" where
  "recorder_run ops [] w = w"
| "recorder_run ops (e # es) (ps, w) =
     (case recorder_step ops e w of (r, w') \<Rightarrow> recorder_run ops es (ps @ consumed e r, w'))"

section \<open>Invariant\<close>

text \<open>The recorder's own part: its counters are those of the packets it took, within its limits.\<close>

definition recorder_inv :: "byte list list \<Rightarrow> recorder \<Rightarrow> bool" where
  "recorder_inv ps rc \<longleftrightarrow>
     rc_packets_written rc = len ps \<and> rc_bytes_written rc = len (concat ps) \<and>
     len ps \<le> rc_max_packets rc \<and> len (concat ps) \<le> rc_max_bytes rc \<and> list_all is_rtp_v2 ps"

lemma recorder_inv_state [simp]: "recorder_inv ps (rc\<lparr>rc_state := x\<rparr>) = recorder_inv ps rc"
  by (simp add: recorder_inv_def)

lemma recorder_inv_snapshot:
  "recorder_inv ps rc \<Longrightarrow> recorder_snapshot rc =
     Inr \<lparr>rcs_state = rc_state rc, rcs_packets_written = len ps, rcs_bytes_written = len (concat ps)\<rparr>"
  by (simp add: recorder_inv_def recorder_snapshot_def)

lemma recorder_inv_took:
  "recorder_inv ps rc \<Longrightarrow> is_rtp_v2 p \<Longrightarrow> rc_packets_written rc + 1 \<le> rc_max_packets rc \<Longrightarrow>
   rc_bytes_written rc + len p \<le> rc_max_bytes rc \<Longrightarrow>
   recorder_inv (ps @ [p]) (rc\<lparr>rc_packets_written := rc_packets_written rc + 1,
                               rc_bytes_written := rc_bytes_written rc + len p\<rparr>)"
  by (simp add: recorder_inv_def)

context recording_sink begin

lemma call_open_keeps: "holds ps w \<Longrightarrow> call_sink ops (rs_open ops) i w = (r, w') \<Longrightarrow> holds ps w'"
  by (auto simp: call_sink_def split: sum.splits prod.splits intro: open_keeps)

lemma call_write_keeps:
  "holds ps w \<Longrightarrow> call_sink ops (rs_write ops p) i w = (r, w') \<Longrightarrow>
   holds (case r of Inr _ \<Rightarrow> ps @ [p] | Inl _ \<Rightarrow> ps) w'"
  by (auto simp: call_sink_def split: sum.splits prod.splits dest: write_takes write_fails)

lemma call_finalize_keeps:
  "holds ps w \<Longrightarrow> call_sink ops (rs_finalize ops) i w = (r, w') \<Longrightarrow> holds ps w' \<and> (r = Inr () \<longrightarrow> published ps w')"
  by (auto simp: call_sink_def split: sum.splits prod.splits dest: finalize_keeps finalize_publishes)

lemma best_effort_keeps: "holds ps w \<Longrightarrow> holds ps (abort_sink_best_effort ops j w)"
  using abort_keeps [OF _ surjective_pairing] by (simp add: abort_sink_best_effort_def)

text \<open>Both invariants together; \<open>published\<close> once the recorder is finalized.\<close>

definition recording :: "byte list list \<Rightarrow> recorder \<times> 'w \<Rightarrow> bool" where
  "recording ps rw \<longleftrightarrow>
     recorder_inv ps (fst rw) \<and> holds ps (snd rw) \<and>
     (rc_state (fst rw) = Recording_FINALIZED \<longrightarrow> published ps (snd rw))"

lemma recorder_step_recording:
  assumes "recording ps (rc, w)" and "recorder_step ops e (rc, w) = (r, rc', w')"
  shows "recording (ps @ consumed e r) (rc', w') \<and>
    rc_max_packets rc' = rc_max_packets rc \<and> rc_max_bytes rc' = rc_max_bytes rc"
proof (cases e)
  case (RecStart i j)
  obtain o1 w1 where call: "call_sink ops (rs_open ops) i w = (o1, w1)" by fastforce
  with assms RecStart call_open_keeps [OF _ call] show ?thesis
    by (auto simp: recording_def recorder_give_up_def Let_def best_effort_keeps split: if_splits sum.splits)
next
  case (RecConsume p i j)
  obtain o1 w1 where call: "call_sink ops (rs_write ops p) i w = (o1, w1)" by fastforce
  let ?rc = "rc\<lparr>rc_packets_written := rc_packets_written rc + 1, rc_bytes_written := rc_bytes_written rc + len p\<rparr>"
  show ?thesis
  proof (cases "rc_state rc = Recording_RECORDING \<and> is_rtp_v2 p \<and> rc_packets_written rc + 1 \<le> rc_max_packets rc \<and>
      rc_bytes_written rc + len p \<le> rc_max_bytes rc \<and> o1 = Inr ()")
    case True
    with assms(1) have inv: "recorder_inv (ps @ [p]) ?rc" by (intro recorder_inv_took) (simp_all add: recording_def)
    have out: "r = recorder_snapshot ?rc" "rc' = ?rc" "w' = w1"
      using assms(2) RecConsume call True by (auto simp: Let_def split: if_splits)
    then have "consumed e r = [p]" by (simp add: RecConsume recorder_inv_snapshot [OF inv])
    with inv out True call_write_keeps [OF _ call, of ps] assms(1) show ?thesis by (simp add: recording_def)
  next
    case False
    with assms RecConsume call call_write_keeps [OF _ call, of ps] show ?thesis
      by (auto simp: recording_def recorder_give_up_def Let_def best_effort_keeps split: if_splits sum.splits)
  qed
next
  case (RecFinalize i j)
  obtain o1 w1 where call: "call_sink ops (rs_finalize ops) i w = (o1, w1)" by fastforce
  with assms RecFinalize call_finalize_keeps [OF _ call] show ?thesis
    by (auto simp: recording_def recorder_give_up_def Let_def best_effort_keeps split: if_splits sum.splits)
next
  case (RecAbort j)
  with assms show ?thesis
    by (auto simp: recording_def Let_def best_effort_keeps split: if_splits)
qed

lemma recorder_run_recording:
  "recording ps (rc, w) \<Longrightarrow> recorder_run ops es (ps, rc, w) = (ps', rc', w') \<Longrightarrow>
   recording ps' (rc', w') \<and> rc_max_packets rc' = rc_max_packets rc \<and> rc_max_bytes rc' = rc_max_bytes rc"
proof (induction es arbitrary: ps rc w)
  case (Cons e es)
  obtain r rc1 w1 where st: "recorder_step ops e (rc, w) = (r, rc1, w1)" by (metis prod.collapse)
  from Cons.prems(2) st have "recorder_run ops es (ps @ consumed e r, rc1, w1) = (ps', rc', w')" by simp
  with Cons.IH recorder_step_recording [OF Cons.prems(1) st] show ?case by metis
qed simp

end

section \<open>Correctness\<close>

lemma recorder_initE:
  assumes "recorder_init mp mb t = Inr rc"
  obtains "recorder_inv [] rc" "rc_state rc = Recording_CREATED" "rc_max_packets rc = mp" "rc_max_bytes rc = mb"
  using assms by (auto simp: recorder_init_def recorder_inv_def split: if_splits)

lemma call_sink_raises:
  "call_sink ops f i w = (Inl y, w1) \<Longrightarrow>
   y \<in> {Recording_CancelledError, RecordingError Recording_TIMEOUT, RecordingError Recording_SINK_FAILURE}"
  by (auto simp: call_sink_def split: sum.splits prod.splits if_splits)

text \<open>What a call that raises leaves behind.\<close>

definition gave_up :: "('w, 'e) recording_sink_ops \<Rightarrow> recording_exn \<Rightarrow> recorder \<Rightarrow> recorder \<Rightarrow> 'w \<Rightarrow> bool" where
  "gave_up ops x rc rc' w' \<longleftrightarrow>
     (\<exists>st w1 j. rc' = rc\<lparr>rc_state := st\<rparr> \<and> w' = snd (rs_abort ops j w1) \<and>
        st = (if x \<in> {RecordingError Recording_TIMEOUT, RecordingError Recording_SINK_FAILURE}
              then Recording_FAILED else Recording_ABORTED))"

lemma recorder_give_up_gave_up:
  "recorder_give_up ops j y rc w1 = (Inl x, rc', w') \<Longrightarrow> call_sink ops f i w = (Inl y, w1) \<Longrightarrow> gave_up ops x rc rc' w'"
  by (drule call_sink_raises) (auto simp: recorder_give_up_def gave_up_def abort_sink_best_effort_def)

lemma recorder_step_raises:
  assumes "0 \<le> rc_packets_written rc" and "0 \<le> rc_bytes_written rc"
    and "recorder_step ops e (rc, w) = (Inl x, rc', w')"
  shows "(rc' = rc \<and> w' = w) \<or> gave_up ops x rc rc' w'"
proof -
  have snap: "recorder_snapshot (rc\<lparr>rc_state := y\<rparr>) \<noteq> Inl x" "recorder_snapshot rc \<noteq> Inl x"
    "recorder_snapshot (rc\<lparr>rc_packets_written := rc_packets_written rc + 1,
       rc_bytes_written := rc_bytes_written rc + int n\<rparr>) \<noteq> Inl x" for y n
    using assms(1,2) by (simp_all add: recorder_snapshot_def)
  have limit: "gave_up ops (RecordingError Recording_LIMIT_EXCEEDED) rc (rc\<lparr>rc_state := Recording_ABORTED\<rparr>)
      (abort_sink_best_effort ops j w)" for j
    by (auto simp: gave_up_def abort_sink_best_effort_def)
  show ?thesis
  proof (cases e)
    case (RecStart i j)
    obtain o1 w1 where call: "call_sink ops (rs_open ops) i w = (o1, w1)" by fastforce
    with RecStart assms(3) snap show ?thesis
      by (auto simp: Let_def recorder_give_up_gave_up split: if_splits sum.splits)
  next
    case (RecConsume p i j)
    obtain o1 w1 where call: "call_sink ops (rs_write ops p) i w = (o1, w1)" by fastforce
    with RecConsume assms(3) snap limit show ?thesis
      by (auto simp: Let_def recorder_give_up_gave_up split: if_splits sum.splits)
  next
    case (RecFinalize i j)
    obtain o1 w1 where call: "call_sink ops (rs_finalize ops) i w = (o1, w1)" by fastforce
    with RecFinalize assms(3) snap show ?thesis
      by (auto simp: Let_def recorder_give_up_gave_up split: if_splits sum.splits)
  next
    case (RecAbort j)
    with assms(3) snap show ?thesis by (auto simp: Let_def split: if_splits)
  qed
qed

lemma recorder_closed:
  "rc_state rc \<in> {Recording_ABORTED, Recording_FAILED} \<Longrightarrow> (\<And>j. e \<noteq> RecAbort j) \<Longrightarrow>
   recorder_step ops e (rc, w) = (Inl (RecordingError Recording_INVALID_STATE), rc, w)"
  by (cases e) auto

text \<open>
  A call of the recorder that raises has either changed nothing, or left the recorder failed
  (when the sink failed or timed out) or aborted (cancellation, limits), with its counters as they
  were and the abort of its sink as the last thing done to the sink. From then on no call but an
  abort reaches the sink: it raises \<open>INVALID_STATE\<close> and changes nothing.
\<close>

lemma recorder_fails_closed:
  assumes "0 \<le> rc_packets_written rc" and "0 \<le> rc_bytes_written rc"
    and "recorder_step ops e (rc, w) = (Inl x, rc', w')"
  shows "(rc' = rc \<and> w' = w) \<or>
    (gave_up ops x rc rc' w' \<and>
     (\<forall>e2 v. (\<forall>j. e2 \<noteq> RecAbort j) \<longrightarrow>
        recorder_step ops e2 (rc', v) = (Inl (RecordingError Recording_INVALID_STATE), rc', v)))"
proof -
  have "recorder_step ops e2 (rc', v) = (Inl (RecordingError Recording_INVALID_STATE), rc', v)"
    if "gave_up ops x rc rc' w'" "\<forall>j. e2 \<noteq> RecAbort j" for e2 v
    using that by (intro recorder_closed) (auto simp: gave_up_def split: if_splits)
  with recorder_step_raises [OF assms] show ?thesis by (elim disjE) simp_all
qed

text \<open>A sink whose writes fail.\<close>

definition sample_sink_ops :: "(nat, bool) recording_sink_ops" where
  "sample_sink_ops = \<lparr>rs_open = (\<lambda>c w. (Inr (), w + 1)), rs_write = (\<lambda>p c w. (Inl c, w + 1)),
     rs_finalize = (\<lambda>c w. (Inr (), w + 1)), rs_abort = (\<lambda>c w. (Inr (), 0)), rs_is_cancelled = (\<lambda>e. e)\<rparr>"

definition sample_recorder :: recorder where
  "sample_recorder = \<lparr>rc_max_packets = 4, rc_max_bytes = 100, rc_timeout = 2, rc_state = Recording_CREATED,
     rc_packets_written = 0, rc_bytes_written = 0\<rparr>"

lemma sample_recorder_init: "recorder_init 4 100 2 = Inr sample_recorder"
  by (simp add: recorder_init_def sample_recorder_def)

lemma recorder_fails_closed_witness:
  "let w = (sample_recorder\<lparr>rc_state := Recording_RECORDING\<rparr>, 5) in
   \<exists>rc'. recorder_step sample_sink_ops (RecConsume sample_packet Times_Out Undisturbed) w =
     (Inl (RecordingError Recording_TIMEOUT), rc', 0) \<and>
     recorder_step sample_sink_ops (RecFinalize Undisturbed Undisturbed) (rc', 0) =
     (Inl (RecordingError Recording_INVALID_STATE), rc', 0)"
proof -
  let ?r = "sample_recorder\<lparr>rc_state := Recording_RECORDING\<rparr>" and ?r' = "sample_recorder\<lparr>rc_state := Recording_FAILED\<rparr>"
  have st: "recorder_step sample_sink_ops (RecConsume sample_packet Times_Out Undisturbed) (?r, 5) =
      (Inl (RecordingError Recording_TIMEOUT), ?r', 0)"
    by (simp add: sample_packet_ok sample_recorder_def sample_sink_ops_def call_sink_def recorder_give_up_def
      abort_sink_best_effort_def)
  have "0 \<le> rc_packets_written ?r" "0 \<le> rc_bytes_written ?r" "?r' \<noteq> ?r" by (simp_all add: sample_recorder_def)
  with recorder_fails_closed [OF _ _ st]
  have "recorder_step sample_sink_ops (RecFinalize Undisturbed Undisturbed) (?r', 0) =
      (Inl (RecordingError Recording_INVALID_STATE), ?r', 0)" by blast
  with st show ?thesis unfolding Let_def by blast
qed

lemma file_sink_initE:
  assumes "file_sink_init token recording_id mb = Inr s" and "fs_wf f"
  obtains "file_sink_since f s [] (f, s)" "owned s = {}" "sk_final_path s = recording_id @ ''.rtp''"
  using assms file_sink_init_inv [OF assms] file_sink_post_refl [of "[]" f s]
  by (auto simp: file_sink_init_def owned_def file_sink_inv_def split: if_splits)

text \<open>
  C24: a recorder on a file sink, through any calls, failing system calls, time-outs and
  cancellations, counts exactly the packets whose \<open>consume\<close> returned, stays within its limits and
  touches no file that was there before; and once it is finalized the recording's name holds
  exactly these packets.
\<close>

theorem recorder_publishes_what_it_consumed:
  assumes "recorder_init max_packets max_bytes t = Inr rc"
    and "file_sink_init token recording_id mb = Inr s" and "fs_wf f"
    and "recorder_run file_sink_ops es ([], rc, f, s) = (ps, rc', f', s')"
  shows "recorder_snapshot rc' = Inr \<lparr>rcs_state = rc_state rc', rcs_packets_written = len ps,
      rcs_bytes_written = len (concat ps)\<rparr> \<and>
    len ps \<le> max_packets \<and> len (concat ps) \<le> max_bytes \<and> list_all is_rtp_v2 ps \<and>
    (\<forall>n i. fs_dir f n = Some i \<longrightarrow> fs_dir f' n = Some i \<and> fs_data f' i = fs_data f i) \<and>
    (rc_state rc' = Recording_FINALIZED \<longrightarrow>
       (\<exists>i. fs_dir f' (recording_id @ ''.rtp'') = Some i \<and> fs_data f' i = concat ps))"
proof -
  from assms(2,3) obtain sink: "file_sink_since f s [] (f, s)" "owned s = {}" "sk_final_path s = recording_id @ ''.rtp''"
    by (rule file_sink_initE)
  from assms(1) obtain rec: "recorder_inv [] rc" "rc_state rc = Recording_CREATED" "rc_max_packets rc = max_packets"
    "rc_max_bytes rc = max_bytes" by (rule recorder_initE)
  have start: "file_recording.recording f s [] (rc, f, s)"
    using sink rec by (simp add: file_recording.recording_def)
  from file_recording.recorder_run_recording [OF start assms(4)] rec
  have "file_recording.recording f s ps (rc', f', s')" "rc_max_packets rc' = max_packets" "rc_max_bytes rc' = max_bytes"
    by simp_all
  then have fin: "recorder_inv ps rc'" "sink_step {sk_final_path s} f s f' s'" "sink_inv f s"
      "rc_state rc' = Recording_FINALIZED \<longrightarrow> file_sink_published ps (f', s')"
      "len ps \<le> max_packets" "len (concat ps) \<le> max_bytes" "list_all is_rtp_v2 ps"
    by (auto simp: file_recording.recording_def file_sink_post_def recorder_inv_def)
  then have "sk_final_path s' = sk_final_path s" by (simp add: sink_step_def)
  moreover have "fs_dir f' n = Some i \<and> fs_data f' i = fs_data f i" if "fs_dir f n = Some i" for n i
    using sink_step_isolated [OF fin(2,3) _ that] sink(2) by simp
  ultimately show ?thesis using fin sink(3) recorder_inv_snapshot [OF fin(1)] by auto
qed

definition wide_file_sink :: file_sink where
  "wide_file_sink = sample_file_sink\<lparr>ls_max_bytes := 100\<rparr>"

lemma wide_file_sink_init: "file_sink_init ''7f'' ''cam'' 100 = Inr wide_file_sink"
  by code_simp

theorem recorder_publishes_what_it_consumed_witness:
  "\<exists>rc' f' s' i. recorder_run file_sink_ops [RecStart Undisturbed Undisturbed,
       RecConsume sample_packet Undisturbed Undisturbed, RecFinalize Undisturbed Undisturbed]
       ([], sample_recorder, empty_fs, wide_file_sink) = ([sample_packet], rc', f', s') \<and>
     fs_dir f' ''cam.rtp'' = Some i \<and> fs_data f' i = sample_packet"
proof -
  let ?run = "recorder_run file_sink_ops [RecStart Undisturbed Undisturbed,
       RecConsume sample_packet Undisturbed Undisturbed, RecFinalize Undisturbed Undisturbed]
       ([], sample_recorder, empty_fs, wide_file_sink)"
  have "fst ?run = [sample_packet] \<and> rc_state (fst (snd ?run)) = Recording_FINALIZED" by code_simp
  then obtain rc' f' s' where run: "?run = ([sample_packet], rc', f', s')" and st: "rc_state rc' = Recording_FINALIZED"
    by (metis prod.collapse)
  from recorder_publishes_what_it_consumed [OF sample_recorder_init wide_file_sink_init empty_fs_wf(2) run] st
  show ?thesis unfolding run by auto
qed

text \<open>
  C1: from the camera to the player. When a recorder on a framed sink is finalized, a reader of
  the published file (with limits that cover it, on a disk that reads) yields exactly the packets
  the recorder consumed, in order, and ends \<open>COMPLETE\<close> with the recorder's counts.
\<close>

theorem framed_recording_reads_back:
  assumes "recorder_init max_packets max_bytes t = Inr rc"
    and "framed_sink_init token recording_id mp mb mk = Inr s" and "fs_wf f"
    and "recorder_run framed_sink_ops es ([], rc, f, s) = (ps, rc', f', s')"
    and "rc_state rc' = Recording_FINALIZED"
    and "framed_reader_init rp rb rk = Inr r" and "mp \<le> rp" and "mb \<le> rb" and "mk \<le> rk"
  shows "\<exists>i r'. fs_dir f' (recording_id @ ''.k5r'') = Some i \<and>
    gen_items (iter_packets (Some (fs_data f' i, None)) close_fails r) = ps \<and>
    gen_end (iter_packets (Some (fs_data f' i, None)) close_fails r) = (Inr (), r') \<and>
    recorder_snapshot rc' = Inr \<lparr>rcs_state = Recording_FINALIZED, rcs_packets_written = len ps,
      rcs_bytes_written = len (concat ps)\<rparr> \<and>
    framed_reader_snapshot r' = Inr \<lparr>fws_state = Framed_COMPLETE, fws_packets = len ps,
      fws_payload_bytes = len (concat ps), fws_file_bytes = len (fs_data f' i)\<rparr>"
proof -
  note inv = framed_sink_init_inv [OF assms(2,3)]
  from assms(2) have s: "sk_final_path s = recording_id @ ''.k5r''" "fw_max_packets s = mp"
      "fw_max_payload_bytes s = mb" "fw_max_packet_bytes s = mk"
    by (auto simp: framed_sink_init_def split: if_splits)
  from assms(1) obtain rec: "recorder_inv [] rc" "rc_state rc = Recording_CREATED" by (rule recorder_initE)
  have start: "framed_recording.recording f s [] (rc, f, s)"
    using inv rec framed_sink_post_refl [OF inv]
    by (simp add: framed_recording.recording_def framed_sink_inv_def)
  from framed_recording.recorder_run_recording [OF start assms(4)]
  have "framed_recording.recording f s ps (rc', f', s')" by simp
  then have fin: "recorder_inv ps rc'" "framed_sink_post [] f s ps f' s'" "framed_sink_published ps (f', s')"
    using assms(5) by (simp_all add: framed_recording.recording_def)
  then have post: "sk_final_path s' = sk_final_path s" "framed_sink_inv ps f' s'"
      "fw_max_packets s' = mp" "fw_max_payload_bytes s' = mb" "fw_max_packet_bytes s' = mk"
    using s by (simp_all add: framed_sink_post_def sink_step_def)
  from fin(3) post(1) s(1) obtain i where i: "fs_dir f' (recording_id @ ''.k5r'') = Some i" "fs_data f' i = framed_file ps"
    by auto
  have "list_all (\<lambda>p. is_rtp_v2 p \<and> len p \<le> rk) ps" "len ps \<le> rp" "len (concat ps) \<le> rb"
    using post(2-5) assms(7-9) by (auto simp: framed_sink_inv_def list_all_iff)
  from iter_packets_framed_file [OF assms(6) this, of close_fails] i recorder_inv_snapshot [OF fin(1)] assms(5)
  show ?thesis by auto
qed

definition sample_framed_sink :: framed_sink where
  "sample_framed_sink = \<lparr>at_lock_path = ''.cam.k5r.part'', at_staging_path = ''.cam.7f.k5r.stage'', at_token = ''7f'',
     at_owns_lock = False, at_owns_staging = False, sk_final_path = ''cam.k5r'', sk_file = None,
     fw_max_packets = 4, fw_max_payload_bytes = 100, fw_max_packet_bytes = 50,
     fw_state = Framed_CREATED, fw_packets = 0, fw_payload_bytes = 0, fw_file_bytes = 0\<rparr>"

lemma sample_framed_sink_init: "framed_sink_init ''7f'' ''cam'' 4 100 50 = Inr sample_framed_sink"
  by code_simp

theorem framed_recording_reads_back_witness:
  "\<exists>rc' f' s' i. recorder_run framed_sink_ops [RecStart Undisturbed Undisturbed,
       RecConsume sample_packet Undisturbed Undisturbed, RecFinalize Undisturbed Undisturbed]
       ([], sample_recorder, empty_fs, sample_framed_sink) = ([sample_packet], rc', f', s') \<and>
     fs_dir f' ''cam.k5r'' = Some i \<and>
     gen_items (iter_packets (Some (fs_data f' i, None)) False sample_reader) = [sample_packet]"
proof -
  let ?run = "recorder_run framed_sink_ops [RecStart Undisturbed Undisturbed,
       RecConsume sample_packet Undisturbed Undisturbed, RecFinalize Undisturbed Undisturbed]
       ([], sample_recorder, empty_fs, sample_framed_sink)"
  have "fst ?run = [sample_packet] \<and> rc_state (fst (snd ?run)) = Recording_FINALIZED" by code_simp
  then obtain rc' f' s' where run: "?run = ([sample_packet], rc', f', s')" and st: "rc_state rc' = Recording_FINALIZED"
    by (metis prod.collapse)
  from framed_recording_reads_back [OF sample_recorder_init sample_framed_sink_init empty_fs_wf(2) run st
      sample_reader_init order_refl order_refl order_refl, of False]
  show ?thesis unfolding run by auto
qed

end
