(* ===== verification/One_Shot.thy ===== *)
theory One_Shot
  imports K5_Prelude
begin

text \<open>
  What the layers of the playback path (\<open>src/src/k5vision/media/playback*.py\<close>) have in common: each
  is an object whose \<open>iter_packets\<close> is a generator that can be started once. \<open>one_shot\<close> is that
  contract; every layer of the path meets it.
\<close>

text \<open>The exceptions of the standard library and of pydantic that no layer catches.\<close>

datatype python_exn =
    Py_ValidationError
  | Py_ValueError
  | Py_TypeError
  | Py_IndexError
  | Py_CancelledError

text \<open>The states an object is in when its generator is closed at one of its yields.\<close>

fun gen_closes :: "('a, 's, 'e) gen \<Rightarrow> 's set" where
  "gen_closes (GReturn s) = {}"
| "gen_closes (GRaise e s) = {}"
| "gen_closes (GYield x s c g) = insert c (gen_closes g)"

lemma gen_finals_eq: "gen_finals g = insert (snd (gen_end g)) (gen_closes g)"
  by (induction g) auto

lemma gen_take_close_ends:
  assumes "gen_take_close n s0 g = (xs, oc, s)"
  shows "(oc = None \<and> (n = 0 \<and> s = s0 \<or> s \<in> gen_closes g)) \<or>
    (\<exists>r. oc = Some r \<and> xs = gen_items g \<and> gen_end g = (r, s))"
  using assms
proof (induction g arbitrary: n s0 xs)
  case (GYield x s1 c g)
  then show ?case by (cases n) (fastforce split: prod.splits)+
qed (case_tac n; simp)+

lemma gen_take_close_all:
  "length (gen_items g) < n \<Longrightarrow> gen_take_close n s0 g = (gen_items g, Some (fst (gen_end g)), snd (gen_end g))"
proof (induction g arbitrary: n s0)
  case (GYield x s1 c g)
  then show ?case by (cases n) (simp_all add: case_prod_beta)
qed (case_tac n; simp)+

text \<open>
  \<open>iter s\<close> is the generator of an object in state \<open>s\<close>, \<open>fresh\<close> its initial state and \<open>refuse\<close> what it
  raises in any other; \<open>valid\<close> is what its constructor ensures and \<open>finished\<close> the state of success.
\<close>

locale one_shot =
  fixes iter :: "'s \<Rightarrow> ('a, 's, 'e) gen"
    and valid :: "'s \<Rightarrow> bool"
    and fresh :: "'s \<Rightarrow> bool"
    and finished :: "'s \<Rightarrow> bool"
    and refuse :: 'e
  assumes refuses: "\<not> fresh s \<Longrightarrow> iter s = GRaise refuse s"
    and uses_up: "valid s \<Longrightarrow> fresh s \<Longrightarrow> s' \<in> gen_finals (iter s) \<Longrightarrow> \<not> fresh s'"
    and close_unfinished: "valid s \<Longrightarrow> fresh s \<Longrightarrow> s' \<in> gen_closes (iter s) \<Longrightarrow> \<not> finished s'"
    and finishes: "valid s \<Longrightarrow> fresh s \<Longrightarrow> fst (gen_end (iter s)) = Inr () \<longleftrightarrow> finished (snd (gen_end (iter s)))"
begin

text \<open>A second start yields nothing, raises and changes nothing, however far the first one went.\<close>

lemma second_start:
  assumes "valid s" and "fresh s" and "gen_take_close (Suc n) s0 (iter s) = (xs, oc, s')"
  shows "gen_take_close (Suc m) s1 (iter s') = ([], Some (Inl refuse), s')"
proof -
  have "s' \<in> gen_finals (iter s)"
    using gen_take_close_state [of "Suc n" s0 "iter s"] assms(3) by simp
  with uses_up [OF assms(1,2)] refuses [of s'] show ?thesis by simp
qed

text \<open>An object is finished exactly when its generator was exhausted and returned.\<close>

lemma finished_iff:
  assumes "valid s" and "fresh s" and "\<not> finished s0" and "gen_take_close n s0 (iter s) = (xs, oc, s')"
  shows "finished s' \<longleftrightarrow> oc = Some (Inr ())"
  using gen_take_close_ends [OF assms(4)] assms(1,2,3) close_unfinished finishes
  by (metis fst_conv option.distinct(1) option.inject snd_conv)

end

end
