(* ===== verification/Playback.thy ===== *)
theory Playback
  imports Framed_Reader Recording_Descriptor One_Shot
begin

text \<open>
  \<open>src/src/k5vision/media/playback.py\<close>: \<open>BoundedRecordingPlayback\<close> reads a framed recording through
  its descriptor, once. The generator is a transformer of the reader's generator: it reads the
  counters of the reader wherever the code does, and closes the reader's generator when it stops
  before the end.
\<close>

section \<open>State\<close>

datatype playback_state =
  Playback_CREATED | Playback_READING | Playback_COMPLETE | Playback_ABORTED | Playback_FAILED

datatype playback_error_code =
    Playback_INVALID_STATE
  | Playback_RECORDING_FAILURE
  | Playback_DESCRIPTOR_MISMATCH
  | Playback_RTP_MISMATCH

datatype playback_exn =
    PlaybackError playback_error_code "framed_error_code option"
  | Playback_Raw python_exn

record playback_snapshot =
  pbs_state :: playback_state
  pbs_packets :: int
  pbs_payload_bytes :: int
  pbs_file_bytes :: int
  pbs_descriptor_verified :: bool

record playback =
  pb_descriptor :: recording_descriptor
  pb_max_packets :: int
  pb_max_payload_bytes :: int
  pb_max_packet_bytes :: int
  pb_state :: playback_state
  pb_packets :: int
  pb_payload_bytes :: int
  pb_file_bytes :: int
  pb_descriptor_verified :: bool

definition playback_init :: "recording_descriptor \<Rightarrow> int \<Rightarrow> int \<Rightarrow> int \<Rightarrow> playback_exn + playback" where
  "playback_init d mp mb mk =
     (if \<not> (1 \<le> mp \<and> mp \<le> 1000000) \<or> \<not> (1 \<le> mb \<and> mb \<le> 8589934592) \<or> \<not> (12 \<le> mk \<and> mk \<le> 65535) \<or>
         mp < rd_packet_count d \<or> mb < rd_payload_bytes d
      then Inl (Playback_Raw Py_ValueError)
      else Inr \<lparr>pb_descriptor = d, pb_max_packets = mp, pb_max_payload_bytes = mb, pb_max_packet_bytes = mk,
                pb_state = Playback_CREATED, pb_packets = 0, pb_payload_bytes = 0, pb_file_bytes = 0,
                pb_descriptor_verified = False\<rparr>)"

definition playback_snapshot :: "playback \<Rightarrow> validation_error + playback_snapshot" where
  "playback_snapshot pb =
     (if 0 \<le> pb_packets pb \<and> pb_packets pb \<le> 1000000 \<and>
         0 \<le> pb_payload_bytes pb \<and> pb_payload_bytes pb \<le> 8589934592 \<and> 0 \<le> pb_file_bytes pb
      then Inr \<lparr>pbs_state = pb_state pb, pbs_packets = pb_packets pb, pbs_payload_bytes = pb_payload_bytes pb,
                pbs_file_bytes = pb_file_bytes pb, pbs_descriptor_verified = pb_descriptor_verified pb\<rparr>
      else Inl ValidationError)"

section \<open>Checks\<close>

definition validate_packet :: "playback \<Rightarrow> byte list \<Rightarrow> playback_exn + unit" where
  "validate_packet pb packet =
     (if length packet < 2 then Inl (Playback_Raw Py_IndexError)
      else if rtp_payload_type packet \<noteq> rd_payload_type (pb_descriptor pb)
      then Inl (PlaybackError Playback_RTP_MISMATCH None)
      else if pb_packets pb = 0 \<and> rtp_timestamp packet \<noteq> rd_rtp_timestamp_origin (pb_descriptor pb)
      then Inl (PlaybackError Playback_RTP_MISMATCH None)
      else Inr ())"

definition validate_progress :: "playback \<Rightarrow> playback_exn + unit" where
  "validate_progress pb =
     (if rd_packet_count (pb_descriptor pb) < pb_packets pb \<or> rd_payload_bytes (pb_descriptor pb) < pb_payload_bytes pb
      then Inl (PlaybackError Playback_DESCRIPTOR_MISMATCH None) else Inr ())"

definition validate_complete :: "playback \<Rightarrow> playback_exn + unit" where
  "validate_complete pb =
     (if pb_packets pb \<noteq> rd_packet_count (pb_descriptor pb) \<or>
         pb_payload_bytes pb \<noteq> rd_payload_bytes (pb_descriptor pb) \<or>
         pb_file_bytes pb \<noteq> rd_file_bytes (pb_descriptor pb)
      then Inl (PlaybackError Playback_DESCRIPTOR_MISMATCH None) else Inr ())"

section \<open>The generator\<close>

text \<open>\<open>self._file_bytes = reader.snapshot.file_bytes\<close>.\<close>

definition note_file_bytes :: "framed_reader \<Rightarrow> playback \<Rightarrow> playback_exn + playback" where
  "note_file_bytes r pb =
     (case framed_reader_snapshot r of
        Inl _ \<Rightarrow> Inl (Playback_Raw Py_ValidationError)
      | Inr sn \<Rightarrow> Inr (pb\<lparr>pb_file_bytes := fws_file_bytes sn\<rparr>))"

text \<open>The \<open>finally\<close> block when the loop did not complete; \<open>r\<close> is the reader after its generator was closed.\<close>

definition playback_finally :: "framed_reader \<Rightarrow> playback \<Rightarrow> playback_exn option \<times> playback" where
  "playback_finally r pb =
     (case note_file_bytes r pb of
        Inl e \<Rightarrow> (Some e, pb)
      | Inr pb1 \<Rightarrow>
          (None, if pb_state pb1 = Playback_READING then pb1\<lparr>pb_state := Playback_ABORTED\<rparr> else pb1))"

type_synonym playback_gen = "(byte list, playback, playback_exn) gen"

definition playback_raise :: "playback_exn \<Rightarrow> framed_reader \<Rightarrow> playback \<Rightarrow> playback_gen" where
  "playback_raise e r pb =
     (let pb1 = (case e of PlaybackError _ _ \<Rightarrow> pb\<lparr>pb_state := Playback_FAILED\<rparr> | Playback_Raw _ \<Rightarrow> pb)
      in case playback_finally r pb1 of
           (Some e', pb2) \<Rightarrow> GRaise e' pb2
         | (None, pb2) \<Rightarrow> GRaise e pb2)"

fun playback_loop :: "playback \<Rightarrow> reader_gen \<Rightarrow> playback_gen" where
  "playback_loop pb (GReturn r) =
     (case note_file_bytes r pb of
        Inl e \<Rightarrow> playback_raise e r pb
      | Inr pb1 \<Rightarrow>
          (case validate_complete pb1 of
             Inl e \<Rightarrow> playback_raise e r pb1
           | Inr _ \<Rightarrow> GReturn (pb1\<lparr>pb_descriptor_verified := True, pb_state := Playback_COMPLETE\<rparr>)))"
| "playback_loop pb (GRaise (FramedRecordingError code) r) =
     playback_raise (PlaybackError Playback_RECORDING_FAILURE (Some code)) r pb"
| "playback_loop pb (GRaise Framed_CancelledError r) = playback_raise (Playback_Raw Py_CancelledError) r pb"
| "playback_loop pb (GRaise Framed_ValueError r) = playback_raise (Playback_Raw Py_ValueError) r pb"
| "playback_loop pb (GYield packet r c g) =
     (case validate_packet pb packet of
        Inl e \<Rightarrow> playback_raise e c pb
      | Inr _ \<Rightarrow>
          (let pb1 = pb\<lparr>pb_packets := pb_packets pb + 1, pb_payload_bytes := pb_payload_bytes pb + len packet\<rparr>
           in case note_file_bytes r pb1 of
                Inl e \<Rightarrow> playback_raise e c pb1
              | Inr pb2 \<Rightarrow>
                  (case validate_progress pb2 of
                     Inl e \<Rightarrow> playback_raise e c pb2
                   | Inr _ \<Rightarrow> GYield packet pb2 (snd (playback_finally c pb2)) (playback_loop pb2 g))))"

definition playback_iter :: "(byte list \<times> nat option) option \<Rightarrow> bool \<Rightarrow> playback \<Rightarrow> playback_gen" where
  "playback_iter content close_fails pb =
     (if pb_state pb \<noteq> Playback_CREATED then GRaise (PlaybackError Playback_INVALID_STATE None) pb
      else case framed_reader_init (pb_max_packets pb) (pb_max_payload_bytes pb) (pb_max_packet_bytes pb) of
        Inl _ \<Rightarrow> GRaise (Playback_Raw Py_ValueError) pb
      | Inr r \<Rightarrow> playback_loop (pb\<lparr>pb_state := Playback_READING\<rparr>) (iter_packets content close_fails r))"

section \<open>Invariant\<close>

definition playback_wf :: "playback \<Rightarrow> bool" where
  "playback_wf pb \<longleftrightarrow>
     framed_limits_ok (pb_max_packets pb) (pb_max_payload_bytes pb) (pb_max_packet_bytes pb) \<and>
     rd_packet_count (pb_descriptor pb) \<le> pb_max_packets pb \<and> rd_payload_bytes (pb_descriptor pb) \<le> pb_max_payload_bytes pb"

lemma playback_wf_upd [simp]:
  "playback_wf (pb\<lparr>pb_state := x\<rparr>) = playback_wf pb"
  "playback_wf (pb\<lparr>pb_packets := n\<rparr>) = playback_wf pb"
  "playback_wf (pb\<lparr>pb_payload_bytes := n\<rparr>) = playback_wf pb"
  "playback_wf (pb\<lparr>pb_file_bytes := n\<rparr>) = playback_wf pb"
  "playback_wf (pb\<lparr>pb_descriptor_verified := b\<rparr>) = playback_wf pb"
  by (simp_all add: playback_wf_def)

lemma playback_initE:
  assumes "playback_init d mp mb mk = Inr pb"
  obtains "playback_wf pb" "pb_state pb = Playback_CREATED" "pb_descriptor pb = d" "pb_packets pb = 0"
    "pb_payload_bytes pb = 0" "\<not> pb_descriptor_verified pb" "pb_max_packets pb = mp" "pb_max_payload_bytes pb = mb"
    "pb_max_packet_bytes pb = mk"
  using assms by (auto simp: playback_init_def playback_wf_def framed_limits_ok_def split: if_splits)

text \<open>The packets agree with the descriptor as far as a player can tell.\<close>

definition agrees :: "recording_descriptor \<Rightarrow> byte list list \<Rightarrow> bool" where
  "agrees d xs \<longleftrightarrow>
     list_all (\<lambda>p. is_rtp_v2 p \<and> rtp_payload_type p = rd_payload_type d) xs \<and>
     (xs \<noteq> [] \<longrightarrow> rtp_timestamp (hd xs) = rd_rtp_timestamp_origin d) \<and>
     len xs \<le> rd_packet_count d \<and> len (concat xs) \<le> rd_payload_bytes d"

definition playback_did :: "recording_descriptor \<Rightarrow> byte list list \<Rightarrow> playback \<Rightarrow> bool" where
  "playback_did d xs pb \<longleftrightarrow>
     playback_wf pb \<and> pb_descriptor pb = d \<and> pb_packets pb = len xs \<and> pb_payload_bytes pb = len (concat xs) \<and> agrees d xs"

definition playback_at_yield :: "recording_descriptor \<Rightarrow> byte list \<Rightarrow> byte list list \<Rightarrow> playback \<Rightarrow> bool" where
  "playback_at_yield d content xs pb \<longleftrightarrow>
     starts_with content xs \<and> playback_did d xs pb \<and> pb_state pb = Playback_READING \<and> \<not> pb_descriptor_verified pb \<and>
     pb_file_bytes pb = len (framed_file xs)"

definition playback_at_close :: "recording_descriptor \<Rightarrow> byte list \<Rightarrow> byte list list \<Rightarrow> playback \<Rightarrow> bool" where
  "playback_at_close d content xs pb \<longleftrightarrow>
     starts_with content xs \<and> playback_did d xs pb \<and> pb_state pb = Playback_ABORTED \<and> \<not> pb_descriptor_verified pb"

definition playback_at_end :: "recording_descriptor \<Rightarrow> byte list \<Rightarrow> byte list list \<Rightarrow> playback_exn + unit \<Rightarrow> playback \<Rightarrow> bool" where
  "playback_at_end d content xs res pb \<longleftrightarrow>
     starts_with content xs \<and> agrees d xs \<and>
     (case res of
        Inr _ \<Rightarrow> content = framed_file xs \<and> playback_did d xs pb \<and> pb_state pb = Playback_COMPLETE \<and>
          pb_descriptor_verified pb \<and> len xs = rd_packet_count d \<and> len (concat xs) = rd_payload_bytes d \<and>
          len content = rd_file_bytes d \<and> pb_file_bytes pb = len content
      | Inl e \<Rightarrow> (\<exists>code inner. e = PlaybackError code inner) \<and> pb_state pb = Playback_FAILED \<and> \<not> pb_descriptor_verified pb)"

lemma playback_did_upd [simp]:
  "playback_did d xs (pb\<lparr>pb_state := x\<rparr>) = playback_did d xs pb"
  "playback_did d xs (pb\<lparr>pb_file_bytes := n\<rparr>) = playback_did d xs pb"
  "playback_did d xs (pb\<lparr>pb_descriptor_verified := b\<rparr>) = playback_did d xs pb"
  by (simp_all add: playback_did_def)

lemma note_file_bytes_did:
  "reader_did xs r \<Longrightarrow> note_file_bytes r pb = Inr (pb\<lparr>pb_file_bytes := len (framed_file xs)\<rparr>)"
  by (simp add: note_file_bytes_def framed_reader_snapshot_did)

lemma agrees_snoc:
  "agrees d (xs @ [p]) \<longleftrightarrow> agrees d xs \<and> is_rtp_v2 p \<and> rtp_payload_type p = rd_payload_type d \<and>
     (xs = [] \<longrightarrow> rtp_timestamp p = rd_rtp_timestamp_origin d) \<and>
     len xs + 1 \<le> rd_packet_count d \<and> len (concat xs) + len p \<le> rd_payload_bytes d"
  by (cases xs) (auto simp: agrees_def)

text \<open>Leaving with an error of the boundary, whatever the reader's counters are.\<close>

lemma playback_raise_spec:
  assumes "starts_with content xs" and "agrees d xs" and "\<not> pb_descriptor_verified pb"
    and "framed_reader_snapshot r = Inr sn"
  shows "gen_spec Y C (playback_at_end d content) xs (playback_raise (PlaybackError code inner) r pb)"
  using assms by (simp add: playback_raise_def playback_finally_def note_file_bytes_def playback_at_end_def)

lemma playback_loop_spec:
  assumes "gen_spec (reader_at_yield content) (reader_at_close content) (reader_at_end content) ps g"
    and "playback_did d ps pb" and "pb_state pb = Playback_READING" and "\<not> pb_descriptor_verified pb"
    and "starts_with content ps"
  shows "gen_spec (playback_at_yield d content) (playback_at_close d content) (playback_at_end d content) ps (playback_loop pb g)"
  using assms
proof (induction g arbitrary: ps pb)
  case (GReturn r)
  then have r: "reader_did ps r" "content = framed_file ps" by (simp_all add: reader_at_end_def)
  have ag: "agrees d ps" "pb_descriptor pb = d" "pb_packets pb = len ps" "pb_payload_bytes pb = len (concat ps)"
    using GReturn.prems(2) by (simp_all add: playback_did_def)
  note raise = playback_raise_spec [OF GReturn.prems(5) ag(1) _ framed_reader_snapshot_did [OF r(1)]]
  show ?case
  proof (cases "validate_complete (pb\<lparr>pb_file_bytes := len (framed_file ps)\<rparr>)")
    case (Inl e)
    then have "e = PlaybackError Playback_DESCRIPTOR_MISMATCH None" by (auto simp: validate_complete_def split: if_splits)
    with Inl GReturn.prems(4) show ?thesis by (simp add: note_file_bytes_did [OF r(1)] raise)
  next
    case (Inr u)
    then have "len ps = rd_packet_count d" "len (concat ps) = rd_payload_bytes d" "len (framed_file ps) = rd_file_bytes d"
      using ag by (auto simp: validate_complete_def split: if_splits)
    with Inr GReturn.prems r(2) ag show ?thesis by (simp add: note_file_bytes_did [OF r(1)] playback_at_end_def)
  qed
next
  case (GRaise e r)
  then obtain code sn where "e = FramedRecordingError code" "framed_reader_snapshot r = Inr sn" by (auto simp: reader_at_end_def)
  moreover have "agrees d ps" using GRaise.prems(2) by (simp add: playback_did_def)
  ultimately show ?case using GRaise.prems by (simp add: playback_raise_spec)
next
  case (GYield p r c g)
  then have y: "reader_at_yield content (ps @ [p]) r" "reader_at_close content (ps @ [p]) c"
    and g: "gen_spec (reader_at_yield content) (reader_at_close content) (reader_at_end content) (ps @ [p]) g" by simp_all
  then have did: "reader_did (ps @ [p]) r" "reader_did (ps @ [p]) c" and st: "starts_with content (ps @ [p])"
    by (simp_all add: reader_at_yield_def reader_at_close_def)
  then have p: "is_rtp_v2 p" by (simp add: reader_did_def packet_ok_def)
  then have len_p: "\<not> length p < 2" using is_rtp_v2_length [of p] by simp
  have pb: "agrees d ps" "pb_descriptor pb = d" "pb_packets pb = len ps" "pb_payload_bytes pb = len (concat ps)"
    using GYield.prems(2) by (simp_all add: playback_did_def)
  note raise = playback_raise_spec [OF GYield.prems(5) pb(1) _ framed_reader_snapshot_did [OF did(2)]]
  let ?pb = "pb\<lparr>pb_packets := pb_packets pb + 1, pb_payload_bytes := pb_payload_bytes pb + len p\<rparr>"
  let ?pb2 = "?pb\<lparr>pb_file_bytes := len (framed_file (ps @ [p]))\<rparr>"
  show ?case
  proof (cases "validate_packet pb p")
    case (Inl e)
    then have "e = PlaybackError Playback_RTP_MISMATCH None" using len_p by (auto simp: validate_packet_def split: if_splits)
    with Inl GYield.prems(4) show ?thesis by (simp add: raise)
  next
    case (Inr u)
    then have v: "rtp_payload_type p = rd_payload_type d" "ps = [] \<longrightarrow> rtp_timestamp p = rd_rtp_timestamp_origin d"
      using pb len_p by (auto simp: validate_packet_def split: if_splits)
    show ?thesis
    proof (cases "validate_progress ?pb2")
      case (Inl e)
      then have "e = PlaybackError Playback_DESCRIPTOR_MISMATCH None" by (auto simp: validate_progress_def split: if_splits)
      with Inl Inr GYield.prems(4) show ?thesis by (simp add: note_file_bytes_did [OF did(1)] raise Let_def)
    next
      case (Inr u2)
      then have "agrees d (ps @ [p])"
        using pb p v by (auto simp: validate_progress_def agrees_snoc split: if_splits)
      then have did2: "playback_did d (ps @ [p]) ?pb2"
        using GYield.prems(2) pb by (simp add: playback_did_def)
      from GYield.IH [OF g did2] GYield.prems(3,4) st
      have "gen_spec (playback_at_yield d content) (playback_at_close d content) (playback_at_end d content) (ps @ [p]) (playback_loop ?pb2 g)"
        by simp
      moreover have "playback_at_yield d content (ps @ [p]) ?pb2" "playback_at_close d content (ps @ [p]) (snd (playback_finally c ?pb2))"
        using did2 st GYield.prems(3,4)
        by (simp_all add: playback_at_yield_def playback_at_close_def playback_finally_def note_file_bytes_did [OF did(2)])
      ultimately show ?thesis
        using Inr \<open>validate_packet pb p = Inr u\<close> by (simp add: note_file_bytes_did [OF did(1)] Let_def)
    qed
  qed
qed

text \<open>What the path names, when it can be opened at all.\<close>

fun opened_bytes :: "(byte list \<times> nat option) option \<Rightarrow> byte list" where
  "opened_bytes None = []"
| "opened_bytes (Some (content, reads)) = content"

lemma iter_packets_opened_spec:
  assumes "framed_reader_init mp mb mk = Inr r"
  shows "gen_spec (reader_at_yield (opened_bytes opened)) (reader_at_close (opened_bytes opened))
    (reader_at_end (opened_bytes opened)) [] (iter_packets opened cf r)"
proof (cases opened rule: opened_bytes.cases)
  case 1
  with assms show ?thesis
    by (auto elim!: framed_reader_initE simp: iter_packets_def reader_at_end_def starts_with_def framed_reader_snapshot_def)
qed (simp add: iter_packets_spec [OF assms])

text \<open>A playback that was constructed from a valid descriptor and not started.\<close>

definition playback_new :: "playback \<Rightarrow> bool" where
  "playback_new pb \<longleftrightarrow>
     playback_wf pb \<and> 0 \<le> rd_packet_count (pb_descriptor pb) \<and> 0 \<le> rd_payload_bytes (pb_descriptor pb) \<and>
     (pb_state pb = Playback_CREATED \<longrightarrow>
        pb_packets pb = 0 \<and> pb_payload_bytes pb = 0 \<and> \<not> pb_descriptor_verified pb)"

lemma playback_reader:
  assumes "playback_wf pb"
  obtains r where "framed_reader_init (pb_max_packets pb) (pb_max_payload_bytes pb) (pb_max_packet_bytes pb) = Inr r"
  using assms by (simp add: playback_wf_def framed_reader_init_def)

lemma playback_iter_spec:
  assumes "playback_new pb" and "pb_state pb = Playback_CREATED"
  shows "gen_spec (playback_at_yield (pb_descriptor pb) (opened_bytes opened))
    (playback_at_close (pb_descriptor pb) (opened_bytes opened))
    (playback_at_end (pb_descriptor pb) (opened_bytes opened)) [] (playback_iter opened cf pb)"
proof -
  from assms(1) obtain r where r: "framed_reader_init (pb_max_packets pb) (pb_max_payload_bytes pb) (pb_max_packet_bytes pb) = Inr r"
    by (auto simp: playback_new_def elim: playback_reader)
  have "playback_did (pb_descriptor pb) [] (pb\<lparr>pb_state := Playback_READING\<rparr>)"
    using assms by (simp add: playback_did_def agrees_def playback_new_def)
  from playback_loop_spec [OF iter_packets_opened_spec [OF r] this] r assms show ?thesis
    by (simp add: playback_iter_def starts_with_def playback_new_def)
qed

lemma gen_spec_closes: "gen_spec Y C E xs g \<Longrightarrow> c \<in> gen_closes g \<Longrightarrow> \<exists>ys. C ys c"
  by (induction g arbitrary: xs) auto

interpretation playback_source: one_shot "playback_iter opened cf" playback_new
  "\<lambda>pb. pb_state pb = Playback_CREATED" "\<lambda>pb. pb_state pb = Playback_COMPLETE"
  "PlaybackError Playback_INVALID_STATE None" for opened cf
proof unfold_locales
  fix pb pb' :: playback
  show "pb_state pb \<noteq> Playback_CREATED \<Longrightarrow> playback_iter opened cf pb = GRaise (PlaybackError Playback_INVALID_STATE None) pb"
    by (simp add: playback_iter_def)
  assume new: "playback_new pb" "pb_state pb = Playback_CREATED"
  note spec = playback_iter_spec [OF new, of opened cf]
  have close: "pb_state pb' = Playback_ABORTED" if "pb' \<in> gen_closes (playback_iter opened cf pb)"
    using gen_spec_closes [OF spec that] by (auto simp: playback_at_close_def)
  then show "pb' \<in> gen_closes (playback_iter opened cf pb) \<Longrightarrow> pb_state pb' \<noteq> Playback_COMPLETE" by simp
  from gen_spec_end [OF spec]
  show fin: "fst (gen_end (playback_iter opened cf pb)) = Inr () \<longleftrightarrow> pb_state (snd (gen_end (playback_iter opened cf pb))) = Playback_COMPLETE"
    by (auto simp: playback_at_end_def split: sum.splits)
  from gen_spec_end [OF spec] close
  show "pb' \<in> gen_finals (playback_iter opened cf pb) \<Longrightarrow> pb_state pb' \<noteq> Playback_CREATED"
    by (auto simp: gen_finals_eq playback_at_end_def split: sum.splits)
qed

section \<open>A recording that matches its descriptor\<close>

lemma playback_loop_complete:
  assumes "gen_spec (reader_at_yield content) (reader_at_close content) (reader_at_end content) ps g"
    and "fst (gen_end g) = Inr ()" and "playback_did d ps pb" and "agrees d (ps @ gen_items g)"
    and "len (ps @ gen_items g) = rd_packet_count d" and "len (concat (ps @ gen_items g)) = rd_payload_bytes d"
    and "len content = rd_file_bytes d"
  shows "gen_items (playback_loop pb g) = gen_items g \<and> fst (gen_end (playback_loop pb g)) = Inr ()"
  using assms
proof (induction g arbitrary: ps pb)
  case (GReturn r)
  then have "reader_did ps r" "content = framed_file ps" by (simp_all add: reader_at_end_def)
  with GReturn.prems show ?case by (simp add: note_file_bytes_did validate_complete_def playback_did_def)
next
  case (GYield p r c g)
  let ?pb = "pb\<lparr>pb_packets := pb_packets pb + 1, pb_payload_bytes := pb_payload_bytes pb + len p,
    pb_file_bytes := len (framed_file (ps @ [p]))\<rparr>"
  from GYield.prems have did: "reader_did (ps @ [p]) r" by (simp add: reader_at_yield_def)
  then have "is_rtp_v2 p" by (simp add: reader_did_def packet_ok_def)
  then have "\<not> length p < 2" using is_rtp_v2_length [of p] by simp
  moreover have ag: "agrees d (ps @ [p])" using GYield.prems(4) by (cases ps) (auto simp: agrees_def)
  moreover have did2: "playback_did d (ps @ [p]) ?pb"
    using GYield.prems(3) ag by (simp add: playback_did_def)
  ultimately have step: "playback_loop pb (GYield p r c g) = GYield p ?pb (snd (playback_finally c ?pb)) (playback_loop ?pb g)"
    using GYield.prems(3) by (auto simp: validate_packet_def validate_progress_def note_file_bytes_did [OF did] agrees_snoc
      playback_did_def Let_def)
  from GYield.IH [OF _ _ did2] GYield.prems show ?case unfolding step by simp
qed simp

lemma playback_plays_items:
  assumes "playback_init d mp mb mk = Inr pb" and "agrees d ps"
    and "len ps = rd_packet_count d" and "len (concat ps) = rd_payload_bytes d" and "len (framed_file ps) = rd_file_bytes d"
    and "list_all (\<lambda>p. len p \<le> mk) ps"
  shows "gen_items (playback_iter (Some (framed_file ps, None)) cf pb) = ps \<and>
    fst (gen_end (playback_iter (Some (framed_file ps, None)) cf pb)) = Inr () \<and>
    playback_at_end d (framed_file ps) ps (Inr ()) (snd (gen_end (playback_iter (Some (framed_file ps, None)) cf pb)))"
  using assms(1)
proof (rule playback_initE)
  assume *: "playback_wf pb" "pb_state pb = Playback_CREATED" "pb_descriptor pb = d" "pb_packets pb = 0"
    "pb_payload_bytes pb = 0" "\<not> pb_descriptor_verified pb" "pb_max_packets pb = mp" "pb_max_payload_bytes pb = mb"
    "pb_max_packet_bytes pb = mk"
  let ?o = "Some (framed_file ps, None)" and ?pb = "pb\<lparr>pb_state := Playback_READING\<rparr>"
  from *(1) obtain r where r: "framed_reader_init (pb_max_packets pb) (pb_max_payload_bytes pb) (pb_max_packet_bytes pb) = Inr r"
    by (rule playback_reader)
  have "list_all (\<lambda>p. is_rtp_v2 p \<and> len p \<le> mk) ps" "len ps \<le> mp" "len (concat ps) \<le> mb"
    using assms(2-4,6) * by (auto simp: agrees_def list_all_iff playback_wf_def)
  with iter_packets_framed_file [OF r, of ps cf] * have g: "gen_items (iter_packets ?o cf r) = ps"
      "fst (gen_end (iter_packets ?o cf r)) = Inr ()" by auto
  have new: "playback_new pb" using * assms(3,4) by (simp add: playback_new_def flip: assms(3,4))
  have did: "playback_did d [] ?pb"
    using * assms(3,4) by (simp add: playback_did_def agrees_def flip: assms(3,4))
  have "gen_items (playback_loop ?pb (iter_packets ?o cf r)) = ps \<and> fst (gen_end (playback_loop ?pb (iter_packets ?o cf r))) = Inr ()"
    using playback_loop_complete [OF iter_packets_spec [OF r] g(2) did] g(1) assms(2-5) by simp
  then have out: "gen_items (playback_iter ?o cf pb) = ps" "fst (gen_end (playback_iter ?o cf pb)) = Inr ()"
    using * r by (simp_all add: playback_iter_def)
  from gen_spec_end [OF playback_iter_spec [OF new *(2), of ?o cf]] out *(3)
  have "playback_at_end d (framed_file ps) ps (Inr ()) (snd (gen_end (playback_iter ?o cf pb)))" by simp
  with out show ?thesis by simp
qed

text \<open>
  A file that frames the packets \<open>ps\<close>, played through a descriptor they match (payload type,
  first timestamp, counts, within the limits), gives exactly \<open>ps\<close> and ends verified.
\<close>

lemma playback_plays_the_recording:
  assumes "playback_init d mp mb mk = Inr pb" and "agrees d ps"
    and "len ps = rd_packet_count d" and "len (concat ps) = rd_payload_bytes d" and "len (framed_file ps) = rd_file_bytes d"
    and "list_all (\<lambda>p. len p \<le> mk) ps"
  shows "\<exists>pb'. gen_items (playback_iter (Some (framed_file ps, None)) cf pb) = ps \<and>
    gen_end (playback_iter (Some (framed_file ps, None)) cf pb) = (Inr (), pb') \<and>
    playback_snapshot pb' = Inr \<lparr>pbs_state = Playback_COMPLETE, pbs_packets = len ps, pbs_payload_bytes = len (concat ps),
      pbs_file_bytes = len (framed_file ps), pbs_descriptor_verified = True\<rparr>"
proof -
  from playback_plays_items [OF assms, of cf]
  show ?thesis
    by (intro exI [of _ "snd (gen_end (playback_iter (Some (framed_file ps, None)) cf pb))"])
      (auto simp: playback_at_end_def playback_did_def playback_snapshot_def prod_eq_iff playback_wf_def framed_limits_ok_def)
qed

text \<open>
  C26: whatever the file holds and wherever the caller stops, a playback yields only packets with
  the descriptor's payload type that are the start of the recording, and it is verified and
  complete exactly if the caller took everything and the file is, byte for byte, the framing of
  these packets with the counts of the descriptor.
\<close>

theorem playback_verified_only_if_it_matches:
  assumes "playback_init d mp mb mk = Inr pb" and "descriptor_fields_ok d"
    and "gen_take_close n pb (playback_iter opened cf pb) = (xs, outcome, pb')"
  shows "starts_with (opened_bytes opened) xs \<and> agrees d xs \<and>
    (pb_descriptor_verified pb' \<longleftrightarrow> outcome = Some (Inr ())) \<and>
    (pb_state pb' = Playback_COMPLETE \<longleftrightarrow> outcome = Some (Inr ())) \<and>
    (outcome = Some (Inr ()) \<longrightarrow> opened_bytes opened = framed_file xs \<and> len xs = rd_packet_count d \<and>
       len (concat xs) = rd_payload_bytes d \<and> len (opened_bytes opened) = rd_file_bytes d)"
  using assms(1)
proof (rule playback_initE)
  assume *: "playback_wf pb" "pb_state pb = Playback_CREATED" "pb_descriptor pb = d" "pb_packets pb = 0"
    "pb_payload_bytes pb = 0" "\<not> pb_descriptor_verified pb" "pb_max_packets pb = mp" "pb_max_payload_bytes pb = mb"
    "pb_max_packet_bytes pb = mk"
  have nn: "0 \<le> rd_packet_count d" "0 \<le> rd_payload_bytes d" using assms(2) by (simp_all add: descriptor_fields_ok_def)
  then have "playback_new pb" using * by (simp add: playback_new_def)
  from gen_spec_take_close [OF playback_iter_spec [OF this *(2)] assms(3)] show ?thesis
  proof (elim disjE exE conjE)
    assume "xs = []" "pb' = pb" "outcome = None"
    with * nn show ?thesis by (simp add: starts_with_def agrees_def)
  next
    assume "outcome = None" "playback_at_close (pb_descriptor pb) (opened_bytes opened) ([] @ xs) pb'"
    with * show ?thesis by (simp add: playback_at_close_def playback_did_def)
  next
    fix res
    assume "outcome = Some res" "playback_at_end (pb_descriptor pb) (opened_bytes opened) ([] @ xs) res pb'"
    with * show ?thesis by (cases res) (auto simp: playback_at_end_def)
  qed
qed

definition sample_recording :: recording_descriptor where
  "sample_recording = (sample_descriptor 1000000 1000)
     \<lparr>rd_payload_type := 96, rd_rtp_timestamp_origin := 9, rd_packet_count := 1, rd_payload_bytes := 12, rd_file_bytes := 28\<rparr>"

definition sample_playback :: playback where
  "sample_playback = \<lparr>pb_descriptor = sample_recording, pb_max_packets = 4, pb_max_payload_bytes = 100,
     pb_max_packet_bytes = 50, pb_state = Playback_CREATED, pb_packets = 0, pb_payload_bytes = 0, pb_file_bytes = 0,
     pb_descriptor_verified = False\<rparr>"

lemma sample_recording_simps:
  "rd_payload_type sample_recording = 96" "rd_rtp_timestamp_origin sample_recording = 9"
  "rd_packet_count sample_recording = 1" "rd_payload_bytes sample_recording = 12" "rd_file_bytes sample_recording = 28"
  "rd_duration_ms sample_recording = 1000"
  by (simp_all add: sample_recording_def sample_descriptor_def)

lemma sample_playback_init: "playback_init sample_recording 4 100 50 = Inr sample_playback"
  by (simp add: playback_init_def sample_playback_def sample_recording_simps)

lemma sample_fields_ok: "descriptor_fields_ok sample_recording"
  by (simp add: sample_recording_def sample_descriptor_def descriptor_fields_ok_def)

lemma sample_agrees: "agrees sample_recording [sample_packet]"
proof -
  have "rtp_payload_type sample_packet = 96" "rtp_timestamp sample_packet = 9" by code_simp+
  then show ?thesis by (simp add: agrees_def sample_recording_simps sample_packet_ok)
qed

lemma playback_plays_the_recording_witness:
  "\<exists>pb'. gen_items (playback_iter (Some (framed_file [sample_packet], None)) False sample_playback) = [sample_packet] \<and>
    gen_end (playback_iter (Some (framed_file [sample_packet], None)) False sample_playback) = (Inr (), pb')"
proof -
  have "len (framed_file [sample_packet]) = 28" by (simp add: length_framed_file sample_packet_ok)
  with playback_plays_the_recording [OF sample_playback_init sample_agrees, of False] show ?thesis
    by (auto simp: sample_recording_simps sample_packet_ok)
qed

theorem playback_verified_only_if_it_matches_witness:
  "\<not> pb_descriptor_verified (snd (snd (gen_take_close 1 sample_playback
     (playback_iter (Some (framed_file [], None)) False sample_playback))))"
proof -
  obtain xs oc pb' where run: "gen_take_close 1 sample_playback
      (playback_iter (Some (framed_file [], None)) False sample_playback) = (xs, oc, pb')"
    by (metis prod.collapse)
  from playback_verified_only_if_it_matches [OF sample_playback_init sample_fields_ok run] run show ?thesis
    by (auto simp: sample_recording_simps framed_file_def)
qed

end
