(* ===== verification/Playback_Timeline.thy ===== *)
theory Playback_Timeline
  imports Playback
begin

text \<open>
  \<open>src/src/k5vision/media/playback_timeline.py\<close>: \<open>BoundedPlaybackTimeline\<close> turns the 32-bit RTP
  timestamps of a playback into milliseconds since the first packet.
\<close>

section \<open>State\<close>

datatype timeline_state =
  Timeline_CREATED | Timeline_READING | Timeline_COMPLETE | Timeline_ABORTED | Timeline_FAILED

datatype timeline_error_code =
  Timeline_INVALID_STATE | Timeline_PLAYBACK_FAILURE | Timeline_TIMESTAMP_REGRESSION

datatype timeline_exn =
    PlaybackTimelineError timeline_error_code "playback_error_code option"
  | Timeline_Raw python_exn

record timed_packet =
  tp_packet :: "byte list"
  tp_ordinal :: int
  tp_rtp_timestamp :: int
  tp_elapsed_ms :: int

record timeline_snapshot =
  tls_state :: timeline_state
  tls_packets :: int
  tls_elapsed_ms :: int
  tls_timestamp_wraps :: int
  tls_descriptor_verified :: bool

record timeline =
  tl_descriptor :: recording_descriptor
  tl_playback :: playback
  tl_state :: timeline_state
  tl_packets :: int
  tl_elapsed_ms :: int
  tl_timestamp_wraps :: int
  tl_descriptor_verified :: bool

definition timeline_init :: "recording_descriptor \<Rightarrow> int \<Rightarrow> timeline_exn + timeline" where
  "timeline_init d mp =
     (if \<not> (1 \<le> mp \<and> mp \<le> 1000000) \<or> mp < rd_packet_count d then Inl (Timeline_Raw Py_ValueError)
      else case playback_init d mp 8589934592 65535 of
        Inl _ \<Rightarrow> Inl (Timeline_Raw Py_ValueError)
      | Inr pb \<Rightarrow> Inr \<lparr>tl_descriptor = d, tl_playback = pb, tl_state = Timeline_CREATED, tl_packets = 0,
                      tl_elapsed_ms = 0, tl_timestamp_wraps = 0, tl_descriptor_verified = False\<rparr>)"

definition timeline_snapshot :: "timeline \<Rightarrow> validation_error + timeline_snapshot" where
  "timeline_snapshot t =
     (if 0 \<le> tl_packets t \<and> tl_packets t \<le> 1000000 \<and> 0 \<le> tl_elapsed_ms t \<and> 0 \<le> tl_timestamp_wraps t
      then Inr \<lparr>tls_state = tl_state t, tls_packets = tl_packets t, tls_elapsed_ms = tl_elapsed_ms t,
                tls_timestamp_wraps = tl_timestamp_wraps t, tls_descriptor_verified = tl_descriptor_verified t\<rparr>
      else Inl ValidationError)"

section \<open>The generator\<close>

definition timeline_finally :: "timeline \<Rightarrow> timeline" where
  "timeline_finally t = (if tl_state t = Timeline_READING then t\<lparr>tl_state := Timeline_ABORTED\<rparr> else t)"

type_synonym timeline_gen = "(timed_packet, timeline, timeline_exn) gen"

text \<open>The locals \<open>previous_timestamp\<close> and \<open>elapsed_ticks\<close> are arguments of the loop.\<close>

fun timeline_loop :: "timeline \<Rightarrow> int option \<Rightarrow> int \<Rightarrow> playback_gen \<Rightarrow> timeline_gen" where
  "timeline_loop t previous ticks (GReturn pb) =
     (let tl1 = t\<lparr>tl_playback := pb\<rparr> in
      case playback_snapshot pb of
        Inl _ \<Rightarrow> GRaise (Timeline_Raw Py_ValidationError) (timeline_finally tl1)
      | Inr sn \<Rightarrow> GReturn (tl1\<lparr>tl_descriptor_verified := pbs_descriptor_verified sn, tl_state := Timeline_COMPLETE\<rparr>))"
| "timeline_loop t previous ticks (GRaise e pb) =
     (let tl1 = t\<lparr>tl_playback := pb\<rparr> in
      case e of
        PlaybackError code _ \<Rightarrow>
          GRaise (PlaybackTimelineError Timeline_PLAYBACK_FAILURE (Some code))
            (timeline_finally (tl1\<lparr>tl_state := Timeline_FAILED\<rparr>))
      | Playback_Raw x \<Rightarrow> GRaise (Timeline_Raw x) (timeline_finally tl1))"
| "timeline_loop t previous ticks (GYield packet pb c g) =
     (let timestamp = rtp_timestamp packet;
          delta = (case previous of None \<Rightarrow> 0 | Some p \<Rightarrow> (timestamp - p) mod 4294967296)
      in if previous \<noteq> None \<and> 2147483648 \<le> delta
         then GRaise (PlaybackTimelineError Timeline_TIMESTAMP_REGRESSION None)
                (timeline_finally (t\<lparr>tl_playback := c, tl_state := Timeline_FAILED\<rparr>))
         else
           (let wraps = (case previous of None \<Rightarrow> 0 | Some p \<Rightarrow> if timestamp < p \<and> 0 < delta then 1 else 0);
                ticks1 = ticks + delta;
                elapsed_ms = ticks1 * 1000 div rd_clock_rate_hz (tl_descriptor t);
                tl1 = t\<lparr>tl_timestamp_wraps := tl_timestamp_wraps t + wraps,
                         tl_packets := tl_packets t + 1, tl_elapsed_ms := elapsed_ms\<rparr>
            in GYield \<lparr>tp_packet = packet, tp_ordinal = tl_packets tl1 - 1, tp_rtp_timestamp = timestamp,
                       tp_elapsed_ms = elapsed_ms\<rparr>
                 (tl1\<lparr>tl_playback := pb\<rparr>) (timeline_finally (tl1\<lparr>tl_playback := c\<rparr>))
                 (timeline_loop (tl1\<lparr>tl_playback := pb\<rparr>) (Some timestamp) ticks1 g)))"

definition timeline_iter :: "(byte list \<times> nat option) option \<Rightarrow> bool \<Rightarrow> timeline \<Rightarrow> timeline_gen" where
  "timeline_iter opened close_fails t =
     (if tl_state t \<noteq> Timeline_CREATED then GRaise (PlaybackTimelineError Timeline_INVALID_STATE None) t
      else timeline_loop (t\<lparr>tl_state := Timeline_READING\<rparr>) None 0 (playback_iter opened close_fails (tl_playback t)))"

section \<open>What the loop computes\<close>

text \<open>The ticks between the first and the last of some timestamps, each step taken modulo \<open>2 ^ 32\<close>.\<close>

fun tick_span :: "int list \<Rightarrow> int" where
  "tick_span (a # b # ts) = (b - a) mod 4294967296 + tick_span (b # ts)"
| "tick_span _ = 0"

lemma tick_span_snoc: "ts \<noteq> [] \<Longrightarrow> tick_span (ts @ [b]) = tick_span ts + (b - last ts) mod 4294967296"
  by (induction ts rule: tick_span.induct) auto

lemma tick_span_nonneg: "0 \<le> tick_span ts"
  by (induction ts rule: tick_span.induct) auto

definition timed :: "recording_descriptor \<Rightarrow> byte list list \<Rightarrow> timed_packet list" where
  "timed d ps = map (\<lambda>i. \<lparr>tp_packet = ps ! i, tp_ordinal = int i, tp_rtp_timestamp = rtp_timestamp (ps ! i),
     tp_elapsed_ms = tick_span (map rtp_timestamp (take (Suc i) ps)) * 1000 div rd_clock_rate_hz d\<rparr>) [0..<length ps]"

definition smooth :: "byte list list \<Rightarrow> bool" where
  "smooth ps \<longleftrightarrow> successively (\<lambda>p q. (rtp_timestamp q - rtp_timestamp p) mod 4294967296 < 2147483648) ps"

lemma timed_Nil [simp]: "timed d [] = []"
  by (simp add: timed_def)

lemma length_timed [simp]: "length (timed d ps) = length ps"
  by (simp add: timed_def)

lemma timed_snoc: "timed d (ps @ [p]) = timed d ps @ [\<lparr>tp_packet = p, tp_ordinal = len ps,
    tp_rtp_timestamp = rtp_timestamp p,
    tp_elapsed_ms = tick_span (map rtp_timestamp (ps @ [p])) * 1000 div rd_clock_rate_hz d\<rparr>]"
  by (simp add: timed_def nth_append)

lemma timed_append: "take (length ps) (timed d (ps @ qs)) = timed d ps"
  by (induction qs rule: rev_induct) (simp_all add: timed_snoc flip: append_assoc)

lemma map_packet_timed [simp]: "map tp_packet (timed d ps) = ps"
  by (simp add: timed_def map_nth comp_def)

lemma smooth_snoc: "smooth (ps @ [p]) \<longleftrightarrow> smooth ps \<and>
    (ps \<noteq> [] \<longrightarrow> (rtp_timestamp p - rtp_timestamp (last ps)) mod 4294967296 < 2147483648)"
  by (auto simp: smooth_def successively_append_iff)

lemma smooth_appendD: "smooth (ps @ qs) \<Longrightarrow> smooth ps"
  by (simp add: smooth_def successively_append_iff)

lemma tick_span_take_mono: "tick_span (take i ts) \<le> tick_span (take (Suc i) ts)"
proof (cases "i < length ts \<and> 0 < i")
  case True
  then have "take (Suc i) ts = take i ts @ [ts ! i]" "take i ts \<noteq> []" by (auto simp: take_Suc_conv_app_nth)
  then show ?thesis by (simp add: tick_span_snoc)
next
  case False
  then show ?thesis by (cases "i = 0") (simp_all add: tick_span_nonneg)
qed

text \<open>Time never runs backwards.\<close>

lemma timed_sorted: "0 < rd_clock_rate_hz d \<Longrightarrow> sorted (map tp_elapsed_ms (timed d ps))"
proof (induction ps rule: rev_induct)
  case (snoc p ps)
  have "tp_elapsed_ms y \<le> tick_span (map rtp_timestamp (ps @ [p])) * 1000 div rd_clock_rate_hz d"
    if "y \<in> set (timed d ps)" for y
  proof -
    from that obtain i where i: "i < length ps"
      "tp_elapsed_ms y = tick_span (map rtp_timestamp (take (Suc i) ps)) * 1000 div rd_clock_rate_hz d"
      by (auto simp: timed_def)
    have "tick_span (take (Suc i) ts) \<le> tick_span (take n ts)" if "Suc i \<le> n" for n ts
      using that by (induction rule: dec_induct) (auto intro: order_trans tick_span_take_mono)
    from this [of "length (ps @ [p])" "map rtp_timestamp (ps @ [p])"] i(1)
    have "tick_span (map rtp_timestamp (take (Suc i) ps)) \<le> tick_span (map rtp_timestamp (ps @ [p]))"
      by (simp add: take_map)
    with i snoc.prems show ?thesis by (simp add: zdiv_mono1)
  qed
  with snoc show ?case by (simp add: timed_snoc sorted_append)
qed simp

text \<open>
  The meaning of the ticks: if the timestamps are the low 32 bits of the times \<open>Ts\<close>, and each is
  less than \<open>2 ^ 32\<close> ticks after the one before, \<open>tick_span\<close> is the time between the ends.
\<close>

lemma tick_span_unwraps:
  "successively (\<lambda>a b. a \<le> b \<and> b < a + 4294967296) Ts \<Longrightarrow> Ts \<noteq> [] \<Longrightarrow>
   tick_span (map (\<lambda>t. t mod 4294967296) Ts) = last Ts - hd Ts"
proof (induction Ts rule: induct_list012)
  case (3 a b Ts)
  have "(b mod 4294967296 - a mod 4294967296) mod 4294967296 = (b - a) mod 4294967296" by (simp add: mod_diff_eq)
  also have "\<dots> = b - a" using "3.prems"(1) by simp
  finally show ?case using 3 by simp
qed simp_all

section \<open>Invariant\<close>

definition timeline_did :: "recording_descriptor \<Rightarrow> byte list list \<Rightarrow> timeline \<Rightarrow> bool" where
  "timeline_did d ps t \<longleftrightarrow>
     tl_descriptor t = d \<and> tl_packets t = len ps \<and> smooth ps \<and> 0 \<le> tl_timestamp_wraps t \<and>
     tl_elapsed_ms t = (if ps = [] then 0 else tp_elapsed_ms (last (timed d ps)))"

definition timeline_at_yield :: "recording_descriptor \<Rightarrow> byte list \<Rightarrow> timed_packet list \<Rightarrow> timeline \<Rightarrow> bool" where
  "timeline_at_yield d content xs t \<longleftrightarrow>
     (\<exists>ps. xs = timed d ps \<and> timeline_did d ps t \<and> playback_at_yield d content ps (tl_playback t) \<and>
        tl_state t = Timeline_READING \<and> \<not> tl_descriptor_verified t)"

definition timeline_at_close :: "recording_descriptor \<Rightarrow> byte list \<Rightarrow> timed_packet list \<Rightarrow> timeline \<Rightarrow> bool" where
  "timeline_at_close d content xs t \<longleftrightarrow>
     (\<exists>ps. xs = timed d ps \<and> timeline_did d ps t \<and> playback_at_close d content ps (tl_playback t) \<and>
        tl_state t = Timeline_ABORTED \<and> \<not> tl_descriptor_verified t)"

definition timeline_at_end ::
  "recording_descriptor \<Rightarrow> byte list \<Rightarrow> timed_packet list \<Rightarrow> timeline_exn + unit \<Rightarrow> timeline \<Rightarrow> bool" where
  "timeline_at_end d content xs res t \<longleftrightarrow>
     (\<exists>ps. xs = timed d ps \<and> timeline_did d ps t \<and> starts_with content ps \<and> agrees d ps \<and>
       (case res of
          Inr _ \<Rightarrow> playback_at_end d content ps (Inr ()) (tl_playback t) \<and> tl_state t = Timeline_COMPLETE \<and>
            tl_descriptor_verified t
        | Inl e \<Rightarrow> (\<exists>code inner. e = PlaybackTimelineError code inner) \<and> tl_state t = Timeline_FAILED \<and>
            \<not> tl_descriptor_verified t))"

lemma timeline_did_upd [simp]:
  "timeline_did d ps (t\<lparr>tl_state := x\<rparr>) = timeline_did d ps t"
  "timeline_did d ps (t\<lparr>tl_playback := pb\<rparr>) = timeline_did d ps t"
  "timeline_did d ps (t\<lparr>tl_descriptor_verified := b\<rparr>) = timeline_did d ps t"
  by (simp_all add: timeline_did_def)

lemma playback_at_end_snapshot:
  "playback_at_end d content xs (Inr u) pb \<Longrightarrow>
   \<exists>sn. playback_snapshot pb = Inr sn \<and> pbs_descriptor_verified sn"
  by (auto simp: playback_at_end_def playback_did_def playback_snapshot_def playback_wf_def framed_limits_ok_def)

text \<open>The locals of the loop after the packets \<open>ps\<close>, and what it does with one more.\<close>

definition last_timestamp :: "byte list list \<Rightarrow> int option" where
  "last_timestamp ps = (if ps = [] then None else Some (rtp_timestamp (last ps)))"

lemma timeline_loop_regress:
  assumes "smooth ps" and "\<not> smooth (ps @ [p])"
  shows "timeline_loop t (last_timestamp ps) ticks (GYield p pb c g) =
    GRaise (PlaybackTimelineError Timeline_TIMESTAMP_REGRESSION None)
      (t\<lparr>tl_playback := c, tl_state := Timeline_FAILED\<rparr>)"
proof (cases "ps = []")
  case True
  with assms show ?thesis by (simp add: smooth_def)
next
  case False
  with assms have "2147483648 \<le> (rtp_timestamp p - rtp_timestamp (last ps)) mod 4294967296" by (simp add: smooth_snoc)
  with False show ?thesis by (simp add: last_timestamp_def timeline_finally_def Let_def)
qed

lemma timeline_loop_packet:
  assumes "timeline_did d ps t" and "smooth (ps @ [p])"
  obtains t1 where "timeline_loop t (last_timestamp ps) (tick_span (map rtp_timestamp ps)) (GYield p pb c g) =
      GYield (last (timed d (ps @ [p]))) (t1\<lparr>tl_playback := pb\<rparr>) (timeline_finally (t1\<lparr>tl_playback := c\<rparr>))
        (timeline_loop (t1\<lparr>tl_playback := pb\<rparr>) (last_timestamp (ps @ [p])) (tick_span (map rtp_timestamp (ps @ [p]))) g)"
    and "timeline_did d (ps @ [p]) t1" and "tl_state t1 = tl_state t"
    and "tl_descriptor_verified t1 = tl_descriptor_verified t"
proof (cases "ps = []")
  case True
  let ?t = "t\<lparr>tl_packets := tl_packets t + 1, tl_elapsed_ms := 0\<rparr>"
  show thesis
    by (rule that [of ?t]) (use True assms in \<open>simp_all add: Let_def last_timestamp_def timeline_did_def timed_snoc [of d "[]", simplified]\<close>)
next
  case False
  let ?delta = "(rtp_timestamp p - rtp_timestamp (last ps)) mod 4294967296"
  let ?t = "t\<lparr>tl_timestamp_wraps := tl_timestamp_wraps t + (if rtp_timestamp p < rtp_timestamp (last ps) \<and> 0 < ?delta then 1 else 0),
    tl_packets := tl_packets t + 1, tl_elapsed_ms := tick_span (map rtp_timestamp ps @ [rtp_timestamp p]) * 1000 div rd_clock_rate_hz d\<rparr>"
  have ticks: "tick_span (map rtp_timestamp ps @ [rtp_timestamp p]) = tick_span (map rtp_timestamp ps) + ?delta"
    using False by (simp add: tick_span_snoc last_map)
  have delta: "\<not> 2147483648 \<le> ?delta" using assms(2) False by (simp add: smooth_snoc)
  show thesis
  proof (rule that [of ?t])
    show "timeline_did d (ps @ [p]) ?t"
      using assms by (simp add: timeline_did_def timed_snoc)
    show "timeline_loop t (last_timestamp ps) (tick_span (map rtp_timestamp ps)) (GYield p pb c g) =
      GYield (last (timed d (ps @ [p]))) (?t\<lparr>tl_playback := pb\<rparr>) (timeline_finally (?t\<lparr>tl_playback := c\<rparr>))
        (timeline_loop (?t\<lparr>tl_playback := pb\<rparr>) (last_timestamp (ps @ [p])) (tick_span (map rtp_timestamp (ps @ [p]))) g)"
      using assms(1) delta False by (simp add: Let_def timeline_did_def last_timestamp_def timed_snoc ticks)
  qed simp_all
qed

lemma timeline_loop_spec:
  assumes "gen_spec (playback_at_yield d content) (playback_at_close d content) (playback_at_end d content) ps g"
    and "timeline_did d ps t" and "tl_state t = Timeline_READING" and "\<not> tl_descriptor_verified t"
    and "starts_with content ps" and "agrees d ps"
  shows "gen_spec (timeline_at_yield d content) (timeline_at_close d content) (timeline_at_end d content) (timed d ps)
    (timeline_loop t (last_timestamp ps) (tick_span (map rtp_timestamp ps)) g)"
  using assms
proof (induction g arbitrary: ps t)
  case (GReturn pb)
  then have "playback_at_end d content ps (Inr ()) pb" by simp
  with playback_at_end_snapshot [OF this] GReturn.prems show ?case
    by (auto simp: timeline_at_end_def Let_def intro!: exI [of _ ps])
next
  case (GRaise e pb)
  then obtain code inner where "e = PlaybackError code inner" by (auto simp: playback_at_end_def)
  with GRaise.prems show ?case
    by (auto simp: timeline_at_end_def Let_def timeline_finally_def intro!: exI [of _ ps])
next
  case (GYield p pb c g)
  from GYield.prems have y: "playback_at_yield d content (ps @ [p]) pb" and c: "playback_at_close d content (ps @ [p]) c"
    and g: "gen_spec (playback_at_yield d content) (playback_at_close d content) (playback_at_end d content) (ps @ [p]) g"
    by simp_all
  show ?case
  proof (cases "smooth (ps @ [p])")
    case False
    have "smooth ps" using GYield.prems(2) by (simp add: timeline_did_def)
    with False GYield.prems show ?thesis
      by (auto simp: timeline_loop_regress timeline_at_end_def simp del: timeline_loop.simps intro!: exI [of _ ps])
  next
    case True
    obtain t1 where step: "timeline_loop t (last_timestamp ps) (tick_span (map rtp_timestamp ps)) (GYield p pb c g) =
        GYield (last (timed d (ps @ [p]))) (t1\<lparr>tl_playback := pb\<rparr>) (timeline_finally (t1\<lparr>tl_playback := c\<rparr>))
          (timeline_loop (t1\<lparr>tl_playback := pb\<rparr>) (last_timestamp (ps @ [p])) (tick_span (map rtp_timestamp (ps @ [p]))) g)"
      and t1: "timeline_did d (ps @ [p]) t1" "tl_state t1 = Timeline_READING" "\<not> tl_descriptor_verified t1"
      by (rule timeline_loop_packet [OF GYield.prems(2) True]) (use GYield.prems(3,4) in auto)
    have "starts_with content (ps @ [p])" "agrees d (ps @ [p])" using y by (simp_all add: playback_at_yield_def playback_did_def)
    with GYield.IH [OF g, of "t1\<lparr>tl_playback := pb\<rparr>"] t1
    have "gen_spec (timeline_at_yield d content) (timeline_at_close d content) (timeline_at_end d content) (timed d (ps @ [p]))
      (timeline_loop (t1\<lparr>tl_playback := pb\<rparr>) (last_timestamp (ps @ [p])) (tick_span (map rtp_timestamp (ps @ [p]))) g)" by simp
    moreover have "timeline_at_yield d content (timed d (ps @ [p])) (t1\<lparr>tl_playback := pb\<rparr>)"
      using t1 y by (auto simp: timeline_at_yield_def)
    moreover have "timeline_at_close d content (timed d (ps @ [p])) (timeline_finally (t1\<lparr>tl_playback := c\<rparr>))"
      using t1 c by (auto simp: timeline_at_close_def timeline_finally_def)
    ultimately show ?thesis unfolding step by (simp add: timed_snoc)
  qed
qed

section \<open>The layer as a whole\<close>

definition timeline_new :: "timeline \<Rightarrow> bool" where
  "timeline_new t \<longleftrightarrow>
     (tl_state t = Timeline_CREATED \<longrightarrow>
        playback_new (tl_playback t) \<and> pb_state (tl_playback t) = Playback_CREATED \<and>
        pb_descriptor (tl_playback t) = tl_descriptor t \<and> tl_packets t = 0 \<and> tl_elapsed_ms t = 0 \<and>
        tl_timestamp_wraps t = 0 \<and> \<not> tl_descriptor_verified t)"

lemma timeline_initE:
  assumes "timeline_init d mp = Inr t" and "descriptor_fields_ok d"
  obtains "timeline_new t" "tl_state t = Timeline_CREATED" "tl_descriptor t = d"
    "playback_init d mp 8589934592 65535 = Inr (tl_playback t)"
proof -
  from assms(1) obtain pb where pb: "playback_init d mp 8589934592 65535 = Inr pb"
    and t: "t = \<lparr>tl_descriptor = d, tl_playback = pb, tl_state = Timeline_CREATED, tl_packets = 0,
                      tl_elapsed_ms = 0, tl_timestamp_wraps = 0, tl_descriptor_verified = False\<rparr>"
    by (auto simp: timeline_init_def split: if_splits sum.splits)
  have "playback_new pb \<and> pb_state pb = Playback_CREATED \<and> pb_descriptor pb = d"
    using assms(2) by (rule_tac playback_initE [OF pb]) (simp add: playback_new_def descriptor_fields_ok_def)
  with pb t that show thesis by (simp add: timeline_new_def)
qed

lemma agrees_Nil: "playback_new pb \<Longrightarrow> agrees (pb_descriptor pb) []"
  by (simp add: agrees_def playback_new_def)

lemma timeline_iter_spec:
  assumes "timeline_new t" and "tl_state t = Timeline_CREATED"
  shows "gen_spec (timeline_at_yield (tl_descriptor t) (opened_bytes opened))
    (timeline_at_close (tl_descriptor t) (opened_bytes opened)) (timeline_at_end (tl_descriptor t) (opened_bytes opened)) []
    (timeline_iter opened cf t)"
proof -
  from assms have pb: "playback_new (tl_playback t)" "pb_state (tl_playback t) = Playback_CREATED"
      "pb_descriptor (tl_playback t) = tl_descriptor t" and t: "\<not> tl_descriptor_verified t"
    by (simp_all add: timeline_new_def)
  have did: "timeline_did (tl_descriptor t) [] (t\<lparr>tl_state := Timeline_READING\<rparr>)"
    using assms by (simp add: timeline_did_def timeline_new_def smooth_def)
  from timeline_loop_spec [OF playback_iter_spec [OF pb(1,2), unfolded pb(3)] did] agrees_Nil [OF pb(1)] assms(2) t pb(3)
  show ?thesis by (simp add: timeline_iter_def starts_with_def last_timestamp_def)
qed

interpretation timeline_source: one_shot "timeline_iter opened cf" timeline_new
  "\<lambda>t. tl_state t = Timeline_CREATED" "\<lambda>t. tl_state t = Timeline_COMPLETE"
  "PlaybackTimelineError Timeline_INVALID_STATE None" for opened cf
proof unfold_locales
  fix t t' :: timeline
  show "tl_state t \<noteq> Timeline_CREATED \<Longrightarrow> timeline_iter opened cf t = GRaise (PlaybackTimelineError Timeline_INVALID_STATE None) t"
    by (simp add: timeline_iter_def)
  assume new: "timeline_new t" "tl_state t = Timeline_CREATED"
  note spec = timeline_iter_spec [OF new, of opened cf]
  have close: "tl_state t' = Timeline_ABORTED" if "t' \<in> gen_closes (timeline_iter opened cf t)"
    using gen_spec_closes [OF spec that] by (auto simp: timeline_at_close_def)
  then show "t' \<in> gen_closes (timeline_iter opened cf t) \<Longrightarrow> tl_state t' \<noteq> Timeline_COMPLETE" by simp
  obtain res t2 where e: "gen_end (timeline_iter opened cf t) = (res, t2)" by fastforce
  with gen_spec_end [OF spec]
  show "fst (gen_end (timeline_iter opened cf t)) = Inr () \<longleftrightarrow> tl_state (snd (gen_end (timeline_iter opened cf t))) = Timeline_COMPLETE"
    by (cases res) (auto simp: timeline_at_end_def)
  from gen_spec_end [OF spec] e close
  show "t' \<in> gen_finals (timeline_iter opened cf t) \<Longrightarrow> tl_state t' \<noteq> Timeline_CREATED"
    by (cases res) (auto simp: gen_finals_eq timeline_at_end_def)
qed

lemma timeline_loop_complete:
  assumes "gen_spec (playback_at_yield d content) (playback_at_close d content) (playback_at_end d content) ps g"
    and "fst (gen_end g) = Inr ()" and "timeline_did d ps t" and "smooth (ps @ gen_items g)"
  shows "timed d ps @ gen_items (timeline_loop t (last_timestamp ps) (tick_span (map rtp_timestamp ps)) g) =
      timed d (ps @ gen_items g) \<and>
    fst (gen_end (timeline_loop t (last_timestamp ps) (tick_span (map rtp_timestamp ps)) g)) = Inr ()"
  using assms
proof (induction g arbitrary: ps t)
  case (GReturn pb)
  then have "playback_at_end d content ps (Inr ()) pb" by simp
  with playback_at_end_snapshot [OF this] show ?case by (auto simp: Let_def)
next
  case (GYield p pb c g)
  have "smooth (ps @ [p])" using GYield.prems(4) smooth_appendD [of "ps @ [p]"] by simp
  then obtain t1 where step: "timeline_loop t (last_timestamp ps) (tick_span (map rtp_timestamp ps)) (GYield p pb c g) =
        GYield (last (timed d (ps @ [p]))) (t1\<lparr>tl_playback := pb\<rparr>) (timeline_finally (t1\<lparr>tl_playback := c\<rparr>))
          (timeline_loop (t1\<lparr>tl_playback := pb\<rparr>) (last_timestamp (ps @ [p])) (tick_span (map rtp_timestamp (ps @ [p]))) g)"
    and did: "timeline_did d (ps @ [p]) t1"
    by (rule timeline_loop_packet [OF GYield.prems(3)])
  from GYield.IH [of "ps @ [p]" "t1\<lparr>tl_playback := pb\<rparr>"] did GYield.prems show ?case
    unfolding step by (simp add: timed_snoc)
qed simp

section \<open>Correctness\<close>

text \<open>The descriptor \<open>d\<close> describes a recording of the packets \<open>ps\<close>.\<close>

definition describes :: "recording_descriptor \<Rightarrow> byte list list \<Rightarrow> bool" where
  "describes d ps \<longleftrightarrow>
     descriptor_fields_ok d \<and> agrees d ps \<and> len ps = rd_packet_count d \<and> len (concat ps) = rd_payload_bytes d \<and>
     len (framed_file ps) = rd_file_bytes d \<and> list_all (\<lambda>p. len p \<le> 65535) ps"

text \<open>The file it is in.\<close>

abbreviation recording_of :: "byte list list \<Rightarrow> (byte list \<times> nat option) option" where
  "recording_of ps \<equiv> Some (framed_file ps, None)"

lemma timeline_items:
  assumes init: "timeline_init d mp = Inr t" and "describes d ps" and "smooth ps"
  shows "gen_items (timeline_iter (recording_of ps) cf t) = timed d ps \<and>
    fst (gen_end (timeline_iter (recording_of ps) cf t)) = Inr ()"
proof -
  have ok: "descriptor_fields_ok d" using assms(2) by (simp add: describes_def)
  from timeline_initE [OF init ok] have t: "timeline_new t" "tl_state t = Timeline_CREATED" "tl_descriptor t = d"
    "playback_init d mp 8589934592 65535 = Inr (tl_playback t)" by blast+
  let ?g = "playback_iter (recording_of ps) cf (tl_playback t)"
  from playback_plays_items [OF t(4)] assms(2) have g: "gen_items ?g = ps" "fst (gen_end ?g) = Inr ()"
    by (simp_all add: describes_def)
  from t have pb: "playback_new (tl_playback t)" "pb_state (tl_playback t) = Playback_CREATED"
      "pb_descriptor (tl_playback t) = d"
    by (simp_all add: timeline_new_def)
  have did: "timeline_did d [] (t\<lparr>tl_state := Timeline_READING\<rparr>)"
    using t by (simp add: timeline_did_def timeline_new_def smooth_def)
  from timeline_loop_complete [OF playback_iter_spec [OF pb(1,2), of "recording_of ps" cf, unfolded pb(3)] g(2) did] g assms(3) t(2)
  show ?thesis by (simp add: timeline_iter_def last_timestamp_def)
qed

lemma timeline_finished:
  assumes init: "timeline_init d mp = Inr t" and "describes d ps" and "smooth ps"
  shows "\<exists>t'. gen_end (timeline_iter (recording_of ps) cf t) = (Inr (), t') \<and>
    timeline_at_end d (framed_file ps) (timed d ps) (Inr ()) t'"
proof -
  have ok: "descriptor_fields_ok d" using assms(2) by (simp add: describes_def)
  from timeline_initE [OF init ok] have t: "timeline_new t" "tl_state t = Timeline_CREATED" "tl_descriptor t = d"
    by blast+
  from gen_spec_end [OF timeline_iter_spec [OF t(1,2), of "recording_of ps" cf]] timeline_items [OF assms, of cf] t(3)
  show ?thesis by (intro exI [of _ "snd (gen_end (timeline_iter (recording_of ps) cf t))"]) (simp add: prod_eq_iff)
qed

lemma smooth_times:
  "map rtp_timestamp ps = map (\<lambda>x. x mod 4294967296) Ts \<Longrightarrow>
   successively (\<lambda>a b. a \<le> b \<and> b < a + 2147483648) Ts \<Longrightarrow> smooth ps"
proof (induction ps arbitrary: Ts rule: induct_list012)
  case (3 p q ps)
  then obtain a b Us where Ts: "Ts = a # b # Us" by (auto simp: map_eq_Cons_conv dest!: sym [of "_ # _"])
  have "(b mod 4294967296 - a mod 4294967296) mod 4294967296 = (b - a) mod 4294967296" by (simp add: mod_diff_eq)
  also have "\<dots> = b - a" using "3.prems"(2) Ts by simp
  finally show ?case using "3.IH"(2) [of "b # Us"] "3.prems" Ts by (simp add: smooth_def)
qed (simp_all add: smooth_def)

text \<open>
  C23: the clock of a recording. If the packets of a recording were sampled at the times \<open>Ts\<close> (in
  clock ticks, of any size), each at most \<open>2 ^ 31 - 1\<close> ticks after the one before, and carry the
  low 32 bits, the timeline is complete and verified and gives the \<open>i\<close>-th packet the number of
  milliseconds between the first time and its own, over any number of wraps of the timestamp.
\<close>

theorem timeline_unwraps_timestamps:
  assumes "timeline_init d mp = Inr t" and "describes d ps"
    and "map rtp_timestamp ps = map (\<lambda>x. x mod 4294967296) Ts"
    and "successively (\<lambda>a b. a \<le> b \<and> b < a + 2147483648) Ts"
  shows "\<exists>xs t'. gen_items (timeline_iter (recording_of ps) cf t) = xs \<and>
    gen_end (timeline_iter (recording_of ps) cf t) = (Inr (), t') \<and>
    tl_state t' = Timeline_COMPLETE \<and> tl_descriptor_verified t' \<and>
    map tp_packet xs = ps \<and>
    map tp_elapsed_ms xs = map (\<lambda>x. (x - hd Ts) * 1000 div rd_clock_rate_hz d) Ts"
proof -
  note sm = smooth_times [OF assms(3,4)]
  have lens: "length ps = length Ts" using assms(3) by (metis length_map)
  have "tick_span (map rtp_timestamp (take (Suc i) ps)) = Ts ! i - hd Ts" if "i < length Ts" for i
  proof -
    have a: "map rtp_timestamp (take (Suc i) ps) = map (\<lambda>x. x mod 4294967296) (take (Suc i) Ts)"
      using assms(3) by (simp flip: take_map)
    have b: "successively (\<lambda>a b. a \<le> b \<and> b < a + 4294967296) (take (Suc i) Ts)"
      unfolding successively_conv_nth
    proof (intro allI impI)
      fix j
      assume "Suc j < length (take (Suc i) Ts)"
      with assms(4) [unfolded successively_conv_nth, rule_format, of j]
      show "take (Suc i) Ts ! j \<le> take (Suc i) Ts ! Suc j \<and> take (Suc i) Ts ! Suc j < take (Suc i) Ts ! j + 4294967296"
        by simp
    qed
    have c: "last (take (Suc i) Ts) = Ts ! i" using that by (simp add: take_Suc_conv_app_nth)
    have d: "take (Suc i) Ts \<noteq> []" "hd (take (Suc i) Ts) = hd Ts" using that by (cases Ts; simp)+
    show ?thesis unfolding a tick_span_unwraps [OF b d(1)] c d(2) ..
  qed
  then have "map tp_elapsed_ms (timed d ps) = map (\<lambda>x. (x - hd Ts) * 1000 div rd_clock_rate_hz d) Ts"
    by (intro nth_equalityI) (simp_all add: timed_def lens)
  with timeline_items [OF assms(1,2) sm, of cf] timeline_finished [OF assms(1,2) sm, of cf] show ?thesis
    by (auto simp: timeline_at_end_def)
qed

definition sample_timeline :: timeline where
  "sample_timeline = \<lparr>tl_descriptor = sample_recording,
     tl_playback = sample_playback\<lparr>pb_max_payload_bytes := 8589934592, pb_max_packet_bytes := 65535\<rparr>,
     tl_state = Timeline_CREATED, tl_packets = 0, tl_elapsed_ms = 0, tl_timestamp_wraps = 0, tl_descriptor_verified = False\<rparr>"

lemma sample_timeline_init: "timeline_init sample_recording 4 = Inr sample_timeline"
  by (simp add: timeline_init_def playback_init_def sample_timeline_def sample_playback_def sample_recording_simps)

lemma sample_describes: "describes sample_recording [sample_packet]"
  by (simp add: describes_def sample_agrees sample_recording_simps length_framed_file sample_packet_ok sample_fields_ok)

theorem timeline_unwraps_timestamps_witness:
  "\<exists>t'. map tp_elapsed_ms (gen_items (timeline_iter (recording_of [sample_packet]) False sample_timeline)) = [0] \<and>
    gen_end (timeline_iter (recording_of [sample_packet]) False sample_timeline) = (Inr (), t')"
proof -
  have "map rtp_timestamp [sample_packet] = map (\<lambda>x. x mod 4294967296) [4294967305]" by code_simp
  from timeline_unwraps_timestamps [OF sample_timeline_init sample_describes this, of False] show ?thesis by auto
qed

end
