(* ===== verification/Playback_Navigation.thy ===== *)
theory Playback_Navigation
  imports Playback_Timeline
begin

text \<open>
  \<open>src/src/k5vision/media/playback_navigation.py\<close>: \<open>BoundedPlaybackNavigator\<close> skips the packets of a
  timeline before a target time.
\<close>

section \<open>State\<close>

datatype navigation_state =
    Navigation_CREATED | Navigation_SCANNING | Navigation_POSITIONED | Navigation_COMPLETE
  | Navigation_ABORTED | Navigation_FAILED

datatype navigation_error_code = Navigation_INVALID_STATE | Navigation_TIMELINE_FAILURE

datatype navigation_exn =
    PlaybackNavigationError navigation_error_code "timeline_error_code option"
  | Navigation_Raw python_exn

record navigation_snapshot =
  nvs_state :: navigation_state
  nvs_target_ms :: int
  nvs_scanned_packets :: int
  nvs_emitted_packets :: int
  nvs_positioned_at_ms :: "int option"
  nvs_descriptor_verified :: bool

record navigator =
  nv_timeline :: timeline
  nv_target_ms :: int
  nv_state :: navigation_state
  nv_scanned_packets :: int
  nv_emitted_packets :: int
  nv_positioned_at_ms :: "int option"
  nv_descriptor_verified :: bool

definition navigator_init :: "recording_descriptor \<Rightarrow> int dyn \<Rightarrow> int \<Rightarrow> navigation_exn + navigator" where
  "navigator_init d target mp =
     (case target of
        NotInst \<Rightarrow> Inl (Navigation_Raw Py_TypeError)
      | Inst target_ms \<Rightarrow>
          if \<not> (0 \<le> target_ms \<and> target_ms \<le> rd_duration_ms d) \<or> \<not> (1 \<le> mp \<and> mp \<le> 1000000) \<or> mp < rd_packet_count d
          then Inl (Navigation_Raw Py_ValueError)
          else case timeline_init d mp of
            Inl _ \<Rightarrow> Inl (Navigation_Raw Py_ValueError)
          | Inr t \<Rightarrow> Inr \<lparr>nv_timeline = t, nv_target_ms = target_ms, nv_state = Navigation_CREATED, nv_scanned_packets = 0,
                         nv_emitted_packets = 0, nv_positioned_at_ms = None, nv_descriptor_verified = False\<rparr>)"

definition ge0_opt :: "int option \<Rightarrow> bool" where
  "ge0_opt x = (case x of None \<Rightarrow> True | Some n \<Rightarrow> 0 \<le> n)"

definition navigator_snapshot :: "navigator \<Rightarrow> validation_error + navigation_snapshot" where
  "navigator_snapshot n =
     (if 0 \<le> nv_target_ms n \<and> 0 \<le> nv_scanned_packets n \<and> nv_scanned_packets n \<le> 1000000 \<and>
         0 \<le> nv_emitted_packets n \<and> nv_emitted_packets n \<le> 1000000 \<and> ge0_opt (nv_positioned_at_ms n)
      then Inr \<lparr>nvs_state = nv_state n, nvs_target_ms = nv_target_ms n, nvs_scanned_packets = nv_scanned_packets n,
                nvs_emitted_packets = nv_emitted_packets n, nvs_positioned_at_ms = nv_positioned_at_ms n,
                nvs_descriptor_verified = nv_descriptor_verified n\<rparr>
      else Inl ValidationError)"

section \<open>The generator\<close>

definition navigator_finally :: "navigator \<Rightarrow> navigator" where
  "navigator_finally n =
     (if nv_state n \<in> {Navigation_SCANNING, Navigation_POSITIONED} then n\<lparr>nv_state := Navigation_ABORTED\<rparr> else n)"

type_synonym navigator_gen = "(timed_packet, navigator, navigation_exn) gen"

fun navigator_loop :: "navigator \<Rightarrow> timeline_gen \<Rightarrow> navigator_gen" where
  "navigator_loop n (GReturn t) =
     (let n1 = n\<lparr>nv_timeline := t\<rparr> in
      case timeline_snapshot t of
        Inl _ \<Rightarrow> GRaise (Navigation_Raw Py_ValidationError) (navigator_finally n1)
      | Inr sn \<Rightarrow> GReturn (n1\<lparr>nv_descriptor_verified := tls_descriptor_verified sn, nv_state := Navigation_COMPLETE\<rparr>))"
| "navigator_loop n (GRaise e t) =
     (let n1 = n\<lparr>nv_timeline := t\<rparr> in
      case e of
        PlaybackTimelineError code _ \<Rightarrow>
          GRaise (PlaybackNavigationError Navigation_TIMELINE_FAILURE (Some code))
            (navigator_finally (n1\<lparr>nv_state := Navigation_FAILED\<rparr>))
      | Timeline_Raw x \<Rightarrow> GRaise (Navigation_Raw x) (navigator_finally n1))"
| "navigator_loop n (GYield item t c g) =
     (let n1 = n\<lparr>nv_scanned_packets := nv_scanned_packets n + 1\<rparr> in
      if nv_positioned_at_ms n1 = None \<and> tp_elapsed_ms item < nv_target_ms n1
      then navigator_loop (n1\<lparr>nv_timeline := t\<rparr>) g
      else
        (let n2 = (if nv_positioned_at_ms n1 = None
                   then n1\<lparr>nv_positioned_at_ms := Some (tp_elapsed_ms item), nv_state := Navigation_POSITIONED\<rparr> else n1);
             n3 = n2\<lparr>nv_emitted_packets := nv_emitted_packets n2 + 1\<rparr>
         in GYield item (n3\<lparr>nv_timeline := t\<rparr>) (navigator_finally (n3\<lparr>nv_timeline := c\<rparr>))
              (navigator_loop (n3\<lparr>nv_timeline := t\<rparr>) g)))"

definition navigator_iter :: "(byte list \<times> nat option) option \<Rightarrow> bool \<Rightarrow> navigator \<Rightarrow> navigator_gen" where
  "navigator_iter opened close_fails n =
     (if nv_state n \<noteq> Navigation_CREATED then GRaise (PlaybackNavigationError Navigation_INVALID_STATE None) n
      else navigator_loop (n\<lparr>nv_state := Navigation_SCANNING\<rparr>) (timeline_iter opened close_fails (nv_timeline n)))"

section \<open>Invariant\<close>

text \<open>The packets from the target on.\<close>

definition from_ms :: "int \<Rightarrow> timed_packet list \<Rightarrow> timed_packet list" where
  "from_ms target xs = dropWhile (\<lambda>x. tp_elapsed_ms x < target) xs"

lemma from_ms_snoc:
  "from_ms target (xs @ [x]) =
     (if from_ms target xs = [] \<and> tp_elapsed_ms x < target then [] else from_ms target xs @ [x])"
  by (induction xs) (simp_all add: from_ms_def)

lemma from_ms_append_new: "from_ms target xs = [] \<Longrightarrow> from_ms target (xs @ ys) = from_ms target ys"
  by (simp add: from_ms_def)

lemma from_ms_append_old: "from_ms target xs \<noteq> [] \<Longrightarrow> from_ms target (xs @ ys) = from_ms target xs @ ys"
  by (auto simp: from_ms_def dropWhile_append)

definition navigator_did :: "int \<Rightarrow> timed_packet list \<Rightarrow> navigator \<Rightarrow> bool" where
  "navigator_did target ys n \<longleftrightarrow>
     nv_target_ms n = target \<and> nv_scanned_packets n = len ys \<and> nv_emitted_packets n = len (from_ms target ys) \<and>
     nv_positioned_at_ms n = (case from_ms target ys of [] \<Rightarrow> None | x # _ \<Rightarrow> Some (tp_elapsed_ms x))"

definition navigator_at ::
  "(timed_packet list \<Rightarrow> timeline \<Rightarrow> bool) \<Rightarrow> int \<Rightarrow> navigation_state set \<Rightarrow> timed_packet list \<Rightarrow> navigator \<Rightarrow> bool" where
  "navigator_at P target S xs n \<longleftrightarrow>
     (\<exists>ys. xs = from_ms target ys \<and> navigator_did target ys n \<and> P ys (nv_timeline n) \<and> nv_state n \<in> S \<and>
        \<not> nv_descriptor_verified n)"

definition navigator_at_end ::
  "recording_descriptor \<Rightarrow> byte list \<Rightarrow> int \<Rightarrow> timed_packet list \<Rightarrow> navigation_exn + unit \<Rightarrow> navigator \<Rightarrow> bool" where
  "navigator_at_end d content target xs res n \<longleftrightarrow>
     (\<exists>ys inner. xs = from_ms target ys \<and> navigator_did target ys n \<and> timeline_at_end d content ys inner (nv_timeline n) \<and>
       (case res of
          Inr _ \<Rightarrow> inner = Inr () \<and> nv_state n = Navigation_COMPLETE \<and> nv_descriptor_verified n
        | Inl e \<Rightarrow> (\<exists>code inner. e = PlaybackNavigationError code inner) \<and> nv_state n = Navigation_FAILED \<and>
            \<not> nv_descriptor_verified n))"

lemma navigator_did_upd [simp]:
  "navigator_did target ys (n\<lparr>nv_state := x\<rparr>) = navigator_did target ys n"
  "navigator_did target ys (n\<lparr>nv_timeline := t\<rparr>) = navigator_did target ys n"
  "navigator_did target ys (n\<lparr>nv_descriptor_verified := b\<rparr>) = navigator_did target ys n"
  by (simp_all add: navigator_did_def)

lemma timed_elapsed_nonneg: "0 < rd_clock_rate_hz d \<Longrightarrow> x \<in> set (timed d ps) \<Longrightarrow> 0 \<le> tp_elapsed_ms x"
  by (auto simp: timed_def tick_span_nonneg pos_imp_zdiv_nonneg_iff)

lemma timeline_at_end_snapshot:
  assumes "timeline_at_end d content ys (Inr u) t" and "0 < rd_clock_rate_hz d"
  shows "\<exists>sn. timeline_snapshot t = Inr sn \<and> tls_descriptor_verified sn"
proof -
  from assms(1) obtain ps where t: "timeline_did d ps t" "playback_at_end d content ps (Inr ()) (tl_playback t)"
    "tl_descriptor_verified t" by (auto simp: timeline_at_end_def)
  then have "len ps \<le> 1000000"
    by (auto simp: playback_at_end_def playback_did_def playback_wf_def framed_limits_ok_def)
  moreover have "0 \<le> tl_elapsed_ms t"
  proof (cases "ps = []")
    case False
    then have "timed d ps \<noteq> []" by (metis length_0_conv length_timed)
    with False t(1) timed_elapsed_nonneg [OF assms(2) last_in_set] show ?thesis by (simp add: timeline_did_def)
  qed (use t(1) in \<open>simp add: timeline_did_def\<close>)
  ultimately show ?thesis using t by (simp add: timeline_snapshot_def timeline_did_def)
qed

text \<open>A packet that is skipped, and one that is passed on.\<close>

lemma navigator_loop_skip:
  assumes "navigator_did target ys n" and "from_ms target (ys @ [y]) = []"
  obtains n1 where "navigator_loop n (GYield y t c g) = navigator_loop (n1\<lparr>nv_timeline := t\<rparr>) g"
    and "navigator_did target (ys @ [y]) n1" and "nv_state n1 = nv_state n"
    and "nv_descriptor_verified n1 = nv_descriptor_verified n"
proof (rule that [of "n\<lparr>nv_scanned_packets := nv_scanned_packets n + 1\<rparr>"])
  have "from_ms target ys = []" "tp_elapsed_ms y < target" using assms(2) by (auto simp: from_ms_snoc split: if_splits)
  then show "navigator_loop n (GYield y t c g) =
      navigator_loop (n\<lparr>nv_scanned_packets := nv_scanned_packets n + 1, nv_timeline := t\<rparr>) g"
    "navigator_did target (ys @ [y]) (n\<lparr>nv_scanned_packets := nv_scanned_packets n + 1\<rparr>)"
    using assms by (simp_all add: navigator_did_def Let_def)
qed simp_all

lemma navigator_loop_emit:
  assumes did: "navigator_did target ys n" and ne: "from_ms target (ys @ [y]) \<noteq> []"
    and st: "nv_state n \<in> {Navigation_SCANNING, Navigation_POSITIONED}"
  obtains n1 where "navigator_loop n (GYield y t c g) = GYield y (n1\<lparr>nv_timeline := t\<rparr>)
      (navigator_finally (n1\<lparr>nv_timeline := c\<rparr>)) (navigator_loop (n1\<lparr>nv_timeline := t\<rparr>) g)"
    and "navigator_did target (ys @ [y]) n1" and "nv_state n1 \<in> {Navigation_SCANNING, Navigation_POSITIONED}"
    and "nv_descriptor_verified n1 = nv_descriptor_verified n"
    and "from_ms target (ys @ [y]) = from_ms target ys @ [y]"
proof (cases "from_ms target ys")
  case Nil
  with ne have y: "\<not> tp_elapsed_ms y < target" "from_ms target (ys @ [y]) = [y]" by (auto simp: from_ms_snoc split: if_splits)
  let ?n = "n\<lparr>nv_scanned_packets := nv_scanned_packets n + 1, nv_positioned_at_ms := Some (tp_elapsed_ms y),
    nv_state := Navigation_POSITIONED, nv_emitted_packets := nv_emitted_packets n + 1\<rparr>"
  show thesis
    by (rule that [of ?n]) (use Nil y did in \<open>simp_all add: navigator_did_def Let_def\<close>)
next
  case (Cons z zs)
  let ?n = "n\<lparr>nv_scanned_packets := nv_scanned_packets n + 1, nv_emitted_packets := nv_emitted_packets n + 1\<rparr>"
  have "from_ms target (ys @ [y]) = from_ms target ys @ [y]" using Cons by (simp add: from_ms_snoc)
  then show thesis
    by (intro that [of ?n]) (use Cons did st in \<open>simp_all add: navigator_did_def Let_def\<close>)
qed

abbreviation navigator_at_yield :: "recording_descriptor \<Rightarrow> byte list \<Rightarrow> int \<Rightarrow> timed_packet list \<Rightarrow> navigator \<Rightarrow> bool" where
  "navigator_at_yield d content target \<equiv>
     navigator_at (timeline_at_yield d content) target {Navigation_SCANNING, Navigation_POSITIONED}"

abbreviation navigator_at_close :: "recording_descriptor \<Rightarrow> byte list \<Rightarrow> int \<Rightarrow> timed_packet list \<Rightarrow> navigator \<Rightarrow> bool" where
  "navigator_at_close d content target \<equiv> navigator_at (timeline_at_close d content) target {Navigation_ABORTED}"

lemma navigator_loop_spec:
  assumes "gen_spec (timeline_at_yield d content) (timeline_at_close d content) (timeline_at_end d content) ys g"
    and "navigator_did target ys n" and "nv_state n \<in> {Navigation_SCANNING, Navigation_POSITIONED}"
    and "\<not> nv_descriptor_verified n" and "0 < rd_clock_rate_hz d"
  shows "gen_spec (navigator_at_yield d content target) (navigator_at_close d content target)
    (navigator_at_end d content target) (from_ms target ys) (navigator_loop n g)"
  using assms
proof (induction g arbitrary: ys n)
  case (GReturn t)
  then have "timeline_at_end d content ys (Inr ()) t" by simp
  with timeline_at_end_snapshot [OF this] GReturn.prems show ?case
    by (auto simp: navigator_at_end_def Let_def intro!: exI [of _ ys] exI [of _ "Inr ()"])
next
  case (GRaise e t)
  then have t: "timeline_at_end d content ys (Inl e) t" by simp
  then obtain code inner where "e = PlaybackTimelineError code inner" by (auto simp: timeline_at_end_def)
  with GRaise.prems t show ?case
    by (auto simp: navigator_at_end_def Let_def navigator_finally_def intro!: exI [of _ ys] exI [of _ "Inl e"])
next
  case (GYield y t c g)
  from GYield.prems have yt: "timeline_at_yield d content (ys @ [y]) t" and c: "timeline_at_close d content (ys @ [y]) c"
    and g: "gen_spec (timeline_at_yield d content) (timeline_at_close d content) (timeline_at_end d content) (ys @ [y]) g"
    by simp_all
  show ?case
  proof (cases "from_ms target (ys @ [y]) = []")
    case True
    then obtain n1 where "navigator_loop n (GYield y t c g) = navigator_loop (n1\<lparr>nv_timeline := t\<rparr>) g"
      "navigator_did target (ys @ [y]) n1" "nv_state n1 = nv_state n" "nv_descriptor_verified n1 = nv_descriptor_verified n"
      by (rule navigator_loop_skip [OF GYield.prems(2)])
    moreover have "from_ms target ys = []" using True by (auto simp: from_ms_snoc split: if_splits)
    ultimately show ?thesis using GYield.IH [OF g, of "n1\<lparr>nv_timeline := t\<rparr>"] GYield.prems True by simp
  next
    case False
    then obtain n1 where step: "navigator_loop n (GYield y t c g) = GYield y (n1\<lparr>nv_timeline := t\<rparr>)
          (navigator_finally (n1\<lparr>nv_timeline := c\<rparr>)) (navigator_loop (n1\<lparr>nv_timeline := t\<rparr>) g)"
      and n1: "navigator_did target (ys @ [y]) n1" "nv_state n1 \<in> {Navigation_SCANNING, Navigation_POSITIONED}"
        "nv_descriptor_verified n1 = nv_descriptor_verified n" "from_ms target (ys @ [y]) = from_ms target ys @ [y]"
      by (rule navigator_loop_emit [OF GYield.prems(2) _ GYield.prems(3)])
    have "navigator_at_yield d content target (from_ms target ys @ [y]) (n1\<lparr>nv_timeline := t\<rparr>)"
      unfolding navigator_at_def using n1 yt GYield.prems(4) by (intro exI [of _ "ys @ [y]"]) simp
    moreover have "navigator_at_close d content target (from_ms target ys @ [y]) (navigator_finally (n1\<lparr>nv_timeline := c\<rparr>))"
      unfolding navigator_at_def using n1 c GYield.prems(4)
      by (intro exI [of _ "ys @ [y]"]) (auto simp: navigator_finally_def)
    moreover have "gen_spec (navigator_at_yield d content target) (navigator_at_close d content target)
        (navigator_at_end d content target) (from_ms target ys @ [y]) (navigator_loop (n1\<lparr>nv_timeline := t\<rparr>) g)"
      using GYield.IH [OF g, of "n1\<lparr>nv_timeline := t\<rparr>"] n1 GYield.prems by simp
    ultimately show ?thesis unfolding step by simp
  qed
qed

section \<open>The layer as a whole\<close>

definition navigator_new :: "navigator \<Rightarrow> bool" where
  "navigator_new n \<longleftrightarrow>
     (nv_state n = Navigation_CREATED \<longrightarrow>
        timeline_new (nv_timeline n) \<and> tl_state (nv_timeline n) = Timeline_CREATED \<and>
        0 < rd_clock_rate_hz (tl_descriptor (nv_timeline n)) \<and> nv_scanned_packets n = 0 \<and> nv_emitted_packets n = 0 \<and>
        nv_positioned_at_ms n = None \<and> \<not> nv_descriptor_verified n)"

lemma navigator_initE:
  assumes "navigator_init d (Inst target) mp = Inr n" and "descriptor_fields_ok d"
  obtains "navigator_new n" "nv_state n = Navigation_CREATED" "nv_target_ms n = target"
    "timeline_init d mp = Inr (nv_timeline n)" "tl_descriptor (nv_timeline n) = d" "0 \<le> target" "target \<le> rd_duration_ms d"
proof -
  from assms(1) obtain t where t: "timeline_init d mp = Inr t"
    and n: "n = \<lparr>nv_timeline = t, nv_target_ms = target, nv_state = Navigation_CREATED, nv_scanned_packets = 0,
      nv_emitted_packets = 0, nv_positioned_at_ms = None, nv_descriptor_verified = False\<rparr>"
    and b: "0 \<le> target" "target \<le> rd_duration_ms d"
    by (auto simp: navigator_init_def split: if_splits sum.splits)
  have "timeline_new t \<and> tl_state t = Timeline_CREATED \<and> tl_descriptor t = d \<and> 0 < rd_clock_rate_hz d"
    using assms(2) by (rule_tac timeline_initE [OF t]) (simp_all add: descriptor_fields_ok_def)
  with t n b that show thesis by (simp add: navigator_new_def)
qed

lemma from_ms_Nil [simp]: "from_ms target [] = []"
  by (simp add: from_ms_def)

lemma navigator_iter_spec:
  assumes "navigator_new n" and "nv_state n = Navigation_CREATED"
  shows "gen_spec (navigator_at_yield (tl_descriptor (nv_timeline n)) (opened_bytes opened) (nv_target_ms n))
    (navigator_at_close (tl_descriptor (nv_timeline n)) (opened_bytes opened) (nv_target_ms n))
    (navigator_at_end (tl_descriptor (nv_timeline n)) (opened_bytes opened) (nv_target_ms n)) [] (navigator_iter opened cf n)"
proof -
  from assms have t: "timeline_new (nv_timeline n)" "tl_state (nv_timeline n) = Timeline_CREATED"
    "0 < rd_clock_rate_hz (tl_descriptor (nv_timeline n))" by (simp_all add: navigator_new_def)
  have "navigator_did (nv_target_ms n) [] (n\<lparr>nv_state := Navigation_SCANNING\<rparr>)"
    using assms by (simp add: navigator_did_def navigator_new_def)
  from navigator_loop_spec [OF timeline_iter_spec [OF t(1,2)] this _ _ t(3)] assms show ?thesis
    by (simp add: navigator_iter_def navigator_new_def)
qed

interpretation navigator_source: one_shot "navigator_iter opened cf" navigator_new
  "\<lambda>n. nv_state n = Navigation_CREATED" "\<lambda>n. nv_state n = Navigation_COMPLETE"
  "PlaybackNavigationError Navigation_INVALID_STATE None" for opened cf
proof unfold_locales
  fix n n' :: navigator
  show "nv_state n \<noteq> Navigation_CREATED \<Longrightarrow>
      navigator_iter opened cf n = GRaise (PlaybackNavigationError Navigation_INVALID_STATE None) n"
    by (simp add: navigator_iter_def)
  assume new: "navigator_new n" "nv_state n = Navigation_CREATED"
  note spec = navigator_iter_spec [OF new, of opened cf]
  have close: "nv_state n' = Navigation_ABORTED" if "n' \<in> gen_closes (navigator_iter opened cf n)"
    using gen_spec_closes [OF spec that] by (auto simp: navigator_at_def)
  then show "n' \<in> gen_closes (navigator_iter opened cf n) \<Longrightarrow> nv_state n' \<noteq> Navigation_COMPLETE" by simp
  obtain res n2 where e: "gen_end (navigator_iter opened cf n) = (res, n2)" by fastforce
  with gen_spec_end [OF spec]
  show "fst (gen_end (navigator_iter opened cf n)) = Inr () \<longleftrightarrow> nv_state (snd (gen_end (navigator_iter opened cf n))) = Navigation_COMPLETE"
    by (cases res) (auto simp: navigator_at_end_def)
  from gen_spec_end [OF spec] e close
  show "n' \<in> gen_finals (navigator_iter opened cf n) \<Longrightarrow> nv_state n' \<noteq> Navigation_CREATED"
    by (cases res) (auto simp: gen_finals_eq navigator_at_end_def)
qed

text \<open>Nothing is lost: every packet of the timeline from the target on is passed on.\<close>

lemma navigator_loop_items:
  assumes "navigator_did target ys n" and "nv_state n \<in> {Navigation_SCANNING, Navigation_POSITIONED}"
  shows "from_ms target ys @ gen_items (navigator_loop n g) = from_ms target (ys @ gen_items g)"
  using assms
proof (induction g arbitrary: ys n)
  case (GRaise e t)
  then show ?case by (cases e) (simp_all add: Let_def)
next
  case (GYield y t c g)
  show ?case
  proof (cases "from_ms target (ys @ [y]) = []")
    case True
    then obtain n1 where "navigator_loop n (GYield y t c g) = navigator_loop (n1\<lparr>nv_timeline := t\<rparr>) g"
      "navigator_did target (ys @ [y]) n1" "nv_state n1 = nv_state n"
      by (rule navigator_loop_skip [OF GYield.prems(1)])
    moreover have "from_ms target ys = []" using True by (auto simp: from_ms_snoc split: if_splits)
    ultimately show ?thesis using GYield.IH [of "ys @ [y]" "n1\<lparr>nv_timeline := t\<rparr>"] GYield.prems True by simp
  next
    case False
    then obtain n1 where "navigator_loop n (GYield y t c g) = GYield y (n1\<lparr>nv_timeline := t\<rparr>)
          (navigator_finally (n1\<lparr>nv_timeline := c\<rparr>)) (navigator_loop (n1\<lparr>nv_timeline := t\<rparr>) g)"
      and n1: "navigator_did target (ys @ [y]) n1" "nv_state n1 \<in> {Navigation_SCANNING, Navigation_POSITIONED}"
        "from_ms target (ys @ [y]) = from_ms target ys @ [y]"
      by (rule navigator_loop_emit [OF GYield.prems(1) _ GYield.prems(2)])
    with GYield.IH [of "ys @ [y]" "n1\<lparr>nv_timeline := t\<rparr>"] show ?thesis by simp
  qed
qed (simp add: Let_def split: sum.splits)

lemma navigator_loop_end:
  assumes "gen_spec (timeline_at_yield d content) (timeline_at_close d content) (timeline_at_end d content) ys g"
    and "fst (gen_end g) = Inr ()" and "0 < rd_clock_rate_hz d"
  shows "fst (gen_end (navigator_loop n g)) = Inr ()"
  using assms
proof (induction g arbitrary: ys n)
  case (GReturn t)
  then have "timeline_at_end d content ys (Inr ()) t" by simp
  with timeline_at_end_snapshot [OF this] GReturn.prems show ?case by (auto simp: Let_def)
next
  case (GYield y t c g)
  then have "fst (gen_end (navigator_loop n g)) = Inr ()" for n using GYield.IH [of "ys @ [y]" n] by simp
  then show ?case by (simp add: Let_def)
qed simp

lemma navigator_loop_counts:
  "nv_scanned_packets (snd (gen_end (navigator_loop n g))) = nv_scanned_packets n + len (gen_items g) \<and>
   nv_emitted_packets (snd (gen_end (navigator_loop n g))) = nv_emitted_packets n + len (gen_items (navigator_loop n g))"
proof (induction g arbitrary: n)
  case (GRaise e t)
  then show ?case by (cases e) (simp_all add: navigator_finally_def Let_def)
qed (simp_all add: Let_def navigator_finally_def split: sum.splits)

lemma navigator_items:
  assumes init: "navigator_init d (Inst target) mp = Inr n" and "describes d ps" and "smooth ps"
  shows "gen_items (navigator_iter (recording_of ps) cf n) = from_ms target (timed d ps) \<and>
    fst (gen_end (navigator_iter (recording_of ps) cf n)) = Inr ()"
proof -
  have ok: "descriptor_fields_ok d" using assms(2) by (simp add: describes_def)
  from navigator_initE [OF init ok] have n: "navigator_new n" "nv_state n = Navigation_CREATED" "nv_target_ms n = target"
    "timeline_init d mp = Inr (nv_timeline n)" "tl_descriptor (nv_timeline n) = d" by blast+
  let ?g = "timeline_iter (recording_of ps) cf (nv_timeline n)" and ?n = "n\<lparr>nv_state := Navigation_SCANNING\<rparr>"
  from timeline_items [OF n(4) assms(2,3), of cf] have g: "gen_items ?g = timed d ps" "fst (gen_end ?g) = Inr ()" by simp_all
  from n have t: "timeline_new (nv_timeline n)" "tl_state (nv_timeline n) = Timeline_CREATED"
    "0 < rd_clock_rate_hz (tl_descriptor (nv_timeline n))" by (simp_all add: navigator_new_def)
  have did: "navigator_did target [] ?n" using n by (simp add: navigator_did_def navigator_new_def)
  from navigator_loop_items [OF did, of ?g] navigator_loop_end [OF timeline_iter_spec [OF t(1,2), of "recording_of ps" cf] g(2) t(3), of ?n] g n(2)
  show ?thesis by (simp add: navigator_iter_def)
qed

lemma from_ms_filter: "sorted (map tp_elapsed_ms xs) \<Longrightarrow> from_ms target xs = filter (\<lambda>x. target \<le> tp_elapsed_ms x) xs"
  unfolding from_ms_def by (rule filter_dropWhile_sorted)

text \<open>
  A navigator yields exactly the packets whose time is at or after the target, and verifies
  the whole recording while it does so; it reports where it was positioned and how much it
  scanned.
\<close>

lemma navigator_seeks:
  assumes "navigator_init d (Inst target) mp = Inr n" and "describes d ps" and "smooth ps"
  shows "\<exists>n'. gen_items (navigator_iter (recording_of ps) cf n) = filter (\<lambda>x. target \<le> tp_elapsed_ms x) (timed d ps) \<and>
    gen_end (navigator_iter (recording_of ps) cf n) = (Inr (), n') \<and>
    nv_state n' = Navigation_COMPLETE \<and> nv_descriptor_verified n' \<and> nv_scanned_packets n' = len ps \<and>
    nv_emitted_packets n' = len (filter (\<lambda>x. target \<le> tp_elapsed_ms x) (timed d ps))"
proof -
  have ok: "descriptor_fields_ok d" using assms(2) by (simp add: describes_def)
  from navigator_initE [OF assms(1) ok] have n: "navigator_new n" "nv_state n = Navigation_CREATED" "nv_target_ms n = target"
    "tl_descriptor (nv_timeline n) = d" by blast+
  obtain n' where e: "gen_end (navigator_iter (recording_of ps) cf n) = (Inr (), n')"
    using navigator_items [OF assms, of cf] by (metis prod.collapse)
  from gen_spec_end [OF navigator_iter_spec [OF n(1,2), of "recording_of ps" cf]] n e
  have n': "nv_state n' = Navigation_COMPLETE" "nv_descriptor_verified n'" by (auto simp: navigator_at_end_def)
  have "timeline_init d mp = Inr (nv_timeline n)" using navigator_initE [OF assms(1) ok] by blast
  from timeline_items [OF this assms(2,3), of cf]
  have "gen_items (timeline_iter (recording_of ps) cf (nv_timeline n)) = timed d ps" by simp
  with navigator_loop_counts [of "n\<lparr>nv_state := Navigation_SCANNING\<rparr>" "timeline_iter (recording_of ps) cf (nv_timeline n)"] n e
  have counts: "nv_scanned_packets n' = len ps" "nv_emitted_packets n' = len (gen_items (navigator_iter (recording_of ps) cf n))"
    by (simp_all add: navigator_iter_def navigator_new_def)
  have "0 < rd_clock_rate_hz d" using ok by (simp add: descriptor_fields_ok_def)
  from from_ms_filter [OF timed_sorted [OF this]] navigator_items [OF assms, of cf] e n' counts show ?thesis by simp
qed

definition sample_navigator :: navigator where
  "sample_navigator = \<lparr>nv_timeline = sample_timeline, nv_target_ms = 1, nv_state = Navigation_CREATED,
     nv_scanned_packets = 0, nv_emitted_packets = 0, nv_positioned_at_ms = None, nv_descriptor_verified = False\<rparr>"

lemma sample_navigator_init: "navigator_init sample_recording (Inst 1) 4 = Inr sample_navigator"
  by (simp add: navigator_init_def sample_timeline_init sample_navigator_def sample_recording_simps)

lemma navigator_seeks_witness:
  "\<exists>n'. gen_items (navigator_iter (recording_of [sample_packet]) False sample_navigator) = [] \<and>
    gen_end (navigator_iter (recording_of [sample_packet]) False sample_navigator) = (Inr (), n') \<and> nv_descriptor_verified n'"
proof -
  have "smooth [sample_packet]" by (simp add: smooth_def)
  from navigator_seeks [OF sample_navigator_init sample_describes this, of False] show ?thesis
    by (auto simp: timed_def)
qed

end
