(* ===== verification/Playback_Window.thy ===== *)
theory Playback_Window
  imports Playback_Navigation
begin

text \<open>
  \<open>src/src/k5vision/media/playback_window.py\<close>: \<open>BoundedPlaybackWindow\<close> passes on the packets of a
  navigator up to an end time, and reads the rest so that the recording is verified.
\<close>

section \<open>State\<close>

datatype window_state = Window_CREATED | Window_READING | Window_COMPLETE | Window_ABORTED | Window_FAILED

datatype window_error_code = Window_INVALID_STATE | Window_NAVIGATION_FAILURE

datatype window_exn =
    PlaybackWindowError window_error_code "navigation_error_code option"
  | Window_Raw python_exn

record window_snapshot =
  wds_state :: window_state
  wds_start_ms :: int
  wds_end_ms :: int
  wds_scanned_packets :: int
  wds_emitted_packets :: int
  wds_first_emitted_ms :: "int option"
  wds_last_emitted_ms :: "int option"
  wds_descriptor_verified :: bool

record window =
  wd_navigator :: navigator
  wd_start_ms :: int
  wd_end_ms :: int
  wd_state :: window_state
  wd_scanned_packets :: int
  wd_emitted_packets :: int
  wd_first_emitted_ms :: "int option"
  wd_last_emitted_ms :: "int option"
  wd_descriptor_verified :: bool

definition window_init :: "recording_descriptor \<Rightarrow> int dyn \<Rightarrow> int dyn \<Rightarrow> int \<Rightarrow> window_exn + window" where
  "window_init d start stop mp =
     (case (start, stop) of
        (Inst start_ms, Inst end_ms) \<Rightarrow>
          if \<not> (0 \<le> start_ms \<and> start_ms \<le> end_ms \<and> end_ms \<le> rd_duration_ms d) \<or> \<not> (1 \<le> mp \<and> mp \<le> 1000000) \<or>
             mp < rd_packet_count d
          then Inl (Window_Raw Py_ValueError)
          else (case navigator_init d (Inst start_ms) mp of
            Inl _ \<Rightarrow> Inl (Window_Raw Py_ValueError)
          | Inr n \<Rightarrow> Inr \<lparr>wd_navigator = n, wd_start_ms = start_ms, wd_end_ms = end_ms, wd_state = Window_CREATED,
                         wd_scanned_packets = 0, wd_emitted_packets = 0, wd_first_emitted_ms = None,
                         wd_last_emitted_ms = None, wd_descriptor_verified = False\<rparr>)
      | _ \<Rightarrow> Inl (Window_Raw Py_TypeError))"

definition window_snapshot :: "window \<Rightarrow> validation_error + window_snapshot" where
  "window_snapshot w =
     (if 0 \<le> wd_start_ms w \<and> 0 \<le> wd_end_ms w \<and> 0 \<le> wd_scanned_packets w \<and> wd_scanned_packets w \<le> 1000000 \<and>
         0 \<le> wd_emitted_packets w \<and> wd_emitted_packets w \<le> 1000000 \<and>
         ge0_opt (wd_first_emitted_ms w) \<and> ge0_opt (wd_last_emitted_ms w)
      then Inr \<lparr>wds_state = wd_state w, wds_start_ms = wd_start_ms w, wds_end_ms = wd_end_ms w,
                wds_scanned_packets = wd_scanned_packets w, wds_emitted_packets = wd_emitted_packets w,
                wds_first_emitted_ms = wd_first_emitted_ms w, wds_last_emitted_ms = wd_last_emitted_ms w,
                wds_descriptor_verified = wd_descriptor_verified w\<rparr>
      else Inl ValidationError)"

section \<open>The generator\<close>

definition window_finally :: "window \<Rightarrow> window" where
  "window_finally w = (if wd_state w = Window_READING then w\<lparr>wd_state := Window_ABORTED\<rparr> else w)"

type_synonym window_gen = "(timed_packet, window, window_exn) gen"

fun window_loop :: "window \<Rightarrow> navigator_gen \<Rightarrow> window_gen" where
  "window_loop w (GReturn n) =
     (let w1 = w\<lparr>wd_navigator := n\<rparr> in
      case navigator_snapshot n of
        Inl _ \<Rightarrow> GRaise (Window_Raw Py_ValidationError) (window_finally w1)
      | Inr sn \<Rightarrow> GReturn (w1\<lparr>wd_descriptor_verified := nvs_descriptor_verified sn, wd_state := Window_COMPLETE\<rparr>))"
| "window_loop w (GRaise e n) =
     (let w1 = w\<lparr>wd_navigator := n\<rparr> in
      case e of
        PlaybackNavigationError code _ \<Rightarrow>
          GRaise (PlaybackWindowError Window_NAVIGATION_FAILURE (Some code))
            (window_finally (w1\<lparr>wd_state := Window_FAILED\<rparr>))
      | Navigation_Raw x \<Rightarrow> GRaise (Window_Raw x) (window_finally w1))"
| "window_loop w (GYield item n c g) =
     (let w1 = w\<lparr>wd_scanned_packets := wd_scanned_packets w + 1\<rparr> in
      if wd_end_ms w1 < tp_elapsed_ms item then window_loop (w1\<lparr>wd_navigator := n\<rparr>) g
      else
        (let w2 = (if wd_first_emitted_ms w1 = None then w1\<lparr>wd_first_emitted_ms := Some (tp_elapsed_ms item)\<rparr> else w1);
             w3 = w2\<lparr>wd_last_emitted_ms := Some (tp_elapsed_ms item), wd_emitted_packets := wd_emitted_packets w2 + 1\<rparr>
         in GYield item (w3\<lparr>wd_navigator := n\<rparr>) (window_finally (w3\<lparr>wd_navigator := c\<rparr>))
              (window_loop (w3\<lparr>wd_navigator := n\<rparr>) g)))"

definition window_iter :: "(byte list \<times> nat option) option \<Rightarrow> bool \<Rightarrow> window \<Rightarrow> window_gen" where
  "window_iter opened close_fails w =
     (if wd_state w \<noteq> Window_CREATED then GRaise (PlaybackWindowError Window_INVALID_STATE None) w
      else window_loop (w\<lparr>wd_state := Window_READING\<rparr>) (navigator_iter opened close_fails (wd_navigator w)))"

section \<open>Invariant\<close>

definition until_ms :: "int \<Rightarrow> timed_packet list \<Rightarrow> timed_packet list" where
  "until_ms stop xs = filter (\<lambda>x. tp_elapsed_ms x \<le> stop) xs"

lemma until_ms_simps [simp]:
  "until_ms stop [] = []"
  "until_ms stop (xs @ ys) = until_ms stop xs @ until_ms stop ys"
  "until_ms stop [x] = (if tp_elapsed_ms x \<le> stop then [x] else [])"
  by (simp_all add: until_ms_def)

definition window_did :: "int \<Rightarrow> timed_packet list \<Rightarrow> window \<Rightarrow> bool" where
  "window_did stop ys w \<longleftrightarrow>
     0 \<le> wd_start_ms w \<and> wd_end_ms w = stop \<and> wd_scanned_packets w = len ys \<and> wd_emitted_packets w = len (until_ms stop ys) \<and>
     wd_first_emitted_ms w = map_option tp_elapsed_ms (case until_ms stop ys of [] \<Rightarrow> None | x # _ \<Rightarrow> Some x) \<and>
     wd_last_emitted_ms w = (if until_ms stop ys = [] then None else Some (tp_elapsed_ms (last (until_ms stop ys))))"

lemma window_did_upd [simp]:
  "window_did stop ys (w\<lparr>wd_state := x\<rparr>) = window_did stop ys w"
  "window_did stop ys (w\<lparr>wd_navigator := n\<rparr>) = window_did stop ys w"
  "window_did stop ys (w\<lparr>wd_descriptor_verified := b\<rparr>) = window_did stop ys w"
  by (simp_all add: window_did_def)

definition window_at ::
  "(timed_packet list \<Rightarrow> navigator \<Rightarrow> bool) \<Rightarrow> int \<Rightarrow> window_state \<Rightarrow> timed_packet list \<Rightarrow> window \<Rightarrow> bool" where
  "window_at P stop st xs w \<longleftrightarrow>
     (\<exists>ys. xs = until_ms stop ys \<and> window_did stop ys w \<and> P ys (wd_navigator w) \<and> wd_state w = st \<and>
        \<not> wd_descriptor_verified w)"

definition window_at_end ::
  "recording_descriptor \<Rightarrow> byte list \<Rightarrow> int \<Rightarrow> int \<Rightarrow> timed_packet list \<Rightarrow> window_exn + unit \<Rightarrow> window \<Rightarrow> bool" where
  "window_at_end d content start stop xs res w \<longleftrightarrow>
     (\<exists>ys inner. xs = until_ms stop ys \<and> window_did stop ys w \<and> navigator_at_end d content start ys inner (wd_navigator w) \<and>
       (case res of
          Inr _ \<Rightarrow> inner = Inr () \<and> wd_state w = Window_COMPLETE \<and> wd_descriptor_verified w
        | Inl e \<Rightarrow> (\<exists>code i. e = PlaybackWindowError code i) \<and> wd_state w = Window_FAILED \<and> \<not> wd_descriptor_verified w))"

lemma from_ms_set: "set (from_ms target xs) \<subseteq> set xs"
  unfolding from_ms_def by (auto dest: set_dropWhileD)

lemma navigator_at_end_snapshot:
  assumes n: "navigator_at_end d content target xs (Inr u) n" and "0 < rd_clock_rate_hz d" and "0 \<le> target"
  shows "\<exists>sn. navigator_snapshot n = Inr sn \<and> nvs_descriptor_verified sn"
proof -
  from n obtain ys ps where y: "navigator_did target ys n" "nv_descriptor_verified n" "ys = timed d ps"
      "playback_at_end d content ps (Inr ()) (tl_playback (nv_timeline n))"
    by (auto simp: navigator_at_end_def timeline_at_end_def)
  then have "len ys \<le> 1000000"
    by (auto simp: playback_at_end_def playback_did_def playback_wf_def framed_limits_ok_def)
  moreover have "length (from_ms target ys) \<le> length ys" by (simp add: from_ms_def length_dropWhile_le)
  moreover have "0 \<le> tp_elapsed_ms x" if "from_ms target ys = x # zs" for x zs
    using from_ms_set [of target ys] that timed_elapsed_nonneg [OF assms(2), of x ps] y(3) by auto
  ultimately show ?thesis
    using y(1,2) assms(3) by (auto simp: navigator_did_def navigator_snapshot_def ge0_opt_def split: list.splits)
qed

lemma window_loop_skip:
  assumes "window_did stop ys w" and "stop < tp_elapsed_ms y"
  obtains w1 where "window_loop w (GYield y n c g) = window_loop (w1\<lparr>wd_navigator := n\<rparr>) g"
    and "window_did stop (ys @ [y]) w1" and "wd_state w1 = wd_state w"
    and "wd_descriptor_verified w1 = wd_descriptor_verified w"
  by (rule that [of "w\<lparr>wd_scanned_packets := wd_scanned_packets w + 1\<rparr>"])
    (use assms in \<open>simp_all add: window_did_def Let_def\<close>)

lemma window_loop_emit:
  assumes "window_did stop ys w" and "tp_elapsed_ms y \<le> stop"
  obtains w1 where "window_loop w (GYield y n c g) = GYield y (w1\<lparr>wd_navigator := n\<rparr>)
      (window_finally (w1\<lparr>wd_navigator := c\<rparr>)) (window_loop (w1\<lparr>wd_navigator := n\<rparr>) g)"
    and "window_did stop (ys @ [y]) w1" and "wd_state w1 = wd_state w"
    and "wd_descriptor_verified w1 = wd_descriptor_verified w"
proof (cases "until_ms stop ys")
  case Nil
  show thesis
    by (rule that [of "w\<lparr>wd_scanned_packets := wd_scanned_packets w + 1, wd_first_emitted_ms := Some (tp_elapsed_ms y),
          wd_last_emitted_ms := Some (tp_elapsed_ms y), wd_emitted_packets := wd_emitted_packets w + 1\<rparr>"])
      (use assms Nil in \<open>simp_all add: window_did_def Let_def\<close>)
next
  case (Cons z zs)
  show thesis
    by (rule that [of "w\<lparr>wd_scanned_packets := wd_scanned_packets w + 1,
          wd_last_emitted_ms := Some (tp_elapsed_ms y), wd_emitted_packets := wd_emitted_packets w + 1\<rparr>"])
      (use assms Cons in \<open>simp_all add: window_did_def Let_def\<close>)
qed

abbreviation window_at_yield :: "recording_descriptor \<Rightarrow> byte list \<Rightarrow> int \<Rightarrow> int \<Rightarrow> timed_packet list \<Rightarrow> window \<Rightarrow> bool" where
  "window_at_yield d content start stop \<equiv> window_at (navigator_at_yield d content start) stop Window_READING"

abbreviation window_at_close :: "recording_descriptor \<Rightarrow> byte list \<Rightarrow> int \<Rightarrow> int \<Rightarrow> timed_packet list \<Rightarrow> window \<Rightarrow> bool" where
  "window_at_close d content start stop \<equiv> window_at (navigator_at_close d content start) stop Window_ABORTED"

lemma window_loop_spec:
  assumes "gen_spec (navigator_at_yield d content start) (navigator_at_close d content start) (navigator_at_end d content start) ys g"
    and "window_did stop ys w" and "wd_state w = Window_READING" and "\<not> wd_descriptor_verified w"
    and "0 < rd_clock_rate_hz d" and "0 \<le> start"
  shows "gen_spec (window_at_yield d content start stop) (window_at_close d content start stop)
    (window_at_end d content start stop) (until_ms stop ys) (window_loop w g)"
  using assms
proof (induction g arbitrary: ys w)
  case (GReturn n)
  then have "navigator_at_end d content start ys (Inr ()) n" by simp
  with navigator_at_end_snapshot [OF this] GReturn.prems show ?case
    by (auto simp: window_at_end_def Let_def intro!: exI [of _ ys] exI [of _ "Inr ()"])
next
  case (GRaise e n)
  then have n: "navigator_at_end d content start ys (Inl e) n" by simp
  then obtain code inner where "e = PlaybackNavigationError code inner" by (auto simp: navigator_at_end_def)
  with GRaise.prems n show ?case
    by (auto simp: window_at_end_def Let_def window_finally_def intro!: exI [of _ ys] exI [of _ "Inl e"])
next
  case (GYield y n c g)
  from GYield.prems have yn: "navigator_at_yield d content start (ys @ [y]) n" and c: "navigator_at_close d content start (ys @ [y]) c"
    and g: "gen_spec (navigator_at_yield d content start) (navigator_at_close d content start) (navigator_at_end d content start) (ys @ [y]) g"
    by simp_all
  show ?case
  proof (cases "stop < tp_elapsed_ms y")
    case True
    then obtain w1 where "window_loop w (GYield y n c g) = window_loop (w1\<lparr>wd_navigator := n\<rparr>) g"
      "window_did stop (ys @ [y]) w1" "wd_state w1 = wd_state w" "wd_descriptor_verified w1 = wd_descriptor_verified w"
      by (rule window_loop_skip [OF GYield.prems(2)])
    then show ?thesis using GYield.IH [OF g, of "w1\<lparr>wd_navigator := n\<rparr>"] GYield.prems True by simp
  next
    case False
    then have stop: "tp_elapsed_ms y \<le> stop" by simp
    then obtain w1 where step: "window_loop w (GYield y n c g) = GYield y (w1\<lparr>wd_navigator := n\<rparr>)
          (window_finally (w1\<lparr>wd_navigator := c\<rparr>)) (window_loop (w1\<lparr>wd_navigator := n\<rparr>) g)"
      and w1: "window_did stop (ys @ [y]) w1" "wd_state w1 = wd_state w" "wd_descriptor_verified w1 = wd_descriptor_verified w"
      by (rule window_loop_emit [OF GYield.prems(2)])
    have "window_at_yield d content start stop (until_ms stop ys @ [y]) (w1\<lparr>wd_navigator := n\<rparr>)"
      unfolding window_at_def using w1 yn GYield.prems(3,4) stop by (intro exI [of _ "ys @ [y]"]) simp
    moreover have "window_at_close d content start stop (until_ms stop ys @ [y]) (window_finally (w1\<lparr>wd_navigator := c\<rparr>))"
      unfolding window_at_def using w1 c GYield.prems(3,4) stop
      by (intro exI [of _ "ys @ [y]"]) (auto simp: window_finally_def)
    moreover have "gen_spec (window_at_yield d content start stop) (window_at_close d content start stop)
        (window_at_end d content start stop) (until_ms stop ys @ [y]) (window_loop (w1\<lparr>wd_navigator := n\<rparr>) g)"
      using GYield.IH [OF g, of "w1\<lparr>wd_navigator := n\<rparr>"] w1 GYield.prems stop by simp
    ultimately show ?thesis unfolding step by simp
  qed
qed

section \<open>The layer as a whole\<close>

definition window_new :: "window \<Rightarrow> bool" where
  "window_new w \<longleftrightarrow>
     (wd_state w = Window_CREATED \<longrightarrow>
        navigator_new (wd_navigator w) \<and> nv_state (wd_navigator w) = Navigation_CREATED \<and>
        nv_target_ms (wd_navigator w) = wd_start_ms w \<and> 0 \<le> wd_start_ms w \<and>
        wd_scanned_packets w = 0 \<and> wd_emitted_packets w = 0 \<and> wd_first_emitted_ms w = None \<and>
        wd_last_emitted_ms w = None \<and> \<not> wd_descriptor_verified w)"

lemma window_initE:
  assumes "window_init d (Inst start) (Inst stop) mp = Inr w" and "descriptor_fields_ok d"
  obtains "window_new w" "wd_state w = Window_CREATED" "wd_start_ms w = start" "wd_end_ms w = stop"
    "navigator_init d (Inst start) mp = Inr (wd_navigator w)" "tl_descriptor (nv_timeline (wd_navigator w)) = d"
    "0 \<le> start" "start \<le> stop" "stop \<le> rd_duration_ms d"
proof -
  from assms(1) obtain n where n: "navigator_init d (Inst start) mp = Inr n"
    and w: "w = \<lparr>wd_navigator = n, wd_start_ms = start, wd_end_ms = stop, wd_state = Window_CREATED,
      wd_scanned_packets = 0, wd_emitted_packets = 0, wd_first_emitted_ms = None,
      wd_last_emitted_ms = None, wd_descriptor_verified = False\<rparr>"
    and b: "0 \<le> start" "start \<le> stop" "stop \<le> rd_duration_ms d"
    by (auto simp: window_init_def split: if_splits sum.splits)
  have "navigator_new n \<and> nv_state n = Navigation_CREATED \<and> nv_target_ms n = start \<and> tl_descriptor (nv_timeline n) = d"
    by (rule navigator_initE [OF n assms(2)]) simp
  with n w b that show thesis by (simp add: window_new_def)
qed

lemma window_iter_spec:
  assumes "window_new w" and "wd_state w = Window_CREATED"
  shows "gen_spec
    (window_at_yield (tl_descriptor (nv_timeline (wd_navigator w))) (opened_bytes opened) (wd_start_ms w) (wd_end_ms w))
    (window_at_close (tl_descriptor (nv_timeline (wd_navigator w))) (opened_bytes opened) (wd_start_ms w) (wd_end_ms w))
    (window_at_end (tl_descriptor (nv_timeline (wd_navigator w))) (opened_bytes opened) (wd_start_ms w) (wd_end_ms w)) []
    (window_iter opened cf w)"
proof -
  from assms have n: "navigator_new (wd_navigator w)" "nv_state (wd_navigator w) = Navigation_CREATED"
    "nv_target_ms (wd_navigator w) = wd_start_ms w" "0 \<le> wd_start_ms w" by (simp_all add: window_new_def)
  then have c: "0 < rd_clock_rate_hz (tl_descriptor (nv_timeline (wd_navigator w)))" by (simp add: navigator_new_def)
  have "window_did (wd_end_ms w) [] (w\<lparr>wd_state := Window_READING\<rparr>)"
    using assms by (simp add: window_did_def window_new_def)
  from window_loop_spec [OF navigator_iter_spec [OF n(1,2), unfolded n(3)] this _ _ c n(4)] assms show ?thesis
    by (simp add: window_iter_def window_new_def)
qed

interpretation window_source: one_shot "window_iter opened cf" window_new
  "\<lambda>w. wd_state w = Window_CREATED" "\<lambda>w. wd_state w = Window_COMPLETE"
  "PlaybackWindowError Window_INVALID_STATE None" for opened cf
proof unfold_locales
  fix w w' :: window
  show "wd_state w \<noteq> Window_CREATED \<Longrightarrow> window_iter opened cf w = GRaise (PlaybackWindowError Window_INVALID_STATE None) w"
    by (simp add: window_iter_def)
  assume new: "window_new w" "wd_state w = Window_CREATED"
  note spec = window_iter_spec [OF new, of opened cf]
  have close: "wd_state w' = Window_ABORTED" if "w' \<in> gen_closes (window_iter opened cf w)"
    using gen_spec_closes [OF spec that] by (auto simp: window_at_def)
  then show "w' \<in> gen_closes (window_iter opened cf w) \<Longrightarrow> wd_state w' \<noteq> Window_COMPLETE" by simp
  obtain res w2 where e: "gen_end (window_iter opened cf w) = (res, w2)" by fastforce
  with gen_spec_end [OF spec]
  show "fst (gen_end (window_iter opened cf w)) = Inr () \<longleftrightarrow> wd_state (snd (gen_end (window_iter opened cf w))) = Window_COMPLETE"
    by (cases res) (auto simp: window_at_end_def)
  from gen_spec_end [OF spec] e close
  show "w' \<in> gen_finals (window_iter opened cf w) \<Longrightarrow> wd_state w' \<noteq> Window_CREATED"
    by (cases res) (auto simp: gen_finals_eq window_at_end_def)
qed

lemma window_loop_items: "gen_items (window_loop w g) = until_ms (wd_end_ms w) (gen_items g)"
proof (induction g arbitrary: w)
  case (GRaise e n)
  then show ?case by (cases e) (simp_all add: Let_def)
qed (simp_all add: Let_def until_ms_def split: sum.splits)

lemma window_loop_end:
  assumes "gen_spec (navigator_at_yield d content start) (navigator_at_close d content start) (navigator_at_end d content start) ys g"
    and "fst (gen_end g) = Inr ()" and "0 < rd_clock_rate_hz d" and "0 \<le> start"
  shows "fst (gen_end (window_loop w g)) = Inr ()"
  using assms
proof (induction g arbitrary: ys w)
  case (GReturn n)
  then have "navigator_at_end d content start ys (Inr ()) n" by simp
  with navigator_at_end_snapshot [OF this] GReturn.prems show ?case by (auto simp: Let_def)
next
  case (GYield y n c g)
  then have "fst (gen_end (window_loop w g)) = Inr ()" for w using GYield.IH [of "ys @ [y]" w] by simp
  then show ?case by (simp add: Let_def)
qed simp

text \<open>
  What a window yields of a recording that matches its descriptor.
\<close>

lemma window_items:
  assumes init: "window_init d (Inst start) (Inst stop) mp = Inr w" and "describes d ps" and "smooth ps"
  shows "gen_items (window_iter (recording_of ps) cf w) =
      filter (\<lambda>x. start \<le> tp_elapsed_ms x \<and> tp_elapsed_ms x \<le> stop) (timed d ps) \<and>
    fst (gen_end (window_iter (recording_of ps) cf w)) = Inr ()"
proof -
  have ok: "descriptor_fields_ok d" using assms(2) by (simp add: describes_def)
  then have clock: "0 < rd_clock_rate_hz d" by (simp add: descriptor_fields_ok_def)
  from window_initE [OF init ok] have w: "window_new w" "wd_state w = Window_CREATED" "wd_start_ms w = start" "wd_end_ms w = stop"
    "navigator_init d (Inst start) mp = Inr (wd_navigator w)" "tl_descriptor (nv_timeline (wd_navigator w)) = d" "0 \<le> start"
    by blast+
  then have n: "navigator_new (wd_navigator w)" "nv_state (wd_navigator w) = Navigation_CREATED"
    "nv_target_ms (wd_navigator w) = start" by (simp_all add: window_new_def)
  let ?g = "navigator_iter (recording_of ps) cf (wd_navigator w)"
  from navigator_items [OF w(5) assms(2,3), of cf] from_ms_filter [OF timed_sorted [OF clock]]
  have g: "gen_items ?g = filter (\<lambda>x. start \<le> tp_elapsed_ms x) (timed d ps)" "fst (gen_end ?g) = Inr ()" by simp_all
  from window_loop_end [OF navigator_iter_spec [OF n(1,2), of "recording_of ps" cf, unfolded n(3) w(6)] g(2) clock w(7)] g w(2,4)
  show ?thesis by (simp add: window_iter_def window_loop_items until_ms_def conj_commute)
qed

end
