(* ===== verification/Playback_Schedule.thy ===== *)
theory Playback_Schedule
  imports Playback_Window
begin

text \<open>
  \<open>src/src/k5vision/media/playback_schedule.py\<close>: \<open>BoundedPlaybackSchedule\<close> gives every packet of a
  window the time it is due at a playback rate, in milliseconds after the first one.
\<close>

section \<open>State\<close>

datatype playback_rate = QUARTER | HALF | NORMAL | DOUBLE | QUADRUPLE | OCTUPLE | SIXTEEN

fun rate_ratio :: "playback_rate \<Rightarrow> int \<times> int" where
  "rate_ratio QUARTER = (1, 4)"
| "rate_ratio HALF = (1, 2)"
| "rate_ratio NORMAL = (1, 1)"
| "rate_ratio DOUBLE = (2, 1)"
| "rate_ratio QUADRUPLE = (4, 1)"
| "rate_ratio OCTUPLE = (8, 1)"
| "rate_ratio SIXTEEN = (16, 1)"

datatype schedule_state =
  Schedule_CREATED | Schedule_SCHEDULING | Schedule_COMPLETE | Schedule_ABORTED | Schedule_FAILED

datatype schedule_error_code = Schedule_INVALID_STATE | Schedule_WINDOW_FAILURE

datatype schedule_exn =
    PlaybackScheduleError schedule_error_code "window_error_code option"
  | Schedule_Raw python_exn

record scheduled_packet =
  sp_packet :: "byte list"
  sp_ordinal :: int
  sp_source_elapsed_ms :: int
  sp_due_ms :: int

record schedule_snapshot =
  shs_state :: schedule_state
  shs_rate :: playback_rate
  shs_packets :: int
  shs_source_span_ms :: int
  shs_scheduled_span_ms :: int
  shs_descriptor_verified :: bool

record schedule =
  sh_window :: window
  sh_rate :: playback_rate
  sh_state :: schedule_state
  sh_packets :: int
  sh_source_span_ms :: int
  sh_scheduled_span_ms :: int
  sh_descriptor_verified :: bool

text \<open>What the constructors of the layers below raise passes through.\<close>

fun raw_of_window :: "window_exn \<Rightarrow> schedule_exn" where
  "raw_of_window (PlaybackWindowError code i) = Schedule_Raw Py_ValueError"
| "raw_of_window (Window_Raw x) = Schedule_Raw x"

definition schedule_init ::
  "recording_descriptor \<Rightarrow> int dyn \<Rightarrow> int dyn \<Rightarrow> playback_rate dyn \<Rightarrow> int \<Rightarrow> schedule_exn + schedule" where
  "schedule_init d start stop rate mp =
     (case rate of
        NotInst \<Rightarrow> Inl (Schedule_Raw Py_TypeError)
      | Inst r \<Rightarrow>
          (case window_init d start stop mp of
             Inl e \<Rightarrow> Inl (raw_of_window e)
           | Inr w \<Rightarrow> Inr \<lparr>sh_window = w, sh_rate = r, sh_state = Schedule_CREATED, sh_packets = 0,
                          sh_source_span_ms = 0, sh_scheduled_span_ms = 0, sh_descriptor_verified = False\<rparr>))"

definition schedule_snapshot :: "schedule \<Rightarrow> validation_error + schedule_snapshot" where
  "schedule_snapshot s =
     (if 0 \<le> sh_packets s \<and> sh_packets s \<le> 1000000 \<and> 0 \<le> sh_source_span_ms s \<and> 0 \<le> sh_scheduled_span_ms s
      then Inr \<lparr>shs_state = sh_state s, shs_rate = sh_rate s, shs_packets = sh_packets s,
                shs_source_span_ms = sh_source_span_ms s, shs_scheduled_span_ms = sh_scheduled_span_ms s,
                shs_descriptor_verified = sh_descriptor_verified s\<rparr>
      else Inl ValidationError)"

section \<open>The generator\<close>

definition schedule_finally :: "schedule \<Rightarrow> schedule" where
  "schedule_finally s = (if sh_state s = Schedule_SCHEDULING then s\<lparr>sh_state := Schedule_ABORTED\<rparr> else s)"

type_synonym schedule_gen = "(scheduled_packet, schedule, schedule_exn) gen"

text \<open>The local \<open>origin_ms\<close> is an argument of the loop.\<close>

fun schedule_loop :: "schedule \<Rightarrow> int option \<Rightarrow> window_gen \<Rightarrow> schedule_gen" where
  "schedule_loop s origin (GReturn w) =
     (let s1 = s\<lparr>sh_window := w\<rparr> in
      case window_snapshot w of
        Inl _ \<Rightarrow> GRaise (Schedule_Raw Py_ValidationError) (schedule_finally s1)
      | Inr sn \<Rightarrow> GReturn (s1\<lparr>sh_descriptor_verified := wds_descriptor_verified sn, sh_state := Schedule_COMPLETE\<rparr>))"
| "schedule_loop s origin (GRaise e w) =
     (let s1 = s\<lparr>sh_window := w\<rparr> in
      case e of
        PlaybackWindowError code _ \<Rightarrow>
          GRaise (PlaybackScheduleError Schedule_WINDOW_FAILURE (Some code))
            (schedule_finally (s1\<lparr>sh_state := Schedule_FAILED\<rparr>))
      | Window_Raw x \<Rightarrow> GRaise (Schedule_Raw x) (schedule_finally s1))"
| "schedule_loop s origin (GYield item w c g) =
     (let origin_ms = (case origin of None \<Rightarrow> tp_elapsed_ms item | Some x \<Rightarrow> x);
          (numerator, denominator) = rate_ratio (sh_rate s);
          source_delta_ms = tp_elapsed_ms item - origin_ms;
          due_ms = source_delta_ms * denominator div numerator;
          s1 = s\<lparr>sh_packets := sh_packets s + 1, sh_source_span_ms := source_delta_ms, sh_scheduled_span_ms := due_ms\<rparr>
      in GYield \<lparr>sp_packet = tp_packet item, sp_ordinal = sh_packets s1 - 1, sp_source_elapsed_ms = tp_elapsed_ms item,
                 sp_due_ms = due_ms\<rparr>
           (s1\<lparr>sh_window := w\<rparr>) (schedule_finally (s1\<lparr>sh_window := c\<rparr>))
           (schedule_loop (s1\<lparr>sh_window := w\<rparr>) (Some origin_ms) g))"

definition schedule_iter :: "(byte list \<times> nat option) option \<Rightarrow> bool \<Rightarrow> schedule \<Rightarrow> schedule_gen" where
  "schedule_iter opened close_fails s =
     (if sh_state s \<noteq> Schedule_CREATED then GRaise (PlaybackScheduleError Schedule_INVALID_STATE None) s
      else schedule_loop (s\<lparr>sh_state := Schedule_SCHEDULING\<rparr>) None (window_iter opened close_fails (sh_window s)))"

section \<open>What the loop computes\<close>

definition due_at :: "playback_rate \<Rightarrow> int \<Rightarrow> int" where
  "due_at rate delta = delta * snd (rate_ratio rate) div fst (rate_ratio rate)"

definition scheduled :: "playback_rate \<Rightarrow> timed_packet list \<Rightarrow> scheduled_packet list" where
  "scheduled rate ys = map (\<lambda>i. \<lparr>sp_packet = tp_packet (ys ! i), sp_ordinal = int i,
     sp_source_elapsed_ms = tp_elapsed_ms (ys ! i),
     sp_due_ms = due_at rate (tp_elapsed_ms (ys ! i) - tp_elapsed_ms (hd ys))\<rparr>) [0..<length ys]"

lemma scheduled_Nil [simp]: "scheduled rate [] = []"
  by (simp add: scheduled_def)

lemma length_scheduled [simp]: "length (scheduled rate ys) = length ys"
  by (simp add: scheduled_def)

lemma scheduled_snoc: "scheduled rate (ys @ [y]) = scheduled rate ys @ [\<lparr>sp_packet = tp_packet y, sp_ordinal = len ys,
    sp_source_elapsed_ms = tp_elapsed_ms y, sp_due_ms = due_at rate (tp_elapsed_ms y - tp_elapsed_ms (hd (ys @ [y])))\<rparr>]"
  by (cases "ys = []") (simp_all add: scheduled_def nth_append)

lemma map_packet_scheduled [simp]: "map sp_packet (scheduled rate ys) = map tp_packet ys"
  by (intro nth_equalityI) (simp_all add: scheduled_def)

lemma rate_ratio_pos: "0 < fst (rate_ratio rate)" "0 < snd (rate_ratio rate)"
  by (cases rate; simp)+

lemma due_at_mono: "a \<le> b \<Longrightarrow> due_at rate a \<le> due_at rate b"
  using rate_ratio_pos [of rate] by (simp add: due_at_def zdiv_mono1)

lemma due_at_nonneg: "0 \<le> a \<Longrightarrow> 0 \<le> due_at rate a"
  using due_at_mono [of 0 a rate] by (simp add: due_at_def)

lemma scheduled_sorted:
  assumes "sorted (map tp_elapsed_ms ys)"
  shows "sorted (map sp_due_ms (scheduled rate ys))"
proof -
  have "map sp_due_ms (scheduled rate ys) = map (\<lambda>y. due_at rate (tp_elapsed_ms y - tp_elapsed_ms (hd ys))) ys"
    by (intro nth_equalityI) (simp_all add: scheduled_def)
  with assms show ?thesis
    by (auto simp: sorted_iff_nth_mono due_at_mono)
qed

definition schedule_did :: "timed_packet list \<Rightarrow> schedule \<Rightarrow> bool" where
  "schedule_did ys s \<longleftrightarrow>
     sh_packets s = len ys \<and>
     sh_source_span_ms s = (if ys = [] then 0 else tp_elapsed_ms (last ys) - tp_elapsed_ms (hd ys)) \<and>
     sh_scheduled_span_ms s = (if ys = [] then 0 else due_at (sh_rate s) (tp_elapsed_ms (last ys) - tp_elapsed_ms (hd ys)))"

lemma schedule_did_upd [simp]:
  "schedule_did ys (s\<lparr>sh_state := x\<rparr>) = schedule_did ys s"
  "schedule_did ys (s\<lparr>sh_window := w\<rparr>) = schedule_did ys s"
  "schedule_did ys (s\<lparr>sh_descriptor_verified := b\<rparr>) = schedule_did ys s"
  by (simp_all add: schedule_did_def)

definition origin_of :: "timed_packet list \<Rightarrow> int option" where
  "origin_of ys = (if ys = [] then None else Some (tp_elapsed_ms (hd ys)))"

lemma schedule_loop_packet:
  assumes "schedule_did ys s"
  obtains s1 where "schedule_loop s (origin_of ys) (GYield y w c g) =
      GYield (last (scheduled (sh_rate s) (ys @ [y]))) (s1\<lparr>sh_window := w\<rparr>) (schedule_finally (s1\<lparr>sh_window := c\<rparr>))
        (schedule_loop (s1\<lparr>sh_window := w\<rparr>) (origin_of (ys @ [y])) g)"
    and "schedule_did (ys @ [y]) s1" and "sh_state s1 = sh_state s" and "sh_rate s1 = sh_rate s"
    and "sh_descriptor_verified s1 = sh_descriptor_verified s"
proof -
  let ?o = "tp_elapsed_ms (hd (ys @ [y]))"
  let ?s = "s\<lparr>sh_packets := sh_packets s + 1, sh_source_span_ms := tp_elapsed_ms y - ?o,
    sh_scheduled_span_ms := due_at (sh_rate s) (tp_elapsed_ms y - ?o)\<rparr>"
  have o: "(case origin_of ys of None \<Rightarrow> tp_elapsed_ms y | Some x \<Rightarrow> x) = ?o" by (cases ys) (simp_all add: origin_of_def)
  have o': "origin_of (ys @ [y]) = Some ?o" by (simp add: origin_of_def)
  show thesis
  proof (rule that [of ?s])
    show "schedule_loop s (origin_of ys) (GYield y w c g) =
      GYield (last (scheduled (sh_rate s) (ys @ [y]))) (?s\<lparr>sh_window := w\<rparr>) (schedule_finally (?s\<lparr>sh_window := c\<rparr>))
        (schedule_loop (?s\<lparr>sh_window := w\<rparr>) (origin_of (ys @ [y])) g)"
      using assms unfolding schedule_loop.simps o o' scheduled_snoc
      by (simp add: Let_def schedule_did_def due_at_def case_prod_beta)
    show "schedule_did (ys @ [y]) ?s" using assms by (simp add: schedule_did_def)
  qed simp_all
qed

section \<open>Invariant\<close>

definition schedule_at ::
  "(timed_packet list \<Rightarrow> window \<Rightarrow> bool) \<Rightarrow> playback_rate \<Rightarrow> schedule_state \<Rightarrow> scheduled_packet list \<Rightarrow> schedule \<Rightarrow> bool" where
  "schedule_at P rate st xs s \<longleftrightarrow>
     (\<exists>ys. xs = scheduled rate ys \<and> sh_rate s = rate \<and> schedule_did ys s \<and> P ys (sh_window s) \<and> sh_state s = st \<and>
        \<not> sh_descriptor_verified s)"

definition schedule_at_end ::
  "recording_descriptor \<Rightarrow> byte list \<Rightarrow> int \<Rightarrow> int \<Rightarrow> playback_rate \<Rightarrow> scheduled_packet list \<Rightarrow>
   schedule_exn + unit \<Rightarrow> schedule \<Rightarrow> bool" where
  "schedule_at_end d content start stop rate xs res s \<longleftrightarrow>
     (\<exists>ys inner. xs = scheduled rate ys \<and> sh_rate s = rate \<and> schedule_did ys s \<and>
       window_at_end d content start stop ys inner (sh_window s) \<and>
       (case res of
          Inr _ \<Rightarrow> inner = Inr () \<and> sh_state s = Schedule_COMPLETE \<and> sh_descriptor_verified s
        | Inl e \<Rightarrow> (\<exists>code i. e = PlaybackScheduleError code i) \<and> sh_state s = Schedule_FAILED \<and> \<not> sh_descriptor_verified s))"

lemma window_at_end_snapshot:
  assumes w: "window_at_end d content start stop xs (Inr u) w" and "0 < rd_clock_rate_hz d" and "0 \<le> start"
    and "0 \<le> stop"
  shows "\<exists>sn. window_snapshot w = Inr sn \<and> wds_descriptor_verified sn"
proof -
  from w obtain ys where y: "window_did stop ys w" "wd_descriptor_verified w"
      "navigator_at_end d content start ys (Inr ()) (wd_navigator w)"
    by (auto simp: window_at_end_def)
  then obtain zs ps where z: "ys = from_ms start zs" "zs = timed d ps"
      "playback_at_end d content ps (Inr ()) (tl_playback (nv_timeline (wd_navigator w)))"
    by (auto simp: navigator_at_end_def timeline_at_end_def)
  then have "len zs \<le> 1000000"
    by (auto simp: playback_at_end_def playback_did_def playback_wf_def framed_limits_ok_def)
  moreover have "length ys \<le> length zs" using z(1) by (simp add: from_ms_def length_dropWhile_le)
  moreover have "length (until_ms stop ys) \<le> length ys" by (simp add: until_ms_def)
  moreover have nn: "0 \<le> tp_elapsed_ms x" if "x \<in> set (until_ms stop ys)" for x
    using that from_ms_set [of start zs] timed_elapsed_nonneg [OF assms(2), of x ps] z(1,2) by (auto simp: until_ms_def)
  then have "ge0_opt (wd_first_emitted_ms w)" "ge0_opt (wd_last_emitted_ms w)"
    using y(1) by (auto simp: window_did_def ge0_opt_def split: list.splits)
  ultimately show ?thesis
    using y(1,2) assms(4) by (simp add: window_did_def window_snapshot_def)
qed

abbreviation schedule_at_yield ::
  "recording_descriptor \<Rightarrow> byte list \<Rightarrow> int \<Rightarrow> int \<Rightarrow> playback_rate \<Rightarrow> scheduled_packet list \<Rightarrow> schedule \<Rightarrow> bool" where
  "schedule_at_yield d content start stop rate \<equiv> schedule_at (window_at_yield d content start stop) rate Schedule_SCHEDULING"

abbreviation schedule_at_close ::
  "recording_descriptor \<Rightarrow> byte list \<Rightarrow> int \<Rightarrow> int \<Rightarrow> playback_rate \<Rightarrow> scheduled_packet list \<Rightarrow> schedule \<Rightarrow> bool" where
  "schedule_at_close d content start stop rate \<equiv> schedule_at (window_at_close d content start stop) rate Schedule_ABORTED"

lemma schedule_loop_spec:
  assumes "gen_spec (window_at_yield d content start stop) (window_at_close d content start stop) (window_at_end d content start stop) ys g"
    and "schedule_did ys s" and "sh_rate s = rate" and "sh_state s = Schedule_SCHEDULING" and "\<not> sh_descriptor_verified s"
    and "0 < rd_clock_rate_hz d" and "0 \<le> start" and "0 \<le> stop"
  shows "gen_spec (schedule_at_yield d content start stop rate) (schedule_at_close d content start stop rate)
    (schedule_at_end d content start stop rate) (scheduled rate ys) (schedule_loop s (origin_of ys) g)"
  using assms
proof (induction g arbitrary: ys s)
  case (GReturn w)
  then have "window_at_end d content start stop ys (Inr ()) w" by simp
  with window_at_end_snapshot [OF this] GReturn.prems show ?case
    by (auto simp: schedule_at_end_def Let_def intro!: exI [of _ ys] exI [of _ "Inr ()"])
next
  case (GRaise e w)
  then have w: "window_at_end d content start stop ys (Inl e) w" by simp
  then obtain code i where "e = PlaybackWindowError code i" by (auto simp: window_at_end_def)
  with GRaise.prems w show ?case
    by (auto simp: schedule_at_end_def Let_def schedule_finally_def intro!: exI [of _ ys] exI [of _ "Inl e"])
next
  case (GYield y w c g)
  from GYield.prems have yw: "window_at_yield d content start stop (ys @ [y]) w" and c: "window_at_close d content start stop (ys @ [y]) c"
    and g: "gen_spec (window_at_yield d content start stop) (window_at_close d content start stop) (window_at_end d content start stop) (ys @ [y]) g"
    by simp_all
  obtain s1 where step: "schedule_loop s (origin_of ys) (GYield y w c g) =
      GYield (last (scheduled (sh_rate s) (ys @ [y]))) (s1\<lparr>sh_window := w\<rparr>) (schedule_finally (s1\<lparr>sh_window := c\<rparr>))
        (schedule_loop (s1\<lparr>sh_window := w\<rparr>) (origin_of (ys @ [y])) g)"
    and s1: "schedule_did (ys @ [y]) s1" "sh_state s1 = sh_state s" "sh_rate s1 = sh_rate s"
      "sh_descriptor_verified s1 = sh_descriptor_verified s"
    by (rule schedule_loop_packet [OF GYield.prems(2)])
  have x: "scheduled rate ys @ [last (scheduled (sh_rate s) (ys @ [y]))] = scheduled rate (ys @ [y])"
    using GYield.prems(3) by (simp add: scheduled_snoc)
  have "schedule_at_yield d content start stop rate (scheduled rate (ys @ [y])) (s1\<lparr>sh_window := w\<rparr>)"
    unfolding schedule_at_def using s1 yw GYield.prems(3-5) by (intro exI [of _ "ys @ [y]"]) simp
  moreover have "schedule_at_close d content start stop rate (scheduled rate (ys @ [y])) (schedule_finally (s1\<lparr>sh_window := c\<rparr>))"
    unfolding schedule_at_def using s1 c GYield.prems(3-5)
    by (intro exI [of _ "ys @ [y]"]) (auto simp: schedule_finally_def)
  moreover have "gen_spec (schedule_at_yield d content start stop rate) (schedule_at_close d content start stop rate)
      (schedule_at_end d content start stop rate) (scheduled rate (ys @ [y])) (schedule_loop (s1\<lparr>sh_window := w\<rparr>) (origin_of (ys @ [y])) g)"
    using GYield.IH [OF g, of "s1\<lparr>sh_window := w\<rparr>"] s1 GYield.prems by simp
  ultimately show ?case unfolding step by (simp add: x)
qed

section \<open>The layer as a whole\<close>

definition schedule_new :: "schedule \<Rightarrow> bool" where
  "schedule_new s \<longleftrightarrow>
     (sh_state s = Schedule_CREATED \<longrightarrow>
        window_new (sh_window s) \<and> wd_state (sh_window s) = Window_CREATED \<and> 0 \<le> wd_end_ms (sh_window s) \<and>
        sh_packets s = 0 \<and> sh_source_span_ms s = 0 \<and> sh_scheduled_span_ms s = 0 \<and> \<not> sh_descriptor_verified s)"

lemma schedule_initE:
  assumes "schedule_init d (Inst start) (Inst stop) (Inst rate) mp = Inr s" and "descriptor_fields_ok d"
  obtains "schedule_new s" "sh_state s = Schedule_CREATED" "sh_rate s = rate"
    "window_init d (Inst start) (Inst stop) mp = Inr (sh_window s)"
proof -
  from assms(1) obtain w where w: "window_init d (Inst start) (Inst stop) mp = Inr w"
    and s: "s = \<lparr>sh_window = w, sh_rate = rate, sh_state = Schedule_CREATED, sh_packets = 0,
      sh_source_span_ms = 0, sh_scheduled_span_ms = 0, sh_descriptor_verified = False\<rparr>"
    by (auto simp: schedule_init_def split: sum.splits)
  have "window_new w \<and> wd_state w = Window_CREATED \<and> 0 \<le> wd_end_ms w"
    by (rule window_initE [OF w assms(2)]) simp
  with w s that show thesis by (simp add: schedule_new_def)
qed

abbreviation schedule_descriptor :: "schedule \<Rightarrow> recording_descriptor" where
  "schedule_descriptor s \<equiv> tl_descriptor (nv_timeline (wd_navigator (sh_window s)))"

lemma schedule_iter_spec:
  assumes "schedule_new s" and "sh_state s = Schedule_CREATED"
  shows "gen_spec
    (schedule_at_yield (schedule_descriptor s) (opened_bytes opened) (wd_start_ms (sh_window s)) (wd_end_ms (sh_window s)) (sh_rate s))
    (schedule_at_close (schedule_descriptor s) (opened_bytes opened) (wd_start_ms (sh_window s)) (wd_end_ms (sh_window s)) (sh_rate s))
    (schedule_at_end (schedule_descriptor s) (opened_bytes opened) (wd_start_ms (sh_window s)) (wd_end_ms (sh_window s)) (sh_rate s)) []
    (schedule_iter opened cf s)"
proof -
  from assms have w: "window_new (sh_window s)" "wd_state (sh_window s) = Window_CREATED" "0 \<le> wd_end_ms (sh_window s)"
    by (simp_all add: schedule_new_def)
  then have c: "0 < rd_clock_rate_hz (schedule_descriptor s)" "0 \<le> wd_start_ms (sh_window s)"
    by (simp_all add: window_new_def navigator_new_def)
  have "schedule_did [] (s\<lparr>sh_state := Schedule_SCHEDULING\<rparr>)"
    using assms by (simp add: schedule_did_def schedule_new_def)
  from schedule_loop_spec [OF window_iter_spec [OF w(1,2)] this refl _ _ c w(3)] assms show ?thesis
    by (simp add: schedule_iter_def schedule_new_def origin_of_def)
qed

interpretation schedule_source: one_shot "schedule_iter opened cf" schedule_new
  "\<lambda>s. sh_state s = Schedule_CREATED" "\<lambda>s. sh_state s = Schedule_COMPLETE"
  "PlaybackScheduleError Schedule_INVALID_STATE None" for opened cf
proof unfold_locales
  fix s s' :: schedule
  show "sh_state s \<noteq> Schedule_CREATED \<Longrightarrow> schedule_iter opened cf s = GRaise (PlaybackScheduleError Schedule_INVALID_STATE None) s"
    by (simp add: schedule_iter_def)
  assume new: "schedule_new s" "sh_state s = Schedule_CREATED"
  note spec = schedule_iter_spec [OF new, of opened cf]
  have close: "sh_state s' = Schedule_ABORTED" if "s' \<in> gen_closes (schedule_iter opened cf s)"
    using gen_spec_closes [OF spec that] by (auto simp: schedule_at_def)
  then show "s' \<in> gen_closes (schedule_iter opened cf s) \<Longrightarrow> sh_state s' \<noteq> Schedule_COMPLETE" by simp
  obtain res s2 where e: "gen_end (schedule_iter opened cf s) = (res, s2)" by fastforce
  with gen_spec_end [OF spec]
  show "fst (gen_end (schedule_iter opened cf s)) = Inr () \<longleftrightarrow> sh_state (snd (gen_end (schedule_iter opened cf s))) = Schedule_COMPLETE"
    by (cases res) (auto simp: schedule_at_end_def)
  from gen_spec_end [OF spec] e close
  show "s' \<in> gen_finals (schedule_iter opened cf s) \<Longrightarrow> sh_state s' \<noteq> Schedule_CREATED"
    by (cases res) (auto simp: gen_finals_eq schedule_at_end_def)
qed

lemma schedule_loop_items:
  assumes "schedule_did ys s"
  shows "scheduled (sh_rate s) ys @ gen_items (schedule_loop s (origin_of ys) g) = scheduled (sh_rate s) (ys @ gen_items g)"
  using assms
proof (induction g arbitrary: ys s)
  case (GRaise e w)
  then show ?case by (cases e) (simp_all add: Let_def)
next
  case (GYield y w c g)
  obtain s1 where step: "schedule_loop s (origin_of ys) (GYield y w c g) =
      GYield (last (scheduled (sh_rate s) (ys @ [y]))) (s1\<lparr>sh_window := w\<rparr>) (schedule_finally (s1\<lparr>sh_window := c\<rparr>))
        (schedule_loop (s1\<lparr>sh_window := w\<rparr>) (origin_of (ys @ [y])) g)"
    and s1: "schedule_did (ys @ [y]) s1" "sh_rate s1 = sh_rate s"
    by (rule schedule_loop_packet [OF GYield.prems])
  from GYield.IH [of "ys @ [y]" "s1\<lparr>sh_window := w\<rparr>"] s1 show ?case unfolding step by (simp add: scheduled_snoc)
qed (simp add: Let_def split: sum.splits)

lemma schedule_loop_end:
  assumes "gen_spec (window_at_yield d content start stop) (window_at_close d content start stop) (window_at_end d content start stop) ys g"
    and "fst (gen_end g) = Inr ()" and "0 < rd_clock_rate_hz d" and "0 \<le> start" and "0 \<le> stop"
  shows "fst (gen_end (schedule_loop s origin g)) = Inr ()"
  using assms
proof (induction g arbitrary: ys s origin)
  case (GReturn w)
  then have "window_at_end d content start stop ys (Inr ()) w" by simp
  with window_at_end_snapshot [OF this] GReturn.prems show ?case by (auto simp: Let_def)
next
  case (GYield y w c g)
  then have "fst (gen_end (schedule_loop s origin g)) = Inr ()" for s origin
    using GYield.IH [of "ys @ [y]" s origin] by simp
  then show ?case by (simp add: Let_def case_prod_beta)
qed simp

lemma schedule_items:
  assumes "schedule_init d (Inst start) (Inst stop) (Inst rate) mp = Inr s" and "describes d ps" and "smooth ps"
  shows "\<exists>s'. gen_items (schedule_iter (recording_of ps) cf s) =
      scheduled rate (filter (\<lambda>x. start \<le> tp_elapsed_ms x \<and> tp_elapsed_ms x \<le> stop) (timed d ps)) \<and>
    sorted (map sp_due_ms (gen_items (schedule_iter (recording_of ps) cf s))) \<and>
    gen_end (schedule_iter (recording_of ps) cf s) = (Inr (), s') \<and>
    sh_state s' = Schedule_COMPLETE \<and> sh_descriptor_verified s'"
proof -
  have ok: "descriptor_fields_ok d" using assms(2) by (simp add: describes_def)
  then have clock: "0 < rd_clock_rate_hz d" by (simp add: descriptor_fields_ok_def)
  from schedule_initE [OF assms(1) ok] have s: "schedule_new s" "sh_state s = Schedule_CREATED" "sh_rate s = rate"
    "window_init d (Inst start) (Inst stop) mp = Inr (sh_window s)" by blast+
  from window_initE [OF s(4) ok] have w: "window_new (sh_window s)" "wd_state (sh_window s) = Window_CREATED"
    "wd_start_ms (sh_window s) = start" "wd_end_ms (sh_window s) = stop" "schedule_descriptor s = d" "0 \<le> start" "start \<le> stop"
    by blast+
  let ?g = "window_iter (recording_of ps) cf (sh_window s)" and ?s = "s\<lparr>sh_state := Schedule_SCHEDULING\<rparr>"
  let ?ys = "filter (\<lambda>x. start \<le> tp_elapsed_ms x \<and> tp_elapsed_ms x \<le> stop) (timed d ps)"
  from window_items [OF s(4) assms(2,3), of cf] have g: "gen_items ?g = ?ys" "fst (gen_end ?g) = Inr ()" by simp_all
  have did: "schedule_did [] ?s" using s(1,2) by (simp add: schedule_did_def schedule_new_def)
  have stop: "0 \<le> stop" using w by simp
  from schedule_loop_items [OF did, of ?g] schedule_loop_end [OF window_iter_spec [OF w(1,2), of "recording_of ps" cf,
      unfolded w(3,4,5)] g(2) clock w(6) stop, of ?s None] g(1) s(2,3)
  have items: "gen_items (schedule_iter (recording_of ps) cf s) = scheduled rate ?ys"
    and fin: "fst (gen_end (schedule_iter (recording_of ps) cf s)) = Inr ()"
    by (simp_all add: schedule_iter_def origin_of_def)
  from gen_spec_end [OF schedule_iter_spec [OF s(1,2), of "recording_of ps" cf]] fin
  have "sh_state (snd (gen_end (schedule_iter (recording_of ps) cf s))) = Schedule_COMPLETE \<and>
      sh_descriptor_verified (snd (gen_end (schedule_iter (recording_of ps) cf s)))"
    by (auto simp: schedule_at_end_def)
  moreover have "sorted (map tp_elapsed_ms ?ys)" using timed_sorted [OF clock, of ps] by (rule sorted_filter)
  ultimately show ?thesis
    using items fin scheduled_sorted [of ?ys rate] by (intro exI [of _ "snd (gen_end (schedule_iter (recording_of ps) cf s))"])
      (simp add: prod_eq_iff)
qed

section \<open>Correctness\<close>

text \<open>
  C3: the whole playback path. Of a recording that matches its descriptor and in which no packet's
  RTP timestamp regresses (\<open>smooth\<close>: it is less than \<open>2 ^ 31\<close> ticks after that of the packet before
  it, modulo \<open>2 ^ 32\<close>; otherwise the timeline raises \<open>TIMESTAMP_REGRESSION\<close>), a schedule for the
  window from \<open>start\<close> to \<open>stop\<close> yields exactly the packets whose time lies in the window, in order,
  each due at its distance from the first one scaled by the rate; due times never decrease; and the
  whole recording has been verified at the end.
\<close>

theorem schedule_plays_the_window:
  assumes "schedule_init d (Inst start) (Inst stop) (Inst rate) mp = Inr s" and "describes d ps" and "smooth ps"
  shows "\<exists>s'. gen_items (schedule_iter (recording_of ps) cf s) =
      scheduled rate (filter (\<lambda>x. start \<le> tp_elapsed_ms x \<and> tp_elapsed_ms x \<le> stop) (timed d ps)) \<and>
    sorted (map sp_due_ms (gen_items (schedule_iter (recording_of ps) cf s))) \<and>
    gen_end (schedule_iter (recording_of ps) cf s) = (Inr (), s') \<and>
    sh_state s' = Schedule_COMPLETE \<and> sh_descriptor_verified s'"
  using assms by (rule schedule_items)

definition sample_schedule :: schedule where
  "sample_schedule = \<lparr>sh_window = \<lparr>wd_navigator = \<lparr>nv_timeline = sample_timeline, nv_target_ms = 0,
       nv_state = Navigation_CREATED, nv_scanned_packets = 0, nv_emitted_packets = 0, nv_positioned_at_ms = None,
       nv_descriptor_verified = False\<rparr>,
     wd_start_ms = 0, wd_end_ms = 500, wd_state = Window_CREATED, wd_scanned_packets = 0, wd_emitted_packets = 0,
     wd_first_emitted_ms = None, wd_last_emitted_ms = None, wd_descriptor_verified = False\<rparr>,
     sh_rate = DOUBLE, sh_state = Schedule_CREATED, sh_packets = 0, sh_source_span_ms = 0, sh_scheduled_span_ms = 0,
     sh_descriptor_verified = False\<rparr>"

lemma sample_schedule_init: "schedule_init sample_recording (Inst 0) (Inst 500) (Inst DOUBLE) 4 = Inr sample_schedule"
  by (simp add: schedule_init_def window_init_def navigator_init_def sample_timeline_init sample_schedule_def sample_recording_simps)

theorem schedule_plays_the_window_witness:
  "\<exists>s'. gen_items (schedule_iter (recording_of [sample_packet]) False sample_schedule) =
     [\<lparr>sp_packet = sample_packet, sp_ordinal = 0, sp_source_elapsed_ms = 0, sp_due_ms = 0\<rparr>] \<and>
   gen_end (schedule_iter (recording_of [sample_packet]) False sample_schedule) = (Inr (), s')"
proof -
  have "smooth [sample_packet]" by (simp add: smooth_def)
  from schedule_plays_the_window [OF sample_schedule_init sample_describes this, of False] show ?thesis
    by (auto simp: timed_def scheduled_def due_at_def)
qed

text \<open>
  A schedule can be used once. Whatever the file, however many packets the first user took
  before closing it: the schedule is complete exactly if the generator was exhausted and
  returned, and any later use yields nothing, raises \<open>INVALID_STATE\<close> and changes nothing.
\<close>

lemma schedule_is_single_use:
  assumes "schedule_init d (Inst start) (Inst stop) (Inst rate) mp = Inr s" and "descriptor_fields_ok d"
    and "gen_take_close (Suc n) s (schedule_iter opened cf s) = (xs, outcome, s')"
  shows "(sh_state s' = Schedule_COMPLETE \<longleftrightarrow> outcome = Some (Inr ())) \<and>
    gen_take_close (Suc m) s' (schedule_iter opened cf s') =
      ([], Some (Inl (PlaybackScheduleError Schedule_INVALID_STATE None)), s')"
proof -
  from schedule_initE [OF assms(1,2)] have s: "schedule_new s" "sh_state s = Schedule_CREATED" by blast+
  then have "sh_state s \<noteq> Schedule_COMPLETE" by simp
  from schedule_source.finished_iff [OF s this assms(3)] schedule_source.second_start [OF s assms(3)] show ?thesis by blast
qed

lemma schedule_is_single_use_witness:
  "\<exists>s'. gen_take_close 1 s' (schedule_iter None False s') =
     ([], Some (Inl (PlaybackScheduleError Schedule_INVALID_STATE None)), s') \<and> sh_state s' \<noteq> Schedule_COMPLETE"
proof -
  obtain xs oc s' where run: "gen_take_close (Suc 0) sample_schedule (schedule_iter None False sample_schedule) = (xs, oc, s')"
    by (metis prod.collapse)
  have "fst (snd (gen_take_close (Suc 0) sample_schedule (schedule_iter None False sample_schedule))) \<noteq> Some (Inr ())"
    by code_simp
  with run have "oc \<noteq> Some (Inr ())" by simp
  with schedule_is_single_use [OF sample_schedule_init sample_fields_ok run, of 0] show ?thesis by auto
qed

end
