(* ===== verification/Playback_Pump.thy ===== *)
theory Playback_Pump
  imports Playback_Schedule
begin

text \<open>
  \<open>src/src/k5vision/media/playback_pump.py\<close>: \<open>BoundedPlaybackPump\<close> hands the packets of a schedule to
  a consumer, each no earlier than it is due. The world \<open>'w\<close> holds what the clock, the sleep, the
  pause control and the consumer work on. Clock readings are rational numbers, and \<open>fl\<close> is the
  rounding of the machine's float arithmetic.
\<close>

section \<open>State\<close>

datatype pump_state = Pump_CREATED | Pump_RUNNING | Pump_COMPLETE | Pump_CANCELLED | Pump_FAILED

datatype pump_error_code =
    Pump_INVALID_STATE
  | Pump_SCHEDULE_FAILURE
  | Pump_CONSUMER_TIMEOUT
  | Pump_CONSUMER_FAILURE
  | Pump_PACING_FAILURE

datatype pump_exn =
    PlaybackPumpError pump_error_code "schedule_error_code option"
  | Pump_Raw python_exn

record pump_snapshot =
  pps_state :: pump_state
  pps_rate :: playback_rate
  pps_delivered_packets :: int
  pps_delivered_bytes :: int
  pps_late_packets :: int
  pps_source_span_ms :: int
  pps_scheduled_span_ms :: int
  pps_descriptor_verified :: bool

record pump =
  pp_schedule :: schedule
  pp_rate :: playback_rate
  pp_state :: pump_state
  pp_delivered_packets :: int
  pp_delivered_bytes :: int
  pp_late_packets :: int
  pp_source_span_ms :: int
  pp_scheduled_span_ms :: int
  pp_descriptor_verified :: bool

text \<open>
  \<open>_clock\<close>, \<open>_sleep\<close> and \<open>_pause_control\<close>: with a pause control bound, the clock and the sleep are
  the control's, and \<open>pc_admit\<close> is its \<open>wait_until_running\<close>.
\<close>

record 'w pacing =
  pc_clock :: "'w \<Rightarrow> rat option \<times> 'w"
  pc_sleep :: "rat \<Rightarrow> 'w \<Rightarrow> unit awaited \<times> 'w"
  pc_admit :: "('w \<Rightarrow> unit awaited \<times> 'w) option"

text \<open>The consumer under its time-out.\<close>

type_synonym 'w packet_consumer = "byte list \<Rightarrow> int \<Rightarrow> 'w \<Rightarrow> unit awaited \<times> 'w"

fun raw_of_schedule :: "schedule_exn \<Rightarrow> pump_exn" where
  "raw_of_schedule (PlaybackScheduleError code i) = Pump_Raw Py_ValueError"
| "raw_of_schedule (Schedule_Raw x) = Pump_Raw x"

text \<open>The callables of the constructor are given; \<open>timeout\<close> is \<open>consumer_timeout_seconds\<close>.\<close>

definition pump_init ::
  "recording_descriptor \<Rightarrow> int dyn \<Rightarrow> int dyn \<Rightarrow> playback_rate dyn \<Rightarrow> int \<Rightarrow> rat \<Rightarrow> pump_exn + pump" where
  "pump_init d start stop rate mp timeout =
     (if \<not> (0 < timeout \<and> timeout \<le> 10) then Inl (Pump_Raw Py_ValueError)
      else case schedule_init d start stop rate mp of
        Inl e \<Rightarrow> Inl (raw_of_schedule e)
      | Inr s \<Rightarrow> Inr \<lparr>pp_schedule = s, pp_rate = sh_rate s, pp_state = Pump_CREATED, pp_delivered_packets = 0,
                     pp_delivered_bytes = 0, pp_late_packets = 0, pp_source_span_ms = 0, pp_scheduled_span_ms = 0,
                     pp_descriptor_verified = False\<rparr>)"

definition bind_pause_control ::
  "('w \<Rightarrow> rat option \<times> 'w) \<Rightarrow> (rat \<Rightarrow> 'w \<Rightarrow> unit awaited \<times> 'w) \<Rightarrow> ('w \<Rightarrow> unit awaited \<times> 'w) \<Rightarrow>
    pump \<Rightarrow> 'w pacing \<Rightarrow> pump_exn + 'w pacing" where
  "bind_pause_control monotonic sleep wait_until_running p pc =
     (if pp_state p \<noteq> Pump_CREATED then Inl (PlaybackPumpError Pump_INVALID_STATE None)
      else Inr (pc\<lparr>pc_clock := monotonic, pc_sleep := sleep, pc_admit := Some wait_until_running\<rparr>))"

definition pump_snapshot :: "pump \<Rightarrow> pump_exn + pump_snapshot" where
  "pump_snapshot p =
     (if 0 \<le> pp_delivered_packets p \<and> pp_delivered_packets p \<le> 1000000 \<and> 0 \<le> pp_delivered_bytes p \<and>
         0 \<le> pp_late_packets p \<and> pp_late_packets p \<le> 1000000 \<and> 0 \<le> pp_source_span_ms p \<and> 0 \<le> pp_scheduled_span_ms p
      then Inr \<lparr>pps_state = pp_state p, pps_rate = pp_rate p, pps_delivered_packets = pp_delivered_packets p,
                pps_delivered_bytes = pp_delivered_bytes p, pps_late_packets = pp_late_packets p,
                pps_source_span_ms = pp_source_span_ms p, pps_scheduled_span_ms = pp_scheduled_span_ms p,
                pps_descriptor_verified = pp_descriptor_verified p\<rparr>
      else Inl (Pump_Raw Py_ValidationError))"

section \<open>Running\<close>

text \<open>One await after another in a \<open>try\<close> block.\<close>

definition await :: "'a awaited \<times> 'w \<Rightarrow> ('a \<Rightarrow> 'w \<Rightarrow> 'b awaited \<times> 'w) \<Rightarrow> 'b awaited \<times> 'w" where
  "await m f =
     (case m of
        (Returned x, w) \<Rightarrow> f x w
      | (Raised, w) \<Rightarrow> (Raised, w)
      | (TimedOut, w) \<Rightarrow> (TimedOut, w)
      | (Cancelled, w) \<Rightarrow> (Cancelled, w))"

lemma await_Returned: "await m f = (Returned y, w') \<longleftrightarrow> (\<exists>x w. m = (Returned x, w) \<and> f x w = (Returned y, w'))"
  by (cases m; cases "fst m") (auto simp: await_def)

definition admit :: "'w pacing \<Rightarrow> 'w \<Rightarrow> unit awaited \<times> 'w" where
  "admit pc w = (case pc_admit pc of None \<Rightarrow> (Returned (), w) | Some wait \<Rightarrow> wait w)"

text \<open>The first \<open>try\<close> block of the loop: what it does, and by how much \<open>_late_packets\<close> grows.\<close>

definition pace :: "(rat \<Rightarrow> rat) \<Rightarrow> 'w pacing \<Rightarrow> rat \<Rightarrow> int \<Rightarrow> 'w \<Rightarrow> int awaited \<times> 'w" where
  "pace fl pc started due_ms w =
     await (admit pc w) (\<lambda>_ w1.
       case pc_clock pc w1 of
         (None, w2) \<Rightarrow> (Raised, w2)
       | (Some now, w2) \<Rightarrow>
           (let remaining = fl (fl (started + fl (of_int due_ms / 1000)) - now) in
            if 0 < remaining then await (pc_sleep pc remaining w2) (\<lambda>_ w3. (Returned 0, w3))
            else if remaining < 0 then (Returned 1, w2) else (Returned 0, w2)))"

text \<open>The second \<open>try\<close> block.\<close>

definition consume_packet :: "'w pacing \<Rightarrow> 'w packet_consumer \<Rightarrow> byte list \<Rightarrow> int \<Rightarrow> 'w \<Rightarrow> unit awaited \<times> 'w" where
  "consume_packet pc consumer packet elapsed w = await (admit pc w) (\<lambda>_. consumer packet elapsed)"

type_synonym 'w pump_result = "(pump_exn + pump_snapshot) \<times> pump \<times> 'w"

definition pump_stop :: "pump_exn \<Rightarrow> pump_state \<Rightarrow> pump \<Rightarrow> schedule \<Rightarrow> 'w \<Rightarrow> 'w pump_result" where
  "pump_stop e st p s w = (Inl e, p\<lparr>pp_state := st, pp_schedule := s\<rparr>, w)"

fun pump_loop :: "(rat \<Rightarrow> rat) \<Rightarrow> 'w pacing \<Rightarrow> 'w packet_consumer \<Rightarrow> rat \<Rightarrow> pump \<Rightarrow> schedule_gen \<Rightarrow> 'w \<Rightarrow> 'w pump_result" where
  "pump_loop fl pc consumer started p (GReturn s) w =
     (case schedule_snapshot s of
        Inl _ \<Rightarrow> (Inl (Pump_Raw Py_ValidationError), p\<lparr>pp_schedule := s\<rparr>, w)
      | Inr sn \<Rightarrow>
          (let p1 = p\<lparr>pp_schedule := s, pp_descriptor_verified := shs_descriptor_verified sn, pp_state := Pump_COMPLETE\<rparr>
           in (pump_snapshot p1, p1, w)))"
| "pump_loop fl pc consumer started p (GRaise e s) w =
     (case e of
        PlaybackScheduleError code _ \<Rightarrow>
          pump_stop (PlaybackPumpError Pump_SCHEDULE_FAILURE (Some code)) Pump_FAILED p s w
      | Schedule_Raw x \<Rightarrow> (Inl (Pump_Raw x), p\<lparr>pp_schedule := s\<rparr>, w))"
| "pump_loop fl pc consumer started p (GYield item s c g) w =
     (case pace fl pc started (sp_due_ms item) w of
        (Cancelled, w1) \<Rightarrow> pump_stop (Pump_Raw Py_CancelledError) Pump_CANCELLED p c w1
      | (Raised, w1) \<Rightarrow> pump_stop (PlaybackPumpError Pump_PACING_FAILURE None) Pump_FAILED p c w1
      | (TimedOut, w1) \<Rightarrow> pump_stop (PlaybackPumpError Pump_PACING_FAILURE None) Pump_FAILED p c w1
      | (Returned late, w1) \<Rightarrow>
          (let p1 = p\<lparr>pp_late_packets := pp_late_packets p + late\<rparr> in
           case consume_packet pc consumer (sp_packet item) (sp_source_elapsed_ms item) w1 of
             (Cancelled, w2) \<Rightarrow> pump_stop (Pump_Raw Py_CancelledError) Pump_CANCELLED p1 c w2
           | (TimedOut, w2) \<Rightarrow> pump_stop (PlaybackPumpError Pump_CONSUMER_TIMEOUT None) Pump_FAILED p1 c w2
           | (Raised, w2) \<Rightarrow> pump_stop (PlaybackPumpError Pump_CONSUMER_FAILURE None) Pump_FAILED p1 c w2
           | (Returned _, w2) \<Rightarrow>
               (let p2 = p1\<lparr>pp_delivered_packets := pp_delivered_packets p1 + 1,
                            pp_delivered_bytes := pp_delivered_bytes p1 + len (sp_packet item)\<rparr>
                in case schedule_snapshot s of
                     Inl _ \<Rightarrow> (Inl (Pump_Raw Py_ValidationError), p2\<lparr>pp_schedule := c\<rparr>, w2)
                   | Inr sn \<Rightarrow>
                       pump_loop fl pc consumer started
                         (p2\<lparr>pp_schedule := s, pp_source_span_ms := shs_source_span_ms sn,
                             pp_scheduled_span_ms := sp_due_ms item\<rparr>) g w2)))"

definition pump_run ::
  "(rat \<Rightarrow> rat) \<Rightarrow> 'w pacing \<Rightarrow> (byte list \<times> nat option) option \<Rightarrow> bool \<Rightarrow> 'w packet_consumer \<Rightarrow> pump \<Rightarrow> 'w \<Rightarrow> 'w pump_result" where
  "pump_run fl pc opened close_fails consumer p w =
     (if pp_state p \<noteq> Pump_CREATED then (Inl (PlaybackPumpError Pump_INVALID_STATE None), p, w)
      else case pc_clock pc w of
        (None, w1) \<Rightarrow> (Inl (PlaybackPumpError Pump_PACING_FAILURE None), p\<lparr>pp_state := Pump_FAILED\<rparr>, w1)
      | (Some started, w1) \<Rightarrow>
          pump_loop fl pc consumer started (p\<lparr>pp_state := Pump_RUNNING\<rparr>)
            (schedule_iter opened close_fails (pp_schedule p)) w1)"

section \<open>Delivery\<close>

text \<open>
  When a packet may be taken: at its due time after the start, less what four roundings of binary64
  can take away and less the \<open>slack\<close> by which a sleep may end early.
\<close>

definition due_time :: "rat \<Rightarrow> rat \<Rightarrow> scheduled_packet \<Rightarrow> rat" where
  "due_time slack started x = (started + of_int (sp_due_ms x) / 1000) * (1 - 4 / 2 ^ 53) - slack"

text \<open>
  A world with a clock: \<open>now\<close> reads it. \<open>reached v\<close> says that the clock has read \<open>v\<close>; waiting keeps it,
  and after a sleep of \<open>r\<close> the clock has reached the sum of its reading and \<open>r\<close> up to one rounding and
  the slack. \<open>took xs w\<close> is any fact about the packets \<open>xs\<close> the consumer was given so far that waiting
  preserves and that the consumer extends by one packet, provided it is called when the clock has
  reached the packet's due time and in a world that admits it, \<open>adm\<close>, as every world does that
  \<open>pc_admit\<close> has waited for.
\<close>

definition keeps_time ::
  "(rat \<Rightarrow> 'w \<Rightarrow> bool) \<Rightarrow> rat \<Rightarrow> ('w \<Rightarrow> rat) \<Rightarrow> ('w \<Rightarrow> bool) \<Rightarrow> 'w pacing \<Rightarrow>
    (scheduled_packet list \<Rightarrow> 'w \<Rightarrow> bool) \<Rightarrow> bool" where
  "keeps_time reached slack now adm pc took \<longleftrightarrow>
     0 \<le> slack \<and> (\<forall>w. pc_clock pc w = (Some (now w), w)) \<and> (pc_admit pc = None \<longrightarrow> (\<forall>w. adm w)) \<and>
     (\<forall>xs w v. took xs w \<longrightarrow> 0 \<le> now w \<and> (v \<le> now w \<longrightarrow> reached v w)) \<and>
     (\<forall>xs r w a w' v. took xs w \<longrightarrow> pc_sleep pc r w = (a, w') \<longrightarrow>
        took xs w' \<and> (reached v w \<longrightarrow> reached v w') \<and>
        (a = Returned () \<and> 0 < r \<and> v \<le> (now w + r) * (1 - 1 / 2 ^ 53) - slack \<longrightarrow> reached v w')) \<and>
     (\<forall>xs w a w' wait v. took xs w \<longrightarrow> pc_admit pc = Some wait \<longrightarrow> wait w = (a, w') \<longrightarrow>
        took xs w' \<and> (reached v w \<longrightarrow> reached v w') \<and> (a = Returned () \<longrightarrow> adm w'))"

definition takes_when_due ::
  "(rat \<Rightarrow> 'w \<Rightarrow> bool) \<Rightarrow> rat \<Rightarrow> ('w \<Rightarrow> bool) \<Rightarrow> rat \<Rightarrow> 'w packet_consumer \<Rightarrow>
    (scheduled_packet list \<Rightarrow> 'w \<Rightarrow> bool) \<Rightarrow> bool" where
  "takes_when_due reached slack adm started consumer took \<longleftrightarrow>
     (\<forall>xs x w a w'. took xs w \<longrightarrow> adm w \<longrightarrow> reached (due_time slack started x) w \<longrightarrow>
        consumer (sp_packet x) (sp_source_elapsed_ms x) w = (a, w') \<longrightarrow> took (xs @ [x]) w')"

lemma keeps_timeD:
  assumes "keeps_time reached slack now adm pc took"
  shows "pc_clock pc w = (Some (now w), w)" and "0 \<le> slack"
    and "pc_admit pc = None \<Longrightarrow> adm w"
    and "took xs w \<Longrightarrow> 0 \<le> now w" and "took xs w \<Longrightarrow> v \<le> now w \<Longrightarrow> reached v w"
    and "took xs w \<Longrightarrow> pc_sleep pc r w = (a, w') \<Longrightarrow> took xs w' \<and> (reached v w \<longrightarrow> reached v w')"
    and "took xs w \<Longrightarrow> pc_sleep pc r w = (Returned (), w') \<Longrightarrow> 0 < r \<Longrightarrow>
      v \<le> (now w + r) * (1 - 1 / 2 ^ 53) - slack \<Longrightarrow> reached v w'"
    and "took xs w \<Longrightarrow> pc_admit pc = Some wait \<Longrightarrow> wait w = (a, w') \<Longrightarrow>
      took xs w' \<and> (reached v w \<longrightarrow> reached v w') \<and> (a = Returned () \<longrightarrow> adm w')"
  using assms unfolding keeps_time_def by blast+

lemma admit_took:
  assumes k: "keeps_time reached slack now adm pc took" and "took xs w" and a: "admit pc w = (a, w')"
  shows "took xs w' \<and> (reached v w \<longrightarrow> reached v w') \<and> (a = Returned () \<longrightarrow> adm w')"
proof (cases "pc_admit pc")
  case None
  with keeps_timeD(3) [OF k this] assms show ?thesis by (simp add: admit_def)
next
  case (Some wait)
  with a have "wait w = (a, w')" by (simp add: admit_def)
  from keeps_timeD(8) [OF k assms(2) Some this] show ?thesis .
qed

lemma rounds_f64D: "rounds_f64 fl \<Longrightarrow> \<bar>fl x - x\<bar> \<le> \<bar>x\<bar> / 9007199254740992"
  by (simp add: rounds_f64_def)

lemma rounds_f64_ge: "rounds_f64 fl \<Longrightarrow> 0 \<le> x \<Longrightarrow> x * (1 - 1 / 2 ^ 53) \<le> fl x"
  using rounds_f64D [of fl x] unfolding abs_le_iff by (simp add: field_simps)

lemma rounds_f64_pos: "rounds_f64 fl \<Longrightarrow> 0 < fl x \<longleftrightarrow> 0 < x"
  using rounds_f64D [of fl x] by linarith

lemma pace_took:
  assumes k: "keeps_time reached slack now adm pc took" and fl: "rounds_f64 fl" and t: "took xs w"
    and s: "0 \<le> started" and due: "0 \<le> sp_due_ms x" and p: "pace fl pc started (sp_due_ms x) w = (b, w')"
  shows "took xs w' \<and> (\<forall>late. b = Returned late \<longrightarrow> reached (due_time slack started x) w')"
proof -
  define D where "D = (of_int (sp_due_ms x) / 1000 :: rat)"
  obtain a w1 where a: "admit pc w = (a, w1)" by fastforce
  from admit_took [OF k t a] have t1: "took xs w1" by blast
  define T where "T = fl (started + fl D)"
  define r where "r = fl (T - now w1)"
  have D: "0 \<le> D" using due by (simp add: D_def)
  have d: "D * (1 - 1 / 2 ^ 53) \<le> fl D" by (rule rounds_f64_ge [OF fl D])
  then have d0: "0 \<le> fl D" using D by simp
  have "(started + fl D) * (1 - 1 / 2 ^ 53) \<le> T" unfolding T_def using s d0 by (intro rounds_f64_ge [OF fl]) simp
  then have T: "(started + D) * (1 - 2 / 2 ^ 53) \<le> T" and T0: "0 \<le> T"
    using d d0 D s by (simp_all add: field_simps)
  have v: "due_time slack started x = (started + D) * (1 - 4 / 2 ^ 53) - slack" by (simp add: due_time_def D_def)
  note sl = keeps_timeD(2) [OF k]
  show ?thesis
  proof (cases "a = Returned ()")
    case False
    with p a t1 show ?thesis by (cases a) (auto simp: pace_def await_def)
  next
    case True
    have first: "await (Returned (), w1) f = f () w1" for f :: "unit \<Rightarrow> 'a \<Rightarrow> int awaited \<times> 'a" by (simp add: await_def)
    have "pace fl pc started (sp_due_ms x) w = (if 0 < r then await (pc_sleep pc r w1) (\<lambda>_ w3. (Returned 0, w3))
        else if r < 0 then (Returned 1, w1) else (Returned 0, w1))"
      by (simp only: pace_def a True first keeps_timeD(1) [OF k] Let_def r_def T_def D_def prod.case option.case)
    with p have rest: "(if 0 < r then await (pc_sleep pc r w1) (\<lambda>_ w3. (Returned 0, w3))
        else if r < 0 then (Returned 1, w1) else (Returned 0, w1)) = (b, w')" by simp
    show ?thesis
    proof (cases "0 < r")
      case pos: True
      obtain c w3 where c: "pc_sleep pc r w1 = (c, w3)" by fastforce
      with rest pos have w3: "w3 = w'" and b: "\<And>late. b = Returned late \<Longrightarrow> c = Returned ()"
        by (cases c; auto simp: await_def)+
      have "T * (1 - 1 / 2 ^ 53) \<le> now w1 + r"
        using rounds_f64_ge [OF fl, of "T - now w1"] keeps_timeD(4) [OF k t1] pos rounds_f64_pos [OF fl, of "T - now w1"]
        by (simp add: r_def field_simps)
      then have "due_time slack started x \<le> (now w1 + r) * (1 - 1 / 2 ^ 53) - slack"
        using T T0 D s by (simp add: v field_simps)
      with keeps_timeD(7) [OF k t1 _ pos, of w3] keeps_timeD(6) [OF k t1 c] c w3 b show ?thesis by blast
    next
      case False
      then have "T \<le> now w1" using rounds_f64_pos [OF fl, of "T - now w1"] by (simp add: r_def)
      then have "due_time slack started x \<le> now w1" using T D s sl by (simp add: v field_simps)
      from keeps_timeD(5) [OF k t1 this] rest False t1 show ?thesis by (auto split: if_splits)
    qed
  qed
qed

text \<open>What a pump knows after it handed on the packets \<open>xs\<close> of its schedule.\<close>

definition pump_did :: "scheduled_packet list \<Rightarrow> pump \<Rightarrow> bool" where
  "pump_did xs p \<longleftrightarrow>
     pp_delivered_packets p = len xs \<and> pp_delivered_bytes p = len (concat (map sp_packet xs)) \<and>
     0 \<le> pp_late_packets p \<and> pp_late_packets p \<le> len xs \<and>
     pp_source_span_ms p = (if xs = [] then 0 else sp_source_elapsed_ms (last xs) - sp_source_elapsed_ms (hd xs)) \<and>
     pp_scheduled_span_ms p = (if xs = [] then 0 else sp_due_ms (last xs))"

lemma consume_took:
  assumes k: "keeps_time reached slack now adm pc took" and c: "takes_when_due reached slack adm started consumer took"
    and t: "took xs w" and due: "reached (due_time slack started x) w"
    and r: "consume_packet pc consumer (sp_packet x) (sp_source_elapsed_ms x) w = (b, w')"
  shows "took xs w' \<and> b \<noteq> Returned () \<or> took (xs @ [x]) w'"
proof -
  obtain a w1 where a: "admit pc w = (a, w1)" by fastforce
  note m = admit_took [OF k t a]
  show ?thesis
  proof (cases "a = Returned ()")
    case True
    with a r have "consumer (sp_packet x) (sp_source_elapsed_ms x) w1 = (b, w')" by (simp add: consume_packet_def await_def)
    with c m True due show ?thesis unfolding takes_when_due_def by blast
  next
    case False
    with a r m show ?thesis by (cases a) (auto simp: consume_packet_def await_def)
  qed
qed

text \<open>Which exception goes with which state.\<close>

definition pump_outcome_ok :: "pump_exn + pump_snapshot \<Rightarrow> pump \<Rightarrow> bool" where
  "pump_outcome_ok r p \<longleftrightarrow>
     (case r of
        Inr sn \<Rightarrow> pp_state p = Pump_COMPLETE \<and> pp_descriptor_verified p \<and> pump_snapshot p = Inr sn
      | Inl (PlaybackPumpError code i) \<Rightarrow> pp_state p = Pump_FAILED \<and> \<not> pp_descriptor_verified p
      | Inl (Pump_Raw x) \<Rightarrow> x = Py_CancelledError \<and> pp_state p = Pump_CANCELLED \<and> \<not> pp_descriptor_verified p)"

lemma schedule_did_snapshot:
  assumes "schedule_did ys s" and "sorted (map tp_elapsed_ms ys)" and "len ys \<le> 1000000"
  shows "\<exists>sn. schedule_snapshot s = Inr sn \<and> shs_source_span_ms sn = sh_source_span_ms s \<and>
    shs_descriptor_verified sn = sh_descriptor_verified s"
proof (cases ys)
  case (Cons y zs)
  then have "last ys \<in> set (y # zs)" by simp
  with Cons assms(2) have "tp_elapsed_ms (hd ys) \<le> tp_elapsed_ms (last ys)" by auto
  with Cons assms(1,3) show ?thesis by (simp add: schedule_did_def schedule_snapshot_def due_at_nonneg)
qed (use assms in \<open>simp add: schedule_did_def schedule_snapshot_def\<close>)

lemma sorted_until_from:
  assumes "0 < rd_clock_rate_hz d"
  shows "sorted (map tp_elapsed_ms (until_ms stop (from_ms start (timed d ps))))"
  unfolding until_ms_def from_ms_filter [OF timed_sorted [OF assms]] filter_filter
  using timed_sorted [OF assms] by (rule sorted_filter)

lemma length_until_from: "length (until_ms stop (from_ms start ys)) \<le> length ys"
  unfolding until_ms_def from_ms_def by (rule order_trans [OF length_filter_le length_dropWhile_le])

lemma schedule_at_yield_snapshot:
  assumes "schedule_at_yield d content start stop rate xs s" and clock: "0 < rd_clock_rate_hz d"
  shows "\<exists>sn. schedule_snapshot s = Inr sn \<and> shs_source_span_ms sn = sh_source_span_ms s"
proof -
  from assms(1) obtain ps where d: "schedule_did (until_ms stop (from_ms start (timed d ps))) s"
    and "playback_did d ps (tl_playback (nv_timeline (wd_navigator (sh_window s))))"
    by (auto simp: schedule_at_def window_at_def navigator_at_def timeline_at_yield_def playback_at_yield_def)
  then have "len ps \<le> 1000000" by (auto simp: playback_did_def playback_wf_def framed_limits_ok_def agrees_def)
  with length_until_from [of stop start "timed d ps"]
  have "len (until_ms stop (from_ms start (timed d ps))) \<le> 1000000" by simp
  with schedule_did_snapshot [OF d sorted_until_from [OF clock]] show ?thesis by blast
qed

lemma schedule_at_end_snapshot:
  assumes "schedule_at_end d content start stop rate xs (Inr u) s" and clock: "0 < rd_clock_rate_hz d"
  shows "\<exists>sn. schedule_snapshot s = Inr sn \<and> shs_descriptor_verified sn"
    and "\<exists>ys. xs = scheduled rate ys \<and> len ys \<le> 1000000 \<and> sorted (map tp_elapsed_ms ys)"
proof -
  from assms(1) obtain ps where d: "schedule_did (until_ms stop (from_ms start (timed d ps))) s" "sh_descriptor_verified s"
    and x: "xs = scheduled rate (until_ms stop (from_ms start (timed d ps)))"
    and "playback_did d ps (tl_playback (nv_timeline (wd_navigator (sh_window s))))"
    by (auto simp: schedule_at_end_def window_at_end_def navigator_at_end_def timeline_at_end_def playback_at_end_def)
  then have "len ps \<le> 1000000" by (auto simp: playback_did_def playback_wf_def framed_limits_ok_def agrees_def)
  with length_until_from [of stop start "timed d ps"]
  have l: "len (until_ms stop (from_ms start (timed d ps))) \<le> 1000000" by simp
  from schedule_did_snapshot [OF d(1) sorted_until_from [OF clock] l] d(2)
  show "\<exists>sn. schedule_snapshot s = Inr sn \<and> shs_descriptor_verified sn" by auto
  from l x sorted_until_from [OF clock]
  show "\<exists>ys. xs = scheduled rate ys \<and> len ys \<le> 1000000 \<and> sorted (map tp_elapsed_ms ys)" by blast
qed

lemma schedule_at_spans:
  assumes "schedule_at P rate st xs s" and "xs \<noteq> []"
  shows "sh_source_span_ms s = sp_source_elapsed_ms (last xs) - sp_source_elapsed_ms (hd xs)"
proof -
  from assms obtain ys where ys: "xs = scheduled rate ys" "schedule_did ys s" by (auto simp: schedule_at_def)
  with assms(2) have "ys \<noteq> []" by auto
  with ys show ?thesis by (simp add: schedule_did_def scheduled_def last_map hd_map last_conv_nth hd_conv_nth)
qed

section \<open>The loop\<close>

lemma pace_late:
  assumes "pace fl pc started due w = (Returned late, w')"
  shows "late \<in> {0, 1}"
  using assms by (auto simp: pace_def await_def Let_def split: prod.splits option.splits awaited.splits if_splits)

lemma pump_did_upd [simp]:
  "pump_did xs (p\<lparr>pp_state := st\<rparr>) = pump_did xs p"
  "pump_did xs (p\<lparr>pp_schedule := s\<rparr>) = pump_did xs p"
  "pump_did xs (p\<lparr>pp_descriptor_verified := b\<rparr>) = pump_did xs p"
  by (simp_all add: pump_did_def)

lemma pump_did_snapshot:
  assumes "pump_did (scheduled rate ys) p" and "len ys \<le> 1000000" and "sorted (map tp_elapsed_ms ys)"
  shows "\<exists>sn. pump_snapshot p = Inr sn"
proof (cases "ys = []")
  case False
  let ?n = "length ys - 1"
  from False have n: "0 < length ys" "?n < length ys" by simp_all
  then have xs: "scheduled rate ys \<noteq> []" using length_scheduled [of rate ys] by fastforce
  then have hd: "hd (scheduled rate ys) = scheduled rate ys ! 0" and last: "last (scheduled rate ys) = scheduled rate ys ! ?n"
    by (simp_all add: hd_conv_nth last_conv_nth)
  have nth: "sp_source_elapsed_ms (scheduled rate ys ! i) = tp_elapsed_ms (ys ! i)"
    "sp_due_ms (scheduled rate ys ! i) = due_at rate (tp_elapsed_ms (ys ! i) - tp_elapsed_ms (ys ! 0))" if "i < length ys" for i
    using that False by (simp_all add: scheduled_def hd_conv_nth)
  have "tp_elapsed_ms (ys ! 0) \<le> tp_elapsed_ms (ys ! ?n)"
    using sorted_nth_mono [OF assms(3), of 0 ?n] n by simp
  with assms(1,2) xs nth [OF n(1)] nth [OF n(2)] show ?thesis
    by (simp add: pump_did_def pump_snapshot_def hd last due_at_nonneg)
qed (use assms in \<open>simp add: pump_did_def pump_snapshot_def\<close>)

text \<open>How a run ends.\<close>

definition pump_ended :: "scheduled_packet list \<Rightarrow> schedule_exn + unit \<Rightarrow> pump_exn + pump_snapshot \<Rightarrow> pump \<Rightarrow> bool" where
  "pump_ended xs res r p \<longleftrightarrow>
     pump_outcome_ok r p \<and>
     (\<exists>zs late. prefix zs xs \<and> pump_did zs (p\<lparr>pp_late_packets := late\<rparr>)) \<and>
     sh_state (pp_schedule p) \<notin> {Schedule_CREATED, Schedule_SCHEDULING} \<and>
     (\<forall>sn. r = Inr sn \<longrightarrow> pump_did xs p \<and> res = Inr ())"

lemma pump_stop_ended:
  assumes "pump_did zs p" and "prefix zs xs" and "\<not> pp_descriptor_verified p"
    and "sh_state c \<notin> {Schedule_CREATED, Schedule_SCHEDULING}"
    and "st = Pump_CANCELLED \<and> e = Pump_Raw Py_CancelledError \<or> st = Pump_FAILED \<and> (\<exists>code i. e = PlaybackPumpError code i)"
    and "pump_stop e st (p\<lparr>pp_late_packets := late'\<rparr>) c w = (r, p', w')"
  shows "pump_ended xs res r p'"
proof -
  from assms(1) have "pump_did zs (p\<lparr>pp_late_packets := late', pp_state := st, pp_schedule := c, pp_late_packets := pp_late_packets p\<rparr>)"
    by (simp add: pump_did_def)
  with assms show ?thesis by (auto simp: pump_ended_def pump_stop_def pump_outcome_ok_def)
qed

text \<open>One turn of the loop: it stops with the schedule closed, or it delivers the packet and goes on.\<close>

lemma pump_loop_step:
  assumes s: "schedule_at_yield d content start stop rate (xs @ [x]) s" and c: "schedule_at_close d content start stop rate (xs @ [x]) c"
    and clock: "0 < rd_clock_rate_hz d" and did: "pump_did xs p" and v: "\<not> pp_descriptor_verified p"
    and run: "pump_loop fl pc consumer started p (GYield x s c g) w = (r, p', w')"
  obtains (stop) "\<And>ys res. prefix xs ys \<Longrightarrow> pump_ended ys res r p'" "isl r"
      "\<not> (\<exists>late w1 w2. pace fl pc started (sp_due_ms x) w = (Returned late, w1) \<and>
         consume_packet pc consumer (sp_packet x) (sp_source_elapsed_ms x) w1 = (Returned (), w2))"
  | (go_on) p1 w1 w2 late where "pace fl pc started (sp_due_ms x) w = (Returned late, w1)"
      "consume_packet pc consumer (sp_packet x) (sp_source_elapsed_ms x) w1 = (Returned (), w2)"
      "pump_loop fl pc consumer started p1 g w2 = (r, p', w')" "pump_did (xs @ [x]) p1" "\<not> pp_descriptor_verified p1"
proof -
  from schedule_at_yield_snapshot [OF s clock] obtain sn
    where sn: "schedule_snapshot s = Inr sn" "shs_source_span_ms sn = sh_source_span_ms s" by blast
  from schedule_at_spans [OF s] have span: "sh_source_span_ms s = sp_source_elapsed_ms x - sp_source_elapsed_ms (hd (xs @ [x]))"
    by simp
  from c have c': "sh_state c \<notin> {Schedule_CREATED, Schedule_SCHEDULING}" by (auto simp: schedule_at_def)
  obtain a w1 where pa: "pace fl pc started (sp_due_ms x) w = (a, w1)" by fastforce
  obtain b w2 where co: "consume_packet pc consumer (sp_packet x) (sp_source_elapsed_ms x) w1 = (b, w2)" by fastforce
  have halt: thesis
    if stopped: "pump_stop e st (p\<lparr>pp_late_packets := l\<rparr>) c wz = (r, p', w')"
      and st: "st = Pump_CANCELLED \<and> e = Pump_Raw Py_CancelledError \<or> st = Pump_FAILED \<and> (\<exists>code i. e = PlaybackPumpError code i)"
      and no: "\<not> (\<exists>late. a = Returned late \<and> b = Returned ())" for e st l wz
  proof (rule stop)
    show "pump_ended ys res r p'" if pre: "prefix xs ys" for ys res
      by (rule pump_stop_ended [OF did pre v c' st stopped])
    show "isl r" using stopped by (auto simp: pump_stop_def)
    show "\<not> (\<exists>late w1 w2. pace fl pc started (sp_due_ms x) w = (Returned late, w1) \<and>
         consume_packet pc consumer (sp_packet x) (sp_source_elapsed_ms x) w1 = (Returned (), w2))"
      using no pa co by auto
  qed
  show thesis
  proof (cases a)
    case (Returned late)
    have late: "late = 0 \<or> late = 1" using pace_late pa Returned by fastforce
    let ?l = "pp_late_packets p + late"
    show thesis
    proof (cases b)
      case b: (Returned u)
      let ?p = "p\<lparr>pp_late_packets := ?l, pp_delivered_packets := pp_delivered_packets p + 1,
        pp_delivered_bytes := pp_delivered_bytes p + len (sp_packet x), pp_schedule := s,
        pp_source_span_ms := sh_source_span_ms s, pp_scheduled_span_ms := sp_due_ms x\<rparr>"
      have "pump_did (xs @ [x]) ?p" using did late by (auto simp: pump_did_def span)
      moreover have "pump_loop fl pc consumer started ?p g w2 = (r, p', w')"
        using run by (simp add: pa co Returned b sn Let_def)
      ultimately show thesis using go_on [of late w1 w2 ?p] pa co Returned b v by simp
    qed (rule halt [of _ _ ?l]; use run in \<open>fastforce simp: pa co Returned\<close>)+
  qed (rule halt [of _ _ "pp_late_packets p"]; use run in \<open>fastforce simp: pa\<close>)+
qed

lemma pump_loop_ended:
  assumes "gen_spec (schedule_at_yield d content start stop rate) (schedule_at_close d content start stop rate)
      (schedule_at_end d content start stop rate) xs g"
    and "0 < rd_clock_rate_hz d" and "pump_did xs p" and "\<not> pp_descriptor_verified p"
    and "pump_loop fl pc consumer started p g w = (r, p', w')"
  shows "pump_ended (xs @ gen_items g) (fst (gen_end g)) r p'"
  using assms
proof (induction g arbitrary: xs p w)
  case (GReturn s)
  then have e: "schedule_at_end d content start stop rate xs (Inr ()) s" by simp
  from schedule_at_end_snapshot [OF e GReturn.prems(2)] obtain sn ys
    where sn: "schedule_snapshot s = Inr sn" "shs_descriptor_verified sn"
      and ys: "xs = scheduled rate ys" "len ys \<le> 1000000" "sorted (map tp_elapsed_ms ys)" by blast
  let ?p = "p\<lparr>pp_schedule := s, pp_descriptor_verified := True, pp_state := Pump_COMPLETE\<rparr>"
  have did: "pump_did xs ?p" using GReturn.prems(3) by simp
  from pump_did_snapshot [OF did [unfolded ys(1)] ys(2,3)] obtain ps where "pump_snapshot ?p = Inr ps" by blast
  with GReturn.prems(5) sn have r: "r = Inr ps" "p' = ?p" "pump_snapshot ?p = Inr ps" by auto
  have "pump_did xs (?p\<lparr>pp_late_packets := pp_late_packets p\<rparr>)" using did by (simp add: pump_did_def)
  then have "\<exists>zs late. prefix zs xs \<and> pump_did zs (?p\<lparr>pp_late_packets := late\<rparr>)" by blast
  with r did e show ?case
    by (auto simp: pump_ended_def pump_outcome_ok_def schedule_at_end_def)
next
  case (GRaise e s)
  then have s: "schedule_at_end d content start stop rate xs (Inl e) s" by simp
  then obtain code i where e: "e = PlaybackScheduleError code i" "sh_state s = Schedule_FAILED" by (auto simp: schedule_at_end_def)
  have "p\<lparr>pp_late_packets := pp_late_packets p\<rparr> = p" by simp
  with GRaise.prems(5) e
  have stop: "pump_stop (PlaybackPumpError Pump_SCHEDULE_FAILURE (Some code)) Pump_FAILED (p\<lparr>pp_late_packets := pp_late_packets p\<rparr>) s w = (r, p', w')"
    by simp
  from pump_stop_ended [OF GRaise.prems(3) _ GRaise.prems(4) _ _ stop] e show ?case by simp
next
  case (GYield x s c g)
  from GYield.prems(1) have s: "schedule_at_yield d content start stop rate (xs @ [x]) s"
    and c: "schedule_at_close d content start stop rate (xs @ [x]) c"
    and g: "gen_spec (schedule_at_yield d content start stop rate) (schedule_at_close d content start stop rate)
      (schedule_at_end d content start stop rate) (xs @ [x]) g" by simp_all
  from s c GYield.prems(2-5) show ?case
  proof (cases rule: pump_loop_step)
    case stop
    then show ?thesis by simp
  next
    case (go_on p1 w1 w2 late)
    from GYield.IH [OF g GYield.prems(2) go_on(4,5,3)] show ?thesis by simp
  qed
qed

lemma schedule_at_yield_due:
  assumes "schedule_at_yield d content start stop rate (xs @ [x]) s" and clock: "0 < rd_clock_rate_hz d"
  shows "0 \<le> sp_due_ms x"
proof -
  from assms(1) obtain ps where "xs @ [x] = scheduled rate (until_ms stop (from_ms start (timed d ps)))" (is "_ = scheduled rate ?ys")
    by (auto simp: schedule_at_def window_at_def navigator_at_def timeline_at_yield_def playback_at_yield_def)
  then have "x \<in> set (scheduled rate ?ys)" by (metis in_set_conv_decomp)
  then have "\<exists>i. i < length ?ys \<and> sp_due_ms x = due_at rate (tp_elapsed_ms (?ys ! i) - tp_elapsed_ms (hd ?ys))"
    by (auto simp: scheduled_def)
  then obtain y where y: "y \<in> set ?ys" "sp_due_ms x = due_at rate (tp_elapsed_ms y - tp_elapsed_ms (hd ?ys))"
    using nth_mem by blast
  then have "tp_elapsed_ms (hd ?ys) \<le> tp_elapsed_ms y"
    using sorted_until_from [OF clock, of stop start ps] by (cases ?ys) auto
  with y(2) show ?thesis by (simp add: due_at_nonneg)
qed

text \<open>The consumer is given a prefix of the packets, each when it is due, and all of them if the pump returns.\<close>

lemma pump_loop_took:
  assumes "gen_spec (schedule_at_yield d content start stop rate) (schedule_at_close d content start stop rate)
      (schedule_at_end d content start stop rate) xs g"
    and "0 < rd_clock_rate_hz d" and "pump_did xs p" and "\<not> pp_descriptor_verified p"
    and k: "keeps_time reached slack now adm pc took" and t: "takes_when_due reached slack adm started consumer took"
    and fl: "rounds_f64 fl" and started: "0 \<le> started"
    and "took xs w" and "pump_loop fl pc consumer started p g w = (r, p', w')"
  shows "\<exists>zs. prefix zs (xs @ gen_items g) \<and> took zs w' \<and> (\<not> isl r \<longrightarrow> zs = xs @ gen_items g)"
  using assms(1-4,9,10)
proof (induction g arbitrary: xs p w)
  case (GYield x s c g)
  from GYield.prems(1) have s: "schedule_at_yield d content start stop rate (xs @ [x]) s"
    and c: "schedule_at_close d content start stop rate (xs @ [x]) c"
    and g: "gen_spec (schedule_at_yield d content start stop rate) (schedule_at_close d content start stop rate)
      (schedule_at_end d content start stop rate) (xs @ [x]) g" by simp_all
  obtain a w1 where a: "pace fl pc started (sp_due_ms x) w = (a, w1)" by fastforce
  obtain b w2 where b: "consume_packet pc consumer (sp_packet x) (sp_source_elapsed_ms x) w1 = (b, w2)" by fastforce
  note m = pace_took [OF k fl GYield.prems(5) started schedule_at_yield_due [OF s GYield.prems(2)] a]
  have pre: "prefix xs (xs @ gen_items (GYield x s c g))" "prefix (xs @ [x]) (xs @ gen_items (GYield x s c g))" by simp_all
  from s c GYield.prems(2-4,6) show ?case
  proof (cases rule: pump_loop_step)
    case stop
    have "w' = w1 \<and> took xs w1 \<or> w' = w2 \<and> (took xs w2 \<or> took (xs @ [x]) w2)"
    proof (cases a)
      case (Returned late)
      with m have "reached (due_time slack started x) w1" "took xs w1" by blast+
      with consume_took [OF k t _ _ b] have "took xs w2 \<or> took (xs @ [x]) w2" by blast
      moreover have "b \<noteq> Returned ()" using stop(3) a b Returned by blast
      ultimately show ?thesis using GYield.prems(6) a b Returned by (cases b) (simp_all add: pump_stop_def Let_def)
    qed (use GYield.prems(6) a m in \<open>simp_all add: pump_stop_def\<close>)
    with pre stop(2) show ?thesis by blast
  next
    case (go_on p1 w1' w2' late)
    with a b have "w1' = w1" "w2' = w2" "a = Returned late" "b = Returned ()" by auto
    with m consume_took [OF k t _ _ b] have "took (xs @ [x]) w2" by blast
    from GYield.IH [OF g GYield.prems(2) go_on(4,5) this] go_on(3) \<open>w2' = w2\<close> show ?thesis by simp
  qed
qed (auto simp: pump_stop_def Let_def split: sum.splits schedule_exn.splits)

text \<open>
  A world in which nothing fails or times out while the packets \<open>items\<close> are delivered: \<open>calm xs\<close> holds
  once \<open>xs\<close> are, waiting keeps it, and the consumer takes the next packet.
\<close>

definition all_return ::
  "scheduled_packet list \<Rightarrow> (scheduled_packet list \<Rightarrow> 'w \<Rightarrow> bool) \<Rightarrow> 'w pacing \<Rightarrow> 'w packet_consumer \<Rightarrow> bool" where
  "all_return items calm pc consumer \<longleftrightarrow>
     (\<forall>xs w. calm xs w \<longrightarrow>
        (\<exists>t w'. pc_clock pc w = (Some t, w') \<and> calm xs w') \<and>
        (\<forall>r. \<exists>w'. pc_sleep pc r w = (Returned (), w') \<and> calm xs w') \<and>
        (\<forall>wait. pc_admit pc = Some wait \<longrightarrow> (\<exists>w'. wait w = (Returned (), w') \<and> calm xs w'))) \<and>
     (\<forall>xs x w. calm xs w \<longrightarrow> prefix (xs @ [x]) items \<longrightarrow>
        (\<exists>w'. consumer (sp_packet x) (sp_source_elapsed_ms x) w = (Returned (), w') \<and> calm (xs @ [x]) w'))"

lemma all_returnD:
  assumes "all_return items calm pc consumer" and "calm xs w"
  shows "\<exists>t w'. pc_clock pc w = (Some t, w') \<and> calm xs w'" and "\<exists>w'. pc_sleep pc r w = (Returned (), w') \<and> calm xs w'"
    and "\<exists>w'. admit pc w = (Returned (), w') \<and> calm xs w'"
    and "prefix (xs @ [x]) items \<Longrightarrow>
      \<exists>w'. consumer (sp_packet x) (sp_source_elapsed_ms x) w = (Returned (), w') \<and> calm (xs @ [x]) w'"
  using assms by (auto simp: all_return_def admit_def split: option.splits)

lemma pace_returns:
  assumes "all_return items calm pc consumer" and "calm xs w"
  shows "\<exists>late w'. pace fl pc started due w = (Returned late, w') \<and> calm xs w'"
proof -
  obtain w1 where a: "admit pc w = (Returned (), w1)" "calm xs w1" using all_returnD(3) [OF assms] by blast
  obtain t w2 where c: "pc_clock pc w1 = (Some t, w2)" "calm xs w2" using all_returnD(1) [OF assms(1) a(2)] by blast
  show ?thesis using all_returnD(2) [OF assms(1) c(2), of "fl (fl (started + fl (of_int due / 1000)) - t)"] c(2)
    by (auto simp: pace_def await_def a c Let_def)
qed

lemma consume_returns:
  assumes "all_return items calm pc consumer" and "calm xs w" and "prefix (xs @ [x]) items"
  shows "\<exists>w'. consume_packet pc consumer (sp_packet x) (sp_source_elapsed_ms x) w = (Returned (), w') \<and> calm (xs @ [x]) w'"
proof -
  obtain w1 where a: "admit pc w = (Returned (), w1)" "calm xs w1" using all_returnD(3) [OF assms(1,2)] by blast
  with all_returnD(4) [OF assms(1) a(2) assms(3)] show ?thesis by (simp add: consume_packet_def await_def)
qed

lemma pump_loop_completes:
  assumes "gen_spec (schedule_at_yield d content start stop rate) (schedule_at_close d content start stop rate)
      (schedule_at_end d content start stop rate) xs g"
    and "0 < rd_clock_rate_hz d" and "pump_did xs p" and "\<not> pp_descriptor_verified p"
    and "all_return (xs @ gen_items g) calm pc consumer" and "fst (gen_end g) = Inr ()" and "calm xs w"
    and "pump_loop fl pc consumer started p g w = (r, p', w')"
  shows "(\<exists>sn. r = Inr sn) \<and> calm (xs @ gen_items g) w'"
  using assms
proof (induction g arbitrary: xs p w)
  case (GReturn s)
  then have e: "schedule_at_end d content start stop rate xs (Inr ()) s" by simp
  from schedule_at_end_snapshot [OF e GReturn.prems(2)] obtain sn ys
    where sn: "schedule_snapshot s = Inr sn"
      and ys: "xs = scheduled rate ys" "len ys \<le> 1000000" "sorted (map tp_elapsed_ms ys)" by blast
  let ?p = "p\<lparr>pp_schedule := s, pp_descriptor_verified := shs_descriptor_verified sn, pp_state := Pump_COMPLETE\<rparr>"
  have "pump_did (scheduled rate ys) ?p" using GReturn.prems(3) ys(1) by simp
  from pump_did_snapshot [OF this ys(2,3)] obtain ps where "pump_snapshot ?p = Inr ps" by blast
  with GReturn.prems(8) sn have "r = Inr ps" "w' = w" by simp_all
  with GReturn.prems(7) show ?case by simp
next
  case (GYield x s c g)
  from GYield.prems(1) have s: "schedule_at_yield d content start stop rate (xs @ [x]) s"
    and c: "schedule_at_close d content start stop rate (xs @ [x]) c"
    and g: "gen_spec (schedule_at_yield d content start stop rate) (schedule_at_close d content start stop rate)
      (schedule_at_end d content start stop rate) (xs @ [x]) g" by simp_all
  from GYield.prems(5) have ret: "all_return ((xs @ [x]) @ gen_items g) calm pc consumer" by simp
  have pre: "prefix (xs @ [x]) ((xs @ [x]) @ gen_items g)" by (rule prefixI) simp
  from s c GYield.prems(2-4,8) show ?case
  proof (cases rule: pump_loop_step)
    case stop
    obtain late w1 where "pace fl pc started (sp_due_ms x) w = (Returned late, w1)" "calm xs w1"
      using pace_returns [OF ret GYield.prems(7)] by blast
    with stop(3) consume_returns [OF ret _ pre, of w1] show ?thesis by blast
  next
    case (go_on p1 w1 w2 late)
    have "calm xs w1" using pace_returns [OF ret GYield.prems(7), of fl started "sp_due_ms x"] go_on(1) by auto
    from consume_returns [OF ret this pre] go_on(2) have "calm (xs @ [x]) w2" by simp
    with GYield.IH [OF g GYield.prems(2) go_on(4,5) ret _ _ go_on(3)] GYield.prems(6) show ?thesis by simp
  qed
qed simp

text \<open>
  Two consumers that agree while \<open>I\<close> holds, which nothing breaks, make the same run; \<open>I\<close> holds at its end.
\<close>

definition keeps :: "('w \<Rightarrow> bool) \<Rightarrow> 'w pacing \<Rightarrow> 'w packet_consumer \<Rightarrow> bool" where
  "keeps I pc consumer \<longleftrightarrow>
     (\<forall>w. I w \<longrightarrow> I (snd (pc_clock pc w)) \<and> (\<forall>r. I (snd (pc_sleep pc r w))) \<and>
        (\<forall>wait. pc_admit pc = Some wait \<longrightarrow> I (snd (wait w))) \<and> (\<forall>x e. I (snd (consumer x e w))))"

lemma keepsD:
  assumes "keeps I pc consumer" and "I w"
  shows "pc_clock pc w = (t, w') \<Longrightarrow> I w'" and "pc_sleep pc r w = (a, w') \<Longrightarrow> I w'"
    and "admit pc w = (a, w') \<Longrightarrow> I w'" and "consumer x e w = (a, w') \<Longrightarrow> I w'"
  using assms by (auto simp: keeps_def admit_def split: option.splits) (metis snd_conv)+

lemma pace_keeps:
  assumes k: "keeps I pc consumer" and "I w" and p: "pace fl pc started due w = (a, w')"
  shows "I w'"
proof -
  obtain a1 w1 where 1: "admit pc w = (a1, w1)" by fastforce
  with keepsD(3) [OF k assms(2)] have "I w1" by blast
  obtain t w2 where 2: "pc_clock pc w1 = (t, w2)" by fastforce
  with keepsD(1) [OF k \<open>I w1\<close>] have w2: "I w2" by blast
  with keepsD(2) [OF k w2] \<open>I w1\<close> p show ?thesis
    by (auto simp: pace_def await_def 1 2 Let_def split: awaited.splits option.splits prod.splits if_splits)
qed

lemma consume_keeps:
  assumes k: "keeps I pc consumer" and "I w" and eq: "\<And>x e w. I w \<Longrightarrow> consumer2 x e w = consumer x e w"
  shows "consume_packet pc consumer2 x e w = consume_packet pc consumer x e w \<and> I (snd (consume_packet pc consumer x e w))"
proof -
  obtain a1 w1 where 1: "admit pc w = (a1, w1)" by fastforce
  with keepsD(3) [OF k assms(2)] have w1: "I w1" by blast
  from keepsD(4) [OF k w1, of x e] have "I (snd (consumer x e w1))" by (metis prod.collapse)
  with w1 show ?thesis by (cases a1) (simp_all add: consume_packet_def await_def 1 eq)
qed

lemma pump_loop_keeps:
  assumes k: "keeps I pc consumer" and eq: "\<And>x e w. I w \<Longrightarrow> consumer2 x e w = consumer x e w" and "I w"
  shows "pump_loop fl pc consumer2 started p g w = pump_loop fl pc consumer started p g w \<and>
    I (snd (snd (pump_loop fl pc consumer started p g w)))"
  using assms(3)
proof (induction g arbitrary: p w)
  case (GYield x s c g)
  obtain a w1 where a: "pace fl pc started (sp_due_ms x) w = (a, w1)" by fastforce
  from pace_keeps [OF k GYield.prems a] have w1: "I w1" .
  obtain b w2 where b: "consume_packet pc consumer (sp_packet x) (sp_source_elapsed_ms x) w1 = (b, w2)" by fastforce
  from consume_keeps [OF k w1, of consumer2 "sp_packet x" "sp_source_elapsed_ms x"] eq b
  have b2: "consume_packet pc consumer2 (sp_packet x) (sp_source_elapsed_ms x) w1 = (b, w2)" and w2: "I w2" by auto
  from GYield.IH [OF w2] w1 w2 show ?case
    by (auto simp: a b b2 pump_stop_def Let_def split: awaited.splits sum.splits)
qed (auto simp: pump_stop_def Let_def split: sum.splits schedule_exn.splits)

lemma pump_run_keeps:
  assumes k: "keeps I pc consumer" and eq: "\<And>x e w. I w \<Longrightarrow> consumer2 x e w = consumer x e w" and "I w"
  shows "pump_run fl pc opened cf consumer2 p w = pump_run fl pc opened cf consumer p w \<and>
    I (snd (snd (pump_run fl pc opened cf consumer p w)))"
proof -
  obtain t w1 where t: "pc_clock pc w = (t, w1)" by fastforce
  with keepsD(1) [OF k assms(3)] have "I w1" by blast
  with assms(3) pump_loop_keeps [OF k eq this] show ?thesis
    by (auto simp: pump_run_def t split: option.splits)
qed

section \<open>Correctness\<close>

lemma pump_initE:
  assumes "pump_init d (Inst start) (Inst stop) (Inst rate) mp timeout = Inr p"
  obtains "schedule_init d (Inst start) (Inst stop) (Inst rate) mp = Inr (pp_schedule p)" "pp_state p = Pump_CREATED"
    "pump_did [] p" "\<not> pp_descriptor_verified p"
  using assms by (auto simp: pump_init_def pump_did_def split: if_splits sum.splits)

lemma pump_run_started:
  assumes "pp_state p = Pump_CREATED" and "pc_clock pc w = (Some started, w1)"
  shows "pump_run fl pc opened cf consumer p w =
    pump_loop fl pc consumer started (p\<lparr>pp_state := Pump_RUNNING\<rparr>) (schedule_iter opened cf (pp_schedule p)) w1"
  using assms by (simp add: pump_run_def)

lemma pump_run_spec:
  assumes "pump_init d (Inst start) (Inst stop) (Inst rate) mp timeout = Inr p" and "descriptor_fields_ok d"
  obtains "gen_spec (schedule_at_yield d (opened_bytes opened) start stop rate) (schedule_at_close d (opened_bytes opened) start stop rate)
      (schedule_at_end d (opened_bytes opened) start stop rate) [] (schedule_iter opened cf (pp_schedule p))"
    "0 < rd_clock_rate_hz d"
proof (rule that)
  from assms(1) have si: "schedule_init d (Inst start) (Inst stop) (Inst rate) mp = Inr (pp_schedule p)" by (rule pump_initE)
  from schedule_initE [OF si assms(2)] have s: "schedule_new (pp_schedule p)" "sh_state (pp_schedule p) = Schedule_CREATED"
    "sh_rate (pp_schedule p) = rate" "window_init d (Inst start) (Inst stop) mp = Inr (sh_window (pp_schedule p))" by blast+
  from window_initE [OF s(4) assms(2)] have w: "wd_start_ms (sh_window (pp_schedule p)) = start"
    "wd_end_ms (sh_window (pp_schedule p)) = stop" "schedule_descriptor (pp_schedule p) = d" by blast+
  from schedule_iter_spec [OF s(1,2), of opened cf] show "gen_spec (schedule_at_yield d (opened_bytes opened) start stop rate)
      (schedule_at_close d (opened_bytes opened) start stop rate) (schedule_at_end d (opened_bytes opened) start stop rate) []
      (schedule_iter opened cf (pp_schedule p))"
    by (simp only: s(3) w)
  from assms(2) show "0 < rd_clock_rate_hz d" by (simp add: descriptor_fields_ok_def)
qed

lemma pump_run_took:
  assumes init: "pump_init d (Inst start) (Inst stop) (Inst rate) mp timeout = Inr p" and ok: "descriptor_fields_ok d"
    and fl: "rounds_f64 fl"
    and k: "keeps_time reached slack now adm pc took" and t: "takes_when_due reached slack adm (now w) consumer took" and "took [] w"
    and run: "pump_run fl pc opened cf consumer p w = (r, p', w')"
  shows "\<exists>zs. prefix zs (gen_items (schedule_iter opened cf (pp_schedule p))) \<and> took zs w' \<and>
    (\<not> isl r \<longrightarrow> zs = gen_items (schedule_iter opened cf (pp_schedule p)))"
proof -
  let ?g = "schedule_iter opened cf (pp_schedule p)" and ?p = "p\<lparr>pp_state := Pump_RUNNING\<rparr>"
  from init have p: "pp_state p = Pump_CREATED" "pump_did [] p" "\<not> pp_descriptor_verified p" by (rule pump_initE; simp)+
  from pump_run_spec [OF init ok] have spec: "gen_spec (schedule_at_yield d (opened_bytes opened) start stop rate)
      (schedule_at_close d (opened_bytes opened) start stop rate) (schedule_at_end d (opened_bytes opened) start stop rate) [] ?g"
    and clock: "0 < rd_clock_rate_hz d" by blast+
  have did: "pump_did [] ?p" "\<not> pp_descriptor_verified ?p" using p(2,3) by simp_all
  from pump_run_started [OF p(1) keeps_timeD(1) [OF k]] run
  have "pump_loop fl pc consumer (now w) ?p ?g w = (r, p', w')" by simp
  from pump_loop_took [OF spec clock did k t fl keeps_timeD(4) [OF k \<open>took [] w\<close>] \<open>took [] w\<close> this] show ?thesis by simp
qed

text \<open>The packets of a recording that a window from \<open>start\<close> to \<open>stop\<close> plays.\<close>

definition window_packets :: "recording_descriptor \<Rightarrow> int \<Rightarrow> int \<Rightarrow> playback_rate \<Rightarrow> byte list list \<Rightarrow> scheduled_packet list" where
  "window_packets d start stop rate ps =
     scheduled rate (filter (\<lambda>x. start \<le> tp_elapsed_ms x \<and> tp_elapsed_ms x \<le> stop) (timed d ps))"

lemma pump_run_completes:
  assumes "pump_init d (Inst start) (Inst stop) (Inst rate) mp timeout = Inr p" and "describes d ps" and "smooth ps"
    and ret: "all_return (window_packets d start stop rate ps) calm pc consumer" and "calm [] w"
  shows "gen_items (schedule_iter (recording_of ps) cf (pp_schedule p)) = window_packets d start stop rate ps \<and>
    (\<exists>sn p' w'. pump_run fl pc (recording_of ps) cf consumer p w = (Inr sn, p', w') \<and>
      calm (window_packets d start stop rate ps) w' \<and> pps_state sn = Pump_COMPLETE \<and>
      pps_delivered_packets sn = len (window_packets d start stop rate ps) \<and> pps_descriptor_verified sn)"
proof -
  have ok: "descriptor_fields_ok d" using assms(2) by (simp add: describes_def)
  from assms(1) have p: "schedule_init d (Inst start) (Inst stop) (Inst rate) mp = Inr (pp_schedule p)"
    "pp_state p = Pump_CREATED" "pump_did [] p" "\<not> pp_descriptor_verified p" by (rule pump_initE; simp)+
  let ?g = "schedule_iter (recording_of ps) cf (pp_schedule p)" and ?p = "p\<lparr>pp_state := Pump_RUNNING\<rparr>"
  from pump_run_spec [OF assms(1) ok] have spec: "gen_spec (schedule_at_yield d (opened_bytes (recording_of ps)) start stop rate)
      (schedule_at_close d (opened_bytes (recording_of ps)) start stop rate)
      (schedule_at_end d (opened_bytes (recording_of ps)) start stop rate) [] ?g" and clock: "0 < rd_clock_rate_hz d" by blast+
  from schedule_items [OF p(1) assms(2,3), of cf] have items: "gen_items ?g = window_packets d start stop rate ps"
    and e: "fst (gen_end ?g) = Inr ()" by (auto simp: window_packets_def)
  have did: "pump_did [] ?p" "\<not> pp_descriptor_verified ?p" using p(3,4) by simp_all
  obtain started w1 where c: "pc_clock pc w = (Some started, w1)" "calm [] w1" using all_returnD(1) [OF ret assms(5)] by blast
  obtain r p' w' where run: "pump_loop fl pc consumer started ?p ?g w1 = (r, p', w')" by (metis prod_cases3)
  from ret items have ret': "all_return ([] @ gen_items ?g) calm pc consumer" by simp
  from pump_loop_completes [OF spec clock did ret' e c(2) run] items obtain sn
    where r: "r = Inr sn" and calm: "calm (window_packets d start stop rate ps) w'" by auto
  from pump_loop_ended [OF spec clock did run] r items
  have "pump_outcome_ok (Inr sn) p'" "pump_did (window_packets d start stop rate ps) p'" by (auto simp: pump_ended_def)
  moreover have "pump_run fl pc (recording_of ps) cf consumer p w = (Inr sn, p', w')"
    using pump_run_started [OF p(2) c(1)] run r by simp
  ultimately show ?thesis
    using items calm by (auto simp: pump_outcome_ok_def pump_did_def pump_snapshot_def split: if_splits)
qed

lemma pump_run_delivers:
  assumes "pump_init d (Inst start) (Inst stop) (Inst rate) mp timeout = Inr p" and "describes d ps" and "smooth ps"
    and fl: "rounds_f64 fl"
    and "keeps_time reached slack now adm pc took" and "takes_when_due reached slack adm (now w) consumer took"
    and "all_return (window_packets d start stop rate ps) calm pc consumer" and "calm [] w" and "took [] w"
  shows "\<exists>sn p' w'. pump_run fl pc (recording_of ps) cf consumer p w = (Inr sn, p', w') \<and>
    took (window_packets d start stop rate ps) w' \<and> pps_state sn = Pump_COMPLETE \<and>
    pps_delivered_packets sn = len (window_packets d start stop rate ps) \<and> pps_descriptor_verified sn"
proof -
  have ok: "descriptor_fields_ok d" using assms(2) by (simp add: describes_def)
  from pump_run_completes [OF assms(1-3,7,8), of cf fl] obtain sn p' w'
    where items: "gen_items (schedule_iter (recording_of ps) cf (pp_schedule p)) = window_packets d start stop rate ps"
      and run: "pump_run fl pc (recording_of ps) cf consumer p w = (Inr sn, p', w')" and sn: "pps_state sn = Pump_COMPLETE"
        "pps_delivered_packets sn = len (window_packets d start stop rate ps)" "pps_descriptor_verified sn" by blast
  from pump_run_took [OF assms(1) ok fl assms(5,6,9) run] items have "took (window_packets d start stop rate ps) w'" by auto
  with run sn show ?thesis by (intro exI conjI)
qed

text \<open>
  C33: paced playback of a recording that matches its descriptor and whose RTP timestamps do not
  regress (\<open>smooth\<close>: each is less than \<open>2 ^ 31\<close> ticks after the one before), in a world where nothing
  fails, with the rounding of binary64 (any \<open>fl\<close> with a relative error of at most \<open>2 ^ -53\<close>) and sleeps
  that end at most \<open>slack\<close> early. \<open>took\<close> is any record of what the consumer was given and when: the pump
  returns; the consumer took exactly the packets of the window, in order, each one when the clock had
  reached \<open>due_time\<close>, that is \<open>started + due\<close> less a relative error of \<open>2 ^ -51\<close> and the slack; and the
  snapshot counts them and says that the recording was verified.
\<close>

theorem pump_delivers_on_time:
  assumes "pump_init d (Inst start) (Inst stop) (Inst rate) mp timeout = Inr p" and "describes d ps" and "smooth ps"
    and "rounds_f64 fl"
    and "keeps_time (\<lambda>v w. v \<le> now w) slack now adm pc took"
    and "takes_when_due (\<lambda>v w. v \<le> now w) slack adm (now w) consumer took"
    and "all_return (window_packets d start stop rate ps) calm pc consumer" and "calm [] w" and "took [] w"
  shows "\<exists>sn p' w'. pump_run fl pc (recording_of ps) cf consumer p w = (Inr sn, p', w') \<and>
    took (window_packets d start stop rate ps) w' \<and> pps_state sn = Pump_COMPLETE \<and>
    pps_delivered_packets sn = len (window_packets d start stop rate ps) \<and> pps_descriptor_verified sn"
  using assms by (rule pump_run_delivers)

text \<open>A world for the example: a clock, and what the consumer got at which time.\<close>

type_synonym logged = "rat \<times> (byte list \<times> int \<times> rat) list"

definition logged_pacing :: "logged pacing" where
  "logged_pacing = \<lparr>pc_clock = (\<lambda>w. (Some (fst w), w)), pc_sleep = (\<lambda>r w. (Returned (), (fst w + max 0 r, snd w))), pc_admit = None\<rparr>"

definition logged_consumer :: "logged packet_consumer" where
  "logged_consumer x e w = (Returned (), (fst w, snd w @ [(x, e, fst w)]))"

definition logged_took :: "rat \<Rightarrow> scheduled_packet list \<Rightarrow> logged \<Rightarrow> bool" where
  "logged_took started xs w \<longleftrightarrow>
     0 \<le> fst w \<and> list_all2 (\<lambda>x (p, e, t). p = sp_packet x \<and> e = sp_source_elapsed_ms x \<and> due_time 0 started x \<le> t) xs (snd w)"

definition sample_pump :: pump where
  "sample_pump = \<lparr>pp_schedule = sample_schedule, pp_rate = DOUBLE, pp_state = Pump_CREATED, pp_delivered_packets = 0,
     pp_delivered_bytes = 0, pp_late_packets = 0, pp_source_span_ms = 0, pp_scheduled_span_ms = 0,
     pp_descriptor_verified = False\<rparr>"

lemma sample_pump_init: "pump_init sample_recording (Inst 0) (Inst 500) (Inst DOUBLE) 4 1 = Inr sample_pump"
  by (simp add: pump_init_def sample_schedule_init sample_pump_def) (simp add: sample_schedule_def)

lemma logged_keeps_time: "keeps_time (\<lambda>v w. v \<le> fst w) 0 fst (\<lambda>_. True) logged_pacing (logged_took s)"
  by (auto simp: keeps_time_def logged_pacing_def logged_took_def field_simps)

lemma logged_takes: "takes_when_due (\<lambda>v w. v \<le> fst w) 0 (\<lambda>_. True) s logged_consumer (logged_took s)"
  by (auto simp: takes_when_due_def logged_consumer_def logged_took_def intro: list_all2_appendI)

lemma logged_returns: "all_return items (\<lambda>_ _. True) logged_pacing logged_consumer"
  by (simp add: all_return_def logged_pacing_def logged_consumer_def)

theorem pump_delivers_on_time_witness:
  "\<exists>sn p' w'. pump_run f64_rat logged_pacing (recording_of [sample_packet]) False logged_consumer sample_pump (7, []) =
     (Inr sn, p', w') \<and> map fst (snd w') = [sample_packet] \<and> pps_descriptor_verified sn"
proof -
  have "smooth [sample_packet]" by (simp add: smooth_def)
  moreover have "takes_when_due (\<lambda>v w. v \<le> fst w) 0 (\<lambda>_. True) (fst (7, [])) logged_consumer (logged_took 7)"
    using logged_takes by simp
  moreover have "logged_took 7 [] (7, [])" by (simp add: logged_took_def)
  ultimately obtain sn p' w' where run: "pump_run f64_rat logged_pacing (recording_of [sample_packet]) False logged_consumer sample_pump (7, []) =
     (Inr sn, p', w')" and v: "pps_descriptor_verified sn"
    and t: "logged_took 7 (window_packets sample_recording 0 500 DOUBLE [sample_packet]) w'"
    using pump_delivers_on_time [OF sample_pump_init sample_describes _ f64_rat_rounds logged_keeps_time _ logged_returns TrueI] by blast
  from t have "map fst (snd w') = [sample_packet]"
    by (auto simp: logged_took_def window_packets_def timed_def scheduled_def list_all2_Cons1)
  with run v show ?thesis by (intro exI conjI)
qed

lemma pump_run_outcomes:
  assumes "pump_init d (Inst start) (Inst stop) (Inst rate) mp timeout = Inr p" and "descriptor_fields_ok d"
    and "pump_run fl pc opened cf consumer p w = (r, p', w')"
  shows "pump_outcome_ok r p' \<and>
    (\<exists>zs. prefix zs (gen_items (schedule_iter opened cf (pp_schedule p))) \<and>
       pp_delivered_packets p' = len zs \<and> pp_delivered_bytes p' = len (concat (map sp_packet zs)) \<and>
       (\<forall>sn. r = Inr sn \<longrightarrow> zs = gen_items (schedule_iter opened cf (pp_schedule p)) \<and>
          fst (gen_end (schedule_iter opened cf (pp_schedule p))) = Inr ())) \<and>
    pump_run fl2 pc2 opened2 cf2 consumer2 p' w2 = (Inl (PlaybackPumpError Pump_INVALID_STATE None), p', w2)"
proof -
  let ?g = "schedule_iter opened cf (pp_schedule p)" and ?p = "p\<lparr>pp_state := Pump_RUNNING\<rparr>"
  from assms(1) have p: "pp_state p = Pump_CREATED" "pump_did [] p" "\<not> pp_descriptor_verified p" by (rule pump_initE; simp)+
  from pump_run_spec [OF assms(1,2)] have spec: "gen_spec (schedule_at_yield d (opened_bytes opened) start stop rate)
      (schedule_at_close d (opened_bytes opened) start stop rate) (schedule_at_end d (opened_bytes opened) start stop rate) [] ?g"
    and clock: "0 < rd_clock_rate_hz d" by blast+
  have first: "pump_outcome_ok r p' \<and> (\<exists>zs. prefix zs (gen_items ?g) \<and> pp_delivered_packets p' = len zs \<and>
      pp_delivered_bytes p' = len (concat (map sp_packet zs)) \<and>
      (\<forall>sn. r = Inr sn \<longrightarrow> zs = gen_items ?g \<and> fst (gen_end ?g) = Inr ()))"
  proof (cases "pc_clock pc w")
    case (Pair c w1)
    show ?thesis
    proof (cases c)
      case None
      with Pair assms(3) p show ?thesis
        by (auto simp: pump_run_def pump_outcome_ok_def pump_did_def intro!: exI [of _ "[]"])
    next
      case (Some started)
      with Pair have "pc_clock pc w = (Some started, w1)" by simp
      from pump_run_started [OF p(1) this] assms(3)
      have run: "pump_loop fl pc consumer started ?p ?g w1 = (r, p', w')" by simp
      have did: "pump_did [] ?p" "\<not> pp_descriptor_verified ?p" using p(2,3) by simp_all
      from pump_loop_ended [OF spec clock did run] show ?thesis
        by (cases r) (fastforce simp: pump_ended_def pump_did_def)+
    qed
  qed
  then have "pp_state p' \<noteq> Pump_CREATED"
    by (auto simp: pump_outcome_ok_def split: sum.splits pump_exn.splits)
  with first show ?thesis by (simp add: pump_run_def)
qed

text \<open>
  C32: how a pump can end, whatever the file, the clock, the rounding, the sleep, the pause control
  and the consumer do. It returns only if the whole schedule ran to its end, with every packet of it
  delivered, and then the recording is verified; a failure leaves \<open>FAILED\<close> with a pump error, a
  cancellation leaves \<open>CANCELLED\<close> and passes on, and both leave the recording unverified with an
  initial part of the schedule delivered. A second run is refused and changes nothing.
\<close>

theorem pump_outcomes:
  assumes "pump_init d (Inst start) (Inst stop) (Inst rate) mp timeout = Inr p" and "descriptor_fields_ok d"
    and "pump_run fl pc opened cf consumer p w = (r, p', w')"
  shows "pump_outcome_ok r p' \<and>
    (\<exists>zs. prefix zs (gen_items (schedule_iter opened cf (pp_schedule p))) \<and>
       pp_delivered_packets p' = len zs \<and> pp_delivered_bytes p' = len (concat (map sp_packet zs)) \<and>
       (\<forall>sn. r = Inr sn \<longrightarrow> zs = gen_items (schedule_iter opened cf (pp_schedule p)) \<and>
          fst (gen_end (schedule_iter opened cf (pp_schedule p))) = Inr ())) \<and>
    pump_run fl2 pc2 opened2 cf2 consumer2 p' w2 = (Inl (PlaybackPumpError Pump_INVALID_STATE None), p', w2)"
  using assms by (rule pump_run_outcomes)

theorem pump_outcomes_witness:
  "\<exists>r p' w'. pump_run (\<lambda>x. x) logged_pacing None False logged_consumer sample_pump (0, []) = (r, p', w') \<and>
     pump_outcome_ok r p' \<and> pp_state p' = Pump_FAILED"
proof -
  obtain r p' w' where run: "pump_run (\<lambda>x. x) logged_pacing None False logged_consumer sample_pump (0, []) = (r, p', w')"
    by (metis prod_cases3)
  have "pp_state (fst (snd (pump_run (\<lambda>x. x) logged_pacing None False logged_consumer sample_pump (0, [])))) = Pump_FAILED"
    by code_simp
  with run have "pp_state p' = Pump_FAILED" by simp
  moreover from conjunct1 [OF pump_outcomes [OF sample_pump_init sample_fields_ok run]] have "pump_outcome_ok r p'" .
  ultimately show ?thesis using run by (intro exI conjI)
qed

end
