(* ===== verification/Playback_Control.thy ===== *)
theory Playback_Control
  imports Playback_Pump
begin

text \<open>
  \<open>src/src/k5vision/media/playback_control.py\<close>: \<open>PlaybackPauseControl\<close> is a clock that stands still
  while playback is paused, and a sleep that follows it. As in the pump, clock readings are rational
  and \<open>fl\<close> is the rounding of the float arithmetic. An awaited event lets other tasks run: what
  they do to the control and to the world \<open>'w\<close> until this task resumes is an argument of the model.
\<close>

section \<open>State\<close>

datatype playback_control_state = Control_RUNNING | Control_PAUSED

datatype pausing_error_code = CLOCK_FAILURE | SLEEP_FAILURE

datatype pausing_exn =
    PlaybackControlError pausing_error_code
  | Control_ValidationError
  | Control_AssertionError
  | Control_TimeoutError
  | Control_CancelledError

record pausing_snapshot =
  pks_state :: playback_control_state
  pks_pause_count :: int
  pks_resume_count :: int
  pks_paused_total_ms :: int

text \<open>\<open>_running\<close> and \<open>_paused\<close> are the two events, set or not.\<close>

record pause_control =
  pk_state :: playback_control_state
  pk_pause_count :: int
  pk_resume_count :: int
  pk_paused_total_seconds :: rat
  pk_paused_at :: "rat option"
  pk_running :: bool
  pk_paused :: bool

definition pausing_init :: pause_control where
  "pausing_init = \<lparr>pk_state = Control_RUNNING, pk_pause_count = 0, pk_resume_count = 0, pk_paused_total_seconds = 0,
     pk_paused_at = None, pk_running = True, pk_paused = False\<rparr>"

section \<open>Pausing\<close>

text \<open>A reading of \<open>_clock\<close> is a number, or the clock fails.\<close>

definition raw_now :: "('w \<Rightarrow> rat option \<times> 'w) \<Rightarrow> 'w \<Rightarrow> (pausing_exn + rat) \<times> 'w" where
  "raw_now clock w =
     (case clock w of
        (None, w1) \<Rightarrow> (Inl (PlaybackControlError CLOCK_FAILURE), w1)
      | (Some t, w1) \<Rightarrow> (Inr t, w1))"

definition round_rat :: "rat \<Rightarrow> int" where
  "round_rat x = (let (p, q) = quotient_of x in round_half_even p q)"

definition pausing_snapshot :: "(rat \<Rightarrow> rat) \<Rightarrow> pause_control \<Rightarrow> pausing_exn + pausing_snapshot" where
  "pausing_snapshot fl k =
     (if 0 \<le> pk_pause_count k \<and> pk_pause_count k \<le> 1000000 \<and> 0 \<le> pk_resume_count k \<and> pk_resume_count k \<le> 1000000
      then Inr \<lparr>pks_state = pk_state k, pks_pause_count = pk_pause_count k, pks_resume_count = pk_resume_count k,
                pks_paused_total_ms = min 2147483647 (max 0 (round_rat (fl (pk_paused_total_seconds k * 1000))))\<rparr>
      else Inl Control_ValidationError)"

definition pausing_monotonic ::
  "(rat \<Rightarrow> rat) \<Rightarrow> ('w \<Rightarrow> rat option \<times> 'w) \<Rightarrow> pause_control \<Rightarrow> 'w \<Rightarrow> (pausing_exn + rat) \<times> 'w" where
  "pausing_monotonic fl clock k w =
     (case raw_now clock w of
        (Inl e, w1) \<Rightarrow> (Inl e, w1)
      | (Inr now, w1) \<Rightarrow>
          (let effective_now = (case pk_paused_at k of Some t \<Rightarrow> t | None \<Rightarrow> now)
           in (Inr (fl (effective_now - pk_paused_total_seconds k)), w1)))"

text \<open>The body of \<open>pause\<close> and \<open>resume\<close>, under the lock.\<close>

definition pausing_pause ::
  "(rat \<Rightarrow> rat) \<Rightarrow> ('w \<Rightarrow> rat option \<times> 'w) \<Rightarrow> pause_control \<Rightarrow> 'w \<Rightarrow> (pausing_exn + pausing_snapshot) \<times> pause_control \<times> 'w" where
  "pausing_pause fl clock k w =
     (if pk_state k = Control_PAUSED then (pausing_snapshot fl k, k, w)
      else case raw_now clock w of
        (Inl e, w1) \<Rightarrow> (Inl e, k, w1)
      | (Inr t, w1) \<Rightarrow>
          (let k1 = k\<lparr>pk_paused_at := Some t, pk_state := Control_PAUSED, pk_pause_count := pk_pause_count k + 1,
                      pk_running := False, pk_paused := True\<rparr>
           in (pausing_snapshot fl k1, k1, w1)))"

definition pausing_resume ::
  "(rat \<Rightarrow> rat) \<Rightarrow> ('w \<Rightarrow> rat option \<times> 'w) \<Rightarrow> pause_control \<Rightarrow> 'w \<Rightarrow> (pausing_exn + pausing_snapshot) \<times> pause_control \<times> 'w" where
  "pausing_resume fl clock k w =
     (if pk_state k = Control_RUNNING then (pausing_snapshot fl k, k, w)
      else case raw_now clock w of
        (Inl e, w1) \<Rightarrow> (Inl e, k, w1)
      | (Inr t, w1) \<Rightarrow>
          (case pk_paused_at k of
             None \<Rightarrow> (Inl Control_AssertionError, k, w1)
           | Some a \<Rightarrow>
               (let k1 = k\<lparr>pk_paused_total_seconds := fl (pk_paused_total_seconds k + max 0 (fl (t - a))),
                           pk_paused_at := None, pk_state := Control_RUNNING, pk_resume_count := pk_resume_count k + 1,
                           pk_paused := False, pk_running := True\<rparr>
                in (pausing_snapshot fl k1, k1, w1))))"

text \<open>Paused exactly while a pause time is set, and the events agree with the state.\<close>

definition pausing_ok :: "pause_control \<Rightarrow> bool" where
  "pausing_ok k \<longleftrightarrow>
     (pk_state k = Control_PAUSED \<longleftrightarrow> pk_paused_at k \<noteq> None) \<and> (pk_running k \<longleftrightarrow> pk_state k = Control_RUNNING) \<and>
     (pk_paused k \<longleftrightarrow> pk_state k = Control_PAUSED) \<and>
     0 \<le> pk_resume_count k \<and> pk_pause_count k = pk_resume_count k + (if pk_state k = Control_PAUSED then 1 else 0)"

lemma pausing_ok_init [simp]: "pausing_ok pausing_init"
  by (simp add: pausing_ok_def pausing_init_def)

lemma pausing_pause_ok:
  assumes "pausing_ok k" and "pausing_pause fl clock k w = (r, k', w')"
  shows "pausing_ok k'"
proof -
  from assms(1) have "pk_state k \<noteq> Control_PAUSED \<Longrightarrow> pk_state k = Control_RUNNING" by (cases "pk_state k") simp_all
  with assms show ?thesis
    by (auto simp: pausing_ok_def pausing_pause_def Let_def split: if_splits prod.splits sum.splits)
qed

lemma pausing_resume_ok:
  assumes "pausing_ok k" and "pausing_resume fl clock k w = (r, k', w')"
  shows "pausing_ok k'"
  using assms by (cases "pk_state k")
    (auto simp: pausing_ok_def pausing_resume_def Let_def split: if_splits prod.splits sum.splits option.splits)

section \<open>Virtual time\<close>

datatype pausing_op = Op_pause | Op_resume

definition pausing_step :: "(rat \<Rightarrow> rat) \<Rightarrow> pausing_op \<Rightarrow> rat \<Rightarrow> pause_control \<Rightarrow> pause_control" where
  "pausing_step fl op t k =
     fst (snd (case op of Op_pause \<Rightarrow> pausing_pause fl (\<lambda>w. (Some t, w)) k () | Op_resume \<Rightarrow> pausing_resume fl (\<lambda>w. (Some t, w)) k ()))"

fun pausing_steps :: "(rat \<Rightarrow> rat) \<Rightarrow> (pausing_op \<times> rat) list \<Rightarrow> pause_control \<Rightarrow> pause_control" where
  "pausing_steps fl [] k = k"
| "pausing_steps fl ((op, t) # es) k = pausing_steps fl es (pausing_step fl op t k)"

text \<open>The virtual time at \<open>now\<close>.\<close>

definition virtual_time :: "(rat \<Rightarrow> rat) \<Rightarrow> pause_control \<Rightarrow> rat \<Rightarrow> rat" where
  "virtual_time fl k now = (case fst (pausing_monotonic fl (\<lambda>w. (Some now, w)) k ()) of Inr t \<Rightarrow> t | Inl _ \<Rightarrow> 0)"

lemma virtual_time_eq:
  "virtual_time fl k now = fl ((case pk_paused_at k of Some t \<Rightarrow> t | None \<Rightarrow> now) - pk_paused_total_seconds k)"
  by (simp add: virtual_time_def pausing_monotonic_def raw_now_def Let_def)

lemma pausing_monotonic_eq:
  "clock w = (Some t, w') \<Longrightarrow> pausing_monotonic fl clock k w = (Inr (virtual_time fl k t), w')"
  by (simp add: virtual_time_eq pausing_monotonic_def raw_now_def Let_def)

text \<open>What the control promises: how long playback has been running between two times.\<close>

fun running_time :: "bool \<Rightarrow> rat \<Rightarrow> (pausing_op \<times> rat) list \<Rightarrow> rat \<Rightarrow> rat" where
  "running_time running t [] now = (if running then now - t else 0)"
| "running_time running t ((op, u) # es) now =
     (if running then u - t else 0) + running_time (op = Op_resume) u es now"

lemma pausing_step_simps:
  assumes "pausing_ok k"
  shows "pausing_ok (pausing_step fl op t k)"
    and "pk_state (pausing_step fl op t k) = (if op = Op_resume then Control_RUNNING else Control_PAUSED)"
proof -
  show "pausing_ok (pausing_step fl op t k)"
    unfolding pausing_step_def
    by (cases op) (simp_all, (metis assms pausing_pause_ok pausing_resume_ok prod.collapse)+)
  show "pk_state (pausing_step fl op t k) = (if op = Op_resume then Control_RUNNING else Control_PAUSED)"
    using assms by (cases op; cases "pk_state k")
      (auto simp: pausing_step_def pausing_pause_def pausing_resume_def raw_now_def Let_def pausing_ok_def)
qed

text \<open>A time at or after the last one the control has seen.\<close>

definition not_before :: "pause_control \<Rightarrow> rat \<Rightarrow> bool" where
  "not_before k t \<longleftrightarrow> (\<forall>a. pk_paused_at k = Some a \<longrightarrow> a \<le> t)"

lemma pausing_step_not_before:
  assumes "pausing_ok k" and "not_before k t" and "t \<le> u"
  shows "not_before (pausing_step fl op u k) u"
  using assms by (cases op; cases "pk_state k")
    (auto simp: pausing_step_def pausing_pause_def pausing_resume_def raw_now_def Let_def not_before_def pausing_ok_def)

lemma pausing_step_time:
  assumes "pausing_ok k" and "not_before k t" and "t \<le> u"
  shows "virtual_time (\<lambda>x. x) (pausing_step (\<lambda>x. x) op u k) u =
      virtual_time (\<lambda>x. x) k t + (if pk_state k = Control_RUNNING then u - t else 0)"
  using assms by (cases op; cases "pk_state k")
    (auto simp: pausing_step_def pausing_pause_def pausing_resume_def raw_now_def Let_def virtual_time_eq
      pausing_ok_def not_before_def)

lemma pausing_steps_time:
  assumes "pausing_ok k" and "not_before k t" and "sorted (t # map snd es @ [now])"
  shows "virtual_time (\<lambda>x. x) (pausing_steps (\<lambda>x. x) es k) now =
    virtual_time (\<lambda>x. x) k t + running_time (pk_state k = Control_RUNNING) t es now"
  using assms
proof (induction es arbitrary: k t)
  case Nil
  then show ?case by (cases "pk_state k") (auto simp: virtual_time_eq pausing_ok_def)
next
  case (Cons e es)
  obtain op u where e: "e = (op, u)" by fastforce
  with Cons.prems have tu: "t \<le> u" and s: "sorted (u # map snd es @ [now])" by simp_all
  have st: "(pk_state (pausing_step (\<lambda>x. x) op u k) = Control_RUNNING) = (op = Op_resume)"
    by (simp add: pausing_step_simps(2) [OF Cons.prems(1)])
  from Cons.IH [OF pausing_step_simps(1) [OF Cons.prems(1)] pausing_step_not_before [OF Cons.prems(1,2) tu] s]
    pausing_step_time [OF Cons.prems(1,2) tu, of op] st e
  show ?case by simp
qed

text \<open>
  With exact arithmetic the pause control is a clock of the time spent running. From its
  creation on, after any pauses and resumes at times that do not go back, also repeated ones, the
  virtual clock has advanced by exactly the time during which playback was not paused: nothing of a
  pause is ever made up for.
\<close>

lemma pausing_measures_running_time:
  assumes "sorted (t # map snd es @ [now])"
  shows "virtual_time (\<lambda>x. x) (pausing_steps (\<lambda>x. x) es pausing_init) now = t + running_time True t es now"
proof -
  have "not_before pausing_init t" "virtual_time (\<lambda>x. x) pausing_init t = t" "pk_state pausing_init = Control_RUNNING"
    by (simp_all add: not_before_def pausing_init_def virtual_time_eq)
  with pausing_steps_time [OF pausing_ok_init this(1) assms] show ?thesis by simp
qed

lemma pausing_measures_running_time_witness:
  "virtual_time (\<lambda>x. x) (pausing_steps (\<lambda>x. x) [(Op_pause, 3), (Op_resume, 10)] pausing_init) 12 = 1 + (2 + 2)"
  using pausing_measures_running_time [of 1 "[(Op_pause, 3), (Op_resume, 10)]" 12] by simp

section \<open>Waiting\<close>

text \<open>
  What a task needs of its environment: the control's clock, the loop's clock, the wait for the event
  \<open>_running\<close>, and \<open>asyncio.wait\<close> for the first of the sleep and the event \<open>_paused\<close>. The last two let
  other tasks run.
\<close>

datatype race =
    Race_cancelled
  | Race_done "unit awaited option"

record 'w pausing_env =
  ce_clock :: "'w \<Rightarrow> rat option \<times> 'w"
  ce_loop_time :: "'w \<Rightarrow> rat \<times> 'w"
  ce_wait_running :: "pause_control \<Rightarrow> 'w \<Rightarrow> bool \<times> pause_control \<times> 'w"
  ce_race :: "rat \<Rightarrow> pause_control \<Rightarrow> 'w \<Rightarrow> race \<times> pause_control \<times> 'w"

text \<open>The \<open>asyncio.Timeout\<close> of the task, when it bounds this task: \<open>when()\<close> and \<open>expired()\<close>.\<close>

record deadline =
  dl_when :: "rat option"
  dl_expired :: bool

text \<open>
  The \<open>while\<close> loop: \<open>None\<close> is a task that waits forever. \<open>ce_wait_running\<close> returns False when the task is
  cancelled.
\<close>

partial_function (option) wait_loop ::
  "'w pausing_env \<Rightarrow> pause_control \<Rightarrow> 'w \<Rightarrow> ((pausing_exn + unit) \<times> pause_control \<times> 'w) option" where
  [code]: "wait_loop env k w =
     (if pk_state k = Control_PAUSED then
        (case ce_wait_running env k w of
           (awake, k1, w1) \<Rightarrow> if awake then wait_loop env k1 w1 else Some (Inl Control_CancelledError, k1, w1))
      else Some (Inr (), k, w))"

type_synonym 'w pausing_run = "((pausing_exn + unit) \<times> deadline option \<times> pause_control \<times> 'w) option"

definition wait_until_running ::
  "(rat \<Rightarrow> rat) \<Rightarrow> 'w pausing_env \<Rightarrow> deadline option \<Rightarrow> pause_control \<Rightarrow> 'w \<Rightarrow> 'w pausing_run" where
  "wait_until_running fl env bound k w =
     (if pk_state k = Control_RUNNING then Some (Inr (), bound, k, w)
      else case bound of
        None \<Rightarrow> map_option (\<lambda>(r, k1, w1). (r, bound, k1, w1)) (wait_loop env k w)
      | Some dl \<Rightarrow>
          (if dl_expired dl then Some (Inl Control_TimeoutError, bound, k, w)
           else case dl_when dl of
             None \<Rightarrow> map_option (\<lambda>(r, k1, w1). (r, bound, k1, w1)) (wait_loop env k w)
           | Some due \<Rightarrow>
               (let (t1, w1) = ce_loop_time env w in
                if due \<le> t1 then Some (Inl Control_TimeoutError, bound, k, w1)
                else let (t2, w2) = ce_loop_time env w1; remaining = fl (due - t2) in
                  if remaining \<le> 0 then Some (Inl Control_TimeoutError, bound, k, w2)
                  else map_option (\<lambda>(r, k1, w3).
                      let (t3, w4) = ce_loop_time env w3 in (r, Some (dl\<lparr>dl_when := Some (fl (t3 + remaining))\<rparr>), k1, w4))
                    (wait_loop env k w2))))"

partial_function (option) sleep_loop ::
  "(rat \<Rightarrow> rat) \<Rightarrow> 'w pausing_env \<Rightarrow> rat \<Rightarrow> deadline option \<Rightarrow> pause_control \<Rightarrow> 'w \<Rightarrow> 'w pausing_run" where
  [code]: "sleep_loop fl env target dl k w =
     (case wait_until_running fl env dl k w of
        None \<Rightarrow> None
      | Some (Inl e, dl1, k1, w1) \<Rightarrow> Some (Inl e, dl1, k1, w1)
      | Some (Inr _, dl1, k1, w1) \<Rightarrow>
          (case pausing_monotonic fl (ce_clock env) k1 w1 of
             (Inl e, w2) \<Rightarrow> Some (Inl e, dl1, k1, w2)
           | (Inr now, w2) \<Rightarrow>
               (if fl (target - now) \<le> 0 then Some (Inr (), dl1, k1, w2)
                else case ce_race env (fl (target - now)) k1 w2 of
                  (Race_cancelled, k2, w3) \<Rightarrow> Some (Inl Control_CancelledError, dl1, k2, w3)
                | (Race_done (Some Cancelled), k2, w3) \<Rightarrow> Some (Inl Control_CancelledError, dl1, k2, w3)
                | (Race_done (Some Raised), k2, w3) \<Rightarrow> Some (Inl (PlaybackControlError SLEEP_FAILURE), dl1, k2, w3)
                | (Race_done (Some TimedOut), k2, w3) \<Rightarrow> Some (Inl (PlaybackControlError SLEEP_FAILURE), dl1, k2, w3)
                | (Race_done (Some (Returned _)), k2, w3) \<Rightarrow> sleep_loop fl env target dl1 k2 w3
                | (Race_done None, k2, w3) \<Rightarrow> sleep_loop fl env target dl1 k2 w3)))"

definition pausing_sleep ::
  "(rat \<Rightarrow> rat) \<Rightarrow> 'w pausing_env \<Rightarrow> rat \<Rightarrow> deadline option \<Rightarrow> pause_control \<Rightarrow> 'w \<Rightarrow> 'w pausing_run" where
  "pausing_sleep fl env delay dl k w =
     (if delay \<le> 0 then wait_until_running fl env dl k w
      else case pausing_monotonic fl (ce_clock env) k w of
        (Inl e, w1) \<Rightarrow> Some (Inl e, dl, k, w1)
      | (Inr now, w1) \<Rightarrow> sleep_loop fl env (fl (now + delay)) dl k w1)"

section \<open>Other tasks\<close>

text \<open>
  While a task waits, others may pause and resume through the control, at times that do not go back,
  and change the world in ways that keep \<open>P\<close>. The virtual clock does not fall below zero. Reading a
  clock changes nothing.
\<close>

definition others_ran ::
  "(rat \<Rightarrow> rat) \<Rightarrow> ('w \<Rightarrow> rat) \<Rightarrow> ('w \<Rightarrow> bool) \<Rightarrow> pause_control \<Rightarrow> 'w \<Rightarrow> pause_control \<Rightarrow> 'w \<Rightarrow> bool" where
  "others_ran fl now P k w k' w' \<longleftrightarrow>
     (\<exists>es. sorted (now w # map snd es @ [now w']) \<and> k' = pausing_steps fl es k) \<and>
     0 \<le> virtual_time fl k' (now w') \<and> (P w \<longrightarrow> P w')"

text \<open>A control whose clock has not run ahead of the world's; \<open>moved\<close> says how it can change.\<close>

definition in_time :: "(rat \<Rightarrow> rat) \<Rightarrow> ('w \<Rightarrow> rat) \<Rightarrow> pause_control \<Rightarrow> 'w \<Rightarrow> bool" where
  "in_time fl now k w \<longleftrightarrow> pausing_ok k \<and> not_before k (now w) \<and> 0 \<le> virtual_time fl k (now w)"

definition moved ::
  "(rat \<Rightarrow> rat) \<Rightarrow> ('w \<Rightarrow> rat) \<Rightarrow> ('w \<Rightarrow> bool) \<Rightarrow> pause_control \<Rightarrow> 'w \<Rightarrow> pause_control \<Rightarrow> 'w \<Rightarrow> bool" where
  "moved fl now P k w k' w' \<longleftrightarrow>
     in_time fl now k' w' \<and> (P w \<longrightarrow> P w') \<and> (\<exists>es. sorted (now w # map snd es @ [now w']) \<and> k' = pausing_steps fl es k)"

definition env_ok :: "(rat \<Rightarrow> rat) \<Rightarrow> ('w \<Rightarrow> rat) \<Rightarrow> ('w \<Rightarrow> bool) \<Rightarrow> 'w pausing_env \<Rightarrow> bool" where
  "env_ok fl now P env \<longleftrightarrow>
     (\<forall>w. ce_clock env w = (Some (now w), w)) \<and> (\<forall>w. \<exists>t. ce_loop_time env w = (t, w)) \<and>
     (\<forall>k w b k' w'. in_time fl now k w \<longrightarrow> ce_wait_running env k w = (b, k', w') \<longrightarrow> others_ran fl now P k w k' w') \<and>
     (\<forall>r k w x k' w'. in_time fl now k w \<longrightarrow> ce_race env r k w = (x, k', w') \<longrightarrow> others_ran fl now P k w k' w')"

lemma env_okD:
  assumes "env_ok fl now P env"
  shows "ce_clock env w = (Some (now w), w)" and "snd (ce_loop_time env w) = w"
    and "in_time fl now k w \<Longrightarrow> ce_wait_running env k w = (b, k', w') \<Longrightarrow> others_ran fl now P k w k' w'"
    and "in_time fl now k w \<Longrightarrow> ce_race env r k w = (x, k', w') \<Longrightarrow> others_ran fl now P k w k' w'"
  using assms unfolding env_ok_def by (blast, metis snd_conv, blast, blast)

lemma moved_refl: "in_time fl now k w \<Longrightarrow> moved fl now P k w k w"
  by (auto simp: moved_def intro!: exI [of _ "[]"])

lemma pausing_steps_append: "pausing_steps fl (es @ fs) k = pausing_steps fl fs (pausing_steps fl es k)"
  by (induction fl es k rule: pausing_steps.induct) simp_all

lemma sorted_times_append:
  "sorted (t # map snd es @ [u]) \<Longrightarrow> sorted (u # map snd fs @ [v]) \<Longrightarrow> sorted (t # map snd (es @ fs) @ [v])" for t :: rat
  by (auto simp: sorted_append) force+

lemma moved_trans:
  assumes "moved fl now P k w k1 w1" and "moved fl now P k1 w1 k2 w2"
  shows "moved fl now P k w k2 w2"
proof -
  from assms obtain es fs where "sorted (now w # map snd es @ [now w1])" "k1 = pausing_steps fl es k"
    "sorted (now w1 # map snd fs @ [now w2])" "k2 = pausing_steps fl fs k1"
    by (auto simp: moved_def)
  then have "sorted (now w # map snd (es @ fs) @ [now w2]) \<and> k2 = pausing_steps fl (es @ fs) k"
    using sorted_times_append pausing_steps_append by metis
  then have "\<exists>es. sorted (now w # map snd es @ [now w2]) \<and> k2 = pausing_steps fl es k" by blast
  with assms show ?thesis unfolding moved_def by blast
qed

lemma running_time_nonneg: "sorted (t # map snd es @ [now]) \<Longrightarrow> 0 \<le> running_time b t es now"
proof (induction es arbitrary: t b)
  case (Cons e es)
  then have "0 \<le> running_time (fst e = Op_resume) (snd e) es now" "t \<le> snd e" by simp_all
  then show ?case by (cases e) simp
qed simp

lemma pausing_steps_in_time:
  assumes "pausing_ok k" and "not_before k t" and "sorted (t # map snd es @ [now])"
  shows "pausing_ok (pausing_steps fl es k) \<and> not_before (pausing_steps fl es k) now"
  using assms
proof (induction es arbitrary: k t)
  case Nil
  then show ?case by (auto simp: not_before_def)
next
  case (Cons e es)
  obtain op u where e: "e = (op, u)" by fastforce
  with Cons.prems have tu: "t \<le> u" and s: "sorted (u # map snd es @ [now])" by simp_all
  from Cons.IH [OF pausing_step_simps(1) [OF Cons.prems(1)] pausing_step_not_before [OF Cons.prems(1,2) tu] s] e
  show ?case by simp
qed

lemma others_ran_moved:
  assumes "others_ran fl now P k w k' w'" and "in_time fl now k w"
  shows "moved fl now P k w k' w'"
proof -
  from assms(1) obtain es where es: "sorted (now w # map snd es @ [now w'])" "k' = pausing_steps fl es k"
    by (auto simp: others_ran_def)
  from assms(2) have k: "pausing_ok k" "not_before k (now w)" by (simp_all add: in_time_def)
  from pausing_steps_in_time [OF k es(1), of fl] es assms(1) show ?thesis
    by (auto simp: moved_def in_time_def others_ran_def)
qed

text \<open>
  The virtual clock has read \<open>v\<close>, now or earlier, and since then nothing happened to the control but
  pauses and resumes. With exact arithmetic it then still reads \<open>v\<close> or more; in floats a pause can set
  it back by a rounding.
\<close>

definition clock_reached :: "(rat \<Rightarrow> rat) \<Rightarrow> ('w \<Rightarrow> rat) \<Rightarrow> rat \<Rightarrow> pause_control \<times> 'w \<Rightarrow> bool" where
  "clock_reached fl now v s \<longleftrightarrow>
     (\<exists>k0 t es. pausing_ok k0 \<and> not_before k0 t \<and> v \<le> virtual_time fl k0 t \<and>
        sorted (t # map snd es @ [now (snd s)]) \<and> fst s = pausing_steps fl es k0)"

lemma clock_reached_exact:
  assumes "clock_reached (\<lambda>x. x) now v (k, w)"
  shows "v \<le> virtual_time (\<lambda>x. x) k (now w)"
proof -
  from assms obtain k0 t es where k: "pausing_ok k0" "not_before k0 t" "v \<le> virtual_time (\<lambda>x. x) k0 t"
    and es: "sorted (t # map snd es @ [now w])" and "k = pausing_steps (\<lambda>x. x) es k0"
    by (auto simp: clock_reached_def)
  with pausing_steps_time [OF k(1,2) es] running_time_nonneg [OF es] show ?thesis
    by (metis add_increasing2 order_trans)
qed

lemma clock_reached_now:
  "in_time fl now k w \<Longrightarrow> v \<le> virtual_time fl k (now w) \<Longrightarrow> clock_reached fl now v (k, w)"
  unfolding clock_reached_def in_time_def by (intro exI [of _ k] exI [of _ "now w"] exI [of _ "[]"]) simp

lemma clock_reached_moved:
  assumes "clock_reached fl now v (k, w)" and "moved fl now P k w k' w'"
  shows "clock_reached fl now v (k', w')"
proof -
  from assms(1) obtain k0 t es where k: "pausing_ok k0" "not_before k0 t" "v \<le> virtual_time fl k0 t"
    and es: "sorted (t # map snd es @ [now w])" "k = pausing_steps fl es k0"
    by (auto simp: clock_reached_def)
  from assms(2) obtain fs where "sorted (now w # map snd fs @ [now w'])" "k' = pausing_steps fl fs k"
    by (auto simp: moved_def)
  with es have "sorted (t # map snd (es @ fs) @ [now w'])" "k' = pausing_steps fl (es @ fs) k0"
    using sorted_times_append pausing_steps_append by metis+
  with k show ?thesis unfolding clock_reached_def fst_conv snd_conv by blast
qed

lemma wait_loop_moved:
  assumes env: "env_ok fl now P env" and k: "in_time fl now k w" and run: "wait_loop env k w = Some (r, k', w')"
  shows "moved fl now P k w k' w' \<and> (r = Inr () \<longrightarrow> pk_state k' = Control_RUNNING)"
proof -
  define Q where "Q = (\<lambda>e k w (r :: pausing_exn + unit, k', w'). env_ok fl now P e \<longrightarrow> in_time fl now k w \<longrightarrow>
    moved fl now P k w k' w' \<and> (r = Inr () \<longrightarrow> pk_state k' = Control_RUNNING))"
  have "Q env k w (r, k', w')"
  proof (rule wait_loop.raw_induct [where P = Q, OF _ run])
    fix loop and env :: "'a pausing_env" and k w and res :: "(pausing_exn + unit) \<times> pause_control \<times> 'a"
    assume IH: "\<And>env k w res. loop env k w = Some res \<Longrightarrow> Q env k w res"
      and body: "(if pk_state k = Control_PAUSED
        then case ce_wait_running env k w of
          (awake, k1, w1) \<Rightarrow> if awake then loop env k1 w1 else Some (Inl Control_CancelledError, k1, w1)
        else Some (Inr (), k, w)) = Some res"
    obtain r k' w' where res: "res = (r, k', w')" by (metis prod_cases3)
    obtain b k1 w1 where a: "ce_wait_running env k w = (b, k1, w1)" by (metis prod_cases3)
    have "moved fl now P k w k' w' \<and> (r = Inr () \<longrightarrow> pk_state k' = Control_RUNNING)"
      if env: "env_ok fl now P env" and k: "in_time fl now k w"
    proof (cases "pk_state k")
      case Control_RUNNING
      with body res moved_refl [OF k] show ?thesis by simp
    next
      case Control_PAUSED
      from others_ran_moved [OF env_okD(3) [OF env k a] k] have m: "moved fl now P k w k1 w1" .
      then have k1: "in_time fl now k1 w1" by (simp add: moved_def)
      show ?thesis
      proof (cases b)
        case True
        with a Control_PAUSED body res have "loop env k1 w1 = Some (r, k', w')" by simp
        from IH [OF this] env k1 moved_trans [OF m] show ?thesis by (auto simp: Q_def)
      qed (use a Control_PAUSED body res m in auto)
    qed
    then show "Q env k w res" by (simp add: Q_def res)
  qed
  with env k show ?thesis by (simp add: Q_def)
qed

lemma env_ok_loop_time:
  assumes "env_ok fl now P env"
  obtains lt where "ce_loop_time env = (\<lambda>v. (lt v, v))"
  using env_okD(2) [OF assms] that [of "\<lambda>v. fst (ce_loop_time env v)"] by (auto simp: fun_eq_iff prod_eq_iff)

lemma wait_until_running_moved:
  assumes env: "env_ok fl now P env" and k: "in_time fl now k w" and run: "wait_until_running fl env dl k w = Some (r, dl', k', w')"
  shows "moved fl now P k w k' w' \<and> (r = Inr () \<longrightarrow> pk_state k' = Control_RUNNING)"
proof -
  from env_ok_loop_time [OF env] obtain lt where read: "ce_loop_time env = (\<lambda>v. (lt v, v))" .
  note loop = wait_loop_moved [OF env k]
  from moved_refl [OF k] run show ?thesis
    by (auto simp: wait_until_running_def Let_def read dest!: loop split: if_splits option.splits)
qed

text \<open>One turn of the sleep: it ends with the wait or at its target, or others ran and it goes on.\<close>

lemma sleep_turn:
  assumes fl: "rounds_f64 fl" and env: "env_ok fl now P env" and k: "in_time fl now k w"
    and body: "(case wait_until_running fl env dl k w of
        None \<Rightarrow> None
      | Some (Inl e, dl1, k1, w1) \<Rightarrow> Some (Inl e, dl1, k1, w1)
      | Some (Inr _, dl1, k1, w1) \<Rightarrow>
          (case pausing_monotonic fl (ce_clock env) k1 w1 of
             (Inl e, w2) \<Rightarrow> Some (Inl e, dl1, k1, w2)
           | (Inr now, w2) \<Rightarrow>
               (if fl (target - now) \<le> 0 then Some (Inr (), dl1, k1, w2)
                else case ce_race env (fl (target - now)) k1 w2 of
                  (Race_cancelled, k2, w3) \<Rightarrow> Some (Inl Control_CancelledError, dl1, k2, w3)
                | (Race_done (Some Cancelled), k2, w3) \<Rightarrow> Some (Inl Control_CancelledError, dl1, k2, w3)
                | (Race_done (Some Raised), k2, w3) \<Rightarrow> Some (Inl (PlaybackControlError SLEEP_FAILURE), dl1, k2, w3)
                | (Race_done (Some TimedOut), k2, w3) \<Rightarrow> Some (Inl (PlaybackControlError SLEEP_FAILURE), dl1, k2, w3)
                | (Race_done (Some (Returned _)), k2, w3) \<Rightarrow> loop fl env target dl1 k2 w3
                | (Race_done None, k2, w3) \<Rightarrow> loop fl env target dl1 k2 w3))) = Some (r, dl', k', w')"
  obtains (ended) "moved fl now P k w k' w'"
      "r = Inr () \<Longrightarrow> pk_state k' = Control_RUNNING \<and> target \<le> virtual_time fl k' (now w')"
  | (again) dl1 k2 w2 where "moved fl now P k w k2 w2" "loop fl env target dl1 k2 w2 = Some (r, dl', k', w')"
proof -
  let ?V = "virtual_time fl"
  from body obtain r1 dl1 k1 w1 where a: "wait_until_running fl env dl k w = Some (r1, dl1, k1, w1)"
    by (cases "wait_until_running fl env dl k w") auto
  from wait_until_running_moved [OF env k a] have m: "moved fl now P k w k1 w1"
    and run: "r1 = Inr () \<longrightarrow> pk_state k1 = Control_RUNNING" by simp_all
  from m have k1: "in_time fl now k1 w1" by (simp add: moved_def)
  have t: "pausing_monotonic fl (ce_clock env) k1 w1 = (Inr (?V k1 (now w1)), w1)"
    by (rule pausing_monotonic_eq [OF env_okD(1) [OF env]])
  show thesis
  proof (cases r1)
    case (Inl e)
    with body a m show thesis by (intro ended) auto
  next
    case (Inr u)
    show thesis
    proof (cases "fl (target - ?V k1 (now w1)) \<le> 0")
      case True
      then have "target \<le> ?V k1 (now w1)" using rounds_f64_pos [OF fl, of "target - ?V k1 (now w1)"] by linarith
      with body a Inr t True m run show thesis by (intro ended) auto
    next
      case False
      obtain x k2 w2 where x: "ce_race env (fl (target - ?V k1 (now w1))) k1 w1 = (x, k2, w2)" by (metis prod_cases3)
      from moved_trans [OF m others_ran_moved [OF env_okD(4) [OF env k1 x] k1]] have m2: "moved fl now P k w k2 w2" .
      note step = body a Inr t False x
      show thesis
      proof (cases x)
        case Race_cancelled
        with step m2 show thesis by (intro ended) auto
      next
        case (Race_done y)
        show thesis
        proof (cases "y = None \<or> y = Some (Returned ())")
          case True
          with step Race_done m2 show thesis by (intro again [of k2 w2 dl1]) auto
        next
          case no: False
          with step Race_done m2 show thesis by (intro ended; cases y; cases "the y") auto
        qed
      qed
    qed
  qed
qed

lemma sleep_loop_moved:
  assumes fl: "rounds_f64 fl" and env: "env_ok fl now P env" and k: "in_time fl now k w"
    and run: "sleep_loop fl env target dl k w = Some (r, dl', k', w')"
  shows "moved fl now P k w k' w' \<and> (r = Inr () \<longrightarrow> pk_state k' = Control_RUNNING \<and> target \<le> virtual_time fl k' (now w'))"
proof -
  define Q where "Q = (\<lambda>fl e target (dl :: deadline option) k w (r :: pausing_exn + unit, dl' :: deadline option, k', w').
    rounds_f64 fl \<longrightarrow> env_ok fl now P e \<longrightarrow> in_time fl now k w \<longrightarrow> moved fl now P k w k' w' \<and>
    (r = Inr () \<longrightarrow> pk_state k' = Control_RUNNING \<and> target \<le> virtual_time fl k' (now w')))"
  have "Q fl env target dl k w (r, dl', k', w')"
  proof (rule sleep_loop.raw_induct [where P = Q, OF _ run], goal_cases)
    case (1 loop fl env target dl k w res)
    obtain r dl' k' w' where res: "res = (r, dl', k', w')" by (metis prod_cases4)
    show ?case
      unfolding Q_def res prod.case
    proof (intro impI)
      assume fl: "rounds_f64 fl" and env: "env_ok fl now P env" and k: "in_time fl now k w"
      from fl env k 1(2) [unfolded res] show "moved fl now P k w k' w' \<and>
        (r = Inr () \<longrightarrow> pk_state k' = Control_RUNNING \<and> target \<le> virtual_time fl k' (now w'))"
      proof (cases rule: sleep_turn)
        case (again dl1 k2 w2)
        from again(1) have "in_time fl now k2 w2" by (simp add: moved_def)
        with 1(1) [OF again(2)] fl env moved_trans [OF again(1)] show ?thesis by (auto simp: Q_def)
      qed blast
    qed
  qed
  with fl env k show ?thesis by (simp add: Q_def)
qed

lemma pausing_sleep_moved:
  assumes fl: "rounds_f64 fl" and env: "env_ok fl now P env" and k: "in_time fl now k w"
    and run: "pausing_sleep fl env delay dl k w = Some (r, dl', k', w')"
  shows "moved fl now P k w k' w'"
    and "r = Inr () \<Longrightarrow> 0 < delay \<Longrightarrow> (virtual_time fl k (now w) + delay) * (1 - 1 / 2 ^ 53) \<le> virtual_time fl k' (now w')"
proof -
  let ?v = "virtual_time fl k (now w)"
  have *: "moved fl now P k w k' w' \<and> (r = Inr () \<longrightarrow> fl (?v + delay) \<le> virtual_time fl k' (now w'))" if "0 < delay"
  proof -
    from pausing_monotonic_eq [of "ce_clock env" w "now w" w, OF env_okD(1) [OF env], of fl k] that run
    have "sleep_loop fl env (fl (?v + delay)) dl k w = Some (r, dl', k', w')" by (simp add: pausing_sleep_def)
    from sleep_loop_moved [OF fl env k this] show ?thesis by blast
  qed
  show "moved fl now P k w k' w'"
  proof (cases "delay \<le> 0")
    case True
    with wait_until_running_moved [OF env k] run show ?thesis by (simp add: pausing_sleep_def)
  qed (use * in simp)
  assume "r = Inr ()" and pos: "0 < delay"
  with * have "fl (?v + delay) \<le> virtual_time fl k' (now w')" by blast
  moreover have "0 \<le> ?v + delay" using k pos by (simp add: in_time_def)
  from rounds_f64_ge [OF fl this] have "(?v + delay) * (1 - 1 / 2 ^ 53) \<le> fl (?v + delay)" .
  ultimately show "(?v + delay) * (1 - 1 / 2 ^ 53) \<le> virtual_time fl k' (now w')" by (rule order_trans [rotated])
qed

text \<open>The deadline of a task's work does not run while the task waits for playback to resume (up to rounding).\<close>

lemma wait_suspends_deadline:
  assumes env: "env_ok fl now P env" and paused: "pk_state k = Control_PAUSED"
    and run: "wait_until_running fl env (Some \<lparr>dl_when = Some due, dl_expired = False\<rparr>) k w = Some (Inr (), dl', k', w')"
  shows "dl' = Some \<lparr>dl_when = Some (fl (fst (ce_loop_time env w') + fl (due - fst (ce_loop_time env w)))), dl_expired = False\<rparr>"
proof -
  from env_ok_loop_time [OF env] obtain lt where read: "ce_loop_time env = (\<lambda>v. (lt v, v))" .
  from run paused show ?thesis
    by (auto simp: wait_until_running_def Let_def read split: if_splits)
qed

section \<open>The pump under a pause control\<close>

text \<open>
  A wait that never ends has no result: the pump stays in it, and only a cancellation could end it.
  The pump's run then counts as cancelled there.
\<close>

definition awaited_of :: "'w pausing_run \<Rightarrow> pause_control \<times> 'w \<Rightarrow> unit awaited \<times> pause_control \<times> 'w" where
  "awaited_of run s =
     (case run of
        None \<Rightarrow> (Cancelled, s)
      | Some (Inr _, _, k, w) \<Rightarrow> (Returned (), k, w)
      | Some (Inl Control_CancelledError, _, k, w) \<Rightarrow> (Cancelled, k, w)
      | Some (Inl Control_TimeoutError, _, k, w) \<Rightarrow> (TimedOut, k, w)
      | Some (Inl _, _, k, w) \<Rightarrow> (Raised, k, w))"

text \<open>What \<open>bind_pause_control\<close> gives the pump. The pump's own task has no deadline at these points.\<close>

definition pausing_pacing :: "(rat \<Rightarrow> rat) \<Rightarrow> 'w pausing_env \<Rightarrow> (pause_control \<times> 'w) pacing" where
  "pausing_pacing fl env =
     \<lparr>pc_clock = (\<lambda>(k, w). case pausing_monotonic fl (ce_clock env) k w of
        (Inl e, w1) \<Rightarrow> (None, k, w1) | (Inr t, w1) \<Rightarrow> (Some t, k, w1)),
      pc_sleep = (\<lambda>r (k, w). awaited_of (pausing_sleep fl env r None k w) (k, w)),
      pc_admit = Some (\<lambda>(k, w). awaited_of (wait_until_running fl env None k w) (k, w))\<rparr>"

lemma bind_control_pacing:
  "pp_state p = Pump_CREATED \<Longrightarrow>
   bind_pause_control (pc_clock (pausing_pacing fl env)) (pc_sleep (pausing_pacing fl env))
     (the (pc_admit (pausing_pacing fl env))) p pc = Inr (pausing_pacing fl env)"
  by (cases pc) (simp add: bind_pause_control_def pausing_pacing_def)

lemma awaited_of_cases:
  assumes "awaited_of run s = (a, k', w')"
  obtains (waits) "run = None" "a = Cancelled" "s = (k', w')"
  | (ended) r dl where "run = Some (r, dl, k', w')" "a = Returned () \<longleftrightarrow> r = Inr ()"
proof (cases run)
  case (Some x)
  obtain r dl k w where x: "x = (r, dl, k, w)" by (metis prod_cases4)
  show thesis
  proof (cases r)
    case (Inl e)
    with assms Some x show thesis by (cases e) (auto simp: awaited_of_def intro: ended)
  qed (use assms Some x in \<open>auto simp: awaited_of_def intro: ended\<close>)
qed (use assms in \<open>auto simp: awaited_of_def intro: waits\<close>)

abbreviation virtual_now :: "(rat \<Rightarrow> rat) \<Rightarrow> ('w \<Rightarrow> rat) \<Rightarrow> pause_control \<times> 'w \<Rightarrow> rat" where
  "virtual_now fl now s \<equiv> virtual_time fl (fst s) (now (snd s))"

lemma pausing_keeps_time:
  assumes fl: "rounds_f64 fl" and env: "\<And>xs. env_ok fl now (took xs) env"
  shows "keeps_time (clock_reached fl now) 0 (virtual_now fl now) (\<lambda>s. pk_state (fst s) = Control_RUNNING)
    (pausing_pacing fl env) (\<lambda>xs s. in_time fl now (fst s) (snd s) \<and> took xs (snd s))"
proof -
  let ?pc = "pausing_pacing fl env" and ?t = "\<lambda>xs s. in_time fl now (fst s) (snd s) \<and> took xs (snd s)"
  have clock: "pc_clock ?pc s = (Some (virtual_now fl now s), s)" for s
    using pausing_monotonic_eq [of "ce_clock env" "snd s" "now (snd s)" "snd s", OF env_okD(1) [OF env], of fl "fst s"]
    by (cases s) (simp add: pausing_pacing_def)
  have sleep: "?t xs s' \<and> (clock_reached fl now v s \<longrightarrow> clock_reached fl now v s') \<and>
      (a = Returned () \<and> 0 < r \<and> v \<le> (virtual_now fl now s + r) * (1 - 1 / 2 ^ 53) - 0 \<longrightarrow> clock_reached fl now v s')"
    if t: "?t xs s" and p: "pc_sleep ?pc r s = (a, s')" for xs r s a s' v
  proof -
    obtain k w k' w' where s: "s = (k, w)" "s' = (k', w')" by (metis surj_pair)
    from p s have "awaited_of (pausing_sleep fl env r None k w) (k, w) = (a, k', w')" by (simp add: pausing_pacing_def)
    then show ?thesis
    proof (cases rule: awaited_of_cases)
      case (ended r1 dl)
      from t s have k: "in_time fl now k w" "took xs w" by simp_all
      note m = pausing_sleep_moved [OF fl env [of xs] k(1) ended(1)]
      from m(1) k(2) have t': "in_time fl now k' w'" "took xs w'" by (simp_all add: moved_def)
      have "clock_reached fl now v (k', w')" if "r1 = Inr ()" "0 < r" "v \<le> (virtual_time fl k (now w) + r) * (1 - 1 / 2 ^ 53)"
        by (rule clock_reached_now [OF t'(1) order_trans [OF that(3) m(2) [OF that(1,2)]]])
      with t' clock_reached_moved [OF _ m(1)] ended(2) s show ?thesis by auto
    qed (use t s in auto)
  qed
  have wait: "?t xs s' \<and> (clock_reached fl now v s \<longrightarrow> clock_reached fl now v s') \<and>
      (a = Returned () \<longrightarrow> pk_state (fst s') = Control_RUNNING)"
    if t: "?t xs s" and pc: "pc_admit ?pc = Some wait" and p: "wait s = (a, s')" for xs s a s' wait v
  proof -
    obtain k w k' w' where s: "s = (k, w)" "s' = (k', w')" by (metis surj_pair)
    from pc p s have "awaited_of (wait_until_running fl env None k w) (k, w) = (a, k', w')"
      by (auto simp: pausing_pacing_def)
    then show ?thesis
    proof (cases rule: awaited_of_cases)
      case (ended r1 dl)
      from t s have k: "in_time fl now k w" "took xs w" by simp_all
      from wait_until_running_moved [OF env [of xs] k(1) ended(1)] have m: "moved fl now (took xs) k w k' w'"
        "r1 = Inr () \<longrightarrow> pk_state k' = Control_RUNNING" by blast+
      with k(2) clock_reached_moved [OF _ m(1)] ended(2) s show ?thesis by (auto simp: moved_def)
    qed (use t s in auto)
  qed
  have "pc_admit ?pc \<noteq> None" by (simp add: pausing_pacing_def)
  moreover have "0 \<le> virtual_now fl now s \<and> (v \<le> virtual_now fl now s \<longrightarrow> clock_reached fl now v s)" if "?t xs s" for xs s v
    using that clock_reached_now [of fl now "fst s" "snd s" v] by (simp add: in_time_def)
  ultimately show ?thesis using clock sleep wait unfolding keeps_time_def by blast
qed


text \<open>
  The world of the example is the time and the packets taken. Whoever waits for playback to resume
  gets it five seconds later, as long as the virtual clock stays positive. Sleeps last long.
\<close>

type_synonym paused_log = "rat \<times> (byte list \<times> int) list"

definition sample_env :: "paused_log pausing_env" where
  "sample_env = \<lparr>ce_clock = (\<lambda>w. (Some (fst w), w)), ce_loop_time = (\<lambda>w. (fst w, w)),
     ce_wait_running = (\<lambda>k w. let k1 = pausing_step f64_rat Op_resume (fst w + 5) k in
       if 0 \<le> virtual_time f64_rat k1 (fst w + 5) then (True, k1, fst w + 5, snd w) else (False, k, w)),
     ce_race = (\<lambda>r k w. (Race_done (Some (Returned ())), k, 2 * max 0 (fst w) + 2 * max 0 r, snd w))\<rparr>"

definition sample_consumer :: "(pause_control \<times> paused_log) packet_consumer" where
  "sample_consumer x e s = (Returned (), fst s, fst (snd s), snd (snd s) @ [(x, e)])"

definition sample_took :: "scheduled_packet list \<Rightarrow> paused_log \<Rightarrow> bool" where
  "sample_took xs w \<longleftrightarrow> snd w = map (\<lambda>x. (sp_packet x, sp_source_elapsed_ms x)) xs"

lemma rounds_f64_nonneg: "rounds_f64 fl \<Longrightarrow> 0 \<le> fl x \<longleftrightarrow> 0 \<le> x"
  using rounds_f64D [of fl x] by linarith

lemma virtual_time_later:
  assumes "rounds_f64 fl" and "0 \<le> virtual_time fl k t" and "t \<le> u"
  shows "0 \<le> virtual_time fl k u"
  using assms by (auto simp: virtual_time_eq rounds_f64_nonneg split: option.splits)

lemma sample_env_ok: "env_ok f64_rat fst (sample_took xs) sample_env"
proof -
  have "others_ran f64_rat fst (sample_took xs) k w (pausing_step f64_rat Op_resume (fst w + 5) k) (fst w + 5, snd w)"
    if "0 \<le> virtual_time f64_rat (pausing_step f64_rat Op_resume (fst w + 5) k) (fst w + 5)" for k w
    using that by (auto simp: others_ran_def sample_took_def intro: exI [of _ "[(Op_resume, fst w + 5)]"])
  moreover have "others_ran f64_rat fst (sample_took xs) k w k w" if "in_time f64_rat fst k w" for k w
    using that by (auto simp: others_ran_def in_time_def intro: exI [of _ "[]"])
  moreover have "others_ran f64_rat fst (sample_took xs) k w k (2 * max 0 (fst w) + 2 * max 0 r, snd w)"
    if "in_time f64_rat fst k w" for k w r
    using that virtual_time_later [OF f64_rat_rounds, of k "fst w" "2 * max 0 (fst w) + 2 * max 0 r"]
    by (auto simp: others_ran_def in_time_def sample_took_def intro: exI [of _ "[]"])
  ultimately show ?thesis by (auto simp: env_ok_def sample_env_def Let_def split: if_splits)
qed

text \<open>Paused at time 1, and resumed at time 6.\<close>

definition sample_paused :: pause_control where
  "sample_paused = pausing_step f64_rat Op_pause 1 pausing_init"

definition sample_resumed :: pause_control where
  "sample_resumed = pausing_step f64_rat Op_resume 6 sample_paused"

lemma f64_rat_5: "f64_rat 5 = 5"
  by code_simp

lemma sample_paused_simps:
  "pk_state sample_paused = Control_PAUSED" "pk_paused_at sample_paused = Some 1" "pk_paused_total_seconds sample_paused = 0"
  "pausing_ok sample_paused"
  by (simp_all add: sample_paused_def pausing_step_simps)
    (simp_all add: pausing_step_def pausing_pause_def raw_now_def pausing_init_def Let_def)

lemma sample_resumed_simps:
  "pk_state sample_resumed = Control_RUNNING" "pk_paused_at sample_resumed = None" "pk_paused_total_seconds sample_resumed = 5"
  "pausing_ok sample_resumed"
  using sample_paused_simps
  by (simp_all add: sample_resumed_def pausing_step_simps)
    (simp_all add: pausing_step_def pausing_resume_def raw_now_def Let_def f64_rat_5)

lemma sample_virtual:
  "virtual_time f64_rat sample_paused t = f64_rat 1" "virtual_time f64_rat sample_resumed t = f64_rat (t - 5)"
  by (simp_all add: virtual_time_eq sample_paused_simps sample_resumed_simps)

definition sample_calm :: "pause_control \<times> paused_log \<Rightarrow> bool" where
  "sample_calm s \<longleftrightarrow> fst s = sample_paused \<and> fst (snd s) = 1 \<or> fst s = sample_resumed \<and> 6 \<le> fst (snd s)"

lemma sample_paused_in_time: "in_time f64_rat fst sample_paused (1, [])"
  by (simp add: in_time_def sample_paused_simps not_before_def sample_virtual rounds_f64_nonneg [OF f64_rat_rounds])

lemma sample_wait:
  assumes "sample_calm (k, w)"
  obtains t where "6 \<le> t" "wait_until_running f64_rat sample_env None k w = Some (Inr (), None, sample_resumed, t, snd w)"
proof (cases "k = sample_resumed")
  case True
  then have "k \<noteq> sample_paused" using sample_resumed_simps(1) sample_paused_simps(1) by auto
  with assms have "6 \<le> fst w" by (simp add: sample_calm_def)
  with True that [of "fst w"] show thesis by (simp add: wait_until_running_def sample_resumed_simps)
next
  case False
  with assms have k: "k = sample_paused" "fst w = 1" by (auto simp: sample_calm_def)
  have "pausing_step f64_rat Op_resume 6 sample_paused = sample_resumed" by (simp add: sample_resumed_def)
  then have "ce_wait_running sample_env sample_paused w = (True, sample_resumed, 6, snd w)"
    using k(2) by (simp add: sample_env_def Let_def sample_virtual rounds_f64_nonneg [OF f64_rat_rounds])
  then have "wait_loop sample_env sample_paused w = Some (Inr (), sample_resumed, 6, snd w)"
    by (simp add: wait_loop.simps sample_paused_simps sample_resumed_simps)
  with that [of 6] k(1) show thesis by (simp add: wait_until_running_def sample_paused_simps)
qed

lemma sample_long_enough:
  assumes fl: "rounds_f64 fl" and t: "6 \<le> t" and pos: "0 < fl (target - fl (t - 5))"
  shows "target \<le> fl (2 * t + 2 * fl (target - fl (t - 5)) - 5)"
proof -
  let ?r = "fl (target - fl (t - 5))"
  have "0 < target - fl (t - 5)" using pos by (simp only: rounds_f64_pos [OF fl])
  then have r: "(target - fl (t - 5)) * (1 - 1 / 2 ^ 53) \<le> ?r" by (intro rounds_f64_ge [OF fl]) simp
  have "fl (t - 5) \<le> (t - 5) * (1 + 1 / 2 ^ 53)"
    using rounds_f64D [OF fl, of "t - 5"] t unfolding abs_le_iff by (simp add: field_simps)
  moreover have "(2 * t + 2 * ?r - 5) * (1 - 1 / 2 ^ 53) \<le> fl (2 * t + 2 * ?r - 5)"
    using t pos by (intro rounds_f64_ge [OF fl]) linarith
  ultimately show ?thesis using r t pos by (simp add: field_simps)
qed

lemma sample_sleep_loop:
  assumes k: "sample_calm (k, w)"
  shows "\<exists>t. 6 \<le> t \<and> sleep_loop f64_rat sample_env target None k w = Some (Inr (), None, sample_resumed, t, snd w)"
proof -
  have wait: "wait_until_running f64_rat sample_env None sample_resumed v = Some (Inr (), None, sample_resumed, v)" for v
    by (simp add: wait_until_running_def sample_resumed_simps)
  have clock: "pausing_monotonic f64_rat (ce_clock sample_env) sample_resumed v = (Inr (f64_rat (fst v - 5)), v)" for v
    by (subst pausing_monotonic_eq [of _ v "fst v" v]) (simp_all add: sample_env_def sample_virtual)
  obtain t where t: "6 \<le> t" and w1: "wait_until_running f64_rat sample_env None k w = Some (Inr (), None, sample_resumed, t, snd w)"
    using sample_wait [OF k] .
  let ?r = "f64_rat (target - f64_rat (t - 5))"
  show ?thesis
  proof (cases "?r \<le> 0")
    case True
    then have "sleep_loop f64_rat sample_env target None k w = Some (Inr (), None, sample_resumed, t, snd w)"
      by (subst sleep_loop.simps) (simp add: w1 clock)
    with t show ?thesis by blast
  next
    case False
    let ?t = "2 * t + 2 * ?r"
    have "target - f64_rat (?t - 5) \<le> 0" using sample_long_enough [OF f64_rat_rounds t] False by simp
    then have over: "f64_rat (target - f64_rat (?t - 5)) \<le> 0"
      using rounds_f64_pos [OF f64_rat_rounds, of "target - f64_rat (?t - 5)"] by linarith
    have race: "ce_race sample_env ?r sample_resumed (t, snd w) = (Race_done (Some (Returned ())), sample_resumed, ?t, snd w)"
      using t False by (simp add: sample_env_def)
    have "sleep_loop f64_rat sample_env target None sample_resumed (?t, snd w) = Some (Inr (), None, sample_resumed, ?t, snd w)"
      by (subst sleep_loop.simps) (simp add: wait clock over)
    then have "sleep_loop f64_rat sample_env target None k w = Some (Inr (), None, sample_resumed, ?t, snd w)"
      by (subst sleep_loop.simps) (simp add: w1 clock False race)
    moreover have "6 \<le> ?t" using t False by simp
    ultimately show ?thesis by blast
  qed
qed

lemma sample_returns: "all_return items (\<lambda>_. sample_calm) (pausing_pacing f64_rat sample_env) sample_consumer"
  unfolding all_return_def
proof (intro allI impI conjI)
  fix s :: "pause_control \<times> paused_log"
  let ?pc = "pausing_pacing f64_rat sample_env"
  obtain k w where s: "s = (k, w)" by (cases s)
  assume "sample_calm s"
  then have k: "sample_calm (k, w)" by (simp add: s)
  have mono: "pausing_monotonic f64_rat (ce_clock sample_env) k w = (Inr (virtual_time f64_rat k (fst w)), w)"
    by (rule pausing_monotonic_eq) (simp add: sample_env_def)
  show "\<exists>t s'. pc_clock ?pc s = (Some t, s') \<and> sample_calm s'"
    using k by (simp add: pausing_pacing_def s mono)
  obtain t where t: "6 \<le> t" "wait_until_running f64_rat sample_env None k w = Some (Inr (), None, sample_resumed, t, snd w)"
    using sample_wait [OF k] .
  show "\<exists>s'. pc_sleep ?pc r s = (Returned (), s') \<and> sample_calm s'" for r
  proof (cases "r \<le> 0")
    case True
    with t show ?thesis by (simp add: pausing_pacing_def pausing_sleep_def s awaited_of_def sample_calm_def)
  next
    case False
    with sample_sleep_loop [OF k, of "f64_rat (virtual_time f64_rat k (fst w) + r)"]
    show ?thesis by (auto simp: pausing_pacing_def pausing_sleep_def s mono awaited_of_def sample_calm_def)
  qed
  show "\<exists>s'. wait s = (Returned (), s') \<and> sample_calm s'" if "pc_admit ?pc = Some wait" for wait
    using that t by (auto simp: pausing_pacing_def s awaited_of_def sample_calm_def)
  show "\<exists>s'. sample_consumer x e s = (Returned (), s') \<and> sample_calm s'" for x e
    using k by (simp add: sample_consumer_def sample_calm_def s)
qed


end
