(* ===== verification/Playback_Decode.thy ===== *)
theory Playback_Decode
  imports Playback_Pump
begin

text \<open>
  \<open>src/src/k5vision/media/playback_decode.py\<close>: \<open>BoundedPlaybackDecodeBridge\<close> feeds the packets of a
  pump to a decoder and its frames to a consumer. The decoder and the consumer work on the world
  \<open>'w\<close>; each call is the awaited call under its own time-out, so \<open>TimedOut\<close> is that time-out and
  \<open>Cancelled\<close> a cancellation from outside.
\<close>

section \<open>State\<close>

record video_frame =
  vf_payload :: "byte list"
  vf_source_elapsed_ms :: int

record 'w playback_decoder =
  dec_decode :: "byte list \<Rightarrow> int \<Rightarrow> 'w \<Rightarrow> video_frame dyn list awaited \<times> 'w"
  dec_flush :: "'w \<Rightarrow> video_frame dyn list awaited \<times> 'w"
  dec_close :: "'w \<Rightarrow> unit awaited \<times> 'w"

type_synonym 'w frame_consumer = "byte list \<Rightarrow> int \<Rightarrow> 'w \<Rightarrow> unit awaited \<times> 'w"

datatype decode_state = Decode_CREATED | Decode_RUNNING | Decode_COMPLETE | Decode_CANCELLED | Decode_FAILED

datatype decode_error_code =
    Decode_INVALID_STATE
  | Decode_INVALID_DECODER
  | Decode_PUMP_FAILURE
  | Decode_DECODER_TIMEOUT
  | Decode_DECODER_FAILURE
  | Decode_INVALID_FRAME
  | Decode_FRAME_LIMIT
  | Decode_CONSUMER_TIMEOUT
  | Decode_CONSUMER_FAILURE
  | Decode_CLEANUP_FAILURE

datatype decode_exn =
    PlaybackDecodeError decode_error_code "pump_error_code option"
  | Decode_Raw python_exn

record decode_snapshot =
  pds_state :: decode_state
  pds_decoded_frames :: int
  pds_decoded_bytes :: int
  pds_source_span_ms :: int
  pds_pump_delivered_packets :: int
  pds_descriptor_verified :: bool

record bridge =
  bd_pump :: pump
  bd_max_frames :: int
  bd_max_frames_per_packet :: int
  bd_max_frame_bytes :: int
  bd_state :: decode_state
  bd_decoded_frames :: int
  bd_decoded_bytes :: int
  bd_source_span_ms :: int
  bd_pump_delivered_packets :: int
  bd_descriptor_verified :: bool

fun raw_of_pump :: "pump_exn \<Rightarrow> decode_exn" where
  "raw_of_pump (PlaybackPumpError code i) = Decode_Raw Py_ValueError"
| "raw_of_pump (Pump_Raw x) = Decode_Raw x"

text \<open>\<open>callable_decoder\<close> says whether the three methods are there.\<close>

definition bridge_init ::
  "recording_descriptor \<Rightarrow> int dyn \<Rightarrow> int dyn \<Rightarrow> bool \<Rightarrow> playback_rate dyn \<Rightarrow> int \<Rightarrow> int \<Rightarrow> int \<Rightarrow> int \<Rightarrow>
   rat \<Rightarrow> rat \<Rightarrow> rat \<Rightarrow> rat \<Rightarrow> decode_exn + bridge" where
  "bridge_init d start stop callable_decoder rate mp max_frames max_frames_per_packet max_frame_bytes
     decoder_timeout frame_consumer_timeout pump_consumer_timeout cleanup_timeout =
     (if \<not> (1 \<le> max_frames \<and> max_frames \<le> 1000000) then Inl (Decode_Raw Py_ValueError)
      else if \<not> (1 \<le> max_frames_per_packet \<and> max_frames_per_packet \<le> 32) then Inl (Decode_Raw Py_ValueError)
      else if \<not> (1 \<le> max_frame_bytes \<and> max_frame_bytes \<le> 134217728) then Inl (Decode_Raw Py_ValueError)
      else if \<not> (\<forall>t \<in> {decoder_timeout, frame_consumer_timeout, cleanup_timeout}. 0 < t \<and> t \<le> 10) then Inl (Decode_Raw Py_ValueError)
      else if \<not> (0 < pump_consumer_timeout \<and> pump_consumer_timeout \<le> 10) then Inl (Decode_Raw Py_ValueError)
      else if \<not> callable_decoder then Inl (PlaybackDecodeError Decode_INVALID_DECODER None)
      else case pump_init d start stop rate mp pump_consumer_timeout of
        Inl e \<Rightarrow> Inl (raw_of_pump e)
      | Inr p \<Rightarrow> Inr \<lparr>bd_pump = p, bd_max_frames = max_frames, bd_max_frames_per_packet = max_frames_per_packet,
                     bd_max_frame_bytes = max_frame_bytes, bd_state = Decode_CREATED, bd_decoded_frames = 0,
                     bd_decoded_bytes = 0, bd_source_span_ms = 0, bd_pump_delivered_packets = 0,
                     bd_descriptor_verified = False\<rparr>)"

definition bridge_snapshot :: "bridge \<Rightarrow> decode_exn + decode_snapshot" where
  "bridge_snapshot b =
     (if 0 \<le> bd_decoded_frames b \<and> bd_decoded_frames b \<le> 1000000 \<and> 0 \<le> bd_decoded_bytes b \<and>
         0 \<le> bd_source_span_ms b \<and> 0 \<le> bd_pump_delivered_packets b
      then Inr \<lparr>pds_state = bd_state b, pds_decoded_frames = bd_decoded_frames b, pds_decoded_bytes = bd_decoded_bytes b,
                pds_source_span_ms = bd_source_span_ms b, pds_pump_delivered_packets = bd_pump_delivered_packets b,
                pds_descriptor_verified = bd_descriptor_verified b\<rparr>
      else Inl (Decode_Raw Py_ValidationError))"

section \<open>Frames\<close>

text \<open>What an awaited call of the decoder or the consumer raises, given the codes for a time-out and a failure.\<close>

definition boundary :: "decode_error_code \<Rightarrow> decode_error_code \<Rightarrow> 'a awaited \<times> 'w \<Rightarrow> (decode_exn + 'a) \<times> 'w" where
  "boundary timeout failure m =
     (case m of
        (Returned x, w) \<Rightarrow> (Inr x, w)
      | (Cancelled, w) \<Rightarrow> (Inl (Decode_Raw Py_CancelledError), w)
      | (TimedOut, w) \<Rightarrow> (Inl (PlaybackDecodeError timeout None), w)
      | (Raised, w) \<Rightarrow> (Inl (PlaybackDecodeError failure None), w))"

definition bridge_decode ::
  "'w playback_decoder \<Rightarrow> byte list \<Rightarrow> int \<Rightarrow> 'w \<Rightarrow> (decode_exn + video_frame dyn list) \<times> 'w" where
  "bridge_decode dec packet elapsed w = boundary Decode_DECODER_TIMEOUT Decode_DECODER_FAILURE (dec_decode dec packet elapsed w)"

text \<open>The checks on one frame, in order.\<close>

definition check_frame :: "bridge \<Rightarrow> video_frame dyn \<Rightarrow> decode_exn + video_frame" where
  "check_frame b frame =
     (case frame of
        NotInst \<Rightarrow> Inl (PlaybackDecodeError Decode_INVALID_FRAME None)
      | Inst f \<Rightarrow>
          (if \<not> (0 \<le> vf_source_elapsed_ms f \<and> vf_source_elapsed_ms f \<le> 2147483647)
           then Inl (PlaybackDecodeError Decode_INVALID_FRAME None)
           else if \<not> (1 \<le> len (vf_payload f) \<and> len (vf_payload f) \<le> bd_max_frame_bytes b)
           then Inl (PlaybackDecodeError Decode_INVALID_FRAME None)
           else if bd_max_frames b \<le> bd_decoded_frames b then Inl (PlaybackDecodeError Decode_FRAME_LIMIT None)
           else Inr f))"

fun emit_loop :: "'w frame_consumer \<Rightarrow> video_frame dyn list \<Rightarrow> bridge \<Rightarrow> 'w \<Rightarrow> (decode_exn + unit) \<times> bridge \<times> 'w" where
  "emit_loop consumer [] b w = (Inr (), b, w)"
| "emit_loop consumer (frame # frames) b w =
     (case check_frame b frame of
        Inl e \<Rightarrow> (Inl e, b, w)
      | Inr f \<Rightarrow>
          (case boundary Decode_CONSUMER_TIMEOUT Decode_CONSUMER_FAILURE (consumer (vf_payload f) (vf_source_elapsed_ms f) w) of
             (Inl e, w1) \<Rightarrow> (Inl e, b, w1)
           | (Inr _, w1) \<Rightarrow>
               emit_loop consumer frames
                 (b\<lparr>bd_decoded_frames := bd_decoded_frames b + 1,
                    bd_decoded_bytes := bd_decoded_bytes b + len (vf_payload f),
                    bd_source_span_ms := max (bd_source_span_ms b) (vf_source_elapsed_ms f)\<rparr>) w1))"

definition emit_frames ::
  "'w frame_consumer \<Rightarrow> video_frame dyn list \<Rightarrow> bridge \<Rightarrow> 'w \<Rightarrow> (decode_exn + unit) \<times> bridge \<times> 'w" where
  "emit_frames consumer frames b w =
     (if bd_max_frames_per_packet b < len frames then (Inl (PlaybackDecodeError Decode_FRAME_LIMIT None), b, w)
      else emit_loop consumer frames b w)"

definition bridge_flush ::
  "'w playback_decoder \<Rightarrow> 'w frame_consumer \<Rightarrow> bridge \<Rightarrow> 'w \<Rightarrow> (decode_exn + unit) \<times> bridge \<times> 'w" where
  "bridge_flush dec consumer b w =
     (case boundary Decode_DECODER_TIMEOUT Decode_DECODER_FAILURE (dec_flush dec w) of
        (Inl e, w1) \<Rightarrow> (Inl e, b, w1)
      | (Inr frames, w1) \<Rightarrow> emit_frames consumer frames b w1)"

definition close_decoder :: "'w playback_decoder \<Rightarrow> 'w \<Rightarrow> (decode_exn + unit) \<times> 'w" where
  "close_decoder dec w = boundary Decode_CLEANUP_FAILURE Decode_CLEANUP_FAILURE (dec_close dec w)"

section \<open>Running\<close>

text \<open>
  While the pump runs it works on the bridge, the local \<open>boundary_error\<close> and the world.
  \<open>expired w\<close> tells whether a cancellation of the packet's work comes from the pump's time-out for it.
\<close>

type_synonym 'w bridge_world = "bridge \<times> decode_exn option \<times> 'w"

definition packet_consumer :: "('w \<Rightarrow> bool) \<Rightarrow> 'w playback_decoder \<Rightarrow> 'w frame_consumer \<Rightarrow> 'w bridge_world packet_consumer" where
  "packet_consumer expired dec consumer packet elapsed s =
     (let (b, err, w) = s;
          (r, b1, w1) =
            (case bridge_decode dec packet elapsed w of
               (Inl e, w1) \<Rightarrow> (Inl e, b, w1)
             | (Inr frames, w1) \<Rightarrow> emit_frames consumer frames b w1)
      in case r of
           Inr _ \<Rightarrow> (Returned (), b1, err, w1)
         | Inl (PlaybackDecodeError code i) \<Rightarrow> (Raised, b1, Some (PlaybackDecodeError code i), w1)
         | Inl (Decode_Raw x) \<Rightarrow>
             ((if x = Py_CancelledError then (if expired w1 then TimedOut else Cancelled) else Raised), b1, err, w1))"

definition lift_pacing :: "'w pacing \<Rightarrow> 'w bridge_world pacing" where
  "lift_pacing pc =
     \<lparr>pc_clock = (\<lambda>(b, err, w). let (t, w1) = pc_clock pc w in (t, b, err, w1)),
      pc_sleep = (\<lambda>r (b, err, w). let (x, w1) = pc_sleep pc r w in (x, b, err, w1)),
      pc_admit = map_option (\<lambda>wait (b, err, w). let (x, w1) = wait w in (x, b, err, w1)) (pc_admit pc)\<rparr>"

text \<open>
  The inner \<open>try\<close> block: its result, whether \<open>primary_error\<close> is set, the bridge and the world.
\<close>

definition bridge_body ::
  "(rat \<Rightarrow> rat) \<Rightarrow> 'w pacing \<Rightarrow> (byte list \<times> nat option) option \<Rightarrow> bool \<Rightarrow> ('w \<Rightarrow> bool) \<Rightarrow> 'w playback_decoder \<Rightarrow> 'w frame_consumer \<Rightarrow>
   bridge \<Rightarrow> 'w \<Rightarrow> (decode_exn + decode_snapshot) \<times> bool \<times> bridge \<times> 'w" where
  "bridge_body fl pc opened close_fails expired dec consumer b w =
     (case pump_run fl (lift_pacing pc) opened close_fails (packet_consumer expired dec consumer) (bd_pump b) (b, None, w) of
        (Inl (Pump_Raw x), p, b1, err, w1) \<Rightarrow>
          (if x = Py_CancelledError
           then (Inl (Decode_Raw x), True, b1\<lparr>bd_pump := p, bd_state := Decode_CANCELLED\<rparr>, w1)
           else (Inl (Decode_Raw x), False, b1\<lparr>bd_pump := p\<rparr>, w1))
      | (Inl (PlaybackPumpError code i), p, b1, err, w1) \<Rightarrow>
          (Inl (case err of Some e \<Rightarrow> e | None \<Rightarrow> PlaybackDecodeError Decode_PUMP_FAILURE (Some code)), True,
           b1\<lparr>bd_pump := p, bd_state := Decode_FAILED\<rparr>, w1)
      | (Inr sn, p, b1, err, w1) \<Rightarrow>
          (case bridge_flush dec consumer (b1\<lparr>bd_pump := p\<rparr>) w1 of
             (Inl (Decode_Raw x), b2, w2) \<Rightarrow>
               (if x = Py_CancelledError then (Inl (Decode_Raw x), True, b2\<lparr>bd_state := Decode_CANCELLED\<rparr>, w2)
                else (Inl (Decode_Raw x), False, b2, w2))
           | (Inl (PlaybackDecodeError code i), b2, w2) \<Rightarrow>
               (Inl (PlaybackDecodeError code i), True, b2\<lparr>bd_state := Decode_FAILED\<rparr>, w2)
           | (Inr _, b2, w2) \<Rightarrow>
               (let b3 = b2\<lparr>bd_pump_delivered_packets := pps_delivered_packets sn,
                            bd_descriptor_verified := pps_descriptor_verified sn, bd_state := Decode_COMPLETE\<rparr>
                in (bridge_snapshot b3, False, b3, w2))))"

definition bridge_run ::
  "(rat \<Rightarrow> rat) \<Rightarrow> 'w pacing \<Rightarrow> (byte list \<times> nat option) option \<Rightarrow> bool \<Rightarrow> ('w \<Rightarrow> bool) \<Rightarrow> 'w playback_decoder \<Rightarrow> 'w frame_consumer \<Rightarrow>
   bridge \<Rightarrow> 'w \<Rightarrow> (decode_exn + decode_snapshot) \<times> bridge \<times> 'w" where
  "bridge_run fl pc opened close_fails expired dec consumer b w =
     (if bd_state b \<noteq> Decode_CREATED then (Inl (PlaybackDecodeError Decode_INVALID_STATE None), b, w)
      else let (r, primary, b1, w1) =
              bridge_body fl pc opened close_fails expired dec consumer (b\<lparr>bd_state := Decode_RUNNING\<rparr>) w
           in case close_decoder dec w1 of
                (Inl (Decode_Raw x), w2) \<Rightarrow>
                  (if primary then (r, b1, w2) else (Inl (Decode_Raw x), b1\<lparr>bd_state := Decode_CANCELLED\<rparr>, w2))
              | (Inl (PlaybackDecodeError code i), w2) \<Rightarrow>
                  (if primary then (r, b1, w2) else (Inl (PlaybackDecodeError code i), b1\<lparr>bd_state := Decode_FAILED\<rparr>, w2))
              | (Inr _, w2) \<Rightarrow> (r, b1, w2))"

section \<open>Frames delivered\<close>

definition video_frame_ok :: "int \<Rightarrow> byte list \<Rightarrow> int \<Rightarrow> bool" where
  "video_frame_ok max_bytes payload elapsed \<longleftrightarrow>
     1 \<le> len payload \<and> len payload \<le> max_bytes \<and> 0 \<le> elapsed \<and> elapsed \<le> 2147483647"

text \<open>What does not change while the pump runs, and what the counters are bounded by.\<close>

definition bridge_during :: "bridge \<Rightarrow> bridge \<Rightarrow> bool" where
  "bridge_during b0 b \<longleftrightarrow>
     bd_max_frames b = bd_max_frames b0 \<and> bd_max_frames_per_packet b = bd_max_frames_per_packet b0 \<and>
     bd_max_frame_bytes b = bd_max_frame_bytes b0 \<and> bd_state b = bd_state b0 \<and>
     bd_descriptor_verified b = bd_descriptor_verified b0 \<and> bd_pump_delivered_packets b = bd_pump_delivered_packets b0 \<and>
     0 \<le> bd_decoded_frames b \<and> bd_decoded_frames b \<le> bd_max_frames b \<and>
     0 \<le> bd_decoded_bytes b \<and> bd_decoded_bytes b \<le> bd_decoded_frames b * bd_max_frame_bytes b \<and>
     0 \<le> bd_source_span_ms b \<and> bd_source_span_ms b \<le> 2147483647"

lemma bridge_during_pump: "bridge_during b0 (b\<lparr>bd_pump := p\<rparr>) = bridge_during b0 b"
  by (simp add: bridge_during_def)

lemma check_frame_ok: "check_frame b frame = Inr f \<Longrightarrow>
    frame = Inst f \<and> video_frame_ok (bd_max_frame_bytes b) (vf_payload f) (vf_source_elapsed_ms f) \<and> bd_decoded_frames b < bd_max_frames b"
  by (auto simp: check_frame_def video_frame_ok_def split: dyn.splits if_splits)

lemma check_frame_error: "check_frame b frame = Inl e \<Longrightarrow> \<exists>code. e = PlaybackDecodeError code None"
  by (auto simp: check_frame_def split: dyn.splits if_splits)

definition decode_exn_ok :: "decode_exn \<Rightarrow> bool" where
  "decode_exn_ok e \<longleftrightarrow> e = Decode_Raw Py_CancelledError \<or> (\<exists>code. e = PlaybackDecodeError code None)"

lemma boundary_error:
  assumes "boundary t f m = (Inl e, w)"
  shows "decode_exn_ok e"
  using assms by (auto simp: boundary_def decode_exn_ok_def split: prod.splits awaited.splits)

text \<open>Two consumers that differ at most on frames that are not well formed.\<close>

definition same_on_frames :: "int \<Rightarrow> 'w frame_consumer \<Rightarrow> 'w frame_consumer \<Rightarrow> bool" where
  "same_on_frames max_bytes consumer2 consumer \<longleftrightarrow>
     (\<forall>x e w. video_frame_ok max_bytes x e \<longrightarrow> consumer2 x e w = consumer x e w)"

lemma emit_loop_during:
  assumes agree: "same_on_frames (bd_max_frame_bytes b0) consumer2 consumer"
    and "bridge_during b0 b" and "emit_loop consumer frames b w = (r, b', w')"
  shows "emit_loop consumer2 frames b w = (r, b', w') \<and> bridge_during b0 b' \<and> (\<forall>e. r = Inl e \<longrightarrow> decode_exn_ok e)"
  using assms(2,3)
proof (induction frames arbitrary: b w)
  case (Cons frame frames)
  show ?case
  proof (cases "check_frame b frame")
    case (Inl e)
    with Cons.prems check_frame_error [OF Inl] show ?thesis by (auto simp: decode_exn_ok_def)
  next
    case (Inr f)
    from check_frame_ok [OF Inr] Cons.prems(1)
    have f: "video_frame_ok (bd_max_frame_bytes b0) (vf_payload f) (vf_source_elapsed_ms f)" and lt: "bd_decoded_frames b < bd_max_frames b"
      by (auto simp: bridge_during_def)
    obtain r1 w1 where c: "boundary Decode_CONSUMER_TIMEOUT Decode_CONSUMER_FAILURE (consumer (vf_payload f) (vf_source_elapsed_ms f) w) = (r1, w1)"
      by fastforce
    have same: "consumer2 (vf_payload f) (vf_source_elapsed_ms f) w = consumer (vf_payload f) (vf_source_elapsed_ms f) w"
      using agree f by (simp add: same_on_frames_def)
    show ?thesis
    proof (cases r1)
      case (Inl e)
      from boundary_error [OF c [unfolded Inl]] Inl Cons.prems c \<open>check_frame b frame = Inr f\<close> show ?thesis
        by (auto simp: same)
    next
      case (Inr u)
      let ?b = "b\<lparr>bd_decoded_frames := bd_decoded_frames b + 1, bd_decoded_bytes := bd_decoded_bytes b + len (vf_payload f),
        bd_source_span_ms := max (bd_source_span_ms b) (vf_source_elapsed_ms f)\<rparr>"
      have "bridge_during b0 ?b"
        using Cons.prems(1) f lt by (auto simp: bridge_during_def video_frame_ok_def algebra_simps)
      moreover have "emit_loop consumer frames ?b w1 = (r, b', w')"
        using Cons.prems(2) c Inr \<open>check_frame b frame = Inr f\<close> by simp
      ultimately have "emit_loop consumer2 frames ?b w1 = (r, b', w') \<and> bridge_during b0 b' \<and> (\<forall>e. r = Inl e \<longrightarrow> decode_exn_ok e)"
        by (rule Cons.IH)
      with c Inr \<open>check_frame b frame = Inr f\<close> show ?thesis by (auto simp: same)
    qed
  qed
qed auto

lemma emit_frames_during:
  assumes agree: "same_on_frames (bd_max_frame_bytes b0) consumer2 consumer"
    and "bridge_during b0 b" and "emit_frames consumer frames b w = (r, b', w')"
  shows "emit_frames consumer2 frames b w = (r, b', w') \<and> bridge_during b0 b' \<and> (\<forall>e. r = Inl e \<longrightarrow> decode_exn_ok e)"
  using assms(2,3) emit_loop_during [OF agree assms(2)] by (auto simp: emit_frames_def decode_exn_ok_def split: if_splits)

lemma bridge_flush_during:
  assumes agree: "same_on_frames (bd_max_frame_bytes b0) consumer2 consumer"
    and "bridge_during b0 b" and "bridge_flush dec consumer b w = (r, b', w')"
  shows "bridge_flush dec consumer2 b w = (r, b', w') \<and> bridge_during b0 b' \<and> (\<forall>e. r = Inl e \<longrightarrow> decode_exn_ok e)"
proof -
  obtain r1 w1 where f: "boundary Decode_DECODER_TIMEOUT Decode_DECODER_FAILURE (dec_flush dec w) = (r1, w1)" by fastforce
  show ?thesis
  proof (cases r1)
    case (Inl e)
    from boundary_error [OF f [unfolded Inl]] f Inl assms(2,3) show ?thesis by (auto simp: bridge_flush_def)
  next
    case (Inr frames)
    with f assms(3) have "emit_frames consumer frames b w1 = (r, b', w')" by (simp add: bridge_flush_def)
    from emit_frames_during [OF agree assms(2) this] f Inr show ?thesis by (simp add: bridge_flush_def)
  qed
qed

text \<open>The same for the work on one packet, as the pump's consumer.\<close>

definition world_during :: "bridge \<Rightarrow> 'w bridge_world \<Rightarrow> bool" where
  "world_during b0 s \<longleftrightarrow> bridge_during b0 (fst s) \<and> (\<forall>e. fst (snd s) = Some e \<longrightarrow> (\<exists>code. e = PlaybackDecodeError code None))"

lemma packet_consumer_during:
  assumes agree: "same_on_frames (bd_max_frame_bytes b0) consumer2 consumer"
    and "world_during b0 s"
  shows "packet_consumer expired dec consumer2 packet elapsed s = packet_consumer expired dec consumer packet elapsed s \<and>
    world_during b0 (snd (packet_consumer expired dec consumer packet elapsed s))"
proof -
  obtain b err w where s: "s = (b, err, w)" by (cases s)
  with assms(2) have b: "bridge_during b0 b" by (simp add: world_during_def)
  obtain r1 w1 where d: "bridge_decode dec packet elapsed w = (r1, w1)" by fastforce
  show ?thesis
  proof (cases r1)
    case (Inl e)
    with d have "decode_exn_ok e" using boundary_error by (fastforce simp: bridge_decode_def decode_exn_ok_def)
    with Inl assms(2) s d show ?thesis
      by (auto simp: packet_consumer_def world_during_def decode_exn_ok_def)
  next
    case (Inr frames)
    obtain r b1 w2 where e: "emit_frames consumer frames b w1 = (r, b1, w2)" by (metis prod_cases3)
    from emit_frames_during [OF agree b e] have e2: "emit_frames consumer2 frames b w1 = (r, b1, w2)"
      and b1: "bridge_during b0 b1" and r: "\<forall>e. r = Inl e \<longrightarrow> decode_exn_ok e" by blast+
    from assms(2) s b1 r d Inr e e2 show ?thesis
      by (cases r) (auto simp: packet_consumer_def world_during_def decode_exn_ok_def)
  qed
qed

lemma bridge_keeps: "keeps (world_during b0) (lift_pacing pc) (packet_consumer expired dec consumer)"
  using packet_consumer_during [of b0 consumer consumer]
  by (auto simp: keeps_def lift_pacing_def world_during_def same_on_frames_def split_beta)

lemma pump_run_during:
  assumes agree: "same_on_frames (bd_max_frame_bytes b0) consumer2 consumer"
    and "bridge_during b0 b"
    and "pump_run fl (lift_pacing pc) opened cf (packet_consumer expired dec consumer) p (b, None, w) = (r, p', b', err, w')"
  shows "pump_run fl (lift_pacing pc) opened cf (packet_consumer expired dec consumer2) p (b, None, w) = (r, p', b', err, w') \<and>
    bridge_during b0 b' \<and> (\<forall>e. err = Some e \<longrightarrow> (\<exists>code. e = PlaybackDecodeError code None))"
proof -
  have "world_during b0 (b, None, w)" using assms(2) by (simp add: world_during_def)
  from pump_run_keeps [OF bridge_keeps _ this, of "packet_consumer expired dec consumer2" expired dec consumer fl pc opened cf p]
    packet_consumer_during [OF agree] assms(3) show ?thesis
    by (simp add: world_during_def)
qed

section \<open>How a run ends\<close>

lemma bridge_initE:
  assumes "bridge_init d (Inst start) (Inst stop) cd (Inst rate) mp mf mfp mfb t1 t2 t3 t4 = Inr b"
  obtains "pump_init d (Inst start) (Inst stop) (Inst rate) mp t3 = Inr (bd_pump b)" "bd_state b = Decode_CREATED"
    "bridge_during (b\<lparr>bd_state := Decode_RUNNING\<rparr>) (b\<lparr>bd_state := Decode_RUNNING\<rparr>)" "\<not> bd_descriptor_verified b"
    "bd_max_frames b = mf" "bd_max_frame_bytes b = mfb" "bd_max_frames_per_packet b = mfp" "bd_decoded_frames b = 0"
    "1 \<le> mf" "mf \<le> 1000000" "1 \<le> mfp" "mfp \<le> 32" "1 \<le> mfb" "mfb \<le> 134217728"
  using assms by (auto simp: bridge_init_def bridge_during_def split: if_splits sum.splits)

lemma emit_loop_pump: "emit_loop consumer frames b w = (r, b', w') \<Longrightarrow> bd_pump b' = bd_pump b"
  by (induction frames arbitrary: b w) (auto split: sum.splits prod.splits)

lemma bridge_flush_pump: "bridge_flush dec consumer b w = (r, b', w') \<Longrightarrow> bd_pump b' = bd_pump b"
  by (auto simp: bridge_flush_def emit_frames_def emit_loop_pump split: sum.splits prod.splits if_splits)

text \<open>Which exception goes with which state.\<close>

definition bridge_outcome_ok :: "decode_exn + decode_snapshot \<Rightarrow> bridge \<Rightarrow> bool" where
  "bridge_outcome_ok r b \<longleftrightarrow>
     (case r of
        Inr sn \<Rightarrow> bd_state b = Decode_COMPLETE \<and> bd_descriptor_verified b \<and> bridge_snapshot b = Inr sn
      | Inl (PlaybackDecodeError code i) \<Rightarrow> bd_state b = Decode_FAILED
      | Inl (Decode_Raw x) \<Rightarrow> x = Py_CancelledError \<and> bd_state b = Decode_CANCELLED) \<and>
     (bd_descriptor_verified b \<longrightarrow> pp_state (bd_pump b) = Pump_COMPLETE \<and> pp_descriptor_verified (bd_pump b)) \<and>
     0 \<le> bd_decoded_frames b \<and> bd_decoded_frames b \<le> bd_max_frames b \<and>
     0 \<le> bd_decoded_bytes b \<and> bd_decoded_bytes b \<le> bd_decoded_frames b * bd_max_frame_bytes b \<and>
     0 \<le> bd_source_span_ms b \<and> bd_source_span_ms b \<le> 2147483647"

lemma bridge_outcome_close:
  assumes "bridge_outcome_ok (Inr sn) b"
  shows "bridge_outcome_ok (Inl (PlaybackDecodeError code i)) (b\<lparr>bd_state := Decode_FAILED\<rparr>)"
    and "bridge_outcome_ok (Inl (Decode_Raw Py_CancelledError)) (b\<lparr>bd_state := Decode_CANCELLED\<rparr>)"
  using assms by (simp_all add: bridge_outcome_ok_def)

lemma bridge_body_ends:
  assumes init: "pump_init d (Inst start) (Inst stop) (Inst rate) mp timeout = Inr (bd_pump b)" and ok: "descriptor_fields_ok d"
    and b: "bridge_during b b" "\<not> bd_descriptor_verified b" "bd_max_frames b \<le> 1000000"
    and run: "bridge_body fl pc opened cf expired dec consumer b w = (r, primary, b', w')"
  shows "bridge_outcome_ok r b' \<and> (primary \<longleftrightarrow> isl r) \<and> bd_max_frames b' = bd_max_frames b \<and>
    bd_max_frame_bytes b' = bd_max_frame_bytes b"
proof -
  obtain pr p b1 err w1 where pump: "pump_run fl (lift_pacing pc) opened cf (packet_consumer expired dec consumer) (bd_pump b) (b, None, w) =
      (pr, p, b1, err, w1)" by (metis prod_cases5)
  have "same_on_frames (bd_max_frame_bytes b) consumer consumer" by (simp add: same_on_frames_def)
  note same = this
  from pump_run_during [OF same b(1) pump] have b1: "bridge_during b b1"
    and err: "\<forall>e. err = Some e \<longrightarrow> (\<exists>code. e = PlaybackDecodeError code None)" by blast+
  from conjunct1 [OF pump_run_outcomes [OF init ok pump]] have out: "pump_outcome_ok pr p" .
  show ?thesis
  proof (cases pr)
    case (Inl e)
    with out run pump b1 err b(2) show ?thesis
      by (cases e; cases err) (auto simp: bridge_body_def pump_outcome_ok_def bridge_outcome_ok_def bridge_during_def)
  next
    case (Inr sn)
    obtain fr b2 w2 where f: "bridge_flush dec consumer (b1\<lparr>bd_pump := p\<rparr>) w1 = (fr, b2, w2)" by (metis prod_cases3)
    have "bridge_during b (b1\<lparr>bd_pump := p\<rparr>)" using b1 by (simp add: bridge_during_pump)
    from bridge_flush_during [OF same this f] have b2: "bridge_during b b2" and fr: "\<forall>e. fr = Inl e \<longrightarrow> decode_exn_ok e" by blast+
    from bridge_flush_pump [OF f] have p2: "bd_pump b2 = p" by simp
    show ?thesis
    proof (cases fr)
      case (Inl e)
      with fr run pump Inr f b2 b(2) show ?thesis
        by (auto simp: bridge_body_def decode_exn_ok_def bridge_outcome_ok_def bridge_during_def)
    next
      case u: (Inr u)
      from out Inr have "pp_state p = Pump_COMPLETE" "pp_descriptor_verified p" "pump_snapshot p = Inr sn"
        by (simp_all add: pump_outcome_ok_def)
      with run pump Inr f u b2 p2 b(3) show ?thesis
        by (auto simp: bridge_body_def bridge_outcome_ok_def bridge_during_def bridge_snapshot_def pump_snapshot_def Let_def split: if_splits)
    qed
  qed
qed

lemma bridge_run_outcomes:
  assumes "bridge_init d (Inst start) (Inst stop) cd (Inst rate) mp mf mfp mfb t1 t2 t3 t4 = Inr b" and "descriptor_fields_ok d"
    and "bridge_run fl pc opened cf expired dec consumer b w = (r, b', w')"
  shows "bridge_outcome_ok r b' \<and> bd_max_frames b' = mf \<and> bd_max_frame_bytes b' = mfb \<and>
    bridge_run fl pc opened cf expired dec consumer b' w2 = (Inl (PlaybackDecodeError Decode_INVALID_STATE None), b', w2)"
proof -
  let ?b = "b\<lparr>bd_state := Decode_RUNNING\<rparr>"
  from assms(1) have init: "pump_init d (Inst start) (Inst stop) (Inst rate) mp t3 = Inr (bd_pump ?b)"
    and b: "bridge_during ?b ?b" "\<not> bd_descriptor_verified ?b" "bd_max_frames ?b \<le> 1000000" "bd_state b = Decode_CREATED"
      "bd_max_frames ?b = mf" "bd_max_frame_bytes ?b = mfb" by (rule bridge_initE; simp)+
  obtain r1 primary b1 w1 where body: "bridge_body fl pc opened cf expired dec consumer ?b w = (r1, primary, b1, w1)"
    by (metis prod_cases4)
  from bridge_body_ends [OF init assms(2) b(1-3) body] b(5,6) have o: "bridge_outcome_ok r1 b1" "primary \<longleftrightarrow> isl r1"
    "bd_max_frames b1 = mf" "bd_max_frame_bytes b1 = mfb" by simp_all
  obtain c w3 where close: "close_decoder dec w1 = (c, w3)" by fastforce
  have "bridge_outcome_ok r b' \<and> bd_max_frames b' = mf \<and> bd_max_frame_bytes b' = mfb"
  proof (cases "primary \<or> \<not> isl c")
    case True
    with assms(3) b(4) body close o show ?thesis
      by (cases c) (auto simp: bridge_run_def split: decode_exn.splits)
  next
    case False
    then obtain sn e where "r1 = Inr sn" "c = Inl e" using o(2) by (cases r1; cases c) auto
    moreover have "decode_exn_ok e"
      using close \<open>c = Inl e\<close> boundary_error by (fastforce simp: close_decoder_def)
    ultimately show ?thesis
      using assms(3) b(4) body close o bridge_outcome_close [of sn b1] by (auto simp: bridge_run_def decode_exn_ok_def)
  qed
  moreover from this have "bd_state b' \<noteq> Decode_CREATED"
    by (auto simp: bridge_outcome_ok_def split: sum.splits decode_exn.splits)
  ultimately show ?thesis by (simp add: bridge_run_def)
qed

text \<open>
  C31: how the decoder boundary can end, whatever the file, the clock, the decoder and the consumer
  do. It returns only in state \<open>COMPLETE\<close> with the recording verified; every sanitized error leaves
  \<open>FAILED\<close> and every cancellation \<open>CANCELLED\<close>, and nothing else escapes; it reports a recording as
  verified only after the pump played all of it; the counters stay within the configured limits;
  and a second run is refused, without touching the decoder.
\<close>

theorem bridge_outcomes:
  assumes "bridge_init d (Inst start) (Inst stop) cd (Inst rate) mp mf mfp mfb t1 t2 t3 t4 = Inr b" and "descriptor_fields_ok d"
    and "bridge_run fl pc opened cf expired dec consumer b w = (r, b', w')"
  shows "bridge_outcome_ok r b' \<and> bd_max_frames b' = mf \<and> bd_max_frame_bytes b' = mfb \<and>
    bridge_run fl pc opened cf expired dec consumer b' w2 = (Inl (PlaybackDecodeError Decode_INVALID_STATE None), b', w2)"
  using assms by (rule bridge_run_outcomes)

text \<open>
  The consumer is only ever given well-formed frames, at most \<open>max_frame_bytes\<close> long and with a
  time that fits: what it would do with any other cannot make a difference.
\<close>

lemma bridge_delivers_valid_frames:
  assumes "bridge_init d (Inst start) (Inst stop) cd (Inst rate) mp mf mfp mfb t1 t2 t3 t4 = Inr b"
    and "\<And>x e w. 1 \<le> len x \<Longrightarrow> len x \<le> mfb \<Longrightarrow> 0 \<le> e \<Longrightarrow> e \<le> 2147483647 \<Longrightarrow> consumer2 x e w = consumer x e w"
  shows "bridge_run fl pc opened cf expired dec consumer2 b w = bridge_run fl pc opened cf expired dec consumer b w"
proof -
  let ?b = "b\<lparr>bd_state := Decode_RUNNING\<rparr>"
  from assms(1) have b: "bridge_during ?b ?b" "bd_max_frame_bytes ?b = mfb" by (rule bridge_initE; simp)+
  have same: "same_on_frames (bd_max_frame_bytes ?b) consumer2 consumer"
    using assms(2) b(2) by (simp add: same_on_frames_def video_frame_ok_def)
  obtain pr p b1 err w1 where pump: "pump_run fl (lift_pacing pc) opened cf (packet_consumer expired dec consumer) (bd_pump ?b) (?b, None, w) =
      (pr, p, b1, err, w1)" by (metis prod_cases5)
  from pump_run_during [OF same b(1) pump]
  have pump2: "pump_run fl (lift_pacing pc) opened cf (packet_consumer expired dec consumer2) (bd_pump ?b) (?b, None, w) =
      (pr, p, b1, err, w1)" and b1: "bridge_during ?b (b1\<lparr>bd_pump := p\<rparr>)" by (simp_all add: bridge_during_pump)
  have "bridge_flush dec consumer2 (b1\<lparr>bd_pump := p\<rparr>) w1 = bridge_flush dec consumer (b1\<lparr>bd_pump := p\<rparr>) w1"
    using bridge_flush_during [OF same b1] by (metis prod_cases3)
  with pump pump2 have "bridge_body fl pc opened cf expired dec consumer2 ?b w = bridge_body fl pc opened cf expired dec consumer ?b w"
    by (simp add: bridge_body_def split: sum.splits pump_exn.splits)
  then show ?thesis by (simp add: bridge_run_def)
qed

text \<open>
  The decoder is closed exactly once in every run, and nothing happens after: whatever its
  \<open>close\<close> does to the world is what the run ends in, and the run up to there does not depend on it.
\<close>

lemma bridge_run_closes_once:
  assumes "bd_state b = Decode_CREATED"
  shows "\<exists>w1. \<forall>close. snd (snd (bridge_run fl pc opened cf expired (dec\<lparr>dec_close := close\<rparr>) consumer b w)) = snd (close w1)"
proof -
  let ?b = "b\<lparr>bd_state := Decode_RUNNING\<rparr>"
  have same: "packet_consumer expired (dec\<lparr>dec_close := close\<rparr>) consumer = packet_consumer expired dec consumer"
    "bridge_flush (dec\<lparr>dec_close := close\<rparr>) = bridge_flush dec" for close
    by (simp_all add: fun_eq_iff packet_consumer_def bridge_decode_def bridge_flush_def)
  have body: "bridge_body fl pc opened cf expired (dec\<lparr>dec_close := close\<rparr>) consumer ?b w =
      bridge_body fl pc opened cf expired dec consumer ?b w" for close
    unfolding bridge_body_def same ..
  obtain r primary b1 w1 where b: "bridge_body fl pc opened cf expired dec consumer ?b w = (r, primary, b1, w1)"
    by (metis prod_cases4)
  have "snd (snd (bridge_run fl pc opened cf expired (dec\<lparr>dec_close := close\<rparr>) consumer b w)) = snd (close w1)" for close
    using assms by (cases "close w1"; cases "fst (close w1)")
      (auto simp: bridge_run_def body b close_decoder_def boundary_def)
  then show ?thesis by blast
qed

section \<open>What is shown\<close>

text \<open>
  A decoder and a world that work: \<open>shown xs fs w\<close> holds once the decoder has been fed the packets \<open>xs\<close>
  and the consumer has taken the frames \<open>fs\<close>. Nothing fails; after \<open>xs\<close> the decoder makes the frames
  \<open>D xs x\<close> of a packet \<open>x\<close>, and \<open>F\<close> when flushed after all of \<open>items\<close>.
\<close>

definition works ::
  "scheduled_packet list \<Rightarrow> 'w pacing \<Rightarrow> 'w playback_decoder \<Rightarrow> 'w frame_consumer \<Rightarrow>
   (scheduled_packet list \<Rightarrow> scheduled_packet \<Rightarrow> video_frame list) \<Rightarrow> video_frame list \<Rightarrow>
   (scheduled_packet list \<Rightarrow> video_frame list \<Rightarrow> 'w \<Rightarrow> bool) \<Rightarrow> bool" where
  "works items pc dec consumer D F shown \<longleftrightarrow>
     (\<forall>xs fs w. shown xs fs w \<longrightarrow>
        (\<exists>t w'. pc_clock pc w = (Some t, w') \<and> shown xs fs w') \<and>
        (\<forall>r. \<exists>w'. pc_sleep pc r w = (Returned (), w') \<and> shown xs fs w') \<and>
        (\<forall>wait. pc_admit pc = Some wait \<longrightarrow> (\<exists>w'. wait w = (Returned (), w') \<and> shown xs fs w')) \<and>
        (\<forall>f. \<exists>w'. consumer (vf_payload f) (vf_source_elapsed_ms f) w = (Returned (), w') \<and> shown xs (fs @ [f]) w') \<and>
        (\<forall>x. prefix (xs @ [x]) items \<longrightarrow>
           (\<exists>w'. dec_decode dec (sp_packet x) (sp_source_elapsed_ms x) w = (Returned (map Inst (D xs x)), w') \<and>
              shown (xs @ [x]) fs w'))) \<and>
     (\<forall>fs w. shown items fs w \<longrightarrow>
        (\<exists>w'. dec_flush dec w = (Returned (map Inst F), w') \<and> shown items fs w') \<and>
        (\<exists>w'. dec_close dec w = (Returned (), w') \<and> shown items fs w'))"

lemma worksD:
  assumes "works items pc dec consumer D F shown"
  shows "shown xs fs w \<Longrightarrow> \<exists>t w'. pc_clock pc w = (Some t, w') \<and> shown xs fs w'"
    and "shown xs fs w \<Longrightarrow> \<exists>w'. pc_sleep pc r w = (Returned (), w') \<and> shown xs fs w'"
    and "shown xs fs w \<Longrightarrow> pc_admit pc = Some wait \<Longrightarrow> \<exists>w'. wait w = (Returned (), w') \<and> shown xs fs w'"
    and "shown xs fs w \<Longrightarrow> \<exists>w'. consumer (vf_payload f) (vf_source_elapsed_ms f) w = (Returned (), w') \<and> shown xs (fs @ [f]) w'"
    and "shown xs fs w \<Longrightarrow> prefix (xs @ [x]) items \<Longrightarrow>
      \<exists>w'. dec_decode dec (sp_packet x) (sp_source_elapsed_ms x) w = (Returned (map Inst (D xs x)), w') \<and> shown (xs @ [x]) fs w'"
    and "shown items fs w \<Longrightarrow> \<exists>w'. dec_flush dec w = (Returned (map Inst F), w') \<and> shown items fs w'"
    and "shown items fs w \<Longrightarrow> \<exists>w'. dec_close dec w = (Returned (), w') \<and> shown items fs w'"
  using assms by (simp_all add: works_def)

definition frames_of :: "(scheduled_packet list \<Rightarrow> scheduled_packet \<Rightarrow> video_frame list) \<Rightarrow> scheduled_packet list \<Rightarrow> video_frame list" where
  "frames_of D xs = concat (map (\<lambda>i. D (take i xs) (xs ! i)) [0..<length xs])"

lemma frames_of_Nil [simp]: "frames_of D [] = []"
  by (simp add: frames_of_def)

lemma frames_of_snoc: "frames_of D (xs @ [x]) = frames_of D xs @ D xs x"
proof -
  have "map (\<lambda>i. D (take i (xs @ [x])) ((xs @ [x]) ! i)) [0..<length xs] = map (\<lambda>i. D (take i xs) (xs ! i)) [0..<length xs]"
    by (intro map_cong) (simp_all add: nth_append)
  moreover have "[0..<length (xs @ [x])] = [0..<length xs] @ [length xs]" by simp
  ultimately show ?thesis unfolding frames_of_def by (simp only: map_append concat_append) simp
qed

lemma frames_of_prefix: "prefix xs ys \<Longrightarrow> prefix (frames_of D xs) (frames_of D ys)"
proof (induction ys rule: rev_induct)
  case (snoc y ys)
  then show ?case by (cases "xs = ys @ [y]") (auto simp: frames_of_snoc intro: prefix_order.trans)
qed simp

text \<open>The limits of a bridge allow for these frames.\<close>

definition frames_within_limits :: "int \<Rightarrow> int \<Rightarrow> int \<Rightarrow> scheduled_packet list \<Rightarrow>
   (scheduled_packet list \<Rightarrow> scheduled_packet \<Rightarrow> video_frame list) \<Rightarrow> video_frame list \<Rightarrow> bool" where
  "frames_within_limits max_frames max_per_packet max_bytes items D F \<longleftrightarrow>
     (\<forall>xs x. prefix (xs @ [x]) items \<longrightarrow> len (D xs x) \<le> max_per_packet) \<and> len F \<le> max_per_packet \<and>
     (\<forall>f \<in> set (frames_of D items @ F). video_frame_ok max_bytes (vf_payload f) (vf_source_elapsed_ms f)) \<and>
     len (frames_of D items @ F) \<le> max_frames"

definition bridge_did :: "bridge \<Rightarrow> video_frame list \<Rightarrow> bridge \<Rightarrow> bool" where
  "bridge_did b0 fs b \<longleftrightarrow>
     bridge_during b0 b \<and> bd_decoded_frames b = len fs \<and> bd_decoded_bytes b = len (concat (map vf_payload fs))"

lemma emit_loop_shows:
  assumes step: "\<And>fs f w. shown fs w \<Longrightarrow> \<exists>w'. consumer (vf_payload f) (vf_source_elapsed_ms f) w = (Returned (), w') \<and> shown (fs @ [f]) w'"
    and "shown fs w" and "bridge_did b0 fs b"
    and "\<forall>f \<in> set gs. video_frame_ok (bd_max_frame_bytes b0) (vf_payload f) (vf_source_elapsed_ms f)"
    and "len (fs @ gs) \<le> bd_max_frames b0"
  shows "\<exists>b' w'. emit_loop consumer (map Inst gs) b w = (Inr (), b', w') \<and> shown (fs @ gs) w' \<and> bridge_did b0 (fs @ gs) b'"
  using assms(2-)
proof (induction gs arbitrary: fs b w)
  case (Cons g gs)
  obtain w1 where c: "consumer (vf_payload g) (vf_source_elapsed_ms g) w = (Returned (), w1)" "shown (fs @ [g]) w1"
    using step Cons.prems(1) by blast
  have g: "video_frame_ok (bd_max_frame_bytes b0) (vf_payload g) (vf_source_elapsed_ms g)" using Cons.prems(3) by simp
  have lt: "bd_decoded_frames b < bd_max_frames b" using Cons.prems(2,4) by (simp add: bridge_did_def bridge_during_def)
  have check: "check_frame b (Inst g) = Inr g"
    using g lt Cons.prems(2) by (simp add: check_frame_def video_frame_ok_def bridge_did_def bridge_during_def)
  let ?b = "b\<lparr>bd_decoded_frames := bd_decoded_frames b + 1, bd_decoded_bytes := bd_decoded_bytes b + len (vf_payload g),
    bd_source_span_ms := max (bd_source_span_ms b) (vf_source_elapsed_ms g)\<rparr>"
  have "bridge_did b0 (fs @ [g]) ?b"
    using Cons.prems(2) g lt by (auto simp: bridge_did_def bridge_during_def video_frame_ok_def algebra_simps)
  from Cons.IH [OF c(2) this] Cons.prems(3,4) check c(1) show ?case by (simp add: boundary_def)
qed simp

lemma emit_frames_shows:
  assumes "\<And>fs f w. shown fs w \<Longrightarrow> \<exists>w'. consumer (vf_payload f) (vf_source_elapsed_ms f) w = (Returned (), w') \<and> shown (fs @ [f]) w'"
    and "shown fs w" and "bridge_did b0 fs b"
    and "\<forall>f \<in> set gs. video_frame_ok (bd_max_frame_bytes b0) (vf_payload f) (vf_source_elapsed_ms f)"
    and "len (fs @ gs) \<le> bd_max_frames b0" and "len gs \<le> bd_max_frames_per_packet b0"
  shows "\<exists>b' w'. emit_frames consumer (map Inst gs) b w = (Inr (), b', w') \<and> shown (fs @ gs) w' \<and> bridge_did b0 (fs @ gs) b'"
proof -
  have "bd_max_frames_per_packet b = bd_max_frames_per_packet b0" using assms(3) by (simp add: bridge_did_def bridge_during_def)
  with assms(6) emit_loop_shows [OF assms(1-5)] show ?thesis by (simp add: emit_frames_def)
qed

lemma bridge_returns:
  assumes w: "works items pc dec consumer D F shown"
    and l: "frames_within_limits (bd_max_frames b0) (bd_max_frames_per_packet b0) (bd_max_frame_bytes b0) items D F"
  shows "all_return items (\<lambda>xs (b, err, w). shown xs (frames_of D xs) w \<and> bridge_did b0 (frames_of D xs) b \<and> err = None)
    (lift_pacing pc) (packet_consumer expired dec consumer)"
proof -
  have packet: "\<exists>s'. packet_consumer expired dec consumer (sp_packet x) (sp_source_elapsed_ms x) (b, None, v) = (Returned (), s') \<and>
      (\<lambda>(b, err, w). shown (xs @ [x]) (frames_of D (xs @ [x])) w \<and> bridge_did b0 (frames_of D (xs @ [x])) b \<and> err = None) s'"
    if sh: "shown xs (frames_of D xs) v" and did: "bridge_did b0 (frames_of D xs) b" and pre: "prefix (xs @ [x]) items" for xs x b v
  proof -
    obtain v1 where d: "dec_decode dec (sp_packet x) (sp_source_elapsed_ms x) v = (Returned (map Inst (D xs x)), v1)"
      "shown (xs @ [x]) (frames_of D xs) v1" using worksD(5) [OF w sh pre] by blast
    have step: "\<exists>w'. consumer (vf_payload f) (vf_source_elapsed_ms f) w2 = (Returned (), w') \<and> shown (xs @ [x]) (fs @ [f]) w'"
      if "shown (xs @ [x]) fs w2" for fs f w2 using worksD(4) [OF w that] .
    from frames_of_prefix [OF pre, of D] have p: "prefix (frames_of D xs @ D xs x) (frames_of D items)" by (simp add: frames_of_snoc)
    then have "set (D xs x) \<subseteq> set (frames_of D items)" by (auto simp: prefix_def)
    with l have ok: "\<forall>f \<in> set (D xs x). video_frame_ok (bd_max_frame_bytes b0) (vf_payload f) (vf_source_elapsed_ms f)"
      by (auto simp: frames_within_limits_def)
    from prefix_length_le [OF p] l have n: "len (frames_of D xs @ D xs x) \<le> bd_max_frames b0" by (simp add: frames_within_limits_def)
    from l pre have m: "len (D xs x) \<le> bd_max_frames_per_packet b0" by (simp add: frames_within_limits_def)
    from emit_frames_shows [where shown = "shown (xs @ [x])" and consumer = consumer, OF step d(2) did ok n m] d(1) show ?thesis
      by (auto simp: packet_consumer_def bridge_decode_def boundary_def frames_of_snoc)
  qed
  let ?calm = "\<lambda>xs (b, err, w). shown xs (frames_of D xs) w \<and> bridge_did b0 (frames_of D xs) b \<and> err = None"
  have clock: "\<exists>t s'. pc_clock (lift_pacing pc) s = (Some t, s') \<and> ?calm xs s'" if c: "?calm xs s" for xs s
  proof -
    obtain b v where s: "s = (b, None, v)" "shown xs (frames_of D xs) v" "bridge_did b0 (frames_of D xs) b" using c by (cases s) auto
    with worksD(1) [OF w s(2)] show ?thesis by (auto simp: lift_pacing_def)
  qed
  have sleep: "\<exists>s'. pc_sleep (lift_pacing pc) r s = (Returned (), s') \<and> ?calm xs s'" if c: "?calm xs s" for xs r s
  proof -
    obtain b v where s: "s = (b, None, v)" "shown xs (frames_of D xs) v" "bridge_did b0 (frames_of D xs) b" using c by (cases s) auto
    with worksD(2) [OF w s(2), of r] show ?thesis by (auto simp: lift_pacing_def)
  qed
  have wait: "\<exists>s'. wait s = (Returned (), s') \<and> ?calm xs s'" if c: "?calm xs s" and a: "pc_admit (lift_pacing pc) = Some wait" for xs s wait
  proof -
    obtain b v where s: "s = (b, None, v)" "shown xs (frames_of D xs) v" "bridge_did b0 (frames_of D xs) b" using c by (cases s) auto
    with worksD(3) [OF w s(2)] a show ?thesis by (fastforce simp: lift_pacing_def)
  qed
  have take: "\<exists>s'. packet_consumer expired dec consumer (sp_packet x) (sp_source_elapsed_ms x) s = (Returned (), s') \<and> ?calm (xs @ [x]) s'"
    if c: "?calm xs s" and pre: "prefix (xs @ [x]) items" for xs x s
  proof -
    obtain b v where s: "s = (b, None, v)" "shown xs (frames_of D xs) v" "bridge_did b0 (frames_of D xs) b" using c by (cases s) auto
    from packet [OF s(2,3) pre] show ?thesis unfolding s(1) .
  qed
  show ?thesis
    unfolding all_return_def
    by (intro conjI allI impI) (rule clock, assumption, rule sleep, assumption, rule wait, assumption+, rule take, assumption+)
qed

text \<open>
  C2: playback from the file to the frames. If a recording matches its descriptor, no packet's RTP
  timestamp regresses (it is less than \<open>2 ^ 31\<close> ticks after that of the packet before it, modulo
  \<open>2 ^ 32\<close>; otherwise the timeline raises \<open>TIMESTAMP_REGRESSION\<close>), the decoder, the
  consumer and the pacing do not fail, and the decoder's output respects the configured limits, then
  the run returns; the consumer was shown exactly the frames the decoder makes of the packets of the
  window, in order, followed by those of the flush; the decoder was closed; and the snapshot counts
  the frames and their bytes and says that the recording was verified. The clock and the rounding do
  not matter.
\<close>

theorem bridge_shows_the_recording:
  assumes "bridge_init d (Inst start) (Inst stop) cd (Inst rate) mp mf mfp mfb t1 t2 t3 t4 = Inr b"
    and "describes d ps" and "smooth ps" and "items = window_packets d start stop rate ps"
    and "works items pc dec consumer D F shown" and "frames_within_limits mf mfp mfb items D F" and "shown [] [] w"
  shows "\<exists>sn b' w'. bridge_run fl pc (recording_of ps) cf expired dec consumer b w = (Inr sn, b', w') \<and>
    shown items (frames_of D items @ F) w' \<and> pds_decoded_frames sn = len (frames_of D items @ F) \<and>
    pds_decoded_bytes sn = len (concat (map vf_payload (frames_of D items @ F))) \<and>
    pds_pump_delivered_packets sn = len items \<and> pds_descriptor_verified sn"
proof -
  let ?b = "b\<lparr>bd_state := Decode_RUNNING\<rparr>"
  from assms(1) have init: "pump_init d (Inst start) (Inst stop) (Inst rate) mp t3 = Inr (bd_pump ?b)"
    and b: "bridge_during ?b ?b" "bd_state b = Decode_CREATED" and lim: "bd_max_frames ?b = mf" "bd_max_frame_bytes ?b = mfb"
      "bd_max_frames_per_packet ?b = mfp" "mf \<le> 1000000" by (rule bridge_initE; simp)+
  from assms(1) have did: "bridge_did ?b [] ?b"
    by (auto simp: bridge_init_def bridge_did_def bridge_during_def split: if_splits sum.splits)
  let ?calm = "\<lambda>xs (b1, err, w). shown xs (frames_of D xs) w \<and> bridge_did ?b (frames_of D xs) b1 \<and> err = None"
  from bridge_returns [OF assms(5), of ?b] assms(6) lim
  have ret: "all_return (window_packets d start stop rate ps) ?calm (lift_pacing pc) (packet_consumer expired dec consumer)"
    by (simp add: assms(4))
  have "?calm [] (?b, None, w)" using assms(7) did by simp
  from pump_run_completes [OF init assms(2,3) ret this, of cf fl] obtain sn p b1 err w1
    where pump: "pump_run fl (lift_pacing pc) (recording_of ps) cf (packet_consumer expired dec consumer) (bd_pump ?b) (?b, None, w) =
        (Inr sn, p, b1, err, w1)" and calm: "shown items (frames_of D items) w1" "bridge_did ?b (frames_of D items) b1"
      and sn: "pps_delivered_packets sn = len items" "pps_descriptor_verified sn" by (auto simp: assms(4))
  obtain w2 where f: "dec_flush dec w1 = (Returned (map Inst F), w2)" "shown items (frames_of D items) w2"
    using worksD(6) [OF assms(5) calm(1)] by blast
  have did1: "bridge_did ?b (frames_of D items) (b1\<lparr>bd_pump := p\<rparr>)"
    using calm(2) by (simp add: bridge_did_def bridge_during_pump)
  have step: "\<exists>w'. consumer (vf_payload f) (vf_source_elapsed_ms f) w2 = (Returned (), w') \<and> shown items (fs @ [f]) w'"
    if "shown items fs w2" for fs f w2 using worksD(4) [OF assms(5) that] .
  from assms(6) lim have ok: "\<forall>f \<in> set F. video_frame_ok (bd_max_frame_bytes ?b) (vf_payload f) (vf_source_elapsed_ms f)"
    "len (frames_of D items @ F) \<le> bd_max_frames ?b" "len F \<le> bd_max_frames_per_packet ?b" by (auto simp: frames_within_limits_def)
  from emit_frames_shows [where shown = "shown items" and consumer = consumer, OF step f(2) did1 ok] obtain b2 w3
    where e: "emit_frames consumer (map Inst F) (b1\<lparr>bd_pump := p\<rparr>) w2 = (Inr (), b2, w3)"
      "shown items (frames_of D items @ F) w3" "bridge_did ?b (frames_of D items @ F) b2" by blast
  obtain w4 where c: "dec_close dec w3 = (Returned (), w4)" "shown items (frames_of D items @ F) w4"
    using worksD(7) [OF assms(5) e(2)] by blast
  let ?b3 = "b2\<lparr>bd_pump_delivered_packets := pps_delivered_packets sn, bd_descriptor_verified := pps_descriptor_verified sn,
    bd_state := Decode_COMPLETE\<rparr>"
  have "bridge_body fl pc (recording_of ps) cf expired dec consumer ?b w = (bridge_snapshot ?b3, False, ?b3, w3)"
    using pump f(1) e(1) by (simp add: bridge_body_def bridge_flush_def boundary_def Let_def)
  then have "bridge_run fl pc (recording_of ps) cf expired dec consumer b w = (bridge_snapshot ?b3, ?b3, w4)"
    using b(2) c(1) by (simp add: bridge_run_def close_decoder_def boundary_def)
  moreover have "\<exists>sn'. bridge_snapshot ?b3 = Inr sn' \<and> pds_decoded_frames sn' = len (frames_of D items @ F) \<and>
      pds_decoded_bytes sn' = len (concat (map vf_payload (frames_of D items @ F))) \<and>
      pds_pump_delivered_packets sn' = len items \<and> pds_descriptor_verified sn'"
    using e(3) sn lim ok(2) by (simp add: bridge_snapshot_def bridge_did_def bridge_during_def)
  ultimately show ?thesis using c(2) by auto
qed

text \<open>
  The decoder of the example makes one frame of each packet, the packet itself, and none when flushed;
  the world is the frames shown.
\<close>

definition plain_decoder :: "(byte list \<times> int) list playback_decoder" where
  "plain_decoder = \<lparr>dec_decode = (\<lambda>x e w. (Returned [Inst \<lparr>vf_payload = x, vf_source_elapsed_ms = e\<rparr>], w)),
     dec_flush = (\<lambda>w. (Returned [], w)), dec_close = (\<lambda>w. (Returned (), w))\<rparr>"

definition plain_pacing :: "(byte list \<times> int) list pacing" where
  "plain_pacing = \<lparr>pc_clock = (\<lambda>w. (Some 0, w)), pc_sleep = (\<lambda>r w. (Returned (), w)), pc_admit = None\<rparr>"

definition plain_consumer :: "(byte list \<times> int) list frame_consumer" where
  "plain_consumer x e w = (Returned (), w @ [(x, e)])"

definition sample_bridge :: bridge where
  "sample_bridge = \<lparr>bd_pump = sample_pump, bd_max_frames = 10, bd_max_frames_per_packet = 1, bd_max_frame_bytes = 100,
     bd_state = Decode_CREATED, bd_decoded_frames = 0, bd_decoded_bytes = 0, bd_source_span_ms = 0,
     bd_pump_delivered_packets = 0, bd_descriptor_verified = False\<rparr>"

lemma sample_bridge_init:
  "bridge_init sample_recording (Inst 0) (Inst 500) True (Inst DOUBLE) 4 10 1 100 1 1 1 1 = Inr sample_bridge"
  by (simp add: bridge_init_def sample_pump_init sample_bridge_def)

lemma sample_items: "window_packets sample_recording 0 500 DOUBLE [sample_packet] =
  [\<lparr>sp_packet = sample_packet, sp_ordinal = 0, sp_source_elapsed_ms = 0, sp_due_ms = 0\<rparr>]"
  by (simp add: window_packets_def timed_def scheduled_def due_at_def)

theorem bridge_shows_the_recording_witness:
  "\<exists>sn b' w'. bridge_run (\<lambda>x. x) plain_pacing (recording_of [sample_packet]) False (\<lambda>_. False) plain_decoder plain_consumer
     sample_bridge [] = (Inr sn, b', w') \<and> w' = [(sample_packet, 0)] \<and> pds_decoded_frames sn = 1 \<and> pds_descriptor_verified sn"
proof -
  let ?items = "window_packets sample_recording 0 500 DOUBLE [sample_packet]"
    and ?D = "\<lambda>xs x. [\<lparr>vf_payload = sp_packet x, vf_source_elapsed_ms = sp_source_elapsed_ms x\<rparr>]"
    and ?shown = "\<lambda>xs fs w. w = map (\<lambda>f. (vf_payload f, vf_source_elapsed_ms f)) fs"
  have "smooth [sample_packet]" by (simp add: smooth_def)
  moreover have "works ?items plain_pacing plain_decoder plain_consumer ?D [] ?shown"
    by (simp add: works_def plain_pacing_def plain_decoder_def plain_consumer_def)
  moreover have frames: "frames_of ?D ?items = [\<lparr>vf_payload = sample_packet, vf_source_elapsed_ms = 0\<rparr>]"
    by (simp add: frames_of_def sample_items)
  then have "frames_within_limits 10 1 100 ?items ?D []"
    by (simp add: frames_within_limits_def video_frame_ok_def sample_packet_ok)
  ultimately have "\<exists>sn b' w'. bridge_run (\<lambda>x. x) plain_pacing (recording_of [sample_packet]) False (\<lambda>_. False) plain_decoder plain_consumer
      sample_bridge [] = (Inr sn, b', w') \<and> ?shown ?items (frames_of ?D ?items @ []) w' \<and>
    pds_decoded_frames sn = len (frames_of ?D ?items @ []) \<and>
    pds_decoded_bytes sn = len (concat (map vf_payload (frames_of ?D ?items @ []))) \<and>
    pds_pump_delivered_packets sn = len ?items \<and> pds_descriptor_verified sn"
    by (intro bridge_shows_the_recording [OF sample_bridge_init sample_describes _ refl]) simp_all
  then show ?thesis by (auto simp: frames)
qed

theorem bridge_outcomes_witness:
  "\<exists>r b' w'. bridge_run (\<lambda>x. x) plain_pacing None False (\<lambda>_. False) plain_decoder plain_consumer sample_bridge [] = (r, b', w') \<and>
     bridge_outcome_ok r b' \<and> bd_state b' = Decode_FAILED"
proof -
  obtain r b' w' where run: "bridge_run (\<lambda>x. x) plain_pacing None False (\<lambda>_. False) plain_decoder plain_consumer sample_bridge [] = (r, b', w')"
    by (metis prod_cases3)
  have "bd_state (fst (snd (bridge_run (\<lambda>x. x) plain_pacing None False (\<lambda>_. False) plain_decoder plain_consumer sample_bridge []))) = Decode_FAILED"
    by code_simp
  with run have "bd_state b' = Decode_FAILED" by simp
  moreover from conjunct1 [OF bridge_outcomes [OF sample_bridge_init sample_fields_ok run]] have "bridge_outcome_ok r b'" .
  ultimately show ?thesis using run by (intro exI conjI)
qed

lemma bridge_delivers_valid_frames_witness:
  "bridge_run (\<lambda>x. x) plain_pacing None False (\<lambda>_. False) plain_decoder (\<lambda>x e w. if x = [] then (Raised, w) else plain_consumer x e w)
     sample_bridge [] =
   bridge_run (\<lambda>x. x) plain_pacing None False (\<lambda>_. False) plain_decoder plain_consumer sample_bridge []"
  by (rule bridge_delivers_valid_frames [OF sample_bridge_init]) auto

end
