(* ===== verification/Playback_Session.thy ===== *)
theory Playback_Session
  imports Playback_Decode
begin

text \<open>
  \<open>src/src/k5vision/media/playback_session.py\<close>: \<open>BoundedPlaybackSession\<close> makes a decoder and runs the
  decoder boundary with it. The decoder factory, given or the native one, is an argument.
\<close>

section \<open>State\<close>

datatype playback_session_state = Session_CREATED | Session_RUNNING | Session_COMPLETE | Session_CANCELLED | Session_FAILED

datatype playback_session_error_code =
    Session_INVALID_STATE
  | Session_UNSUPPORTED_CODEC
  | Session_DECODER_INIT_FAILURE
  | Session_COMPOSITION_FAILURE
  | Session_DECODE_FAILURE

datatype playback_session_exn =
    PlaybackSessionError playback_session_error_code "decode_error_code option"
  | Session_Raw python_exn

record playback_session_snapshot =
  pss_state :: playback_session_state
  pss_decoder_initialized :: bool
  pss_decoded_frames :: int
  pss_decoded_bytes :: int
  pss_source_span_ms :: int
  pss_delivered_packets :: int
  pss_descriptor_verified :: bool

text \<open>The arguments the session passes on to the boundary.\<close>

record session_config =
  sc_descriptor :: recording_descriptor
  sc_start_ms :: "int dyn"
  sc_end_ms :: "int dyn"
  sc_rate :: "playback_rate dyn"
  sc_max_packets :: int
  sc_max_frames :: int
  sc_max_frames_per_packet :: int
  sc_max_frame_bytes :: int
  sc_decoder_timeout :: rat
  sc_frame_consumer_timeout :: rat
  sc_pump_consumer_timeout :: rat
  sc_cleanup_timeout :: rat

record playback_session =
  ps_config :: session_config
  ps_state :: playback_session_state
  ps_decoder_initialized :: bool
  ps_decoded_frames :: int
  ps_decoded_bytes :: int
  ps_source_span_ms :: int
  ps_delivered_packets :: int
  ps_descriptor_verified :: bool

definition playback_session_init :: "session_config \<Rightarrow> playback_session_exn + playback_session" where
  "playback_session_init c =
     (if rd_codec (sc_descriptor c) \<noteq> H264 then Inl (PlaybackSessionError Session_UNSUPPORTED_CODEC None)
      else Inr \<lparr>ps_config = c, ps_state = Session_CREATED, ps_decoder_initialized = False, ps_decoded_frames = 0,
                ps_decoded_bytes = 0, ps_source_span_ms = 0, ps_delivered_packets = 0, ps_descriptor_verified = False\<rparr>)"

definition playback_session_snapshot :: "playback_session \<Rightarrow> playback_session_exn + playback_session_snapshot" where
  "playback_session_snapshot s =
     (if 0 \<le> ps_decoded_frames s \<and> 0 \<le> ps_decoded_bytes s \<and> 0 \<le> ps_source_span_ms s \<and> 0 \<le> ps_delivered_packets s
      then Inr \<lparr>pss_state = ps_state s, pss_decoder_initialized = ps_decoder_initialized s,
                pss_decoded_frames = ps_decoded_frames s, pss_decoded_bytes = ps_decoded_bytes s,
                pss_source_span_ms = ps_source_span_ms s, pss_delivered_packets = ps_delivered_packets s,
                pss_descriptor_verified = ps_descriptor_verified s\<rparr>
      else Inl (Session_Raw Py_ValidationError))"

section \<open>Running\<close>

text \<open>The factory raises (\<open>None\<close>), or returns an object with the three methods or without.\<close>

type_synonym 'w decoder_factory = "int \<Rightarrow> 'w \<Rightarrow> 'w playback_decoder dyn option \<times> 'w"

definition new_decoder ::
  "'w decoder_factory \<Rightarrow> playback_session \<Rightarrow> 'w \<Rightarrow> (playback_session_exn + 'w playback_decoder) \<times> playback_session \<times> 'w" where
  "new_decoder factory s w =
     (case factory (rd_payload_type (sc_descriptor (ps_config s))) w of
        (None, w1) \<Rightarrow> (Inl (PlaybackSessionError Session_DECODER_INIT_FAILURE None), s, w1)
      | (Some NotInst, w1) \<Rightarrow> (Inl (PlaybackSessionError Session_DECODER_INIT_FAILURE None), s, w1)
      | (Some (Inst dec), w1) \<Rightarrow> (Inr dec, s\<lparr>ps_decoder_initialized := True\<rparr>, w1))"

definition close_unbound_decoder :: "'w playback_decoder \<Rightarrow> 'w \<Rightarrow> 'w" where
  "close_unbound_decoder dec w = snd (dec_close dec w)"

definition session_bridge :: "session_config \<Rightarrow> decode_exn + bridge" where
  "session_bridge c =
     bridge_init (sc_descriptor c) (sc_start_ms c) (sc_end_ms c) True (sc_rate c) (sc_max_packets c) (sc_max_frames c)
       (sc_max_frames_per_packet c) (sc_max_frame_bytes c) (sc_decoder_timeout c) (sc_frame_consumer_timeout c)
       (sc_pump_consumer_timeout c) (sc_cleanup_timeout c)"

definition playback_session_run ::
  "(rat \<Rightarrow> rat) \<Rightarrow> 'w pacing \<Rightarrow> (byte list \<times> nat option) option \<Rightarrow> bool \<Rightarrow> ('w \<Rightarrow> bool) \<Rightarrow> 'w decoder_factory \<Rightarrow>
   'w frame_consumer \<Rightarrow> playback_session \<Rightarrow> 'w \<Rightarrow>
   (playback_session_exn + playback_session_snapshot) \<times> playback_session \<times> 'w" where
  "playback_session_run fl pc opened close_fails expired factory consumer s w =
     (if ps_state s \<noteq> Session_CREATED then (Inl (PlaybackSessionError Session_INVALID_STATE None), s, w)
      else case new_decoder factory (s\<lparr>ps_state := Session_RUNNING\<rparr>) w of
        (Inl e, s1, w1) \<Rightarrow> (Inl e, s1\<lparr>ps_state := Session_FAILED\<rparr>, w1)
      | (Inr dec, s1, w1) \<Rightarrow>
          (case session_bridge (ps_config s1) of
             Inl e \<Rightarrow> (Inl (PlaybackSessionError Session_COMPOSITION_FAILURE None), s1\<lparr>ps_state := Session_FAILED\<rparr>,
                      close_unbound_decoder dec w1)
           | Inr b \<Rightarrow>
               (case bridge_run fl pc opened close_fails expired dec consumer b w1 of
                  (Inl (PlaybackDecodeError code i), b1, w2) \<Rightarrow>
                    (Inl (PlaybackSessionError Session_DECODE_FAILURE (Some code)), s1\<lparr>ps_state := Session_FAILED\<rparr>, w2)
                | (Inl (Decode_Raw x), b1, w2) \<Rightarrow>
                    (Inl (Session_Raw x), (if x = Py_CancelledError then s1\<lparr>ps_state := Session_CANCELLED\<rparr> else s1), w2)
                | (Inr result, b1, w2) \<Rightarrow>
                    (let s2 = s1\<lparr>ps_decoded_frames := pds_decoded_frames result, ps_decoded_bytes := pds_decoded_bytes result,
                                ps_source_span_ms := pds_source_span_ms result,
                                ps_delivered_packets := pds_pump_delivered_packets result,
                                ps_descriptor_verified := pds_descriptor_verified result, ps_state := Session_COMPLETE\<rparr>
                     in (playback_session_snapshot s2, s2, w2)))))"

section \<open>Correctness\<close>

text \<open>Which exception goes with which state.\<close>

definition session_outcome_ok :: "playback_session_exn + playback_session_snapshot \<Rightarrow> playback_session \<Rightarrow> bool" where
  "session_outcome_ok r s \<longleftrightarrow>
     (case r of
        Inr sn \<Rightarrow> ps_state s = Session_COMPLETE \<and> ps_descriptor_verified s \<and> playback_session_snapshot s = Inr sn
      | Inl (PlaybackSessionError code i) \<Rightarrow> ps_state s = Session_FAILED \<and> \<not> ps_descriptor_verified s
      | Inl (Session_Raw x) \<Rightarrow> x = Py_CancelledError \<and> ps_state s = Session_CANCELLED \<and> \<not> ps_descriptor_verified s)"

lemma session_bridgeD:
  assumes "session_bridge c = Inr b"
  obtains start stop rate where "bridge_init (sc_descriptor c) (Inst start) (Inst stop) True (Inst rate) (sc_max_packets c) (sc_max_frames c)
    (sc_max_frames_per_packet c) (sc_max_frame_bytes c) (sc_decoder_timeout c) (sc_frame_consumer_timeout c)
    (sc_pump_consumer_timeout c) (sc_cleanup_timeout c) = Inr b"
proof (cases "sc_start_ms c"; cases "sc_end_ms c"; cases "sc_rate c")
  fix start stop rate
  assume "sc_start_ms c = Inst start" "sc_end_ms c = Inst stop" "sc_rate c = Inst rate"
  with assms that show thesis by (simp add: session_bridge_def)
qed (use assms in \<open>auto simp: session_bridge_def bridge_init_def pump_init_def schedule_init_def window_init_def navigator_init_def
      split: if_splits sum.splits dyn.splits\<close>)

text \<open>
  How a playback session can end, whatever the file, the decoder factory, the decoder and the
  consumer do: it returns only in state \<open>COMPLETE\<close> with the recording verified; every sanitized
  error leaves \<open>FAILED\<close>, a cancellation \<open>CANCELLED\<close>, both with nothing verified; no other exception
  escapes; and a second run is refused and changes nothing.
\<close>

lemma session_outcomes:
  assumes "playback_session_init c = Inr s" and "descriptor_fields_ok (sc_descriptor c)"
    and "playback_session_run fl pc opened cf expired factory consumer s w = (r, s', w')"
  shows "session_outcome_ok r s' \<and>
    playback_session_run fl pc opened cf expired factory consumer s' w2 =
      (Inl (PlaybackSessionError Session_INVALID_STATE None), s', w2)"
proof -
  from assms(1) have s: "ps_state s = Session_CREATED" "\<not> ps_descriptor_verified s" "ps_config s = c"
    by (auto simp: playback_session_init_def split: if_splits)
  let ?s = "s\<lparr>ps_state := Session_RUNNING\<rparr>"
  obtain d s1 w1 where new: "new_decoder factory ?s w = (d, s1, w1)" by (metis prod_cases3)
  have s1: "ps_config s1 = c" "\<not> ps_descriptor_verified s1"
    using new s by (auto simp: new_decoder_def split: prod.splits option.splits dyn.splits)
  have "session_outcome_ok r s'"
  proof (cases d)
    case (Inl e)
    then have "e = PlaybackSessionError Session_DECODER_INIT_FAILURE None"
      using new by (auto simp: new_decoder_def split: prod.splits option.splits dyn.splits)
    with assms(3) s new Inl s1 show ?thesis by (auto simp: playback_session_run_def session_outcome_ok_def)
  next
    case (Inr dec)
    show ?thesis
    proof (cases "session_bridge c")
      case Inl': (Inl e)
      with assms(3) s new Inr s1 show ?thesis by (auto simp: playback_session_run_def session_outcome_ok_def)
    next
      case b: (Inr b)
      then obtain start stop rate where init: "bridge_init (sc_descriptor c) (Inst start) (Inst stop) True (Inst rate) (sc_max_packets c)
        (sc_max_frames c) (sc_max_frames_per_packet c) (sc_max_frame_bytes c) (sc_decoder_timeout c) (sc_frame_consumer_timeout c)
        (sc_pump_consumer_timeout c) (sc_cleanup_timeout c) = Inr b" by (rule session_bridgeD)
      obtain br b1 w2 where run: "bridge_run fl pc opened cf expired dec consumer b w1 = (br, b1, w2)" by (metis prod_cases3)
      from bridge_run_outcomes [OF init assms(2) run] have "bridge_outcome_ok br b1" by blast
      with assms(3) s new Inr b run s1 show ?thesis
        by (cases br; (rename_tac e, case_tac e)?)
          (auto simp: playback_session_run_def session_outcome_ok_def bridge_outcome_ok_def bridge_snapshot_def
            playback_session_snapshot_def Let_def split: if_splits)
    qed
  qed
  moreover from this have "ps_state s' \<noteq> Session_CREATED"
    by (auto simp: session_outcome_ok_def split: sum.splits playback_session_exn.splits)
  ultimately show ?thesis by (simp add: playback_session_run_def)
qed

text \<open>
  A session releases its decoder. Once the factory has returned one, every run ends with closing
  it, exactly once, whether the boundary could be composed or not and however playing went.
\<close>

lemma session_releases_its_decoder:
  assumes "ps_state s = Session_CREATED"
  shows "\<exists>w1. \<forall>close. snd (snd (playback_session_run fl pc opened cf expired
      (\<lambda>pt v. (Some (Inst (dec\<lparr>dec_close := close\<rparr>)), v)) consumer s w)) = snd (close w1)"
proof (cases "session_bridge (ps_config s)")
  case (Inl e)
  with assms show ?thesis
    by (auto simp: playback_session_run_def new_decoder_def close_unbound_decoder_def)
next
  case (Inr b)
  then have "bd_state b = Decode_CREATED" by (auto simp: session_bridge_def bridge_init_def split: if_splits sum.splits)
  from bridge_run_closes_once [OF this, of fl pc opened cf expired dec consumer w] obtain w1
    where "\<forall>close. snd (snd (bridge_run fl pc opened cf expired (dec\<lparr>dec_close := close\<rparr>) consumer b w)) = snd (close w1)" by blast
  moreover have "snd (snd (playback_session_run fl pc opened cf expired (\<lambda>pt v. (Some (Inst (dec\<lparr>dec_close := close\<rparr>)), v)) consumer s w)) =
      snd (snd (bridge_run fl pc opened cf expired (dec\<lparr>dec_close := close\<rparr>) consumer b w))" for close
    using assms Inr by (auto simp: playback_session_run_def new_decoder_def Let_def split: sum.splits decode_exn.splits prod.splits)
  ultimately show ?thesis by auto
qed

definition sample_config :: session_config where
  "sample_config = \<lparr>sc_descriptor = sample_recording, sc_start_ms = Inst 0, sc_end_ms = Inst 500, sc_rate = Inst DOUBLE,
     sc_max_packets = 4, sc_max_frames = 10, sc_max_frames_per_packet = 1, sc_max_frame_bytes = 100,
     sc_decoder_timeout = 1, sc_frame_consumer_timeout = 1, sc_pump_consumer_timeout = 1, sc_cleanup_timeout = 1\<rparr>"

definition sample_session :: playback_session where
  "sample_session = \<lparr>ps_config = sample_config, ps_state = Session_CREATED, ps_decoder_initialized = False, ps_decoded_frames = 0,
     ps_decoded_bytes = 0, ps_source_span_ms = 0, ps_delivered_packets = 0, ps_descriptor_verified = False\<rparr>"

lemma sample_session_init: "playback_session_init sample_config = Inr sample_session"
  by (simp add: playback_session_init_def sample_config_def sample_session_def sample_recording_def sample_descriptor_def)

lemma session_outcomes_witness:
  "\<exists>r s' w'. playback_session_run (\<lambda>x. x) plain_pacing None False (\<lambda>_. False) (\<lambda>_ w. (None, w)) plain_consumer sample_session [] = (r, s', w') \<and>
     session_outcome_ok r s' \<and> ps_state s' = Session_FAILED"
proof -
  let ?run = "playback_session_run (\<lambda>x. x) plain_pacing None False (\<lambda>_. False) (\<lambda>_ w. (None, w)) plain_consumer sample_session []"
  obtain r s' w' where run: "?run = (r, s', w')" by (metis prod_cases3)
  have "ps_state (fst (snd ?run)) = Session_FAILED"
    by (simp add: playback_session_run_def sample_session_def new_decoder_def)
  with run have "ps_state s' = Session_FAILED" by simp
  moreover have "descriptor_fields_ok (sc_descriptor sample_config)" using sample_fields_ok by (simp add: sample_config_def)
  from conjunct1 [OF session_outcomes [OF sample_session_init this run]] have "session_outcome_ok r s'" .
  ultimately show ?thesis using run by (intro exI conjI)
qed

lemma session_releases_its_decoder_witness:
  "\<exists>w1. \<forall>close. snd (snd (playback_session_run (\<lambda>x. x) plain_pacing None False (\<lambda>_. False)
     (\<lambda>pt v. (Some (Inst (plain_decoder\<lparr>dec_close := close\<rparr>)), v)) plain_consumer sample_session [])) = snd (close w1)"
  by (rule session_releases_its_decoder) (simp add: sample_session_def)

end
