(* ===== verification/Rtp_Delivery.thy ===== *)
theory Rtp_Delivery
  imports Rtp_Packet One_Shot
begin

text \<open>
  \<open>src/src/k5vision/media/rtp_delivery.py\<close>: \<open>EphemeralRtpDelivery\<close> starts a relay that sends RTP to a
  local UDP socket and hands a bounded number of well-formed packets to a consumer. The relay, the
  socket, the clock and the consumer work on the world \<open>'w\<close>.
\<close>

section \<open>State\<close>

datatype rtp_delivery_error_code = Delivery_TIMEOUT | Delivery_RUNTIME_FAILURE | Delivery_CONSUMER_FAILURE

text \<open>\<open>Delivery_Other\<close> is any other exception of the relay or the socket.\<close>

datatype rtp_delivery_exn =
    RtpDeliveryError rtp_delivery_error_code
  | Delivery_Raw python_exn
  | Delivery_Other

record rtp_delivery_result =
  dr_valid_packets :: int
  dr_invalid_packets :: int
  dr_delivered_bytes :: int
  dr_elapsed_ms :: int

record rtp_delivery =
  ed_packet_goal :: int
  ed_delivery_timeout :: rat
  ed_consumer_timeout :: rat
  ed_max_datagram_bytes :: int
  ed_receive_buffer_bytes :: int

definition rtp_delivery_init :: "int \<Rightarrow> rat \<Rightarrow> rat \<Rightarrow> int \<Rightarrow> int \<Rightarrow> rtp_delivery_exn + rtp_delivery" where
  "rtp_delivery_init goal delivery_timeout consumer_timeout max_datagram_bytes receive_buffer_bytes =
     (if \<not> (1 \<le> goal \<and> goal \<le> 4096) then Inl (Delivery_Raw Py_ValueError)
      else if \<not> (0 < delivery_timeout \<and> delivery_timeout \<le> 60) then Inl (Delivery_Raw Py_ValueError)
      else if \<not> (0 < consumer_timeout \<and> consumer_timeout \<le> 10) then Inl (Delivery_Raw Py_ValueError)
      else if \<not> (512 \<le> max_datagram_bytes \<and> max_datagram_bytes \<le> 65535) then Inl (Delivery_Raw Py_ValueError)
      else if \<not> (8192 \<le> receive_buffer_bytes \<and> receive_buffer_bytes \<le> 1048576) then Inl (Delivery_Raw Py_ValueError)
      else Inr \<lparr>ed_packet_goal = goal, ed_delivery_timeout = delivery_timeout, ed_consumer_timeout = consumer_timeout,
                ed_max_datagram_bytes = max_datagram_bytes, ed_receive_buffer_bytes = receive_buffer_bytes\<rparr>)"

text \<open>
  The socket is opened and bound, or that fails; then the relay is made for its port, or that fails.
  \<open>re_recv max timeout\<close> is the next datagram, under its time-out.
\<close>

record 'w relay_env =
  re_socket :: "int \<Rightarrow> 'w \<Rightarrow> int option \<times> 'w"
  re_make_relay :: "int \<Rightarrow> 'w \<Rightarrow> bool \<times> 'w"
  re_start :: "string \<Rightarrow> 'w \<Rightarrow> unit awaited \<times> 'w"
  re_close :: "'w \<Rightarrow> unit awaited \<times> 'w"
  re_recv :: "int \<Rightarrow> rat \<Rightarrow> 'w \<Rightarrow> byte list awaited \<times> 'w"
  re_sock_close :: "'w \<Rightarrow> 'w"
  re_monotonic :: "'w \<Rightarrow> rat \<times> 'w"

type_synonym 'w rtp_consumer = "byte list \<Rightarrow> 'w \<Rightarrow> unit awaited \<times> 'w"

definition mk_delivery_result :: "int \<Rightarrow> int \<Rightarrow> int \<Rightarrow> int \<Rightarrow> rtp_delivery_exn + rtp_delivery_result" where
  "mk_delivery_result valid invalid bytes elapsed =
     (if 1 \<le> valid \<and> valid \<le> 4096 \<and> 0 \<le> invalid \<and> invalid \<le> 4096 \<and> 1 \<le> bytes \<and> 0 \<le> elapsed \<and> elapsed \<le> 600000
      then Inr \<lparr>dr_valid_packets = valid, dr_invalid_packets = invalid, dr_delivered_bytes = bytes, dr_elapsed_ms = elapsed\<rparr>
      else Inl (Delivery_Raw Py_ValidationError))"

section \<open>Delivery\<close>

text \<open>The local counters \<open>valid_packets\<close>, \<open>invalid_packets\<close> and \<open>delivered_bytes\<close>.\<close>

record delivery_counts =
  dc_valid :: int
  dc_invalid :: int
  dc_bytes :: int

text \<open>
  One test and turn of the \<open>while\<close> loop, or the \<open>return\<close> after it: an outcome, or the counters to go on with.
\<close>

definition deliver_step ::
  "(rat \<Rightarrow> rat) \<Rightarrow> 'w relay_env \<Rightarrow> rtp_delivery \<Rightarrow> 'w rtp_consumer \<Rightarrow> rat \<Rightarrow> rat \<Rightarrow> delivery_counts \<times> 'w \<Rightarrow>
   ((rtp_delivery_exn + rtp_delivery_result) \<times> 'w) + delivery_counts \<times> 'w" where
  "deliver_step fl env ed consumer started deadline s =
     (let (c, w) = s in
      if \<not> dc_valid c < ed_packet_goal ed then
        (let (t, w1) = re_monotonic env w
         in Inl (mk_delivery_result (dc_valid c) (dc_invalid c) (dc_bytes c) (max 0 \<lfloor>fl (fl (t - started) * 1000)\<rfloor>), w1))
      else
        (let (t, w1) = re_monotonic env w; remaining = fl (deadline - t)
         in if remaining \<le> 0 then Inl (Inl (RtpDeliveryError Delivery_TIMEOUT), w1)
            else case re_recv env (ed_max_datagram_bytes ed) remaining w1 of
              (TimedOut, w2) \<Rightarrow> Inl (Inl (RtpDeliveryError Delivery_TIMEOUT), w2)
            | (Cancelled, w2) \<Rightarrow> Inl (Inl (Delivery_Raw Py_CancelledError), w2)
            | (Raised, w2) \<Rightarrow> Inl (Inl Delivery_Other, w2)
            | (Returned packet, w2) \<Rightarrow>
                (if \<not> is_rtp_v2 packet then Inr (c\<lparr>dc_invalid := dc_invalid c + 1\<rparr>, w2)
                 else case consumer packet w2 of
                   (Cancelled, w3) \<Rightarrow> Inl (Inl (Delivery_Raw Py_CancelledError), w3)
                 | (TimedOut, w3) \<Rightarrow> Inl (Inl (RtpDeliveryError Delivery_CONSUMER_FAILURE), w3)
                 | (Raised, w3) \<Rightarrow> Inl (Inl (RtpDeliveryError Delivery_CONSUMER_FAILURE), w3)
                 | (Returned _, w3) \<Rightarrow>
                     Inr (c\<lparr>dc_valid := dc_valid c + 1, dc_bytes := dc_bytes c + len packet\<rparr>, w3))))"

text \<open>The loop; \<open>None\<close> is one that never ends.\<close>

definition deliver_loop ::
  "(rat \<Rightarrow> rat) \<Rightarrow> 'w relay_env \<Rightarrow> rtp_delivery \<Rightarrow> 'w rtp_consumer \<Rightarrow> rat \<Rightarrow> rat \<Rightarrow> delivery_counts \<Rightarrow> 'w \<Rightarrow>
   ((rtp_delivery_exn + rtp_delivery_result) \<times> 'w) option" where
  "deliver_loop fl env ed consumer started deadline c w = repeat_until (deliver_step fl env ed consumer started deadline) (c, w)"

text \<open>The outer \<open>try\<close> block.\<close>

definition deliver_body ::
  "(rat \<Rightarrow> rat) \<Rightarrow> 'w relay_env \<Rightarrow> rtp_delivery \<Rightarrow> string \<Rightarrow> 'w rtp_consumer \<Rightarrow> rat \<Rightarrow> 'w \<Rightarrow>
   ((rtp_delivery_exn + rtp_delivery_result) \<times> 'w) option" where
  "deliver_body fl env ed source_uri consumer started w =
     (case re_start env source_uri w of
        (Cancelled, w1) \<Rightarrow> Some (Inl (Delivery_Raw Py_CancelledError), w1)
      | (Raised, w1) \<Rightarrow> Some (Inl (RtpDeliveryError Delivery_RUNTIME_FAILURE), w1)
      | (TimedOut, w1) \<Rightarrow> Some (Inl (RtpDeliveryError Delivery_RUNTIME_FAILURE), w1)
      | (Returned _, w1) \<Rightarrow>
          deliver_loop fl env ed consumer started (fl (started + ed_delivery_timeout ed))
            \<lparr>dc_valid = 0, dc_invalid = 0, dc_bytes = 0\<rparr> w1)"

text \<open>The \<open>finally\<close> block: what closing the relay raises replaces the outcome; the socket is closed anyway.\<close>

definition deliver_finally ::
  "'w relay_env \<Rightarrow> rtp_delivery_exn + rtp_delivery_result \<Rightarrow> 'w \<Rightarrow> (rtp_delivery_exn + rtp_delivery_result) \<times> 'w" where
  "deliver_finally env r w =
     (case re_close env w of
        (Returned _, w1) \<Rightarrow> (r, re_sock_close env w1)
      | (Cancelled, w1) \<Rightarrow> (Inl (Delivery_Raw Py_CancelledError), re_sock_close env w1)
      | (Raised, w1) \<Rightarrow> (Inl Delivery_Other, re_sock_close env w1)
      | (TimedOut, w1) \<Rightarrow> (Inl Delivery_Other, re_sock_close env w1))"

definition deliver ::
  "(rat \<Rightarrow> rat) \<Rightarrow> 'w relay_env \<Rightarrow> rtp_delivery \<Rightarrow> string \<Rightarrow> 'w rtp_consumer \<Rightarrow> 'w \<Rightarrow>
   ((rtp_delivery_exn + rtp_delivery_result) \<times> 'w) option" where
  "deliver fl env ed source_uri consumer w =
     (case re_socket env (ed_receive_buffer_bytes ed) w of
        (None, w1) \<Rightarrow> Some (Inl Delivery_Other, w1)
      | (Some port, w1) \<Rightarrow>
          (case re_make_relay env port w1 of
             (False, w2) \<Rightarrow> Some (Inl Delivery_Other, w2)
           | (True, w2) \<Rightarrow>
               (let (started, w3) = re_monotonic env w2
                in map_option (\<lambda>(r, w4). deliver_finally env r w4) (deliver_body fl env ed source_uri consumer started w3))))"

section \<open>What is delivered\<close>

text \<open>
  \<open>saw xs ys w\<close> is any record that the socket has yielded the datagrams \<open>xs\<close> and the consumer has
  taken \<open>ys\<close>.
\<close>

definition keeps_record :: "'w relay_env \<Rightarrow> 'w rtp_consumer \<Rightarrow> (byte list list \<Rightarrow> byte list list \<Rightarrow> 'w \<Rightarrow> bool) \<Rightarrow> bool" where
  "keeps_record env consumer saw \<longleftrightarrow>
     (\<forall>xs ys w. saw xs ys w \<longrightarrow> saw xs ys (snd (re_monotonic env w))) \<and>
     (\<forall>xs ys w n t p w'. saw xs ys w \<longrightarrow> re_recv env n t w = (Returned p, w') \<longrightarrow> saw (xs @ [p]) ys w') \<and>
     (\<forall>xs ys w p w'. saw xs ys w \<longrightarrow> is_rtp_v2 p \<longrightarrow> consumer p w = (Returned (), w') \<longrightarrow> saw xs (ys @ [p]) w')"

lemma keeps_recordD:
  assumes "keeps_record env consumer saw" and "saw xs ys w"
  shows "re_monotonic env w = (t, w') \<Longrightarrow> saw xs ys w'"
    and "re_recv env n d w = (Returned p, w') \<Longrightarrow> saw (xs @ [p]) ys w'"
    and "is_rtp_v2 p \<Longrightarrow> consumer p w = (Returned (), w') \<Longrightarrow> saw xs (ys @ [p]) w'"
  using assms by (auto simp: keeps_record_def) (metis snd_conv)

definition delivered :: "rtp_delivery \<Rightarrow> (byte list list \<Rightarrow> byte list list \<Rightarrow> 'w \<Rightarrow> bool) \<Rightarrow> rtp_delivery_result \<Rightarrow> 'w \<Rightarrow> bool" where
  "delivered ed saw res w \<longleftrightarrow>
     (\<exists>xs ys. ys = filter is_rtp_v2 xs \<and> saw xs ys w \<and> len ys = ed_packet_goal ed \<and> dr_valid_packets res = len ys \<and>
        dr_invalid_packets res = len xs - len ys \<and> dr_delivered_bytes res = len (concat ys))"

lemma deliver_step_delivered:
  assumes k: "keeps_record env consumer saw" and T: "saw xs ys w" and ys: "ys = filter is_rtp_v2 xs"
    and c: "dc_valid c = len ys" "dc_invalid c = len xs - len ys" "dc_bytes c = len (concat ys)" "dc_valid c \<le> ed_packet_goal ed"
  shows "case deliver_step fl env ed consumer started deadline (c, w) of
      Inl (r, w') \<Rightarrow> (\<forall>res. r = Inr res \<longrightarrow> delivered ed saw res w')
    | Inr (c', w') \<Rightarrow> (\<exists>xs' ys'. saw xs' ys' w' \<and> ys' = filter is_rtp_v2 xs' \<and> dc_valid c' = len ys' \<and>
        dc_invalid c' = len xs' - len ys' \<and> dc_bytes c' = len (concat ys') \<and> dc_valid c' \<le> ed_packet_goal ed)"
proof -
  obtain t w1 where t: "re_monotonic env w = (t, w1)" by fastforce
  from keeps_recordD(1) [OF k T t] have T1: "saw xs ys w1" .
  let ?rem = "fl (deadline - t)"
  obtain a w2 where r: "re_recv env (ed_max_datagram_bytes ed) ?rem w1 = (a, w2)" by fastforce
  consider (finish) "\<not> dc_valid c < ed_packet_goal ed" | (late) "dc_valid c < ed_packet_goal ed" "?rem \<le> 0"
    | (fails) "dc_valid c < ed_packet_goal ed" "\<not> ?rem \<le> 0" "\<forall>p. a \<noteq> Returned p"
    | (packet) p where "dc_valid c < ed_packet_goal ed" "\<not> ?rem \<le> 0" "a = Returned p" by blast
  then show ?thesis
  proof cases
    case finish
    with T1 t c ys show ?thesis
      by (auto simp: deliver_step_def delivered_def mk_delivery_result_def)
  next
    case packet
    from keeps_recordD(2) [OF k T1 r [unfolded packet(3)]] have T2: "saw (xs @ [p]) ys w2" .
    show ?thesis
    proof (cases "is_rtp_v2 p")
      case False
      with T2 t r packet c ys show ?thesis
        by (auto simp: deliver_step_def Let_def intro!: exI [of _ "xs @ [p]"])
    next
      case True
      obtain b w3 where b: "consumer p w2 = (b, w3)" by fastforce
      show ?thesis
      proof (cases b)
        case (Returned u)
        with keeps_recordD(3) [OF k T2 True] b have "saw (xs @ [p]) (ys @ [p]) w3" by simp
        with t r packet c ys True b Returned show ?thesis
          by (auto simp: deliver_step_def Let_def intro!: exI [of _ "xs @ [p]"])
      qed (use t r packet c True b in \<open>auto simp: deliver_step_def Let_def\<close>)
    qed
  qed (use t r in \<open>auto simp: deliver_step_def Let_def split: awaited.splits\<close>)
qed

lemma deliver_loop_delivered:
  assumes "keeps_record env consumer saw" and "saw [] [] w" and "0 \<le> ed_packet_goal ed"
    and "deliver_loop fl env ed consumer started deadline \<lparr>dc_valid = 0, dc_invalid = 0, dc_bytes = 0\<rparr> w = Some (Inr res, w')"
  shows "delivered ed saw res w'"
proof -
  let ?I = "\<lambda>(c :: delivery_counts, w). \<exists>xs ys. saw xs ys w \<and> ys = filter is_rtp_v2 xs \<and> dc_valid c = len ys \<and> dc_invalid c = len xs - len ys \<and>
    dc_bytes c = len (concat ys) \<and> dc_valid c \<le> ed_packet_goal ed"
  and ?Q = "\<lambda>(r :: rtp_delivery_exn + rtp_delivery_result, w). \<forall>res. r = Inr res \<longrightarrow> delivered ed saw res w"
  let ?turn = "deliver_step fl env ed consumer started deadline"
  have step: "case ?turn s of Inl y \<Rightarrow> ?Q y | Inr s' \<Rightarrow> ?I s'" if I: "?I s" for s
  proof -
    obtain c v where s: "s = (c, v)" by fastforce
    with I obtain xs ys where "saw xs ys v" "ys = filter is_rtp_v2 xs" "dc_valid c = len ys" "dc_invalid c = len xs - len ys"
      "dc_bytes c = len (concat ys)" "dc_valid c \<le> ed_packet_goal ed" by auto
    from deliver_step_delivered [OF assms(1) this, of fl started deadline] s show ?thesis
      by (auto split: sum.splits prod.splits)
  qed
  have "?Q (Inr res, w')"
  proof (rule repeat_until_result [of ?turn _ _ ?I ?Q])
    show "repeat_until ?turn (\<lparr>dc_valid = 0, dc_invalid = 0, dc_bytes = 0\<rparr>, w) = Some (Inr res, w')"
      using assms(4) by (simp add: deliver_loop_def)
    show "?I (\<lparr>dc_valid = 0, dc_invalid = 0, dc_bytes = 0\<rparr>, w)" using assms(2,3) by (auto intro!: exI [of _ "[]"])
    show "?I s'" if "?I s" "?turn s = Inr s'" for s s' using step [OF that(1)] that(2) by simp
    show "?Q y" if "?I s" "?turn s = Inl y" for s y using step [OF that(1)] that(2) by simp
  qed
  then show ?thesis by simp
qed

text \<open>Setting up delivers nothing.\<close>

definition sets_up :: "'w relay_env \<Rightarrow> (byte list list \<Rightarrow> byte list list \<Rightarrow> 'w \<Rightarrow> bool) \<Rightarrow> bool" where
  "sets_up env saw \<longleftrightarrow>
     (\<forall>w. saw [] [] w \<longrightarrow> (\<forall>n. saw [] [] (snd (re_socket env n w))) \<and> (\<forall>p. saw [] [] (snd (re_make_relay env p w))) \<and>
        (\<forall>u. saw [] [] (snd (re_start env u w))) \<and> saw [] [] (snd (re_monotonic env w)))"

lemma sets_upD:
  assumes "sets_up env saw" and "saw [] [] w"
  shows "re_socket env n w = (a, w') \<Longrightarrow> saw [] [] w'" and "re_make_relay env p w = (b, w') \<Longrightarrow> saw [] [] w'"
    and "re_start env u w = (c, w') \<Longrightarrow> saw [] [] w'" and "re_monotonic env w = (t, w') \<Longrightarrow> saw [] [] w'"
  using assms unfolding sets_up_def by (metis snd_conv)+

text \<open>
  C34: what a delivery that returns has delivered. The consumer took exactly the well-formed RTP packets
  among the datagrams that came in, in their order, as many as asked for; the result counts them, the
  datagrams passed over and the bytes; the relay was closed, and after it the socket.
\<close>

theorem delivery_hands_over_valid_packets:
  assumes "rtp_delivery_init goal t1 t2 max_bytes buffer = Inr ed" and "keeps_record env consumer saw" and "sets_up env saw"
    and "saw [] [] w" and "deliver fl env ed uri consumer w = Some (Inr res, w')"
  shows "\<exists>xs ys w1. ys = filter is_rtp_v2 xs \<and> saw xs ys w1 \<and> len ys = goal \<and> dr_valid_packets res = goal \<and>
    dr_invalid_packets res = len xs - goal \<and> dr_delivered_bytes res = len (concat ys) \<and>
    w' = re_sock_close env (snd (re_close env w1))"
proof -
  from assms(1) have goal: "ed_packet_goal ed = goal" "1 \<le> goal" by (auto simp: rtp_delivery_init_def split: if_splits)
  obtain port w1 where 1: "re_socket env (ed_receive_buffer_bytes ed) w = (port, w1)" by fastforce
  obtain made w2 where 2: "re_make_relay env (the port) w1 = (made, w2)" by fastforce
  obtain started w3 where 3: "re_monotonic env w2 = (started, w3)" by fastforce
  obtain up w4 where 4: "re_start env uri w3 = (up, w4)" by fastforce
  note sets_upD [OF assms(3)]
  with assms(4) 1 2 3 4 have w4: "saw [] [] w4" by blast
  from assms(5) 1 2 3 obtain r w5 where b: "deliver_body fl env ed uri consumer started w3 = Some (r, w5)"
      and f: "deliver_finally env r w5 = (Inr res, w')"
    by (cases port; cases made) (auto simp: deliver_def)
  from f have r: "r = Inr res" "w' = re_sock_close env (snd (re_close env w5))"
    by (auto simp: deliver_finally_def split: prod.splits awaited.splits)
  from b r(1) 4 have l: "deliver_loop fl env ed consumer started (fl (started + ed_delivery_timeout ed))
      \<lparr>dc_valid = 0, dc_invalid = 0, dc_bytes = 0\<rparr> w4 = Some (Inr res, w5)"
    by (cases up) (simp_all add: deliver_body_def)
  from deliver_loop_delivered [OF assms(2) w4 _ l] goal have "delivered ed saw res w5" by simp
  then obtain xs where "saw xs (filter is_rtp_v2 xs) w5" "len (filter is_rtp_v2 xs) = ed_packet_goal ed"
    "dr_valid_packets res = len (filter is_rtp_v2 xs)" "dr_invalid_packets res = len xs - len (filter is_rtp_v2 xs)"
    "dr_delivered_bytes res = len (concat (filter is_rtp_v2 xs))" by (auto simp: delivered_def)
  with r(2) goal show ?thesis by (intro exI [of _ xs] exI [of _ "filter is_rtp_v2 xs"] exI [of _ w5]) simp
qed

section \<open>Ending\<close>

text \<open>
  C35: a delivery ends and releases what it took. If every datagram takes at least some time \<open>e\<close> to
  arrive and the clock does not go back, a delivery comes to an end, whatever arrives and whatever the
  relay and the consumer do; and once the relay was made, it ends by closing the relay, once, and then
  the socket, once. The only thing asked of the rounding is that it does not make a time that is over
  look positive.
\<close>

theorem delivery_ends_and_releases:
  assumes clock: "\<And>w. re_monotonic env w = (now w, w)" and "0 < e"
    and recv: "\<And>n d w p w'. re_recv env n d w = (Returned p, w') \<Longrightarrow> now w + e \<le> now w'"
    and cons: "\<And>p w w'. consumer p w = (Returned (), w') \<Longrightarrow> now w \<le> now w'"
    and fl: "\<And>x. x \<le> 0 \<Longrightarrow> fl x \<le> 0"
  shows "\<exists>r w'. deliver fl env ed uri consumer w = Some (r, w') \<and>
    (\<forall>port w1 w2. re_socket env (ed_receive_buffer_bytes ed) w = (Some port, w1) \<longrightarrow> re_make_relay env port w1 = (True, w2) \<longrightarrow>
       (\<exists>w3. w' = re_sock_close env (snd (re_close env w3))))"
proof -
  have loop: "\<exists>y. deliver_loop fl env ed consumer started deadline c v = Some y" for started deadline c v
  proof -
    let ?m = "\<lambda>s. nat \<lceil>(deadline - now (snd s)) / e\<rceil>"
    have less: "?m s' < ?m s" if step: "deliver_step fl env ed consumer started deadline s = Inr s'" for s s'
    proof -
      obtain c1 v1 where s: "s = (c1, v1)" by fastforce
      from step s have pos: "\<not> fl (deadline - now v1) \<le> 0" by (auto simp: deliver_step_def clock Let_def split: if_splits)
      with fl have late: "0 < deadline - now v1" by (meson not_le)
      from step s recv cons have "now v1 + e \<le> now (snd s')"
        by (fastforce simp: deliver_step_def clock Let_def split: if_splits prod.splits awaited.splits)
      then have "(deadline - now (snd s')) / e \<le> (deadline - now v1 - e) / e"
        using assms(2) by (intro divide_right_mono) simp_all
      then have "(deadline - now (snd s')) / e \<le> (deadline - now v1) / e - 1"
        using assms(2) by (simp add: diff_divide_distrib)
      moreover from late assms(2) have "0 < (deadline - now v1) / e" by (rule divide_pos_pos)
      ultimately have "\<lceil>(deadline - now (snd s')) / e\<rceil> \<le> \<lceil>(deadline - now v1) / e\<rceil> - 1" "0 < \<lceil>(deadline - now v1) / e\<rceil>"
        by linarith+
      then show ?thesis using s by simp
    qed
    show ?thesis
      unfolding deliver_loop_def
      by (rule repeat_until_ends [of "\<lambda>_. True" _ _ ?m]) (use less in auto)
  qed
  have body: "\<exists>y. deliver_body fl env ed uri consumer started v = Some y" for started v
    using loop by (auto simp: deliver_body_def split: prod.splits awaited.splits)
  have final: "snd (deliver_finally env r v) = re_sock_close env (snd (re_close env v))" for r v
    by (auto simp: deliver_finally_def split: prod.splits awaited.splits)
  obtain port w1 where 1: "re_socket env (ed_receive_buffer_bytes ed) w = (port, w1)" by fastforce
  obtain made w2 where 2: "re_make_relay env (the port) w1 = (made, w2)" by fastforce
  from body [of "now w2" w2] obtain r w3 where b: "deliver_body fl env ed uri consumer (now w2) w2 = Some (r, w3)" by auto
  show ?thesis
  proof (cases "port = None \<or> \<not> made")
    case True
    with 1 2 show ?thesis by (cases port) (auto simp: deliver_def)
  next
    case False
    with 1 2 b have "deliver fl env ed uri consumer w = Some (deliver_finally env r w3)"
      by (auto simp: deliver_def clock)
    with final [of r w3] show ?thesis by (cases "deliver_finally env r w3") auto
  qed
qed

section \<open>Examples\<close>

text \<open>A world of the time, the datagrams still to come, those that came and those taken; each takes \<open>gap\<close> to arrive.\<close>

type_synonym queue = "rat \<times> byte list list \<times> byte list list \<times> byte list list"

definition queue_env :: "rat \<Rightarrow> queue relay_env" where
  "queue_env gap = \<lparr>re_socket = (\<lambda>n w. (Some 5004, w)), re_make_relay = (\<lambda>p w. (True, w)),
     re_start = (\<lambda>u w. (Returned (), w)), re_close = (\<lambda>w. (Returned (), w)),
     re_recv = (\<lambda>n d (t, rest, got, taken). case rest of [] \<Rightarrow> (TimedOut, t + d, [], got, taken)
        | p # ps \<Rightarrow> (Returned p, t + gap, ps, got @ [p], taken)),
     re_sock_close = (\<lambda>w. w), re_monotonic = (\<lambda>w. (fst w, w))\<rparr>"

definition queue_consumer :: "queue rtp_consumer" where
  "queue_consumer p w = (case w of (t, rest, got, taken) \<Rightarrow> (Returned (), t, rest, got, taken @ [p]))"

definition one_packet :: rtp_delivery where
  "one_packet = \<lparr>ed_packet_goal = 1, ed_delivery_timeout = 10, ed_consumer_timeout = 1, ed_max_datagram_bytes = 65535,
     ed_receive_buffer_bytes = 262144\<rparr>"

lemma one_packet_init: "rtp_delivery_init 1 10 1 65535 262144 = Inr one_packet"
  by (simp add: rtp_delivery_init_def one_packet_def)

definition small_rtp :: "byte list" where
  "small_rtp = 128 # replicate 11 0"

lemma small_rtp_ok: "is_rtp_v2 small_rtp" "length small_rtp = 12" "\<not> is_rtp_v2 []"
  by code_simp+

text \<open>Any number of datagrams that are not RTP, all there at once, and then one that is.\<close>

lemma queue_loop:
  assumes "0 < deadline - t"
  shows "deliver_loop (\<lambda>x. x) (queue_env 0) one_packet queue_consumer started deadline
      \<lparr>dc_valid = 0, dc_invalid = int k, dc_bytes = 0\<rparr> (t, replicate n [] @ [small_rtp], got, taken) =
    Some (mk_delivery_result 1 (int (k + n)) 12 (max 0 \<lfloor>(t - started) * 1000\<rfloor>), t, [], got @ replicate n [] @ [small_rtp], taken @ [small_rtp])"
proof (induction n arbitrary: k got)
  case 0
  from assms show ?case
    by (simp add: deliver_loop_def deliver_step_def queue_env_def queue_consumer_def one_packet_def small_rtp_ok
      repeat_until.simps Let_def)
next
  case (Suc n)
  have "deliver_step (\<lambda>x. x) (queue_env 0) one_packet queue_consumer started deadline
      (\<lparr>dc_valid = 0, dc_invalid = int k, dc_bytes = 0\<rparr>, t, replicate (Suc n) [] @ [small_rtp], got, taken) =
    Inr (\<lparr>dc_valid = 0, dc_invalid = int (Suc k), dc_bytes = 0\<rparr>, t, replicate n [] @ [small_rtp], got @ [[]], taken)"
    using assms by (simp add: deliver_step_def queue_env_def queue_consumer_def one_packet_def small_rtp_ok Let_def)
  with Suc [of "Suc k" "got @ [[]]"] show ?case
    unfolding deliver_loop_def repeat_until.simps [of _ "(\<lparr>dc_valid = 0, dc_invalid = int k, dc_bytes = 0\<rparr>, t, replicate (Suc n) [] @ [small_rtp], got, taken)"]
    by simp
qed

text \<open>The operations of the example, so that its runs are computed without opening the record.\<close>

lemma queue_env_simps:
  "re_socket (queue_env gap) n w = (Some 5004, w)" "re_make_relay (queue_env gap) p w = (True, w)"
  "re_start (queue_env gap) u w = (Returned (), w)" "re_close (queue_env gap) w = (Returned (), w)"
  "re_sock_close (queue_env gap) w = w" "re_monotonic (queue_env gap) w = (fst w, w)"
  "ed_delivery_timeout one_packet = 10"
  by (simp_all add: queue_env_def one_packet_def)

lemma queue_deliver: "deliver (\<lambda>x. x) (queue_env 0) one_packet uri queue_consumer (0, replicate n [] @ [small_rtp], [], []) =
  Some (mk_delivery_result 1 (int n) 12 0, 0, [], replicate n [] @ [small_rtp], [small_rtp])"
  using queue_loop [of 10 0 0 0 n "[]" "[]"]
  by (simp add: deliver_def deliver_body_def deliver_finally_def queue_env_simps)

text \<open>
  The result allows for 4096 datagrams that are not RTP, but the loop does not stop there: with more of
  them the delivery of all packets asked for fails, with the validation error of the result.
\<close>

lemma delivery_fails_after_much_noise:
  assumes "4096 < n"
  shows "\<exists>w. deliver (\<lambda>x. x) (queue_env 0) one_packet uri queue_consumer (0, replicate n [] @ [small_rtp], [], []) =
    Some (Inl (Delivery_Raw Py_ValidationError), w) \<and> snd (snd (snd w)) = [small_rtp]"
  using assms by (simp add: queue_deliver mk_delivery_result_def)

theorem delivery_hands_over_valid_packets_witness:
  "\<exists>res w'. deliver (\<lambda>x. x) (queue_env 0) one_packet [] queue_consumer (0, [[], small_rtp], [], []) = Some (Inr res, w') \<and>
     dr_valid_packets res = 1 \<and> dr_invalid_packets res = 1 \<and> dr_delivered_bytes res = 12"
proof -
  let ?saw = "\<lambda>xs ys (w :: queue). fst (snd (snd w)) = xs \<and> snd (snd (snd w)) = ys"
  from queue_deliver [of "[]" 1] have run: "deliver (\<lambda>x. x) (queue_env 0) one_packet [] queue_consumer (0, [[], small_rtp], [], []) =
    Some (Inr \<lparr>dr_valid_packets = 1, dr_invalid_packets = 1, dr_delivered_bytes = 12, dr_elapsed_ms = 0\<rparr>,
      0, [], [[], small_rtp], [small_rtp])" by (simp add: mk_delivery_result_def)
  have "keeps_record (queue_env 0) queue_consumer ?saw"
    by (auto simp: keeps_record_def queue_env_def queue_consumer_def split: list.splits)
  moreover have "sets_up (queue_env 0) ?saw" by (simp add: sets_up_def queue_env_def)
  moreover have "?saw [] [] (0, [[], small_rtp], [], [])" by simp
  ultimately have "\<exists>xs ys w1. ys = filter is_rtp_v2 xs \<and> ?saw xs ys w1 \<and> len ys = 1 \<and>
    dr_valid_packets \<lparr>dr_valid_packets = 1, dr_invalid_packets = 1, dr_delivered_bytes = 12, dr_elapsed_ms = 0\<rparr> = 1 \<and>
    dr_invalid_packets \<lparr>dr_valid_packets = 1, dr_invalid_packets = 1, dr_delivered_bytes = 12, dr_elapsed_ms = 0\<rparr> = len xs - 1 \<and>
    dr_delivered_bytes \<lparr>dr_valid_packets = 1, dr_invalid_packets = 1, dr_delivered_bytes = 12, dr_elapsed_ms = 0\<rparr> = len (concat ys) \<and>
    (0, [], [[], small_rtp], [small_rtp]) = re_sock_close (queue_env 0) (snd (re_close (queue_env 0) w1))"
    by (rule delivery_hands_over_valid_packets [OF one_packet_init _ _ _ run])
  with run show ?thesis by auto
qed

theorem delivery_ends_and_releases_witness:
  "\<exists>r w'. deliver (\<lambda>x. x) (queue_env 1) one_packet [] queue_consumer (0, [[]], [], []) = Some (r, w')"
proof -
  have "\<exists>r w'. deliver (\<lambda>x. x) (queue_env 1) one_packet [] queue_consumer (0, [[]], [], []) = Some (r, w') \<and>
    (\<forall>port w1 w2. re_socket (queue_env 1) (ed_receive_buffer_bytes one_packet) (0, [[]], [], []) = (Some port, w1) \<longrightarrow>
       re_make_relay (queue_env 1) port w1 = (True, w2) \<longrightarrow>
       (\<exists>w3. w' = re_sock_close (queue_env 1) (snd (re_close (queue_env 1) w3))))"
    by (rule delivery_ends_and_releases [where now = fst and e = 1])
      (auto simp: queue_env_def queue_consumer_def split: list.splits prod.splits)
  then show ?thesis by blast
qed

end
