(* ===== verification/User_Accounts.thy ===== *)
theory User_Accounts
  imports Utf8 One_Shot
begin

text \<open>
  \<open>src/src/k5vision/domain/users.py\<close>: the account models. The constructors apply the constraints
  of the pydantic fields, in their order: strip, lengths, pattern. A string is its list of code
  points; pydantic refuses one that is not encodable. Coercions of pydantic (a \<open>"true"\<close> for a
  \<open>bool\<close>) do not occur, since the arguments have their types here.
\<close>

type_synonym user_uuid = int

section \<open>Strings\<close>

text \<open>The white space of the Unicode standard, which pydantic strips; \<open>str.strip\<close> also strips 28 to 31.\<close>

definition is_white_space :: "nat \<Rightarrow> bool" where
  "is_white_space c \<longleftrightarrow>
     9 \<le> c \<and> c \<le> 13 \<or> c \<in> {32, 133, 160, 5760, 8232, 8233, 8239, 8287, 12288} \<or> 8192 \<le> c \<and> c \<le> 8202"

definition strip_where :: "(nat \<Rightarrow> bool) \<Rightarrow> pystr \<Rightarrow> pystr" where
  "strip_where p s = rev (dropWhile p (rev (dropWhile p s)))"

definition trim :: "pystr \<Rightarrow> pystr" where
  "trim = strip_where is_white_space"

definition py_strip :: "pystr \<Rightarrow> pystr" where
  "py_strip = strip_where (\<lambda>c. is_white_space c \<or> 28 \<le> c \<and> c \<le> 31)"

definition is_ascii_alnum :: "nat \<Rightarrow> bool" where
  "is_ascii_alnum c \<longleftrightarrow> 48 \<le> c \<and> c \<le> 57 \<or> 65 \<le> c \<and> c \<le> 90 \<or> 97 \<le> c \<and> c \<le> 122"

text \<open>The pattern \<open>[A-Za-z0-9][A-Za-z0-9._-]{lo,hi}\<close>, matched in full.\<close>

definition identifier_matches :: "int \<Rightarrow> int \<Rightarrow> pystr \<Rightarrow> bool" where
  "identifier_matches lo hi s =
     (case s of [] \<Rightarrow> False
      | c # cs \<Rightarrow> is_ascii_alnum c \<and> lo \<le> len cs \<and> len cs \<le> hi \<and>
          list_all (\<lambda>d. is_ascii_alnum d \<or> d = 46 \<or> d = 95 \<or> d = 45) cs)"

section \<open>Roles and accounts\<close>

datatype user_role = VIEWER | OPERATOR | ADMINISTRATOR

text \<open>The text of a role, and the role of a text.\<close>

fun role_value :: "user_role \<Rightarrow> string" where
  "role_value VIEWER = ''viewer''"
| "role_value OPERATOR = ''operator''"
| "role_value ADMINISTRATOR = ''administrator''"

definition user_role_of :: "string \<Rightarrow> user_role option" where
  "user_role_of t =
     (if t = ''viewer'' then Some VIEWER else if t = ''operator'' then Some OPERATOR
      else if t = ''administrator'' then Some ADMINISTRATOR else None)"

lemma user_role_of_value [simp]: "user_role_of (role_value r) = Some r"
  by (cases r) (simp_all add: user_role_of_def)

lemma user_role_of_Some: "user_role_of t = Some r \<longleftrightarrow> t = role_value r"
  by (cases r) (auto simp: user_role_of_def split: if_splits)

record user_create =
  uc_username :: pystr
  uc_display_name :: pystr
  uc_role :: user_role
  uc_enabled :: bool

record user_account = user_create +
  ua_id :: user_uuid

definition check_username :: "pystr \<Rightarrow> validation_error + pystr" where
  "check_username s =
     (let t = trim s in
      if utf8_encode s \<noteq> None \<and> 3 \<le> len t \<and> len t \<le> 64 \<and> identifier_matches 2 63 t then Inr t else Inl ValidationError)"

definition check_display_name :: "pystr \<Rightarrow> validation_error + pystr" where
  "check_display_name s =
     (let t = trim s in
      if utf8_encode s \<noteq> None \<and> 1 \<le> len t \<and> len t \<le> 128 then Inr t else Inl ValidationError)"

definition mk_user_create :: "pystr \<Rightarrow> pystr \<Rightarrow> user_role \<Rightarrow> bool \<Rightarrow> validation_error + user_create" where
  "mk_user_create username display_name role enabled =
     andThen (check_username username) (\<lambda>u. andThen (check_display_name display_name) (\<lambda>d.
       Inr \<lparr>uc_username = u, uc_display_name = d, uc_role = role, uc_enabled = enabled\<rparr>))"

definition mk_user_account :: "user_uuid \<Rightarrow> pystr \<Rightarrow> pystr \<Rightarrow> user_role \<Rightarrow> bool \<Rightarrow> validation_error + user_account" where
  "mk_user_account i username display_name role enabled =
     andThen (check_username username) (\<lambda>u. andThen (check_display_name display_name) (\<lambda>d.
       Inr \<lparr>uc_username = u, uc_display_name = d, uc_role = role, uc_enabled = enabled, ua_id = i\<rparr>))"

record user_patch =
  up_display_name :: "pystr option"
  up_role :: "user_role option"
  up_enabled :: "bool option"

definition mk_user_patch :: "pystr option \<Rightarrow> user_role option \<Rightarrow> bool option \<Rightarrow> validation_error + user_patch" where
  "mk_user_patch display_name role enabled =
     andThen (case display_name of None \<Rightarrow> Inr None | Some d \<Rightarrow> andThen (check_display_name d) (\<lambda>d'. Inr (Some d'))) (\<lambda>d.
       if d = None \<and> role = None \<and> enabled = None then Inl ValidationError
       else Inr \<lparr>up_display_name = d, up_role = role, up_enabled = enabled\<rparr>)"

section \<open>Validated values validate again\<close>

lemma rstrip_head:
  assumes "rev (dropWhile p (rev x)) = c # cs"
  shows "\<exists>ds. x = c # ds"
proof -
  have "x = rev (takeWhile p (rev x) @ dropWhile p (rev x))" by (simp only: takeWhile_dropWhile_id rev_rev_ident)
  then show ?thesis using assms by (metis append_Cons rev_append)
qed

lemma strip_where_idem [simp]: "strip_where p (strip_where p s) = strip_where p s"
proof -
  let ?d = "dropWhile p" and ?r = "\<lambda>s. rev (dropWhile p (rev s))"
  have head: "?d (?r (?d s)) = ?r (?d s)"
  proof (cases "?r (?d s)")
    case Nil
    then show ?thesis by (simp only: dropWhile.simps)
  next
    case (Cons c cs)
    from rstrip_head [OF this] obtain ds where "?d s = c # ds" by blast
    then have "\<not> p c" by (metis dropWhile_eq_Cons_conv)
    then show ?thesis unfolding Cons by simp
  qed
  have "?d (?d xs) = ?d xs" for xs by (induction xs) auto
  with head show ?thesis by (simp add: strip_where_def)
qed

lemma strip_where_sub: "\<exists>a b. s = a @ strip_where p s @ b"
proof -
  have "s = takeWhile p s @ dropWhile p s" by simp
  also have "dropWhile p s = rev (takeWhile p (rev (dropWhile p s)) @ dropWhile p (rev (dropWhile p s)))"
    by (simp only: takeWhile_dropWhile_id rev_rev_ident)
  finally show ?thesis unfolding strip_where_def
    by (metis rev_append)
qed

lemma utf8_encode_nat_append:
  "utf8_encode_nat (xs @ ys) = None \<longleftrightarrow> utf8_encode_nat xs = None \<or> utf8_encode_nat ys = None"
  by (induction xs) (auto split: option.splits)

lemma utf8_encode_None: "utf8_encode s = None \<longleftrightarrow> utf8_encode_nat s = None"
  by (simp add: utf8_encode_def)

lemma utf8_encode_trim: "utf8_encode s \<noteq> None \<Longrightarrow> utf8_encode (trim s) \<noteq> None"
  using strip_where_sub [of s is_white_space]
  unfolding trim_def utf8_encode_None by (metis utf8_encode_nat_append)

lemma trim_idem [simp]: "trim (trim s) = trim s"
  by (simp add: trim_def)

lemma check_username_again [simp]: "check_username s = Inr u \<Longrightarrow> check_username u = Inr u"
  using utf8_encode_trim [of s] by (auto simp: check_username_def Let_def split: if_splits)

lemma check_display_name_again [simp]: "check_display_name s = Inr d \<Longrightarrow> check_display_name d = Inr d"
  using utf8_encode_trim [of s] by (auto simp: check_display_name_def Let_def split: if_splits)

definition user_create_wf :: "('m) user_create_scheme \<Rightarrow> bool" where
  "user_create_wf u \<longleftrightarrow>
     check_username (uc_username u) = Inr (uc_username u) \<and> check_display_name (uc_display_name u) = Inr (uc_display_name u)"

lemma mk_user_create_wf [k5_wf]: "mk_user_create a b c d = Inr u \<Longrightarrow> user_create_wf u"
  by (auto simp: mk_user_create_def user_create_wf_def k5_inv)

lemma mk_user_account_wf [k5_wf]: "mk_user_account i a b c d = Inr u \<Longrightarrow> user_create_wf u"
  by (auto simp: mk_user_account_def user_create_wf_def k5_inv)

lemma mk_user_account_Inr:
  "mk_user_account i a b c d = Inr u \<Longrightarrow> ua_id u = i \<and> uc_role u = c \<and> uc_enabled u = d"
  by (auto simp: mk_user_account_def k5_inv)

lemma mk_user_account_valid:
  "user_create_wf u \<Longrightarrow> mk_user_account i (uc_username u) (uc_display_name u) r e =
     Inr \<lparr>uc_username = uc_username u, uc_display_name = uc_display_name u, uc_role = r, uc_enabled = e, ua_id = i\<rparr>"
  by (simp add: mk_user_account_def user_create_wf_def)

end
