(* ===== verification/Sql_Store.thy ===== *)
theory Sql_Store
  imports K5_Prelude
begin

text \<open>
  What the registries use of \<open>sqlite3\<close>: one connection in autocommit mode (\<open>isolation_level=None\<close>)
  on a database of type \<open>'d\<close>, with explicit transactions. \<open>sq_db\<close> is what the connection sees;
  while a transaction is open \<open>sq_backup\<close> is what a rollback returns to, which is also what every
  other connection sees. Every statement can fail: the environment answers by the number
  \<open>sq_tick\<close> of interactions so far, so a theorem for all environments holds for every pattern of
  failing statements. SQLite undoes a failed statement, and may roll the transaction back with it.

  A computation gives its result or what it raises, together with the next state, since the object
  and the database keep what was done before an exception.
\<close>

section \<open>Computations that raise\<close>

datatype 'e raised = Sqlite_Error | Exn 'e

type_synonym ('s, 'e, 'a) act = "'s \<Rightarrow> ('e raised + 'a) \<times> 's"

definition act_return :: "'a \<Rightarrow> ('s, 'e, 'a) act" where
  "act_return x s = (Inr x, s)"

definition act_raise :: "'e \<Rightarrow> ('s, 'e, 'a) act" where
  "act_raise e s = (Inl (Exn e), s)"

definition act_bind :: "('s, 'e, 'a) act \<Rightarrow> ('a \<Rightarrow> ('s, 'e, 'b) act) \<Rightarrow> ('s, 'e, 'b) act" where
  "act_bind m f s = (case m s of (Inl e, s') \<Rightarrow> (Inl e, s') | (Inr x, s') \<Rightarrow> f x s')"

definition act_catch :: "('s, 'e, 'a) act \<Rightarrow> ('e raised \<Rightarrow> ('s, 'e, 'a) act) \<Rightarrow> ('s, 'e, 'a) act" where
  "act_catch m h s = (case m s of (Inl e, s') \<Rightarrow> h e s' | (Inr x, s') \<Rightarrow> (Inr x, s'))"

definition act_reraise :: "'e raised \<Rightarrow> ('s, 'e, 'a) act" where
  "act_reraise e s = (Inl e, s)"

definition act_get :: "('s \<Rightarrow> 'a) \<Rightarrow> ('s, 'e, 'a) act" where
  "act_get f s = (Inr (f s), s)"

definition act_update :: "('s \<Rightarrow> 's) \<Rightarrow> ('s, 'e, unit) act" where
  "act_update f s = (Inr (), f s)"

definition act_when :: "bool \<Rightarrow> ('s, 'e, unit) act \<Rightarrow> ('s, 'e, unit) act" where
  "act_when b m = (if b then m else act_return ())"

definition act_lift :: "'e + 'a \<Rightarrow> ('s, 'e, 'a) act" where
  "act_lift r = (case r of Inl e \<Rightarrow> act_raise e | Inr x \<Rightarrow> act_return x)"

section \<open>A connection\<close>

datatype sql_outcome = Sql_Done | Sql_Fails | Sql_Fails_And_Rolls_Back

record 'd sql_conn =
  sq_db :: 'd
  sq_backup :: "'d option"
  sq_tick :: nat

definition in_transaction :: "('d, 'm) sql_conn_scheme \<Rightarrow> bool" where
  "in_transaction c \<longleftrightarrow> sq_backup c \<noteq> None"

text \<open>What every other connection to the database sees.\<close>

definition committed :: "('d, 'm) sql_conn_scheme \<Rightarrow> 'd" where
  "committed c = (case sq_backup c of None \<Rightarrow> sq_db c | Some d \<Rightarrow> d)"

definition sql_tick :: "('d, 'm) sql_conn_scheme \<Rightarrow> ('d, 'm) sql_conn_scheme" where
  "sql_tick c = c\<lparr>sq_tick := Suc (sq_tick c)\<rparr>"

definition sql_undone :: "('d, 'm) sql_conn_scheme \<Rightarrow> ('d, 'm) sql_conn_scheme" where
  "sql_undone c = c\<lparr>sq_db := committed c, sq_backup := None\<rparr>"

type_synonym sql_env = "nat \<Rightarrow> sql_outcome"

text \<open>A statement; \<open>st d = None\<close> when it violates a constraint of the schema.\<close>

definition sql :: "sql_env \<Rightarrow> ('d \<Rightarrow> ('d \<times> 'a) option) \<Rightarrow> (('d, 'm) sql_conn_scheme, 'e, 'a) act" where
  "sql env st c =
     (case env (sq_tick c) of
        Sql_Fails \<Rightarrow> (Inl Sqlite_Error, sql_tick c)
      | Sql_Fails_And_Rolls_Back \<Rightarrow> (Inl Sqlite_Error, sql_undone (sql_tick c))
      | Sql_Done \<Rightarrow>
          (case st (sq_db c) of
             None \<Rightarrow> (Inl Sqlite_Error, sql_tick c)
           | Some (d, x) \<Rightarrow> (Inr x, sql_tick (c\<lparr>sq_db := d\<rparr>))))"

definition sql_select :: "sql_env \<Rightarrow> ('d \<Rightarrow> 'a) \<Rightarrow> (('d, 'm) sql_conn_scheme, 'e, 'a) act" where
  "sql_select env q = sql env (\<lambda>d. Some (d, q d))"

definition sql_change :: "sql_env \<Rightarrow> ('d \<Rightarrow> 'd) \<Rightarrow> (('d, 'm) sql_conn_scheme, 'e, unit) act" where
  "sql_change env f = sql env (\<lambda>d. Some (f d, ()))"

text \<open>\<open>BEGIN IMMEDIATE\<close>, \<open>COMMIT\<close> and \<open>ROLLBACK\<close> are statements too.\<close>

definition sql_begin :: "sql_env \<Rightarrow> (('d, 'm) sql_conn_scheme, 'e, unit) act" where
  "sql_begin env c =
     (if env (sq_tick c) = Sql_Done \<and> \<not> in_transaction c
      then (Inr (), sql_tick (c\<lparr>sq_backup := Some (sq_db c)\<rparr>))
      else if env (sq_tick c) = Sql_Fails_And_Rolls_Back then (Inl Sqlite_Error, sql_undone (sql_tick c))
      else (Inl Sqlite_Error, sql_tick c))"

definition sql_commit :: "sql_env \<Rightarrow> (('d, 'm) sql_conn_scheme, 'e, unit) act" where
  "sql_commit env c =
     (if env (sq_tick c) = Sql_Done \<and> in_transaction c
      then (Inr (), sql_tick (c\<lparr>sq_backup := None\<rparr>))
      else if env (sq_tick c) = Sql_Fails_And_Rolls_Back then (Inl Sqlite_Error, sql_undone (sql_tick c))
      else (Inl Sqlite_Error, sql_tick c))"

definition sql_rollback :: "sql_env \<Rightarrow> (('d, 'm) sql_conn_scheme, 'e, unit) act" where
  "sql_rollback env c =
     (if env (sq_tick c) = Sql_Done \<and> in_transaction c then (Inr (), sql_undone (sql_tick c))
      else if env (sq_tick c) = Sql_Fails_And_Rolls_Back then (Inl Sqlite_Error, sql_undone (sql_tick c))
      else (Inl Sqlite_Error, sql_tick c))"

text \<open>
  The handlers around a transaction: \<open>except (caught): if in_transaction: ROLLBACK; raise\<close> and
  \<open>except sqlite3.Error: if in_transaction: ROLLBACK; raise storage_error\<close>.
\<close>

definition sql_rollback_if_open :: "sql_env \<Rightarrow> (('d, 'm) sql_conn_scheme, 'e, unit) act" where
  "sql_rollback_if_open env = act_bind (act_get in_transaction) (\<lambda>b. act_when b (sql_rollback env))"

definition sql_guarded ::
  "sql_env \<Rightarrow> ('e \<Rightarrow> bool) \<Rightarrow> 'e \<Rightarrow> (('d, 'm) sql_conn_scheme, 'e, 'a) act \<Rightarrow> (('d, 'm) sql_conn_scheme, 'e, 'a) act" where
  "sql_guarded env caught storage_error m =
     act_catch m (\<lambda>e. case e of
        Sqlite_Error \<Rightarrow> act_bind (sql_rollback_if_open env) (\<lambda>_. act_raise storage_error)
      | Exn x \<Rightarrow> if caught x then act_bind (sql_rollback_if_open env) (\<lambda>_. act_raise x) else act_raise x)"

text \<open>\<open>except sqlite3.Error: raise storage_error\<close>, outside a transaction of its own.\<close>

definition sql_shielded :: "'e \<Rightarrow> ('s, 'e, 'a) act \<Rightarrow> ('s, 'e, 'a) act" where
  "sql_shielded storage_error m =
     act_catch m (\<lambda>e. case e of Sqlite_Error \<Rightarrow> act_raise storage_error | Exn x \<Rightarrow> act_raise x)"

section \<open>Weakest preconditions\<close>

definition act_wp :: "('s, 'e, 'a) act \<Rightarrow> ('a \<Rightarrow> 's \<Rightarrow> bool) \<Rightarrow> ('e raised \<Rightarrow> 's \<Rightarrow> bool) \<Rightarrow> 's \<Rightarrow> bool" where
  "act_wp m Q E s = (case m s of (Inl e, s') \<Rightarrow> E e s' | (Inr x, s') \<Rightarrow> Q x s')"

lemma act_wp_return [simp]: "act_wp (act_return x) Q E = Q x"
  and act_wp_raise [simp]: "act_wp (act_raise e) Q E = E (Exn e)"
  and act_wp_reraise [simp]: "act_wp (act_reraise r) Q E = E r"
  by (rule ext, simp add: act_wp_def act_return_def act_raise_def act_reraise_def)+

lemma act_wp_get [simp]: "act_wp (act_get f) Q E s = Q (f s) s"
  by (simp add: act_wp_def act_get_def)

lemma act_wp_update [simp]: "act_wp (act_update g) Q E s = Q () (g s)"
  by (simp add: act_wp_def act_update_def)

lemma act_wp_bind [simp]: "act_wp (act_bind m f) Q E = act_wp m (\<lambda>x. act_wp (f x) Q E) E"
  by (rule ext) (auto simp: act_wp_def act_bind_def split: prod.split sum.split)

lemma act_wp_catch [simp]: "act_wp (act_catch m h) Q E = act_wp m Q (\<lambda>e. act_wp (h e) Q E)"
  by (rule ext) (auto simp: act_wp_def act_catch_def split: prod.split sum.split)

lemma act_wp_when [simp]: "act_wp (act_when b m) Q E s = (if b then act_wp m Q E s else Q () s)"
  by (simp add: act_when_def)

lemma act_wp_lift [simp]: "act_wp (act_lift r) Q E s = (case r of Inl e \<Rightarrow> E (Exn e) s | Inr x \<Rightarrow> Q x s)"
  by (simp add: act_lift_def split: sum.split)

lemma act_wp_mono:
  "act_wp m Q E s \<Longrightarrow> (\<And>x s'. Q x s' \<Longrightarrow> Q' x s') \<Longrightarrow> (\<And>e s'. E e s' \<Longrightarrow> E' e s') \<Longrightarrow> act_wp m Q' E' s"
  by (auto simp: act_wp_def split: prod.splits sum.splits)

lemma act_wpD: "act_wp m Q E s \<Longrightarrow> m s = (r, s') \<Longrightarrow> (case r of Inl e \<Rightarrow> E e s' | Inr x \<Rightarrow> Q x s')"
  by (auto simp: act_wp_def split: sum.split)

section \<open>Transactions are atomic\<close>

text \<open>
  \<open>secures d P m P'\<close>: from a state with \<open>P\<close>, \<open>m\<close> returns in one with \<open>P'\<close>, or raises and the database
  that others see is \<open>d\<close>. The states are: no transaction is open (\<open>tx_idle\<close>), one is that started
  from \<open>d\<close> (\<open>tx_open\<close>), and none is, whatever the database (\<open>tx_closed\<close>).
\<close>

definition secures :: "'d \<Rightarrow> (('d, 'm) sql_conn_scheme \<Rightarrow> bool) \<Rightarrow> (('d, 'm) sql_conn_scheme, 'e, 'a) act \<Rightarrow>
    (('d, 'm) sql_conn_scheme \<Rightarrow> bool) \<Rightarrow> bool" where
  "secures d P m P' \<longleftrightarrow> (\<forall>c. P c \<longrightarrow> act_wp m (\<lambda>_. P') (\<lambda>_ c'. committed c' = d) c)"

definition tx_idle :: "'d \<Rightarrow> ('d, 'm) sql_conn_scheme \<Rightarrow> bool" where
  "tx_idle d c \<longleftrightarrow> sq_backup c = None \<and> sq_db c = d"

definition tx_open :: "'d \<Rightarrow> ('d, 'm) sql_conn_scheme \<Rightarrow> bool" where
  "tx_open d c \<longleftrightarrow> sq_backup c = Some d"

definition tx_closed :: "('d, 'm) sql_conn_scheme \<Rightarrow> bool" where
  "tx_closed c \<longleftrightarrow> sq_backup c = None"

named_theorems secures_intros \<open>rules for computations on a connection\<close>

lemma committed_simps [simp]:
  "sq_db (sql_tick c) = sq_db c" "sq_backup (sql_tick c) = sq_backup c" "committed (sql_tick c) = committed c"
  "sq_backup (sql_undone c) = None" "sq_db (sql_undone c) = committed c" "committed (sql_undone c) = committed c"
  by (simp_all add: sql_tick_def sql_undone_def committed_def split: option.split)

lemma committed_when [simp]: "sq_backup c = None \<Longrightarrow> committed c = sq_db c" "sq_backup c = Some d \<Longrightarrow> committed c = d"
  by (simp_all add: committed_def)

lemma committed_of [simp]: "tx_idle d c \<Longrightarrow> committed c = d" "tx_open d c \<Longrightarrow> committed c = d"
  by (simp_all add: tx_idle_def tx_open_def)

lemma secures_return [secures_intros]: "secures d P (act_return x) P"
  by (simp add: secures_def)

lemma secures_raise [secures_intros]:
  "secures d (tx_idle d) (act_raise e) P'" "secures d (tx_open d) (act_raise e) P'"
  by (simp_all add: secures_def)

lemma secures_bind [secures_intros]:
  assumes "secures d P m P1" and "\<And>x. secures d P1 (f x) P2"
  shows "secures d P (act_bind m f) P2"
  unfolding secures_def act_wp_bind
proof (intro allI impI)
  fix c :: "('a, 'b) sql_conn_scheme"
  assume "P c"
  with assms(1) have "act_wp m (\<lambda>_. P1) (\<lambda>_ c'. committed c' = d) c" by (simp add: secures_def)
  then show "act_wp m (\<lambda>x. act_wp (f x) (\<lambda>_. P2) (\<lambda>_ c'. committed c' = d)) (\<lambda>_ c'. committed c' = d) c"
    by (rule act_wp_mono) (use assms(2) in \<open>auto simp: secures_def\<close>)
qed

lemma secures_get [secures_intros]: "secures d P (act_get f) P"
  by (simp add: secures_def)

lemma secures_lift [secures_intros]:
  "secures d (tx_idle d) (act_lift r) (tx_idle d)" "secures d (tx_open d) (act_lift r) (tx_open d)"
  by (simp_all add: secures_def split: sum.split)

lemma secures_when [secures_intros]: "secures d P m P \<Longrightarrow> secures d P (act_when b m) P"
  by (simp add: secures_def)

lemma secures_if [secures_intros]: "secures d P m P' \<Longrightarrow> secures d P n P' \<Longrightarrow> secures d P (if b then m else n) P'"
  by simp

lemma secures_option [secures_intros]:
  "secures d P m P' \<Longrightarrow> (\<And>y. secures d P (n y) P') \<Longrightarrow> secures d P (case x of None \<Rightarrow> m | Some y \<Rightarrow> n y) P'"
  by (cases x) simp_all

lemma secures_prod [secures_intros]: "(\<And>y z. secures d P (n y z) P') \<Longrightarrow> secures d P (case x of (y, z) \<Rightarrow> n y z) P'"
  by (cases x) simp

lemma act_wp_sqlI:
  assumes "\<And>d x. st (sq_db c) = Some (d, x) \<Longrightarrow> Q x (sql_tick (c\<lparr>sq_db := d\<rparr>))"
    and "\<And>c'. committed c' = committed c \<Longrightarrow> E Sqlite_Error c'"
  shows "act_wp (sql env st) Q E c"
  using assms by (auto simp: act_wp_def sql_def split: sql_outcome.split option.split)

lemma secures_sql_open [secures_intros]: "secures d (tx_open d) (sql env st) (tx_open d)"
  unfolding secures_def by (intro allI impI act_wp_sqlI) (auto simp: tx_open_def)

lemma secures_select [secures_intros]:
  "secures d (tx_idle d) (sql_select env q) (tx_idle d)" "secures d (tx_open d) (sql_select env q) (tx_open d)"
  unfolding secures_def sql_select_def by (intro allI impI act_wp_sqlI; auto simp: tx_idle_def tx_open_def)+

lemma secures_change [secures_intros]:
  "secures d (tx_idle d) (sql_change env f) tx_closed" "secures d (tx_open d) (sql_change env f) (tx_open d)"
  unfolding secures_def sql_change_def
  by (intro allI impI act_wp_sqlI; auto simp: tx_idle_def tx_open_def tx_closed_def)+

text \<open>A transaction that an earlier failure left open makes the next \<open>BEGIN\<close> fail.\<close>

lemma secures_begin [secures_intros]: "secures d (tx_idle d) (sql_begin env) (tx_open d)"
  by (auto simp: secures_def act_wp_def sql_begin_def tx_idle_def tx_open_def in_transaction_def sql_tick_def)

lemma secures_begin_stale: "secures d (tx_open d) (act_bind (sql_begin env) f) P'"
  by (auto simp: secures_def act_wp_def act_bind_def sql_begin_def tx_open_def in_transaction_def sql_tick_def)

lemma secures_commit [secures_intros]: "secures d (tx_open d) (sql_commit env) tx_closed"
  by (auto simp: secures_def act_wp_def sql_commit_def tx_open_def tx_closed_def in_transaction_def sql_tick_def)

lemma wp_rollback_if_open:
  "(\<And>r c'. committed c' = committed c \<Longrightarrow> E r c') \<Longrightarrow> (\<And>c'. committed c' = committed c \<Longrightarrow> Q () c') \<Longrightarrow>
   act_wp (sql_rollback_if_open env) Q E c"
  by (simp add: sql_rollback_if_open_def) (simp add: act_wp_def sql_rollback_def)

lemma secures_guarded [secures_intros]:
  assumes "secures d P m P'"
  shows "secures d P (sql_guarded env caught e m) P'"
  unfolding secures_def sql_guarded_def act_wp_catch
proof (intro allI impI)
  fix c :: "('a, 'b) sql_conn_scheme"
  assume "P c"
  with assms have "act_wp m (\<lambda>_. P') (\<lambda>_ c'. committed c' = d) c" by (simp add: secures_def)
  then show "act_wp m (\<lambda>_. P') (\<lambda>x. act_wp (case x of
       Sqlite_Error \<Rightarrow> act_bind (sql_rollback_if_open env) (\<lambda>_. act_raise e)
     | Exn x \<Rightarrow> if caught x then act_bind (sql_rollback_if_open env) (\<lambda>_. act_raise x) else act_raise x)
     (\<lambda>_. P') (\<lambda>_ c'. committed c' = d)) c"
    by (rule act_wp_mono) (auto split: raised.split intro!: wp_rollback_if_open)
qed

lemma secures_shielded [secures_intros]: "secures d P m P' \<Longrightarrow> secures d P (sql_shielded e m) P'"
  unfolding secures_def sql_shielded_def act_wp_catch
  by (auto elim!: act_wp_mono split: raised.split)

lemma securesD:
  "secures d P m P' \<Longrightarrow> P c \<Longrightarrow> m c = (r, c') \<Longrightarrow> (case r of Inl _ \<Rightarrow> committed c' = d | Inr _ \<Rightarrow> P' c')"
  unfolding secures_def by (drule spec, drule (1) mp, drule (1) act_wpD) simp

section \<open>What a computation that returns does to the database\<close>

text \<open>
  \<open>effect m d y d'\<close>: started on \<open>d\<close>, \<open>m\<close> can return \<open>y\<close> and leave \<open>d'\<close>. The rules compute it along the
  structure of \<open>m\<close>, for all environments at once.
\<close>

definition effect :: "(('d, 'm) sql_conn_scheme, 'e, 'a) act \<Rightarrow> 'd \<Rightarrow> 'a \<Rightarrow> 'd \<Rightarrow> bool" where
  "effect m d y d' \<longleftrightarrow> (\<exists>c c'. sq_db c = d \<and> m c = (Inr y, c') \<and> sq_db c' = d')"

named_theorems effect_elims \<open>elimination rules for effects\<close>

lemma effectI: "m c = (Inr y, c') \<Longrightarrow> effect m (sq_db c) y (sq_db c')"
  by (auto simp: effect_def)

lemma effect_returnE [effect_elims]: "effect (act_return x) d y d' \<Longrightarrow> (y = x \<Longrightarrow> d' = d \<Longrightarrow> R) \<Longrightarrow> R"
  by (auto simp: effect_def act_return_def)

lemma effect_raiseE [effect_elims]: "effect (act_raise e) d y d' \<Longrightarrow> R"
  by (auto simp: effect_def act_raise_def)

lemma effect_liftE [effect_elims]: "effect (act_lift r) d y d' \<Longrightarrow> (r = Inr y \<Longrightarrow> d' = d \<Longrightarrow> R) \<Longrightarrow> R"
  by (auto simp: effect_def act_lift_def act_return_def act_raise_def split: sum.splits)

lemma effect_getE [effect_elims]: "effect (act_get f) d y d' \<Longrightarrow> (d' = d \<Longrightarrow> R) \<Longrightarrow> R"
  by (auto simp: effect_def act_get_def)

lemma effect_bindE [effect_elims]:
  assumes "effect (act_bind m f) d y d'" and "\<And>x d1. effect m d x d1 \<Longrightarrow> effect (f x) d1 y d' \<Longrightarrow> R"
  shows R
proof -
  from assms(1) obtain c c' where c: "sq_db c = d" "sq_db c' = d'" and run: "act_bind m f c = (Inr y, c')"
    by (auto simp: effect_def)
  from run obtain x c1 where "m c = (Inr x, c1)" "f x c1 = (Inr y, c')"
    by (auto simp: act_bind_def split: prod.split_asm sum.split_asm)
  with c assms(2) [of x "sq_db c1"] effectI [of m c x c1] effectI [of "f x" c1 y c'] show R by simp
qed

lemma effect_whenE [effect_elims]:
  "effect (act_when b m) d y d' \<Longrightarrow> (b \<Longrightarrow> effect m d () d' \<Longrightarrow> R) \<Longrightarrow> (\<not> b \<Longrightarrow> d' = d \<Longrightarrow> R) \<Longrightarrow> R"
  by (auto simp: act_when_def elim: effect_elims split: if_splits)

lemma effect_sqlE [effect_elims]: "effect (sql env st) d y d' \<Longrightarrow> (st d = Some (d', y) \<Longrightarrow> R) \<Longrightarrow> R"
  unfolding effect_def sql_def by (clarsimp, case_tac "env (sq_tick c)"; auto split: option.splits)

lemma effect_selectE [effect_elims]: "effect (sql_select env q) d y d' \<Longrightarrow> (y = q d \<Longrightarrow> d' = d \<Longrightarrow> R) \<Longrightarrow> R"
  and effect_changeE [effect_elims]: "effect (sql_change env f) d u d' \<Longrightarrow> (d' = f d \<Longrightarrow> R) \<Longrightarrow> R"
  by (auto simp: sql_select_def sql_change_def elim: effect_sqlE)

lemma effect_beginE [effect_elims]: "effect (sql_begin env) d y d' \<Longrightarrow> (d' = d \<Longrightarrow> R) \<Longrightarrow> R"
  and effect_commitE [effect_elims]: "effect (sql_commit env) d y d' \<Longrightarrow> (d' = d \<Longrightarrow> R) \<Longrightarrow> R"
  by (auto simp: effect_def sql_begin_def sql_commit_def sql_tick_def split: if_splits)

lemma act_catch_Inr: "(\<And>e s r. h e s = (r, s') \<Longrightarrow> isl r) \<Longrightarrow> act_catch m h s = (Inr y, s') \<Longrightarrow> m s = (Inr y, s')"
  by (fastforce simp: act_catch_def split: prod.splits sum.splits)

lemma effect_shieldedE [effect_elims]: "effect (sql_shielded e m) d y d' \<Longrightarrow> (effect m d y d' \<Longrightarrow> R) \<Longrightarrow> R"
  unfolding sql_shielded_def effect_def
  by (auto dest!: act_catch_Inr [rotated] simp: act_raise_def split: raised.splits)

lemma effect_guardedE [effect_elims]: "effect (sql_guarded env caught e m) d y d' \<Longrightarrow> (effect m d y d' \<Longrightarrow> R) \<Longrightarrow> R"
  unfolding sql_guarded_def effect_def
  by (auto dest!: act_catch_Inr [rotated] simp: act_raise_def act_bind_def split: raised.splits prod.splits sum.splits if_splits)

end
