(* ===== verification/User_Registry.thy ===== *)
theory User_Registry
  imports User_Accounts Sql_Store "HOL-Library.AList"
begin

text \<open>
  \<open>src/src/k5vision/services/user_registry.py\<close>: \<open>UserRegistry\<close>, the durable accounts, credentials
  and camera grants of a site with their audit log. Every operation is the sequence of statements,
  guards and clock readings of its method. The tables keep the columns of the schema; a column that
  holds the text of a time or of a JSON value is modelled by what the text denotes, or that it denotes
  nothing. Random bytes, tokens, identifiers, the clocks, scrypt, SHA-256 and the rounding of float
  arithmetic are the environment. \<open>RLock\<close> makes the operations of one registry atomic.
\<close>

section \<open>The database\<close>

record user_row =
  ur_site :: pystr
  ur_id :: user_uuid
  ur_username :: pystr
  ur_display_name :: pystr
  ur_role :: string
  ur_enabled :: int

text \<open>The text of an aware time, in microseconds of UTC; any other text makes \<open>fromisoformat\<close> or its check raise.\<close>

datatype stamp = Stamp int | Bad_Stamp

record credential_row =
  cr_scheme :: string
  cr_kind :: string
  cr_salt :: "byte list"
  cr_verifier :: "byte list"
  cr_expires_at :: "stamp option"
  cr_issued_at :: "stamp option"
  cr_last_checked_at :: "stamp option"

text \<open>The JSON value of a grant: a list of texts that \<open>UUID\<close> accepts or not, or no list.\<close>

record camera_row =
  cm_mode :: string
  cm_camera_ids :: "user_uuid dyn list dyn"

record audit_row =
  ar_event_id :: int
  ar_site :: pystr
  ar_user :: user_uuid
  ar_action :: string
  ar_actor :: pystr
  ar_changed_fields :: "string list"
  ar_occurred_at :: int

record user_db =
  db_users :: "user_row list"
  db_audit :: "audit_row list"
  db_credentials :: "((pystr \<times> user_uuid) \<times> credential_row) list"
  db_camera :: "((pystr \<times> user_uuid) \<times> camera_row) list"

text \<open>\<open>COLLATE NOCASE\<close> folds the ASCII letters.\<close>

definition nocase :: "pystr \<Rightarrow> pystr" where
  "nocase = map (\<lambda>c. if 65 \<le> c \<and> c \<le> 90 then c + 32 else c)"

definition user_by_id :: "pystr \<Rightarrow> user_uuid \<Rightarrow> user_db \<Rightarrow> user_row option" where
  "user_by_id site i d = find (\<lambda>r. ur_site r = site \<and> ur_id r = i) (db_users d)"

definition user_by_name :: "pystr \<Rightarrow> pystr \<Rightarrow> user_db \<Rightarrow> user_row option" where
  "user_by_name site n d = find (\<lambda>r. ur_site r = site \<and> nocase (ur_username r) = nocase n) (db_users d)"

definition credential_of :: "pystr \<Rightarrow> user_uuid \<Rightarrow> user_db \<Rightarrow> credential_row option" where
  "credential_of site i d = map_of (db_credentials d) (site, i)"

section \<open>The registry\<close>

datatype user_registry_exn =
    UserRegistryCapacityError
  | UserRegistryConflictError
  | UserRegistryLastAdministratorError
  | UserRegistryStorageError
  | Registry_Raw python_exn

record user_registry =
  ug_capacity :: int
  ug_site :: pystr

definition user_registry_init :: "int \<Rightarrow> pystr \<Rightarrow> user_registry_exn + user_registry" where
  "user_registry_init capacity site_id =
     (if \<not> (1 \<le> capacity \<and> capacity \<le> 100000) then Inl (Registry_Raw Py_ValueError)
      else if \<not> identifier_matches 0 127 (py_strip site_id) then Inl (Registry_Raw Py_ValueError)
      else Inr \<lparr>ug_capacity = capacity, ug_site = py_strip site_id\<rparr>)"

text \<open>The connection, whether it is open, and \<open>_bootstrap_deadlines\<close>, which is not part of the database.\<close>

record registry_world = "user_db sql_conn" +
  rw_open :: bool
  rw_deadlines :: "user_uuid \<rightharpoonup> byte list \<times> rat"

record registry_env =
  rn_sql :: sql_env
  rn_now :: "nat \<Rightarrow> int"
  rn_monotonic :: "nat \<Rightarrow> rat"
  rn_salt :: "nat \<Rightarrow> byte list"
  rn_token :: "nat \<Rightarrow> pystr"
  rn_uuid :: "nat \<Rightarrow> user_uuid"
  rn_scrypt :: "byte list \<Rightarrow> byte list \<Rightarrow> byte list"
  rn_sha256 :: "byte list \<Rightarrow> byte list"
  rn_float :: "rat \<Rightarrow> rat"

type_synonym 'a reg = "(registry_world, user_registry_exn, 'a) act"

text \<open>A reading of a clock or of the random source.\<close>

definition reading :: "(nat \<Rightarrow> 'a) \<Rightarrow> 'a reg" where
  "reading f w = (Inr (f (sq_tick w)), sql_tick w)"

definition require_connection :: "unit reg" where
  "require_connection w = (if rw_open w then (Inr (), w) else (Inl (Exn UserRegistryStorageError), w))"

definition set_deadline :: "user_uuid \<Rightarrow> (byte list \<times> rat) option \<Rightarrow> unit reg" where
  "set_deadline i x = act_update (\<lambda>w. w\<lparr>rw_deadlines := (rw_deadlines w)(i := x)\<rparr>)"

text \<open>\<open>except ValueError\<close> catches the validation error of pydantic as well.\<close>

definition is_value_error :: "user_registry_exn \<Rightarrow> bool" where
  "is_value_error e \<longleftrightarrow> e = Registry_Raw Py_ValueError \<or> e = Registry_Raw Py_ValidationError"

definition is_conflict :: "user_registry_exn \<Rightarrow> bool" where
  "is_conflict e \<longleftrightarrow> e = UserRegistryConflictError \<or> e = UserRegistryLastAdministratorError"

definition derive_credential :: "registry_env \<Rightarrow> pystr \<Rightarrow> byte list \<Rightarrow> user_registry_exn + byte list" where
  "derive_credential env secret salt =
     (case utf8_encode secret of None \<Rightarrow> Inl (Registry_Raw Py_ValueError) | Some bs \<Rightarrow> Inr (rn_scrypt env bs salt))"

definition decode_user :: "user_row \<Rightarrow> user_registry_exn + user_account" where
  "decode_user r =
     (case user_role_of (ur_role r) of
        None \<Rightarrow> Inl UserRegistryStorageError
      | Some role \<Rightarrow>
          map_err (\<lambda>_. UserRegistryStorageError)
            (mk_user_account (ur_id r) (ur_username r) (ur_display_name r) role (ur_enabled r \<noteq> 0)))"

definition validate_actor :: "pystr \<Rightarrow> user_registry_exn + pystr" where
  "validate_actor actor =
     (let n = py_strip actor in if identifier_matches 0 63 n then Inr n else Inl (Registry_Raw Py_ValueError))"

definition validate_username :: "pystr \<Rightarrow> user_registry_exn + pystr" where
  "validate_username username =
     (let n = py_strip username in if identifier_matches 2 63 n then Inr n else Inl (Registry_Raw Py_ValueError))"

section \<open>Rows\<close>

text \<open>The row an audit statement adds; \<open>event_id\<close> is an autoincremented key.\<close>

definition next_event_id :: "audit_row list \<Rightarrow> int" where
  "next_event_id rows = (if rows = [] then 1 else ar_event_id (last rows) + 1)"

definition with_audit :: "pystr \<Rightarrow> user_uuid \<Rightarrow> string \<Rightarrow> pystr \<Rightarrow> string list \<Rightarrow> int \<Rightarrow> user_db \<Rightarrow> user_db" where
  "with_audit site i action actor fields_changed t d =
     d\<lparr>db_audit := db_audit d @ [\<lparr>ar_event_id = next_event_id (db_audit d), ar_site = site, ar_user = i, ar_action = action,
        ar_actor = actor, ar_changed_fields = fields_changed, ar_occurred_at = t\<rparr>]\<rparr>"

definition append_audit :: "registry_env \<Rightarrow> user_registry \<Rightarrow> user_uuid \<Rightarrow> string \<Rightarrow> pystr \<Rightarrow> string list \<Rightarrow> unit reg" where
  "append_audit env g i action actor fields_changed =
     act_bind (reading (rn_now env)) (\<lambda>t. sql_change (rn_sql env) (with_audit (ug_site g) i action actor fields_changed t))"

definition user_row_of :: "pystr \<Rightarrow> user_account \<Rightarrow> user_row" where
  "user_row_of site u =
     \<lparr>ur_site = site, ur_id = ua_id u, ur_username = uc_username u, ur_display_name = uc_display_name u,
      ur_role = role_value (uc_role u), ur_enabled = (if uc_enabled u then 1 else 0)\<rparr>"

definition with_user :: "user_row \<Rightarrow> user_db \<Rightarrow> user_db" where
  "with_user r d = d\<lparr>db_users := db_users d @ [r]\<rparr>"

definition with_credential :: "pystr \<Rightarrow> user_uuid \<Rightarrow> credential_row \<Rightarrow> user_db \<Rightarrow> user_db" where
  "with_credential site i c d = d\<lparr>db_credentials := AList.update (site, i) c (db_credentials d)\<rparr>"

definition bootstrap_row :: "byte list \<Rightarrow> byte list \<Rightarrow> int \<Rightarrow> int \<Rightarrow> credential_row" where
  "bootstrap_row salt verifier issued expires =
     \<lparr>cr_scheme = ''scrypt-v1'', cr_kind = ''bootstrap'', cr_salt = salt, cr_verifier = verifier,
      cr_expires_at = Some (Stamp expires), cr_issued_at = Some (Stamp issued), cr_last_checked_at = Some (Stamp issued)\<rparr>"

definition password_row :: "byte list \<Rightarrow> byte list \<Rightarrow> credential_row" where
  "password_row salt verifier =
     \<lparr>cr_scheme = ''scrypt-v1'', cr_kind = ''password'', cr_salt = salt, cr_verifier = verifier,
      cr_expires_at = None, cr_issued_at = None, cr_last_checked_at = None\<rparr>"

section \<open>Creating accounts\<close>

definition insert_user :: "registry_env \<Rightarrow> user_registry \<Rightarrow> user_create \<Rightarrow> pystr \<Rightarrow> user_account reg" where
  "insert_user env g request actor =
     act_bind (sql_select (rn_sql env) (user_by_name (ug_site g) (uc_username request))) (\<lambda>existing.
     if existing \<noteq> None then act_raise UserRegistryConflictError else
     act_bind (sql_select (rn_sql env) (\<lambda>d. len (filter (\<lambda>r. ur_site r = ug_site g) (db_users d)))) (\<lambda>count.
     if ug_capacity g \<le> count then act_raise UserRegistryCapacityError else
     act_bind (reading (rn_uuid env)) (\<lambda>i.
     act_bind (act_lift (map_err (\<lambda>_. Registry_Raw Py_ValidationError)
         (mk_user_account i (uc_username request) (uc_display_name request) (uc_role request) (uc_enabled request)))) (\<lambda>user.
     act_bind (sql (rn_sql env) (\<lambda>d.
         if user_by_id (ug_site g) (ua_id user) d \<noteq> None \<or> user_by_name (ug_site g) (uc_username user) d \<noteq> None then None
         else Some (with_user (user_row_of (ug_site g) user) d, ()))) (\<lambda>_.
     act_bind (append_audit env g (ua_id user) ''created'' actor [''username'', ''display_name'', ''role'', ''enabled'']) (\<lambda>_.
     act_return user))))))"

definition registry_create :: "registry_env \<Rightarrow> user_registry \<Rightarrow> user_create \<Rightarrow> pystr \<Rightarrow> user_account reg" where
  "registry_create env g request actor =
     act_bind (act_lift (validate_actor actor)) (\<lambda>actor.
     act_bind require_connection (\<lambda>_.
     sql_guarded (rn_sql env) (\<lambda>e. e = UserRegistryCapacityError \<or> is_conflict e) UserRegistryStorageError
      (act_bind (sql_begin (rn_sql env)) (\<lambda>_.
       act_bind (insert_user env g request actor) (\<lambda>user.
       act_bind (sql_commit (rn_sql env)) (\<lambda>_. act_return user))))))"

text \<open>An insertion of a credential, which the primary key refuses when there is one.\<close>

definition insert_credential :: "registry_env \<Rightarrow> user_registry \<Rightarrow> user_uuid \<Rightarrow> credential_row \<Rightarrow> unit reg" where
  "insert_credential env g i c =
     sql (rn_sql env) (\<lambda>d. if credential_of (ug_site g) i d \<noteq> None then None else Some (with_credential (ug_site g) i c d, ()))"

definition refuse_if :: "registry_env \<Rightarrow> (user_db \<Rightarrow> bool) \<Rightarrow> unit reg" where
  "refuse_if env q = act_bind (sql_select (rn_sql env) q) (\<lambda>b. if b then act_raise UserRegistryConflictError else act_return ())"

definition bootstrap_administrator :: "registry_env \<Rightarrow> user_registry \<Rightarrow> user_create \<Rightarrow> pystr \<Rightarrow> user_account reg" where
  "bootstrap_administrator env g request password =
     (if uc_role request \<noteq> ADMINISTRATOR \<or> \<not> uc_enabled request then act_raise (Registry_Raw Py_ValueError)
      else if \<not> (12 \<le> len password \<and> len password \<le> 256) then act_raise (Registry_Raw Py_ValueError)
      else
       act_bind (reading (rn_salt env)) (\<lambda>salt.
       act_bind (act_lift (derive_credential env password salt)) (\<lambda>verifier.
       act_bind require_connection (\<lambda>_.
       sql_guarded (rn_sql env) is_conflict UserRegistryStorageError
        (act_bind (sql_begin (rn_sql env)) (\<lambda>_.
         act_bind (refuse_if env (\<lambda>d. db_users d \<noteq> [])) (\<lambda>_.
         act_bind (refuse_if env (\<lambda>d. db_credentials d \<noteq> [])) (\<lambda>_.
         act_bind (refuse_if env (\<lambda>d. db_audit d \<noteq> [])) (\<lambda>_.
         act_bind (insert_user env g request (map of_char ''local-admin-setup'')) (\<lambda>user.
         act_bind (insert_credential env g (ua_id user) (password_row salt verifier)) (\<lambda>_.
         act_bind (append_audit env g (ua_id user) ''password-initialized'' (map of_char ''local-admin-setup'') [''credential_state'']) (\<lambda>_.
         act_bind (sql_commit (rn_sql env)) (\<lambda>_. act_return user)))))))))))))"

section \<open>Camera access\<close>

text \<open>
  The \<open>access\<close> argument: a \<open>dict\<close> with the two keys, or anything else. A mode that is not hashable
  makes the membership test raise \<open>TypeError\<close> (\<open>NotInst\<close>).
\<close>

record camera_access_arg =
  ca_mode :: "string dyn"
  ca_camera_ids :: "user_uuid dyn list dyn"

record camera_access =
  cx_mode :: string
  cx_camera_ids :: "user_uuid list"

abbreviation all_cameras :: camera_access where
  "all_cameras \<equiv> \<lparr>cx_mode = ''all'', cx_camera_ids = []\<rparr>"

text \<open>The canonical texts of identifiers are ordered as the identifiers are.\<close>

definition camera_access_value :: "user_account \<Rightarrow> camera_access_arg dyn \<Rightarrow> user_registry_exn + camera_access" where
  "camera_access_value user access =
     (case access of
        NotInst \<Rightarrow> Inl (Registry_Raw Py_ValueError)
      | Inst a \<Rightarrow>
          (case ca_mode a of
             NotInst \<Rightarrow> Inl (Registry_Raw Py_TypeError)
           | Inst mode \<Rightarrow>
               (if mode \<notin> {''all'', ''selected''} then Inl (Registry_Raw Py_ValueError)
                else case ca_camera_ids a of
                  NotInst \<Rightarrow> Inl (Registry_Raw Py_ValueError)
                | Inst identifiers \<Rightarrow>
                    (if 64 < len identifiers then Inl (Registry_Raw Py_ValueError)
                     else case dyn_insts identifiers of
                       None \<Rightarrow> Inl (Registry_Raw Py_ValueError)
                     | Some cameras \<Rightarrow>
                         (if \<not> distinct cameras \<or> mode = ''all'' \<and> cameras \<noteq> [] then Inl (Registry_Raw Py_ValueError)
                          else if uc_role user = ADMINISTRATOR \<and> mode \<noteq> ''all'' then Inl (Registry_Raw Py_ValueError)
                          else Inr \<lparr>cx_mode = mode, cx_camera_ids = sort cameras\<rparr>)))))"

definition read_camera_access :: "registry_env \<Rightarrow> user_registry \<Rightarrow> user_account \<Rightarrow> camera_access reg" where
  "read_camera_access env g user =
     act_bind (sql_select (rn_sql env) (\<lambda>d. map_of (db_camera d) (ug_site g, ua_id user))) (\<lambda>row.
     case row of
       None \<Rightarrow> act_return all_cameras
     | Some r \<Rightarrow>
         (if uc_role user = ADMINISTRATOR then act_return all_cameras
          else act_lift (map_err (\<lambda>_. UserRegistryStorageError)
            (camera_access_value user (Inst \<lparr>ca_mode = Inst (cm_mode r), ca_camera_ids = cm_camera_ids r\<rparr>)))))"

definition with_camera :: "pystr \<Rightarrow> user_uuid \<Rightarrow> camera_access \<Rightarrow> user_db \<Rightarrow> user_db" where
  "with_camera site i a d =
     d\<lparr>db_camera := AList.update (site, i) \<lparr>cm_mode = cx_mode a, cm_camera_ids = Inst (map Inst (cx_camera_ids a))\<rparr> (db_camera d)\<rparr>"

definition write_camera_access ::
  "registry_env \<Rightarrow> user_registry \<Rightarrow> user_account \<Rightarrow> camera_access_arg dyn \<Rightarrow> pystr \<Rightarrow> camera_access reg" where
  "write_camera_access env g user access actor =
     act_bind (act_lift (camera_access_value user access)) (\<lambda>admitted.
     act_bind (read_camera_access env g user) (\<lambda>previous.
     act_bind (sql_change (rn_sql env) (with_camera (ug_site g) (ua_id user) admitted)) (\<lambda>_.
     act_bind (act_when (admitted \<noteq> previous)
       (append_audit env g (ua_id user) ''camera-access-updated'' actor [''camera_access''])) (\<lambda>_.
     act_return admitted))))"

definition registry_get :: "registry_env \<Rightarrow> user_registry \<Rightarrow> user_uuid \<Rightarrow> user_account option reg" where
  "registry_get env g i =
     act_bind require_connection (\<lambda>_.
     act_bind (sql_shielded UserRegistryStorageError (sql_select (rn_sql env) (user_by_id (ug_site g) i))) (\<lambda>row.
     case row of None \<Rightarrow> act_return None
     | Some r \<Rightarrow> act_bind (act_lift (decode_user r)) (\<lambda>u. act_return (Some u))))"

definition get_camera_access :: "registry_env \<Rightarrow> user_registry \<Rightarrow> user_uuid \<Rightarrow> camera_access option reg" where
  "get_camera_access env g i =
     act_bind (registry_get env g i) (\<lambda>user.
     case user of None \<Rightarrow> act_return None
     | Some u \<Rightarrow> sql_shielded UserRegistryStorageError
         (act_bind require_connection (\<lambda>_. act_bind (read_camera_access env g u) (\<lambda>a. act_return (Some a)))))"

definition set_camera_access ::
  "registry_env \<Rightarrow> user_registry \<Rightarrow> user_uuid \<Rightarrow> camera_access_arg \<Rightarrow> pystr \<Rightarrow> camera_access option reg" where
  "set_camera_access env g i access actor =
     act_bind (act_lift (validate_actor actor)) (\<lambda>actor.
     act_bind require_connection (\<lambda>_.
     sql_guarded (rn_sql env) (\<lambda>e. is_value_error e \<or> e = UserRegistryStorageError) UserRegistryStorageError
      (act_bind (sql_begin (rn_sql env)) (\<lambda>_.
       act_bind (registry_get env g i) (\<lambda>user.
       case user of
         None \<Rightarrow> act_bind (sql_commit (rn_sql env)) (\<lambda>_. act_return None)
       | Some u \<Rightarrow>
           act_bind (write_camera_access env g u (Inst access) actor) (\<lambda>result.
           act_bind (sql_commit (rn_sql env)) (\<lambda>_. act_return (Some result))))))))"

section \<open>Bootstrap credentials\<close>

abbreviation ttl_ok :: "int \<Rightarrow> bool" where
  "ttl_ok ttl \<equiv> 60 \<le> ttl \<and> ttl \<le> 86400"

definition create_with_bootstrap ::
  "registry_env \<Rightarrow> user_registry \<Rightarrow> user_create \<Rightarrow> pystr \<Rightarrow> int \<Rightarrow> camera_access_arg dyn option \<Rightarrow> (user_account \<times> pystr \<times> int) reg" where
  "create_with_bootstrap env g request actor ttl access =
     act_bind (act_lift (validate_actor actor)) (\<lambda>actor.
     if \<not> ttl_ok ttl then act_raise (Registry_Raw Py_ValueError) else
     act_bind (reading (rn_token env)) (\<lambda>temporary.
     act_bind (reading (rn_salt env)) (\<lambda>salt.
     act_bind (act_lift (derive_credential env temporary salt)) (\<lambda>verifier.
     act_bind (reading (rn_now env)) (\<lambda>issued.
     act_bind require_connection (\<lambda>_.
     sql_guarded (rn_sql env) (\<lambda>e. e = UserRegistryCapacityError \<or> is_conflict e \<or> is_value_error e) UserRegistryStorageError
      (act_bind (sql_begin (rn_sql env)) (\<lambda>_.
       act_bind (insert_user env g request actor) (\<lambda>user.
       act_bind (case access of None \<Rightarrow> act_return ()
         | Some a \<Rightarrow> act_bind (write_camera_access env g user a actor) (\<lambda>_. act_return ())) (\<lambda>_.
       act_bind (insert_credential env g (ua_id user) (bootstrap_row salt verifier issued (issued + ttl * 1000000))) (\<lambda>_.
       act_bind (append_audit env g (ua_id user) ''bootstrap-issued'' actor [''credential_state'']) (\<lambda>_.
       act_bind (sql_commit (rn_sql env)) (\<lambda>_.
       act_bind (reading (rn_monotonic env)) (\<lambda>m.
       act_bind (set_deadline (ua_id user) (Some (verifier, rn_float env (m + of_int ttl)))) (\<lambda>_.
       act_return (user, temporary, issued + ttl * 1000000))))))))))))))))"

text \<open>The rows that \<open>_other_administrator\<close> and \<open>update\<close> count.\<close>

definition is_active_administrator :: "pystr \<Rightarrow> user_db \<Rightarrow> user_row \<Rightarrow> bool" where
  "is_active_administrator site d r \<longleftrightarrow>
     ur_site r = site \<and> ur_role r = ''administrator'' \<and> ur_enabled r = 1 \<and>
     (case credential_of site (ur_id r) d of None \<Rightarrow> False
      | Some c \<Rightarrow> cr_kind c = ''password'' \<and> cr_scheme c = ''scrypt-v1'' \<and> cr_expires_at c = None)"

definition other_administrators :: "pystr \<Rightarrow> user_uuid \<Rightarrow> user_db \<Rightarrow> user_row list" where
  "other_administrators site i d = filter (\<lambda>r. is_active_administrator site d r \<and> ur_id r \<noteq> i) (db_users d)"

definition stamp_time :: "stamp option \<Rightarrow> user_registry_exn + int option" where
  "stamp_time s = (case s of None \<Rightarrow> Inr None | Some (Stamp t) \<Rightarrow> Inr (Some t) | Some Bad_Stamp \<Rightarrow> Inl UserRegistryStorageError)"

definition total_seconds :: "registry_env \<Rightarrow> int \<Rightarrow> rat" where
  "total_seconds env t = rn_float env (of_int t / 1000000)"

text \<open>The two statements change the row of the credential only while it is the pending one that was read.\<close>

definition update_pending :: "pystr \<Rightarrow> user_uuid \<Rightarrow> byte list \<Rightarrow> (credential_row \<Rightarrow> credential_row) \<Rightarrow> user_db \<Rightarrow> user_db" where
  "update_pending site i verifier f d =
     (case credential_of site i d of
        None \<Rightarrow> d
      | Some c \<Rightarrow> if cr_kind c = ''bootstrap'' \<and> cr_verifier c = verifier then with_credential site i (f c) d else d)"

definition expire :: "credential_row \<Rightarrow> credential_row" where
  "expire r = r\<lparr>cr_kind := ''expired-bootstrap''\<rparr>"

definition checked_at :: "int \<Rightarrow> credential_row \<Rightarrow> credential_row" where
  "checked_at t r = r\<lparr>cr_last_checked_at := Some (Stamp t)\<rparr>"

definition bootstrap_eligible :: "registry_env \<Rightarrow> user_registry \<Rightarrow> user_uuid \<Rightarrow> credential_row \<Rightarrow> int \<Rightarrow> bool reg" where
  "bootstrap_eligible env g i c now =
     act_bind (act_lift (stamp_time (cr_expires_at c))) (\<lambda>expiry.
     act_bind (act_lift (stamp_time (cr_issued_at c))) (\<lambda>issued.
     act_bind (act_lift (stamp_time (cr_last_checked_at c))) (\<lambda>last.
     let checked = (if last = None then issued else last) in
     case expiry of None \<Rightarrow> act_raise UserRegistryStorageError
     | Some expiry \<Rightarrow>
         act_bind (act_get (\<lambda>w. rw_deadlines w i)) (\<lambda>known.
         let reconstruct = (case known of None \<Rightarrow> True | Some (v, _) \<Rightarrow> v \<noteq> cr_verifier c) in
         act_bind
           (if reconstruct then
              act_bind (reading (rn_monotonic env)) (\<lambda>m.
                let lifetime = (case issued of None \<Rightarrow> 86400 | Some t \<Rightarrow> total_seconds env (expiry - t));
                    remaining = min (min (total_seconds env (expiry - now)) lifetime) 86400;
                    deadline = rn_float env (m + max 0 remaining)
                in act_bind (set_deadline i (Some (cr_verifier c, deadline))) (\<lambda>_. act_return deadline))
            else act_return (snd (the known))) (\<lambda>deadline.
         act_bind (reading (rn_monotonic env)) (\<lambda>m.
         if deadline \<le> m \<or> reconstruct \<and> (expiry \<le> now \<or> (case checked of None \<Rightarrow> False | Some t \<Rightarrow> now < t)) then
           act_bind (sql_change (rn_sql env) (update_pending (ug_site g) i (cr_verifier c) expire)) (\<lambda>_.
           act_bind (set_deadline i None) (\<lambda>_. act_return False))
         else
           act_bind (sql_change (rn_sql env) (update_pending (ug_site g) i (cr_verifier c)
             (checked_at (case checked of None \<Rightarrow> now | Some t \<Rightarrow> max now t)))) (\<lambda>_.
           act_return True)))))))"

datatype credential_state = Uninitialized | Active | Pending | Expired

text \<open>The left join of an account with its credential.\<close>

definition user_with_credential :: "pystr \<Rightarrow> user_row option \<Rightarrow> user_db \<Rightarrow> (user_row \<times> credential_row option) option" where
  "user_with_credential site row d = map_option (\<lambda>r. (r, credential_of site (ur_id r) d)) row"

definition credential_status :: "registry_env \<Rightarrow> user_registry \<Rightarrow> user_uuid \<Rightarrow> credential_state option reg" where
  "credential_status env g i =
     act_bind require_connection (\<lambda>_.
     sql_shielded UserRegistryStorageError
      (act_bind (sql_select (rn_sql env) (\<lambda>d. user_with_credential (ug_site g) (user_by_id (ug_site g) i d) d)) (\<lambda>row.
       case row of
         None \<Rightarrow> act_return None
       | Some (r, None) \<Rightarrow> act_return (Some Uninitialized)
       | Some (r, Some c) \<Rightarrow>
           (if cr_scheme c \<noteq> ''scrypt-v1'' then act_raise UserRegistryStorageError
            else if cr_kind c = ''password'' \<and> cr_expires_at c = None then act_return (Some Active)
            else if cr_kind c = ''expired-bootstrap'' then act_return (Some Expired)
            else if cr_kind c = ''bootstrap'' then
              act_bind (reading (rn_now env)) (\<lambda>now.
              act_bind (bootstrap_eligible env g (ur_id r) c now) (\<lambda>b.
              act_return (Some (if b then Pending else Expired))))
            else act_raise UserRegistryStorageError))))"

definition refuse_last_administrator :: "registry_env \<Rightarrow> user_registry \<Rightarrow> user_account \<Rightarrow> unit reg" where
  "refuse_last_administrator env g u =
     (if uc_enabled u \<and> uc_role u = ADMINISTRATOR then
        act_bind (credential_status env g (ua_id u)) (\<lambda>status.
        if status = Some Active then
          act_bind (sql_select (rn_sql env) (other_administrators (ug_site g) (ua_id u))) (\<lambda>others.
          if others = [] then act_raise UserRegistryLastAdministratorError else act_return ())
        else act_return ())
      else act_return ())"

definition reset_bootstrap ::
  "registry_env \<Rightarrow> user_registry \<Rightarrow> user_uuid \<Rightarrow> pystr \<Rightarrow> int \<Rightarrow> (user_account \<times> pystr \<times> int) option reg" where
  "reset_bootstrap env g i actor ttl =
     act_bind (act_lift (validate_actor actor)) (\<lambda>actor.
     if \<not> ttl_ok ttl then act_raise (Registry_Raw Py_ValueError) else
     act_bind (reading (rn_token env)) (\<lambda>temporary.
     act_bind (reading (rn_salt env)) (\<lambda>salt.
     act_bind (act_lift (derive_credential env temporary salt)) (\<lambda>verifier.
     act_bind (reading (rn_now env)) (\<lambda>issued.
     act_bind require_connection (\<lambda>_.
     sql_guarded (rn_sql env) (\<lambda>e. is_conflict e \<or> e = UserRegistryStorageError \<or> is_value_error e) UserRegistryStorageError
      (act_bind (sql_begin (rn_sql env)) (\<lambda>_.
       act_bind (registry_get env g i) (\<lambda>user.
       case user of
         None \<Rightarrow> act_bind (sql_commit (rn_sql env)) (\<lambda>_. act_return None)
       | Some u \<Rightarrow>
           act_bind (refuse_last_administrator env g u) (\<lambda>_.
           act_bind (sql_change (rn_sql env)
             (with_credential (ug_site g) (ua_id u) (bootstrap_row salt verifier issued (issued + ttl * 1000000)))) (\<lambda>_.
           act_bind (append_audit env g (ua_id u) ''password-reset'' actor [''credential_state'']) (\<lambda>_.
           act_bind (sql_commit (rn_sql env)) (\<lambda>_.
           act_bind (reading (rn_monotonic env)) (\<lambda>m.
           act_bind (set_deadline (ua_id u) (Some (verifier, rn_float env (m + of_int ttl)))) (\<lambda>_.
           act_return (Some (u, temporary, issued + ttl * 1000000)))))))))))))))))"

section \<open>Passwords\<close>

text \<open>\<open>UPDATE user_credentials ... WHERE site_id = ? AND user_id = ?\<close>.\<close>

definition replace_credential :: "pystr \<Rightarrow> user_uuid \<Rightarrow> credential_row \<Rightarrow> user_db \<Rightarrow> user_db" where
  "replace_credential site i c d = (if credential_of site i d = None then d else with_credential site i c d)"

text \<open>The salt and verifier to compare with, and whether the credential may be used at all.\<close>

definition pending_credential ::
  "registry_env \<Rightarrow> user_registry \<Rightarrow> (user_row \<times> credential_row option) option \<Rightarrow> int \<Rightarrow> (byte list \<times> byte list \<times> bool) reg" where
  "pending_credential env g row now =
     (case row of
        Some (r, Some c) \<Rightarrow>
          (if cr_scheme c \<noteq> ''scrypt-v1'' then act_return (replicate 16 0, replicate 32 0, False)
           else if length (cr_salt c) \<noteq> 16 \<or> length (cr_verifier c) \<noteq> 32 then act_raise UserRegistryStorageError
           else if cr_kind c = ''bootstrap'' \<and> ur_enabled r \<noteq> 0 then
             act_bind (bootstrap_eligible env g (ur_id r) c now) (\<lambda>b. act_return (cr_salt c, cr_verifier c, b))
           else act_return (cr_salt c, cr_verifier c, False))
      | _ \<Rightarrow> act_return (replicate 16 0, replicate 32 0, False))"

text \<open>The comparison, and the replacement of the credential by a password.\<close>

definition consume_bootstrap ::
  "registry_env \<Rightarrow> user_registry \<Rightarrow> (user_row \<times> credential_row option) option \<Rightarrow> byte list \<times> byte list \<times> bool \<Rightarrow> pystr \<Rightarrow>
   byte list \<Rightarrow> byte list \<Rightarrow> pystr \<Rightarrow> user_account option reg" where
  "consume_bootstrap env g row found temporary new_salt new_verifier actor =
     (case found of (salt, expected, eligible) \<Rightarrow>
       act_bind (act_lift (derive_credential env temporary salt)) (\<lambda>candidate.
       if \<not> eligible \<or> candidate \<noteq> expected then act_bind (sql_commit (rn_sql env)) (\<lambda>_. act_return None)
       else case row of
         None \<Rightarrow> act_bind (sql_commit (rn_sql env)) (\<lambda>_. act_return None)
       | Some (r, _) \<Rightarrow>
           act_bind (act_lift (decode_user r)) (\<lambda>user.
           act_bind (sql_change (rn_sql env) (replace_credential (ug_site g) (ua_id user) (password_row new_salt new_verifier))) (\<lambda>_.
           act_bind (append_audit env g (ua_id user) ''bootstrap-consumed'' actor [''credential_state'']) (\<lambda>_.
           act_bind (sql_commit (rn_sql env)) (\<lambda>_.
           act_bind (set_deadline (ua_id user) None) (\<lambda>_.
           act_return (Some user))))))))"

definition activate_bootstrap_password ::
  "registry_env \<Rightarrow> user_registry \<Rightarrow> pystr \<Rightarrow> pystr \<Rightarrow> pystr \<Rightarrow> pystr \<Rightarrow> user_account option reg" where
  "activate_bootstrap_password env g username temporary new_password actor =
     act_bind (act_lift (validate_username username)) (\<lambda>username.
     act_bind (act_lift (validate_actor actor)) (\<lambda>actor.
     if \<not> (12 \<le> len new_password \<and> len new_password \<le> 256) then act_raise (Registry_Raw Py_ValueError)
     else if utf8_encode new_password = None \<or> utf8_encode temporary = None then act_raise (Registry_Raw Py_ValueError)
     else if utf8_encode new_password = utf8_encode temporary then act_raise (Registry_Raw Py_ValueError)
     else
     act_bind (reading (rn_salt env)) (\<lambda>new_salt.
     act_bind (act_lift (derive_credential env new_password new_salt)) (\<lambda>new_verifier.
     act_bind (reading (rn_now env)) (\<lambda>now.
     act_bind require_connection (\<lambda>_.
     sql_guarded (rn_sql env) (\<lambda>e. e = UserRegistryStorageError) UserRegistryStorageError
      (act_bind (sql_begin (rn_sql env)) (\<lambda>_.
       act_bind (sql_select (rn_sql env) (\<lambda>d. user_with_credential (ug_site g) (user_by_name (ug_site g) username d) d)) (\<lambda>row.
       act_bind (pending_credential env g row now) (\<lambda>found.
       consume_bootstrap env g row found temporary new_salt new_verifier actor))))))))))"

definition verify_password_snapshot ::
  "registry_env \<Rightarrow> user_registry \<Rightarrow> pystr \<Rightarrow> pystr \<Rightarrow> (user_account \<times> byte list) option reg" where
  "verify_password_snapshot env g username password =
     act_bind (act_lift (validate_username username)) (\<lambda>username.
     if \<not> (1 \<le> len password \<and> len password \<le> 256) then act_return None else
     act_bind require_connection (\<lambda>_.
     act_bind (sql_shielded UserRegistryStorageError
       (sql_select (rn_sql env) (\<lambda>d. user_with_credential (ug_site g) (user_by_name (ug_site g) username d) d))) (\<lambda>row.
     act_bind (act_lift
       (case row of
          Some (r, Some c) \<Rightarrow>
            (if cr_scheme c \<noteq> ''scrypt-v1'' then Inr (replicate 16 0, replicate 32 0, False)
             else if length (cr_salt c) \<noteq> 16 \<or> length (cr_verifier c) \<noteq> 32 then Inl UserRegistryStorageError
             else Inr (cr_salt c, cr_verifier c, cr_kind c = ''password'' \<and> ur_enabled r \<noteq> 0))
        | _ \<Rightarrow> Inr (replicate 16 0, replicate 32 0, False))) (\<lambda>(salt, expected, eligible).
     act_bind (act_lift (derive_credential env password salt)) (\<lambda>candidate.
     case row of
       None \<Rightarrow> act_return None
     | Some (r, _) \<Rightarrow>
         (if \<not> eligible \<or> candidate \<noteq> expected then act_return None
          else act_bind (act_lift (decode_user r)) (\<lambda>u. act_return (Some (u, rn_sha256 env (salt @ expected))))))))))"

definition verify_password :: "registry_env \<Rightarrow> user_registry \<Rightarrow> pystr \<Rightarrow> pystr \<Rightarrow> user_account option reg" where
  "verify_password env g username password =
     act_bind (verify_password_snapshot env g username password) (\<lambda>verified. act_return (map_option fst verified))"

text \<open>The test both session reads make of the joined row.\<close>

definition has_active_password :: "user_row \<Rightarrow> credential_row \<Rightarrow> bool" where
  "has_active_password r c \<longleftrightarrow>
     ur_enabled r \<noteq> 0 \<and> cr_scheme c = ''scrypt-v1'' \<and> cr_kind c = ''password'' \<and> cr_expires_at c = None"

definition resolve_session :: "registry_env \<Rightarrow> user_registry \<Rightarrow> user_account \<Rightarrow> byte list option \<Rightarrow> user_account option reg" where
  "resolve_session env g account credential_version =
     (case credential_version of
        None \<Rightarrow> act_return None
      | Some known \<Rightarrow>
          if length known \<noteq> 32 then act_return None else
          sql_shielded UserRegistryStorageError
           (act_bind require_connection (\<lambda>_.
            act_bind (sql_select (rn_sql env) (\<lambda>d. user_with_credential (ug_site g) (user_by_id (ug_site g) (ua_id account) d) d)) (\<lambda>row.
            case row of
              Some (r, Some c) \<Rightarrow>
                (if \<not> has_active_password r c then act_return None
                 else act_bind (act_lift (decode_user r)) (\<lambda>current.
                   if uc_role current \<noteq> uc_role account then act_return None
                   else act_return (if rn_sha256 env (cr_salt c @ cr_verifier c) = known then Some current else None)))
            | _ \<Rightarrow> act_return None))))"

definition active_session_snapshot :: "registry_env \<Rightarrow> user_registry \<Rightarrow> user_uuid \<Rightarrow> (user_account \<times> byte list) option reg" where
  "active_session_snapshot env g i =
     sql_shielded UserRegistryStorageError
      (act_bind require_connection (\<lambda>_.
       act_bind (sql_select (rn_sql env) (\<lambda>d. user_with_credential (ug_site g) (user_by_id (ug_site g) i d) d)) (\<lambda>row.
       case row of
         Some (r, Some c) \<Rightarrow>
           (if \<not> has_active_password r c then act_return None
            else if length (cr_salt c) \<noteq> 16 \<or> length (cr_verifier c) \<noteq> 32 then act_raise UserRegistryStorageError
            else act_bind (act_lift (decode_user r)) (\<lambda>u. act_return (Some (u, rn_sha256 env (cr_salt c @ cr_verifier c)))))
       | _ \<Rightarrow> act_return None)))"

section \<open>Changing accounts\<close>

text \<open>\<open>UPDATE users SET display_name, role, enabled WHERE site_id = ? AND id = ?\<close>.\<close>

definition with_fields :: "pystr \<Rightarrow> user_uuid \<Rightarrow> user_account \<Rightarrow> user_db \<Rightarrow> user_db" where
  "with_fields site i u d =
     d\<lparr>db_users := map (\<lambda>r. if ur_site r = site \<and> ur_id r = i
        then r\<lparr>ur_display_name := uc_display_name u, ur_role := role_value (uc_role u), ur_enabled := (if uc_enabled u then 1 else 0)\<rparr>
        else r) (db_users d)\<rparr>"

text \<open>The names of the fields that a patch changes, and the account with them.\<close>

definition patch_changes :: "user_patch \<Rightarrow> user_account \<Rightarrow> string list" where
  "patch_changes p u =
     (if up_display_name p \<noteq> None \<and> up_display_name p \<noteq> Some (uc_display_name u) then [''display_name''] else []) @
     (if up_role p \<noteq> None \<and> up_role p \<noteq> Some (uc_role u) then [''role''] else []) @
     (if up_enabled p \<noteq> None \<and> up_enabled p \<noteq> Some (uc_enabled u) then [''enabled''] else [])"

definition patched :: "user_patch \<Rightarrow> user_account \<Rightarrow> user_registry_exn + user_account" where
  "patched p u =
     map_err (\<lambda>_. Registry_Raw Py_ValidationError)
       (mk_user_account (ua_id u) (uc_username u)
         (case up_display_name p of None \<Rightarrow> uc_display_name u | Some x \<Rightarrow> x)
         (case up_role p of None \<Rightarrow> uc_role u | Some x \<Rightarrow> x)
         (case up_enabled p of None \<Rightarrow> uc_enabled u | Some x \<Rightarrow> x))"

text \<open>The three parts of the transaction after its checks: the guard, the row with its audit, and the grant.\<close>

definition keep_an_administrator :: "registry_env \<Rightarrow> user_registry \<Rightarrow> user_account \<Rightarrow> user_account \<Rightarrow> unit reg" where
  "keep_an_administrator env g current updated =
     (if uc_enabled current \<and> uc_role current = ADMINISTRATOR \<and> (\<not> uc_enabled updated \<or> uc_role updated \<noteq> ADMINISTRATOR) then
        act_bind (sql_select (rn_sql env) (\<lambda>d. len (other_administrators (ug_site g) (ua_id current) d))) (\<lambda>administrators.
        if administrators = 0 then act_raise UserRegistryLastAdministratorError else act_return ())
      else act_return ())"

definition store_changes :: "registry_env \<Rightarrow> user_registry \<Rightarrow> user_uuid \<Rightarrow> user_patch \<Rightarrow> user_account \<Rightarrow> user_account \<Rightarrow> pystr \<Rightarrow> unit reg" where
  "store_changes env g i patch current updated actor =
     act_when (patch_changes patch current \<noteq> [])
       (act_bind (sql_change (rn_sql env) (with_fields (ug_site g) i updated)) (\<lambda>_.
        append_audit env g i ''updated'' actor (patch_changes patch current)))"

definition store_camera ::
  "registry_env \<Rightarrow> user_registry \<Rightarrow> user_account \<Rightarrow> user_account \<Rightarrow> camera_access_arg dyn option \<Rightarrow> pystr \<Rightarrow> unit reg" where
  "store_camera env g current updated access actor =
     (case access of
        Some a \<Rightarrow> act_bind (write_camera_access env g updated a actor) (\<lambda>_. act_return ())
      | None \<Rightarrow>
          act_when (uc_role updated = ADMINISTRATOR \<and> uc_role current \<noteq> ADMINISTRATOR)
            (act_bind (write_camera_access env g updated
               (Inst \<lparr>ca_mode = Inst ''all'', ca_camera_ids = Inst []\<rparr>) actor) (\<lambda>_. act_return ())))"

definition registry_update ::
  "registry_env \<Rightarrow> user_registry \<Rightarrow> user_uuid \<Rightarrow> user_patch \<Rightarrow> pystr \<Rightarrow> camera_access_arg dyn option \<Rightarrow> user_account option reg" where
  "registry_update env g i patch actor access =
     act_bind (act_lift (validate_actor actor)) (\<lambda>actor.
     act_bind require_connection (\<lambda>_.
     sql_guarded (rn_sql env) (\<lambda>e. e = UserRegistryLastAdministratorError \<or> is_value_error e \<or> e = UserRegistryStorageError)
       UserRegistryStorageError
      (act_bind (sql_begin (rn_sql env)) (\<lambda>_.
       act_bind (sql_select (rn_sql env) (user_by_id (ug_site g) i)) (\<lambda>row.
       case row of
         None \<Rightarrow> act_bind (sql_commit (rn_sql env)) (\<lambda>_. act_return None)
       | Some r \<Rightarrow>
           act_bind (act_lift (decode_user r)) (\<lambda>current.
           act_bind (act_lift (patched patch current)) (\<lambda>updated.
           act_bind (case access of None \<Rightarrow> act_return ()
             | Some a \<Rightarrow> act_bind (act_lift (camera_access_value updated a)) (\<lambda>_. act_return ())) (\<lambda>_.
           act_bind (keep_an_administrator env g current updated) (\<lambda>_.
           act_bind (store_changes env g i patch current updated actor) (\<lambda>_.
           act_bind (store_camera env g current updated access actor) (\<lambda>_.
           act_bind (sql_commit (rn_sql env)) (\<lambda>_.
           act_return (Some updated)))))))))))))"

section \<open>Pages and closing\<close>

definition registry_list :: "registry_env \<Rightarrow> user_registry \<Rightarrow> int \<Rightarrow> int \<Rightarrow> user_account list reg" where
  "registry_list env g offset limit =
     (if offset < 0 then act_raise (Registry_Raw Py_ValueError)
      else if \<not> (1 \<le> limit \<and> limit \<le> 100) then act_raise (Registry_Raw Py_ValueError)
      else
       act_bind require_connection (\<lambda>_.
       act_bind (sql_shielded UserRegistryStorageError (sql_select (rn_sql env)
         (\<lambda>d. take (nat limit) (drop (nat offset) (filter (\<lambda>r. ur_site r = ug_site g) (db_users d)))))) (\<lambda>rows.
       act_lift (collect (map decode_user rows)))))"

record user_audit_event =
  ae_event_id :: int
  ae_user_id :: user_uuid
  ae_action :: string
  ae_actor :: pystr
  ae_changed_fields :: "string list"
  ae_occurred_at :: int

definition mk_audit_event :: "audit_row \<Rightarrow> user_registry_exn + user_audit_event" where
  "mk_audit_event r =
     (if 1 \<le> ar_event_id r \<and> 1 \<le> len (ar_action r) \<and> len (ar_action r) \<le> 32 \<and> 1 \<le> len (ar_actor r) \<and> len (ar_actor r) \<le> 64
      then Inr \<lparr>ae_event_id = ar_event_id r, ae_user_id = ar_user r, ae_action = ar_action r, ae_actor = ar_actor r,
                ae_changed_fields = ar_changed_fields r, ae_occurred_at = ar_occurred_at r\<rparr>
      else Inl UserRegistryStorageError)"

definition audit_events :: "registry_env \<Rightarrow> user_registry \<Rightarrow> int \<Rightarrow> int \<Rightarrow> bool \<Rightarrow> user_audit_event list reg" where
  "audit_events env g offset limit newest_first =
     (if offset < 0 then act_raise (Registry_Raw Py_ValueError)
      else if \<not> (1 \<le> limit \<and> limit \<le> 100) then act_raise (Registry_Raw Py_ValueError)
      else
       act_bind require_connection (\<lambda>_.
       act_bind (sql_shielded UserRegistryStorageError (sql_select (rn_sql env)
         (\<lambda>d. let rows = filter (\<lambda>r. ar_site r = ug_site g) (db_audit d)
              in take (nat limit) (drop (nat offset) (if newest_first then rev rows else rows))))) (\<lambda>rows.
       act_lift (collect (map mk_audit_event rows)))))"

text \<open>Closing a connection drops what its transaction did.\<close>

definition registry_close :: "unit reg" where
  "registry_close = act_update (\<lambda>w. (sql_undone w)\<lparr>rw_open := False, rw_deadlines := Map.empty\<rparr>)"

end
