(* ===== verification/User_Authority.thy ===== *)
theory User_Authority
  imports User_Registry
begin

text \<open>
  What the operations of the user registry do to the database, as steps of an abstract transition
  system: every operation is atomic, and what it commits is a sequence of steps. The invariants of the
  accounts are proved for the steps.
\<close>

section \<open>Atomicity\<close>

lemma secures_reading [secures_intros]:
  "secures d (tx_idle d) (reading f) (tx_idle d)" "secures d (tx_open d) (reading f) (tx_open d)"
  "secures d tx_closed (reading f) tx_closed"
  by (auto simp: secures_def act_wp_def reading_def tx_idle_def tx_open_def tx_closed_def)

lemma secures_set_deadline [secures_intros]:
  "secures d (tx_idle d) (set_deadline i x) (tx_idle d)" "secures d (tx_open d) (set_deadline i x) (tx_open d)"
  "secures d tx_closed (set_deadline i x) tx_closed"
  by (auto simp: secures_def set_deadline_def tx_idle_def tx_open_def tx_closed_def)

lemma secures_require [secures_intros]:
  "secures d (tx_idle d) require_connection (tx_idle d)" "secures d (tx_open d) require_connection (tx_open d)"
  by (auto simp: secures_def act_wp_def require_connection_def)

lemma secures_append_audit [secures_intros]: "secures d (tx_open d) (append_audit env g i a x fs) (tx_open d)"
  unfolding append_audit_def by (rule secures_intros)+

lemma secures_insert_user [secures_intros]: "secures d (tx_open d) (insert_user env g r a) (tx_open d)"
  unfolding insert_user_def by (rule secures_intros)+

lemma secures_insert_credential [secures_intros]: "secures d (tx_open d) (insert_credential env g i c) (tx_open d)"
  unfolding insert_credential_def by (rule secures_intros)+

lemma secures_refuse_if [secures_intros]: "secures d (tx_open d) (refuse_if env q) (tx_open d)"
  unfolding refuse_if_def by (rule secures_intros)+

lemma secures_read_camera [secures_intros]:
  "secures d (tx_idle d) (read_camera_access env g u) (tx_idle d)" "secures d (tx_open d) (read_camera_access env g u) (tx_open d)"
  unfolding read_camera_access_def by (rule secures_intros)+

lemma secures_write_camera [secures_intros]: "secures d (tx_open d) (write_camera_access env g u x a) (tx_open d)"
  unfolding write_camera_access_def by (rule secures_intros)+

lemma secures_get_user [secures_intros]:
  "secures d (tx_idle d) (registry_get env g i) (tx_idle d)" "secures d (tx_open d) (registry_get env g i) (tx_open d)"
  unfolding registry_get_def by (rule secures_intros)+

lemma secures_idle_closed: "secures d P m (tx_idle d') \<Longrightarrow> secures d P m tx_closed"
  unfolding secures_def by (auto elim!: act_wp_mono simp: tx_idle_def tx_closed_def)

lemma secures_eligible [secures_intros]:
  "secures d (tx_idle d) (bootstrap_eligible env g i c now) tx_closed"
  "secures d (tx_open d) (bootstrap_eligible env g i c now) (tx_open d)"
  unfolding bootstrap_eligible_def Let_def by (rule secures_intros)+

text \<open>
  An operation started with no open transaction leaves none when it returns, and the database as it was
  when it raises. One that finds a transaction an earlier call left open changes nothing that others see.
\<close>

definition atomic :: "'a reg \<Rightarrow> bool" where
  "atomic m \<longleftrightarrow> (\<forall>d. secures d (tx_idle d) m tx_closed \<and> secures d (tx_open d) m (tx_open d))"

lemma atomicI: "(\<And>d. secures d (tx_idle d) m tx_closed) \<Longrightarrow> (\<And>d. secures d (tx_open d) m (tx_open d)) \<Longrightarrow> atomic m"
  by (simp add: atomic_def)

lemma atomic_cases:
  assumes "atomic m" and "m w = (r, w')"
  shows "committed w' = committed w \<or> (\<exists>y. r = Inr y) \<and> sq_backup w = None \<and> sq_backup w' = None"
    and "r = Inl e \<Longrightarrow> committed w' = committed w"
proof -
  have "case r of Inl _ \<Rightarrow> committed w' = committed w | Inr _ \<Rightarrow> if sq_backup w = None then sq_backup w' = None else committed w' = committed w"
  proof (cases "sq_backup w")
    case None
    then have "tx_idle (sq_db w) w" by (simp add: tx_idle_def)
    with securesD [of "sq_db w" "tx_idle (sq_db w)" m tx_closed w r w'] assms None show ?thesis
      by (auto simp: atomic_def tx_closed_def split: sum.splits)
  next
    case (Some d)
    then have "tx_open d w" by (simp add: tx_open_def)
    with securesD [of d "tx_open d" m "tx_open d" w r w'] assms Some show ?thesis
      by (auto simp: atomic_def tx_open_def split: sum.splits)
  qed
  then show "committed w' = committed w \<or> (\<exists>y. r = Inr y) \<and> sq_backup w = None \<and> sq_backup w' = None"
    and "r = Inl e \<Longrightarrow> committed w' = committed w"
    by (auto split: sum.splits if_splits)
qed

lemma atomic_create: "atomic (registry_create env g r a)"
  unfolding registry_create_def by (rule atomicI; (rule secures_begin_stale secures_intros)+)

lemma atomic_bootstrap_administrator: "atomic (bootstrap_administrator env g r p)"
  unfolding bootstrap_administrator_def by (rule atomicI; (rule secures_begin_stale secures_intros)+)

lemma atomic_create_with_bootstrap: "atomic (create_with_bootstrap env g r a ttl x)"
  unfolding create_with_bootstrap_def by (rule atomicI; (rule secures_begin_stale secures_intros)+)

lemma atomic_get: "atomic (registry_get env g i)"
  by (rule atomicI; (rule secures_idle_closed)?, rule secures_intros)

lemma atomic_get_camera: "atomic (get_camera_access env g i)"
  unfolding get_camera_access_def by (rule atomicI; (rule secures_idle_closed)?, (rule secures_intros)+)

lemma atomic_set_camera: "atomic (set_camera_access env g i x a)"
  unfolding set_camera_access_def by (rule atomicI; (rule secures_begin_stale secures_intros)+)

lemma secures_return_closed: "secures d (tx_idle d) (act_return x) tx_closed"
  by (rule secures_idle_closed) (rule secures_return)

lemma secures_status [secures_intros]: "secures d (tx_open d) (credential_status env g i) (tx_open d)"
  unfolding credential_status_def by (rule secures_intros)+

lemma atomic_status: "atomic (credential_status env g i)"
proof (rule atomicI)
  fix d show "secures d (tx_open d) (credential_status env g i) (tx_open d)" by (rule secures_intros)
next
  fix d show "secures d (tx_idle d) (credential_status env g i) tx_closed"
    unfolding credential_status_def
    apply (rule secures_bind, rule secures_intros)
    apply (rule secures_shielded, rule secures_bind, rule secures_intros)
    apply (rule secures_option, rule secures_return_closed, rule secures_prod)
    apply (rule secures_option, rule secures_return_closed)
    apply (rule secures_if, rule secures_intros)
    apply (rule secures_if, rule secures_return_closed)
    apply (rule secures_if, rule secures_return_closed)
    apply (rule secures_intros)+
    done
qed

lemma secures_refuse_last [secures_intros]: "secures d (tx_open d) (refuse_last_administrator env g u) (tx_open d)"
  unfolding refuse_last_administrator_def by (rule secures_intros)+

lemma secures_pending [secures_intros]: "secures d (tx_open d) (pending_credential env g row now) (tx_open d)"
  unfolding pending_credential_def by (rule secures_intros)+

lemma secures_update_parts [secures_intros]:
  "secures d (tx_open d) (keep_an_administrator env g u v) (tx_open d)"
  "secures d (tx_open d) (store_changes env g i p u v a) (tx_open d)"
  "secures d (tx_open d) (store_camera env g u v x a) (tx_open d)"
  unfolding keep_an_administrator_def store_changes_def store_camera_def by (rule secures_intros)+

lemma atomic_reset: "atomic (reset_bootstrap env g i a ttl)"
  unfolding reset_bootstrap_def by (rule atomicI; (rule secures_begin_stale secures_intros)+)

lemma atomic_activate: "atomic (activate_bootstrap_password env g n t p a)"
  unfolding activate_bootstrap_password_def consume_bootstrap_def by (rule atomicI; (rule secures_begin_stale secures_intros)+)

lemma atomic_update: "atomic (registry_update env g i p a x)"
  unfolding registry_update_def by (rule atomicI; (rule secures_begin_stale secures_intros)+)

lemma secures_verify [secures_intros]:
  "secures d (tx_idle d) (verify_password_snapshot env g n p) (tx_idle d)"
  "secures d (tx_open d) (verify_password_snapshot env g n p) (tx_open d)"
  unfolding verify_password_snapshot_def by (rule secures_intros)+

lemma atomic_verify: "atomic (verify_password_snapshot env g n p)"
  by (rule atomicI; (rule secures_idle_closed)?, rule secures_intros)

lemma atomic_resolve: "atomic (resolve_session env g u v)"
  unfolding resolve_session_def by (rule atomicI; (rule secures_idle_closed)?, (rule secures_intros)+)

lemma atomic_active_snapshot: "atomic (active_session_snapshot env g i)"
  unfolding active_session_snapshot_def by (rule atomicI; (rule secures_idle_closed)?, (rule secures_intros)+)

lemma atomic_list: "atomic (registry_list env g offset limit)"
  unfolding registry_list_def by (rule atomicI; (rule secures_idle_closed)?, (rule secures_intros)+)

lemma atomic_audit_events: "atomic (audit_events env g offset limit newest)"
  unfolding audit_events_def by (rule atomicI; (rule secures_idle_closed)?, (rule secures_intros)+)

lemmas atomic_operations = atomic_create atomic_bootstrap_administrator atomic_create_with_bootstrap atomic_get
  atomic_get_camera atomic_set_camera atomic_status atomic_reset atomic_activate atomic_update atomic_verify
  atomic_resolve atomic_active_snapshot atomic_list atomic_audit_events

section \<open>Effects\<close>

lemma effect_readingE [effect_elims]: "effect (reading f) d y d' \<Longrightarrow> (\<And>k. y = f k \<Longrightarrow> d' = d \<Longrightarrow> R) \<Longrightarrow> R"
  by (auto simp: effect_def reading_def)

lemma effect_requireE [effect_elims]: "effect require_connection d y d' \<Longrightarrow> (d' = d \<Longrightarrow> R) \<Longrightarrow> R"
  by (auto simp: effect_def require_connection_def split: if_splits)

lemma effect_deadlineE [effect_elims]: "effect (set_deadline i x) d y d' \<Longrightarrow> (d' = d \<Longrightarrow> R) \<Longrightarrow> R"
  by (auto simp: effect_def set_deadline_def act_update_def)

lemma effect_auditE [effect_elims]:
  "effect (append_audit env g i a x fs) d y d' \<Longrightarrow> (\<And>t. d' = with_audit (ug_site g) i a x fs t d \<Longrightarrow> R) \<Longrightarrow> R"
  by (auto simp: append_audit_def elim!: effect_elims)

lemma effect_refuse_ifE [effect_elims]: "effect (refuse_if env q) d y d' \<Longrightarrow> (\<not> q d \<Longrightarrow> d' = d \<Longrightarrow> R) \<Longrightarrow> R"
  by (auto simp: refuse_if_def elim!: effect_elims split: if_splits)

lemma effect_insert_credentialE [effect_elims]:
  "effect (insert_credential env g i c) d y d' \<Longrightarrow>
   (credential_of (ug_site g) i d = None \<Longrightarrow> d' = with_credential (ug_site g) i c d \<Longrightarrow> R) \<Longrightarrow> R"
  by (auto simp: insert_credential_def elim!: effect_elims split: if_splits)

text \<open>The account that an insertion makes.\<close>

definition created_from :: "user_create \<Rightarrow> user_account \<Rightarrow> bool" where
  "created_from r u \<longleftrightarrow> user_create_wf u \<and> uc_role u = uc_role r \<and> uc_enabled u = uc_enabled r \<and>
     check_username (uc_username r) = Inr (uc_username u) \<and> check_display_name (uc_display_name r) = Inr (uc_display_name u)"

definition may_add :: "user_registry \<Rightarrow> user_account \<Rightarrow> user_db \<Rightarrow> bool" where
  "may_add g u d \<longleftrightarrow> user_by_name (ug_site g) (uc_username u) d = None \<and> user_by_id (ug_site g) (ua_id u) d = None \<and>
     len (filter (\<lambda>r. ur_site r = ug_site g) (db_users d)) < ug_capacity g"

lemma effect_insert_user:
  assumes "effect (insert_user env g r a) d u d'"
  shows "created_from r u \<and> may_add g u d \<and> (\<exists>t.
      d' = with_audit (ug_site g) (ua_id u) ''created'' a [''username'', ''display_name'', ''role'', ''enabled''] t
        (with_user (user_row_of (ug_site g) u) d))"
  using assms unfolding insert_user_def
  by (auto elim!: effect_elims split: if_splits
    simp: k5_inv mk_user_account_def created_from_def may_add_def user_create_wf_def; blast)

lemmas effect_insert_userE [effect_elims] = effect_insert_user [elim_format]

lemma effect_read_cameraE [effect_elims]: "effect (read_camera_access env g u) d y d' \<Longrightarrow> (d' = d \<Longrightarrow> R) \<Longrightarrow> R"
  by (auto simp: read_camera_access_def elim!: effect_elims split: option.splits if_splits)

lemma effect_write_camera:
  assumes "effect (write_camera_access env g u x a) d y d'"
  shows "camera_access_value u x = Inr y \<and> (d' = with_camera (ug_site g) (ua_id u) y d \<or> (\<exists>t.
      d' = with_audit (ug_site g) (ua_id u) ''camera-access-updated'' a [''camera_access''] t (with_camera (ug_site g) (ua_id u) y d)))"
  using assms unfolding write_camera_access_def by (auto elim!: effect_elims; blast)

lemmas effect_write_cameraE [effect_elims] = effect_write_camera [elim_format]

lemma effect_get:
  assumes "effect (registry_get env g i) d y d'"
  shows "d' = d \<and> (case y of None \<Rightarrow> user_by_id (ug_site g) i d = None
    | Some u \<Rightarrow> \<exists>r. user_by_id (ug_site g) i d = Some r \<and> decode_user r = Inr u)"
  using assms unfolding registry_get_def by (auto elim!: effect_elims split: option.splits)

lemmas effect_getuE [effect_elims] = effect_get [elim_format]

lemma effect_eligible:
  assumes "effect (bootstrap_eligible env g i c now) d y d'"
  shows "\<not> y \<and> d' = update_pending (ug_site g) i (cr_verifier c) expire d \<or>
    y \<and> (\<exists>t. d' = update_pending (ug_site g) i (cr_verifier c) (checked_at t) d)"
  using assms unfolding bootstrap_eligible_def Let_def
  by (auto elim!: effect_elims split: option.splits if_splits; blast)

lemmas effect_eligibleE [effect_elims] = effect_eligible [elim_format]

section \<open>The abstract steps\<close>

text \<open>
  What a registry may do to the database in one step: the guards are the promises the operations keep
  towards each other, stated on the data and not on the code.
\<close>

inductive registry_step :: "user_registry \<Rightarrow> user_db \<Rightarrow> user_db \<Rightarrow> bool" for g where
  step_user: "user_create_wf u \<Longrightarrow> may_add g u d \<Longrightarrow> registry_step g d (with_user (user_row_of (ug_site g) u) d)"
| step_credential: "credential_of (ug_site g) i d = None \<Longrightarrow> registry_step g d (with_credential (ug_site g) i c d)"
| step_reset: "user_by_id (ug_site g) i d = Some r \<Longrightarrow>
    is_active_administrator (ug_site g) d r \<longrightarrow> other_administrators (ug_site g) i d \<noteq> [] \<Longrightarrow>
    registry_step g d (with_credential (ug_site g) i (bootstrap_row s v t t') d)"
| step_activate: "credential_of (ug_site g) i d = Some c \<Longrightarrow> cr_kind c = ''bootstrap'' \<Longrightarrow>
    registry_step g d (with_credential (ug_site g) i (password_row s v) d)"
| step_pending: "f = expire \<or> f = checked_at t \<Longrightarrow> registry_step g d (update_pending (ug_site g) i v f d)"
| step_fields: "user_by_id (ug_site g) i d = Some r \<Longrightarrow> user_create_wf u \<Longrightarrow>
    is_active_administrator (ug_site g) d r \<longrightarrow>
      uc_enabled u \<and> uc_role u = ADMINISTRATOR \<or> other_administrators (ug_site g) i d \<noteq> [] \<Longrightarrow>
    registry_step g d (with_fields (ug_site g) i u d)"
| step_camera: "registry_step g d (with_camera (ug_site g) i a d)"
| step_audit: "registry_step g d (with_audit (ug_site g) i a x fs t d)"

abbreviation registry_steps :: "user_registry \<Rightarrow> user_db \<Rightarrow> user_db \<Rightarrow> bool" where
  "registry_steps g \<equiv> (registry_step g)\<^sup>*\<^sup>*"

lemma steps_append: "registry_steps g d d1 \<Longrightarrow> registry_step g d1 d2 \<Longrightarrow> registry_steps g d d2"
  by (rule rtranclp.rtrancl_into_rtrancl)

lemma steps_audit [intro!]: "registry_steps g d d1 \<Longrightarrow> registry_steps g d (with_audit (ug_site g) i a x fs t d1)"
  and steps_camera [intro!]: "registry_steps g d d1 \<Longrightarrow> registry_steps g d (with_camera (ug_site g) i c d1)"
  and steps_expire [intro!]: "registry_steps g d d1 \<Longrightarrow> registry_steps g d (update_pending (ug_site g) i v expire d1)"
  and steps_checked [intro!]: "registry_steps g d d1 \<Longrightarrow> registry_steps g d (update_pending (ug_site g) i v (checked_at t') d1)"
  by (auto intro: steps_append registry_step.intros)

lemma db_simps [simp]:
  "credential_of s i (with_audit s' j a x fs t d) = credential_of s i d"
  "user_by_id s i (with_audit s' j a x fs t d) = user_by_id s i d"
  "user_by_name s n (with_audit s' j a x fs t d) = user_by_name s n d"
  "credential_of s i (with_camera s' j ca d) = credential_of s i d"
  "user_by_id s i (with_camera s' j ca d) = user_by_id s i d"
  "user_by_name s n (with_camera s' j ca d) = user_by_name s n d"
  "credential_of s i (with_user r d) = credential_of s i d"
  "user_by_id s i (with_credential s' j c d) = user_by_id s i d"
  "user_by_name s n (with_credential s' j c d) = user_by_name s n d"
  "credential_of s i (with_fields s' j u d) = credential_of s i d"
  by (simp_all add: credential_of_def user_by_id_def user_by_name_def with_audit_def with_camera_def with_user_def
    with_credential_def with_fields_def)

lemma credential_of_with: "credential_of s i (with_credential s' j c d) = (if (s, i) = (s', j) then Some c else credential_of s i d)"
  by (auto simp: credential_of_def with_credential_def update_conv')

lemma update_pending_simps [simp]:
  "db_users (update_pending s i v f d) = db_users d" "db_audit (update_pending s i v f d) = db_audit d"
  "db_camera (update_pending s i v f d) = db_camera d"
  "user_by_id s' j (update_pending s i v f d) = user_by_id s' j d"
  "user_by_name s' n (update_pending s i v f d) = user_by_name s' n d"
  by (auto simp: update_pending_def with_credential_def user_by_id_def user_by_name_def split: option.split)

lemma credential_of_pending:
  "credential_of s' j (update_pending s i v f d) =
     (if (s', j) = (s, i) then map_option (\<lambda>c. if cr_kind c = ''bootstrap'' \<and> cr_verifier c = v then f c else c) (credential_of s i d)
      else credential_of s' j d)"
  by (auto simp: update_pending_def credential_of_with split: option.split)

lemma pending_kinds [simp]:
  "cr_kind (expire c) = ''expired-bootstrap''" "cr_kind (checked_at t c) = cr_kind c"
  "cr_verifier (checked_at t c) = cr_verifier c" "cr_salt (checked_at t c) = cr_salt c" "cr_scheme (checked_at t c) = cr_scheme c"
  by (simp_all add: expire_def checked_at_def)

lemma user_by_idD: "user_by_id s i d = Some r \<Longrightarrow> r \<in> set (db_users d) \<and> ur_site r = s \<and> ur_id r = i"
  by (auto simp: user_by_id_def find_Some_iff)

lemma user_by_nameD: "user_by_name s n d = Some r \<Longrightarrow> r \<in> set (db_users d) \<and> ur_site r = s \<and> nocase (ur_username r) = nocase n"
  by (auto simp: user_by_name_def find_Some_iff)

lemma decode_userD:
  "decode_user r = Inr u \<Longrightarrow> ua_id u = ur_id r \<and> ur_role r = role_value (uc_role u) \<and> uc_enabled u = (ur_enabled r \<noteq> 0) \<and> user_create_wf u"
  by (auto simp: decode_user_def k5_inv user_role_of_Some dest: mk_user_account_Inr mk_user_account_wf split: option.splits)

text \<open>Looking at a pending credential only notes when that was, or that it has expired.\<close>

definition bookkeeping :: "user_registry \<Rightarrow> user_db \<Rightarrow> user_db \<Rightarrow> bool" where
  "bookkeeping g d d' \<longleftrightarrow> d' = d \<or> (\<exists>i v f t. (f = expire \<or> f = checked_at t) \<and> d' = update_pending (ug_site g) i v f d)"

lemma bookkeepingI [simp, intro!]:
  "bookkeeping g d d" "bookkeeping g d (update_pending (ug_site g) i v expire d)"
  "bookkeeping g d (update_pending (ug_site g) i v (checked_at t) d)"
  unfolding bookkeeping_def by blast+

lemma bookkeeping_steps: "bookkeeping g d d' \<Longrightarrow> registry_steps g d d'"
  by (auto simp: bookkeeping_def)

text \<open>The status read before a reset.\<close>

lemma effect_status:
  assumes "effect (credential_status env g i) d y d'"
  shows "bookkeeping g d d' \<and> user_by_id (ug_site g) i d' = user_by_id (ug_site g) i d \<and> (y = Some Active \<longrightarrow> d' = d) \<and>
    (\<forall>r. y \<noteq> Some Active \<longrightarrow> user_by_id (ug_site g) i d = Some r \<longrightarrow> \<not> is_active_administrator (ug_site g) d' r)"
  using assms unfolding credential_status_def
  by (auto elim!: effect_elims split: option.splits prod.splits if_splits
    simp: user_with_credential_def is_active_administrator_def credential_of_pending dest: user_by_idD)

section \<open>Every operation is a sequence of steps\<close>

lemma steps_created:
  "user_create_wf u \<Longrightarrow> may_add g u d \<Longrightarrow> registry_steps g d (with_user (user_row_of (ug_site g) u) d)"
  by (auto intro: step_user)

lemma steps_new_credential:
  "registry_steps g d d1 \<Longrightarrow> credential_of (ug_site g) i d1 = None \<Longrightarrow> registry_steps g d (with_credential (ug_site g) i c d1)"
  by (auto intro: steps_append step_credential)

lemma effect_create: "effect (registry_create env g r a) d u d' \<Longrightarrow> registry_steps g d d'"
  unfolding registry_create_def by (auto elim!: effect_elims intro!: steps_created simp: created_from_def)

lemma effect_bootstrap_administrator: "effect (bootstrap_administrator env g r p) d u d' \<Longrightarrow> registry_steps g d d'"
  unfolding bootstrap_administrator_def
  by (auto elim!: effect_elims intro!: steps_new_credential steps_audit steps_created simp: created_from_def split: if_splits)

lemma effect_create_with_bootstrap: "effect (create_with_bootstrap env g r a ttl x) d y d' \<Longrightarrow> registry_steps g d d'"
  unfolding create_with_bootstrap_def
  by (auto elim!: effect_elims intro!: steps_new_credential steps_audit steps_camera steps_created simp: created_from_def split: if_splits option.splits)

lemma effect_get_camera: "effect (get_camera_access env g i) d y d' \<Longrightarrow> d' = d"
  unfolding get_camera_access_def by (auto elim!: effect_elims split: option.splits)

lemma effect_set_camera: "effect (set_camera_access env g i x a) d y d' \<Longrightarrow> registry_steps g d d'"
  unfolding set_camera_access_def by (auto elim!: effect_elims split: option.splits)

lemma steps_fields:
  assumes "user_by_id (ug_site g) i d = Some r" and "decode_user r = Inr cur" and "user_create_wf u"
    and "uc_enabled cur \<and> uc_role cur = ADMINISTRATOR \<longrightarrow>
      uc_enabled u \<and> uc_role u = ADMINISTRATOR \<or> other_administrators (ug_site g) i d \<noteq> []"
  shows "registry_steps g d (with_fields (ug_site g) i u d)"
proof -
  have "uc_role cur = ADMINISTRATOR" if "ur_role r = ''administrator''"
    using decode_userD [OF assms(2)] that by (cases "uc_role cur") simp_all
  then show ?thesis
    using assms decode_userD [OF assms(2)]
    by (intro r_into_rtranclp step_fields [where r = r]) (auto simp: is_active_administrator_def)
qed

lemma patched_wf: "patched p u = Inr u' \<Longrightarrow> user_create_wf u' \<and> ua_id u' = ua_id u"
  by (auto simp: patched_def k5_inv dest: mk_user_account_wf mk_user_account_Inr)

lemma effect_keep_an_administrator:
  "effect (keep_an_administrator env g u v) d y d' \<Longrightarrow> d' = d \<and>
   (uc_enabled u \<and> uc_role u = ADMINISTRATOR \<longrightarrow> uc_enabled v \<and> uc_role v = ADMINISTRATOR \<or> other_administrators (ug_site g) (ua_id u) d \<noteq> [])"
  unfolding keep_an_administrator_def by (auto elim!: effect_elims split: if_splits)

lemma effect_store_changes:
  "effect (store_changes env g i p u v a) d y d' \<Longrightarrow>
   patch_changes p u = [] \<and> d' = d \<or>
   patch_changes p u \<noteq> [] \<and> (\<exists>t. d' = with_audit (ug_site g) i ''updated'' a (patch_changes p u) t (with_fields (ug_site g) i v d))"
  unfolding store_changes_def by (auto elim!: effect_elims; blast)

lemma effect_store_camera:
  "effect (store_camera env g u v x a) d y d' \<Longrightarrow>
   d' = d \<or> (\<exists>c. d' = with_camera (ug_site g) (ua_id v) c d) \<or>
   (\<exists>c t. d' = with_audit (ug_site g) (ua_id v) ''camera-access-updated'' a [''camera_access''] t (with_camera (ug_site g) (ua_id v) c d))"
  unfolding store_camera_def by (auto elim!: effect_elims split: option.splits; blast)

text \<open>What an update that returns has done.\<close>

lemma effect_update:
  assumes "effect (registry_update env g i p a x) d y d'"
  shows "y = None \<and> d' = d \<and> user_by_id (ug_site g) i d = None \<or>
    (\<exists>r cur u a' d1. y = Some u \<and> validate_actor a = Inr a' \<and> user_by_id (ug_site g) i d = Some r \<and> decode_user r = Inr cur \<and>
       patched p cur = Inr u \<and> effect (keep_an_administrator env g cur u) d () d \<and>
       effect (store_changes env g i p cur u a') d () d1 \<and> effect (store_camera env g cur u x a') d1 () d')"
proof -
  from assms obtain a' row where a: "validate_actor a = Inr a'" and rw: "row = user_by_id (ug_site g) i d"
    and rest: "effect (case row of None \<Rightarrow> act_bind (sql_commit (rn_sql env)) (\<lambda>_. act_return None)
      | Some r \<Rightarrow> act_bind (act_lift (decode_user r)) (\<lambda>current. act_bind (act_lift (patched p current)) (\<lambda>updated.
          act_bind (case x of None \<Rightarrow> act_return () | Some a \<Rightarrow> act_bind (act_lift (camera_access_value updated a)) (\<lambda>_. act_return ())) (\<lambda>_.
          act_bind (keep_an_administrator env g current updated) (\<lambda>_.
          act_bind (store_changes env g i p current updated a') (\<lambda>_.
          act_bind (store_camera env g current updated x a') (\<lambda>_.
          act_bind (sql_commit (rn_sql env)) (\<lambda>_. act_return (Some updated))))))))) d y d'"
    unfolding registry_update_def by (elim effect_elims) auto
  show ?thesis
  proof (cases row)
    case None
    with rest rw show ?thesis by (auto elim!: effect_elims)
  next
    case (Some r)
    with rest obtain cur u d0 d1 where e: "decode_user r = Inr cur" "patched p cur = Inr u" "y = Some u"
      "effect (keep_an_administrator env g cur u) d () d0" "effect (store_changes env g i p cur u a') d0 () d1"
      "effect (store_camera env g cur u x a') d1 () d'"
      by (cases x) (auto elim!: effect_elims)
    with effect_keep_an_administrator [OF e(4)] Some a rw show ?thesis by auto
  qed
qed

lemma steps_update:
  assumes "effect (registry_update env g i p a x) d y d'"
  shows "registry_steps g d d'"
  using effect_update [OF assms]
proof (elim disjE exE conjE)
  fix r cur u a' d1
  assume r: "user_by_id (ug_site g) i d = Some r" "decode_user r = Inr cur" and p: "patched p cur = Inr u"
    and e: "effect (keep_an_administrator env g cur u) d () d" "effect (store_changes env g i p cur u a') d () d1"
      "effect (store_camera env g cur u x a') d1 () d'"
  from decode_userD [OF r(2)] user_by_idD [OF r(1)] have "ua_id cur = i" by simp
  with steps_fields [OF r] patched_wf [OF p] effect_keep_an_administrator [OF e(1)]
  have "registry_steps g d (with_fields (ug_site g) i u d)" by auto
  with effect_store_changes [OF e(2)] have "registry_steps g d d1" by auto
  with effect_store_camera [OF e(3)] show ?thesis by auto
qed simp

lemma effect_refuse_last:
  assumes "effect (refuse_last_administrator env g u) d y d'" and "user_by_id (ug_site g) i d = Some r" and "decode_user r = Inr u"
  shows "bookkeeping g d d' \<and> user_by_id (ug_site g) i d' = Some r \<and>
    (is_active_administrator (ug_site g) d' r \<longrightarrow> other_administrators (ug_site g) i d' \<noteq> [])"
proof -
  from decode_userD [OF assms(3)] user_by_idD [OF assms(2)]
  have u: "ua_id u = i" "ur_role r = role_value (uc_role u)" "uc_enabled u = (ur_enabled r \<noteq> 0)" by simp_all
  show ?thesis
  proof (cases "uc_enabled u \<and> uc_role u = ADMINISTRATOR")
    case False
    with u have "\<not> is_active_administrator (ug_site g) d' r" by (cases "uc_role u") (auto simp: is_active_administrator_def)
    moreover from False assms(1) have "d' = d" unfolding refuse_last_administrator_def by (auto elim!: effect_elims split: if_splits)
    ultimately show ?thesis using assms(2) by simp
  next
    case True
    with assms(1) u(1) obtain st d1 where st: "effect (credential_status env g i) d st d1"
      and rest: "if st = Some Active then d' = d1 \<and> other_administrators (ug_site g) i d1 \<noteq> [] else d' = d1"
      unfolding refuse_last_administrator_def by (auto elim!: effect_elims split: if_splits)
    from effect_status [OF st] rest assms(2) show ?thesis by (auto split: if_splits)
  qed
qed

lemma effect_reset:
  assumes "effect (reset_bootstrap env g i a ttl) d y d'"
  shows "y = None \<and> d' = d \<and> user_by_id (ug_site g) i d = None \<or>
    (\<exists>a' r u tmp s v t d1 t'. y = Some (u, tmp, t + ttl * 1000000) \<and> validate_actor a = Inr a' \<and> derive_credential env tmp s = Inr v \<and>
       user_by_id (ug_site g) i d = Some r \<and> decode_user r = Inr u \<and> effect (refuse_last_administrator env g u) d () d1 \<and>
       d' = with_audit (ug_site g) i ''password-reset'' a' [''credential_state''] t'
         (with_credential (ug_site g) i (bootstrap_row s v t (t + ttl * 1000000)) d1))"
proof -
  from assms obtain a' tmp s v t user d0 where a: "validate_actor a = Inr a'" "derive_credential env tmp s = Inr v"
    and user: "effect (registry_get env g i) d user d0"
    and rest: "effect (case user of None \<Rightarrow> act_bind (sql_commit (rn_sql env)) (\<lambda>_. act_return None)
       | Some u \<Rightarrow>
           act_bind (refuse_last_administrator env g u) (\<lambda>_.
           act_bind (sql_change (rn_sql env)
             (with_credential (ug_site g) (ua_id u) (bootstrap_row s v t (t + ttl * 1000000)))) (\<lambda>_.
           act_bind (append_audit env g (ua_id u) ''password-reset'' a' [''credential_state'']) (\<lambda>_.
           act_bind (sql_commit (rn_sql env)) (\<lambda>_.
           act_bind (reading (rn_monotonic env)) (\<lambda>m.
           act_bind (set_deadline (ua_id u) (Some (v, rn_float env (m + of_int ttl)))) (\<lambda>_.
           act_return (Some (u, tmp, t + ttl * 1000000))))))))) d0 y d'"
    unfolding reset_bootstrap_def
    by (auto elim!: effect_bindE effect_liftE effect_readingE effect_requireE effect_guardedE
      effect_beginE effect_raiseE split: if_splits)
  from effect_get [OF user] have d0: "d0 = d" by simp
  show ?thesis
  proof (cases user)
    case None
    with rest effect_get [OF user] d0 show ?thesis by (auto elim!: effect_elims)
  next
    case (Some u)
    with effect_get [OF user] obtain r where r: "user_by_id (ug_site g) i d = Some r" "decode_user r = Inr u" by auto
    with decode_userD [OF r(2)] user_by_idD [OF r(1)] have "ua_id u = i" by simp
    with rest Some d0 obtain d1 t' where "effect (refuse_last_administrator env g u) d () d1" "y = Some (u, tmp, t + ttl * 1000000)"
      "d' = with_audit (ug_site g) i ''password-reset'' a' [''credential_state''] t'
         (with_credential (ug_site g) i (bootstrap_row s v t (t + ttl * 1000000)) d1)"
      by (auto elim!: effect_elims)
    with r a show ?thesis by blast
  qed
qed

lemma steps_reset:
  assumes "effect (reset_bootstrap env g i a ttl) d y d'"
  shows "registry_steps g d d'"
  using effect_reset [OF assms]
proof (elim disjE exE conjE)
  fix a' r u tmp s v t d1 t'
  assume r: "user_by_id (ug_site g) i d = Some r" "decode_user r = Inr u" and e: "effect (refuse_last_administrator env g u) d () d1"
    and d': "d' = with_audit (ug_site g) i ''password-reset'' a' [''credential_state''] t'
         (with_credential (ug_site g) i (bootstrap_row s v t (t + ttl * 1000000)) d1)"
  from effect_refuse_last [OF e r] have e': "registry_steps g d d1" "registry_step g d1 (with_credential (ug_site g) i (bootstrap_row s v t (t + ttl * 1000000)) d1)"
    by (auto intro: bookkeeping_steps step_reset)
  show ?thesis unfolding d' by (rule steps_audit) (rule steps_append [OF e'])
qed simp

text \<open>The row whose secret is compared, when the comparison can succeed.\<close>

lemma effect_pending:
  assumes "effect (pending_credential env g row now) d y d'"
  shows "(snd (snd y) \<longrightarrow> (\<exists>r c t. row = Some (r, Some c) \<and> cr_scheme c = ''scrypt-v1'' \<and> cr_kind c = ''bootstrap'' \<and> ur_enabled r \<noteq> 0 \<and>
      fst y = cr_salt c \<and> fst (snd y) = cr_verifier c \<and> d' = update_pending (ug_site g) (ur_id r) (cr_verifier c) (checked_at t) d)) \<and>
    bookkeeping g d d'"
  using assms unfolding pending_credential_def
  by (auto elim!: effect_elims split: option.splits prod.splits if_splits)

text \<open>What an activation that returns an account has checked and done.\<close>

lemma effect_activate:
  assumes "effect (activate_bootstrap_password env g n tmp pw a) d y d'"
  shows "y = None \<and> bookkeeping g d d' \<or>
    (\<exists>n' a' r c u k s v t t'. y = Some u \<and> s = rn_salt env k \<and> validate_username n = Inr n' \<and> validate_actor a = Inr a' \<and>
       12 \<le> len pw \<and> len pw \<le> 256 \<and> utf8_encode pw \<noteq> utf8_encode tmp \<and> derive_credential env pw s = Inr v \<and>
       user_by_name (ug_site g) n' d = Some r \<and> credential_of (ug_site g) (ur_id r) d = Some c \<and>
       cr_scheme c = ''scrypt-v1'' \<and> cr_kind c = ''bootstrap'' \<and> ur_enabled r \<noteq> 0 \<and>
       derive_credential env tmp (cr_salt c) = Inr (cr_verifier c) \<and> decode_user r = Inr u \<and>
       d' = with_audit (ug_site g) (ur_id r) ''bootstrap-consumed'' a' [''credential_state''] t'
         (with_credential (ug_site g) (ur_id r) (password_row s v)
           (update_pending (ug_site g) (ur_id r) (cr_verifier c) (checked_at t) d)))"
proof -
  from assms obtain n' a' k s v now p d1 where a: "s = rn_salt env k" "validate_username n = Inr n'" "validate_actor a = Inr a'"
    "12 \<le> len pw" "len pw \<le> 256" "utf8_encode pw \<noteq> utf8_encode tmp" "derive_credential env pw s = Inr v"
    and p: "effect (pending_credential env g (user_with_credential (ug_site g) (user_by_name (ug_site g) n' d) d) now) d p d1"
    and rest: "effect (consume_bootstrap env g (user_with_credential (ug_site g) (user_by_name (ug_site g) n' d) d) p tmp s v a') d1 y d'"
    unfolding activate_bootstrap_password_def
    by (auto elim!: effect_bindE effect_liftE effect_readingE effect_requireE effect_guardedE effect_selectE
      effect_beginE effect_raiseE split: if_splits)
  obtain salt expected eligible where y: "p = (salt, expected, eligible)" by (cases p)
  from effect_pending [OF p] have steps: "bookkeeping g d d1" by simp
  show ?thesis
  proof (cases "eligible \<and> derive_credential env tmp salt = Inr expected")
    case False
    with rest steps y show ?thesis unfolding consume_bootstrap_def by (auto elim!: effect_elims split: if_splits)
  next
    case True
    with effect_pending [OF p] y obtain r c t where row: "user_with_credential (ug_site g) (user_by_name (ug_site g) n' d) d = Some (r, Some c)"
      and c: "cr_scheme c = ''scrypt-v1''" "cr_kind c = ''bootstrap''" "ur_enabled r \<noteq> 0" "salt = cr_salt c" "expected = cr_verifier c"
      and d1: "d1 = update_pending (ug_site g) (ur_id r) (cr_verifier c) (checked_at t) d" by auto
    from row have r: "user_by_name (ug_site g) n' d = Some r" "credential_of (ug_site g) (ur_id r) d = Some c"
      by (auto simp: user_with_credential_def)
    from rest True y row obtain u t' where u: "decode_user r = Inr u" "y = Some u"
      and d': "d' = with_audit (ug_site g) (ua_id u) ''bootstrap-consumed'' a' [''credential_state''] t'
         (replace_credential (ug_site g) (ua_id u) (password_row s v) d1)"
      unfolding consume_bootstrap_def by (auto elim!: effect_elims)
    from decode_userD [OF u(1)] have id: "ua_id u = ur_id r" by simp
    have "replace_credential (ug_site g) (ur_id r) (password_row s v) d1 = with_credential (ug_site g) (ur_id r) (password_row s v) d1"
      using r(2) by (simp add: d1 replace_credential_def credential_of_pending)
    with a c r u d' d1 id True show ?thesis by auto
  qed
qed

lemma steps_activate:
  assumes "effect (activate_bootstrap_password env g n tmp pw a) d y d'"
  shows "registry_steps g d d'"
  using effect_activate [OF assms]
proof (elim disjE exE conjE)
  fix r :: user_row and c :: credential_row and s v t t' a'
  let ?d1 = "update_pending (ug_site g) (ur_id r) (cr_verifier c) (checked_at t) d"
  assume c: "credential_of (ug_site g) (ur_id r) d = Some c" "cr_kind c = ''bootstrap''"
    and d': "d' = with_audit (ug_site g) (ur_id r) ''bootstrap-consumed'' a' [''credential_state''] t'
         (with_credential (ug_site g) (ur_id r) (password_row s v) ?d1)"
  have "registry_steps g d ?d1" by auto
  moreover have "registry_step g ?d1 (with_credential (ug_site g) (ur_id r) (password_row s v) ?d1)"
    using c by (auto intro: step_activate simp: credential_of_pending)
  ultimately show ?thesis unfolding d' by (auto intro: steps_append)
qed (simp add: bookkeeping_steps)

end
