(* ===== verification/User_Safety.thy ===== *)
theory User_Safety
  imports User_Authority
begin

text \<open>
  What the steps of the user registry preserve, and so what every run of its operations preserves,
  whichever statements fail: an administrator remains, names and identifiers stay unique, the audit log
  only grows, and no other site is touched.
\<close>

section \<open>Invariants of the steps\<close>

definition unique_users :: "user_db \<Rightarrow> bool" where
  "unique_users d \<longleftrightarrow>
     distinct (map (\<lambda>r. (ur_site r, ur_id r)) (db_users d)) \<and> distinct (map (\<lambda>r. (ur_site r, nocase (ur_username r))) (db_users d))"

definition has_administrator :: "pystr \<Rightarrow> user_db \<Rightarrow> bool" where
  "has_administrator site d \<longleftrightarrow> list_ex (is_active_administrator site d) (db_users d)"

definition within_capacity :: "user_registry \<Rightarrow> user_db \<Rightarrow> bool" where
  "within_capacity g d \<longleftrightarrow> len (filter (\<lambda>r. ur_site r = ug_site g) (db_users d)) \<le> ug_capacity g"

text \<open>What one site has in the database.\<close>

definition site_view :: "pystr \<Rightarrow> user_db \<Rightarrow> user_row list \<times> audit_row list \<times> (user_uuid \<Rightarrow> credential_row option) \<times> (user_uuid \<Rightarrow> camera_row option)" where
  "site_view site d =
     (filter (\<lambda>r. ur_site r = site) (db_users d), filter (\<lambda>r. ar_site r = site) (db_audit d),
      (\<lambda>i. credential_of site i d), (\<lambda>i. map_of (db_camera d) (site, i)))"

lemma step_unique:
  assumes "registry_step g d d'" and "unique_users d"
  shows "unique_users d'"
  using assms
proof (cases rule: registry_step.cases)
  case (step_user u)
  then show ?thesis using assms(2)
    by (auto simp: unique_users_def may_add_def with_user_def user_row_of_def user_by_id_def user_by_name_def find_None_iff)
next
  case (step_fields i r u)
  have "map (\<lambda>r. (ur_site r, ur_id r)) (db_users (with_fields (ug_site g) i u d)) = map (\<lambda>r. (ur_site r, ur_id r)) (db_users d)"
    "map (\<lambda>r. (ur_site r, nocase (ur_username r))) (db_users (with_fields (ug_site g) i u d)) =
      map (\<lambda>r. (ur_site r, nocase (ur_username r))) (db_users d)"
    by (simp_all add: with_fields_def comp_def)
  with step_fields assms(2) show ?thesis by (simp add: unique_users_def)
qed (simp_all add: unique_users_def with_credential_def with_camera_def with_audit_def)

lemma step_capacity:
  assumes "registry_step g d d'" and "within_capacity g d"
  shows "within_capacity g d'"
  using assms
proof (cases rule: registry_step.cases)
  case (step_user u)
  then show ?thesis by (simp add: within_capacity_def may_add_def with_user_def user_row_of_def)
next
  case (step_fields i r u)
  have "map ur_site (db_users (with_fields (ug_site g) i u d)) = map ur_site (db_users d)"
    by (simp add: with_fields_def comp_def)
  then have "length (filter (\<lambda>s. s = ug_site g) (map ur_site (db_users (with_fields (ug_site g) i u d)))) =
    length (filter (\<lambda>s. s = ug_site g) (map ur_site (db_users d)))" by simp
  with step_fields assms(2) show ?thesis by (simp add: within_capacity_def filter_map comp_def)
qed (simp_all add: within_capacity_def with_credential_def with_camera_def with_audit_def)

lemma unique_row:
  "unique_users d \<Longrightarrow> r \<in> set (db_users d) \<Longrightarrow> r' \<in> set (db_users d) \<Longrightarrow> ur_site r = ur_site r' \<Longrightarrow> ur_id r = ur_id r' \<Longrightarrow> r = r'"
  by (auto simp: unique_users_def distinct_map dest: inj_onD)

lemma other_administratorD:
  assumes "other_administrators site i d \<noteq> []"
  obtains r where "r \<in> set (db_users d)" and "is_active_administrator site d r" and "ur_id r \<noteq> i"
  using assms by (auto simp: other_administrators_def filter_empty_conv)

lemma administratorI: "r \<in> set (db_users d) \<Longrightarrow> is_active_administrator site d r \<Longrightarrow> has_administrator site d"
  by (auto simp: has_administrator_def list_ex_iff)

lemma active_cong:
  "credential_of site (ur_id r) d' = credential_of site (ur_id r) d \<Longrightarrow> is_active_administrator site d' r = is_active_administrator site d r"
  by (simp add: is_active_administrator_def)

lemma administrator_unaffected [simp]:
  "has_administrator site (with_audit s' j a x fs t d) = has_administrator site d"
  "has_administrator site (with_camera s' j ca d) = has_administrator site d"
proof -
  have "is_active_administrator site (with_audit s' j a x fs t d) = is_active_administrator site d"
    "is_active_administrator site (with_camera s' j ca d) = is_active_administrator site d"
    by (simp_all add: fun_eq_iff is_active_administrator_def)
  then show "has_administrator site (with_audit s' j a x fs t d) = has_administrator site d"
    "has_administrator site (with_camera s' j ca d) = has_administrator site d"
    by (simp_all add: has_administrator_def with_audit_def with_camera_def)
qed

text \<open>A new credential for one account cannot take the last administrator, if another one is left or the account is none.\<close>

lemma administrator_after_credential:
  assumes "unique_users d" and "has_administrator site d" and "user_by_id site i d = Some r"
    and "is_active_administrator site d r \<longrightarrow> other_administrators site i d \<noteq> []"
  shows "has_administrator site (with_credential site i c d)"
proof -
  from user_by_idD [OF assms(3)] have r: "r \<in> set (db_users d)" "ur_site r = site" "ur_id r = i" by simp_all
  obtain q where q: "q \<in> set (db_users d)" "is_active_administrator site d q" "ur_id q \<noteq> i"
  proof (cases "is_active_administrator site d r")
    case True
    with assms(4) have "other_administrators site i d \<noteq> []" by simp
    then show ?thesis using that by (rule other_administratorD)
  next
    case False
    from assms(2) obtain q where q: "q \<in> set (db_users d)" "is_active_administrator site d q"
      by (auto simp: has_administrator_def list_ex_iff)
    from q(2) have "ur_site q = site" by (simp add: is_active_administrator_def)
    with unique_row [OF assms(1) q(1) r(1)] r q False have "ur_id q \<noteq> i" by auto
    with q that show ?thesis by blast
  qed
  then have "is_active_administrator site (with_credential site i c d) q"
    by (subst active_cong [of site q _ d]) (simp_all add: credential_of_with)
  moreover have "q \<in> set (db_users (with_credential site i c d))" using q by (simp add: with_credential_def)
  ultimately show ?thesis by (rule administratorI [rotated])
qed

lemma step_administrator:
  assumes "registry_step g d d'" and u: "unique_users d" and a: "has_administrator (ug_site g) d"
  shows "has_administrator (ug_site g) d'"
  using assms(1)
proof (cases rule: registry_step.cases)
  case (step_user u)
  from a obtain q where "q \<in> set (db_users d)" "is_active_administrator (ug_site g) d q"
    by (auto simp: has_administrator_def list_ex_iff)
  then show ?thesis unfolding step_user
    by (intro administratorI [of q]) (simp_all add: with_user_def active_cong [symmetric] is_active_administrator_def credential_of_def)
next
  case (step_credential i c)
  from a obtain q where q: "q \<in> set (db_users d)" "is_active_administrator (ug_site g) d q"
    by (auto simp: has_administrator_def list_ex_iff)
  moreover from this step_credential have "ur_id q \<noteq> i" by (auto simp: is_active_administrator_def)
  ultimately show ?thesis unfolding step_credential
    by (intro administratorI [of q]) (simp_all add: with_credential_def is_active_administrator_def credential_of_def update_conv')
next
  case (step_reset i r s v t t')
  then show ?thesis using administrator_after_credential [OF u a] by simp
next
  case (step_activate i c s v)
  from a obtain q where q: "q \<in> set (db_users d)" "is_active_administrator (ug_site g) d q"
    by (auto simp: has_administrator_def list_ex_iff)
  moreover from this step_activate have "ur_id q \<noteq> i" by (auto simp: is_active_administrator_def)
  ultimately show ?thesis unfolding step_activate
    by (intro administratorI [of q]) (simp_all add: with_credential_def is_active_administrator_def credential_of_def update_conv')
next
  case (step_pending f t i v)
  from a obtain q where q: "q \<in> set (db_users d)" "is_active_administrator (ug_site g) d q"
    by (auto simp: has_administrator_def list_ex_iff)
  then have "is_active_administrator (ug_site g) (update_pending (ug_site g) i v f d) q"
    by (auto simp: is_active_administrator_def credential_of_pending split: option.splits)
  with q show ?thesis unfolding step_pending by (intro administratorI [of q]) simp_all
next
  case (step_fields i r u)
  show ?thesis
  proof (cases "is_active_administrator (ug_site g) d r \<and> uc_enabled u \<and> uc_role u = ADMINISTRATOR")
    case True
    from user_by_idD [OF step_fields(2)] have r: "r \<in> set (db_users d)" "ur_site r = ug_site g" "ur_id r = i" by simp_all
    let ?r = "r\<lparr>ur_display_name := uc_display_name u, ur_role := ''administrator'', ur_enabled := 1\<rparr>"
    from r True have "?r \<in> set (db_users (with_fields (ug_site g) i u d))"
      unfolding with_fields_def by (auto intro!: image_eqI [of _ _ r])
    moreover from True have "is_active_administrator (ug_site g) (with_fields (ug_site g) i u d) ?r"
      by (simp add: is_active_administrator_def)
    ultimately show ?thesis unfolding step_fields by (rule administratorI)
  next
    case False
    obtain q where q: "q \<in> set (db_users d)" "is_active_administrator (ug_site g) d q" "ur_id q \<noteq> i"
    proof (cases "is_active_administrator (ug_site g) d r")
      case True
      with False step_fields have "other_administrators (ug_site g) i d \<noteq> []" by auto
      then show ?thesis using that by (rule other_administratorD)
    next
      case inactive: False
      from a obtain q where q: "q \<in> set (db_users d)" "is_active_administrator (ug_site g) d q"
        by (auto simp: has_administrator_def list_ex_iff)
      from user_by_idD [OF step_fields(2)] unique_row [OF u q(1), of r] q inactive have "ur_id q \<noteq> i"
        by (auto simp: is_active_administrator_def)
      with q that show ?thesis by blast
    qed
    then have "q \<in> set (db_users (with_fields (ug_site g) i u d))" by (force simp: with_fields_def)
    moreover from q have "is_active_administrator (ug_site g) (with_fields (ug_site g) i u d) q"
      by (simp add: is_active_administrator_def)
    ultimately show ?thesis unfolding step_fields by (rule administratorI)
  qed
qed (use a in simp_all)

lemma step_other_site:
  assumes "registry_step g d d'" and "site \<noteq> ug_site g"
  shows "site_view site d' = site_view site d"
  using assms
proof (cases rule: registry_step.cases)
  case (step_fields i r u)
  have "filter (\<lambda>r. ur_site r = site) (map (\<lambda>r. if ur_site r = ug_site g \<and> ur_id r = i then f r else r) rows) =
      filter (\<lambda>r. ur_site r = site) rows" if "\<And>r. ur_site (f r) = ur_site r" for f :: "user_row \<Rightarrow> user_row" and rows
    using assms(2) that by (induction rows) auto
  then show ?thesis unfolding step_fields by (simp add: site_view_def with_fields_def credential_of_def)
qed (use assms(2) in \<open>auto simp: site_view_def with_user_def user_row_of_def with_credential_def with_camera_def with_audit_def
  credential_of_def update_conv' update_pending_def fun_eq_iff split: option.splits\<close>)

lemma step_audit_grows: "registry_step g d d' \<Longrightarrow> prefix (db_audit d) (db_audit d')"
  by (cases rule: registry_step.cases) (auto simp: with_user_def with_credential_def with_camera_def with_audit_def with_fields_def)

text \<open>Audit numbers increase strictly.\<close>

definition audit_ordered :: "user_db \<Rightarrow> bool" where
  "audit_ordered d \<longleftrightarrow> sorted_wrt (<) (map ar_event_id (db_audit d)) \<and> (\<forall>r\<in>set (db_audit d). 1 \<le> ar_event_id r)"

lemma step_audit_ordered:
  assumes "registry_step g d d'" and "audit_ordered d"
  shows "audit_ordered d'"
  using assms(1)
proof (cases rule: registry_step.cases)
  case (step_audit i a x fs t)
  show ?thesis
  proof (cases "db_audit d" rule: rev_cases)
    case (snoc rows r)
    with assms(2) have "\<forall>q\<in>set (db_audit d). ar_event_id q < ar_event_id r + 1" by (force simp: audit_ordered_def sorted_wrt_append)
    with assms(2) snoc show ?thesis
      unfolding step_audit by (auto simp: audit_ordered_def with_audit_def next_event_id_def sorted_wrt_append)
  qed (simp add: step_audit audit_ordered_def with_audit_def next_event_id_def)
qed (use assms(2) in \<open>simp_all add: audit_ordered_def with_user_def with_credential_def with_camera_def with_fields_def\<close>)

section \<open>Runs of operations\<close>

datatype registry_op =
    Op_create user_create pystr
  | Op_bootstrap_administrator user_create pystr
  | Op_create_with_bootstrap user_create pystr int "camera_access_arg dyn option"
  | Op_get user_uuid
  | Op_get_camera_access user_uuid
  | Op_set_camera_access user_uuid camera_access_arg pystr
  | Op_credential_status user_uuid
  | Op_reset_bootstrap user_uuid pystr int
  | Op_activate pystr pystr pystr pystr
  | Op_verify_password pystr pystr
  | Op_resolve_session user_account "byte list option"
  | Op_active_session user_uuid
  | Op_update user_uuid user_patch pystr "camera_access_arg dyn option"
  | Op_list int int
  | Op_audit_events int int bool

definition forget :: "'a reg \<Rightarrow> unit reg" where
  "forget m = act_bind m (\<lambda>_. act_return ())"

fun registry_perform :: "registry_env \<Rightarrow> user_registry \<Rightarrow> registry_op \<Rightarrow> unit reg" where
  "registry_perform env g (Op_create r a) = forget (registry_create env g r a)"
| "registry_perform env g (Op_bootstrap_administrator r p) = forget (bootstrap_administrator env g r p)"
| "registry_perform env g (Op_create_with_bootstrap r a ttl x) = forget (create_with_bootstrap env g r a ttl x)"
| "registry_perform env g (Op_get i) = forget (registry_get env g i)"
| "registry_perform env g (Op_get_camera_access i) = forget (get_camera_access env g i)"
| "registry_perform env g (Op_set_camera_access i x a) = forget (set_camera_access env g i x a)"
| "registry_perform env g (Op_credential_status i) = forget (credential_status env g i)"
| "registry_perform env g (Op_reset_bootstrap i a ttl) = forget (reset_bootstrap env g i a ttl)"
| "registry_perform env g (Op_activate n t p a) = forget (activate_bootstrap_password env g n t p a)"
| "registry_perform env g (Op_verify_password n p) = forget (verify_password env g n p)"
| "registry_perform env g (Op_resolve_session u v) = forget (resolve_session env g u v)"
| "registry_perform env g (Op_active_session i) = forget (active_session_snapshot env g i)"
| "registry_perform env g (Op_update i p a x) = forget (registry_update env g i p a x)"
| "registry_perform env g (Op_list o' l) = forget (registry_list env g o' l)"
| "registry_perform env g (Op_audit_events o' l n) = forget (audit_events env g o' l n)"

fun registry_run :: "registry_env \<Rightarrow> user_registry \<Rightarrow> registry_op list \<Rightarrow> registry_world \<Rightarrow> registry_world" where
  "registry_run env g [] w = w"
| "registry_run env g (x # xs) w = registry_run env g xs (snd (registry_perform env g x w))"

lemma atomic_bind_return: "atomic m \<Longrightarrow> atomic (act_bind m (\<lambda>x. act_return (f x)))"
  unfolding atomic_def by (auto intro: secures_bind secures_return)

lemma atomic_forget: "atomic m \<Longrightarrow> atomic (forget m)"
  unfolding forget_def by (rule atomic_bind_return)

lemma atomic_verify_password: "atomic (verify_password env g n p)"
  unfolding verify_password_def by (rule atomic_bind_return) (rule atomic_verify)

lemma atomic_perform: "atomic (registry_perform env g x)"
  by (cases x) (simp_all add: atomic_forget atomic_operations atomic_verify_password)

lemma effect_reads:
  "effect (verify_password_snapshot env g n p) d y d' \<Longrightarrow> d' = d"
  "effect (resolve_session env g u v) d z d' \<Longrightarrow> d' = d"
  "effect (active_session_snapshot env g i) d y d' \<Longrightarrow> d' = d"
  "effect (registry_list env g o' l) d us d' \<Longrightarrow> d' = d"
  "effect (audit_events env g o' l b) d es d' \<Longrightarrow> d' = d"
  unfolding verify_password_snapshot_def resolve_session_def active_session_snapshot_def registry_list_def audit_events_def
  by (auto elim!: effect_elims split: option.splits prod.splits if_splits)

lemma steps_perform:
  assumes "effect (registry_perform env g x) d y d'"
  shows "registry_steps g d d'"
proof -
  have "\<exists>y. effect m d y d'" if "effect (forget m) d () d'" for m :: "'b reg"
    using that by (auto simp: forget_def elim!: effect_elims)
  with assms show ?thesis
    by (cases x) (auto dest!: effect_create effect_bootstrap_administrator effect_create_with_bootstrap effect_get
      effect_get_camera effect_set_camera effect_status bookkeeping_steps steps_reset steps_activate steps_update effect_reads
      simp: verify_password_def elim!: effect_bindE effect_returnE simp: forget_def)
qed

text \<open>The refinement: an operation that returns has committed a sequence of steps, one that raises nothing.\<close>

lemma perform_refines: "registry_steps g (committed w) (committed (snd (registry_perform env g x w)))"
proof -
  obtain r w' where r: "registry_perform env g x w = (r, w')" by fastforce
  from atomic_cases(1) [OF atomic_perform r] show ?thesis
  proof (elim disjE conjE exE)
    fix y assume "r = Inr y" "sq_backup w = None" "sq_backup w' = None"
    with steps_perform [OF effectI [of "registry_perform env g x" w y w']] r show ?thesis by simp
  qed (simp add: r)
qed

lemma run_refines: "registry_steps g (committed w) (committed (registry_run env g xs w))"
proof (induction xs arbitrary: w)
  case (Cons x xs)
  from rtranclp_trans [OF perform_refines Cons.IH] show ?case by simp
qed simp

end
