(* ===== verification/User_Access.thy ===== *)
theory User_Access
  imports User_Safety
begin

text \<open>
  Who gets in: what a login, a session and a bootstrap secret have to match, and what takes access away.
\<close>

section \<open>Logins and sessions\<close>

text \<open>The rows and secrets that make a login succeed.\<close>

definition login_matches :: "registry_env \<Rightarrow> user_registry \<Rightarrow> pystr \<Rightarrow> pystr \<Rightarrow> user_db \<Rightarrow> user_row \<Rightarrow> credential_row \<Rightarrow> bool" where
  "login_matches env g n p d r c \<longleftrightarrow>
     (\<exists>n'. validate_username n = Inr n' \<and> user_by_name (ug_site g) n' d = Some r) \<and> 1 \<le> len p \<and> len p \<le> 256 \<and>
     credential_of (ug_site g) (ur_id r) d = Some c \<and> ur_enabled r \<noteq> 0 \<and> cr_scheme c = ''scrypt-v1'' \<and> cr_kind c = ''password'' \<and>
     length (cr_salt c) = 16 \<and> length (cr_verifier c) = 32 \<and> derive_credential env p (cr_salt c) = Inr (cr_verifier c)"

lemma effect_login:
  assumes "effect (verify_password_snapshot env g n p) d (Some (u, v)) d'"
  shows "\<exists>r c. login_matches env g n p d r c \<and> decode_user r = Inr u \<and> v = rn_sha256 env (cr_salt c @ cr_verifier c)"
  using assms unfolding verify_password_snapshot_def
  by (auto elim!: effect_elims split: option.splits prod.splits if_splits simp: user_with_credential_def login_matches_def)

lemmas loginD = effect_login [OF effectI [where m = "verify_password_snapshot env g n p" for env g n p]]

lemma login_succeeds:
  assumes "login_matches env g n p (sq_db w) r c" and "decode_user r = Inr u" and "rw_open w" and "rn_sql env (sq_tick w) = Sql_Done"
  shows "verify_password_snapshot env g n p w = (Inr (Some (u, rn_sha256 env (cr_salt c @ cr_verifier c))), sql_tick w)"
  using assms unfolding login_matches_def
  by (auto simp: verify_password_snapshot_def act_bind_def act_lift_def act_return_def require_connection_def sql_shielded_def
    act_catch_def sql_select_def sql_def user_with_credential_def)

lemma effect_resolve:
  assumes "effect (resolve_session env g account v) d (Some u) d'"
  shows "\<exists>r c known. v = Some known \<and> length known = 32 \<and> user_by_id (ug_site g) (ua_id account) d = Some r \<and>
    credential_of (ug_site g) (ur_id r) d = Some c \<and> has_active_password r c \<and> decode_user r = Inr u \<and> uc_role u = uc_role account \<and>
    rn_sha256 env (cr_salt c @ cr_verifier c) = known"
  using assms unfolding resolve_session_def
  by (auto elim!: effect_elims split: option.splits prod.splits if_splits simp: user_with_credential_def)

lemma effect_active_snapshot:
  assumes "effect (active_session_snapshot env g i) d (Some (u, v)) d'"
  shows "\<exists>r c. user_by_id (ug_site g) i d = Some r \<and> credential_of (ug_site g) (ur_id r) d = Some c \<and> has_active_password r c"
  using assms unfolding active_session_snapshot_def
  by (auto elim!: effect_elims split: option.splits prod.splits if_splits simp: user_with_credential_def)

lemmas resolveD = effect_resolve [OF effectI [where m = "resolve_session env g account v" for env g account v]]
lemmas active_snapshotD = effect_active_snapshot [OF effectI [where m = "active_session_snapshot env g i" for env g i]]

text \<open>
  C29: a login succeeds exactly for an enabled account of the site whose credential is a password, and the
  derivation of what was typed with the stored salt is the stored verifier; the session is bound to the two.
\<close>

theorem login_checks_the_password:
  assumes "rw_open w" and "rn_sql env (sq_tick w) = Sql_Done"
  shows "(\<exists>w'. verify_password_snapshot env g n p w = (Inr (Some (u, v)), w')) \<longleftrightarrow>
    (\<exists>r c. login_matches env g n p (sq_db w) r c \<and> decode_user r = Inr u \<and> v = rn_sha256 env (cr_salt c @ cr_verifier c))"
  (is "?runs \<longleftrightarrow> ?matches")
proof
  assume ?runs
  then obtain w' where "verify_password_snapshot env g n p w = (Inr (Some (u, v)), w')" ..
  from loginD [OF this] show ?matches .
next
  assume ?matches
  then obtain r c where rc: "login_matches env g n p (sq_db w) r c" "decode_user r = Inr u" and v: "v = rn_sha256 env (cr_salt c @ cr_verifier c)"
    by blast
  from login_succeeds [OF rc assms] v show ?runs by blast
qed

text \<open>
  C28: a session outlives neither its password, nor its role, nor the account being enabled: when the
  digest a login returned resolves later, whatever happened to the database, the account is enabled with the same
  role and an active password, with the salt and verifier that were there at the login, if SHA-256 does
  not give their digest for anything else.
\<close>

theorem session_dies_with_its_password:
  assumes login: "verify_password_snapshot env g n p w = (Inr (Some (u, v)), w')"
    and no_collision: "\<And>r c bs. login_matches env g n p (sq_db w) r c \<Longrightarrow> rn_sha256 env' bs = v \<Longrightarrow> bs = cr_salt c @ cr_verifier c"
    and later: "resolve_session env' g u (Some v) w1 = (Inr (Some u1), w1')"
  shows "\<exists>r c r1 c1. login_matches env g n p (sq_db w) r c \<and> user_by_id (ug_site g) (ua_id u) (sq_db w1) = Some r1 \<and>
    credential_of (ug_site g) (ua_id u) (sq_db w1) = Some c1 \<and> has_active_password r1 c1 \<and> ua_id u1 = ua_id u \<and> uc_role u1 = uc_role u \<and>
    cr_salt c1 @ cr_verifier c1 = cr_salt c @ cr_verifier c"
proof -
  from loginD [OF login] obtain r c where m: "login_matches env g n p (sq_db w) r c" by blast
  from resolveD [OF later] obtain r1 c1 where r1: "user_by_id (ug_site g) (ua_id u) (sq_db w1) = Some r1"
    "credential_of (ug_site g) (ur_id r1) (sq_db w1) = Some c1" "has_active_password r1 c1" "decode_user r1 = Inr u1"
    "uc_role u1 = uc_role u" "rn_sha256 env' (cr_salt c1 @ cr_verifier c1) = v" by auto
  from user_by_idD [OF r1(1)] decode_userD [OF r1(4)] have "ur_id r1 = ua_id u" "ua_id u1 = ua_id u" by simp_all
  with m r1 no_collision [OF m r1(6)] show ?thesis by auto
qed

text \<open>An account whose credential is not a password gets in nowhere.\<close>

lemma no_access_without_password:
  assumes "credential_of (ug_site g) i d = Some c" and "cr_kind c \<noteq> ''password''" and "sq_db w = d"
  shows "verify_password_snapshot env g n p w \<noteq> (Inr (Some (u, v)), w') \<or> ua_id u \<noteq> i"
    and "ua_id account = i \<Longrightarrow> resolve_session env g account known w \<noteq> (Inr (Some u), w')"
    and "active_session_snapshot env g i w \<noteq> (Inr (Some (u, v)), w')"
proof -
  show "verify_password_snapshot env g n p w \<noteq> (Inr (Some (u, v)), w') \<or> ua_id u \<noteq> i"
    using loginD [of env g n p w u v w'] assms by (fastforce simp: login_matches_def dest: decode_userD)
  show "resolve_session env g account known w \<noteq> (Inr (Some u), w')" if "ua_id account = i"
    using resolveD [of env g account known w u w'] assms that by (fastforce simp: has_active_password_def dest: user_by_idD)
  show "active_session_snapshot env g i w \<noteq> (Inr (Some (u, v)), w')"
    using active_snapshotD [of env g i w u v w'] assms by (fastforce simp: has_active_password_def dest: user_by_idD)
qed

section \<open>Bootstrap secrets\<close>

lemmas resetD = effect_reset [OF effectI [where m = "reset_bootstrap env g i a ttl" for env g i a ttl]]
lemmas activateD = effect_activate [OF effectI [where m = "activate_bootstrap_password env g n tmp pw a" for env g n tmp pw a]]

lemma reset_credential:
  assumes "reset_bootstrap env g i a ttl w = (Inr (Some (u, tmp, t)), w')"
  shows "\<exists>s v. derive_credential env tmp s = Inr v \<and> ua_id u = i \<and>
    credential_of (ug_site g) i (sq_db w') = Some (bootstrap_row s v (t - ttl * 1000000) t)"
  using resetD [OF assms]
proof (elim disjE exE conjE)
  fix a' r u' tmp' s v t' d1 t''
  assume y: "Some (u, tmp, t) = Some (u', tmp', t' + ttl * 1000000)" and v: "derive_credential env tmp' s = Inr v"
    and r: "user_by_id (ug_site g) i (sq_db w) = Some r" "decode_user r = Inr u'"
    and d: "sq_db w' = with_audit (ug_site g) i ''password-reset'' a' [''credential_state''] t''
      (with_credential (ug_site g) i (bootstrap_row s v t' (t' + ttl * 1000000)) d1)"
  from user_by_idD [OF r(1)] decode_userD [OF r(2)] have "ua_id u' = i" by simp
  with y v d show ?thesis by (auto simp: credential_of_with)
qed simp

text \<open>
  Once a reset has returned, the account gets in neither by any password nor by any session issued before
  or federated, in this process or another, for as long as the credential is the one the reset has stored.
\<close>

lemma reset_revokes_access:
  assumes "reset_bootstrap env g i a ttl w = (Inr (Some (u, tmp, t)), w')"
    and "credential_of (ug_site g) i (sq_db w1) = credential_of (ug_site g) i (sq_db w')"
  shows "(\<forall>u1 v w2. verify_password_snapshot env1 g n p w1 = (Inr (Some (u1, v)), w2) \<longrightarrow> ua_id u1 \<noteq> i) \<and>
    (\<forall>u1 w2. resolve_session env1 g u known w1 \<noteq> (Inr (Some u1), w2)) \<and>
    (\<forall>u1 v w2. active_session_snapshot env1 g i w1 \<noteq> (Inr (Some (u1, v)), w2))"
proof -
  from reset_credential [OF assms(1)] assms(2) obtain s v where c: "credential_of (ug_site g) i (sq_db w1) = Some (bootstrap_row s v (t - ttl * 1000000) t)"
    and u: "ua_id u = i" by auto
  have k: "cr_kind (bootstrap_row s v (t - ttl * 1000000) t) \<noteq> ''password''" by (simp add: bootstrap_row_def)
  note no = no_access_without_password [where w = w1, OF c k refl]
  show ?thesis using no(1) no(2) [OF u] no(3) by blast
qed

text \<open>What an activation that succeeds leaves behind.\<close>

lemma activate_credential:
  assumes "activate_bootstrap_password env g n tmp pw a w = (Inr (Some u), w')"
  shows "\<exists>n' r k v. validate_username n = Inr n' \<and> user_by_name (ug_site g) n' (sq_db w') = Some r \<and> ur_enabled r \<noteq> 0 \<and>
    ur_id r = ua_id u \<and> decode_user r = Inr u \<and> 12 \<le> len pw \<and> len pw \<le> 256 \<and> derive_credential env pw (rn_salt env k) = Inr v \<and>
    credential_of (ug_site g) (ua_id u) (sq_db w') = Some (password_row (rn_salt env k) v)"
  using activateD [OF assms]
proof (elim disjE exE conjE)
  fix n' a' and r :: user_row and c :: credential_row and u' k s v t t'
  assume y: "Some u = Some u'" "s = rn_salt env k" and n: "validate_username n = Inr n'" and l: "12 \<le> len pw" "len pw \<le> 256"
    and v: "derive_credential env pw s = Inr v" and r: "user_by_name (ug_site g) n' (sq_db w) = Some r" "ur_enabled r \<noteq> 0" "decode_user r = Inr u'"
    and d: "sq_db w' = with_audit (ug_site g) (ur_id r) ''bootstrap-consumed'' a' [''credential_state''] t'
      (with_credential (ug_site g) (ur_id r) (password_row s v) (update_pending (ug_site g) (ur_id r) (cr_verifier c) (checked_at t) (sq_db w)))"
  from decode_userD [OF r(3)] have "ua_id u' = ur_id r" by simp
  with y n l v r d show ?thesis by (auto simp: credential_of_with)
qed simp

lemma derive_length: "derive_credential env p s = Inr v \<Longrightarrow> (\<And>b s. length (rn_scrypt env b s) = 32) \<Longrightarrow> length v = 32"
  by (auto simp: derive_credential_def split: option.splits)

text \<open>
  C27: a bootstrap secret works once. After an activation the account logs in with the new password,
  and nothing activates it again while that password stands.
\<close>

theorem bootstrap_secret_works_once:
  assumes run: "activate_bootstrap_password env g n tmp pw a w = (Inr (Some u), w')"
    and scrypt: "\<And>b s. length (rn_scrypt env b s) = 32" and salts: "\<And>k. length (rn_salt env k) = 16"
    and later: "credential_of (ug_site g) (ua_id u) (sq_db w1) = credential_of (ug_site g) (ua_id u) (sq_db w')"
  shows "(\<exists>r c. login_matches env g n pw (sq_db w') r c \<and> decode_user r = Inr u) \<and>
    (\<forall>u1 w2. activate_bootstrap_password env1 g n1 tmp1 pw1 a1 w1 = (Inr (Some u1), w2) \<longrightarrow> ua_id u1 \<noteq> ua_id u)"
proof
  from activate_credential [OF run] obtain n' r k v where c: "validate_username n = Inr n'" "user_by_name (ug_site g) n' (sq_db w') = Some r"
    "ur_enabled r \<noteq> 0" "ur_id r = ua_id u" "decode_user r = Inr u" "12 \<le> len pw" "len pw \<le> 256"
    "derive_credential env pw (rn_salt env k) = Inr v"
    "credential_of (ug_site g) (ua_id u) (sq_db w') = Some (password_row (rn_salt env k) v)" by blast
  with derive_length [OF c(8) scrypt] salts [of k]
  show "\<exists>r c. login_matches env g n pw (sq_db w') r c \<and> decode_user r = Inr u"
    by (intro exI [of _ r] exI [of _ "password_row (rn_salt env k) v"]) (simp add: login_matches_def password_row_def)
  show "\<forall>u1 w2. activate_bootstrap_password env1 g n1 tmp1 pw1 a1 w1 = (Inr (Some u1), w2) \<longrightarrow> ua_id u1 \<noteq> ua_id u"
  proof (intro allI impI notI)
    fix u1 w2
    assume again: "activate_bootstrap_password env1 g n1 tmp1 pw1 a1 w1 = (Inr (Some u1), w2)" and same: "ua_id u1 = ua_id u"
    from activateD [OF again] obtain r1 c1 where r1: "decode_user r1 = Inr u1" "credential_of (ug_site g) (ur_id r1) (sq_db w1) = Some c1" "cr_kind c1 = ''bootstrap''"
      by auto
    with decode_userD [OF r1(1)] same c(9) later show False by (simp add: password_row_def)
  qed
qed

section \<open>Expiry\<close>

text \<open>Runs that return, one computation at a time.\<close>

named_theorems run_elims \<open>elimination rules for runs that return\<close>

lemma run_bindE [run_elims]: "act_bind m f w = (Inr y, w') \<Longrightarrow> (\<And>x w1. m w = (Inr x, w1) \<Longrightarrow> f x w1 = (Inr y, w') \<Longrightarrow> R) \<Longrightarrow> R"
  by (auto simp: act_bind_def split: prod.split_asm sum.split_asm)

lemma run_liftE [run_elims]: "act_lift r w = (Inr y, w') \<Longrightarrow> (r = Inr y \<Longrightarrow> w' = w \<Longrightarrow> R) \<Longrightarrow> R"
  and run_raiseE [run_elims]: "act_raise e w = (Inr z, w') \<Longrightarrow> R"
  by (auto simp: act_lift_def act_return_def act_raise_def split: sum.split_asm)

lemma run_readingE [run_elims]: "reading h w = (Inr y, w') \<Longrightarrow> (y = h (sq_tick w) \<Longrightarrow> w' = sql_tick w \<Longrightarrow> R) \<Longrightarrow> R"
  and run_requireE [run_elims]: "require_connection w = (Inr z, w') \<Longrightarrow> (w' = w \<Longrightarrow> R) \<Longrightarrow> R"
  by (auto simp: reading_def require_connection_def split: if_splits)

lemma run_selectE [run_elims]: "sql_select env q w = (Inr y, w') \<Longrightarrow> (y = q (sq_db w) \<Longrightarrow> w' = sql_tick w \<Longrightarrow> R) \<Longrightarrow> R"
  unfolding sql_select_def sql_def by (cases "env (sq_tick w)") (auto simp: sql_tick_def)

lemma run_beginE [run_elims]:
  "sql_begin env w = (Inr y, w') \<Longrightarrow> (w' = sql_tick (w\<lparr>sq_backup := Some (sq_db w)\<rparr>) \<Longrightarrow> R) \<Longrightarrow> R"
  by (auto simp: sql_begin_def split: if_splits)

lemma run_guardedE [run_elims]: "sql_guarded env caught e m w = (Inr y, w') \<Longrightarrow> (m w = (Inr y, w') \<Longrightarrow> R) \<Longrightarrow> R"
  unfolding sql_guarded_def
  by (auto dest!: act_catch_Inr [rotated] simp: act_raise_def act_bind_def split: raised.splits prod.splits sum.splits if_splits)

lemma sql_tick_more [simp]:
  "rw_deadlines (sql_tick w) = rw_deadlines (w :: registry_world)" "sq_tick (sql_tick w) = Suc (sq_tick w)"
  by (simp_all add: sql_tick_def)

text \<open>While the process knows the deadline of a credential, a credential that may be used has not reached it.\<close>

lemma eligible_before_deadline:
  assumes "bootstrap_eligible env g i c now w = (Inr True, w')" and "rw_deadlines w i = Some (cr_verifier c, dl)"
  shows "\<exists>k\<ge>sq_tick w. rn_monotonic env k < dl"
proof -
  from assms obtain w1 where "rn_monotonic env (sq_tick w) < dl"
    unfolding bootstrap_eligible_def Let_def
    by (auto elim!: run_elims simp: act_get_def act_return_def split: option.splits if_splits)
  then show ?thesis by blast
qed

lemma activate_before_deadline:
  assumes run: "activate_bootstrap_password env g n tmp pw a w = (Inr (Some u), w')"
    and cred: "credential_of (ug_site g) (ua_id u) (sq_db w) = Some c" and dl: "rw_deadlines w (ua_id u) = Some (cr_verifier c, dl)"
  shows "\<exists>k\<ge>sq_tick w. rn_monotonic env k < dl"
proof -
  from run obtain n' now p a' s v w1 w2 where p: "pending_credential env g (user_with_credential (ug_site g) (user_by_name (ug_site g) n' (sq_db w)) (sq_db w)) now w1 = (Inr p, w2)"
    and rest: "consume_bootstrap env g (user_with_credential (ug_site g) (user_by_name (ug_site g) n' (sq_db w)) (sq_db w)) p tmp s v a' w2 = (Inr (Some u), w')"
    and w1: "rw_deadlines w1 = rw_deadlines w" "sq_tick w \<le> sq_tick w1"
    unfolding activate_bootstrap_password_def
    by (auto elim!: run_elims split: if_splits)
  obtain salt expected where y: "p = (salt, expected, True)"
    using rest unfolding consume_bootstrap_def
    by (cases p) (auto elim!: run_elims split: if_splits simp: act_return_def)
  with rest obtain r c' where row: "user_with_credential (ug_site g) (user_by_name (ug_site g) n' (sq_db w)) (sq_db w) = Some (r, c')"
    and u: "decode_user r = Inr u" unfolding consume_bootstrap_def
    by (auto elim!: run_elims split: if_splits option.splits simp: act_return_def)
  from decode_userD [OF u] row cred have c': "c' = Some c" and i: "ur_id r = ua_id u" by (auto simp: user_with_credential_def)
  from p row c' y obtain w3 where "bootstrap_eligible env g (ur_id r) c now w1 = (Inr True, w3)"
    unfolding pending_credential_def by (auto elim!: run_elims split: if_splits simp: act_return_def)
  from eligible_before_deadline [OF this] w1 dl i show ?thesis by (metis le_trans)
qed

lemma run_changeE [run_elims]:
  "sql_change env h w = (Inr z, w') \<Longrightarrow> (w' = sql_tick (w\<lparr>sq_db := h (sq_db w)\<rparr>) \<Longrightarrow> R) \<Longrightarrow> R"
  unfolding sql_change_def sql_def by (cases "env (sq_tick w)") auto

lemma run_commitE [run_elims]: "sql_commit env w = (Inr y, w') \<Longrightarrow> (w' = sql_tick (w\<lparr>sq_backup := None\<rparr>) \<Longrightarrow> R) \<Longrightarrow> R"
  by (auto simp: sql_commit_def split: if_splits)

lemma run_deadlineE [run_elims]:
  "set_deadline i x w = (Inr y, w') \<Longrightarrow> (w' = w\<lparr>rw_deadlines := (rw_deadlines w)(i := x)\<rparr> \<Longrightarrow> R) \<Longrightarrow> R"
  by (auto simp: set_deadline_def act_update_def)

lemma run_auditE [run_elims]:
  assumes "append_audit env g i a x fs w = (Inr y, w')"
    and "\<And>t. sq_db w' = with_audit (ug_site g) i a x fs t (sq_db w) \<Longrightarrow> rw_deadlines w' = rw_deadlines w \<Longrightarrow> R"
  shows R
  using assms(1) unfolding append_audit_def by (elim run_elims) (simp add: assms(2) sql_tick_def)

lemma reset_deadline:
  assumes "reset_bootstrap env g i a ttl w = (Inr (Some (u, tmp, t)), w')"
  shows "\<exists>c. credential_of (ug_site g) i (sq_db w') = Some c \<and> ttl_ok ttl \<and>
    rw_deadlines w' i = Some (cr_verifier c, rn_float env (rn_monotonic env (sq_tick w' - 1) + of_int ttl))"
proof -
  from assms obtain a' tmp' s v t0 user w1 w2 where ttl: "ttl_ok ttl" and get: "registry_get env g i w1 = (Inr user, w2)"
    and rest: "(case user of None \<Rightarrow> act_bind (sql_commit (rn_sql env)) (\<lambda>_. act_return None)
       | Some u \<Rightarrow>
           act_bind (refuse_last_administrator env g u) (\<lambda>_.
           act_bind (sql_change (rn_sql env)
             (with_credential (ug_site g) (ua_id u) (bootstrap_row s v t0 (t0 + ttl * 1000000)))) (\<lambda>_.
           act_bind (append_audit env g (ua_id u) ''password-reset'' a' [''credential_state'']) (\<lambda>_.
           act_bind (sql_commit (rn_sql env)) (\<lambda>_.
           act_bind (reading (rn_monotonic env)) (\<lambda>m.
           act_bind (set_deadline (ua_id u) (Some (v, rn_float env (m + of_int ttl)))) (\<lambda>_.
           act_return (Some (u, tmp', t0 + ttl * 1000000))))))))) w2 = (Inr (Some (u, tmp, t)), w')"
    unfolding reset_bootstrap_def by (auto elim!: run_elims split: if_splits)
  from rest obtain u0 where u0: "user = Some u0" by (cases user) (auto elim!: run_elims simp: act_return_def)
  from effect_get [OF effectI [where m = "registry_get env g i", OF get]] u0 have "ua_id u0 = i"
    by (auto dest: decode_userD user_by_idD)
  with rest u0 ttl show ?thesis
    by (auto elim!: run_elims simp: act_return_def credential_of_with bootstrap_row_def)
qed

text \<open>
  In the process that issued it, a bootstrap secret is refused once the monotonic clock has passed
  the time to live since the reset returned, whatever the wall clock says.
\<close>

lemma expired_secret_is_refused:
  assumes reset: "reset_bootstrap env g i a ttl w = (Inr (Some (u, tmp, t)), w')"
    and process: "rw_deadlines w1 i = rw_deadlines w' i" and credential: "credential_of (ug_site g) i (sq_db w1) = credential_of (ug_site g) i (sq_db w')"
    and late: "\<And>k. sq_tick w1 \<le> k \<Longrightarrow> rn_float env (rn_monotonic env (sq_tick w' - 1) + of_int ttl) \<le> rn_monotonic env1 k"
  shows "activate_bootstrap_password env1 g n tmp1 pw a1 w1 \<noteq> (Inr (Some u1), w2) \<or> ua_id u1 \<noteq> i"
proof (rule disjCI, rule notI)
  assume run: "activate_bootstrap_password env1 g n tmp1 pw a1 w1 = (Inr (Some u1), w2)" and "\<not> ua_id u1 \<noteq> i"
  then have i: "ua_id u1 = i" by simp
  from reset_deadline [OF reset] process credential obtain c where "credential_of (ug_site g) i (sq_db w1) = Some c"
    "rw_deadlines w1 i = Some (cr_verifier c, rn_float env (rn_monotonic env (sq_tick w' - 1) + of_int ttl))" by auto
  with activate_before_deadline [OF run] i late show False by (metis not_le)
qed

section \<open>The audit log is complete\<close>

text \<open>Who can log in as what and with which secret: the account rows, and every credential up to the bookkeeping of pending ones.\<close>

definition access_view :: "user_db \<Rightarrow> user_row list \<times> (pystr \<Rightarrow> user_uuid \<Rightarrow> (string \<times> byte list \<times> byte list \<times> bool) option)" where
  "access_view d = (db_users d, \<lambda>site i.
     map_option (\<lambda>c. (cr_scheme c, cr_salt c, cr_verifier c, cr_kind c = ''password'')) (credential_of site i d))"

definition audited :: "user_db \<Rightarrow> user_db \<Rightarrow> bool" where
  "audited d d' \<longleftrightarrow> access_view d' = access_view d \<or> length (db_audit d) < length (db_audit d')"

lemma audited_refl [simp]: "audited d d"
  by (simp add: audited_def)

lemma audit_lengths [simp]:
  "length (db_audit (with_audit s i a x fs t d)) = Suc (length (db_audit d))" "db_audit (with_camera s i c d) = db_audit d"
  "db_audit (with_credential s i cr d) = db_audit d" "db_audit (with_user r d) = db_audit d" "db_audit (with_fields s i u d) = db_audit d"
  by (simp_all add: with_audit_def with_camera_def with_credential_def with_user_def with_fields_def)

lemma access_view_simps [simp]:
  "access_view (with_camera s i c d) = access_view d" "access_view (with_audit s i a x fs t d) = access_view d"
  by (simp_all add: access_view_def with_camera_def with_audit_def credential_of_def)

lemma bookkeeping_view:
  assumes "bookkeeping g d d'"
  shows "access_view d' = access_view d \<and> length (db_audit d') = length (db_audit d)"
proof (cases "d' = d")
  case False
  with assms obtain i v f t where f: "f = expire \<or> f = checked_at t" and d': "d' = update_pending (ug_site g) i v f d"
    unfolding bookkeeping_def by blast
  let ?k = "\<lambda>c. (cr_scheme c, cr_salt c, cr_verifier c, cr_kind c = ''password'')"
  from f have k: "?k (if cr_kind c = ''bootstrap'' \<and> cr_verifier c = v then f c else c) = ?k c" for c
    by (auto simp: expire_def checked_at_def)
  have "map_option ?k (credential_of s j d') = map_option ?k (credential_of s j d)" for s j
    unfolding d' credential_of_pending by (cases "(s, j) = (ug_site g, i)") (auto simp: option.map_comp comp_def k)
  with d' show ?thesis by (simp add: access_view_def)
qed simp

lemma audited_update:
  assumes "effect (registry_update env g i p a x) d y d'"
  shows "audited d d'"
  using effect_update [OF assms]
proof (elim disjE exE conjE)
  fix cur u a' d1
  assume "effect (store_changes env g i p cur u a') d () d1" "effect (store_camera env g cur u x a') d1 () d'"
  from effect_store_changes [OF this(1)] effect_store_camera [OF this(2)] show ?thesis
    by (auto simp: audited_def)
qed simp

lemma audited_perform:
  assumes "effect (registry_perform env g op) d y d'"
  shows "audited d d'"
proof -
  have forget: "\<exists>y. effect m d y d'" if "effect (forget m) d () d'" for m :: "'b reg"
    using that by (auto simp: forget_def elim!: effect_elims)
  have "audited d d'" if "effect (registry_create env g r a) d u d'" for r a u
    using that unfolding registry_create_def by (auto elim!: effect_elims simp: audited_def)
  moreover have "audited d d'" if "effect (bootstrap_administrator env g r q) d u d'" for r q u
    using that unfolding bootstrap_administrator_def by (auto elim!: effect_elims simp: audited_def split: if_splits)
  moreover have "audited d d'" if "effect (create_with_bootstrap env g r a ttl x) d z d'" for r a ttl x z
    using that unfolding create_with_bootstrap_def
    by (auto elim!: effect_elims simp: audited_def split: if_splits option.splits)
  moreover have "audited d d'" if "effect (set_camera_access env g i x a) d z d'" for i x a z
    using that unfolding set_camera_access_def by (auto elim!: effect_elims simp: audited_def split: option.splits)
  moreover have "audited d d'" if "effect (credential_status env g i) d z d'" for i z
    using effect_status [OF that] bookkeeping_view by (auto simp: audited_def)
  moreover have "audited d d'" if "effect (reset_bootstrap env g i a ttl) d z d'" for i a ttl z
    using effect_reset [OF that]
  proof (elim disjE exE conjE)
    fix a' r u tmp s v t d1 t'
    assume e: "effect (refuse_last_administrator env g u) d () d1" "user_by_id (ug_site g) i d = Some r" "decode_user r = Inr u"
      and d': "d' = with_audit (ug_site g) i ''password-reset'' a' [''credential_state''] t'
         (with_credential (ug_site g) i (bootstrap_row s v t (t + ttl * 1000000)) d1)"
    from effect_refuse_last [OF e] bookkeeping_view have "length (db_audit d1) = length (db_audit d)" by blast
    then show ?thesis by (simp add: audited_def d')
  qed simp
  moreover have "audited d d'" if "effect (activate_bootstrap_password env g n tmp pw a) d z d'" for n tmp pw a z
    using effect_activate [OF that] bookkeeping_view by (auto simp: audited_def)
  ultimately show ?thesis
    using assms by (cases op) (auto dest!: forget effect_get effect_get_camera effect_reads audited_update
      simp: verify_password_def elim!: effect_bindE effect_returnE)
qed

lemma atomic_returns_closed:
  assumes "atomic m" and "m w = (Inr y, w')" and "sq_backup w = None"
  shows "sq_backup w' = None"
proof -
  from assms(3) have "tx_idle (sq_db w) w" by (simp add: tx_idle_def)
  with securesD [of "sq_db w" "tx_idle (sq_db w)" m tx_closed w "Inr y" w'] assms(1,2) show ?thesis
    by (auto simp: atomic_def tx_closed_def)
qed

text \<open>
  C18: every operation is atomic and refines the abstract steps: one that raises leaves what others see of the
  database as it was, one that returns has committed a sequence of steps, has appended to the
  audit log whenever it changed who can log in, and leaves no transaction open if it found none.
\<close>

theorem registry_operations_are_atomic:
  "case registry_perform env g op w of
     (Inl e, w') \<Rightarrow> committed w' = committed w
   | (Inr x, w') \<Rightarrow> registry_steps g (committed w) (committed w') \<and> audited (committed w) (committed w') \<and>
       (sq_backup w = None \<longrightarrow> sq_backup w' = None)"
proof -
  obtain r w' where r: "registry_perform env g op w = (r, w')" by fastforce
  show ?thesis
  proof (cases r)
    case (Inl e)
    with atomic_cases(2) [OF atomic_perform r] r show ?thesis by simp
  next
    case (Inr x)
    from atomic_cases(1) [OF atomic_perform r] have "audited (committed w) (committed w')"
      using audited_perform [OF effectI [of "registry_perform env g op" w x w']] r Inr by auto
    with perform_refines [of g w env op] atomic_returns_closed [OF atomic_perform] r Inr show ?thesis by simp
  qed
qed

section \<open>Runs\<close>

text \<open>
  Every run of operations keeps user names (up to ASCII case) and identifiers unique, the registry within its
  capacity and the audit numbers increasing; it only appends to the audit log, and touches no row of another site.
\<close>

lemma registry_run_invariant:
  assumes "unique_users (committed w)" and "within_capacity g (committed w)" and "audit_ordered (committed w)"
  shows "let d' = committed (registry_run env g ops w) in
    unique_users d' \<and> within_capacity g d' \<and> audit_ordered d' \<and> prefix (db_audit (committed w)) (db_audit d') \<and>
    (\<forall>site. site \<noteq> ug_site g \<longrightarrow> site_view site d' = site_view site (committed w))"
proof -
  have steps: "unique_users d' \<and> within_capacity g d' \<and> audit_ordered d' \<and> prefix (db_audit (committed w)) (db_audit d') \<and>
      (\<forall>site. site \<noteq> ug_site g \<longrightarrow> site_view site d' = site_view site (committed w))" if "registry_steps g (committed w) d'" for d'
    using that
  proof induction
    case (step d1 d2)
    from step(3) step_unique [OF step(2)] step_capacity [OF step(2)] step_audit_ordered [OF step(2)] step_audit_grows [OF step(2)]
      step_other_site [OF step(2)] show ?case by (auto intro: prefix_order.trans)
  qed (use assms in simp)
  show ?thesis unfolding Let_def by (rule steps) (rule run_refines)
qed

section \<open>A small world\<close>

text \<open>No statement fails, the clocks stand, and scrypt appends the secret to the salt.\<close>

definition ann_bytes :: "byte list" where
  "ann_bytes = replicate 32 0 @ replicate 12 99 @ replicate 4 0"

definition tiny_env :: registry_env where
  "tiny_env = \<lparr>rn_sql = (\<lambda>_. Sql_Done), rn_now = (\<lambda>_. 1000000000), rn_monotonic = (\<lambda>_. 5), rn_salt = (\<lambda>_. replicate 16 0),
     rn_token = (\<lambda>_. replicate 43 97), rn_uuid = (\<lambda>n. 1000 + int n),
     rn_scrypt = (\<lambda>s salt. take 32 (salt @ s @ replicate 32 0)), rn_sha256 = (\<lambda>bs. if bs = ann_bytes then replicate 32 1 else bs @ replicate 33 0), rn_float = (\<lambda>x. x)\<rparr>"

lemma tiny_env_simps [simp]:
  "rn_sql tiny_env n = Sql_Done" "rn_now tiny_env n = 1000000000" "rn_monotonic tiny_env n = 5" "rn_salt tiny_env n = replicate 16 0"
  "rn_token tiny_env n = replicate 43 97" "rn_uuid tiny_env n = 1000 + int n"
  "rn_scrypt tiny_env s salt = take 32 (salt @ s @ replicate 32 0)"
  "rn_sha256 tiny_env bs = (if bs = ann_bytes then replicate 32 1 else bs @ replicate 33 0)" "rn_float tiny_env x = x"
  by (simp_all add: tiny_env_def)

definition tiny_site :: user_registry where
  "tiny_site = \<lparr>ug_capacity = 10, ug_site = [104]\<rparr>"

definition root_user :: user_account where
  "root_user = \<lparr>uc_username = [114, 111, 111, 116], uc_display_name = [82], uc_role = ADMINISTRATOR, uc_enabled = True, ua_id = 7\<rparr>"

definition ann_user :: user_account where
  "ann_user = \<lparr>uc_username = [97, 110, 110], uc_display_name = [65], uc_role = OPERATOR, uc_enabled = True, ua_id = 8\<rparr>"

definition tiny_db :: user_db where
  "tiny_db = \<lparr>db_users = [user_row_of [104] root_user, user_row_of [104] ann_user], db_audit = [],
     db_credentials = [(([104], 7), password_row (replicate 16 0) (take 32 (replicate 16 0 @ replicate 12 98 @ replicate 32 0))),
       (([104], 8), password_row (replicate 16 0) (take 32 (replicate 16 0 @ replicate 12 99 @ replicate 32 0)))], db_camera = []\<rparr>"

definition open_world :: "user_db \<Rightarrow> registry_world" where
  "open_world d = \<lparr>sq_db = d, sq_backup = None, sq_tick = 0, rw_open = True, rw_deadlines = Map.empty\<rparr>"

lemmas act_simps = act_bind_def act_return_def act_raise_def act_lift_def act_get_def act_update_def act_when_def act_catch_def
  act_reraise_def sql_def sql_select_def sql_change_def sql_begin_def sql_commit_def sql_guarded_def sql_shielded_def in_transaction_def
  reading_def require_connection_def set_deadline_def sql_tick_def

lemmas tiny_simps = tiny_db_def tiny_site_def root_user_def ann_user_def open_world_def user_row_of_def user_by_id_def user_by_name_def
  credential_of_def user_with_credential_def nocase_def

lemma utf8_encode_replicate: "c < 128 \<Longrightarrow> utf8_encode (replicate n c) = Some (replicate n (word_of_nat c))"
proof -
  assume "c < 128"
  then have "utf8_encode_nat (replicate n c) = Some (replicate n c)" by (induction n) (simp_all add: utf8_char_def)
  then show ?thesis by (simp add: utf8_encode_def)
qed

lemmas text_simps = validate_username_def validate_actor_def py_strip_def strip_where_def is_white_space_def identifier_matches_def
  is_ascii_alnum_def derive_credential_def utf8_encode_replicate

lemma ann_decodes [simp]: "decode_user (user_row_of [104] ann_user) = Inr ann_user"
  and root_decodes [simp]: "decode_user (user_row_of [104] root_user) = Inr root_user"
  by (simp_all add: decode_user_def user_row_of_def ann_user_def root_user_def mk_user_account_def check_username_def check_display_name_def
    trim_def strip_where_def is_white_space_def identifier_matches_def is_ascii_alnum_def utf8_encode_def utf8_char_def
    user_role_of_def)

definition ann_credential :: credential_row where
  "ann_credential = password_row (replicate 16 0) (replicate 16 0 @ replicate 12 99 @ replicate 4 0)"

lemma ann_credential_simps [simp]:
  "cr_scheme ann_credential = ''scrypt-v1''" "cr_kind ann_credential = ''password''" "cr_expires_at ann_credential = None"
  "cr_salt ann_credential = replicate 16 0" "cr_verifier ann_credential = replicate 16 0 @ replicate 12 99 @ replicate 4 0"
  "replicate 16 0 @ replicate 16 0 @ replicate 12 99 @ replicate 4 0 = ann_bytes"
  by (simp_all add: ann_credential_def password_row_def ann_bytes_def replicate_add [symmetric] flip: append_assoc)

lemma ann_row_simps [simp]:
  "ur_id (user_row_of [104] ann_user) = 8" "ur_enabled (user_row_of [104] ann_user) = 1" "ua_id ann_user = 8"
  by (simp_all add: user_row_of_def ann_user_def)

lemma tiny_rows [simp]:
  "user_by_id [104] 8 tiny_db = Some (user_row_of [104] ann_user)" "user_by_name [104] [97, 110, 110] tiny_db = Some (user_row_of [104] ann_user)"
  "credential_of [104] 8 tiny_db = Some ann_credential"
  by (simp_all add: tiny_simps ann_credential_def)

lemma tiny_invariants: "unique_users tiny_db" "has_administrator [104] tiny_db" "within_capacity tiny_site tiny_db" "audit_ordered tiny_db"
  by (simp_all add: tiny_simps unique_users_def has_administrator_def within_capacity_def audit_ordered_def is_active_administrator_def
    password_row_def)

lemma open_world_simps [simp]:
  "sq_db (open_world d) = d" "sq_backup (open_world d) = None" "committed (open_world d) = d" "rw_open (open_world d)"
  "sq_tick (open_world d) = 0" "rw_deadlines (open_world d) = Map.empty" "ug_site tiny_site = [104]" "ug_capacity tiny_site = 10"
  by (simp_all add: open_world_def tiny_site_def)

theorem registry_operations_are_atomic_witness:
  "\<exists>w'. registry_perform tiny_env tiny_site (Op_get 8) (open_world tiny_db) = (Inr (), w') \<and>
    registry_steps tiny_site tiny_db (committed w') \<and> sq_backup w' = None"
proof -
  have get: "registry_perform tiny_env tiny_site (Op_get 8) (open_world tiny_db) = (Inr (), sql_tick (open_world tiny_db))"
    by (simp add: forget_def registry_get_def act_simps)
  from registry_operations_are_atomic [where env = tiny_env and g = tiny_site and op = "Op_get 8" and w = "open_world tiny_db"] get show ?thesis by simp
qed

lemma registry_run_invariant_witness:
  "let d' = committed (registry_run tiny_env tiny_site [Op_create \<lparr>uc_username = [98, 111, 98], uc_display_name = [66], uc_role = VIEWER,
     uc_enabled = True\<rparr> [114]] (open_world tiny_db)) in unique_users d' \<and> within_capacity tiny_site d' \<and> audit_ordered d' \<and>
   prefix (db_audit (committed (open_world tiny_db))) (db_audit d') \<and>
   (\<forall>site. site \<noteq> ug_site tiny_site \<longrightarrow> site_view site d' = site_view site (committed (open_world tiny_db)))"
  by (rule registry_run_invariant) (simp_all add: tiny_invariants)

lemma ann_matches: "login_matches tiny_env tiny_site [97, 110, 110] (replicate 12 99) tiny_db r c \<longleftrightarrow>
    r = user_row_of [104] ann_user \<and> c = ann_credential"
  by (auto simp: login_matches_def text_simps)

theorem login_checks_the_password_witness:
  "\<exists>w'. verify_password_snapshot tiny_env tiny_site [97, 110, 110] (replicate 12 99) (open_world tiny_db) =
    (Inr (Some (ann_user, replicate 32 1)), w')"
proof -
  have "rw_open (open_world tiny_db)" "rn_sql tiny_env (sq_tick (open_world tiny_db)) = Sql_Done" by simp_all
  from login_checks_the_password [OF this, of tiny_site "[97, 110, 110]" "replicate 12 99" ann_user "replicate 32 1"]
  show ?thesis by (simp add: ann_matches)
qed

lemma ann_logs_in: "verify_password_snapshot tiny_env tiny_site [97, 110, 110] (replicate 12 99) (open_world tiny_db) =
    (Inr (Some (ann_user, replicate 32 1)), sql_tick (open_world tiny_db))"
  using login_succeeds [of tiny_env tiny_site "[97, 110, 110]" "replicate 12 99" "open_world tiny_db" "user_row_of [104] ann_user" ann_credential ann_user]
  by (simp add: ann_matches)

lemma ann_resolves: "resolve_session tiny_env tiny_site ann_user (Some (replicate 32 1)) (open_world tiny_db) =
    (Inr (Some ann_user), sql_tick (open_world tiny_db))"
  by (simp add: resolve_session_def act_bind_def act_return_def act_lift_def act_catch_def sql_select_def sql_def sql_shielded_def
    require_connection_def user_with_credential_def has_active_password_def)

theorem session_dies_with_its_password_witness:
  "\<exists>r c r1 c1. login_matches tiny_env tiny_site [97, 110, 110] (replicate 12 99) (sq_db (open_world tiny_db)) r c \<and>
    user_by_id (ug_site tiny_site) (ua_id ann_user) (sq_db (open_world tiny_db)) = Some r1 \<and>
    credential_of (ug_site tiny_site) (ua_id ann_user) (sq_db (open_world tiny_db)) = Some c1 \<and> has_active_password r1 c1 \<and>
    ua_id ann_user = ua_id ann_user \<and> uc_role ann_user = uc_role ann_user \<and> cr_salt c1 @ cr_verifier c1 = cr_salt c @ cr_verifier c"
  by (rule session_dies_with_its_password [OF ann_logs_in _ ann_resolves])
    (auto simp: ann_matches split: if_splits dest: arg_cong [of _ _ length])

lemma ann_reset: "\<exists>w'. reset_bootstrap tiny_env tiny_site 8 [114] 900 (open_world tiny_db) = (Inr (Some (ann_user, replicate 43 97, 1900000000)), w')"
proof -
  have "uc_role ann_user = OPERATOR" by (simp add: ann_user_def)
  then show ?thesis
    by (simp add: reset_bootstrap_def act_simps text_simps registry_get_def refuse_last_administrator_def append_audit_def)
qed

lemma reset_revokes_access_witness:
  "\<exists>w'. reset_bootstrap tiny_env tiny_site 8 [114] 900 (open_world tiny_db) = (Inr (Some (ann_user, replicate 43 97, 1900000000)), w') \<and>
    (\<forall>u1 w2. resolve_session tiny_env tiny_site ann_user (Some (replicate 32 1)) w' \<noteq> (Inr (Some u1), w2))"
proof -
  from ann_reset obtain w' where run: "reset_bootstrap tiny_env tiny_site 8 [114] 900 (open_world tiny_db) =
    (Inr (Some (ann_user, replicate 43 97, 1900000000)), w')" by blast
  from reset_revokes_access [OF run refl, of tiny_env] run show ?thesis by blast
qed

lemma expired_secret_is_refused_witness:
  "\<exists>w'. reset_bootstrap tiny_env tiny_site 8 [114] 900 (open_world tiny_db) = (Inr (Some (ann_user, replicate 43 97, 1900000000)), w') \<and>
    activate_bootstrap_password (tiny_env\<lparr>rn_monotonic := \<lambda>_. 905\<rparr>) tiny_site [97, 110, 110] (replicate 43 97) (replicate 12 98) [97] w'
      \<noteq> (Inr (Some ann_user), w')"
proof -
  from ann_reset obtain w' where run: "reset_bootstrap tiny_env tiny_site 8 [114] 900 (open_world tiny_db) =
    (Inr (Some (ann_user, replicate 43 97, 1900000000)), w')" by blast
  have "activate_bootstrap_password (tiny_env\<lparr>rn_monotonic := \<lambda>_. 905\<rparr>) tiny_site [97, 110, 110] (replicate 43 97) (replicate 12 98) [97] w'
      \<noteq> (Inr (Some ann_user), w') \<or> ua_id ann_user \<noteq> 8"
    by (rule expired_secret_is_refused [OF run refl refl]) simp
  with run show ?thesis by auto
qed

definition pending_db :: user_db where
  "pending_db = with_credential [104] 8 (bootstrap_row (replicate 16 0) (replicate 16 0 @ replicate 16 97) 900000000 1900000000) tiny_db"

lemma pending_rows [simp]:
  "user_by_name [104] [97, 110, 110] pending_db = Some (user_row_of [104] ann_user)"
  "credential_of [104] 8 pending_db = Some (bootstrap_row (replicate 16 0) (replicate 16 0 @ replicate 16 97) 900000000 1900000000)"
  by (simp_all add: pending_db_def credential_of_with)

lemma ann_activates: "\<exists>w'. activate_bootstrap_password tiny_env tiny_site [97, 110, 110] (replicate 43 97) (replicate 12 98) [97] (open_world pending_db) =
    (Inr (Some ann_user), w')"
  by (simp add: activate_bootstrap_password_def act_bind_def act_return_def act_lift_def act_get_def act_catch_def sql_def
    sql_select_def sql_change_def sql_begin_def sql_commit_def sql_guarded_def in_transaction_def reading_def require_connection_def
    set_deadline_def act_update_def sql_tick_def text_simps user_with_credential_def pending_credential_def bootstrap_eligible_def Let_def
    stamp_time_def total_seconds_def bootstrap_row_def consume_bootstrap_def append_audit_def)

theorem bootstrap_secret_works_once_witness:
  "\<exists>w'. activate_bootstrap_password tiny_env tiny_site [97, 110, 110] (replicate 43 97) (replicate 12 98) [97] (open_world pending_db) =
      (Inr (Some ann_user), w') \<and> (\<exists>r c. login_matches tiny_env tiny_site [97, 110, 110] (replicate 12 98) (sq_db w') r c \<and> decode_user r = Inr ann_user)"
proof -
  from ann_activates obtain w' where run: "activate_bootstrap_password tiny_env tiny_site [97, 110, 110] (replicate 43 97) (replicate 12 98) [97]
      (open_world pending_db) = (Inr (Some ann_user), w')" by blast
  have "\<exists>r c. login_matches tiny_env tiny_site [97, 110, 110] (replicate 12 98) (sq_db w') r c \<and> decode_user r = Inr ann_user"
    by (rule conjunct1 [OF bootstrap_secret_works_once [OF run _ _ refl, where ?env1.0 = tiny_env]]) simp_all
  with run show ?thesis by blast
qed

end
