(* ===== verification/Auth_Sessions.thy ===== *)
theory Auth_Sessions
  imports User_Access
begin

text \<open>
  \<open>src/src/k5vision/auth_sessions.py\<close>: \<open>UserSessionManager\<close>, one opaque session per account, in memory.
  A resolution takes its lock twice and reads the durable authority in a thread in between, so that
  logins, revocations, other resolutions and changes of the authority interleave with it. The sections
  under the lock are functions; the interleavings are the step relation \<open>session_step\<close>.
\<close>

section \<open>State\<close>

text \<open>\<open>sr_serial\<close> is the identity of the record object, which \<open>is not\<close> compares.\<close>

record session_record =
  sr_serial :: nat
  sr_account :: user_account
  sr_expires_at :: int
  sr_deadline :: rat
  sr_credential_version :: "byte list option"

record session_manager =
  sm_ttl :: int
  sm_sessions :: "byte list \<rightharpoonup> session_record"
  sm_user_tokens :: "user_uuid \<rightharpoonup> byte list"
  sm_listeners :: "nat set"
  sm_serial :: nat

definition session_manager_init :: "int \<Rightarrow> python_exn + session_manager" where
  "session_manager_init ttl =
     (if \<not> (300 \<le> ttl \<and> ttl \<le> 86400) then Inl Py_ValueError
      else Inr \<lparr>sm_ttl = ttl, sm_sessions = Map.empty, sm_user_tokens = Map.empty, sm_listeners = {}, sm_serial = 0\<rparr>)"

text \<open>A listener is named by a number; what it does is outside the manager.\<close>

definition add_revocation_listener :: "nat \<Rightarrow> session_manager \<Rightarrow> session_manager" where
  "add_revocation_listener l m = m\<lparr>sm_listeners := insert l (sm_listeners m)\<rparr>"

definition remove_revocation_listener :: "nat \<Rightarrow> session_manager \<Rightarrow> session_manager" where
  "remove_revocation_listener l m = m\<lparr>sm_listeners := sm_listeners m - {l}\<rparr>"

definition notify_revocation :: "session_manager \<Rightarrow> user_uuid \<Rightarrow> (nat \<times> user_uuid) set" where
  "notify_revocation m u = (\<lambda>l. (l, u)) ` sm_listeners m"

definition is_ascii :: "pystr \<Rightarrow> bool" where
  "is_ascii s \<longleftrightarrow> list_all (\<lambda>c. c < 128) s"

definition token_is_valid :: "pystr \<Rightarrow> bool" where
  "token_is_valid t \<longleftrightarrow> 32 \<le> len t \<and> len t \<le> 128 \<and> is_ascii t \<and> list_all (\<lambda>c. is_ascii_alnum c \<or> c = 95 \<or> c = 45) t"

definition token_digest :: "(byte list \<Rightarrow> byte list) \<Rightarrow> pystr \<Rightarrow> byte list" where
  "token_digest sha t = sha (map of_nat t)"

section \<open>The sections under the lock\<close>

text \<open>\<open>token\<close> is what \<open>secrets.token_urlsafe\<close> returns, \<open>now\<close> and \<open>clock\<close> are the clocks.\<close>

definition session_issue ::
  "(rat \<Rightarrow> rat) \<Rightarrow> (byte list \<Rightarrow> byte list) \<Rightarrow> pystr \<Rightarrow> int \<Rightarrow> rat \<Rightarrow> user_account \<Rightarrow> byte list option \<Rightarrow> session_manager \<Rightarrow>
   (python_exn + pystr \<times> int) \<times> session_manager" where
  "session_issue fl sha token now clock account credential_version m =
     (if (case credential_version of None \<Rightarrow> False | Some v \<Rightarrow> length v \<noteq> 32) then (Inl Py_ValueError, m)
      else if \<not> is_ascii token then (Inl Py_ValueError, m)
      else
        (let digest = token_digest sha token; expires_at = now + sm_ttl m * 1000000;
             rec = \<lparr>sr_serial = sm_serial m, sr_account = account, sr_expires_at = expires_at,
                    sr_deadline = fl (clock + of_int (sm_ttl m)), sr_credential_version = credential_version\<rparr>;
             rest = (case sm_user_tokens m (ua_id account) of None \<Rightarrow> sm_sessions m | Some previous \<Rightarrow> (sm_sessions m)(previous := None))
         in (Inr (token, expires_at),
             m\<lparr>sm_sessions := rest(digest \<mapsto> rec), sm_user_tokens := (sm_user_tokens m)(ua_id account \<mapsto> digest),
               sm_serial := Suc (sm_serial m)\<rparr>)))"

text \<open>Dropping the session of a digest, and the account's token if that is still this one.\<close>

definition drop_session :: "byte list \<Rightarrow> session_record \<Rightarrow> session_manager \<Rightarrow> session_manager" where
  "drop_session digest rec m =
     m\<lparr>sm_sessions := (sm_sessions m)(digest := None),
       sm_user_tokens := (if sm_user_tokens m (ua_id (sr_account rec)) = Some digest
         then (sm_user_tokens m)(ua_id (sr_account rec) := None) else sm_user_tokens m)\<rparr>"

text \<open>The first section of \<open>resolve\<close>: the answer, or the digest and record to read the authority for.\<close>

definition resolve_begin ::
  "(byte list \<Rightarrow> byte list) \<Rightarrow> bool \<Rightarrow> rat \<Rightarrow> pystr \<Rightarrow> session_manager \<Rightarrow> (user_account option + byte list \<times> session_record) \<times> session_manager" where
  "resolve_begin sha durable clock token m =
     (if \<not> token_is_valid token then (Inl None, m)
      else case sm_sessions m (token_digest sha token) of
        None \<Rightarrow> (Inl None, m)
      | Some rec \<Rightarrow>
          (if sr_deadline rec \<le> clock then (Inl None, drop_session (token_digest sha token) rec m)
           else if \<not> durable then (Inl (Some (sr_account rec)), m)
           else (Inr (token_digest sha token, rec), m)))"

text \<open>The second, after the authority has answered \<open>current\<close>.\<close>

definition resolve_finish ::
  "rat \<Rightarrow> byte list \<Rightarrow> session_record \<Rightarrow> user_account option \<Rightarrow> session_manager \<Rightarrow> user_account option \<times> session_manager" where
  "resolve_finish clock digest rec current m =
     (if \<not> (case sm_sessions m digest of None \<Rightarrow> False | Some found \<Rightarrow> sr_serial found = sr_serial rec) then (None, m)
      else if sr_deadline rec \<le> clock \<or> current = None then (None, drop_session digest rec m)
      else (current, m))"

definition session_revoke ::
  "(byte list \<Rightarrow> byte list) \<Rightarrow> pystr \<Rightarrow> session_manager \<Rightarrow> bool \<times> (nat \<times> user_uuid) set \<times> session_manager" where
  "session_revoke sha token m =
     (if \<not> token_is_valid token then (False, {}, m)
      else case sm_sessions m (token_digest sha token) of
        None \<Rightarrow> (False, {}, m)
      | Some rec \<Rightarrow> (True, notify_revocation m (ua_id (sr_account rec)), drop_session (token_digest sha token) rec m))"

definition session_revoke_user :: "user_uuid \<Rightarrow> session_manager \<Rightarrow> (nat \<times> user_uuid) set \<times> session_manager" where
  "session_revoke_user u m =
     (notify_revocation m u,
      (case sm_user_tokens m u of
         None \<Rightarrow> m
       | Some digest \<Rightarrow> m\<lparr>sm_sessions := (sm_sessions m)(digest := None), sm_user_tokens := (sm_user_tokens m)(u := None)\<rparr>))"

section \<open>Interleavings\<close>

text \<open>
  A resolution between its sections has its digest, its record and, once the authority has been read, the
  answer. The authority is the function of account and credential version that the registry answers with; it changes at any time.
\<close>

record resolution =
  rs_digest :: "byte list"
  rs_record :: session_record
  rs_answer :: "user_account option option"

record session_system =
  sy_manager :: session_manager
  sy_pending :: "nat \<rightharpoonup> resolution"
  sy_authority :: "user_account \<Rightarrow> byte list option \<Rightarrow> user_account option"
  sy_clock :: rat

text \<open>What is observed: logins, revocations, changes of the authority, and the answers of resolutions, by the account whose session they found.\<close>

datatype session_event =
    Ev_issue user_uuid
  | Ev_revoke_user user_uuid
  | Ev_resolved user_uuid "user_account option"
  | Ev_authority "user_account \<Rightarrow> byte list option \<Rightarrow> user_account option"
  | Ev_silent

text \<open>A new token is new: its digest is not that of a session of another account.\<close>

inductive session_step :: "(rat \<Rightarrow> rat) \<Rightarrow> (byte list \<Rightarrow> byte list) \<Rightarrow> session_system \<Rightarrow> session_event \<Rightarrow> session_system \<Rightarrow> bool"
  for fl :: "rat \<Rightarrow> rat" and sha :: "byte list \<Rightarrow> byte list" where
  issues: "session_issue fl sha token now (sy_clock s) account v (sy_manager s) = (Inr x, m) \<Longrightarrow>
    (case sm_sessions (sy_manager s) (token_digest sha token) of None \<Rightarrow> True | Some r \<Rightarrow> ua_id (sr_account r) = ua_id account) \<Longrightarrow>
    session_step fl sha s (Ev_issue (ua_id account)) (s\<lparr>sy_manager := m\<rparr>)"
| begins: "resolve_begin sha True (sy_clock s) token (sy_manager s) = (Inr (digest, rec), m) \<Longrightarrow> sy_pending s k = None \<Longrightarrow>
    session_step fl sha s Ev_silent (s\<lparr>sy_manager := m,
      sy_pending := (sy_pending s)(k \<mapsto> \<lparr>rs_digest = digest, rs_record = rec, rs_answer = None\<rparr>)\<rparr>)"
| refuses: "resolve_begin sha True (sy_clock s) token (sy_manager s) = (Inl answer, m) \<Longrightarrow>
    session_step fl sha s Ev_silent (s\<lparr>sy_manager := m\<rparr>)"
| reads: "sy_pending s k = Some p \<Longrightarrow> rs_answer p = None \<Longrightarrow>
    session_step fl sha s Ev_silent (s\<lparr>sy_pending := (sy_pending s)
      (k \<mapsto> p\<lparr>rs_answer := Some (sy_authority s (sr_account (rs_record p)) (sr_credential_version (rs_record p)))\<rparr>)\<rparr>)"
| gives_up: "session_step fl sha s Ev_silent (s\<lparr>sy_pending := (sy_pending s)(k := None)\<rparr>)"
| finishes: "sy_pending s k = Some p \<Longrightarrow> rs_answer p = Some current \<Longrightarrow>
    resolve_finish (sy_clock s) (rs_digest p) (rs_record p) current (sy_manager s) = (answer, m) \<Longrightarrow>
    session_step fl sha s (Ev_resolved (ua_id (sr_account (rs_record p))) answer) (s\<lparr>sy_manager := m, sy_pending := (sy_pending s)(k := None)\<rparr>)"
| revokes: "session_revoke sha token (sy_manager s) = (b, told, m) \<Longrightarrow> session_step fl sha s Ev_silent (s\<lparr>sy_manager := m\<rparr>)"
| revokes_user: "session_revoke_user u (sy_manager s) = (told, m) \<Longrightarrow> session_step fl sha s (Ev_revoke_user u) (s\<lparr>sy_manager := m\<rparr>)"
| authority_changes: "session_step fl sha s (Ev_authority a) (s\<lparr>sy_authority := a\<rparr>)"
| time_passes: "sy_clock s \<le> t \<Longrightarrow> session_step fl sha s Ev_silent (s\<lparr>sy_clock := t\<rparr>)"

inductive session_run :: "(rat \<Rightarrow> rat) \<Rightarrow> (byte list \<Rightarrow> byte list) \<Rightarrow> session_system \<Rightarrow> session_event list \<Rightarrow> session_system \<Rightarrow> bool"
  for fl :: "rat \<Rightarrow> rat" and sha :: "byte list \<Rightarrow> byte list" and s :: session_system where
  run_none: "session_run fl sha s [] s"
| run_step: "session_run fl sha s es s1 \<Longrightarrow> session_step fl sha s1 e s2 \<Longrightarrow> session_run fl sha s (es @ [e]) s2"

section \<open>What every interleaving keeps\<close>

definition one_session_each :: "session_manager \<Rightarrow> bool" where
  "one_session_each m \<longleftrightarrow>
     (\<forall>d r. sm_sessions m d = Some r \<longrightarrow> sm_user_tokens m (ua_id (sr_account r)) = Some d) \<and>
     (\<forall>u d. sm_user_tokens m u = Some d \<longrightarrow> (\<exists>r. sm_sessions m d = Some r \<and> ua_id (sr_account r) = u))"

text \<open>Record objects are told apart by their serials.\<close>

definition serials_ok :: "session_system \<Rightarrow> bool" where
  "serials_ok s \<longleftrightarrow>
     (\<forall>d r. sm_sessions (sy_manager s) d = Some r \<longrightarrow> sr_serial r < sm_serial (sy_manager s)) \<and>
     (\<forall>k p. sy_pending s k = Some p \<longrightarrow> sr_serial (rs_record p) < sm_serial (sy_manager s)) \<and>
     (\<forall>d r d' r'. sm_sessions (sy_manager s) d = Some r \<longrightarrow> sm_sessions (sy_manager s) d' = Some r' \<longrightarrow> sr_serial r = sr_serial r' \<longrightarrow> d = d') \<and>
     (\<forall>k p d r. sy_pending s k = Some p \<longrightarrow> sm_sessions (sy_manager s) d = Some r \<longrightarrow> sr_serial r = sr_serial (rs_record p) \<longrightarrow> r = rs_record p)"

lemma one_session_eachD:
  assumes "one_session_each m"
  shows "sm_sessions m d = Some r \<Longrightarrow> sm_user_tokens m (ua_id (sr_account r)) = Some d"
    and "sm_user_tokens m u = Some d \<Longrightarrow> \<exists>r. sm_sessions m d = Some r \<and> ua_id (sr_account r) = u"
  using assms by (auto simp: one_session_each_def)

lemma one_session_eachI:
  "(\<And>d r. sm_sessions m d = Some r \<Longrightarrow> sm_user_tokens m (ua_id (sr_account r)) = Some d) \<Longrightarrow>
   (\<And>u d. sm_user_tokens m u = Some d \<Longrightarrow> \<exists>r. sm_sessions m d = Some r \<and> ua_id (sr_account r) = u) \<Longrightarrow> one_session_each m"
  by (simp add: one_session_each_def)

lemma drop_session_ok:
  assumes ok: "one_session_each m" and r: "sm_sessions m d = Some r"
  shows "one_session_each (drop_session d r m)"
proof (rule one_session_eachI)
  fix d' r' assume "sm_sessions (drop_session d r m) d' = Some r'"
  then have "d' \<noteq> d" "sm_sessions m d' = Some r'" by (auto simp: drop_session_def split: if_splits)
  with one_session_eachD(1) [OF ok this(2)] one_session_eachD(1) [OF ok r]
  show "sm_user_tokens (drop_session d r m) (ua_id (sr_account r')) = Some d'" by (auto simp: drop_session_def)
next
  fix u d' assume t: "sm_user_tokens (drop_session d r m) u = Some d'"
  with one_session_eachD(1) [OF ok r] have u: "u \<noteq> ua_id (sr_account r)" "sm_user_tokens m u = Some d'"
    by (auto simp: drop_session_def split: if_splits)
  from one_session_eachD(2) [OF ok u(2)] u(1) r show "\<exists>r'. sm_sessions (drop_session d r m) d' = Some r' \<and> ua_id (sr_account r') = u"
    by (auto simp: drop_session_def)
qed

lemma drop_session_fewer:
  "sm_sessions (drop_session d r m) d' = Some r' \<Longrightarrow> sm_sessions m d' = Some r'" "sm_serial (drop_session d r m) = sm_serial m"
  "sm_user_tokens m u = None \<Longrightarrow> sm_user_tokens (drop_session d r m) u = None"
  by (auto simp: drop_session_def split: if_splits)

text \<open>What a login does to the two tables.\<close>

lemma session_issueD:
  assumes "session_issue fl sha token now clock account v m = (Inr x, m')"
  shows "\<exists>rec. ua_id (sr_account rec) = ua_id account \<and> sr_serial rec = sm_serial m \<and> sm_serial m' = Suc (sm_serial m) \<and>
    sm_user_tokens m' = (sm_user_tokens m)(ua_id account \<mapsto> token_digest sha token) \<and>
    (\<forall>d. sm_sessions m' d = (if d = token_digest sha token then Some rec
       else if sm_user_tokens m (ua_id account) = Some d then None else sm_sessions m d))"
proof -
  let ?rec = "\<lparr>sr_serial = sm_serial m, sr_account = account, sr_expires_at = now + sm_ttl m * 1000000,
    sr_deadline = fl (clock + of_int (sm_ttl m)), sr_credential_version = v\<rparr>"
  let ?rest = "case sm_user_tokens m (ua_id account) of None \<Rightarrow> sm_sessions m | Some previous \<Rightarrow> (sm_sessions m)(previous := None)"
  have "(Inl Py_ValueError :: python_exn + pystr \<times> int, m) \<noteq> (Inr x, m')" by simp
  with assms have m': "m' = m\<lparr>sm_sessions := ?rest(token_digest sha token \<mapsto> ?rec),
      sm_user_tokens := (sm_user_tokens m)(ua_id account \<mapsto> token_digest sha token), sm_serial := Suc (sm_serial m)\<rparr>"
    unfolding session_issue_def Let_def by (metis (no_types, lifting) prod.inject)
  show ?thesis unfolding m' by (rule exI [of _ ?rec]) (auto split: option.split)
qed

lemma session_issue_ok:
  assumes ok: "one_session_each m" and run: "session_issue fl sha token now clock account v m = (Inr x, m')"
    and fresh: "case sm_sessions m (token_digest sha token) of None \<Rightarrow> True | Some r \<Rightarrow> ua_id (sr_account r) = ua_id account"
  shows "one_session_each m'"
proof -
  let ?D = "token_digest sha token" and ?i = "ua_id account"
  from session_issueD [OF run] obtain rec where rec: "ua_id (sr_account rec) = ?i"
    and t: "sm_user_tokens m' = (sm_user_tokens m)(?i \<mapsto> ?D)"
    and s: "\<And>d. sm_sessions m' d = (if d = ?D then Some rec else if sm_user_tokens m ?i = Some d then None else sm_sessions m d)" by blast
  show ?thesis
  proof (rule one_session_eachI)
    fix d r assume "sm_sessions m' d = Some r"
    then consider "d = ?D" "r = rec" | "d \<noteq> ?D" "sm_user_tokens m ?i \<noteq> Some d" "sm_sessions m d = Some r"
      by (auto simp: s split: if_splits)
    then show "sm_user_tokens m' (ua_id (sr_account r)) = Some d"
      using one_session_eachD(1) [OF ok, of d r] rec by cases (auto simp: t)
  next
    fix u d assume u: "sm_user_tokens m' u = Some d"
    show "\<exists>r. sm_sessions m' d = Some r \<and> ua_id (sr_account r) = u"
    proof (cases "u = ?i")
      case True
      with u rec show ?thesis by (simp add: t s)
    next
      case False
      with u have old: "sm_user_tokens m u = Some d" by (simp add: t)
      from one_session_eachD(2) [OF ok old] obtain r where r: "sm_sessions m d = Some r" "ua_id (sr_account r) = u" by blast
      with fresh False have "d \<noteq> ?D" by auto
      moreover from one_session_eachD(2) [OF ok, of ?i d] r False have "sm_user_tokens m ?i \<noteq> Some d" by auto
      ultimately show ?thesis using r by (simp add: s)
    qed
  qed
qed

text \<open>Serials survive when sessions only go, and when a new record is stored.\<close>

lemma serials_okD:
  assumes "serials_ok s"
  shows "sm_sessions (sy_manager s) d = Some r \<Longrightarrow> sr_serial r < sm_serial (sy_manager s)"
    and "sy_pending s k = Some p \<Longrightarrow> sr_serial (rs_record p) < sm_serial (sy_manager s)"
    and "sm_sessions (sy_manager s) d = Some r \<Longrightarrow> sm_sessions (sy_manager s) d' = Some r' \<Longrightarrow> sr_serial r = sr_serial r' \<Longrightarrow> d = d'"
    and "sy_pending s k = Some p \<Longrightarrow> sm_sessions (sy_manager s) d = Some r \<Longrightarrow> sr_serial r = sr_serial (rs_record p) \<Longrightarrow> r = rs_record p"
  using assms unfolding serials_ok_def by blast+

lemma serials_okI:
  "(\<And>d r. sm_sessions (sy_manager s) d = Some r \<Longrightarrow> sr_serial r < sm_serial (sy_manager s)) \<Longrightarrow>
   (\<And>k p. sy_pending s k = Some p \<Longrightarrow> sr_serial (rs_record p) < sm_serial (sy_manager s)) \<Longrightarrow>
   (\<And>d r d' r'. sm_sessions (sy_manager s) d = Some r \<Longrightarrow> sm_sessions (sy_manager s) d' = Some r' \<Longrightarrow> sr_serial r = sr_serial r' \<Longrightarrow> d = d') \<Longrightarrow>
   (\<And>k p d r. sy_pending s k = Some p \<Longrightarrow> sm_sessions (sy_manager s) d = Some r \<Longrightarrow> sr_serial r = sr_serial (rs_record p) \<Longrightarrow> r = rs_record p) \<Longrightarrow>
   serials_ok s"
  unfolding serials_ok_def by blast

lemma serials_fewer:
  assumes "serials_ok s" and "sm_serial m = sm_serial (sy_manager s)"
    and "\<And>d r. sm_sessions m d = Some r \<Longrightarrow> sm_sessions (sy_manager s) d = Some r"
    and "\<And>k p. sy_pending s' k = Some p \<Longrightarrow> (\<exists>k' p'. sy_pending s k' = Some p' \<and> rs_record p' = rs_record p) \<or>
      (\<exists>d. sm_sessions (sy_manager s) d = Some (rs_record p))"
    and "sy_manager s' = m"
  shows "serials_ok s'"
proof (rule serials_okI)
  fix k p d r
  assume p: "sy_pending s' k = Some p" and r: "sm_sessions (sy_manager s') d = Some r" and eq: "sr_serial r = sr_serial (rs_record p)"
  from r assms(3,5) have r': "sm_sessions (sy_manager s) d = Some r" by simp
  from assms(4) [OF p] show "r = rs_record p"
  proof (elim disjE exE conjE)
    fix k' p' assume "sy_pending s k' = Some p'" "rs_record p' = rs_record p"
    with serials_okD(4) [OF assms(1) _ r'] eq show ?thesis by metis
  next
    fix d' assume "sm_sessions (sy_manager s) d' = Some (rs_record p)"
    with serials_okD(3) [OF assms(1) r' _ eq] r' show ?thesis by auto
  qed
next
  fix k p assume p: "sy_pending s' k = Some p"
  from assms(4) [OF p] serials_okD(1,2) [OF assms(1)] show "sr_serial (rs_record p) < sm_serial (sy_manager s')"
    using assms(2,5) by metis
next
  fix d r assume "sm_sessions (sy_manager s') d = Some r"
  with assms(3,5) have "sm_sessions (sy_manager s) d = Some r" by simp
  from serials_okD(1) [OF assms(1) this] assms(2,5) show "sr_serial r < sm_serial (sy_manager s')" by simp
next
  fix d r d' r' assume "sm_sessions (sy_manager s') d = Some r" "sm_sessions (sy_manager s') d' = Some r'" and eq: "sr_serial r = sr_serial r'"
  with assms(3,5) have "sm_sessions (sy_manager s) d = Some r" "sm_sessions (sy_manager s) d' = Some r'" by simp_all
  from serials_okD(3) [OF assms(1) this eq] show "d = d'" .
qed

lemma step_serials:
  assumes "session_step fl sha s e s'" and ok: "serials_ok s"
  shows "serials_ok s'"
  using assms(1)
proof cases
  case (issues token now account v x m)
  from session_issueD [OF issues(3)] obtain rec where rec: "sr_serial rec = sm_serial (sy_manager s)" "sm_serial m = Suc (sm_serial (sy_manager s))"
    and s: "\<And>d r. sm_sessions m d = Some r \<Longrightarrow> d = token_digest sha token \<and> r = rec \<or> sm_sessions (sy_manager s) d = Some r"
    by (metis (full_types) option.distinct(1) option.inject)
  have old: "sr_serial r \<noteq> sm_serial (sy_manager s)" if "sm_sessions (sy_manager s) d = Some r" for d r
    using serials_okD(1) [OF ok that] by simp
  have pend: "sr_serial (rs_record p) \<noteq> sm_serial (sy_manager s)" if "sy_pending s k = Some p" for k p
    using serials_okD(2) [OF ok that] by simp
  have m: "sy_manager s' = m" "sy_pending s' = sy_pending s" using issues by simp_all
  show ?thesis
  proof (rule serials_okI)
    fix d r d' r' assume "sm_sessions (sy_manager s') d = Some r" "sm_sessions (sy_manager s') d' = Some r'" "sr_serial r = sr_serial r'"
    with s [of d r] s [of d' r'] rec(1) old [of d r] old [of d' r'] serials_okD(3) [OF ok, of d r d' r'] show "d = d'" unfolding m by metis
  next
    fix d r assume "sm_sessions (sy_manager s') d = Some r"
    with s [of d r] rec serials_okD(1) [OF ok] issues show "sr_serial r < sm_serial (sy_manager s')" by (auto intro: less_SucI)
  next
    fix k p assume "sy_pending s' k = Some p"
    with rec serials_okD(2) [OF ok] issues show "sr_serial (rs_record p) < sm_serial (sy_manager s')" by (auto intro: less_SucI)
  next
    fix k p d r assume "sy_pending s' k = Some p" "sm_sessions (sy_manager s') d = Some r" "sr_serial r = sr_serial (rs_record p)"
    with s [of d r] rec(1) pend [of k p] serials_okD(4) [OF ok, of k p d r] show "r = rs_record p" unfolding m by metis
  qed
next
  case (begins token digest rec m k)
  then have "m = sy_manager s" "sm_sessions m digest = Some rec" by (auto simp: resolve_begin_def split: if_splits option.splits)
  with begins show ?thesis by (intro serials_fewer [OF ok, of m]) (auto split: if_splits)
next
  case (refuses token answer m)
  then have "m = sy_manager s \<or> (\<exists>d r. m = drop_session d r (sy_manager s))"
    by (auto simp: resolve_begin_def split: if_splits option.splits)
  with refuses show ?thesis by (intro serials_fewer [OF ok, of m]) (auto dest: drop_session_fewer(1) simp: drop_session_fewer(2))
next
  case (reads k p)
  have "\<exists>k' p'. sy_pending s k' = Some p' \<and> rs_record p' = rs_record q" if "sy_pending s' k2 = Some q" for k2 q
  proof (cases "k2 = k")
    case True
    with reads that show ?thesis by (intro exI [of _ k] exI [of _ p]) auto
  qed (use reads that in auto)
  with reads show ?thesis by (intro serials_fewer [OF ok, of "sy_manager s"]) simp_all
next
  case (gives_up k)
  then show ?thesis by (intro serials_fewer [OF ok, of "sy_manager s"]) (auto split: if_splits)
next
  case (finishes k p current answer m)
  then have "m = sy_manager s \<or> (\<exists>d r. m = drop_session d r (sy_manager s))" by (auto simp: resolve_finish_def split: if_splits)
  with finishes show ?thesis
    by (intro serials_fewer [OF ok, of m]) (auto dest: drop_session_fewer(1) simp: drop_session_fewer(2) split: if_splits)
next
  case (revokes token b told m)
  then have "m = sy_manager s \<or> (\<exists>d r. m = drop_session d r (sy_manager s))"
    by (auto simp: session_revoke_def split: if_splits option.splits)
  with revokes show ?thesis by (intro serials_fewer [OF ok, of m]) (auto dest: drop_session_fewer(1) simp: drop_session_fewer(2))
next
  case (revokes_user u told m)
  then show ?thesis
    by (intro serials_fewer [OF ok, of m]) (auto simp: session_revoke_user_def split: option.splits if_splits)
next
  case (authority_changes a)
  then show ?thesis by (intro serials_fewer [OF ok, of "sy_manager s"]) auto
next
  case (time_passes t)
  then show ?thesis by (intro serials_fewer [OF ok, of "sy_manager s"]) auto
qed

lemma step_one_session:
  assumes "session_step fl sha s e s'" and "one_session_each (sy_manager s)" and "serials_ok s"
  shows "one_session_each (sy_manager s')"
  using assms(1)
proof cases
  case (issues token now account v x m)
  with session_issue_ok [OF assms(2)] show ?thesis by simp
next
  case (begins token digest rec m k)
  then have "m = sy_manager s" by (auto simp: resolve_begin_def split: if_splits option.splits)
  with begins assms(2) show ?thesis by simp
next
  case (refuses token answer m)
  then show ?thesis using assms(2) drop_session_ok [OF assms(2)]
    by (auto simp: resolve_begin_def split: if_splits option.splits)
next
  case (finishes k p current answer m)
  have "one_session_each m"
  proof (cases "sm_sessions (sy_manager s) (rs_digest p)")
    case (Some found)
    with finishes assms(3) have "sr_serial found = sr_serial (rs_record p) \<Longrightarrow> found = rs_record p" by (auto simp: serials_ok_def)
    with Some show ?thesis using finishes assms(2) drop_session_ok [OF assms(2) Some]
      by (auto simp: resolve_finish_def split: if_splits)
  qed (use finishes assms(2) in \<open>auto simp: resolve_finish_def\<close>)
  with finishes show ?thesis by simp
next
  case (revokes token b told m)
  then show ?thesis using assms(2) drop_session_ok [OF assms(2)]
    by (auto simp: session_revoke_def split: if_splits option.splits)
next
  case (revokes_user u told m)
  have "one_session_each m"
  proof (cases "sm_user_tokens (sy_manager s) u")
    case (Some d)
    from one_session_eachD(2) [OF assms(2) Some] obtain r where r: "sm_sessions (sy_manager s) d = Some r" "ua_id (sr_account r) = u" by blast
    with revokes_user Some have "m = drop_session d r (sy_manager s)" by (auto simp: session_revoke_user_def drop_session_def)
    with drop_session_ok [OF assms(2) r(1)] show ?thesis by simp
  qed (use revokes_user assms(2) in \<open>auto simp: session_revoke_user_def\<close>)
  with revokes_user show ?thesis by simp
qed (use assms(2) in simp_all)

section \<open>Sessions are single and revocable\<close>

definition new_system :: "session_manager \<Rightarrow> (user_account \<Rightarrow> byte list option \<Rightarrow> user_account option) \<Rightarrow> rat \<Rightarrow> session_system" where
  "new_system m a t = \<lparr>sy_manager = m, sy_pending = Map.empty, sy_authority = a, sy_clock = t\<rparr>"

lemma run_consistent:
  assumes "session_run fl sha s es s'" and "one_session_each (sy_manager s)" and "serials_ok s"
  shows "one_session_each (sy_manager s') \<and> serials_ok s'"
  using assms by induction (auto dest: step_one_session step_serials)

lemma new_consistent:
  assumes "session_manager_init ttl = Inr m"
  shows "one_session_each (sy_manager (new_system m a t)) \<and> serials_ok (new_system m a t)"
  using assms by (auto simp: session_manager_init_def one_session_each_def serials_ok_def new_system_def split: if_splits)

text \<open>
  C30: in every interleaving of logins, resolutions, revocations and changes of the authority an
  account has at most one session, and the two tables of the manager name the same sessions.
\<close>

theorem one_session_per_account:
  assumes "session_manager_init ttl = Inr m" and "session_run fl sha (new_system m a t) es s"
  shows "sm_user_tokens (sy_manager s) u = Some d \<longleftrightarrow> (\<exists>r. sm_sessions (sy_manager s) d = Some r \<and> ua_id (sr_account r) = u)"
  using run_consistent [OF assms(2)] new_consistent [OF assms(1)] one_session_eachD [of "sy_manager s"] by metis

text \<open>Without a session of the account, only a login gives it one, and no resolution answers with an account.\<close>

lemma step_without_session:
  assumes "session_step fl sha s e s'" and ok: "one_session_each (sy_manager s)" "serials_ok s"
    and none: "sm_user_tokens (sy_manager s) u = None" and "e \<noteq> Ev_issue u"
  shows "sm_user_tokens (sy_manager s') u = None \<and> e \<noteq> Ev_resolved u (Some b)"
  using assms(1)
proof cases
  case (issues token now account v x m)
  with session_issueD [OF issues(3)] assms(5) none show ?thesis by auto
next
  case (begins token digest rec m k)
  then show ?thesis using none by (auto simp: resolve_begin_def split: if_splits option.splits)
next
  case (refuses token answer m)
  then show ?thesis using none by (auto simp: resolve_begin_def dest: drop_session_fewer(3) split: if_splits option.splits)
next
  case (finishes k p current answer m)
  have "answer = None" if "ua_id (sr_account (rs_record p)) = u"
  proof (rule ccontr)
    assume "answer \<noteq> None"
    with finishes obtain found where f: "sm_sessions (sy_manager s) (rs_digest p) = Some found" "sr_serial found = sr_serial (rs_record p)"
      by (auto simp: resolve_finish_def split: if_splits option.splits)
    from serials_okD(4) [OF ok(2) finishes(3) f] one_session_eachD(1) [OF ok(1) f(1)] that none show False by simp
  qed
  with finishes none show ?thesis by (auto simp: resolve_finish_def dest: drop_session_fewer(3) split: if_splits option.splits)
next
  case (revokes token b told m)
  then show ?thesis using none by (auto simp: session_revoke_def dest: drop_session_fewer(3) split: if_splits option.splits)
next
  case (revokes_user v told m)
  then show ?thesis using none by (auto simp: session_revoke_user_def split: option.splits)
qed (use none in auto)

lemma run_without_session:
  assumes "session_run fl sha s es s'" and ok: "one_session_each (sy_manager s)" "serials_ok s"
    and none: "sm_user_tokens (sy_manager s) u = None" and "Ev_issue u \<notin> set es"
  shows "sm_user_tokens (sy_manager s') u = None \<and> Ev_resolved u (Some b) \<notin> set es"
  using assms(1,5)
proof induction
  case (run_step es s1 e s2)
  from run_consistent [OF run_step(1) ok] have ok1: "one_session_each (sy_manager s1)" "serials_ok s1" by auto
  from run_step step_without_session [OF run_step(2) ok1, of u b] show ?case by auto
qed (use none in simp)

text \<open>A record that no session holds any more is never found again: new sessions have new records.\<close>

definition record_gone :: "nat \<Rightarrow> session_manager \<Rightarrow> bool" where
  "record_gone n m \<longleftrightarrow> n < sm_serial m \<and> (\<forall>d r. sm_sessions m d = Some r \<longrightarrow> sr_serial r \<noteq> n)"

lemma step_record_gone:
  assumes "session_step fl sha s e s'" and gone: "record_gone n (sy_manager s)"
  shows "record_gone n (sy_manager s')"
proof -
  have fewer: "record_gone n (drop_session d r (sy_manager s))" for d r
    using gone by (auto simp: record_gone_def drop_session_fewer(2) dest!: drop_session_fewer(1))
  from assms(1) show ?thesis
  proof cases
    case (issues token now account v x m)
    from session_issueD [OF issues(3)] gone have "record_gone n m" by (fastforce simp: record_gone_def split: if_splits)
    with issues show ?thesis by simp
  next
    case (begins token digest rec m k)
    then show ?thesis using gone by (auto simp: resolve_begin_def split: if_splits option.splits)
  next
    case (refuses token answer m)
    then show ?thesis using gone fewer by (auto simp: resolve_begin_def split: if_splits option.splits)
  next
    case (finishes k p current answer m)
    then show ?thesis using gone fewer by (auto simp: resolve_finish_def split: if_splits)
  next
    case (revokes token b told m)
    then show ?thesis using gone fewer by (auto simp: session_revoke_def split: if_splits option.splits)
  next
    case (revokes_user v told m)
    then show ?thesis using gone by (fastforce simp: session_revoke_user_def record_gone_def split: option.splits if_splits)
  qed (use gone in simp_all)
qed

lemma run_record_gone:
  "session_run fl sha s es s' \<Longrightarrow> record_gone n (sy_manager s) \<Longrightarrow> record_gone n (sy_manager s')"
  by (induction rule: session_run.induct) (auto intro: step_record_gone)

lemma revoked_record_gone:
  assumes ok: "one_session_each (sy_manager s)" "serials_ok s" and step: "session_step fl sha s (Ev_revoke_user u) s1"
    and p: "sy_pending s k = Some p" "ua_id (sr_account (rs_record p)) = u"
  shows "record_gone (sr_serial (rs_record p)) (sy_manager s1)"
proof -
  have "sr_serial r \<noteq> sr_serial (rs_record p)" if r: "sm_sessions (sy_manager s1) d = Some r" for d r
  proof
    assume eq: "sr_serial r = sr_serial (rs_record p)"
    from step r have d: "sm_sessions (sy_manager s) d = Some r" "sm_user_tokens (sy_manager s) u \<noteq> Some d"
      by (cases; auto simp: session_revoke_user_def split: option.splits if_splits)+
    from serials_okD(4) [OF ok(2) p(1) d(1) eq] one_session_eachD(1) [OF ok(1) d(1)] p(2) d(2) show False by simp
  qed
  moreover from step have "sm_serial (sy_manager s1) = sm_serial (sy_manager s)"
    by cases (auto simp: session_revoke_user_def split: option.splits)
  ultimately show ?thesis using serials_okD(2) [OF ok(2) p(1)] by (simp add: record_gone_def)
qed

text \<open>
  C17: once the revocation of an account has returned, no resolution answers with that account until
  its next login: neither one that begins later nor one that was already reading the authority. And a
  resolution that had found its session before the revocation, and so still holds its record, is refused
  whenever it ends, also after later logins of the account, whatever their tokens.
\<close>

theorem revocation_stops_resolutions:
  assumes "session_manager_init ttl = Inr m" and "session_run fl sha (new_system m a t) es s"
    and "session_step fl sha s (Ev_revoke_user u) s1" and "session_run fl sha s1 es' s2"
  shows "(Ev_issue u \<notin> set es' \<longrightarrow> Ev_resolved u (Some b) \<notin> set es') \<and>
    (\<forall>k p k' q clock current. sy_pending s k = Some p \<longrightarrow> ua_id (sr_account (rs_record p)) = u \<longrightarrow>
       sy_pending s2 k' = Some q \<longrightarrow> sr_serial (rs_record q) = sr_serial (rs_record p) \<longrightarrow>
       resolve_finish clock (rs_digest q) (rs_record q) current (sy_manager s2) = (None, sy_manager s2))"
proof (intro conjI impI allI)
  from run_consistent [OF assms(2)] new_consistent [OF assms(1)] have ok: "one_session_each (sy_manager s)" "serials_ok s" by auto
  from step_one_session [OF assms(3) ok] step_serials [OF assms(3) ok(2)] have ok1: "one_session_each (sy_manager s1)" "serials_ok s1" .
  show "Ev_resolved u (Some b) \<notin> set es'" if "Ev_issue u \<notin> set es'"
  proof -
    from assms(3) have "sm_user_tokens (sy_manager s1) u = None"
      by cases (auto simp: session_revoke_user_def split: option.splits)
    with run_without_session [OF assms(4) ok1] that show ?thesis by blast
  qed
  fix k p k' q clock current
  assume "sy_pending s k = Some p" "ua_id (sr_account (rs_record p)) = u"
    and eq: "sr_serial (rs_record q) = sr_serial (rs_record p)"
  from run_record_gone [OF assms(4) revoked_record_gone [OF ok assms(3) this(1,2)]]
  have "\<not> (case sm_sessions (sy_manager s2) (rs_digest q) of None \<Rightarrow> False | Some found \<Rightarrow> sr_serial found = sr_serial (rs_record q))"
    by (auto simp: record_gone_def eq split: option.splits)
  then show "resolve_finish clock (rs_digest q) (rs_record q) current (sy_manager s2) = (None, sy_manager s2)"
    by (simp add: resolve_finish_def)
qed

section \<open>The registry as the authority\<close>

text \<open>\<open>current_account\<close> of \<open>src/src/k5vision/user_admin_api.py\<close>: a storage error answers that there is no account.\<close>

definition current_account :: "registry_env \<Rightarrow> user_registry \<Rightarrow> registry_world \<Rightarrow> user_account \<Rightarrow> byte list option \<Rightarrow> user_account option" where
  "current_account env g w account v = (case fst (resolve_session env g account v w) of Inl _ \<Rightarrow> None | Inr u \<Rightarrow> u)"

definition denies :: "user_uuid \<Rightarrow> (user_account \<Rightarrow> byte list option \<Rightarrow> user_account option) \<Rightarrow> bool" where
  "denies u a \<longleftrightarrow> (\<forall>account v. ua_id account = u \<longrightarrow> a account v = None)"

lemma step_denied:
  assumes "session_step fl sha s e s'" and "denies u (sy_authority s)"
    and p: "\<And>k p b. sy_pending s k = Some p \<Longrightarrow> ua_id (sr_account (rs_record p)) = u \<Longrightarrow> rs_answer p \<noteq> Some (Some b)"
    and e: "\<And>a. e = Ev_authority a \<Longrightarrow> denies u a"
  shows "denies u (sy_authority s') \<and> (\<forall>k p b. sy_pending s' k = Some p \<longrightarrow> ua_id (sr_account (rs_record p)) = u \<longrightarrow> rs_answer p \<noteq> Some (Some b)) \<and>
    e \<noteq> Ev_resolved u (Some b)"
  using assms(1)
proof cases
  case (finishes k q current answer m)
  then show ?thesis using p assms(2) by (fastforce simp: resolve_finish_def split: if_splits)
next
  case (reads k q)
  then show ?thesis using p assms(2) by (auto simp: denies_def)
qed (use p assms(2) e in auto)

lemma run_denied:
  assumes "session_run fl sha s es s'" and "denies u (sy_authority s)"
    and p: "\<And>k p b. sy_pending s k = Some p \<Longrightarrow> ua_id (sr_account (rs_record p)) = u \<Longrightarrow> rs_answer p \<noteq> Some (Some b)"
    and e: "\<And>a. Ev_authority a \<in> set es \<Longrightarrow> denies u a"
  shows "denies u (sy_authority s') \<and> (\<forall>k p b. sy_pending s' k = Some p \<longrightarrow> ua_id (sr_account (rs_record p)) = u \<longrightarrow> rs_answer p \<noteq> Some (Some b)) \<and>
    Ev_resolved u (Some b) \<notin> set es"
  using assms(1) e
proof induction
  case (run_step es s1 e1 s2)
  with step_denied [OF run_step(2), of u b] show ?case by auto
qed (use assms(2) p in auto)

lemma reset_denies:
  assumes "reset_bootstrap env g i actor ttl w = (Inr (Some (u, tmp, t)), w')"
    and "credential_of (ug_site g) i (sq_db w1) = credential_of (ug_site g) i (sq_db w')"
  shows "denies i (current_account env1 g w1)"
proof -
  from reset_credential [OF assms(1)] assms(2) obtain s v where c: "credential_of (ug_site g) i (sq_db w1) = Some (bootstrap_row s v (t - ttl * 1000000) t)"
    by auto
  have k: "cr_kind (bootstrap_row s v (t - ttl * 1000000) t) \<noteq> ''password''" by (simp add: bootstrap_row_def)
  have "fst (resolve_session env1 g account known w1) \<noteq> Inr (Some u1)" if "ua_id account = i" for account known u1
    using no_access_without_password(2) [where w = w1, OF c k refl that, of env1 known u1] by (metis prod.collapse)
  then show ?thesis by (auto simp: denies_def current_account_def split: sum.split) (metis not_Some_eq)
qed

text \<open>
  A reset of the password ends the sessions of the account even if nobody revokes them: while the
  registry answers from a database in which the credential is the one the reset stored, no
  resolution that reads the authority after the reset answers with the account.
\<close>

lemma reset_ends_sessions:
  assumes reset: "reset_bootstrap env g i actor ttl w = (Inr (Some (u, tmp, t)), w')"
    and run: "session_run fl sha s es s'" and fresh: "sy_pending s = Map.empty"
    and authority: "\<And>a. a = sy_authority s \<or> Ev_authority a \<in> set es \<Longrightarrow>
      \<exists>env1 w1. a = current_account env1 g w1 \<and> credential_of (ug_site g) i (sq_db w1) = credential_of (ug_site g) i (sq_db w')"
  shows "Ev_resolved i (Some b) \<notin> set es"
proof -
  have "denies i a" if "a = sy_authority s \<or> Ev_authority a \<in> set es" for a
    using authority [OF that] reset_denies [OF reset] by blast
  with run_denied [OF run, of i b] fresh show ?thesis by auto
qed

section \<open>A login, a resolution and what cuts it off\<close>

definition demo_token :: pystr where
  "demo_token = replicate 40 97"

definition demo_record :: session_record where
  "demo_record = \<lparr>sr_serial = 0, sr_account = ann_user, sr_expires_at = 300000000, sr_deadline = 300,
     sr_credential_version = Some (replicate 32 1)\<rparr>"

definition demo_manager :: session_manager where
  "demo_manager = \<lparr>sm_ttl = 300, sm_sessions = Map.empty, sm_user_tokens = Map.empty, sm_listeners = {}, sm_serial = 0\<rparr>"

definition ann_manager :: session_manager where
  "ann_manager = \<lparr>sm_ttl = 300, sm_sessions = [map of_nat demo_token \<mapsto> demo_record],
     sm_user_tokens = [8 \<mapsto> map of_nat demo_token], sm_listeners = {}, sm_serial = 1\<rparr>"

definition ann_resolution :: "user_account option option \<Rightarrow> resolution" where
  "ann_resolution answer = \<lparr>rs_digest = map of_nat demo_token, rs_record = demo_record, rs_answer = answer\<rparr>"

lemma demo_manager: "session_manager_init 300 = Inr demo_manager"
  by (simp add: session_manager_init_def demo_manager_def)

lemma demo_token: "token_is_valid demo_token" "is_ascii demo_token" "token_digest (\<lambda>x. x) demo_token = map of_nat demo_token"
  by (simp_all add: token_is_valid_def is_ascii_def demo_token_def is_ascii_alnum_def token_digest_def list_all_iff)

lemma demo_issue: "session_step (\<lambda>x. x) (\<lambda>x. x) (new_system demo_manager a 0) (Ev_issue 8) (new_system ann_manager a 0)"
proof -
  have "session_issue (\<lambda>x. x) (\<lambda>x. x) demo_token 0 (sy_clock (new_system demo_manager a 0)) ann_user (Some (replicate 32 1))
      (sy_manager (new_system demo_manager a 0)) = (Inr (demo_token, 300000000), ann_manager)"
    by (simp add: session_issue_def new_system_def demo_manager_def ann_manager_def demo_record_def demo_token Let_def)
  from session_step.issues [OF this] show ?thesis by (simp add: new_system_def demo_manager_def)
qed

lemma ann_begins: "session_step (\<lambda>x. x) (\<lambda>x. x) (new_system ann_manager a 0) Ev_silent
    ((new_system ann_manager a 0)\<lparr>sy_pending := [0 \<mapsto> ann_resolution None]\<rparr>)"
proof -
  have "resolve_begin (\<lambda>x. x) True (sy_clock (new_system ann_manager a 0)) demo_token (sy_manager (new_system ann_manager a 0)) =
      (Inr (map of_nat demo_token, demo_record), ann_manager)"
    by (simp add: resolve_begin_def new_system_def ann_manager_def demo_token) (simp add: demo_record_def)
  from session_step.begins [OF this, of 0] show ?thesis by (simp add: new_system_def ann_resolution_def)
qed

lemma ann_reads: "session_step (\<lambda>x. x) (\<lambda>x. x) ((new_system ann_manager a 0)\<lparr>sy_pending := [0 \<mapsto> ann_resolution None]\<rparr>) Ev_silent
    ((new_system ann_manager a 0)\<lparr>sy_pending := [0 \<mapsto> ann_resolution (Some (a ann_user (Some (replicate 32 1))))]\<rparr>)"
  using session_step.reads [of "(new_system ann_manager a 0)\<lparr>sy_pending := [0 \<mapsto> ann_resolution None]\<rparr>" 0 "ann_resolution None" "\<lambda>x. x" "\<lambda>x. x"]
  by (simp add: new_system_def ann_resolution_def demo_record_def)

lemma ann_finishes:
  "sy_pending s 0 = Some (ann_resolution (Some current)) \<Longrightarrow>
   \<exists>answer s'. session_step (\<lambda>x. x) (\<lambda>x. x) s (Ev_resolved 8 answer) s'"
  using session_step.finishes [of s 0 "ann_resolution (Some current)" current _ _ "\<lambda>x. x" "\<lambda>x. x"]
  by (auto simp: ann_resolution_def demo_record_def) (metis surj_pair)

theorem one_session_per_account_witness:
  "\<exists>r. sm_sessions (sy_manager (new_system ann_manager (\<lambda>u v. Some u) 0)) (map of_nat demo_token) = Some r \<and> ua_id (sr_account r) = 8"
proof -
  from run_step [OF run_none demo_issue] have run: "session_run (\<lambda>x. x) (\<lambda>x. x) (new_system demo_manager (\<lambda>u v. Some u) 0) [Ev_issue 8] (new_system ann_manager (\<lambda>u v. Some u) 0)" by simp
  have "sm_user_tokens (sy_manager (new_system ann_manager (\<lambda>u v. Some u) 0)) 8 = Some (map of_nat demo_token)" by (simp add: new_system_def ann_manager_def)
  then show ?thesis by (rule one_session_per_account [OF demo_manager run, THEN iffD1])
qed

theorem revocation_stops_resolutions_witness:
  "\<exists>s s1 answer s2. session_run (\<lambda>x. x) (\<lambda>x. x) (new_system demo_manager (\<lambda>u v. Some u) 0) [Ev_issue 8, Ev_silent, Ev_silent] s \<and>
     session_step (\<lambda>x. x) (\<lambda>x. x) s (Ev_revoke_user 8) s1 \<and> session_run (\<lambda>x. x) (\<lambda>x. x) s1 [Ev_resolved 8 answer] s2 \<and>
     answer \<noteq> Some ann_user \<and>
     resolve_finish 0 (map of_nat demo_token) demo_record (Some ann_user) (sy_manager s1) = (None, sy_manager s1)"
proof -
  let ?a = "\<lambda>u v. Some u" and ?r = "ann_resolution (Some (Some ann_user))"
  let ?p = "[0 \<mapsto> ?r]"
  let ?s = "(new_system ann_manager ?a 0)\<lparr>sy_pending := ?p\<rparr>"
  from run_step [OF run_step [OF run_step [OF run_none demo_issue] ann_begins] ann_reads, of ?a]
  have run: "session_run (\<lambda>x. x) (\<lambda>x. x) (new_system demo_manager ?a 0) [Ev_issue 8, Ev_silent, Ev_silent] ?s" by simp
  obtain s1 where s1: "session_step (\<lambda>x. x) (\<lambda>x. x) ?s (Ev_revoke_user 8) s1" "sy_pending s1 = ?p"
    using session_step.revokes_user [of 8 ?s _ _ "\<lambda>x. x" "\<lambda>x. x"] by (metis (no_types, lifting) session_system.select_convs(2)
      session_system.surjective session_system.update_convs(1,2) surj_pair)
  then obtain answer s2 where fin: "session_step (\<lambda>x. x) (\<lambda>x. x) s1 (Ev_resolved 8 answer) s2"
    using ann_finishes [of s1 "Some ann_user"] by auto
  from run_step [OF run_none fin] have run2: "session_run (\<lambda>x. x) (\<lambda>x. x) s1 [Ev_resolved 8 answer] s2" by simp
  from revocation_stops_resolutions [OF demo_manager run s1(1) run2, of ann_user] have "answer \<noteq> Some ann_user" by auto
  moreover have "resolve_finish 0 (rs_digest ?r) (rs_record ?r) (Some ann_user) (sy_manager s1) = (None, sy_manager s1)"
    using revocation_stops_resolutions [OF demo_manager run s1(1) run_none, THEN conjunct2, rule_format, of 0 ?r 0 ?r] s1(2)
    by (simp add: ann_resolution_def demo_record_def)
  ultimately show ?thesis using run s1(1) run2 by (auto simp: ann_resolution_def)
qed

lemma reset_ends_sessions_witness:
  "\<exists>w' answer s'. reset_bootstrap tiny_env tiny_site 8 [114] 900 (open_world tiny_db) = (Inr (Some (ann_user, replicate 43 97, 1900000000)), w') \<and>
     session_run (\<lambda>x. x) (\<lambda>x. x) (new_system ann_manager (current_account tiny_env tiny_site w') 0) [Ev_silent, Ev_silent, Ev_resolved 8 answer] s' \<and>
     answer \<noteq> Some ann_user"
proof -
  from ann_reset obtain w' where reset: "reset_bootstrap tiny_env tiny_site 8 [114] 900 (open_world tiny_db) =
    (Inr (Some (ann_user, replicate 43 97, 1900000000)), w')" by blast
  let ?a = "current_account tiny_env tiny_site w'"
  let ?s = "(new_system ann_manager ?a 0)\<lparr>sy_pending := [0 \<mapsto> ann_resolution (Some (?a ann_user (Some (replicate 32 1))))]\<rparr>"
  obtain answer s' where fin: "session_step (\<lambda>x. x) (\<lambda>x. x) ?s (Ev_resolved 8 answer) s'"
    using ann_finishes [of ?s "?a ann_user (Some (replicate 32 1))"] by auto
  from run_step [OF run_step [OF run_step [OF run_none ann_begins] ann_reads] fin]
  have run: "session_run (\<lambda>x. x) (\<lambda>x. x) (new_system ann_manager ?a 0) [Ev_silent, Ev_silent, Ev_resolved 8 answer] s'" by simp
  have "Ev_resolved 8 (Some ann_user) \<notin> set [Ev_silent, Ev_silent, Ev_resolved 8 answer]"
    by (rule reset_ends_sessions [OF reset run]) (auto simp: new_system_def)
  with reset run show ?thesis by auto
qed

end
