(* ===== verification/Shared_Registry.thy ===== *)
theory Shared_Registry
  imports User_Access
begin

text \<open>
  Several registries of \<open>src/src/k5vision/services/user_registry.py\<close> on one database file, for the same or for
  different sites. Each has its own connection, in-memory state and, from call to call, clocks, random
  values and outcomes of its statements; operations follow one another in any order. A connection
  without a transaction sees what was committed last. SQLite gives the write lock to one connection
  at a time: while another holds a transaction open, an operation begins none.
\<close>

section \<open>Connections\<close>

record shared_db =
  sh_db :: user_db
  sh_connection :: "nat \<Rightarrow> registry_world"

text \<open>The connection \<open>k\<close> as it reads the file.\<close>

definition refreshed :: "shared_db \<Rightarrow> nat \<Rightarrow> registry_world" where
  "refreshed s k =
     (if in_transaction (sh_connection s k) then sh_connection s k else (sh_connection s k)\<lparr>sq_db := sh_db s\<rparr>)"

definition locked_for :: "shared_db \<Rightarrow> nat \<Rightarrow> bool" where
  "locked_for s k \<longleftrightarrow> (\<exists>j. j \<noteq> k \<and> in_transaction (sh_connection s j))"

inductive shared_step :: "(nat \<Rightarrow> user_registry) \<Rightarrow> shared_db \<Rightarrow> nat \<times> registry_op \<Rightarrow> shared_db \<Rightarrow> bool"
  for g :: "nat \<Rightarrow> user_registry" where
  performs: "registry_perform env (g k) op (refreshed s k) = (r, w) \<Longrightarrow>
    (locked_for s k \<Longrightarrow> \<not> in_transaction w \<and> committed w = sh_db s) \<Longrightarrow>
    shared_step g s (k, op) \<lparr>sh_db = committed w, sh_connection = (sh_connection s)(k := w)\<rparr>"

inductive shared_run :: "(nat \<Rightarrow> user_registry) \<Rightarrow> shared_db \<Rightarrow> (nat \<times> registry_op) list \<Rightarrow> shared_db \<Rightarrow> bool"
  for g :: "nat \<Rightarrow> user_registry" where
  shared_none: "shared_run g s [] s"
| shared_more: "shared_run g s ops s1 \<Longrightarrow> shared_step g s1 x s2 \<Longrightarrow> shared_run g s (ops @ [x]) s2"

text \<open>A transaction left open started from what is still the committed state.\<close>

definition transactions_current :: "shared_db \<Rightarrow> bool" where
  "transactions_current s \<longleftrightarrow> (\<forall>k d. sq_backup (sh_connection s k) = Some d \<longrightarrow> d = sh_db s)"

lemma committed_refreshed: "transactions_current s \<Longrightarrow> committed (refreshed s k) = sh_db s"
  by (cases "sq_backup (sh_connection s k)")
    (auto simp: refreshed_def in_transaction_def committed_def transactions_current_def)

lemma shared_step_refines:
  assumes "shared_step g s (k, op) s'" and cur: "transactions_current s"
  shows "registry_steps (g k) (sh_db s) (sh_db s')" and "transactions_current s'"
proof -
  from assms(1) obtain env r w where r: "registry_perform env (g k) op (refreshed s k) = (r, w)"
    and lock: "locked_for s k \<Longrightarrow> \<not> in_transaction w \<and> committed w = sh_db s"
    and s': "s' = \<lparr>sh_db = committed w, sh_connection = (sh_connection s)(k := w)\<rparr>"
    by (cases rule: shared_step.cases) blast
  from perform_refines [of "g k" "refreshed s k" env op] r committed_refreshed [OF cur, of k]
  show "registry_steps (g k) (sh_db s) (sh_db s')" by (simp add: s')
  have "d = committed w" if "sq_backup (sh_connection s' j) = Some d" for j d
  proof (cases "j = k")
    case True
    with that show ?thesis by (simp add: s' committed_def)
  next
    case False
    with that have j: "sq_backup (sh_connection s j) = Some d" by (simp add: s')
    with False have "locked_for s k" by (auto simp: locked_for_def in_transaction_def)
    with lock j cur show ?thesis by (auto simp: transactions_current_def)
  qed
  then show "transactions_current s'" by (simp add: transactions_current_def s')
qed

section \<open>An administrator remains\<close>

lemma has_administrator_view:
  assumes "site_view site d' = site_view site d"
  shows "has_administrator site d' = has_administrator site d"
proof -
  from assms have f: "filter (\<lambda>r. ur_site r = site) (db_users d') = filter (\<lambda>r. ur_site r = site) (db_users d)"
    and c: "\<And>i. credential_of site i d' = credential_of site i d" by (auto simp: site_view_def fun_eq_iff)
  have a: "is_active_administrator site d' = is_active_administrator site d" by (simp add: fun_eq_iff is_active_administrator_def c)
  have "has_administrator site e \<longleftrightarrow> (\<exists>r \<in> set (filter (\<lambda>r. ur_site r = site) (db_users e)). is_active_administrator site e r)" for e
    by (auto simp: has_administrator_def list_ex_iff is_active_administrator_def)
  then show ?thesis by (simp only: f a)
qed

lemma steps_administrator:
  assumes "registry_steps g d d'" and "unique_users d" and "has_administrator site d"
  shows "unique_users d' \<and> has_administrator site d'"
  using assms
proof induction
  case (step d1 d2)
  then show ?case
    using step_unique [OF step(2)] step_administrator [OF step(2)] has_administrator_view [OF step_other_site [OF step(2)]]
    by (cases "site = ug_site g") auto
qed simp

lemma shared_run_administrator:
  assumes "shared_run g s ops s'" and "transactions_current s" and "unique_users (sh_db s)" and "has_administrator site (sh_db s)"
  shows "transactions_current s' \<and> unique_users (sh_db s') \<and> has_administrator site (sh_db s')"
  using assms
proof induction
  case (shared_more s ops s1 x s2)
  obtain k op where x: "x = (k, op)" by fastforce
  from shared_more x have "transactions_current s1" "unique_users (sh_db s1)" "has_administrator site (sh_db s1)"
    and step: "shared_step g s1 (k, op) s2" by auto
  with shared_step_refines [OF step] steps_administrator show ?case by blast
qed simp

text \<open>
  C4: let any number of registries, of any sites, work on one database, each through its own
  connection, one operation after another in any order. Once a site has an enabled administrator with an
  active password, it has one ever after, whatever is demoted, disabled or reset, whichever statements
  fail and whatever transactions are left open.
\<close>

theorem an_administrator_remains:
  assumes "shared_run g s ops s'" and "transactions_current s"
    and "unique_users (sh_db s)" and "has_administrator site (sh_db s)"
  shows "has_administrator site (sh_db s')"
  using shared_run_administrator [OF assms] by blast

text \<open>Two registries of a site: one reads, then the other demotes the only administrator.\<close>

definition tiny_shared :: shared_db where
  "tiny_shared = \<lparr>sh_db = tiny_db, sh_connection = (\<lambda>_. open_world tiny_db)\<rparr>"

lemma tiny_reads: "registry_perform tiny_env tiny_site (Op_get 8) (open_world tiny_db) = (Inr (), sql_tick (open_world tiny_db))"
  by (simp add: forget_def registry_get_def act_simps)

theorem an_administrator_remains_witness:
  "\<exists>s'. shared_run (\<lambda>_. tiny_site) tiny_shared
     [(0, Op_get 8), (1, Op_update 7 \<lparr>up_display_name = None, up_role = Some VIEWER, up_enabled = None\<rparr> [114] None)] s' \<and>
   has_administrator [104] (sh_db s')"
proof -
  let ?s1 = "\<lparr>sh_db = tiny_db, sh_connection = (\<lambda>_. open_world tiny_db)(0 := sql_tick (open_world tiny_db))\<rparr>"
  have tick: "committed (sql_tick (open_world tiny_db)) = tiny_db" "\<not> in_transaction (sql_tick (open_world tiny_db))"
    "\<not> in_transaction (open_world tiny_db)"
    by (simp_all add: sql_tick_def committed_def in_transaction_def open_world_def)
  have same: "(open_world tiny_db)\<lparr>sq_db := tiny_db\<rparr> = open_world tiny_db" by (simp add: open_world_def)
  have idle: "refreshed tiny_shared k = open_world tiny_db" for k
    using same by (simp add: refreshed_def tiny_shared_def tick)
  have one: "shared_step (\<lambda>_. tiny_site) tiny_shared (0, Op_get 8) ?s1"
    using shared_step.performs [of tiny_env "\<lambda>_. tiny_site" 0 "Op_get 8" tiny_shared] tiny_reads
    by (simp add: idle tick) (simp add: tiny_shared_def tick)
  obtain r w where "registry_perform tiny_env tiny_site
      (Op_update 7 \<lparr>up_display_name = None, up_role = Some VIEWER, up_enabled = None\<rparr> [114] None) (refreshed ?s1 1) = (r, w)" by fastforce
  moreover have "\<not> locked_for ?s1 1" using tick by (simp add: locked_for_def)
  ultimately obtain s2 where "shared_step (\<lambda>_. tiny_site) ?s1 (1, Op_update 7 \<lparr>up_display_name = None, up_role = Some VIEWER, up_enabled = None\<rparr> [114] None) s2"
    using shared_step.performs [of tiny_env "\<lambda>_. tiny_site"] by blast
  from shared_more [OF shared_more [OF shared_none one] this] have run: "shared_run (\<lambda>_. tiny_site) tiny_shared
     [(0, Op_get 8), (1, Op_update 7 \<lparr>up_display_name = None, up_role = Some VIEWER, up_enabled = None\<rparr> [114] None)] s2" by simp
  have "has_administrator [104] (sh_db s2)"
    by (rule an_administrator_remains [OF run]) (simp_all add: transactions_current_def tiny_shared_def tiny_invariants)
  with run show ?thesis by blast
qed

end
