(* ===== verification/Component_Anchor.thy ===== *)
theory Component_Anchor
  imports Sql_Store Json
begin

text \<open>
  \<open>src/src/k5vision/operator_component_state.py\<close>: \<open>ComponentStateAnchor\<close> notes in the account database
  that a component has state of its own, so that a later loss of that state is an error and not a fresh
  start. The files' ownership checks (\<open>_admit\<close>) are the environment, as one more way for a statement to fail.
\<close>

definition COMPONENTS :: "pystr list" where
  "COMPONENTS = map py [''roles'', ''account_security'', ''audit'', ''storage'', ''integrations'', ''person_events'']"

text \<open>The table of that name: none, one with other columns, or its rows.\<close>

record anchor_row =
  an_site :: pystr
  an_component :: pystr
  an_version :: int

datatype anchor_table = No_Table | Foreign_Table | Anchors "anchor_row list"

type_synonym 'a anc = "(anchor_table sql_conn, unit, 'a) act"

abbreviation component_state_error :: "'a anc" where
  "component_state_error \<equiv> act_raise ()"

definition anchor_of :: "pystr \<Rightarrow> pystr \<Rightarrow> anchor_table \<Rightarrow> anchor_row option" where
  "anchor_of site component t =
     (case t of Anchors rows \<Rightarrow> find (\<lambda>r. an_site r = site \<and> an_component r = component) rows | _ \<Rightarrow> None)"

text \<open>\<open>_validate\<close>: whether there is a table; \<open>LIMIT 7\<close> suffices to see that there are too many rows.\<close>

definition anchors_ok :: "pystr \<Rightarrow> anchor_row list \<Rightarrow> bool" where
  "anchors_ok site rows \<longleftrightarrow>
     len rows \<le> 6 \<and> distinct (map an_component rows) \<and>
     list_all (\<lambda>r. an_site r = site \<and> an_component r \<in> set COMPONENTS \<and> an_version r = 1) rows"

definition anchor_validate :: "sql_env \<Rightarrow> pystr \<Rightarrow> bool anc" where
  "anchor_validate env site =
     act_bind (sql_select env (\<lambda>t. t)) (\<lambda>t.
     case t of
       No_Table \<Rightarrow> act_return False
     | Foreign_Table \<Rightarrow> component_state_error
     | Anchors rows \<Rightarrow> if anchors_ok site (take 7 rows) then act_return True else component_state_error)"

definition anchor_open :: "sql_env \<Rightarrow> pystr \<Rightarrow> pystr \<Rightarrow> bool \<Rightarrow> unit anc" where
  "anchor_open env site component present =
     (if component \<notin> set COMPONENTS then component_state_error else
      sql_shielded ()
       (act_bind (anchor_validate env site) (\<lambda>table.
        if \<not> table then act_return () else
        act_bind (sql_select env (anchor_of site component)) (\<lambda>row.
        case row of
          None \<Rightarrow> act_return ()
        | Some r \<Rightarrow> if an_version r \<noteq> 1 \<or> \<not> present then component_state_error else act_return ()))))"

definition create_anchors :: "anchor_table \<Rightarrow> anchor_table" where
  "create_anchors t = (if t = No_Table then Anchors [] else t)"

definition insert_anchor :: "pystr \<Rightarrow> pystr \<Rightarrow> anchor_table \<Rightarrow> anchor_table" where
  "insert_anchor site component t =
     (case t of
        Anchors rows \<Rightarrow> if anchor_of site component t = None
          then Anchors (rows @ [\<lparr>an_site = site, an_component = component, an_version = 1\<rparr>]) else t
      | _ \<Rightarrow> t)"

definition anchor_seal :: "sql_env \<Rightarrow> pystr \<Rightarrow> pystr \<Rightarrow> unit anc" where
  "anchor_seal env site component =
     sql_guarded env (\<lambda>_. True) ()
      (act_bind (sql_begin env) (\<lambda>_.
       act_bind (sql_change env create_anchors) (\<lambda>_.
       act_bind (anchor_validate env site) (\<lambda>_.
       act_bind (sql_change env (insert_anchor site component)) (\<lambda>_.
       act_bind (sql_select env (anchor_of site component)) (\<lambda>row.
       if map_option an_version row \<noteq> Some 1 then component_state_error else
       act_bind (sql_commit env) (\<lambda>_. sql_select env (\<lambda>_. ()))))))))"

text \<open>A component that was sealed is there for good, and cannot be opened without its own state.\<close>

lemma find_snoc: "find P (xs @ [x]) = (case find P xs of None \<Rightarrow> if P x then Some x else None | Some y \<Rightarrow> Some y)"
  by (induction xs) simp_all

lemma anchor_of_insert:
  "anchor_of site component (insert_anchor site component (Anchors rows)) =
   (case anchor_of site component (Anchors rows) of
      None \<Rightarrow> Some \<lparr>an_site = site, an_component = component, an_version = 1\<rparr> | Some r \<Rightarrow> Some r)"
  by (simp add: insert_anchor_def anchor_of_def find_snoc split: option.split)

lemma anchor_seal_seals:
  assumes "anchor_seal env site component c = (Inr (), c')"
  shows "anchor_of site component (sq_db c') \<noteq> None \<and> sq_backup c' = None"
proof -
  have "effect (anchor_seal env site component) (sq_db c) () (sq_db c')" using assms by (rule effectI [where m = "anchor_seal env site component"])
  then have "anchor_of site component (sq_db c') \<noteq> None"
    unfolding anchor_seal_def by (auto elim!: effect_elims split: if_splits)
  moreover have "sq_backup c' = None"
    using assms unfolding anchor_seal_def sql_guarded_def
    by (auto simp: act_catch_def act_bind_def sql_select_def sql_def sql_commit_def sql_tick_def act_raise_def
      split: prod.splits sum.splits raised.splits if_splits sql_outcome.splits)
  ultimately show ?thesis by simp
qed

lemma anchor_open_needs_state:
  assumes "anchor_of site component (sq_db c) \<noteq> None" and "anchor_open env site component present c = (Inr (), c')"
  shows "present"
proof -
  have "effect (anchor_open env site component present) (sq_db c) () (sq_db c')" using assms(2) by (rule effectI [where m = "anchor_open env site component present"])
  with assms(1) show ?thesis
    unfolding anchor_open_def anchor_validate_def
    by (auto elim!: effect_elims split: if_splits option.splits anchor_table.splits simp: anchor_of_def)
qed

end
