(* ===== verification/Role_Policy.thy ===== *)
theory Role_Policy
  imports User_Safety Component_Anchor
begin

text \<open>
  \<open>src/src/k5vision/operator_role_policy.py\<close>: custom roles that narrow what an account of a base role
  may do, kept in a private file that every operation reads and checks again. What other processes do
  to the file between two system calls, and which calls fail, is the environment, by the number of the
  call. The temporary file of a write has a random name, so nobody else touches it. The account
  registry is reached through three of its operations, whose contract is the locale \<open>user_directory\<close>.
\<close>

section \<open>Permissions and profiles\<close>

definition PERMISSIONS :: "pystr list" where
  "PERMISSIONS = map py
     [''cameras.view_live'', ''cameras.playback'', ''cameras.export'', ''cameras.manage'', ''recording.manage'',
      ''analytics.manage'', ''users.manage'', ''roles.manage'', ''storage.manage'', ''time.manage'',
      ''integrations.manage'', ''audit.read'']"

fun BASE_PERMISSIONS :: "user_role \<Rightarrow> pystr list" where
  "BASE_PERMISSIONS VIEWER = map py [''cameras.view_live'', ''cameras.playback'']"
| "BASE_PERMISSIONS OPERATOR = map py [''cameras.view_live'', ''cameras.playback'', ''cameras.export'']"
| "BASE_PERMISSIONS ADMINISTRATOR = PERMISSIONS"

record role_profile =
  rp_id :: pystr
  rp_name :: pystr
  rp_description :: pystr
  rp_base :: user_role
  rp_permissions :: "pystr list"

text \<open>The text of a UUID, and the test that a text is one: \<open>str(UUID(value)) == value\<close>.\<close>

definition hex_digit :: "nat \<Rightarrow> nat" where
  "hex_digit d = (if d < 10 then 48 + d else 87 + d)"

definition is_hex_digit :: "nat \<Rightarrow> bool" where
  "is_hex_digit c \<longleftrightarrow> 48 \<le> c \<and> c \<le> 57 \<or> 97 \<le> c \<and> c \<le> 102"

definition uuid_shape :: "bool list" where
  "uuid_shape = replicate 8 True @ False # replicate 4 True @ False # replicate 4 True @ False # replicate 4 True @ False # replicate 12 True"

definition canonical_uuid :: "pystr \<Rightarrow> bool" where
  "canonical_uuid s \<longleftrightarrow> list_all2 (\<lambda>digit c. if digit then is_hex_digit c else c = 45) uuid_shape s"

fun hex_fill :: "bool list \<Rightarrow> nat list \<Rightarrow> pystr" where
  "hex_fill [] ds = []"
| "hex_fill (False # bs) ds = 45 # hex_fill bs ds"
| "hex_fill (True # bs) ds = hex_digit (hd ds) # hex_fill bs (tl ds)"

definition uuid_text :: "user_uuid \<Rightarrow> pystr" where
  "uuid_text i = hex_fill uuid_shape (map (\<lambda>k. nat (i div 16 ^ k mod 16)) (rev [0..<32]))"

text \<open>\<open>_profile\<close>; \<open>checked_profile\<close> is its checks, which \<open>_read\<close> makes without taking the normalized value.\<close>

definition permissions_of_json :: "json list \<Rightarrow> pystr list option" where
  "permissions_of_json js = those (map (\<lambda>j. case j of JStr s \<Rightarrow> Some s | _ \<Rightarrow> None) js)"

definition role_of_json :: "json \<Rightarrow> user_role option" where
  "role_of_json j = (case j of JStr s \<Rightarrow> find (\<lambda>r. py (role_value r) = s) [VIEWER, OPERATOR, ADMINISTRATOR] | _ \<Rightarrow> None)"

definition profile_ok :: "role_profile \<Rightarrow> bool" where
  "profile_ok p \<longleftrightarrow>
     canonical_uuid (rp_id p) \<and> 1 \<le> len (py_strip (rp_name p)) \<and> len (py_strip (rp_name p)) \<le> 64 \<and>
     len (rp_description p) \<le> 256 \<and> list_all (\<lambda>c. 32 \<le> c) (rp_name p @ rp_description p) \<and>
     distinct (rp_permissions p) \<and> set (rp_permissions p) \<subseteq> set (BASE_PERMISSIONS (rp_base p))"

definition checked_profile :: "json \<Rightarrow> role_profile option" where
  "checked_profile j =
     (case j of
        JDict kvs \<Rightarrow>
          if \<not> has_keys kvs (map py [''id'', ''name'', ''description'', ''base_role'', ''permissions'']) then None
          else (case (map_of kvs (py ''id''), map_of kvs (py ''name''), map_of kvs (py ''description''),
                 Option.bind (map_of kvs (py ''base_role'')) role_of_json, map_of kvs (py ''permissions'')) of
              (Some (JStr i), Some (JStr n), Some (JStr d), Some base, Some (JList js)) \<Rightarrow>
                (case permissions_of_json js of
                   None \<Rightarrow> None
                 | Some ps \<Rightarrow>
                     let p = \<lparr>rp_id = i, rp_name = n, rp_description = d, rp_base = base, rp_permissions = ps\<rparr>
                     in if profile_ok p then Some p else None)
            | _ \<Rightarrow> None)
      | _ \<Rightarrow> None)"

definition normalized :: "role_profile \<Rightarrow> role_profile" where
  "normalized p = p\<lparr>rp_name := py_strip (rp_name p), rp_permissions := sort (rp_permissions p)\<rparr>"

section \<open>The stored state\<close>

text \<open>Two dictionaries in order: from the text of a profile id to the profile, and from that of an account id to that of its profile.\<close>

record role_state =
  rs_revision :: int
  rs_profiles :: "(pystr \<times> role_profile) list"
  rs_bindings :: "(pystr \<times> pystr) list"

definition profiles_of_json :: "(pystr \<times> json) list \<Rightarrow> (pystr \<times> role_profile) list option" where
  "profiles_of_json kvs = those (map (\<lambda>(k, j). map_option (Pair k) (checked_profile j)) kvs)"

definition bindings_of_json :: "(pystr \<times> json) list \<Rightarrow> (pystr \<times> pystr) list option" where
  "bindings_of_json kvs = those (map (\<lambda>(k, j). case j of JStr s \<Rightarrow> Some (k, s) | _ \<Rightarrow> None) kvs)"

definition role_state_ok :: "(pystr \<Rightarrow> pystr) \<Rightarrow> role_state \<Rightarrow> bool" where
  "role_state_ok casefold s \<longleftrightarrow>
     1 \<le> rs_revision s \<and> rs_revision s < 2 ^ 63 \<and> len (rs_profiles s) \<le> 128 \<and> len (rs_bindings s) \<le> 100000 \<and>
     distinct (map fst (rs_profiles s)) \<and> distinct (map fst (rs_bindings s)) \<and>
     list_all (\<lambda>(k, p). k = rp_id p \<and> profile_ok p) (rs_profiles s) \<and>
     distinct (map (\<lambda>(k, p). casefold (rp_name p)) (rs_profiles s)) \<and>
     list_all (\<lambda>(u, r). canonical_uuid u \<and> r \<in> set (map fst (rs_profiles s))) (rs_bindings s)"

definition role_state_of_json :: "(pystr \<Rightarrow> pystr) \<Rightarrow> pystr \<Rightarrow> json \<Rightarrow> role_state option" where
  "role_state_of_json casefold site j =
     (case j of
        JDict kvs \<Rightarrow>
          if \<not> json_unique j \<or>
             \<not> has_keys kvs (map py [''schema_version'', ''site_id'', ''revision'', ''profiles'', ''bindings'']) \<or>
             map_of kvs (py ''schema_version'') \<noteq> Some (JInt 1) \<or> map_of kvs (py ''site_id'') \<noteq> Some (JStr site) then None
          else (case (map_of kvs (py ''revision''), map_of kvs (py ''profiles''), map_of kvs (py ''bindings'')) of
              (Some (JInt revision), Some (JDict ps), Some (JDict bs)) \<Rightarrow>
                (case (profiles_of_json ps, bindings_of_json bs) of
                   (Some profiles, Some bindings) \<Rightarrow>
                     let s = \<lparr>rs_revision = revision, rs_profiles = profiles, rs_bindings = bindings\<rparr>
                     in if role_state_ok casefold s then Some s else None
                 | _ \<Rightarrow> None)
            | _ \<Rightarrow> None)
      | _ \<Rightarrow> None)"

text \<open>What \<open>json.dumps(value, sort_keys=True)\<close> writes.\<close>

definition json_of_profile :: "role_profile \<Rightarrow> json" where
  "json_of_profile p = JDict (sort_pairs
     [(py ''id'', JStr (rp_id p)), (py ''name'', JStr (rp_name p)), (py ''description'', JStr (rp_description p)),
      (py ''base_role'', JStr (py (role_value (rp_base p)))), (py ''permissions'', JList (map JStr (rp_permissions p)))])"

definition json_of_role_state :: "pystr \<Rightarrow> role_state \<Rightarrow> json" where
  "json_of_role_state site s = JDict (sort_pairs
     [(py ''schema_version'', JInt 1), (py ''site_id'', JStr site), (py ''revision'', JInt (rs_revision s)),
      (py ''profiles'', JDict (sort_pairs (map (\<lambda>(k, p). (k, json_of_profile p)) (rs_profiles s)))),
      (py ''bindings'', JDict (sort_pairs (map (\<lambda>(u, r). (u, JStr r)) (rs_bindings s))))])"

section \<open>The file and the world\<close>

record file_info =
  fi_dev :: int
  fi_ino :: int
  fi_size :: int
  fi_mtime :: int
  fi_regular :: bool
  fi_nlink :: int
  fi_uid :: int
  fi_mode :: int

record role_file =
  rf_content :: "json option"
  rf_info :: file_info

record 'u policy_world =
  pw_users :: 'u
  pw_file :: "role_file option"
  pw_temporary :: "role_file option"
  pw_identity :: "(int \<times> int) option"
  pw_closed :: bool
  pw_anchors :: "anchor_table sql_conn"
  pw_tick :: nat

datatype role_policy_error_code =
    Roles_unavailable
  | Roles_capacity
  | Roles_last_administrator
  | Roles_profile_bound
  | Roles_revision_conflict
  | Roles_base_immutable
  | Roles_name_exists
  | Roles_user_not_found
  | Roles_not_found
  | Roles_in_use

datatype 'x role_policy_exn =
    RolePolicyError role_policy_error_code
  | Policy_Users 'x
  | Policy_IdentityStateError
  | Policy_ComponentStateError
  | Policy_OSError
  | Policy_ValueError

text \<open>What the code calls on the account registry.\<close>

record ('u, 'x) user_operations =
  uo_list :: "int \<Rightarrow> int \<Rightarrow> ('u, 'x, user_account list) act"
  uo_get :: "user_uuid \<Rightarrow> ('u, 'x, user_account option) act"
  uo_credential_status :: "user_uuid \<Rightarrow> ('u, 'x, credential_state option) act"

record role_env =
  re_posix :: bool
  re_euid :: int
  re_path_ok :: "nat \<Rightarrow> bool"
  re_same_directory :: "nat \<Rightarrow> bool"
  re_fails :: "nat \<Rightarrow> bool"
  re_meddle :: "nat \<Rightarrow> role_file option \<Rightarrow> role_file option"
  re_new_file :: "nat \<Rightarrow> file_info"
  re_casefold :: "pystr \<Rightarrow> pystr"
  re_uuid4 :: "nat \<Rightarrow> user_uuid"
  re_size :: "json \<Rightarrow> int"
  re_state_site :: "nat \<Rightarrow> pystr option"
  re_sql :: sql_env

type_synonym ('u, 'x, 'a) pol = "('u policy_world, 'x role_policy_exn, 'a) act"

definition on_users :: "('u, 'x, 'a) act \<Rightarrow> ('u, 'x, 'a) pol" where
  "on_users m w =
     (case m (pw_users w) of
        (Inr x, u) \<Rightarrow> (Inr x, w\<lparr>pw_users := u\<rparr>)
      | (Inl Sqlite_Error, u) \<Rightarrow> (Inl Sqlite_Error, w\<lparr>pw_users := u\<rparr>)
      | (Inl (Exn e), u) \<Rightarrow> (Inl (Exn (Policy_Users e)), w\<lparr>pw_users := u\<rparr>))"

definition on_anchors :: "'a anc \<Rightarrow> ('u, 'x, 'a) pol" where
  "on_anchors m w =
     (case m (pw_anchors w) of
        (Inr x, a) \<Rightarrow> (Inr x, w\<lparr>pw_anchors := a\<rparr>)
      | (Inl _, a) \<Rightarrow> (Inl (Exn Policy_ComponentStateError), w\<lparr>pw_anchors := a\<rparr>))"

text \<open>The next system call: others act first, then it fails or is made with its number.\<close>

definition system_call :: "role_env \<Rightarrow> (nat \<Rightarrow> ('u, 'x, 'a) pol) \<Rightarrow> ('u, 'x, 'a) pol" where
  "system_call env f w =
     (let w1 = w\<lparr>pw_file := re_meddle env (pw_tick w) (pw_file w), pw_tick := Suc (pw_tick w)\<rparr>
      in if re_fails env (pw_tick w) then (Inl (Exn Policy_OSError), w1) else f (pw_tick w) w1)"

text \<open>\<open>_same_directory\<close> and \<open>_regular_file\<close> of \<open>src/src/k5vision/identity_state.py\<close>; the walk along the path and the Windows access lists are the environment.\<close>

definition same_directory :: "role_env \<Rightarrow> ('u, 'x, unit) pol" where
  "same_directory env = system_call env (\<lambda>n.
     if re_same_directory env n then act_return () else act_raise Policy_IdentityStateError)"

definition regular_file :: "role_env \<Rightarrow> ('u policy_world \<Rightarrow> role_file option) \<Rightarrow> ('u, 'x, file_info) pol" where
  "regular_file env file_at = system_call env (\<lambda>n.
     if \<not> re_path_ok env n then act_raise Policy_IdentityStateError else
     act_bind (act_get file_at) (\<lambda>f. case f of
       None \<Rightarrow> act_raise Policy_OSError
     | Some f \<Rightarrow> if \<not> fi_regular (rf_info f) \<or> fi_nlink (rf_info f) \<noteq> 1 then act_raise Policy_IdentityStateError
                 else act_return (rf_info f)))"

abbreviation unavailable :: "('u, 'x, 'a) pol" where
  "unavailable \<equiv> act_raise (RolePolicyError Roles_unavailable)"

abbreviation max_bytes :: int where
  "max_bytes \<equiv> 2097152"

abbreviation file_identity :: "file_info \<Rightarrow> int \<times> int" where
  "file_identity i \<equiv> (fi_dev i, fi_ino i)"

definition policy_admit :: "role_env \<Rightarrow> ('u, 'x, file_info) pol" where
  "policy_admit env =
     act_bind (act_get pw_closed) (\<lambda>closed.
     if closed then unavailable else
     act_bind (same_directory env) (\<lambda>_.
     act_bind (regular_file env pw_file) (\<lambda>info.
     if re_posix env \<and> (fi_uid info \<noteq> re_euid env \<or> take_bit 6 (fi_mode info) \<noteq> 0) then unavailable else
     if max_bytes < fi_size info then unavailable else
     act_bind (act_get pw_identity) (\<lambda>identity.
     if identity \<noteq> None \<and> identity \<noteq> Some (file_identity info) then unavailable
     else act_return info))))"

text \<open>Opening, reading and \<open>fstat\<close>.\<close>

definition read_open_file :: "role_env \<Rightarrow> ('u, 'x, role_file) pol" where
  "read_open_file env = system_call env (\<lambda>n. act_bind (act_get pw_file) (\<lambda>f.
     case f of None \<Rightarrow> act_raise Policy_OSError | Some f \<Rightarrow> act_return f))"

definition policy_read :: "role_env \<Rightarrow> pystr \<Rightarrow> ('u, 'x, role_state) pol" where
  "policy_read env site =
     act_bind (policy_admit env) (\<lambda>before.
     act_bind (read_open_file env) (\<lambda>opened.
     act_bind (policy_admit env) (\<lambda>after.
     if (fi_dev before, fi_ino before, fi_size before, fi_mtime before) \<noteq> (fi_dev after, fi_ino after, fi_size after, fi_mtime after) \<or>
        file_identity (rf_info opened) \<noteq> file_identity before then unavailable else
     case Option.bind (rf_content opened) (role_state_of_json (re_casefold env) site) of
       None \<Rightarrow> unavailable
     | Some s \<Rightarrow> act_bind (act_update (\<lambda>w. w\<lparr>pw_identity := Some (file_identity before)\<rparr>)) (\<lambda>_. act_return s))))"

definition act_finally :: "('s, 'e, 'a) act \<Rightarrow> ('s, 'e, unit) act \<Rightarrow> ('s, 'e, 'a) act" where
  "act_finally m c s =
     (case m s of (r, s1) \<Rightarrow> (case c s1 of (Inl e, s2) \<Rightarrow> (Inl e, s2) | (Inr _, s2) \<Rightarrow> (r, s2)))"

definition write_temporary :: "role_env \<Rightarrow> json \<Rightarrow> ('u, 'x, unit) pol" where
  "write_temporary env j =
     act_bind (system_call env (\<lambda>n. act_update (\<lambda>w.
       w\<lparr>pw_temporary := Some \<lparr>rf_content = None, rf_info = (re_new_file env n)\<lparr>fi_size := 0\<rparr>\<rparr>\<rparr>))) (\<lambda>_.
     system_call env (\<lambda>n. act_update (\<lambda>w.
       w\<lparr>pw_temporary := map_option (\<lambda>f. f\<lparr>rf_content := Some j, rf_info := (rf_info f)\<lparr>fi_size := re_size env j\<rparr>\<rparr>) (pw_temporary w)\<rparr>)))"

definition admit_if_pinned :: "role_env \<Rightarrow> ('u, 'x, unit) pol" where
  "admit_if_pinned env =
     act_bind (act_get pw_identity) (\<lambda>identity.
     act_when (identity \<noteq> None) (act_bind (policy_admit env) (\<lambda>_. act_return ())))"

definition replace_file :: "role_env \<Rightarrow> json \<Rightarrow> ('u, 'x, unit) pol" where
  "replace_file env j =
     act_bind (write_temporary env j) (\<lambda>_.
     act_bind (regular_file env pw_temporary) (\<lambda>_.
     act_bind (admit_if_pinned env) (\<lambda>_.
     act_bind (system_call env (\<lambda>n. act_update (\<lambda>w. w\<lparr>pw_file := pw_temporary w, pw_temporary := None\<rparr>))) (\<lambda>_.
     act_bind (regular_file env pw_file) (\<lambda>info.
     act_bind (act_update (\<lambda>w. w\<lparr>pw_identity := Some (file_identity info)\<rparr>)) (\<lambda>_.
     act_bind (policy_admit env) (\<lambda>_. act_return ())))))))"

definition remove_temporary :: "role_env \<Rightarrow> ('u, 'x, unit) pol" where
  "remove_temporary env = system_call env (\<lambda>n. act_update (\<lambda>w. w\<lparr>pw_temporary := None\<rparr>))"

definition policy_write :: "role_env \<Rightarrow> pystr \<Rightarrow> role_state \<Rightarrow> ('u, 'x, unit) pol" where
  "policy_write env site s =
     act_bind (same_directory env) (\<lambda>_.
     act_bind (admit_if_pinned env) (\<lambda>_.
     let j = json_of_role_state site s in
     if max_bytes < re_size env j then act_raise (RolePolicyError Roles_capacity)
     else act_finally (replace_file env j) (remove_temporary env)))"

section \<open>Questions\<close>

definition effective_permissions_in :: "role_state \<Rightarrow> user_account \<Rightarrow> pystr list" where
  "effective_permissions_in s account =
     (case Option.bind (map_of (rs_bindings s) (uuid_text (ua_id account))) (map_of (rs_profiles s)) of
        None \<Rightarrow> BASE_PERMISSIONS (uc_role account)
      | Some p \<Rightarrow> filter (\<lambda>x. x \<in> set (rp_permissions p)) (BASE_PERMISSIONS (uc_role account)))"

definition policy_permissions :: "role_env \<Rightarrow> pystr \<Rightarrow> user_account \<Rightarrow> ('u, 'x, pystr list) pol" where
  "policy_permissions env site account =
     act_bind (policy_read env site) (\<lambda>s. act_return (effective_permissions_in s account))"

definition account_fields :: "role_env \<Rightarrow> pystr \<Rightarrow> user_account \<Rightarrow> ('u, 'x, pystr option \<times> pystr list) pol" where
  "account_fields env site account =
     act_bind (policy_read env site) (\<lambda>s.
     act_return (map_of (rs_bindings s) (uuid_text (ua_id account)), sort (effective_permissions_in s account)))"

record role_snapshot =
  ro_revision :: int
  ro_roles :: "role_profile list"
  ro_available :: "pystr list"
  ro_base :: "(user_role \<times> pystr list) list"

definition policy_snapshot :: "role_env \<Rightarrow> pystr \<Rightarrow> ('u, 'x, role_snapshot) pol" where
  "policy_snapshot env site =
     act_bind (policy_read env site) (\<lambda>s.
     act_return \<lparr>ro_revision = rs_revision s, ro_roles = map snd (rs_profiles s), ro_available = sort PERMISSIONS,
       ro_base = map (\<lambda>r. (r, sort (BASE_PERMISSIONS r))) [VIEWER, OPERATOR, ADMINISTRATOR]\<rparr>)"

text \<open>The accounts bound to a profile, by the texts of their ids.\<close>

definition bound_user_ids :: "role_env \<Rightarrow> pystr \<Rightarrow> pystr \<Rightarrow> ('u, 'x, pystr list) pol" where
  "bound_user_ids env site role_id =
     act_bind (policy_read env site) (\<lambda>s. act_return (map fst (filter (\<lambda>(u, r). r = role_id) (rs_bindings s))))"

section \<open>The guard\<close>

definition full_administrator :: "role_state \<Rightarrow> user_account \<Rightarrow> bool" where
  "full_administrator s account \<longleftrightarrow>
     uc_enabled account \<and> uc_role account = ADMINISTRATOR \<and> set PERMISSIONS \<subseteq> set (effective_permissions_in s account)"

definition replaced :: "user_account option \<Rightarrow> user_account \<Rightarrow> user_account" where
  "replaced replacement account =
     (case replacement of None \<Rightarrow> account | Some r \<Rightarrow> if ua_id r = ua_id account then r else account)"

text \<open>One page of accounts; the answer is whether the guard returns within it.\<close>

fun guard_page ::
  "('u, 'x) user_operations \<Rightarrow> role_state \<Rightarrow> user_account option \<Rightarrow> user_uuid option \<Rightarrow> user_account list \<Rightarrow> ('u, 'x, bool) pol" where
  "guard_page users s replacement excluded [] = act_return False"
| "guard_page users s replacement excluded (account # rows) =
     (if Some (ua_id account) = excluded then guard_page users s replacement excluded rows
      else if \<not> full_administrator s (replaced replacement account) then guard_page users s replacement excluded rows
      else act_bind (on_users (uo_credential_status users (ua_id (replaced replacement account)))) (\<lambda>status.
        if status = Some Active then act_return True else guard_page users s replacement excluded rows))"

fun guard_pages ::
  "('u, 'x) user_operations \<Rightarrow> role_state \<Rightarrow> user_account option \<Rightarrow> user_uuid option \<Rightarrow> int list \<Rightarrow> ('u, 'x, unit) pol" where
  "guard_pages users s replacement excluded [] = act_raise (RolePolicyError Roles_last_administrator)"
| "guard_pages users s replacement excluded (offset # offsets) =
     act_bind (on_users (uo_list users offset 100)) (\<lambda>rows.
     act_bind (guard_page users s replacement excluded rows) (\<lambda>found.
     if found then act_return ()
     else if len rows < 100 then act_raise (RolePolicyError Roles_last_administrator)
     else guard_pages users s replacement excluded offsets))"

definition policy_guard ::
  "('u, 'x) user_operations \<Rightarrow> role_state \<Rightarrow> user_account option \<Rightarrow> user_uuid option \<Rightarrow> ('u, 'x, unit) pol" where
  "policy_guard users s replacement excluded =
     guard_pages users s replacement excluded (map (\<lambda>k. 100 * int k) [0..<1000])"

text \<open>The fields of an account that a change sets, as \<open>model_copy(update=fields)\<close> takes them.\<close>

record account_change =
  ac_display_name :: "pystr option"
  ac_role :: "user_role option"
  ac_enabled :: "bool option"

definition with_changes :: "account_change \<Rightarrow> user_account \<Rightarrow> user_account" where
  "with_changes c u = u\<lparr>
     uc_display_name := (case ac_display_name c of None \<Rightarrow> uc_display_name u | Some x \<Rightarrow> x),
     uc_role := (case ac_role c of None \<Rightarrow> uc_role u | Some x \<Rightarrow> x),
     uc_enabled := (case ac_enabled c of None \<Rightarrow> uc_enabled u | Some x \<Rightarrow> x)\<rparr>"

definition guard_account_change ::
  "role_env \<Rightarrow> pystr \<Rightarrow> ('u, 'x) user_operations \<Rightarrow> user_account \<Rightarrow> account_change \<Rightarrow> ('u, 'x, unit) pol" where
  "guard_account_change env site users account c =
     act_bind (policy_read env site) (\<lambda>s.
     if uuid_text (ua_id account) \<in> set (map fst (rs_bindings s)) \<and> ac_role c \<noteq> None
     then act_raise (RolePolicyError Roles_profile_bound)
     else policy_guard users s (Some (with_changes c account)) None)"

definition guard_credential_reset ::
  "role_env \<Rightarrow> pystr \<Rightarrow> ('u, 'x) user_operations \<Rightarrow> user_account \<Rightarrow> ('u, 'x, unit) pol" where
  "guard_credential_reset env site users account =
     act_bind (policy_read env site) (\<lambda>s. policy_guard users s None (Some (ua_id account)))"

section \<open>Changes\<close>

definition check_revision :: "int option \<Rightarrow> role_state \<Rightarrow> ('u, 'x, unit) pol" where
  "check_revision expected s =
     (if expected \<noteq> None \<and> expected \<noteq> Some (rs_revision s) then act_raise (RolePolicyError Roles_revision_conflict)
      else act_return ())"

definition next_revision :: "role_state \<Rightarrow> role_state" where
  "next_revision s = s\<lparr>rs_revision := rs_revision s + 1\<rparr>"

text \<open>\<open>{"id": role_id, **payload}\<close>.\<close>

definition payload_json :: "pystr \<Rightarrow> (pystr \<times> json) list \<Rightarrow> json" where
  "payload_json role_id payload = JDict (AList.updates (map fst payload) (map snd payload) [(py ''id'', JStr role_id)])"

definition policy_upsert ::
  "role_env \<Rightarrow> pystr \<Rightarrow> ('u, 'x) user_operations \<Rightarrow> (pystr \<times> json) list \<Rightarrow> pystr option \<Rightarrow> int option \<Rightarrow> ('u, 'x, role_profile) pol" where
  "policy_upsert env site users payload role_id expected =
     act_bind (policy_read env site) (\<lambda>s.
     act_bind (check_revision expected s) (\<lambda>_.
     act_bind (case role_id of Some i \<Rightarrow> act_return i
       | None \<Rightarrow> act_bind (act_get pw_tick) (\<lambda>n. act_return (uuid_text (re_uuid4 env n)))) (\<lambda>i.
     if i \<notin> set (map fst (rs_profiles s)) \<and> 128 \<le> len (rs_profiles s) then act_raise (RolePolicyError Roles_capacity) else
     case map_option normalized (checked_profile (payload_json i payload)) of
       None \<Rightarrow> act_raise Policy_ValueError
     | Some p \<Rightarrow>
         if (case map_of (rs_profiles s) i of None \<Rightarrow> False | Some q \<Rightarrow> rp_base q \<noteq> rp_base p)
         then act_raise (RolePolicyError Roles_base_immutable) else
         if list_ex (\<lambda>(k, q). rp_id q \<noteq> i \<and> re_casefold env (rp_name q) = re_casefold env (rp_name p)) (rs_profiles s)
         then act_raise (RolePolicyError Roles_name_exists) else
         let s1 = s\<lparr>rs_profiles := AList.update i p (rs_profiles s)\<rparr> in
         act_bind (policy_guard users s1 None None) (\<lambda>_.
         act_bind (policy_write env site (next_revision s1)) (\<lambda>_. act_return p)))))"

definition new_binding :: "role_state \<Rightarrow> user_account \<Rightarrow> user_uuid \<Rightarrow> pystr option \<Rightarrow> role_policy_error_code + role_state \<times> user_account" where
  "new_binding s account user_id role_id =
     (case role_id of
        None \<Rightarrow> Inr (s\<lparr>rs_bindings := AList.delete (uuid_text user_id) (rs_bindings s)\<rparr>, account)
      | Some i \<Rightarrow>
          (case map_of (rs_profiles s) i of
             None \<Rightarrow> Inl Roles_not_found
           | Some p \<Rightarrow>
               if 100000 \<le> len (rs_bindings s) \<and> uuid_text user_id \<notin> set (map fst (rs_bindings s)) then Inl Roles_capacity
               else Inr (s\<lparr>rs_bindings := AList.update (uuid_text user_id) i (rs_bindings s)\<rparr>, account\<lparr>uc_role := rp_base p\<rparr>)))"

definition policy_assign ::
  "role_env \<Rightarrow> pystr \<Rightarrow> ('u, 'x) user_operations \<Rightarrow> user_uuid \<Rightarrow> pystr option \<Rightarrow> int option \<Rightarrow> ('u, 'x, user_account) pol" where
  "policy_assign env site users user_id role_id expected =
     act_bind (policy_read env site) (\<lambda>s.
     act_bind (check_revision expected s) (\<lambda>_.
     act_bind (on_users (uo_get users user_id)) (\<lambda>account.
     case account of
       None \<Rightarrow> act_raise (RolePolicyError Roles_user_not_found)
     | Some account \<Rightarrow>
         act_bind (act_lift (map_err RolePolicyError (new_binding s account user_id role_id))) (\<lambda>(s1, replacement).
         act_bind (policy_guard users s1 (Some replacement) None) (\<lambda>_.
         act_bind (policy_write env site (next_revision s1)) (\<lambda>_. act_return replacement))))))"

definition policy_delete ::
  "role_env \<Rightarrow> pystr \<Rightarrow> ('u, 'x) user_operations \<Rightarrow> pystr \<Rightarrow> int \<Rightarrow> ('u, 'x, unit) pol" where
  "policy_delete env site users role_id expected =
     act_bind (policy_read env site) (\<lambda>s.
     act_bind (check_revision (Some expected) s) (\<lambda>_.
     if role_id \<in> set (map snd (rs_bindings s)) then act_raise (RolePolicyError Roles_in_use) else
     if role_id \<notin> set (map fst (rs_profiles s)) then act_raise (RolePolicyError Roles_not_found) else
     let s1 = s\<lparr>rs_profiles := AList.delete role_id (rs_profiles s)\<rparr> in
     act_bind (policy_guard users s1 None None) (\<lambda>_. policy_write env site (next_revision s1))))"

definition policy_close :: "('u, 'x, unit) pol" where
  "policy_close = act_update (\<lambda>w. w\<lparr>pw_closed := True\<rparr>)"

section \<open>Opening\<close>

definition policy_exists :: "role_env \<Rightarrow> ('u, 'x, bool) pol" where
  "policy_exists env = system_call env (\<lambda>n. act_get (\<lambda>w. pw_file w \<noteq> None))"

definition initial_role_state :: role_state where
  "initial_role_state = \<lparr>rs_revision = 1, rs_profiles = [], rs_bindings = []\<rparr>"

definition policy_open :: "role_env \<Rightarrow> pystr \<Rightarrow> ('u, 'x, unit) pol" where
  "policy_open env site =
     act_bind (act_update (\<lambda>w. w\<lparr>pw_closed := False, pw_identity := None\<rparr>)) (\<lambda>_.
     act_bind (system_call env (\<lambda>n. case re_state_site env n of
       None \<Rightarrow> act_raise Policy_IdentityStateError | Some t \<Rightarrow> act_return t)) (\<lambda>found.
     if found \<noteq> site then unavailable else
     act_bind (system_call env (\<lambda>n. act_return ())) (\<lambda>_.
     act_catch
      (act_bind (policy_exists env) (\<lambda>present.
       act_bind (on_anchors (anchor_open (re_sql env) site (py ''roles'') present)) (\<lambda>_.
       act_bind (policy_exists env) (\<lambda>there.
       act_bind (if there then act_bind (policy_read env site) (\<lambda>_. act_return ())
         else policy_write env site initial_role_state) (\<lambda>_.
       on_anchors (anchor_seal (re_sql env) site (py ''roles'')))))))
      (\<lambda>_. unavailable))))"

end
