(* ===== verification/Role_Policy_File.thy ===== *)
theory Role_Policy_File
  imports Role_Policy
begin

text \<open>
  What the operations of the role policy do to its file: reading only returns states that pass every
  check, writing replaces the file as a whole or not at all, and an object only ever accepts the file it
  first read or last wrote.
\<close>

section \<open>What a computation leaves alone\<close>

text \<open>\<open>leaves R m\<close>: whether \<open>m\<close> returns or raises, its last state is related to its first.\<close>

definition leaves :: "('s \<Rightarrow> 's \<Rightarrow> bool) \<Rightarrow> ('s, 'e, 'a) act \<Rightarrow> bool" where
  "leaves R m \<longleftrightarrow> (\<forall>s r s'. m s = (r, s') \<longrightarrow> R s s')"

lemma leavesD: "leaves R m \<Longrightarrow> m s = (r, s') \<Longrightarrow> R s s'"
  by (simp add: leaves_def)

locale act_frame =
  fixes R :: "'s \<Rightarrow> 's \<Rightarrow> bool"
  assumes refl [simp]: "R s s" and trans: "R s t \<Longrightarrow> R t u \<Longrightarrow> R s u"
begin

lemma bind: "leaves R m \<Longrightarrow> (\<And>x. leaves R (f x)) \<Longrightarrow> leaves R (act_bind m f)"
  unfolding leaves_def act_bind_def by (auto split: prod.splits sum.splits intro: trans) (blast intro: trans)

lemma return_leaves: "leaves R (act_return x)"
  and raise_leaves: "leaves R (act_raise e)"
  and get_leaves: "leaves R (act_get g)"
  and lift_leaves: "leaves R (act_lift y)"
  by (auto simp: leaves_def act_return_def act_raise_def act_get_def act_lift_def split: sum.splits)

lemma when_leaves: "leaves R m \<Longrightarrow> leaves R (act_when b m)"
  by (simp add: act_when_def return_leaves)

lemma if_leaves: "leaves R m \<Longrightarrow> leaves R n \<Longrightarrow> leaves R (if b then m else n)"
  by simp

lemma option_leaves: "leaves R m \<Longrightarrow> (\<And>y. leaves R (n y)) \<Longrightarrow> leaves R (case x of None \<Rightarrow> m | Some y \<Rightarrow> n y)"
  by (cases x) simp_all

lemma prod_leaves: "(\<And>y z. leaves R (n y z)) \<Longrightarrow> leaves R (case x of (y, z) \<Rightarrow> n y z)"
  by (cases x) simp

lemma catch_leaves: "leaves R m \<Longrightarrow> (\<And>e. leaves R (h e)) \<Longrightarrow> leaves R (act_catch m h)"
  unfolding leaves_def act_catch_def by (auto split: prod.splits sum.splits intro: trans) (blast intro: trans)

lemma finally_leaves: "leaves R m \<Longrightarrow> leaves R c \<Longrightarrow> leaves R (act_finally m c)"
  unfolding leaves_def act_finally_def by (auto split: prod.splits sum.splits; blast intro: trans)

lemma update_leaves: "(\<And>s. R s (g s)) \<Longrightarrow> leaves R (act_update g)"
  by (simp add: leaves_def act_update_def)

lemmas leaves_intros = bind return_leaves raise_leaves get_leaves lift_leaves when_leaves if_leaves option_leaves
  prod_leaves catch_leaves finally_leaves

end

lemma bind_Inr: "act_bind m f s = (Inr y, s') \<longleftrightarrow> (\<exists>x s1. m s = (Inr x, s1) \<and> f x s1 = (Inr y, s'))"
  by (auto simp: act_bind_def split: prod.splits sum.splits)

lemma return_run [simp]: "act_return x s = (r, s') \<longleftrightarrow> r = Inr x \<and> s' = s"
  and raise_run [simp]: "act_raise e s = (r, s') \<longleftrightarrow> r = Inl (Exn e) \<and> s' = s"
  and get_run [simp]: "act_get g s = (r, s') \<longleftrightarrow> r = Inr (g s) \<and> s' = s"
  and update_run [simp]: "act_update h s = (ru, s') \<longleftrightarrow> ru = Inr () \<and> s' = h s"
  by (auto simp: act_return_def act_raise_def act_get_def act_update_def)

lemma when_run [simp]: "act_when b m s = (r, s') \<longleftrightarrow> (if b then m s = (r, s') else r = Inr () \<and> s' = s)"
  by (simp add: act_when_def)

section \<open>System calls\<close>

text \<open>Nothing but the file can have changed, and that only by others.\<close>

definition untouched :: "role_env \<Rightarrow> 'u policy_world \<Rightarrow> 'u policy_world \<Rightarrow> bool" where
  "untouched env w w' \<longleftrightarrow>
     pw_users w' = pw_users w \<and> pw_temporary w' = pw_temporary w \<and> pw_closed w' = pw_closed w \<and> pw_anchors w' = pw_anchors w \<and>
     (re_meddle env = (\<lambda>_ f. f) \<longrightarrow> pw_file w' = pw_file w)"

interpretation untouched: act_frame "untouched env" for env
  by unfold_locales (auto simp: untouched_def)

lemma untouched_call: "(\<And>n. leaves (untouched env) (f n)) \<Longrightarrow> leaves (untouched env) (system_call env f)"
  unfolding leaves_def system_call_def Let_def
  by (auto simp: untouched_def)

lemmas untouched_intros = untouched.leaves_intros untouched_call

lemma call_Inr:
  assumes "system_call env f w = (Inr x, w')"
  obtains "\<not> re_fails env (pw_tick w)"
    and "f (pw_tick w) (w\<lparr>pw_file := re_meddle env (pw_tick w) (pw_file w), pw_tick := Suc (pw_tick w)\<rparr>) = (Inr x, w')"
  using assms by (simp add: system_call_def Let_def split: if_splits)

lemma untouched_admit: "leaves (untouched env) (policy_admit env)"
  unfolding policy_admit_def same_directory_def regular_file_def by (intro untouched_intros)

lemma untouched_open: "leaves (untouched env) (read_open_file env)"
  unfolding read_open_file_def by (intro untouched_intros)

lemma untouched_update_identity: "leaves (untouched env) (act_update (\<lambda>w. w\<lparr>pw_identity := i\<rparr>))"
  by (rule untouched.update_leaves) (simp add: untouched_def)

lemma untouched_read: "leaves (untouched env) (policy_read env site)"
  unfolding policy_read_def by (intro untouched_intros untouched_admit untouched_open untouched_update_identity)

section \<open>Reading\<close>

text \<open>An admission accepts the pinned file only.\<close>

lemma admit_Inr:
  assumes "policy_admit env w = (Inr info, w')"
  shows "\<not> pw_closed w \<and> pw_identity w' = pw_identity w \<and> fi_regular info \<and> fi_nlink info = 1 \<and> fi_size info \<le> max_bytes \<and>
    (re_posix env \<longrightarrow> fi_uid info = re_euid env \<and> take_bit 6 (fi_mode info) = 0) \<and>
    (pw_identity w = None \<or> pw_identity w = Some (file_identity info)) \<and> map_option rf_info (pw_file w') = Some info"
  using assms unfolding policy_admit_def same_directory_def regular_file_def
  by (cases "pw_identity w") (auto simp: bind_Inr system_call_def Let_def split: if_splits option.splits)

lemma role_state_of_json_ok: "role_state_of_json cf site j = Some s \<Longrightarrow> role_state_ok cf s"
  unfolding role_state_of_json_def Let_def
  by (simp del: json_unique.simps split: json.split_asm if_split_asm option.split_asm prod.split_asm)

lemma read_Inr:
  fixes w :: "'u policy_world"
  assumes "(policy_read env site :: ('u, 'x, role_state) pol) w = (Inr s, w')"
  shows "\<not> pw_closed w \<and> role_state_ok (re_casefold env) s \<and>
    (\<exists>f w1. untouched env w w1 \<and> pw_file w1 = Some f \<and>
       Option.bind (rf_content f) (role_state_of_json (re_casefold env) site) = Some s \<and>
       pw_identity w' = Some (file_identity (rf_info f)) \<and> (pw_identity w = None \<or> pw_identity w = Some (file_identity (rf_info f))))"
proof -
  let ?admit = "policy_admit env :: ('u, 'x, file_info) pol" and ?open = "read_open_file env :: ('u, 'x, role_file) pol"
  let ?rest = "\<lambda>before f after. if (fi_dev before, fi_ino before, fi_size before, fi_mtime before) \<noteq> (fi_dev after, fi_ino after, fi_size after, fi_mtime after) \<or>
          file_identity (rf_info f) \<noteq> file_identity before then unavailable else
        case Option.bind (rf_content f) (role_state_of_json (re_casefold env) site) of
          None \<Rightarrow> unavailable
        | Some s \<Rightarrow> act_bind (act_update (\<lambda>w. w\<lparr>pw_identity := Some (file_identity before)\<rparr>)) (\<lambda>_. act_return s)"
  from assms obtain before w1 f w2 after w3 where
    a: "?admit w = (Inr before, w1)" "?open w1 = (Inr f, w2)" "?admit w2 = (Inr after, w3)" and rest: "(?rest before f after :: ('u, 'x, role_state) pol) w3 = (Inr s, w')"
    unfolding policy_read_def bind_Inr by (elim exE conjE) (erule (3) that)
  from rest have f: "file_identity (rf_info f) = file_identity before"
      "Option.bind (rf_content f) (role_state_of_json (re_casefold env) site) = Some s" "pw_identity w' = Some (file_identity before)"
    by (auto simp: bind_Inr split: if_splits option.splits)
  from a(2) have "pw_file w2 = Some f"
    unfolding read_open_file_def by (auto simp: bind_Inr system_call_def Let_def split: if_splits option.splits)
  moreover have "role_state_ok (re_casefold env) s"
    using f(2) role_state_of_json_ok by (auto simp: bind_eq_Some_conv)
  moreover have "untouched env w w2"
    by (rule untouched.trans [OF leavesD [OF untouched_admit a(1)] leavesD [OF untouched_open a(2)]])
  moreover have "\<not> pw_closed w" "pw_identity w = None \<or> pw_identity w = Some (file_identity before)"
    using admit_Inr [OF a(1)] by simp_all
  ultimately show ?thesis using f by metis
qed

text \<open>When nobody else touches the file, what is read is what it holds.\<close>

lemma read_content:
  assumes "policy_read env site w = (Inr s, w')" and "re_meddle env = (\<lambda>_ f. f)"
  shows "\<exists>f. pw_file w = Some f \<and> pw_file w' = Some f \<and> Option.bind (rf_content f) (role_state_of_json (re_casefold env) site) = Some s"
  using read_Inr [OF assms(1)] leavesD [OF untouched_read assms(1)] assms(2) by (auto simp: untouched_def; metis)

section \<open>Writing\<close>

text \<open>A write replaces the whole file, or leaves it.\<close>

definition rewriting :: "role_env \<Rightarrow> json \<Rightarrow> 'u policy_world \<Rightarrow> 'u policy_world \<Rightarrow> bool" where
  "rewriting env j w w' \<longleftrightarrow>
     pw_users w' = pw_users w \<and> pw_closed w' = pw_closed w \<and> pw_anchors w' = pw_anchors w \<and>
     (re_meddle env = (\<lambda>_ f. f) \<longrightarrow> pw_file w' = pw_file w \<or> Option.bind (pw_file w') rf_content = Some j)"

interpretation rewriting: act_frame "rewriting env j" for env j
  by unfold_locales (auto simp: rewriting_def)

lemma untouched_rewrites: "leaves (untouched env) m \<Longrightarrow> leaves (rewriting env j) m"
  by (auto simp: leaves_def untouched_def rewriting_def)

lemma untouched_rewriting_rel: "untouched env w w' \<Longrightarrow> rewriting env j w w'"
  by (simp add: untouched_def rewriting_def)

lemma untouched_pinned: "leaves (untouched env) (admit_if_pinned env)"
  unfolding admit_if_pinned_def by (intro untouched_intros untouched_admit)

lemma untouched_directory: "leaves (untouched env) (same_directory env)"
  and untouched_regular: "leaves (untouched env) (regular_file env f)"
  unfolding same_directory_def regular_file_def by (intro untouched_intros)+

text \<open>What is renamed over the file is the complete new state.\<close>

definition temporary_holds :: "json \<Rightarrow> 'u policy_world \<Rightarrow> bool" where
  "temporary_holds j w \<longleftrightarrow> Option.bind (pw_temporary w) rf_content = Some j"

definition file_holds :: "role_env \<Rightarrow> json \<Rightarrow> 'u policy_world \<Rightarrow> bool" where
  "file_holds env j w \<longleftrightarrow> (re_meddle env = (\<lambda>_ f. f) \<longrightarrow> Option.bind (pw_file w) rf_content = Some j)"

lemma write_temporary_run:
  "write_temporary env j w = (r, w') \<Longrightarrow> rewriting env j w w' \<and> (isl r \<or> temporary_holds j w')"
  unfolding write_temporary_def
  by (auto simp: act_bind_def system_call_def Let_def temporary_holds_def rewriting_def act_update_def split: if_splits prod.splits sum.splits)

lemma untouched_holds:
  "untouched env w w' \<Longrightarrow> temporary_holds j w \<Longrightarrow> temporary_holds j w'"
  "untouched env w w' \<Longrightarrow> file_holds env j w \<Longrightarrow> file_holds env j w'"
  by (simp_all add: untouched_def temporary_holds_def file_holds_def)

lemma wp_through:
  assumes "leaves R m" and "K w" and "\<And>a b. K a \<Longrightarrow> R a b \<Longrightarrow> K b" and "\<And>e w'. K w' \<Longrightarrow> E e w'"
    and "\<And>x w'. K w' \<Longrightarrow> act_wp (f x) Q E w'"
  shows "act_wp (act_bind m f) Q E w"
  using assms by (auto simp: act_wp_def act_bind_def leaves_def split: prod.splits sum.splits)

text \<open>After the rename, and before it.\<close>

lemma wp_replaced:
  assumes "rewriting env j w0 w \<and> file_holds env j w"
  shows "act_wp (act_bind (regular_file env pw_file) (\<lambda>info.
       act_bind (act_update (\<lambda>w. w\<lparr>pw_identity := Some (file_identity info)\<rparr>)) (\<lambda>_.
       act_bind (policy_admit env) (\<lambda>_. act_return ()))))
     (\<lambda>_ w'. rewriting env j w0 w' \<and> file_holds env j w') (\<lambda>_ w'. rewriting env j w0 w') w"
proof -
  have step: "untouched env a b \<Longrightarrow> rewriting env j w0 a \<and> file_holds env j a \<Longrightarrow> rewriting env j w0 b \<and> file_holds env j b" for a b
    using untouched_holds(2) [of env a b j] by (auto simp: untouched_def rewriting_def)
  show ?thesis
    by (rule wp_through [OF untouched_regular, where K = "\<lambda>w. rewriting env j w0 w \<and> file_holds env j w"],
        use assms step in blast, use step in blast, blast,
        rule wp_through [OF untouched_update_identity, where K = "\<lambda>w. rewriting env j w0 w \<and> file_holds env j w"],
        blast, use step in blast, blast,
        rule wp_through [OF untouched_admit, where K = "\<lambda>w. rewriting env j w0 w \<and> file_holds env j w"])
      (use step in auto)
qed

lemma wp_replace:
  assumes "rewriting env j w0 w \<and> temporary_holds j w"
  shows "act_wp (act_bind (system_call env (\<lambda>n. act_update (\<lambda>w. w\<lparr>pw_file := pw_temporary w, pw_temporary := None\<rparr>))) (\<lambda>_.
       act_bind (regular_file env pw_file) (\<lambda>info.
       act_bind (act_update (\<lambda>w. w\<lparr>pw_identity := Some (file_identity info)\<rparr>)) (\<lambda>_.
       act_bind (policy_admit env) (\<lambda>_. act_return ())))))
     (\<lambda>_ w'. rewriting env j w0 w' \<and> file_holds env j w') (\<lambda>_ w'. rewriting env j w0 w') w"
proof -
  let ?rename = "system_call env (\<lambda>n. act_update (\<lambda>w. w\<lparr>pw_file := pw_temporary w, pw_temporary := None\<rparr>))"
  have "act_wp ?rename (\<lambda>_ w'. rewriting env j w0 w' \<and> file_holds env j w') (\<lambda>_ w'. rewriting env j w0 w') w"
    using assms by (auto simp: act_wp_def system_call_def Let_def act_update_def rewriting_def file_holds_def temporary_holds_def)
  then show ?thesis unfolding act_wp_bind [of ?rename] by (rule act_wp_mono) (use wp_replaced [of env j w0] in blast)+
qed

lemma wp_replace_file:
  assumes "rewriting env j w a"
  shows "act_wp (replace_file env j) (\<lambda>_ b. rewriting env j w b \<and> file_holds env j b) (\<lambda>_ b. rewriting env j w b) a"
proof -
  let ?K = "\<lambda>a. rewriting env j w a \<and> temporary_holds j a"
  have step: "untouched env a b \<Longrightarrow> ?K a \<Longrightarrow> ?K b" for a b
    using untouched_holds(1) [of env a b j] by (auto simp: untouched_def rewriting_def)
  from assms have "act_wp (write_temporary env j) (\<lambda>_. ?K) (\<lambda>_ a. rewriting env j w a) a"
    using rewriting.trans by (auto simp: act_wp_def split: prod.splits sum.splits dest!: write_temporary_run)
  then show ?thesis unfolding replace_file_def act_wp_bind [of "write_temporary env j"]
    by (rule act_wp_mono)
      (rule wp_through [OF untouched_regular, where K = ?K], assumption, use step in blast, blast,
        rule wp_through [OF untouched_pinned, where K = ?K], assumption, use step in blast, blast, rule wp_replace, assumption+)
qed

lemma wp_act_finally:
  assumes "act_wp m (\<lambda>_ b. P b \<and> Q b) (\<lambda>_. P) a" and "leaves R c"
    and "\<And>b b'. R b b' \<Longrightarrow> P b \<Longrightarrow> P b'" and "\<And>b b'. R b b' \<Longrightarrow> Q b \<Longrightarrow> Q b'"
  shows "act_wp (act_finally m c) (\<lambda>_ b. P b \<and> Q b) (\<lambda>_. P) a"
  using assms by (auto simp: act_wp_def act_finally_def leaves_def split: prod.splits sum.splits; blast)

text \<open>Removing the temporary does not touch the file.\<close>

definition file_untouched :: "role_env \<Rightarrow> 'u policy_world \<Rightarrow> 'u policy_world \<Rightarrow> bool" where
  "file_untouched env w w' \<longleftrightarrow> untouched env w (w'\<lparr>pw_temporary := pw_temporary w\<rparr>)"

lemma remove_temporary_leaves: "leaves (file_untouched env) (remove_temporary env)"
  by (auto simp: remove_temporary_def leaves_def system_call_def Let_def file_untouched_def untouched_def split: if_splits)

lemma policy_write_run:
  assumes "policy_write env site s w = (r, w')"
  shows "rewriting env (json_of_role_state site s) w w' \<and>
    (r = Inr () \<longrightarrow> file_holds env (json_of_role_state site s) w' \<and> re_size env (json_of_role_state site s) \<le> max_bytes)"
proof -
  define j where "j = json_of_role_state site s"
  have tail: "act_wp (if max_bytes < re_size env j then act_raise (RolePolicyError Roles_capacity)
        else act_finally (replace_file env j) (remove_temporary env))
      (\<lambda>_ b. rewriting env j w b \<and> file_holds env j b \<and> re_size env j \<le> max_bytes) (\<lambda>_ b. rewriting env j w b) a"
    if "rewriting env j w a" for a
  proof -
    have "act_wp (act_finally (replace_file env j) (remove_temporary env))
        (\<lambda>_ b. rewriting env j w b \<and> file_holds env j b) (\<lambda>_ b. rewriting env j w b) a"
      by (rule wp_act_finally [OF wp_replace_file [OF that] remove_temporary_leaves])
        (auto simp: file_untouched_def untouched_def rewriting_def file_holds_def)
    then show ?thesis using that by (auto elim: act_wp_mono)
  qed
  have "act_wp (policy_write env site s) (\<lambda>_ b. rewriting env j w b \<and> file_holds env j b \<and> re_size env j \<le> max_bytes)
      (\<lambda>_ b. rewriting env j w b) w"
    unfolding policy_write_def j_def [symmetric] Let_def
    by (rule wp_through [OF untouched_directory, where K = "rewriting env j w"],
        simp, use untouched_rewriting_rel rewriting.trans in blast, assumption)
       (rule wp_through [OF untouched_pinned, where K = "rewriting env j w"],
        assumption, use untouched_rewriting_rel rewriting.trans in blast, assumption, rule tail)
  from act_wpD [OF this assms] show ?thesis unfolding j_def by (auto split: sum.splits)
qed

end
