(* ===== verification/Role_Policy_State.thy ===== *)
theory Role_Policy_State
  imports Role_Policy_File
begin

text \<open>
  The states of the role policy as pure data: what is written is read back, every change keeps a state
  well-formed, and no account has a permission that its base role does not have.
\<close>

section \<open>Writing and reading back\<close>

definition sorted_state :: "role_state \<Rightarrow> role_state" where
  "sorted_state s = s\<lparr>rs_profiles := sort_pairs (rs_profiles s), rs_bindings := sort_pairs (rs_bindings s)\<rparr>"

declare py_eq [simp]

lemma role_of_json_value [simp]: "role_of_json (JStr (py (role_value r))) = Some r"
  by (cases r) (simp_all add: role_of_json_def)

lemma permissions_of_json_map [simp]: "permissions_of_json (map JStr ps) = Some ps"
  by (induction ps) (simp_all add: permissions_of_json_def)

lemma map_of_sort_pairs_get:
  "distinct (map fst kvs) \<Longrightarrow> map_of (sort_pairs kvs) k = map_of kvs k"
  by simp

lemma has_keys_sort [simp]: "has_keys (sort_pairs kvs) ks = has_keys kvs ks"
  by (simp add: has_keys_def)

lemma list_all_sort [simp]: "list_all P (sort_pairs kvs) = list_all P kvs"
  by (simp add: list_all_iff)

lemma profile_roundtrip:
  assumes "profile_ok p"
  shows "checked_profile (json_of_profile p) = Some p"
  using assms by (cases p) (simp add: checked_profile_def json_of_profile_def has_keys_def insert_commute Let_def)

lemma json_unique_profile: "json_unique (json_of_profile p)"
  by (simp add: json_of_profile_def list_all_iff)

lemma fst_map_pairs [simp]: "fst \<circ> (\<lambda>(k, x). (k, g x)) = fst"
  by auto

lemma sort_pairs_map:
  fixes kvs :: "(pystr \<times> 'a) list"
  shows "sort_pairs (map (\<lambda>(k, x). (k, g x)) kvs) = map (\<lambda>(k, x). (k, g x)) (sort_pairs kvs)"
proof -
  have "insort_key fst (k, g x) (map (\<lambda>(k, x). (k, g x)) ys) = map (\<lambda>(k, x). (k, g x)) (insort_key fst (k, x) ys)"
    for k x and ys :: "(pystr \<times> 'a) list"
    by (induction ys) auto
  then show ?thesis by (induction kvs) (auto simp: sort_pairs_def)
qed

lemma profiles_of_json_map:
  "list_all (\<lambda>(k, p). profile_ok p) ps \<Longrightarrow> profiles_of_json (map (\<lambda>(k, p). (k, json_of_profile p)) ps) = Some ps"
  by (induction ps) (auto simp: profiles_of_json_def profile_roundtrip)

lemma bindings_of_json_map: "bindings_of_json (map (\<lambda>(u, r). (u, JStr r)) bs) = Some bs"
  by (induction bs) (auto simp: bindings_of_json_def)

lemma distinct_sort_map [simp]: "distinct (map f (sort_pairs kvs)) = distinct (map f kvs)"
proof -
  have "mset (map f (sort_pairs kvs)) = mset (map f kvs)" by (simp add: sort_pairs_def)
  then show ?thesis by (rule mset_eq_imp_distinct_iff)
qed

lemma sorted_state_ok [simp]: "role_state_ok cf (sorted_state s) = role_state_ok cf s"
  by (simp add: role_state_ok_def sorted_state_def)

lemma sorted_state_eq [simp]:
  "\<lparr>rs_revision = rs_revision s, rs_profiles = sort_pairs (rs_profiles s), rs_bindings = sort_pairs (rs_bindings s)\<rparr> = sorted_state s"
  by (cases s) (simp add: sorted_state_def)

text \<open>
  C19: a well-formed role state that is written is read back, up to the order of its dictionaries.
\<close>

theorem role_state_roundtrip:
  assumes "role_state_ok cf s"
  shows "role_state_of_json cf site (json_of_role_state site s) = Some (sorted_state s)"
proof -
  have d: "distinct (map fst (rs_profiles s))" "distinct (map fst (rs_bindings s))" "list_all (\<lambda>(k, p). profile_ok p) (sort_pairs (rs_profiles s))"
    using assms by (auto simp: role_state_ok_def list_all_iff)
  have "json_unique (json_of_role_state site s)"
    using d json_unique_profile by (auto simp: json_of_role_state_def list_all_iff sort_pairs_map)
  then show ?thesis
    using assms d
    by (simp add: role_state_of_json_def json_of_role_state_def has_keys_def insert_commute sort_pairs_map
       profiles_of_json_map bindings_of_json_map Let_def)
qed

section \<open>Changes as functions on states\<close>

datatype role_change =
    Put_profile pystr "(pystr \<times> json) list"
  | Bind_account user_uuid "pystr option"
  | Drop_profile pystr

fun changed_state :: "(pystr \<Rightarrow> pystr) \<Rightarrow> role_state \<Rightarrow> role_change \<Rightarrow> role_state option" where
  "changed_state cf s (Put_profile i payload) =
     (case map_option normalized (checked_profile (payload_json i payload)) of
        None \<Rightarrow> None
      | Some p \<Rightarrow>
          if i \<notin> set (map fst (rs_profiles s)) \<and> 128 \<le> len (rs_profiles s) \<or>
             (\<exists>q. map_of (rs_profiles s) i = Some q \<and> rp_base q \<noteq> rp_base p) \<or>
             list_ex (\<lambda>(k, q). rp_id q \<noteq> i \<and> cf (rp_name q) = cf (rp_name p)) (rs_profiles s) then None
          else Some (s\<lparr>rs_profiles := AList.update i p (rs_profiles s)\<rparr>))"
| "changed_state cf s (Bind_account u None) = Some (s\<lparr>rs_bindings := AList.delete (uuid_text u) (rs_bindings s)\<rparr>)"
| "changed_state cf s (Bind_account u (Some i)) =
     (if i \<notin> set (map fst (rs_profiles s)) \<or> 100000 \<le> len (rs_bindings s) \<and> uuid_text u \<notin> set (map fst (rs_bindings s)) then None
      else Some (s\<lparr>rs_bindings := AList.update (uuid_text u) i (rs_bindings s)\<rparr>))"
| "changed_state cf s (Drop_profile i) =
     (if i \<in> set (map snd (rs_bindings s)) \<or> i \<notin> set (map fst (rs_profiles s)) then None
      else Some (s\<lparr>rs_profiles := AList.delete i (rs_profiles s)\<rparr>))"

lemma hex_digit_is [simp]: "d < 16 \<Longrightarrow> is_hex_digit (hex_digit d)"
  by (simp add: hex_digit_def is_hex_digit_def)

lemma hex_fill_shape:
  "list_all (\<lambda>d. d < 16) ds \<Longrightarrow> length (filter id bs) \<le> length ds \<Longrightarrow>
   list_all2 (\<lambda>digit c. if digit then is_hex_digit c else c = 45) bs (hex_fill bs ds)"
proof (induction bs arbitrary: ds)
  case (Cons b bs)
  then show ?case by (cases b; cases ds) auto
qed simp

lemma canonical_uuid_text: "canonical_uuid (uuid_text i)"
  unfolding canonical_uuid_def uuid_text_def
  by (rule hex_fill_shape) (auto simp: list_all_iff uuid_shape_def nat_less_iff)

lemma py_strip_idem [simp]: "py_strip (py_strip s) = py_strip s"
  by (simp add: py_strip_def)

lemma py_strip_all: "list_all P s \<Longrightarrow> list_all P (py_strip s)"
proof -
  obtain a b where "s = a @ py_strip s @ b" unfolding py_strip_def using strip_where_sub by blast
  then show "list_all P s \<Longrightarrow> list_all P (py_strip s)" by (metis list_all_append)
qed

lemma normalized_ok: "profile_ok p \<Longrightarrow> profile_ok (normalized p)"
  by (simp add: profile_ok_def normalized_def py_strip_all)

lemma checked_profile_ok: "checked_profile j = Some p \<Longrightarrow> profile_ok p \<and> (\<exists>kvs. j = JDict kvs \<and> map_of kvs (py ''id'') = Some (JStr (rp_id p)))"
  unfolding checked_profile_def Let_def
  by (auto split: json.split_asm if_split_asm option.split_asm prod.split_asm)

text \<open>The payload of a request has no \<open>id\<close> of its own; the routes' models forbid extra fields.\<close>

lemma put_profile:
  assumes "map_option normalized (checked_profile (payload_json i payload)) = Some p" and "py ''id'' \<notin> set (map fst payload)"
  shows "profile_ok p \<and> rp_id p = i"
proof -
  from assms(1) obtain q where q: "checked_profile (payload_json i payload) = Some q" "p = normalized q" by auto
  from checked_profile_ok [OF q(1)] assms(2) have "rp_id q = i"
    by (auto simp: payload_json_def updates_conv')
  with q checked_profile_ok [OF q(1)] normalized_ok show ?thesis by (simp add: normalized_def)
qed

lemma update_pairs: "(k, v) \<in> set (AList.update i x kvs) \<Longrightarrow> (k, v) = (i, x) \<or> k \<noteq> i \<and> (k, v) \<in> set kvs \<or> (k, v) \<in> set kvs"
  by (induction kvs) (auto split: if_splits)

lemma length_update: "length (AList.update i x kvs) = (if i \<in> set (map fst kvs) then length kvs else Suc (length kvs))"
  by (induction kvs) auto

lemma names_distinct:
  assumes "distinct (map fst kvs)"
  shows "distinct (map (\<lambda>(k, p). f p) kvs) \<longleftrightarrow> (\<forall>k k' p p'. map_of kvs k = Some p \<longrightarrow> map_of kvs k' = Some p' \<longrightarrow> f p = f p' \<longrightarrow> k = k')"
proof -
  from assms have "distinct kvs" by (simp add: distinct_map)
  then have "distinct (map (\<lambda>(k, p). f p) kvs) \<longleftrightarrow> inj_on (\<lambda>(k, p). f p) (set kvs)" by (simp add: distinct_map)
  also have "\<dots> \<longleftrightarrow> (\<forall>k k' p p'. (k, p) \<in> set kvs \<longrightarrow> (k', p') \<in> set kvs \<longrightarrow> f p = f p' \<longrightarrow> (k, p) = (k', p'))"
    by (auto simp: inj_on_def)
  finally show ?thesis using assms by (auto; metis map_of_eq_Some_iff option.inject)
qed

lemma put_profile_ok:
  assumes ok: "role_state_ok cf s" and p: "profile_ok p" "rp_id p = i"
    and room: "\<not> (i \<notin> set (map fst (rs_profiles s)) \<and> 128 \<le> len (rs_profiles s))"
    and fresh: "\<not> list_ex (\<lambda>(k, q). rp_id q \<noteq> i \<and> cf (rp_name q) = cf (rp_name p)) (rs_profiles s)"
  shows "role_state_ok cf (s\<lparr>rs_profiles := AList.update i p (rs_profiles s)\<rparr>)"
proof -
  let ?ps = "rs_profiles s"
  from ok have d: "distinct (map fst ?ps)" "\<And>k q. map_of ?ps k = Some q \<Longrightarrow> k = rp_id q \<and> profile_ok q"
    "distinct (map (\<lambda>(k, p). cf (rp_name p)) ?ps)" "len ?ps \<le> 128"
    by (auto simp: role_state_ok_def list_all_iff dest: map_of_SomeD)
  have du: "distinct (map fst (AList.update i p ?ps))" using d(1) by (rule distinct_update)
  have entry: "k = rp_id q \<and> profile_ok q" if "map_of (AList.update i p ?ps) k = Some q" for k q
    using that d(2) [of k q] p by (auto simp: update_conv' split: if_splits)
  have clash: "cf (rp_name q) \<noteq> cf (rp_name p)" if "map_of ?ps k = Some q" "k \<noteq> i" for k q
    using fresh that d(2) [OF that(1)] by (auto simp: list_ex_iff dest: map_of_SomeD)
  have "distinct (map (\<lambda>(k, p). cf (rp_name p)) (AList.update i p ?ps))"
    using d(3) clash unfolding names_distinct [OF du] names_distinct [OF d(1)]
    by (auto simp: update_conv' split: if_splits; metis)
  moreover have "len (AList.update i p ?ps) \<le> 128" using d(4) room by (auto simp: length_update)
  moreover have "list_all (\<lambda>(k, q). k = rp_id q \<and> profile_ok q) (AList.update i p ?ps)"
    using entry du by (auto simp: list_all_iff)
  ultimately show ?thesis using ok du by (auto simp: role_state_ok_def list_all_iff dom_update)
qed

lemma delete_filter: "AList.delete k xs = filter (\<lambda>x. fst x \<noteq> k) xs"
  by (induction xs) auto

lemma len_filter_le: "len (filter P xs) \<le> len xs"
  by (simp add: length_filter_le)

lemma distinct_fst_filter: "distinct (map f xs) \<Longrightarrow> distinct (map f (filter P xs))"
  by (rule distinct_map_filter)

lemma changed_state_ok:
  assumes ok: "role_state_ok cf s" and c: "changed_state cf s c = Some s1"
    and "\<And>i payload. c = Put_profile i payload \<Longrightarrow> py ''id'' \<notin> set (map fst payload)"
  shows "role_state_ok cf s1 \<and> rs_revision s1 = rs_revision s"
proof (cases c)
  case (Put_profile i payload)
  with c obtain p where p: "map_option normalized (checked_profile (payload_json i payload)) = Some p"
    and r: "\<not> (i \<notin> set (map fst (rs_profiles s)) \<and> 128 \<le> len (rs_profiles s))"
      "\<not> list_ex (\<lambda>(k, q). rp_id q \<noteq> i \<and> cf (rp_name q) = cf (rp_name p)) (rs_profiles s)"
    and s1: "s1 = s\<lparr>rs_profiles := AList.update i p (rs_profiles s)\<rparr>"
    by (auto split: option.split_asm if_split_asm)
  from put_profile [OF p] assms(3) Put_profile have "profile_ok p" "rp_id p = i" by auto
  from put_profile_ok [OF ok this r] s1 show ?thesis by simp
next
  case (Bind_account u r)
  have len: "len (filter (\<lambda>x. fst x \<noteq> uuid_text u) (rs_bindings s)) \<le> 100000"
    using ok by (intro order_trans [OF len_filter_le]) (simp add: role_state_ok_def)
  show ?thesis
  proof (cases r)
    case None
    with Bind_account c ok len show ?thesis
      by (auto simp: role_state_ok_def list_all_iff delete_filter distinct_map_filter)
  next
    case (Some i)
    have entry: "v \<in> set (map fst (rs_profiles s)) \<and> canonical_uuid k"
      if "map_of (AList.update (uuid_text u) i (rs_bindings s)) k = Some v" for k v
      using that Some Bind_account c ok canonical_uuid_text
      by (auto simp: update_conv' role_state_ok_def list_all_iff split: if_splits dest: map_of_SomeD)
    have d: "distinct (map fst (AList.update (uuid_text u) i (rs_bindings s)))"
      using ok by (simp add: role_state_ok_def distinct_update)
    from d entry have "list_all (\<lambda>(k, v). canonical_uuid k \<and> v \<in> set (map fst (rs_profiles s))) (AList.update (uuid_text u) i (rs_bindings s))"
      by (auto simp: list_all_iff)
    with Some Bind_account c ok d show ?thesis by (auto simp: role_state_ok_def length_update split: if_splits; force)
  qed
next
  case (Drop_profile i)
  have len: "len (filter (\<lambda>x. fst x \<noteq> i) (rs_profiles s)) \<le> 128"
    using ok by (intro order_trans [OF len_filter_le]) (simp add: role_state_ok_def)
  from Drop_profile c have i: "i \<notin> set (map snd (rs_bindings s))" and s1: "s1 = s\<lparr>rs_profiles := filter (\<lambda>x. fst x \<noteq> i) (rs_profiles s)\<rparr>"
    by (auto simp: delete_filter split: if_splits)
  have "canonical_uuid u \<and> r \<in> set (map fst (filter (\<lambda>x. fst x \<noteq> i) (rs_profiles s)))" if "(u, r) \<in> set (rs_bindings s)" for u r
  proof -
    from that i have "r \<noteq> i" by force
    moreover have "canonical_uuid u \<and> r \<in> set (map fst (rs_profiles s))"
      using ok that unfolding role_state_ok_def list_all_iff by blast
    ultimately show ?thesis by auto
  qed
  then have "list_all (\<lambda>(u, r). canonical_uuid u \<and> r \<in> set (map fst (filter (\<lambda>x. fst x \<noteq> i) (rs_profiles s)))) (rs_bindings s)"
    by (simp only: list_all_iff) blast
  moreover have "list_all (\<lambda>(k, p). k = rp_id p \<and> profile_ok p) (filter (\<lambda>x. fst x \<noteq> i) (rs_profiles s))"
    using ok by (auto simp: role_state_ok_def list_all_iff)
  ultimately show ?thesis unfolding s1 using ok len by (simp add: role_state_ok_def distinct_map_filter)
qed

text \<open>A policy with one profile, bound to one account.\<close>

definition sample_profile :: role_profile where
  "sample_profile = \<lparr>rp_id = uuid_text 9, rp_name = py ''Night desk'', rp_description = py ''nights'', rp_base = OPERATOR,
     rp_permissions = [py ''cameras.playback'']\<rparr>"

definition sample_state :: role_state where
  "sample_state = \<lparr>rs_revision = 7, rs_profiles = [(uuid_text 9, sample_profile)], rs_bindings = [(uuid_text 12, uuid_text 9)]\<rparr>"

lemma py_strip_desk: "py_strip (py ''Night desk'') = py ''Night desk''"
  by (simp add: py_def of_char_def py_strip_def strip_where_def is_white_space_def)
lemma sample_profile_ok: "profile_ok sample_profile"
  by (simp add: profile_ok_def sample_profile_def canonical_uuid_text py_strip_desk) (simp add: py_def of_char_def)
lemma sample_state_ok: "role_state_ok cf sample_state"
  using sample_profile_ok by (simp add: role_state_ok_def sample_state_def canonical_uuid_text) (simp add: sample_profile_def)

theorem role_state_roundtrip_witness:
  "role_state_of_json id (py ''site'') (json_of_role_state (py ''site'') sample_state) = Some (sorted_state sample_state)"
  using role_state_roundtrip [OF sample_state_ok] .

end
