(* ===== verification/Role_Policy_Guard.thy ===== *)
theory Role_Policy_Guard
  imports Role_Policy_State
begin

text \<open>
  The guard of the role policy, over any account registry that keeps the contract \<open>user_directory\<close>: it
  returns only if an enabled administrator with every permission and a working password exists, and every
  change of the policy passes it. The user registry keeps the contract.
\<close>

section \<open>The contract of the account registry\<close>

text \<open>
  \<open>accounts\<close> are the accounts in the order of the pages, a place being \<open>None\<close> when its row does not
  decode; \<open>active\<close> says which have a working password. Reading changes neither.
\<close>

locale user_directory =
  fixes users :: "('u, 'x) user_operations" and idle :: "'u \<Rightarrow> bool"
    and accounts :: "'u \<Rightarrow> user_account option list" and active :: "'u \<Rightarrow> user_uuid \<Rightarrow> bool"
  assumes list_page: "idle u \<Longrightarrow> uo_list users offset limit u = (Inr rows, u') \<Longrightarrow>
      map Some rows = take (nat limit) (drop (nat offset) (accounts u)) \<and> idle u' \<and> accounts u' = accounts u \<and> active u' = active u"
    and status: "idle u \<Longrightarrow> uo_credential_status users i u = (Inr st, u') \<Longrightarrow>
      (st = Some Active \<longleftrightarrow> active u i) \<and> idle u' \<and> accounts u' = accounts u \<and> active u' = active u"
    and get: "idle u \<Longrightarrow> uo_get users i u = (Inr y, u') \<Longrightarrow>
      (\<forall>a. y = Some a \<longrightarrow> ua_id a = i \<and> Some a \<in> set (accounts u)) \<and> idle u' \<and> accounts u' = accounts u \<and> active u' = active u"

definition qualifies :: "(user_uuid \<Rightarrow> bool) \<Rightarrow> role_state \<Rightarrow> user_account option \<Rightarrow> user_uuid option \<Rightarrow> user_account \<Rightarrow> bool" where
  "qualifies act s replacement excluded a \<longleftrightarrow>
     Some (ua_id a) \<noteq> excluded \<and> full_administrator s (replaced replacement a) \<and> act (ua_id (replaced replacement a))"

definition guarded :: "user_account option list \<Rightarrow> (user_uuid \<Rightarrow> bool) \<Rightarrow> role_state \<Rightarrow> user_account option \<Rightarrow> user_uuid option \<Rightarrow> bool" where
  "guarded accs act s replacement excluded \<longleftrightarrow> (\<exists>a. Some a \<in> set accs \<and> qualifies act s replacement excluded a)"

section \<open>The guard\<close>

definition users_only :: "'u policy_world \<Rightarrow> 'u policy_world \<Rightarrow> bool" where
  "users_only w w' \<longleftrightarrow>
     pw_file w' = pw_file w \<and> pw_temporary w' = pw_temporary w \<and> pw_identity w' = pw_identity w \<and>
     pw_closed w' = pw_closed w \<and> pw_anchors w' = pw_anchors w \<and> pw_tick w' = pw_tick w"

interpretation users_only: act_frame users_only
  by unfold_locales (simp_all add: users_only_def)

lemma on_users_only: "leaves users_only (on_users m)"
  by (auto simp: leaves_def on_users_def users_only_def split: prod.splits sum.splits raised.splits)

lemma guard_page_only: "leaves users_only (guard_page users s replacement excluded rows)"
proof (induction rows)
  case (Cons a rows)
  then show ?case by (auto intro!: users_only.leaves_intros on_users_only)
qed (simp add: users_only.return_leaves)

lemma guard_pages_only: "leaves users_only (guard_pages users s replacement excluded offsets)"
proof (induction offsets)
  case (Cons a offsets)
  then show ?case by (auto intro!: users_only.leaves_intros on_users_only guard_page_only)
qed (simp add: users_only.raise_leaves)

lemma guard_only: "leaves users_only (policy_guard users s replacement excluded)"
  unfolding policy_guard_def by (rule guard_pages_only)

lemma on_users_Inr: "on_users m w = (Inr x, w') \<longleftrightarrow> (\<exists>u. m (pw_users w) = (Inr x, u) \<and> w' = w\<lparr>pw_users := u\<rparr>)"
  by (auto simp: on_users_def split: prod.splits sum.splits raised.splits)

context user_directory
begin

abbreviation same_view :: "'u \<Rightarrow> 'u \<Rightarrow> bool" where
  "same_view u u' \<equiv> idle u' \<and> accounts u' = accounts u \<and> active u' = active u"

lemma guard_page_run:
  assumes "idle (pw_users w)" and "guard_page users s replacement excluded rows w = (Inr b, w')"
  shows "(b \<longleftrightarrow> list_ex (qualifies (active (pw_users w)) s replacement excluded) rows) \<and> same_view (pw_users w) (pw_users w')"
  using assms
proof (induction rows arbitrary: w)
  case (Cons a rows)
  show ?case
  proof (cases "Some (ua_id a) \<noteq> excluded \<and> full_administrator s (replaced replacement a)")
    case False
    with Cons show ?thesis by (auto simp: qualifies_def split: if_splits)
  next
    case True
    with Cons.prems(2) obtain st u' where st: "uo_credential_status users (ua_id (replaced replacement a)) (pw_users w) = (Inr st, u')"
      and rest: "if st = Some Active then b \<and> w' = w\<lparr>pw_users := u'\<rparr>
        else guard_page users s replacement excluded rows (w\<lparr>pw_users := u'\<rparr>) = (Inr b, w')"
      by (auto simp: bind_Inr on_users_Inr split: if_splits)
    from status [OF Cons.prems(1) st] Cons.IH [of "w\<lparr>pw_users := u'\<rparr>"] rest True
    show ?thesis by (auto simp: qualifies_def split: if_splits)
  qed
qed auto

lemma guard_pages_run:
  assumes "idle (pw_users w)" and "guard_pages users s replacement excluded offsets w = (Inr y, w')"
  shows "guarded (accounts (pw_users w)) (active (pw_users w)) s replacement excluded \<and> same_view (pw_users w) (pw_users w')"
  using assms
proof (induction offsets arbitrary: w)
  case (Cons offset offsets)
  from Cons.prems(2) obtain rows u' b w2 where list: "uo_list users offset 100 (pw_users w) = (Inr rows, u')"
    and page: "guard_page users s replacement excluded rows (w\<lparr>pw_users := u'\<rparr>) = (Inr b, w2)"
    and rest: "if b then w' = w2 else \<not> len rows < 100 \<and> guard_pages users s replacement excluded offsets w2 = (Inr y, w')"
    by (auto simp: bind_Inr on_users_Inr split: if_splits)
  from list_page [OF Cons.prems(1) list] have l: "map Some rows = take 100 (drop (nat offset) (accounts (pw_users w)))" "same_view (pw_users w) u'" by simp_all
  from guard_page_run [OF _ page] l have p: "b \<longleftrightarrow> list_ex (qualifies (active (pw_users w)) s replacement excluded) rows"
    "same_view (pw_users w) (pw_users w2)" by auto
  show ?case
  proof (cases b)
    case True
    with p obtain a where a: "a \<in> set rows" "qualifies (active (pw_users w)) s replacement excluded a" by (auto simp: list_ex_iff)
    from a(1) have "Some a \<in> set (map Some rows)" by simp
    then have "Some a \<in> set (accounts (pw_users w))" unfolding l(1) by (auto dest!: in_set_takeD in_set_dropD)
    with a True rest p show ?thesis by (auto simp: guarded_def)
  next
    case False
    with rest p Cons.IH [of w2] show ?thesis by auto
  qed
qed simp

lemma guard_run:
  assumes "idle (pw_users w)" and "policy_guard users s replacement excluded w = (Inr y, w')"
  shows "guarded (accounts (pw_users w)) (active (pw_users w)) s replacement excluded \<and> same_view (pw_users w) (pw_users w')"
  using guard_pages_run [OF assms(1) assms(2) [unfolded policy_guard_def]] .

end

section \<open>Every change passes the guard\<close>

definition stored :: "role_env \<Rightarrow> pystr \<Rightarrow> 'u policy_world \<Rightarrow> role_state option" where
  "stored env site w = Option.bind (Option.bind (pw_file w) rf_content) (role_state_of_json (re_casefold env) site)"

definition holds_state :: "pystr \<Rightarrow> 'u policy_world \<Rightarrow> role_state \<Rightarrow> bool" where
  "holds_state site w s \<longleftrightarrow> Option.bind (pw_file w) rf_content = Some (json_of_role_state site s)"

lemma bindE:
  assumes "act_bind m f w = (r, w')"
  obtains (raised) e where "m w = (Inl e, w')" and "r = Inl e" | (returned) x w1 where "m w = (Inr x, w1)" and "f x w1 = (r, w')"
  using assms by (auto simp: act_bind_def split: prod.splits sum.splits)

lemma read_stored:
  assumes "policy_read env site w = (Inr s, w')" and "re_meddle env = (\<lambda>_ f. f)"
  shows "stored env site w = Some s \<and> role_state_ok (re_casefold env) s \<and> pw_file w' = pw_file w \<and> pw_users w' = pw_users w"
  using read_content [OF assms] read_Inr [OF assms(1)] leavesD [OF untouched_read assms(1)] assms(2)
  by (auto simp: stored_def untouched_def)

lemma read_keeps: "policy_read env site w = (r, w') \<Longrightarrow> re_meddle env = (\<lambda>_ f. f) \<Longrightarrow> pw_file w' = pw_file w"
  by (drule leavesD [OF untouched_read]) (simp add: untouched_def)

lemma check_revision_run [simp]:
  "check_revision expected s w = (r, w') \<longleftrightarrow>
   w' = w \<and> r = (if expected = None \<or> expected = Some (rs_revision s) then Inr () else Inl (Exn (RolePolicyError Roles_revision_conflict)))"
  by (auto simp: check_revision_def)

lemma new_binding_Inr:
  "new_binding s a i role_id = Inr (s1, x) \<Longrightarrow> changed_state cf s (Bind_account i role_id) = Some s1 \<and>
     (case role_id of None \<Rightarrow> x = a | Some k \<Rightarrow> \<exists>p. map_of (rs_profiles s) k = Some p \<and> x = a\<lparr>uc_role := rp_base p\<rparr>)"
  unfolding new_binding_def
  by (cases role_id) (auto split: option.split_asm if_split_asm simp: image_iff dest: map_of_SomeD; force dest: map_of_SomeD)+

context user_directory
begin

definition committed_change :: "pystr \<Rightarrow> 'u policy_world \<Rightarrow> 'u policy_world \<Rightarrow> role_state \<Rightarrow> user_account option \<Rightarrow> bool" where
  "committed_change site w w' s1 replacement \<longleftrightarrow>
     holds_state site w' (next_revision s1) \<and> same_view (pw_users w) (pw_users w') \<and>
     guarded (accounts (pw_users w)) (active (pw_users w)) s1 replacement None"

lemma commit_run:
  assumes env: "re_meddle env = (\<lambda>_ f. f)" and idle: "idle (pw_users w)"
    and run: "act_bind (policy_guard users s1 replacement None) (\<lambda>_. policy_write env site (next_revision s1)) w = (r, w')"
  shows "pw_file w' = pw_file w \<and> isl r \<or> committed_change site w w' s1 replacement"
  using run
proof (cases rule: bindE)
  case (raised e)
  with leavesD [OF guard_only raised(1)] show ?thesis by (simp add: users_only_def)
next
  case (returned y w1)
  from leavesD [OF guard_only returned(1)] have f: "pw_file w1 = pw_file w" by (simp add: users_only_def)
  from guard_run [OF idle returned(1)] policy_write_run [OF returned(2)] env f
  show ?thesis
    by (auto simp: committed_change_def holds_state_def rewriting_def file_holds_def isl_def; cases r; auto)
qed

lemma commit_return:
  assumes "re_meddle env = (\<lambda>_ f. f)" and "idle (pw_users w)"
    and "act_bind (policy_guard users s1 replacement None) (\<lambda>_. act_bind (policy_write env site (next_revision s1)) (\<lambda>_. act_return y)) w = (r, w')"
  shows "pw_file w' = pw_file w \<and> isl r \<or> committed_change site w w' s1 replacement \<and> (isl r \<or> r = Inr y)"
  using assms(3)
proof (cases rule: bindE)
  case (raised e)
  with leavesD [OF guard_only raised(1)] show ?thesis by (simp add: users_only_def)
next
  case (returned u w1)
  from returned(2) obtain r1 :: "'x role_policy_exn raised + unit" where "policy_write env site (next_revision s1) w1 = (r1, w')" and r: "r = Inr y \<and> r1 = Inr () \<or> isl r \<and> isl r1"
  proof (cases rule: bindE)
    case (raised e)
    then show ?thesis by (intro that [of "Inl e"]) simp_all
  next
    case (returned u w2)
    then show ?thesis by (intro that [of "Inr ()"]) simp_all
  qed
  with returned(1) have "act_bind (policy_guard users s1 replacement None) (\<lambda>_. policy_write env site (next_revision s1)) w = (r1, w')"
    by (simp add: act_bind_def)
  from commit_run [OF assms(1,2) this] r show ?thesis by auto
qed

text \<open>What an attempt to change the policy leaves: the file as it was, or the intended state under the next revision.\<close>

definition change_outcome ::
  "role_env \<Rightarrow> pystr \<Rightarrow> role_change \<Rightarrow> int option \<Rightarrow> (role_state \<Rightarrow> user_account option \<Rightarrow> bool) \<Rightarrow> 'u policy_world \<Rightarrow> 'u policy_world \<Rightarrow> bool" where
  "change_outcome env site c expected rep w w' \<longleftrightarrow>
     (\<exists>s s1 replacement. stored env site w = Some s \<and> role_state_ok (re_casefold env) s \<and> (expected = None \<or> expected = Some (rs_revision s)) \<and>
        changed_state (re_casefold env) s c = Some s1 \<and> rep s replacement \<and> committed_change site w w' s1 replacement)"

lemma upsert_run:
  assumes env: "re_meddle env = (\<lambda>_ f. f)" and idle: "idle (pw_users w)"
    and run: "policy_upsert env site users payload role_id expected w = (r, w')"
  shows "pw_file w' = pw_file w \<and> isl r \<or>
    (\<exists>i. (role_id = Some i \<or> role_id = None \<and> i \<in> range (uuid_text \<circ> re_uuid4 env)) \<and>
      change_outcome env site (Put_profile i payload) expected (\<lambda>_ x. x = None) w w')"
  using run unfolding policy_upsert_def
proof (cases rule: bindE)
  case (raised e)
  with read_keeps [OF raised(1) env] show ?thesis by simp
next
  case (returned s w1)
  note s = read_stored [OF returned(1) env]
  from returned(2) show ?thesis
  proof (cases rule: bindE)
    case (raised e)
    with s show ?thesis by simp
  next
    case check: (returned u w2)
    then have w2: "w2 = w1" and e: "expected = None \<or> expected = Some (rs_revision s)" by (auto split: if_splits)
    obtain i where i: "role_id = Some i \<or> role_id = None \<and> i \<in> range (uuid_text \<circ> re_uuid4 env)"
      and rest: "(if i \<notin> set (map fst (rs_profiles s)) \<and> 128 \<le> len (rs_profiles s) then act_raise (RolePolicyError Roles_capacity) else
         case map_option normalized (checked_profile (payload_json i payload)) of
           None \<Rightarrow> act_raise Policy_ValueError
         | Some p \<Rightarrow>
             if (case map_of (rs_profiles s) i of None \<Rightarrow> False | Some q \<Rightarrow> rp_base q \<noteq> rp_base p)
             then act_raise (RolePolicyError Roles_base_immutable) else
             if list_ex (\<lambda>(k, q). rp_id q \<noteq> i \<and> re_casefold env (rp_name q) = re_casefold env (rp_name p)) (rs_profiles s)
             then act_raise (RolePolicyError Roles_name_exists) else
             let s1 = s\<lparr>rs_profiles := AList.update i p (rs_profiles s)\<rparr> in
             act_bind (policy_guard users s1 None None) (\<lambda>_.
             act_bind (policy_write env site (next_revision s1)) (\<lambda>_. act_return p))) w1 = (r, w')"
    proof (cases role_id)
      case None
      with check(2) w2 that [of "uuid_text (re_uuid4 env (pw_tick w1))"] show ?thesis by (simp add: act_bind_def act_return_def act_get_def)
    next
      case (Some i)
      with check(2) w2 that [of i] show ?thesis by (simp add: act_bind_def act_return_def)
    qed
    have "(isl r \<and> w' = w1) \<or> (\<exists>p s1. changed_state (re_casefold env) s (Put_profile i payload) = Some s1 \<and>
        act_bind (policy_guard users s1 None None) (\<lambda>_. act_bind (policy_write env site (next_revision s1)) (\<lambda>_. act_return p)) w1 = (r, w'))"
      using rest by (auto simp: Let_def split: if_splits option.splits)
    then show ?thesis
    proof (elim disjE exE conjE)
      fix p s1
      assume c: "changed_state (re_casefold env) s (Put_profile i payload) = Some s1"
        and m: "act_bind (policy_guard users s1 None None) (\<lambda>_. act_bind (policy_write env site (next_revision s1)) (\<lambda>_. act_return p)) w1 = (r, w')"
      from s idle have "idle (pw_users w1)" by simp
      from commit_return [OF env this m] s e c i show ?thesis
        by (fastforce simp: change_outcome_def committed_change_def)
    qed (use s in simp)
  qed
qed

text \<open>The account that an assignment leaves: it takes over the base role of its new profile.\<close>

definition assigned :: "'u policy_world \<Rightarrow> user_uuid \<Rightarrow> pystr option \<Rightarrow> role_state \<Rightarrow> user_account option \<Rightarrow> bool" where
  "assigned w i role_id s replacement \<longleftrightarrow>
     (\<exists>a. Some a \<in> set (accounts (pw_users w)) \<and> ua_id a = i \<and>
        (case role_id of
           None \<Rightarrow> replacement = Some a
         | Some k \<Rightarrow> \<exists>p. map_of (rs_profiles s) k = Some p \<and> replacement = Some (a\<lparr>uc_role := rp_base p\<rparr>)))"

lemma assign_run:
  assumes env: "re_meddle env = (\<lambda>_ f. f)" and idle: "idle (pw_users w)"
    and run: "policy_assign env site users i role_id expected w = (r, w')"
  shows "pw_file w' = pw_file w \<and> isl r \<or>
    change_outcome env site (Bind_account i role_id) expected (\<lambda>s x. assigned w i role_id s x \<and> (isl r \<or> x = Some (projr r))) w w'"
  using run unfolding policy_assign_def
proof (cases rule: bindE)
  case (raised e)
  with read_keeps [OF raised(1) env] show ?thesis by simp
next
  case (returned s w1)
  note s = read_stored [OF returned(1) env]
  from returned(2) show ?thesis
  proof (cases rule: bindE)
    case (raised e)
    with s show ?thesis by simp
  next
    case check: (returned u w2)
    then have w2: "w2 = w1" and e: "expected = None \<or> expected = Some (rs_revision s)" by (auto split: if_splits)
    from check(2) show ?thesis unfolding w2
    proof (cases rule: bindE)
      case (raised e)
      with leavesD [OF on_users_only raised(1)] s show ?thesis by (simp add: users_only_def)
    next
      case got: (returned account w3)
      from leavesD [OF on_users_only got(1)] s have f: "pw_file w3 = pw_file w" by (simp add: users_only_def)
      from got(1) obtain u' where u': "uo_get users i (pw_users w) = (Inr account, u')" "pw_users w3 = u'" using s by (auto simp: on_users_Inr)
      note g = get [OF idle u'(1)]
      have "(isl r \<and> pw_file w' = pw_file w) \<or> (\<exists>a s1 x. account = Some a \<and> changed_state (re_casefold env) s (Bind_account i role_id) = Some s1 \<and>
          (case role_id of None \<Rightarrow> x = a | Some k \<Rightarrow> \<exists>p. map_of (rs_profiles s) k = Some p \<and> x = a\<lparr>uc_role := rp_base p\<rparr>) \<and>
          act_bind (policy_guard users s1 (Some x) None) (\<lambda>_. act_bind (policy_write env site (next_revision s1)) (\<lambda>_. act_return x)) w3 = (r, w'))"
      proof (cases account)
        case None
        with got(2) f show ?thesis by simp
      next
        case (Some a)
        with got(2) f new_binding_Inr [of s a i role_id _ _ "re_casefold env"] show ?thesis
          by (cases "new_binding s a i role_id") (auto simp: act_bind_def act_lift_def act_raise_def act_return_def)
      qed
      then show ?thesis
      proof (elim disjE exE conjE)
        fix a s1 x
        assume a: "account = Some a" and c: "changed_state (re_casefold env) s (Bind_account i role_id) = Some s1"
          and x: "case role_id of None \<Rightarrow> x = a | Some k \<Rightarrow> \<exists>p. map_of (rs_profiles s) k = Some p \<and> x = a\<lparr>uc_role := rp_base p\<rparr>"
          and m: "act_bind (policy_guard users s1 (Some x) None) (\<lambda>_. act_bind (policy_write env site (next_revision s1)) (\<lambda>_. act_return x)) w3 = (r, w')"
        have "idle (pw_users w3)" using g u' by simp
        from commit_return [OF env this m]
        have "pw_file w' = pw_file w \<and> isl r \<or> committed_change site w w' s1 (Some x) \<and> (isl r \<or> r = Inr x)"
          using f g u' by (auto simp: committed_change_def)
        moreover have "assigned w i role_id s (Some x)"
          using g a x by (auto simp: assigned_def split: option.splits)
        ultimately show ?thesis using s e c by (fastforce simp: change_outcome_def)
      qed simp
    qed
  qed
qed

lemma delete_run:
  assumes env: "re_meddle env = (\<lambda>_ f. f)" and idle: "idle (pw_users w)"
    and run: "policy_delete env site users role_id expected w = (r, w')"
  shows "pw_file w' = pw_file w \<and> isl r \<or> change_outcome env site (Drop_profile role_id) (Some expected) (\<lambda>_ x. x = None) w w'"
  using run unfolding policy_delete_def
proof (cases rule: bindE)
  case (raised e)
  with read_keeps [OF raised(1) env] show ?thesis by simp
next
  case (returned s w1)
  note s = read_stored [OF returned(1) env]
  from returned(2) have "(isl r \<and> w' = w1) \<or> expected = rs_revision s \<and> (\<exists>s1. changed_state (re_casefold env) s (Drop_profile role_id) = Some s1 \<and>
      act_bind (policy_guard users s1 None None) (\<lambda>_. policy_write env site (next_revision s1)) w1 = (r, w'))"
    by (cases rule: bindE) (auto simp: Let_def split: if_splits)
  then show ?thesis
  proof (elim disjE exE conjE)
    fix s1
    assume c: "changed_state (re_casefold env) s (Drop_profile role_id) = Some s1" and e: "expected = rs_revision s"
      and m: "act_bind (policy_guard users s1 None None) (\<lambda>_. policy_write env site (next_revision s1)) w1 = (r, w')"
    from s idle have "idle (pw_users w1)" by simp
    from commit_run [OF env this m] s e c show ?thesis by (fastforce simp: change_outcome_def committed_change_def)
  qed (use s in simp)
qed

lemma guard_change_run:
  assumes env: "re_meddle env = (\<lambda>_ f. f)" and idle: "idle (pw_users w)"
    and run: "guard_account_change env site users account c w = (Inr y, w')"
  shows "\<exists>s. stored env site w = Some s \<and> role_state_ok (re_casefold env) s \<and> pw_file w' = pw_file w \<and> same_view (pw_users w) (pw_users w') \<and>
    (ac_role c = None \<or> map_of (rs_bindings s) (uuid_text (ua_id account)) = None) \<and>
    guarded (accounts (pw_users w)) (active (pw_users w)) s (Some (with_changes c account)) None"
proof -
  from run obtain s w1 where s: "(policy_read env site :: ('u, 'x, role_state) pol) w = (Inr s, w1)"
    and c: "ac_role c = None \<or> map_of (rs_bindings s) (uuid_text (ua_id account)) = None"
    and g: "policy_guard users s (Some (with_changes c account)) None w1 = (Inr y, w')"
    unfolding guard_account_change_def by (auto simp: bind_Inr map_of_eq_None_iff split: if_splits)
  from read_stored [OF s env] guard_run [OF _ g] idle leavesD [OF guard_only g] c show ?thesis by (auto simp: users_only_def)
qed

lemma guard_reset_run:
  assumes env: "re_meddle env = (\<lambda>_ f. f)" and idle: "idle (pw_users w)"
    and run: "guard_credential_reset env site users account w = (Inr y, w')"
  shows "\<exists>s. stored env site w = Some s \<and> role_state_ok (re_casefold env) s \<and> pw_file w' = pw_file w \<and> same_view (pw_users w) (pw_users w') \<and>
    guarded (accounts (pw_users w)) (active (pw_users w)) s None (Some (ua_id account))"
proof -
  from run obtain s w1 where s: "(policy_read env site :: ('u, 'x, role_state) pol) w = (Inr s, w1)" and g: "policy_guard users s None (Some (ua_id account)) w1 = (Inr y, w')"
    unfolding guard_credential_reset_def by (auto simp: bind_Inr)
  from read_stored [OF s env] guard_run [OF _ g] idle leavesD [OF guard_only g] show ?thesis by (auto simp: users_only_def)
qed

end

end
