(* ===== verification/Role_Policy_Users.thy ===== *)
theory Role_Policy_Users
  imports Role_Policy_Guard
begin

text \<open>
  The user registry is the directory that the role policy asks.
\<close>

definition registry_users :: "registry_env \<Rightarrow> user_registry \<Rightarrow> (registry_world, user_registry_exn) user_operations" where
  "registry_users env g = \<lparr>uo_list = registry_list env g, uo_get = registry_get env g, uo_credential_status = credential_status env g\<rparr>"

definition decoded :: "user_row \<Rightarrow> user_account option" where
  "decoded r = (case decode_user r of Inl _ \<Rightarrow> None | Inr u \<Rightarrow> Some u)"

definition accounts_in :: "pystr \<Rightarrow> user_db \<Rightarrow> user_account option list" where
  "accounts_in site d = map decoded (filter (\<lambda>r. ur_site r = site) (db_users d))"

definition active_in :: "pystr \<Rightarrow> user_db \<Rightarrow> user_uuid \<Rightarrow> bool" where
  "active_in site d i \<longleftrightarrow>
     user_by_id site i d \<noteq> None \<and>
     (case credential_of site i d of None \<Rightarrow> False
      | Some c \<Rightarrow> cr_scheme c = ''scrypt-v1'' \<and> cr_kind c = ''password'' \<and> cr_expires_at c = None)"

lemma atomic_tx_closed:
  fixes m :: "'a reg"
  assumes "atomic m" and "tx_closed w" and "m w = (Inr x, w')"
  shows "tx_closed w'"
proof -
  from assms(1) have "secures (sq_db w) (tx_idle (sq_db w)) m tx_closed" by (simp add: atomic_def)
  from securesD [where m = m, OF this _ assms(3)] assms(2) show ?thesis by (simp add: tx_idle_def tx_closed_def)
qed

lemma collect_decoded: "collect (map decode_user rs) = Inr us \<Longrightarrow> map Some us = map decoded rs"
proof (induction rs arbitrary: us)
  case (Cons r rs)
  then show ?case by (cases "decode_user r") (auto simp: decoded_def split: sum.splits)
qed simp

lemma active_pending: "f = expire \<or> f = checked_at t \<Longrightarrow> active_in s (update_pending s i v f d) j = active_in s d j"
  by (cases "credential_of s j d") (auto simp: active_in_def credential_of_pending split: if_splits)

lemma active_expire [simp]: "active_in s (update_pending s i v expire d) = active_in s d"
  by (rule ext) (rule active_pending [of _ undefined], simp)

lemma active_checked [simp]: "active_in s (update_pending s i v (checked_at t) d) = active_in s d"
  by (rule ext) (rule active_pending [of "checked_at t" t], simp)

lemma active_bookkeeping: "bookkeeping g d d' \<Longrightarrow> active_in (ug_site g) d' = active_in (ug_site g) d"
  by (auto simp: bookkeeping_def)

lemma accounts_bookkeeping: "bookkeeping g d d' \<Longrightarrow> accounts_in (ug_site g) d' = accounts_in (ug_site g) d"
  by (auto simp: bookkeeping_def accounts_in_def)

interpretation registry_directory: user_directory "registry_users env g" tx_closed
  "\<lambda>w. accounts_in (ug_site g) (sq_db w)" "\<lambda>w. active_in (ug_site g) (sq_db w)" for env g
proof
  fix u u' :: registry_world and offset limit i rows st y
  assume idle: "tx_closed u"
  {
    assume r: "uo_list (registry_users env g) offset limit u = (Inr rows, u')"
    then have r': "registry_list env g offset limit u = (Inr rows, u')" by (simp add: registry_users_def)
    from effectI [where m = "registry_list env g offset limit", OF r']
    have "sq_db u' = sq_db u \<and> collect (map decode_user (take (nat limit) (drop (nat offset) (filter (\<lambda>r. ur_site r = ug_site g) (db_users (sq_db u)))))) = Inr rows"
      unfolding registry_list_def by (auto elim!: effect_elims split: if_splits)
    with atomic_tx_closed [OF atomic_list idle r'] show "map Some rows = take (nat limit) (drop (nat offset) (accounts_in (ug_site g) (sq_db u))) \<and> tx_closed u' \<and>
        accounts_in (ug_site g) (sq_db u') = accounts_in (ug_site g) (sq_db u) \<and> active_in (ug_site g) (sq_db u') = active_in (ug_site g) (sq_db u)"
      by (auto simp: accounts_in_def take_map drop_map dest: collect_decoded)
  next
    assume r: "uo_credential_status (registry_users env g) i u = (Inr st, u')"
    then have r': "credential_status env g i u = (Inr st, u')" by (simp add: registry_users_def)
    note e = effectI [where m = "credential_status env g i", OF r']
    have "st = Some Active \<longleftrightarrow> active_in (ug_site g) (sq_db u) i"
    proof (cases "user_by_id (ug_site g) i (sq_db u)")
      case None
      with e show ?thesis unfolding credential_status_def
        by (auto elim!: effect_elims simp: user_with_credential_def active_in_def)
    next
      case (Some r)
      with user_by_idD have "ur_id r = i" by blast
      with e Some show ?thesis unfolding credential_status_def
        by (cases "credential_of (ug_site g) i (sq_db u)")
          (auto elim!: effect_elims split: if_splits simp: user_with_credential_def active_in_def)
    qed
    with effect_status [OF e] atomic_tx_closed [OF atomic_status idle r'] active_bookkeeping accounts_bookkeeping
    show "(st = Some Active \<longleftrightarrow> active_in (ug_site g) (sq_db u) i) \<and> tx_closed u' \<and>
        accounts_in (ug_site g) (sq_db u') = accounts_in (ug_site g) (sq_db u) \<and> active_in (ug_site g) (sq_db u') = active_in (ug_site g) (sq_db u)"
      by blast
  next
    assume r: "uo_get (registry_users env g) i u = (Inr y, u')"
    then have r': "registry_get env g i u = (Inr y, u')" by (simp add: registry_users_def)
    note e = effect_get [OF effectI [where m = "registry_get env g i", OF r']]
    have "ua_id a = i \<and> Some a \<in> set (accounts_in (ug_site g) (sq_db u))" if "y = Some a" for a
    proof -
      from that e obtain r where "user_by_id (ug_site g) i (sq_db u) = Some r" "decode_user r = Inr a" by auto
      with user_by_idD [OF this(1)] decode_userD [OF this(2)] show ?thesis
        by (auto simp: accounts_in_def decoded_def intro!: image_eqI [of _ _ r])
    qed
    with e atomic_tx_closed [OF atomic_get idle r']
    show "(\<forall>a. y = Some a \<longrightarrow> ua_id a = i \<and> Some a \<in> set (accounts_in (ug_site g) (sq_db u))) \<and> tx_closed u' \<and>
        accounts_in (ug_site g) (sq_db u') = accounts_in (ug_site g) (sq_db u) \<and> active_in (ug_site g) (sq_db u') = active_in (ug_site g) (sq_db u)"
      by simp
  }
qed

end
