(* ===== verification/Role_Policy_Api.thy ===== *)
theory Role_Policy_Api
  imports Role_Policy_Users Auth_Sessions
begin

text \<open>
  \<open>src/src/k5vision/operator_role_policy_api.py\<close>, and \<open>authenticate\<close> of \<open>operator_product_api.py\<close>: the
  routes that create, change, assign and delete role profiles, over the policy, the registry and the
  sessions of one application. A route is the body of its handler, which runs under the lock
  \<open>mutations\<close>; the frame of FastAPI around it, cookies and headers are not modelled.
\<close>

section \<open>The application\<close>

record admin_env =
  ae_users :: registry_env
  ae_roles :: role_env
  ae_registry :: user_registry

record admin_world =
  aw_policy :: "registry_world policy_world"
  aw_sessions :: session_manager
  aw_revoked :: "user_uuid list"

abbreviation ae_site :: "admin_env \<Rightarrow> pystr" where
  "ae_site e \<equiv> ug_site (ae_registry e)"

abbreviation ae_directory :: "admin_env \<Rightarrow> (registry_world, user_registry_exn) user_operations" where
  "ae_directory e \<equiv> registry_users (ae_users e) (ae_registry e)"

datatype api_exn =
    Http int string
  | Api_Exn "user_registry_exn role_policy_exn"
  | Api_AttributeError
  | Api_CancelledError

type_synonym 'a api = "(admin_world, api_exn, 'a) act"

definition on_policy :: "(registry_world, user_registry_exn, 'a) pol \<Rightarrow> 'a api" where
  "on_policy m w =
     (case m (aw_policy w) of
        (Inr x, p) \<Rightarrow> (Inr x, w\<lparr>aw_policy := p\<rparr>)
      | (Inl Sqlite_Error, p) \<Rightarrow> (Inl Sqlite_Error, w\<lparr>aw_policy := p\<rparr>)
      | (Inl (Exn e), p) \<Rightarrow> (Inl (Exn (Api_Exn e)), w\<lparr>aw_policy := p\<rparr>))"

definition on_registry :: "'a reg \<Rightarrow> 'a api" where
  "on_registry m = on_policy (on_users m)"

definition revoke_sessions :: "user_uuid \<Rightarrow> unit api" where
  "revoke_sessions u = act_update (\<lambda>w. w\<lparr>aw_sessions := snd (session_revoke_user u (aw_sessions w)), aw_revoked := aw_revoked w @ [u]\<rparr>)"

text \<open>\<open>except E as error: raise g(error)\<close>.\<close>

definition api_except :: "(api_exn \<Rightarrow> api_exn option) \<Rightarrow> 'a api \<Rightarrow> 'a api" where
  "api_except g m =
     act_catch m (\<lambda>e. case e of Exn x \<Rightarrow> act_raise (case g x of None \<Rightarrow> x | Some y \<Rightarrow> y) | Sqlite_Error \<Rightarrow> act_reraise e)"

section \<open>Permissions\<close>

definition effective_permissions :: "admin_env \<Rightarrow> user_account \<Rightarrow> pystr list api" where
  "effective_permissions e account =
     api_except (\<lambda>x. case x of Api_Exn (RolePolicyError _) \<Rightarrow> Some (Http 503 ''roles_unavailable'') | _ \<Rightarrow> None)
       (on_policy (policy_permissions (ae_roles e) (ae_site e) account))"

definition require_permission :: "admin_env \<Rightarrow> user_account \<Rightarrow> pystr \<Rightarrow> unit api" where
  "require_permission e account permission =
     act_bind (effective_permissions e account) (\<lambda>ps.
     if permission \<notin> set ps then act_raise (Http 403 ''Insufficient operator permission'') else act_return ())"

definition require_grant :: "admin_env \<Rightarrow> user_account \<Rightarrow> pystr list \<Rightarrow> unit api" where
  "require_grant e actor permissions =
     act_bind (effective_permissions e actor) (\<lambda>ps.
     if \<not> set permissions \<subseteq> set ps then act_raise (Http 403 ''Insufficient authority'') else act_return ())"

text \<open>\<open>authenticate\<close>, after the session has been resolved to its principal.\<close>

definition unauthorized :: "'a api" where
  "unauthorized = act_raise (Http 401 ''unauthorized'')"

definition authenticate :: "admin_env \<Rightarrow> pystr option \<Rightarrow> user_account \<Rightarrow> user_account api" where
  "authenticate e permission who =
     act_bind (api_except (\<lambda>x. if x = Api_Exn (Policy_Users UserRegistryStorageError) then Some (Http 503 ''Operator identity unavailable'') else None)
       (act_bind (on_registry (registry_get (ae_users e) (ae_registry e) (ua_id who))) (\<lambda>current.
        case current of
          None \<Rightarrow> act_return (None, False)
        | Some u \<Rightarrow> act_bind (on_registry (credential_status (ae_users e) (ae_registry e) (ua_id u))) (\<lambda>st.
            act_return (Some u, st = Some Active))))) (\<lambda>(current, credential_active).
     case current of
       None \<Rightarrow> unauthorized
     | Some u \<Rightarrow>
         if \<not> uc_enabled u \<or> uc_role u \<noteq> uc_role who \<or> \<not> credential_active then unauthorized
         else act_bind (case permission of None \<Rightarrow> act_return () | Some p \<Rightarrow> require_permission e u p) (\<lambda>_. act_return u))"

text \<open>\<open>request_permission\<close>: the permission that the path of a request needs before its handler runs.\<close>

fun split_on :: "nat \<Rightarrow> pystr \<Rightarrow> pystr list" where
  "split_on c [] = [[]]"
| "split_on c (x # xs) = (if x = c then [] # split_on c xs else (case split_on c xs of [] \<Rightarrow> [[x]] | y # ys \<Rightarrow> (x # y) # ys))"

definition admin_sections :: "(pystr \<times> pystr) list" where
  "admin_sections = map (\<lambda>(a, b). (py a, py b))
     [(''users'', ''users.manage''), (''roles'', ''roles.manage''), (''audit'', ''audit.read''), (''activity'', ''audit.read''),
      (''storage'', ''storage.manage''), (''time'', ''time.manage''), (''integrations'', ''integrations.manage''),
      (''identity'', ''users.manage''), (''sso'', ''users.manage'')]"

definition camera_permission :: "pystr list \<Rightarrow> bool \<Rightarrow> pystr option" where
  "camera_permission parts safe =
     (let operation = (if 3 \<le> length parts then Some (parts ! 2) else None) in
      if operation = Some (py ''exports'') then Some (py ''cameras.export'')
      else if operation \<in> Some ` {py ''history'', py ''events'', py ''integration-events''} then Some (py ''cameras.playback'')
      else if operation = Some (py ''person-view'') then Some (py ''cameras.view_live'')
      else if operation = Some (py ''recording'') then Some (py ''recording.manage'')
      else if operation = Some (py ''time'') then Some (py ''time.manage'')
      else if operation = Some (py ''analytics'') \<and> \<not> safe then Some (py ''analytics.manage'')
      else if \<not> safe \<and> (length parts = 1 \<or> last parts \<noteq> py ''media-session'') then Some (py ''cameras.manage'')
      else None)"

definition request_permission :: "pystr \<Rightarrow> pystr \<Rightarrow> pystr option" where
  "request_permission path req_method =
     (let base = py ''/api/v1/operator/'' in
      if take (length base) path \<noteq> base then None else
      let relative = strip_where (\<lambda>c. c = 47) (drop (length base) path) in
      let parts = split_on 47 relative in
      if take 6 relative = py ''admin/'' then
        (if take 13 (rev relative) = rev (py ''/role-profile'') then Some (py ''roles.manage'')
         else map_of admin_sections (parts ! 1))
      else if hd parts = py ''cameras'' \<and> camera_permission parts (req_method \<in> {py ''GET'', py ''HEAD''}) \<noteq> None
      then camera_permission parts (req_method \<in> {py ''GET'', py ''HEAD''})
      else if relative \<in> {py ''camera-discovery'', py ''camera-profiles'', py ''camera-stream-probe''} then Some (py ''cameras.manage'')
      else None)"

section \<open>Requests\<close>

text \<open>\<open>_Role\<close>: pydantic strips every text of the model.\<close>

record role_request =
  rq_name :: pystr
  rq_description :: pystr
  rq_base :: user_role
  rq_permissions :: "pystr list"

definition mk_role_request :: "pystr \<Rightarrow> pystr \<Rightarrow> user_role \<Rightarrow> pystr list \<Rightarrow> validation_error + role_request" where
  "mk_role_request name description base ps =
     (let n = trim name; d = trim description; qs = map trim ps in
      if 1 \<le> len n \<and> len n \<le> 64 \<and> len d \<le> 256 \<and> len qs \<le> 12 \<and> distinct qs \<and> set qs \<subseteq> set (BASE_PERMISSIONS base) \<and>
         list_all (\<lambda>c. 32 \<le> c) (n @ d)
      then Inr \<lparr>rq_name = n, rq_description = d, rq_base = base, rq_permissions = qs\<rparr> else Inl ValidationError)"

text \<open>\<open>payload.model_dump()\<close>.\<close>

definition request_pairs :: "role_request \<Rightarrow> (pystr \<times> json) list" where
  "request_pairs q =
     [(py ''name'', JStr (rq_name q)), (py ''description'', JStr (rq_description q)),
      (py ''base_role'', JStr (py (role_value (rq_base q)))), (py ''permissions'', JList (map JStr (rq_permissions q)))]"

section \<open>Routes\<close>

text \<open>\<open>failure\<close>, and the \<open>except\<close> clauses of the handlers.\<close>

fun role_policy_status :: "role_policy_error_code \<Rightarrow> int \<times> string" where
  "role_policy_status Roles_not_found = (404, ''roles_not_found'')"
| "role_policy_status Roles_user_not_found = (404, ''roles_user_not_found'')"
| "role_policy_status Roles_revision_conflict = (409, ''roles_revision_conflict'')"
| "role_policy_status Roles_in_use = (409, ''roles_in_use'')"
| "role_policy_status Roles_last_administrator = (409, ''roles_last_administrator'')"
| "role_policy_status Roles_profile_bound = (409, ''roles_profile_bound'')"
| "role_policy_status Roles_base_immutable = (409, ''roles_base_immutable'')"
| "role_policy_status Roles_name_exists = (409, ''roles_name_exists'')"
| "role_policy_status Roles_capacity = (409, ''roles_capacity'')"
| "role_policy_status Roles_unavailable = (503, ''roles_unavailable'')"

fun role_failure :: "api_exn \<Rightarrow> api_exn" where
  "role_failure (Api_Exn (RolePolicyError c)) = Http (fst (role_policy_status c)) (snd (role_policy_status c))"
| "role_failure (Api_Exn (Policy_Users UserRegistryLastAdministratorError)) = Http 409 ''roles_last_administrator''"
| "role_failure (Api_Exn (Policy_Users (Registry_Raw x))) =
     (if is_value_error (Registry_Raw x) then Http 422 ''roles_invalid_request'' else Http 503 ''roles_unavailable'')"
| "role_failure (Api_Exn Policy_ValueError) = Http 422 ''roles_invalid_request''"
| "role_failure x = Http 503 ''roles_unavailable''"

fun is_policy_or_storage :: "api_exn \<Rightarrow> bool" where
  "is_policy_or_storage (Api_Exn (RolePolicyError _)) = True"
| "is_policy_or_storage (Api_Exn (Policy_Users UserRegistryStorageError)) = True"
| "is_policy_or_storage x = False"

fun is_api_value_error :: "api_exn \<Rightarrow> bool" where
  "is_api_value_error (Api_Exn Policy_ValueError) = True"
| "is_api_value_error (Api_Exn (Policy_Users x)) = is_value_error x"
| "is_api_value_error x = False"

definition role_except :: "(api_exn \<Rightarrow> bool) \<Rightarrow> 'a api \<Rightarrow> 'a api" where
  "role_except caught = api_except (\<lambda>x. if caught x then Some (role_failure x) else None)"

abbreviation role_not_found :: "'a api" where
  "role_not_found \<equiv> act_raise (Api_Exn (RolePolicyError Roles_not_found))"

text \<open>The routes begin with \<open>actor(session)\<close>: authentication, then \<open>roles.manage\<close>.\<close>

definition role_actor :: "admin_env \<Rightarrow> pystr option \<Rightarrow> user_account \<Rightarrow> user_account api" where
  "role_actor e permission who =
     act_bind (authenticate e permission who) (\<lambda>current.
     act_bind (require_permission e current (py ''roles.manage'')) (\<lambda>_. act_return current))"

definition snapshot_api :: "admin_env \<Rightarrow> role_snapshot api" where
  "snapshot_api e = on_policy (policy_snapshot (ae_roles e) (ae_site e))"

definition list_roles :: "admin_env \<Rightarrow> pystr option \<Rightarrow> user_account \<Rightarrow> role_snapshot api" where
  "list_roles e permission who =
     act_bind (role_actor e permission who) (\<lambda>_.
     role_except (\<lambda>x. case x of Api_Exn (RolePolicyError _) \<Rightarrow> True | _ \<Rightarrow> False) (snapshot_api e))"

definition create_role :: "admin_env \<Rightarrow> pystr option \<Rightarrow> user_account \<Rightarrow> role_request \<Rightarrow> (role_profile \<times> role_snapshot) api" where
  "create_role e permission who payload =
     act_bind (role_actor e permission who) (\<lambda>current.
     role_except (\<lambda>x. is_policy_or_storage x \<or> is_api_value_error x)
      (act_bind (require_grant e current (rq_permissions payload)) (\<lambda>_.
       act_bind (on_policy (policy_upsert (ae_roles e) (ae_site e) (ae_directory e) (request_pairs payload) None None)) (\<lambda>role.
       act_bind (snapshot_api e) (\<lambda>snap. act_return (role, snap))))))"

text \<open>\<open>UUID(user)\<close> of a canonical text.\<close>

definition hex_value :: "nat \<Rightarrow> int" where
  "hex_value c = (if c < 58 then int c - 48 else int c - 87)"

definition text_uuid :: "pystr \<Rightarrow> user_uuid" where
  "text_uuid s = foldl (\<lambda>n c. 16 * n + hex_value c) 0 (filter (\<lambda>c. c \<noteq> 45) s)"

fun revoke_all :: "pystr list \<Rightarrow> unit api" where
  "revoke_all [] = act_return ()"
| "revoke_all (u # us) = act_bind (revoke_sessions (text_uuid u)) (\<lambda>_. revoke_all us)"

definition revoke_bound :: "admin_env \<Rightarrow> pystr \<Rightarrow> unit api" where
  "revoke_bound e role_id = act_bind (on_policy (bound_user_ids (ae_roles e) (ae_site e) role_id)) revoke_all"

definition role_named :: "pystr \<Rightarrow> role_snapshot \<Rightarrow> role_profile option" where
  "role_named role_id snap = find (\<lambda>r. rp_id r = role_id) (ro_roles snap)"

definition update_role :: "admin_env \<Rightarrow> pystr option \<Rightarrow> user_account \<Rightarrow> user_uuid \<Rightarrow> role_request \<Rightarrow> int \<Rightarrow> (role_profile \<times> role_snapshot) api" where
  "update_role e permission who role_id payload expected =
     act_bind (role_actor e permission who) (\<lambda>current.
     role_except (\<lambda>x. is_policy_or_storage x \<or> is_api_value_error x)
      (act_bind (snapshot_api e) (\<lambda>snap.
       case role_named (uuid_text role_id) snap of
         None \<Rightarrow> role_not_found
       | Some previous \<Rightarrow>
           act_bind (require_grant e current (rp_permissions previous)) (\<lambda>_.
           act_bind (require_grant e current (rq_permissions payload)) (\<lambda>_.
           act_bind (on_policy (policy_upsert (ae_roles e) (ae_site e) (ae_directory e) (request_pairs payload) (Some (uuid_text role_id)) (Some expected))) (\<lambda>role.
           act_bind (revoke_bound e (uuid_text role_id)) (\<lambda>_.
           act_bind (snapshot_api e) (\<lambda>after. act_return (role, after)))))))))"

definition delete_role :: "admin_env \<Rightarrow> pystr option \<Rightarrow> user_account \<Rightarrow> user_uuid \<Rightarrow> int \<Rightarrow> unit api" where
  "delete_role e permission who role_id expected =
     act_bind (role_actor e permission who) (\<lambda>current.
     role_except is_policy_or_storage
      (act_bind (snapshot_api e) (\<lambda>snap.
       case role_named (uuid_text role_id) snap of
         None \<Rightarrow> role_not_found
       | Some previous \<Rightarrow>
           act_bind (require_grant e current (rp_permissions previous)) (\<lambda>_.
           on_policy (policy_delete (ae_roles e) (ae_site e) (ae_directory e) (uuid_text role_id) expected)))))"

text \<open>What a binding may grant: the permissions of the profile, or without one those of the base role.\<close>

definition binding_grant :: "user_account \<Rightarrow> role_profile option \<Rightarrow> pystr list" where
  "binding_grant target profile = (case profile of None \<Rightarrow> BASE_PERMISSIONS (uc_role target) | Some p \<Rightarrow> rp_permissions p)"

text \<open>The part of \<open>assign_role\<close> after the policy has been changed: the account takes over the base role.\<close>

definition apply_base_role :: "admin_env \<Rightarrow> user_account \<Rightarrow> user_uuid \<Rightarrow> user_account \<Rightarrow> user_account api" where
  "apply_base_role e current user_id replacement =
     act_bind (on_registry (registry_get (ae_users e) (ae_registry e) user_id)) (\<lambda>account.
     case account of
       None \<Rightarrow> act_raise Api_AttributeError
     | Some a \<Rightarrow>
         if uc_role a \<noteq> uc_role replacement then
           act_bind (on_registry (registry_update (ae_users e) (ae_registry e) user_id
             \<lparr>up_display_name = None, up_role = Some (uc_role replacement), up_enabled = None\<rparr> (uc_username current) None)) (\<lambda>b.
           act_bind (revoke_sessions user_id) (\<lambda>_.
           case b of None \<Rightarrow> act_raise Api_AttributeError | Some b \<Rightarrow> act_return b))
         else act_bind (revoke_sessions user_id) (\<lambda>_. act_return a))"

definition assign_role :: "admin_env \<Rightarrow> pystr option \<Rightarrow> user_account \<Rightarrow> user_uuid \<Rightarrow> user_uuid option \<Rightarrow> int option \<Rightarrow>
    (user_account \<times> (pystr option \<times> pystr list) \<times> int) api" where
  "assign_role e permission who user_id role_id expected =
     act_bind (role_actor e permission who) (\<lambda>current.
     role_except (\<lambda>x. is_policy_or_storage x \<or> is_api_value_error x \<or> x = Api_Exn (Policy_Users UserRegistryLastAdministratorError))
      (act_bind (on_registry (registry_get (ae_users e) (ae_registry e) user_id)) (\<lambda>target.
       case target of
         None \<Rightarrow> act_raise (Api_Exn (RolePolicyError Roles_user_not_found))
       | Some target \<Rightarrow>
           act_bind (effective_permissions e target) (\<lambda>held.
           act_bind (require_grant e current held) (\<lambda>_.
           act_bind (snapshot_api e) (\<lambda>snap.
           let profile = Option.bind (map_option uuid_text role_id) (\<lambda>i. role_named i snap) in
           if role_id \<noteq> None \<and> profile = None then role_not_found else
           act_bind (require_grant e current (binding_grant target profile)) (\<lambda>_.
           act_bind (on_policy (policy_assign (ae_roles e) (ae_site e) (ae_directory e) user_id (map_option uuid_text role_id) expected)) (\<lambda>replacement.
           act_bind (apply_base_role e current user_id replacement) (\<lambda>account.
           act_bind (on_policy (account_fields (ae_roles e) (ae_site e) account)) (\<lambda>fields_of.
           act_bind (snapshot_api e) (\<lambda>after.
           act_return (account, fields_of, ro_revision after))))))))))))"

end
