(* ===== verification/Operator_Admin.thy ===== *)
theory Operator_Admin
  imports Role_Policy_Api
begin

text \<open>
  \<open>src/src/k5vision/operator_admin_api.py\<close>: the account routes of the workspace. Each does its durable
  work (\<open>write_user\<close>, \<open>update_camera_access\<close>, \<open>write_reset\<close>) and then ends the sessions whose authority
  changed; a client that goes away does not stop either (\<open>_complete_critical\<close>). The device registry's
  answers to \<open>policy\<close> are the environment.
\<close>

record account_env = admin_env +
  an_camera_known :: "nat \<Rightarrow> user_uuid \<Rightarrow> bool option"

abbreviation to_admin :: "account_env \<Rightarrow> admin_env" where
  "to_admin e \<equiv> admin_env.truncate e"

section \<open>Requests\<close>

text \<open>\<open>_CameraAccess\<close>, \<open>_CreateUser\<close> and \<open>_UpdateUser\<close>; the account part of a creation is a \<open>UserCreate\<close>.\<close>

definition mk_camera_request :: "string \<Rightarrow> user_uuid list \<Rightarrow> validation_error + camera_access" where
  "mk_camera_request mode ids =
     (if mode \<in> {''all'', ''selected''} \<and> len ids \<le> 64 \<and> distinct ids \<and> \<not> (mode = ''all'' \<and> ids \<noteq> [])
      then Inr \<lparr>cx_mode = mode, cx_camera_ids = ids\<rparr> else Inl ValidationError)"

record update_request =
  uq_fields :: account_change
  uq_camera_access :: "camera_access option"

definition no_fields :: "account_change \<Rightarrow> bool" where
  "no_fields c \<longleftrightarrow> ac_display_name c = None \<and> ac_role c = None \<and> ac_enabled c = None"

definition mk_update_request :: "pystr option \<Rightarrow> user_role option \<Rightarrow> bool option \<Rightarrow> camera_access option \<Rightarrow> validation_error + update_request" where
  "mk_update_request name role enabled access =
     (let n = map_option trim name; c = \<lparr>ac_display_name = n, ac_role = role, ac_enabled = enabled\<rparr> in
      if (case name of None \<Rightarrow> True | Some d \<Rightarrow> check_display_name d = Inr (trim d)) \<and> \<not> (no_fields c \<and> access = None)
      then Inr \<lparr>uq_fields = c, uq_camera_access = access\<rparr> else Inl ValidationError)"

section \<open>Errors\<close>

fun registry_error :: "api_exn \<Rightarrow> api_exn" where
  "registry_error (Api_Exn (RolePolicyError c)) =
     (if c \<in> {Roles_last_administrator, Roles_profile_bound} then Http 409 (snd (role_policy_status c)) else Http 503 ''roles_unavailable'')"
| "registry_error (Api_Exn (Policy_Users UserRegistryLastAdministratorError)) = Http 409 ''admin_last_administrator''"
| "registry_error (Api_Exn (Policy_Users UserRegistryCapacityError)) = Http 409 ''admin_capacity''"
| "registry_error (Api_Exn (Policy_Users UserRegistryConflictError)) = Http 409 ''admin_username_exists''"
| "registry_error (Api_Exn (Policy_Users (Registry_Raw x))) =
     (if is_value_error (Registry_Raw x) then Http 422 ''admin_invalid_request'' else Http 503 ''admin_unavailable'')"
| "registry_error (Api_Exn Policy_ValueError) = Http 422 ''admin_invalid_request''"
| "registry_error x = Http 503 ''admin_unavailable''"

definition admin_except :: "user_registry_exn list \<Rightarrow> bool \<Rightarrow> 'a api \<Rightarrow> 'a api" where
  "admin_except caught policy_errors =
     api_except (\<lambda>x. if (case x of Api_Exn (Policy_Users y) \<Rightarrow> y \<in> set caught \<or> is_value_error y
         | Api_Exn Policy_ValueError \<Rightarrow> True | Api_Exn (RolePolicyError _) \<Rightarrow> policy_errors | _ \<Rightarrow> False)
       then Some (registry_error x) else None)"

section \<open>Helpers\<close>

definition registry_call :: "account_env \<Rightarrow> (registry_env \<Rightarrow> user_registry \<Rightarrow> 'a reg) \<Rightarrow> 'a api" where
  "registry_call e m = on_registry (m (ae_users e) (ae_registry e))"

definition storage_shield :: "'a api \<Rightarrow> 'a api" where
  "storage_shield = api_except (\<lambda>x. if x = Api_Exn (Policy_Users UserRegistryStorageError) then Some (Http 503 ''admin_unavailable'') else None)"

definition admin_target :: "account_env \<Rightarrow> user_uuid \<Rightarrow> user_account api" where
  "admin_target e i =
     act_bind (storage_shield (registry_call e (\<lambda>env g. registry_get env g i))) (\<lambda>account.
     case account of None \<Rightarrow> act_raise (Http 404 ''admin_user_not_found'') | Some a \<Rightarrow> act_return a)"

fun cameras_known :: "account_env \<Rightarrow> user_uuid list \<Rightarrow> unit api" where
  "cameras_known e [] = act_return ()"
| "cameras_known e (i # is) =
     act_bind (act_get (\<lambda>w. sq_tick (pw_users (aw_policy w)))) (\<lambda>n.
     case an_camera_known e n i of
       None \<Rightarrow> act_raise (Http 503 ''admin_unavailable'')
     | Some False \<Rightarrow> act_raise (Http 422 ''admin_invalid_request'')
     | Some True \<Rightarrow> cameras_known e is)"

text \<open>\<open>policy(value, role)\<close>.\<close>

definition camera_policy :: "account_env \<Rightarrow> camera_access option \<Rightarrow> user_role \<Rightarrow> camera_access_arg api" where
  "camera_policy e value role =
     (let access = (case value of Some a \<Rightarrow> a
        | None \<Rightarrow> \<lparr>cx_mode = (if role = ADMINISTRATOR then ''all'' else ''selected''), cx_camera_ids = []\<rparr>)
      in if role = ADMINISTRATOR \<and> cx_mode access \<noteq> ''all'' then act_raise (Http 422 ''admin_invalid_request'')
         else act_bind (cameras_known e (cx_camera_ids access)) (\<lambda>_.
           act_return \<lparr>ca_mode = Inst (cx_mode access), ca_camera_ids = Inst (map Inst (cx_camera_ids access))\<rparr>))"

definition access_identity :: "camera_access \<Rightarrow> string \<times> user_uuid set" where
  "access_identity a = (cx_mode a, set (cx_camera_ids a))"

text \<open>\<open>row(account)\<close>: the account with its role profile, credential state and grants.\<close>

definition account_row :: "account_env \<Rightarrow> user_account \<Rightarrow>
    (user_account \<times> (pystr option \<times> pystr list) \<times> credential_state option \<times> camera_access) api" where
  "account_row e account =
     act_bind (registry_call e (\<lambda>env g. get_camera_access env g (ua_id account))) (\<lambda>access.
     case access of
       None \<Rightarrow> act_raise (Http 404 ''admin_user_not_found'')
     | Some access \<Rightarrow>
         act_bind (on_policy (account_fields (ae_roles e) (ae_site (to_admin e)) account)) (\<lambda>role_fields.
         act_bind (registry_call e (\<lambda>env g. credential_status env g (ua_id account))) (\<lambda>st.
         act_return (account, role_fields, st, access))))"

section \<open>The durable work\<close>

definition create_user_work :: "account_env \<Rightarrow> user_account \<Rightarrow> user_create \<Rightarrow> camera_access option \<Rightarrow> (user_account \<times> pystr \<times> int) api" where
  "create_user_work e actor request camera =
     act_bind (require_grant (to_admin e) actor (BASE_PERMISSIONS (uc_role request))) (\<lambda>_.
     act_bind (camera_policy e camera (uc_role request)) (\<lambda>access.
     act_bind (registry_call e (\<lambda>env g. create_with_bootstrap env g request (uc_username actor) 900 (Some (Inst access)))) (\<lambda>issued.
     act_bind (account_row e (fst issued)) (\<lambda>_. act_return issued))))"

definition patch_of :: "account_change \<Rightarrow> user_patch" where
  "patch_of c = \<lparr>up_display_name = ac_display_name c, up_role = ac_role c, up_enabled = ac_enabled c\<rparr>"

text \<open>The last clause of \<open>changed_authority\<close> reads the grants again; a missing grant raises \<open>TypeError\<close> there.\<close>

definition camera_changed :: "account_env \<Rightarrow> user_uuid \<Rightarrow> camera_access option \<Rightarrow> bool api" where
  "camera_changed e i previous =
     act_bind (registry_call e (\<lambda>env g. get_camera_access env g i)) (\<lambda>now.
     case (now, previous) of
       (Some a, Some b) \<Rightarrow> act_return (access_identity a \<noteq> access_identity b)
     | _ \<Rightarrow> act_raise Api_AttributeError)"

definition update_user_work :: "account_env \<Rightarrow> user_account \<Rightarrow> user_uuid \<Rightarrow> update_request \<Rightarrow> (user_account \<times> bool) api" where
  "update_user_work e actor user_id payload =
     act_bind (admin_target e user_id) (\<lambda>previous.
     act_bind (effective_permissions (to_admin e) previous) (\<lambda>held.
     act_bind (require_grant (to_admin e) actor held) (\<lambda>_.
     act_bind (case ac_role (uq_fields payload) of None \<Rightarrow> act_return ()
       | Some r \<Rightarrow> require_grant (to_admin e) actor (BASE_PERMISSIONS r)) (\<lambda>_.
     act_bind (case uq_camera_access payload of None \<Rightarrow> act_return None
       | Some a \<Rightarrow> act_bind (camera_policy e (Some a) (case ac_role (uq_fields payload) of None \<Rightarrow> uc_role previous | Some r \<Rightarrow> r))
           (\<lambda>x. act_return (Some x))) (\<lambda>access.
     act_bind (registry_call e (\<lambda>env g. get_camera_access env g user_id)) (\<lambda>previous_access.
     act_bind (on_policy (guard_account_change (ae_roles e) (ae_site (to_admin e)) (ae_directory (to_admin e)) previous (uq_fields payload))) (\<lambda>_.
     act_bind
      (if \<not> no_fields (uq_fields payload) then
         registry_call e (\<lambda>env g. registry_update env g user_id (patch_of (uq_fields payload)) (uc_username actor) (map_option Inst access))
       else act_bind (registry_call e (\<lambda>env g. set_camera_access env g user_id (the access) (uc_username actor)))
           (\<lambda>_. act_return (Some previous))) (\<lambda>account.
     case account of
       None \<Rightarrow> act_raise (Http 404 ''admin_user_not_found'')
     | Some account \<Rightarrow>
         act_bind (if uc_role account \<noteq> uc_role previous \<or> uc_enabled account \<noteq> uc_enabled previous then act_return True
           else camera_changed e user_id previous_access) (\<lambda>changed.
         act_return (account, changed))))))))))"

definition camera_access_work :: "account_env \<Rightarrow> user_account \<Rightarrow> user_uuid \<Rightarrow> camera_access \<Rightarrow> bool api" where
  "camera_access_work e actor user_id payload =
     act_bind (admin_target e user_id) (\<lambda>account.
     act_bind (effective_permissions (to_admin e) account) (\<lambda>held.
     act_bind (require_grant (to_admin e) actor held) (\<lambda>_.
     act_bind (camera_policy e (Some payload) (uc_role account)) (\<lambda>access.
     act_bind (registry_call e (\<lambda>env g. get_camera_access env g user_id)) (\<lambda>previous.
     act_bind (registry_call e (\<lambda>env g. set_camera_access env g user_id access (uc_username actor))) (\<lambda>_.
     case previous of
       None \<Rightarrow> act_raise Api_AttributeError
     | Some b \<Rightarrow> act_bind (account_row e account) (\<lambda>_. act_return (access_identity b \<noteq> access_identity payload))))))))"

definition reset_work :: "account_env \<Rightarrow> user_account \<Rightarrow> user_uuid \<Rightarrow> (user_account \<times> pystr \<times> int) api" where
  "reset_work e actor user_id =
     act_bind (admin_target e user_id) (\<lambda>account.
     act_bind (effective_permissions (to_admin e) account) (\<lambda>held.
     act_bind (require_grant (to_admin e) actor held) (\<lambda>_.
     act_bind (admin_target e user_id) (\<lambda>again.
     act_bind (on_policy (guard_credential_reset (ae_roles e) (ae_site (to_admin e)) (ae_directory (to_admin e)) again)) (\<lambda>_.
     act_bind (registry_call e (\<lambda>env g. reset_bootstrap env g user_id (uc_username actor) 900)) (\<lambda>result.
     case result of None \<Rightarrow> act_raise (Http 404 ''admin_user_not_found'') | Some x \<Rightarrow> act_return x))))))"

section \<open>Routes\<close>

text \<open>\<open>current_admin\<close> and \<open>mutation_admin\<close>; \<open>retry\<close> is the answer of the rate limiter.\<close>

definition current_admin :: "account_env \<Rightarrow> pystr option \<Rightarrow> user_account \<Rightarrow> user_account api" where
  "current_admin e permission who =
     act_bind (authenticate (to_admin e) permission who) (\<lambda>current.
     if ua_id current \<noteq> ua_id who \<or> uc_role current \<noteq> ADMINISTRATOR
     then act_raise (Http 403 ''Insufficient user administration permission'') else act_return current)"

definition mutation_admin :: "account_env \<Rightarrow> int option \<Rightarrow> pystr option \<Rightarrow> user_account \<Rightarrow> user_account api" where
  "mutation_admin e retry permission who =
     (if retry \<noteq> None then act_raise (Http 429 ''admin_rate_limit'') else current_admin e permission who)"

definition create_user_route :: "account_env \<Rightarrow> int option \<Rightarrow> pystr option \<Rightarrow> user_account \<Rightarrow> user_create \<Rightarrow> camera_access option \<Rightarrow>
    (user_account \<times> pystr \<times> int) api" where
  "create_user_route e retry permission who request camera =
     act_bind (mutation_admin e retry permission who) (\<lambda>actor.
     admin_except [UserRegistryStorageError, UserRegistryCapacityError, UserRegistryConflictError] False
       (create_user_work e actor request camera))"

text \<open>What follows a committed change; \<open>cancelled\<close> says whether the client went away during the work or the revocation.\<close>

definition end_sessions :: "account_env \<Rightarrow> pystr option \<Rightarrow> user_account \<Rightarrow> user_account \<Rightarrow> user_uuid \<Rightarrow> bool \<Rightarrow> unit api" where
  "end_sessions e permission who actor user_id cancelled =
     act_bind (revoke_sessions user_id) (\<lambda>_.
     if user_id \<noteq> ua_id actor \<and> \<not> cancelled then act_bind (current_admin e permission who) (\<lambda>_. act_return ()) else act_return ())"

definition cancel_if :: "bool \<Rightarrow> unit api" where
  "cancel_if cancelled = act_when cancelled (act_raise Api_CancelledError)"

definition update_user_route :: "account_env \<Rightarrow> int option \<Rightarrow> pystr option \<Rightarrow> user_account \<Rightarrow> user_uuid \<Rightarrow> update_request \<Rightarrow> bool \<Rightarrow> bool \<Rightarrow>
    (user_account \<times> (pystr option \<times> pystr list) \<times> credential_state option \<times> camera_access) api" where
  "update_user_route e retry permission who user_id payload cancelled_work cancelled_revoke =
     act_bind (mutation_admin e retry permission who) (\<lambda>actor.
     admin_except [UserRegistryStorageError, UserRegistryLastAdministratorError, UserRegistryConflictError] True
      (act_bind (update_user_work e actor user_id payload) (\<lambda>(account, changed).
       act_bind (act_when changed (end_sessions e permission who actor user_id (cancelled_work \<or> cancelled_revoke))) (\<lambda>_.
       act_bind (cancel_if (cancelled_work \<or> changed \<and> cancelled_revoke)) (\<lambda>_.
       account_row e account)))))"

definition camera_access_route :: "account_env \<Rightarrow> int option \<Rightarrow> pystr option \<Rightarrow> user_account \<Rightarrow> user_uuid \<Rightarrow> camera_access \<Rightarrow> unit api" where
  "camera_access_route e retry permission who user_id payload =
     act_bind (mutation_admin e retry permission who) (\<lambda>actor.
     admin_except [UserRegistryStorageError] False
      (act_bind (camera_access_work e actor user_id payload) (\<lambda>changed.
       act_when changed (end_sessions e permission who actor user_id False))))"

definition reset_route :: "account_env \<Rightarrow> int option \<Rightarrow> pystr option \<Rightarrow> user_account \<Rightarrow> user_uuid \<Rightarrow> bool \<Rightarrow> bool \<Rightarrow>
    (user_account \<times> pystr \<times> int) api" where
  "reset_route e retry permission who user_id cancelled_work cancelled_revoke =
     act_bind (mutation_admin e retry permission who) (\<lambda>actor.
     admin_except [UserRegistryStorageError, UserRegistryLastAdministratorError] True
      (act_bind (reset_work e actor user_id) (\<lambda>issued.
       act_bind (end_sessions e permission who actor user_id (cancelled_work \<or> cancelled_revoke)) (\<lambda>_.
       act_bind (cancel_if (cancelled_work \<or> cancelled_revoke)) (\<lambda>_.
       act_bind (account_row e (fst issued)) (\<lambda>_. act_return issued))))))"

end
