(* ===== verification/Admin_Frames.thy ===== *)
theory Admin_Frames
  imports Operator_Admin
begin

text \<open>
  What the account and role routes leave alone: reading the policy and the registry changes neither the
  policy's file nor who exists and has a working password.
\<close>

definition env_alone :: "admin_env \<Rightarrow> bool" where
  "env_alone e \<longleftrightarrow> re_meddle (ae_roles e) = (\<lambda>_ f. f)"

abbreviation aw_users :: "admin_world \<Rightarrow> registry_world" where
  "aw_users w \<equiv> pw_users (aw_policy w)"

text \<open>What others see of the accounts.\<close>

definition accounts_of :: "admin_env \<Rightarrow> admin_world \<Rightarrow> user_account option list" where
  "accounts_of e w = accounts_in (ae_site e) (committed (aw_users w))"

definition active_of :: "admin_env \<Rightarrow> admin_world \<Rightarrow> user_uuid \<Rightarrow> bool" where
  "active_of e w = active_in (ae_site e) (committed (aw_users w))"

definition state_of :: "admin_env \<Rightarrow> admin_world \<Rightarrow> role_state option" where
  "state_of e w = stored (ae_roles e) (ae_site e) (aw_policy w)"

definition kept :: "admin_env \<Rightarrow> admin_world \<Rightarrow> admin_world \<Rightarrow> bool" where
  "kept e w w' \<longleftrightarrow> db_users (committed (aw_users w')) = db_users (committed (aw_users w)) \<and> active_of e w' = active_of e w \<and> pw_file (aw_policy w') = pw_file (aw_policy w) \<and>
     aw_revoked w' = aw_revoked w"

lemma kept_refl [simp]: "kept e w w"
  and kept_trans: "kept e w w1 \<Longrightarrow> kept e w1 w2 \<Longrightarrow> kept e w w2"
  by (simp_all add: kept_def)

lemma kept_accounts: "kept e w w' \<Longrightarrow> accounts_of e w' = accounts_of e w"
  by (simp add: kept_def accounts_of_def accounts_in_def)

lemma kept_state: "kept e w w' \<Longrightarrow> state_of e w' = state_of e w"
  by (simp add: kept_def state_of_def stored_def)

definition idle :: "admin_world \<Rightarrow> bool" where
  "idle w \<longleftrightarrow> tx_closed (aw_users w)"

lemma idle_committed: "idle w \<Longrightarrow> committed (aw_users w) = sq_db (aw_users w)"
  by (simp add: idle_def tx_closed_def)

text \<open>A computation that keeps what others see, and leaves no transaction when it returns.\<close>

definition quiet_in :: "('s \<Rightarrow> 's \<Rightarrow> bool) \<Rightarrow> ('s \<Rightarrow> bool) \<Rightarrow> ('s, 'e, 'a) act \<Rightarrow> bool" where
  "quiet_in K I m \<longleftrightarrow> (\<forall>w r w'. I w \<longrightarrow> m w = (r, w') \<longrightarrow> K w w' \<and> (isl r \<or> I w'))"

lemma quietD: "quiet_in K I m \<Longrightarrow> I w \<Longrightarrow> m w = (r, w') \<Longrightarrow> K w w' \<and> (isl r \<or> I w')"
  by (simp add: quiet_in_def)

locale quiet_frame =
  fixes K :: "'s \<Rightarrow> 's \<Rightarrow> bool" and I :: "'s \<Rightarrow> bool"
  assumes refl [simp]: "K w w" and trans: "K w w1 \<Longrightarrow> K w1 w2 \<Longrightarrow> K w w2"
begin

lemma quiet_bind:
  fixes m :: "('s, 'e, 'a) act" and f :: "'a \<Rightarrow> ('s, 'e, 'b) act"
  assumes "quiet_in K I m" and "\<And>x. quiet_in K I (f x)"
  shows "quiet_in K I (act_bind m f)"
  unfolding quiet_in_def
proof (intro allI impI)
  fix w r w'
  assume i: "I w" and "act_bind m f w = (r, w')"
  from this(2) show "K w w' \<and> (isl r \<or> I w')"
  proof (cases rule: bindE)
    case (raised y)
    with quietD [OF assms(1) i raised(1)] show ?thesis by simp
  next
    case (returned x w1)
    from quietD [OF assms(1) i returned(1)] have k: "K w w1" "I w1" by simp_all
    from quietD [OF assms(2) k(2) returned(2)] trans [OF k(1)] show ?thesis by blast
  qed
qed

lemma quiet_return: "quiet_in K I (act_return x)"
  and quiet_raise: "quiet_in K I (act_raise y)"
  and quiet_get: "quiet_in K I (act_get g)"
  and quiet_lift: "quiet_in K I (act_lift z)"
  by (auto simp: quiet_in_def act_lift_def split: sum.splits)

lemma quiet_when: "quiet_in K I m \<Longrightarrow> quiet_in K I (act_when b m)"
  by (auto simp: act_when_def intro: quiet_return)

lemma quiet_if: "quiet_in K I m \<Longrightarrow> quiet_in K I n \<Longrightarrow> quiet_in K I (if b then m else n)"
  by simp

lemma quiet_option: "quiet_in K I m \<Longrightarrow> (\<And>y. quiet_in K I (n y)) \<Longrightarrow> quiet_in K I (case x of None \<Rightarrow> m | Some y \<Rightarrow> n y)"
  by (cases x) simp_all

lemma quiet_prod: "(\<And>y z. quiet_in K I (n y z)) \<Longrightarrow> quiet_in K I (case x of (y, z) \<Rightarrow> n y z)"
  by (cases x) simp

lemmas quiet_intros = quiet_bind quiet_return quiet_raise quiet_get quiet_lift quiet_when quiet_if quiet_option quiet_prod

end

interpretation api_frame: quiet_frame "kept e" idle for e
  by unfold_locales (auto intro: kept_trans)

abbreviation calm :: "admin_env \<Rightarrow> 'a api \<Rightarrow> bool" where
  "calm e \<equiv> quiet_in (kept e) idle"

named_theorems calm_intros \<open>rules for computations that keep the authority\<close>

declare api_frame.quiet_intros [calm_intros]

lemma except_run:
  assumes "api_except g m w = (r, w')"
  obtains r1 where "m w = (r1, w')" and "r = r1 \<or> isl r \<and> isl r1"
proof -
  obtain r1 w1 where m: "m w = (r1, w1)" by fastforce
  with assms have "w' = w1 \<and> (r = r1 \<or> isl r \<and> isl r1)"
    by (auto simp: api_except_def act_catch_def act_reraise_def split: sum.splits raised.splits option.splits)
  with m that show ?thesis by blast
qed

lemma calm_except [calm_intros]: "calm e m \<Longrightarrow> calm e (api_except g m)"
  unfolding quiet_in_def by (metis except_run)

text \<open>On the policy, with nobody else at its file.\<close>

lemma on_policy_run:
  assumes "on_policy m w = (r, w')"
  obtains r1 p where "m (aw_policy w) = (r1, p)" and "w' = w\<lparr>aw_policy := p\<rparr>" and "isl r = isl r1" and "\<And>x. r = Inr x \<longleftrightarrow> r1 = Inr x"
  using assms that by (auto simp: on_policy_def split: prod.splits sum.splits raised.splits)

lemma calm_untouched:
  assumes "env_alone e" and "leaves (untouched (ae_roles e)) m"
  shows "calm e (on_policy m)"
  unfolding quiet_in_def
proof (intro allI impI)
  fix w r w'
  assume i: "idle w" and "on_policy m w = (r, w')"
  then obtain r1 p where "m (aw_policy w) = (r1, p)" "w' = w\<lparr>aw_policy := p\<rparr>" by (auto elim: on_policy_run)
  with leavesD [OF assms(2)] assms(1) i show "kept e w w' \<and> (isl r \<or> idle w')"
    by (auto simp: untouched_def env_alone_def kept_def accounts_of_def active_of_def idle_def)
qed

lemma calm_permissions [calm_intros]: "env_alone e \<Longrightarrow> calm e (effective_permissions e a)"
  and calm_snapshot [calm_intros]: "env_alone e \<Longrightarrow> calm e (snapshot_api e)"
  and calm_fields [calm_intros]: "env_alone e \<Longrightarrow> calm e (on_policy (account_fields (ae_roles e) (ae_site e) a))"
  and calm_bound [calm_intros]: "env_alone e \<Longrightarrow> calm e (on_policy (bound_user_ids (ae_roles e) (ae_site e) i))"
  unfolding effective_permissions_def snapshot_api_def policy_permissions_def policy_snapshot_def account_fields_def bound_user_ids_def
  by (intro calm_except calm_untouched untouched.leaves_intros untouched_read; assumption)+

lemma calm_require_permission [calm_intros]: "env_alone e \<Longrightarrow> calm e (require_permission e a p)"
  and calm_require_grant [calm_intros]: "env_alone e \<Longrightarrow> calm e (require_grant e a ps)"
  unfolding require_permission_def require_grant_def by (intro calm_intros; assumption)+

section \<open>The registry\<close>

lemma on_registry_run:
  assumes "on_registry m w = (r, w')" and "atomic m" and "idle w"
  obtains (raised) "isl r" and "committed (aw_users w') = committed (aw_users w)" and "pw_file (aw_policy w') = pw_file (aw_policy w)"
      and "aw_sessions w' = aw_sessions w" and "aw_revoked w' = aw_revoked w"
    | (returned) x where "r = Inr x" and "effect m (sq_db (aw_users w)) x (sq_db (aw_users w'))" and "idle w'"
      and "pw_file (aw_policy w') = pw_file (aw_policy w)" and "aw_sessions w' = aw_sessions w" and "aw_revoked w' = aw_revoked w"
proof -
  from assms(1) obtain r1 p where p: "on_users m (aw_policy w) = (r1, p)" "w' = w\<lparr>aw_policy := p\<rparr>" "isl r = isl r1" "\<And>x. r = Inr x \<longleftrightarrow> r1 = Inr x"
    unfolding on_registry_def by (rule on_policy_run) blast
  from p(1) obtain r2 u where m: "m (aw_users w) = (r2, u)" "p = (aw_policy w)\<lparr>pw_users := u\<rparr>" "isl r1 = isl r2" "\<And>x. r1 = Inr x \<longleftrightarrow> r2 = Inr x"
    by (auto simp: on_users_def split: prod.splits sum.splits raised.splits)
  show ?thesis
  proof (cases r2)
    case (Inl y)
    with atomic_cases(2) [OF assms(2) m(1)] p m show ?thesis by (intro raised) auto
  next
    case (Inr x)
    with m have "m (aw_users w) = (Inr x, u)" by simp
    from effectI [where m = m, OF this] atomic_tx_closed [OF assms(2) _ this] assms(3) Inr p m
    show ?thesis by (intro returned) (auto simp: idle_def)
  qed
qed

lemma users_bookkeeping: "bookkeeping g d d' \<Longrightarrow> db_users d' = db_users d"
  by (auto simp: bookkeeping_def)

lemma calm_registry:
  assumes "atomic m" and "\<And>d x d'. effect m d x d' \<Longrightarrow> bookkeeping (ae_registry e) d d'"
  shows "calm e (on_registry m)"
  unfolding quiet_in_def
proof (intro allI impI)
  fix w r w'
  assume i: "idle w" and run: "on_registry m w = (r, w')"
  from run assms(1) i show "kept e w w' \<and> (isl r \<or> idle w')"
  proof (cases rule: on_registry_run)
    case raised
    then show ?thesis by (simp add: kept_def accounts_of_def active_of_def)
  next
    case (returned x)
    from users_bookkeeping [OF assms(2) [OF returned(2)]] active_bookkeeping [OF assms(2) [OF returned(2)]] returned i
    show ?thesis by (simp add: kept_def accounts_of_def active_of_def idle_committed)
  qed
qed

lemma calm_user_get [calm_intros]: "calm e (on_registry (registry_get (ae_users e) (ae_registry e) i))"
  using effect_get by (intro calm_registry atomic_get) fastforce

lemma calm_user_status [calm_intros]: "calm e (on_registry (credential_status (ae_users e) (ae_registry e) i))"
  using effect_status by (intro calm_registry atomic_status) blast

lemma calm_user_camera [calm_intros]: "calm e (on_registry (get_camera_access (ae_users e) (ae_registry e) i))"
  using effect_get_camera by (intro calm_registry atomic_get_camera) fastforce

lemma calm_authenticate [calm_intros]: "env_alone e \<Longrightarrow> calm e (authenticate e p a)"
  unfolding authenticate_def unauthorized_def by (intro calm_intros; assumption)

lemma calm_role_actor [calm_intros]: "env_alone e \<Longrightarrow> calm e (role_actor e p a)"
  unfolding role_actor_def by (intro calm_intros; assumption)

lemma truncate_simps [simp]:
  "ae_users (to_admin e) = ae_users e" "ae_roles (to_admin e) = ae_roles e" "ae_registry (to_admin e) = ae_registry e"
  by (simp_all add: admin_env.defs)

lemma calm_registry_get [calm_intros]: "calm (to_admin e) (registry_call e (\<lambda>env g. registry_get env g i))"
  and calm_registry_status [calm_intros]: "calm (to_admin e) (registry_call e (\<lambda>env g. credential_status env g i))"
  and calm_registry_camera [calm_intros]: "calm (to_admin e) (registry_call e (\<lambda>env g. get_camera_access env g i))"
  unfolding registry_call_def
  using calm_user_get [of "to_admin e"] calm_user_status [of "to_admin e"] calm_user_camera [of "to_admin e"] by simp_all

lemma calm_target [calm_intros]: "calm (to_admin e) (admin_target e i)"
  unfolding admin_target_def storage_shield_def by (intro calm_intros)

lemma calm_known [calm_intros]: "calm (to_admin e) (cameras_known e is)"
  by (induction "is") (auto intro!: calm_intros split: option.splits bool.splits)

lemma calm_policy [calm_intros]: "calm (to_admin e) (camera_policy e v r)"
  unfolding camera_policy_def Let_def by (intro calm_intros)

lemma calm_row [calm_intros]: "env_alone (to_admin e) \<Longrightarrow> calm (to_admin e) (account_row e a)"
  unfolding account_row_def using calm_fields [of "to_admin e"] by (auto intro!: calm_intros)

lemma calm_camera_changed [calm_intros]: "calm (to_admin e) (camera_changed e i b)"
  unfolding camera_changed_def by (auto intro!: calm_intros split: option.split)

lemma calm_current_admin [calm_intros]: "env_alone (to_admin e) \<Longrightarrow> calm (to_admin e) (current_admin e p a)"
  unfolding current_admin_def by (intro calm_intros; assumption)

lemma calm_mutation_admin [calm_intros]: "env_alone (to_admin e) \<Longrightarrow> calm (to_admin e) (mutation_admin e t p a)"
  unfolding mutation_admin_def by (intro calm_intros; assumption)

end
