(* ===== verification/Admin_Accounts.thy ===== *)
theory Admin_Accounts
  imports Admin_Frames
begin

text \<open>
  What the changing operations of the registry do to the accounts that the role policy sees.
\<close>

lemma decoded_row_of: "user_create_wf u \<Longrightarrow> decoded (user_row_of site u) = Some u"
  by (simp add: decoded_def decode_user_def user_row_of_def mk_user_account_valid)

lemma decoded_Some: "decoded r = Some u \<longleftrightarrow> decode_user r = Inr u"
  by (auto simp: decoded_def split: sum.splits)

lemma decode_new_fields:
  assumes "decode_user r = Inr cur" and "user_create_wf u" and "ua_id u = ua_id cur" and "uc_username u = uc_username cur"
  shows "decode_user (r\<lparr>ur_display_name := uc_display_name u, ur_role := role_value (uc_role u), ur_enabled := (if uc_enabled u then 1 else 0)\<rparr>) = Inr u"
proof -
  from assms(1) obtain n where "check_username (ur_username r) = Inr n" "uc_username cur = n" "ua_id cur = ur_id r"
    by (auto simp: decode_user_def mk_user_account_def k5_inv split: option.splits)
  with assms show ?thesis
    by (auto simp: decode_user_def mk_user_account_def user_create_wf_def)
qed

lemma accounts_with_fields:
  assumes "unique_users d" and "user_by_id site i d = Some r" and "decode_user r = Inr cur"
    and "user_create_wf u" and "ua_id u = ua_id cur" and "uc_username u = uc_username cur"
  shows "accounts_in site (with_fields site i u d) = map (\<lambda>x. if map_option ua_id x = Some i then Some u else x) (accounts_in site d)"
proof -
  from user_by_idD [OF assms(2)] have r: "r \<in> set (db_users d)" "ur_site r = site" "ur_id r = i" by auto
  have same: "q = r" if "q \<in> set (db_users d)" "ur_site q = site" "ur_id q = i" for q
    using unique_row [OF assms(1) that(1) r(1)] that r by simp
  define h where "h q = q\<lparr>ur_display_name := uc_display_name u, ur_role := role_value (uc_role u), ur_enabled := (if uc_enabled u then 1 else (0::int))\<rparr>" for q :: user_row
  have dh: "decoded (h r) = Some u"
    using decode_new_fields [OF assms(3-6)] by (simp add: decoded_Some h_def)
  have id: "map_option ua_id (decoded q) = Some i \<Longrightarrow> ur_id q = i" for q
    by (auto simp: decoded_Some dest: decode_userD)
  have point: "decoded (if ur_site q = site \<and> ur_id q = i then h q else q) = (if map_option ua_id (decoded q) = Some i then Some u else decoded q)"
    if "q \<in> set (filter (\<lambda>r. ur_site r = site) (db_users d))" for q
  proof (cases "ur_id q = i")
    case True
    with that same have q: "q = r" by auto
    with r decode_userD [OF assms(3)] assms(3) dh show ?thesis by (simp add: decoded_Some)
  next
    case False
    with id show ?thesis by auto
  qed
  define F where "F q = (if ur_site q = site \<and> ur_id q = i then h q else q)" for q
  have "ur_site (F q) = ur_site q" for q by (simp add: F_def h_def)
  then have "filter (\<lambda>r. ur_site r = site) (map F qs) = map F (filter (\<lambda>r. ur_site r = site) qs)" for qs
    by (induction qs) simp_all
  moreover have "db_users (with_fields site i u d) = map F (db_users d)"
    by (simp add: with_fields_def F_def h_def)
  ultimately have "accounts_in site (with_fields site i u d) = map (decoded \<circ> F) (filter (\<lambda>r. ur_site r = site) (db_users d))"
    by (simp add: accounts_in_def)
  also have "\<dots> = map ((\<lambda>x. if map_option ua_id x = Some i then Some u else x) \<circ> decoded) (filter (\<lambda>r. ur_site r = site) (db_users d))"
    using point by (intro map_cong) (simp_all add: F_def)
  finally show ?thesis by (simp add: accounts_in_def)
qed

lemma active_with_fields [simp]: "active_in site (with_fields site i u d) = active_in site d"
proof
  fix j
  define F where "F q = (if ur_site q = site \<and> ur_id q = i
      then q\<lparr>ur_display_name := uc_display_name u, ur_role := role_value (uc_role u), ur_enabled := (if uc_enabled u then 1 else (0::int))\<rparr> else q)" for q :: user_row
  have F: "ur_site (F q) = ur_site q" "ur_id (F q) = ur_id q" for q :: user_row by (simp_all add: F_def)
  have "db_users (with_fields site i u d) = map F (db_users d)"
    by (simp add: with_fields_def F_def)
  then have "user_by_id site j (with_fields site i u d) = None \<longleftrightarrow> user_by_id site j d = None"
    by (auto simp: user_by_id_def find_None_iff F)
  moreover have "credential_of site j (with_fields site i u d) = credential_of site j d"
    by (simp add: credential_of_def with_fields_def)
  ultimately show "active_in site (with_fields site i u d) j = active_in site d j"
    by (simp only: active_in_def)
qed

lemma view_simps [simp]:
  "accounts_in site (with_audit s' i a x fs t d) = accounts_in site d" "active_in site (with_audit s' i a x fs t d) = active_in site d"
  "accounts_in site (with_camera s' i ca d) = accounts_in site d" "active_in site (with_camera s' i ca d) = active_in site d"
  "accounts_in site (with_credential s' i c d) = accounts_in site d"
  by (simp_all add: accounts_in_def active_in_def fun_eq_iff with_audit_def with_camera_def with_credential_def)
    (simp_all add: user_by_id_def credential_of_def)

lemma view_credential:
  "active_in site (with_credential site i c d) j =
    (if j = i then user_by_id site i d \<noteq> None \<and> cr_scheme c = ''scrypt-v1'' \<and> cr_kind c = ''password'' \<and> cr_expires_at c = None else active_in site d j)"
  by (auto simp: active_in_def credential_of_with)

text \<open>An update that returns replaces one account.\<close>

lemma view_update:
  assumes e: "effect (registry_update env g i p a x) d y d'" and u: "unique_users d"
  shows "y = None \<and> d' = d \<or>
    (\<exists>cur u. y = Some u \<and> Some cur \<in> set (accounts_in (ug_site g) d) \<and> ua_id cur = i \<and> patched p cur = Inr u \<and>
      accounts_in (ug_site g) d' = map (\<lambda>x. if map_option ua_id x = Some i then Some u else x) (accounts_in (ug_site g) d) \<and>
      active_in (ug_site g) d' = active_in (ug_site g) d)"
  using effect_update [OF e]
proof (elim disjE exE conjE)
  fix r cur v a' d1
  assume y: "y = Some v" and r: "user_by_id (ug_site g) i d = Some r" "decode_user r = Inr cur" and p: "patched p cur = Inr v"
    and s: "effect (store_changes env g i p cur v a') d () d1" and c: "effect (store_camera env g cur v x a') d1 () d'"
  from user_by_idD [OF r(1)] decode_userD [OF r(2)] have cur: "Some cur \<in> set (accounts_in (ug_site g) d)" "ua_id cur = i" "user_create_wf cur"
    using r(2) by (auto simp: accounts_in_def decoded_Some [symmetric] intro!: image_eqI [of _ _ r])
  have v: "user_create_wf v" "ua_id v = ua_id cur" "uc_username v = uc_username cur"
    using p cur(3) by (auto simp: patched_def k5_inv mk_user_account_def user_create_wf_def)
  have same: "v = cur" if "patch_changes p cur = []"
  proof -
    from that have "(case up_display_name p of None \<Rightarrow> uc_display_name cur | Some x \<Rightarrow> x) = uc_display_name cur"
      "(case up_role p of None \<Rightarrow> uc_role cur | Some x \<Rightarrow> x) = uc_role cur" "(case up_enabled p of None \<Rightarrow> uc_enabled cur | Some x \<Rightarrow> x) = uc_enabled cur"
      by (auto simp: patch_changes_def split: if_splits option.splits)
    with p mk_user_account_valid [OF cur(3)]
    have "v = \<lparr>uc_username = uc_username cur, uc_display_name = uc_display_name cur, uc_role = uc_role cur, uc_enabled = uc_enabled cur, ua_id = ua_id cur\<rparr>"
      by (simp add: patched_def)
    then show ?thesis by (cases cur) simp
  qed
  have keep: "map (\<lambda>x. if map_option ua_id x = Some i then Some cur else x) (accounts_in (ug_site g) d) = accounts_in (ug_site g) d"
  proof (rule map_idI)
    fix x
    assume "x \<in> set (accounts_in (ug_site g) d)"
    then obtain q where q: "q \<in> set (db_users d)" "ur_site q = ug_site g" "x = decoded q" by (auto simp: accounts_in_def)
    have "x = Some cur" if "map_option ua_id x = Some i"
    proof -
      from that obtain z where z: "x = Some z" "ua_id z = i" by auto
      with q(3) have "decoded q = Some z" by simp
      then have "decode_user q = Inr z" by (simp only: decoded_Some)
      with decode_userD [OF this] z have "ur_id q = i" by simp
      then have "q = r" using user_by_idD [OF r(1)] q(2) by (intro unique_row [OF u q(1)]) simp_all
      with q(3) r(2) show ?thesis by (simp add: decoded_def)
    qed
    then show "(if map_option ua_id x = Some i then Some cur else x) = x" by auto
  qed
  have d1: "accounts_in (ug_site g) d1 = map (\<lambda>x. if map_option ua_id x = Some i then Some v else x) (accounts_in (ug_site g) d) \<and>
      active_in (ug_site g) d1 = active_in (ug_site g) d"
    using effect_store_changes [OF s] accounts_with_fields [OF u r v] keep same by auto
  from effect_store_camera [OF c] d1 have "accounts_in (ug_site g) d' = accounts_in (ug_site g) d1 \<and> active_in (ug_site g) d' = active_in (ug_site g) d1"
    by auto
  with d1 y cur p show ?thesis by auto
qed simp

lemma view_reset:
  assumes "effect (reset_bootstrap env g i a ttl) d y d'"
  shows "accounts_in (ug_site g) d' = accounts_in (ug_site g) d \<and> (\<forall>j. j \<noteq> i \<longrightarrow> active_in (ug_site g) d' j = active_in (ug_site g) d j)"
  using effect_reset [OF assms]
proof (elim disjE exE conjE)
  fix a' r u tmp s v t d1 t'
  assume r: "user_by_id (ug_site g) i d = Some r" "decode_user r = Inr u" and e: "effect (refuse_last_administrator env g u) d () d1"
    and d': "d' = with_audit (ug_site g) i ''password-reset'' a' [''credential_state''] t'
         (with_credential (ug_site g) i (bootstrap_row s v t (t + ttl * 1000000)) d1)"
  from effect_refuse_last [OF e r] have "bookkeeping g d d1" by simp
  from accounts_bookkeeping [OF this] active_bookkeeping [OF this] d' show ?thesis by (simp add: view_credential)
qed simp

lemma view_set_camera:
  "effect (set_camera_access env g i x a) d y d' \<Longrightarrow>
   accounts_in (ug_site g) d' = accounts_in (ug_site g) d \<and> active_in (ug_site g) d' = active_in (ug_site g) d"
  unfolding set_camera_access_def by (auto elim!: effect_elims split: option.splits)

text \<open>A new account has no password yet.\<close>

lemma view_added:
  assumes "effect (create_with_bootstrap env g request a ttl x) d y d'"
  shows "created_from request (fst y) \<and> may_add g (fst y) d \<and>
    accounts_in (ug_site g) d' = accounts_in (ug_site g) (with_user (user_row_of (ug_site g) (fst y)) d) \<and>
    (\<forall>j. active_in (ug_site g) d' j \<longleftrightarrow> j \<noteq> ua_id (fst y) \<and> active_in (ug_site g) (with_user (user_row_of (ug_site g) (fst y)) d) j)"
  using assms unfolding create_with_bootstrap_def
  by (auto elim!: effect_elims split: if_splits option.splits simp: view_credential bootstrap_row_def)

lemma view_create:
  assumes "effect (create_with_bootstrap env g request a ttl x) d y d'"
  shows "uc_role (fst y) = uc_role request \<and> (\<forall>v. Some v \<in> set (accounts_in (ug_site g) d) \<longrightarrow> ua_id v \<noteq> ua_id (fst y)) \<and>
    accounts_in (ug_site g) d' = accounts_in (ug_site g) d @ [Some (fst y)] \<and> active_in (ug_site g) d' = active_in (ug_site g) d"
proof -
  let ?u = "fst y"
  note v = view_added [OF assms]
  then have wf: "user_create_wf ?u" and role: "uc_role ?u = uc_role request" and id: "user_by_id (ug_site g) (ua_id ?u) d = None"
    by (simp_all add: created_from_def may_add_def)
  have fresh: "ua_id v \<noteq> ua_id ?u" if "Some v \<in> set (accounts_in (ug_site g) d)" for v
    using that id by (auto simp: accounts_in_def user_by_id_def find_None_iff decoded_Some dest!: sym [of "Some v"] decode_userD)
  have other: "active_in (ug_site g) (with_user (user_row_of (ug_site g) ?u) d) j = active_in (ug_site g) d j" if "j \<noteq> ua_id ?u" for j
  proof -
    have "user_by_id (ug_site g) j (with_user (user_row_of (ug_site g) ?u) d) = user_by_id (ug_site g) j d"
      using that by (simp add: user_by_id_def with_user_def user_row_of_def find_snoc split: option.split)
    then show ?thesis by (simp add: active_in_def with_user_def credential_of_def)
  qed
  have "active_in (ug_site g) d' j = active_in (ug_site g) d j" for j
    using v other [of j] id by (cases "j = ua_id ?u") (auto simp: active_in_def)
  then have "active_in (ug_site g) d' = active_in (ug_site g) d" by (rule ext)
  moreover have "accounts_in (ug_site g) d' = accounts_in (ug_site g) d @ [Some ?u]"
    using v wf by (simp add: accounts_in_def with_user_def decoded_row_of) (simp add: user_row_of_def)
  ultimately show ?thesis using role fresh by simp
qed

lemma view_created_id:
  assumes "effect (create_with_bootstrap env g request a ttl x) d y d'"
  shows "ua_id (fst y) \<in> range (rn_uuid env)"
  using assms unfolding create_with_bootstrap_def insert_user_def
  by (auto elim!: effect_bindE effect_liftE effect_readingE effect_requireE effect_guardedE effect_beginE effect_raiseE effect_selectE effect_returnE
    dest!: mk_user_account_Inr simp: k5_inv split: if_splits)

end
