(* ===== verification/Admin_Authority.thy ===== *)
theory Admin_Authority
  imports Role_Policy_Api
begin

text \<open>
  What the account and role routes may do to the authority of the accounts, as steps on an abstract
  state: the role policy, the accounts, which of them have a working password, and whose sessions were
  ended. Every step is guarded by \<open>P\<close>, the permissions of the actor, and by the last-administrator guard.
  The steps keep a full administrator, and change only what lies within \<open>P\<close>.
\<close>

section \<open>Texts of identifiers\<close>

definition uuid_range :: "user_uuid \<Rightarrow> bool" where
  "uuid_range i \<longleftrightarrow> 0 \<le> i \<and> i < 2 ^ 128"

lemma hex_value_digit: "d < 16 \<Longrightarrow> hex_value (hex_digit d) = int d"
  by (simp add: hex_value_def hex_digit_def)

lemma hex_digit_dash: "d < 16 \<Longrightarrow> hex_digit d \<noteq> 45"
  by (simp add: hex_digit_def)

lemma hex_fill_digits:
  "list_all (\<lambda>d. d < 16) ds \<Longrightarrow> length (filter id bs) = length ds \<Longrightarrow> filter (\<lambda>c. c \<noteq> 45) (hex_fill bs ds) = map hex_digit ds"
proof (induction bs arbitrary: ds)
  case (Cons b bs)
  then show ?case by (cases b; cases ds) (auto simp: hex_digit_dash)
qed simp

definition nibbles :: "nat \<Rightarrow> user_uuid \<Rightarrow> nat list" where
  "nibbles n i = map (\<lambda>k. nat (i div 16 ^ k mod 16)) (rev [0..<n])"

lemma nibbles_Suc: "nibbles (Suc n) i = nibbles n (i div 16) @ [nat (i mod 16)]"
proof -
  have "rev [0..<Suc n] = map Suc (rev [0..<n]) @ [0]"
    by (simp add: rev_map upt_conv_Cons map_Suc_upt [symmetric] del: upt_Suc)
  then show ?thesis
    by (simp add: nibbles_def comp_def zdiv_zmult2_eq del: upt_Suc)
qed

lemma nibbles_value:
  "0 \<le> i \<Longrightarrow> i < 16 ^ n \<Longrightarrow> foldl (\<lambda>m d. 16 * m + int d) 0 (nibbles n i) = i"
proof (induction n arbitrary: i)
  case (Suc n)
  then have "i < 16 * 16 ^ n" by simp
  then have "i div 16 < 16 ^ n" by linarith
  with Suc show ?case by (simp add: nibbles_Suc)
qed (simp add: nibbles_def)

lemma text_uuid_text:
  assumes "uuid_range i"
  shows "text_uuid (uuid_text i) = i"
proof -
  have d: "list_all (\<lambda>d. d < 16) (nibbles 32 i)" by (auto simp: nibbles_def list_all_iff nat_less_iff)
  have "length (filter id uuid_shape) = length (nibbles 32 i)" by (simp add: uuid_shape_def nibbles_def)
  from hex_fill_digits [OF d this] have "text_uuid (uuid_text i) = foldl (\<lambda>n c. 16 * n + hex_value c) 0 (map hex_digit (nibbles 32 i))"
    by (simp add: text_uuid_def uuid_text_def nibbles_def)
  also have "\<dots> = foldl (\<lambda>m d. 16 * m + int d) 0 (nibbles 32 i)"
    using d by (simp add: foldl_map) (intro foldl_cong; simp add: list_all_iff hex_value_digit)
  also have "\<dots> = i" using assms by (intro nibbles_value) (simp_all add: uuid_range_def)
  finally show ?thesis .
qed

lemma uuid_text_inj: "uuid_range i \<Longrightarrow> uuid_range j \<Longrightarrow> uuid_text i = uuid_text j \<longleftrightarrow> i = j"
  by (metis text_uuid_text)

section \<open>The abstract state\<close>

record authority =
  au_state :: role_state
  au_accounts :: "user_account option list"
  au_active :: "user_uuid \<Rightarrow> bool"
  au_revoked :: "user_uuid list"

definition holds :: "authority \<Rightarrow> user_uuid \<Rightarrow> pystr set" where
  "holds v i = {p. \<exists>a. Some a \<in> set (au_accounts v) \<and> ua_id a = i \<and> uc_enabled a \<and> p \<in> set (effective_permissions_in (au_state v) a)}"

definition has_full_administrator :: "authority \<Rightarrow> bool" where
  "has_full_administrator v \<longleftrightarrow> guarded (au_accounts v) (au_active v) (au_state v) None None"

definition authority_ok :: "(pystr \<Rightarrow> pystr) \<Rightarrow> authority \<Rightarrow> bool" where
  "authority_ok cf v \<longleftrightarrow>
     role_state_ok cf (au_state v) \<and> (\<forall>a. Some a \<in> set (au_accounts v) \<longrightarrow> uuid_range (ua_id a)) \<and>
     (\<forall>a b. Some a \<in> set (au_accounts v) \<longrightarrow> Some b \<in> set (au_accounts v) \<longrightarrow> ua_id a = ua_id b \<longrightarrow> a = b)"

text \<open>What the file holds after a change is written and read again.\<close>

definition written :: "role_state \<Rightarrow> role_state" where
  "written s = sorted_state (next_revision s)"

abbreviation replace_account :: "user_account \<Rightarrow> user_account option list \<Rightarrow> user_account option list" where
  "replace_account u \<equiv> map (\<lambda>x. if map_option ua_id x = Some (ua_id u) then Some u else x)"

definition alike :: "user_account \<Rightarrow> user_account \<Rightarrow> bool" where
  "alike u u' \<longleftrightarrow> ua_id u = ua_id u' \<and> uc_role u = uc_role u' \<and> uc_enabled u = uc_enabled u'"

inductive authority_step :: "(pystr \<Rightarrow> pystr) \<Rightarrow> pystr set \<Rightarrow> authority \<Rightarrow> authority \<Rightarrow> bool"
  for cf :: "pystr \<Rightarrow> pystr" and P :: "pystr set" where
  step_put: "changed_state cf (au_state v) (Put_profile i payload) = Some s1 \<Longrightarrow> py ''id'' \<notin> set (map fst payload) \<Longrightarrow>
    guarded (au_accounts v) (au_active v) s1 None None \<Longrightarrow>
    (\<And>q. map_of (rs_profiles (au_state v)) i = Some q \<Longrightarrow> set (rp_permissions q) \<subseteq> P) \<Longrightarrow>
    (\<And>q. map_of (rs_profiles s1) i = Some q \<Longrightarrow> set (rp_permissions q) \<subseteq> P) \<Longrightarrow>
    rs_revision (au_state v) + 1 < 2 ^ 63 \<Longrightarrow>
    authority_step cf P v (v\<lparr>au_state := written s1\<rparr>)"
| step_drop: "changed_state cf (au_state v) (Drop_profile i) = Some s1 \<Longrightarrow>
    guarded (au_accounts v) (au_active v) s1 None None \<Longrightarrow> rs_revision (au_state v) + 1 < 2 ^ 63 \<Longrightarrow>
    authority_step cf P v (v\<lparr>au_state := written s1\<rparr>)"
| step_bind: "changed_state cf (au_state v) (Bind_account (ua_id a) k) = Some s1 \<Longrightarrow> Some a \<in> set (au_accounts v) \<Longrightarrow>
    set (effective_permissions_in (au_state v) a) \<subseteq> P \<Longrightarrow> profile = Option.bind k (map_of (rs_profiles (au_state v))) \<Longrightarrow>
    set (binding_grant a profile) \<subseteq> P \<Longrightarrow>
    guarded (au_accounts v) (au_active v) s1 (Some (case profile of None \<Rightarrow> a | Some p \<Rightarrow> a\<lparr>uc_role := rp_base p\<rparr>)) None \<Longrightarrow>
    rs_revision (au_state v) + 1 < 2 ^ 63 \<Longrightarrow>
    authority_step cf P v (v\<lparr>au_state := written s1\<rparr>)"
| step_base_role: "Some a \<in> set (au_accounts v) \<Longrightarrow>
    map_of (rs_bindings (au_state v)) (uuid_text (ua_id a)) = Some k \<Longrightarrow> map_of (rs_profiles (au_state v)) k = Some p \<Longrightarrow>
    set (rp_permissions p) \<subseteq> P \<Longrightarrow> alike u (a\<lparr>uc_role := rp_base p\<rparr>) \<Longrightarrow>
    guarded (au_accounts v) (au_active v) (au_state v) (Some (a\<lparr>uc_role := rp_base p\<rparr>)) None \<Longrightarrow>
    authority_step cf P v (v\<lparr>au_accounts := replace_account u (au_accounts v)\<rparr>)"
| step_create: "(\<And>b. Some b \<in> set (au_accounts v) \<Longrightarrow> ua_id b \<noteq> ua_id u) \<Longrightarrow> uuid_range (ua_id u) \<Longrightarrow> set (BASE_PERMISSIONS (uc_role u)) \<subseteq> P \<Longrightarrow>
    authority_step cf P v (v\<lparr>au_accounts := au_accounts v @ [Some u]\<rparr>)"
| step_update: "Some a \<in> set (au_accounts v) \<Longrightarrow> set (effective_permissions_in (au_state v) a) \<subseteq> P \<Longrightarrow>
    uc_role u = uc_role a \<or> map_of (rs_bindings (au_state v)) (uuid_text (ua_id a)) = None \<and> set (BASE_PERMISSIONS (uc_role u)) \<subseteq> P \<Longrightarrow>
    ua_id u = ua_id a \<Longrightarrow> alike u u' \<Longrightarrow>
    guarded (au_accounts v) (au_active v) (au_state v) (Some u') None \<Longrightarrow>
    authority_step cf P v (v\<lparr>au_accounts := replace_account u (au_accounts v)\<rparr>)"
| step_reset: "Some a \<in> set (au_accounts v) \<Longrightarrow> set (effective_permissions_in (au_state v) a) \<subseteq> P \<Longrightarrow>
    guarded (au_accounts v) (au_active v) (au_state v) None (Some (ua_id a)) \<Longrightarrow> (\<And>j. j \<noteq> ua_id a \<Longrightarrow> act j = au_active v j) \<Longrightarrow>
    authority_step cf P v (v\<lparr>au_active := act\<rparr>)"
| step_revoke: "authority_step cf P v (v\<lparr>au_revoked := au_revoked v @ [i]\<rparr>)"

section \<open>The steps keep the state well-formed\<close>

lemma written_ok:
  assumes "role_state_ok cf s" and "rs_revision s + 1 < 2 ^ 63"
  shows "role_state_ok cf (written s)" and "rs_revision (written s) = rs_revision s + 1"
    and "map_of (rs_bindings (written s)) = map_of (rs_bindings s)" and "map_of (rs_profiles (written s)) = map_of (rs_profiles s)"
    and "set (rs_bindings (written s)) = set (rs_bindings s)"
proof -
  have "role_state_ok cf (next_revision s)" using assms unfolding role_state_ok_def next_revision_def by (simp; linarith)
  then show "role_state_ok cf (written s)" by (simp add: written_def)
  have "distinct (map fst (rs_bindings s))" "distinct (map fst (rs_profiles s))" using assms(1) unfolding role_state_ok_def by blast+
  then show "map_of (rs_bindings (written s)) = map_of (rs_bindings s)" "map_of (rs_profiles (written s)) = map_of (rs_profiles s)"
    by (simp_all add: written_def sorted_state_def next_revision_def)
qed (simp_all add: written_def sorted_state_def next_revision_def)

lemma permissions_cong:
  "map_of (rs_bindings s') (uuid_text (ua_id a)) = map_of (rs_bindings s) (uuid_text (ua_id a)) \<Longrightarrow> map_of (rs_profiles s') = map_of (rs_profiles s) \<Longrightarrow>
   effective_permissions_in s' a = effective_permissions_in s a"
  by (simp add: effective_permissions_in_def)

lemma permissions_alike: "alike u u' \<Longrightarrow> effective_permissions_in s u = effective_permissions_in s u'"
  by (auto simp: alike_def effective_permissions_in_def split: option.split)

lemma full_alike: "alike u u' \<Longrightarrow> full_administrator s u = full_administrator s u'"
  using permissions_alike [of u u' s] by (simp add: alike_def full_administrator_def)

lemma in_replaced:
  "Some b \<in> set (replace_account u accs) \<longleftrightarrow> (b = u \<and> (\<exists>a. Some a \<in> set accs \<and> ua_id a = ua_id u)) \<or> (Some b \<in> set accs \<and> ua_id b \<noteq> ua_id u)"
  by (auto simp: image_iff split: if_splits)

lemma authority_okD:
  assumes "authority_ok cf v"
  shows "role_state_ok cf (au_state v)" and "Some a \<in> set (au_accounts v) \<Longrightarrow> uuid_range (ua_id a)"
    and "Some a \<in> set (au_accounts v) \<Longrightarrow> Some b \<in> set (au_accounts v) \<Longrightarrow> ua_id a = ua_id b \<Longrightarrow> a = b"
  using assms by (auto simp: authority_ok_def)

lemma ok_replaced:
  assumes "authority_ok cf v" and "Some a \<in> set (au_accounts v)" and "ua_id u = ua_id a"
  shows "authority_ok cf (v\<lparr>au_accounts := replace_account u (au_accounts v)\<rparr>)"
proof -
  let ?v = "v\<lparr>au_accounts := replace_account u (au_accounts v)\<rparr>"
  note ok = authority_okD [OF assms(1)]
  have acc: "au_accounts ?v = replace_account u (au_accounts v)" by simp
  have "uuid_range (ua_id b)" if "Some b \<in> set (au_accounts ?v)" for b
    using that ok(2) [of b] ok(2) [OF assms(2)] assms(3)
    unfolding acc in_replaced by auto
  moreover have "b = c" if "Some b \<in> set (au_accounts ?v)" "Some c \<in> set (au_accounts ?v)" "ua_id b = ua_id c" for b c
    using that ok(3) [of b c] unfolding acc in_replaced by (elim disjE conjE) simp_all
  moreover have "role_state_ok cf (au_state ?v)" using ok(1) by simp
  ultimately show ?thesis unfolding authority_ok_def by blast
qed

lemma ok_written:
  assumes "authority_ok cf v" and "changed_state cf (au_state v) c = Some s1" and "rs_revision (au_state v) + 1 < 2 ^ 63"
    and "\<And>i payload. c = Put_profile i payload \<Longrightarrow> py ''id'' \<notin> set (map fst payload)"
  shows "authority_ok cf (v\<lparr>au_state := written s1\<rparr>) \<and> rs_revision (written s1) = rs_revision (au_state v) + 1 \<and> role_state_ok cf s1"
proof -
  have "role_state_ok cf s1 \<and> rs_revision s1 = rs_revision (au_state v)"
    using assms(4) by (rule changed_state_ok [OF authority_okD(1) [OF assms(1)] assms(2)])
  with written_ok(1,2) [of cf s1] assms(1,3) show ?thesis by (auto simp: authority_ok_def)
qed

lemma step_ok:
  assumes "authority_step cf P v v'" and ok: "authority_ok cf v"
  shows "authority_ok cf v' \<and> rs_revision (au_state v') \<le> rs_revision (au_state v) + 1"
  using assms(1)
proof (cases rule: authority_step.cases)
  case (step_put i payload s1)
  from ok_written [OF ok step_put(2,7)] step_put(1,3) show ?thesis by auto
next
  case (step_drop i s1)
  from ok_written [OF ok step_drop(2,4)] step_drop(1) show ?thesis by auto
next
  case (step_bind a k s1 profile)
  from ok_written [OF ok step_bind(2,8)] step_bind(1) show ?thesis by auto
next
  case (step_base_role a k p u)
  with ok_replaced [OF ok step_base_role(2), of u] show ?thesis by (simp add: alike_def)
next
  case (step_update a u u')
  with ok_replaced [OF ok step_update(2), of u] show ?thesis by simp
next
  case (step_create u)
  have "b = c" if "Some b \<in> set (au_accounts v')" "Some c \<in> set (au_accounts v')" "ua_id b = ua_id c" for b c
    using that step_create(1) step_create(2) [of b] step_create(2) [of c] authority_okD(3) [OF ok, of b c] by auto
  with step_create(1,3) ok show ?thesis by (auto simp: authority_ok_def)
qed (use ok in \<open>auto simp: authority_ok_def\<close>)

section \<open>A full administrator remains\<close>

lemma guardedI: "Some a \<in> set accs \<Longrightarrow> full_administrator s a \<Longrightarrow> act (ua_id a) \<Longrightarrow> guarded accs act s None None"
  by (auto simp: guarded_def qualifies_def replaced_def)

lemma guardedE:
  assumes "guarded accs act s replacement None"
  obtains a where "Some a \<in> set accs" and "full_administrator s (replaced replacement a)" and "act (ua_id (replaced replacement a))"
  using assms by (auto simp: guarded_def qualifies_def)

lemma full_written:
  assumes "role_state_ok cf s1" and "rs_revision s1 + 1 < 2 ^ 63"
  shows "full_administrator (written s1) a = full_administrator s1 a"
  using permissions_cong [of "written s1" a s1] written_ok(3,4) [OF assms] by (simp add: full_administrator_def)

lemma guarded_written:
  assumes "role_state_ok cf s1" and "rs_revision s1 + 1 < 2 ^ 63" and "guarded accs act s1 None None"
  shows "guarded accs act (written s1) None None"
proof -
  from assms(3) obtain a where "Some a \<in> set accs" "full_administrator s1 a" "act (ua_id a)"
    by (rule guardedE) (simp add: replaced_def)
  with full_written [OF assms(1,2)] show ?thesis by (intro guardedI) simp_all
qed

text \<open>A guard that looked at the replacement of one account holds of the accounts with it.\<close>

lemma guarded_replaced:
  assumes "guarded accs act s (Some u') None" and "alike u u'" and "Some a \<in> set accs" and "ua_id a = ua_id u"
  shows "guarded (replace_account u accs) act s None None"
proof -
  from assms(1) obtain b where b: "Some b \<in> set accs" "full_administrator s (replaced (Some u') b)" "act (ua_id (replaced (Some u') b))"
    by (rule guardedE)
  from assms(2) have id: "ua_id u = ua_id u'" by (simp add: alike_def)
  show ?thesis
  proof (cases "ua_id u' = ua_id b")
    case True
    with b have "full_administrator s u'" "act (ua_id u')" by (simp_all add: replaced_def)
    with full_alike [OF assms(2), of s] id have "full_administrator s u" "act (ua_id u)" by simp_all
    moreover have "Some u \<in> set (replace_account u accs)" unfolding in_replaced using assms(3,4) by blast
    ultimately show ?thesis by (intro guardedI)
  next
    case False
    with b have "full_administrator s b" "act (ua_id b)" by (simp_all add: replaced_def)
    moreover have "Some b \<in> set (replace_account u accs)" unfolding in_replaced using b(1) False id by simp
    ultimately show ?thesis by (intro guardedI)
  qed
qed

text \<open>Binding an account keeps a full administrator even before its base role is applied.\<close>

lemma bind_state:
  assumes "changed_state cf s (Bind_account i k) = Some s1"
  shows "map_of (rs_bindings s1) = (map_of (rs_bindings s)) (uuid_text i := k)" and "rs_profiles s1 = rs_profiles s" and "rs_revision s1 = rs_revision s"
    and "\<And>r. k = Some r \<Longrightarrow> r \<in> set (map fst (rs_profiles s))"
proof -
  have "map_of (rs_bindings s1) = (map_of (rs_bindings s)) (uuid_text i := k) \<and> rs_profiles s1 = rs_profiles s \<and> rs_revision s1 = rs_revision s \<and>
      (\<forall>r. k = Some r \<longrightarrow> r \<in> set (map fst (rs_profiles s)))"
  proof (cases k)
    case None
    with assms have "s1 = s\<lparr>rs_bindings := AList.delete (uuid_text i) (rs_bindings s)\<rparr>" by simp
    with None show ?thesis by (simp add: delete_conv')
  next
    case (Some r)
    with assms have "s1 = s\<lparr>rs_bindings := AList.update (uuid_text i) r (rs_bindings s)\<rparr>" "r \<in> set (map fst (rs_profiles s))"
      by (simp_all split: if_splits)
    with Some show ?thesis by (simp add: update_conv')
  qed
  then show "map_of (rs_bindings s1) = (map_of (rs_bindings s)) (uuid_text i := k)" "rs_profiles s1 = rs_profiles s" "rs_revision s1 = rs_revision s"
    "\<And>r. k = Some r \<Longrightarrow> r \<in> set (map fst (rs_profiles s))" by simp_all
qed

lemma bind_others:
  assumes "changed_state cf s (Bind_account i k) = Some s1" and "uuid_range i" and "uuid_range (ua_id b)" and "ua_id b \<noteq> i"
  shows "effective_permissions_in s1 b = effective_permissions_in s b"
  using bind_state(1,2) [OF assms(1)] uuid_text_inj [OF assms(2,3)] assms(4) by (intro permissions_cong) auto

lemma step_full_bind:
  assumes ok: "authority_ok cf v" and full: "has_full_administrator v"
    and c: "changed_state cf (au_state v) (Bind_account (ua_id a) k) = Some s1" and a: "Some a \<in> set (au_accounts v)"
    and g: "guarded (au_accounts v) (au_active v) s1 (Some (case Option.bind k (map_of (rs_profiles (au_state v))) of None \<Rightarrow> a | Some p \<Rightarrow> a\<lparr>uc_role := rp_base p\<rparr>)) None"
  shows "guarded (au_accounts v) (au_active v) s1 None None"
proof -
  let ?s = "au_state v" and ?p = "Option.bind k (map_of (rs_profiles (au_state v)))"
  let ?a = "case ?p of None \<Rightarrow> a | Some p \<Rightarrow> a\<lparr>uc_role := rp_base p\<rparr>"
  have id: "ua_id ?a = ua_id a" "uc_enabled ?a = uc_enabled a" by (auto split: option.split)
  note bind = bind_state [OF c]
  from g obtain b where b: "Some b \<in> set (au_accounts v)" "full_administrator s1 (replaced (Some ?a) b)" "au_active v (ua_id (replaced (Some ?a) b))"
    by (rule guardedE)
  show ?thesis
  proof (cases "ua_id b = ua_id a")
    case False
    with b id show ?thesis by (intro guardedI [of b]) (simp_all add: replaced_def)
  next
    case same: True
    with b id have f: "full_administrator s1 ?a" "au_active v (ua_id a)" by (simp_all add: replaced_def)
    show ?thesis
    proof (cases "uc_role a = ADMINISTRATOR")
      case True
      have "full_administrator s1 a"
      proof (cases ?p)
        case None
        with f show ?thesis by simp
      next
        case (Some p)
        with f True bind(1,2) show ?thesis
          by (auto simp: full_administrator_def effective_permissions_in_def bind_eq_Some_conv split: option.splits)
      qed
      with a f(2) show ?thesis by (intro guardedI)
    next
      case False
      from full obtain d where d: "Some d \<in> set (au_accounts v)" "full_administrator ?s d" "au_active v (ua_id d)"
        unfolding has_full_administrator_def by (rule guardedE) (simp add: replaced_def)
      from d(2) False have "d \<noteq> a" by (auto simp: full_administrator_def)
      with authority_okD(3) [OF ok d(1) a] have "ua_id d \<noteq> ua_id a" by blast
      with bind_others [OF c] authority_okD(2) [OF ok] d(1) a have "effective_permissions_in s1 d = effective_permissions_in ?s d" by blast
      with d show ?thesis by (intro guardedI [of d]) (simp_all add: full_administrator_def)
    qed
  qed
qed

lemma step_full:
  assumes "authority_step cf P v v'" and ok: "authority_ok cf v" and full: "has_full_administrator v"
  shows "has_full_administrator v'"
  using assms(1)
proof (cases rule: authority_step.cases)
  case (step_put i payload s1)
  from changed_state_ok [OF authority_okD(1) [OF ok] step_put(2)] step_put(3,4,7) guarded_written [of cf s1]
  show ?thesis by (simp add: step_put(1) has_full_administrator_def)
next
  case (step_drop i s1)
  from changed_state_ok [OF authority_okD(1) [OF ok] step_drop(2)] step_drop(3,4) guarded_written [of cf s1]
  show ?thesis by (simp add: step_drop(1) has_full_administrator_def)
next
  case (step_bind a k s1 profile)
  from step_full_bind [OF ok full step_bind(2,3)] step_bind(5,7) have "guarded (au_accounts v) (au_active v) s1 None None" by simp
  with changed_state_ok [OF authority_okD(1) [OF ok] step_bind(2)] step_bind(8) guarded_written [of cf s1]
  show ?thesis by (simp add: step_bind(1) has_full_administrator_def)
next
  case (step_base_role a k p u)
  from guarded_replaced [OF step_base_role(7,6,2)] step_base_role(6) show ?thesis
    by (simp add: step_base_role(1) has_full_administrator_def alike_def)
next
  case (step_create u)
  from full obtain d where "Some d \<in> set (au_accounts v)" "full_administrator (au_state v) d" "au_active v (ua_id d)"
    unfolding has_full_administrator_def by (rule guardedE) (simp add: replaced_def)
  then show ?thesis by (auto simp: step_create(1) has_full_administrator_def intro!: guardedI [of d])
next
  case (step_update a u u')
  from guarded_replaced [OF step_update(7,6,2)] step_update(5) show ?thesis
    by (simp add: step_update(1) has_full_administrator_def)
next
  case (step_reset a act)
  from step_reset(4) obtain d where "Some d \<in> set (au_accounts v)" "ua_id d \<noteq> ua_id a" "full_administrator (au_state v) d" "au_active v (ua_id d)"
    by (auto simp: guarded_def qualifies_def replaced_def)
  with step_reset(5) show ?thesis by (auto simp: step_reset(1) has_full_administrator_def intro!: guardedI [of d])
next
  case (step_revoke i)
  with full show ?thesis by (simp add: has_full_administrator_def)
qed

section \<open>What changes lies within the permissions of the actor\<close>

text \<open>\<open>touched\<close> also counts an account whose password starts or stops working.\<close>

definition touched :: "authority \<Rightarrow> authority \<Rightarrow> user_uuid \<Rightarrow> bool" where
  "touched v v' i \<longleftrightarrow> holds v' i \<noteq> holds v i \<or> au_active v' i \<noteq> au_active v i"

definition inside :: "pystr set \<Rightarrow> authority \<Rightarrow> authority \<Rightarrow> bool" where
  "inside P v v' \<longleftrightarrow> (\<forall>i. touched v v' i \<longrightarrow> holds v i \<subseteq> P \<and> holds v' i \<subseteq> P)"

lemma inside_refl [simp]: "inside P v v"
  by (simp add: inside_def touched_def)

lemma inside_trans: "inside P v v1 \<Longrightarrow> inside P v1 v2 \<Longrightarrow> inside P v v2"
  unfolding inside_def touched_def by metis

lemma holds_account:
  assumes "authority_ok cf v" and "Some a \<in> set (au_accounts v)"
  shows "holds v (ua_id a) = (if uc_enabled a then set (effective_permissions_in (au_state v) a) else {})"
  using assms(2) authority_okD(3) [OF assms(1) _ assms(2)] unfolding holds_def by auto

lemma holds_nobody: "(\<And>a. Some a \<in> set (au_accounts v) \<Longrightarrow> ua_id a \<noteq> i) \<Longrightarrow> holds v i = {}"
  by (auto simp: holds_def)

lemma holds_cong:
  assumes "\<And>a. ua_id a = i \<Longrightarrow> Some a \<in> set (au_accounts v') \<longleftrightarrow> Some a \<in> set (au_accounts v)"
    and "\<And>a. Some a \<in> set (au_accounts v) \<Longrightarrow> ua_id a = i \<Longrightarrow> effective_permissions_in (au_state v') a = effective_permissions_in (au_state v) a"
  shows "holds v' i = holds v i"
  unfolding holds_def by (intro Collect_cong ex_cong1) (metis assms)

text \<open>A change of the policy that leaves the permissions of an account, or keeps them within \<open>P\<close>.\<close>

lemma inside_policy:
  assumes ok: "role_state_ok cf s1" "rs_revision s1 + 1 < 2 ^ 63"
    and each: "\<And>a. Some a \<in> set (au_accounts v) \<Longrightarrow> effective_permissions_in s1 a = effective_permissions_in (au_state v) a \<or>
      set (effective_permissions_in (au_state v) a) \<subseteq> P \<and> set (effective_permissions_in s1 a) \<subseteq> P"
    and uniq: "authority_ok cf v"
  shows "inside P v (v\<lparr>au_state := written s1\<rparr>)"
  unfolding inside_def
proof (intro allI impI)
  fix i
  let ?v = "v\<lparr>au_state := written s1\<rparr>"
  assume t: "touched v ?v i"
  have eff: "effective_permissions_in (written s1) a = effective_permissions_in s1 a" for a
    using written_ok(3,4) [OF ok] by (intro permissions_cong) simp_all
  show "holds v i \<subseteq> P \<and> holds ?v i \<subseteq> P"
  proof (cases "\<exists>a. Some a \<in> set (au_accounts v) \<and> ua_id a = i")
    case True
    then obtain a where a: "Some a \<in> set (au_accounts v)" "ua_id a = i" by blast
    from t have "holds ?v i \<noteq> holds v i" by (simp add: touched_def)
    then have "effective_permissions_in s1 a \<noteq> effective_permissions_in (au_state v) a"
      using holds_cong [where v = v and v' = ?v and i = i] authority_okD(3) [OF uniq _ a(1)] a(2) eff by auto
    with each [OF a(1)] have "set (effective_permissions_in (au_state v) a) \<subseteq> P \<and> set (effective_permissions_in s1 a) \<subseteq> P" by simp
    moreover have "b = a" if "Some b \<in> set (au_accounts v)" "ua_id b = i" for b
      using authority_okD(3) [OF uniq that(1) a(1)] that(2) a(2) by simp
    ultimately show ?thesis using eff by (auto simp: holds_def)
  next
    case False
    then show ?thesis by (auto simp: holds_def)
  qed
qed

lemma permissions_within_profile:
  "map_of (rs_bindings s) (uuid_text (ua_id a)) = Some k \<Longrightarrow> map_of (rs_profiles s) k = Some p \<Longrightarrow>
   set (effective_permissions_in s a) \<subseteq> set (rp_permissions p)"
  by (auto simp: effective_permissions_in_def)

lemma permissions_within_base: "set (effective_permissions_in s a) \<subseteq> set (BASE_PERMISSIONS (uc_role a))"
  by (auto simp: effective_permissions_in_def split: option.split)

lemma permissions_at:
  "Option.bind (map_of (rs_bindings s') (uuid_text (ua_id a))) (map_of (rs_profiles s')) = Option.bind (map_of (rs_bindings s) (uuid_text (ua_id a))) (map_of (rs_profiles s)) \<Longrightarrow>
   effective_permissions_in s' a = effective_permissions_in s a"
  by (simp add: effective_permissions_in_def)

lemma put_state:
  assumes "changed_state cf s (Put_profile i payload) = Some s1"
  shows "rs_bindings s1 = rs_bindings s" and "\<And>k. k \<noteq> i \<Longrightarrow> map_of (rs_profiles s1) k = map_of (rs_profiles s) k"
  using assms by (auto split: option.splits if_splits simp: update_conv')

lemma bound_profile:
  assumes "role_state_ok cf s" and "map_of (rs_bindings s) u = Some k"
  shows "k \<in> set (map snd (rs_bindings s))" and "\<exists>p. map_of (rs_profiles s) k = Some p"
proof -
  from map_of_SomeD [OF assms(2)] show "k \<in> set (map snd (rs_bindings s))" by force
  from map_of_SomeD [OF assms(2)] assms(1) have "k \<in> set (map fst (rs_profiles s))"
    unfolding role_state_ok_def list_all_iff by blast
  then show "\<exists>p. map_of (rs_profiles s) k = Some p" by (simp add: map_of_eq_None_iff [symmetric] del: map_of_eq_None_iff) (metis map_of_eq_None_iff not_None_eq list.set_map)
qed

lemma put_each:
  assumes "role_state_ok cf s" and c: "changed_state cf s (Put_profile i payload) = Some s1"
    and old: "\<And>q. map_of (rs_profiles s) i = Some q \<Longrightarrow> set (rp_permissions q) \<subseteq> P"
    and new: "\<And>q. map_of (rs_profiles s1) i = Some q \<Longrightarrow> set (rp_permissions q) \<subseteq> P"
    and ok1: "role_state_ok cf s1"
  shows "effective_permissions_in s1 a = effective_permissions_in s a \<or>
    set (effective_permissions_in s a) \<subseteq> P \<and> set (effective_permissions_in s1 a) \<subseteq> P"
proof (cases "map_of (rs_bindings s) (uuid_text (ua_id a)) = Some i")
  case True
  with put_state(1) [OF c] have b1: "map_of (rs_bindings s1) (uuid_text (ua_id a)) = Some i" by simp
  obtain p q where "map_of (rs_profiles s) i = Some p" "map_of (rs_profiles s1) i = Some q"
    using bound_profile(2) [OF assms(1) True] bound_profile(2) [OF ok1 b1] by blast
  with permissions_within_profile [OF True] permissions_within_profile [OF b1] old new show ?thesis by blast
next
  case False
  with put_state [OF c] have "effective_permissions_in s1 a = effective_permissions_in s a"
    by (intro permissions_at) (cases "map_of (rs_bindings s) (uuid_text (ua_id a))"; auto)
  then show ?thesis ..
qed

lemma drop_each:
  assumes "role_state_ok cf s" and c: "changed_state cf s (Drop_profile i) = Some s1"
  shows "effective_permissions_in s1 a = effective_permissions_in s a"
proof (rule permissions_at)
  from c have s1: "s1 = s\<lparr>rs_profiles := AList.delete i (rs_profiles s)\<rparr>" "i \<notin> set (map snd (rs_bindings s))" by (auto split: if_splits)
  with bound_profile(1) [OF assms(1), of "uuid_text (ua_id a)"]
  show "Option.bind (map_of (rs_bindings s1) (uuid_text (ua_id a))) (map_of (rs_profiles s1)) =
      Option.bind (map_of (rs_bindings s) (uuid_text (ua_id a))) (map_of (rs_profiles s))"
    by (cases "map_of (rs_bindings s) (uuid_text (ua_id a))") (auto simp: delete_conv')
qed

lemma bind_each:
  assumes ok: "authority_ok cf v" and c: "changed_state cf (au_state v) (Bind_account (ua_id a) k) = Some s1" and a: "Some a \<in> set (au_accounts v)"
    and old: "set (effective_permissions_in (au_state v) a) \<subseteq> P"
    and new: "set (binding_grant a (Option.bind k (map_of (rs_profiles (au_state v))))) \<subseteq> P" and b: "Some b \<in> set (au_accounts v)"
  shows "effective_permissions_in s1 b = effective_permissions_in (au_state v) b \<or>
    set (effective_permissions_in (au_state v) b) \<subseteq> P \<and> set (effective_permissions_in s1 b) \<subseteq> P"
proof (cases "ua_id b = ua_id a")
  case True
  with authority_okD(3) [OF ok b a] have ba: "b = a" .
  note bind = bind_state [OF c]
  have "set (effective_permissions_in s1 a) \<subseteq> P"
  proof (cases "Option.bind k (map_of (rs_profiles (au_state v)))")
    case None
    with new permissions_within_base [of s1 a] show ?thesis by (simp add: binding_grant_def)
  next
    case (Some p)
    then obtain r where "k = Some r" "map_of (rs_profiles (au_state v)) r = Some p" by (auto simp: bind_eq_Some_conv)
    with permissions_within_profile [of s1 a r p] bind(1,2) Some new show ?thesis by (simp add: binding_grant_def)
  qed
  with ba old show ?thesis by simp
next
  case False
  with bind_others [OF c] authority_okD(2) [OF ok] a b show ?thesis by blast
qed

lemma inside_replaced:
  assumes ok: "authority_ok cf v" and a: "Some a \<in> set (au_accounts v)" and id: "ua_id u = ua_id a"
    and P: "set (effective_permissions_in (au_state v) a) \<subseteq> P" "set (effective_permissions_in (au_state v) u) \<subseteq> P"
  shows "inside P v (v\<lparr>au_accounts := replace_account u (au_accounts v)\<rparr>)"
  unfolding inside_def
proof (intro allI impI)
  fix i
  let ?v = "v\<lparr>au_accounts := replace_account u (au_accounts v)\<rparr>"
  have acc: "au_accounts ?v = replace_account u (au_accounts v)" by simp
  assume t: "touched v ?v i"
  have "i = ua_id u"
  proof (rule ccontr)
    assume "i \<noteq> ua_id u"
    then have "Some b \<in> set (au_accounts ?v) \<longleftrightarrow> Some b \<in> set (au_accounts v)" if "ua_id b = i" for b
      using that unfolding acc in_replaced by auto
    then have "holds ?v i = holds v i" by (intro holds_cong) simp_all
    with t show False by (simp add: touched_def)
  qed
  moreover have "holds v (ua_id a) \<subseteq> P" using holds_account [OF ok a] P(1) by simp
  moreover have "Some u \<in> set (au_accounts ?v)" unfolding acc in_replaced using a id by metis
  then have "holds ?v (ua_id u) \<subseteq> P" using holds_account [OF ok_replaced [OF ok a id], of u] P(2) by simp
  ultimately show "holds v i \<subseteq> P \<and> holds ?v i \<subseteq> P" using id by simp
qed

lemma step_inside:
  assumes "authority_step cf P v v'" and ok: "authority_ok cf v"
  shows "inside P v v'"
  using assms(1)
proof (cases rule: authority_step.cases)
  case (step_put i payload s1)
  from changed_state_ok [OF authority_okD(1) [OF ok] step_put(2)] step_put(3) have s1: "role_state_ok cf s1" "rs_revision s1 = rs_revision (au_state v)" by auto
  from put_each [OF authority_okD(1) [OF ok] step_put(2,5,6) s1(1)] inside_policy [OF s1(1) _ _ ok] step_put(7) s1(2)
  show ?thesis by (simp add: step_put(1))
next
  case (step_drop i s1)
  from changed_state_ok [OF authority_okD(1) [OF ok] step_drop(2)] have s1: "role_state_ok cf s1" "rs_revision s1 = rs_revision (au_state v)" by auto
  from drop_each [OF authority_okD(1) [OF ok] step_drop(2)] inside_policy [OF s1(1) _ _ ok] step_drop(4) s1(2)
  show ?thesis by (simp add: step_drop(1))
next
  case (step_bind a k s1 profile)
  from changed_state_ok [OF authority_okD(1) [OF ok] step_bind(2)] have s1: "role_state_ok cf s1" "rs_revision s1 = rs_revision (au_state v)" by auto
  from bind_each [OF ok step_bind(2,3,4)] step_bind(5,6) inside_policy [OF s1(1) _ _ ok] step_bind(8) s1(2)
  show ?thesis by (simp add: step_bind(1))
next
  case (step_base_role a k p u)
  from step_base_role(6) have u: "ua_id u = ua_id a" by (simp add: alike_def)
  from permissions_within_profile [OF step_base_role(3,4)] step_base_role(5) have "set (effective_permissions_in (au_state v) a) \<subseteq> P" by blast
  moreover from permissions_within_profile [of "au_state v" u k p] step_base_role(3,4,5) u have "set (effective_permissions_in (au_state v) u) \<subseteq> P" by auto
  ultimately show ?thesis unfolding step_base_role(1) using inside_replaced [OF ok step_base_role(2) u] by blast
next
  case (step_create u)
  have "holds v' i = holds v i" if "i \<noteq> ua_id u" for i
    using that by (intro holds_cong) (auto simp: step_create(1))
  moreover have "holds v (ua_id u) = {}" using step_create(2) by (rule holds_nobody)
  moreover have "holds v' (ua_id u) \<subseteq> P"
    using step_create(2,4) permissions_within_base [of "au_state v" u] by (auto simp: holds_def step_create(1))
  moreover have "au_active v' = au_active v" by (simp add: step_create(1))
  ultimately show ?thesis unfolding inside_def touched_def by (metis empty_subsetI)
next
  case (step_update a u u')
  have "set (effective_permissions_in (au_state v) u) \<subseteq> P"
  proof (cases "uc_role u = uc_role a")
    case True
    with step_update(5) have "effective_permissions_in (au_state v) u = effective_permissions_in (au_state v) a"
      by (auto simp: effective_permissions_in_def split: option.split)
    with step_update(3) show ?thesis by simp
  next
    case False
    with step_update(4) permissions_within_base [of "au_state v" u] show ?thesis by blast
  qed
  with inside_replaced [OF ok step_update(2,5,3)] show ?thesis unfolding step_update(1) by blast
next
  case (step_reset a act)
  have "holds v' = holds v" by (simp add: step_reset(1) holds_def fun_eq_iff)
  moreover have "holds v (ua_id a) \<subseteq> P" using holds_account [OF ok step_reset(2)] step_reset(3) by simp
  moreover have "au_active v' i = au_active v i" if "i \<noteq> ua_id a" for i using that step_reset(5) by (simp add: step_reset(1))
  ultimately show ?thesis unfolding inside_def touched_def by metis
next
  case (step_revoke i)
  then show ?thesis by (simp add: inside_def touched_def holds_def)
qed

section \<open>Any number of steps\<close>

abbreviation authority_steps :: "(pystr \<Rightarrow> pystr) \<Rightarrow> pystr set \<Rightarrow> authority \<Rightarrow> authority \<Rightarrow> bool" where
  "authority_steps cf P \<equiv> (authority_step cf P)\<^sup>*\<^sup>*"

lemma steps_ok: "authority_steps cf P v v' \<Longrightarrow> authority_ok cf v \<Longrightarrow> authority_ok cf v'"
  by (induction rule: rtranclp_induct) (auto dest: step_ok)

lemma steps_full: "authority_steps cf P v v' \<Longrightarrow> authority_ok cf v \<Longrightarrow> has_full_administrator v \<Longrightarrow> has_full_administrator v'"
proof (induction rule: rtranclp_induct)
  case (step v1 v2)
  then show ?case using step_full [OF step.hyps(2) steps_ok [OF step.hyps(1)]] by blast
qed

lemma steps_inside: "authority_steps cf P v v' \<Longrightarrow> authority_ok cf v \<Longrightarrow> inside P v v'"
proof (induction rule: rtranclp_induct)
  case (step v1 v2)
  then show ?case using step_inside [OF step.hyps(2) steps_ok [OF step.hyps(1)]] inside_trans by blast
qed simp

end
