(* ===== verification/Admin_Steps.thy ===== *)
theory Admin_Steps
  imports Admin_Accounts Admin_Authority
begin

text \<open>
  What the operations of the routes do to the authority, as rules: a computation that starts with an idle
  connection and a readable policy takes the authority through steps within \<open>P\<close>.
\<close>

section \<open>The rules\<close>

definition authority_of :: "admin_env \<Rightarrow> admin_world \<Rightarrow> authority option" where
  "authority_of e w = map_option (\<lambda>s. \<lparr>au_state = s, au_accounts = accounts_of e w, au_active = active_of e w, au_revoked = aw_revoked w\<rparr>) (state_of e w)"

abbreviation folding :: "admin_env \<Rightarrow> pystr \<Rightarrow> pystr" where
  "folding e \<equiv> re_casefold (ae_roles e)"

definition stands :: "admin_env \<Rightarrow> authority \<Rightarrow> admin_world \<Rightarrow> bool" where
  "stands e v w \<longleftrightarrow> unique_users (committed (aw_users w)) \<and> authority_of e w = Some v"

text \<open>Where a computation that started in \<open>v\<close> ends: \<open>Q\<close> holds when it returns, \<open>C\<close> when the request was cancelled.\<close>

definition lands :: "admin_env \<Rightarrow> pystr set \<Rightarrow> authority \<Rightarrow> ('a \<Rightarrow> authority \<Rightarrow> bool) \<Rightarrow> (authority \<Rightarrow> bool) \<Rightarrow> api_exn raised + 'a \<Rightarrow> admin_world \<Rightarrow> bool" where
  "lands e P v Q C r w' \<longleftrightarrow>
     (\<exists>v'. stands e v' w' \<and> authority_steps (folding e) P v v' \<and>
       (case r of Inl y \<Rightarrow> y = Exn Api_CancelledError \<longrightarrow> C v' | Inr x \<Rightarrow> idle w' \<and> Q x v'))"

definition moves :: "admin_env \<Rightarrow> pystr set \<Rightarrow> authority \<Rightarrow> 'a api \<Rightarrow> ('a \<Rightarrow> authority \<Rightarrow> bool) \<Rightarrow> (authority \<Rightarrow> bool) \<Rightarrow> bool" where
  "moves e P v m Q C \<longleftrightarrow> (\<forall>w r w'. idle w \<longrightarrow> stands e v w \<longrightarrow> m w = (r, w') \<longrightarrow> lands e P v Q C r w')"

lemma movesI: "(\<And>w r w'. idle w \<Longrightarrow> stands e v w \<Longrightarrow> m w = (r, w') \<Longrightarrow> lands e P v Q C r w') \<Longrightarrow> moves e P v m Q C"
  by (simp add: moves_def)

lemma movesD: "moves e P v m Q C \<Longrightarrow> idle w \<Longrightarrow> stands e v w \<Longrightarrow> m w = (r, w') \<Longrightarrow> lands e P v Q C r w'"
  by (simp add: moves_def)

lemma lands_Inl: "lands e P v Q C (Inl y) w' \<longleftrightarrow> (\<exists>v'. stands e v' w' \<and> authority_steps (folding e) P v v' \<and> (y = Exn Api_CancelledError \<longrightarrow> C v'))"
  and lands_Inr: "lands e P v Q C (Inr x) w' \<longleftrightarrow> (\<exists>v'. stands e v' w' \<and> authority_steps (folding e) P v v' \<and> idle w' \<and> Q x v')"
  by (simp_all add: lands_def)

lemma lands_after: "authority_steps (folding e) P v v1 \<Longrightarrow> lands e P v1 Q C r w' \<Longrightarrow> lands e P v Q C r w'"
  unfolding lands_def by (meson rtranclp_trans)

lemma moves_bind:
  assumes "moves e P v m (\<lambda>x v1. moves e P v1 (f x) Q C) C"
  shows "moves e P v (act_bind m f) Q C"
proof (rule movesI)
  fix w r w'
  assume i: "idle w" "stands e v w" and "act_bind m f w = (r, w')"
  from this(3) show "lands e P v Q C r w'"
  proof (cases rule: bindE)
    case (raised y)
    from movesD [OF assms i raised(1)] raised(2) show ?thesis by (simp add: lands_Inl)
  next
    case (returned x w1)
    from movesD [OF assms i returned(1)] obtain v1 where v1: "stands e v1 w1" "authority_steps (folding e) P v v1" "idle w1" "moves e P v1 (f x) Q C"
      by (auto simp: lands_Inr)
    from movesD [OF v1(4,3,1) returned(2)] show ?thesis by (rule lands_after [OF v1(2)])
  qed
qed

lemma moves_conseq:
  assumes "moves e P v m Q C" and "\<And>x v'. Q x v' \<Longrightarrow> R x v'"
  shows "moves e P v m R C"
proof (rule movesI)
  fix w r w'
  assume "idle w" "stands e v w" "m w = (r, w')"
  from movesD [OF assms(1) this] assms(2) show "lands e P v R C r w'"
    by (cases r) (auto simp: lands_Inl lands_Inr)
qed

lemma moves_return: "Q x v \<Longrightarrow> moves e P v (act_return x) Q C"
  by (rule movesI) (auto simp: lands_Inr)

lemma moves_raise: "y \<noteq> Api_CancelledError \<or> C v \<Longrightarrow> moves e P v (act_raise y) Q C"
  by (rule movesI) (auto simp: lands_Inl)

lemma moves_when: "(b \<Longrightarrow> moves e P v m Q C) \<Longrightarrow> (\<not> b \<Longrightarrow> Q () v) \<Longrightarrow> moves e P v (act_when b m) Q C"
  by (auto simp: act_when_def intro: moves_return)

lemma moves_except:
  assumes "moves e P v m Q C" and "\<And>x. g x \<noteq> Some Api_CancelledError"
  shows "moves e P v (api_except g m) Q C"
proof (rule movesI)
  fix w r w'
  assume i: "idle w" "stands e v w" and run: "api_except g m w = (r, w')"
  obtain r1 w1 where m: "m w = (r1, w1)" by fastforce
  from movesD [OF assms(1) i m] run m assms(2) show "lands e P v Q C r w'"
    by (cases r1) (auto simp: api_except_def act_catch_def act_reraise_def lands_Inl lands_Inr split: raised.splits option.splits)
qed

text \<open>Reading: nothing changes, and \<open>Q\<close> is what is learnt.\<close>

definition tells :: "admin_env \<Rightarrow> authority \<Rightarrow> 'a api \<Rightarrow> ('a \<Rightarrow> bool) \<Rightarrow> bool" where
  "tells e v m Q \<longleftrightarrow> (\<forall>w x w'. idle w \<longrightarrow> stands e v w \<longrightarrow> m w = (Inr x, w') \<longrightarrow> Q x)"

definition never_cancelled :: "'a api \<Rightarrow> bool" where
  "never_cancelled m \<longleftrightarrow> (\<forall>w w'. m w \<noteq> (Inl (Exn Api_CancelledError), w'))"

lemma kept_stands: "kept e w w' \<Longrightarrow> stands e v w \<Longrightarrow> stands e v w'"
  using kept_accounts [of e w w'] kept_state [of e w w'] by (auto simp: stands_def authority_of_def kept_def unique_users_def)

lemma moves_read:
  assumes "calm e m" and "tells e v m Q" and "C v \<or> never_cancelled m"
  shows "moves e P v m (\<lambda>x v'. v' = v \<and> Q x) C"
proof (rule movesI)
  fix w r w'
  assume i: "idle w" "stands e v w" and run: "m w = (r, w')"
  from quietD [OF assms(1) i(1) run] kept_stands [OF _ i(2)] have k: "stands e v w'" "isl r \<or> idle w'" by blast+
  with assms(2,3) i run show "lands e P v (\<lambda>x v'. v' = v \<and> Q x) C r w'"
    by (cases r) (auto simp: lands_Inl lands_Inr tells_def never_cancelled_def)
qed

lemma tells_any [simp]: "tells e v m (\<lambda>_. True)"
  by (simp add: tells_def)

text \<open>Read first, then go on with what was learnt.\<close>

lemma moves_after_read:
  assumes "calm e m" and "tells e v m K" and "C v \<or> never_cancelled m" and "\<And>x. K x \<Longrightarrow> moves e P v (f x) Q C"
  shows "moves e P v (act_bind m f) Q C"
  using assms(4) by (intro moves_bind moves_conseq [OF moves_read [where Q = K and C = C, OF assms(1,2,3)]]) auto

section \<open>What the reading helpers tell\<close>

named_theorems tells_intros \<open>rules for what a reading computation returns\<close>

lemma tells_return: "Q x \<Longrightarrow> tells e v (act_return x) Q"
  and tells_raise [tells_intros]: "tells e v (act_raise y) Q"
  by (simp_all add: tells_def)

lemma tells_bind:
  assumes "calm e m" and "tells e v m K" and "\<And>x. K x \<Longrightarrow> tells e v (f x) Q"
  shows "tells e v (act_bind m f) Q"
  unfolding tells_def
proof (intro allI impI)
  fix w x w'
  assume i: "idle w" "stands e v w" and "act_bind m f w = (Inr x, w')"
  then obtain y w1 where m: "m w = (Inr y, w1)" and f: "f y w1 = (Inr x, w')" by (auto elim: bindE)
  from quietD [OF assms(1) i(1) m] kept_stands [OF _ i(2)] have "idle w1" "stands e v w1" by auto
  moreover from assms(2) i m have "K y" unfolding tells_def by blast
  ultimately show "Q x" using assms(3) f unfolding tells_def by blast
qed

lemma except_Inr: "api_except g m w = (Inr x, w') \<Longrightarrow> m w = (Inr x, w')"
  by (auto simp: api_except_def act_catch_def act_reraise_def split: prod.splits sum.splits raised.splits option.splits)

lemma tells_except: "tells e v m Q \<Longrightarrow> tells e v (api_except g m) Q"
  unfolding tells_def by (blast dest: except_Inr)

lemma tells_conseq: "tells e v m Q \<Longrightarrow> (\<And>x. Q x \<Longrightarrow> R x) \<Longrightarrow> tells e v m R"
  unfolding tells_def by blast

lemma stands_state: "stands e v w \<Longrightarrow> stored (ae_roles e) (ae_site e) (aw_policy w) = Some (au_state v)"
  by (auto simp: stands_def authority_of_def state_of_def)

lemma stands_view: "idle w \<Longrightarrow> stands e v w \<Longrightarrow> accounts_in (ae_site e) (sq_db (aw_users w)) = au_accounts v \<and>
    active_in (ae_site e) (sq_db (aw_users w)) = au_active v \<and> aw_revoked w = au_revoked v \<and> unique_users (sq_db (aw_users w))"
  by (auto simp: stands_def authority_of_def accounts_of_def active_of_def idle_committed)

lemma tells_policy:
  fixes F :: "role_state \<Rightarrow> 'b"
  assumes "env_alone e"
  shows "tells e v (on_policy (act_bind (policy_read (ae_roles e) (ae_site e)) (\<lambda>s. act_return (F s)))) (\<lambda>x. x = F (au_state v))"
  unfolding tells_def
proof (intro allI impI)
  fix w x w'
  assume st: "stands e v w" and run: "on_policy (act_bind (policy_read (ae_roles e) (ae_site e)) (\<lambda>s. act_return (F s))) w = (Inr x, w')"
  from run obtain p where "(act_bind (policy_read (ae_roles e) (ae_site e)) (\<lambda>s. act_return (F s)) :: (registry_world, user_registry_exn, 'b) pol) (aw_policy w) = (Inr x, p)"
    by (auto simp: on_policy_def split: prod.splits sum.splits raised.splits)
  then obtain s p1 where s: "(policy_read (ae_roles e) (ae_site e) :: (registry_world, user_registry_exn, role_state) pol) (aw_policy w) = (Inr s, p1)" and x: "x = F s"
    by (auto elim: bindE)
  from read_stored [OF s] assms stands_state [OF st] x show "x = F (au_state v)" by (simp add: env_alone_def)
qed

lemma tells_permissions: "env_alone e \<Longrightarrow> tells e v (effective_permissions e a) (\<lambda>ps. ps = effective_permissions_in (au_state v) a)"
  unfolding effective_permissions_def policy_permissions_def by (rule tells_except tells_policy)+

lemma tells_snapshot: "env_alone e \<Longrightarrow> tells e v (snapshot_api e) (\<lambda>x. ro_roles x = map snd (rs_profiles (au_state v)))"
  unfolding snapshot_api_def policy_snapshot_def by (rule tells_conseq [OF tells_policy]) simp_all

lemma tells_bound: "env_alone e \<Longrightarrow> tells e v (on_policy (bound_user_ids (ae_roles e) (ae_site e) i))
    (\<lambda>x. x = map fst (filter (\<lambda>(u, r). r = i) (rs_bindings (au_state v))))"
  unfolding bound_user_ids_def by (rule tells_policy)

lemma tells_grant: "env_alone e \<Longrightarrow> tells e v (require_grant e a ps) (\<lambda>_. set ps \<subseteq> set (effective_permissions_in (au_state v) a))"
  unfolding require_grant_def
  by (rule tells_bind [OF calm_permissions tells_permissions]) (auto intro: tells_return tells_raise)

definition known :: "authority \<Rightarrow> user_uuid \<Rightarrow> user_account \<Rightarrow> bool" where
  "known v i a \<longleftrightarrow> Some a \<in> set (au_accounts v) \<and> ua_id a = i"

lemma tells_get: "tells e v (on_registry (registry_get (ae_users e) (ae_registry e) i)) (\<lambda>y. \<forall>a. y = Some a \<longrightarrow> known v i a)"
  unfolding tells_def
proof (intro allI impI)
  fix w y w' a
  assume i: "idle w" "stands e v w" and run: "on_registry (registry_get (ae_users e) (ae_registry e) i) w = (Inr y, w')" and y: "y = Some a"
  from run atomic_get i(1) have "effect (registry_get (ae_users e) (ae_registry e) i) (sq_db (aw_users w)) y (sq_db (aw_users w'))"
    by (rule on_registry_run) simp_all
  from effect_get [OF this] y obtain r where r: "user_by_id (ae_site e) i (sq_db (aw_users w)) = Some r" "decode_user r = Inr a" by auto
  from user_by_idD [OF r(1)] decode_userD [OF r(2)] r(2)
  have "Some a \<in> set (accounts_in (ae_site e) (sq_db (aw_users w))) \<and> ua_id a = i"
    by (auto simp: accounts_in_def decoded_def intro!: image_eqI [of _ _ r])
  with stands_view [OF i] show "known v i a" by (simp add: known_def)
qed

lemma tells_if: "(b \<Longrightarrow> tells e v m Q) \<Longrightarrow> (\<not> b \<Longrightarrow> tells e v n Q) \<Longrightarrow> tells e v (if b then m else n) Q"
  by simp

lemma tells_authenticate:
  assumes "env_alone e"
  shows "tells e v (authenticate e p who) (\<lambda>a. known v (ua_id who) a \<and> uc_enabled a)"
proof -
  let ?found = "act_bind (on_registry (registry_get (ae_users e) (ae_registry e) (ua_id who))) (\<lambda>current.
        case current of
          None \<Rightarrow> act_return (None, False)
        | Some u \<Rightarrow> act_bind (on_registry (credential_status (ae_users e) (ae_registry e) (ua_id u))) (\<lambda>st.
            act_return (Some u, st = Some Active)))"
  have "tells e v ?found (\<lambda>z. \<forall>a. fst z = Some a \<longrightarrow> known v (ua_id who) a)"
    by (rule tells_bind [OF calm_user_get tells_get])
      (auto split: option.split intro!: tells_return tells_bind [OF calm_user_status tells_any])
  then show ?thesis unfolding authenticate_def unauthorized_def
    using assms by (intro tells_bind [where K = "\<lambda>z. \<forall>a. fst z = Some a \<longrightarrow> known v (ua_id who) a", OF _ tells_except])
      (auto intro!: calm_intros tells_if tells_raise tells_return tells_bind [OF _ tells_any] split: option.split prod.split)
qed

lemma tells_role_actor: "env_alone e \<Longrightarrow> tells e v (role_actor e p who) (\<lambda>a. known v (ua_id who) a \<and> uc_enabled a)"
  unfolding role_actor_def
  by (rule tells_bind [OF calm_authenticate tells_authenticate])
    (auto intro!: tells_bind [OF _ tells_any] tells_return calm_intros)

lemma tells_current_admin:
  "env_alone (to_admin e) \<Longrightarrow> tells (to_admin e) v (current_admin e p who) (\<lambda>a. known v (ua_id who) a \<and> uc_enabled a)"
  unfolding current_admin_def
  by (rule tells_bind [OF calm_authenticate tells_authenticate]) (auto intro: tells_return tells_raise)

lemma tells_mutation_admin:
  "env_alone (to_admin e) \<Longrightarrow> tells (to_admin e) v (mutation_admin e t p who) (\<lambda>a. known v (ua_id who) a \<and> uc_enabled a)"
  unfolding mutation_admin_def by (auto intro: tells_raise tells_current_admin)

lemma tells_target: "tells (to_admin e) v (admin_target e i) (known v i)"
  unfolding admin_target_def storage_shield_def registry_call_def
proof (rule tells_bind)
  show "calm (to_admin e) (api_except g (on_registry (registry_get (ae_users e) (ae_registry e) i)))" for g
    using calm_user_get [of "to_admin e" i] by (intro calm_except) simp
  show "tells (to_admin e) v (api_except g (on_registry (registry_get (ae_users e) (ae_registry e) i))) (\<lambda>y. \<forall>a. y = Some a \<longrightarrow> known v i a)" for g
    using tells_get [of "to_admin e" v i] by (intro tells_except) simp
qed (auto intro: tells_return tells_raise split: option.split)

end
