(* ===== verification/Admin_Changes.thy ===== *)
theory Admin_Changes
  imports Admin_Steps
begin

text \<open>
  The operations of the policy and the registry that change something, as steps of the authority.
\<close>

section \<open>The policy leaves the accounts alone\<close>

definition users_kept :: "admin_env \<Rightarrow> registry_world policy_world \<Rightarrow> registry_world policy_world \<Rightarrow> bool" where
  "users_kept e p p' \<longleftrightarrow>
     db_users (committed (pw_users p')) = db_users (committed (pw_users p)) \<and>
     active_in (ae_site e) (committed (pw_users p')) = active_in (ae_site e) (committed (pw_users p))"

abbreviation users_idle :: "registry_world policy_world \<Rightarrow> bool" where
  "users_idle p \<equiv> tx_closed (pw_users p)"

interpretation pol_frame: quiet_frame "users_kept e" users_idle for e
  by unfold_locales (auto simp: users_kept_def)

abbreviation settled :: "admin_env \<Rightarrow> (registry_world, user_registry_exn, 'a) pol \<Rightarrow> bool" where
  "settled e \<equiv> quiet_in (users_kept e) users_idle"

named_theorems settled_intros \<open>rules for computations of the policy that keep the accounts\<close>

declare pol_frame.quiet_intros [settled_intros]

lemma settled_leaves:
  assumes "leaves R m" and "\<And>p p'. R p p' \<Longrightarrow> pw_users p' = pw_users p"
  shows "settled e m"
  unfolding quiet_in_def
proof (intro allI impI)
  fix p r p'
  assume "users_idle p" "m p = (r, p')"
  with assms(2) [OF leavesD [OF assms(1)]] show "users_kept e p p' \<and> (isl r \<or> users_idle p')" by (simp add: users_kept_def)
qed

lemma settled_read [settled_intros]: "settled e (policy_read (ae_roles e) s)"
  by (rule settled_leaves [OF untouched_read]) (simp add: untouched_def)

lemma settled_write [settled_intros]: "settled e (policy_write (ae_roles e) s x)"
proof -
  have "leaves (rewriting (ae_roles e) (json_of_role_state s x)) (policy_write (ae_roles e) s x)"
    unfolding leaves_def using policy_write_run by blast
  then show ?thesis by (rule settled_leaves) (simp add: rewriting_def)
qed

lemma settled_users:
  assumes "atomic m" and "\<And>d x d'. effect m d x d' \<Longrightarrow> bookkeeping (ae_registry e) d d'"
  shows "settled e (on_users m)"
  unfolding quiet_in_def
proof (intro allI impI)
  fix p r p'
  assume i: "users_idle p" and run: "on_users m p = (r, p')"
  then obtain r1 u where m: "m (pw_users p) = (r1, u)" "p' = p\<lparr>pw_users := u\<rparr>" "isl r = isl r1"
    by (auto simp: on_users_def split: prod.splits sum.splits raised.splits)
  show "users_kept e p p' \<and> (isl r \<or> users_idle p')"
  proof (cases r1)
    case (Inl y)
    with atomic_cases(2) [OF assms(1) m(1)] m show ?thesis by (simp add: users_kept_def)
  next
    case (Inr x)
    with m have "m (pw_users p) = (Inr x, u)" by simp
    note eff = effectI [where m = m, OF this] and closed = atomic_tx_closed [OF assms(1) i this]
    from users_bookkeeping [OF assms(2) [OF eff]] active_bookkeeping [OF assms(2) [OF eff]] closed i m
    show ?thesis by (simp add: users_kept_def tx_closed_def)
  qed
qed

lemma settled_list [settled_intros]: "settled e (on_users (uo_list (ae_directory e) offset limit))"
proof -
  have "effect (registry_list (ae_users e) (ae_registry e) offset limit) d x d' \<Longrightarrow> bookkeeping (ae_registry e) d d'" for d x d'
    unfolding registry_list_def by (auto elim!: effect_elims split: if_splits)
  from settled_users [OF atomic_list this] show ?thesis by (simp add: registry_users_def)
qed

lemma settled_get [settled_intros]: "settled e (on_users (uo_get (ae_directory e) i))"
  unfolding registry_users_def using effect_get by (simp, intro settled_users atomic_get) fastforce

lemma settled_status [settled_intros]: "settled e (on_users (uo_credential_status (ae_directory e) i))"
  unfolding registry_users_def using effect_status by (simp, intro settled_users atomic_status) blast

lemma settled_page [settled_intros]: "settled e (guard_page (ae_directory e) s replacement excluded rows)"
  by (induction rows) (auto intro!: settled_intros)

lemma settled_pages [settled_intros]: "settled e (guard_pages (ae_directory e) s replacement excluded offsets)"
  by (induction offsets) (auto intro!: settled_intros)

lemma settled_guard [settled_intros]: "settled e (policy_guard (ae_directory e) s replacement excluded)"
  unfolding policy_guard_def by (rule settled_pages)

lemma settled_revision [settled_intros]: "settled e (check_revision expected s)"
  unfolding check_revision_def by (intro settled_intros)

lemma settled_changes:
  "settled e (policy_upsert (ae_roles e) (ae_site e) (ae_directory e) payload i expected)"
  "settled e (policy_assign (ae_roles e) (ae_site e) (ae_directory e) u k expected)"
  "settled e (policy_delete (ae_roles e) (ae_site e) (ae_directory e) j n)"
  "settled e (guard_account_change (ae_roles e) (ae_site e) (ae_directory e) a c)"
  "settled e (guard_credential_reset (ae_roles e) (ae_site e) (ae_directory e) a)"
  unfolding policy_upsert_def policy_assign_def policy_delete_def guard_account_change_def guard_credential_reset_def Let_def
  by (intro settled_intros)+

section \<open>A change of the policy\<close>

lemma stored_written:
  assumes "holds_state site p (next_revision s1)" and "role_state_ok cf s1" and "rs_revision s1 + 1 < 2 ^ 63" and "cf = re_casefold env"
  shows "stored env site p = Some (written s1)"
proof -
  have "role_state_ok cf (next_revision s1)" using assms(2,3) unfolding role_state_ok_def next_revision_def by (simp; linarith)
  from role_state_roundtrip [OF this] assms(1,4) show ?thesis by (simp add: stored_def holds_state_def written_def)
qed

text \<open>An outcome of \<open>Role_Policy_Guard\<close> as a step: \<open>m\<close> leaves the file, or writes the changed state that the guard has accepted.\<close>

lemma moves_policy:
  assumes alone: "env_alone e" and settled: "settled e m" and ok: "authority_ok (folding e) v" and rev: "rs_revision (au_state v) + 1 < 2 ^ 63"
    and out: "\<And>p r p'. users_idle p \<Longrightarrow> accounts_in (ae_site e) (sq_db (pw_users p)) = au_accounts v \<Longrightarrow> m p = (r, p') \<Longrightarrow>
      pw_file p' = pw_file p \<and> isl r \<or>
      (\<exists>c. K c \<and> registry_directory.change_outcome (ae_registry e) (ae_roles e) (ae_site e) c expected (\<lambda>s x. rep r s x) p p')"
    and id: "\<And>i payload. K (Put_profile i payload) \<Longrightarrow> py ''id'' \<notin> set (map fst payload)"
    and step: "\<And>r c s1 x. K c \<Longrightarrow> changed_state (folding e) (au_state v) c = Some s1 \<Longrightarrow> expected = None \<or> expected = Some (rs_revision (au_state v)) \<Longrightarrow>
      rep r (au_state v) x \<Longrightarrow> guarded (au_accounts v) (au_active v) s1 x None \<Longrightarrow>
      authority_step (folding e) P v (v\<lparr>au_state := written s1\<rparr>) \<and> (\<forall>y. r = Inr y \<longrightarrow> Q y (v\<lparr>au_state := written s1\<rparr>))"
  shows "moves e P v (on_policy m) Q C"
proof (rule movesI)
  fix w r w'
  assume i: "idle w" "stands e v w" and run: "on_policy m w = (r, w')"
  obtain r1 p where m: "m (aw_policy w) = (r1, p)" and w': "w' = w\<lparr>aw_policy := p\<rparr>" and r: "isl r = isl r1" "\<And>x. r = Inr x \<longleftrightarrow> r1 = Inr x"
    using run by (rule on_policy_run) blast
  have nc: "r \<noteq> Inl (Exn Api_CancelledError)"
    using run by (auto simp: on_policy_def split: prod.splits sum.splits raised.splits)
  have idle: "users_idle (aw_policy w)" using i(1) by (simp add: idle_def)
  from quietD [OF settled idle m] have k: "users_kept e (aw_policy w) p" "isl r \<or> idle w'" using r(1) by (auto simp: w' idle_def)
  note view = stands_view [OF i]
  have up: "stands e (v\<lparr>au_state := s\<rparr>) w'" if "stored (ae_roles e) (ae_site e) p = Some s" for s
    using i(2) k(1) that
    by (auto simp: stands_def authority_of_def state_of_def accounts_of_def active_of_def accounts_in_def w' users_kept_def unique_users_def)
  from view have "accounts_in (ae_site e) (sq_db (pw_users (aw_policy w))) = au_accounts v" by simp
  from out [OF idle this m] show "lands e P v Q C r w'"
  proof (elim disjE conjE exE)
    assume f: "pw_file p = pw_file (aw_policy w)" and l: "isl r1"
    then have "stored (ae_roles e) (ae_site e) p = Some (au_state v)" using stands_state [OF i(2)] by (simp add: stored_def)
    from up [OF this] l nc r(1) show ?thesis by (cases r) (auto simp: lands_Inl)
  next
    fix c
    assume K: "K c" and "registry_directory.change_outcome (ae_registry e) (ae_roles e) (ae_site e) c expected (\<lambda>s x. rep r1 s x) (aw_policy w) p"
    then obtain s1 x where c: "changed_state (folding e) (au_state v) c = Some s1" "expected = None \<or> expected = Some (rs_revision (au_state v))"
      "rep r1 (au_state v) x" "holds_state (ae_site e) p (next_revision s1)" "guarded (au_accounts v) (au_active v) s1 x None"
      using stands_state [OF i(2)] view
      by (auto simp: registry_directory.change_outcome_def registry_directory.committed_change_def)
    from ok_written [OF ok c(1) rev] id K have s1: "role_state_ok (folding e) s1" "rs_revision s1 = rs_revision (au_state v)"
      by (auto simp: written_def sorted_state_def next_revision_def)
    from stored_written [OF c(4) s1(1)] s1(2) rev have st: "stored (ae_roles e) (ae_site e) p = Some (written s1)" by simp
    from step [OF K c(1,2,3,5)] up [OF st] k(2) r nc show ?thesis by (cases r) (auto simp: lands_Inl lands_Inr)
  qed
qed

lemma env_aloneD: "env_alone e \<Longrightarrow> re_meddle (ae_roles e) = (\<lambda>_ f. f)"
  by (simp add: env_alone_def)

lemma put_fields:
  assumes "changed_state cf s (Put_profile i (request_pairs q)) = Some s1"
  obtains p where "map_of (rs_profiles s1) i = Some p" and "set (rp_permissions p) = set (rq_permissions q)"
proof -
  from assms obtain p where p: "checked_profile (payload_json i (request_pairs q)) = Some p"
    and s1: "s1 = s\<lparr>rs_profiles := AList.update i (normalized p) (rs_profiles s)\<rparr>"
    by (auto split: option.splits if_splits)
  from p have "rp_permissions p = rq_permissions q"
    unfolding checked_profile_def payload_json_def request_pairs_def Let_def
    by (auto split: if_splits option.splits)
  with s1 that [of "normalized p"] show ?thesis by (simp add: update_conv' normalized_def)
qed

lemma moves_put:
  assumes "env_alone e" and "authority_ok (folding e) v" and "rs_revision (au_state v) + 1 < 2 ^ 63"
    and old: "\<And>i q. role_id = Some i \<or> role_id = None \<and> i \<in> range (uuid_text \<circ> re_uuid4 (ae_roles e)) \<Longrightarrow>
      map_of (rs_profiles (au_state v)) i = Some q \<Longrightarrow> set (rp_permissions q) \<subseteq> P"
    and new: "set (rq_permissions payload) \<subseteq> P"
  shows "moves e P v (on_policy (policy_upsert (ae_roles e) (ae_site e) (ae_directory e) (request_pairs payload) role_id expected))
    (\<lambda>_ v'. \<exists>i s1. (role_id = Some i \<or> role_id = None \<and> i \<in> range (uuid_text \<circ> re_uuid4 (ae_roles e))) \<and>
       changed_state (folding e) (au_state v) (Put_profile i (request_pairs payload)) = Some s1 \<and> v' = v\<lparr>au_state := written s1\<rparr>) C"
proof (rule moves_policy [OF assms(1) settled_changes(1) assms(2,3)])
  let ?K = "\<lambda>c. \<exists>i. c = Put_profile i (request_pairs payload) \<and> (role_id = Some i \<or> role_id = None \<and> i \<in> range (uuid_text \<circ> re_uuid4 (ae_roles e)))"
  have id: "py ''id'' \<notin> set (map fst (request_pairs payload))" by (simp add: request_pairs_def)
  show "pw_file p' = pw_file p \<and> isl r \<or>
      (\<exists>c. ?K c \<and> registry_directory.change_outcome (ae_registry e) (ae_roles e) (ae_site e) c expected (\<lambda>_ x. x = None) p p')"
    if "users_idle p" "policy_upsert (ae_roles e) (ae_site e) (ae_directory e) (request_pairs payload) role_id expected p = (r, p')" for p r p'
    using registry_directory.upsert_run [OF env_aloneD [OF assms(1)] that] by blast
  show "py ''id'' \<notin> set (map fst payload')" if "?K (Put_profile i payload')" for i payload' using that id by auto
  fix r :: "user_registry_exn role_policy_exn raised + role_profile" and c s1 x
  assume K: "?K c" and c: "changed_state (folding e) (au_state v) c = Some s1" and x: "x = None" and g: "guarded (au_accounts v) (au_active v) s1 x None"
  from K obtain i where i: "c = Put_profile i (request_pairs payload)" "role_id = Some i \<or> role_id = None \<and> i \<in> range (uuid_text \<circ> re_uuid4 (ae_roles e))"
    by blast
  note c' = c [unfolded i(1)]
  from put_fields [OF c'] new have "set (rp_permissions q) \<subseteq> P" if "map_of (rs_profiles s1) i = Some q" for q using that by (metis option.inject)
  with step_put [where cf = "folding e" and P = P, OF c' id _ old [OF i(2)] _ assms(3)] g x c' i
  show "authority_step (folding e) P v (v\<lparr>au_state := written s1\<rparr>) \<and>
      (\<forall>y. r = Inr y \<longrightarrow> (\<exists>i s. (role_id = Some i \<or> role_id = None \<and> i \<in> range (uuid_text \<circ> re_uuid4 (ae_roles e))) \<and>
       changed_state (folding e) (au_state v) (Put_profile i (request_pairs payload)) = Some s \<and> v\<lparr>au_state := written s1\<rparr> = v\<lparr>au_state := written s\<rparr>))"
    by blast
qed

lemma moves_drop:
  assumes "env_alone e" and "authority_ok (folding e) v" and "rs_revision (au_state v) + 1 < 2 ^ 63"
  shows "moves e P v (on_policy (policy_delete (ae_roles e) (ae_site e) (ae_directory e) i n))
    (\<lambda>_ v'. \<exists>s1. changed_state (folding e) (au_state v) (Drop_profile i) = Some s1 \<and> v' = v\<lparr>au_state := written s1\<rparr>) C"
proof (rule moves_policy [where K = "\<lambda>c. c = Drop_profile i" and expected = "Some n" and rep = "\<lambda>_ _ x. x = None", OF assms(1) settled_changes(3) assms(2,3)])
  show "pw_file p' = pw_file p \<and> isl r \<or>
      (\<exists>c. c = Drop_profile i \<and> registry_directory.change_outcome (ae_registry e) (ae_roles e) (ae_site e) c (Some n) (\<lambda>_ x. x = None) p p')"
    if "users_idle p" "policy_delete (ae_roles e) (ae_site e) (ae_directory e) i n p = (r, p')" for p r p'
    using registry_directory.delete_run [OF env_aloneD [OF assms(1)] that] by blast
qed (use step_drop [where cf = "folding e" and P = P, OF _ _ assms(3)] in auto)

text \<open>The account that a binding leaves.\<close>

definition bound_account :: "role_state \<Rightarrow> pystr option \<Rightarrow> user_account \<Rightarrow> user_account" where
  "bound_account s k a = (case Option.bind k (map_of (rs_profiles s)) of None \<Rightarrow> a | Some p \<Rightarrow> a\<lparr>uc_role := rp_base p\<rparr>)"

lemma moves_assign:
  assumes "env_alone e" and ok: "authority_ok (folding e) v" and "rs_revision (au_state v) + 1 < 2 ^ 63"
    and a: "known v i a" and old: "set (effective_permissions_in (au_state v) a) \<subseteq> P"
    and new: "set (binding_grant a (Option.bind k (map_of (rs_profiles (au_state v))))) \<subseteq> P"
  shows "moves e P v (on_policy (policy_assign (ae_roles e) (ae_site e) (ae_directory e) i k expected))
    (\<lambda>x v'. \<exists>s1. changed_state (folding e) (au_state v) (Bind_account i k) = Some s1 \<and> v' = v\<lparr>au_state := written s1\<rparr> \<and>
       x = bound_account (au_state v) k a \<and> guarded (au_accounts v) (au_active v) s1 (Some x) None) C"
proof (rule moves_policy [where K = "\<lambda>c. c = Bind_account i k" and expected = expected and
    rep = "\<lambda>r s x. x = Some (bound_account s k a) \<and> (\<forall>y. r = Inr y \<longrightarrow> x = Some y)", OF assms(1) settled_changes(2) assms(2,3)])
  fix p r p'
  assume p: "users_idle p" "accounts_in (ae_site e) (sq_db (pw_users p)) = au_accounts v"
    and run: "policy_assign (ae_roles e) (ae_site e) (ae_directory e) i k expected p = (r, p')"
  have a': "Some a \<in> set (au_accounts v)" "ua_id a = i" using a by (simp_all add: known_def)
  have "b = a" if "Some b \<in> set (au_accounts v)" "ua_id b = i" for b
    using authority_okD(3) [OF ok that(1) a'(1)] that(2) a'(2) by simp
  then have rep: "x = Some (bound_account s k a)" if "registry_directory.assigned (ae_registry e) p i k s x" for s x
    using that p(2) by (cases k) (auto simp: registry_directory.assigned_def bound_account_def)
  from registry_directory.assign_run [OF env_aloneD [OF assms(1)] p(1) run] rep
  show "pw_file p' = pw_file p \<and> isl r \<or> (\<exists>c. c = Bind_account i k \<and> registry_directory.change_outcome (ae_registry e) (ae_roles e) (ae_site e) c expected
      (\<lambda>s x. x = Some (bound_account s k a) \<and> (\<forall>y. r = Inr y \<longrightarrow> x = Some y)) p p')"
    unfolding registry_directory.change_outcome_def by fastforce
next
  fix r :: "user_registry_exn role_policy_exn raised + user_account" and c s1 x
  assume c: "c = Bind_account i k" "changed_state (folding e) (au_state v) c = Some s1"
    and x: "x = Some (bound_account (au_state v) k a) \<and> (\<forall>y. r = Inr y \<longrightarrow> x = Some y)" and g: "guarded (au_accounts v) (au_active v) s1 x None"
  from a have a': "Some a \<in> set (au_accounts v)" "ua_id a = i" by (simp_all add: known_def)
  from step_bind [where cf = "folding e" and P = P and k = k and a = a, OF _ a'(1) old refl new _ assms(3)] c x g a'(2)
  show "authority_step (folding e) P v (v\<lparr>au_state := written s1\<rparr>) \<and>
      (\<forall>y. r = Inr y \<longrightarrow> (\<exists>s. changed_state (folding e) (au_state v) (Bind_account i k) = Some s \<and> v\<lparr>au_state := written s1\<rparr> = v\<lparr>au_state := written s\<rparr> \<and>
         y = bound_account (au_state v) k a \<and> guarded (au_accounts v) (au_active v) s (Some y) None))"
    by (auto simp: bound_account_def)
qed simp

section \<open>A change of the registry\<close>

lemma unique_steps: "registry_steps g d d' \<Longrightarrow> unique_users d \<Longrightarrow> unique_users d'"
  by (induction rule: rtranclp_induct) (auto dest: step_unique)

lemma moves_registry:
  assumes "atomic m" and steps: "\<And>d y d'. effect m d y d' \<Longrightarrow> registry_steps (ae_registry e) d d'"
    and view: "\<And>d y d'. effect m d y d' \<Longrightarrow> unique_users d \<Longrightarrow> accounts_in (ae_site e) d = au_accounts v \<Longrightarrow> active_in (ae_site e) d = au_active v \<Longrightarrow>
      \<exists>accs act. accounts_in (ae_site e) d' = accs \<and> active_in (ae_site e) d' = act \<and>
        authority_steps (folding e) P v (v\<lparr>au_accounts := accs, au_active := act\<rparr>) \<and> Q y (v\<lparr>au_accounts := accs, au_active := act\<rparr>)"
  shows "moves e P v (on_registry m) Q C"
proof (rule movesI)
  fix w r w'
  assume i: "idle w" "stands e v w" and run: "on_registry m w = (r, w')"
  note before = stands_view [OF i]
  have nc: "r \<noteq> Inl (Exn Api_CancelledError)"
    using run by (auto simp: on_registry_def on_policy_def split: prod.splits sum.splits raised.splits)
  from run assms(1) i(1) show "lands e P v Q C r w'"
  proof (cases rule: on_registry_run)
    case raised
    then have "stands e v w'" using i(2)
      by (auto simp: stands_def authority_of_def state_of_def stored_def accounts_of_def active_of_def)
    with raised(1) nc show ?thesis by (cases r) (auto simp: lands_Inl)
  next
    case (returned y)
    from view [OF returned(2)] before obtain accs act where v': "accounts_in (ae_site e) (sq_db (aw_users w')) = accs"
      "active_in (ae_site e) (sq_db (aw_users w')) = act" "authority_steps (folding e) P v (v\<lparr>au_accounts := accs, au_active := act\<rparr>)"
      "Q y (v\<lparr>au_accounts := accs, au_active := act\<rparr>)" by blast
    have "unique_users (sq_db (aw_users w'))" using unique_steps [OF steps [OF returned(2)]] before by simp
    with v'(1,2) i(2) returned(3-6) have "stands e (v\<lparr>au_accounts := accs, au_active := act\<rparr>) w'"
      by (auto simp: stands_def authority_of_def state_of_def stored_def accounts_of_def active_of_def idle_committed)
    with v'(3,4) returned(1,3) show ?thesis by (auto simp: lands_Inr)
  qed
qed

lemma moves_update:
  assumes ok: "authority_ok (folding e) v" and a: "known v i a"
    and step: "\<And>u. patched p a = Inr u \<Longrightarrow> authority_step (folding e) P v (v\<lparr>au_accounts := replace_account u (au_accounts v)\<rparr>)"
  shows "moves e P v (on_registry (registry_update (ae_users e) (ae_registry e) i p actor x))
    (\<lambda>y v'. y = None \<and> v' = v \<or> (\<exists>u. y = Some u \<and> patched p a = Inr u \<and> v' = v\<lparr>au_accounts := replace_account u (au_accounts v)\<rparr>)) C"
proof (rule moves_registry [OF atomic_update steps_update])
  fix d y d'
  assume e: "effect (registry_update (ae_users e) (ae_registry e) i p actor x) d y d'" and d: "unique_users d"
    "accounts_in (ae_site e) d = au_accounts v" "active_in (ae_site e) d = au_active v"
  from view_update [OF e d(1)] show "\<exists>accs act. accounts_in (ae_site e) d' = accs \<and> active_in (ae_site e) d' = act \<and>
        authority_steps (folding e) P v (v\<lparr>au_accounts := accs, au_active := act\<rparr>) \<and>
        (y = None \<and> v\<lparr>au_accounts := accs, au_active := act\<rparr> = v \<or>
         (\<exists>u. y = Some u \<and> patched p a = Inr u \<and> v\<lparr>au_accounts := accs, au_active := act\<rparr> = v\<lparr>au_accounts := replace_account u (au_accounts v)\<rparr>))"
  proof (elim disjE exE conjE)
    fix cur u
    assume u: "y = Some u" "Some cur \<in> set (accounts_in (ae_site e) d)" "ua_id cur = i" "patched p cur = Inr u"
      and d': "accounts_in (ae_site e) d' = map (\<lambda>x. if map_option ua_id x = Some i then Some u else x) (accounts_in (ae_site e) d)"
        "active_in (ae_site e) d' = active_in (ae_site e) d"
    from u(2) d(2) a authority_okD(3) [OF ok] u(3) have "cur = a" by (auto simp: known_def)
    moreover from patched_wf [OF u(4)] u(3) have "ua_id u = i" by simp
    ultimately show ?thesis using u(1,4) d' d step [of u] by auto
  qed (use d in auto)
qed

lemma moves_create:
  assumes "set (BASE_PERMISSIONS (uc_role request)) \<subseteq> P" and "\<And>n. uuid_range (rn_uuid (ae_users e) n)"
  shows "moves e P v (on_registry (create_with_bootstrap (ae_users e) (ae_registry e) request actor ttl x))
    (\<lambda>y v'. v' = v\<lparr>au_accounts := au_accounts v @ [Some (fst y)]\<rparr> \<and> (\<forall>b. Some b \<in> set (au_accounts v) \<longrightarrow> ua_id b \<noteq> ua_id (fst y))) C"
proof (rule moves_registry [OF atomic_create_with_bootstrap effect_create_with_bootstrap])
  fix d y d'
  assume e: "effect (create_with_bootstrap (ae_users e) (ae_registry e) request actor ttl x) d y d'" and d:
    "accounts_in (ae_site e) d = au_accounts v" "active_in (ae_site e) d = au_active v"
  note n = view_create [OF e]
  from view_created_id [OF e] assms(2) have "uuid_range (ua_id (fst y))" by auto
  with n d assms(1) have "authority_step (folding e) P v (v\<lparr>au_accounts := au_accounts v @ [Some (fst y)]\<rparr>)"
    by (intro step_create) auto
  with n d show "\<exists>accs act. accounts_in (ae_site e) d' = accs \<and> active_in (ae_site e) d' = act \<and>
        authority_steps (folding e) P v (v\<lparr>au_accounts := accs, au_active := act\<rparr>) \<and>
        v\<lparr>au_accounts := accs, au_active := act\<rparr> = v\<lparr>au_accounts := au_accounts v @ [Some (fst y)]\<rparr> \<and>
        (\<forall>b. Some b \<in> set (au_accounts v) \<longrightarrow> ua_id b \<noteq> ua_id (fst y))"
    by auto
qed

lemma moves_reset:
  assumes a: "known v i a" and "set (effective_permissions_in (au_state v) a) \<subseteq> P"
    and "guarded (au_accounts v) (au_active v) (au_state v) None (Some i)"
  shows "moves e P v (on_registry (reset_bootstrap (ae_users e) (ae_registry e) i actor ttl))
    (\<lambda>y v'. \<exists>act. v' = v\<lparr>au_active := act\<rparr> \<and> (\<forall>j. j \<noteq> i \<longrightarrow> act j = au_active v j)) C"
proof (rule moves_registry [OF atomic_reset steps_reset])
  fix d y d'
  assume e: "effect (reset_bootstrap (ae_users e) (ae_registry e) i actor ttl) d y d'" and d:
    "accounts_in (ae_site e) d = au_accounts v" "active_in (ae_site e) d = au_active v"
  note n = view_reset [OF e]
  with d a assms(2,3) have "authority_step (folding e) P v (v\<lparr>au_active := active_in (ae_site e) d'\<rparr>)"
    by (intro step_reset [of a]) (auto simp: known_def)
  with n d show "\<exists>accs act. accounts_in (ae_site e) d' = accs \<and> active_in (ae_site e) d' = act \<and>
        authority_steps (folding e) P v (v\<lparr>au_accounts := accs, au_active := act\<rparr>) \<and>
        (\<exists>act'. v\<lparr>au_accounts := accs, au_active := act\<rparr> = v\<lparr>au_active := act'\<rparr> \<and> (\<forall>j. j \<noteq> i \<longrightarrow> act' j = au_active v j))"
    by (intro exI [of _ "au_accounts v"] exI [of _ "active_in (ae_site e) d'"]) auto
qed

lemma moves_camera: "moves e P v (on_registry (set_camera_access (ae_users e) (ae_registry e) i x actor)) (\<lambda>y v'. v' = v) C"
proof (rule moves_registry [OF atomic_set_camera effect_set_camera])
  fix d y d'
  assume e: "effect (set_camera_access (ae_users e) (ae_registry e) i x actor) d y d'" and d:
    "accounts_in (ae_site e) d = au_accounts v" "active_in (ae_site e) d = au_active v"
  from view_set_camera [OF e] d show "\<exists>accs act. accounts_in (ae_site e) d' = accs \<and> active_in (ae_site e) d' = act \<and>
        authority_steps (folding e) P v (v\<lparr>au_accounts := accs, au_active := act\<rparr>) \<and> v\<lparr>au_accounts := accs, au_active := act\<rparr> = v"
    by auto
qed

lemma moves_revoke: "moves e P v (revoke_sessions i) (\<lambda>_ v'. v' = v\<lparr>au_revoked := au_revoked v @ [i]\<rparr>) C"
proof (rule movesI)
  fix w r w'
  assume "idle w" "stands e v w" "revoke_sessions i w = (r, w')"
  then show "lands e P v (\<lambda>_ v'. v' = v\<lparr>au_revoked := au_revoked v @ [i]\<rparr>) C r w'"
    using step_revoke [of "folding e" P v i]
    by (auto simp: revoke_sessions_def act_update_def lands_Inr stands_def authority_of_def state_of_def stored_def accounts_of_def active_of_def idle_def)
qed

section \<open>The guards\<close>

definition same_file :: "registry_world policy_world \<Rightarrow> registry_world policy_world \<Rightarrow> bool" where
  "same_file p p' \<longleftrightarrow> pw_file p' = pw_file p"

interpretation file_frame: act_frame same_file
  by unfold_locales (simp_all add: same_file_def)

lemma calm_settled:
  assumes "settled e m" and "leaves same_file m"
  shows "calm e (on_policy m)"
  unfolding quiet_in_def
proof (intro allI impI)
  fix w r w'
  assume i: "idle w" and "on_policy m w = (r, w')"
  then obtain r1 p where m: "m (aw_policy w) = (r1, p)" and w': "w' = w\<lparr>aw_policy := p\<rparr>" and r: "isl r = isl r1" by (auto elim: on_policy_run)
  from i have "users_idle (aw_policy w)" by (simp add: idle_def)
  from quietD [OF assms(1) this m] leavesD [OF assms(2) m] r show "kept e w w' \<and> (isl r \<or> idle w')"
    by (simp add: w' kept_def users_kept_def active_of_def idle_def same_file_def)
qed

lemma leaves_weaken: "leaves R m \<Longrightarrow> (\<And>p p'. R p p' \<Longrightarrow> S p p') \<Longrightarrow> leaves S m"
  unfolding leaves_def by blast

lemma same_file_guard: "leaves same_file (policy_guard users s replacement excluded)"
  by (rule leaves_weaken [OF guard_only]) (simp add: users_only_def same_file_def)

lemma same_file_read: "env_alone e \<Longrightarrow> leaves same_file (policy_read (ae_roles e) site)"
  by (rule leaves_weaken [OF untouched_read]) (simp add: untouched_def env_alone_def same_file_def)

lemma calm_guards [calm_intros]:
  assumes "env_alone e"
  shows "calm e (on_policy (guard_account_change (ae_roles e) (ae_site e) (ae_directory e) a c))"
    and "calm e (on_policy (guard_credential_reset (ae_roles e) (ae_site e) (ae_directory e) a))"
proof -
  show "calm e (on_policy (guard_account_change (ae_roles e) (ae_site e) (ae_directory e) a c))"
    by (rule calm_settled [OF settled_changes(4)])
      (unfold guard_account_change_def, intro file_frame.leaves_intros same_file_guard same_file_read assms)
  show "calm e (on_policy (guard_credential_reset (ae_roles e) (ae_site e) (ae_directory e) a))"
    by (rule calm_settled [OF settled_changes(5)])
      (unfold guard_credential_reset_def, intro file_frame.leaves_intros same_file_guard same_file_read assms)
qed

lemma on_policy_Inr: "on_policy m w = (Inr x, w') \<Longrightarrow> \<exists>p. m (aw_policy w) = (Inr x, p)"
  by (auto simp: on_policy_def split: prod.splits sum.splits raised.splits)

lemma tells_guard_change:
  assumes "env_alone e"
  shows "tells e v (on_policy (guard_account_change (ae_roles e) (ae_site e) (ae_directory e) a c))
    (\<lambda>_. (ac_role c = None \<or> map_of (rs_bindings (au_state v)) (uuid_text (ua_id a)) = None) \<and>
      guarded (au_accounts v) (au_active v) (au_state v) (Some (with_changes c a)) None)"
  unfolding tells_def
proof (intro allI impI)
  fix w x w'
  assume i: "idle w" "stands e v w" and run: "on_policy (guard_account_change (ae_roles e) (ae_site e) (ae_directory e) a c) w = (Inr x, w')"
  from on_policy_Inr [OF run] obtain p where p: "guard_account_change (ae_roles e) (ae_site e) (ae_directory e) a c (aw_policy w) = (Inr x, p)" by blast
  from registry_directory.guard_change_run [OF env_aloneD [OF assms] _ p] i(1) stands_state [OF i(2)] stands_view [OF i]
  show "(ac_role c = None \<or> map_of (rs_bindings (au_state v)) (uuid_text (ua_id a)) = None) \<and>
      guarded (au_accounts v) (au_active v) (au_state v) (Some (with_changes c a)) None"
    by (auto simp: idle_def)
qed

lemma tells_guard_reset:
  assumes "env_alone e"
  shows "tells e v (on_policy (guard_credential_reset (ae_roles e) (ae_site e) (ae_directory e) a))
    (\<lambda>_. guarded (au_accounts v) (au_active v) (au_state v) None (Some (ua_id a)))"
  unfolding tells_def
proof (intro allI impI)
  fix w x w'
  assume i: "idle w" "stands e v w" and run: "on_policy (guard_credential_reset (ae_roles e) (ae_site e) (ae_directory e) a) w = (Inr x, w')"
  from on_policy_Inr [OF run] obtain p where p: "guard_credential_reset (ae_roles e) (ae_site e) (ae_directory e) a (aw_policy w) = (Inr x, p)" by blast
  from registry_directory.guard_reset_run [OF env_aloneD [OF assms] _ p] i(1) stands_state [OF i(2)] stands_view [OF i]
  show "guarded (au_accounts v) (au_active v) (au_state v) None (Some (ua_id a))"
    by (auto simp: idle_def)
qed

end
