(* ===== verification/Admin_Routes.thy ===== *)
theory Admin_Routes
  imports Admin_Changes
begin

text \<open>
  Each route that changes accounts or roles takes the authority through steps within what its actor
  holds; and an answered or cancelled request has ended the sessions of every account it touched.
\<close>

section \<open>Ended sessions\<close>

definition sessions_ended :: "authority \<Rightarrow> authority \<Rightarrow> bool" where
  "sessions_ended v v' \<longleftrightarrow> (\<forall>a. Some a \<in> set (au_accounts v) \<longrightarrow> touched v v' (ua_id a) \<longrightarrow> ua_id a \<in> set (au_revoked v'))"

declare changed_state.simps [simp del]

lemma sessions_ended_refl [simp]: "sessions_ended v v"
  by (simp add: sessions_ended_def touched_def)

lemma touched_policy:
  assumes ok: "authority_ok cf v" and s1: "role_state_ok cf s1" "rs_revision s1 + 1 < 2 ^ 63"
    and a: "Some a \<in> set (au_accounts v)" and e: "effective_permissions_in s1 a = effective_permissions_in (au_state v) a"
  shows "\<not> touched v (v\<lparr>au_state := written s1, au_revoked := us\<rparr>) (ua_id a)"
proof -
  let ?v = "v\<lparr>au_state := written s1, au_revoked := us\<rparr>"
  have "effective_permissions_in (written s1) b = effective_permissions_in (au_state v) b" if "Some b \<in> set (au_accounts v)" "ua_id b = ua_id a" for b
  proof -
    from authority_okD(3) [OF ok that(1) a that(2)] have "b = a" .
    with e permissions_cong [of "written s1" a s1] written_ok(3,4) [OF s1] show ?thesis by simp
  qed
  then have "holds ?v (ua_id a) = holds v (ua_id a)" by (intro holds_cong) simp_all
  then show ?thesis by (simp add: touched_def)
qed

lemma touched_replaced:
  assumes "i \<noteq> ua_id u"
  shows "\<not> touched v (v\<lparr>au_accounts := replace_account u (au_accounts v), au_revoked := us\<rparr>) i"
proof -
  let ?v = "v\<lparr>au_accounts := replace_account u (au_accounts v), au_revoked := us\<rparr>"
  have acc: "au_accounts ?v = replace_account u (au_accounts v)" by simp
  have "Some b \<in> set (au_accounts ?v) \<longleftrightarrow> Some b \<in> set (au_accounts v)" if "ua_id b = i" for b
    using that assms unfolding acc in_replaced by auto
  then have "holds ?v i = holds v i" by (intro holds_cong) simp_all
  then show ?thesis by (simp add: touched_def)
qed

section \<open>Failures are no cancellations\<close>

lemma role_failure_answer: "role_failure x \<noteq> Api_CancelledError"
  by (cases x rule: role_failure.cases) simp_all

lemma registry_error_answer: "registry_error x \<noteq> Api_CancelledError"
  by (cases x rule: registry_error.cases) simp_all

lemma moves_role_except: "moves e P v m Q C \<Longrightarrow> moves e P v (role_except caught m) Q C"
  unfolding role_except_def by (rule moves_except) (auto simp: role_failure_answer split: if_splits)

lemma moves_admin_except: "moves e P v m Q C \<Longrightarrow> moves e P v (admin_except caught b m) Q C"
  unfolding admin_except_def by (rule moves_except) (auto simp: registry_error_answer split: if_splits)

lemma never_policy [simp]: "never_cancelled (on_policy m)"
  by (auto simp: never_cancelled_def on_policy_def split: prod.splits sum.splits raised.splits)

lemma never_registry [simp]: "never_cancelled (on_registry m)"
  by (simp add: on_registry_def)

section \<open>Role routes\<close>

lemma actor_holds:
  assumes "authority_ok cf v" and "known v i a" and "uc_enabled a"
  shows "set (effective_permissions_in (au_state v) a) = holds v i"
  using holds_account [OF assms(1), of a] assms(2,3) by (simp add: known_def)

text \<open>A route begins with its actor, and what it must hold for the rest.\<close>

lemma moves_role_route:
  assumes "env_alone e" and ok: "authority_ok (folding e) v" and "C v"
    and "\<And>a. known v (ua_id who) a \<Longrightarrow> set (effective_permissions_in (au_state v) a) = holds v (ua_id who) \<Longrightarrow> moves e P v (f a) Q C"
  shows "moves e P v (act_bind (role_actor e permission who) (\<lambda>a. role_except caught (f a))) Q C"
proof (rule moves_after_read [OF calm_role_actor tells_role_actor])
  fix a
  assume "known v (ua_id who) a \<and> uc_enabled a"
  with actor_holds [OF ok] assms(4) show "moves e P v (role_except caught (f a)) Q C" by (intro moves_role_except) blast
qed (use assms in auto)

lemma moves_grant:
  assumes "env_alone e" and "C v" and "set ps \<subseteq> set (effective_permissions_in (au_state v) a) \<Longrightarrow> moves e P v (f ()) Q C"
  shows "moves e P v (act_bind (require_grant e a ps) f) Q C"
  by (rule moves_after_read [OF calm_require_grant tells_grant]) (use assms in auto)

lemma moves_last_snapshot:
  assumes "env_alone e" and "\<And>x. Q (g x) v"
  shows "moves e P v (act_bind (snapshot_api e) (\<lambda>x. act_return (g x))) Q C"
  by (rule moves_after_read [OF calm_snapshot tells_any]) (use assms in \<open>auto simp: snapshot_api_def intro: moves_return\<close>)

lemma create_role_moves:
  assumes alone: "env_alone e" and ok: "authority_ok (folding e) v" and rev: "rs_revision (au_state v) + 1 < 2 ^ 63"
    and fresh: "\<And>n. uuid_text (re_uuid4 (ae_roles e) n) \<notin> set (map fst (rs_profiles (au_state v)))"
  shows "moves e (holds v (ua_id who)) v (create_role e permission who payload) (\<lambda>_. sessions_ended v) (sessions_ended v)"
  unfolding create_role_def
proof (intro moves_role_route moves_grant alone ok sessions_ended_refl)
  fix a
  assume a: "set (effective_permissions_in (au_state v) a) = holds v (ua_id who)" and new: "set (rq_permissions payload) \<subseteq> set (effective_permissions_in (au_state v) a)"
  have none: "map_of (rs_profiles (au_state v)) i = None" if "i \<in> range (uuid_text \<circ> re_uuid4 (ae_roles e))" for i
    using that fresh by (auto simp: map_of_eq_None_iff)
  have ended: "sessions_ended v (v\<lparr>au_state := written s1\<rparr>)"
    if i: "i \<in> range (uuid_text \<circ> re_uuid4 (ae_roles e))" and c: "changed_state (folding e) (au_state v) (Put_profile i (request_pairs payload)) = Some s1" for i s1
  proof -
    have s1: "role_state_ok (folding e) s1 \<and> rs_revision s1 = rs_revision (au_state v)"
      by (rule changed_state_ok [OF authority_okD(1) [OF ok] c]) (auto simp: request_pairs_def)
    have "effective_permissions_in s1 b = effective_permissions_in (au_state v) b" for b
    proof (rule permissions_at)
      have "map_of (rs_bindings (au_state v)) (uuid_text (ua_id b)) \<noteq> Some i"
        using bound_profile(2) [OF authority_okD(1) [OF ok]] none [OF i] by fastforce
      with put_state [OF c] show "Option.bind (map_of (rs_bindings s1) (uuid_text (ua_id b))) (map_of (rs_profiles s1)) =
          Option.bind (map_of (rs_bindings (au_state v)) (uuid_text (ua_id b))) (map_of (rs_profiles (au_state v)))"
        by (cases "map_of (rs_bindings (au_state v)) (uuid_text (ua_id b))") auto
    qed
    then show ?thesis
      using touched_policy [OF ok conjunct1 [OF s1], of _ "au_revoked v"] s1 rev by (auto simp: sessions_ended_def)
  qed
  show "moves e (holds v (ua_id who)) v (act_bind (on_policy (policy_upsert (ae_roles e) (ae_site e) (ae_directory e) (request_pairs payload) None None))
       (\<lambda>role. act_bind (snapshot_api e) (\<lambda>snap. act_return (role, snap)))) (\<lambda>_. sessions_ended v) (sessions_ended v)"
  proof (rule moves_bind, rule moves_conseq [OF moves_put [OF alone ok rev]])
    show "set (rq_permissions payload) \<subseteq> holds v (ua_id who)" using a new by simp
  next
    fix role v'
    assume "\<exists>i s1. (None = Some i \<or> None = (None :: pystr option) \<and> i \<in> range (uuid_text \<circ> re_uuid4 (ae_roles e))) \<and>
       changed_state (folding e) (au_state v) (Put_profile i (request_pairs payload)) = Some s1 \<and> v' = v\<lparr>au_state := written s1\<rparr>"
    then have "sessions_ended v v'" using ended by blast
    then show "moves e (holds v (ua_id who)) v' (act_bind (snapshot_api e) (\<lambda>snap. act_return (role, snap))) (\<lambda>_. sessions_ended v) (sessions_ended v)"
      by (intro moves_last_snapshot [OF alone])
  qed (use none in simp)
qed

lemma role_named_Some:
  assumes "role_named i snap = Some p" and "ro_roles snap = map snd (rs_profiles s)" and ok: "role_state_ok cf s"
  shows "map_of (rs_profiles s) i = Some p"
proof -
  from assms(1,2) have "p \<in> set (map snd (rs_profiles s))" "rp_id p = i" by (auto simp: role_named_def find_Some_iff)
  then obtain k where "(k, p) \<in> set (rs_profiles s)" by auto
  moreover from this ok have "k = rp_id p" unfolding role_state_ok_def list_all_iff by blast
  moreover from ok have "distinct (map fst (rs_profiles s))" unfolding role_state_ok_def by blast
  ultimately show ?thesis using \<open>rp_id p = i\<close> by simp
qed

lemma moves_revoke_all:
  "moves e P v (revoke_all us) (\<lambda>_ v'. v' = v\<lparr>au_revoked := au_revoked v @ map text_uuid us\<rparr>) C"
proof (induction us arbitrary: v)
  case (Cons u us)
  have "moves e P v (act_bind (revoke_sessions (text_uuid u)) (\<lambda>_. revoke_all us)) (\<lambda>_ v'. v' = v\<lparr>au_revoked := au_revoked v @ map text_uuid (u # us)\<rparr>) C"
    by (rule moves_bind, rule moves_conseq [OF moves_revoke]) (use Cons [of "v\<lparr>au_revoked := au_revoked v @ [text_uuid u]\<rparr>"] in simp)
  then show ?case by simp
qed (simp add: moves_return)

definition bound_ids :: "authority \<Rightarrow> pystr \<Rightarrow> pystr list" where
  "bound_ids v i = map fst (filter (\<lambda>(u, r). r = i) (rs_bindings (au_state v)))"

lemma moves_revoke_bound:
  assumes "env_alone e"
  shows "moves e P v (revoke_bound e i) (\<lambda>_ v'. v' = v\<lparr>au_revoked := au_revoked v @ map text_uuid (bound_ids v i)\<rparr>) C"
  unfolding revoke_bound_def
  by (rule moves_after_read [OF calm_bound [OF assms] tells_bound [OF assms]])
    (use moves_revoke_all [of e P v "bound_ids v i" C] in \<open>simp_all add: bound_ids_def\<close>)

lemma put_ended:
  assumes ok: "authority_ok cf v" and rev: "rs_revision (au_state v) + 1 < 2 ^ 63" and c: "changed_state cf (au_state v) (Put_profile i (request_pairs q)) = Some s1"
  shows "sessions_ended v (v\<lparr>au_state := written s1, au_revoked := us @ map text_uuid (bound_ids (v\<lparr>au_state := written s1\<rparr>) i)\<rparr>)"
  unfolding sessions_ended_def
proof (intro allI impI)
  fix a
  let ?v = "v\<lparr>au_state := written s1, au_revoked := us @ map text_uuid (bound_ids (v\<lparr>au_state := written s1\<rparr>) i)\<rparr>"
  assume a: "Some a \<in> set (au_accounts v)" and t: "touched v ?v (ua_id a)"
  have s1: "role_state_ok cf s1 \<and> rs_revision s1 = rs_revision (au_state v)"
    by (rule changed_state_ok [OF authority_okD(1) [OF ok] c]) (auto simp: request_pairs_def)
  have "effective_permissions_in s1 a \<noteq> effective_permissions_in (au_state v) a"
    using touched_policy [OF ok conjunct1 [OF s1] _ a] t s1 rev by auto
  then have "map_of (rs_bindings (au_state v)) (uuid_text (ua_id a)) = Some i"
    using permissions_at [of s1 a "au_state v"] put_state [OF c]
    by (cases "map_of (rs_bindings (au_state v)) (uuid_text (ua_id a))") auto
  then have "(uuid_text (ua_id a), i) \<in> set (rs_bindings (written s1))"
    using written_ok(5) [of cf s1] s1 rev put_state(1) [OF c] by (auto dest: map_of_SomeD)
  then have "uuid_text (ua_id a) \<in> set (bound_ids (v\<lparr>au_state := written s1\<rparr>) i)"
    by (force simp: bound_ids_def)
  then have "text_uuid (uuid_text (ua_id a)) \<in> set (au_revoked ?v)" by simp
  then show "ua_id a \<in> set (au_revoked ?v)" using text_uuid_text authority_okD(2) [OF ok a] by simp
qed

lemma update_role_moves:
  assumes alone: "env_alone e" and ok: "authority_ok (folding e) v" and rev: "rs_revision (au_state v) + 1 < 2 ^ 63"
  shows "moves e (holds v (ua_id who)) v (update_role e permission who role_id payload expected) (\<lambda>_. sessions_ended v) (sessions_ended v)"
  unfolding update_role_def
proof (intro moves_role_route alone ok sessions_ended_refl, rule moves_after_read [OF calm_snapshot [OF alone] tells_snapshot [OF alone]])
  fix a and snap :: role_snapshot
  let ?P = "holds v (ua_id who)" and ?i = "uuid_text role_id"
  assume a: "set (effective_permissions_in (au_state v) a) = ?P" and snap: "ro_roles snap = map snd (rs_profiles (au_state v))"
  have rest: "moves e ?P v (act_bind (on_policy (policy_upsert (ae_roles e) (ae_site e) (ae_directory e) (request_pairs payload) (Some ?i) (Some expected)))
      (\<lambda>role. act_bind (revoke_bound e ?i) (\<lambda>_. act_bind (snapshot_api e) (\<lambda>after. act_return (role, after))))) (\<lambda>_. sessions_ended v) (sessions_ended v)"
    if "map_of (rs_profiles (au_state v)) ?i = Some p" "set (rp_permissions p) \<subseteq> ?P" "set (rq_permissions payload) \<subseteq> ?P" for p
  proof (rule moves_bind, rule moves_conseq [OF moves_put [OF alone ok rev _ that(3)]])
    fix role v1
    assume "\<exists>i s1. (Some ?i = Some i \<or> Some ?i = None \<and> i \<in> range (uuid_text \<circ> re_uuid4 (ae_roles e))) \<and>
       changed_state (folding e) (au_state v) (Put_profile i (request_pairs payload)) = Some s1 \<and> v1 = v\<lparr>au_state := written s1\<rparr>"
    then obtain s1 where c: "changed_state (folding e) (au_state v) (Put_profile ?i (request_pairs payload)) = Some s1" and v1: "v1 = v\<lparr>au_state := written s1\<rparr>"
      by auto
    show "moves e ?P v1 (act_bind (revoke_bound e ?i) (\<lambda>_. act_bind (snapshot_api e) (\<lambda>after. act_return (role, after)))) (\<lambda>_. sessions_ended v) (sessions_ended v)"
    proof (rule moves_bind, rule moves_conseq [OF moves_revoke_bound [OF alone]])
      fix x v2
      assume "v2 = v1\<lparr>au_revoked := au_revoked v1 @ map text_uuid (bound_ids v1 ?i)\<rparr>"
      with put_ended [OF ok rev c, of "au_revoked v"] v1 have "sessions_ended v v2" by simp
      then show "moves e ?P v2 (act_bind (snapshot_api e) (\<lambda>after. act_return (role, after))) (\<lambda>_. sessions_ended v) (sessions_ended v)"
        by (intro moves_last_snapshot [OF alone])
    qed
  qed (use that in auto)
  show "moves e ?P v (case role_named ?i snap of None \<Rightarrow> role_not_found
     | Some previous \<Rightarrow> act_bind (require_grant e a (rp_permissions previous)) (\<lambda>_. act_bind (require_grant e a (rq_permissions payload)) (\<lambda>_.
         act_bind (on_policy (policy_upsert (ae_roles e) (ae_site e) (ae_directory e) (request_pairs payload) (Some ?i) (Some expected)))
          (\<lambda>role. act_bind (revoke_bound e ?i) (\<lambda>_. act_bind (snapshot_api e) (\<lambda>after. act_return (role, after)))))))
     (\<lambda>_. sessions_ended v) (sessions_ended v)"
  proof (cases "role_named ?i snap")
    case (Some p)
    note p = role_named_Some [OF Some snap authority_okD(1) [OF ok]]
    show ?thesis unfolding Some option.case
      by (intro moves_grant alone sessions_ended_refl rest [OF p]) (simp_all add: a)
  qed (simp add: moves_raise)
qed simp

lemma delete_role_moves:
  assumes alone: "env_alone e" and ok: "authority_ok (folding e) v" and rev: "rs_revision (au_state v) + 1 < 2 ^ 63"
  shows "moves e (holds v (ua_id who)) v (delete_role e permission who role_id expected) (\<lambda>_. sessions_ended v) (sessions_ended v)"
  unfolding delete_role_def
proof (intro moves_role_route alone ok sessions_ended_refl, rule moves_after_read [OF calm_snapshot [OF alone] tells_snapshot [OF alone]])
  fix a and snap :: role_snapshot
  let ?P = "holds v (ua_id who)" and ?i = "uuid_text role_id"
  have ended: "sessions_ended v (v\<lparr>au_state := written s1\<rparr>)" if c: "changed_state (folding e) (au_state v) (Drop_profile ?i) = Some s1" for s1
  proof -
    have s1: "role_state_ok (folding e) s1 \<and> rs_revision s1 = rs_revision (au_state v)"
      by (rule changed_state_ok [OF authority_okD(1) [OF ok] c]) simp
    with touched_policy [OF ok conjunct1 [OF s1], of _ "au_revoked v"] drop_each [OF authority_okD(1) [OF ok] c] rev
    show ?thesis by (auto simp: sessions_ended_def)
  qed
  have "moves e ?P v (on_policy (policy_delete (ae_roles e) (ae_site e) (ae_directory e) ?i expected)) (\<lambda>_. sessions_ended v) (sessions_ended v)"
    by (rule moves_conseq [OF moves_drop [OF alone ok rev]]) (use ended in blast)
  then show "moves e ?P v (case role_named ?i snap of None \<Rightarrow> role_not_found
     | Some previous \<Rightarrow> act_bind (require_grant e a (rp_permissions previous)) (\<lambda>_. on_policy (policy_delete (ae_roles e) (ae_site e) (ae_directory e) ?i expected)))
     (\<lambda>_. sessions_ended v) (sessions_ended v)"
    by (cases "role_named ?i snap") (auto intro!: moves_grant [OF alone] moves_raise)
qed simp

section \<open>Assigning a role\<close>

lemma bind_ended:
  assumes ok: "authority_ok cf v" and rev: "rs_revision (au_state v) + 1 < 2 ^ 63" and a: "known v i a"
    and c: "changed_state cf (au_state v) (Bind_account i k) = Some s1" and u: "ua_id u = i" and i: "i \<in> set us"
    and accs: "accs = au_accounts v \<or> accs = replace_account u (au_accounts v)"
  shows "sessions_ended v (v\<lparr>au_state := written s1, au_accounts := accs, au_revoked := us\<rparr>)"
  unfolding sessions_ended_def
proof (intro allI impI)
  fix b
  let ?v = "v\<lparr>au_state := written s1, au_accounts := accs, au_revoked := us\<rparr>"
  assume b: "Some b \<in> set (au_accounts v)" and t: "touched v ?v (ua_id b)"
  have s1: "role_state_ok cf s1 \<and> rs_revision s1 = rs_revision (au_state v)"
    by (rule changed_state_ok [OF authority_okD(1) [OF ok] c]) simp
  have range: "uuid_range i" using a authority_okD(2) [OF ok] by (auto simp: known_def)
  have "ua_id b = i"
  proof (rule ccontr)
    assume n: "ua_id b \<noteq> i"
    have acc: "au_accounts ?v = accs" by simp
    have "Some d \<in> set (au_accounts ?v) \<longleftrightarrow> Some d \<in> set (au_accounts v)" if "ua_id d = ua_id b" for d
      unfolding acc using accs that n u by (elim disjE; simp only: in_replaced) auto
    moreover have "effective_permissions_in (written s1) d = effective_permissions_in (au_state v) d"
      if "Some d \<in> set (au_accounts v)" "ua_id d = ua_id b" for d
      using bind_others [OF c range authority_okD(2) [OF ok that(1)]] that(2) n permissions_cong [of "written s1" d s1] written_ok(3,4) [of cf s1] s1 rev
      by simp
    ultimately have "holds ?v (ua_id b) = holds v (ua_id b)" by (intro holds_cong) simp_all
    with t show False by (simp add: touched_def)
  qed
  with i show "ua_id b \<in> set (au_revoked ?v)" by simp
qed

lemma apply_base_role_moves:
  assumes ok: "authority_ok (folding e) v" and rev: "rs_revision (au_state v) + 1 < 2 ^ 63" and a: "known v i a"
    and c: "changed_state (folding e) (au_state v) (Bind_account i k) = Some s1"
    and new: "set (binding_grant a (Option.bind k (map_of (rs_profiles (au_state v))))) \<subseteq> P"
    and x: "x = bound_account (au_state v) k a" and g: "guarded (au_accounts v) (au_active v) s1 (Some x) None"
  shows "moves e P (v\<lparr>au_state := written s1\<rparr>) (apply_base_role e current i x) (\<lambda>_. sessions_ended v) (sessions_ended v)"
  unfolding apply_base_role_def
proof (rule moves_after_read [OF calm_user_get tells_get])
  fix y
  let ?v1 = "v\<lparr>au_state := written s1\<rparr>" and ?p = "\<lparr>up_display_name = None, up_role = Some (uc_role x), up_enabled = None\<rparr>"
  assume y: "\<forall>b. y = Some b \<longrightarrow> known ?v1 i b"
  have s1: "role_state_ok (folding e) s1" "rs_revision s1 + 1 < 2 ^ 63" "rs_revision s1 = rs_revision (au_state v)"
    using changed_state_ok [OF authority_okD(1) [OF ok] c] rev by auto
  have ok1: "authority_ok (folding e) ?v1" using ok_written [OF ok c rev] by simp
  have same: "b = a" if "known ?v1 i b" for b using that a authority_okD(3) [OF ok, of b a] by (simp add: known_def)
  have ended: "moves e P v2 (act_bind (revoke_sessions i) f) (\<lambda>_. sessions_ended v) (sessions_ended v)"
    if v2: "v2 = ?v1\<lparr>au_accounts := accs\<rparr>" "accs = au_accounts v \<or> (\<exists>u. ua_id u = i \<and> accs = replace_account u (au_accounts v))"
      and f: "\<And>v3. sessions_ended v v3 \<Longrightarrow> moves e P v3 (f ()) (\<lambda>_. sessions_ended v) (sessions_ended v)" for v2 accs and f :: "unit \<Rightarrow> user_account api"
  proof (rule moves_bind, rule moves_conseq [OF moves_revoke])
    fix z v3
    assume "v3 = v2\<lparr>au_revoked := au_revoked v2 @ [i]\<rparr>"
    moreover from v2(2) obtain u where "ua_id u = i" "accs = au_accounts v \<or> accs = replace_account u (au_accounts v)"
      using a by (auto simp: known_def)
    ultimately have "sessions_ended v v3" using bind_ended [OF ok rev a c, of u "au_revoked v @ [i]" accs] v2(1) by simp
    then show "moves e P v3 (f z) (\<lambda>_. sessions_ended v) (sessions_ended v)" using f by simp
  qed
  show "moves e P ?v1 (case y of None \<Rightarrow> act_raise Api_AttributeError
     | Some b \<Rightarrow> if uc_role b \<noteq> uc_role x then
           act_bind (on_registry (registry_update (ae_users e) (ae_registry e) i ?p (uc_username current) None)) (\<lambda>b.
           act_bind (revoke_sessions i) (\<lambda>_. case b of None \<Rightarrow> act_raise Api_AttributeError | Some b \<Rightarrow> act_return b))
         else act_bind (revoke_sessions i) (\<lambda>_. act_return b)) (\<lambda>_. sessions_ended v) (sessions_ended v)"
  proof (cases y)
    case (Some b)
    with y same have b: "b = a" by blast
    show ?thesis
    proof (cases "uc_role a = uc_role x")
      case True
      then show ?thesis using Some b by (auto intro!: ended [of _ "au_accounts v"] moves_return)
    next
      case False
      with x obtain p where p: "Option.bind k (map_of (rs_profiles (au_state v))) = Some p" "x = a\<lparr>uc_role := rp_base p\<rparr>"
        by (auto simp: bound_account_def split: option.splits)
      then obtain r where r: "k = Some r" "map_of (rs_profiles (au_state v)) r = Some p" by (auto simp: bind_eq_Some_conv)
      have lookups: "map_of (rs_bindings (written s1)) (uuid_text i) = Some r" "map_of (rs_profiles (written s1)) r = Some p"
        using written_ok(3,4) [OF s1(1,2)] bind_state(1,2) [OF c] r by simp_all
      have g1: "guarded (au_accounts v) (au_active v) (written s1) (Some x) None"
        using g full_written [OF s1(1,2)] by (simp add: guarded_def qualifies_def)
      have step: "authority_step (folding e) P ?v1 (?v1\<lparr>au_accounts := replace_account u (au_accounts ?v1)\<rparr>)" if "patched ?p a = Inr u" for u
      proof (rule step_base_role)
        show "alike u (a\<lparr>uc_role := rp_base p\<rparr>)"
          using that p(2) mk_user_account_Inr by (auto simp: patched_def alike_def k5_inv)
      qed (use a lookups g1 p new in \<open>auto simp: known_def binding_grant_def\<close>)
      have a1: "known ?v1 i a" using a by (simp add: known_def)
      have "moves e P ?v1 (act_bind (on_registry (registry_update (ae_users e) (ae_registry e) i ?p (uc_username current) None)) (\<lambda>b.
           act_bind (revoke_sessions i) (\<lambda>_. case b of None \<Rightarrow> act_raise Api_AttributeError | Some b \<Rightarrow> act_return b)))
           (\<lambda>_. sessions_ended v) (sessions_ended v)"
      proof (rule moves_bind, rule moves_conseq [OF moves_update [OF ok1 a1 step]])
        fix z v2
        assume "z = None \<and> v2 = ?v1 \<or> (\<exists>u. z = Some u \<and> patched ?p a = Inr u \<and> v2 = ?v1\<lparr>au_accounts := replace_account u (au_accounts ?v1)\<rparr>)"
        moreover have "ua_id u = i" if "patched ?p a = Inr u" for u using patched_wf [OF that] a by (simp add: known_def)
        ultimately have "v2 = ?v1\<lparr>au_accounts := au_accounts v2\<rparr>" "au_accounts v2 = au_accounts v \<or> (\<exists>u. ua_id u = i \<and> au_accounts v2 = replace_account u (au_accounts v))"
          by (auto; metis)+
        then show "moves e P v2 (act_bind (revoke_sessions i) (\<lambda>_. case z of None \<Rightarrow> act_raise Api_AttributeError | Some b \<Rightarrow> act_return b))
            (\<lambda>_. sessions_ended v) (sessions_ended v)"
          by (rule ended) (auto intro: moves_raise moves_return split: option.split)
      qed
      then show ?thesis using Some b False by simp
    qed
  qed (simp add: moves_raise)
qed simp

lemma assign_role_moves:
  assumes alone: "env_alone e" and ok: "authority_ok (folding e) v" and rev: "rs_revision (au_state v) + 1 < 2 ^ 63"
  shows "moves e (holds v (ua_id who)) v (assign_role e permission who i role_id expected) (\<lambda>_. sessions_ended v) (sessions_ended v)"
  unfolding assign_role_def
proof (intro moves_role_route alone ok sessions_ended_refl, rule moves_after_read [OF calm_user_get tells_get])
  fix current target
  let ?P = "holds v (ua_id who)" and ?k = "map_option uuid_text role_id"
  assume cur: "set (effective_permissions_in (au_state v) current) = ?P" and t: "\<forall>a. target = Some a \<longrightarrow> known v i a"
  have rest: "moves e ?P v (act_bind (on_policy (policy_assign (ae_roles e) (ae_site e) (ae_directory e) i ?k expected)) (\<lambda>replacement.
           act_bind (apply_base_role e current i replacement) (\<lambda>account.
           act_bind (on_policy (account_fields (ae_roles e) (ae_site e) account)) (\<lambda>fields_of.
           act_bind (snapshot_api e) (\<lambda>after. act_return (account, fields_of, ro_revision after)))))) (\<lambda>_. sessions_ended v) (sessions_ended v)"
    if a: "known v i a" and old: "set (effective_permissions_in (au_state v) a) \<subseteq> ?P"
      and new: "set (binding_grant a (Option.bind ?k (map_of (rs_profiles (au_state v))))) \<subseteq> ?P" for a
  proof (rule moves_bind, rule moves_conseq [OF moves_assign [OF alone ok rev a old new]])
    fix x v1
    assume "\<exists>s1. changed_state (folding e) (au_state v) (Bind_account i ?k) = Some s1 \<and> v1 = v\<lparr>au_state := written s1\<rparr> \<and>
       x = bound_account (au_state v) ?k a \<and> guarded (au_accounts v) (au_active v) s1 (Some x) None"
    then obtain s1 where s1: "changed_state (folding e) (au_state v) (Bind_account i ?k) = Some s1" "v1 = v\<lparr>au_state := written s1\<rparr>"
      "x = bound_account (au_state v) ?k a" "guarded (au_accounts v) (au_active v) s1 (Some x) None" by blast
    show "moves e ?P v1 (act_bind (apply_base_role e current i x) (\<lambda>account.
           act_bind (on_policy (account_fields (ae_roles e) (ae_site e) account)) (\<lambda>fields_of.
           act_bind (snapshot_api e) (\<lambda>after. act_return (account, fields_of, ro_revision after))))) (\<lambda>_. sessions_ended v) (sessions_ended v)"
      unfolding s1(2)
    proof (rule moves_bind, rule moves_conseq [OF apply_base_role_moves [OF ok rev a s1(1) new s1(3,4)]])
      fix account v2
      assume "sessions_ended v v2"
      then show "moves e ?P v2 (act_bind (on_policy (account_fields (ae_roles e) (ae_site e) account)) (\<lambda>fields_of.
           act_bind (snapshot_api e) (\<lambda>after. act_return (account, fields_of, ro_revision after)))) (\<lambda>_. sessions_ended v) (sessions_ended v)"
        by (intro moves_after_read [OF calm_fields [OF alone] tells_any] moves_last_snapshot [OF alone]) simp_all
    qed
  qed
  show "moves e ?P v (case target of None \<Rightarrow> act_raise (Api_Exn (RolePolicyError Roles_user_not_found))
     | Some target \<Rightarrow>
         act_bind (effective_permissions e target) (\<lambda>held.
         act_bind (require_grant e current held) (\<lambda>_.
         act_bind (snapshot_api e) (\<lambda>snap.
         let profile = Option.bind ?k (\<lambda>i. role_named i snap) in
         if role_id \<noteq> None \<and> profile = None then role_not_found else
         act_bind (require_grant e current (binding_grant target profile)) (\<lambda>_.
         act_bind (on_policy (policy_assign (ae_roles e) (ae_site e) (ae_directory e) i ?k expected)) (\<lambda>replacement.
         act_bind (apply_base_role e current i replacement) (\<lambda>account.
         act_bind (on_policy (account_fields (ae_roles e) (ae_site e) account)) (\<lambda>fields_of.
         act_bind (snapshot_api e) (\<lambda>after. act_return (account, fields_of, ro_revision after)))))))))) (\<lambda>_. sessions_ended v) (sessions_ended v)"
  proof (cases target)
    case (Some a)
    with t have a: "known v i a" by simp
    show ?thesis unfolding Some option.case Let_def
    proof (rule moves_after_read [OF calm_permissions [OF alone] tells_permissions [OF alone]], simp, intro moves_grant alone sessions_ended_refl,
        rule moves_after_read [OF calm_snapshot [OF alone] tells_snapshot [OF alone]], simp)
      fix held and snap :: role_snapshot
      let ?profile = "Option.bind ?k (\<lambda>i. role_named i snap)"
      assume held: "held = effective_permissions_in (au_state v) a" "set held \<subseteq> set (effective_permissions_in (au_state v) current)"
        and snap: "ro_roles snap = map snd (rs_profiles (au_state v))"
      have same: "?profile = Option.bind ?k (map_of (rs_profiles (au_state v)))" if "\<not> (role_id \<noteq> None \<and> ?profile = None)"
        using that role_named_Some [OF _ snap authority_okD(1) [OF ok]] by (cases role_id) auto
      show "moves e ?P v (if role_id \<noteq> None \<and> ?profile = None then role_not_found else
         act_bind (require_grant e current (binding_grant a ?profile)) (\<lambda>_.
         act_bind (on_policy (policy_assign (ae_roles e) (ae_site e) (ae_directory e) i ?k expected)) (\<lambda>replacement.
         act_bind (apply_base_role e current i replacement) (\<lambda>account.
         act_bind (on_policy (account_fields (ae_roles e) (ae_site e) account)) (\<lambda>fields_of.
         act_bind (snapshot_api e) (\<lambda>after. act_return (account, fields_of, ro_revision after))))))) (\<lambda>_. sessions_ended v) (sessions_ended v)"
      proof (cases "role_id \<noteq> None \<and> ?profile = None")
        case False
        have "moves e ?P v (act_bind (require_grant e current (binding_grant a ?profile)) (\<lambda>_.
         act_bind (on_policy (policy_assign (ae_roles e) (ae_site e) (ae_directory e) i ?k expected)) (\<lambda>replacement.
         act_bind (apply_base_role e current i replacement) (\<lambda>account.
         act_bind (on_policy (account_fields (ae_roles e) (ae_site e) account)) (\<lambda>fields_of.
         act_bind (snapshot_api e) (\<lambda>after. act_return (account, fields_of, ro_revision after))))))) (\<lambda>_. sessions_ended v) (sessions_ended v)"
          using held cur same [OF False] by (intro moves_grant alone sessions_ended_refl rest [OF a]) auto
        with False show ?thesis by auto
      qed (simp add: moves_raise)
    qed
  qed (simp add: moves_raise)
qed simp

section \<open>Account routes\<close>

lemma registry_call_eq: "registry_call e m = on_registry (m (ae_users (to_admin e)) (ae_registry (to_admin e)))"
  by (simp add: registry_call_def)

lemma never_call [simp]: "never_cancelled (registry_call e m)"
  by (simp add: registry_call_def)

lemma moves_account_route:
  assumes "env_alone (to_admin e)" and ok: "authority_ok (folding (to_admin e)) v" and "C v"
    and "\<And>a. known v (ua_id who) a \<Longrightarrow> set (effective_permissions_in (au_state v) a) = holds v (ua_id who) \<Longrightarrow> moves (to_admin e) P v (f a) Q C"
  shows "moves (to_admin e) P v (act_bind (mutation_admin e retry permission who) (\<lambda>a. admin_except caught b (f a))) Q C"
proof (rule moves_after_read [OF calm_mutation_admin tells_mutation_admin])
  fix a
  assume "known v (ua_id who) a \<and> uc_enabled a"
  with actor_holds [OF ok] assms(4) show "moves (to_admin e) P v (admin_except caught b (f a)) Q C" by (intro moves_admin_except) blast
qed (use assms in auto)

text \<open>Reading on in a state of which \<open>Q\<close> and \<open>C\<close> hold.\<close>

lemma moves_calm: "calm e m \<Longrightarrow> C v \<or> never_cancelled m \<Longrightarrow> (\<And>x. Q x v) \<Longrightarrow> moves e P v m Q C"
  using moves_conseq [OF moves_read [OF _ tells_any]] by metis

lemma create_user_moves:
  assumes alone: "env_alone (to_admin e)" and ok: "authority_ok (folding (to_admin e)) v" and range: "\<And>n. uuid_range (rn_uuid (ae_users e) n)"
  shows "moves (to_admin e) (holds v (ua_id who)) v (create_user_route e retry permission who request camera) (\<lambda>_. sessions_ended v) (sessions_ended v)"
  unfolding create_user_route_def create_user_work_def
proof (intro moves_account_route moves_grant alone ok sessions_ended_refl, rule moves_after_read [OF calm_policy tells_any])
  fix a access
  let ?P = "holds v (ua_id who)"
  assume P: "set (effective_permissions_in (au_state v) a) = ?P" "set (BASE_PERMISSIONS (uc_role request)) \<subseteq> set (effective_permissions_in (au_state v) a)"
  then have grant: "set (BASE_PERMISSIONS (uc_role request)) \<subseteq> ?P" by simp
  show "moves (to_admin e) ?P v (act_bind (registry_call e (\<lambda>env g. create_with_bootstrap env g request (uc_username a) 900 (Some (Inst access)))) (\<lambda>issued.
     act_bind (account_row e (fst issued)) (\<lambda>_. act_return issued))) (\<lambda>_. sessions_ended v) (sessions_ended v)"
    unfolding registry_call_eq
  proof (rule moves_bind, rule moves_conseq [OF moves_create [OF grant]])
    fix issued v1
    assume n: "v1 = v\<lparr>au_accounts := au_accounts v @ [Some (fst issued)]\<rparr> \<and> (\<forall>b. Some b \<in> set (au_accounts v) \<longrightarrow> ua_id b \<noteq> ua_id (fst issued))"
    have "sessions_ended v v1"
      unfolding sessions_ended_def
    proof (intro allI impI)
      fix b
      assume "Some b \<in> set (au_accounts v)" and t: "touched v v1 (ua_id b)"
      with n have "ua_id b \<noteq> ua_id (fst issued)" by blast
      then have "holds v1 (ua_id b) = holds v (ua_id b)" using n by (intro holds_cong) auto
      with t n show "ua_id b \<in> set (au_revoked v1)" by (simp add: touched_def)
    qed
    then show "moves (to_admin e) ?P v1 (act_bind (account_row e (fst issued)) (\<lambda>_. act_return issued)) (\<lambda>_. sessions_ended v) (sessions_ended v)"
      by (intro moves_after_read [OF calm_row [OF alone] tells_any] moves_return) simp_all
  qed (use range in simp)
qed simp

lemma sessions_ended_revoked [simp]: "sessions_ended v (v\<lparr>au_revoked := us\<rparr>)"
  by (simp add: sessions_ended_def touched_def holds_def)

lemma end_sessions_moves:
  assumes alone: "env_alone (to_admin e)" and C: "C (v\<lparr>au_revoked := au_revoked v @ [i]\<rparr>)"
  shows "moves (to_admin e) P v (end_sessions e permission who actor i cancelled) (\<lambda>_ v'. v' = v\<lparr>au_revoked := au_revoked v @ [i]\<rparr>) C"
  unfolding end_sessions_def
proof (rule moves_bind, rule moves_conseq [OF moves_revoke])
  fix x v1
  assume "v1 = v\<lparr>au_revoked := au_revoked v @ [i]\<rparr>"
  with C show "moves (to_admin e) P v1 (if i \<noteq> ua_id actor \<and> \<not> cancelled then act_bind (current_admin e permission who) (\<lambda>_. act_return ()) else act_return ())
      (\<lambda>_ v'. v' = v\<lparr>au_revoked := au_revoked v @ [i]\<rparr>) C"
    by (auto intro!: moves_after_read [OF calm_current_admin [OF alone] tells_any] moves_return)
qed

lemma camera_access_moves:
  assumes alone: "env_alone (to_admin e)" and ok: "authority_ok (folding (to_admin e)) v"
  shows "moves (to_admin e) (holds v (ua_id who)) v (camera_access_route e retry permission who i payload) (\<lambda>_. sessions_ended v) (sessions_ended v)"
  unfolding camera_access_route_def
proof (intro moves_account_route alone ok sessions_ended_refl, rule moves_bind)
  fix actor :: user_account
  let ?P = "holds v (ua_id who)"
  have row: "moves (to_admin e) ?P v (case previous of None \<Rightarrow> act_raise Api_AttributeError
       | Some b \<Rightarrow> act_bind (account_row e account) (\<lambda>_. act_return (access_identity b \<noteq> access_identity payload))) (\<lambda>_ v'. v' = v) (sessions_ended v)"
    for previous account
    by (auto intro!: moves_raise moves_return moves_after_read [OF calm_row [OF alone] tells_any] split: option.split)
  have set: "moves (to_admin e) ?P v (act_bind (registry_call e (\<lambda>env g. set_camera_access env g i access (uc_username actor))) (\<lambda>_.
       case previous of None \<Rightarrow> act_raise Api_AttributeError
       | Some b \<Rightarrow> act_bind (account_row e account) (\<lambda>_. act_return (access_identity b \<noteq> access_identity payload)))) (\<lambda>_ v'. v' = v) (sessions_ended v)"
    for access previous account
    unfolding registry_call_eq by (rule moves_bind, rule moves_conseq [OF moves_camera]) (use row in simp)
  have "moves (to_admin e) ?P v (camera_access_work e actor i payload) (\<lambda>_ v'. v' = v) (sessions_ended v)"
    unfolding camera_access_work_def
    by (intro moves_after_read [OF calm_target tells_any] moves_after_read [OF calm_permissions tells_any]
      moves_after_read [OF calm_require_grant tells_any] moves_after_read [OF calm_policy tells_any]
      moves_after_read [OF calm_registry_camera tells_any] alone set) simp_all
  then show "moves (to_admin e) ?P v (camera_access_work e actor i payload)
      (\<lambda>changed v1. moves (to_admin e) ?P v1 (act_when changed (end_sessions e permission who actor i False)) (\<lambda>_. sessions_ended v) (sessions_ended v))
      (sessions_ended v)"
    by (rule moves_conseq) (auto intro!: moves_when moves_conseq [OF end_sessions_moves [OF alone]])
qed

lemma tells_both: "tells e v m Q \<Longrightarrow> tells e v m R \<Longrightarrow> tells e v m (\<lambda>x. Q x \<and> R x)"
  unfolding tells_def by blast

lemma reset_work_moves:
  assumes alone: "env_alone (to_admin e)" and ok: "authority_ok (folding (to_admin e)) v" and C: "C v"
    and actor: "set (effective_permissions_in (au_state v) actor) = P"
  shows "moves (to_admin e) P v (reset_work e actor i) (\<lambda>_ v1. \<exists>act. v1 = v\<lparr>au_active := act\<rparr> \<and> (\<forall>j. j \<noteq> i \<longrightarrow> act j = au_active v j)) C"
  unfolding reset_work_def
proof (rule moves_after_read [OF calm_target tells_target])
  fix a
  assume a: "known v i a"
  show "moves (to_admin e) P v (act_bind (effective_permissions (to_admin e) a) (\<lambda>held.
     act_bind (require_grant (to_admin e) actor held) (\<lambda>_.
     act_bind (admin_target e i) (\<lambda>again.
     act_bind (on_policy (guard_credential_reset (ae_roles e) (ae_site (to_admin e)) (ae_directory (to_admin e)) again)) (\<lambda>_.
     act_bind (registry_call e (\<lambda>env g. reset_bootstrap env g i (uc_username actor) 900)) (\<lambda>result.
     case result of None \<Rightarrow> act_raise (Http 404 ''admin_user_not_found'') | Some x \<Rightarrow> act_return x))))))
     (\<lambda>_ v1. \<exists>act. v1 = v\<lparr>au_active := act\<rparr> \<and> (\<forall>j. j \<noteq> i \<longrightarrow> act j = au_active v j)) C"
  proof (rule moves_after_read [where C = C, OF calm_permissions [OF alone] tells_permissions [OF alone] disjI1 [OF C]], intro moves_grant alone C, rule moves_after_read [OF calm_target tells_target])
    fix held again
    assume held: "held = effective_permissions_in (au_state v) a" "set held \<subseteq> set (effective_permissions_in (au_state v) actor)" and again: "known v i again"
    have guard: "calm (to_admin e) (on_policy (guard_credential_reset (ae_roles e) (ae_site (to_admin e)) (ae_directory (to_admin e)) again))"
      "tells (to_admin e) v (on_policy (guard_credential_reset (ae_roles e) (ae_site (to_admin e)) (ae_directory (to_admin e)) again))
        (\<lambda>_. guarded (au_accounts v) (au_active v) (au_state v) None (Some i))"
      using calm_guards(2) [OF alone] tells_guard_reset [OF alone, of v again] again by (simp_all add: known_def)
    show "moves (to_admin e) P v (act_bind (on_policy (guard_credential_reset (ae_roles e) (ae_site (to_admin e)) (ae_directory (to_admin e)) again)) (\<lambda>_.
       act_bind (registry_call e (\<lambda>env g. reset_bootstrap env g i (uc_username actor) 900)) (\<lambda>result.
       case result of None \<Rightarrow> act_raise (Http 404 ''admin_user_not_found'') | Some x \<Rightarrow> act_return x)))
       (\<lambda>_ v1. \<exists>act. v1 = v\<lparr>au_active := act\<rparr> \<and> (\<forall>j. j \<noteq> i \<longrightarrow> act j = au_active v j)) C"
    proof (rule moves_after_read [OF guard])
      assume g: "guarded (au_accounts v) (au_active v) (au_state v) None (Some i)"
      have "set (effective_permissions_in (au_state v) a) \<subseteq> P" using held actor by simp
      note reset = moves_reset [OF a this g]
      show "moves (to_admin e) P v (act_bind (registry_call e (\<lambda>env g. reset_bootstrap env g i (uc_username actor) 900)) (\<lambda>result.
         case result of None \<Rightarrow> act_raise (Http 404 ''admin_user_not_found'') | Some x \<Rightarrow> act_return x))
         (\<lambda>_ v1. \<exists>act. v1 = v\<lparr>au_active := act\<rparr> \<and> (\<forall>j. j \<noteq> i \<longrightarrow> act j = au_active v j)) C"
        unfolding registry_call_eq
        by (rule moves_bind, rule moves_conseq [OF reset]) (auto intro!: moves_raise moves_return split: option.split)
    qed (use C in auto)
  qed (use C in auto)
qed (use C in auto)

lemma reset_moves:
  assumes alone: "env_alone (to_admin e)" and ok: "authority_ok (folding (to_admin e)) v"
  shows "moves (to_admin e) (holds v (ua_id who)) v (reset_route e retry permission who i cancelled_work cancelled_revoke)
    (\<lambda>_. sessions_ended v) (sessions_ended v)"
  unfolding reset_route_def
proof (intro moves_account_route alone ok sessions_ended_refl, rule moves_bind, rule moves_conseq [OF reset_work_moves [OF alone ok]])
  fix actor issued v1
  assume "\<exists>act. v1 = v\<lparr>au_active := act\<rparr> \<and> (\<forall>j. j \<noteq> i \<longrightarrow> act j = au_active v j)"
  then obtain act where v1: "v1 = v\<lparr>au_active := act\<rparr>" "\<And>j. j \<noteq> i \<Longrightarrow> act j = au_active v j" by blast
  have ended: "sessions_ended v (v1\<lparr>au_revoked := au_revoked v1 @ [i]\<rparr>)"
    using v1(2) by (auto simp: v1(1) sessions_ended_def touched_def holds_def)
  show "moves (to_admin e) (holds v (ua_id who)) v1 (act_bind (end_sessions e permission who actor i (cancelled_work \<or> cancelled_revoke)) (\<lambda>_.
       act_bind (cancel_if (cancelled_work \<or> cancelled_revoke)) (\<lambda>_.
       act_bind (account_row e (fst issued)) (\<lambda>_. act_return issued)))) (\<lambda>_. sessions_ended v) (sessions_ended v)"
  proof (rule moves_bind, rule moves_conseq [OF end_sessions_moves [where C = "sessions_ended v", OF alone ended]])
    fix x v2
    assume "v2 = v1\<lparr>au_revoked := au_revoked v1 @ [i]\<rparr>"
    with ended have v2: "sessions_ended v v2" by simp
    then show "moves (to_admin e) (holds v (ua_id who)) v2 (act_bind (cancel_if (cancelled_work \<or> cancelled_revoke)) (\<lambda>_.
       act_bind (account_row e (fst issued)) (\<lambda>_. act_return issued))) (\<lambda>_. sessions_ended v) (sessions_ended v)"
      unfolding cancel_if_def
      by (intro moves_bind moves_when moves_raise) (auto intro!: moves_calm calm_row [OF alone] moves_return)
  qed
qed simp_all

section \<open>Updating an account\<close>

lemma patched_alike: "patched (patch_of c) a = Inr u \<Longrightarrow> alike u (with_changes c a)"
  by (auto simp: patched_def patch_of_def alike_def with_changes_def k5_inv dest!: mk_user_account_Inr)

text \<open>What the durable work of an update may leave, and what it says about sessions.\<close>

definition updated :: "user_uuid \<Rightarrow> authority \<Rightarrow> user_account \<Rightarrow> bool \<Rightarrow> authority \<Rightarrow> bool" where
  "updated i v u changed v1 \<longleftrightarrow> v1 = v \<or>
     (\<exists>a. known v i a \<and> ua_id u = i \<and> v1 = v\<lparr>au_accounts := replace_account u (au_accounts v)\<rparr> \<and>
       (changed \<or> uc_role u = uc_role a \<and> uc_enabled u = uc_enabled a))"

lemma updated_ended:
  assumes ok: "authority_ok cf v" and u: "updated i v u changed v1" and i: "changed \<Longrightarrow> i \<in> set us"
  shows "sessions_ended v (v1\<lparr>au_revoked := us\<rparr>)"
  using u unfolding updated_def
proof (elim disjE exE conjE)
  fix a
  assume a: "known v i a" and id: "ua_id u = i" and v1: "v1 = v\<lparr>au_accounts := replace_account u (au_accounts v)\<rparr>"
  let ?v = "v1\<lparr>au_revoked := us\<rparr>"
  have only: "j = i" if "touched v ?v j" for j
    using touched_replaced [of j u v us] that id unfolding v1 by auto
  show ?thesis if changed
    using only i [OF that] unfolding sessions_ended_def by auto
  show ?thesis if same: "uc_role u = uc_role a" "uc_enabled u = uc_enabled a"
  proof -
    have a': "Some a \<in> set (au_accounts v)" "ua_id u = ua_id a" using a id by (simp_all add: known_def)
    have like: "alike u a" using same a'(2) by (simp add: alike_def)
    have acc: "au_accounts v1 = replace_account u (au_accounts v)" "au_state v1 = au_state v" by (simp_all add: v1)
    have "Some u \<in> set (au_accounts v1)" unfolding acc in_replaced using a' by metis
    then have "holds v1 (ua_id u) = holds v (ua_id a)"
      using holds_account [OF ok a'(1)] holds_account [OF ok_replaced [OF ok a'], of u, folded v1] acc(2) same(2) permissions_alike [OF like]
      by simp
    then have "holds ?v i = holds v i" using id a'(2) by (simp add: holds_def)
    moreover have "au_active ?v = au_active v" by (simp add: v1)
    ultimately have "\<not> touched v ?v i" by (simp add: touched_def)
    with only show ?thesis unfolding sessions_ended_def by auto
  qed
qed simp

lemma update_store_moves:
  assumes ok: "authority_ok (folding (to_admin e)) v" and a: "known v i a"
    and held: "set (effective_permissions_in (au_state v) a) \<subseteq> P" and role: "\<And>r. ac_role c = Some r \<Longrightarrow> set (BASE_PERMISSIONS r) \<subseteq> P"
    and unbound: "ac_role c = None \<or> map_of (rs_bindings (au_state v)) (uuid_text (ua_id a)) = None"
    and guard: "guarded (au_accounts v) (au_active v) (au_state v) (Some (with_changes c a)) None"
  shows "moves (to_admin e) P v (act_bind
      (if \<not> no_fields c then registry_call e (\<lambda>env g. registry_update env g i (patch_of c) (uc_username actor) x)
       else act_bind (registry_call e (\<lambda>env g. set_camera_access env g i y (uc_username actor))) (\<lambda>_. act_return (Some a))) (\<lambda>account.
     case account of
       None \<Rightarrow> act_raise (Http 404 ''admin_user_not_found'')
     | Some account \<Rightarrow>
         act_bind (if uc_role account \<noteq> uc_role a \<or> uc_enabled account \<noteq> uc_enabled a then act_return True
           else camera_changed e i z) (\<lambda>changed. act_return (account, changed)))) (\<lambda>(u, b). updated i v u b) C"
    (is "moves _ P v (act_bind _ ?rest) _ _")
proof -
  have rest: "moves (to_admin e) P v1 (?rest (Some u)) (\<lambda>(u, b). updated i v u b) C"
    if "v1 = v \<or> ua_id u = i \<and> v1 = v\<lparr>au_accounts := replace_account u (au_accounts v)\<rparr>" for u v1
  proof (cases "uc_role u \<noteq> uc_role a \<or> uc_enabled u \<noteq> uc_enabled a")
    case True
    have "updated i v u True v1" using that a by (auto simp: updated_def)
    then have "moves (to_admin e) P v1 (act_bind (act_return True) (\<lambda>changed. act_return (u, changed))) (\<lambda>(u, b). updated i v u b) C"
      by (intro moves_bind moves_return) simp
    with True show ?thesis by auto
  next
    case False
    have "never_cancelled (camera_changed e i z)"
      unfolding camera_changed_def registry_call_def
      by (auto simp: never_cancelled_def act_bind_def on_registry_def on_policy_def act_raise_def act_return_def split: prod.splits sum.splits raised.splits option.splits)
    moreover have "moves (to_admin e) P v1 (act_return (u, b)) (\<lambda>(u, b). updated i v u b) C" for b
      using that a False by (intro moves_return) (auto simp: updated_def)
    ultimately have "moves (to_admin e) P v1 (act_bind (camera_changed e i z) (\<lambda>changed. act_return (u, changed))) (\<lambda>(u, b). updated i v u b) C"
      by (intro moves_after_read [OF calm_camera_changed tells_any]) simp_all
    with False show ?thesis by simp
  qed
  have none: "moves (to_admin e) P v1 (?rest None) (\<lambda>(u, b). updated i v u b) C" for v1 by (simp add: moves_raise)
  show ?thesis
  proof (cases "no_fields c")
    case True
    have "moves (to_admin e) P v (act_bind (registry_call e (\<lambda>env g. set_camera_access env g i y (uc_username actor))) (\<lambda>_. act_return (Some a)))
      (\<lambda>account v1. account = Some a \<and> v1 = v) C"
      unfolding registry_call_eq by (rule moves_bind, rule moves_conseq [OF moves_camera]) (simp add: moves_return)
    then have "moves (to_admin e) P v (act_bind (registry_call e (\<lambda>env g. set_camera_access env g i y (uc_username actor))) (\<lambda>_. act_return (Some a)))
      (\<lambda>account v1. moves (to_admin e) P v1 (?rest account) (\<lambda>(u, b). updated i v u b) C) C"
      by (rule moves_conseq) (use rest in blast)
    with True show ?thesis by (intro moves_bind) simp
  next
    case False
    have step: "authority_step (folding (to_admin e)) P v (v\<lparr>au_accounts := replace_account u (au_accounts v)\<rparr>)" if u: "patched (patch_of c) a = Inr u" for u
    proof (rule step_update [OF _ held _ _ patched_alike [OF u] guard])
      show "Some a \<in> set (au_accounts v)" "ua_id u = ua_id a" using a patched_wf [OF u] by (simp_all add: known_def)
      show "uc_role u = uc_role a \<or> map_of (rs_bindings (au_state v)) (uuid_text (ua_id a)) = None \<and> set (BASE_PERMISSIONS (uc_role u)) \<subseteq> P"
        using patched_alike [OF u] unbound role by (cases "ac_role c") (auto simp: alike_def with_changes_def)
    qed
    have "moves (to_admin e) P v (registry_call e (\<lambda>env g. registry_update env g i (patch_of c) (uc_username actor) x))
      (\<lambda>account v1. moves (to_admin e) P v1 (?rest account) (\<lambda>(u, b). updated i v u b) C) C"
      unfolding registry_call_eq
    proof (rule moves_conseq [OF moves_update [OF ok a step]])
      fix account v1
      assume "account = None \<and> v1 = v \<or> (\<exists>u. account = Some u \<and> patched (patch_of c) a = Inr u \<and> v1 = v\<lparr>au_accounts := replace_account u (au_accounts v)\<rparr>)"
      moreover have "ua_id u = i" if "patched (patch_of c) a = Inr u" for u using patched_wf [OF that] a by (simp add: known_def)
      ultimately show "moves (to_admin e) P v1 (?rest account) (\<lambda>(u, b). updated i v u b) C"
        using rest none by blast
    qed
    with False show ?thesis by (intro moves_bind) simp
  qed
qed

lemma update_work_moves:
  assumes alone: "env_alone (to_admin e)" and ok: "authority_ok (folding (to_admin e)) v" and C: "C v"
    and actor: "set (effective_permissions_in (au_state v) actor) = P"
  shows "moves (to_admin e) P v (update_user_work e actor i payload) (\<lambda>(u, b). updated i v u b) C"
  unfolding update_user_work_def
proof (rule moves_after_read [OF calm_target tells_target])
  fix a
  let ?c = "uq_fields payload"
  assume a: "known v i a"
  have grant: "calm (to_admin e) (case ac_role ?c of None \<Rightarrow> act_return () | Some r \<Rightarrow> require_grant (to_admin e) actor (BASE_PERMISSIONS r))"
    "tells (to_admin e) v (case ac_role ?c of None \<Rightarrow> act_return () | Some r \<Rightarrow> require_grant (to_admin e) actor (BASE_PERMISSIONS r))
      (\<lambda>_. \<forall>r. ac_role ?c = Some r \<longrightarrow> set (BASE_PERMISSIONS r) \<subseteq> P)"
    using tells_grant [OF alone, of v actor] actor by (auto intro!: calm_intros alone tells_return split: option.split)
  have cams: "calm (to_admin e) (case uq_camera_access payload of None \<Rightarrow> act_return None
      | Some x \<Rightarrow> act_bind (camera_policy e (Some x) r) (\<lambda>x. act_return (Some x)))" for r
    by (auto intro!: calm_intros split: option.split)
  show "moves (to_admin e) P v (act_bind (effective_permissions (to_admin e) a) (\<lambda>held.
     act_bind (require_grant (to_admin e) actor held) (\<lambda>_.
     act_bind (case ac_role ?c of None \<Rightarrow> act_return () | Some r \<Rightarrow> require_grant (to_admin e) actor (BASE_PERMISSIONS r)) (\<lambda>_.
     act_bind (case uq_camera_access payload of None \<Rightarrow> act_return None
       | Some x \<Rightarrow> act_bind (camera_policy e (Some x) (case ac_role ?c of None \<Rightarrow> uc_role a | Some r \<Rightarrow> r)) (\<lambda>x. act_return (Some x))) (\<lambda>access.
     act_bind (registry_call e (\<lambda>env g. get_camera_access env g i)) (\<lambda>previous_access.
     act_bind (on_policy (guard_account_change (ae_roles e) (ae_site (to_admin e)) (ae_directory (to_admin e)) a ?c)) (\<lambda>_.
     act_bind
      (if \<not> no_fields ?c then
         registry_call e (\<lambda>env g. registry_update env g i (patch_of ?c) (uc_username actor) (map_option Inst access))
       else act_bind (registry_call e (\<lambda>env g. set_camera_access env g i (the access) (uc_username actor))) (\<lambda>_. act_return (Some a))) (\<lambda>account.
     case account of
       None \<Rightarrow> act_raise (Http 404 ''admin_user_not_found'')
     | Some account \<Rightarrow>
         act_bind (if uc_role account \<noteq> uc_role a \<or> uc_enabled account \<noteq> uc_enabled a then act_return True
           else camera_changed e i previous_access) (\<lambda>changed. act_return (account, changed))))))))))
     (\<lambda>(u, b). updated i v u b) C"
  proof (rule moves_after_read [where C = C, OF calm_permissions [OF alone] tells_permissions [OF alone] disjI1 [OF C]], intro moves_grant alone C,
      rule moves_after_read [where C = C, OF grant disjI1 [OF C]], intro moves_after_read [where C = C, OF cams tells_any disjI1 [OF C]]
        moves_after_read [where C = C, OF calm_registry_camera tells_any disjI1 [OF C]])
    fix held access previous_access
    assume held: "held = effective_permissions_in (au_state v) a" "set held \<subseteq> set (effective_permissions_in (au_state v) actor)"
      and role: "\<forall>r. ac_role ?c = Some r \<longrightarrow> set (BASE_PERMISSIONS r) \<subseteq> P"
    have guard: "calm (to_admin e) (on_policy (guard_account_change (ae_roles e) (ae_site (to_admin e)) (ae_directory (to_admin e)) a ?c))"
      "tells (to_admin e) v (on_policy (guard_account_change (ae_roles e) (ae_site (to_admin e)) (ae_directory (to_admin e)) a ?c))
        (\<lambda>_. (ac_role ?c = None \<or> map_of (rs_bindings (au_state v)) (uuid_text (ua_id a)) = None) \<and>
          guarded (au_accounts v) (au_active v) (au_state v) (Some (with_changes ?c a)) None)"
      using calm_guards(1) [OF alone] tells_guard_change [OF alone, of v a ?c] by simp_all
    show "moves (to_admin e) P v (act_bind (on_policy (guard_account_change (ae_roles e) (ae_site (to_admin e)) (ae_directory (to_admin e)) a ?c)) (\<lambda>_.
       act_bind
        (if \<not> no_fields ?c then
           registry_call e (\<lambda>env g. registry_update env g i (patch_of ?c) (uc_username actor) (map_option Inst access))
         else act_bind (registry_call e (\<lambda>env g. set_camera_access env g i (the access) (uc_username actor))) (\<lambda>_. act_return (Some a))) (\<lambda>account.
       case account of
         None \<Rightarrow> act_raise (Http 404 ''admin_user_not_found'')
       | Some account \<Rightarrow>
           act_bind (if uc_role account \<noteq> uc_role a \<or> uc_enabled account \<noteq> uc_enabled a then act_return True
             else camera_changed e i previous_access) (\<lambda>changed. act_return (account, changed)))))
       (\<lambda>(u, b). updated i v u b) C"
      by (rule moves_after_read [where C = C, OF guard disjI1 [OF C]], rule update_store_moves [OF ok a]) (use held actor role in auto)
  qed
qed (use C in auto)

lemma update_user_moves:
  assumes alone: "env_alone (to_admin e)" and ok: "authority_ok (folding (to_admin e)) v"
  shows "moves (to_admin e) (holds v (ua_id who)) v (update_user_route e retry permission who i payload cancelled_work cancelled_revoke)
    (\<lambda>_. sessions_ended v) (sessions_ended v)"
  unfolding update_user_route_def
proof (intro moves_account_route alone ok sessions_ended_refl, rule moves_bind, rule moves_conseq [OF update_work_moves [OF alone ok]])
  fix actor :: user_account and x v1
  assume x: "(case x of (u, b) \<Rightarrow> updated i v u b) v1"
  obtain u changed where ux: "x = (u, changed)" by fastforce
  with x have up: "updated i v u changed v1" by simp
  let ?rest = "\<lambda>_. act_bind (cancel_if (cancelled_work \<or> changed \<and> cancelled_revoke)) (\<lambda>_. account_row e u)"
  have rest: "moves (to_admin e) (holds v (ua_id who)) v2 (?rest z) (\<lambda>_. sessions_ended v) (sessions_ended v)" if "sessions_ended v v2" for v2 z
    using that unfolding cancel_if_def
    by (intro moves_bind moves_when moves_raise) (auto intro!: moves_calm calm_row [OF alone])
  have "moves (to_admin e) (holds v (ua_id who)) v1 (act_bind (act_when changed (end_sessions e permission who actor i (cancelled_work \<or> cancelled_revoke))) ?rest)
      (\<lambda>_. sessions_ended v) (sessions_ended v)"
  proof (cases changed)
    case True
    have ended: "sessions_ended v (v1\<lparr>au_revoked := au_revoked v1 @ [i]\<rparr>)"
      by (rule updated_ended [OF ok up]) simp
    have "moves (to_admin e) (holds v (ua_id who)) v1 (end_sessions e permission who actor i (cancelled_work \<or> cancelled_revoke))
        (\<lambda>z v2. moves (to_admin e) (holds v (ua_id who)) v2 (?rest z) (\<lambda>_. sessions_ended v) (sessions_ended v)) (sessions_ended v)"
      by (rule moves_conseq [OF end_sessions_moves [where C = "sessions_ended v", OF alone ended]]) (use rest ended in simp)
    with True show ?thesis by (intro moves_bind) (simp add: act_when_def)
  next
    case False
    have "sessions_ended v v1" using updated_ended [OF ok up, of "au_revoked v1"] False by simp
    with False rest show ?thesis by (intro moves_bind) (auto simp: act_when_def intro!: moves_return)
  qed
  with ux show "moves (to_admin e) (holds v (ua_id who)) v1 (case x of (account, changed) \<Rightarrow>
       act_bind (act_when changed (end_sessions e permission who actor i (cancelled_work \<or> cancelled_revoke))) (\<lambda>_.
       act_bind (cancel_if (cancelled_work \<or> changed \<and> cancelled_revoke)) (\<lambda>_. account_row e account))) (\<lambda>_. sessions_ended v) (sessions_ended v)"
    by simp
qed simp_all

end
