(* ===== verification/Admin_Requests.thy ===== *)
theory Admin_Requests
  imports Admin_Routes
begin

text \<open>
  The requests of the role and account API as one operation, what a request relies on, and what the
  lemmas of the routes say of it.
\<close>

section \<open>Requests\<close>

datatype admin_request =
    Create_role role_request
  | Update_role user_uuid role_request int
  | Delete_role user_uuid int
  | Assign_role user_uuid "user_uuid option" "int option"
  | Create_user user_create "camera_access option"
  | Update_user user_uuid update_request bool bool
  | Set_cameras user_uuid camera_access
  | Reset_password user_uuid bool bool

definition answered :: "'a api \<Rightarrow> unit api" where
  "answered m = act_bind m (\<lambda>_. act_return ())"

fun admin_handle :: "account_env \<Rightarrow> int option \<Rightarrow> pystr option \<Rightarrow> user_account \<Rightarrow> admin_request \<Rightarrow> unit api" where
  "admin_handle e retry permission who (Create_role q) = answered (create_role (to_admin e) permission who q)"
| "admin_handle e retry permission who (Update_role i q n) = answered (update_role (to_admin e) permission who i q n)"
| "admin_handle e retry permission who (Delete_role i n) = answered (delete_role (to_admin e) permission who i n)"
| "admin_handle e retry permission who (Assign_role i r n) = answered (assign_role (to_admin e) permission who i r n)"
| "admin_handle e retry permission who (Create_user q c) = answered (create_user_route e retry permission who q c)"
| "admin_handle e retry permission who (Update_user i q c1 c2) = answered (update_user_route e retry permission who i q c1 c2)"
| "admin_handle e retry permission who (Set_cameras i c) = answered (camera_access_route e retry permission who i c)"
| "admin_handle e retry permission who (Reset_password i c1 c2) = answered (reset_route e retry permission who i c1 c2)"

text \<open>
  What a request relies on: nobody else changes the policy file, the connection is idle, the policy is
  readable and has room for one more revision, and \<open>uuid4\<close> returns 128 bits and no identifier in use.
\<close>

definition admin_ready :: "account_env \<Rightarrow> authority \<Rightarrow> admin_world \<Rightarrow> bool" where
  "admin_ready e v w \<longleftrightarrow>
     env_alone (to_admin e) \<and> idle w \<and> stands (to_admin e) v w \<and> authority_ok (folding (to_admin e)) v \<and>
     rs_revision (au_state v) + 1 < 2 ^ 63 \<and> (\<forall>n. uuid_range (rn_uuid (ae_users e) n)) \<and>
     (\<forall>n. uuid_text (re_uuid4 (ae_roles e) n) \<notin> set (map fst (rs_profiles (au_state v))))"

lemma moves_answered: "moves e P v m (\<lambda>_. Q) C \<Longrightarrow> moves e P v (answered m) (\<lambda>_. Q) C"
  unfolding answered_def by (intro moves_bind, erule moves_conseq) (rule moves_return)

lemma handle_moves:
  assumes "admin_ready e v w"
  shows "moves (to_admin e) (holds v (ua_id who)) v (admin_handle e retry permission who q) (\<lambda>_. sessions_ended v) (sessions_ended v)"
proof -
  from assms have r: "env_alone (to_admin e)" "authority_ok (folding (to_admin e)) v" "rs_revision (au_state v) + 1 < 2 ^ 63"
    and range: "\<And>n. uuid_range (rn_uuid (ae_users e) n)"
    and fresh: "\<And>n. uuid_text (re_uuid4 (ae_roles (to_admin e)) n) \<notin> set (map fst (rs_profiles (au_state v)))"
    by (auto simp: admin_ready_def)
  show ?thesis
    by (cases q) (simp_all only: admin_handle.simps moves_answered create_role_moves [OF r fresh] update_role_moves [OF r] delete_role_moves [OF r]
      assign_role_moves [OF r] create_user_moves [OF r(1,2) range] update_user_moves [OF r(1,2)] camera_access_moves [OF r(1,2)] reset_moves [OF r(1,2)])
qed

end
