(* ===== verification/Admin_World.thy ===== *)
theory Admin_World
  imports Admin_Requests
begin

text \<open>
  A small site with an administrator and an operator, a policy without profiles and system calls that all
  succeed: the runs of two requests, as instances of the properties.
\<close>

section \<open>The world\<close>

definition tiny_info :: file_info where
  "tiny_info = \<lparr>fi_dev = 1, fi_ino = 2, fi_size = 60, fi_mtime = 3, fi_regular = True, fi_nlink = 1, fi_uid = 0, fi_mode = 384\<rparr>"

definition tiny_roles :: role_env where
  "tiny_roles = \<lparr>re_posix = True, re_euid = 0, re_path_ok = (\<lambda>_. True), re_same_directory = (\<lambda>_. True), re_fails = (\<lambda>_. False),
     re_meddle = (\<lambda>_ f. f), re_new_file = (\<lambda>_. tiny_info), re_casefold = id, re_uuid4 = (\<lambda>_. 77), re_size = (\<lambda>_. 60),
     re_state_site = (\<lambda>_. Some [104]), re_sql = (\<lambda>_. Sql_Done)\<rparr>"

definition tiny_admin :: account_env where
  "tiny_admin = \<lparr>ae_users = tiny_env\<lparr>rn_uuid := \<lambda>_. 1000\<rparr>, ae_roles = tiny_roles, ae_registry = tiny_site, an_camera_known = (\<lambda>_ _. Some True)\<rparr>"

definition tiny_file :: role_file where
  "tiny_file = \<lparr>rf_content = Some (json_of_role_state [104] initial_role_state), rf_info = tiny_info\<rparr>"

text \<open>After \<open>n\<close> statements and \<open>k\<close> system calls.\<close>

abbreviation tiny_registry :: "nat \<Rightarrow> registry_world" where
  "tiny_registry n \<equiv> open_world tiny_db\<lparr>sq_tick := n\<rparr>"

definition tiny_policy :: "nat \<Rightarrow> nat \<Rightarrow> (int \<times> int) option \<Rightarrow> registry_world policy_world" where
  "tiny_policy n k i = \<lparr>pw_users = tiny_registry n, pw_file = Some tiny_file, pw_temporary = None, pw_identity = i, pw_closed = False,
     pw_anchors = \<lparr>sq_db = No_Table, sq_backup = None, sq_tick = 0\<rparr>, pw_tick = k\<rparr>"

definition tiny_world :: "nat \<Rightarrow> nat \<Rightarrow> (int \<times> int) option \<Rightarrow> admin_world" where
  "tiny_world n k i = \<lparr>aw_policy = tiny_policy n k i,
     aw_sessions = \<lparr>sm_ttl = 300, sm_sessions = Map.empty, sm_user_tokens = Map.empty, sm_listeners = {}, sm_serial = 0\<rparr>, aw_revoked = []\<rparr>"

definition tiny_authority :: authority where
  "tiny_authority = \<lparr>au_state = initial_role_state, au_accounts = [Some root_user, Some ann_user], au_active = active_in [104] tiny_db, au_revoked = []\<rparr>"

lemma tiny_fields [simp]:
  "ae_users tiny_admin = tiny_env\<lparr>rn_uuid := \<lambda>_. 1000\<rparr>" "ae_roles tiny_admin = tiny_roles" "ae_registry tiny_admin = tiny_site"
  "ae_users (to_admin tiny_admin) = tiny_env\<lparr>rn_uuid := \<lambda>_. 1000\<rparr>" "ae_roles (to_admin tiny_admin) = tiny_roles" "ae_registry (to_admin tiny_admin) = tiny_site"
  by (simp_all add: tiny_admin_def admin_env.defs)

lemma ug_site_tiny: "ug_site tiny_site = [104]"
  by (simp add: tiny_site_def)

lemma initial_ok: "role_state_ok cf initial_role_state" "sorted_state initial_role_state = initial_role_state"
  by (simp_all add: role_state_ok_def initial_role_state_def sorted_state_def sort_pairs_def)

lemma tiny_content: "role_state_of_json cf [104] (json_of_role_state [104] initial_role_state) = Some initial_role_state"
  using role_state_roundtrip [OF initial_ok(1)] initial_ok(2) by simp

section \<open>What the helpers return\<close>

abbreviation pinned :: "(int \<times> int) option set" where
  "pinned \<equiv> {None, Some (1, 2)}"

definition gives :: "'s set \<Rightarrow> ('s, 'e, 'a) act \<Rightarrow> 'a \<Rightarrow> bool" where
  "gives W m x \<longleftrightarrow> (\<forall>w\<in>W. \<exists>w'\<in>W. m w = (Inr x, w'))"

lemma givesD: "gives W m x \<Longrightarrow> w \<in> W \<Longrightarrow> \<exists>w'\<in>W. m w = (Inr x, w')"
  by (simp add: gives_def)

lemma gives_bind: "gives W m x \<Longrightarrow> gives W (f x) y \<Longrightarrow> gives W (act_bind m f) y"
  unfolding gives_def
proof
  fix w
  assume m: "\<forall>w\<in>W. \<exists>w'\<in>W. m w = (Inr x, w')" and f: "\<forall>w\<in>W. \<exists>w'\<in>W. f x w = (Inr y, w')" and "w \<in> W"
  then obtain w1 where "w1 \<in> W" "m w = (Inr x, w1)" by blast
  moreover from f this(1) obtain w2 where "w2 \<in> W" "f x w1 = (Inr y, w2)" by blast
  ultimately show "\<exists>w'\<in>W. act_bind m f w = (Inr y, w')" by (intro bexI [of _ w2]) (simp_all add: act_bind_def)
qed

lemma gives_return: "gives W (act_return x) x"
  by (simp add: gives_def act_return_def)

lemma gives_except:
  assumes "gives W m x"
  shows "gives W (api_except g m) x"
  unfolding gives_def
proof
  fix w
  assume "w \<in> W"
  from givesD [OF assms this] obtain w1 where "w1 \<in> W" "m w = (Inr x, w1)" by blast
  then show "\<exists>w'\<in>W. api_except g m w = (Inr x, w')" by (intro bexI [of _ w1]) (simp_all add: api_except_def act_catch_def)
qed

definition policy_worlds :: "registry_world policy_world set" where
  "policy_worlds = {tiny_policy n k i | n k i. i \<in> pinned}"

definition admin_worlds :: "admin_world set" where
  "admin_worlds = {tiny_world n k i | n k i. i \<in> pinned}"

abbreviation "policy_returns \<equiv> gives policy_worlds"
abbreviation "returns \<equiv> gives admin_worlds"

lemma returns_users:
  assumes "\<And>n. m (tiny_registry n) = (Inr x, tiny_registry (f n))"
  shows "policy_returns (on_users m) x"
  unfolding gives_def
proof
  fix w
  assume "w \<in> policy_worlds"
  then obtain n k i where w: "w = tiny_policy n k i" "i \<in> pinned" by (auto simp: policy_worlds_def)
  with assms have "on_users m w = (Inr x, tiny_policy (f n) k i)" by (simp add: on_users_def tiny_policy_def)
  with w(2) show "\<exists>w'\<in>policy_worlds. on_users m w = (Inr x, w')" unfolding policy_worlds_def by blast
qed

lemma returns_policy:
  assumes "policy_returns m x"
  shows "returns (on_policy m) x"
  unfolding gives_def
proof
  fix w
  assume "w \<in> admin_worlds"
  then obtain n k i where w: "w = tiny_world n k i" "i \<in> pinned" by (auto simp: admin_worlds_def)
  then have "tiny_policy n k i \<in> policy_worlds" unfolding policy_worlds_def by blast
  from givesD [OF assms this] obtain n' k' i' where r: "m (tiny_policy n k i) = (Inr x, tiny_policy n' k' i')" "i' \<in> pinned"
    unfolding policy_worlds_def by blast
  with w have "on_policy m w = (Inr x, tiny_world n' k' i')" by (simp add: on_policy_def tiny_world_def)
  with r(2) show "\<exists>w'\<in>admin_worlds. on_policy m w = (Inr x, w')" unfolding admin_worlds_def by blast
qed

lemma returns_registry: "(\<And>n. m (tiny_registry n) = (Inr x, tiny_registry (f n))) \<Longrightarrow> returns (on_registry m) x"
  unfolding on_registry_def by (intro returns_policy returns_users)

lemma root_rows [simp]:
  "user_by_id [104] 7 tiny_db = Some (user_row_of [104] root_user)" "ur_id (user_row_of [104] root_user) = 7"
  by (simp_all add: tiny_simps)

lemma tiny_get:
  "registry_get (tiny_env\<lparr>rn_uuid := u\<rparr>) tiny_site 7 (tiny_registry n) = (Inr (Some root_user), tiny_registry (Suc n))"
  "registry_get (tiny_env\<lparr>rn_uuid := u\<rparr>) tiny_site 8 (tiny_registry n) = (Inr (Some ann_user), tiny_registry (Suc n))"
  by (simp_all add: registry_get_def act_simps)

lemma tiny_status: "credential_status (tiny_env\<lparr>rn_uuid := u\<rparr>) tiny_site 7 (tiny_registry n) = (Inr (Some Active), tiny_registry (Suc n))"
proof -
  have "credential_of [104] 7 tiny_db = Some (password_row (replicate 16 0) (replicate 16 0 @ replicate 12 98 @ replicate 4 0))"
    by (simp add: tiny_simps)
  then show ?thesis by (simp add: credential_status_def act_simps user_with_credential_def password_row_def)
qed

lemma tiny_list: "registry_list (tiny_env\<lparr>rn_uuid := u\<rparr>) tiny_site 0 100 (tiny_registry n) = (Inr [root_user, ann_user], tiny_registry (Suc n))"
proof -
  have "filter (\<lambda>r. ur_site r = [104]) (db_users tiny_db) = [user_row_of [104] root_user, user_row_of [104] ann_user]"
    by (simp add: tiny_simps)
  then show ?thesis by (simp add: registry_list_def act_simps)
qed

lemmas returns_get = returns_registry [where f = Suc, OF tiny_get(1)] returns_registry [where f = Suc, OF tiny_get(2)]

lemmas returns_status = returns_registry [where f = Suc, OF tiny_status]

lemma returns_read: "policy_returns (policy_read tiny_roles [104]) initial_role_state"
  unfolding gives_def
proof
  fix w :: "registry_world policy_world"
  assume "w \<in> policy_worlds"
  then obtain n k i where w: "w = tiny_policy n k i" "i \<in> pinned" by (auto simp: policy_worlds_def)
  then have "policy_read tiny_roles [104] w = (Inr initial_role_state, tiny_policy n (k + 5) (Some (1, 2)))"
    by (auto simp: policy_read_def policy_admit_def same_directory_def regular_file_def read_open_file_def system_call_def act_simps
      tiny_policy_def tiny_roles_def tiny_info_def tiny_file_def tiny_content Let_def)
  then show "\<exists>w'\<in>policy_worlds. policy_read tiny_roles [104] w = (Inr initial_role_state, w')" unfolding policy_worlds_def by blast
qed

lemma root_full: "full_administrator initial_role_state root_user"
  by (simp add: full_administrator_def effective_permissions_in_def initial_role_state_def root_user_def)

lemma returns_guard:
  "policy_returns (guard_credential_reset tiny_roles [104] (registry_users (tiny_env\<lparr>rn_uuid := u\<rparr>) tiny_site) ann_user) ()"
proof -
  let ?users = "registry_users (tiny_env\<lparr>rn_uuid := u\<rparr>) tiny_site"
  have root: "ua_id root_user = 7" by (simp add: root_user_def)
  have "policy_returns (guard_page ?users initial_role_state None (Some 8) [root_user, ann_user]) True"
    by (auto simp: root root_full replaced_def registry_users_def intro!: gives_bind gives_return returns_users [where f = Suc, OF tiny_status])
  then have "policy_returns (guard_pages ?users initial_role_state None (Some 8) (0 # offsets)) ()" for offsets
    by (subst guard_pages.simps, intro gives_bind [where x = "[root_user, ann_user]"] gives_bind [where x = True])
      (simp_all add: registry_users_def returns_users [where f = Suc, OF tiny_list] gives_return)
  then have "policy_returns (policy_guard ?users initial_role_state None (Some 8)) ()"
    unfolding policy_guard_def upt_conv_Cons [of 0 1000, simplified] by simp
  then show ?thesis unfolding guard_credential_reset_def by (intro gives_bind [OF returns_read]) simp
qed

lemma returns_permissions: "returns (effective_permissions (to_admin tiny_admin) a) (effective_permissions_in initial_role_state a)"
  unfolding effective_permissions_def policy_permissions_def
  unfolding tiny_fields ug_site_tiny by (intro gives_except returns_policy gives_bind [OF returns_read] gives_return)

lemma returns_actor: "returns (mutation_admin tiny_admin None None root_user) root_user"
proof -
  have root: "ua_id root_user = 7" "uc_enabled root_user" "uc_role root_user = ADMINISTRATOR" by (simp_all add: root_user_def)
  have "returns (authenticate (to_admin tiny_admin) None root_user) root_user"
    unfolding authenticate_def
    by (rule gives_bind [where x = "(Some root_user, True)"], rule gives_except, rule gives_bind [where x = "Some root_user"])
      (simp_all add: root returns_get gives_bind [OF returns_status] gives_bind [OF gives_return] gives_return)
  then show ?thesis unfolding mutation_admin_def current_admin_def
    by (simp add: gives_bind gives_return root)
qed

section \<open>A reset that the client abandons\<close>

definition ends :: "'s set \<Rightarrow> ('s, 'e, 'a) act \<Rightarrow> 'e raised + 'a \<Rightarrow> bool" where
  "ends W m r \<longleftrightarrow> (\<forall>w\<in>W. \<exists>w'. m w = (r, w'))"

lemma ends_bind:
  assumes "gives W m x" and "ends W (f x) r"
  shows "ends W (act_bind m f) r"
  unfolding ends_def
proof
  fix w
  assume "w \<in> W"
  from givesD [OF assms(1) this] obtain w1 where w1: "w1 \<in> W" "m w = (Inr x, w1)" by blast
  with assms(2) obtain w2 where "f x w1 = (r, w2)" unfolding ends_def by blast
  with w1 show "\<exists>w'. act_bind m f w = (r, w')" by (simp add: act_bind_def)
qed

lemma ends_bind_assoc: "ends W (act_bind m (\<lambda>x. act_bind (f x) g)) r \<Longrightarrow> ends W (act_bind (act_bind m f) g) r"
  unfolding ends_def by (simp add: act_bind_def split: prod.splits sum.splits)

lemma returns_target: "returns (admin_target tiny_admin 8) ann_user"
proof -
  have "returns (storage_shield (registry_call tiny_admin (\<lambda>env g. registry_get env g 8))) (Some ann_user)"
    unfolding storage_shield_def registry_call_def tiny_fields by (intro gives_except returns_get)
  then show ?thesis unfolding admin_target_def by (rule gives_bind) (simp add: gives_return)
qed

lemma tiny_reset: "\<exists>w'. reset_bootstrap (tiny_env\<lparr>rn_uuid := u\<rparr>) tiny_site 8 [114, 111, 111, 116] 900 (tiny_registry n) =
    (Inr (Some (ann_user, replicate 43 97, 1900000000)), w')"
proof -
  have "uc_role ann_user = OPERATOR" by (simp add: ann_user_def)
  then show ?thesis
    by (simp add: reset_bootstrap_def act_simps text_simps registry_get_def refuse_last_administrator_def append_audit_def)
qed

lemma ends_then:
  assumes "ends W m (Inr x)" and "ends UNIV (f x) r"
  shows "ends W (act_bind m f) r"
  unfolding ends_def
proof
  fix w
  assume "w \<in> W"
  with assms(1) obtain w1 where w1: "m w = (Inr x, w1)" unfolding ends_def by blast
  from assms(2) obtain w2 where "f x w1 = (r, w2)" unfolding ends_def by blast
  with w1 show "\<exists>w'. act_bind m f w = (r, w')" by (simp add: act_bind_def)
qed

lemma ends_except: "ends W m (Inl (Exn y)) \<Longrightarrow> g y = None \<Longrightarrow> ends W (api_except g m) (Inl (Exn y))"
  unfolding ends_def api_except_def act_catch_def act_raise_def by fastforce

lemma ends_registry_reset:
  "ends admin_worlds (registry_call tiny_admin (\<lambda>env g. reset_bootstrap env g 8 [114, 111, 111, 116] 900))
    (Inr (Some (ann_user, replicate 43 97, 1900000000)))"
  unfolding ends_def
proof
  fix w
  assume "w \<in> admin_worlds"
  then obtain n k i where "w = tiny_world n k i" by (auto simp: admin_worlds_def)
  with tiny_reset [of "\<lambda>_. 1000" n] show "\<exists>w'. registry_call tiny_admin (\<lambda>env g. reset_bootstrap env g 8 [114, 111, 111, 116] 900) w =
      (Inr (Some (ann_user, replicate 43 97, 1900000000)), w')"
    by (auto simp: registry_call_def on_registry_def on_policy_def on_users_def tiny_world_def tiny_policy_def)
qed

lemma ends_reset_work: "ends admin_worlds (reset_work tiny_admin root_user 8) (Inr (ann_user, replicate 43 97, 1900000000))"
proof -
  have grant: "returns (require_grant (to_admin tiny_admin) root_user (effective_permissions_in initial_role_state ann_user)) ()"
    unfolding require_grant_def
    by (rule gives_bind [OF returns_permissions])
      (simp add: gives_return effective_permissions_in_def initial_role_state_def root_user_def ann_user_def PERMISSIONS_def)
  have guard: "returns (on_policy (guard_credential_reset tiny_roles [104] (registry_users (tiny_env\<lparr>rn_uuid := \<lambda>_. 1000\<rparr>) tiny_site) ann_user)) ()"
    by (rule returns_policy [OF returns_guard])
  have "uc_username root_user = [114, 111, 111, 116]" by (simp add: root_user_def)
  then show ?thesis unfolding reset_work_def
    by (intro ends_bind [OF returns_target] ends_bind [OF returns_permissions] ends_bind [OF grant] ends_bind [OF guard [folded ug_site_tiny]])
      (simp_all add: ug_site_tiny ends_bind [OF guard] ends_then [OF ends_registry_reset] ends_def [of UNIV] act_return_def)
qed

lemma ends_answered:
  assumes "ends W m (Inl y)"
  shows "ends W (answered m) (Inl y)"
  unfolding ends_def
proof
  fix w
  assume "w \<in> W"
  with assms obtain w1 where "m w = (Inl y, w1)" unfolding ends_def by blast
  then show "\<exists>w'. answered m w = (Inl y, w')" by (simp add: answered_def act_bind_def)
qed

definition tiny_request :: admin_request where
  "tiny_request = Reset_password 8 True False"

lemma abandoned_reset: "\<exists>w'. admin_handle tiny_admin None None root_user tiny_request (tiny_world 0 0 None) = (Inl (Exn Api_CancelledError), w')"
proof -
  have "ends UNIV (act_bind (end_sessions tiny_admin None root_user root_user 8 True) (\<lambda>_. act_bind (cancel_if True) f)) (Inl (Exn Api_CancelledError))" for f
    by (simp add: ends_def end_sessions_def revoke_sessions_def cancel_if_def act_when_def act_bind_def act_update_def act_return_def act_raise_def)
  then have "ends admin_worlds (reset_route tiny_admin None None root_user 8 True False) (Inl (Exn Api_CancelledError))"
    unfolding reset_route_def admin_except_def
    by (intro ends_bind [OF returns_actor] ends_except ends_then [OF ends_reset_work]) simp_all
  then have "ends admin_worlds (admin_handle tiny_admin None None root_user tiny_request) (Inl (Exn Api_CancelledError))"
    by (simp add: tiny_request_def ends_answered)
  moreover have "tiny_world 0 0 None \<in> admin_worlds" unfolding admin_worlds_def by blast
  ultimately show ?thesis by (simp add: ends_def)
qed

lemma tiny_users: "accounts_in [104] tiny_db = [Some root_user, Some ann_user]"
  by (simp add: accounts_in_def decoded_def tiny_db_def) (simp add: user_row_of_def)

lemma tiny_ready: "admin_ready tiny_admin tiny_authority (tiny_world 0 0 None)"
  unfolding admin_ready_def
  using tiny_invariants
  by (auto simp: env_alone_def tiny_roles_def idle_def tx_closed_def tiny_world_def tiny_policy_def stands_def authority_of_def
    state_of_def stored_def tiny_file_def tiny_content tiny_authority_def accounts_of_def active_of_def authority_ok_def initial_ok
    uuid_range_def root_user_def ann_user_def tiny_users) (simp_all add: initial_role_state_def)

lemma tiny_accounts: "Some ann_user \<in> set (accounts_of (to_admin tiny_admin) (tiny_world 0 0 None))" "ua_id ann_user = 8"
    "active_of (to_admin tiny_admin) (tiny_world 0 0 None) 8"
  by (simp_all add: accounts_of_def active_of_def active_in_def tiny_world_def tiny_policy_def tiny_users)

lemma tiny_full: "has_full_administrator tiny_authority"
proof -
  have "active_in [104] tiny_db 7"
    by (simp add: active_in_def) (simp add: tiny_simps password_row_def)
  then show ?thesis
    using root_full unfolding has_full_administrator_def
    by (intro guardedI [of root_user]) (simp_all add: tiny_authority_def root_user_def qualifies_def replaced_def)
qed

end
