(* ===== verification/Role_Policy_Life.thy ===== *)
theory Role_Policy_Life
  imports Admin_World
begin

text \<open>
  Two promises of \<open>OperatorRolePolicy\<close>: an assignment that is interrupted before the base role follows
  never widens what an account may do, and a policy that was lost is not replaced by an empty one.
\<close>

section \<open>Interrupted assignments\<close>

lemma assigned_stored:
  assumes "holds_state site w (next_revision s1)" and "role_state_ok (re_casefold env) s1" and "rs_revision s1 + 1 < 2 ^ 63"
  shows "stored env site w = Some (written s1)"
proof -
  have "role_state_ok (re_casefold env) (next_revision s1)" using assms(2,3) unfolding role_state_ok_def next_revision_def by (simp; linarith)
  from role_state_roundtrip [OF this, of site] assms(1) show ?thesis by (simp add: stored_def holds_state_def written_def)
qed

text \<open>
  C20: an attempt to bind an account to a profile, however it ends, leaves the stored policy as it was, or leaves
  one under which the account, its base role not changed yet, holds a part of what the profile gives;
  nobody else's permissions change. No other process writes the policy file (\<open>re_meddle\<close>), no
  transaction is open, the policy is readable and its revision is below its limit.
\<close>

theorem interrupted_assignment_never_widens:
  assumes "re_meddle env = (\<lambda>_ f. f)" and "tx_closed (pw_users w)"
    and "policy_assign env (ug_site g) (registry_users renv g) i (Some k) expected w = (r, w')"
    and "stored env (ug_site g) w = Some s" and "rs_revision s + 1 < 2 ^ 63"
    and "ua_id a = i" and "uuid_range i"
  shows "\<exists>s'. stored env (ug_site g) w' = Some s' \<and>
    (s' = s \<or> rs_revision s' = rs_revision s + 1 \<and> (\<exists>p. map_of (rs_profiles s) k = Some p \<and>
       set (effective_permissions_in s' a) \<subseteq> set (effective_permissions_in s' (a\<lparr>uc_role := rp_base p\<rparr>)) \<and>
       set (effective_permissions_in s' (a\<lparr>uc_role := rp_base p\<rparr>)) = set (rp_permissions p)) \<and>
     (\<forall>b. uuid_range (ua_id b) \<and> ua_id b \<noteq> i \<longrightarrow> effective_permissions_in s' b = effective_permissions_in s b))"
proof -
  from registry_directory.assign_run [OF assms(1,2,3)] have "pw_file w' = pw_file w \<or>
      (\<exists>s1. role_state_ok (re_casefold env) s \<and> changed_state (re_casefold env) s (Bind_account i (Some k)) = Some s1 \<and>
         holds_state (ug_site g) w' (next_revision s1))"
    using assms(4) by (auto simp: registry_directory.change_outcome_def registry_directory.committed_change_def)
  then show ?thesis
  proof (elim disjE exE conjE)
    assume "pw_file w' = pw_file w"
    with assms(4) show ?thesis by (simp add: stored_def)
  next
    fix s1
    assume ok: "role_state_ok (re_casefold env) s" and c: "changed_state (re_casefold env) s (Bind_account i (Some k)) = Some s1"
      and h: "holds_state (ug_site g) w' (next_revision s1)"
    have s1: "role_state_ok (re_casefold env) s1 \<and> rs_revision s1 = rs_revision s"
      by (rule changed_state_ok [OF ok c]) simp
    with assms(5) have rev: "rs_revision s1 + 1 < 2 ^ 63" by simp
    note st = assigned_stored [OF h conjunct1 [OF s1] rev] and wr = written_ok [OF conjunct1 [OF s1] rev] and b = bind_state [OF c]
    from b(4) obtain p where p: "map_of (rs_profiles s) k = Some p" by (metis map_of_eq_None_iff not_None_eq list.set_map)
    then have base: "set (rp_permissions p) \<subseteq> set (BASE_PERMISSIONS (rp_base p))"
      using ok by (force simp: role_state_ok_def list_all_iff profile_ok_def dest: map_of_SomeD)
    have "set (effective_permissions_in (written s1) (a\<lparr>uc_role := x\<rparr>)) = set (rp_permissions p) \<inter> set (BASE_PERMISSIONS x)" for x
      using wr(3,4) b(1,2) p assms(6) by (auto simp: effective_permissions_in_def)
    from this [of "rp_base p"] this [of "uc_role a"] base
    have "set (effective_permissions_in (written s1) a) \<subseteq> set (effective_permissions_in (written s1) (a\<lparr>uc_role := rp_base p\<rparr>)) \<and>
        set (effective_permissions_in (written s1) (a\<lparr>uc_role := rp_base p\<rparr>)) = set (rp_permissions p)" by auto
    moreover have "effective_permissions_in (written s1) x = effective_permissions_in s x" if "uuid_range (ua_id x)" "ua_id x \<noteq> i" for x
      using bind_others [OF c assms(7) that] permissions_cong [of "written s1" x s1] wr(3,4) by simp
    ultimately show ?thesis using st p wr(2) s1 by auto
  qed
qed

definition bound_world :: "registry_world policy_world" where
  "bound_world = (tiny_policy 0 0 None)\<lparr>pw_file := Some \<lparr>rf_content = Some (json_of_role_state [104] sample_state), rf_info = tiny_info\<rparr>\<rparr>"

theorem interrupted_assignment_never_widens_witness:
  "\<exists>r w' s'. policy_assign tiny_roles [104] (registry_users tiny_env tiny_site) 8 (Some (uuid_text 9)) None bound_world = (r, w') \<and>
    stored tiny_roles [104] w' = Some s' \<and> (s' = sorted_state sample_state \<or>
      (\<exists>p. map_of (rs_profiles (sorted_state sample_state)) (uuid_text 9) = Some p \<and>
        set (effective_permissions_in s' (ann_user\<lparr>uc_role := rp_base p\<rparr>)) = set (rp_permissions p)))"
proof -
  obtain r w' where run: "policy_assign tiny_roles (ug_site tiny_site) (registry_users tiny_env tiny_site) 8 (Some (uuid_text 9)) None bound_world = (r, w')"
    by fastforce
  have alone: "re_meddle tiny_roles = (\<lambda>_ f. f)" by (simp add: tiny_roles_def)
  have "tx_closed (pw_users bound_world)" by (simp add: bound_world_def tiny_policy_def tx_closed_def)
  moreover have "stored tiny_roles (ug_site tiny_site) bound_world = Some (sorted_state sample_state)"
    using role_state_roundtrip [OF sample_state_ok] by (simp add: stored_def bound_world_def)
  moreover have "rs_revision (sorted_state sample_state) + 1 < 2 ^ 63" by (simp add: sorted_state_def sample_state_def)
  moreover have "ua_id ann_user = 8" "uuid_range 8" by (simp_all add: uuid_range_def)
  ultimately obtain s' where "stored tiny_roles (ug_site tiny_site) w' = Some s'" "s' = sorted_state sample_state \<or>
      (\<exists>p. map_of (rs_profiles (sorted_state sample_state)) (uuid_text 9) = Some p \<and>
        set (effective_permissions_in s' (ann_user\<lparr>uc_role := rp_base p\<rparr>)) = set (rp_permissions p))"
    using interrupted_assignment_never_widens [OF alone _ run, of "sorted_state sample_state" ann_user] by blast
  with run show ?thesis by (simp add: ug_site_tiny)
qed

section \<open>A lost policy\<close>

lemma catch_all_Inr: "act_catch m (\<lambda>_. act_raise e) w = (Inr x, w') \<longleftrightarrow> m w = (Inr x, w')"
  by (auto simp: act_catch_def act_raise_def split: prod.splits sum.splits)

lemma open_seals:
  fixes w :: "'u policy_world"
  assumes "(policy_open env site :: ('u, 'x, unit) pol) w = (Inr (), w')"
  shows "anchor_of site (py ''roles'') (sq_db (pw_anchors w')) \<noteq> None"
proof -
  let ?last = "on_anchors (anchor_seal (re_sql env) site (py ''roles'')) :: ('u, 'x, unit) pol"
  from assms obtain w1 where "?last w1 = (Inr (), w')"
    unfolding policy_open_def by (auto simp: bind_Inr catch_all_Inr split: if_splits)
  then obtain c where "anchor_seal (re_sql env) site (py ''roles'') (pw_anchors w1) = (Inr (), c)" "pw_anchors w' = c"
    by (auto simp: on_anchors_def split: prod.splits sum.splits)
  from anchor_seal_seals [OF this(1)] this(2) show ?thesis by simp
qed

text \<open>
  C21: once a policy was opened, opening it again when its file is gone fails, and writes no new file.
\<close>

theorem lost_policy_is_not_recreated:
  assumes "policy_open env site w = (Inr (), w1)" and "re_meddle env' = (\<lambda>_ f. f)"
    and "policy_open env' site (w1\<lparr>pw_file := None\<rparr>) = (r, w2)"
  shows "isl r \<and> pw_file w2 = None"
proof -
  have "isl r \<and> pw_file w2 = None" if sealed: "anchor_of site (py ''roles'') (sq_db (pw_anchors v)) \<noteq> None" and gone: "pw_file v = None"
    and run: "policy_open env' site v = (r, w2)" for v
  proof -
    obtain r0 c0 where o: "anchor_open (re_sql env') site (py ''roles'') False (pw_anchors v) = (r0, c0)" by fastforce
    with anchor_open_needs_state [OF sealed, where present = False] obtain e where "r0 = Inl e" by (cases r0) fastforce+
    with run gone o assms(2) show ?thesis
      by (auto simp: policy_open_def policy_exists_def system_call_def on_anchors_def act_bind_def act_update_def act_get_def act_return_def
        act_raise_def act_catch_def Let_def split: if_splits option.splits)
  qed
  from this [OF _ _ assms(3)] open_seals [OF assms(1)] show ?thesis by simp
qed

definition fresh_world :: "registry_world policy_world" where
  "fresh_world = (tiny_policy 0 0 None)\<lparr>pw_file := None\<rparr>"

definition no_anchors :: "nat \<Rightarrow> anchor_table sql_conn" where
  "no_anchors n = \<lparr>sq_db = No_Table, sq_backup = None, sq_tick = n\<rparr>"

lemma tiny_anchor_open: "anchor_open (\<lambda>_. Sql_Done) [104] (py ''roles'') False (no_anchors n) = (Inr (), no_anchors (Suc n))"
  by (simp add: anchor_open_def anchor_validate_def COMPONENTS_def no_anchors_def act_simps)

lemma tiny_seal: "\<exists>c. anchor_seal (\<lambda>_. Sql_Done) [104] (py ''roles'') (no_anchors n) = (Inr (), c)"
  by (simp add: anchor_seal_def anchor_validate_def no_anchors_def act_simps create_anchors_def insert_anchor_def anchor_of_def anchors_ok_def)

lemma tiny_write: "\<exists>w1. (policy_write tiny_roles [104] initial_role_state :: (registry_world, user_registry_exn, unit) pol)
    (fresh_world\<lparr>pw_closed := False, pw_identity := None, pw_anchors := c, pw_tick := k\<rparr>) = (Inr (), w1) \<and> pw_anchors w1 = c"
  by (simp add: policy_write_def same_directory_def admit_if_pinned_def replace_file_def write_temporary_def remove_temporary_def act_finally_def
    regular_file_def policy_admit_def tiny_info_def system_call_def act_simps Let_def fresh_world_def tiny_policy_def tiny_roles_def)

lemma fresh_opens: "\<exists>w1. (policy_open tiny_roles [104] :: (registry_world, user_registry_exn, unit) pol) fresh_world = (Inr (), w1)"
proof -
  obtain w1 where w: "(policy_write tiny_roles [104] initial_role_state :: (registry_world, user_registry_exn, unit) pol)
      (fresh_world\<lparr>pw_closed := False, pw_identity := None, pw_anchors := no_anchors (Suc 0), pw_tick := Suc (Suc (Suc (Suc 0)))\<rparr>) = (Inr (), w1)"
    "pw_anchors w1 = no_anchors (Suc 0)"
    using tiny_write by blast
  have start: "fresh_world = fresh_world\<lparr>pw_closed := False, pw_identity := None, pw_tick := 0, pw_anchors := no_anchors 0\<rparr>" "pw_file fresh_world = None"
    by (simp_all add: fresh_world_def tiny_policy_def no_anchors_def)
  have roles: "re_sql tiny_roles = (\<lambda>_. Sql_Done)" "re_fails tiny_roles = (\<lambda>_. False)" "re_meddle tiny_roles = (\<lambda>_ f. f)" "re_state_site tiny_roles = (\<lambda>_. Some [104])"
    by (simp_all add: tiny_roles_def)
  obtain c where "anchor_seal (\<lambda>_. Sql_Done) [104] (py ''roles'') (no_anchors (Suc 0)) = (Inr (), c)" using tiny_seal by blast
  with w tiny_anchor_open [of 0] start(2) show ?thesis
    by (subst start(1)) (simp add: policy_open_def policy_exists_def system_call_def on_anchors_def act_bind_def act_update_def act_get_def act_return_def
        act_catch_def Let_def roles)
qed

theorem lost_policy_is_not_recreated_witness:
  "\<exists>w1 r w2. (policy_open tiny_roles [104] :: (registry_world, user_registry_exn, unit) pol) fresh_world = (Inr (), w1) \<and>
    (policy_open tiny_roles [104] :: (registry_world, user_registry_exn, unit) pol) (w1\<lparr>pw_file := None\<rparr>) = (r, w2) \<and> isl r \<and> pw_file w2 = None"
proof -
  from fresh_opens obtain w1 where w1: "(policy_open tiny_roles [104] :: (registry_world, user_registry_exn, unit) pol) fresh_world = (Inr (), w1)" by blast
  obtain r w2 where w2: "(policy_open tiny_roles [104] :: (registry_world, user_registry_exn, unit) pol) (w1\<lparr>pw_file := None\<rparr>) = (r, w2)" by fastforce
  have "re_meddle tiny_roles = (\<lambda>_ f. f)" by (simp add: tiny_roles_def)
  from lost_policy_is_not_recreated [OF w1 this w2] w1 w2 show ?thesis by blast
qed

end
