(* ===== verification/Admin_Sessions.thy ===== *)
theory Admin_Sessions
  imports Admin_Frames
begin

text \<open>
  No route gives a session to an account whose sessions it has ended: of the session manager the routes
  use only the revocation.
\<close>

definition revoked_gone :: "admin_world \<Rightarrow> bool" where
  "revoked_gone w \<longleftrightarrow> (\<forall>u\<in>set (aw_revoked w). sm_user_tokens (aw_sessions w) u = None)"

definition keeps_gone :: "admin_world \<Rightarrow> admin_world \<Rightarrow> bool" where
  "keeps_gone w w' \<longleftrightarrow> (revoked_gone w \<longrightarrow> revoked_gone w')"

interpretation gone: act_frame keeps_gone
  by unfold_locales (auto simp: keeps_gone_def)

named_theorems gone_intros \<open>rules for computations that leave ended sessions ended\<close>

declare gone.leaves_intros [gone_intros]

lemma gone_policy [gone_intros]: "leaves keeps_gone (on_policy m)"
  by (auto simp: leaves_def on_policy_def keeps_gone_def revoked_gone_def split: prod.splits sum.splits raised.splits)

lemma gone_registry [gone_intros]: "leaves keeps_gone (on_registry m)" "leaves keeps_gone (registry_call e n)"
  unfolding on_registry_def registry_call_def by (rule gone_policy)+

lemma gone_revoke [gone_intros]: "leaves keeps_gone (revoke_sessions u)"
  by (auto simp: leaves_def revoke_sessions_def keeps_gone_def revoked_gone_def session_revoke_user_def split: option.splits)

lemma gone_except [gone_intros]: "leaves keeps_gone m \<Longrightarrow> leaves keeps_gone (api_except g m)"
  by (fastforce simp: leaves_def api_except_def act_catch_def act_reraise_def split: prod.splits sum.splits raised.splits option.splits)

lemma gone_role_except [gone_intros]: "leaves keeps_gone m \<Longrightarrow> leaves keeps_gone (role_except c m)"
  and gone_admin_except [gone_intros]: "leaves keeps_gone m \<Longrightarrow> leaves keeps_gone (admin_except cs b m)"
  unfolding role_except_def admin_except_def by (rule gone_except, assumption)+

lemma gone_let [gone_intros]: "leaves keeps_gone (f x) \<Longrightarrow> leaves keeps_gone (let y = x in f y)"
  by simp

lemma gone_bool [gone_intros]: "leaves keeps_gone m \<Longrightarrow> leaves keeps_gone n \<Longrightarrow> leaves keeps_gone (case b of True \<Rightarrow> m | False \<Rightarrow> n)"
  by (cases b) simp_all

section \<open>Helpers\<close>

lemma gone_helpers [gone_intros]:
  "leaves keeps_gone (effective_permissions a u)" "leaves keeps_gone (snapshot_api a)"
  unfolding effective_permissions_def snapshot_api_def by (intro gone_intros)+

lemma gone_checks [gone_intros]:
  "leaves keeps_gone (require_permission a u p)" "leaves keeps_gone (require_grant a u ps)"
  unfolding require_permission_def require_grant_def by (intro gone_intros)+

lemma gone_authenticate [gone_intros]: "leaves keeps_gone (authenticate a p u)"
  unfolding authenticate_def unauthorized_def by (intro gone_intros)

lemma gone_actor [gone_intros]: "leaves keeps_gone (role_actor a p u)"
  unfolding role_actor_def by (intro gone_intros)

lemma gone_revoke_all [gone_intros]: "leaves keeps_gone (revoke_all us)"
  by (induction us) (auto intro!: gone_intros)

lemma gone_revoke_bound [gone_intros]: "leaves keeps_gone (revoke_bound a i)"
  unfolding revoke_bound_def by (intro gone_intros)

lemma gone_apply [gone_intros]: "leaves keeps_gone (apply_base_role a u i x)"
  unfolding apply_base_role_def by (intro gone_intros)

lemma gone_role_routes [gone_intros]:
  "leaves keeps_gone (create_role a p u q)" "leaves keeps_gone (update_role a p u i q n)"
  "leaves keeps_gone (delete_role a p u i n)" "leaves keeps_gone (assign_role a p u i k m)"
  unfolding create_role_def update_role_def delete_role_def assign_role_def by (intro gone_intros)+

lemma gone_target [gone_intros]: "leaves keeps_gone (admin_target e i)"
  unfolding admin_target_def storage_shield_def by (intro gone_intros)

lemma gone_known [gone_intros]: "leaves keeps_gone (cameras_known e is)"
  by (induction "is") (auto intro!: gone_intros split: option.splits bool.splits)

lemma gone_camera_policy [gone_intros]: "leaves keeps_gone (camera_policy e x r)"
  unfolding camera_policy_def Let_def by (intro gone_intros)

lemma gone_row [gone_intros]: "leaves keeps_gone (account_row e a)"
  unfolding account_row_def by (intro gone_intros)

lemma gone_changed [gone_intros]: "leaves keeps_gone (camera_changed e i b)"
  unfolding camera_changed_def by (auto intro!: gone_intros split: option.split)

lemma gone_admin [gone_intros]: "leaves keeps_gone (current_admin e p u)"
  unfolding current_admin_def by (intro gone_intros)

lemma gone_mutation [gone_intros]: "leaves keeps_gone (mutation_admin e t p u)"
  unfolding mutation_admin_def by (intro gone_intros)

lemma gone_end [gone_intros]: "leaves keeps_gone (end_sessions e p u a i b)" "leaves keeps_gone (cancel_if b)"
  unfolding end_sessions_def cancel_if_def by (intro gone_intros)+

lemma gone_works [gone_intros]:
  "leaves keeps_gone (create_user_work e a q c)" "leaves keeps_gone (update_user_work e a i x)"
  "leaves keeps_gone (camera_access_work e a i y)" "leaves keeps_gone (reset_work e a i)"
  unfolding create_user_work_def update_user_work_def camera_access_work_def reset_work_def by (intro gone_intros)+

lemma gone_account_routes [gone_intros]:
  "leaves keeps_gone (create_user_route e t p u q c)" "leaves keeps_gone (update_user_route e t p u i x b1 b2)"
  "leaves keeps_gone (camera_access_route e t p u i y)" "leaves keeps_gone (reset_route e t p u i b1 b2)"
  unfolding create_user_route_def update_user_route_def camera_access_route_def reset_route_def by (intro gone_intros)+

end
