(* ===== verification/Admin_Safety.thy ===== *)
theory Admin_Safety
  imports Admin_World Admin_Sessions
begin

text \<open>
  What holds of every request of the role and account API and of every run of them: they refine the steps
  of the authority, so a full administrator remains, nobody reaches beyond what he holds, and the
  sessions of every account that was touched are ended.
\<close>

lemma gone_handle: "leaves keeps_gone (admin_handle e retry permission who q)"
  by (cases q) (auto simp: answered_def intro!: gone_intros)

section \<open>Every request\<close>

text \<open>
  C8: whatever a request does, however it ends and whatever fails in it, it takes the authority only
  through guarded steps within what its actor holds.
\<close>

theorem requests_refine_authority:
  assumes "admin_ready e v w" and "admin_handle e retry permission who q w = (r, w')"
  shows "\<exists>v'. authority_of (to_admin e) w' = Some v' \<and> authority_steps (folding (to_admin e)) (holds v (ua_id who)) v v'"
proof -
  from assms(1) have "idle w" "stands (to_admin e) v w" by (simp_all add: admin_ready_def)
  from movesD [OF handle_moves [OF assms(1)] this assms(2)] show ?thesis
    by (auto simp: lands_def stands_def)
qed

theorem requests_refine_authority_witness:
  "\<exists>r w' v'. admin_handle tiny_admin None None root_user tiny_request (tiny_world 0 0 None) = (r, w') \<and> authority_of (to_admin tiny_admin) w' = Some v' \<and>
    authority_steps (folding (to_admin tiny_admin)) (holds tiny_authority 7) tiny_authority v'"
proof -
  from abandoned_reset obtain w' where run: "admin_handle tiny_admin None None root_user tiny_request (tiny_world 0 0 None) = (Inl (Exn Api_CancelledError), w')" by blast
  from requests_refine_authority [OF tiny_ready run] run show ?thesis by (auto simp: root_user_def)
qed

text \<open>
  C6: no request gives, takes or changes what an account may do, or resets its password, unless the
  actor holds all that the account could do before and all that it can do afterwards.
\<close>

theorem no_request_exceeds_its_actor:
  assumes "admin_ready e v w" and "admin_handle e retry permission who q w = (r, w')"
  shows "\<exists>v'. authority_of (to_admin e) w' = Some v' \<and>
    (\<forall>i. holds v' i \<noteq> holds v i \<or> active_of (to_admin e) w' i \<noteq> active_of (to_admin e) w i \<longrightarrow>
      holds v i \<subseteq> holds v (ua_id who) \<and> holds v' i \<subseteq> holds v (ua_id who))"
proof -
  from assms(1) have s: "idle w" "stands (to_admin e) v w" "authority_ok (folding (to_admin e)) v" by (simp_all add: admin_ready_def)
  from movesD [OF handle_moves [OF assms(1)] s(1,2) assms(2)] obtain v' where v': "stands (to_admin e) v' w'"
    "authority_steps (folding (to_admin e)) (holds v (ua_id who)) v v'" by (auto simp: lands_def)
  from steps_inside [OF v'(2) s(3)] v'(1) s(2) show ?thesis
    by (auto simp: inside_def touched_def stands_def authority_of_def)
qed

theorem no_request_exceeds_its_actor_witness:
  "\<exists>r w' v'. admin_handle tiny_admin None None root_user tiny_request (tiny_world 0 0 None) = (r, w') \<and> authority_of (to_admin tiny_admin) w' = Some v' \<and>
    (holds v' 8 \<noteq> holds tiny_authority 8 \<longrightarrow> holds v' 8 \<subseteq> holds tiny_authority 7)"
proof -
  from abandoned_reset obtain w' where run: "admin_handle tiny_admin None None root_user tiny_request (tiny_world 0 0 None) = (Inl (Exn Api_CancelledError), w')" by blast
  from no_request_exceeds_its_actor [OF tiny_ready run] run show ?thesis by (auto simp: root_user_def)
qed

text \<open>
  C7: when a request has been answered, or was cancelled after its work, every account whose
  permissions or password it changed has had its sessions ended.
\<close>

theorem changed_authority_ends_sessions:
  assumes "admin_ready e v w" and "aw_revoked w = []" and "admin_handle e retry permission who q w = (r, w')"
    and "r = Inr () \<or> r = Inl (Exn Api_CancelledError)"
  shows "\<exists>v'. authority_of (to_admin e) w' = Some v' \<and>
    (\<forall>a. Some a \<in> set (accounts_of (to_admin e) w) \<longrightarrow>
      holds v' (ua_id a) \<noteq> holds v (ua_id a) \<or> active_of (to_admin e) w' (ua_id a) \<noteq> active_of (to_admin e) w (ua_id a) \<longrightarrow>
      ua_id a \<in> set (aw_revoked w') \<and> sm_user_tokens (aw_sessions w') (ua_id a) = None)"
proof -
  from assms(1) have st: "idle w" "stands (to_admin e) v w" by (simp_all add: admin_ready_def)
  from movesD [OF handle_moves [OF assms(1)] st assms(3)] assms(4)
  obtain v' where v': "stands (to_admin e) v' w'" "sessions_ended v v'" by (auto simp: lands_Inl lands_Inr)
  from leavesD [OF gone_handle assms(3)] assms(2) have "revoked_gone w'" by (simp add: keeps_gone_def revoked_gone_def)
  with v' st(2) show ?thesis
    by (intro exI [of _ v']) (auto simp: stands_def authority_of_def sessions_ended_def touched_def revoked_gone_def)
qed

theorem changed_authority_ends_sessions_witness:
  "\<exists>w' v'. admin_handle tiny_admin None None root_user tiny_request (tiny_world 0 0 None) = (Inl (Exn Api_CancelledError), w') \<and>
    authority_of (to_admin tiny_admin) w' = Some v' \<and> (\<not> au_active v' 8 \<longrightarrow> 8 \<in> set (aw_revoked w'))"
proof -
  from abandoned_reset obtain w' where run: "admin_handle tiny_admin None None root_user tiny_request (tiny_world 0 0 None) = (Inl (Exn Api_CancelledError), w')" by blast
  have "aw_revoked (tiny_world 0 0 None) = []" by (simp add: tiny_world_def)
  from changed_authority_ends_sessions [OF tiny_ready this run] obtain v' where v': "authority_of (to_admin tiny_admin) w' = Some v'"
    "\<forall>a. Some a \<in> set (accounts_of (to_admin tiny_admin) (tiny_world 0 0 None)) \<longrightarrow>
      holds v' (ua_id a) \<noteq> holds tiny_authority (ua_id a) \<or>
      active_of (to_admin tiny_admin) w' (ua_id a) \<noteq> active_of (to_admin tiny_admin) (tiny_world 0 0 None) (ua_id a) \<longrightarrow>
      ua_id a \<in> set (aw_revoked w') \<and> sm_user_tokens (aw_sessions w') (ua_id a) = None" by blast
  from v'(1) have "au_active v' = active_of (to_admin tiny_admin) w'" by (auto simp: authority_of_def)
  with v' run tiny_accounts show ?thesis by force
qed

section \<open>Any number of requests\<close>

text \<open>
  Requests one after the other, by whatever actors. Each has its own environment: clocks, random values,
  identifiers and outcomes of its statements and system calls; what stays is the registry and Python's folding
  of cases. A request finds the connection idle and room for one more revision, its \<open>uuid4\<close> returns 128
  bits and no identifier of a profile stored so far, and nobody else writes the policy file meanwhile.
\<close>

definition same_site :: "account_env \<Rightarrow> account_env \<Rightarrow> bool" where
  "same_site e e' \<longleftrightarrow> ae_registry e' = ae_registry e \<and> re_casefold (ae_roles e') = re_casefold (ae_roles e)"

inductive administered :: "account_env \<Rightarrow> admin_world \<Rightarrow> admin_world \<Rightarrow> bool" for e where
  request: "same_site e e' \<Longrightarrow> env_alone (to_admin e') \<Longrightarrow> idle w \<Longrightarrow>
    (\<And>v. authority_of (to_admin e) w = Some v \<Longrightarrow> rs_revision (au_state v) + 1 < 2 ^ 63 \<and>
       (\<forall>n. uuid_text (re_uuid4 (ae_roles e') n) \<notin> set (map fst (rs_profiles (au_state v))))) \<Longrightarrow>
    (\<And>n. uuid_range (rn_uuid (ae_users e') n)) \<Longrightarrow>
    admin_handle e' retry permission who q w = (r, w') \<Longrightarrow> administered e w w'"

lemma same_site_simps:
  assumes "same_site e e'"
  shows "authority_of (to_admin e') = authority_of (to_admin e)" and "folding (to_admin e') = folding (to_admin e)"
    and "stands (to_admin e') = stands (to_admin e)"
proof -
  have f: "ae_registry (to_admin e') = ae_registry (to_admin e)" "re_casefold (ae_roles (to_admin e')) = re_casefold (ae_roles (to_admin e))"
    using assms by (simp_all add: same_site_def)
  show a: "authority_of (to_admin e') = authority_of (to_admin e)"
    by (rule ext) (simp only: authority_of_def state_of_def stored_def accounts_of_def active_of_def f)
  show "folding (to_admin e') = folding (to_admin e)" by (rule f(2))
  show "stands (to_admin e') = stands (to_admin e)" by (intro ext) (simp only: stands_def a)
qed

lemma administered_full:
  assumes "administered e w w'" and st: "stands (to_admin e) v w" "authority_ok (folding (to_admin e)) v" "has_full_administrator v"
  shows "\<exists>v'. stands (to_admin e) v' w' \<and> authority_ok (folding (to_admin e)) v' \<and> has_full_administrator v'"
  using assms(1)
proof cases
  case (request e' retry permission who q r)
  note same = same_site_simps [OF request(1)]
  from st(1) have v: "authority_of (to_admin e) w = Some v" by (simp add: stands_def)
  have ready: "admin_ready e' v w"
    unfolding admin_ready_def same using request(2,3,5) request(4) [OF v] st by blast
  from ready have "stands (to_admin e') v w" by (simp add: admin_ready_def)
  from movesD [OF handle_moves [OF ready] request(3) this request(6)] obtain v'
    where v': "stands (to_admin e) v' w'" "authority_steps (folding (to_admin e)) (holds v (ua_id who)) v v'"
    unfolding lands_def same by blast
  from steps_ok [OF v'(2) st(2)] steps_full [OF v'(2) st(2,3)] v'(1) show ?thesis by blast
qed

text \<open>
  C5: from a readable, well-formed policy with an account that is enabled, active and holds every permission on,
  such an account remains through any sequence of requests, by whomever, however they end and whatever
  roles they create, under the conditions of each request above.
\<close>

theorem full_administrator_remains:
  assumes "(administered e)\<^sup>*\<^sup>* w w'" and "admin_ready e v w" and "has_full_administrator v"
  shows "\<exists>v'. authority_of (to_admin e) w' = Some v' \<and> has_full_administrator v'"
proof -
  have "\<exists>v'. stands (to_admin e) v' w' \<and> authority_ok (folding (to_admin e)) v' \<and> has_full_administrator v'"
    using assms(1)
  proof (induction rule: rtranclp_induct)
    case base
    with assms(2,3) show ?case by (auto simp: admin_ready_def)
  next
    case (step w1 w2)
    then show ?case using administered_full [OF step.hyps(2)] by blast
  qed
  then show ?thesis by (auto simp: stands_def)
qed

text \<open>Two requests with different identifiers: one is refused by the rate limit, the other is abandoned after its work.\<close>

theorem full_administrator_remains_witness:
  "\<exists>e' r w1 w' v'. ae_roles e' \<noteq> ae_roles tiny_admin \<and>
    admin_handle e' (Some 5) None root_user tiny_request (tiny_world 0 0 None) = (r, w1) \<and>
    admin_handle tiny_admin None None root_user tiny_request w1 = (Inl (Exn Api_CancelledError), w') \<and>
    authority_of (to_admin tiny_admin) w' = Some v' \<and> has_full_administrator v'"
proof -
  let ?e = "tiny_admin\<lparr>ae_roles := tiny_roles\<lparr>re_uuid4 := \<lambda>_. 78\<rparr>\<rparr>" and ?w = "tiny_world 0 0 None"
  have limited: "admin_handle ?e (Some 5) None root_user tiny_request ?w = (Inl (Exn (Http 429 ''admin_rate_limit'')), ?w)"
    by (simp add: tiny_request_def answered_def reset_route_def mutation_admin_def act_bind_def act_raise_def)
  from abandoned_reset obtain w' where run: "admin_handle tiny_admin None None root_user tiny_request ?w = (Inl (Exn Api_CancelledError), w')" by blast
  have other: "re_uuid4 (ae_roles ?e) 0 \<noteq> re_uuid4 (ae_roles tiny_admin) 0" by (simp add: tiny_roles_def)
  have site: "same_site tiny_admin ?e" "same_site tiny_admin tiny_admin" by (simp_all add: same_site_def)
  have alone: "env_alone (to_admin ?e)" "env_alone (to_admin tiny_admin)"
    by (simp_all add: env_alone_def admin_env.defs tiny_roles_def)
  from tiny_ready have idle: "idle ?w" and v: "authority_of (to_admin tiny_admin) ?w = Some tiny_authority"
    by (simp_all add: admin_ready_def stands_def)
  have room: "rs_revision (au_state v) + 1 < 2 ^ 63 \<and> (\<forall>n. uuid_text (re_uuid4 (ae_roles e) n) \<notin> set (map fst (rs_profiles (au_state v))))"
    if "authority_of (to_admin tiny_admin) ?w = Some v" for e v
    using that v by (auto simp: tiny_authority_def initial_role_state_def)
  have range: "uuid_range (rn_uuid (ae_users ?e) n)" "uuid_range (rn_uuid (ae_users tiny_admin) n)" for n by (simp_all add: uuid_range_def)
  have "administered tiny_admin ?w ?w"
    by (rule administered.request [OF site(1) alone(1) idle _ range(1) limited]) (rule room)
  moreover have "administered tiny_admin ?w w'"
    by (rule administered.request [OF site(2) alone(2) idle _ range(2) run]) (rule room)
  ultimately have "(administered tiny_admin)\<^sup>*\<^sup>* ?w w'" by (rule converse_rtranclp_into_rtranclp [OF _ r_into_rtranclp])
  from full_administrator_remains [OF this tiny_ready tiny_full] limited run other show ?thesis by metis
qed

end
