(* ===== verification/Audit_Log.thy ===== *)
theory Audit_Log
  imports Component_Anchor Role_Policy_State
begin

text \<open>
  \<open>src/src/k5vision/operator_audit.py\<close>: \<open>OperatorAuditStore\<close>, an append-only log in a SQLite database of its
  own. Every row carries a digest over the digest before it; the state row names the first and the last digest.

  A column holds what SQLite gives for it, of whatever type, since the file may have been edited. A column with
  JSON text is modelled by the length of the text and the value it denotes. \<open>sha256\<close>, \<open>json.dumps\<close>, the clocks and the
  parser of \<open>UUID\<close> are the environment, and so are the ownership checks of the file (\<open>_admit\<close>), as one more
  statement that can fail.
\<close>

section \<open>Vocabulary\<close>

definition ACTIONS :: "pystr list" where
  "ACTIONS = map py
   [''auth.login'', ''auth.logout'', ''auth.activate'', ''auth.mfa'', ''auth.sso'', ''camera.enroll'', ''camera.remove'',
   ''camera.reconnect'', ''camera.discover'', ''camera.probe'', ''recording.configure'', ''export.prepare'', ''export.completed'',
   ''export.download'', ''export.failed'', ''analytics.configure'', ''storage.configure'', ''time.configure'', ''time.resync'',
   ''time.camera.configure'', ''time.camera.sync'', ''integration.configure'', ''integration.test'', ''integration.connect'',
   ''integration.disconnect'', ''integration.create'', ''integration.update'', ''integration.delete'', ''integration.handshake'',
   ''integration.response'', ''integration.event'', ''security.configure'', ''security.access'', ''security.mfa.configure'',
   ''security.sso.configure'', ''security.mfa_enabled'', ''security.mfa_disabled'', ''security.mfa_recovery_replaced'',
   ''security.mfa_authenticated'', ''security.sso_configured'', ''security.sso_linked'', ''security.sso_unlinked'',
   ''security.sso_authenticated'', ''user.create'', ''user.configure'', ''user.camera_access'', ''user.reset_password'',
   ''role.configure'', ''role.remove'', ''audit.export'', ''system.change'']"

definition OUTCOMES :: "pystr list" where
  "OUTCOMES = map py [''started'', ''success'', ''denied'', ''failure'', ''interrupted'']"

definition TARGET_KINDS :: "pystr list" where
  "TARGET_KINDS = map py
   [''camera'', ''user'', ''export'', ''storage'', ''time'', ''integration'', ''security'', ''role'', ''session'', ''system'',
   ''site'']"

definition CHANGE_FIELDS :: "pystr list" where
  "CHANGE_FIELDS = map py
   [''display_name'', ''role'', ''enabled'', ''camera_access'', ''password'', ''mfa'', ''sso'', ''permissions'', ''name'',
   ''quota_bytes'', ''retention_seconds'', ''minimum_free_bytes'', ''recording_directory'', ''pending_recording_directory'',
   ''confidence_threshold'', ''ntp_sources'', ''ntp_enabled'', ''time_zone'', ''utc'', ''provider'', ''endpoint'',
   ''credentials'', ''capabilities'', ''configuration'', ''recording_enabled'']"

abbreviation MAX_AUDIT_ROWS :: int where
  "MAX_AUDIT_ROWS \<equiv> 100000"

abbreviation MAX_EXPORT_ROWS :: int where
  "MAX_EXPORT_ROWS \<equiv> 10000"

definition ZERO_DIGEST :: pystr where
  "ZERO_DIGEST = replicate 64 48"

section \<open>Events\<close>

datatype py_number = Number_int int | Number_float rat

text \<open>A field of \<open>details\<close> is \<open>None\<close> when the dictionary has no such key.\<close>

record audit_details =
  dt_export_id :: "pystr option"
  dt_clip_start :: "pystr option"
  dt_clip_duration :: "py_number option"
  dt_bytes :: "int option"
  dt_provider :: "pystr option"
  dt_response_count :: "int option"

record audit_event =
  ev_id :: int
  ev_occurred_at :: pystr
  ev_run_id :: pystr
  ev_elapsed_ms :: int
  ev_request_id :: pystr
  ev_actor_id :: "pystr option"
  ev_action :: pystr
  ev_outcome :: pystr
  ev_target_kind :: "pystr option"
  ev_target_id :: "pystr option"
  ev_status_code :: "int option"
  ev_changes :: "pystr list"
  ev_details :: audit_details

record audit_env =
  ax_sql :: sql_env
  ax_site :: pystr
  ax_run_id :: pystr
  ax_elapsed :: "nat \<Rightarrow> rat option"
  ax_utc_now :: "nat \<Rightarrow> pystr option"
  ax_utc :: "pystr \<Rightarrow> pystr option"
  ax_instant :: "int \<Rightarrow> pystr"
  ax_uuid :: "pystr \<Rightarrow> user_uuid option"
  ax_uuid4 :: "nat \<Rightarrow> user_uuid"
  ax_sha256 :: "pystr \<Rightarrow> pystr"
  ax_dumps :: "audit_event \<Rightarrow> pystr"
  ax_changes_length :: "pystr list \<Rightarrow> int"
  ax_details_length :: "audit_details \<Rightarrow> int"

text \<open>\<open>_identifier\<close> of a text, \<open>_details\<close> and \<open>_validate_event\<close>; \<open>ax_utc\<close> is \<open>_utc(datetime.fromisoformat(text))\<close>.\<close>

definition canonical_id :: "audit_env \<Rightarrow> pystr \<Rightarrow> pystr option" where
  "canonical_id env s = map_option uuid_text (ax_uuid env s)"

definition duration_ok :: "py_number \<Rightarrow> bool" where
  "duration_ok x \<longleftrightarrow> (case x of Number_int i \<Rightarrow> 1 \<le> i \<and> i \<le> 3600 | Number_float r \<Rightarrow> 1 \<le> r \<and> r \<le> 3600)"

definition given :: "'a option \<Rightarrow> ('a \<Rightarrow> bool) \<Rightarrow> bool" where
  "given x P \<longleftrightarrow> (case x of None \<Rightarrow> True | Some y \<Rightarrow> P y)"

definition converted :: "('a \<Rightarrow> 'b option) \<Rightarrow> 'a option \<Rightarrow> 'b option option" where
  "converted f x = (case x of None \<Rightarrow> Some None | Some y \<Rightarrow> map_option Some (f y))"

definition details_of :: "audit_env \<Rightarrow> audit_details \<Rightarrow> audit_details option" where
  "details_of env d =
     (case (converted (canonical_id env) (dt_export_id d),
            converted (\<lambda>t. if 40 < len t then None else ax_utc env t) (dt_clip_start d)) of
        (Some i, Some t) \<Rightarrow>
          if given (dt_clip_duration d) duration_ok \<and> given (dt_bytes d) (\<lambda>n. 0 \<le> n \<and> n \<le> 268435456) \<and>
             given (dt_provider d) (\<lambda>p. p \<in> {py ''neural'', py ''analytics''}) \<and>
             given (dt_response_count d) (\<lambda>n. 0 \<le> n \<and> n \<le> 128)
          then Some (d\<lparr>dt_export_id := i, dt_clip_start := t\<rparr>) else None
      | _ \<Rightarrow> None)"

definition audit_event_ok :: "audit_env \<Rightarrow> audit_event \<Rightarrow> bool" where
  "audit_event_ok env e \<longleftrightarrow>
     1 \<le> ev_id e \<and> ev_id e < 2 ^ 63 \<and> ev_action e \<in> set ACTIONS \<and> ev_outcome e \<in> set OUTCOMES \<and>
     given (ev_target_kind e) (\<lambda>k. k \<in> set TARGET_KINDS) \<and> 0 \<le> ev_elapsed_ms e \<and> ev_elapsed_ms e < 2 ^ 63 \<and>
     given (ev_status_code e) (\<lambda>n. 100 \<le> n \<and> n \<le> 599) \<and> len (ev_changes e) \<le> len CHANGE_FIELDS \<and>
     set (ev_changes e) \<subseteq> set CHANGE_FIELDS \<and> distinct (ev_changes e) \<and>
     given (ev_actor_id e) (\<lambda>i. canonical_id env i = Some i) \<and> given (ev_target_id e) (\<lambda>i. canonical_id env i = Some i) \<and>
     canonical_id env (ev_run_id e) = Some (ev_run_id e) \<and> canonical_id env (ev_request_id e) = Some (ev_request_id e) \<and>
     ax_utc env (ev_occurred_at e) = Some (ev_occurred_at e) \<and> details_of env (ev_details e) = Some (ev_details e)"

text \<open>\<open>_digest\<close>: the hash of the digest before, a line end and the event as JSON with sorted keys.\<close>

definition digest_input :: "audit_env \<Rightarrow> pystr \<Rightarrow> audit_event \<Rightarrow> pystr" where
  "digest_input env previous e = previous @ 10 # ax_dumps env e"

definition digest :: "audit_env \<Rightarrow> pystr \<Rightarrow> audit_event \<Rightarrow> pystr" where
  "digest env previous e = ax_sha256 env (digest_input env previous e)"

section \<open>Tables\<close>

datatype sql_value = Sql_Null | Sql_Int int | Sql_Text pystr | Sql_Other

record 'v json_text =
  jt_length :: int
  jt_value :: "'v option"

record log_row =
  lr_id :: int
  lr_occurred_at :: sql_value
  lr_run_id :: sql_value
  lr_elapsed_ms :: sql_value
  lr_request_id :: sql_value
  lr_actor_id :: sql_value
  lr_action :: sql_value
  lr_outcome :: sql_value
  lr_target_kind :: sql_value
  lr_target_id :: sql_value
  lr_status_code :: sql_value
  lr_changes :: "pystr list json_text"
  lr_details :: "audit_details json_text"
  lr_previous_digest :: sql_value
  lr_digest :: sql_value

record state_row =
  as_schema_version :: sql_value
  as_site_id :: sql_value
  as_anchor_id :: sql_value
  as_anchor_digest :: sql_value
  as_last_id :: sql_value
  as_last_digest :: sql_value

record audit_db =
  al_state :: "state_row list"
  al_events :: "log_row list"

fun sql_text :: "sql_value \<Rightarrow> pystr option" where
  "sql_text (Sql_Text t) = Some t"
| "sql_text _ = None"

fun sql_int :: "sql_value \<Rightarrow> int option" where
  "sql_int (Sql_Int i) = Some i"
| "sql_int _ = None"

definition sql_optional :: "(sql_value \<Rightarrow> 'a option) \<Rightarrow> sql_value \<Rightarrow> 'a option option" where
  "sql_optional f v = (if v = Sql_Null then Some None else map_option Some (f v))"

text \<open>\<open>_event\<close> and \<open>_validate_event\<close> of a row: the event, or no value when either raises.\<close>

definition event_of_row :: "log_row \<Rightarrow> audit_event option" where
  "event_of_row r =
     (if 1024 < jt_length (lr_changes r) \<or> 2048 < jt_length (lr_details r) then None else
      case (sql_text (lr_occurred_at r), sql_text (lr_run_id r), sql_int (lr_elapsed_ms r), sql_text (lr_request_id r),
            sql_optional sql_text (lr_actor_id r), sql_text (lr_action r), sql_text (lr_outcome r)) of
        (Some t, Some run, Some ms, Some request, Some actor, Some action, Some outcome) \<Rightarrow>
          (case (sql_optional sql_text (lr_target_kind r), sql_optional sql_text (lr_target_id r),
                 sql_optional sql_int (lr_status_code r), jt_value (lr_changes r), jt_value (lr_details r)) of
             (Some kind, Some target, Some code, Some changes, Some details) \<Rightarrow>
               Some \<lparr>ev_id = lr_id r, ev_occurred_at = t, ev_run_id = run, ev_elapsed_ms = ms, ev_request_id = request,
                 ev_actor_id = actor, ev_action = action, ev_outcome = outcome, ev_target_kind = kind, ev_target_id = target,
                 ev_status_code = code, ev_changes = changes, ev_details = details\<rparr>
           | _ \<Rightarrow> None)
      | _ \<Rightarrow> None)"

definition valid_event :: "audit_env \<Rightarrow> log_row \<Rightarrow> audit_event option" where
  "valid_event env r =
     (case event_of_row r of None \<Rightarrow> None | Some e \<Rightarrow> if audit_event_ok env e then Some e else None)"

text \<open>The digest of a row from the column before it; a column that is no ASCII text raises.\<close>

definition row_digest :: "audit_env \<Rightarrow> sql_value \<Rightarrow> audit_event \<Rightarrow> sql_value option" where
  "row_digest env previous e =
     (case sql_text previous of
        None \<Rightarrow> None
      | Some p \<Rightarrow> if list_all (\<lambda>c. c < 128) p then Some (Sql_Text (digest env p e)) else None)"

section \<open>The state row\<close>

record chain_state =
  ch_anchor_id :: int
  ch_anchor_digest :: pystr
  ch_last_id :: int
  ch_last_digest :: pystr

definition is_digest :: "pystr \<Rightarrow> bool" where
  "is_digest t \<longleftrightarrow> len t = 64 \<and> list_all (\<lambda>c. 48 \<le> c \<and> c \<le> 57 \<or> 97 \<le> c \<and> c \<le> 102) t"

definition chain_state_ok :: "chain_state \<Rightarrow> bool" where
  "chain_state_ok s \<longleftrightarrow>
     0 \<le> ch_anchor_id s \<and> ch_anchor_id s \<le> ch_last_id s \<and> ch_last_id s < 2 ^ 63 \<and>
     ch_last_id s - ch_anchor_id s \<le> MAX_AUDIT_ROWS \<and> \<not> (0 < ch_last_id s \<and> ch_last_id s = ch_anchor_id s) \<and>
     (ch_anchor_id s = 0 \<longrightarrow> ch_anchor_digest s = ZERO_DIGEST) \<and> (ch_last_id s = 0 \<longrightarrow> ch_last_digest s = ZERO_DIGEST) \<and>
     is_digest (ch_anchor_digest s) \<and> is_digest (ch_last_digest s)"

definition read_state :: "audit_env \<Rightarrow> audit_db \<Rightarrow> chain_state option" where
  "read_state env d =
     (case take 2 (al_state d) of
        [r] \<Rightarrow>
          (if as_schema_version r \<noteq> Sql_Int 1 \<or> as_site_id r \<noteq> Sql_Text (ax_site env) then None else
           case (sql_int (as_anchor_id r), sql_text (as_anchor_digest r), sql_int (as_last_id r), sql_text (as_last_digest r)) of
             (Some a, Some p, Some l, Some q) \<Rightarrow>
               (let s = \<lparr>ch_anchor_id = a, ch_anchor_digest = p, ch_last_id = l, ch_last_digest = q\<rparr> in
                if chain_state_ok s then Some s else None)
           | _ \<Rightarrow> None)
      | _ \<Rightarrow> None)"

section \<open>The store\<close>

text \<open>\<open>as_open\<close>: there is a connection. Every failure inside \<open>_execute\<close> becomes the one error.\<close>

record audit_store = "audit_db sql_conn" +
  st_open :: bool
  st_failed :: bool

datatype audit_exn = OperatorAuditError | Audit_ValueError | Audit_TypeError

type_synonym 'a aud = "(audit_store, audit_exn, 'a) act"

abbreviation refused :: "'a aud" where
  "refused \<equiv> act_raise OperatorAuditError"

text \<open>\<open>_verify_chain\<close>\<close>

fun follow_chain :: "audit_env \<Rightarrow> int \<Rightarrow> sql_value \<Rightarrow> log_row list \<Rightarrow> (int \<times> sql_value) option" where
  "follow_chain env prior previous [] = Some (prior, previous)"
| "follow_chain env prior previous (r # rs) =
     (case valid_event env r of
        None \<Rightarrow> None
      | Some e \<Rightarrow>
          if ev_id e \<noteq> prior + 1 \<or> lr_previous_digest r \<noteq> previous \<or> Some (lr_digest r) \<noteq> row_digest env previous e then None
          else follow_chain env (ev_id e) (lr_digest r) rs)"

definition chain_verified :: "audit_env \<Rightarrow> audit_db \<Rightarrow> bool" where
  "chain_verified env d =
     (case read_state env d of
        None \<Rightarrow> False
      | Some s \<Rightarrow>
          (let rows = take 100001 (sort_key lr_id (al_events d)) in
           len rows \<le> MAX_AUDIT_ROWS \<and>
           follow_chain env (ch_anchor_id s) (Sql_Text (ch_anchor_digest s)) rows = Some (ch_last_id s, Sql_Text (ch_last_digest s))))"

text \<open>\<open>_admit\<close>: the file and its journals are still the site's own.\<close>

definition audit_admit :: "audit_env \<Rightarrow> unit aud" where
  "audit_admit env = sql_select (ax_sql env) (\<lambda>_. ())"

text \<open>The handler of \<open>_execute\<close>.\<close>

definition latch :: "audit_env \<Rightarrow> 'a aud" where
  "latch env = act_bind (act_update (\<lambda>w. w\<lparr>st_failed := True\<rparr>)) (\<lambda>_.
     act_bind (act_get (\<lambda>w. st_open w \<and> in_transaction w)) (\<lambda>b.
     act_bind (act_when b (act_catch (sql_rollback (ax_sql env)) (\<lambda>_. act_return ()))) (\<lambda>_. refused)))"

definition execute :: "audit_env \<Rightarrow> bool \<Rightarrow> 'a aud \<Rightarrow> 'a aud" where
  "execute env permit_failed operation =
     act_catch
      (act_bind (act_get (\<lambda>w. \<not> st_open w \<or> st_failed w \<and> \<not> permit_failed)) (\<lambda>no.
       if no then refused else
       act_bind (audit_admit env) (\<lambda>_.
       act_bind operation (\<lambda>x.
       act_bind (audit_admit env) (\<lambda>_. act_return x)))))
      (\<lambda>_. latch env)"

definition get_state :: "audit_env \<Rightarrow> chain_state aud" where
  "get_state env = act_bind (sql_select (ax_sql env) (read_state env)) (\<lambda>s. case s of None \<Rightarrow> refused | Some s \<Rightarrow> act_return s)"

definition check_audit :: "audit_env \<Rightarrow> int aud" where
  "check_audit env = execute env False (act_bind (get_state env) (\<lambda>s. act_return (ch_last_id s)))"

definition close_audit :: "unit aud" where
  "close_audit = act_update (\<lambda>w. w\<lparr>st_open := False\<rparr>)"

section \<open>Recording\<close>

text \<open>The last row is the one that the state names.\<close>

definition row_with_id :: "int \<Rightarrow> audit_db \<Rightarrow> log_row option" where
  "row_with_id i d = find (\<lambda>r. lr_id r = i) (al_events d)"

definition tail_ok :: "audit_env \<Rightarrow> chain_state \<Rightarrow> audit_db \<Rightarrow> bool" where
  "tail_ok env s d =
     (case row_with_id (ch_last_id s) d of
        None \<Rightarrow> False
      | Some r \<Rightarrow>
          (case valid_event env r of
             None \<Rightarrow> False
           | Some e \<Rightarrow> lr_digest r = Sql_Text (ch_last_digest s) \<and> Some (lr_digest r) = row_digest env (lr_previous_digest r) e))"

definition optional_text :: "pystr option \<Rightarrow> sql_value" where
  "optional_text x = (case x of None \<Rightarrow> Sql_Null | Some t \<Rightarrow> Sql_Text t)"

definition row_of_event :: "audit_env \<Rightarrow> pystr \<Rightarrow> audit_event \<Rightarrow> log_row" where
  "row_of_event env previous e =
     \<lparr>lr_id = ev_id e, lr_occurred_at = Sql_Text (ev_occurred_at e), lr_run_id = Sql_Text (ev_run_id e),
      lr_elapsed_ms = Sql_Int (ev_elapsed_ms e), lr_request_id = Sql_Text (ev_request_id e),
      lr_actor_id = optional_text (ev_actor_id e), lr_action = Sql_Text (ev_action e), lr_outcome = Sql_Text (ev_outcome e),
      lr_target_kind = optional_text (ev_target_kind e), lr_target_id = optional_text (ev_target_id e),
      lr_status_code = (case ev_status_code e of None \<Rightarrow> Sql_Null | Some n \<Rightarrow> Sql_Int n),
      lr_changes = \<lparr>jt_length = ax_changes_length env (ev_changes e), jt_value = Some (ev_changes e)\<rparr>,
      lr_details = \<lparr>jt_length = ax_details_length env (ev_details e), jt_value = Some (ev_details e)\<rparr>,
      lr_previous_digest = Sql_Text previous, lr_digest = Sql_Text (digest env previous e)\<rparr>"

text \<open>The statements of \<open>write\<close>. An identifier that is taken, or too large for SQLite, fails the insertion.\<close>

definition insert_event :: "log_row \<Rightarrow> audit_db \<Rightarrow> (audit_db \<times> unit) option" where
  "insert_event r d =
     (if lr_id r \<in> lr_id ` set (al_events d) \<or> 2 ^ 63 \<le> lr_id r then None else Some (d\<lparr>al_events := al_events d @ [r]\<rparr>, ()))"

definition set_last :: "int \<Rightarrow> pystr \<Rightarrow> audit_db \<Rightarrow> audit_db" where
  "set_last i q d = d\<lparr>al_state := map (\<lambda>r. r\<lparr>as_last_id := Sql_Int i, as_last_digest := Sql_Text q\<rparr>) (al_state d)\<rparr>"

definition set_anchor :: "int \<Rightarrow> sql_value \<Rightarrow> audit_db \<Rightarrow> audit_db" where
  "set_anchor i q d = d\<lparr>al_state := map (\<lambda>r. r\<lparr>as_anchor_id := Sql_Int i, as_anchor_digest := q\<rparr>) (al_state d)\<rparr>"

definition drop_events :: "int \<Rightarrow> audit_db \<Rightarrow> audit_db" where
  "drop_events i d = d\<lparr>al_events := filter (\<lambda>r. i < lr_id r) (al_events d)\<rparr>"

definition retain :: "audit_env \<Rightarrow> chain_state \<Rightarrow> int \<Rightarrow> unit aud" where
  "retain env s cutoff =
     act_when (ch_anchor_id s < cutoff)
      (act_bind (sql_select (ax_sql env) (row_with_id cutoff)) (\<lambda>r.
       case r of
         None \<Rightarrow> refused
       | Some r \<Rightarrow>
           act_bind (sql_change (ax_sql env) (set_anchor cutoff (lr_digest r))) (\<lambda>_.
           sql_change (ax_sql env) (drop_events cutoff))))"

definition write_event :: "audit_env \<Rightarrow> audit_event \<Rightarrow> int aud" where
  "write_event env event =
     act_bind (sql_begin (ax_sql env)) (\<lambda>_.
     act_bind (get_state env) (\<lambda>s.
     act_bind (if ch_last_id s = 0 then act_return True else sql_select (ax_sql env) (tail_ok env s)) (\<lambda>ok.
     if \<not> ok then refused else
     let e = event\<lparr>ev_id := ch_last_id s + 1\<rparr>; previous = ch_last_digest s in
     act_bind (sql (ax_sql env) (insert_event (row_of_event env previous e))) (\<lambda>_.
     act_bind (sql_change (ax_sql env) (set_last (ev_id e) (digest env previous e))) (\<lambda>_.
     act_bind (retain env s (ev_id e - MAX_AUDIT_ROWS)) (\<lambda>_.
     act_bind (sql_commit (ax_sql env)) (\<lambda>_. act_return (ev_id e))))))))"

text \<open>An argument of \<open>_identifier\<close>, and the context that the middleware sets for a request.\<close>

datatype audit_ref = Ref_None | Ref_uuid user_uuid | Ref_text pystr | Ref_other

fun reference :: "audit_env \<Rightarrow> audit_ref \<Rightarrow> pystr option option" where
  "reference env Ref_None = Some None"
| "reference env (Ref_uuid u) = Some (Some (uuid_text u))"
| "reference env (Ref_text t) = map_option Some (canonical_id env t)"
| "reference env Ref_other = None"

record request_context =
  rc_request_id :: pystr
  rc_actor_id :: "pystr option"

record audit_args =
  ag_action :: pystr
  ag_outcome :: pystr
  ag_actor :: audit_ref
  ag_target_id :: audit_ref
  ag_target_kind :: "pystr option"
  ag_request_id :: audit_ref
  ag_status_code :: "int option"
  ag_changes :: "pystr list dyn"
  ag_details :: "audit_details option"

definition no_details :: audit_details where
  "no_details = \<lparr>dt_export_id = None, dt_clip_start = None, dt_clip_duration = None, dt_bytes = None, dt_provider = None, dt_response_count = None\<rparr>"

definition falsy :: "audit_ref \<Rightarrow> bool" where
  "falsy r \<longleftrightarrow> r = Ref_None \<or> r = Ref_text []"

text \<open>The event that \<open>record\<close> builds, with the identifier 1; no value when it raises \<open>ValueError\<close>.\<close>

definition new_event :: "audit_env \<Rightarrow> request_context option \<Rightarrow> audit_args \<Rightarrow> nat \<Rightarrow> audit_event option" where
  "new_event env context a n =
     (case (ax_elapsed env n, reference env (ag_actor a)) of
        (Some elapsed, Some actor) \<Rightarrow>
          (let actor = (case (actor, context) of (None, Some c) \<Rightarrow> rc_actor_id c | _ \<Rightarrow> actor);
               request = (if \<not> falsy (ag_request_id a) then ag_request_id a
                 else case context of Some c \<Rightarrow> Ref_text (rc_request_id c) | None \<Rightarrow> Ref_uuid (ax_uuid4 env n)) in
           if \<not> (0 \<le> elapsed \<and> elapsed < 2 ^ 63) then None else
           case (ag_changes a, ax_utc_now env n, reference env request, reference env (ag_target_id a),
                 case ag_details a of None \<Rightarrow> Some no_details | Some d \<Rightarrow> details_of env d) of
             (Inst changes, Some now, Some (Some request), Some target, Some details) \<Rightarrow>
               (let e = \<lparr>ev_id = 1, ev_occurred_at = now, ev_run_id = ax_run_id env, ev_elapsed_ms = \<lfloor>elapsed\<rfloor>, ev_request_id = request,
                  ev_actor_id = actor, ev_action = ag_action a, ev_outcome = ag_outcome a, ev_target_kind = ag_target_kind a,
                  ev_target_id = target, ev_status_code = ag_status_code a, ev_changes = changes, ev_details = details\<rparr> in
                if audit_event_ok env e then Some e else None)
           | _ \<Rightarrow> None)
      | _ \<Rightarrow> None)"

definition audit_reading :: "(nat \<Rightarrow> 'a) \<Rightarrow> 'a aud" where
  "audit_reading f w = (Inr (f (sq_tick w)), sql_tick w)"

definition record_audit :: "audit_env \<Rightarrow> request_context option \<Rightarrow> audit_args \<Rightarrow> int aud" where
  "record_audit env context a =
     act_bind (audit_reading (new_event env context a)) (\<lambda>e.
     case e of None \<Rightarrow> act_raise Audit_ValueError | Some e \<Rightarrow> execute env False (write_event env e))"

section \<open>Reading\<close>

text \<open>A \<open>datetime\<close>: its instant, and whether it has an offset.\<close>

record instant =
  in_micros :: int
  in_aware :: bool

record audit_query =
  aq_limit :: int
  aq_before :: "int option"
  aq_action :: "pystr option"
  aq_outcome :: "pystr option"
  aq_actor :: audit_ref
  aq_target :: audit_ref
  aq_start :: "instant option"
  aq_end :: "instant option"
  aq_export :: bool

definition time_range :: "audit_env \<Rightarrow> instant option \<Rightarrow> instant option \<Rightarrow> audit_exn + (pystr \<times> pystr) option" where
  "time_range env start finish =
     (case (start, finish) of
        (None, None) \<Rightarrow> Inr None
      | (Some s, Some e) \<Rightarrow>
          if in_aware s \<noteq> in_aware e then Inl Audit_TypeError
          else if in_micros e \<le> in_micros s \<or> \<not> in_aware s then Inl Audit_ValueError
          else Inr (Some (ax_instant env (in_micros s), ax_instant env (in_micros e)))
      | _ \<Rightarrow> Inl Audit_ValueError)"

definition column_is :: "pystr option \<Rightarrow> sql_value \<Rightarrow> bool" where
  "column_is x v \<longleftrightarrow> given x (\<lambda>t. v = Sql_Text t)"

definition selects :: "pystr option \<Rightarrow> pystr option \<Rightarrow> pystr option \<Rightarrow> pystr option \<Rightarrow> int option \<Rightarrow> (pystr \<times> pystr) option \<Rightarrow> log_row \<Rightarrow> bool" where
  "selects action outcome actor target before period r \<longleftrightarrow>
     column_is action (lr_action r) \<and> column_is outcome (lr_outcome r) \<and> column_is actor (lr_actor_id r) \<and>
     column_is target (lr_target_id r) \<and> given before (\<lambda>b. lr_id r < b) \<and>
     given period (\<lambda>(s, e). case sql_text (lr_occurred_at r) of None \<Rightarrow> False | Some t \<Rightarrow> s \<le> t \<and> t < e)"

text \<open>The arguments are checked before anything is read.\<close>

definition query_filter :: "audit_env \<Rightarrow> audit_query \<Rightarrow> audit_exn + (log_row \<Rightarrow> bool)" where
  "query_filter env q =
     (if \<not> (1 \<le> aq_limit q \<and> aq_limit q \<le> (if aq_export q then MAX_EXPORT_ROWS else 100)) then Inl Audit_ValueError
      else if \<not> given (aq_before q) (\<lambda>b. 1 \<le> b \<and> b < 2 ^ 63) then Inl Audit_ValueError
      else if \<not> given (aq_action q) (\<lambda>a. a \<in> set ACTIONS) \<or> \<not> given (aq_outcome q) (\<lambda>a. a \<in> set OUTCOMES) then Inl Audit_ValueError
      else case (reference env (aq_actor q), reference env (aq_target q)) of
        (Some actor, Some target) \<Rightarrow>
          (case time_range env (aq_start q) (aq_end q) of
             Inl e \<Rightarrow> Inl e
           | Inr period \<Rightarrow> Inr (selects (aq_action q) (aq_outcome q) actor target (aq_before q) period))
      | _ \<Rightarrow> Inl Audit_ValueError)"

text \<open>Every row that is read is checked against its own digest and the digest of the row before it.\<close>

fun check_rows :: "audit_env \<Rightarrow> chain_state \<Rightarrow> log_row list \<Rightarrow> unit aud" where
  "check_rows env s [] = act_return ()"
| "check_rows env s (r # rs) =
     (case valid_event env r of
        None \<Rightarrow> refused
      | Some e \<Rightarrow>
          if Some (lr_digest r) \<noteq> row_digest env (lr_previous_digest r) e then refused else
          act_bind (if lr_id r = ch_anchor_id s + 1 then act_return (Some (Sql_Text (ch_anchor_digest s)))
            else sql_select (ax_sql env) (\<lambda>d. map_option lr_digest (row_with_id (lr_id r - 1) d))) (\<lambda>previous.
          if previous \<noteq> Some (lr_previous_digest r) then refused else check_rows env s rs))"

record audit_page =
  pg_events :: "audit_event list"
  pg_has_more :: bool
  pg_next_before :: "int option"
  pg_first_retained_id :: "int option"
  pg_last_id :: int
  pg_total_rows :: int
  pg_logging_available :: bool

definition read_page :: "audit_env \<Rightarrow> nat \<Rightarrow> (log_row \<Rightarrow> bool) \<Rightarrow> audit_page aud" where
  "read_page env limit P =
     act_bind (get_state env) (\<lambda>s.
     act_bind (sql_select (ax_sql env) (\<lambda>d. len (al_events d))) (\<lambda>count.
     if count \<noteq> ch_last_id s - ch_anchor_id s then refused else
     act_bind (sql_select (ax_sql env) (\<lambda>d. take (Suc limit) (rev (sort_key lr_id (filter P (al_events d)))))) (\<lambda>rows.
     act_bind (check_rows env s rows) (\<lambda>_.
     act_bind (act_get (\<lambda>w. \<not> st_failed w \<and> st_open w)) (\<lambda>available.
     let events = map (the \<circ> event_of_row) (take limit rows) in
     act_return \<lparr>pg_events = events, pg_has_more = limit < length rows,
       pg_next_before = (if limit < length rows then Some (ev_id (List.last events)) else None),
       pg_first_retained_id = (if ch_last_id s = 0 then None else Some (ch_anchor_id s + 1)),
       pg_last_id = ch_last_id s, pg_total_rows = ch_last_id s - ch_anchor_id s, pg_logging_available = available\<rparr>)))))"

definition read_audit :: "audit_env \<Rightarrow> audit_query \<Rightarrow> audit_page aud" where
  "read_audit env q =
     act_bind (act_lift (query_filter env q)) (\<lambda>P. execute env True (read_page env (nat (aq_limit q)) P))"

end
