(* ===== verification/Audit_Chain.thy ===== *)
theory Audit_Chain
  imports Audit_Log Role_Policy_File
begin

text \<open>
  The chain of digests: what a verified log consists of, and that a new event prolongs it.
\<close>

section \<open>Following the chain\<close>

lemma follow_append:
  "follow_chain env i p (xs @ ys) = (case follow_chain env i p xs of None \<Rightarrow> None | Some (j, q) \<Rightarrow> follow_chain env j q ys)"
  by (induction xs arbitrary: i p) (auto split: option.split)

lemma valid_eventD: "valid_event env r = Some e \<Longrightarrow> event_of_row r = Some e \<and> audit_event_ok env e \<and> ev_id e = lr_id r"
  by (auto simp: valid_event_def event_of_row_def split: option.splits if_splits)

lemma follow_ids: "follow_chain env i p rs = Some (j, q) \<Longrightarrow> map lr_id rs = [i + 1..j] \<and> j = i + len rs"
proof (induction rs arbitrary: i p)
  case (Cons r rs)
  then obtain e where e: "valid_event env r = Some e" "ev_id e = i + 1" "follow_chain env (ev_id e) (lr_digest r) rs = Some (j, q)"
    by (auto split: option.splits if_splits)
  with Cons.IH [OF e(3)] valid_eventD [OF e(1)] show ?case by (auto simp: upto_rec1)
qed simp

lemma follow_ids_sorted: "follow_chain env i p rs = Some (j, q) \<Longrightarrow> sorted (map lr_id rs) \<and> distinct (map lr_id rs)"
  by (drule follow_ids) simp

lemma follow_valid: "follow_chain env i p rs = Some (j, q) \<Longrightarrow> r \<in> set rs \<Longrightarrow> \<exists>e. valid_event env r = Some e"
  by (induction rs arbitrary: i p) (auto split: option.splits if_splits)

lemma sort_snoc:
  assumes "\<And>y. y \<in> set xs \<Longrightarrow> lr_id y < lr_id x"
  shows "sort_key lr_id (xs @ [x]) = sort_key lr_id xs @ [x]"
proof (rule properties_for_sort_key)
  show "sorted (map lr_id (sort_key lr_id xs @ [x]))" using assms by (auto simp: sorted_append less_imp_le)
  fix k
  assume "k \<in> set (sort_key lr_id xs @ [x])"
  have "filter (\<lambda>y. lr_id k = lr_id y) (sort_key lr_id xs) = filter (\<lambda>y. lr_id k = lr_id y) xs"
    using sort_key_stable [of lr_id "lr_id k" xs] by (simp only: eq_commute [of "lr_id k"])
  then show "filter (\<lambda>y. lr_id k = lr_id y) (sort_key lr_id xs @ [x]) = filter (\<lambda>y. lr_id k = lr_id y) (xs @ [x])" by simp
qed simp

section \<open>A verified log\<close>

text \<open>Its state, its rows in order, and its events.\<close>

definition rows_of :: "audit_db \<Rightarrow> log_row list" where
  "rows_of d = sort_key lr_id (al_events d)"

definition log_of :: "audit_env \<Rightarrow> audit_db \<Rightarrow> audit_event list" where
  "log_of env d = map (the \<circ> valid_event env) (rows_of d)"

definition linked :: "audit_env \<Rightarrow> chain_state \<Rightarrow> audit_db \<Rightarrow> bool" where
  "linked env s d \<longleftrightarrow> read_state env d = Some s \<and> len (rows_of d) \<le> MAX_AUDIT_ROWS \<and>
     follow_chain env (ch_anchor_id s) (Sql_Text (ch_anchor_digest s)) (rows_of d) = Some (ch_last_id s, Sql_Text (ch_last_digest s))"

lemma verified_linked: "chain_verified env d \<longleftrightarrow> (\<exists>s. linked env s d)"
proof -
  have "len (take 100001 (rows_of d)) \<le> MAX_AUDIT_ROWS \<longleftrightarrow> len (rows_of d) \<le> MAX_AUDIT_ROWS" by simp linarith
  moreover have "take 100001 (rows_of d) = rows_of d" if "len (rows_of d) \<le> MAX_AUDIT_ROWS" using that by simp
  ultimately show ?thesis
    unfolding chain_verified_def linked_def rows_of_def [symmetric] Let_def by (auto split: option.split)
qed

lemma linkedD:
  assumes "linked env s d"
  shows "read_state env d = Some s" and "chain_state_ok s" and "len (rows_of d) \<le> MAX_AUDIT_ROWS"
    and "map lr_id (rows_of d) = [ch_anchor_id s + 1..ch_last_id s]" and "len (rows_of d) = ch_last_id s - ch_anchor_id s"
    and "set (rows_of d) = set (al_events d)"
proof -
  show "read_state env d = Some s" "len (rows_of d) \<le> MAX_AUDIT_ROWS" using assms by (simp_all add: linked_def)
  then show "chain_state_ok s" by (auto simp: read_state_def Let_def split: list.splits option.splits if_splits)
  show "map lr_id (rows_of d) = [ch_anchor_id s + 1..ch_last_id s]" "len (rows_of d) = ch_last_id s - ch_anchor_id s"
    using assms follow_ids by (fastforce simp: linked_def)+
qed (simp add: rows_of_def)

end
