(* ===== verification/Audit_Record.thy ===== *)
theory Audit_Record
  imports Audit_Chain Role_Policy_Guard
begin

text \<open>
  \<open>record\<close>: it prolongs a verified log by one event and drops the oldest ones beyond the limit, or
  leaves the log; after a failure the store refuses everything that would need it.
\<close>

section \<open>Rows that are written\<close>

text \<open>What is relied on: digests are 64 lower-case hexadecimal digits, and the JSON texts of what is recorded fit.\<close>

definition audit_env_ok :: "audit_env \<Rightarrow> bool" where
  "audit_env_ok env \<longleftrightarrow>
     (\<forall>t. is_digest (ax_sha256 env t)) \<and>
     (\<forall>cs. distinct cs \<and> set cs \<subseteq> set CHANGE_FIELDS \<longrightarrow> ax_changes_length env cs \<le> 1024) \<and>
     (\<forall>d. details_of env d = Some d \<longrightarrow> ax_details_length env d \<le> 2048)"

lemma row_of_event_simps [simp]:
  "lr_id (row_of_event env p e) = ev_id e" "lr_previous_digest (row_of_event env p e) = Sql_Text p"
  "lr_digest (row_of_event env p e) = Sql_Text (digest env p e)"
  by (simp_all add: row_of_event_def)

lemma sql_optional_text [simp]: "sql_optional sql_text (optional_text x) = Some x"
  by (cases x) (simp_all add: sql_optional_def optional_text_def)

lemma sql_optional_int [simp]: "sql_optional sql_int (case x of None \<Rightarrow> Sql_Null | Some n \<Rightarrow> Sql_Int n) = Some x"
  by (cases x) (simp_all add: sql_optional_def)

lemma event_of_row_of:
  assumes "ax_changes_length env (ev_changes e) \<le> 1024" and "ax_details_length env (ev_details e) \<le> 2048"
  shows "event_of_row (row_of_event env p e) = Some e"
  using assms by (simp add: event_of_row_def row_of_event_def)

lemma valid_row_of:
  assumes "audit_env_ok env" and "audit_event_ok env e"
  shows "valid_event env (row_of_event env p e) = Some e"
proof -
  from assms have "ax_changes_length env (ev_changes e) \<le> 1024" "ax_details_length env (ev_details e) \<le> 2048"
    by (auto simp: audit_env_ok_def audit_event_ok_def)
  with assms(2) show ?thesis by (simp add: valid_event_def event_of_row_of)
qed

lemma digest_ascii: "is_digest p \<Longrightarrow> list_all (\<lambda>c. c < 128) p"
  by (auto simp: is_digest_def list_all_iff)

lemma row_digest_of: "is_digest p \<Longrightarrow> row_digest env (Sql_Text p) e = Some (Sql_Text (digest env p e))"
  by (simp add: row_digest_def digest_ascii)

lemma event_ok_id: "audit_event_ok env e \<Longrightarrow> 1 \<le> i \<Longrightarrow> i < 2 ^ 63 \<Longrightarrow> audit_event_ok env (e\<lparr>ev_id := i\<rparr>)"
  by (simp add: audit_event_ok_def)

section \<open>The tables after a recording\<close>

definition prolonged :: "audit_env \<Rightarrow> chain_state \<Rightarrow> audit_event \<Rightarrow> audit_db \<Rightarrow> audit_db" where
  "prolonged env s e d = set_last (ev_id e) (digest env (ch_last_digest s) e)
     (d\<lparr>al_events := al_events d @ [row_of_event env (ch_last_digest s) e]\<rparr>)"

definition shortened :: "int \<Rightarrow> sql_value \<Rightarrow> audit_db \<Rightarrow> audit_db" where
  "shortened i q d = drop_events i (set_anchor i q d)"

text \<open>The state row that holds a state.\<close>

definition state_row_of :: "audit_env \<Rightarrow> chain_state \<Rightarrow> state_row" where
  "state_row_of env s =
     \<lparr>as_schema_version = Sql_Int 1, as_site_id = Sql_Text (ax_site env), as_anchor_id = Sql_Int (ch_anchor_id s),
      as_anchor_digest = Sql_Text (ch_anchor_digest s), as_last_id = Sql_Int (ch_last_id s), as_last_digest = Sql_Text (ch_last_digest s)\<rparr>"

lemma sql_value_Some [simp]: "sql_text v = Some t \<longleftrightarrow> v = Sql_Text t" "sql_int v = Some i \<longleftrightarrow> v = Sql_Int i"
  by (cases v; simp)+

lemma read_state_iff: "read_state env d = Some s \<longleftrightarrow> al_state d = [state_row_of env s] \<and> chain_state_ok s"
proof -
  have "take 2 xs = [x] \<longleftrightarrow> xs = [x]" for xs :: "state_row list" and x
    by (cases xs rule: remdups_adj.cases) (simp_all add: numeral_2_eq_2)
  then show ?thesis
    unfolding read_state_def state_row_of_def
    by (cases s) (auto simp: Let_def split: list.splits option.splits if_splits)
qed

lemma row_set_last: "al_state d = [state_row_of env s] \<Longrightarrow>
    al_state (set_last i q d) = [state_row_of env (s\<lparr>ch_last_id := i, ch_last_digest := q\<rparr>)] \<and> al_events (set_last i q d) = al_events d"
  by (simp add: set_last_def state_row_of_def)

lemma row_set_anchor: "al_state d = [state_row_of env s] \<Longrightarrow>
    al_state (set_anchor i (Sql_Text q) d) = [state_row_of env (s\<lparr>ch_anchor_id := i, ch_anchor_digest := q\<rparr>)] \<and>
    al_events (set_anchor i (Sql_Text q) d) = al_events d"
  by (simp add: set_anchor_def state_row_of_def)

text \<open>The new event prolongs the rows.\<close>

lemma rows_prolonged:
  assumes "linked env s d" and "ev_id e = ch_last_id s + 1"
  shows "rows_of (prolonged env s e d) = rows_of d @ [row_of_event env (ch_last_digest s) e]"
proof -
  have "lr_id r < ev_id e" if "r \<in> set (al_events d)" for r
  proof -
    from that linkedD(4,6) [OF assms(1)] have "lr_id r \<in> {ch_anchor_id s + 1..ch_last_id s}"
      by (metis image_eqI list.set_map set_upto)
    with assms(2) show ?thesis by simp
  qed
  then show ?thesis
    by (simp add: rows_of_def prolonged_def set_last_def sort_snoc)
qed

lemma follow_prolonged:
  assumes env: "audit_env_ok env" and l: "linked env s d" and e: "audit_event_ok env e" "ev_id e = ch_last_id s + 1"
  shows "follow_chain env (ch_anchor_id s) (Sql_Text (ch_anchor_digest s)) (rows_of (prolonged env s e d)) =
    Some (ev_id e, Sql_Text (digest env (ch_last_digest s) e))"
proof -
  have "is_digest (ch_last_digest s)" using linkedD(2) [OF l] by (simp add: chain_state_ok_def)
  with l e show ?thesis
    unfolding rows_prolonged [OF l e(2)] follow_append
    by (simp add: linked_def valid_row_of [OF env] row_digest_of)
qed

lemma rows_shortened: "rows_of (shortened i q d) = filter (\<lambda>r. i < lr_id r) (rows_of d)"
  by (simp add: rows_of_def shortened_def drop_events_def set_anchor_def filter_sort)

text \<open>What the log is after a recording, and that it is verified.\<close>

definition recorded_db :: "audit_env \<Rightarrow> chain_state \<Rightarrow> audit_event \<Rightarrow> audit_db \<Rightarrow> audit_db" where
  "recorded_db env s e d =
     (let d1 = prolonged env s e d; cutoff = ev_id e - MAX_AUDIT_ROWS in
      if ch_anchor_id s < cutoff then shortened cutoff (lr_digest (the (row_with_id cutoff d1))) d1 else d1)"

lemma row_with_id_hd:
  assumes "map lr_id (rows_of d) = i # is" and "distinct (map lr_id (rows_of d))" and "rows_of d = r # rs"
  shows "row_with_id i d = Some r"
proof -
  from assms have i: "lr_id r = i" by simp
  from assms(3) have mem: "r \<in> set (al_events d)" by (metis list.set_intros(1) rows_of_def set_sort)
  have "inj_on lr_id (set (al_events d))" using assms(2) by (simp add: rows_of_def distinct_map)
  with mem i have only_r: "\<And>x. x \<in> set (al_events d) \<Longrightarrow> lr_id x = i \<Longrightarrow> x = r" by (auto dest: inj_onD)
  from mem i have "find (\<lambda>x. lr_id x = i) (al_events d) \<noteq> None" by (auto simp: find_None_iff)
  then obtain x where x: "find (\<lambda>x. lr_id x = i) (al_events d) = Some x" by blast
  then have "x \<in> set (al_events d)" "lr_id x = i" by (auto simp: find_Some_iff)
  with x show ?thesis using only_r by (simp add: row_with_id_def)
qed

definition well_recorded :: "audit_env \<Rightarrow> chain_state \<Rightarrow> audit_event \<Rightarrow> audit_db \<Rightarrow> bool" where
  "well_recorded env s e d \<longleftrightarrow>
     (\<exists>s'. linked env s' (recorded_db env s e d) \<and> ch_last_id s' = ev_id e \<and> ch_last_digest s' = digest env (ch_last_digest s) e) \<and>
     log_of env (recorded_db env s e d) = drop (length (log_of env d) + 1 - 100000) (log_of env d @ [e])"

lemma prolonged_state:
  assumes "linked env s d"
  shows "al_state (prolonged env s e d) = [state_row_of env (s\<lparr>ch_last_id := ev_id e, ch_last_digest := digest env (ch_last_digest s) e\<rparr>)]"
  using linkedD(1) [OF assms] by (simp add: read_state_iff prolonged_def row_set_last)

lemma recorded_short:
  assumes env: "audit_env_ok env" and l: "linked env s d" and e: "audit_event_ok env e" "ev_id e = ch_last_id s + 1"
    and short: "\<not> ch_anchor_id s < ev_id e - MAX_AUDIT_ROWS"
  shows "well_recorded env s e d"
proof -
  let ?q = "digest env (ch_last_digest s) e"
  let ?s1 = "s\<lparr>ch_last_id := ev_id e, ch_last_digest := ?q\<rparr>"
  note D = linkedD [OF l] and R = rows_prolonged [OF l e(2)]
  have "is_digest ?q" "ev_id e < 2 ^ 63" using env e(1) by (simp_all add: audit_env_ok_def digest_def audit_event_ok_def)
  with D(2) e(2) short have "chain_state_ok ?s1" by (auto simp: chain_state_ok_def)
  moreover have "len (rows_of (prolonged env s e d)) \<le> MAX_AUDIT_ROWS" using short D(5) e(2) by (simp add: R)
  ultimately have "linked env ?s1 (prolonged env s e d)"
    using prolonged_state [OF l] follow_prolonged [OF env l e] by (simp add: linked_def read_state_iff)
  moreover have "length (log_of env d) + 1 - 100000 = 0" using short D(5) e(2) by (simp add: log_of_def)
  ultimately show ?thesis
    using short R valid_row_of [OF env e(1)] by (auto simp: well_recorded_def recorded_db_def Let_def log_of_def)
qed

text \<open>A full log loses its oldest row, whose digest becomes the anchor.\<close>

lemma oldest_row:
  assumes env: "audit_env_ok env" and l: "linked env s d" and rs: "rows_of d = r # rs"
  obtains p where "lr_digest r = Sql_Text p" and "is_digest p" and "lr_id r = ch_anchor_id s + 1"
    and "\<And>rs'. follow_chain env (ch_anchor_id s) (Sql_Text (ch_anchor_digest s)) (r # rs') = follow_chain env (ch_anchor_id s + 1) (Sql_Text p) rs'"
proof -
  from l rs obtain e0 where e0: "valid_event env r = Some e0" "ev_id e0 = ch_anchor_id s + 1" "lr_previous_digest r = Sql_Text (ch_anchor_digest s)"
    "Some (lr_digest r) = row_digest env (Sql_Text (ch_anchor_digest s)) e0"
    by (auto simp: linked_def split: option.splits if_splits)
  have "is_digest (ch_anchor_digest s)" using linkedD(2) [OF l] by (simp add: chain_state_ok_def)
  with e0(4) env have "lr_digest r = Sql_Text (digest env (ch_anchor_digest s) e0)" "is_digest (digest env (ch_anchor_digest s) e0)"
    by (simp_all add: row_digest_of audit_env_ok_def digest_def)
  with e0 valid_eventD [OF e0(1)] that show ?thesis by simp
qed

lemma recorded_full:
  assumes env: "audit_env_ok env" and l: "linked env s d" and e: "audit_event_ok env e" "ev_id e = ch_last_id s + 1"
    and long: "ch_anchor_id s < ev_id e - MAX_AUDIT_ROWS"
  shows "well_recorded env s e d"
proof -
  let ?q = "digest env (ch_last_digest s) e" and ?d1 = "prolonged env s e d" and ?row = "row_of_event env (ch_last_digest s) e"
  let ?s1 = "s\<lparr>ch_last_id := ev_id e, ch_last_digest := ?q\<rparr>"
  note D = linkedD [OF l] and F = follow_prolonged [OF env l e]
  from long D(2,5) e(2) have a: "ev_id e - MAX_AUDIT_ROWS = ch_anchor_id s + 1" and full: "length (rows_of d) = 100000"
    by (auto simp: chain_state_ok_def)
  from full obtain r rs where rs: "rows_of d = r # rs" by (cases "rows_of d") auto
  note R = rows_prolonged [OF l e(2), unfolded rs]
  from oldest_row [OF env l rs] obtain p where p: "lr_digest r = Sql_Text p" "is_digest p" "lr_id r = ch_anchor_id s + 1"
    and F2: "follow_chain env (ch_anchor_id s + 1) (Sql_Text p) (rs @ [?row]) = Some (ev_id e, Sql_Text ?q)"
    using F R by (metis append_Cons)
  have "row_with_id (ch_anchor_id s + 1) ?d1 = Some r"
    by (rule row_with_id_hd [of _ _ "[2 + ch_anchor_id s..ev_id e]"])
      (use conjunct1 [OF follow_ids [OF F]] R e(2) D(2) in \<open>simp_all add: upto_rec1 chain_state_ok_def\<close>)
  then have rec: "recorded_db env s e d = shortened (ch_anchor_id s + 1) (lr_digest r) ?d1"
    using long unfolding recorded_db_def Let_def a by simp
  have "map lr_id (rs @ [?row]) = [ch_anchor_id s + 2..ev_id e]"
    using conjunct1 [OF follow_ids [OF F2]] by (simp only: add.assoc one_add_one)
  then have ids: "lr_id ` set (rs @ [?row]) = {ch_anchor_id s + 2..ev_id e}" by (metis list.set_map set_upto)
  have above: "ch_anchor_id s + 1 < lr_id x" if "x \<in> set (rs @ [?row])" for x
    using imageI [OF that, of lr_id] unfolding ids by simp
  from above above [of ?row] have rows: "rows_of (recorded_db env s e d) = rs @ [?row]"
    unfolding rec rows_shortened R by (simp add: p(3) filter_id_conv)
  let ?s2 = "?s1\<lparr>ch_anchor_id := ch_anchor_id s + 1, ch_anchor_digest := p\<rparr>"
  have "al_state (recorded_db env s e d) = [state_row_of env ?s2]"
    using row_set_anchor [OF prolonged_state [OF l], of "ch_anchor_id s + 1" p] by (simp add: rec p(1) shortened_def drop_events_def)
  moreover have "is_digest ?q" "ev_id e < 2 ^ 63" using env e(1) by (simp_all add: audit_env_ok_def digest_def audit_event_ok_def)
  then have "chain_state_ok ?s2" using D(2) e(2) p(2) a by (auto simp: chain_state_ok_def)
  moreover have "len (rows_of (recorded_db env s e d)) \<le> MAX_AUDIT_ROWS" using full rs by (simp add: rows)
  ultimately have "linked env ?s2 (recorded_db env s e d)" using F2 by (simp add: linked_def read_state_iff rows)
  moreover have "log_of env (recorded_db env s e d) = drop (length (log_of env d) + 1 - 100000) (log_of env d @ [e])"
    using full by (simp add: log_of_def rows rs valid_row_of [OF env e(1)])
  ultimately show ?thesis by (fastforce simp: well_recorded_def)
qed

lemma recorded_linked:
  assumes "audit_env_ok env" and "linked env s d" and "audit_event_ok env e" and "ev_id e = ch_last_id s + 1"
  shows "\<exists>s'. linked env s' (recorded_db env s e d) \<and> ch_last_id s' = ev_id e \<and> ch_last_digest s' = digest env (ch_last_digest s) e"
    and "log_of env (recorded_db env s e d) = drop (length (log_of env d) + 1 - 100000) (log_of env d @ [e])"
  using recorded_short [OF assms] recorded_full [OF assms] unfolding well_recorded_def by blast+

section \<open>One call of the store\<close>

definition same_flags :: "audit_store \<Rightarrow> audit_store \<Rightarrow> bool" where
  "same_flags w w' \<longleftrightarrow> st_open w' = st_open w \<and> st_failed w' = st_failed w"

interpretation flags: act_frame same_flags
  by unfold_locales (auto simp: same_flags_def)

named_theorems flags_intros \<open>rules for operations that leave the flags of the store\<close>

declare flags.leaves_intros [flags_intros]

lemma flags_sql [flags_intros]: "leaves same_flags (sql env st)"
  by (auto simp: leaves_def sql_def same_flags_def sql_tick_def sql_undone_def split: sql_outcome.splits option.splits)

lemma flags_statements [flags_intros]:
  "leaves same_flags (sql_select env q)" "leaves same_flags (sql_change env g)" "leaves same_flags (sql_begin env)"
  "leaves same_flags (sql_commit env)" "leaves same_flags (audit_admit a)"
  by (auto simp: sql_select_def sql_change_def audit_admit_def intro: flags_intros)
    (auto simp: leaves_def sql_begin_def sql_commit_def same_flags_def sql_tick_def sql_undone_def split: if_splits)

lemma flags_state [flags_intros]: "leaves same_flags (get_state env)"
  unfolding get_state_def by (intro flags_intros)

lemma flags_write [flags_intros]: "leaves same_flags (write_event env e)"
  unfolding write_event_def retain_def Let_def by (intro flags_intros)

lemma admit_run: "audit_admit env w = (r, w') \<Longrightarrow>
    committed w' = committed w \<and> (\<not> isl r \<longrightarrow> sq_db w' = sq_db w \<and> sq_backup w' = sq_backup w)"
  by (auto simp: audit_admit_def sql_select_def sql_def split: sql_outcome.splits)

lemma latch_run: "latch env w = (r, w') \<Longrightarrow> r = Inl (Exn OperatorAuditError) \<and> st_failed w' \<and> st_open w' = st_open w \<and> committed w' = committed w"
  by (auto simp: latch_def act_bind_def act_update_def act_get_def act_when_def act_catch_def act_return_def act_raise_def
      sql_rollback_def sql_tick_def sql_undone_def committed_def in_transaction_def split: if_splits option.splits)

lemma execute_run:
  assumes op: "secures (sq_db w) (tx_idle (sq_db w)) op tx_closed" and flags: "leaves same_flags op"
    and idle: "tx_closed w" and run: "execute env permit op w = (r, w')"
  shows "(\<exists>y. r = Inr y \<and> effect op (sq_db w) y (sq_db w') \<and> tx_closed w' \<and> same_flags w w' \<and> st_open w \<and> (st_failed w \<longrightarrow> permit)) \<or>
    (r = Inl (Exn OperatorAuditError) \<and> st_failed w' \<and> st_open w' = st_open w \<and>
      (committed w' = sq_db w \<or> (\<exists>y. effect op (sq_db w) y (committed w'))))"
proof -
  let ?body = "act_bind (act_get (\<lambda>w. \<not> st_open w \<or> st_failed w \<and> \<not> permit)) (\<lambda>no.
       if no then refused else act_bind (audit_admit env) (\<lambda>_. act_bind op (\<lambda>x. act_bind (audit_admit env) (\<lambda>_. act_return x))))"
  let ?done = "\<lambda>c. c = sq_db w \<or> (\<exists>y. effect op (sq_db w) y c)"
  have fl: "leaves same_flags ?body" by (intro flags_intros flags)
  obtain r1 w1 where body: "?body w = (r1, w1)" by fastforce
  from leavesD [OF fl body] have f1: "same_flags w w1" .
  have closed: "sq_backup w = None" using idle by (simp add: tx_closed_def)
  have b: "if isl r1 then ?done (committed w1)
    else effect op (sq_db w) (projr r1) (sq_db w1) \<and> tx_closed w1 \<and> st_open w \<and> (st_failed w \<longrightarrow> permit)"
  proof (cases "\<not> st_open w \<or> st_failed w \<and> \<not> permit")
    case True
    with body closed show ?thesis by (auto simp: act_bind_def act_get_def act_raise_def)
  next
    case False
    with body have "act_bind (audit_admit env) (\<lambda>_. act_bind op (\<lambda>x. act_bind (audit_admit env) (\<lambda>_. act_return x))) w = (r1, w1)"
      by (simp add: act_bind_def act_get_def split: if_splits)
    then show ?thesis
    proof (cases rule: bindE)
      case (raised e)
      with admit_run [OF raised(1)] closed show ?thesis by simp
    next
      case a: (returned u wa)
      from admit_run [OF a(1)] closed have wa: "tx_idle (sq_db w) wa" "sq_db wa = sq_db w" by (simp_all add: tx_idle_def)
      from a(2) show ?thesis
      proof (cases rule: bindE)
        case (raised e)
        with securesD [OF op wa(1) raised(1)] show ?thesis by simp
      next
        case o: (returned x wo)
        from securesD [OF op wa(1) o(1)] effectI [where m = op, OF o(1)] wa(2) have wo: "tx_closed wo" "effect op (sq_db w) x (sq_db wo)" by simp_all
        from o(2) show ?thesis
        proof (cases rule: bindE)
          case (raised e)
          with admit_run [OF raised(1)] wo show ?thesis by (auto simp: tx_closed_def)
        next
          case (returned u wl)
          with admit_run [OF returned(1)] wo False show ?thesis by (simp add: tx_closed_def)
        qed
      qed
    qed
  qed
  have "execute env permit op w = (case r1 of Inl e \<Rightarrow> latch env w1 | Inr x \<Rightarrow> (Inr x, w1))"
    using body by (simp add: execute_def act_catch_def)
  with run b f1 show ?thesis
    by (cases r1) (auto simp: same_flags_def dest: latch_run)
qed

lemma effect_state: "effect (get_state env) d s d' \<Longrightarrow> read_state env d = Some s \<and> d' = d"
  unfolding get_state_def by (auto elim!: effect_elims split: option.splits)

lemma effect_retain: "effect (retain env s c) d u d' \<Longrightarrow>
    d' = (if ch_anchor_id s < c then shortened c (lr_digest (the (row_with_id c d))) d else d)"
  unfolding retain_def shortened_def by (auto elim!: effect_elims split: option.splits if_splits)

lemma effect_write:
  assumes "effect (write_event env e) d i d'"
  shows "\<exists>s. read_state env d = Some s \<and> i = ch_last_id s + 1 \<and> i < 2 ^ 63 \<and> d' = recorded_db env s (e\<lparr>ev_id := i\<rparr>) d"
proof -
  from assms obtain s d1 d2 where s: "read_state env d = Some s" "i = ch_last_id s + 1"
    and i: "insert_event (row_of_event env (ch_last_digest s) (e\<lparr>ev_id := i\<rparr>)) d = Some (d1, ())"
    and r: "effect (retain env s (i - MAX_AUDIT_ROWS)) (set_last i (digest env (ch_last_digest s) (e\<lparr>ev_id := i\<rparr>)) d1) () d'"
    unfolding write_event_def Let_def
    by (auto elim!: effect_elims dest!: effect_state split: if_splits)
  from i have d1: "d1 = d\<lparr>al_events := al_events d @ [row_of_event env (ch_last_digest s) (e\<lparr>ev_id := i\<rparr>)]\<rparr>" "i < 2 ^ 63"
    by (auto simp: insert_event_def split: if_splits)
  from effect_retain [OF r] s d1 show ?thesis by (simp add: recorded_db_def prolonged_def Let_def)
qed

lemma secures_state [secures_intros]: "secures d (tx_open d) (get_state env) (tx_open d)"
  unfolding get_state_def by (rule secures_bind [where ?P1.0 = "tx_open d"]) (intro secures_intros)+

lemma secures_retain: "secures d (tx_open d) (retain env s c) (tx_open d)"
  unfolding retain_def
  by (intro secures_intros secures_bind [where ?P1.0 = "tx_open d" and ?P2.0 = "tx_open d"])

lemma secures_write: "secures d (tx_idle d) (write_event env e) tx_closed"
  unfolding write_event_def Let_def
proof (rule secures_bind [OF secures_begin], rule secures_bind [OF secures_state], rule secures_bind [where ?P1.0 = "tx_open d"])
  fix s ok
  have commit: "secures d (tx_open d) (act_bind (sql_commit (ax_sql env)) (\<lambda>_. act_return i)) tx_closed" for i
    by (rule secures_bind [OF secures_commit]) (rule secures_return)
  show "secures d (tx_open d) (if \<not> ok then refused else
     act_bind (sql (ax_sql env) (insert_event (row_of_event env (ch_last_digest s) (e\<lparr>ev_id := ch_last_id s + 1\<rparr>)))) (\<lambda>_.
     act_bind (sql_change (ax_sql env) (set_last (ev_id (e\<lparr>ev_id := ch_last_id s + 1\<rparr>)) (digest env (ch_last_digest s) (e\<lparr>ev_id := ch_last_id s + 1\<rparr>)))) (\<lambda>_.
     act_bind (retain env s (ev_id (e\<lparr>ev_id := ch_last_id s + 1\<rparr>) - MAX_AUDIT_ROWS)) (\<lambda>_.
     act_bind (sql_commit (ax_sql env)) (\<lambda>_. act_return (ev_id (e\<lparr>ev_id := ch_last_id s + 1\<rparr>))))))) tx_closed"
    by (intro secures_if secures_raise secures_bind [where ?P1.0 = "tx_open d" and ?P2.0 = tx_closed] secures_sql_open secures_change(2) secures_retain commit)
qed (intro secures_intros)

section \<open>Recording\<close>

lemma new_event_ok: "new_event env context a n = Some e \<Longrightarrow> audit_event_ok env e \<and> ev_id e = 1"
  by (auto simp: new_event_def Let_def split: option.splits if_splits dyn.splits)

lemma write_linked:
  assumes "audit_env_ok env" and "linked env s d" and "audit_event_ok env e" and "effect (write_event env e) d i d'"
  shows "i = ch_last_id s + 1 \<and> chain_verified env d' \<and>
    log_of env d' = drop (length (log_of env d) + 1 - 100000) (log_of env d @ [e\<lparr>ev_id := i\<rparr>])"
proof -
  from effect_write [OF assms(4)] linkedD(1) [OF assms(2)]
  have i: "i = ch_last_id s + 1" "i < 2 ^ 63" and d': "d' = recorded_db env s (e\<lparr>ev_id := i\<rparr>) d" by auto
  have "audit_event_ok env (e\<lparr>ev_id := i\<rparr>)" using event_ok_id [OF assms(3) _ i(2)] i(1) linkedD(2) [OF assms(2)]
    by (simp add: chain_state_ok_def)
  from recorded_linked [OF assms(1,2) this] i(1) d' show ?thesis by (auto simp: verified_linked)
qed

end
