(* ===== verification/Audit_World.thy ===== *)
theory Audit_World
  imports Audit_Record
begin

text \<open>A small log in which every statement succeeds, empty and with one event.\<close>

definition tiny_audit :: audit_env where
  "tiny_audit = \<lparr>ax_sql = (\<lambda>_. Sql_Done), ax_site = [104], ax_run_id = uuid_text 5, ax_elapsed = (\<lambda>_. Some 7), ax_utc_now = (\<lambda>_. Some [50]),
     ax_utc = Some, ax_instant = (\<lambda>_. [51]), ax_uuid = (\<lambda>_. Some 5), ax_uuid4 = (\<lambda>_. 5), ax_sha256 = (\<lambda>_. replicate 64 97),
     ax_dumps = (\<lambda>e. ev_action e), ax_changes_length = (\<lambda>_. 40), ax_details_length = (\<lambda>_. 2)\<rparr>"

definition tiny_event :: audit_event where
  "tiny_event = \<lparr>ev_id = 1, ev_occurred_at = [50], ev_run_id = uuid_text 5, ev_elapsed_ms = 7, ev_request_id = uuid_text 5, ev_actor_id = None,
     ev_action = py ''user.create'', ev_outcome = py ''success'', ev_target_kind = Some (py ''user''), ev_target_id = Some (uuid_text 5),
     ev_status_code = Some 201, ev_changes = [py ''role''], ev_details = no_details\<rparr>"

definition empty_state :: chain_state where
  "empty_state = \<lparr>ch_anchor_id = 0, ch_anchor_digest = ZERO_DIGEST, ch_last_id = 0, ch_last_digest = ZERO_DIGEST\<rparr>"

definition empty_log :: audit_db where
  "empty_log = \<lparr>al_state = [state_row_of tiny_audit empty_state], al_events = []\<rparr>"

definition one_event_log :: audit_db where
  "one_event_log = recorded_db tiny_audit empty_state tiny_event empty_log"

definition tiny_store :: "audit_db \<Rightarrow> bool \<Rightarrow> audit_store" where
  "tiny_store d failed = \<lparr>sq_db = d, sq_backup = None, sq_tick = 0, st_open = True, st_failed = failed\<rparr>"

lemma tiny_audit_ok: "audit_env_ok tiny_audit"
  by (simp add: audit_env_ok_def tiny_audit_def is_digest_def list_all_iff)

lemma empty_linked: "linked tiny_audit empty_state empty_log"
  by (simp add: linked_def read_state_iff empty_log_def rows_of_def chain_state_ok_def empty_state_def is_digest_def ZERO_DIGEST_def list_all_iff)

lemma tiny_event_ok: "audit_event_ok tiny_audit tiny_event"
  by (simp add: audit_event_ok_def tiny_event_def tiny_audit_def given_def canonical_id_def details_of_def no_details_def converted_def
    ACTIONS_def OUTCOMES_def TARGET_KINDS_def CHANGE_FIELDS_def)

lemma one_event_linked: "\<exists>s. linked tiny_audit s one_event_log"
  and one_event_log_of: "log_of tiny_audit one_event_log = [tiny_event]"
proof -
  have "ev_id tiny_event = ch_last_id empty_state + 1" by (simp add: tiny_event_def empty_state_def)
  note r = recorded_linked [OF tiny_audit_ok empty_linked tiny_event_ok this]
  then show "\<exists>s. linked tiny_audit s one_event_log" unfolding one_event_log_def by blast
  show "log_of tiny_audit one_event_log = [tiny_event]"
    unfolding one_event_log_def r(2) by (simp add: log_of_def empty_log_def rows_of_def)
qed

lemma one_event_rows: "rows_of one_event_log = [row_of_event tiny_audit ZERO_DIGEST tiny_event]"
proof -
  have id: "ev_id tiny_event = ch_last_id empty_state + 1" by (simp add: tiny_event_def empty_state_def)
  have "one_event_log = prolonged tiny_audit empty_state tiny_event empty_log"
    by (simp add: one_event_log_def recorded_db_def Let_def empty_state_def tiny_event_def)
  with rows_prolonged [OF empty_linked id] show ?thesis by (simp add: rows_of_def empty_log_def empty_state_def)
qed

lemma tiny_valid: "valid_event tiny_audit (row_of_event tiny_audit p tiny_event) = Some tiny_event"
  by (rule valid_row_of [OF tiny_audit_ok tiny_event_ok])

text \<open>A query without filters, and what it returns.\<close>

definition tiny_query :: audit_query where
  "tiny_query = \<lparr>aq_limit = 5, aq_before = None, aq_action = None, aq_outcome = None, aq_actor = Ref_None, aq_target = Ref_None,
     aq_start = None, aq_end = None, aq_export = False\<rparr>"

lemma one_event_state: "read_state tiny_audit one_event_log =
    Some \<lparr>ch_anchor_id = 0, ch_anchor_digest = ZERO_DIGEST, ch_last_id = 1, ch_last_digest = replicate 64 97\<rparr>"
  unfolding read_state_iff
  by (simp add: one_event_log_def recorded_db_def prolonged_def Let_def empty_log_def set_last_def state_row_of_def empty_state_def tiny_event_def
    digest_def chain_state_ok_def is_digest_def ZERO_DIGEST_def list_all_iff) (simp add: tiny_audit_def)

lemma one_event_events: "al_events one_event_log = [row_of_event tiny_audit ZERO_DIGEST tiny_event]"
  by (simp add: one_event_log_def recorded_db_def prolonged_def Let_def empty_log_def set_last_def empty_state_def tiny_event_def)

lemma tiny_page: "\<exists>page w'. read_audit tiny_audit tiny_query (tiny_store one_event_log False) = (Inr page, w')"
proof -
  have sql: "ax_sql tiny_audit = (\<lambda>_. Sql_Done)" by (simp add: tiny_audit_def)
  have id: "ev_id tiny_event = 1" by (simp add: tiny_event_def)
  have zero: "is_digest ZERO_DIGEST" by (simp add: is_digest_def ZERO_DIGEST_def list_all_iff)
  show ?thesis
    by (simp add: read_audit_def query_filter_def tiny_query_def given_def time_range_def act_lift_def execute_def audit_admit_def read_page_def
      get_state_def act_bind_def act_catch_def act_get_def act_return_def sql_select_def sql_def sql sql_tick_def tiny_store_def one_event_state
      one_event_events selects_def column_is_def tiny_valid row_digest_of zero id Let_def)
qed

lemma tiny_store_simps [simp]: "sq_db (tiny_store d b) = d" "tx_closed (tiny_store d b)" "st_failed (tiny_store d b) = b" "committed (tiny_store d b) = d"
  by (simp_all add: tiny_store_def tx_closed_def)

end
