(* ===== verification/Audit_Evidence.thy ===== *)
theory Audit_Evidence
  imports Audit_World "HOL-Library.Sublist"
begin

text \<open>
  What the log is worth: two verified logs with the same head agree on everything that both retain, a
  store that failed writes nothing any more, and a page is a part of the log.
\<close>

section \<open>Recording\<close>

definition tiny_args :: audit_args where
  "tiny_args = \<lparr>ag_action = py ''user.create'', ag_outcome = py ''success'', ag_actor = Ref_None, ag_target_id = Ref_uuid 5,
    ag_target_kind = Some (py ''user''), ag_request_id = Ref_None, ag_status_code = Some 201, ag_changes = Inst [py ''role''], ag_details = None\<rparr>"

text \<open>What a call of \<open>record\<close> leaves: nothing new, with or without a latched failure, or exactly the new event.\<close>

lemma record_run:
  assumes env: "audit_env_ok env" and idle: "tx_closed w" and l: "linked env s (sq_db w)"
    and run: "record_audit env context a w = (r, w')"
  shows "chain_verified env (committed w') \<and>
    (new_event env context a (sq_tick w) = None \<and> r = Inl (Exn Audit_ValueError) \<and> sq_db w' = sq_db w \<and> tx_closed w' \<and> same_flags w w' \<or>
     r = Inl (Exn OperatorAuditError) \<and> st_failed w' \<and> log_of env (committed w') = log_of env (sq_db w) \<or>
     (\<exists>e. new_event env context a (sq_tick w) = Some e \<and>
        log_of env (committed w') = drop (length (log_of env (sq_db w)) + 1 - 100000) (log_of env (sq_db w) @ [e\<lparr>ev_id := ch_last_id s + 1\<rparr>]) \<and>
        (r = Inr (ch_last_id s + 1) \<and> tx_closed w' \<and> same_flags w w' \<and> \<not> st_failed w \<or> r = Inl (Exn OperatorAuditError) \<and> st_failed w')))"
proof (cases "new_event env context a (sq_tick w)")
  case None
  with idle l run show ?thesis
    by (auto simp: record_audit_def audit_reading_def act_bind_def act_raise_def verified_linked sql_tick_def tx_closed_def same_flags_def)
next
  case (Some e)
  let ?w = "sql_tick w"
  from Some run have ex: "execute env False (write_event env e) ?w = (r, w')"
    by (simp add: record_audit_def audit_reading_def act_bind_def)
  have w: "tx_closed ?w" "sq_db ?w = sq_db w" "st_failed ?w = st_failed w" "st_open ?w = st_open w" using idle by (simp_all add: tx_closed_def sql_tick_def)
  have "\<exists>s. linked env s (sq_db w)" using l by blast
  with write_linked [OF env l conjunct1 [OF new_event_ok [OF Some]]] execute_run [OF secures_write flags_write w(1) ex] w Some
  show ?thesis by (auto simp: verified_linked [of env "sq_db w"] same_flags_def tx_closed_def)
qed

text \<open>
  C9: a verified log stays verified whatever a recording does and whatever fails in it. A recording either
  leaves the log as it was and raises, or appends exactly its event, under the next number, and keeps the
  last 100000; when it returns, it appended, and when the store fails (\<open>OperatorAuditError\<close>), it is
  latched. An event that does not validate (\<open>ValueError\<close>) changes nothing in the log.
\<close>

theorem recording_prolongs_the_log:
  assumes "audit_env_ok env" and "tx_closed w" and "linked env s (sq_db w)"
    and "record_audit env context a w = (r, w')"
  shows "chain_verified env (committed w') \<and>
    (r = Inl (Exn Audit_ValueError) \<and> committed w' = sq_db w \<or>
     r = Inl (Exn OperatorAuditError) \<and> st_failed w' \<and> log_of env (committed w') = log_of env (sq_db w) \<or>
     (\<exists>e. new_event env context a (sq_tick w) = Some e \<and>
        log_of env (committed w') = drop (length (log_of env (sq_db w)) + 1 - 100000) (log_of env (sq_db w) @ [e\<lparr>ev_id := ch_last_id s + 1\<rparr>]) \<and>
        (r = Inr (ch_last_id s + 1) \<and> \<not> st_failed w \<and> \<not> st_failed w' \<or> r = Inl (Exn OperatorAuditError) \<and> st_failed w')))"
  using record_run [OF assms] assms(2) by (auto simp: same_flags_def tx_closed_def)

theorem recording_prolongs_the_log_witness:
  "\<exists>r w'. record_audit tiny_audit None tiny_args (tiny_store empty_log False) = (r, w') \<and> chain_verified tiny_audit (committed w')"
proof -
  obtain r w' where run: "record_audit tiny_audit None tiny_args (tiny_store empty_log False) = (r, w')" by fastforce
  have "linked tiny_audit empty_state (sq_db (tiny_store empty_log False))" by (simp add: empty_linked)
  from recording_prolongs_the_log [OF tiny_audit_ok tiny_store_simps(2) this run] run show ?thesis by blast
qed

section \<open>Tampering\<close>

text \<open>The texts that were hashed for the rows of a log.\<close>

definition hashed :: "audit_env \<Rightarrow> log_row list \<Rightarrow> pystr set" where
  "hashed env rs = {digest_input env p e | p e r. r \<in> set rs \<and> valid_event env r = Some e \<and> lr_previous_digest r = Sql_Text p}"

lemma hashed_mono: "set rs \<subseteq> set rs' \<Longrightarrow> hashed env rs \<subseteq> hashed env rs'"
  unfolding hashed_def by blast

lemma follow_snoc:
  assumes "follow_chain env i p (rs @ [r]) = Some (j, q)"
  obtains k t e where "follow_chain env i p rs = Some (k, t)" and "valid_event env r = Some e" and "j = k + 1"
    and "lr_previous_digest r = t" and "q = lr_digest r" and "row_digest env t e = Some q"
proof -
  from assms obtain k t where "follow_chain env i p rs = Some (k, t)" and r: "follow_chain env k t [r] = Some (j, q)"
    unfolding follow_append by (auto split: option.splits)
  moreover from r obtain e where "valid_event env r = Some e" "j = k + 1" "lr_previous_digest r = t" "q = lr_digest r" "row_digest env t e = Some q"
    by (auto split: option.splits if_splits)
  ultimately show ?thesis using that by blast
qed

lemma follow_digest:
  assumes "audit_env_ok env" and "is_digest p"
  shows "follow_chain env i (Sql_Text p) rs = Some (j, q) \<Longrightarrow> \<exists>t. q = Sql_Text t \<and> is_digest t"
proof (induction rs arbitrary: j q rule: rev_induct)
  case (snoc r rs)
  from snoc.prems show ?case
  proof (rule follow_snoc)
    fix k t e
    assume "row_digest env t e = Some q"
    with assms(1) show ?thesis by (auto simp: row_digest_def digest_def audit_env_ok_def split: option.splits if_splits)
  qed
qed (use assms(2) in simp)

lemma digest_input_inj:
  assumes "inj_on (ax_dumps env) A" and "is_digest p" and "is_digest q" and "digest_input env p e = digest_input env q f" and "e \<in> A" and "f \<in> A"
  shows "p = q \<and> e = f"
proof -
  from assms(2,3) have "length p = length q" by (simp add: is_digest_def)
  with assms(4) have "p = q" "ax_dumps env e = ax_dumps env f" by (simp_all add: digest_input_def)
  with assms(1,5,6) show ?thesis by (auto dest: inj_onD)
qed

lemma same_head:
  assumes env: "audit_env_ok env" "inj_on (ax_dumps env) A" and p: "is_digest p1" "is_digest p2"
  shows "follow_chain env i1 (Sql_Text p1) rs1 = Some (j, q) \<Longrightarrow> follow_chain env i2 (Sql_Text p2) rs2 = Some (j, q) \<Longrightarrow>
    inj_on (ax_sha256 env) (hashed env rs1 \<union> hashed env rs2) \<Longrightarrow> (\<And>r e. r \<in> set (rs1 @ rs2) \<Longrightarrow> valid_event env r = Some e \<Longrightarrow> e \<in> A) \<Longrightarrow>
    suffix (map (valid_event env) rs1) (map (valid_event env) rs2) \<or> suffix (map (valid_event env) rs2) (map (valid_event env) rs1)"
proof (induction rs1 arbitrary: rs2 j q rule: rev_induct)
  case (snoc r1 rs1)
  show ?case
  proof (cases rs2 rule: rev_cases)
    case (snoc rs r2)
    from \<open>follow_chain env i1 (Sql_Text p1) (rs1 @ [r1]) = Some (j, q)\<close>
    obtain k1 t1 e1 where a: "follow_chain env i1 (Sql_Text p1) rs1 = Some (k1, t1)" "valid_event env r1 = Some e1" "j = k1 + 1"
      "lr_previous_digest r1 = t1" "row_digest env t1 e1 = Some q" by (rule follow_snoc)
    from \<open>follow_chain env i2 (Sql_Text p2) rs2 = Some (j, q)\<close> [unfolded snoc]
    obtain k2 t2 e2 where b: "follow_chain env i2 (Sql_Text p2) rs = Some (k2, t2)" "valid_event env r2 = Some e2" "j = k2 + 1"
      "lr_previous_digest r2 = t2" "row_digest env t2 e2 = Some q" by (rule follow_snoc)
    obtain u1 u2 where u: "t1 = Sql_Text u1" "is_digest u1" "t2 = Sql_Text u2" "is_digest u2"
      using follow_digest [OF env(1) p(1) a(1)] follow_digest [OF env(1) p(2) b(1)] by blast
    have "ax_sha256 env (digest_input env u1 e1) = ax_sha256 env (digest_input env u2 e2)"
      using a(5) b(5) u by (auto simp: row_digest_of digest_def)
    moreover have "digest_input env u1 e1 \<in> hashed env (rs1 @ [r1]) \<union> hashed env rs2" "digest_input env u2 e2 \<in> hashed env (rs1 @ [r1]) \<union> hashed env rs2"
      using a(2,4) b(2,4) u(1,3) snoc unfolding hashed_def by force+
    ultimately have "digest_input env u1 e1 = digest_input env u2 e2" using snoc.prems(3) by (auto dest: inj_onD)
    with digest_input_inj [OF env(2) u(2,4)] snoc.prems(4) [OF _ a(2)] snoc.prems(4) [OF _ b(2)] snoc have eq: "u1 = u2" "e1 = e2" by auto
    have inj: "inj_on (ax_sha256 env) (hashed env rs1 \<union> hashed env rs)"
      by (rule inj_on_subset [OF snoc.prems(3)], intro Un_mono hashed_mono) (auto simp: snoc)
    have events: "e \<in> A" if "r \<in> set (rs1 @ rs)" "valid_event env r = Some e" for r e
      using that snoc.prems(4) [of r e] snoc by auto
    from snoc.IH [OF a(1) _ inj events] b(1,3) a(3) u(1,3) eq
    have "suffix (map (valid_event env) rs1) (map (valid_event env) rs) \<or> suffix (map (valid_event env) rs) (map (valid_event env) rs1)" by simp
    then show ?thesis using a(2) b(2) eq(2) by (simp add: snoc)
  qed simp
qed simp

text \<open>
  C10: as long as no two of the texts hashed for them collide and different events have different texts, two verified logs with the same last number
  and digest hold the same events, as far back as both reach. So a row that was altered, inserted or
  removed is detected, unless the head was rewritten too.
\<close>

theorem altered_logs_are_detected:
  assumes "audit_env_ok env" and "inj_on (ax_dumps env) (set (log_of env d1) \<union> set (log_of env d2))" and "linked env s1 d1" and "linked env s2 d2"
    and "ch_last_id s1 = ch_last_id s2" and "ch_last_digest s1 = ch_last_digest s2"
    and "inj_on (ax_sha256 env) (hashed env (rows_of d1) \<union> hashed env (rows_of d2))"
  shows "suffix (log_of env d1) (log_of env d2) \<or> suffix (log_of env d2) (log_of env d1)"
proof -
  have digests: "is_digest (ch_anchor_digest s1)" "is_digest (ch_anchor_digest s2)"
    using linkedD(2) [OF assms(3)] linkedD(2) [OF assms(4)] by (simp_all add: chain_state_ok_def)
  have events: "e \<in> set (log_of env d1) \<union> set (log_of env d2)" if "r \<in> set (rows_of d1 @ rows_of d2)" "valid_event env r = Some e" for r e
    using that by (force simp: log_of_def)
  from same_head [OF assms(1,2) digests, of "ch_anchor_id s1" "rows_of d1" "ch_last_id s2" "Sql_Text (ch_last_digest s2)" "ch_anchor_id s2" "rows_of d2"] assms(3-7) events
  have "suffix (map (valid_event env) (rows_of d1)) (map (valid_event env) (rows_of d2)) \<or>
      suffix (map (valid_event env) (rows_of d2)) (map (valid_event env) (rows_of d1))"
    by (simp add: linked_def)
  then have "suffix (map the (map (valid_event env) (rows_of d1))) (map the (map (valid_event env) (rows_of d2))) \<or>
      suffix (map the (map (valid_event env) (rows_of d2))) (map the (map (valid_event env) (rows_of d1)))"
    by (blast intro: map_mono_suffix)
  then show ?thesis by (simp add: log_of_def)
qed

theorem altered_logs_are_detected_witness:
  "suffix (log_of tiny_audit one_event_log) (log_of tiny_audit one_event_log) \<and> log_of tiny_audit one_event_log = [tiny_event]"
proof -
  from one_event_linked obtain s where s: "linked tiny_audit s one_event_log" by blast
  have "p = q" if "p \<in> hashed tiny_audit (rows_of one_event_log)" "q \<in> hashed tiny_audit (rows_of one_event_log)" for p q
    using that by (auto simp: hashed_def one_event_rows tiny_valid)
  then have "inj_on (ax_sha256 tiny_audit) (hashed tiny_audit (rows_of one_event_log) \<union> hashed tiny_audit (rows_of one_event_log))" by (simp add: inj_on_def)
  with altered_logs_are_detected [OF tiny_audit_ok _ s s refl refl] one_event_log_of show ?thesis by simp
qed

section \<open>A store that failed\<close>

datatype audit_op = Op_check | Op_record "request_context option" audit_args | Op_events audit_query | Op_close

fun audit_perform :: "audit_env \<Rightarrow> audit_op \<Rightarrow> audit_store \<Rightarrow> audit_store" where
  "audit_perform env Op_check w = snd (check_audit env w)"
| "audit_perform env (Op_record c a) w = snd (record_audit env c a w)"
| "audit_perform env (Op_events q) w = snd (read_audit env q w)"
| "audit_perform env Op_close w = snd (close_audit w)"

definition audit_run :: "audit_env \<Rightarrow> audit_op list \<Rightarrow> audit_store \<Rightarrow> audit_store" where
  "audit_run env ops w = fold (audit_perform env) ops w"

lemma execute_failed:
  assumes "st_failed w"
  shows "isl (fst (execute env False op w))" and "st_failed (snd (execute env False op w))"
    and "committed (snd (execute env False op w)) = committed w"
proof -
  obtain r w' where run: "execute env False op w = (r, w')" by fastforce
  with assms have "r = Inl (Exn OperatorAuditError) \<and> st_failed w' \<and> committed w' = committed w"
    by (auto simp: execute_def act_catch_def act_bind_def act_get_def act_raise_def dest: latch_run)
  with run show "isl (fst (execute env False op w))" "st_failed (snd (execute env False op w))"
    "committed (snd (execute env False op w)) = committed w" by simp_all
qed

definition same_commit :: "audit_store \<Rightarrow> audit_store \<Rightarrow> bool" where
  "same_commit w w' \<longleftrightarrow> committed w' = committed w \<and> (st_failed w \<longrightarrow> st_failed w')"

interpretation commit: act_frame same_commit
  by unfold_locales (auto simp: same_commit_def)

lemma commit_select: "leaves same_commit (sql_select env q)"
  by (auto simp: leaves_def sql_select_def sql_def same_commit_def split: sql_outcome.splits)
    (auto simp: sql_tick_def sql_undone_def)

lemmas commit_intros = commit.leaves_intros commit_select

lemma commit_checks: "leaves same_commit (check_rows env s rs)"
  by (induction rs) (auto intro!: commit_intros split: option.split)

lemma commit_page: "leaves same_commit (read_page env n P)"
  unfolding read_page_def get_state_def Let_def by (intro commit_intros commit_checks)

lemma commit_execute: "leaves same_commit op \<Longrightarrow> leaves same_commit (execute env permit op)"
  unfolding execute_def audit_admit_def
  by (intro commit_intros) (auto simp: leaves_def same_commit_def dest: latch_run)

lemma failed_perform:
  assumes "st_failed w"
  shows "st_failed (audit_perform env op w) \<and> committed (audit_perform env op w) = committed w"
proof (cases op)
  case Op_check
  then show ?thesis by (simp add: check_audit_def execute_failed [OF assms])
next
  case (Op_record c a)
  have t: "st_failed (sql_tick w)" using assms by (simp add: sql_tick_def)
  show ?thesis
  proof (cases "new_event env c a (sq_tick w)")
    case None
    with Op_record t show ?thesis by (simp add: record_audit_def audit_reading_def act_bind_def act_raise_def)
  next
    case (Some e)
    with Op_record show ?thesis
      by (simp add: record_audit_def audit_reading_def act_bind_def execute_failed [OF t])
  qed
next
  case (Op_events q)
  have "leaves same_commit (read_audit env q)"
    unfolding read_audit_def by (intro commit_intros commit_execute commit_page)
  from leavesD [OF this, of w] Op_events assms show ?thesis by (simp add: same_commit_def) (metis prod.collapse)
next
  case Op_close
  with assms show ?thesis by (simp add: close_audit_def act_update_def committed_def split: option.split)
qed

text \<open>
  Once a recording or a check has failed, nothing is written any more: whatever is called, the log
  stays as it is, and every later check and recording is refused, so no audited change can start.
\<close>

lemma failed_store_records_nothing:
  assumes "st_failed w"
  shows "committed (audit_run env ops w) = committed w \<and> isl (fst (check_audit env (audit_run env ops w))) \<and>
    isl (fst (record_audit env context a (audit_run env ops w)))"
proof -
  have run: "st_failed (audit_run env ops w) \<and> committed (audit_run env ops w) = committed w"
    using assms
  proof (induction ops arbitrary: w)
    case (Cons op ops)
    then show ?case using failed_perform [of w env op] by (simp add: audit_run_def)
  qed (simp add: audit_run_def)
  let ?w = "audit_run env ops w"
  have "isl (fst (check_audit env ?w))"
    unfolding check_audit_def using execute_failed(1) [OF conjunct1 [OF run]] .
  moreover have t: "st_failed (sql_tick ?w)" using run by (simp add: sql_tick_def)
  have "isl (fst (record_audit env context a ?w))"
  proof (cases "new_event env context a (sq_tick ?w)")
    case (Some e)
    then show ?thesis by (simp add: record_audit_def audit_reading_def act_bind_def execute_failed [OF t])
  qed (simp add: record_audit_def audit_reading_def act_bind_def act_raise_def)
  ultimately show ?thesis using run by simp
qed

lemma failed_store_records_nothing_witness:
  "let w = audit_run tiny_audit [Op_check, Op_close] (tiny_store one_event_log True) in
    committed w = one_event_log \<and> isl (fst (record_audit tiny_audit None tiny_args w))"
proof -
  have "st_failed (tiny_store one_event_log True)" by simp
  from failed_store_records_nothing [OF this, of tiny_audit "[Op_check, Op_close]" None tiny_args] show ?thesis by (simp add: Let_def)
qed

section \<open>Pages\<close>

text \<open>The filter of a query on events; it is what the statement selects of a verified log.\<close>

definition event_selected :: "pystr option \<Rightarrow> pystr option \<Rightarrow> pystr option \<Rightarrow> pystr option \<Rightarrow> int option \<Rightarrow> (pystr \<times> pystr) option \<Rightarrow> audit_event \<Rightarrow> bool" where
  "event_selected action outcome actor target before period e \<longleftrightarrow>
     given action (\<lambda>a. ev_action e = a) \<and> given outcome (\<lambda>a. ev_outcome e = a) \<and> given actor (\<lambda>a. ev_actor_id e = Some a) \<and>
     given target (\<lambda>a. ev_target_id e = Some a) \<and> given before (\<lambda>b. ev_id e < b) \<and>
     given period (\<lambda>(s, t). s \<le> ev_occurred_at e \<and> ev_occurred_at e < t)"

lemma sql_optional_Some: "sql_optional sql_text v = Some x \<Longrightarrow> v = optional_text x"
  by (cases v) (auto simp: sql_optional_def optional_text_def split: if_splits)

lemma event_columns:
  assumes "event_of_row r = Some e"
  shows "lr_action r = Sql_Text (ev_action e)" and "lr_outcome r = Sql_Text (ev_outcome e)" and "lr_occurred_at r = Sql_Text (ev_occurred_at e)"
    and "lr_actor_id r = optional_text (ev_actor_id e)" and "lr_target_id r = optional_text (ev_target_id e)" and "lr_id r = ev_id e"
  using assms by (auto simp: event_of_row_def split: option.splits if_splits dest: sql_optional_Some)

lemma selects_event:
  assumes "valid_event env r = Some e"
  shows "selects action outcome actor target before period r = event_selected action outcome actor target before period e"
proof -
  note c = event_columns [OF conjunct1 [OF valid_eventD [OF assms]]]
  have "v = Sql_Text t \<longleftrightarrow> x = Some t" if "v = optional_text x" for v x t
    using that by (auto simp: optional_text_def split: option.splits)
  with c show ?thesis
    by (simp add: selects_def event_selected_def column_is_def given_def split: option.split)
qed

lemma take_descending:
  assumes "sorted_wrt (\<lambda>x y. f y < f x) xs" and "n < length xs" and "0 < n"
  shows "filter (\<lambda>x. f x < (f (xs ! (n - 1)) :: int)) xs = drop n xs"
proof -
  have "\<not> f (xs ! i) < f (xs ! (n - 1))" if "i < n" for i
  proof (cases "i = n - 1")
    case False
    with that assms have "f (xs ! (n - 1)) < f (xs ! i)" by (auto simp: sorted_wrt_iff_nth_less)
    then show ?thesis by simp
  qed simp
  then have "filter (\<lambda>x. f x < f (xs ! (n - 1))) (take n xs) = []"
    using assms(2) by (auto simp: filter_empty_conv in_set_conv_nth)
  moreover have "filter (\<lambda>x. f x < f (xs ! (n - 1))) (drop n xs) = drop n xs"
    using assms by (auto simp: filter_id_conv in_set_conv_nth sorted_wrt_iff_nth_less)
  ultimately show ?thesis using filter_append [of "\<lambda>x. f x < f (xs ! (n - 1))" "take n xs" "drop n xs"] by simp
qed

lemma effect_page:
  assumes "effect (read_page env n P) d page d'"
  shows "\<exists>rows. rows = take (Suc n) (rev (filter P (rows_of d))) \<and> pg_events page = map (the \<circ> event_of_row) (take n rows) \<and>
    pg_has_more page = (n < length rows) \<and>
    pg_next_before page = (if n < length rows then Some (ev_id (List.last (pg_events page))) else None)"
  using assms unfolding read_page_def Let_def
  by (auto elim!: effect_elims dest!: effect_state simp: rows_of_def filter_sort split: if_splits)

lemma log_descends:
  assumes "linked env s d"
  shows "sorted_wrt (\<lambda>x y. ev_id y < ev_id x) (rev (log_of env d))"
proof -
  have "ev_id (the (valid_event env r)) = lr_id r" if "r \<in> set (rows_of d)" for r
    using assms follow_valid [OF _ that] valid_eventD by (fastforce simp: linked_def)
  then have "map ev_id (log_of env d) = map lr_id (rows_of d)" by (simp add: log_of_def)
  then have "sorted_wrt (<) (map ev_id (log_of env d))" using linkedD(4) [OF assms] by (simp add: strict_sorted_iff)
  then show ?thesis by (simp add: sorted_wrt_rev sorted_wrt_map)
qed

lemma secures_idle_bind: "secures d (tx_idle d) m (tx_idle d) \<Longrightarrow> (\<And>x. secures d (tx_idle d) (f x) P) \<Longrightarrow> secures d (tx_idle d) (act_bind m f) P"
  by (rule secures_bind)

lemma secures_checks: "secures d (tx_idle d) (check_rows env s rs) (tx_idle d)"
proof (induction rs)
  case (Cons r rs)
  have "secures d (tx_idle d) (if lr_id r = ch_anchor_id s + 1 then act_return (Some (Sql_Text (ch_anchor_digest s)))
      else sql_select (ax_sql env) (\<lambda>d. map_option lr_digest (row_with_id (lr_id r - 1) d))) (tx_idle d)"
    by (intro secures_intros)
  with Cons show ?case
    by (auto intro!: secures_idle_bind secures_raise split: option.split)
qed (simp add: secures_return)

lemma secures_page: "secures d (tx_idle d) (read_page env n P) tx_closed"
proof -
  have "secures d (tx_idle d) (read_page env n P) (tx_idle d)"
    unfolding read_page_def get_state_def Let_def
    by (intro secures_idle_bind secures_if secures_option secures_raise secures_select secures_return secures_get secures_checks)
  then show ?thesis unfolding secures_def by (auto elim!: act_wp_mono simp: tx_idle_def tx_closed_def)
qed

lemma flags_checks: "leaves same_flags (check_rows env s rs)"
  by (induction rs) (auto intro!: flags_intros split: option.split)

lemma flags_page: "leaves same_flags (read_page env n P)"
  unfolding read_page_def Let_def by (intro flags_intros flags_checks)

lemma linked_valid: "linked env s d \<Longrightarrow> r \<in> set (rows_of d) \<Longrightarrow> \<exists>e. valid_event env r = Some e"
  using follow_valid by (fastforce simp: linked_def)

lemma found_rows:
  assumes "linked env s d"
  shows "rev (filter (event_selected action outcome actor target before period) (log_of env d)) =
    map (the \<circ> valid_event env) (rev (filter (selects action outcome actor target before period) (rows_of d)))"
proof -
  let ?sel = "event_selected action outcome actor target before period"
  have "filter ?sel (map (the \<circ> valid_event env) rs) = map (the \<circ> valid_event env) (filter (selects action outcome actor target before period) rs)"
    if "set rs \<subseteq> set (rows_of d)" for rs
    using that
  proof (induction rs)
    case (Cons r rs)
    with linked_valid [OF assms, of r] selects_event [of env r] show ?case by auto
  qed simp
  then show ?thesis by (simp add: log_of_def rev_map)
qed

lemma rest_of_page:
  fixes action outcome actor target before period
  assumes l: "linked env s d" and n: "0 < n"
  defines "found \<equiv> \<lambda>b. rev (filter (event_selected action outcome actor target b period) (log_of env d))"
  assumes m: "n < length (found before)"
  shows "found (Some (ev_id (found before ! (n - 1)))) = drop n (found before)"
proof -
  let ?sel = "\<lambda>b. event_selected action outcome actor target b period" and ?last = "ev_id (found before ! (n - 1))"
  have "found before ! (n - 1) \<in> set (found before)" using m by (intro nth_mem) simp
  then have "given before (\<lambda>b. ?last < b)" by (auto simp: found_def event_selected_def)
  then have "?sel (Some ?last) = (\<lambda>e. ?sel before e \<and> ev_id e < ?last)"
    by (auto simp: event_selected_def given_def fun_eq_iff split: option.splits)
  then have "found (Some ?last) = filter (\<lambda>e. ev_id e < ?last) (found before)"
    by (simp add: found_def rev_filter [symmetric])
  also have "\<dots> = drop n (found before)"
  proof (rule take_descending [OF _ m n])
    show "sorted_wrt (\<lambda>x y. ev_id y < ev_id x) (found before)"
      using log_descends [OF l] by (simp add: found_def rev_filter sorted_wrt_filter)
  qed
  finally show ?thesis .
qed

text \<open>
  C16: of a verified log a page holds the newest of the selected events, in descending order, up to its limit;
  and when there are more, the cursor that it gives selects exactly the rest.
\<close>

theorem pages_partition_the_log:
  assumes "tx_closed w" and "linked env s (sq_db w)" and "read_audit env q w = (Inr page, w')"
    and "reference env (aq_actor q) = Some actor" and "reference env (aq_target q) = Some target"
    and "time_range env (aq_start q) (aq_end q) = Inr period"
  shows "let pick = (\<lambda>b. rev (filter (event_selected (aq_action q) (aq_outcome q) actor target b period) (log_of env (sq_db w))));
      found = pick (aq_before q) in
    pg_events page = take (nat (aq_limit q)) found \<and> pg_has_more page = (nat (aq_limit q) < length found) \<and>
    (if pg_has_more page then pg_next_before page \<noteq> None \<and> pick (pg_next_before page) = drop (nat (aq_limit q)) found
     else pg_next_before page = None)"
proof -
  let ?n = "nat (aq_limit q)" and ?log = "log_of env (sq_db w)"
  let ?P = "selects (aq_action q) (aq_outcome q) actor target (aq_before q) period"
  let ?sel = "\<lambda>b. event_selected (aq_action q) (aq_outcome q) actor target b period"
  let ?found = "rev (filter (?sel (aq_before q)) ?log)"
  from assms(3-6) have limit: "1 \<le> aq_limit q" and run: "execute env True (read_page env ?n ?P) w = (Inr page, w')"
    by (auto simp: read_audit_def query_filter_def act_bind_def act_lift_def act_raise_def act_return_def split: if_splits)
  from execute_run [OF secures_page flags_page assms(1) run] have "effect (read_page env ?n ?P) (sq_db w) page (sq_db w')" by auto
  from effect_page [OF this] obtain rows where rows: "rows = take (Suc ?n) (rev (filter ?P (rows_of (sq_db w))))"
    "pg_events page = map (the \<circ> event_of_row) (take ?n rows)" "pg_has_more page = (?n < length rows)"
    "pg_next_before page = (if ?n < length rows then Some (ev_id (List.last (pg_events page))) else None)" by blast
  note found = found_rows [OF assms(2), of "aq_action q" "aq_outcome q" actor target "aq_before q" period]
  let ?L = "rev (filter ?P (rows_of (sq_db w)))"
  have same: "(the \<circ> event_of_row) r = (the \<circ> valid_event env) r" if "r \<in> set (take ?n ?L)" for r
  proof -
    from that have "r \<in> set (rows_of (sq_db w))" by (auto dest: in_set_takeD)
    from linked_valid [OF assms(2) this] valid_eventD show ?thesis by fastforce
  qed
  have "pg_events page = map (the \<circ> event_of_row) (take ?n ?L)" by (simp add: rows(1,2) min_def)
  also have "\<dots> = map (the \<circ> valid_event env) (take ?n ?L)" using same by (rule map_cong [OF refl])
  finally have events: "pg_events page = take ?n ?found" by (simp add: found take_map)
  have more: "pg_has_more page = (?n < length ?found)" unfolding rows(3) rows(1) by (simp add: found)
  have cursor: "pg_next_before page = Some (ev_id (?found ! (?n - 1)))" if m: "?n < length ?found"
  proof -
    from m limit have "List.last (take ?n ?found) = ?found ! (?n - 1)" by (subst last_conv_nth) auto
    with m more rows(3,4) events show ?thesis by simp
  qed
  have "0 < ?n" using limit by simp
  note rest = rest_of_page [OF assms(2) this, of "aq_action q" "aq_outcome q" actor target "aq_before q" period]
  show ?thesis unfolding Let_def using events more cursor rest rows(3,4) by auto
qed

theorem pages_partition_the_log_witness:
  "\<exists>page w'. read_audit tiny_audit tiny_query (tiny_store one_event_log False) = (Inr page, w') \<and> pg_events page = [tiny_event]"
proof -
  from tiny_page obtain page w' where run: "read_audit tiny_audit tiny_query (tiny_store one_event_log False) = (Inr page, w')" by blast
  from one_event_linked obtain s where s: "linked tiny_audit s (sq_db (tiny_store one_event_log False))" by auto
  have "reference tiny_audit (aq_actor tiny_query) = Some None" "reference tiny_audit (aq_target tiny_query) = Some None"
    "time_range tiny_audit (aq_start tiny_query) (aq_end tiny_query) = Inr None" by (simp_all add: tiny_query_def time_range_def)
  from pages_partition_the_log [OF tiny_store_simps(2) s run this] run show ?thesis
    by (simp add: Let_def one_event_log_of event_selected_def given_def tiny_query_def)
qed

end
