(* ===== verification/Audit_Opening.thy ===== *)
theory Audit_Opening
  imports Audit_Evidence
begin

text \<open>
  The constructor of \<open>OperatorAuditStore\<close>: the database is created when its file is missing, which the anchor in the
  account database forbids once the log was opened; a log is used only if its whole chain verifies.
\<close>

section \<open>Opening\<close>

text \<open>The store, the anchors of the account database, and whether the file of the log is there.\<close>

record audit_site =
  si_store :: audit_store
  si_anchors :: "anchor_table sql_conn"
  si_present :: bool

type_synonym 'a site_act = "(audit_site, audit_exn, 'a) act"

definition at_store :: "'a aud \<Rightarrow> 'a site_act" where
  "at_store m w = (case m (si_store w) of (r, s) \<Rightarrow> (r, w\<lparr>si_store := s\<rparr>))"

definition at_anchors :: "'a anc \<Rightarrow> 'a site_act" where
  "at_anchors m w =
     (case m (si_anchors w) of
        (Inl e, a) \<Rightarrow> (Inl Sqlite_Error, w\<lparr>si_anchors := a\<rparr>)
      | (Inr x, a) \<Rightarrow> (Inr x, w\<lparr>si_anchors := a\<rparr>))"

definition new_log :: "audit_env \<Rightarrow> audit_db \<Rightarrow> audit_db" where
  "new_log env d = \<lparr>al_state = [\<lparr>as_schema_version = Sql_Int 1, as_site_id = Sql_Text (ax_site env),
     as_anchor_id = Sql_Int 0, as_anchor_digest = Sql_Text ZERO_DIGEST, as_last_id = Sql_Int 0, as_last_digest = Sql_Text ZERO_DIGEST\<rparr>], al_events = []\<rparr>"

text \<open>\<open>own_site\<close>: the identity state of the directory names this site.\<close>

definition audit_open :: "audit_env \<Rightarrow> sql_env \<Rightarrow> bool \<Rightarrow> unit site_act" where
  "audit_open env anchors own_site =
     act_catch
      (if \<not> own_site then act_raise Audit_ValueError else
       act_bind (act_get si_present) (\<lambda>present.
       act_bind (at_anchors (anchor_open anchors (ax_site env) (py ''audit'') present)) (\<lambda>_.
       act_bind (act_update (\<lambda>w. w\<lparr>si_present := True\<rparr>)) (\<lambda>_.
       act_bind (at_store (audit_admit env)) (\<lambda>_.
       act_bind (act_update (\<lambda>w. w\<lparr>si_store := (si_store w)\<lparr>st_open := True\<rparr>\<rparr>)) (\<lambda>_.
       act_bind (act_when (\<not> present) (at_store (act_bind (sql_begin (ax_sql env)) (\<lambda>_.
         act_bind (sql_change (ax_sql env) (new_log env)) (\<lambda>_. sql_commit (ax_sql env)))))) (\<lambda>_.
       act_bind (at_store (sql_select (ax_sql env) (chain_verified env))) (\<lambda>ok.
       if \<not> ok then act_raise Audit_ValueError else
       act_bind (at_store (audit_admit env)) (\<lambda>_.
       at_anchors (anchor_seal anchors (ax_site env) (py ''audit'')))))))))))
      (\<lambda>_. act_bind (at_store close_audit) (\<lambda>_. act_raise OperatorAuditError))"

section \<open>What opening ensures\<close>

lemma at_anchors_Inr: "at_anchors m w = (Inr x, w') \<Longrightarrow> m (si_anchors w) = (Inr x, si_anchors w') \<and> si_store w' = si_store w \<and> si_present w' = si_present w"
  by (auto simp: at_anchors_def split: prod.splits sum.splits)

lemma at_store_Inr: "at_store m w = (Inr x, w') \<Longrightarrow> m (si_store w) = (Inr x, si_store w') \<and> si_anchors w' = si_anchors w \<and> si_present w' = si_present w"
  by (auto simp: at_store_def split: prod.splits)

lemma select_Inr: "sql_select env q c = (Inr x, c') \<Longrightarrow> x = q (sq_db c) \<and> sq_db c' = sq_db c"
  by (auto simp: sql_select_def sql_def sql_tick_def split: sql_outcome.splits)

lemma open_verified:
  assumes "audit_open env anchors own w = (Inr (), w')"
  shows "chain_verified env (sq_db (si_store w'))" and "anchor_of (ax_site env) (py ''audit'') (sq_db (si_anchors w')) \<noteq> None"
proof -
  from assms obtain w1 w2 w3 ok u where v: "at_store (sql_select (ax_sql env) (chain_verified env)) w1 = (Inr ok, w2)" "ok"
    and a: "at_store (audit_admit env) w2 = (Inr u, w3)" and s: "at_anchors (anchor_seal anchors (ax_site env) (py ''audit'')) w3 = (Inr (), w')"
    unfolding audit_open_def act_catch_def
    by (auto simp: bind_Inr split: prod.splits sum.splits if_splits)
  from at_store_Inr [OF v(1)] select_Inr v(2) have "chain_verified env (sq_db (si_store w2))" by fastforce
  with at_store_Inr [OF a] at_anchors_Inr [OF s] show "chain_verified env (sq_db (si_store w'))"
    by (auto simp: audit_admit_def dest!: select_Inr)
  from at_anchors_Inr [OF s] have "anchor_seal anchors (ax_site env) (py ''audit'') (si_anchors w3) = (Inr (), si_anchors w')" by simp
  from anchor_seal_seals [OF this] show "anchor_of (ax_site env) (py ''audit'') (sq_db (si_anchors w')) \<noteq> None" by simp
qed

text \<open>A log that was opened and lost is not started anew.\<close>

lemma lost_log_is_not_recreated:
  assumes "audit_open env anchors own w = (Inr (), w1)" and "audit_open env anchors' own' (w1\<lparr>si_present := False\<rparr>) = (r, w2)"
  shows "isl r \<and> sq_db (si_store w2) = sq_db (si_store w1)"
proof -
  let ?w = "w1\<lparr>si_present := False\<rparr>"
  have sealed: "anchor_of (ax_site env) (py ''audit'') (sq_db (si_anchors w1)) \<noteq> None" using open_verified(2) [OF assms(1)] .
  obtain r0 c0 where o: "anchor_open anchors' (ax_site env) (py ''audit'') False (si_anchors w1) = (r0, c0)" by fastforce
  with anchor_open_needs_state [OF sealed, where present = False] obtain e where "r0 = Inl e" by (cases r0) fastforce+
  with assms(2) o show ?thesis
    by (auto simp: audit_open_def at_anchors_def at_store_def close_audit_def act_catch_def act_bind_def act_get_def act_raise_def act_update_def
      split: if_splits)
qed

end
