(* ===== verification/Audit_Middleware.thy ===== *)
theory Audit_Middleware
  imports Audit_Log
begin

text \<open>
  \<open>src/src/k5vision/operator_audit_middleware.py\<close>: every request that may change something is announced in the
  audit log before the application sees it, and its outcome is recorded afterwards.

  The application is a parameter, a function of the request's context and the world: what it does to its own
  state and to the log, whether it raises, the status of the last response it started and the actor it has set.
  \<open>ax_uuid\<close> is \<open>UUID(text)\<close>.
\<close>

section \<open>Regular expressions\<close>

text \<open>The constructs of \<open>re\<close> that the rules use; \<open>Chars p m n\<close> is a character class repeated \<open>m\<close> to \<open>n\<close> times.\<close>

datatype regex = Text pystr | Chars "nat \<Rightarrow> bool" nat nat | Target regex | Seq regex regex | Alt regex regex

text \<open>The ways to match a beginning of a text, in the order of preference: what is left, and the group \<open>target\<close>.\<close>

fun matches :: "regex \<Rightarrow> pystr \<Rightarrow> (pystr \<times> pystr option) list" where
  "matches (Text t) s = (if take (length t) s = t then [(drop (length t) s, None)] else [])"
| "matches (Chars p m n) s = map (\<lambda>k. (drop k s, None)) (rev [m..<Suc (min n (length (takeWhile p s)))])"
| "matches (Target r) s = map (\<lambda>(u, _). (u, Some (take (length s - length u) s))) (matches r s)"
| "matches (Seq r q) s =
     concat (map (\<lambda>(u, a). map (\<lambda>(v, b). (v, if b = None then a else b)) (matches q u)) (matches r s))"
| "matches (Alt r q) s = matches r s @ matches q s"

definition fullmatch :: "regex \<Rightarrow> pystr \<Rightarrow> pystr option option" where
  "fullmatch r s = map_option snd (find (\<lambda>(u, _). u = []) (matches r s))"

definition id_char :: "nat \<Rightarrow> bool" where
  "id_char c \<longleftrightarrow> 48 \<le> c \<and> c \<le> 57 \<or> 97 \<le> c \<and> c \<le> 102 \<or> 65 \<le> c \<and> c \<le> 70 \<or> c = 45"

definition ID :: regex where
  "ID = Target (Chars id_char 36 36)"

definition PREFIX :: pystr where
  "PREFIX = py ''/api/v1/operator''"

section \<open>Rules\<close>

abbreviation under :: "string \<Rightarrow> regex" where
  "under s \<equiv> Text (PREFIX @ py s)"

abbreviation camera_id :: "regex \<Rightarrow> regex" where
  "camera_id r \<equiv> Seq (under ''/cameras/'') (Seq ID r)"

abbreviation word :: "string \<Rightarrow> regex" where
  "word s \<equiv> Text (py s)"

type_synonym rule = "pystr \<times> regex \<times> pystr \<times> pystr"

definition mk_rule :: "string \<Rightarrow> regex \<Rightarrow> string \<Rightarrow> string \<Rightarrow> rule" where
  "mk_rule method r action kind = (py method, r, py action, py kind)"

definition RULES :: "rule list" where
  "RULES =
     [mk_rule ''POST'' (word ''/api/v1/auth/login'') ''auth.login'' ''session'',
      mk_rule ''POST'' (word ''/api/v1/auth/logout'') ''auth.logout'' ''session'',
      mk_rule ''POST'' (word ''/api/v1/auth/bootstrap-password'') ''auth.activate'' ''user'',
      mk_rule ''POST'' (word ''/api/v1/auth/mfa'') ''auth.mfa'' ''session'',
      mk_rule ''POST'' (Seq (word ''/api/v1/auth/oidc/'') (Alt (word ''start'') (word ''complete''))) ''auth.sso'' ''session'',
      mk_rule ''GET'' (word ''/api/v1/auth/oidc/callback'') ''auth.sso'' ''session'',
      mk_rule ''POST'' (Seq (under ''/security/mfa/'') (Alt (word ''enroll'') (Alt (word ''confirm'') (Alt (word ''disable'') (word ''recovery-codes'')))))
        ''security.mfa.configure'' ''user'',
      mk_rule ''PUT'' (under ''/admin/sso/provider'') ''security.sso.configure'' ''security'',
      mk_rule ''POST'' (under ''/admin/sso/provider/test'') ''security.sso.configure'' ''security'',
      mk_rule ''POST'' (under ''/admin/sso/links'') ''security.sso.configure'' ''security'',
      mk_rule ''DELETE'' (Seq (under ''/admin/sso/links/'') ID) ''security.sso.configure'' ''user'',
      mk_rule ''POST'' (under ''/camera-discovery'') ''camera.discover'' ''camera'',
      mk_rule ''POST'' (under ''/camera-profiles'') ''camera.probe'' ''camera'',
      mk_rule ''POST'' (under ''/camera-stream-probe'') ''camera.probe'' ''camera'',
      mk_rule ''POST'' (Seq (under ''/cameras'') (Alt (word ''/connect'') (Alt (word ''/stream-connect'') (Text [])))) ''camera.enroll'' ''camera'',
      mk_rule ''POST'' (camera_id (word ''/reconnect'')) ''camera.reconnect'' ''camera'',
      mk_rule ''DELETE'' (Seq (under ''/cameras/'') ID) ''camera.remove'' ''camera'',
      mk_rule ''PUT'' (camera_id (word ''/recording'')) ''recording.configure'' ''camera'',
      mk_rule ''PATCH'' (camera_id (word ''/analytics'')) ''analytics.configure'' ''camera'',
      mk_rule ''POST'' (camera_id (word ''/exports'')) ''export.prepare'' ''camera'',
      mk_rule ''GET'' (camera_id (Seq (word ''/exports/'') (Seq (Chars id_char 36 36) (word ''/file'')))) ''export.download'' ''camera'',
      mk_rule ''GET'' (Seq (word ''/media/exports/'') (Seq ID (Seq (word ''/'') (Seq (Chars id_char 36 36) (word ''.mp4'')))))
        ''export.download'' ''camera'',
      mk_rule ''POST'' (under ''/admin/users'') ''user.create'' ''user'',
      mk_rule ''PATCH'' (Seq (under ''/admin/users/'') ID) ''user.configure'' ''user'',
      mk_rule ''PUT'' (Seq (under ''/admin/users/'') (Seq ID (word ''/camera-access''))) ''user.camera_access'' ''user'',
      mk_rule ''POST'' (Seq (under ''/admin/users/'') (Seq ID (word ''/reset-password''))) ''user.reset_password'' ''user'',
      mk_rule ''GET'' (under ''/admin/activity/export'') ''audit.export'' ''site'']"

text \<open>A request's action, the kind of its target and the target.\<close>

type_synonym subject = "pystr \<times> pystr \<times> user_uuid option"

fun first_rule :: "rule list \<Rightarrow> pystr \<Rightarrow> pystr \<Rightarrow> (pystr \<times> pystr \<times> pystr option) option" where
  "first_rule [] method path = None"
| "first_rule ((m, r, action, kind) # rules) method path =
     (case (if m = method then fullmatch r path else None) of
        Some t \<Rightarrow> Some (action, kind, t)
      | None \<Rightarrow> first_rule rules method path)"

definition MUTATING :: "pystr list" where
  "MUTATING = [py ''POST'', py ''PUT'', py ''PATCH'', py ''DELETE'']"

definition AREAS :: "(pystr \<times> pystr \<times> pystr) list" where
  "AREAS =
     [(py ''/admin/storage'', py ''storage.configure'', py ''storage''),
      (py ''/admin/time'', py ''time.configure'', py ''time''),
      (py ''/admin/integrations'', py ''integration.configure'', py ''integration''),
      (py ''/admin/security'', py ''security.configure'', py ''security''),
      (py ''/admin/roles'', py ''role.configure'', py ''role'')]"

definition path_starts :: "pystr \<Rightarrow> pystr \<Rightarrow> bool" where
  "path_starts s t \<longleftrightarrow> take (length t) s = t"

definition path_ends :: "pystr \<Rightarrow> pystr \<Rightarrow> bool" where
  "path_ends s t \<longleftrightarrow> path_starts (rev s) (rev t)"

definition in_area :: "pystr \<Rightarrow> pystr \<Rightarrow> bool" where
  "in_area path area \<longleftrightarrow> path = PREFIX @ area \<or> path_starts path (PREFIX @ area @ py ''/'')"

text \<open>The action of a request to the administration, which depends on its last segment and its method.\<close>

definition area_action :: "pystr \<Rightarrow> pystr \<Rightarrow> pystr \<times> pystr \<times> pystr \<Rightarrow> pystr" where
  "area_action method path area =
     (case area of (_, action, kind) \<Rightarrow>
        if kind = py ''time'' \<and> (path_ends path (py ''/resync'') \<or> path_ends path (py ''/synchronize'')) then py ''time.resync''
        else if kind = py ''integration'' \<and> path_ends path (py ''/test'') then py ''integration.test''
        else if kind = py ''role'' \<and> method = py ''DELETE'' then py ''role.remove''
        else action)"

definition camera_time :: regex where
  "camera_time = camera_id (Seq (word ''/time'') (Alt (Seq (word ''/'') (Chars (\<lambda>c. c \<noteq> 47) 1 32)) (Text [])))"

definition classify_time :: "audit_env \<Rightarrow> pystr \<Rightarrow> subject option" where
  "classify_time env path =
     (case fullmatch camera_time path of
        Some (Some t) \<Rightarrow>
          map_option (\<lambda>u.
            (if path_ends path (py ''/sync'') \<or> path_ends path (py ''/synchronize'') then py ''time.camera.sync'' else py ''time.camera.configure'',
             py ''camera'', Some u)) (ax_uuid env t)
      | _ \<Rightarrow> None)"

definition classify_auth :: "pystr \<Rightarrow> subject option" where
  "classify_auth path =
     (if path_starts path (py ''/api/v1/auth/mfa/'') then Some (py ''auth.mfa'', py ''session'', None)
      else if path_starts path (py ''/api/v1/auth/sso/'') then Some (py ''auth.sso'', py ''session'', None)
      else None)"

definition classify :: "audit_env \<Rightarrow> pystr \<Rightarrow> pystr \<Rightarrow> subject option" where
  "classify env method path =
     (case first_rule RULES method path of
        Some (action, kind, None) \<Rightarrow> Some (action, kind, None)
      | Some (action, kind, Some t) \<Rightarrow> map_option (\<lambda>u. (action, kind, Some u)) (ax_uuid env t)
      | None \<Rightarrow>
          if method \<notin> set MUTATING then None else
          (case find (\<lambda>(p, _). in_area path p) AREAS of
             Some area \<Rightarrow> Some (area_action method path area, snd (snd area), None)
           | None \<Rightarrow> (case classify_time env path of Some c \<Rightarrow> Some c | None \<Rightarrow> classify_auth path)))"

text \<open>A request that only reads: refusals of it are recorded.\<close>

definition camera_read :: regex where
  "camera_read = camera_id (Text [])"

definition read_target :: "audit_env \<Rightarrow> pystr \<Rightarrow> user_uuid option" where
  "read_target env path =
     (case matches camera_read path of
        (rest, Some t) # _ \<Rightarrow> if path_starts rest (py ''/'') \<or> rest = [] \<or> rest = [10] then ax_uuid env t else None
      | _ \<Rightarrow> None)"

definition access_of :: "audit_env \<Rightarrow> pystr \<Rightarrow> pystr \<Rightarrow> subject option" where
  "access_of env method path =
     (if method = py ''GET'' \<and> (path_starts path (PREFIX @ py ''/'') \<or> path = py ''/api/v1/auth/me'')
      then (let t = read_target env path in Some (py ''security.access'', if t = None then py ''site'' else py ''camera'', t))
      else None)"

section \<open>Calls\<close>

record 'w site_world =
  sw_audit :: audit_store
  sw_app :: 'w

record app_end =
  en_raised :: bool
  en_status :: "int option"
  en_actor :: "pystr option"

type_synonym 'w application = "request_context option \<Rightarrow> 'w site_world \<Rightarrow> app_end \<times> 'w site_world"

text \<open>
  An awaited recording runs in a thread. A cancellation finds it queued, and it never runs, or running, and it
  goes on; the second recording is shielded, so it runs in either case.
\<close>

datatype handoff = Awaited | Cancelled_Queued | Cancelled_Running

record call_env =
  ce_request_id :: user_uuid
  ce_announce :: handoff
  ce_complete_cancelled :: bool

record asgi_request =
  rq_http :: bool
  rq_method :: pystr
  rq_path :: pystr

text \<open>What the caller sees: the end of the application, 503, a cancellation, or an error that is not caught.\<close>

datatype reply = Ended app_end | Audit_Unavailable | Cancelled | Broken

definition store_record :: "audit_env \<Rightarrow> request_context \<Rightarrow> audit_args \<Rightarrow> 'w site_world \<Rightarrow> (audit_exn raised + int) \<times> 'w site_world" where
  "store_record env c a w = (case record_audit env (Some c) a (sw_audit w) of (r, s) \<Rightarrow> (r, w\<lparr>sw_audit := s\<rparr>))"

text \<open>\<open>except (OperatorAuditError, ValueError)\<close>\<close>

definition caught :: "audit_exn raised \<Rightarrow> bool" where
  "caught e \<longleftrightarrow> e = Exn OperatorAuditError \<or> e = Exn Audit_ValueError"

definition event_args :: "subject \<Rightarrow> pystr \<Rightarrow> pystr \<Rightarrow> pystr option \<Rightarrow> int option \<Rightarrow> audit_args" where
  "event_args c outcome request_id actor status =
     (case c of (action, kind, target) \<Rightarrow>
        \<lparr>ag_action = action, ag_outcome = outcome, ag_actor = (case actor of None \<Rightarrow> Ref_None | Some t \<Rightarrow> Ref_text t),
         ag_target_id = (case target of None \<Rightarrow> Ref_None | Some u \<Rightarrow> Ref_uuid u), ag_target_kind = Some kind,
         ag_request_id = Ref_text request_id, ag_status_code = status, ag_changes = Inst [], ag_details = None\<rparr>)"

definition outcome_of :: "app_end \<Rightarrow> pystr" where
  "outcome_of r =
     (if en_raised r then py ''interrupted'' else
      case en_status r of
        None \<Rightarrow> py ''failure''
      | Some n \<Rightarrow>
          if n = 401 \<or> n = 403 then py ''denied''
          else if n = 202 \<or> 300 \<le> n \<and> n < 400 then py ''started''
          else if n < 400 then py ''success''
          else py ''failure'')"

definition failed_status :: "int option \<Rightarrow> bool" where
  "failed_status x \<longleftrightarrow> (case x of None \<Rightarrow> False | Some n \<Rightarrow> 400 \<le> n)"

text \<open>The application and the record of its outcome.\<close>

definition observed :: "audit_env \<Rightarrow> call_env \<Rightarrow> 'w application \<Rightarrow> subject \<Rightarrow> bool \<Rightarrow> 'w site_world \<Rightarrow> reply \<times> 'w site_world" where
  "observed env ce app c attempt w =
     (let id = uuid_text (ce_request_id ce) in
      case app (Some \<lparr>rc_request_id = id, rc_actor_id = None\<rparr>) w of
        (r, w1) \<Rightarrow>
          if attempt \<or> failed_status (en_status r) then
            (case store_record env \<lparr>rc_request_id = id, rc_actor_id = en_actor r\<rparr> (event_args c (outcome_of r) id (en_actor r) (en_status r)) w1 of
               (x, w2) \<Rightarrow>
                 (if ce_complete_cancelled ce then Cancelled
                  else case x of Inl e \<Rightarrow> if caught e then Ended r else Broken | Inr _ \<Rightarrow> Ended r, w2))
          else (Ended r, w1))"

text \<open>The announcement, without which the application is not called.\<close>

definition announced :: "audit_env \<Rightarrow> call_env \<Rightarrow> 'w application \<Rightarrow> subject \<Rightarrow> 'w site_world \<Rightarrow> reply \<times> 'w site_world" where
  "announced env ce app c w =
     (let id = uuid_text (ce_request_id ce) in
      if ce_announce ce = Cancelled_Queued then (Cancelled, w) else
      case store_record env \<lparr>rc_request_id = id, rc_actor_id = None\<rparr> (event_args c (py ''started'') id None None) w of
        (x, w1) \<Rightarrow>
          if ce_announce ce = Cancelled_Running then (Cancelled, w1) else
          (case x of
             Inl e \<Rightarrow> (if caught e then Audit_Unavailable else Broken, w1)
           | Inr _ \<Rightarrow> observed env ce app c True w1))"

definition audit_call :: "audit_env \<Rightarrow> call_env \<Rightarrow> 'w application \<Rightarrow> asgi_request \<Rightarrow> 'w site_world \<Rightarrow> reply \<times> 'w site_world" where
  "audit_call env ce app q w =
     (case if rq_http q then classify env (rq_method q) (rq_path q) else None of
        Some c \<Rightarrow> announced env ce app c w
      | None \<Rightarrow>
          (case if rq_http q then access_of env (rq_method q) (rq_path q) else None of
             Some c \<Rightarrow> observed env ce app c False w
           | None \<Rightarrow> (case app None w of (r, w1) \<Rightarrow> (Ended r, w1))))"

end
