(* ===== verification/Audit_Trail.thy ===== *)
theory Audit_Trail
  imports Audit_Middleware Audit_Evidence
begin

text \<open>
  What the middleware promises: the application sees a request that may change something only after the log holds
  its announcement; the outcome is recorded, or the store is latched and nothing audited is done any more.
\<close>

section \<open>Worlds and events\<close>

definition log_at :: "audit_env \<Rightarrow> 'w site_world \<Rightarrow> audit_event list" where
  "log_at env w = log_of env (committed (sw_audit w))"

definition trail_ok :: "audit_env \<Rightarrow> 'w site_world \<Rightarrow> bool" where
  "trail_ok env w \<longleftrightarrow> tx_closed (sw_audit w) \<and> chain_verified env (sq_db (sw_audit w))"

text \<open>The log of \<open>w'\<close> is that of \<open>w\<close> with \<open>e\<close> at its end, cut to the last 100000.\<close>

definition extends :: "audit_env \<Rightarrow> 'w site_world \<Rightarrow> audit_event \<Rightarrow> 'w site_world \<Rightarrow> bool" where
  "extends env w e w' \<longleftrightarrow> log_at env w' = drop (length (log_at env w) + 1 - 100000) (log_at env w @ [e])"

text \<open>The event says this of a request.\<close>

definition reports :: "audit_env \<Rightarrow> subject \<Rightarrow> pystr \<Rightarrow> user_uuid \<Rightarrow> pystr option \<Rightarrow> int option \<Rightarrow> audit_event \<Rightarrow> bool" where
  "reports env c outcome request_id actor status e \<longleftrightarrow>
     ev_action e = fst c \<and> ev_outcome e = outcome \<and> ev_target_kind e = Some (fst (snd c)) \<and>
     ev_target_id e = map_option uuid_text (snd (snd c)) \<and> canonical_id env (uuid_text request_id) = Some (ev_request_id e) \<and>
     ev_actor_id e = (case actor of None \<Rightarrow> None | Some t \<Rightarrow> canonical_id env t) \<and> ev_status_code e = status"

lemma new_event_describes:
  assumes "new_event env (Some \<lparr>rc_request_id = uuid_text i, rc_actor_id = actor\<rparr>) (event_args c outcome (uuid_text i) actor status) n = Some e"
  shows "reports env c outcome i actor status (e\<lparr>ev_id := j\<rparr>)"
  using assms
  by (auto simp: new_event_def event_args_def reports_def Let_def falsy_def split: option.splits prod.splits if_splits)

text \<open>What is reported of a request makes an event that validates, at this moment.\<close>

definition recordable :: "audit_env \<Rightarrow> subject \<Rightarrow> pystr \<Rightarrow> user_uuid \<Rightarrow> pystr option \<Rightarrow> int option \<Rightarrow> nat \<Rightarrow> bool" where
  "recordable env c outcome i actor status n \<longleftrightarrow>
     new_event env (Some \<lparr>rc_request_id = uuid_text i, rc_actor_id = actor\<rparr>) (event_args c outcome (uuid_text i) actor status) n \<noteq> None"

lemma recording_run:
  assumes env: "audit_env_ok env" and ok: "trail_ok env w"
    and run: "store_record env \<lparr>rc_request_id = uuid_text i, rc_actor_id = actor\<rparr> (event_args c outcome (uuid_text i) actor status) w = (r, w')"
  shows "sw_app w' = sw_app w \<and>
    (\<not> recordable env c outcome i actor status (sq_tick (sw_audit w)) \<and> r = Inl (Exn Audit_ValueError) \<and> log_at env w' = log_at env w \<and> trail_ok env w' \<or>
     r = Inl (Exn OperatorAuditError) \<and> st_failed (sw_audit w') \<and> log_at env w' = log_at env w \<or>
     (\<exists>e. reports env c outcome i actor status e \<and> extends env w e w' \<and>
        (isl r \<longrightarrow> r = Inl (Exn OperatorAuditError) \<and> st_failed (sw_audit w')) \<and>
        (\<not> isl r \<longrightarrow> trail_ok env w' \<and> \<not> st_failed (sw_audit w))))"
proof -
  let ?c = "\<lparr>rc_request_id = uuid_text i, rc_actor_id = actor\<rparr>" and ?a = "event_args c outcome (uuid_text i) actor status"
  from run obtain s' where rec: "record_audit env (Some ?c) ?a (sw_audit w) = (r, s')" and w': "w' = w\<lparr>sw_audit := s'\<rparr>"
    by (auto simp: store_record_def split: prod.splits)
  from ok have idle: "tx_closed (sw_audit w)" by (simp add: trail_ok_def)
  from ok obtain s where l: "linked env s (sq_db (sw_audit w))" by (auto simp: trail_ok_def verified_linked)
  have c: "committed (sw_audit w) = sq_db (sw_audit w)" using idle by (simp add: tx_closed_def)
  from record_run [OF env idle l rec] show ?thesis
    by (auto simp: w' log_at_def c extends_def trail_ok_def tx_closed_def recordable_def dest: new_event_describes)
qed

lemma recording_failed:
  assumes "st_failed (sw_audit w)" and "store_record env x a w = (r, w')"
  shows "isl r \<and> (\<forall>e. r = Inl e \<longrightarrow> caught e) \<and> st_failed (sw_audit w') \<and> log_at env w' = log_at env w \<and> sw_app w' = sw_app w"
proof -
  let ?s = "sw_audit w"
  obtain s' where rec: "record_audit env (Some x) a ?s = (r, s')" and w': "w' = w\<lparr>sw_audit := s'\<rparr>"
    using assms(2) by (auto simp: store_record_def split: prod.splits)
  have t: "st_failed (sql_tick ?s)" "committed (sql_tick ?s) = committed ?s" using assms(1) by (simp_all add: sql_tick_def committed_def split: option.split)
  have "(r = Inl (Exn OperatorAuditError) \<or> r = Inl (Exn Audit_ValueError)) \<and> st_failed s' \<and> committed s' = committed ?s"
  proof (cases "new_event env (Some x) a (sq_tick ?s)")
    case None
    with rec t show ?thesis by (auto simp: record_audit_def audit_reading_def act_bind_def act_raise_def)
  next
    case (Some e)
    with rec have "execute env False (write_event env e) (sql_tick ?s) = (r, s')"
      by (simp add: record_audit_def audit_reading_def act_bind_def)
    with t show ?thesis by (auto simp: execute_def act_catch_def act_bind_def act_get_def act_raise_def dest: latch_run)
  qed
  then show ?thesis by (auto simp: w' log_at_def caught_def)
qed

section \<open>Announcements and outcomes\<close>

text \<open>A request that the rules list, and a call of the middleware that does not reach the application.\<close>

definition audited_request :: "audit_env \<Rightarrow> asgi_request \<Rightarrow> subject \<Rightarrow> bool" where
  "audited_request env q c \<longleftrightarrow> rq_http q \<and> classify env (rq_method q) (rq_path q) = Some c"

definition unreached :: "audit_env \<Rightarrow> call_env \<Rightarrow> asgi_request \<Rightarrow> 'w site_world \<Rightarrow> reply \<Rightarrow> 'w site_world \<Rightarrow> bool" where
  "unreached env ce q w reply w' \<longleftrightarrow>
     (\<forall>app. audit_call env ce app q w = (reply, w')) \<and> sw_app w' = sw_app w \<and> reply \<in> {Audit_Unavailable, Cancelled}"

lemma audit_call_audited: "audited_request env q c \<Longrightarrow> audit_call env ce app q w = announced env ce app c w"
  by (simp add: audited_request_def audit_call_def)

lemma audited_run:
  assumes env: "audit_env_ok env" and ok: "trail_ok env w" and q: "audited_request env q c" and run: "audit_call env ce app q w = (reply, w')"
  shows "unreached env ce q w reply w' \<and>
      (log_at env w' = log_at env w \<or> (\<exists>e. reports env c (py ''started'') (ce_request_id ce) None None e \<and> extends env w e w')) \<or>
    (\<exists>e w1. reports env c (py ''started'') (ce_request_id ce) None None e \<and> extends env w e w1 \<and> trail_ok env w1 \<and>
      \<not> st_failed (sw_audit w) \<and> sw_app w1 = sw_app w \<and> observed env ce app c True w1 = (reply, w'))"
proof -
  let ?id = "uuid_text (ce_request_id ce)"
  obtain x w1 where rec: "store_record env \<lparr>rc_request_id = ?id, rc_actor_id = None\<rparr> (event_args c (py ''started'') ?id None None) w = (x, w1)"
    by fastforce
  from recording_run [OF env ok rec] run show ?thesis
    unfolding unreached_def audit_call_audited [OF q] announced_def Let_def rec
    by (cases x) (auto simp: caught_def split: if_splits)
qed

lemma failed_unreached:
  assumes f: "st_failed (sw_audit w)" and q: "audited_request env q c"
  shows "\<exists>reply w'. unreached env ce q w reply w' \<and> log_at env w' = log_at env w \<and> st_failed (sw_audit w')"
proof -
  let ?id = "uuid_text (ce_request_id ce)"
  obtain x w1 where rec: "store_record env \<lparr>rc_request_id = ?id, rc_actor_id = None\<rparr> (event_args c (py ''started'') ?id None None) w = (x, w1)"
    by fastforce
  from recording_failed [OF f rec] f show ?thesis
    unfolding unreached_def audit_call_audited [OF q] announced_def Let_def rec
    by (cases x; cases "ce_announce ce") auto
qed

lemma observed_run:
  assumes env: "audit_env_ok env" and app: "app (Some \<lparr>rc_request_id = uuid_text (ce_request_id ce), rc_actor_id = None\<rparr>) w = (r, w1)"
    and ok: "trail_ok env w1" and run: "observed env ce app c True w = (reply, w')"
  shows "sw_app w' = sw_app w1 \<and> reply \<in> {Ended r, Cancelled} \<and>
    ((\<exists>e. reports env c (outcome_of r) (ce_request_id ce) (en_actor r) (en_status r) e \<and> extends env w1 e w') \<or>
     log_at env w' = log_at env w1 \<and>
       (st_failed (sw_audit w') \<or>
        \<not> recordable env c (outcome_of r) (ce_request_id ce) (en_actor r) (en_status r) (sq_tick (sw_audit w1))))"
proof -
  let ?id = "uuid_text (ce_request_id ce)"
  obtain x w2 where rec: "store_record env \<lparr>rc_request_id = ?id, rc_actor_id = en_actor r\<rparr>
      (event_args c (outcome_of r) ?id (en_actor r) (en_status r)) w1 = (x, w2)" by fastforce
  from recording_run [OF env ok rec] run show ?thesis
    unfolding observed_def Let_def app by (cases x) (auto simp: rec caught_def split: if_splits)
qed

text \<open>A request that creates an account, an application that counts its calls, and a world with an empty log.\<close>

definition tiny_http_request :: asgi_request where
  "tiny_http_request = \<lparr>rq_http = True, rq_method = py ''POST'', rq_path = PREFIX @ py ''/admin/users''\<rparr>"

definition tiny_call :: call_env where
  "tiny_call = \<lparr>ce_request_id = 5, ce_announce = Awaited, ce_complete_cancelled = False\<rparr>"

definition tiny_audit_site :: "bool \<Rightarrow> nat site_world" where
  "tiny_audit_site failed = \<lparr>sw_audit = tiny_store empty_log failed, sw_app = 0\<rparr>"

definition counting :: "nat application" where
  "counting c w = (\<lparr>en_raised = False, en_status = Some 201, en_actor = None\<rparr>, w\<lparr>sw_app := sw_app w + 1\<rparr>)"

lemma tiny_classified: "classify tiny_audit (py ''POST'') (PREFIX @ py ''/admin/users'') = Some (py ''user.create'', py ''user'', None)"
  by code_simp

lemma tiny_audited: "audited_request tiny_audit tiny_http_request (py ''user.create'', py ''user'', None)"
  by (simp add: audited_request_def tiny_http_request_def tiny_classified)

lemma tiny_site_ok: "trail_ok tiny_audit (tiny_audit_site failed)"
  using empty_linked by (auto simp: trail_ok_def tiny_audit_site_def verified_linked)

lemma tiny_empty_state: "read_state tiny_audit empty_log = Some empty_state"
  using linkedD(1) [OF empty_linked] .

lemma tiny_announced: "\<exists>i s. execute tiny_audit False (write_event tiny_audit e) (sql_tick (tiny_store empty_log False)) = (Inr i, s)"
proof -
  have sql: "ax_sql tiny_audit = (\<lambda>_. Sql_Done)" by (simp add: tiny_audit_def)
  have d: "al_events empty_log = []" "ch_last_id empty_state = 0" "ch_anchor_id empty_state = 0" by (simp_all add: empty_log_def empty_state_def)
  show ?thesis
    by (simp add: execute_def audit_admit_def write_event_def get_state_def retain_def act_bind_def act_catch_def act_get_def act_return_def act_when_def
      sql_select_def sql_change_def sql_begin_def sql_commit_def sql_def sql sql_tick_def tiny_store_def tiny_empty_state d insert_event_def Let_def in_transaction_def)
qed

lemma tiny_recordable: "recordable tiny_audit (py ''user.create'', py ''user'', None) (py ''started'') 5 None None n"
  by (simp add: recordable_def new_event_def event_args_def tiny_audit_def audit_event_ok_def given_def canonical_id_def details_of_def no_details_def
    converted_def ACTIONS_def OUTCOMES_def TARGET_KINDS_def CHANGE_FIELDS_def Let_def falsy_def)

lemma tiny_reached:
  assumes "audit_call tiny_audit tiny_call app tiny_http_request (tiny_audit_site False) = (reply, w')"
  shows "reply \<noteq> Audit_Unavailable \<and> reply \<noteq> Cancelled"
proof -
  let ?ctx = "Some \<lparr>rc_request_id = uuid_text 5, rc_actor_id = None\<rparr>"
    and ?args = "event_args (py ''user.create'', py ''user'', None) (py ''started'') (uuid_text 5) None None"
  from tiny_recordable obtain e where e: "new_event tiny_audit ?ctx ?args 0 = Some e" by (auto simp: recordable_def)
  from tiny_announced [of e] obtain i s where "execute tiny_audit False (write_event tiny_audit e) (sql_tick (tiny_store empty_log False)) = (Inr i, s)"
    by blast
  with e have "record_audit tiny_audit ?ctx ?args (tiny_store empty_log False) = (Inr i, s)"
    by (simp add: record_audit_def audit_reading_def act_bind_def) (simp add: tiny_store_def)
  with assms show ?thesis
    by (auto simp: audit_call_audited [OF tiny_audited] announced_def store_record_def tiny_call_def tiny_audit_site_def observed_def Let_def
      split: prod.splits sum.splits if_splits)
qed

text \<open>
  C11: the application is called for an audited request only in a world whose log is verified and ends with the
  announcement of this request, from a store that has not failed; in every other case it is not called, its state
  stays, the caller gets 503 or a cancellation, and the log gains at most the announcement.
\<close>

theorem nothing_is_done_unannounced:
  assumes env: "audit_env_ok env" and ok: "trail_ok env w" and q: "audited_request env q c" and run: "audit_call env ce app q w = (reply, w')"
  shows "unreached env ce q w reply w' \<and>
      (log_at env w' = log_at env w \<or> (\<exists>e. reports env c (py ''started'') (ce_request_id ce) None None e \<and> extends env w e w')) \<or>
    (\<exists>e w1. reports env c (py ''started'') (ce_request_id ce) None None e \<and> extends env w e w1 \<and> trail_ok env w1 \<and>
      \<not> st_failed (sw_audit w) \<and> sw_app w1 = sw_app w \<and> observed env ce app c True w1 = (reply, w'))"
  by (rule audited_run [OF assms])

theorem nothing_is_done_unannounced_witness:
  "\<exists>reply w'. audit_call tiny_audit tiny_call counting tiny_http_request (tiny_audit_site True) = (reply, w') \<and> sw_app w' = 0"
proof -
  obtain reply w' where run: "audit_call tiny_audit tiny_call counting tiny_http_request (tiny_audit_site True) = (reply, w')" by fastforce
  from nothing_is_done_unannounced [OF tiny_audit_ok tiny_site_ok tiny_audited run]
  have "sw_app w' = 0" by (auto simp: unreached_def tiny_audit_site_def)
  with run show ?thesis by blast
qed

text \<open>
  A call that reached the application: after the announcement, from \<open>w1\<close> to \<open>w2\<close>, and then the outcome was recorded, or
  the store was latched, or the report of the outcome does not validate.
\<close>

definition served :: "audit_env \<Rightarrow> call_env \<Rightarrow> 'w application \<Rightarrow> subject \<Rightarrow> 'w site_world \<Rightarrow> reply \<Rightarrow> 'w site_world \<Rightarrow> bool" where
  "served env ce app c w reply w' \<longleftrightarrow>
     (\<exists>w1 r w2. (\<exists>e. reports env c (py ''started'') (ce_request_id ce) None None e \<and> extends env w e w1) \<and> sw_app w1 = sw_app w \<and>
      app (Some \<lparr>rc_request_id = uuid_text (ce_request_id ce), rc_actor_id = None\<rparr>) w1 = (r, w2) \<and>
      sw_app w' = sw_app w2 \<and> reply \<in> {Ended r, Cancelled} \<and>
      ((\<exists>e. reports env c (outcome_of r) (ce_request_id ce) (en_actor r) (en_status r) e \<and> extends env w2 e w') \<or>
       log_at env w' = log_at env w2 \<and>
         (st_failed (sw_audit w') \<or>
          \<not> recordable env c (outcome_of r) (ce_request_id ce) (en_actor r) (en_status r) (sq_tick (sw_audit w2)))))"

text \<open>
  C12: when the application has served an audited request, its outcome is at the end of the log, under the number of
  the request, with the actor and the status; or the log is what the application left, and the store is latched, or
  the report of the outcome does not validate. Once the store is latched, no audited request reaches an application.
  The application, which may serve other requests meanwhile, is assumed to keep the log verified (\<open>keeps\<close>).
\<close>

theorem outcomes_are_recorded_or_auditing_stops:
  assumes env: "audit_env_ok env" and ok: "trail_ok env w" and q: "audited_request env q c" and run: "audit_call env ce app q w = (reply, w')"
    and keeps: "\<And>x v r v1. trail_ok env v \<Longrightarrow> app x v = (r, v1) \<Longrightarrow> trail_ok env v1"
  shows "(unreached env ce q w reply w' \<or> served env ce app c w reply w') \<and>
    (st_failed (sw_audit w') \<longrightarrow> (\<forall>ce' q' c'. audited_request env q' c' \<longrightarrow>
      (\<exists>reply' w''. unreached env ce' q' w' reply' w'' \<and> log_at env w'' = log_at env w')))"
proof (intro conjI impI allI)
  from audited_run [OF env ok q run] show "unreached env ce q w reply w' \<or> served env ce app c w reply w'"
  proof
    assume "\<exists>e w1. reports env c (py ''started'') (ce_request_id ce) None None e \<and> extends env w e w1 \<and> trail_ok env w1 \<and>
      \<not> st_failed (sw_audit w) \<and> sw_app w1 = sw_app w \<and> observed env ce app c True w1 = (reply, w')"
    then obtain w1 where w0: "\<exists>e. reports env c (py ''started'') (ce_request_id ce) None None e \<and> extends env w e w1"
      and w1: "trail_ok env w1" "sw_app w1 = sw_app w" "observed env ce app c True w1 = (reply, w')" by blast
    obtain r w2 where r: "app (Some \<lparr>rc_request_id = uuid_text (ce_request_id ce), rc_actor_id = None\<rparr>) w1 = (r, w2)" by fastforce
    from observed_run [OF env r keeps [OF w1(1) r] w1(3)] w0 w1(2) r have "served env ce app c w reply w'"
      unfolding served_def by blast
    then show ?thesis ..
  qed blast
next
  fix ce' q' c'
  assume "st_failed (sw_audit w')" and "audited_request env q' c'"
  from failed_unreached [OF this, of ce'] show "\<exists>reply' w''. unreached env ce' q' w' reply' w'' \<and> log_at env w'' = log_at env w'" by blast
qed

theorem outcomes_are_recorded_or_auditing_stops_witness:
  "\<exists>reply w'. audit_call tiny_audit tiny_call counting tiny_http_request (tiny_audit_site False) = (reply, w') \<and>
    served tiny_audit tiny_call counting (py ''user.create'', py ''user'', None) (tiny_audit_site False) reply w'"
proof -
  obtain reply w' where run: "audit_call tiny_audit tiny_call counting tiny_http_request (tiny_audit_site False) = (reply, w')" by fastforce
  have keeps: "trail_ok tiny_audit v1" if "trail_ok tiny_audit v" "counting x v = (r, v1)" for x v r v1
    using that by (auto simp: counting_def trail_ok_def)
  have "unreached tiny_audit tiny_call tiny_http_request (tiny_audit_site False) reply w' \<or>
      served tiny_audit tiny_call counting (py ''user.create'', py ''user'', None) (tiny_audit_site False) reply w'"
    using conjunct1 [OF outcomes_are_recorded_or_auditing_stops [OF tiny_audit_ok tiny_site_ok tiny_audited run]] keeps by blast
  with run tiny_reached [OF run] show ?thesis unfolding unreached_def by blast
qed

section \<open>Classification\<close>

lemma RULES_valid: "list_all (\<lambda>(m, r, a, k). a \<in> set ACTIONS \<and> k \<in> set TARGET_KINDS) RULES"
  by (simp add: RULES_def mk_rule_def ACTIONS_def TARGET_KINDS_def)

lemma AREAS_valid: "list_all (\<lambda>(p, a, k). a \<in> set ACTIONS \<and> k \<in> set TARGET_KINDS) AREAS"
  by (simp add: AREAS_def ACTIONS_def TARGET_KINDS_def)

text \<open>How every match of an expression begins, and texts that cannot begin the same text.\<close>

fun beginning :: "regex \<Rightarrow> pystr" where
  "beginning (Text t) = t"
| "beginning (Chars p m n) = []"
| "beginning (Target r) = beginning r"
| "beginning (Seq r q) = beginning r"
| "beginning (Alt r q) = []"

fun clashes :: "'a list \<Rightarrow> 'a list \<Rightarrow> bool" where
  "clashes (x # xs) (y # ys) \<longleftrightarrow> x \<noteq> y \<or> clashes xs ys"
| "clashes _ _ \<longleftrightarrow> False"

lemma clashes_py [simp]: "clashes (py s) (py t) \<longleftrightarrow> clashes s t"
  by (induction s t rule: clashes.induct) (simp_all add: py_def)

lemma clashes_append [simp]: "clashes (s @ t) (s @ u) \<longleftrightarrow> clashes t u"
  by (induction s) simp_all

lemma clashes_prefix [simp]: "clashes (py s) (PREFIX @ py t) \<longleftrightarrow> clashes s (''/api/v1/operator'' @ t)"
  unfolding PREFIX_def clashes_py [symmetric] by (simp add: py_def)

lemma clashes_beyond: "clashes s t \<Longrightarrow> take (length s) (t @ x) \<noteq> s"
  by (induction s t rule: clashes.induct) auto

lemma no_match: "take (length (beginning r)) s \<noteq> beginning r \<Longrightarrow> matches r s = []"
  by (induction r arbitrary: s) auto

lemma RULES_areas: "list_all (\<lambda>(m, r, a, k). list_all (\<lambda>(p, _). clashes (beginning r) (PREFIX @ p)) AREAS) RULES"
  by (simp add: RULES_def mk_rule_def AREAS_def)

lemma fullmatch_clash: "clashes (beginning r) t \<Longrightarrow> fullmatch r (t @ x) = None"
  by (simp add: fullmatch_def no_match [OF clashes_beyond])

lemma first_rule_relevant:
  "first_rule rules method (t @ x) = first_rule (filter (\<lambda>(m, r, a, k). \<not> clashes (beginning r) t) rules) method (t @ x)"
proof (induction rules)
  case (Cons rule rules)
  obtain m r a k where rule: "rule = (m, r, a, k)" by (cases rule) auto
  show ?case
  proof (cases "clashes (beginning r) t")
    case True
    with Cons show ?thesis by (simp add: rule fullmatch_clash)
  next
    case False
    with Cons show ?thesis by (cases "fullmatch r (t @ x)") (simp_all add: rule)
  qed
qed simp

lemma starts_clash: "clashes p t \<Longrightarrow> \<not> path_starts (t @ x) p"
  using clashes_beyond by (simp add: path_starts_def del: take_append)

lemma in_areaE:
  assumes "in_area path p"
  obtains x where "path = (PREFIX @ p) @ x"
proof (cases "path = PREFIX @ p")
  case False
  let ?t = "PREFIX @ p @ py ''/''"
  from assms False have "take (length ?t) path = ?t" by (simp add: in_area_def path_starts_def)
  with append_take_drop_id [of "length ?t" path] have "path = ?t @ drop (length ?t) path" by metis
  then have "path = (PREFIX @ p) @ py ''/'' @ drop (length ?t) path" by (simp only: append.assoc)
  with that show ?thesis by blast
qed (use that [of "[]"] in simp)

lemma find_in: "find P xs = Some x \<Longrightarrow> x \<in> set xs \<and> P x"
  by (induction xs) (auto split: if_splits)

lemma AREAS_disjoint: "\<forall>a\<in>set AREAS. \<forall>b\<in>set AREAS. a \<noteq> b \<longrightarrow> clashes (PREFIX @ fst a) (PREFIX @ fst b)"
  by (simp add: AREAS_def)

lemma matches_ID:
  assumes "list_all id_char x" and "y = [] \<or> \<not> id_char (hd y)"
  shows "matches ID (x @ y) = (if length x < 36 then [] else [(drop 36 x @ y, Some (take 36 x))])"
proof -
  have "takeWhile id_char (x @ y) = x"
    using assms by (cases y) (auto simp: list_all_iff takeWhile_append)
  then show ?thesis by (auto simp: ID_def min_def)
qed

lemma administration_classified:
  assumes "method \<in> set MUTATING" and area: "area \<in> set AREAS"
    and under: "path = PREFIX @ fst area \<or> (\<exists>rest. path = PREFIX @ fst area @ py ''/'' @ rest)"
  shows "classify env method path = Some (area_action method path area, snd (snd area), None)"
    and "area_action method path area \<in> set ACTIONS" and "snd (snd area) \<in> set TARGET_KINDS"
proof -
  have path: "in_area path (fst area)" using under by (auto simp: in_area_def path_starts_def)
  from in_areaE [OF path] obtain x where x: "path = (PREFIX @ fst area) @ x" .
  have "list_all (\<lambda>(m, r, a, k). clashes (beginning r) (PREFIX @ fst area)) RULES"
    using RULES_areas area by (fastforce simp: list_all_iff)
  then have "filter (\<lambda>(m, r, a, k). \<not> clashes (beginning r) (PREFIX @ fst area)) RULES = []"
    by (auto simp: list_all_iff filter_empty_conv)
  then have none: "first_rule RULES method path = None" unfolding x by (subst first_rule_relevant) simp
  have "find (\<lambda>(p, _). in_area path p) AREAS = Some area"
  proof -
    obtain p a k where p: "area = (p, a, k)" by (rule prod_cases3)
    have "find (\<lambda>(p, _). in_area path p) AREAS \<noteq> None" using area path by (auto simp: find_None_iff p)
    then obtain b where b: "find (\<lambda>(p, _). in_area path p) AREAS = Some b" by blast
    from find_in [OF b] have "b \<in> set AREAS" and "in_area path (fst b)" by auto
    moreover from in_areaE [OF this(2)] obtain y where "path = (PREFIX @ fst b) @ y" .
    ultimately have "b = area" using AREAS_disjoint area clashes_beyond [of "PREFIX @ fst b" "PREFIX @ fst area" x] x by auto
    with b show ?thesis by simp
  qed
  with none assms(1) show "classify env method path = Some (area_action method path area, snd (snd area), None)"
    by (simp add: classify_def)
  show "snd (snd area) \<in> set TARGET_KINDS" using AREAS_valid area by (auto simp: list_all_iff)
  moreover have "fst (snd area) \<in> set ACTIONS" using AREAS_valid area by (auto simp: list_all_iff)
  moreover have "py ''time.resync'' \<in> set ACTIONS" "py ''integration.test'' \<in> set ACTIONS" "py ''role.remove'' \<in> set ACTIONS"
    by (simp_all add: ACTIONS_def)
  ultimately show "area_action method path area \<in> set ACTIONS" by (auto simp: area_action_def split: prod.split)
qed

lemma path_ends_suffix: "path_ends s t \<longleftrightarrow> suffix t s"
  by (metis append_eq_conv_conj path_ends_def path_starts_def prefix_def rev_append rev_rev_ident suffix_def)

text \<open>
  C13: every request with a method that changes something and a path in one of the five areas of the administration
  is classified, without a target, under the kind of its area and the action of its area, of which
  three have a special case; and the log accepts the action and the kind.
\<close>

theorem administration_is_audited:
  assumes "method = py ''POST'' \<or> method = py ''PUT'' \<or> method = py ''PATCH'' \<or> method = py ''DELETE''"
    and "area = (py ''/admin/storage'', py ''storage.configure'', py ''storage'') \<or>
      area = (py ''/admin/time'', py ''time.configure'', py ''time'') \<or>
      area = (py ''/admin/integrations'', py ''integration.configure'', py ''integration'') \<or>
      area = (py ''/admin/security'', py ''security.configure'', py ''security'') \<or>
      area = (py ''/admin/roles'', py ''role.configure'', py ''role'')"
    and "area = (place, usual, kind)"
    and "path = py ''/api/v1/operator'' @ place \<or> (\<exists>rest. path = py ''/api/v1/operator'' @ place @ py ''/'' @ rest)"
    and "action = (if kind = py ''time'' \<and> (suffix (py ''/resync'') path \<or> suffix (py ''/synchronize'') path) then py ''time.resync''
      else if kind = py ''integration'' \<and> suffix (py ''/test'') path then py ''integration.test''
      else if kind = py ''role'' \<and> method = py ''DELETE'' then py ''role.remove''
      else usual)"
  shows "classify env method path = Some (action, kind, None) \<and> action \<in> set ACTIONS \<and> kind \<in> set TARGET_KINDS"
proof -
  have m: "method \<in> set MUTATING" using assms(1) by (auto simp: MUTATING_def)
  have a: "area \<in> set AREAS" unfolding AREAS_def using assms(2) by auto
  have "path = PREFIX @ fst area \<or> (\<exists>rest. path = PREFIX @ fst area @ py ''/'' @ rest)"
    using assms(4) by (simp add: assms(3) PREFIX_def)
  note c = administration_classified [OF m a this]
  have "area_action method path area = action"
    by (simp only: area_action_def assms(3,5) prod.case path_ends_suffix)
  with c show ?thesis by (simp add: assms(3))
qed

theorem administration_is_audited_witness:
  "classify tiny_audit (py ''DELETE'') (py ''/api/v1/operator/admin/roles/7'') = Some (py ''role.remove'', py ''role'', None)"
proof -
  have d: "py ''DELETE'' = py ''POST'' \<or> py ''DELETE'' = py ''PUT'' \<or> py ''DELETE'' = py ''PATCH'' \<or> py ''DELETE'' = py ''DELETE''"
    by simp
  have p: "py ''/api/v1/operator/admin/roles/7'' = py ''/api/v1/operator'' @ py ''/admin/roles'' \<or>
    (\<exists>rest. py ''/api/v1/operator/admin/roles/7'' = py ''/api/v1/operator'' @ py ''/admin/roles'' @ py ''/'' @ rest)"
    by (intro disjI2 exI [of _ "py ''7''"]) (simp add: py_def)
  show ?thesis
    using administration_is_audited [OF d disjI2 [OF disjI2 [OF disjI2 [OF disjI2 [OF refl]]]] refl p refl, of tiny_audit] by simp
qed

lemma users_rules:
  "filter (\<lambda>(m, r, a, k). \<not> clashes (beginning r) (PREFIX @ py ''/admin/users/'')) RULES =
     [mk_rule ''POST'' (under ''/admin/users'') ''user.create'' ''user'',
      mk_rule ''PATCH'' (Seq (under ''/admin/users/'') ID) ''user.configure'' ''user'',
      mk_rule ''PUT'' (Seq (under ''/admin/users/'') (Seq ID (word ''/camera-access''))) ''user.camera_access'' ''user'',
      mk_rule ''POST'' (Seq (under ''/admin/users/'') (Seq ID (word ''/reset-password''))) ''user.reset_password'' ''user'']"
  by (simp add: RULES_def mk_rule_def)

lemma users_elsewhere:
  "find (\<lambda>(p, _). in_area (PREFIX @ py ''/admin/users/'' @ x) p) AREAS = None"
  "classify_time env (PREFIX @ py ''/admin/users/'' @ x) = None" "classify_auth (PREFIX @ py ''/admin/users/'' @ x) = None"
proof -
  let ?path = "PREFIX @ py ''/admin/users/'' @ x"
  have "\<not> in_area ?path (fst a)" if "a \<in> set AREAS" for a
  proof
    assume "in_area ?path (fst a)"
    then obtain y where y: "?path = (PREFIX @ fst a) @ y" by (rule in_areaE)
    have "clashes (PREFIX @ fst a) (PREFIX @ py ''/admin/users/'')" using that by (auto simp: AREAS_def)
    from clashes_beyond [OF this, of x] y show False by simp
  qed
  then show "find (\<lambda>(p, _). in_area ?path p) AREAS = None" by (auto simp: find_None_iff)
  have "clashes (beginning camera_time) (PREFIX @ py ''/admin/users/'')" by (simp add: camera_time_def)
  from fullmatch_clash [OF this, of x] show "classify_time env ?path = None" by (simp add: classify_time_def)
  have "clashes (py ''/api/v1/auth/mfa/'') (PREFIX @ py ''/admin/users/'')" "clashes (py ''/api/v1/auth/sso/'') (PREFIX @ py ''/admin/users/'')"
    by simp_all
  from starts_clash [OF this(1), of x] starts_clash [OF this(2), of x] show "classify_auth ?path = None" by (simp add: classify_auth_def)
qed

text \<open>The identifier and the rest of the path; the rest begins with a slash, so it does not belong to the identifier.\<close>

lemma fullmatch_users:
  assumes x: "list_all id_char x" and y: "y = [] \<or> \<not> id_char (hd y)"
  shows "fullmatch (Seq (under ''/admin/users/'') ID) (PREFIX @ py ''/admin/users/'' @ x) = (if length x = 36 then Some (Some x) else None)"
    and "fullmatch (Seq (under ''/admin/users/'') (Seq ID (Text y))) (PREFIX @ py ''/admin/users/'' @ x @ y) = (if length x = 36 then Some (Some x) else None)"
proof -
  let ?t = "PREFIX @ py ''/admin/users/''"
  have t: "matches (Seq (Text t) r) (t @ z) = matches r z" for t r z
    by (induction "matches r z") (auto split: prod.split)
  show "fullmatch (Seq (under ''/admin/users/'') ID) (PREFIX @ py ''/admin/users/'' @ x) = (if length x = 36 then Some (Some x) else None)"
    using t [of ?t ID x] matches_ID [OF x, of "[]"] by (simp add: fullmatch_def del: matches.simps)
  have far: "take (length y) (drop 36 x @ y) = y \<longleftrightarrow> length x = 36 \<or> y = []" if "36 \<le> length x"
  proof (cases "36 < length x")
    case True
    then obtain c cs where c: "drop 36 x = c # cs" by (cases "drop 36 x") auto
    from x have "id_char c" by (metis c in_set_dropD list.set_intros(1) list_all_iff)
    with c y True show ?thesis by (cases y) auto
  qed (use that in simp)
  show "fullmatch (Seq (under ''/admin/users/'') (Seq ID (Text y))) (PREFIX @ py ''/admin/users/'' @ x @ y) = (if length x = 36 then Some (Some x) else None)"
    using t [of ?t "Seq ID (Text y)" "x @ y"] matches_ID [OF x y] far by (auto simp: fullmatch_def)
qed

lemma fullmatch_create: "fullmatch (under ''/admin/users'') (PREFIX @ py ''/admin/users/'' @ y) = None"
  by (simp add: fullmatch_def py_def)

text \<open>
  C14: of the spellings of an account's identifier by hexadecimal digits and dashes, exactly those with 36 characters
  make a change of the account classified: the middleware does not see a request that writes it without dashes.
\<close>

theorem account_changes_are_audited_by_spelling:
  assumes x: "list_all id_char x"
  shows "classify env (py ''PATCH'') (PREFIX @ py ''/admin/users/'' @ x) =
      (if length x = 36 then map_option (\<lambda>u. (py ''user.configure'', py ''user'', Some u)) (ax_uuid env x) else None) \<and>
    classify env (py ''PUT'') (PREFIX @ py ''/admin/users/'' @ x @ py ''/camera-access'') =
      (if length x = 36 then map_option (\<lambda>u. (py ''user.camera_access'', py ''user'', Some u)) (ax_uuid env x) else None) \<and>
    classify env (py ''POST'') (PREFIX @ py ''/admin/users/'' @ x @ py ''/reset-password'') =
      (if length x = 36 then map_option (\<lambda>u. (py ''user.reset_password'', py ''user'', Some u)) (ax_uuid env x) else None)"
proof -
  have rule: "classify env m (PREFIX @ py ''/admin/users/'' @ y) = (case first_rule
      [mk_rule ''POST'' (under ''/admin/users'') ''user.create'' ''user'',
       mk_rule ''PATCH'' (Seq (under ''/admin/users/'') ID) ''user.configure'' ''user'',
       mk_rule ''PUT'' (Seq (under ''/admin/users/'') (Seq ID (word ''/camera-access''))) ''user.camera_access'' ''user'',
       mk_rule ''POST'' (Seq (under ''/admin/users/'') (Seq ID (word ''/reset-password''))) ''user.reset_password'' ''user''] m
      (PREFIX @ py ''/admin/users/'' @ y) of
        Some (action, kind, Some t) \<Rightarrow> map_option (\<lambda>u. (action, kind, Some u)) (ax_uuid env t)
      | Some (action, kind, None) \<Rightarrow> Some (action, kind, None) | None \<Rightarrow> None)" for m y
    using first_rule_relevant [of RULES m "PREFIX @ py ''/admin/users/''" y]
    by (simp add: classify_def users_rules users_elsewhere split: option.split prod.split)
  have patch: "fullmatch (Seq (under ''/admin/users/'') ID) (PREFIX @ py ''/admin/users/'' @ x) = (if length x = 36 then Some (Some x) else None)"
    using fullmatch_users [OF x, of "[]"] by simp
  note sub = fullmatch_users [OF x, of "47 # _"]
  have words: "py ''/camera-access'' = 47 # py ''camera-access''" "py ''/reset-password'' = 47 # py ''reset-password''"
    by (simp_all add: py_def)
  have put: "fullmatch (Seq (under ''/admin/users/'') (Seq ID (word ''/camera-access''))) (PREFIX @ py ''/admin/users/'' @ x @ py ''/camera-access'') =
      (if length x = 36 then Some (Some x) else None)" using sub by (simp add: words id_char_def)
  have post: "fullmatch (Seq (under ''/admin/users/'') (Seq ID (word ''/reset-password''))) (PREFIX @ py ''/admin/users/'' @ x @ py ''/reset-password'') =
      (if length x = 36 then Some (Some x) else None)" using sub by (simp add: words id_char_def)
  have methods: "py ''POST'' \<noteq> py ''PATCH''" "py ''PUT'' \<noteq> py ''PATCH''" "py ''PUT'' \<noteq> py ''POST''" "py ''PATCH'' \<noteq> py ''PUT''" "py ''PATCH'' \<noteq> py ''POST''"
    "py ''POST'' \<noteq> py ''PUT''" by simp_all
  show ?thesis
    unfolding rule mk_rule_def first_rule.simps by (simp only: patch put post fullmatch_create methods simp_thms if_True if_False option.case split: if_split) simp
qed

theorem account_changes_are_audited_by_spelling_witness:
  "classify tiny_audit (py ''PATCH'') (PREFIX @ py ''/admin/users/'' @ replicate 32 97) = None \<and>
    classify tiny_audit (py ''POST'') (PREFIX @ py ''/admin/users/'' @ replicate 36 97 @ py ''/reset-password'') =
      Some (py ''user.reset_password'', py ''user'', Some 5)"
proof -
  have "list_all id_char (replicate n 97)" for n by (simp add: list_all_iff id_char_def)
  note t = account_changes_are_audited_by_spelling [OF this, of tiny_audit]
  from t [of 32] t [of 36] show ?thesis by (simp only: length_replicate) (simp add: tiny_audit_def)
qed

section \<open>Events that validate\<close>

lemma first_rule_in: "first_rule rules m path = Some (a, k, t) \<Longrightarrow> \<exists>r. (m, r, a, k) \<in> set rules"
  by (induction rules m path rule: first_rule.induct) (auto split: option.splits if_splits)

lemma literals_valid:
  "set (map py [''time.camera.sync'', ''time.camera.configure'', ''auth.mfa'', ''auth.sso'', ''security.access'', ''time.resync'',
     ''integration.test'', ''role.remove'']) \<subseteq> set ACTIONS"
  "set (map py [''camera'', ''session'', ''site'']) \<subseteq> set TARGET_KINDS"
  by (simp_all add: ACTIONS_def TARGET_KINDS_def)

lemma elsewhere_valid:
  "classify_time env path = Some c \<Longrightarrow> fst c \<in> set ACTIONS \<and> fst (snd c) \<in> set TARGET_KINDS"
  "classify_auth path = Some c \<Longrightarrow> fst c \<in> set ACTIONS \<and> fst (snd c) \<in> set TARGET_KINDS"
  "access_of env m path = Some c \<Longrightarrow> fst c \<in> set ACTIONS \<and> fst (snd c) \<in> set TARGET_KINDS"
  "area \<in> set AREAS \<Longrightarrow> area_action m path area \<in> set ACTIONS \<and> snd (snd area) \<in> set TARGET_KINDS"
  using literals_valid AREAS_valid
  by (auto simp: classify_time_def classify_auth_def access_of_def area_action_def Let_def list_all_iff split: option.splits if_splits)

lemma subject_valid:
  assumes "classify env m path = Some c \<or> access_of env m path = Some c"
  shows "fst c \<in> set ACTIONS" and "fst (snd c) \<in> set TARGET_KINDS"
proof -
  have "fst c \<in> set ACTIONS \<and> fst (snd c) \<in> set TARGET_KINDS" if cl: "classify env m path = Some c"
  proof (cases "first_rule RULES m path")
    case None
    then show ?thesis
    proof (cases "find (\<lambda>(p, _). in_area path p) AREAS")
      case area: (Some area)
      from find_in [OF area] None area cl elsewhere_valid(4) [of area m path] show ?thesis
        by (auto simp: classify_def split: if_splits)
    next
      case nowhere: None
      with None cl elsewhere_valid(1,2) show ?thesis
        by (auto simp: classify_def split: if_splits option.splits)
    qed
  next
    case (Some x)
    obtain a k t where x: "x = (a, k, t)" by (rule prod_cases3)
    from first_rule_in [OF Some [unfolded x]] RULES_valid have "a \<in> set ACTIONS" "k \<in> set TARGET_KINDS"
      by (auto simp: list_all_iff)
    with cl Some x show ?thesis by (cases t) (auto simp: classify_def)
  qed
  with assms elsewhere_valid(3) show "fst c \<in> set ACTIONS" "fst (snd c) \<in> set TARGET_KINDS" by blast+
qed

lemma outcome_valid: "outcome_of r \<in> set OUTCOMES" "py ''started'' \<in> set OUTCOMES"
  by (simp_all add: outcome_of_def OUTCOMES_def split: option.split)

text \<open>
  C15: what the middleware reports of a request validates, whenever the clock can be read, the identifiers are read
  back as they are written, and the status is one of HTTP: an announcement is refused only by the store.
\<close>

theorem reports_validate:
  assumes c: "classify env m path = Some c \<or> access_of env m path = Some c"
    and elapsed: "ax_elapsed env n = Some x" "0 \<le> x" "x < 2 ^ 63" and now: "ax_utc_now env n = Some t" "ax_utc env t = Some t"
    and ids: "canonical_id env (ax_run_id env) = Some (ax_run_id env)"
      "\<And>u. u = i \<or> snd (snd c) = Some u \<Longrightarrow> canonical_id env (uuid_text u) = Some (uuid_text u)"
    and actor: "\<And>a. en_actor r = Some a \<Longrightarrow> canonical_id env a = Some a"
    and status: "\<And>s. en_status r = Some s \<Longrightarrow> 100 \<le> s \<and> s \<le> 599"
  shows "recordable env c (py ''started'') i None None n \<and> recordable env c (outcome_of r) i (en_actor r) (en_status r) n"
proof -
  note v = subject_valid [OF c] outcome_valid
  obtain a k t' where ct: "c = (a, k, t')" by (rule prod_cases3)
  have i: "canonical_id env (uuid_text i) = Some (uuid_text i)" using ids(2) by simp
  have floor: "0 \<le> \<lfloor>x\<rfloor>" "\<lfloor>x\<rfloor> < 2 ^ 63" using elapsed(2,3) by (simp_all add: floor_less_iff)
  have none: "details_of env no_details = Some no_details" by (simp add: details_of_def no_details_def converted_def given_def)
  have "recordable env c outcome i actor st n"
    if o: "outcome \<in> set OUTCOMES" and ac: "\<And>a. actor = Some a \<Longrightarrow> canonical_id env a = Some a" and st: "\<And>s. st = Some s \<Longrightarrow> 100 \<le> s \<and> s \<le> 599"
    for outcome actor st
  proof -
    let ?e = "\<lparr>ev_id = 1, ev_occurred_at = t, ev_run_id = ax_run_id env, ev_elapsed_ms = \<lfloor>x\<rfloor>, ev_request_id = uuid_text i,
        ev_actor_id = actor, ev_action = a, ev_outcome = outcome, ev_target_kind = Some k, ev_target_id = map_option uuid_text t',
        ev_status_code = st, ev_changes = [], ev_details = no_details\<rparr>"
    have e: "audit_event_ok env ?e"
      using v o floor ids now i none ac st ct by (auto simp: audit_event_ok_def given_def CHANGE_FIELDS_def split: option.split)
    have actor: "reference env (case actor of None \<Rightarrow> Ref_None | Some t \<Rightarrow> Ref_text t) = Some actor"
      using ac by (auto split: option.split)
    have target: "reference env (case t' of None \<Rightarrow> Ref_None | Some u \<Rightarrow> Ref_uuid u) = Some (map_option uuid_text t')"
      by (auto split: option.split)
    have request: "reference env (Ref_text (uuid_text i)) = Some (Some (uuid_text i))" using i by simp
    have "new_event env (Some \<lparr>rc_request_id = uuid_text i, rc_actor_id = actor\<rparr>) (event_args c outcome (uuid_text i) actor st) n = Some ?e"
      using elapsed now e by (cases actor; use actor in \<open>simp add: new_event_def event_args_def ct target request Let_def del: reference.simps(2,3)\<close>)
    then show ?thesis by (simp add: recordable_def)
  qed
  from this [OF v(4), of None None] this [OF v(3) actor status] show ?thesis by simp
qed

theorem reports_validate_witness:
  "recordable tiny_audit (py ''user.create'', py ''user'', None) (py ''started'') 5 None None 0 \<and>
    recordable tiny_audit (py ''user.create'', py ''user'', None) (py ''success'') 5 None (Some 201) 0"
proof -
  let ?r = "\<lparr>en_raised = False, en_status = Some 201, en_actor = None\<rparr>"
  note c = disjI1 [OF tiny_classified]
  have "outcome_of ?r = py ''success''" by (simp add: outcome_of_def)
  with reports_validate [OF c, of 0 7 "[50]" 5 ?r] show ?thesis
    by (simp add: tiny_audit_def canonical_id_def)
qed

end
