(* ===== verification/Spec2Isabelle.thy ===== *)
theory Spec2Isabelle
  imports Viewport_Stack Viewport_Editor Viewport_History_Control Viewport_Catalog Viewport_Projection
    Viewport_Dispatch Presentation_Frame Descriptor_Text Recorder Playback_Control Playback_Session Rtp_Delivery Auth_Sessions
    Shared_Registry Role_Policy_Life Admin_Safety Audit_Opening Audit_Trail
begin

text \<open>
  K5-Vision records and plays back network cameras for one site. This library models its own core
  logic; paths below are under \<^verbatim>\<open>src/src/k5vision/\<close>.

  \<^bold>\<open>The parts and how they interact.\<close> A camera's RTP packets reach a consumer through
  \<open>EphemeralRtpDelivery\<close>. The consumer may be a \<open>BoundedRtpRecorder\<close>, which writes them through a
  recording sink: an attempt marker, a partial file, a descriptor, and a rename that publishes. A
  finalized recording is read back through a chain of single-use generators (playback, timeline,
  navigation, window, schedule) that ends in a pump, which waits for the due time of every packet on
  a pausable clock and feeds a decoder bridge; a session makes the decoder and owns it. Decoded frames
  are validated and dispatched by logical slot into a viewport layout, which the operator edits,
  restacks, undoes and saves in a catalog. Who may do anything is decided by the user registry, a
  SQLite database of accounts and credentials, and by the session manager that binds tokens to it;
  role profiles, in a file of their own, narrow what an account may do. The routes that administer
  accounts and roles check their actor against both stores, and an audit log records what was done.

  \<^bold>\<open>Theories.\<close>
  \<^item> \<open>K5_Prelude\<close>: sums as results, dynamically typed arguments, awaited calls, generators, big-endian
    integers. \<open>Utf8\<close>: encoding and strict decoding. \<open>Py_Float\<close>: binary64 as the descriptor uses it,
    and roundings with its relative error (\<open>rounds_f64\<close>).
    \<open>One_Shot\<close>: the contract of an object that may run once, a locale that every playback layer and the
    decoder boundary interpret.
  \<^item> \<open>Viewport_Geometry\<close>, \<open>Viewport_Stack\<close>, \<open>Viewport_Editor\<close>, \<open>Viewport_History\<close>,
    \<open>Viewport_History_Control\<close>, \<open>Viewport_Catalog\<close>, \<open>Viewport_Projection\<close>, \<open>Viewport_Dispatch\<close>,
    \<open>Presentation_Frame\<close>: the files of those names in \<^verbatim>\<open>media/\<close>. A layout operation is a locale
    (\<open>layout_operation\<close>) that edits and stack changes interpret, so the invariants of a run hold for
    both and for their mixtures, below in this file.
  \<^item> \<open>Rtp_Packet\<close>, \<open>Rtp_Delivery\<close>: \<^verbatim>\<open>media/rtp_delivery.py\<close>.
  \<^item> \<open>File_System\<close> (names, inodes and the calls on them, each able to fail), \<open>Recording_Sink\<close> (the
    interface), \<open>Recording_Attempt\<close>, \<open>Recording_Descriptor\<close>, \<open>Descriptor_Text\<close>
    (its text and its parser, over \<open>Json_Text\<close>, the reader and writer of \<^verbatim>\<open>json\<close>), \<open>Sink_Base\<close>, \<open>File_Sink\<close>,
    \<open>Framed_Sink\<close>, \<open>Framed_Reader\<close>, \<open>Recorder\<close>: \<^verbatim>\<open>media/recording*.py\<close>, \<^verbatim>\<open>file_sink.py\<close> and
    \<^verbatim>\<open>framed_recording.py\<close>.
  \<^item> \<open>Playback\<close>, \<open>Playback_Timeline\<close>, \<open>Playback_Navigation\<close>, \<open>Playback_Window\<close>, \<open>Playback_Schedule\<close>,
    \<open>Playback_Pump\<close>, \<open>Playback_Control\<close>, \<open>Playback_Decode\<close>, \<open>Playback_Session\<close>: the files of those
    names in \<^verbatim>\<open>media/\<close>.
  \<^item> \<open>Sql_Store\<close> (a connection with explicit transactions, any statement able to fail, and the two
    judgements the registry proofs use: \<open>secures\<close>, what a computation leaves of the transaction, and
    \<open>effect\<close>, what it commits), \<open>User_Accounts\<close> (\<^verbatim>\<open>domain/users.py\<close>), \<open>User_Registry\<close>
    (\<^verbatim>\<open>services/user_registry.py\<close>), \<open>User_Authority\<close> (the operations refine an abstract step relation),
    \<open>User_Safety\<close> (what the steps preserve), \<open>User_Access\<close> (who gets in), \<open>Shared_Registry\<close> (several
    registries on one database), \<open>Auth_Sessions\<close>
    (\<^verbatim>\<open>auth_sessions.py\<close> and the binding to the registry in \<^verbatim>\<open>user_admin_api.py\<close>).
  \<^item> \<open>Json\<close> (values of \<^verbatim>\<open>json.loads\<close> and texts as code points), \<open>Component_Anchor\<close>
    (\<^verbatim>\<open>operator_component_state.py\<close>: which components a site has ever opened, kept in the account database).
  \<^item> \<open>Role_Policy\<close> (\<^verbatim>\<open>operator_role_policy.py\<close>, custom roles in a file of their own),
    \<open>Role_Policy_State\<close> (its states as data), \<open>Role_Policy_File\<close> (reading and replacing the file),
    \<open>Role_Policy_Guard\<close> (the last-administrator guard, in the locale \<open>user_directory\<close> of what the policy
    asks of the accounts), \<open>Role_Policy_Users\<close> (the registry provides that), \<open>Role_Policy_Life\<close>
    (interrupted assignments, lost files).
  \<^item> \<open>Role_Policy_Api\<close> and \<open>Operator_Admin\<close>: the changing routes of \<^verbatim>\<open>operator_role_policy_api.py\<close> and
    \<^verbatim>\<open>operator_admin_api.py\<close>. \<open>Admin_Frames\<close>, \<open>Admin_Accounts\<close>, \<open>Admin_Authority\<close> (who may do what, as an
    abstract state with guarded steps), \<open>Admin_Steps\<close>, \<open>Admin_Changes\<close> and \<open>Admin_Routes\<close> prove that every
    route refines those steps; \<open>Admin_Requests\<close>, \<open>Admin_Sessions\<close>, \<open>Admin_World\<close> and \<open>Admin_Safety\<close> state
    it for requests and their runs.
  \<^item> \<open>Audit_Log\<close> (\<^verbatim>\<open>operator_audit.py\<close>, an append-only log whose rows are linked by digests),
    \<open>Audit_Chain\<close>, \<open>Audit_Record\<close>, \<open>Audit_World\<close>, \<open>Audit_Evidence\<close> (what a verified log proves),
    \<open>Audit_Opening\<close> (a log that was lost is not silently replaced), and \<open>Audit_Middleware\<close> with
    \<open>Audit_Trail\<close> (\<^verbatim>\<open>operator_audit_middleware.py\<close>: no audited request without its announcement).
  \<^bold>\<open>How state and operations correspond.\<close> A class is a record of its fields, its constructor a function
  that validates and returns the record, a method a function to its result and the next record. Every
  \<open>raise\<close> is a value \<open>Inl\<close> that keeps the error code and drops the message. An argument whose class the
  code tests with \<open>isinstance\<close> has type \<open>'a dyn\<close>. Python's \<open>int\<close> is \<open>int\<close>, with the checks the code
  makes; bytes are 8-bit words and integers read from bytes keep the wire's bounds. Times and floats are
  rationals with a rounding function as a parameter, for which the theorems on due times assume the
  relative error of binary64 (\<open>rounds_f64\<close>); the descriptor computes in binary64 itself. An awaited call returns, raises, times out or is cancelled, as its environment says. Code that
  is not in the repository (the operating system's answers, codecs, hashes, clocks, random bytes,
  decoders, consumers) is a parameter, so the theorems hold for all of its answers.

  \<^bold>\<open>What the lemmas show.\<close> Round trips: a written recording reads back as the packets and their arrival
  times, descriptors and catalogs parse to what was serialized. Safety: nothing unverified is published
  or reported as verified, malformed files and packets are refused, a failed or cancelled run leaves a
  failed or cancelled state and releases what it holds. Liveness: a matching recording is decoded and
  paced to its end, if no RTP timestamp regresses. Equivalence and refinement: unwrapped timestamps, the pausable clock, the undo
  history as a tape, the projection's hit test, the registry's operations as atomic steps. Invariants:
  layouts, histories, dispatchers, schedules, session tables, registry tables, role states and audit logs
  stay well-formed. Access: who can log in, what ends a session, that an administrator remains, that no
  request exceeds what its actor holds. Evidence: a log can only be prolonged, two logs with the same head
  agree, a store that failed records nothing more.

  \<^bold>\<open>Bounds and fuel.\<close> There is no fuel. The waits of the pause control are \<open>partial_function (option)\<close>:
  a playback that is never resumed is the value \<open>None\<close>. The JSON reader is bounded by the depth the
  interpreter allows, as in the code. Generators are finite trees because a file or a list of
  datagrams is finite; the receive loop of a delivery recurses on the datagrams left and on its deadline, and its
  termination theorem assumes only that the clock advances. The limits of the code (64 viewports, 4096 invalid
  packets, 1..100 rows a page, and so on) are written where the code checks them.

  \<^bold>\<open>Not modelled.\<close> The other HTTP routes and the graphical windows (framework glue and Win32 calls), the native
  GStreamer and MediaMTX processes, ONVIF, OIDC and RTSP clients (network protocols through libraries),
  desktop setup, the installed product's process supervision, evidence documents that carry no logic,
  and the scripts. The manifest lists each with its reason. Within a modelled part: the opening of the SQLite
  file and its schema, logging, \<open>repr\<close>, and \<open>work_timeout\<close> of the pause control, whose effect is a
  timed-out call.
\<close>

section \<open>Layout operations together\<close>

datatype layout_event = LEdit viewport_edit | LStack viewport_stack_edit

fun layout_step :: "viewport_layout \<Rightarrow> layout_event \<Rightarrow> unit + viewport_layout" where
  "layout_step l (LEdit e) = map_err (\<lambda>_. ()) (apply_viewport_edit (Inst l) (Inst e))"
| "layout_step l (LStack e) = map_err (\<lambda>_. ()) (apply_viewport_stack (Inst l) (Inst e))"

interpretation layout_op: layout_operation layout_step
proof
  fix l x l'
  assume wf: "viewport_layout_wf l" and r: "layout_step l x = Inr l'"
  show "viewport_layout_wf l'" "layout_slots l' = layout_slots l"
    using r edit_op.step_wf [OF wf] edit_op.step_slots [OF wf] stack_op.step_wf [OF wf] stack_op.step_slots [OF wf]
    by (cases x; simp del: apply_viewport_edit.simps apply_viewport_stack.simps add: k5_inv)+
qed

text \<open>
  C38: any sequence of moves, resizes and stack changes that succeeds keeps the layout
  well-formed, keeps the logical slots and their order, and shows a geometry for the same slots.
\<close>

theorem layout_run_keeps_viewports:
  assumes "viewport_layout_wf l" and "run_layout_ops layout_step l xs = Inr l'"
  shows "viewport_layout_wf l' \<and> layout_slots l' = layout_slots l \<and> dom (by_slot l') = dom (by_slot l)"
  using layout_op.run_preserves [OF assms] layout_op.run_by_slot_dom [OF assms] by simp

theorem layout_run_keeps_viewports_witness:
  "\<exists>l'. run_layout_ops layout_step two_views
      [LStack \<lparr>vse_logical_slot = 7, vse_action = SEND_TO_BACK\<rparr>] = Inr l' \<and> layout_slots l' = [7, 3]"
proof -
  have "run_layout_ops layout_step two_views [LStack \<lparr>vse_logical_slot = 7, vse_action = SEND_TO_BACK\<rparr>] = Inr two_views"
    by (simp add: two_views_def stack_order_def upt_rec)
  from layout_run_keeps_viewports [OF two_views_wf this] this show ?thesis
    by (simp add: two_views_def)
qed

end
